(* ===== verification/Prelude_Bytes.thy ===== *)
theory Prelude_Bytes
  imports "HOL-Library.Word"
begin

text \<open>
  The shared vocabulary of the development: names for the machine integers of the firmware
  (\<open>uint8_t\<close> to \<open>uint64_t\<close> as words, so additions wrap exactly as in C++), byte arrays as
  lists, the little-endian \<open>put\<close>/\<open>get\<close> helpers that every persisted record of the firmware
  uses, and the generic machine interface of the state machines.
\<close>

unbundle bit_operations_syntax

type_synonym u8 = "8 word"
type_synonym u16 = "16 word"
type_synonym u32 = "32 word"
type_synonym u64 = "64 word"
type_synonym bytes = "8 word list"

named_theorems codec_simps \<open>rewrite rules for fields written and read in a byte array\<close>

section \<open>Lists used as fixed arrays\<close>

lemma list_all_upt_nth: "list_all P xs \<longleftrightarrow> (\<forall>i<length xs. P (xs ! i))"
  by (auto simp: list_all_length)

lemma take_update_beyond: "n \<le> i \<Longrightarrow> take n (xs[i := x]) = take n xs"
  by simp

definition zeros :: "bytes \<Rightarrow> nat \<Rightarrow> nat \<Rightarrow> bool" where
  "zeros b from to = list_all (\<lambda>i. b ! i = 0) [from..<to]"

lemma zeros_iff: "zeros b from to \<longleftrightarrow> (\<forall>i. from \<le> i \<and> i < to \<longrightarrow> b ! i = 0)"
  by (auto simp: zeros_def list_all_iff)

section \<open>Little-endian fields\<close>

text \<open>
  \<open>for(i<n) b[p+i]=uint8_t(v>>(8*i))\<close> and \<open>for(i<n) v|=uint64_t(b[p+i])<<(8*i)\<close>: one
  definition per direction, for every width of \<open>v\<close>.
\<close>

fun put_le :: "bytes \<Rightarrow> nat \<Rightarrow> 'a::len word \<Rightarrow> nat \<Rightarrow> bytes" where
  "put_le b p v 0 = b"
| "put_le b p v (Suc n) = (put_le b p v n)[p + n := ucast (drop_bit (8 * n) v)]"

fun get_le :: "bytes \<Rightarrow> nat \<Rightarrow> nat \<Rightarrow> 'a::len word" where
  "get_le b p 0 = 0"
| "get_le b p (Suc n) = get_le b p n OR push_bit (8 * n) (ucast (b ! (p + n)))"

lemma length_put_le [simp]: "length (put_le b p v n) = length b"
  by (induction n) auto

lemma nth_put_le:
  "put_le b p v n ! i =
     (if p \<le> i \<and> i < p + n \<and> i < length b then ucast (drop_bit (8 * (i - p)) v) else b ! i)"
proof (induction n)
  case 0
  show ?case by (simp split: if_splits) linarith
next
  case (Suc n)
  show ?case
  proof (cases "i = p + n \<and> i < length b")
    case True
    then show ?thesis by simp
  next
    case False
    then have "(put_le b p v n)[p + n := x] ! i = put_le b p v n ! i" for x
      by (metis length_put_le linorder_not_le list_update_beyond nth_list_update_neq)
    with Suc False show ?thesis by auto
  qed
qed

lemma nth_put_le_other [codec_simps]:
  "i < p \<or> p + n \<le> i \<Longrightarrow> put_le b p v n ! i = b ! i"
  by (auto simp: nth_put_le)

lemma take_put_le [codec_simps]: "k \<le> p \<Longrightarrow> take k (put_le b p v n) = take k b"
  by (rule nth_equalityI) (auto simp: nth_put_le)

lemma get_le_cong:
  "(\<And>i. i < n \<Longrightarrow> b ! (p + i) = b' ! (p + i)) \<Longrightarrow> get_le b p n = get_le b' p n"
  by (induction n) auto

lemma get_le_put_other [codec_simps]:
  "p + n \<le> q \<or> q + m \<le> p \<Longrightarrow> get_le (put_le b q v m) p n = get_le b p n"
  by (rule get_le_cong) (auto simp: nth_put_le)

lemma get_le_update_other [codec_simps]:
  "i < p \<or> p + n \<le> i \<Longrightarrow> get_le (b[i := x]) p n = get_le b p n"
  by (rule get_le_cong) auto

lemma bit_ucast_byte: "bit (ucast (x :: u8) :: 'a::len word) j \<longleftrightarrow> j < LENGTH('a) \<and> bit x j"
  by (simp add: bit_ucast_iff)

lemma bit_get_le:
  "bit (get_le b p n :: 'a::len word) k \<longleftrightarrow>
     k < LENGTH('a) \<and> k < 8 * n \<and> bit (b ! (p + k div 8)) (k mod 8)"
proof (induction n)
  case 0
  then show ?case by simp
next
  case (Suc n)
  have split: "bit (push_bit (8 * n) (ucast (b ! (p + n))) :: 'a word) k \<longleftrightarrow>
    k < LENGTH('a) \<and> 8 * n \<le> k \<and> bit (b ! (p + n)) (k - 8 * n)"
    by (auto simp: bit_push_bit_iff bit_ucast_byte)
  show ?case
  proof (cases "k < 8 * n")
    case True
    with Suc split show ?thesis by (auto simp: bit_or_iff)
  next
    case ge: False
    show ?thesis
    proof (cases "k < 8 * Suc n")
      case True
      with ge have d: "k div 8 = n" by (auto intro: div_nat_eqI)
      then have "k mod 8 = k - 8 * n" by (simp add: modulo_nat_def mult.commute)
      note this d
      with Suc split ge True show ?thesis by (auto simp: bit_or_iff)
    next
      case False
      then have "\<not> bit (b ! (p + n)) (k - 8 * n)"
        using bit_imp_le_length [of "b ! (p + n)" "k - 8 * n"] by auto
      with Suc split ge False show ?thesis by (auto simp: bit_or_iff)
    qed
  qed
qed

lemma get_le_put_take:
  assumes "p + n \<le> length b"
  shows "get_le (put_le b p (v :: 'b::len word) n) p n = (ucast (take_bit (8 * n) v) :: 'a::len word)"
proof (rule bit_word_eqI)
  fix k assume k: "k < LENGTH('a)"
  have "k mod 8 + 8 * (k div 8) = k" by simp
  moreover have "k < 8 * n \<Longrightarrow> k div 8 < n"
    by (simp add: less_mult_imp_div_less mult.commute)
  ultimately show "bit (get_le (put_le b p v n) p n :: 'a word) k \<longleftrightarrow>
      bit (ucast (take_bit (8 * n) v) :: 'a word) k"
    using k assms
    by (auto simp: bit_get_le nth_put_le bit_ucast_iff bit_drop_bit_eq bit_take_bit_iff add.commute)
qed

lemma take_bit_ucast_id [codec_simps]:
  "LENGTH('a::len) \<le> k \<Longrightarrow> take_bit k (ucast (x :: 'a word) :: 'b::len word) = ucast x"
  by (rule bit_word_eqI) (auto simp: bit_take_bit_iff bit_ucast_iff dest: bit_imp_le_length)

lemma take_bit_full [codec_simps]: "LENGTH('a::len) \<le> k \<Longrightarrow> take_bit k (x :: 'a word) = x"
  by (simp add: take_bit_word_eq_self)

lemma ucast_ucast_up [codec_simps]:
  "LENGTH('a::len) \<le> LENGTH('b::len) \<Longrightarrow> (ucast (ucast (x :: 'a word) :: 'b word) :: 'c::len word) = ucast x"
  by (rule bit_word_eqI) (auto simp: bit_ucast_iff dest: bit_imp_le_length)

lemmas get_le_put = get_le_put_take [codec_simps]

lemma get_le_zeros:
  "(\<And>i. i < n \<Longrightarrow> b ! (p + i) = 0) \<Longrightarrow> get_le b p n = 0"
  by (induction n) auto

lemma get_le_eqD:
  fixes b b' :: bytes
  assumes "get_le b p n = (get_le b' p n :: 'a::len word)" "8 * n \<le> LENGTH('a)" "i < n"
  shows "b ! (p + i) = b' ! (p + i)"
proof (rule bit_word_eqI)
  fix k assume k: "k < LENGTH(8)"
  then have "(8 * i + k) div 8 = i" "(8 * i + k) mod 8 = k" by auto
  moreover have "8 * i + k < 8 * n" using k assms(3) by auto
  ultimately show "bit (b ! (p + i)) k \<longleftrightarrow> bit (b' ! (p + i)) k"
    using assms(2) bit_get_le [of b p n "8 * i + k", where ?'a = 'a]
      bit_get_le [of b' p n "8 * i + k", where ?'a = 'a] assms(1)
    by auto
qed

section \<open>Runs of bytes copied into an array\<close>

text \<open>\<open>for(i<n) b[p+i]=src[i]\<close>.\<close>

fun put_bytes :: "bytes \<Rightarrow> nat \<Rightarrow> bytes \<Rightarrow> bytes" where
  "put_bytes b p [] = b"
| "put_bytes b p (x # xs) = put_bytes (b[p := x]) (Suc p) xs"

definition get_bytes :: "bytes \<Rightarrow> nat \<Rightarrow> nat \<Rightarrow> bytes" where
  "get_bytes b p n = map (\<lambda>i. b ! (p + i)) [0..<n]"

lemma length_put_bytes [simp]: "length (put_bytes b p xs) = length b"
  by (induction b p xs rule: put_bytes.induct) auto

lemma length_get_bytes [simp]: "length (get_bytes b p n) = n"
  by (simp add: get_bytes_def)

lemma nth_get_bytes [simp]: "i < n \<Longrightarrow> get_bytes b p n ! i = b ! (p + i)"
  by (simp add: get_bytes_def)

lemma nth_put_bytes:
  "put_bytes b p xs ! i =
     (if p \<le> i \<and> i < p + length xs \<and> i < length b then xs ! (i - p) else b ! i)"
proof (induction b p xs rule: put_bytes.induct)
  case (1 b p)
  show ?case by auto
next
  case (2 b p x xs)
  consider "i = p" | "Suc p \<le> i" | "i < p" by linarith
  then show ?case
  proof cases
    case 1
    then show ?thesis using 2 by (cases "p < length b") (auto simp: list_update_beyond)
  next
    case c: 2
    then have "(x # xs) ! (i - p) = xs ! (i - Suc p)"
      by (simp add: nth_Cons')
    with 2 c show ?thesis by auto
  next
    case 3
    then show ?thesis using 2 by auto
  qed
qed

lemma nth_put_bytes_other [codec_simps]:
  "i < p \<or> p + length xs \<le> i \<Longrightarrow> put_bytes b p xs ! i = b ! i"
  by (auto simp: nth_put_bytes)

lemma get_le_put_bytes_other [codec_simps]:
  "p + n \<le> q \<or> q + length xs \<le> p \<Longrightarrow> get_le (put_bytes b q xs) p n = get_le b p n"
  by (rule get_le_cong) (auto simp: nth_put_bytes)

lemma get_bytes_put_le_other [codec_simps]:
  "p + n \<le> q \<or> q + m \<le> p \<Longrightarrow> get_bytes (put_le b q v m) p n = get_bytes b p n"
  by (rule nth_equalityI) (auto simp: nth_put_le)

lemma get_bytes_update_other [codec_simps]:
  "i < p \<or> p + n \<le> i \<Longrightarrow> get_bytes (b[i := x]) p n = get_bytes b p n"
  by (rule nth_equalityI) auto

lemma get_bytes_put_bytes [codec_simps]:
  "p + length xs \<le> length b \<Longrightarrow> length xs = n \<Longrightarrow> get_bytes (put_bytes b p xs) p n = xs"
  by (rule nth_equalityI) (auto simp: nth_put_bytes)

lemma get_bytes_put_bytes_other [codec_simps]:
  "p + n \<le> q \<or> q + length xs \<le> p \<Longrightarrow> get_bytes (put_bytes b q xs) p n = get_bytes b p n"
  by (rule nth_equalityI) (auto simp: nth_put_bytes)

lemma take_put_bytes [codec_simps]: "k \<le> p \<Longrightarrow> take k (put_bytes b p xs) = take k b"
  by (rule nth_equalityI) (auto simp: nth_put_bytes)

section \<open>State machines driven by events\<close>

text \<open>
  Every controller of the firmware is a record with methods that are called one after the
  other. The interface below is what the lifting of a one-step invariant to any sequence of
  calls needs, and each controller of the later theories interprets it.
\<close>

locale event_machine =
  fixes step :: "'s \<Rightarrow> 'e \<Rightarrow> 's"
    and start :: 's
    and inv :: "'s \<Rightarrow> bool"
  assumes inv_start: "inv start"
    and inv_step: "inv s \<Longrightarrow> inv (step s e)"
begin

lemma inv_run: "inv s \<Longrightarrow> inv (foldl step s es)"
  by (induction es arbitrary: s) (auto intro: inv_step)

lemma inv_reachable: "inv (foldl step start es)"
  by (rule inv_run) (rule inv_start)

lemma inv_at: "inv (foldl step start (take k es))"
  by (rule inv_reachable)

end

text \<open>
  A counter or an evidence flag that a run never takes back: the quantity is monotone along
  every step.
\<close>

locale monotone_machine = event_machine step start inv
  for step :: "'s \<Rightarrow> 'e \<Rightarrow> 's" and start :: 's and inv :: "'s \<Rightarrow> bool" +
  fixes level :: "'s \<Rightarrow> nat"
  assumes level_step: "inv s \<Longrightarrow> level s \<le> level (step s e)"
begin

lemma level_run: "inv s \<Longrightarrow> level s \<le> level (foldl step s es)"
proof (induction es arbitrary: s)
  case Nil
  then show ?case by simp
next
  case (Cons e es)
  then have "level s \<le> level (step s e)" "inv (step s e)"
    by (auto intro: level_step inv_step)
  with Cons.IH show ?case by (fastforce intro: order_trans)
qed

lemma level_prefix: "level (foldl step start es) \<le> level (foldl step start (es @ fs))"
  by (simp add: level_run inv_reachable)

end

end
