(* ===== verification/Crc_Seal.thy ===== *)
theory Crc_Seal
  imports Prelude_Bytes
begin

text \<open>
  The reflected CRC-32 that seals every persisted record of the firmware, in the two spellings
  of the sources (a conditional and a branch-free mask), and the interface of a sealed blob:
  a decoder that accepts only bytes whose trailing word is the CRC of the bytes before it.
  The bit step is a bijection of the 32-bit register, so a change of one byte anywhere in an
  accepted blob is always refused.
\<close>

section \<open>The register steps\<close>

definition crc_poly :: u32 where
  "crc_poly = 0xedb88320"

text \<open>\<open>v=(v>>1)^((v&1)?0xedb88320U:0)\<close>\<close>

definition crc_bit :: "u32 \<Rightarrow> u32" where
  "crc_bit v = drop_bit 1 v XOR (if v AND 1 \<noteq> 0 then crc_poly else 0)"

text \<open>\<open>c=(c>>1)^(0xedb88320U&uint32_t(-int32_t(c&1)))\<close>\<close>

definition crc_bit_mask :: "u32 \<Rightarrow> u32" where
  "crc_bit_mask c = drop_bit 1 c XOR (crc_poly AND (- (c AND 1)))"

fun crc_bits :: "nat \<Rightarrow> u32 \<Rightarrow> u32" where
  "crc_bits 0 v = v"
| "crc_bits (Suc n) v = crc_bits n (crc_bit v)"

definition crc_byte :: "u32 \<Rightarrow> u8 \<Rightarrow> u32" where
  "crc_byte v x = crc_bits 8 (v XOR ucast x)"

definition crc_run :: "u32 \<Rightarrow> bytes \<Rightarrow> u32" where
  "crc_run v bs = foldl crc_byte v bs"

definition crc32 :: "bytes \<Rightarrow> u32" where
  "crc32 bs = NOT (crc_run 0xffffffff bs)"

lemma and_1_cases: "(v :: u32) AND 1 = (if bit v 0 then 1 else 0)"
  by (rule bit_word_eqI) (auto simp: bit_and_iff bit_1_iff intro: gr0I)

text \<open>The two spellings of the bit step are the same function.\<close>

lemma crc_bit_mask_eq: "crc_bit_mask v = crc_bit v"
  by (simp add: crc_bit_mask_def crc_bit_def and_1_cases)

section \<open>The steps are injective\<close>

lemma crc_bit_top: "bit (crc_bit v) 31 \<longleftrightarrow> bit v 0"
proof -
  have "bit crc_poly 31" by (simp add: crc_poly_def)
  moreover have "\<not> bit v 32" using bit_imp_le_length [of v 32] by auto
  ultimately show ?thesis
    by (auto simp: crc_bit_def and_1_cases bit_xor_iff bit_drop_bit_eq)
qed

lemma xor_cancel_left: "(a :: u32) XOR b = a XOR c \<longleftrightarrow> b = c"
  by (metis xor.assoc xor.left_neutral xor_self_eq)

lemma xor_cancel_right: "(b :: u32) XOR a = c XOR a \<longleftrightarrow> b = c"
  by (metis xor.commute xor_cancel_left)

lemma crc_bit_inj: "crc_bit v = crc_bit w \<longleftrightarrow> v = w"
proof
  assume eq: "crc_bit v = crc_bit w"
  then have b0: "bit v 0 \<longleftrightarrow> bit w 0"
    using crc_bit_top [of v] crc_bit_top [of w] by simp
  with eq have dr: "drop_bit 1 v = drop_bit 1 w"
    by (cases "bit v 0") (simp_all add: crc_bit_def and_1_cases xor_cancel_right)
  show "v = w"
  proof (rule bit_word_eqI)
    fix n assume "n < LENGTH(32)"
    show "bit v n \<longleftrightarrow> bit w n"
    proof (cases n)
      case 0
      with b0 show ?thesis by simp
    next
      case (Suc m)
      then have "bit v n = bit (drop_bit 1 v) m" "bit w n = bit (drop_bit 1 w) m"
        by (simp_all add: bit_drop_bit_eq)
      with dr show ?thesis by simp
    qed
  qed
qed simp

lemma crc_bits_inj: "crc_bits n v = crc_bits n w \<longleftrightarrow> v = w"
  by (induction n arbitrary: v w) (simp_all add: crc_bit_inj)

lemma ucast_u8_inj: "(ucast (x :: u8) :: u32) = ucast y \<longleftrightarrow> x = y"
proof
  assume eq: "(ucast x :: u32) = ucast y"
  show "x = y"
  proof (rule bit_word_eqI)
    fix n assume "n < LENGTH(8)"
    then have "bit x n = bit (ucast x :: u32) n" "bit y n = bit (ucast y :: u32) n"
      by (simp_all add: bit_ucast_byte)
    with eq show "bit x n \<longleftrightarrow> bit y n" by simp
  qed
qed simp

lemma crc_byte_inj_state: "crc_byte v x = crc_byte w x \<longleftrightarrow> v = w"
  by (simp add: crc_byte_def crc_bits_inj xor_cancel_right)

lemma crc_byte_inj_data: "crc_byte v x = crc_byte v y \<longleftrightarrow> x = y"
  by (simp add: crc_byte_def crc_bits_inj xor_cancel_left ucast_u8_inj)

lemma crc_run_inj_state: "crc_run v bs = crc_run w bs \<longleftrightarrow> v = w"
  by (induction bs arbitrary: v w) (simp_all add: crc_run_def crc_byte_inj_state)

lemma crc_run_append: "crc_run v (xs @ ys) = crc_run (crc_run v xs) ys"
  by (simp add: crc_run_def)

text \<open>Two equally long messages that differ in exactly one byte have different CRCs.\<close>

lemma crc_run_update:
  assumes "i < length bs" "x \<noteq> bs ! i"
  shows "crc_run v (bs[i := x]) \<noteq> crc_run v bs"
proof -
  have "bs[i := x] = take i bs @ x # drop (Suc i) bs"
    using assms(1) by (simp add: upd_conv_take_nth_drop)
  moreover have "bs = take i bs @ bs ! i # drop (Suc i) bs"
    using assms(1) by (simp add: id_take_nth_drop)
  ultimately have "crc_run v (bs[i := x]) = crc_run (crc_byte (crc_run v (take i bs)) x) (drop (Suc i) bs)"
    "crc_run v bs = crc_run (crc_byte (crc_run v (take i bs)) (bs ! i)) (drop (Suc i) bs)"
    by (metis crc_run_append crc_run_def foldl_Cons)+
  then show ?thesis
    using assms(2) by (simp add: crc_run_inj_state crc_byte_inj_data)
qed

lemma crc32_update:
  assumes "i < length bs" "x \<noteq> bs ! i"
  shows "crc32 (bs[i := x]) \<noteq> crc32 bs"
  using crc_run_update [OF assms] by (metis bit.double_compl crc32_def)

section \<open>Sealed blobs\<close>

text \<open>
  The store of the CRC at the end of the record, and the interface of a decoder that checks it.
  \<open>size\<close> is the offset of the CRC word: the blob has \<open>size + 4\<close> bytes.
\<close>

definition seal :: "bytes \<Rightarrow> nat \<Rightarrow> bytes" where
  "seal b n = put_le b n (crc32 (take n b)) 4"

definition sealed :: "bytes \<Rightarrow> nat \<Rightarrow> bool" where
  "sealed b n \<longleftrightarrow> get_le b n 4 = crc32 (take n b)"

lemma length_seal [simp]: "length (seal b n) = length b"
  by (simp add: seal_def)

lemma nth_seal [codec_simps]: "i < n \<Longrightarrow> seal b n ! i = b ! i"
  by (simp add: seal_def nth_put_le)

lemma get_le_seal [codec_simps]: "p + k \<le> n \<Longrightarrow> get_le (seal b n) p k = get_le b p k"
  by (simp add: seal_def get_le_put_other)

lemma get_bytes_seal [codec_simps]: "p + k \<le> n \<Longrightarrow> get_bytes (seal b n) p k = get_bytes b p k"
  by (simp add: seal_def get_bytes_put_le_other)

lemma take_seal [codec_simps]: "k \<le> n \<Longrightarrow> take k (seal b n) = take k b"
  by (simp add: seal_def take_put_le)

lemma sealed_seal: "length b = n + 4 \<Longrightarrow> sealed (seal b n) n"
  by (simp add: sealed_def seal_def codec_simps)

lemma sealed_update:
  assumes "sealed b n" "length b = n + 4" "i < n + 4" "x \<noteq> b ! i"
  shows "\<not> sealed (b[i := x]) n"
proof (cases "i < n")
  case True
  then have "get_le (b[i := x]) n 4 = (get_le b n 4 :: u32)"
    by (simp add: get_le_update_other)
  moreover have "crc32 (take n (b[i := x])) \<noteq> crc32 (take n b)"
    using crc32_update [of i "take n b" x] assms True by (simp add: take_update_swap)
  ultimately show ?thesis using assms(1) by (simp add: sealed_def)
next
  case False
  have "get_le (b[i := x]) n 4 \<noteq> (get_le b n 4 :: u32)"
  proof
    assume "get_le (b[i := x]) n 4 = (get_le b n 4 :: u32)"
    from get_le_eqD [OF this, of "i - n"] have "b[i := x] ! i = b ! i"
      using False assms(3) by simp
    with assms show False by simp
  qed
  with False assms(1) show ?thesis by (simp add: sealed_def)
qed

locale sealed_blob =
  fixes size :: nat
    and dec :: "bytes \<Rightarrow> 'a option"
  assumes dec_sealed: "dec b = Some m \<Longrightarrow> sealed b size"
begin

lemma corrupt_rejected:
  assumes "dec b = Some m" "length b = size + 4" "i < size + 4" "x \<noteq> b ! i"
  shows "dec (b[i := x]) = None"
proof (rule ccontr)
  assume "dec (b[i := x]) \<noteq> None"
  then have "sealed (b[i := x]) size" by (auto dest: dec_sealed)
  with sealed_update [OF dec_sealed [OF assms(1)] assms(2-4)] show False by simp
qed

end

text \<open>
  A decoder that also inverts an encoder: what the encoder writes is read back, and the written
  bytes stay protected.
\<close>

locale sealed_codec = sealed_blob size dec
  for size :: nat and dec :: "bytes \<Rightarrow> 'a option" +
  fixes enc :: "'a \<Rightarrow> bytes"
    and ok :: "'a \<Rightarrow> bool"
  assumes enc_length: "length (enc m) = size + 4"
    and dec_enc: "ok m \<Longrightarrow> dec (enc m) = Some m"
begin

lemma enc_inj: "ok m \<Longrightarrow> ok m' \<Longrightarrow> enc m = enc m' \<Longrightarrow> m = m'"
  by (metis dec_enc option.inject)

lemma enc_corrupt_rejected:
  "ok m \<Longrightarrow> i < size + 4 \<Longrightarrow> x \<noteq> enc m ! i \<Longrightarrow> dec ((enc m)[i := x]) = None"
  by (rule corrupt_rejected [OF dec_enc]) (simp_all add: enc_length)

end

end
