(* ===== verification/Bounded_Fifo.thy ===== *)
theory Bounded_Fifo
  imports Prelude_Bytes
begin

text \<open>
  The interface of the bounded queues of the firmware (the system-log queue and the ring of trial
  cycles): a full queue drops the newest element, the front is removed by an acknowledgement. The
  history of any sequence of operations is proved here once; \<open>stamp\<close> is what the queue stores for
  an element that is pushed.
\<close>

datatype 'a fifo_op = Push 'a | Take nat

text \<open>A run collects what was accepted and what was removed.\<close>

fun fifo_run ::
  "('a \<Rightarrow> 's \<Rightarrow> bool \<times> 's) \<Rightarrow> (nat \<Rightarrow> 's \<Rightarrow> bool \<times> 's) \<Rightarrow> ('s \<Rightarrow> 'b list) \<Rightarrow> ('s \<Rightarrow> 'a \<Rightarrow> 'b) \<Rightarrow>
   'a fifo_op list \<Rightarrow> 's \<Rightarrow> 'b list \<times> 'b list \<times> 's" where
  "fifo_run push tk items stamp [] s = ([], [], s)"
| "fifo_run push tk items stamp (Push x # es) s =
     (case push x s of (ok, s1) \<Rightarrow>
        (case fifo_run push tk items stamp es s1 of (acc, out, s2) \<Rightarrow>
           ((if ok then [stamp s x] else []) @ acc, out, s2)))"
| "fifo_run push tk items stamp (Take n # es) s =
     (case tk n s of (ok, s1) \<Rightarrow>
        (case fifo_run push tk items stamp es s1 of (acc, out, s2) \<Rightarrow>
           (acc, (if ok then take n (items s) else []) @ out, s2)))"

locale bounded_fifo =
  fixes wf :: "'s \<Rightarrow> bool"
    and items :: "'s \<Rightarrow> 'b list"
    and cap :: nat
    and stamp :: "'s \<Rightarrow> 'a \<Rightarrow> 'b"
    and push :: "'a \<Rightarrow> 's \<Rightarrow> bool \<times> 's"
    and tk :: "nat \<Rightarrow> 's \<Rightarrow> bool \<times> 's"
  assumes push_wf: "wf s \<Longrightarrow> push x s = (ok, s') \<Longrightarrow> wf s'"
    and push_ok: "wf s \<Longrightarrow> push x s = (ok, s') \<Longrightarrow> ok \<longleftrightarrow> length (items s) < cap"
    and push_items: "wf s \<Longrightarrow> push x s = (ok, s') \<Longrightarrow>
      items s' = (if ok then items s @ [stamp s x] else items s)"
    and take_wf: "wf s \<Longrightarrow> tk n s = (ok, s') \<Longrightarrow> wf s'"
    and take_one: "wf s \<Longrightarrow> tk 1 s = (ok, s') \<Longrightarrow> ok \<longleftrightarrow> items s \<noteq> []"
    and take_items: "wf s \<Longrightarrow> tk n s = (ok, s') \<Longrightarrow>
      items s' = (if ok then drop n (items s) else items s)"
    and items_cap: "wf s \<Longrightarrow> length (items s) \<le> cap"
begin

text \<open>First in, first out: nothing accepted is lost, duplicated or reordered.\<close>

lemma history:
  "wf s \<Longrightarrow> fifo_run push tk items stamp es s = (acc, out, s') \<Longrightarrow>
    wf s' \<and> items s @ acc = out @ items s' \<and> length (items s') \<le> cap"
proof (induction es arbitrary: s acc out s')
  case Nil
  then show ?case by (simp add: items_cap)
next
  case (Cons e es)
  show ?case
  proof (cases e)
    case (Push x)
    obtain ok s1 where p: "push x s = (ok, s1)" by fastforce
    obtain acc1 out1 s2 where r: "fifo_run push tk items stamp es s1 = (acc1, out1, s2)"
      by (metis surj_pair)
    from Cons.IH [OF push_wf [OF Cons.prems(1) p] r] Cons.prems Push p r
      push_items [OF Cons.prems(1) p]
    show ?thesis by auto
  next
    case (Take n)
    obtain ok s1 where t: "tk n s = (ok, s1)" by fastforce
    obtain acc1 out1 s2 where r: "fifo_run push tk items stamp es s1 = (acc1, out1, s2)"
      by (metis surj_pair)
    have "(if ok then take n (items s) else []) @ items s1 = items s"
      using take_items [OF Cons.prems(1) t] by simp
    with Cons.IH [OF take_wf [OF Cons.prems(1) t] r] Cons.prems Take t r
    show ?thesis by (cases ok) (auto, metis append.assoc)
  qed
qed

end

text \<open>
  The queue as a specification: a list of at most \<open>cap\<close> elements, a push is accepted exactly when there is room, a removal
  of \<open>n\<close> elements exactly when there are as many. The answer is what was accepted, what was removed, and what is left.
\<close>

fun bounded_run :: "nat \<Rightarrow> 'a fifo_op list \<Rightarrow> 'a list \<Rightarrow> 'a list \<times> 'a list \<times> 'a list" where
  "bounded_run cap [] l = ([], [], l)"
| "bounded_run cap (Push x # es) l =
     (if length l < cap
      then case bounded_run cap es (l @ [x]) of (acc, out, l') \<Rightarrow> (x # acc, out, l')
      else bounded_run cap es l)"
| "bounded_run cap (Take n # es) l =
     (if n \<le> length l
      then case bounded_run cap es (drop n l) of (acc, out, l') \<Rightarrow> (acc, take n l @ out, l')
      else bounded_run cap es l)"

text \<open>A queue that stores the image of an element under one function and removes any number of them.\<close>

locale exact_fifo = bounded_fifo wf items cap "\<lambda>_. f" push tk
  for wf :: "'s \<Rightarrow> bool" and items :: "'s \<Rightarrow> 'b list" and cap :: nat and f :: "'a \<Rightarrow> 'b"
    and push :: "'a \<Rightarrow> 's \<Rightarrow> bool \<times> 's" and tk :: "nat \<Rightarrow> 's \<Rightarrow> bool \<times> 's" +
  assumes take_ok: "wf s \<Longrightarrow> tk n s = (ok, s') \<Longrightarrow> ok \<longleftrightarrow> n \<le> length (items s)"
begin

lemma refines:
  "wf s \<Longrightarrow> items s = map f l \<Longrightarrow> fifo_run push tk items (\<lambda>_. f) es s = (acc, out, s') \<Longrightarrow>
    \<exists>a p l'. bounded_run cap es l = (a, p, l') \<and> acc = map f a \<and> out = map f p \<and> items s' = map f l'"
proof (induction es arbitrary: s l acc out s')
  case Nil
  then show ?case by simp
next
  case (Cons e es)
  show ?case
  proof (cases e)
    case (Push x)
    obtain ok s1 where p: "push x s = (ok, s1)" by fastforce
    obtain acc1 out1 s2 where r: "fifo_run push tk items (\<lambda>_. f) es s1 = (acc1, out1, s2)" by (metis surj_pair)
    have ok: "ok \<longleftrightarrow> length l < cap" using push_ok [OF Cons.prems(1) p] Cons.prems(2) by simp
    have "items s1 = map f (if ok then l @ [x] else l)" using push_items [OF Cons.prems(1) p] Cons.prems(2) by simp
    from Cons.IH [OF push_wf [OF Cons.prems(1) p] this r] show ?thesis
      using Cons.prems(3) Push p r ok by (auto split: if_splits)
  next
    case (Take n)
    obtain ok s1 where t: "tk n s = (ok, s1)" by fastforce
    obtain acc1 out1 s2 where r: "fifo_run push tk items (\<lambda>_. f) es s1 = (acc1, out1, s2)" by (metis surj_pair)
    have ok: "ok \<longleftrightarrow> n \<le> length l" using take_ok [OF Cons.prems(1) t] Cons.prems(2) by simp
    have "items s1 = map f (if ok then drop n l else l)"
      using take_items [OF Cons.prems(1) t] Cons.prems(2) by (simp add: drop_map)
    from Cons.IH [OF take_wf [OF Cons.prems(1) t] this r] show ?thesis
      using Cons.prems(2,3) Take t r ok by (auto simp: take_map split: if_splits)
  qed
qed

end

text \<open>Arithmetic of ring positions that both implementations share.\<close>

lemma ring_slot_inj_le:
  assumes "i \<le> j" "j < n" "(h + i) mod n = (h + j) mod (n :: nat)"
  shows "i = j"
proof -
  have "n dvd (h + j) - (h + i)"
    using mod_eq_dvd_iff_nat [of "h + i" "h + j" n] assms(1) assms(3) [symmetric] by simp
  then have "n dvd j - i" by simp
  moreover have "j - i < n" using assms(2) by simp
  ultimately have "j - i = 0" by (metis nat_dvd_not_less not_gr_zero)
  with assms(1) show ?thesis by simp
qed

lemma ring_slot_inj:
  "i < n \<Longrightarrow> j < n \<Longrightarrow> (h + i) mod n = (h + j) mod (n :: nat) \<Longrightarrow> i = j"
  by (metis linorder_le_cases ring_slot_inj_le)

end
