(* ===== verification/Prelude_Words.thy ===== *)
theory Prelude_Words
  imports Prelude_Bytes
begin

text \<open>
  Shared facts on machine integers: reading a word as the number it stands for when an
  expression does not wrap, and elapsed times on a wrapping counter.
\<close>

named_theorems word_nat_simps \<open>reading a word expression as a natural number\<close>

lemma unat_eqI: "w = of_nat n \<Longrightarrow> n < 2 ^ LENGTH('a) \<Longrightarrow> unat (w :: 'a::len word) = n"
  by (simp add: unat_of_nat)

lemma unat_plus_small [word_nat_simps]:
  "unat a + unat b < 2 ^ LENGTH('a) \<Longrightarrow> unat (a + b) = unat a + unat (b :: 'a::len word)"
  by (rule unat_eqI) simp_all

lemma unat_mult_small [word_nat_simps]:
  "unat a * unat b < 2 ^ LENGTH('a) \<Longrightarrow> unat (a * b) = unat a * unat (b :: 'a::len word)"
  by (rule unat_eqI) simp_all

lemma unat_minus_le [word_nat_simps]:
  "b \<le> a \<Longrightarrow> unat (a - b) = unat a - unat (b :: 'a::len word)"
  by (simp add: unat_sub_if' word_le_nat_alt)

lemma unat_ucast_up [word_nat_simps]:
  "LENGTH('a) \<le> LENGTH('b) \<Longrightarrow> unat (ucast (a :: 'a::len word) :: 'b::len word) = unat a"
  by transfer (simp add: take_bit_take_bit min_def)

text \<open>The difference of two readings of a wrapping clock is the time that passed.\<close>

lemma elapsed_wraps: "(t + d) - t = (d :: 'a::len word)"
  by simp

lemma unat_less_iff [word_nat_simps]: "a < b \<longleftrightarrow> unat a < unat (b :: 'a::len word)"
  by (rule word_less_nat_alt)

lemma unat_le_iff [word_nat_simps]: "a \<le> b \<longleftrightarrow> unat a \<le> unat (b :: 'a::len word)"
  by (rule word_le_nat_alt)

end
