(* ===== verification/Gauge_Trace.thy ===== *)
theory Gauge_Trace
  imports Crc_Seal Bounded_Fifo Prelude_Words "HOL-Library.Sublist"
begin

text \<open>
  The discharge trace of the fuel gauge (\<open>main/host/gauge_discharge_trace_model.h\<close>): a ring of 64
  observations that, when full, drops one old observation chosen by priority and crowding, the
  arming logic, and the persisted blob. The signed currents are kept as the 16-bit words they are
  stored as; \<open>sint\<close> reads them.
\<close>

section \<open>Samples and the ring\<close>

record trace_sample =
  sm_boot :: u32
  sm_time :: u64
  sm_epoch :: u64
  sm_flags :: u16
  sm_soc :: u16
  sm_mv :: u16
  sm_current :: u16
  sm_average :: u16
  sm_remaining :: u16
  sm_full :: u16
  sm_design :: u16
  sm_operation :: u16
  sm_battery :: u16
  sm_health :: u16
  sm_cycles :: u16
  sm_temperature :: u16
  sm_raw :: u16

definition trace_sample0 :: trace_sample where
  "trace_sample0 = \<lparr>sm_boot = 0, sm_time = 0, sm_epoch = 0, sm_flags = 0, sm_soc = 0, sm_mv = 0,
     sm_current = 0, sm_average = 0, sm_remaining = 0, sm_full = 0, sm_design = 0, sm_operation = 0,
     sm_battery = 0, sm_health = 0, sm_cycles = 0, sm_temperature = 0, sm_raw = 0\<rparr>"

definition sm_valid :: "trace_sample \<Rightarrow> bool" where
  "sm_valid s \<longleftrightarrow> sm_flags s AND 1 \<noteq> 0"

definition trace_low :: "trace_sample \<Rightarrow> bool" where
  "trace_low s \<longleftrightarrow> sm_valid s \<and> (sm_soc s \<le> 15 \<or> sm_mv s \<le> 3500)"

definition trace_writable :: "trace_sample \<Rightarrow> bool" where
  "trace_writable s \<longleftrightarrow> sm_valid s \<and> sm_mv s \<ge> 3300"

record trace =
  tr_rows :: "trace_sample list"
  tr_head :: nat
  tr_count :: nat
  tr_armed :: bool
  tr_low_seen :: bool
  tr_finalized :: bool
  tr_charging :: nat
  tr_boot :: u32
  tr_sampled :: bool
  tr_last_low :: bool
  tr_checkpointed :: bool
  tr_dirty :: bool
  tr_last_sample :: u64
  tr_last_checkpoint :: u64

definition trace0 :: trace where
  "trace0 = \<lparr>tr_rows = replicate 64 trace_sample0, tr_head = 0, tr_count = 0, tr_armed = False,
     tr_low_seen = False, tr_finalized = False, tr_charging = 0, tr_boot = 1, tr_sampled = False,
     tr_last_low = False, tr_checkpointed = False, tr_dirty = False, tr_last_sample = 0,
     tr_last_checkpoint = 0\<rparr>"

definition trace_at :: "trace \<Rightarrow> nat \<Rightarrow> trace_sample" where
  "trace_at m i = tr_rows m ! ((tr_head m + 64 - tr_count m + i) mod 64)"

definition trace_due :: "u64 \<Rightarrow> trace \<Rightarrow> bool" where
  "trace_due now m \<longleftrightarrow> tr_armed m \<and>
     (\<not> tr_sampled m \<or> now - tr_last_sample m \<ge> (if tr_last_low m then 10000 else 60000))"

section \<open>Compaction\<close>

text \<open>The first occurrences seen so far: EDV2, empty, no VDQ, the 96 percent plateau, its end.\<close>

record anchors =
  an_edv :: bool
  an_zero :: bool
  an_vdq :: bool
  an_plateau :: bool
  an_departed :: bool

definition anchors0 :: anchors where
  "anchors0 = \<lparr>an_edv = False, an_zero = False, an_vdq = False, an_plateau = False, an_departed = False\<rparr>"

definition anchor_rank :: "trace_sample \<Rightarrow> anchors \<Rightarrow> nat \<times> anchors" where
  "anchor_rank s a =
     (if \<not> sm_valid s then (0, a)
      else
        (let (r, a) = (if \<not> an_edv a \<and> sm_operation s AND 8 \<noteq> 0 then (240, a\<lparr>an_edv := True\<rparr>) else (0, a));
             (r, a) = (if \<not> an_zero a \<and> sm_soc s = 0 then (max r 230, a\<lparr>an_zero := True\<rparr>) else (r, a));
             (r, a) = (if \<not> an_vdq a \<and> sm_operation s AND 16 = 0 then (max r 220, a\<lparr>an_vdq := True\<rparr>) else (r, a))
         in if \<not> an_plateau a \<and> sm_soc s = 96 then (max r 211, a\<lparr>an_plateau := True\<rparr>)
            else if an_plateau a \<and> \<not> an_departed a \<and> sm_soc s \<noteq> 96 then (max r 210, a\<lparr>an_departed := True\<rparr>)
            else (r, a)))"

definition raise_to :: "nat \<Rightarrow> nat \<Rightarrow> nat list \<Rightarrow> nat list" where
  "raise_to i v p = (if p ! i < v then p[i := v] else p)"

definition priority_step :: "(nat \<Rightarrow> trace_sample) \<Rightarrow> nat list \<times> anchors \<Rightarrow> nat \<Rightarrow> nat list \<times> anchors" where
  "priority_step row pa i =
     (case pa of (p, a) \<Rightarrow>
        (case anchor_rank (row i) a of (rank, a) \<Rightarrow>
          (let p = raise_to i rank p;
               p = (if rank \<noteq> 0 \<and> i \<noteq> 0 then raise_to (i - 1) 140 p else p);
               p = (if i \<noteq> 0 \<and> sm_boot (row (i - 1)) \<noteq> sm_boot (row i)
                    then raise_to i 180 (raise_to (i - 1) 180 p) else p)
           in (p, a))))"

definition priorities :: "(nat \<Rightarrow> trace_sample) \<Rightarrow> nat \<Rightarrow> nat list" where
  "priorities row n = fst (foldl (priority_step row) ((replicate 64 0)[0 := 255], anchors0) [0..<n])"

text \<open>The distance between the neighbours of a row; across a boot it counts as none.\<close>

definition neighbour_gap :: "(nat \<Rightarrow> trace_sample) \<Rightarrow> nat \<Rightarrow> u64" where
  "neighbour_gap row i =
     (if sm_boot (row (i - 1)) = sm_boot (row (i + 1)) then sm_time (row (i + 1)) - sm_time (row (i - 1)) else 0)"

definition victim_step :: "(nat \<Rightarrow> trace_sample) \<Rightarrow> nat list \<Rightarrow> nat \<times> u64 \<Rightarrow> nat \<Rightarrow> nat \<times> u64" where
  "victim_step row p best i =
     (case best of (victim, best_gap) \<Rightarrow>
        (let gap = neighbour_gap row i in
         if p ! i < p ! victim \<or> (p ! i = p ! victim \<and> gap \<le> best_gap) then (i, gap) else (victim, best_gap)))"

definition choose_victim :: "(nat \<Rightarrow> trace_sample) \<Rightarrow> nat \<Rightarrow> nat" where
  "choose_victim row n = fst (foldl (victim_step row (priorities row n)) (1, -1) [1..<33])"

text \<open>\<open>for(i=victim;i+1<count;++i) rows[(start+i)%Capacity]=rows[(start+i+1)%Capacity];\<close>\<close>

definition shift_rows :: "nat \<Rightarrow> nat \<Rightarrow> nat \<Rightarrow> trace_sample list \<Rightarrow> trace_sample list" where
  "shift_rows start victim n rows =
     foldl (\<lambda>rows i. rows[(start + i) mod 64 := rows ! ((start + i + 1) mod 64)]) rows [victim..<n - 1]"

definition compact_oldest :: "trace \<Rightarrow> trace" where
  "compact_oldest m =
     (let victim = choose_victim (trace_at m) (tr_count m);
          start = (tr_head m + 64 - tr_count m) mod 64 in
      m\<lparr>tr_rows := shift_rows start victim (tr_count m) (tr_rows m),
        tr_head := (tr_head m + 64 - 1) mod 64, tr_count := tr_count m - 1\<rparr>)"

section \<open>Appending\<close>

definition trace_push :: "trace_sample \<Rightarrow> trace \<Rightarrow> trace" where
  "trace_push s m =
     (let m = (if tr_count m = 64 then compact_oldest m else m) in
      m\<lparr>tr_rows := (tr_rows m)[tr_head m := s], tr_head := (tr_head m + 1) mod 64,
        tr_count := (if tr_count m < 64 then tr_count m + 1 else tr_count m)\<rparr>)"

definition trace_arming :: "trace_sample \<Rightarrow> trace \<Rightarrow> trace" where
  "trace_arming s m =
     (if sm_valid s
      then
        (let m = (if (sm_soc s \<le> 5 \<or> sm_mv s \<le> 3500) \<and> (sint (sm_current s) < 0 \<or> sint (sm_average s) < 0)
                  then m\<lparr>tr_low_seen := True\<rparr> else m) in
         if tr_low_seen m \<and> sint (sm_current s) > 5
         then
           (let m = (if tr_charging m < 2 then m\<lparr>tr_charging := tr_charging m + 1\<rparr> else m) in
            if tr_charging m \<ge> 2 then m\<lparr>tr_armed := False, tr_finalized := True\<rparr> else m)
         else m\<lparr>tr_charging := 0\<rparr>)
      else m\<lparr>tr_charging := 0\<rparr>)"

definition trace_append :: "trace_sample \<Rightarrow> trace \<Rightarrow> trace" where
  "trace_append s m =
     (let s = s\<lparr>sm_boot := tr_boot m\<rparr>; m = trace_arming s (trace_push s m) in
      m\<lparr>tr_sampled := True, tr_last_sample := sm_time s,
        tr_last_low := (if sm_valid s then trace_low s else tr_last_low m), tr_dirty := True\<rparr>)"

definition checkpoint_due :: "u64 \<Rightarrow> trace \<Rightarrow> bool" where
  "checkpoint_due now m \<longleftrightarrow> tr_dirty m \<and> tr_last_low m \<and>
     (\<not> tr_checkpointed m \<or> now - tr_last_checkpoint m \<ge> 60000)"

definition trace_attempted :: "u64 \<Rightarrow> trace \<Rightarrow> trace" where
  "trace_attempted now m = m\<lparr>tr_checkpointed := True, tr_last_checkpoint := now\<rparr>"

section \<open>The ring read as a list\<close>

definition trace_items :: "trace \<Rightarrow> trace_sample list" where
  "trace_items m = map (trace_at m) [0..<tr_count m]"

definition trace_wf :: "trace \<Rightarrow> bool" where
  "trace_wf m \<longleftrightarrow> length (tr_rows m) = 64 \<and> tr_head m < 64 \<and> tr_count m \<le> 64"

lemma length_trace_items [simp]: "length (trace_items m) = tr_count m"
  by (simp add: trace_items_def)

lemma length_fold_update: "length (foldl (\<lambda>r i. r[f i := g r i]) rows xs) = length rows"
  by (induction xs arbitrary: rows) simp_all

lemma length_shift [simp]: "length (shift_rows start v n rows) = length rows"
  unfolding shift_rows_def by (rule length_fold_update)

text \<open>The shift loop, after it has run from \<open>v\<close> up to \<open>k\<close>.\<close>

lemma shift_partial:
  assumes "length rows = 64" "v \<le> k" "k < 64" "j < 64"
  shows "foldl (\<lambda>rows i. rows[(h + i) mod 64 := rows ! ((h + i + 1) mod 64)]) rows [v..<k] ! ((h + j) mod 64) =
    (if v \<le> j \<and> j < k then rows ! ((h + j + 1) mod 64) else rows ! ((h + j) mod 64))"
  using assms(2-)
proof (induction k arbitrary: j)
  case 0
  then show ?case by simp
next
  case (Suc k)
  let ?f = "\<lambda>rows i. rows[(h + i) mod 64 := rows ! ((h + i + 1) mod 64)]"
  show ?case
  proof (cases "v \<le> k")
    case False
    with Suc.prems have "[v..<Suc k] = []" "\<not> (v \<le> j \<and> j < Suc k)" by auto
    then show ?thesis by (simp only: foldl.simps if_False)
  next
    case True
    let ?r = "foldl ?f rows [v..<k]"
    have len: "length ?r = 64" using assms(1) by (simp add: length_fold_update)
    have step: "foldl ?f rows [v..<Suc k] = ?r[(h + k) mod 64 := ?r ! ((h + (k + 1)) mod 64)]"
      using True by (simp add: add.assoc)
    have nxt: "?r ! ((h + (k + 1)) mod 64) = rows ! ((h + (k + 1)) mod 64)"
      using Suc.IH [of "k + 1"] True Suc.prems by simp
    show ?thesis
    proof (cases "j = k")
      case True
      then show ?thesis using step nxt len \<open>v \<le> k\<close> by (simp add: add.assoc)
    next
      case False
      then have "(h + k) mod 64 \<noteq> (h + j) mod 64" using ring_slot_inj [of k 64 j h] Suc.prems by auto
      with step Suc.IH [of j] True Suc.prems False show ?thesis by auto
    qed
  qed
qed


lemma trace_at_alt: "trace_wf m \<Longrightarrow> trace_at m i = tr_rows m ! ((tr_head m + (64 - tr_count m) + i) mod 64)"
  by (simp add: trace_at_def trace_wf_def)

definition remove_at :: "nat \<Rightarrow> 'a list \<Rightarrow> 'a list" where
  "remove_at v xs = take v xs @ drop (Suc v) xs"

lemma nth_remove_at:
  "v < length xs \<Longrightarrow> i < length xs - 1 \<Longrightarrow> remove_at v xs ! i = (if i < v then xs ! i else xs ! Suc i)"
  by (auto simp: remove_at_def nth_append min_def)

lemma length_remove_at: "v < length xs \<Longrightarrow> length (remove_at v xs) = length xs - 1"
  by (simp add: remove_at_def)

text \<open>The victim: between 1 and 32, of least priority, and most crowded among its equals.\<close>

lemma victim_fold:
  assumes "2 \<le> k"
  shows "case foldl (victim_step row p) (1, -1) [1..<k] of (v, g) \<Rightarrow>
    1 \<le> v \<and> v < k \<and> g = neighbour_gap row v \<and>
    (\<forall>j. 1 \<le> j \<and> j < k \<longrightarrow> p ! v < p ! j \<or> p ! v = p ! j \<and> g \<le> neighbour_gap row j)"
  using assms
proof (induction k rule: dec_induct)
  case base
  have one: "[1..<2] = [1 :: nat]" by (simp add: upt_rec)
  have "neighbour_gap row 1 \<le> - 1" by (rule word_order.extremum)
  then have "foldl (victim_step row p) (1, -1) [1..<2] = (1, neighbour_gap row 1)"
    unfolding one by (simp add: victim_step_def Let_def)
  moreover have "1 \<le> j \<and> j < 2 \<longleftrightarrow> j = (1 :: nat)" for j by auto
  ultimately show ?case by simp
next
  case (step k)
  obtain v g where f: "foldl (victim_step row p) (1, -1) [1..<k] = (v, g)" by fastforce
  with step.IH have I: "1 \<le> v" "v < k" "g = neighbour_gap row v"
    "\<And>j. 1 \<le> j \<Longrightarrow> j < k \<Longrightarrow> p ! v < p ! j \<or> p ! v = p ! j \<and> g \<le> neighbour_gap row j" by auto
  have n: "foldl (victim_step row p) (1, -1) [1..<Suc k] = victim_step row p (v, g) k"
    using step.hyps f by simp
  show ?case
  proof (cases "p ! k < p ! v \<or> p ! k = p ! v \<and> neighbour_gap row k \<le> g")
    case True
    then have "victim_step row p (v, g) k = (k, neighbour_gap row k)" by (simp add: victim_step_def Let_def)
    moreover have "p ! k < p ! j \<or> p ! k = p ! j \<and> neighbour_gap row k \<le> neighbour_gap row j"
      if "1 \<le> j" "j < Suc k" for j
      using that True I(4) [of j] by (cases "j = k") auto
    ultimately show ?thesis using n step.hyps by auto
  next
    case False
    then have "victim_step row p (v, g) k = (v, g)" by (auto simp: victim_step_def Let_def)
    moreover have "p ! v < p ! j \<or> p ! v = p ! j \<and> g \<le> neighbour_gap row j"
      if "1 \<le> j" "j < Suc k" for j
      using that False I(4) [of j] by (cases "j = k") auto
    ultimately show ?thesis using n I(1-3) by auto
  qed
qed

lemma choose_victim_spec:
  "1 \<le> choose_victim row n" "choose_victim row n \<le> 32"
  "1 \<le> j \<Longrightarrow> j \<le> 32 \<Longrightarrow>
    priorities row n ! choose_victim row n < priorities row n ! j \<or>
    priorities row n ! choose_victim row n = priorities row n ! j \<and>
    neighbour_gap row (choose_victim row n) \<le> neighbour_gap row j"
  using victim_fold [of 33 row "priorities row n"] by (auto simp: choose_victim_def split: prod.splits)

lemma compact_items:
  assumes wf: "trace_wf m" and full: "tr_count m = 64"
  shows "trace_wf (compact_oldest m) \<and>
    trace_items (compact_oldest m) = remove_at (choose_victim (trace_at m) 64) (trace_items m)"
proof -
  let ?v = "choose_victim (trace_at m) 64" and ?c = "compact_oldest m"
  have v: "1 \<le> ?v" "?v \<le> 32" by (rule choose_victim_spec)+
  have h: "tr_head m < 64" "length (tr_rows m) = 64" using wf by (simp_all add: trace_wf_def)
  have rows: "tr_rows ?c = shift_rows (tr_head m) ?v 64 (tr_rows m)" "tr_count ?c = 63"
    "tr_head ?c = (tr_head m + 63) mod 64"
    using full h by (simp_all add: compact_oldest_def Let_def add.commute)
  have wf': "trace_wf ?c" using h by (simp add: trace_wf_def rows)
  have at': "trace_at ?c i = (if ?v \<le> i then trace_at m (i + 1) else trace_at m i)" if "i < 63" for i
  proof -
    have p: "((tr_head m + 63) mod 64 + 1 + i) mod 64 = (tr_head m + i) mod 64"
    proof -
      have "((tr_head m + 63) mod 64 + 1 + i) mod 64 = (tr_head m + 63 + (1 + i)) mod 64"
        unfolding add.assoc [of _ 1 i] by (rule mod_add_left_eq)
      also have "tr_head m + 63 + (1 + i) = tr_head m + i + 64" by simp
      finally show ?thesis by simp
    qed
    have d: "64 - 63 = (1 :: nat)" by simp
    have "trace_at ?c i = shift_rows (tr_head m) ?v 64 (tr_rows m) ! ((tr_head m + i) mod 64)"
      by (simp only: trace_at_alt [OF wf'] rows d p)
    moreover have "trace_at m k = tr_rows m ! ((tr_head m + k) mod 64)" for k
      by (simp add: trace_at_alt [OF wf] full)
    ultimately show ?thesis
      using shift_partial [of "tr_rows m" ?v 63 i "tr_head m"] that v h by (simp add: shift_rows_def add.assoc)
  qed
  have "trace_items ?c = remove_at ?v (trace_items m)"
  proof (rule nth_equalityI)
    show "length (trace_items ?c) = length (remove_at ?v (trace_items m))"
      using v full by (simp add: length_remove_at rows)
    fix i
    assume "i < length (trace_items ?c)"
    then have i: "i < 63" by (simp add: rows)
    then show "trace_items ?c ! i = remove_at ?v (trace_items m) ! i"
      using v full at' [OF i] by (simp add: nth_remove_at trace_items_def rows)
  qed
  with wf' show ?thesis by simp
qed

lemma push_room:
  assumes wf: "trace_wf m" and room: "tr_count m < 64"
  shows "trace_wf (trace_push s m) \<and> trace_items (trace_push s m) = trace_items m @ [s]"
proof -
  let ?c = "trace_push s m"
  have h: "tr_head m < 64" "length (tr_rows m) = 64" using wf by (simp_all add: trace_wf_def)
  have rows: "tr_rows ?c = (tr_rows m)[tr_head m := s]" "tr_count ?c = tr_count m + 1"
    "tr_head ?c = (tr_head m + 1) mod 64"
    using room by (simp_all add: trace_push_def Let_def)
  have wf': "trace_wf ?c" using h room by (simp add: trace_wf_def rows)
  have at': "trace_at ?c i = (if i = tr_count m then s else trace_at m i)" if "i \<le> tr_count m" for i
  proof -
    let ?d = "64 - (tr_count m + 1)"
    have "((tr_head m + 1) mod 64 + ?d + i) mod 64 = (tr_head m + 1 + (?d + i)) mod 64"
      unfolding add.assoc [of _ ?d i] by (rule mod_add_left_eq)
    also have "tr_head m + 1 + (?d + i) = tr_head m + (64 - tr_count m) + i" using room by simp
    finally have c: "trace_at ?c i = (tr_rows m)[tr_head m := s] ! ((tr_head m + (64 - tr_count m) + i) mod 64)"
      unfolding trace_at_alt [OF wf'] rows by simp
    show ?thesis
    proof (cases "i = tr_count m")
      case True
      then have "tr_head m + (64 - tr_count m) + i = tr_head m + 64" using room by simp
      with c True h show ?thesis by simp
    next
      case False
      then have "64 - tr_count m + i < 64" "64 - tr_count m + i \<noteq> 0" using that room by linarith+
      note b = this
      have "(tr_head m + (64 - tr_count m) + i) mod 64 \<noteq> tr_head m"
      proof
        assume "(tr_head m + (64 - tr_count m) + i) mod 64 = tr_head m"
        then have "(tr_head m + 0) mod 64 = (tr_head m + (64 - tr_count m + i)) mod 64"
          using mod_less [OF h(1)] by (simp only: add.assoc add_0_right)
        then have "0 = 64 - tr_count m + i" by (rule ring_slot_inj [OF _ b(1), rotated]) simp
        with b(2) show False by simp
      qed
      with c False show ?thesis unfolding trace_at_alt [OF wf] by simp
    qed
  qed
  have "trace_items ?c = trace_items m @ [s]"
  proof -
    have "trace_items ?c = map (trace_at ?c) [0..<tr_count m] @ [trace_at ?c (tr_count m)]"
      by (simp add: trace_items_def rows(2))
    moreover have "map (trace_at ?c) [0..<tr_count m] = map (trace_at m) [0..<tr_count m]"
      by (rule map_cong [OF refl]) (use at' in simp)
    ultimately show ?thesis using at' [of "tr_count m"] by (simp add: trace_items_def)
  qed
  with wf' show ?thesis by simp
qed

lemma push_items:
  assumes wf: "trace_wf m"
  shows "trace_wf (trace_push s m) \<and>
    trace_items (trace_push s m) =
      (if tr_count m < 64 then trace_items m else remove_at (choose_victim (trace_at m) 64) (trace_items m)) @ [s]"
proof (cases "tr_count m < 64")
  case True
  with push_room [OF wf] show ?thesis by simp
next
  case False
  then have full: "tr_count m = 64" using wf by (simp add: trace_wf_def)
  note C = compact_items [OF wf full]
  have c: "tr_count (compact_oldest m) = 63" using full by (simp add: compact_oldest_def Let_def)
  have "trace_push s m = trace_push s (compact_oldest m)" using full c by (simp add: trace_push_def)
  with push_room [of "compact_oldest m" s] C c full show ?thesis by simp
qed

lemma arming_frame:
  "tr_rows (trace_arming s m) = tr_rows m" "tr_head (trace_arming s m) = tr_head m"
  "tr_count (trace_arming s m) = tr_count m" "tr_boot (trace_arming s m) = tr_boot m"
  by (simp_all add: trace_arming_def Let_def)

lemma append_frame:
  "trace_items (trace_append s m) = trace_items (trace_push (s\<lparr>sm_boot := tr_boot m\<rparr>) m)"
  "trace_wf (trace_append s m) = trace_wf (trace_push (s\<lparr>sm_boot := tr_boot m\<rparr>) m)"
  by (simp_all add: trace_append_def Let_def trace_items_def trace_wf_def trace_at_def arming_frame cong: map_cong)

lemma append_boot [simp]: "tr_boot (trace_append s m) = tr_boot m"
  by (simp add: trace_append_def Let_def arming_frame trace_push_def compact_oldest_def)


text \<open>Dropping an early element keeps the first one and the newest ones.\<close>

lemma remove_at_facts:
  assumes "v < length xs" "1 \<le> v"
  shows "subseq (remove_at v xs) xs" "take 1 (remove_at v xs) = take 1 xs"
    "v < k \<Longrightarrow> suffix (drop k xs) (remove_at v xs)"
proof -
  have "subseq (take v xs @ drop (Suc v) xs) (take v xs @ drop v xs)"
    by (intro list_emb_append_mono subseq_order.refl)
      (metis Cons_nth_drop_Suc assms(1) list_emb_Cons subseq_order.refl)
  then show "subseq (remove_at v xs) xs" by (simp add: remove_at_def)
  show "take 1 (remove_at v xs) = take 1 xs" using assms by (cases xs; cases v) (simp_all add: remove_at_def)
  assume "v < k"
  then have "drop k xs = drop (k - Suc v) (drop (Suc v) xs)" by simp
  then have "suffix (drop k xs) (drop (Suc v) xs)" by (metis suffix_drop)
  then show "suffix (drop k xs) (remove_at v xs)" unfolding remove_at_def by (rule suffix_appendI)
qed

text \<open>The observations of a boot as they are stored.\<close>

definition stamped :: "u32 \<Rightarrow> trace_sample \<Rightarrow> trace_sample" where
  "stamped b s = s\<lparr>sm_boot := b\<rparr>"

definition tail_kept :: "trace_sample list \<Rightarrow> trace_sample list \<Rightarrow> bool" where
  "tail_kept all items \<longleftrightarrow> length items = min 64 (length all) \<and> subseq items all \<and> take 1 items = take 1 all \<and>
     suffix (drop (length all - 32) all) items"

lemma tail_kept_append:
  assumes "tail_kept all items" "length items < 64 \<Longrightarrow> items' = items"
    "\<not> length items < 64 \<Longrightarrow> \<exists>v. 1 \<le> v \<and> v \<le> 32 \<and> items' = remove_at v items"
  shows "tail_kept (all @ [x]) (items' @ [x])"
proof -
  note K = assms(1) [unfolded tail_kept_def]
  obtain ys where ys: "items = ys @ drop (length all - 32) all" using K by (auto simp: suffix_def)
  show ?thesis
  proof (cases "length items < 64")
    case True
    have "suffix (drop (length (all @ [x]) - 32) (all @ [x])) (items @ [x])"
    proof -
      have "drop (length (all @ [x]) - 32) (all @ [x]) = drop (length all - 31) all @ [x]"
        by (cases "31 \<le> length all") (simp_all add: Suc_diff_le)
      moreover have "drop (length all - 31) all = drop (length all - 31 - (length all - 32)) (drop (length all - 32) all)"
        by (cases "32 \<le> length all") (simp_all add: not_le flip: Suc_diff_le)
      moreover have "suffix (drop (length all - 31 - (length all - 32)) (drop (length all - 32) all)) items"
        using ys by (metis suffix_appendI suffix_drop)
      ultimately show ?thesis by (metis suffix_def append.assoc)
    qed
    moreover have "subseq (items @ [x]) (all @ [x])"
      using K by (meson list_emb_append_mono subseq_order.refl)
    ultimately show ?thesis using True assms(2) K
      by (cases all) (auto simp: tail_kept_def min_def)
  next
    case False
    then obtain v where v: "1 \<le> v" "v \<le> 32" "items' = remove_at v items" using assms(3) by blast
    have n: "length items = 64" "64 \<le> length all" using False K by auto
    then have vl: "v < length items" using v by simp
    note R = remove_at_facts [OF vl v(1)]
    have "drop (length all - 31) all = drop 33 items"
    proof -
      have "length ys + length (drop (length all - 32) all) = 64" using ys n(1) by (metis length_append)
      then have "length ys = 32" using n(2) by simp
      moreover have "1 + (length all - 32) = length all - 31" using n(2) by simp
      ultimately show ?thesis unfolding ys by simp
    qed
    then have "suffix (drop (length (all @ [x]) - 32) (all @ [x])) (items' @ [x])"
      using R(3) [of 33] v n by (simp add: Suc_diff_le suffix_def) 
    moreover have "length (items' @ [x]) = 64" using v(3) vl n by (simp add: length_remove_at)
    moreover have "subseq (items' @ [x]) (all @ [x])"
      using R(1) v(3) K by (meson list_emb_append_mono subseq_order.order_trans subseq_order.refl)
    moreover have "take 1 (items' @ [x]) = take 1 (all @ [x])"
      using R(2) v(3) K n vl by (cases all; cases items') (auto simp: length_remove_at)
    ultimately show ?thesis using n by (simp add: tail_kept_def)
  qed
qed

text \<open>C17: The trace never loses its ends: after any observations of a boot it holds at most 64 of
  them, in order and unchanged, among them always the very first and the newest 32.\<close>

theorem trace_keeps_ends:
  "tail_kept (map (stamped 1) ss) (trace_items (foldl (\<lambda>m s. trace_append s m) trace0 ss))"
proof -
  have "trace_wf (foldl (\<lambda>m s. trace_append s m) trace0 ss) \<and>
    tr_boot (foldl (\<lambda>m s. trace_append s m) trace0 ss) = 1 \<and>
    tail_kept (map (stamped 1) ss) (trace_items (foldl (\<lambda>m s. trace_append s m) trace0 ss))"
  proof (induction ss rule: rev_induct)
    case Nil
    show ?case by (simp add: trace_wf_def trace0_def tail_kept_def trace_items_def)
  next
    case (snoc s ss)
    let ?m = "foldl (\<lambda>m s. trace_append s m) trace0 ss"
    note P = push_items [of ?m "stamped 1 s"]
    have it: "trace_items (trace_append s ?m) = trace_items (trace_push (stamped 1 s) ?m)"
      "trace_wf (trace_append s ?m) = trace_wf (trace_push (stamped 1 s) ?m)"
      using snoc.IH append_frame [of s ?m] by (simp_all add: stamped_def)
    let ?i = "if tr_count ?m < 64 then trace_items ?m else remove_at (choose_victim (trace_at ?m) 64) (trace_items ?m)"
    have "tail_kept (map (stamped 1) ss @ [stamped 1 s]) (?i @ [stamped 1 s])"
    proof (rule tail_kept_append [of _ "trace_items ?m"])
      have "1 \<le> choose_victim (trace_at ?m) 64 \<and> choose_victim (trace_at ?m) 64 \<le> 32"
        using choose_victim_spec(1,2) by blast
      then show "\<exists>v. 1 \<le> v \<and> v \<le> 32 \<and> ?i = remove_at v (trace_items ?m)"
        if "\<not> length (trace_items ?m) < 64" using that by (intro exI [of _ "choose_victim (trace_at ?m) 64"]) (simp add: trace_items_def)
    qed (use snoc.IH in \<open>simp_all add: trace_items_def\<close>)
    with snoc.IH P it show ?case by simp
  qed
  then show ?thesis by blast
qed

end
