(* ===== verification/Trace_Blob.thy ===== *)
theory Trace_Blob
  imports Gauge_Trace
begin

text \<open>
  The persisted form of the discharge trace (\<open>encodeInto\<close>, \<open>decode\<close> and \<open>verifiedReadback\<close> of
  \<open>main/host/gauge_discharge_trace_model.h\<close>): a header of 32 bytes, 64 rows of 48 bytes and a CRC
  word. The ring is written oldest row first, so what is read back is the same trace in a
  normalised ring.
\<close>

section \<open>One row\<close>

definition put_row :: "nat \<Rightarrow> trace_sample \<Rightarrow> bytes \<Rightarrow> bytes" where
  "put_row p s b =
     (let b = put_le b p (sm_boot s) 4;
          b = put_le b (p + 4) (sm_time s) 8;
          b = put_le b (p + 12) (sm_epoch s) 8;
          b = put_le b (p + 20) (sm_flags s) 2;
          b = put_le b (p + 22) (sm_soc s) 2;
          b = put_le b (p + 24) (sm_mv s) 2;
          b = put_le b (p + 26) (sm_current s) 2;
          b = put_le b (p + 28) (sm_average s) 2;
          b = put_le b (p + 30) (sm_remaining s) 2;
          b = put_le b (p + 32) (sm_full s) 2;
          b = put_le b (p + 34) (sm_design s) 2;
          b = put_le b (p + 36) (sm_operation s) 2;
          b = put_le b (p + 38) (sm_battery s) 2;
          b = put_le b (p + 40) (sm_health s) 2;
          b = put_le b (p + 42) (sm_cycles s) 2;
          b = put_le b (p + 44) (sm_temperature s) 2
      in if sm_flags s AND 32 \<noteq> 0 then put_le b (p + 46) (sm_raw s) 2 else b)"

definition get_row :: "bytes \<Rightarrow> nat \<Rightarrow> trace_sample" where
  "get_row b p =
     \<lparr>sm_boot = get_le b p 4, sm_time = get_le b (p + 4) 8, sm_epoch = get_le b (p + 12) 8,
      sm_flags = get_le b (p + 20) 2, sm_soc = get_le b (p + 22) 2, sm_mv = get_le b (p + 24) 2,
      sm_current = get_le b (p + 26) 2, sm_average = get_le b (p + 28) 2,
      sm_remaining = get_le b (p + 30) 2, sm_full = get_le b (p + 32) 2, sm_design = get_le b (p + 34) 2,
      sm_operation = get_le b (p + 36) 2, sm_battery = get_le b (p + 38) 2, sm_health = get_le b (p + 40) 2,
      sm_cycles = get_le b (p + 42) 2, sm_temperature = get_le b (p + 44) 2, sm_raw = get_le b (p + 46) 2\<rparr>"

section \<open>The blob\<close>

definition row_offset :: "nat \<Rightarrow> nat" where
  "row_offset i = 32 + i * 48"

definition trace_has_raw :: "trace \<Rightarrow> bool" where
  "trace_has_raw m \<longleftrightarrow> list_ex (\<lambda>i. sm_flags (trace_at m i) AND 32 \<noteq> 0) [0..<tr_count m]"

definition put_header :: "trace \<Rightarrow> bytes \<Rightarrow> bytes" where
  "put_header m b =
     (let b = put_le b 0 (0x31544447 :: u64) 4;
          b = put_le b 4 (if trace_has_raw m then 2 else 1 :: u64) 2;
          b = put_le b 6 (48 :: u64) 2;
          b = put_le b 8 (of_nat (tr_count m) :: u64) 2;
          b = put_le b 10 (if tr_armed m then 1 else 0 :: u64) 1;
          b = put_le b 11 ((if tr_low_seen m then 1 else 0) OR (if tr_finalized m then 2 else 0) :: u64) 1
      in put_le b 12 (tr_boot m) 4)"

definition trace_encode :: "trace \<Rightarrow> bytes" where
  "trace_encode m =
     (let b = put_header m (replicate 3108 0);
          b = foldl (\<lambda>b i. put_row (row_offset i) (trace_at m i) b) b [0..<tr_count m]
      in put_le b 3104 (crc32 (take 3104 b)) 4)"

text \<open>The checks a row has to pass; \<open>prev\<close> is the row before it.\<close>

definition row_ok :: "u16 \<Rightarrow> u32 \<Rightarrow> trace_sample option \<Rightarrow> trace_sample \<Rightarrow> bool" where
  "row_ok schema boot prev s \<longleftrightarrow>
     \<not> (sm_boot s = 0 \<or> sm_boot s > boot \<or> sm_flags s AND NOT (if schema = 2 then 63 else 31) \<noteq> 0) \<and>
     (case prev of None \<Rightarrow> True
      | Some q \<Rightarrow> \<not> (sm_boot s < sm_boot q \<or> (sm_boot s = sm_boot q \<and> sm_time s < sm_time q)))"

fun get_rows :: "bytes \<Rightarrow> u16 \<Rightarrow> u32 \<Rightarrow> trace_sample option \<Rightarrow> nat list \<Rightarrow> trace_sample list option" where
  "get_rows b schema boot prev [] = Some []"
| "get_rows b schema boot prev (i # is) =
     (let s = get_row b (row_offset i) in
      if row_ok schema boot prev s
      then (case get_rows b schema boot (Some s) is of None \<Rightarrow> None | Some rows \<Rightarrow> Some (s # rows))
      else None)"

definition trace_decode :: "bytes \<Rightarrow> trace option" where
  "trace_decode b =
     (let schema = (get_le b 4 2 :: u16); count = unat (get_le b 8 2 :: u16); boot = (get_le b 12 4 :: u32);
          armed = b ! 10 \<noteq> 0; low_seen = b ! 11 AND 1 \<noteq> 0; finalized = b ! 11 AND 2 \<noteq> 0 in
      if get_le b 0 4 \<noteq> (0x31544447 :: u32) \<or> (schema \<noteq> 1 \<and> schema \<noteq> 2) \<or> get_le b 6 2 \<noteq> (48 :: u16) \<or>
         count > 64 \<or> b ! 10 > 1 \<or> get_le b 3104 4 \<noteq> crc32 (take 3104 b) then None
      else if b ! 11 > 3 \<or> (finalized \<and> (\<not> low_seen \<or> armed)) then None
      else if boot = 0 then None
      else
        (case get_rows b schema boot None [0..<count] of
           None \<Rightarrow> None
         | Some rows \<Rightarrow>
             if \<not> zeros b 16 32 then None
             else if list_ex (\<lambda>i. sm_flags (rows ! i) AND 32 = 0 \<and>
                       (b ! (row_offset i + 46) \<noteq> 0 \<or> b ! (row_offset i + 47) \<noteq> 0)) [0..<count] then None
             else if \<not> zeros b (row_offset count) 3104 then None
             else Some (trace0\<lparr>tr_rows := rows @ replicate (64 - count) trace_sample0, tr_count := count,
                    tr_head := count mod 64, tr_armed := armed, tr_low_seen := low_seen,
                    tr_finalized := finalized, tr_boot := boot\<rparr>)))"

definition verified_readback :: "bytes \<Rightarrow> bytes \<Rightarrow> nat \<Rightarrow> bool" where
  "verified_readback expected actual n \<longleftrightarrow>
     n = 3108 \<and> get_le actual 3104 4 = crc32 (take 3104 actual) \<and>
     list_all (\<lambda>i. expected ! i = actual ! i) [0..<3108]"

section \<open>Rows read back\<close>

definition row_canonical :: "trace_sample \<Rightarrow> bool" where
  "row_canonical s \<longleftrightarrow> sm_flags s AND NOT 63 = 0"

text \<open>The raw coulomb count is stored only with its flag.\<close>

definition row_norm :: "trace_sample \<Rightarrow> trace_sample" where
  "row_norm s = (if sm_flags s AND 32 = 0 then s\<lparr>sm_raw := 0\<rparr> else s)"

lemma row_norm_simps [simp]:
  "sm_flags (row_norm s) = sm_flags s" "sm_boot (row_norm s) = sm_boot s" "sm_time (row_norm s) = sm_time s"
  by (simp_all add: row_norm_def)

lemma put_row_norm [simp]: "put_row p (row_norm s) b = put_row p s b"
  by (simp add: put_row_def row_norm_def Let_def)

lemma row_norm_idem [simp]: "row_norm (row_norm s) = row_norm s"
  by (simp add: row_norm_def)

lemma length_put_row [simp]: "length (put_row p s b) = length b"
  by (simp add: put_row_def Let_def)

lemma nth_put_row_other: "i < p \<or> p + 48 \<le> i \<Longrightarrow> put_row p s b ! i = b ! i"
  by (erule disjE) (simp_all add: put_row_def Let_def nth_put_le_other)

lemma get_le_put_row: "x + n \<le> p \<or> p + 48 \<le> x \<Longrightarrow> get_le (put_row p s b) x n = get_le b x n"
  by (intro get_le_cong nth_put_row_other) auto

lemma get_row_put_other: "p + 48 \<le> q \<or> q + 48 \<le> p \<Longrightarrow> get_row (put_row q s b) p = get_row b p"
  unfolding get_row_def by (auto simp: get_le_put_row)

lemma get_row_put_row:
  assumes "p + 48 \<le> length b" "get_le b (p + 46) 2 = (0 :: u16)"
  shows "get_row (put_row p s b) p = row_norm s"
  using assms by (cases s) (simp add: get_row_def put_row_def row_norm_def Let_def codec_simps)

text \<open>The rows after the first \<open>k\<close> have been written.\<close>

definition put_rows :: "(nat \<Rightarrow> trace_sample) \<Rightarrow> nat \<Rightarrow> bytes \<Rightarrow> bytes" where
  "put_rows row k b = foldl (\<lambda>b i. put_row (row_offset i) (row i) b) b [0..<k]"

lemma put_rows_simps: "put_rows row 0 b = b"
  "put_rows row (Suc k) b = put_row (row_offset k) (row k) (put_rows row k b)"
  by (simp_all add: put_rows_def)

lemma length_put_rows [simp]: "length (put_rows row k b) = length b"
  by (induction k) (simp_all add: put_rows_simps)

lemma nth_put_rows_other: "i < 32 \<or> row_offset k \<le> i \<Longrightarrow> put_rows row k b ! i = b ! i"
  by (induction k) (auto simp: put_rows_simps row_offset_def nth_put_row_other)

lemma get_row_put_rows:
  assumes "length b = 3108" "\<And>x. 32 \<le> x \<Longrightarrow> x < 3108 \<Longrightarrow> b ! x = 0" "k \<le> 64"
  shows "i < k \<Longrightarrow> get_row (put_rows row k b) (row_offset i) = row_norm (row i)"
  using assms(3)
proof (induction k)
  case 0
  then show ?case by simp
next
  case (Suc k)
  show ?case
  proof (cases "i = k")
    case True
    have "get_le (put_rows row k b) (row_offset k + 46) 2 = (0 :: u16)"
      by (rule get_le_zeros) (use Suc.prems(2) assms(2) in \<open>simp add: nth_put_rows_other row_offset_def\<close>)
    then show ?thesis using True Suc.prems assms(1)
      by (simp add: put_rows_simps get_row_put_row row_offset_def)
  next
    case False
    then have "row_offset i + 48 \<le> row_offset k" using Suc.prems(1) by (simp add: row_offset_def)
    with False Suc show ?thesis by (simp add: put_rows_simps get_row_put_other)
  qed
qed

lemma raw_bytes_put_rows:
  assumes "length b = 3108" "\<And>x. 32 \<le> x \<Longrightarrow> x < 3108 \<Longrightarrow> b ! x = 0" "k \<le> 64" "i < k"
    "sm_flags (row i) AND 32 = 0" "d = 46 \<or> d = 47"
  shows "put_rows row k b ! (row_offset i + d) = 0"
  using assms(3,4)
proof (induction k)
  case 0
  then show ?case by simp
next
  case (Suc k)
  show ?case
  proof (cases "i = k")
    case True
    have "put_row (row_offset k) (row k) (put_rows row k b) ! (row_offset k + d) = put_rows row k b ! (row_offset k + d)"
      using assms(6) by (rule disjE) (use True assms(5) in \<open>simp_all add: put_row_def Let_def nth_put_le_other\<close>)
    then show ?thesis using True Suc.prems assms(1,2,6) by (auto simp: put_rows_simps nth_put_rows_other row_offset_def)
  next
    case False
    then have "row_offset i + d < row_offset k" using Suc.prems assms(6) by (auto simp: row_offset_def)
    with False Suc show ?thesis by (simp add: put_rows_simps nth_put_row_other)
  qed
qed

section \<open>The round trip\<close>

definition row_before :: "trace_sample \<Rightarrow> trace_sample \<Rightarrow> bool" where
  "row_before q s \<longleftrightarrow> \<not> (sm_boot s < sm_boot q \<or> (sm_boot s = sm_boot q \<and> sm_time s < sm_time q))"

lemma row_before_norm [simp]: "row_before (row_norm q) (row_norm s) = row_before q s"
  by (simp add: row_before_def)

text \<open>A trace that its own decoder accepts.\<close>

definition trace_storable :: "trace \<Rightarrow> bool" where
  "trace_storable m \<longleftrightarrow> trace_wf m \<and> tr_boot m \<noteq> 0 \<and> (tr_finalized m \<longrightarrow> tr_low_seen m \<and> \<not> tr_armed m) \<and>
     sorted_wrt row_before (trace_items m) \<and>
     (\<forall>s \<in> set (trace_items m). row_canonical s \<and> sm_boot s \<noteq> 0 \<and> sm_boot s \<le> tr_boot m)"

text \<open>What is left of a trace after a restart: the rows from slot 0, the flags, nothing volatile.\<close>

definition trace_stored :: "trace \<Rightarrow> trace" where
  "trace_stored m = trace0\<lparr>tr_rows := map row_norm (trace_items m) @ replicate (64 - tr_count m) trace_sample0,
     tr_count := tr_count m, tr_head := tr_count m mod 64, tr_armed := tr_armed m,
     tr_low_seen := tr_low_seen m, tr_finalized := tr_finalized m, tr_boot := tr_boot m\<rparr>"

lemma get_rows_sorted:
  assumes "sorted_wrt row_before (map (\<lambda>i. get_row b (row_offset i)) is)"
    "\<And>i. i \<in> set is \<Longrightarrow> row_ok schema boot None (get_row b (row_offset i))"
    "\<And>q i. prev = Some q \<Longrightarrow> i \<in> set is \<Longrightarrow> row_before q (get_row b (row_offset i))"
  shows "get_rows b schema boot prev is = Some (map (\<lambda>i. get_row b (row_offset i)) is)"
  using assms
proof (induction "is" arbitrary: prev)
  case Nil
  then show ?case by simp
next
  case (Cons i "is")
  have "row_ok schema boot prev (get_row b (row_offset i))"
    using Cons.prems(2) [of i] Cons.prems(3) [of _ i]
    by (cases prev) (simp_all add: row_ok_def row_before_def)
  moreover have "get_rows b schema boot (Some (get_row b (row_offset i))) is = Some (map (\<lambda>i. get_row b (row_offset i)) is)"
    by (rule Cons.IH) (use Cons.prems in auto)
  ultimately show ?case by (simp add: Let_def)
qed

lemma header_facts:
  fixes m :: trace
  defines "h \<equiv> put_header m (replicate 3108 0)"
  assumes c: "tr_count m \<le> 64"
  shows "get_le h 0 4 = (0x31544447 :: u32)" "get_le h 4 2 = (if trace_has_raw m then 2 else 1 :: u16)"
    "get_le h 6 2 = (48 :: u16)" "get_le h 8 2 = (of_nat (tr_count m) :: u16)"
    "h ! 10 = (if tr_armed m then 1 else 0)"
    "h ! 11 = ((if tr_low_seen m then 1 else 0) OR (if tr_finalized m then 2 else 0))"
    "get_le h 12 4 = tr_boot m" "16 \<le> i \<Longrightarrow> i < 3108 \<Longrightarrow> h ! i = 0" "length h = 3108"
proof -
  show "get_le h 0 4 = (0x31544447 :: u32)" "get_le h 4 2 = (if trace_has_raw m then 2 else 1 :: u16)"
    "get_le h 6 2 = (48 :: u16)"
    by (simp_all add: h_def put_header_def Let_def codec_simps take_bit_eq_mod)
  show "get_le h 12 4 = tr_boot m"
    by (simp add: h_def put_header_def Let_def codec_simps)
  have "ucast (take_bit 16 (of_nat (tr_count m) :: u64)) = (of_nat (tr_count m) :: u16)"
    by (rule bit_word_eqI) (simp add: bit_ucast_iff bit_take_bit_iff bit_of_nat_iff)
  then show "get_le h 8 2 = (of_nat (tr_count m) :: u16)"
    by (simp add: h_def put_header_def Let_def codec_simps)
  show "h ! 10 = (if tr_armed m then 1 else 0)"
    "h ! 11 = ((if tr_low_seen m then 1 else 0) OR (if tr_finalized m then 2 else 0))"
    by (simp_all add: h_def put_header_def Let_def nth_put_le)
  show "h ! i = 0" if "16 \<le> i" "i < 3108" using that by (simp add: h_def put_header_def Let_def nth_put_le)
  show "length h = 3108" by (simp add: h_def put_header_def Let_def)
qed

lemma flags_without_raw:
  "f AND NOT 63 = 0 \<Longrightarrow> f AND 32 = 0 \<Longrightarrow> f AND NOT 31 = (0 :: u16)"
proof -
  assume "f AND NOT 63 = 0" "f AND 32 = 0"
  moreover have "NOT 31 = (NOT 63 OR 32 :: u16)" by simp
  ultimately show ?thesis by (metis bit.conj_disj_distrib or.right_neutral)
qed

text \<open>Every byte of the encoding, read through its header and its rows.\<close>

lemma encode_parts:
  fixes m :: trace
  defines "h \<equiv> put_header m (replicate 3108 0)" and "b \<equiv> trace_encode m"
  assumes c: "tr_count m \<le> 64"
  shows "i < 32 \<Longrightarrow> b ! i = h ! i" "i < tr_count m \<Longrightarrow> get_row b (row_offset i) = row_norm (trace_at m i)"
    "i < tr_count m \<Longrightarrow> sm_flags (trace_at m i) AND 32 = 0 \<Longrightarrow> b ! (row_offset i + 46) = 0 \<and> b ! (row_offset i + 47) = 0"
    "row_offset (tr_count m) \<le> i \<Longrightarrow> i < 3104 \<Longrightarrow> b ! i = 0"
    "get_le b 3104 4 = crc32 (take 3104 b)" "length b = 3108"
proof -
  let ?r = "put_rows (trace_at m) (tr_count m) h"
  have b: "b = put_le ?r 3104 (crc32 (take 3104 ?r)) 4"
    by (simp add: b_def trace_encode_def put_rows_def h_def Let_def)
  note H = header_facts [OF c, folded h_def]
  have low: "b ! i = ?r ! i" if "i < 3104" for i using that by (simp add: b nth_put_le_other)
  show "b ! i = h ! i" if "i < 32" using that by (simp add: low nth_put_rows_other)
  have off: "row_offset i + 48 \<le> 3104" if "i < tr_count m" for i using that c by (simp add: row_offset_def)
  show "get_row b (row_offset i) = row_norm (trace_at m i)" if i: "i < tr_count m"
  proof -
    have "get_row b (row_offset i) = get_row ?r (row_offset i)"
      using off [OF i] by (simp add: b get_row_def codec_simps)
    also have "\<dots> = row_norm (trace_at m i)"
      by (rule get_row_put_rows [OF H(9) H(8) c i]) simp_all
    finally show ?thesis .
  qed
  show "b ! (row_offset i + 46) = 0 \<and> b ! (row_offset i + 47) = 0"
    if i: "i < tr_count m" and z: "sm_flags (trace_at m i) AND 32 = 0"
  proof -
    have "?r ! (row_offset i + d) = 0" if "d = 46 \<or> d = 47" for d
      by (rule raw_bytes_put_rows) (use H(8,9) c i z that in simp_all)
    then show ?thesis using off [OF i] by (simp add: low)
  qed
  show "b ! i = 0" if "row_offset (tr_count m) \<le> i" "i < 3104"
    using that H(8) [of i] by (simp add: low nth_put_rows_other row_offset_def)
  show "length b = 3108" by (simp add: b H)
  show "get_le b 3104 4 = crc32 (take 3104 b)" by (simp add: b codec_simps H)
qed

lemma decode_encode:
  assumes st: "trace_storable m"
  shows "trace_decode (trace_encode m) = Some (trace_stored m)"
proof -
  let ?b = "trace_encode m" and ?h = "put_header m (replicate 3108 0)"
  have c: "tr_count m \<le> 64" using st by (auto simp: trace_storable_def trace_wf_def)
  note H = header_facts [OF c] and P = encode_parts [OF c]
  let ?rows = "map row_norm (trace_items m)"
  have low: "get_le ?b p n = get_le ?h p n" if "p + n \<le> 32" for p n
    by (rule get_le_cong) (use P(1) that in simp)
  let ?schema = "if trace_has_raw m then 2 else 1 :: u16"
  have rows: "map (\<lambda>i. get_row ?b (row_offset i)) [0..<tr_count m] = ?rows"
    unfolding trace_items_def map_map by (rule map_cong [OF refl]) (use P(2) in simp)
  have ok: "row_ok ?schema (tr_boot m) None (row_norm (trace_at m i))" if "i < tr_count m" for i
  proof -
    have "trace_at m i \<in> set (trace_items m)" using that by (simp add: trace_items_def)
    then have "row_canonical (trace_at m i)" "sm_boot (trace_at m i) \<noteq> 0" "sm_boot (trace_at m i) \<le> tr_boot m"
      using st by (auto simp: trace_storable_def)
    moreover have "sm_flags (trace_at m i) AND 32 = 0" if "\<not> trace_has_raw m"
      using that \<open>i < tr_count m\<close> by (auto simp: trace_has_raw_def list_ex_iff)
    ultimately show ?thesis
      by (auto simp: row_ok_def row_canonical_def flags_without_raw [simplified])
  qed
  have got: "get_rows ?b ?schema (tr_boot m) None [0..<tr_count m] = Some ?rows"
    using get_rows_sorted [of ?b "[0..<tr_count m]" ?schema "tr_boot m" None] ok st P(2)
    by (simp add: rows trace_storable_def sorted_wrt_map)
  have nth: "?rows ! i = row_norm (trace_at m i)" if "i < tr_count m" for i using that by (simp add: trace_items_def)
  have cnt: "unat (of_nat (tr_count m) :: u16) = tr_count m" using c by (simp add: unat_of_nat)
  have "?b ! 10 = (if tr_armed m then 1 else 0)"
    "?b ! 11 = ((if tr_low_seen m then 1 else 0) OR (if tr_finalized m then 2 else 0))"
    using P(1) H(5,6) by simp_all
  moreover have "zeros ?b 16 32" using P(1) H(8) by (simp add: zeros_iff)
  moreover have "zeros ?b (row_offset (tr_count m)) 3104" using P(4) by (simp add: zeros_iff)
  moreover have "\<not> list_ex (\<lambda>i. sm_flags (?rows ! i) AND 32 = 0 \<and>
      (?b ! (row_offset i + 46) \<noteq> 0 \<or> ?b ! (row_offset i + 47) \<noteq> 0)) [0..<tr_count m]"
    using P(3) nth by (auto simp: list_ex_iff)
  moreover have "tr_boot m \<noteq> 0" "tr_finalized m \<longrightarrow> tr_low_seen m \<and> \<not> tr_armed m"
    using st by (simp_all add: trace_storable_def)
  ultimately show ?thesis using c got
    by (cases "tr_armed m"; cases "tr_low_seen m"; cases "tr_finalized m")
      (simp_all add: trace_decode_def Let_def low H(1-4,7) cnt P(5) trace_stored_def)
qed

section \<open>The blob as a sealed codec\<close>

lemma length_trace_encode [simp]: "length (trace_encode m) = 3108"
proof -
  have "length (foldl (\<lambda>b i. put_row (row_offset i) (trace_at m i) b) b xs) = length b" for b xs
    by (induction xs arbitrary: b) simp_all
  then show ?thesis by (simp add: trace_encode_def put_header_def Let_def)
qed

lemma trace_decode_sealed: "trace_decode b = Some m \<Longrightarrow> sealed b 3104"
  by (auto simp: trace_decode_def sealed_def Let_def split: if_splits)

interpretation trace_blob: sealed_blob 3104 trace_decode
  by unfold_locales (rule trace_decode_sealed)

lemma trace_stored_items: "trace_wf m \<Longrightarrow> trace_items (trace_stored m) = map row_norm (trace_items m)"
proof (rule nth_equalityI)
  show "length (trace_items (trace_stored m)) = length (map row_norm (trace_items m))"
    by (simp add: trace_stored_def)
  fix i
  assume w: "trace_wf m" and "i < length (trace_items (trace_stored m))"
  then have i: "i < tr_count m" "tr_count m \<le> 64" by (simp_all add: trace_stored_def trace_wf_def)
  have "(tr_count m mod 64 + 64 - tr_count m + i) mod 64 = i"
    using i by (cases "tr_count m = 64") simp_all
  then have "trace_at (trace_stored m) i = map row_norm (trace_items m) ! i"
    using i by (simp add: trace_at_def trace_stored_def nth_append)
  then show "trace_items (trace_stored m) ! i = map row_norm (trace_items m) ! i"
    using i by (simp add: trace_items_def trace_stored_def)
qed

lemma trace_stored_storable: "trace_storable m \<Longrightarrow> trace_storable (trace_stored m)"
  by (simp add: trace_storable_def trace_stored_items sorted_wrt_map row_canonical_def)
    (simp add: trace_wf_def trace_stored_def)

text \<open>An observation not older than the rows of the running boot keeps the trace storable.\<close>

lemma push_subseq:
  assumes "trace_wf m"
  obtains xs where "trace_wf (trace_push s m)" "trace_items (trace_push s m) = xs @ [s]" "subseq xs (trace_items m)"
proof -
  let ?xs = "if tr_count m < 64 then trace_items m else remove_at (choose_victim (trace_at m) 64) (trace_items m)"
  have "subseq ?xs (trace_items m)"
  proof (cases "tr_count m < 64")
    case True
    then show ?thesis by simp
  next
    case False
    have "choose_victim (trace_at m) 64 < 33" using choose_victim_spec(2) [of "trace_at m" 64] by linarith
    then have "subseq (remove_at (choose_victim (trace_at m) 64) (trace_items m)) (trace_items m)"
      by (intro remove_at_facts(1)) (use False choose_victim_spec(1) in simp_all)
    with False show ?thesis by simp
  qed
  with push_items [OF assms, of s] that show ?thesis by blast
qed

lemma subseq_set: "subseq xs ys \<Longrightarrow> set xs \<subseteq> set ys"
  by (induction rule: list_emb.induct) auto

lemma sorted_wrt_subseq_keeps: "subseq xs ys \<Longrightarrow> sorted_wrt P ys \<Longrightarrow> sorted_wrt P xs"
proof (induction rule: list_emb.induct)
  case (list_emb_Cons2 x y xs ys)
  then have "set xs \<subseteq> set ys" by (intro subseq_set)
  with list_emb_Cons2 show ?case by auto
qed simp_all

lemma arming_flags:
  "tr_finalized m \<longrightarrow> tr_low_seen m \<and> \<not> tr_armed m \<Longrightarrow>
    tr_finalized (trace_arming s m) \<longrightarrow> tr_low_seen (trace_arming s m) \<and> \<not> tr_armed (trace_arming s m)"
  by (auto simp: trace_arming_def Let_def)

lemma push_flags:
  "tr_finalized (trace_push s m) = tr_finalized m" "tr_low_seen (trace_push s m) = tr_low_seen m"
  "tr_armed (trace_push s m) = tr_armed m" "tr_boot (trace_push s m) = tr_boot m"
  by (simp_all add: trace_push_def compact_oldest_def Let_def)

lemma append_flags:
  "tr_finalized (trace_append s m) = tr_finalized (trace_arming (s\<lparr>sm_boot := tr_boot m\<rparr>) (trace_push (s\<lparr>sm_boot := tr_boot m\<rparr>) m))"
  "tr_low_seen (trace_append s m) = tr_low_seen (trace_arming (s\<lparr>sm_boot := tr_boot m\<rparr>) (trace_push (s\<lparr>sm_boot := tr_boot m\<rparr>) m))"
  "tr_armed (trace_append s m) = tr_armed (trace_arming (s\<lparr>sm_boot := tr_boot m\<rparr>) (trace_push (s\<lparr>sm_boot := tr_boot m\<rparr>) m))"
  by (simp_all add: trace_append_def Let_def)

lemma append_storable:
  assumes st: "trace_storable m" and s: "row_canonical s"
    and late: "\<And>q. q \<in> set (trace_items m) \<Longrightarrow> sm_boot q = tr_boot m \<Longrightarrow> sm_time q \<le> sm_time s"
  shows "trace_storable (trace_append s m)"
    "\<And>q. q \<in> set (trace_items (trace_append s m)) \<Longrightarrow> q \<in> set (trace_items m) \<or> q = s\<lparr>sm_boot := tr_boot m\<rparr>"
proof -
  let ?s = "s\<lparr>sm_boot := tr_boot m\<rparr>"
  obtain xs where xs: "trace_wf (trace_push ?s m)" "trace_items (trace_push ?s m) = xs @ [?s]" "subseq xs (trace_items m)"
    using push_subseq st unfolding trace_storable_def by blast
  have it: "trace_items (trace_append s m) = xs @ [?s]" "trace_wf (trace_append s m)"
    using xs by (simp_all add: append_frame)
  have sub: "set xs \<subseteq> set (trace_items m)" using xs(3) by (rule subseq_set)
  then show "\<And>q. q \<in> set (trace_items (trace_append s m)) \<Longrightarrow> q \<in> set (trace_items m) \<or> q = ?s"
    using it by auto
  have "sorted_wrt row_before xs"
    by (rule sorted_wrt_subseq_keeps [OF xs(3)]) (use st in \<open>simp add: trace_storable_def\<close>)
  moreover have "row_before q ?s" if "q \<in> set xs" for q
  proof -
    have q: "q \<in> set (trace_items m)" using that sub by blast
    then have "sm_boot q \<le> tr_boot m" using st by (auto simp: trace_storable_def)
    then show ?thesis using late [OF q] by (auto simp: row_before_def)
  qed
  moreover have "row_canonical ?s" using s by (simp add: row_canonical_def)
  moreover have "tr_finalized (trace_append s m) \<longrightarrow> tr_low_seen (trace_append s m) \<and> \<not> tr_armed (trace_append s m)"
    unfolding append_flags by (rule arming_flags) (use st in \<open>simp add: push_flags trace_storable_def\<close>)
  ultimately show "trace_storable (trace_append s m)"
    using it sub st by (auto simp: trace_storable_def sorted_wrt_append)
qed

text \<open>C18: What the trace writes is what a restart reads: the same rows in the same order
  (without raw counts that were not valid) and the same flags, accepted by the read-back check, again
  storable, and refused when any byte differs.\<close>

theorem trace_blob_roundtrip:
  assumes "trace_storable m"
  shows "\<exists>m'. trace_decode (trace_encode m) = Some m' \<and>
    trace_items m' = map row_norm (trace_items m) \<and> tr_armed m' = tr_armed m \<and> tr_low_seen m' = tr_low_seen m \<and> tr_finalized m' = tr_finalized m \<and>
    tr_boot m' = tr_boot m \<and> trace_storable m' \<and>
    verified_readback (trace_encode m) (trace_encode m') 3108 \<and>
    (\<forall>i < 3108. \<forall>x. x \<noteq> trace_encode m ! i \<longrightarrow> trace_decode ((trace_encode m)[i := x]) = None)"
proof -
  let ?m = "trace_stored m"
  have w: "trace_wf m" and w': "trace_wf ?m"
    using assms trace_stored_storable [OF assms] by (simp_all add: trace_storable_def)
  have fl: "tr_armed ?m = tr_armed m" "tr_low_seen ?m = tr_low_seen m" "tr_finalized ?m = tr_finalized m"
    "tr_boot ?m = tr_boot m" "tr_count ?m = tr_count m" by (simp_all add: trace_stored_def)
  have at: "trace_at ?m i = row_norm (trace_at m i)" if "i < tr_count m" for i
  proof -
    have "trace_items ?m ! i = map row_norm (trace_items m) ! i" using trace_stored_items [OF w] by simp
    with that show ?thesis by (simp add: trace_items_def fl)
  qed
  have "put_header ?m b = put_header m b" for b
    using at by (auto simp: put_header_def fl trace_has_raw_def list_ex_iff Let_def)
  moreover have "foldl (\<lambda>b i. put_row (row_offset i) (trace_at ?m i) b) b [0..<tr_count m] =
      foldl (\<lambda>b i. put_row (row_offset i) (trace_at m i) b) b [0..<tr_count m]" for b
    by (rule foldl_cong) (use at in simp_all)
  ultimately have enc: "trace_encode ?m = trace_encode m" by (simp add: trace_encode_def fl)
  have D: "trace_decode (trace_encode m) = Some ?m" by (rule decode_encode [OF assms])
  have "get_le (trace_encode m) 3104 4 = crc32 (take 3104 (trace_encode m))"
    using trace_decode_sealed [OF D] by (simp add: sealed_def)
  then have "verified_readback (trace_encode m) (trace_encode ?m) 3108"
    by (simp add: enc verified_readback_def list_all_iff)
  moreover have "\<forall>i < 3108. \<forall>x. x \<noteq> trace_encode m ! i \<longrightarrow> trace_decode ((trace_encode m)[i := x]) = None"
    using trace_blob.corrupt_rejected [OF D] by simp
  ultimately show ?thesis
    using D trace_stored_items [OF w] trace_stored_storable [OF assms] fl by blast
qed

lemma trace_blob_roundtrip_witness:
  "\<exists>m'. trace_decode (trace_encode (trace0\<lparr>tr_armed := True, tr_boot := 7\<rparr>)) = Some m' \<and>
    tr_armed m' \<and> tr_boot m' = 7 \<and> trace_items m' = []"
proof -
  have "trace_storable (trace0\<lparr>tr_armed := True, tr_boot := 7\<rparr>)"
    by (simp add: trace_storable_def trace_wf_def trace0_def trace_items_def)
  from trace_blob_roundtrip [OF this] show ?thesis
    by (auto simp: trace0_def trace_items_def)
qed

end
