(* ===== verification/Trace_Codec.thy ===== *)
theory Trace_Codec
  imports Trace_Blob
begin

text \<open>
  The compressed envelope of the trace (\<open>main/host/gauge_trace_storage_codec.h\<close>): every row is
  exclusive-ored with the row before it, and the result is written as runs of zeros and literal
  runs of non-zero bytes, each of at most 128. A frame that would not be smaller than the plain blob
  is not used. The buffer of \<open>Packed\<close> keeps its old bytes behind the frame; they are not stored.
\<close>

section \<open>The frame\<close>

record packed =
  pk_bytes :: bytes
  pk_size :: nat

datatype unpack_error = NoError | LengthError | FormatError | CrcError

definition frame_crc :: "packed \<Rightarrow> u32" where
  "frame_crc p = crc32 (map (\<lambda>i. pk_bytes p ! i) (filter (\<lambda>i. \<not> (12 \<le> i \<and> i < 16)) [0..<pk_size p]))"

definition row_delta :: "bytes \<Rightarrow> nat \<Rightarrow> nat \<Rightarrow> u8" where
  "row_delta b count i = (if 32 + 48 \<le> i \<and> i < 32 + count * 48 then b ! i XOR b ! (i - 48) else b ! i)"

section \<open>Packing\<close>

text \<open>\<open>run=1; while(run<128 && input+run<BlobSize && (delta(canonical,input+run,count)==0)==zero) ++run;\<close>\<close>

function run_from :: "(nat \<Rightarrow> u8) \<Rightarrow> nat \<Rightarrow> bool \<Rightarrow> nat \<Rightarrow> nat" where
  "run_from d input zero run =
     (if run < 128 \<and> input + run < 3108 \<and> (d (input + run) = 0) = zero
      then run_from d input zero (run + 1) else run)"
  by auto
termination by (relation "measure (\<lambda>(d, input, zero, run). 128 - run)") auto

declare run_from.simps [simp del]

lemma run_from_ge: "run \<le> run_from d input zero run"
  by (induction d input zero run rule: run_from.induct) (subst run_from.simps, auto)

lemma run_from_pos [simp]: "0 < run_from d input zero (Suc 0)"
  using run_from_ge [of "Suc 0" d input zero] by simp

text \<open>The loop ends with None when the frame does not fit.\<close>

function pack_loop :: "(nat \<Rightarrow> u8) \<Rightarrow> nat \<Rightarrow> nat \<Rightarrow> bytes \<Rightarrow> (nat \<times> bytes) option" where
  "pack_loop d input outp bytes =
     (if input < 3108
      then
        (let zero = (d input = 0); run = run_from d input zero 1; need = 1 + (if zero then 0 else run) in
         if outp + need \<ge> 3108 then None
         else
           (let bytes = bytes[outp := (if zero then 128 else 0) OR of_nat (run - 1)];
                bytes = (if zero then bytes else put_bytes bytes (outp + 1) (map d [input..<input + run]))
            in pack_loop d (input + run) (outp + need) bytes))
      else Some (outp, bytes))"
  by auto
termination by (relation "measure (\<lambda>(d, input, outp, bytes). 3108 - input)") (auto simp: diff_less_mono2)

declare pack_loop.simps [simp del]

definition seal_frame :: "nat \<Rightarrow> bytes \<Rightarrow> packed" where
  "seal_frame outp bytes =
     (let b = put_le bytes 0 (0x32435447 :: u64) 4;
          b = put_le b 4 (1 :: u64) 1;
          b = put_le b 5 (1 :: u64) 1;
          b = put_le b 6 (3108 :: u64) 2;
          b = put_le b 8 (of_nat (outp - 16) :: u64) 2;
          b = put_le b 10 (0 :: u64) 2
      in \<lparr>pk_bytes = put_le b 12 (frame_crc \<lparr>pk_bytes = b, pk_size = outp\<rparr>) 4, pk_size = outp\<rparr>)"

definition trace_pack :: "bytes \<Rightarrow> packed \<Rightarrow> packed" where
  "trace_pack canonical out =
     (let count = unat (get_le canonical 8 2 :: u16) in
      case (if count \<le> 64 then pack_loop (row_delta canonical count) 0 16 (pk_bytes out) else None) of
        None \<Rightarrow> \<lparr>pk_bytes = canonical, pk_size = 3108\<rparr>
      | Some (outp, bytes) \<Rightarrow> seal_frame outp bytes)"

section \<open>Unpacking\<close>

text \<open>The bytes written so far are the accumulator; \<open>output\<close> is its length.\<close>

function unpack_loop :: "bytes \<Rightarrow> nat \<Rightarrow> nat \<Rightarrow> bytes \<Rightarrow> unpack_error + bytes" where
  "unpack_loop b n input acc =
     (if input < n
      then
        (let token = b ! input; input = input + 1; run = unat (token AND 127) + 1 in
         if run > 3108 - length acc then Inl LengthError
         else if token AND 128 \<noteq> 0 then unpack_loop b n input (acc @ replicate run 0)
         else if run > n - input then Inl LengthError
         else if 0 \<in> set (get_bytes b input run) then Inl FormatError
         else unpack_loop b n (input + run) (acc @ get_bytes b input run))
      else Inr acc)"
  by auto
termination by (relation "measure (\<lambda>(b, n, input, acc). n - input)") auto

declare unpack_loop.simps [simp del]

definition undo_delta :: "nat \<Rightarrow> bytes \<Rightarrow> bytes" where
  "undo_delta count b = foldl (\<lambda>c i. c[i := c ! i XOR c ! (i - 48)]) b [32 + 48..<32 + count * 48]"

definition trace_unpack :: "packed \<Rightarrow> unpack_error + bytes" where
  "trace_unpack p =
     (let b = pk_bytes p; n = pk_size p;
          checked = (\<lambda>c. if get_le c 3104 4 \<noteq> crc32 (take 3104 c) then Inl CrcError else Inr c) in
      if n > 3108 \<or> n < 16 then Inl LengthError
      else if n = 3108
      then (if get_le b 0 4 \<noteq> (0x31544447 :: u32) then Inl FormatError else checked b)
      else if get_le b 0 4 \<noteq> (0x32435447 :: u32) \<or> b ! 4 \<noteq> 1 \<or> b ! 5 \<noteq> 1 \<or> get_le b 10 2 \<noteq> (0 :: u16)
      then Inl FormatError
      else if get_le b 6 2 \<noteq> (3108 :: u16) \<or> unat (get_le b 8 2 :: u16) \<noteq> n - 16 then Inl LengthError
      else if get_le b 12 4 \<noteq> frame_crc p then Inl CrcError
      else
        (case unpack_loop b n 16 [] of
           Inl e \<Rightarrow> Inl e
         | Inr c \<Rightarrow>
             if length c \<noteq> 3108 then Inl LengthError
             else (let count = unat (get_le c 8 2 :: u16) in
                   if count > 64 then Inl FormatError else checked (undo_delta count c))))"

section \<open>Every frame unpacks to the blob\<close>

lemma run_from_spec:
  assumes "1 \<le> run" "run \<le> 128" "input + run \<le> 3108" "\<forall>j < run. (d (input + j) = 0) = zero"
  shows "run_from d input zero run \<le> 128 \<and> input + run_from d input zero run \<le> 3108 \<and>
    (\<forall>j < run_from d input zero run. (d (input + j) = 0) = zero)"
  using assms
proof (induction d input zero run rule: run_from.induct)
  case (1 d input zero run)
  show ?case
  proof (cases "run < 128 \<and> input + run < 3108 \<and> (d (input + run) = 0) = zero")
    case True
    then have "run_from d input zero run = run_from d input zero (run + 1)" by (subst run_from.simps) simp
    with 1 True show ?thesis by (simp add: less_Suc_eq)
  next
    case False
    then have "run_from d input zero run = run" by (subst run_from.simps) (simp only: if_False)
    with 1 show ?thesis by simp
  qed
qed

lemma token_bits:
  assumes "1 \<le> run" "run \<le> 128"
  shows "unat ((128 OR of_nat (run - 1) :: u8) AND 127) + 1 = run" "(128 OR of_nat (run - 1) :: u8) AND 128 \<noteq> 0"
    "unat ((of_nat (run - 1) :: u8) AND 127) + 1 = run" "(of_nat (run - 1) :: u8) AND 128 = 0"
proof -
  have all: "\<forall>r < 128. unat ((128 OR of_nat r :: u8) AND 127) = r \<and> (128 OR of_nat r :: u8) AND 128 \<noteq> 0 \<and>
      unat ((of_nat r :: u8) AND 127) = r \<and> (of_nat r :: u8) AND 128 = 0"
    by code_simp
  have "run - 1 < 128" using assms by simp
  note this [THEN all [rule_format]]
  then show "unat ((128 OR of_nat (run - 1) :: u8) AND 127) + 1 = run" "(128 OR of_nat (run - 1) :: u8) AND 128 \<noteq> 0"
    "unat ((of_nat (run - 1) :: u8) AND 127) + 1 = run" "(of_nat (run - 1) :: u8) AND 128 = 0"
    using assms(1) by simp_all
qed

lemma pack_loop_spec:
  "pack_loop d input outp bytes = Some (n, bytes') \<Longrightarrow> input \<le> 3108 \<Longrightarrow> outp < 3108 \<Longrightarrow> length bytes = 3108 \<Longrightarrow>
    outp \<le> n \<and> n < 3108 \<and> length bytes' = 3108 \<and> (\<forall>i < outp. bytes' ! i = bytes ! i) \<and>
    (\<forall>c. (\<forall>i. outp \<le> i \<and> i < n \<longrightarrow> c ! i = bytes' ! i) \<longrightarrow>
       unpack_loop c n outp (map d [0..<input]) = Inr (map d [0..<3108]))"
proof (induction d input outp bytes rule: pack_loop.induct)
  case (1 d input outp bytes)
  show ?case
  proof (cases "input < 3108")
    case False
    with "1.prems" have "n = outp" "bytes' = bytes" "input = 3108" by (simp_all add: pack_loop.simps)
    with "1.prems" show ?thesis by (simp add: unpack_loop.simps)
  next
    case True
    define zero where "zero = (d input = 0)"
    define run where "run = run_from d input zero 1"
    define need where "need = 1 + (if zero then 0 else run)"
    define token :: u8 where "token = (if zero then 128 else 0) OR of_nat (run - 1)"
    define b1 where "b1 = bytes[outp := token]"
    define b2 where "b2 = (if zero then b1 else put_bytes b1 (outp + 1) (map d [input..<input + run]))"
    have run: "1 \<le> run" "run \<le> 128" "input + run \<le> 3108" "\<And>j. j < run \<Longrightarrow> (d (input + j) = 0) = zero"
      using run_from_spec [of 1 input d zero] run_from_ge [of 1 d input zero] True
      by (auto simp: run_def zero_def)
    have fit: "outp + need < 3108" and rest: "pack_loop d (input + run) (outp + need) b2 = Some (n, bytes')"
      using "1.prems"(1) True
      by (auto simp: pack_loop.simps [of d input] Let_def zero_def run_def need_def token_def b1_def b2_def split: if_splits)
    have len: "length b2 = 3108" using "1.prems"(4) by (simp add: b2_def b1_def)
    have IH: "outp + need \<le> n \<and> n < 3108 \<and> length bytes' = 3108 \<and> (\<forall>i < outp + need. bytes' ! i = b2 ! i) \<and>
      (\<forall>c. (\<forall>i. outp + need \<le> i \<and> i < n \<longrightarrow> c ! i = bytes' ! i) \<longrightarrow>
         unpack_loop c n (outp + need) (map d [0..<input + run]) = Inr (map d [0..<3108]))"
      by (rule "1.IH" [OF True zero_def run_def need_def _ b1_def [unfolded token_def] b2_def rest])
        (use fit len run(3) in simp_all)
    have below: "b2 ! i = bytes ! i" if "i < outp" for i
      using that by (simp add: b2_def b1_def nth_put_bytes_other)
    have tok: "b2 ! outp = token" using fit "1.prems"(4) by (simp add: b2_def b1_def nth_put_bytes_other)
    have lit: "b2 ! (outp + 1 + j) = d (input + j)" if "\<not> zero" "j < run" for j
      using that fit "1.prems"(4) by (simp add: b2_def b1_def nth_put_bytes need_def)
    have dec: "unpack_loop c n outp (map d [0..<input]) = Inr (map d [0..<3108])"
      if c: "\<forall>i. outp \<le> i \<and> i < n \<longrightarrow> c ! i = bytes' ! i" for c
    proof -
      have lo: "outp < n" using IH by (simp add: need_def)
      have ct: "c ! outp = token" using c lo IH tok by (simp add: need_def)
      have tl: "unpack_loop c n (outp + need) (map d [0..<input + run]) = Inr (map d [0..<3108])"
        using IH c by simp
      have cat: "map d [0..<input + run] = map d [0..<input] @ map (\<lambda>j. d (input + j)) [0..<run]"
        by (rule nth_equalityI) (auto simp: nth_append)
      show ?thesis
      proof (cases zero)
        case True
        have "map (\<lambda>j. d (input + j)) [0..<run] = replicate run 0"
          by (rule nth_equalityI) (use run(4) True in simp_all)
        with tl cat True token_bits [OF run(1,2)] lo ct run show ?thesis
          by (simp add: unpack_loop.simps [of c n outp] Let_def token_def need_def)
      next
        case False
        have "get_bytes c (outp + 1) run = map (\<lambda>j. d (input + j)) [0..<run]"
          by (rule nth_equalityI) (use c IH lit False in \<open>simp_all add: need_def\<close>)
        moreover have "0 \<notin> set (map (\<lambda>j. d (input + j)) [0..<run])" using run(4) False by auto
        moreover have "\<not> n - Suc outp < run" using IH False by (auto simp: need_def)
        moreover have "\<not> 3108 - input < run" using run(3) by linarith
        ultimately show ?thesis using tl cat False token_bits [OF run(1,2)] lo ct run
          by (simp add: unpack_loop.simps [of c n outp] Let_def token_def need_def)
      qed
    qed
    show ?thesis using IH below dec by (auto simp: need_def)
  qed
qed

text \<open>Undoing the exclusive or restores the rows from the first one on.\<close>

lemma undo_partial:
  assumes "length b = 3108" "count \<le> 64" "32 + 48 \<le> k" "k \<le> 32 + count * 48 \<or> k = 32 + 48" "i < 3108"
  shows "foldl (\<lambda>c i. c[i := c ! i XOR c ! (i - 48)]) (map (row_delta b count) [0..<3108]) [32 + 48..<k] ! i =
    (if i < k then b ! i else row_delta b count i)"
  using assms(3,4,5)
proof (induction k arbitrary: i rule: dec_induct)
  case base
  then show ?case by (simp add: row_delta_def)
next
  case (step k)
  let ?f = "\<lambda>c i. c[i := c ! i XOR c ! (i - 48 :: nat)]"
  let ?c = "foldl ?f (map (row_delta b count) [0..<3108]) [32 + 48..<k]"
  have kb: "k \<le> 32 + count * 48" "k < 32 + count * 48" "k < 3108" using step assms(2) by auto
  have len: "length ?c = 3108" by (simp add: length_fold_update)
  have st: "foldl ?f (map (row_delta b count) [0..<3108]) [32 + 48..<Suc k] = ?c[k := ?c ! k XOR ?c ! (k - 48)]"
    using step.hyps(1) by simp
  have IH: "?c ! j = (if j < k then b ! j else row_delta b count j)" if "j < 3108" for j
    by (rule step.IH) (use kb that in simp_all)
  have "?c ! k XOR ?c ! (k - 48) = b ! k"
    using IH [of k] IH [of "k - 48"] kb step.hyps(1) by (simp add: row_delta_def xor.assoc)
  then show ?case unfolding st using IH [OF step.prems(2)] len kb(3) step.prems(2)
    by (cases "i = k") (simp_all add: less_Suc_eq)
qed

lemma undo_row_delta:
  assumes "length b = 3108" "count \<le> 64"
  shows "undo_delta count (map (row_delta b count) [0..<3108]) = b"
proof (rule nth_equalityI)
  show "length (undo_delta count (map (row_delta b count) [0..<3108])) = length b"
    using assms(1) by (simp add: undo_delta_def length_fold_update)
  fix i
  assume "i < length (undo_delta count (map (row_delta b count) [0..<3108]))"
  then have i: "i < 3108" by (simp add: undo_delta_def length_fold_update)
  show "undo_delta count (map (row_delta b count) [0..<3108]) ! i = b ! i"
  proof (cases "1 \<le> count")
    case True
    then show ?thesis using undo_partial [OF assms, of "32 + count * 48" i] i
      by (simp add: undo_delta_def row_delta_def)
  next
    case False
    then have "count = 0" by simp
    then show ?thesis using i by (auto simp: undo_delta_def row_delta_def)
  qed
qed

lemma frame_crc_cong:
  "(\<And>i. i < n \<Longrightarrow> \<not> (12 \<le> i \<and> i < 16) \<Longrightarrow> b ! i = b' ! i) \<Longrightarrow>
    frame_crc \<lparr>pk_bytes = b, pk_size = n\<rparr> = frame_crc \<lparr>pk_bytes = b', pk_size = n\<rparr>"
  unfolding frame_crc_def by (intro arg_cong [of _ _ crc32] map_cong) auto

lemma seal_frame_facts:
  fixes bytes :: bytes and n :: nat
  defines "f \<equiv> pk_bytes (seal_frame n bytes)"
  assumes "length bytes = 3108" "16 \<le> n" "n < 3108"
  shows "pk_size (seal_frame n bytes) = n" "length f = 3108" "get_le f 0 4 = (0x32435447 :: u32)" "f ! 4 = 1" "f ! 5 = 1"
    "get_le f 10 2 = (0 :: u16)" "get_le f 6 2 = (3108 :: u16)" "unat (get_le f 8 2 :: u16) = n - 16"
    "get_le f 12 4 = frame_crc (seal_frame n bytes)" "16 \<le> i \<Longrightarrow> f ! i = bytes ! i"
proof -
  show "pk_size (seal_frame n bytes) = n" "length f = 3108"
    using assms(2) by (simp_all add: seal_frame_def f_def Let_def)
  show "get_le f 0 4 = (0x32435447 :: u32)" "get_le f 10 2 = (0 :: u16)" "get_le f 6 2 = (3108 :: u16)"
    using assms(2) by (simp_all add: seal_frame_def f_def Let_def codec_simps take_bit_eq_mod)
  show "f ! 4 = 1" "f ! 5 = 1" using assms(2) by (simp_all add: seal_frame_def f_def Let_def nth_put_le)
  have "ucast (take_bit 16 (of_nat (n - 16) :: u64)) = (of_nat (n - 16) :: u16)"
    by (rule bit_word_eqI) (simp add: bit_ucast_iff bit_take_bit_iff bit_of_nat_iff)
  then have "get_le f 8 2 = (of_nat (n - 16) :: u16)"
    using assms(2) by (simp add: seal_frame_def f_def Let_def codec_simps)
  then show "unat (get_le f 8 2 :: u16) = n - 16" using assms(4) by (simp add: unat_of_nat)
  show "16 \<le> i \<Longrightarrow> f ! i = bytes ! i" by (simp add: seal_frame_def f_def Let_def nth_put_le_other)
  show "get_le f 12 4 = frame_crc (seal_frame n bytes)"
  proof -
    obtain b where b: "seal_frame n bytes = \<lparr>pk_bytes = put_le b 12 (frame_crc \<lparr>pk_bytes = b, pk_size = n\<rparr>) 4, pk_size = n\<rparr>"
      "length b = 3108"
      using assms(2) unfolding seal_frame_def Let_def by (metis length_put_le)
    have "frame_crc (seal_frame n bytes) = frame_crc \<lparr>pk_bytes = b, pk_size = n\<rparr>"
      unfolding b(1) by (rule frame_crc_cong) (auto simp: nth_put_le)
    then show ?thesis using b(2) by (simp add: f_def b(1) codec_simps)
  qed
qed

text \<open>A canonical blob: what \<open>trace_encode\<close> writes.\<close>

definition canonical_blob :: "bytes \<Rightarrow> bool" where
  "canonical_blob b \<longleftrightarrow> length b = 3108 \<and> get_le b 0 4 = (0x31544447 :: u32) \<and> get_le b 3104 4 = crc32 (take 3104 b)"

lemma unpack_pack:
  assumes c: "canonical_blob b" and o: "length (pk_bytes q) = 3108"
  shows "trace_unpack (trace_pack b q) = Inr b \<and> 16 \<le> pk_size (trace_pack b q) \<and> pk_size (trace_pack b q) \<le> 3108 \<and>
    length (pk_bytes (trace_pack b q)) = 3108"
proof -
  let ?n = "unat (get_le b 8 2 :: u16)"
  show ?thesis
  proof (cases "if ?n \<le> 64 then pack_loop (row_delta b ?n) 0 16 (pk_bytes q) else None")
    case None
    then show ?thesis using c
      by (auto simp: trace_pack_def trace_unpack_def canonical_blob_def Let_def simp del: unpack_loop.simps)
  next
    case (Some r)
    obtain n bytes where r: "r = (n, bytes)" by fastforce
    have cnt: "?n \<le> 64" and pl: "pack_loop (row_delta b ?n) 0 16 (pk_bytes q) = Some (n, bytes)"
      using Some r by (auto split: if_splits)
    have p: "trace_pack b q = seal_frame n bytes" unfolding trace_pack_def Let_def Some r by simp
    from pack_loop_spec [OF pl] o have n: "16 \<le> n" "n < 3108" "length bytes = 3108"
      and un: "\<And>c. (\<forall>i. 16 \<le> i \<and> i < n \<longrightarrow> c ! i = bytes ! i) \<Longrightarrow>
         unpack_loop c n 16 [] = Inr (map (row_delta b ?n) [0..<3108])" by simp_all
    note F = seal_frame_facts [OF n(3) n(1) n(2)]
    let ?d = "map (row_delta b ?n) [0..<3108]"
    have u: "unpack_loop (pk_bytes (seal_frame n bytes)) n 16 [] = Inr ?d" by (rule un) (simp add: F(10))
    have cnt': "get_le ?d 8 2 = (get_le b 8 2 :: u16)" by (rule get_le_cong) (simp add: row_delta_def)
    have "undo_delta ?n ?d = b" by (rule undo_row_delta [OF _ cnt]) (use c in \<open>simp add: canonical_blob_def\<close>)
    then have "trace_unpack (seal_frame n bytes) = Inr b"
      using n c by (simp add: trace_unpack_def Let_def F u cnt' cnt canonical_blob_def not_less)
    then show ?thesis using n F(1,2) p by simp
  qed
qed

section \<open>A frame with a changed byte is refused\<close>

lemma frame_crc_update:
  assumes "i < n" "\<not> (12 \<le> i \<and> i < 16)" "x \<noteq> b ! i" "n \<le> length b"
  shows "frame_crc \<lparr>pk_bytes = b[i := x], pk_size = n\<rparr> \<noteq> frame_crc \<lparr>pk_bytes = b, pk_size = n\<rparr>"
proof -
  let ?is = "filter (\<lambda>i. \<not> (12 \<le> i \<and> i < 16)) [0..<n]"
  have "i \<in> set ?is" using assms(1,2) by auto
  then have "\<exists>k < length ?is. ?is ! k = i" by (simp only: in_set_conv_nth)
  then obtain k where k: "k < length ?is" "?is ! k = i" by blast
  have "map (\<lambda>j. b[i := x] ! j) ?is = (map (\<lambda>j. b ! j) ?is)[k := x]"
  proof (rule nth_equalityI)
    fix j
    assume "j < length (map (\<lambda>j. b[i := x] ! j) ?is)"
    then have j: "j < length ?is" by simp
    have "?is ! j \<noteq> i" if "j \<noteq> k"
      using that j k nth_eq_iff_index_eq [of ?is j k] by simp
    then show "map (\<lambda>j. b[i := x] ! j) ?is ! j = (map (\<lambda>j. b ! j) ?is)[k := x] ! j"
      using j k assms(1,4) by (cases "j = k") simp_all
  qed simp
  with crc32_update [of k "map (\<lambda>j. b ! j) ?is" x] k assms(3)
  show ?thesis by (simp add: frame_crc_def)
qed

lemma unpack_frame_sealed:
  "trace_unpack p = Inr c \<Longrightarrow> pk_size p \<noteq> 3108 \<Longrightarrow> get_le (pk_bytes p) 12 4 = frame_crc p"
  by (auto simp: trace_unpack_def Let_def split: if_splits sum.splits)

lemma unpack_sealed:
  "trace_unpack p = Inr c \<Longrightarrow> length (pk_bytes p) = 3108 \<Longrightarrow> sealed c 3104 \<and> 16 \<le> pk_size p \<and> pk_size p \<le> 3108 \<and>
    (pk_size p = 3108 \<longrightarrow> c = pk_bytes p)"
  by (auto simp: trace_unpack_def Let_def sealed_def split: if_splits sum.splits)

lemma unpack_corrupt:
  assumes u: "trace_unpack p = Inr c" and l: "length (pk_bytes p) = 3108" and i: "i < pk_size p" and x: "x \<noteq> pk_bytes p ! i"
  shows "trace_unpack (p\<lparr>pk_bytes := (pk_bytes p)[i := x]\<rparr>) \<noteq> Inr c'"
proof
  let ?p = "p\<lparr>pk_bytes := (pk_bytes p)[i := x]\<rparr>" and ?n = "pk_size p" and ?b = "pk_bytes p"
  assume u': "trace_unpack ?p = Inr c'"
  have l': "length (pk_bytes ?p) = 3108" using l by simp
  note U = unpack_sealed [OF u l] and U' = unpack_sealed [OF u' l']
  show False
  proof (cases "?n = 3108")
    case True
    then have "c = ?b" "c' = ?b[i := x]" using U U' by simp_all
    then have "sealed ?b 3104" "sealed (?b[i := x]) 3104" using U U' by simp_all
    with sealed_update [of ?b 3104 i x] l i x True show False by simp
  next
    case False
    have s: "get_le ?b 12 4 = frame_crc \<lparr>pk_bytes = ?b, pk_size = ?n\<rparr>"
      "get_le (?b[i := x]) 12 4 = frame_crc \<lparr>pk_bytes = ?b[i := x], pk_size = ?n\<rparr>"
      using unpack_frame_sealed [OF u False] unpack_frame_sealed [OF u'] False by (cases p; simp)+
    show False
    proof (cases "12 \<le> i \<and> i < 16")
      case True
      have "frame_crc \<lparr>pk_bytes = ?b[i := x], pk_size = ?n\<rparr> = frame_crc \<lparr>pk_bytes = ?b, pk_size = ?n\<rparr>"
        by (rule frame_crc_cong) (use True in auto)
      with s have "get_le (?b[i := x]) 12 4 = (get_le ?b 12 4 :: u32)" by simp
      from get_le_eqD [OF this, of "i - 12"] True have "?b[i := x] ! i = ?b ! i" by auto
      with x l i U show False by simp
    next
      case f: False
      then have "get_le (?b[i := x]) 12 4 = (get_le ?b 12 4 :: u32)" by (intro get_le_update_other) auto
      with s frame_crc_update [OF i f x] l U show False by simp
    qed
  qed
qed

lemma canonical_encode:
  assumes "tr_count m \<le> 64"
  shows "canonical_blob (trace_encode m)"
proof -
  let ?h = "put_header m (replicate 3108 0)"
  have e: "trace_encode m = put_le (put_rows (trace_at m) (tr_count m) ?h) 3104
      (crc32 (take 3104 (put_rows (trace_at m) (tr_count m) ?h))) 4"
    by (simp add: trace_encode_def put_rows_def Let_def)
  have "get_le (trace_encode m) 0 4 = (get_le ?h 0 4 :: u32)"
    by (rule get_le_cong) (simp add: e nth_put_le_other nth_put_rows_other)
  moreover have "length (put_rows (trace_at m) (tr_count m) ?h) = 3108" using header_facts(9) [OF assms] by simp
  ultimately show ?thesis
    using header_facts(1) [OF assms] by (simp add: canonical_blob_def) (simp add: e codec_simps)
qed

text \<open>The compressed record of a trace is never longer than the plain blob, unpacks to
  exactly the blob whatever was left in the buffer, and a change of any one stored byte is refused.\<close>

theorem trace_pack_roundtrip:
  assumes "tr_count m \<le> 64" "length (pk_bytes q) = 3108"
  shows "trace_unpack (trace_pack (trace_encode m) q) = Inr (trace_encode m) \<and>
    pk_size (trace_pack (trace_encode m) q) \<le> 3108 \<and>
    (\<forall>i < pk_size (trace_pack (trace_encode m) q). \<forall>x. x \<noteq> pk_bytes (trace_pack (trace_encode m) q) ! i \<longrightarrow>
       isl (trace_unpack ((trace_pack (trace_encode m) q)
         \<lparr>pk_bytes := (pk_bytes (trace_pack (trace_encode m) q))[i := x]\<rparr>)))"
proof -
  let ?p = "trace_pack (trace_encode m) q"
  note P = unpack_pack [OF canonical_encode [OF assms(1)] assms(2)]
  have "isl (trace_unpack (?p\<lparr>pk_bytes := (pk_bytes ?p)[i := x]\<rparr>))"
    if "i < pk_size ?p" "x \<noteq> pk_bytes ?p ! i" for i x
    using unpack_corrupt [OF conjunct1 [OF P] _ that] P
    by (cases "trace_unpack (?p\<lparr>pk_bytes := (pk_bytes ?p)[i := x]\<rparr>)") auto
  with P show ?thesis by blast
qed

lemma trace_pack_roundtrip_witness:
  "trace_unpack (trace_pack (trace_encode trace0) \<lparr>pk_bytes = replicate 3108 7, pk_size = 0\<rparr>) = Inr (trace_encode trace0)"
  using trace_pack_roundtrip [of trace0 "\<lparr>pk_bytes = replicate 3108 7, pk_size = 0\<rparr>"]
  by (simp add: trace0_def)

end
