(* ===== verification/Nand_Store.thy ===== *)
theory Nand_Store
  imports Crc_Seal
begin

text \<open>
  The power-safe payload store on the NAND map (\<open>main/hal/mosaico/mosaico_nand_store_model.h\<close>):
  two marker pages, two slots of two payload pages and one commit page each, written in the
  order payload, sync, read back, commit, sync, read back. The page device itself (the Dhara map
  of the SPI NAND driver) is not part of the repository: it is the parameter \<open>io\<close>, and the
  locale \<open>page_device\<close> states what the store relies on.
\<close>

section \<open>The page device\<close>

type_synonym page = bytes

text \<open>
  The template parameter \<open>IO\<close> with its three operations: a read delivers a page or fails, a write
  and a sync report success. The device state is threaded through every call.
\<close>

record 's page_io =
  io_read :: "nat \<Rightarrow> 's \<Rightarrow> page option \<times> 's"
  io_write :: "nat \<Rightarrow> page \<Rightarrow> 's \<Rightarrow> bool \<times> 's"
  io_sync :: "'s \<Rightarrow> bool \<times> 's"

definition page_size :: nat where "page_size = 2048"

text \<open>
  \<open>contents\<close> is the logical content of each page. The laws: a read shows the content; a
  successful write replaces exactly the named page; a failed or interrupted write leaves the old
  page or the new one (the map updates a logical page atomically); reads and syncs change nothing.
\<close>

locale page_device =
  fixes io :: "'s page_io"
    and contents :: "'s \<Rightarrow> nat \<Rightarrow> page"
  assumes read_page: "io_read io n s = (Some p, s') \<Longrightarrow> p = contents s n"
    and read_frame: "io_read io n s = (q, s') \<Longrightarrow> contents s' = contents s"
    and write_page: "length p = page_size \<Longrightarrow> io_write io n p s = (True, s') \<Longrightarrow>
      contents s' = (contents s)(n := p)"
    and write_torn: "length p = page_size \<Longrightarrow> io_write io n p s = (False, s') \<Longrightarrow>
      contents s' = contents s \<or> contents s' = (contents s)(n := p)"
    and sync_frame: "io_sync io s = (b, s') \<Longrightarrow> contents s' = contents s"
    and page_length: "length (contents s n) = page_size"

section \<open>Pages of the store\<close>

definition payload_size :: nat where "payload_size = 3108"

definition blank :: "page \<Rightarrow> bool" where
  "blank p = list_all (\<lambda>v. v = 255) p"

definition zero_page :: page where
  "zero_page = replicate page_size 0"

definition nand_marker :: page where
  "nand_marker = seal
     (put_le (put_le (put_le (put_le (put_le (put_le zero_page 0 (0x31534e4d :: u64) 4)
        4 (1 :: u64) 2) 6 (2048 :: u64) 2) 8 (3108 :: u64) 2) 10 (2 :: u64) 2) 12 (8 :: u64) 4)
     2044"

definition valid_marker :: "page \<Rightarrow> bool" where
  "valid_marker p \<longleftrightarrow>
     get_le p 0 4 = (0x31534e4d :: u64) \<and> get_le p 4 2 = (1 :: u64) \<and> get_le p 6 2 = (2048 :: u64) \<and>
     get_le p 8 2 = (3108 :: u64) \<and> get_le p 10 2 = (2 :: u64) \<and> get_le p 12 4 = (8 :: u64) \<and>
     sealed p 2044 \<and> zeros p 16 2044"

definition slot_base :: "nat \<Rightarrow> nat" where
  "slot_base slot = 2 + slot * 3"

definition commit_page :: "nat \<Rightarrow> u64 \<Rightarrow> u32 \<Rightarrow> page" where
  "commit_page slot generation payload_crc = seal
     (put_le (put_le (put_le (put_le (put_le (put_le zero_page 0 (0x3154434d :: u64) 4)
        4 (1 :: u64) 2) 6 (3108 :: u64) 2) 8 generation 8) 16 (ucast payload_crc :: u64) 4)
        20 (of_nat slot :: u64) 4)
     2044"

record nand_slot =
  slot_valid :: bool
  slot_generation :: u64
  slot_payload_crc :: u32

definition no_slot :: nand_slot where
  "no_slot = \<lparr>slot_valid = False, slot_generation = 0, slot_payload_crc = 0\<rparr>"

definition parse_commit :: "page \<Rightarrow> nat \<Rightarrow> nand_slot" where
  "parse_commit p slot =
     (if get_le p 0 4 \<noteq> (0x3154434d :: u64) \<or> get_le p 4 2 \<noteq> (1 :: u64) \<or> get_le p 6 2 \<noteq> (3108 :: u64) \<or>
         get_le p 8 8 = (0 :: u64) \<or> get_le p 20 4 \<noteq> (of_nat slot :: u64) \<or> \<not> sealed p 2044
      then no_slot
      else if \<not> zeros p 24 2044 then no_slot
      else \<lparr>slot_valid = True, slot_generation = get_le p 8 8,
            slot_payload_crc = ucast (get_le p 16 4 :: u64)\<rparr>)"

section \<open>Results\<close>

datatype nand_code =
  NC_Ok | NC_NotFormatted | NC_Empty | NC_Corrupt | NC_Io | NC_GenerationExhausted | NC_Verify

datatype nand_stage =
  NS_Marker | NS_CommitRead | NS_PayloadRead | NS_PayloadWrite | NS_PayloadSync | NS_PayloadVerify
| NS_CommitWrite | NS_CommitSync | NS_CommitVerify | NS_FormatWrite | NS_FormatSync | NS_FormatVerify

record nand_result =
  res_code :: nand_code
  res_stage :: nand_stage
  res_generation :: u64
  res_slot :: int
  res_copies :: nat

definition nand_result0 :: nand_result where
  "nand_result0 = \<lparr>res_code = NC_Ok, res_stage = NS_Marker, res_generation = 0, res_slot = -1,
     res_copies = 0\<rparr>"

section \<open>Reading\<close>

text \<open>
  \<open>readPayload\<close>: the loop over the two halves; the bytes of the second page past the payload must
  be zero. The scratch payload is returned with the code.
\<close>

definition read_payload :: "'s page_io \<Rightarrow> nat \<Rightarrow> u32 \<Rightarrow> 's \<Rightarrow> (nand_code \<times> bytes) \<times> 's" where
  "read_payload io slot expected s =
     (case io_read io (slot_base slot) s of
        (None, s1) \<Rightarrow> ((NC_Io, []), s1)
      | (Some p0, s1) \<Rightarrow>
          (case io_read io (slot_base slot + 1) s1 of
             (None, s2) \<Rightarrow> ((NC_Io, p0), s2)
           | (Some p1, s2) \<Rightarrow>
               let payload = take page_size p0 @ take (payload_size - page_size) p1 in
               if \<not> zeros p1 (payload_size - page_size) page_size then ((NC_Corrupt, payload), s2)
               else if crc32 (take payload_size payload) = expected then ((NC_Ok, payload), s2)
               else ((NC_Corrupt, payload), s2)))"

text \<open>
  One turn of the second loop of \<open>scan\<close>: the slot found, whether it counts as an invalid commit,
  and the stage reached; \<open>Inl\<close> is the early return on an I/O error.
\<close>

definition scan_slot ::
  "'s page_io \<Rightarrow> nat \<Rightarrow> 's \<Rightarrow> (nand_stage + nand_slot \<times> bool \<times> nand_stage) \<times> 's" where
  "scan_slot io slot s =
     (case io_read io (slot_base slot + 2) s of
        (None, s1) \<Rightarrow> (Inl NS_CommitRead, s1)
      | (Some p, s1) \<Rightarrow>
          let found = parse_commit p slot in
          if \<not> slot_valid found then (Inr (found, \<not> blank p, NS_CommitRead), s1)
          else
            (case read_payload io slot (slot_payload_crc found) s1 of
               ((c, _), s2) \<Rightarrow>
                 if c = NC_Io then (Inl NS_PayloadRead, s2)
                 else if c \<noteq> NC_Ok then (Inr (found\<lparr>slot_valid := False\<rparr>, True, NS_PayloadRead), s2)
                 else (Inr (found, False, NS_PayloadRead), s2)))"

definition choose_slot :: "nand_slot \<Rightarrow> nand_slot \<Rightarrow> bool \<Rightarrow> nand_result \<Rightarrow> nand_result" where
  "choose_slot a b invalid r =
     (if \<not> slot_valid a \<and> \<not> slot_valid b
      then r\<lparr>res_code := if invalid then NC_Corrupt else NC_Empty\<rparr>
      else if slot_valid a \<and> slot_valid b \<and> slot_generation a = slot_generation b
      then r\<lparr>res_code := NC_Corrupt\<rparr>
      else
        let one = (\<not> slot_valid a \<or> (slot_valid b \<and> slot_generation b > slot_generation a)) in
        r\<lparr>res_slot := if one then 1 else 0,
          res_generation := slot_generation (if one then b else a), res_code := NC_Ok\<rparr>)"

definition nand_scan :: "'s page_io \<Rightarrow> 's \<Rightarrow> nand_result \<times> 's" where
  "nand_scan io s =
     (case io_read io 0 s of
        (None, s1) \<Rightarrow> (nand_result0\<lparr>res_code := NC_Io\<rparr>, s1)
      | (Some m0, s1) \<Rightarrow>
     (let r0 = nand_result0\<lparr>res_copies := if valid_marker m0 then 1 else 0\<rparr> in
      case io_read io 1 s1 of
        (None, s2) \<Rightarrow> (r0\<lparr>res_code := NC_Io\<rparr>, s2)
      | (Some m1, s2) \<Rightarrow>
     (let r = r0\<lparr>res_copies := res_copies r0 + (if valid_marker m1 then 1 else 0)\<rparr>;
          nonblank = ((\<not> valid_marker m0 \<and> \<not> blank m0) \<or> (\<not> valid_marker m1 \<and> \<not> blank m1)) in
      if res_copies r = 0
      then (r\<lparr>res_code := if nonblank then NC_Corrupt else NC_NotFormatted\<rparr>, s2)
      else
        (case scan_slot io 0 s2 of
           (Inl st, s3) \<Rightarrow> (r\<lparr>res_stage := st, res_code := NC_Io\<rparr>, s3)
         | (Inr (a, bad0, st0), s3) \<Rightarrow>
             (case scan_slot io 1 s3 of
                (Inl st, s4) \<Rightarrow> (r\<lparr>res_stage := st, res_code := NC_Io\<rparr>, s4)
              | (Inr (b, bad1, st1), s4) \<Rightarrow>
                  (choose_slot a b (bad0 \<or> bad1) (r\<lparr>res_stage := st1\<rparr>), s4))))))"

definition nand_load :: "'s page_io \<Rightarrow> 's \<Rightarrow> (nand_result \<times> bytes option) \<times> 's" where
  "nand_load io s =
     (case nand_scan io s of (r, s1) \<Rightarrow>
        if res_code r \<noteq> NC_Ok then ((r, None), s1)
        else
          let slot = nat (res_slot r); r = r\<lparr>res_stage := NS_CommitRead\<rparr> in
          (case io_read io (slot_base slot + 2) s1 of
             (None, s2) \<Rightarrow> ((r\<lparr>res_code := NC_Io\<rparr>, None), s2)
           | (Some p, s2) \<Rightarrow>
               let info = parse_commit p slot in
               if \<not> slot_valid info \<or> slot_generation info \<noteq> res_generation r
               then ((r\<lparr>res_code := NC_Verify\<rparr>, None), s2)
               else
                 (case read_payload io slot (slot_payload_crc info) s2 of
                    ((c, payload), s3) \<Rightarrow>
                      ((r\<lparr>res_stage := NS_PayloadRead, res_code := c\<rparr>,
                        if c = NC_Ok then Some payload else None), s3))))"

section \<open>Writing\<close>

text \<open>\<open>s.page={};for(...) s.page[i]=input[half*PageSize+i]\<close>\<close>

definition payload_page :: "bytes \<Rightarrow> nat \<Rightarrow> page" where
  "payload_page input half =
     put_bytes zero_page 0 (take page_size (drop (half * page_size) (take payload_size input)))"

text \<open>The verification that \<open>save\<close> performs twice: read the slot back and compare.\<close>

definition verify_payload :: "'s page_io \<Rightarrow> nat \<Rightarrow> bytes \<Rightarrow> 's \<Rightarrow> nand_code \<times> 's" where
  "verify_payload io slot input s =
     (case read_payload io slot (crc32 (take payload_size input)) s of
        ((c, payload), s1) \<Rightarrow>
          (if c \<noteq> NC_Ok then c else if payload \<noteq> input then NC_Verify else NC_Ok, s1))"

text \<open>The part of \<open>save\<close> after the payload has been verified: commit, sync, read back.\<close>

definition save_commit ::
  "'s page_io \<Rightarrow> nat \<Rightarrow> u64 \<Rightarrow> bytes \<Rightarrow> nand_result \<Rightarrow> 's \<Rightarrow> nand_result \<times> 's" where
  "save_commit io slot generation input r s =
     (let p = commit_page slot generation (crc32 (take payload_size input)) in
      case io_write io (slot_base slot + 2) p s of
        (False, s1) \<Rightarrow> (r\<lparr>res_stage := NS_CommitWrite, res_code := NC_Io\<rparr>, s1)
      | (True, s1) \<Rightarrow>
     (case io_sync io s1 of
        (False, s2) \<Rightarrow> (r\<lparr>res_stage := NS_CommitSync, res_code := NC_Io\<rparr>, s2)
      | (True, s2) \<Rightarrow>
     (let r = r\<lparr>res_stage := NS_CommitVerify\<rparr> in
      case io_read io (slot_base slot + 2) s2 of
        (None, s3) \<Rightarrow> (r\<lparr>res_code := NC_Io\<rparr>, s3)
      | (Some q, s3) \<Rightarrow>
          if q \<noteq> p then (r\<lparr>res_code := NC_Verify\<rparr>, s3)
          else
            (case verify_payload io slot input s3 of
               (c, s4) \<Rightarrow>
                 if c \<noteq> NC_Ok then (r\<lparr>res_code := c\<rparr>, s4)
                 else (r\<lparr>res_code := NC_Ok, res_generation := generation, res_slot := int slot\<rparr>,
                       s4)))))"

definition nand_save :: "'s page_io \<Rightarrow> bytes \<Rightarrow> 's \<Rightarrow> nand_result \<times> 's" where
  "nand_save io input s =
     (case nand_scan io s of (r, s1) \<Rightarrow>
        if res_code r \<noteq> NC_Ok \<and> res_code r \<noteq> NC_Empty then (r, s1)
        else if res_generation r = -1
        then (r\<lparr>res_code := NC_GenerationExhausted\<rparr>, s1)
        else
          let slot = if res_slot r = 0 then 1 else 0; generation = res_generation r + 1 in
          (case io_write io (slot_base slot) (payload_page input 0) s1 of
             (False, s2) \<Rightarrow> (r\<lparr>res_stage := NS_PayloadWrite, res_code := NC_Io\<rparr>, s2)
           | (True, s2) \<Rightarrow>
          (case io_write io (slot_base slot + 1) (payload_page input 1) s2 of
             (False, s3) \<Rightarrow> (r\<lparr>res_stage := NS_PayloadWrite, res_code := NC_Io\<rparr>, s3)
           | (True, s3) \<Rightarrow>
          (case io_sync io s3 of
             (False, s4) \<Rightarrow> (r\<lparr>res_stage := NS_PayloadSync, res_code := NC_Io\<rparr>, s4)
           | (True, s4) \<Rightarrow>
          (case verify_payload io slot input s4 of
             (c, s5) \<Rightarrow>
               if c \<noteq> NC_Ok then (r\<lparr>res_stage := NS_PayloadVerify, res_code := c\<rparr>, s5)
               else save_commit io slot generation input r s5)))))"

definition write_format_markers :: "'s page_io \<Rightarrow> 's \<Rightarrow> nand_result \<times> 's" where
  "write_format_markers io s =
     (let r = nand_result0\<lparr>res_stage := NS_FormatWrite\<rparr> in
      case io_write io 0 nand_marker s of
        (False, s1) \<Rightarrow> (r\<lparr>res_code := NC_Io\<rparr>, s1)
      | (True, s1) \<Rightarrow>
     (case io_write io 1 nand_marker s1 of
        (False, s2) \<Rightarrow> (r\<lparr>res_code := NC_Io\<rparr>, s2)
      | (True, s2) \<Rightarrow>
     (case io_sync io s2 of
        (False, s3) \<Rightarrow> (r\<lparr>res_stage := NS_FormatSync, res_code := NC_Io\<rparr>, s3)
      | (True, s3) \<Rightarrow>
     (let r = r\<lparr>res_stage := NS_FormatVerify\<rparr> in
      case io_read io 0 s3 of
        (None, s4) \<Rightarrow> (r\<lparr>res_code := NC_Io\<rparr>, s4)
      | (Some q0, s4) \<Rightarrow>
          if q0 \<noteq> nand_marker then (r\<lparr>res_code := NC_Verify\<rparr>, s4)
          else
            let r = r\<lparr>res_copies := 1\<rparr> in
            (case io_read io 1 s4 of
               (None, s5) \<Rightarrow> (r\<lparr>res_code := NC_Io\<rparr>, s5)
             | (Some q1, s5) \<Rightarrow>
                 if q1 \<noteq> nand_marker then (r\<lparr>res_code := NC_Verify\<rparr>, s5)
                 else (r\<lparr>res_copies := 2\<rparr>, s5))))))"

section \<open>A device that always works\<close>

text \<open>
  A plain memory of pages satisfies the laws; it is the concrete device at which the
  hypotheses about \<open>io\<close> are shown to be satisfiable. \<open>ram_view\<close> reads an ill-sized page as zero,
  so that every content is a whole page.
\<close>

definition ram_view :: "(nat \<Rightarrow> page) \<Rightarrow> nat \<Rightarrow> page" where
  "ram_view m n = (if length (m n) = page_size then m n else replicate page_size 0)"

definition ram_io :: "(nat \<Rightarrow> page) page_io" where
  "ram_io = \<lparr>io_read = (\<lambda>n m. (Some (ram_view m n), m)), io_write = (\<lambda>n p m. (True, m(n := p))),
     io_sync = (\<lambda>m. (True, m))\<rparr>"

text \<open>The hypothesis of a device without faults.\<close>

definition reliable :: "'s page_io \<Rightarrow> bool" where
  "reliable io \<longleftrightarrow> (\<forall>n p s. fst (io_read io n s) \<noteq> None \<and> fst (io_write io n p s) \<and> fst (io_sync io s))"

lemma ram_reliable: "reliable ram_io"
  by (simp add: reliable_def ram_io_def)

interpretation ram: page_device ram_io ram_view
  by unfold_locales (auto simp: ram_io_def ram_view_def page_size_def)

end
