(* ===== verification/Nand_Store_Safety.thy ===== *)
theory Nand_Store_Safety
  imports Nand_Store
begin

text \<open>
  What the payload store promises. \<open>stored\<close> reads the record off the logical pages, and the
  operations are shown to refine it: a save that stops anywhere (any failing or torn operation)
  leaves the previous record or the complete new one, a successful save leaves the new one, and a
  save succeeds whenever the device does.
\<close>

section \<open>The abstract record\<close>

definition slot_payload :: "(nat \<Rightarrow> page) \<Rightarrow> nat \<Rightarrow> bytes" where
  "slot_payload C k = take page_size (C (slot_base k)) @
     take (payload_size - page_size) (C (slot_base k + 1))"

definition payload_ok :: "(nat \<Rightarrow> page) \<Rightarrow> nat \<Rightarrow> u32 \<Rightarrow> bool" where
  "payload_ok C k e \<longleftrightarrow> zeros (C (slot_base k + 1)) (payload_size - page_size) page_size \<and>
     crc32 (take payload_size (slot_payload C k)) = e"

definition commit_of :: "(nat \<Rightarrow> page) \<Rightarrow> nat \<Rightarrow> nand_slot" where
  "commit_of C k = parse_commit (C (slot_base k + 2)) k"

definition slot_state :: "(nat \<Rightarrow> page) \<Rightarrow> nat \<Rightarrow> (u64 \<times> bytes) option" where
  "slot_state C k =
     (if slot_valid (commit_of C k) \<and> payload_ok C k (slot_payload_crc (commit_of C k))
      then Some (slot_generation (commit_of C k), slot_payload C k) else None)"

definition slot_bad :: "(nat \<Rightarrow> page) \<Rightarrow> nat \<Rightarrow> bool" where
  "slot_bad C k \<longleftrightarrow> (if slot_valid (commit_of C k)
     then \<not> payload_ok C k (slot_payload_crc (commit_of C k))
     else \<not> blank (C (slot_base k + 2)))"

definition formatted :: "(nat \<Rightarrow> page) \<Rightarrow> bool" where
  "formatted C \<longleftrightarrow> valid_marker (C 0) \<or> valid_marker (C 1)"

definition stored :: "(nat \<Rightarrow> page) \<Rightarrow> (nat \<times> u64 \<times> bytes) option" where
  "stored C =
     (case (slot_state C 0, slot_state C 1) of
        (None, None) \<Rightarrow> None
      | (Some (g, p), None) \<Rightarrow> Some (0, g, p)
      | (None, Some (h, q)) \<Rightarrow> Some (1, h, q)
      | (Some (g, p), Some (h, q)) \<Rightarrow>
          if g = h then None else if h > g then Some (1, h, q) else Some (0, g, p))"

text \<open>
  The store invariant: formatted, and the slot that the next save will overwrite carries no
  commit that could outrank the stored record.
\<close>

definition nand_inv :: "(nat \<Rightarrow> page) \<Rightarrow> bool" where
  "nand_inv C \<longleftrightarrow> formatted C \<and>
     (case stored C of
        None \<Rightarrow> \<not> slot_valid (commit_of C 0) \<and> \<not> slot_valid (commit_of C 1)
      | Some (k, g, p) \<Rightarrow>
          slot_valid (commit_of C (1 - k)) \<longrightarrow> slot_generation (commit_of C (1 - k)) < g)"

lemma stored_slot: "stored C = Some (k, g, p) \<Longrightarrow> k < 2 \<and> slot_state C k = Some (g, p)"
  by (auto simp: stored_def split: option.splits if_splits prod.splits)

lemma size_simps [simp]: "page_size = 2048" "payload_size = 3108" "length zero_page = 2048"
  by (simp_all add: page_size_def payload_size_def zero_page_def)

section \<open>What a page of the store decodes to\<close>

lemma get_le_4: "get_le b p 4 = ucast (b ! p) OR push_bit 8 (ucast (b ! (p + 1))) OR
    push_bit 16 (ucast (b ! (p + 2))) OR push_bit 24 (ucast (b ! (p + 3)))"
  by (simp add: numeral_eq_Suc or.assoc)

lemma blank_replicate: "blank p \<Longrightarrow> length p = 2048 \<Longrightarrow> p = replicate 2048 255"
  by (intro nth_equalityI) (auto simp: blank_def list_all_length)

lemma blank_magic: "blank p \<Longrightarrow> length p = 2048 \<Longrightarrow> get_le p 0 4 = (0xffffffff :: u64)"
  by (drule (1) blank_replicate) (simp add: get_le_4)

lemma zero_page_nth [simp]: "i < 2048 \<Longrightarrow> zero_page ! i = 0"
  by (simp add: zero_page_def page_size_def)

lemma length_commit_page [simp]: "length (commit_page k g c) = 2048"
  by (simp add: commit_page_def)

lemma length_marker [simp]: "length nand_marker = 2048"
  by (simp add: nand_marker_def)

lemma length_payload_page [simp]: "length (payload_page p h) = 2048"
  by (simp add: payload_page_def)

lemma parse_commit_page:
  assumes "g \<noteq> 0" "k < 2"
  shows "parse_commit (commit_page k g c) k =
    \<lparr>slot_valid = True, slot_generation = g, slot_payload_crc = c\<rparr>"
proof -
  have "take_bit 32 (of_nat k :: u64) = of_nat k"
    using assms(2) by (auto simp: less_2_cases_iff)
  moreover have "zeros (commit_page k g c) 24 2044"
    by (auto simp: zeros_iff commit_page_def codec_simps)
  ultimately show ?thesis
    using assms by (simp add: parse_commit_def commit_page_def codec_simps sealed_seal)
qed

lemma valid_marker_page: "valid_marker nand_marker"
proof -
  have "zeros nand_marker 16 2044"
    by (auto simp: zeros_iff nand_marker_def codec_simps)
  then show ?thesis
    by (simp add: valid_marker_def nand_marker_def codec_simps sealed_seal)
qed

lemma payload_pages:
  assumes "length input = 3108" "C (slot_base k) = payload_page input 0"
    "C (slot_base k + 1) = payload_page input 1"
  shows "slot_payload C k = input" "payload_ok C k (crc32 input)"
proof -
  have 0: "payload_page input 0 = take 2048 input"
    using assms(1) by (intro nth_equalityI) (auto simp: payload_page_def nth_put_bytes)
  have "take 1060 (payload_page input 1) = drop 2048 input"
    using assms(1) by (intro nth_equalityI) (auto simp: payload_page_def nth_put_bytes)
  with 0 assms show *: "slot_payload C k = input"
    by (simp add: slot_payload_def)
  have "zeros (payload_page input 1) 1060 2048"
    using assms(1) by (auto simp: zeros_iff payload_page_def codec_simps)
  with * assms show "payload_ok C k (crc32 input)"
    by (simp add: payload_ok_def)
qed

section \<open>Reads refine the abstract record\<close>

context page_device
begin

lemma readD: "io_read io n s = (Some p, s') \<Longrightarrow> p = contents s n \<and> contents s' = contents s"
  by (auto dest: read_page read_frame)

lemma readN: "io_read io n s = (None, s') \<Longrightarrow> contents s' = contents s"
  by (rule read_frame)

lemmas dev_dest = readD readN sync_frame

lemma length_slot_payload: "length (slot_payload (contents s) k) = 3108"
  using page_length by (simp add: slot_payload_def)

lemma read_payload_spec:
  assumes "read_payload io k e s = ((c, pl), s')"
  shows "contents s' = contents s \<and>
    (c = NC_Io \<or> (c = NC_Ok \<and> payload_ok (contents s) k e \<and> pl = slot_payload (contents s) k) \<or>
      (c = NC_Corrupt \<and> \<not> payload_ok (contents s) k e))"
  using assms length_slot_payload [of s k]
  by (auto simp: read_payload_def payload_ok_def slot_payload_def Let_def
      split: prod.splits option.splits if_splits dest!: dev_dest)

lemma scan_slot_spec:
  assumes "scan_slot io k s = (r, s')"
  shows "contents s' = contents s \<and>
    (case r of Inl _ \<Rightarrow> True
     | Inr (f, bad, _) \<Rightarrow> bad = slot_bad (contents s) k \<and>
        (if slot_valid f
         then slot_state (contents s) k = Some (slot_generation f, slot_payload (contents s) k)
         else slot_state (contents s) k = None))"
proof (cases "io_read io (slot_base k + 2) s")
  case (Pair q s1)
  show ?thesis
  proof (cases q)
    case None
    with Pair assms show ?thesis by (auto simp: scan_slot_def dest: readN)
  next
    case (Some p)
    with Pair have p: "p = contents s (slot_base k + 2)" "contents s1 = contents s"
      by (auto dest: readD)
    then have f: "parse_commit p k = commit_of (contents s) k"
      by (simp add: commit_of_def)
    obtain c pl s2 where rp: "read_payload io k (slot_payload_crc (parse_commit p k)) s1 = ((c, pl), s2)"
      by (metis surj_pair)
    from read_payload_spec [OF rp] f p show ?thesis
      using assms Pair Some rp
      by (auto simp: scan_slot_def Let_def slot_bad_def slot_state_def split: if_splits)
  qed
qed

text \<open>The answer of a scan, and that it never writes.\<close>

lemma scan_spec:
  assumes "nand_scan io s = (r, s')"
  shows "contents s' = contents s" and
    "res_code r \<noteq> NC_Io \<Longrightarrow> formatted (contents s) \<Longrightarrow>
      (case stored (contents s) of
         Some (k, g, p) \<Rightarrow> res_code r = NC_Ok \<and> res_slot r = int k \<and> res_generation r = g
       | None \<Rightarrow> (res_code r = NC_Empty \<and> res_slot r = -1 \<and> res_generation r = 0 \<and>
            \<not> slot_bad (contents s) 0 \<and> \<not> slot_bad (contents s) 1) \<or>
           (res_code r = NC_Corrupt \<and>
            (slot_bad (contents s) 0 \<or> slot_bad (contents s) 1 \<or> slot_state (contents s) 0 \<noteq> None)))"
    and "res_code r = NC_Ok \<or> res_code r = NC_Empty \<Longrightarrow> formatted (contents s)"
proof -
  obtain q0 s1 where r0: "io_read io 0 s = (q0, s1)" by fastforce
  obtain q1 s2 where r1: "io_read io 1 s1 = (q1, s2)" by fastforce
  obtain a s3 where a: "scan_slot io 0 s2 = (a, s3)" by fastforce
  obtain b s4 where b: "scan_slot io 1 s3 = (b, s4)" by fastforce
  have C: "contents s1 = contents s" "contents s2 = contents s" "contents s3 = contents s"
    "contents s4 = contents s"
    using read_frame [OF r0] read_frame [OF r1] scan_slot_spec [OF a] scan_slot_spec [OF b]
    by simp_all
  have q: "q0 = Some p \<Longrightarrow> p = contents s 0" "q1 = Some p \<Longrightarrow> p = contents s 1" for p
    using r0 r1 C(1) read_page by metis+
  note defs = nand_scan_def r0 r1 a b r1 [unfolded One_nat_def] b [unfolded One_nat_def]
    Let_def nand_result0_def
  show "contents s' = contents s"
    using assms C by (auto simp: defs split: option.splits if_splits sum.splits)
  show "res_code r = NC_Ok \<or> res_code r = NC_Empty \<Longrightarrow> formatted (contents s)"
    using assms q by (auto simp: defs formatted_def split: option.splits if_splits sum.splits)
  assume io: "res_code r \<noteq> NC_Io" and F: "formatted (contents s)"
  then obtain f0 bad0 st0 f1 bad1 st1 x where
    ab: "a = Inr (f0, bad0, st0)" "b = Inr (f1, bad1, st1)" and
    r: "r = choose_slot f0 f1 (bad0 \<or> bad1) x" "res_slot x = -1" "res_generation x = 0"
    using assms q by (fastforce simp: defs formatted_def split: option.splits if_splits sum.splits)
  have "bad0 = slot_bad (contents s) 0" "bad1 = slot_bad (contents s) 1"
    "slot_state (contents s) 0 = (if slot_valid f0 then Some (slot_generation f0, slot_payload (contents s) 0) else None)"
    "slot_state (contents s) 1 = (if slot_valid f1 then Some (slot_generation f1, slot_payload (contents s) 1) else None)"
    using scan_slot_spec [OF a] scan_slot_spec [OF b] ab C by auto
  then show "case stored (contents s) of
      Some (k, g, p) \<Rightarrow> res_code r = NC_Ok \<and> res_slot r = int k \<and> res_generation r = g
    | None \<Rightarrow> (res_code r = NC_Empty \<and> res_slot r = -1 \<and> res_generation r = 0 \<and>
         \<not> slot_bad (contents s) 0 \<and> \<not> slot_bad (contents s) 1) \<or>
        (res_code r = NC_Corrupt \<and>
         (slot_bad (contents s) 0 \<or> slot_bad (contents s) 1 \<or> slot_state (contents s) 0 \<noteq> None))"
    using r by (auto simp: choose_slot_def stored_def Let_def)
qed

lemma load_spec:
  assumes "nand_load io s = ((r, out), s')"
  shows "contents s' = contents s" and
    "res_code r \<noteq> NC_Io \<Longrightarrow> formatted (contents s) \<Longrightarrow>
      (case stored (contents s) of
         Some (k, g, p) \<Rightarrow> res_code r = NC_Ok \<and> res_generation r = g \<and> out = Some p
       | None \<Rightarrow> res_code r \<noteq> NC_Ok \<and> out = None)"
proof -
  obtain r1 s1 where sc: "nand_scan io s = (r1, s1)" by fastforce
  obtain q s2 where rd: "io_read io (slot_base (nat (res_slot r1)) + 2) s1 = (q, s2)" by fastforce
  have C: "contents s1 = contents s" "contents s2 = contents s"
    using scan_spec(1) [OF sc] read_frame [OF rd] by simp_all
  obtain c pl s3 where rp: "read_payload io (nat (res_slot r1))
      (slot_payload_crc (commit_of (contents s) (nat (res_slot r1)))) s2 = ((c, pl), s3)"
    by (metis surj_pair)
  note rp' = read_payload_spec [OF rp]
  have q: "q = Some p \<Longrightarrow> parse_commit p (nat (res_slot r1)) = commit_of (contents s) (nat (res_slot r1))" for p
    using rd C readD by (fastforce simp: commit_of_def)
  show "contents s' = contents s"
    using assms sc rd C rp rp' by (auto simp: nand_load_def Let_def q split: option.splits if_splits)
  assume io: "res_code r \<noteq> NC_Io" and F: "formatted (contents s)"
  show "case stored (contents s) of
      Some (k, g, p) \<Rightarrow> res_code r = NC_Ok \<and> res_generation r = g \<and> out = Some p
    | None \<Rightarrow> res_code r \<noteq> NC_Ok \<and> out = None"
  proof (cases "res_code r1 = NC_Ok")
    case False
    then have "r = r1" "out = None" using assms sc by (auto simp: nand_load_def)
    with False scan_spec(2) [OF sc _ F] io show ?thesis
      by (auto split: option.splits)
  next
    case True
    then obtain k g p where st: "stored (contents s) = Some (k, g, p)" "res_slot r1 = int k"
      "res_generation r1 = g"
      using scan_spec(2) [OF sc _ F] by (auto split: option.splits)
    then have "slot_state (contents s) k = Some (g, p)" by (auto dest: stored_slot)
    then have "slot_valid (commit_of (contents s) k)" "slot_generation (commit_of (contents s) k) = g"
      "payload_ok (contents s) k (slot_payload_crc (commit_of (contents s) k))"
      "p = slot_payload (contents s) k"
      by (auto simp: slot_state_def split: if_splits)
    with st rp' C True io assms sc rd q rp show ?thesis
      by (auto simp: nand_load_def Let_def split: option.splits if_splits)
  qed
qed

end

section \<open>Writes: the three stages of a save\<close>

definition next_slot :: "(nat \<Rightarrow> page) \<Rightarrow> nat" where
  "next_slot C = (case stored C of Some (k, _, _) \<Rightarrow> if k = 0 then 1 else 0 | None \<Rightarrow> 0)"

definition next_generation :: "(nat \<Rightarrow> page) \<Rightarrow> u64" where
  "next_generation C = (case stored C of Some (_, g, _) \<Rightarrow> g + 1 | None \<Rightarrow> 1)"

definition put_payload :: "(nat \<Rightarrow> page) \<Rightarrow> nat \<Rightarrow> bytes \<Rightarrow> nat \<Rightarrow> (nat \<Rightarrow> page)" where
  "put_payload C t input half = C(slot_base t + half := payload_page input half)"

definition put_commit :: "(nat \<Rightarrow> page) \<Rightarrow> nat \<Rightarrow> u64 \<Rightarrow> bytes \<Rightarrow> (nat \<Rightarrow> page)" where
  "put_commit C t g input = C(slot_base t + 2 := commit_page t g (crc32 (take payload_size input)))"

lemma commit_of_other: "n \<noteq> slot_base k + 2 \<Longrightarrow> commit_of (C(n := p)) k = commit_of C k"
  by (simp add: commit_of_def)

lemma slot_state_other:
  "n \<notin> {slot_base k, slot_base k + 1, slot_base k + 2} \<Longrightarrow> slot_state (C(n := p)) k = slot_state C k"
  by (simp add: slot_state_def commit_of_def payload_ok_def slot_payload_def)

lemma formatted_other: "2 \<le> n \<Longrightarrow> formatted (C(n := p)) = formatted C"
  by (simp add: formatted_def)

lemma slot_state_le:
  "slot_state C k = Some (g, p) \<Longrightarrow> slot_valid (commit_of C k) \<and> slot_generation (commit_of C k) = g"
  by (auto simp: slot_state_def split: if_splits)

lemma slot_state_invalid: "\<not> slot_valid (commit_of C k) \<Longrightarrow> slot_state C k = None"
  by (simp add: slot_state_def)

text \<open>Touching only payload pages of the slot to be overwritten changes nothing that is stored.\<close>

lemma payload_write_keeps:
  assumes inv: "nand_inv C" and n: "n = slot_base (next_slot C) \<or> n = slot_base (next_slot C) + 1"
  shows "nand_inv (C(n := p)) \<and> stored (C(n := p)) = stored C"
proof (cases "stored C")
  case None
  then have t: "next_slot C = 0" by (simp add: next_slot_def)
  with n have co: "commit_of (C(n := p)) k = commit_of C k" if "k < 2" for k
    using that by (auto simp: slot_base_def less_2_cases_iff intro!: commit_of_other)
  from None inv have "\<not> slot_valid (commit_of C 0)" "\<not> slot_valid (commit_of C 1)"
    by (auto simp: nand_inv_def)
  with co have "stored (C(n := p)) = None"
    by (simp add: stored_def slot_state_invalid)
  with None inv co n show ?thesis
    by (auto simp: nand_inv_def formatted_other slot_base_def)
next
  case (Some a)
  obtain k g q where a: "a = (k, g, q)" by (cases a) auto
  from stored_slot Some a have k: "k < 2" "slot_state C k = Some (g, q)" by auto
  define t where "t = 1 - k"
  have t: "next_slot C = t" using Some a k(1) by (auto simp: next_slot_def t_def less_2_cases_iff)
  have keep: "slot_state (C(n := p)) k = Some (g, q)"
    using k n t by (auto simp: t_def slot_base_def less_2_cases_iff slot_state_other)
  have co: "commit_of (C(n := p)) t = commit_of C t"
    using n t by (intro commit_of_other) auto
  have lt: "slot_valid (commit_of C t) \<Longrightarrow> slot_generation (commit_of C t) < g"
    using inv Some a by (auto simp: nand_inv_def t_def)
  have "stored (C(n := p)) = Some (k, g, q)"
  proof (cases "slot_state (C(n := p)) t")
    case None
    with keep k(1) show ?thesis by (auto simp: stored_def t_def less_2_cases_iff)
  next
    case st: (Some b)
    obtain h u where "b = (h, u)" by (cases b) auto
    with st have "h < g" using slot_state_le [of "C(n := p)" t] co lt by auto
    with st keep k(1) \<open>b = (h, u)\<close> show ?thesis
      by (auto simp: stored_def t_def less_2_cases_iff)
  qed
  with Some a inv co n t lt show ?thesis
    by (auto simp: nand_inv_def formatted_other slot_base_def t_def)
qed

lemma no_overflow: "(g :: u64) \<noteq> -1 \<Longrightarrow> g < g + 1"
  by (metis inc_less_eq_self_iff_eq linorder_not_le)

lemma inc_nonzero: "(g :: u64) \<noteq> -1 \<Longrightarrow> g + 1 \<noteq> 0"
  by (metis add_eq_0_iff2 add.commute)

text \<open>The commit page makes the new record the stored one, in one page write.\<close>

lemma commit_write_publishes:
  assumes inv: "nand_inv C" and len: "length input = payload_size"
    and pages: "C (slot_base t) = payload_page input 0" "C (slot_base t + 1) = payload_page input 1"
    and t: "t = next_slot C" and g: "g = next_generation C"
    and room: "\<forall>k h q. stored C = Some (k, h, q) \<longrightarrow> h \<noteq> -1"
  shows "nand_inv (put_commit C t g input) \<and> stored (put_commit C t g input) = Some (t, g, input)"
proof -
  define D where "D = put_commit C t g input"
  have t2: "t < 2" by (simp add: t next_slot_def split: option.splits prod.splits)
  have g0: "g \<noteq> 0"
    using room inc_nonzero by (auto simp: g next_generation_def split: option.splits prod.splits)
  have cm: "commit_of D t = \<lparr>slot_valid = True, slot_generation = g, slot_payload_crc = crc32 input\<rparr>"
    using parse_commit_page [OF g0 t2] len by (simp add: D_def put_commit_def commit_of_def)
  have "D (slot_base t) = payload_page input 0" "D (slot_base t + 1) = payload_page input 1"
    using pages by (simp_all add: D_def put_commit_def)
  with payload_pages [of input D t] len have st: "slot_state D t = Some (g, input)"
    by (simp add: slot_state_def cm)
  have F: "formatted D"
    using inv by (simp add: D_def put_commit_def formatted_other slot_base_def nand_inv_def)
  have other: "commit_of D (1 - t) = commit_of C (1 - t)"
    using t2 unfolding D_def put_commit_def
    by (intro commit_of_other) (auto simp: slot_base_def less_2_cases_iff)
  have lt: "slot_generation (commit_of D (1 - t)) < g" if v: "slot_valid (commit_of D (1 - t))"
  proof (cases "stored C")
    case None
    with inv v other t show ?thesis by (simp add: nand_inv_def next_slot_def)
  next
    case (Some a)
    obtain k h q where a: "a = (k, h, q)" by (cases a) auto
    with Some stored_slot have k: "k < 2" "slot_state C k = Some (h, q)" by auto
    with Some a t have "k = 1 - t" by (auto simp: next_slot_def less_2_cases_iff)
    with k slot_state_le other have "slot_generation (commit_of D (1 - t)) = h" by metis
    moreover have "g = h + 1" using Some a g by (simp add: next_generation_def)
    moreover have "h \<noteq> -1" using room Some a by blast
    ultimately show ?thesis using no_overflow by simp
  qed
  have "stored D = Some (t, g, input)"
  proof (cases "slot_state D (1 - t)")
    case None
    with st t2 show ?thesis by (auto simp: stored_def less_2_cases_iff)
  next
    case (Some b)
    obtain h u where b: "b = (h, u)" by (cases b) auto
    with Some lt slot_state_le [of D "1 - t" h u] have "h < g" by auto
    with Some b st t2 show ?thesis by (auto simp: stored_def less_2_cases_iff)
  qed
  with F lt show ?thesis by (simp add: nand_inv_def D_def)
qed

section \<open>The whole save\<close>

text \<open>
  What a save may leave behind: the old record or the complete new one, the invariant kept
  in both cases, and the new one whenever the answer is \<open>Ok\<close>.
\<close>

definition save_outcome :: "(nat \<Rightarrow> page) \<Rightarrow> bytes \<Rightarrow> bool \<Rightarrow> (nat \<Rightarrow> page) \<Rightarrow> bool" where
  "save_outcome C input success D \<longleftrightarrow> nand_inv D \<and>
     (stored D = stored C \<and> \<not> success \<or>
      stored D = Some (next_slot C, next_generation C, input) \<and> next_generation C \<noteq> 0)"

lemma nand_inv_room:
  assumes "nand_inv C" "stored C = Some (k, h, q)" "h \<noteq> -1"
  shows "next_generation C \<noteq> 0" "h < next_generation C"
  using assms inc_nonzero no_overflow by (auto simp: next_generation_def)

lemma payload_writes_keep:
  assumes "nand_inv C" "t = next_slot C"
  shows "nand_inv (C(slot_base t := p)) \<and> stored (C(slot_base t := p)) = stored C"
    and "nand_inv (C(slot_base t := p, slot_base t + 1 := q)) \<and>
      stored (C(slot_base t := p, slot_base t + 1 := q)) = stored C"
proof -
  show 1: "nand_inv (C(slot_base t := p)) \<and> stored (C(slot_base t := p)) = stored C"
    using assms by (intro payload_write_keeps) auto
  then have "next_slot (C(slot_base t := p)) = t"
    using assms by (simp add: next_slot_def)
  with 1 show "nand_inv (C(slot_base t := p, slot_base t + 1 := q)) \<and>
      stored (C(slot_base t := p, slot_base t + 1 := q)) = stored C"
    using payload_write_keeps [of "C(slot_base t := p)" "slot_base t + 1" q] by auto
qed

context page_device
begin

lemma verify_payload_spec:
  assumes "verify_payload io k input s = (c, s')"
  shows "contents s' = contents s" and "c = NC_Ok \<Longrightarrow> slot_payload (contents s) k = input"
  using assms read_payload_spec [of k "crc32 (take payload_size input)" s]
  by (auto simp: verify_payload_def split: prod.splits if_splits)

lemma save_commit_spec:
  assumes "save_commit io t g input r s = (r', s')"
  shows "contents s' = contents s \<and> res_code r' \<noteq> NC_Ok \<or>
    contents s' = put_commit (contents s) t g input"
proof -
  let ?p = "commit_page t g (crc32 (take payload_size input))"
  obtain b s1 where w: "io_write io (slot_base t + 2) ?p s = (b, s1)" by fastforce
  have "(if b then contents s1 = put_commit (contents s) t g input
         else contents s1 = contents s \<or> contents s1 = put_commit (contents s) t g input)"
    using w write_page [of ?p] write_torn [of ?p] by (auto simp: put_commit_def)
  with w assms show ?thesis
    by (auto simp: save_commit_def Let_def dest!: dev_dest dest: verify_payload_spec(1)
        split: prod.splits bool.splits option.splits if_splits)
qed

lemma save_prefix:
  assumes "nand_scan io s = (r, s1)" "nand_inv (contents s)" "res_code r = NC_Ok \<or> res_code r = NC_Empty"
    "res_generation r \<noteq> -1"
  shows "contents s1 = contents s" "(if res_slot r = 0 then 1 else 0) = next_slot (contents s)"
    "res_generation r + 1 = next_generation (contents s)" "next_generation (contents s) \<noteq> 0"
    "\<forall>k h q. stored (contents s) = Some (k, h, q) \<longrightarrow> h \<noteq> -1"
proof -
  have F: "formatted (contents s)" using assms(2) by (simp add: nand_inv_def)
  note sc = scan_spec(2) [OF assms(1) _ F]
  show "contents s1 = contents s" by (rule scan_spec(1) [OF assms(1)])
  show 1: "(if res_slot r = 0 then 1 else 0) = next_slot (contents s)"
    "res_generation r + 1 = next_generation (contents s)"
    "\<forall>k h q. stored (contents s) = Some (k, h, q) \<longrightarrow> h \<noteq> -1"
    using sc assms(3,4) by (auto simp: next_slot_def next_generation_def split: option.splits)
  then show "next_generation (contents s) \<noteq> 0" using inc_nonzero assms(4) by metis
qed

lemma save_spec:
  assumes run: "nand_save io input s = (r', s')" and inv: "nand_inv (contents s)"
    and len: "length input = payload_size"
  shows "save_outcome (contents s) input (res_code r' = NC_Ok) (contents s')"
proof -
  let ?C = "contents s" let ?t = "next_slot ?C" let ?g = "next_generation ?C"
  let ?C1 = "?C(slot_base ?t := payload_page input 0)"
  let ?C2 = "?C1(slot_base ?t + 1 := payload_page input 1)"
  obtain r s1 where sc: "nand_scan io s = (r, s1)" by fastforce
  have keep: "D \<in> {?C, ?C1, ?C2} \<Longrightarrow> save_outcome ?C input False D" for D
    using payload_writes_keep [OF inv refl] inv by (auto simp: save_outcome_def)
  show ?thesis
  proof (cases "(res_code r = NC_Ok \<or> res_code r = NC_Empty) \<and> res_generation r \<noteq> -1")
    case False
    then show ?thesis
      using run sc keep [of ?C] scan_spec(1) [OF sc] by (auto simp: nand_save_def split: if_splits)
  next
    case True
    then have ok: "res_code r = NC_Ok \<or> res_code r = NC_Empty" "res_generation r \<noteq> -1" by auto
    note pre = save_prefix [OF sc inv ok]
    obtain b1 s2 where w1: "io_write io (slot_base ?t) (payload_page input 0) s1 = (b1, s2)" by fastforce
    obtain b2 s3 where w2: "io_write io (slot_base ?t + 1) (payload_page input 1) s2 = (b2, s3)" by fastforce
    obtain b3 s4 where sy: "io_sync io s3 = (b3, s4)" by fastforce
    obtain c s5 where vp: "verify_payload io ?t input s4 = (c, s5)" by fastforce
    obtain r6 s6 where cm: "save_commit io ?t ?g input r s5 = (r6, s6)" by fastforce
    have C1: "contents s2 \<in> {?C, ?C1}" "b1 \<Longrightarrow> contents s2 = ?C1"
      using w1 pre(1) write_page [of "payload_page input 0"] write_torn [of "payload_page input 0"]
      by (cases b1; fastforce)+
    have C2: "b1 \<Longrightarrow> contents s3 \<in> {?C1, ?C2}" "b1 \<Longrightarrow> b2 \<Longrightarrow> contents s3 = ?C2"
      using w2 C1 write_page [of "payload_page input 1"] write_torn [of "payload_page input 1"]
      by (cases b2; fastforce)+
    have C3: "contents s4 = contents s3" "contents s5 = contents s3"
      using sync_frame [OF sy] verify_payload_spec(1) [OF vp] by auto
    note run' = run [unfolded nand_save_def sc prod.case] 
    show ?thesis
    proof (cases "b1 \<and> b2 \<and> b3 \<and> c = NC_Ok")
      case False
      then have "contents s' \<in> {?C, ?C1, ?C2} \<and> res_code r' \<noteq> NC_Ok"
        using run' ok pre w1 w2 sy vp C1 C2 C3
        by (auto simp: Let_def split: bool.splits if_splits)
      with keep show ?thesis by auto
    next
      case ok2: True
      then have e: "r' = r6" "s' = s6"
        using run' ok pre w1 w2 sy vp cm by (auto simp: Let_def)
      have D: "contents s5 = ?C2" using ok2 C2 C3 by auto
      have inv2: "nand_inv ?C2" "stored ?C2 = stored ?C"
        using payload_writes_keep(2) [OF inv refl] by auto
      then have "?t = next_slot ?C2" "?g = next_generation ?C2"
        by (simp_all add: next_slot_def next_generation_def)
      then have pub: "nand_inv (put_commit ?C2 ?t ?g input) \<and>
          stored (put_commit ?C2 ?t ?g input) = Some (?t, ?g, input)"
        using commit_write_publishes [OF inv2(1) len, of ?t ?g] pre(5) inv2(2) by simp
      from save_commit_spec [OF cm] D e pub keep [of ?C2] pre(4) show ?thesis
        by (auto simp: save_outcome_def)
    qed
  qed
qed

end

section \<open>A device without faults\<close>

text \<open>When a save can go through: room in the generation counter, no damaged slot on an empty store.\<close>

definition save_ready :: "(nat \<Rightarrow> page) \<Rightarrow> bool" where
  "save_ready C \<longleftrightarrow> nand_inv C \<and> next_generation C \<noteq> 0 \<and>
     (stored C = None \<longrightarrow> \<not> slot_bad C 0 \<and> \<not> slot_bad C 1)"

lemma reliableD:
  assumes "reliable io"
  shows "io_read io n s \<noteq> (None, s')" "io_write io n p s \<noteq> (False, s')" "io_sync io s \<noteq> (False, s')"
  using assms by (metis fst_conv reliable_def)+

lemma read_payload_reliable: "reliable io \<Longrightarrow> read_payload io k e s \<noteq> ((NC_Io, pl), s')"
  by (auto simp: read_payload_def Let_def reliableD split: prod.splits option.splits)

lemma scan_slot_reliable: "reliable io \<Longrightarrow> scan_slot io k s \<noteq> (Inl st, s')"
  by (auto simp: scan_slot_def Let_def reliableD read_payload_reliable
      split: prod.splits option.splits if_splits)

lemma choose_slot_code [simp]: "res_code (choose_slot a b i r) \<noteq> NC_Io"
  by (simp add: choose_slot_def Let_def)

lemma scan_reliable: "reliable io \<Longrightarrow> nand_scan io s = (r, s') \<Longrightarrow> res_code r \<noteq> NC_Io"
  by (auto simp: nand_scan_def nand_result0_def Let_def reliableD scan_slot_reliable
      split: prod.splits option.splits if_splits sum.splits)

context page_device
begin

lemma verify_payload_reliable:
  assumes "reliable io" "verify_payload io k input s = (c, s')" "length input = payload_size"
    "contents s (slot_base k) = payload_page input 0" "contents s (slot_base k + 1) = payload_page input 1"
  shows "c = NC_Ok"
proof -
  have "payload_ok (contents s) k (crc32 input)" "slot_payload (contents s) k = input"
    using payload_pages [of input "contents s" k] assms by auto
  then show ?thesis
    using assms read_payload_spec [of k "crc32 input" s] read_payload_reliable [OF assms(1)]
    by (fastforce simp: verify_payload_def split: prod.splits if_splits)
qed

lemma save_commit_reliable:
  assumes "reliable io" "save_commit io k g input r s = (r', s')" "length input = payload_size"
    "contents s (slot_base k) = payload_page input 0" "contents s (slot_base k + 1) = payload_page input 1"
  shows "res_code r' = NC_Ok" "res_generation r' = g" "res_slot r' = int k"
proof -
  let ?p = "commit_page k g (crc32 input)"
  obtain s1 where w: "io_write io (slot_base k + 2) ?p s = (True, s1)"
    using reliableD(2) [OF assms(1)] by (metis (full_types) surj_pair)
  obtain s2 where sy: "io_sync io s1 = (True, s2)"
    using reliableD(3) [OF assms(1)] by (metis (full_types) surj_pair)
  obtain q s3 where rd: "io_read io (slot_base k + 2) s2 = (Some q, s3)"
    using reliableD(1) [OF assms(1)] by (metis (full_types) surj_pair option.exhaust)
  obtain c s4 where v: "verify_payload io k input s3 = (c, s4)" by fastforce
  have C: "contents s3 = (contents s)(slot_base k + 2 := ?p)"
    using write_page [OF _ w] sync_frame [OF sy] readD [OF rd] by simp
  moreover have "q = ?p"
    using readD [OF rd] sync_frame [OF sy] write_page [OF _ w] by simp
  moreover have "c = NC_Ok"
    using verify_payload_reliable [OF assms(1) v assms(3)] C assms(4,5) by simp
  ultimately show "res_code r' = NC_Ok" "res_generation r' = g" "res_slot r' = int k"
    using assms(2,3) w sy rd v by (auto simp: save_commit_def)
qed

lemma save_reliable:
  assumes rel: "reliable io" and run: "nand_save io input s = (r', s')" and ready: "save_ready (contents s)"
    and len: "length input = payload_size"
  shows "res_code r' = NC_Ok \<and> res_generation r' = next_generation (contents s) \<and>
    res_slot r' = int (next_slot (contents s))"
proof -
  let ?C = "contents s" let ?t = "next_slot ?C" let ?g = "next_generation ?C"
  have inv: "nand_inv ?C" using ready by (simp add: save_ready_def)
  obtain r s1 where sc: "nand_scan io s = (r, s1)" by fastforce
  have ok: "res_code r = NC_Ok \<or> res_code r = NC_Empty"
    using scan_spec(2) [OF sc scan_reliable [OF rel sc]] ready
    by (auto simp: save_ready_def nand_inv_def slot_state_invalid split: option.splits)
  moreover have "res_generation r + 1 = ?g"
    using scan_spec(2) [OF sc scan_reliable [OF rel sc]] ready ok
    by (auto simp: save_ready_def nand_inv_def next_generation_def slot_state_invalid
        split: option.splits)
  ultimately have gen: "res_generation r \<noteq> -1"
    using ready by (auto simp: save_ready_def)
  note pre = save_prefix [OF sc inv ok gen]
  obtain s2 where w1: "io_write io (slot_base ?t) (payload_page input 0) s1 = (True, s2)"
    using reliableD(2) [OF rel] by (metis (full_types) surj_pair)
  obtain s3 where w2: "io_write io (slot_base ?t + 1) (payload_page input 1) s2 = (True, s3)"
    using reliableD(2) [OF rel] by (metis (full_types) surj_pair)
  obtain s4 where sy: "io_sync io s3 = (True, s4)"
    using reliableD(3) [OF rel] by (metis (full_types) surj_pair)
  obtain c s5 where vp: "verify_payload io ?t input s4 = (c, s5)" by fastforce
  have C: "contents s4 = (contents s1)(slot_base ?t := payload_page input 0,
      slot_base ?t + 1 := payload_page input 1)"
    using write_page [OF _ w1] write_page [OF _ w2] sync_frame [OF sy] by simp
  then have c: "c = NC_Ok" "contents s5 = contents s4"
    using verify_payload_reliable [OF rel vp len] verify_payload_spec(1) [OF vp] by auto
  have "save_commit io ?t ?g input r s5 = (r', s')"
    using run sc ok gen pre w1 w2 sy vp c by (auto simp: nand_save_def Let_def)
  from save_commit_reliable [OF rel this len] C c show ?thesis by simp
qed

end

end
