(* ===== verification/Cold_Store.thy ===== *)
theory Cold_Store
  imports Nand_Store_Safety
begin

text \<open>
  The two-page record store of the gauge recovery protocol
  (\<open>main/hal/mosaico/mosaico_gauge_cold_store_model.h\<close>). The policy that classifies states and
  transitions is a template argument of the code and a parameter here.
\<close>

section \<open>Records\<close>

record cold_record =
  cold_sequence :: u64
  cold_phase :: u8
  cold_nonce :: bytes
  cold_binding :: bytes
  cold_size :: u16
  cold_payload :: bytes

record cold_policy =
  pol_valid :: "cold_record \<Rightarrow> bool"
  pol_initial :: "cold_record \<Rightarrow> bool"
  pol_transition :: "cold_record \<Rightarrow> cold_record \<Rightarrow> bool"

datatype cold_code =
  CC_Empty | CC_Ready | CC_NotFormatted | CC_Io | CC_Corrupt | CC_Ambiguous | CC_Rejected | CC_Verify

definition nonzero :: "bytes \<Rightarrow> bool" where
  "nonzero a = list_ex (\<lambda>v. v \<noteq> 0) a"

definition same_binding :: "cold_record \<Rightarrow> cold_record \<Rightarrow> bool" where
  "same_binding a b \<longleftrightarrow> cold_nonce a = cold_nonce b \<and> cold_binding a = cold_binding b"

definition cold_shape :: "cold_record \<Rightarrow> bool" where
  "cold_shape r \<longleftrightarrow> cold_sequence r \<noteq> 0 \<and> cold_phase r \<noteq> 0 \<and> nonzero (cold_nonce r) \<and>
     nonzero (cold_binding r) \<and> unat (cold_size r) \<le> 1536 \<and>
     zeros (cold_payload r) (unat (cold_size r)) 1536"

text \<open>The lengths of the fixed-size arrays of the struct.\<close>

definition cold_arrays :: "cold_record \<Rightarrow> bool" where
  "cold_arrays r \<longleftrightarrow> length (cold_nonce r) = 16 \<and> length (cold_binding r) = 32 \<and>
     length (cold_payload r) = 1536"

definition cold_encode :: "cold_record \<Rightarrow> page option" where
  "cold_encode r =
     (if \<not> cold_shape r then None
      else
        let p = put_le (put_le (put_le (put_le zero_page 0 (0x31444347 :: u64) 4) 4 (1 :: u64) 2)
              6 (80 :: u64) 2) 8 (cold_sequence r) 8;
            p = p[16 := cold_phase r];
            p = put_bytes p 24 (cold_nonce r);
            p = put_bytes p 40 (cold_binding r);
            p = put_le p 72 (ucast (cold_size r) :: u64) 2;
            p = put_bytes p 80 (take (unat (cold_size r)) (cold_payload r))
        in Some (seal p 2044))"

definition cold_decode :: "page \<Rightarrow> cold_record option" where
  "cold_decode p =
     (if get_le p 0 4 \<noteq> (0x31444347 :: u64) \<or> get_le p 4 2 \<noteq> (1 :: u64) \<or> get_le p 6 2 \<noteq> (80 :: u64) \<or>
         get_le p 72 2 > (1536 :: u64) \<or> \<not> sealed p 2044
      then None
      else if \<not> zeros p 17 24 \<or> \<not> zeros p 74 80 then None
      else
        let size = unat (get_le p 72 2 :: u64) in
        if \<not> zeros p (80 + size) 2044 then None
        else
          let r = \<lparr>cold_sequence = get_le p 8 8, cold_phase = p ! 16,
                cold_nonce = get_bytes p 24 16, cold_binding = get_bytes p 40 32,
                cold_size = of_nat size,
                cold_payload = put_bytes (replicate 1536 0) 0 (get_bytes p 80 size)\<rparr> in
          if cold_shape r then Some r else None)"

section \<open>Loading and saving\<close>

text \<open>What one of the two record pages holds: nothing, a record, or a reason to stop.\<close>

definition cold_slot :: "cold_policy \<Rightarrow> page \<Rightarrow> cold_record option option" where
  "cold_slot pol p =
     (if blank p then Some None
      else case cold_decode p of
        None \<Rightarrow> None
      | Some r \<Rightarrow> if pol_valid pol r then Some (Some r) else None)"

definition cold_choose ::
  "cold_policy \<Rightarrow> cold_record option \<Rightarrow> cold_record option \<Rightarrow> cold_code \<times> (nat \<times> cold_record) option" where
  "cold_choose pol a b =
     (case (a, b) of
        (None, None) \<Rightarrow> (CC_Empty, None)
      | (Some r, None) \<Rightarrow>
          if cold_sequence r \<noteq> 1 \<or> \<not> pol_initial pol r then (CC_Ambiguous, None)
          else (CC_Ready, Some (0, r))
      | (None, Some r) \<Rightarrow>
          if cold_sequence r \<noteq> 1 \<or> \<not> pol_initial pol r then (CC_Ambiguous, None)
          else (CC_Ready, Some (1, r))
      | (Some x, Some y) \<Rightarrow>
          if cold_sequence x = cold_sequence y then (CC_Ambiguous, None)
          else
            let newer = (if cold_sequence x > cold_sequence y then 0 else 1);
                old = (if newer = 0 then y else x); new = (if newer = 0 then x else y) in
            if cold_sequence old = -1 \<or> cold_sequence new \<noteq> cold_sequence old + 1 \<or>
               \<not> same_binding old new \<or> (cold_sequence old = 1 \<and> \<not> pol_initial pol old) \<or>
               \<not> pol_transition pol old new
            then (CC_Ambiguous, None)
            else (CC_Ready, Some (newer, new)))"

definition cold_marker_stop :: "page \<Rightarrow> bool" where
  "cold_marker_stop p \<longleftrightarrow> \<not> valid_marker p \<and> \<not> blank p"

definition cold_load ::
  "'s page_io \<Rightarrow> cold_policy \<Rightarrow> 's \<Rightarrow> (cold_code \<times> (nat \<times> cold_record) option) \<times> 's" where
  "cold_load io pol s =
     (case io_read io 0 s of
        (None, s1) \<Rightarrow> ((CC_Io, None), s1)
      | (Some m0, s1) \<Rightarrow>
          if cold_marker_stop m0 then ((CC_Corrupt, None), s1)
          else
     (case io_read io 1 s1 of
        (None, s2) \<Rightarrow> ((CC_Io, None), s2)
      | (Some m1, s2) \<Rightarrow>
          if cold_marker_stop m1 then ((CC_Corrupt, None), s2)
          else if \<not> valid_marker m0 \<and> \<not> valid_marker m1 then ((CC_NotFormatted, None), s2)
          else
     (case io_read io 8 s2 of
        (None, s3) \<Rightarrow> ((CC_Io, None), s3)
      | (Some p0, s3) \<Rightarrow>
          (case cold_slot pol p0 of
             None \<Rightarrow> ((CC_Corrupt, None), s3)
           | Some a \<Rightarrow>
     (case io_read io 9 s3 of
        (None, s4) \<Rightarrow> ((CC_Io, None), s4)
      | (Some p1, s4) \<Rightarrow>
          (case cold_slot pol p1 of
             None \<Rightarrow> ((CC_Corrupt, None), s4)
           | Some b \<Rightarrow> (cold_choose pol a b, s4)))))))"

text \<open>
  The admission of \<open>save\<close>: \<open>Inl\<close> the code it stops with, \<open>Inr\<close> the page to write. \<open>aliased\<close> says
  that \<open>next\<close> is one of the scratch records.
\<close>

definition cold_admit ::
  "cold_policy \<Rightarrow> cold_record \<Rightarrow> cold_code \<Rightarrow> (nat \<times> cold_record) option \<Rightarrow> cold_code + nat" where
  "cold_admit pol r code loaded =
     (if code = CC_Empty
      then if cold_sequence r \<noteq> 1 \<or> \<not> pol_initial pol r then Inl CC_Rejected else Inr 0
      else if code = CC_Ready
      then
        (case loaded of
           None \<Rightarrow> Inl CC_Rejected
         | Some (k, old) \<Rightarrow>
             if cold_sequence old = -1 \<or> cold_sequence r \<noteq> cold_sequence old + 1 \<or>
                \<not> same_binding old r \<or> \<not> pol_transition pol old r
             then Inl CC_Rejected else Inr (1 - k))
      else Inl code)"

definition cold_save ::
  "'s page_io \<Rightarrow> cold_policy \<Rightarrow> cold_record \<Rightarrow> bool \<Rightarrow> bool \<Rightarrow> 's \<Rightarrow> cold_code \<times> 's" where
  "cold_save io pol r admitted aliased s =
     (if \<not> admitted \<or> aliased \<or> \<not> cold_shape r \<or> \<not> pol_valid pol r then (CC_Rejected, s)
      else case cold_load io pol s of ((code, loaded), s1) \<Rightarrow>
     (case cold_admit pol r code loaded of
        Inl c \<Rightarrow> (c, s1)
      | Inr target \<Rightarrow>
     (case cold_encode r of
        None \<Rightarrow> (CC_Rejected, s1)
      | Some p \<Rightarrow>
     (case io_write io (8 + target) p s1 of
        (False, s2) \<Rightarrow> (CC_Io, s2)
      | (True, s2) \<Rightarrow>
     (case io_sync io s2 of
        (False, s3) \<Rightarrow> (CC_Io, s3)
      | (True, s3) \<Rightarrow>
     (case io_read io (8 + target) s3 of
        (None, s4) \<Rightarrow> (CC_Io, s4)
      | (Some q, s4) \<Rightarrow>
          if p \<noteq> q then (CC_Verify, s4)
          else
            (case cold_decode q of
               None \<Rightarrow> (CC_Verify, s4)
             | Some d \<Rightarrow> if pol_valid pol d then (CC_Ready, s4) else (CC_Verify, s4))))))))"

section \<open>The codec\<close>

lemma length_cold_encode: "cold_encode r = Some p \<Longrightarrow> length p = 2048"
  by (auto simp: cold_encode_def Let_def split: if_splits)

lemma size_word: "unat (ucast (n :: u16) :: u64) = unat n"
  by transfer simp

lemma cold_decode_encode:
  assumes "cold_shape r" "cold_arrays r" "cold_encode r = Some p"
  shows "cold_decode p = Some r"
proof -
  let ?n = "unat (cold_size r)"
  have n: "?n \<le> 1536" "length (cold_payload r) = 1536" "length (cold_nonce r) = 16"
    "length (cold_binding r) = 32" "zeros (cold_payload r) ?n 1536"
    using assms(1,2) by (simp_all add: cold_shape_def cold_arrays_def)
  define q where "q = put_bytes (put_le (put_bytes (put_bytes ((put_le (put_le (put_le (put_le zero_page 0
      (0x31444347 :: u64) 4) 4 (1 :: u64) 2) 6 (80 :: u64) 2) 8 (cold_sequence r) 8)[16 := cold_phase r])
      24 (cold_nonce r)) 40 (cold_binding r)) 72 (ucast (cold_size r) :: u64) 2) 80
      (take ?n (cold_payload r))"
  have p: "p = seal q 2044" and lq: "length q = 2048"
    using assms by (simp_all add: cold_encode_def Let_def q_def)
  have sz: "get_le q 72 2 = (ucast (cold_size r) :: u64)"
    using n by (simp add: q_def codec_simps)
  have head: "get_le q 0 4 = (0x31444347 :: u64)" "get_le q 4 2 = (1 :: u64)" "get_le q 6 2 = (80 :: u64)"
    "get_le q 8 8 = cold_sequence r"
    using n by (simp_all add: q_def codec_simps)
  have "get_bytes q 24 16 = cold_nonce r" "get_bytes q 40 32 = cold_binding r" "q ! 16 = cold_phase r"
    "get_bytes q 80 ?n = take ?n (cold_payload r)"
    using n by (simp_all add: q_def codec_simps)
  moreover have "zeros q 17 24" "zeros q 74 80" "zeros q (80 + ?n) 2044"
    using n by (auto simp: zeros_iff q_def nth_put_le nth_put_bytes nth_list_update)
  moreover have "put_bytes (replicate 1536 0) 0 (take ?n (cold_payload r)) = cold_payload r"
    using n by (intro nth_equalityI) (auto simp: nth_put_bytes zeros_iff)
  moreover have "unat (ucast (cold_size r) :: u64) = ?n" using n by (simp add: size_word)
  moreover have "(ucast (cold_size r) :: u64) \<le> 1536"
    using n by (simp add: word_le_nat_alt size_word)
  moreover have "zeros p a b = zeros q a b" if "b \<le> 2044" for a b
    using that by (auto simp: zeros_iff p nth_seal)
  moreover have "get_bytes p 80 ?n = get_bytes q 80 ?n"
    using n by (simp add: p codec_simps)
  ultimately show ?thesis
    using lq head sz assms(1)
    by (simp add: cold_decode_def Let_def p codec_simps sealed_seal not_less cold_shape_def)
qed

lemma cold_decode_sealed: "cold_decode p = Some r \<Longrightarrow> sealed p 2044"
  by (auto simp: cold_decode_def split: if_splits)

lemma cold_decode_shape: "cold_decode p = Some r \<Longrightarrow> cold_shape r \<and> cold_arrays r"
  by (auto simp: cold_decode_def Let_def cold_arrays_def split: if_splits)

text \<open>The codec as an instance of the sealed blobs.\<close>

definition cold_page :: "cold_record \<Rightarrow> page" where
  "cold_page r = (case cold_encode r of None \<Rightarrow> zero_page | Some p \<Rightarrow> p)"

interpretation cold_codec: sealed_codec 2044 cold_decode cold_page "\<lambda>r. cold_shape r \<and> cold_arrays r"
proof
  show "cold_decode b = Some m \<Longrightarrow> sealed b 2044" for b m
    by (rule cold_decode_sealed)
  show "length (cold_page m) = 2044 + 4" for m
    using length_cold_encode by (auto simp: cold_page_def split: option.split)
  show "cold_shape m \<and> cold_arrays m \<Longrightarrow> cold_decode (cold_page m) = Some m" for m
    using cold_decode_encode [of m] by (auto simp: cold_page_def cold_encode_def Let_def)
qed

section \<open>The pages as a state machine\<close>

text \<open>What a load answers when every read succeeds, as a function of the pages.\<close>

definition cold_view :: "cold_policy \<Rightarrow> (nat \<Rightarrow> page) \<Rightarrow> cold_code \<times> (nat \<times> cold_record) option" where
  "cold_view pol C =
     (if cold_marker_stop (C 0) \<or> cold_marker_stop (C 1) then (CC_Corrupt, None)
      else if \<not> valid_marker (C 0) \<and> \<not> valid_marker (C 1) then (CC_NotFormatted, None)
      else case (cold_slot pol (C 8), cold_slot pol (C 9)) of
        (Some a, Some b) \<Rightarrow> cold_choose pol a b
      | _ \<Rightarrow> (CC_Corrupt, None))"

lemma cold_view_ready:
  assumes "cold_view pol C = (CC_Ready, Some (k, r))"
  shows "k < 2" "cold_slot pol (C (8 + k)) = Some (Some r)"
    "cold_sequence r = 1 \<Longrightarrow> cold_slot pol (C (9 - k)) = Some None \<and> pol_initial pol r \<or>
       (\<exists>x. cold_slot pol (C (9 - k)) = Some (Some x) \<and> cold_sequence x = 0)"
    "\<exists>o'. cold_slot pol (C (9 - k)) = Some o'"
  using assms
  by (auto simp: cold_view_def cold_choose_def Let_def split: if_splits option.splits prod.splits)

lemma cold_view_empty:
  assumes "cold_view pol C = (CC_Empty, x)"
  shows "cold_slot pol (C 8) = Some None" "cold_slot pol (C 9) = Some None"
  using assms
  by (auto simp: cold_view_def cold_choose_def Let_def split: if_splits option.splits prod.splits)

lemma cold_view_marked:
  assumes "fst (cold_view pol C) \<in> {CC_Empty, CC_Ready}"
  shows "\<not> cold_marker_stop (C 0)" "\<not> cold_marker_stop (C 1)" "valid_marker (C 0) \<or> valid_marker (C 1)"
  using assms by (auto simp: cold_view_def split: if_splits)

lemma cold_slot_shape: "cold_slot pol p = Some (Some r) \<Longrightarrow> cold_shape r"
  by (auto simp: cold_slot_def dest: cold_decode_shape split: if_splits option.splits)

lemma blank_not_cold: "blank p \<Longrightarrow> length p = 2048 \<Longrightarrow> cold_decode p = None"
  by (simp add: cold_decode_def blank_magic)

lemma cold_slot_encode:
  assumes "cold_arrays r" "cold_encode r = Some p" "pol_valid pol r"
  shows "cold_slot pol p = Some (Some r)"
proof -
  have d: "cold_decode p = Some r"
    using assms by (intro cold_decode_encode) (auto simp: cold_encode_def split: if_splits)
  moreover have "\<not> blank p" using d blank_not_cold [of p] length_cold_encode [OF assms(2)] by auto
  ultimately show ?thesis using assms(3) by (simp add: cold_slot_def)
qed

lemma cold_choose_next:
  assumes "cold_sequence r = cold_sequence x + 1" "cold_sequence x \<noteq> -1" "same_binding x r"
    "pol_transition pol x r" "cold_sequence x = 1 \<longrightarrow> pol_initial pol x"
  shows "cold_choose pol (Some x) (Some r) = (CC_Ready, Some (1, r))"
    "cold_choose pol (Some r) (Some x) = (CC_Ready, Some (0, r))"
proof -
  have lt: "cold_sequence x < cold_sequence r" "\<not> cold_sequence r < cold_sequence x"
    "cold_sequence x \<noteq> cold_sequence r" "cold_sequence r \<noteq> cold_sequence x"
    using no_overflow [OF assms(2)] assms(1) by (auto simp: not_less)
  show "cold_choose pol (Some x) (Some r) = (CC_Ready, Some (1, r))"
    "cold_choose pol (Some r) (Some x) = (CC_Ready, Some (0, r))"
    using assms(2-5) unfolding cold_choose_def Let_def
    by (simp_all add: lt lt [unfolded assms(1)] assms(1))
qed

text \<open>An admitted record written over the page that is not selected becomes the selected one.\<close>

lemma cold_write_selects:
  assumes view: "cold_view pol C = (code, loaded)" and admit: "cold_admit pol r code loaded = Inr t"
    and arr: "cold_arrays r" and enc: "cold_encode r = Some p" and ok: "pol_valid pol r"
  shows "cold_view pol (C(8 + t := p)) = (CC_Ready, Some (t, r))" "t < 2"
    "loaded = Some (k, old) \<Longrightarrow> t = 1 - k"
proof -
  let ?D = "C(8 + t := p)"
  have code: "code = CC_Empty \<or> code = CC_Ready"
    using admit by (auto simp: cold_admit_def split: if_splits)
  then have marked: "\<not> cold_marker_stop (C 0)" "\<not> cold_marker_stop (C 1)" "valid_marker (C 0) \<or> valid_marker (C 1)"
    using cold_view_marked [of pol C] view by auto
  have slot: "cold_slot pol p = Some (Some r)" using cold_slot_encode arr enc ok .
  have "cold_view pol ?D = (CC_Ready, Some (t, r)) \<and> t < 2 \<and> (loaded = Some (k, old) \<longrightarrow> t = 1 - k)"
    using code
  proof
    assume E: "code = CC_Empty"
    with admit have t: "t = 0" "cold_sequence r = 1" "pol_initial pol r"
      by (auto simp: cold_admit_def split: if_splits)
    have "loaded = None"
      using view E by (auto simp: cold_view_def cold_choose_def Let_def split: if_splits option.splits)
    with cold_view_empty [of pol C loaded] view E t marked slot show ?thesis
      by (simp add: cold_view_def cold_choose_def)
  next
    assume R: "code = CC_Ready"
    then obtain j x where l: "loaded = Some (j, x)"
      using admit by (auto simp: cold_admit_def split: option.splits)
    with admit R have a: "t = 1 - j" "cold_sequence x \<noteq> -1" "cold_sequence r = cold_sequence x + 1"
      "same_binding x r" "pol_transition pol x r"
      by (auto simp: cold_admit_def split: if_splits)
    note V = cold_view_ready [OF view [unfolded R l]]
    have init: "cold_sequence x = 1 \<longrightarrow> pol_initial pol x"
      using V(3) cold_slot_shape by (fastforce simp: cold_shape_def)
    note N = cold_choose_next [OF a(3,2,4,5) init]
    show ?thesis
      using V(1,2) a(1) marked slot l by (auto simp: less_2_cases_iff cold_view_def N N [unfolded One_nat_def])
  qed
  then show "cold_view pol ?D = (CC_Ready, Some (t, r))" "t < 2" "loaded = Some (k, old) \<Longrightarrow> t = 1 - k"
    by blast+
qed

context page_device
begin

lemma cold_load_spec:
  assumes "cold_load io pol s = (res, s')"
  shows "contents s' = contents s \<and> (fst res = CC_Io \<or> res = cold_view pol (contents s))"
proof -
  obtain q0 s1 where r0: "io_read io 0 s = (q0, s1)" by fastforce
  obtain q1 s2 where r1: "io_read io 1 s1 = (q1, s2)" by fastforce
  obtain a0 s3 where i0: "io_read io 8 s2 = (a0, s3)" by fastforce
  obtain a1 s4 where i1: "io_read io 9 s3 = (a1, s4)" by fastforce
  let ?C = "contents s"
  have C: "contents s1 = ?C" "contents s2 = ?C" "contents s3 = ?C" "contents s4 = ?C"
    using read_frame [OF r0] read_frame [OF r1] read_frame [OF i0] read_frame [OF i1] by simp_all
  have q: "q0 = Some p \<Longrightarrow> p = ?C 0" "q1 = Some p \<Longrightarrow> p = ?C 1" "a0 = Some p \<Longrightarrow> p = ?C 8"
    "a1 = Some p \<Longrightarrow> p = ?C 9" for p
    using r0 r1 i0 i1 C readD by metis+
  show ?thesis
    using assms C
    by (auto simp: cold_load_def cold_view_def r0 r1 r1 [unfolded One_nat_def] i0 i1
        split: option.splits if_splits dest!: q q [unfolded One_nat_def])
qed

text \<open>
  What a save may leave behind: the pages as they were, or the one page that is not selected
  replaced by the new record, which a load then selects.
\<close>

lemma cold_save_spec:
  assumes run: "cold_save io pol r admitted aliased s = (code, s')" and arr: "cold_arrays r"
  shows "(contents s' = contents s \<and> code \<noteq> CC_Ready) \<or>
    (\<exists>t p. cold_admit pol r (fst (cold_view pol (contents s))) (snd (cold_view pol (contents s))) = Inr t \<and>
       cold_encode r = Some p \<and> pol_valid pol r \<and> contents s' = (contents s)(8 + t := p))"
proof (cases "admitted \<and> \<not> aliased \<and> cold_shape r \<and> pol_valid pol r")
  case False
  with run show ?thesis by (auto simp: cold_save_def split: if_splits)
next
  case True
  obtain lc loaded s1 where ld: "cold_load io pol s = ((lc, loaded), s1)" by (metis surj_pair)
  note L = cold_load_spec [OF ld]
  obtain p where p: "cold_encode r = Some p" using True by (simp add: cold_encode_def Let_def)
  note R = run [unfolded cold_save_def ld prod.case p option.case]
  show ?thesis
  proof (cases "cold_admit pol r lc loaded")
    case (Inl c)
    then have "c \<noteq> CC_Ready" by (auto simp: cold_admit_def split: if_splits option.splits)
    with Inl R True L show ?thesis by auto
  next
    case (Inr t)
    then have "lc \<noteq> CC_Io" by (auto simp: cold_admit_def)
    with L have v: "cold_view pol (contents s) = (lc, loaded)" "contents s1 = contents s" by auto
    obtain b s2 where w: "io_write io (8 + t) p s1 = (b, s2)" by fastforce
    obtain d s3 where sy: "io_sync io s2 = (d, s3)" by fastforce
    obtain q s4 where rd: "io_read io (8 + t) s3 = (q, s4)" by fastforce
    have C2: "contents s2 = contents s \<and> \<not> b \<or> contents s2 = (contents s)(8 + t := p)"
      using w v(2) length_cold_encode [OF p] write_page [of p "8 + t" s1 s2] write_torn [of p "8 + t" s1 s2]
      by (cases b) auto
    have C4: "contents s3 = contents s2" "contents s4 = contents s2"
      using sync_frame [OF sy] read_frame [OF rd] by simp_all
    have "contents s' = contents s2 \<and> (\<not> b \<longrightarrow> code \<noteq> CC_Ready)"
      using R True Inr w sy rd C4 by (auto split: bool.splits option.splits if_splits)
    with C2 v Inr p True show ?thesis by auto
  qed
qed

end

section \<open>The properties\<close>

text \<open>C5: A save of a recovery record never damages the selected record: from any pages that a load
  accepts, every save, however it fails, leaves pages that a load accepts with the old selection,
  or with the new record selected in the other page; the answer \<open>Ready\<close> implies the latter.\<close>

theorem cold_save_atomic:
  assumes "page_device io contents" "cold_view pol (contents s) = (lc, loaded)" "cold_arrays r"
    "cold_save io pol r admitted aliased s = (code, s')"
  shows "(cold_view pol (contents s') = (lc, loaded) \<and> code \<noteq> CC_Ready \<and> contents s' = contents s) \<or>
    (\<exists>t. t < 2 \<and> cold_view pol (contents s') = (CC_Ready, Some (t, r)) \<and>
      (\<forall>k old. loaded = Some (k, old) \<longrightarrow> t = 1 - k) \<and>
      (\<forall>i. i \<noteq> 8 + t \<longrightarrow> contents s' i = contents s i))"
proof -
  consider "contents s' = contents s" "code \<noteq> CC_Ready"
    | t p where "cold_admit pol r lc loaded = Inr t" "cold_encode r = Some p" "pol_valid pol r"
      "contents s' = (contents s)(8 + t := p)"
    using page_device.cold_save_spec [OF assms(1,4,3)] assms(2) by auto
  then show ?thesis
  proof cases
    case 1
    with assms(2) show ?thesis by auto
  next
    case 2
    note W = cold_write_selects [OF assms(2) 2(1) assms(3) 2(2,3)]
    have "contents s' i = contents s i" if "i \<noteq> 8 + t" for i using 2(4) that by simp
    with W 2(4) show ?thesis by metis
  qed
qed

definition cold_sample :: cold_record where
  "cold_sample = \<lparr>cold_sequence = 1, cold_phase = 2, cold_nonce = replicate 16 3,
     cold_binding = replicate 32 4, cold_size = 1, cold_payload = (replicate 1536 0)[0 := 9]\<rparr>"

definition any_policy :: cold_policy where
  "any_policy = \<lparr>pol_valid = (\<lambda>_. True), pol_initial = (\<lambda>_. True), pol_transition = (\<lambda>_ _. True)\<rparr>"

lemma cold_sample_ok: "cold_shape cold_sample" "cold_arrays cold_sample"
  by (auto simp: cold_sample_def cold_shape_def cold_arrays_def nonzero_def zeros_iff nth_list_update
      list_ex_iff)

definition cold_blank_map :: "nat \<Rightarrow> page" where
  "cold_blank_map = (\<lambda>n. if n < 2 then nand_marker else replicate 2048 255)"

lemma cold_blank_view: "cold_view any_policy (ram_view cold_blank_map) = (CC_Empty, None)"
proof -
  have "ram_view cold_blank_map = cold_blank_map"
    by (auto simp: fun_eq_iff cold_blank_map_def ram_view_def)
  moreover have "blank (replicate 2048 255)" by (simp add: blank_def list_all_iff)
  ultimately show ?thesis
    by (simp add: cold_view_def cold_marker_stop_def cold_slot_def cold_choose_def cold_blank_map_def
        valid_marker_page)
qed

theorem cold_save_atomic_witness:
  "\<exists>code s'. cold_save ram_io any_policy cold_sample True False cold_blank_map = (code, s') \<and>
     (cold_view any_policy (ram_view s') = (CC_Empty, None) \<and> code \<noteq> CC_Ready \<or>
      (\<exists>t < 2. cold_view any_policy (ram_view s') = (CC_Ready, Some (t, cold_sample))))"
proof -
  obtain code s' where run: "cold_save ram_io any_policy cold_sample True False cold_blank_map = (code, s')"
    by fastforce
  from cold_save_atomic [OF ram.page_device_axioms cold_blank_view cold_sample_ok(2) run] run
  show ?thesis by blast
qed

text \<open>The record codec round-trips: every well-shaped record is decoded from its page, two
  records never share a page, and a page with any single byte changed is refused.\<close>

theorem cold_codec_roundtrip:
  assumes "cold_shape r" "cold_arrays r"
  shows "cold_decode (cold_page r) = Some r \<and>
    (\<forall>i < 2048. \<forall>x. x \<noteq> cold_page r ! i \<longrightarrow> cold_decode ((cold_page r)[i := x]) = None)"
  using cold_codec.dec_enc cold_codec.enc_corrupt_rejected assms by simp

theorem cold_codec_roundtrip_witness:
  "cold_decode (cold_page cold_sample) = Some cold_sample"
  using cold_codec_roundtrip [OF cold_sample_ok] by blast

end
