(* ===== verification/Nand_Log.thy ===== *)
theory Nand_Log
  imports Nand_Store
begin

text \<open>
  The system-log journal on the same NAND map (\<open>main/hal/mosaico/mosaico_nand_log_model.h\<close>): a ring
  of 8192 data pages from page 64 on, at most 8191 of them retained, and two alternating index
  pages 16 and 17. A record that was written but not yet indexed is adopted by the next load.
\<close>

section \<open>Layout\<close>

datatype log_code = LC_Ok | LC_Empty | LC_NotFormatted | LC_Corrupt | LC_Io | LC_Overflow | LC_Verify

record log_state =
  log_latest :: u64
  log_oldest :: u64
  log_copy :: int
  log_adopted :: bool

definition log_state0 :: log_state where
  "log_state0 = \<lparr>log_latest = 0, log_oldest = 0, log_copy = -1, log_adopted = False\<rparr>"

definition index_base :: nat where "index_base = 16"

definition log_address :: "u64 \<Rightarrow> nat" where
  "log_address seq = 64 + unat ((seq - 1) mod 8192)"

definition log_oldest_of :: "u64 \<Rightarrow> u64" where
  "log_oldest_of seq = (if seq > 8191 then seq - 8191 + 1 else 1)"

definition log_count :: "page \<Rightarrow> nat" where
  "log_count p = unat (get_le p 20 2 :: u64)"

definition valid_log_header :: "page \<Rightarrow> bool" where
  "valid_log_header p \<longleftrightarrow>
     get_le p 0 4 = (0x31474c4d :: u64) \<and> get_le p 4 2 = (1 :: u64) \<and> get_le p 6 2 = (60 :: u64) \<and>
     get_le p 8 8 > (0 :: u64) \<and> log_count p > 0 \<and> log_count p \<le> 31 \<and> zeros p 22 24 \<and>
     sealed p 24 \<and> zeros p 28 60"

definition valid_log_page :: "page \<Rightarrow> bool" where
  "valid_log_page p \<longleftrightarrow>
     valid_log_header p \<and> zeros p (60 + log_count p * 64) 2044 \<and> sealed p 2044"

definition clear_range :: "bytes \<Rightarrow> nat \<Rightarrow> nat \<Rightarrow> bytes" where
  "clear_range b from to = put_bytes b from (replicate (to - from) 0)"

definition log_finalize :: "page \<Rightarrow> u64 \<Rightarrow> page option" where
  "log_finalize p seq =
     (let boot = get_le p 16 4 :: u64; count = get_le p 20 2 :: u64 in
      if seq = 0 \<or> count = 0 \<or> count > 31 then None
      else
        let h = seal (put_le (put_le (put_le (put_le (put_le (put_le (clear_range p 0 60)
                  0 (0x31474c4d :: u64) 4) 4 (1 :: u64) 2) 6 (60 :: u64) 2) 8 seq 8) 16 boot 4)
                  20 count 2) 24
        in Some (seal (clear_range h (60 + unat count * 64) 2044) 2044))"

definition index_page :: "u64 \<Rightarrow> page" where
  "index_page latest = seal
     (put_le (put_le (put_le (put_le (put_le zero_page 0 (0x31494c4d :: u64) 4) 4 (1 :: u64) 2)
        6 (24 :: u64) 2) 8 latest 8) 16 (log_oldest_of latest) 8)
     2044"

definition valid_index :: "page \<Rightarrow> bool" where
  "valid_index p \<longleftrightarrow>
     (let seq = get_le p 8 8 :: u64 in
      get_le p 0 4 = (0x31494c4d :: u64) \<and> get_le p 4 2 = (1 :: u64) \<and> get_le p 6 2 = (24 :: u64) \<and>
      seq \<noteq> 0 \<and> get_le p 16 8 = log_oldest_of seq \<and> zeros p 24 2044 \<and> sealed p 2044)"

section \<open>Operations\<close>

text \<open>\<open>publish\<close>: the index copy that does not hold the current value is overwritten.\<close>

definition log_publish ::
  "'s page_io \<Rightarrow> log_state \<Rightarrow> u64 \<Rightarrow> 's \<Rightarrow> (log_code \<times> log_state) \<times> 's" where
  "log_publish io st seq s =
     (let copy = (if log_copy st = 0 then 1 else 0); p = index_page seq in
      case io_write io (index_base + copy) p s of
        (False, s1) \<Rightarrow> ((LC_Io, st), s1)
      | (True, s1) \<Rightarrow>
     (case io_sync io s1 of
        (False, s2) \<Rightarrow> ((LC_Io, st), s2)
      | (True, s2) \<Rightarrow>
     (case io_read io (index_base + copy) s2 of
        (None, s3) \<Rightarrow> ((LC_Io, st), s3)
      | (Some q, s3) \<Rightarrow>
          if p \<noteq> q then ((LC_Verify, st), s3)
          else ((LC_Ok, st\<lparr>log_latest := seq, log_oldest := log_oldest_of seq,
                  log_copy := int copy\<rparr>), s3))))"

text \<open>
  The checks of \<open>load\<close> on the pages it has read, in the order of the code. \<open>log_indices\<close> is the
  part up to the choice of the index copy; \<open>log_tail\<close> validates the indexed page; \<open>log_spare\<close>
  looks at the page after it and adopts a complete successor.
\<close>

definition log_indices :: "page \<Rightarrow> page \<Rightarrow> log_code + log_state" where
  "log_indices i0 i1 =
     (let foreign = (\<lambda>p. \<not> valid_index p \<and> \<not> blank p \<and>
            (get_le p 0 4 \<noteq> (0x31494c4d :: u64) \<or> get_le p 4 2 \<noteq> (1 :: u64)));
          damaged = (\<lambda>p. \<not> valid_index p \<and> \<not> blank p);
          q0 = (if valid_index i0 then get_le i0 8 8 else 0 :: u64);
          q1 = (if valid_index i1 then get_le i1 8 8 else 0 :: u64) in
      if foreign i0 \<or> foreign i1 then Inl LC_Corrupt
      else if q0 = 0 \<and> q1 = 0 \<and> (damaged i0 \<or> damaged i1) then Inl LC_Corrupt
      else if q0 \<noteq> 0 \<and> q1 \<noteq> 0 \<and> (q0 = q1 \<or> (if q0 > q1 then q0 - q1 else q1 - q0) \<noteq> 1)
      then Inl LC_Corrupt
      else if q0 \<noteq> 0 \<or> q1 \<noteq> 0
      then
        let latest = (if q1 > q0 then q1 else q0) in
        Inr (log_state0\<lparr>log_copy := (if q1 > q0 then 1 else 0), log_latest := latest,
               log_oldest := log_oldest_of latest\<rparr>)
      else Inr log_state0)"

definition log_tail :: "log_state \<Rightarrow> page \<Rightarrow> bool" where
  "log_tail st p \<longleftrightarrow> valid_log_page p \<and> get_le p 8 8 = log_latest st"

definition log_spare :: "log_state \<Rightarrow> page \<Rightarrow> log_code + log_state" where
  "log_spare st p =
     (let nxt = log_latest st + 1; found = get_le p 8 8 :: u64 in
      if blank p then Inr st
      else if \<not> valid_log_header p then Inl LC_Corrupt
      else if log_address found \<noteq> log_address nxt then Inl LC_Corrupt
      else if found = nxt
      then Inr (if valid_log_page p
                then st\<lparr>log_latest := nxt, log_oldest := log_oldest_of nxt, log_adopted := True\<rparr>
                else st)
      else if log_latest st = 0 \<or> found \<ge> log_oldest st then Inl LC_Corrupt
      else Inr st)"

definition log_finish :: "log_state \<Rightarrow> log_code \<times> log_state option" where
  "log_finish st = (if log_latest st \<noteq> 0 then LC_Ok else LC_Empty, Some st)"

definition log_load_spare ::
  "'s page_io \<Rightarrow> log_state \<Rightarrow> 's \<Rightarrow> (log_code \<times> log_state option) \<times> 's" where
  "log_load_spare io st s =
     (if log_latest st = -1 then (log_finish st, s)
      else case io_read io (log_address (log_latest st + 1)) s of
        (None, s1) \<Rightarrow> ((LC_Io, None), s1)
      | (Some p, s1) \<Rightarrow>
          (case log_spare st p of
             Inl c \<Rightarrow> ((c, None), s1)
           | Inr st' \<Rightarrow> (log_finish st', s1)))"

definition log_load_tail ::
  "'s page_io \<Rightarrow> log_state \<Rightarrow> 's \<Rightarrow> (log_code \<times> log_state option) \<times> 's" where
  "log_load_tail io st s =
     (if log_latest st = 0 then log_load_spare io st s
      else case io_read io (log_address (log_latest st)) s of
        (None, s1) \<Rightarrow> ((LC_Io, None), s1)
      | (Some p, s1) \<Rightarrow>
          if \<not> log_tail st p then ((LC_Corrupt, None), s1) else log_load_spare io st s1)"

text \<open>
  \<open>load\<close>: the second index page is only read when the first is not a foreign page, as in the
  loop of the code.
\<close>

definition log_load :: "'s page_io \<Rightarrow> 's \<Rightarrow> (log_code \<times> log_state option) \<times> 's" where
  "log_load io s =
     (case io_read io 0 s of
        (None, s1) \<Rightarrow> ((LC_Io, None), s1)
      | (Some m0, s1) \<Rightarrow>
     (case io_read io 1 s1 of
        (None, s2) \<Rightarrow> ((LC_Io, None), s2)
      | (Some m1, s2) \<Rightarrow>
          if \<not> valid_marker m0 \<and> \<not> valid_marker m1
          then ((if blank m0 \<and> blank m1 then LC_NotFormatted else LC_Corrupt, None), s2)
          else
     (case io_read io index_base s2 of
        (None, s3) \<Rightarrow> ((LC_Io, None), s3)
      | (Some i0, s3) \<Rightarrow>
          if \<not> valid_index i0 \<and> \<not> blank i0 \<and>
             (get_le i0 0 4 \<noteq> (0x31494c4d :: u64) \<or> get_le i0 4 2 \<noteq> (1 :: u64))
          then ((LC_Corrupt, None), s3)
          else
     (case io_read io (index_base + 1) s3 of
        (None, s4) \<Rightarrow> ((LC_Io, None), s4)
      | (Some i1, s4) \<Rightarrow>
     (case log_indices i0 i1 of
        Inl c \<Rightarrow> ((c, None), s4)
      | Inr st \<Rightarrow> log_load_tail io st s4)))))"

definition log_read :: "'s page_io \<Rightarrow> u64 \<Rightarrow> 's \<Rightarrow> (log_code \<times> page option) \<times> 's" where
  "log_read io seq s =
     (if seq = 0 then ((LC_Corrupt, None), s)
      else case io_read io (log_address seq) s of
        (None, s1) \<Rightarrow> ((LC_Io, None), s1)
      | (Some p, s1) \<Rightarrow>
          if \<not> valid_log_page p \<or> get_le p 8 8 \<noteq> seq then ((LC_Corrupt, None), s1)
          else ((LC_Ok, Some p), s1))"

text \<open>The page that an append is about to overwrite must be expendable.\<close>

definition log_expendable :: "log_state \<Rightarrow> page \<Rightarrow> bool" where
  "log_expendable st p \<longleftrightarrow>
     (let nxt = log_latest st + 1; prior = get_le p 8 8 :: u64 in
      blank p \<or>
      (valid_log_header p \<and> log_address prior = log_address nxt \<and>
       (if prior = nxt then \<not> valid_log_page p
        else \<not> (prior > log_latest st \<or> prior \<ge> log_oldest st))))"

definition log_append_page ::
  "'s page_io \<Rightarrow> page \<Rightarrow> log_state \<Rightarrow> 's \<Rightarrow> (log_code \<times> log_state) \<times> 's" where
  "log_append_page io input st s =
     (let nxt = log_latest st + 1 in
      case log_finalize input nxt of
        None \<Rightarrow> ((LC_Corrupt, st), s)
      | Some page \<Rightarrow>
     (case io_read io (log_address nxt) s of
        (None, s1) \<Rightarrow> ((LC_Io, st), s1)
      | (Some p, s1) \<Rightarrow>
          if \<not> log_expendable st p then ((LC_Corrupt, st), s1)
          else
     (case io_write io (log_address nxt) page s1 of
        (False, s2) \<Rightarrow> ((LC_Io, st), s2)
      | (True, s2) \<Rightarrow>
     (case io_sync io s2 of
        (False, s3) \<Rightarrow> ((LC_Io, st), s3)
      | (True, s3) \<Rightarrow>
     (case io_read io (log_address nxt) s3 of
        (None, s4) \<Rightarrow> ((LC_Io, st), s4)
      | (Some q, s4) \<Rightarrow>
          if q \<noteq> page then ((LC_Verify, st), s4)
          else log_publish io st nxt s4)))))"

definition log_append :: "'s page_io \<Rightarrow> page \<Rightarrow> log_state \<Rightarrow> 's \<Rightarrow> (log_code \<times> log_state) \<times> 's" where
  "log_append io input st s =
     (if log_latest st = -1 then ((LC_Overflow, st), s)
      else if log_adopted st
      then
        (case log_publish io st (log_latest st) s of
           ((c, st1), s1) \<Rightarrow>
             if c \<noteq> LC_Ok then ((c, st1), s1)
             else log_append_page io input (st1\<lparr>log_adopted := False\<rparr>) s1)
      else log_append_page io input st s)"

end
