(* ===== verification/Nand_Log_Safety.thy ===== *)
theory Nand_Log_Safety
  imports Nand_Log Nand_Store_Safety
begin

text \<open>
  What the journal promises. \<open>log_inv\<close> describes the pages exactly: \<open>n\<close> records are indexed, \<open>m\<close>
  are written (\<open>m = n + 1\<close> when the last one still waits for adoption), the last 8192 of them lie
  in the ring, each at its address. Loads compute this state and appends move between such
  states, whatever operation fails.
\<close>

section \<open>Pages\<close>

lemma blank_not_index: "blank p \<Longrightarrow> length p = 2048 \<Longrightarrow> \<not> valid_index p"
  by (simp add: valid_index_def blank_magic Let_def)

lemma blank_not_header: "blank p \<Longrightarrow> length p = 2048 \<Longrightarrow> \<not> valid_log_header p"
  by (simp add: valid_log_header_def blank_magic)

lemma length_index_page [simp]: "length (index_page q) = 2048"
  by (simp add: index_page_def)

lemma index_page_spec:
  assumes "q \<noteq> 0"
  shows "valid_index (index_page q)" "get_le (index_page q) 8 8 = q"
proof -
  show "get_le (index_page q) 8 8 = q"
    by (simp add: index_page_def codec_simps)
  moreover have "zeros (index_page q) 24 2044"
    by (auto simp: zeros_iff index_page_def codec_simps)
  ultimately show "valid_index (index_page q)"
    using assms by (simp add: valid_index_def index_page_def codec_simps sealed_seal Let_def)
qed

lemma length_clear_range [simp]: "length (clear_range b i j) = length b"
  by (simp add: clear_range_def)

lemma nth_clear_range:
  "j \<le> length b \<Longrightarrow> clear_range b i j ! k = (if i \<le> k \<and> k < j then 0 else b ! k)"
  by (auto simp: clear_range_def nth_put_bytes)

lemma sealed_cong:
  assumes "sealed b n" "\<And>i. i < n + 4 \<Longrightarrow> b' ! i = b ! i" "n + 4 \<le> length b" "n + 4 \<le> length b'"
  shows "sealed b' n"
proof -
  have "take n b' = take n b"
    using assms by (intro nth_equalityI) auto
  moreover have "get_le b' n 4 = (get_le b n 4 :: u32)"
    using assms(2) by (intro get_le_cong) auto
  ultimately show ?thesis using assms(1) by (simp add: sealed_def)
qed

lemma sealed_seal_le: "n + 4 \<le> length b \<Longrightarrow> sealed (seal b n) n"
  by (simp add: sealed_def seal_def codec_simps)

text \<open>A finalised page is valid, carries its sequence number and keeps the record bytes.\<close>

lemma log_finalize_spec:
  assumes "log_finalize p seq = Some q" "length p = 2048"
  shows "length q = 2048" "valid_log_page q" "get_le q 8 8 = seq" "log_count q = log_count p"
    "\<forall>i. 60 \<le> i \<and> i < 60 + log_count p * 64 \<longrightarrow> q ! i = p ! i"
proof -
  let ?c = "get_le p 20 2 :: u64"
  define h0 where "h0 = put_le (put_le (put_le (put_le (put_le (put_le (clear_range p 0 60)
      0 (0x31474c4d :: u64) 4) 4 (1 :: u64) 2) 6 (60 :: u64) 2) 8 seq 8) 16 (get_le p 16 4 :: u64) 4)
      20 ?c 2"
  define h where "h = seal h0 24"
  define z where "z = clear_range h (60 + unat ?c * 64) 2044"
  have c: "seq \<noteq> 0" "?c \<noteq> 0" "?c \<le> 31" and q: "q = seal z 2044"
    using assms(1) by (auto simp: log_finalize_def Let_def h0_def h_def z_def split: if_splits)
  have cn: "unat ?c \<noteq> 0" "unat ?c \<le> 31"
    using c by (auto simp: unat_eq_0 word_le_nat_alt)
  have len: "length h0 = 2048" "length h = 2048" "length z = 2048"
    using assms(2) by (simp_all add: h0_def h_def z_def)
  have tb: "take_bit 16 ?c = ?c"
    by (rule bit_word_eqI) (auto simp: bit_take_bit_iff bit_get_le)
  have hz: "i < 60 + unat ?c * 64 \<Longrightarrow> i < 2044 \<Longrightarrow> q ! i = h ! i" for i
    using len cn by (simp add: q z_def codec_simps nth_clear_range)
  have qh: "i < 60 \<Longrightarrow> q ! i = h ! i" for i
    using hz [of i] cn by simp
  have h24: "i < 24 \<Longrightarrow> h ! i = h0 ! i" for i
    by (simp add: h_def codec_simps)
  have get: "get_le q a k = (get_le h0 a k :: u64)" if "a + k \<le> 24" for a k
    using that by (intro get_le_cong) (simp add: qh h24)
  show "length q = 2048" using len by (simp add: q)
  show seq: "get_le q 8 8 = seq"
    using assms(2) by (simp add: get h0_def codec_simps)
  have cq: "get_le q 20 2 = ?c"
    using assms(2) tb by (simp add: get h0_def codec_simps)
  then show cnt: "log_count q = log_count p" by (simp add: log_count_def)
  have s24: "sealed q 24"
    by (rule sealed_cong [of h]) (use len qh in \<open>auto simp: h_def q intro!: sealed_seal_le\<close>)
  have z28: "h ! i = 0" if "22 \<le> i \<and> i < 24 \<or> 28 \<le> i \<and> i < 60" for i
    using that assms(2) by (auto simp: h_def h0_def seal_def nth_put_le nth_clear_range)
  have "zeros q 22 24" "zeros q 28 60"
    using qh z28 by (auto simp: zeros_iff)
  moreover have "get_le q 0 4 = (0x31474c4d :: u64)" "get_le q 4 2 = (1 :: u64)" "get_le q 6 2 = (60 :: u64)"
    using assms(2) by (simp_all add: get h0_def codec_simps)
  ultimately have hd: "valid_log_header q"
    using s24 seq c cq cn by (simp add: valid_log_header_def log_count_def word_gt_0)
  have "zeros q (60 + log_count q * 64) 2044"
    using len by (auto simp: zeros_iff q z_def codec_simps nth_clear_range cq [unfolded q z_def] log_count_def)
  moreover have "sealed q 2044" using len by (simp add: q sealed_seal)
  ultimately show "valid_log_page q" using hd by (simp add: valid_log_page_def)
  show "\<forall>i. 60 \<le> i \<and> i < 60 + log_count p * 64 \<longrightarrow> q ! i = p ! i"
  proof clarify
    fix i assume i: "60 \<le> i" "i < 60 + log_count p * 64"
    then have "i < 2044" using cn by (simp add: log_count_def)
    then have "q ! i = h ! i" using i hz by (simp add: log_count_def)
    also have "\<dots> = p ! i"
      using i assms(2) by (simp add: h_def h0_def seal_def nth_put_le nth_clear_range)
    finally show "q ! i = p ! i" .
  qed
qed

section \<open>Sequence numbers and addresses\<close>

definition ring_at :: "nat \<Rightarrow> nat" where
  "ring_at k = 64 + (k - 1) mod 8192"

lemma unat_small: "k < 2 ^ 64 \<Longrightarrow> unat (of_nat k :: u64) = k"
  by (simp add: unat_of_nat)

lemma address_of_nat:
  assumes "1 \<le> k" "k < 2 ^ 64"
  shows "log_address (of_nat k) = ring_at k"
proof -
  have "(of_nat k - 1 :: u64) = of_nat (k - 1)" using assms(1) by (simp add: of_nat_diff)
  then have "unat (of_nat k - 1 :: u64) = k - 1" using assms by (simp only: unat_small)
  then show ?thesis
    by (simp add: log_address_def ring_at_def unat_mod)
qed

lemma ring_at_inj:
  assumes "1 \<le> j" "j < k" "k < j + 8192"
  shows "ring_at j \<noteq> ring_at k"
proof
  assume "ring_at j = ring_at k"
  then have "(k - 1) mod 8192 = (j - 1) mod 8192" by (simp add: ring_at_def)
  then have "8192 dvd (k - 1) - (j - 1)" using assms by (simp add: mod_eq_dvd_iff_nat)
  moreover have "0 < (k - 1) - (j - 1)" "(k - 1) - (j - 1) < 8192" using assms by auto
  ultimately show False by (simp add: dvd_imp_le nat_dvd_not_less)
qed

lemma ring_at_bounds: "64 \<le> ring_at k" "ring_at k < 8256"
  by (simp_all add: ring_at_def)

lemma ring_at_period: "8192 < k \<Longrightarrow> ring_at (k - 8192) = ring_at k"
  using le_mod_geq [of 8192 "k - 1"] by (simp add: ring_at_def)

lemma oldest_of_nat:
  assumes "k < 2 ^ 64"
  shows "log_oldest_of (of_nat k) = of_nat (if 8191 < k then k - 8190 else 1)"
proof -
  have "(8191 < (of_nat k :: u64)) = (8191 < k)"
    using assms by (simp add: word_less_nat_alt unat_small)
  moreover have "8191 < k \<Longrightarrow> (of_nat k - 8191 + 1 :: u64) = of_nat (k - 8190)"
    by (simp add: of_nat_diff)
  ultimately show ?thesis by (simp add: log_oldest_of_def)
qed

lemma of_nat_less: "a < 2 ^ 64 \<Longrightarrow> b < 2 ^ 64 \<Longrightarrow> ((of_nat a :: u64) < of_nat b) = (a < b)"
  by (simp add: word_less_nat_alt unat_small)

lemma of_nat_eq: "a < 2 ^ 64 \<Longrightarrow> b < 2 ^ 64 \<Longrightarrow> ((of_nat a :: u64) = of_nat b) = (a = b)"
  by (metis unat_small)

lemma of_nat_zero: "a < 2 ^ 64 \<Longrightarrow> ((of_nat a :: u64) = 0) = (a = 0)"
  using of_nat_eq [of a 0] by simp

section \<open>The invariant\<close>

definition index_state :: "(nat \<Rightarrow> page) \<Rightarrow> nat \<Rightarrow> int \<Rightarrow> bool" where
  "index_state C n c \<longleftrightarrow>
     (if n = 0 then c = -1 \<and> blank (C 16) \<and> blank (C 17)
      else (c = 0 \<or> c = 1) \<and> C (16 + nat c) = index_page (of_nat n) \<and>
        (blank (C (17 - nat c)) \<or> 1 < n \<and> C (17 - nat c) = index_page (of_nat (n - 1))))"

definition ring_state :: "(nat \<Rightarrow> page) \<Rightarrow> nat \<Rightarrow> bool" where
  "ring_state C m \<longleftrightarrow>
     (\<forall>k. 1 \<le> k \<and> k \<le> m \<and> m < k + 8192 \<longrightarrow>
        valid_log_page (C (ring_at k)) \<and> get_le (C (ring_at k)) 8 8 = (of_nat k :: u64)) \<and>
     (\<forall>k. m < k \<and> k \<le> 8192 \<longrightarrow> blank (C (ring_at k)))"

definition log_inv :: "(nat \<Rightarrow> page) \<Rightarrow> nat \<Rightarrow> nat \<Rightarrow> int \<Rightarrow> bool" where
  "log_inv C n m c \<longleftrightarrow> formatted C \<and> (m = n \<or> m = n + 1) \<and> m < 2 ^ 64 \<and> index_state C n c \<and>
     ring_state C m \<and> (\<forall>i. length (C i) = 2048)"

definition log_view :: "nat \<Rightarrow> nat \<Rightarrow> int \<Rightarrow> log_state" where
  "log_view n m c = (if m = 0 then log_state0
     else \<lparr>log_latest = of_nat m, log_oldest = log_oldest_of (of_nat m), log_copy = c,
            log_adopted = (m = n + 1)\<rparr>)"

lemma log_view_latest: "log_latest (log_view n m c) = of_nat m"
  by (simp add: log_view_def log_state0_def)

lemma log_view_adopted: "m = n \<or> m = n + 1 \<Longrightarrow> log_adopted (log_view n m c) = (m = n + 1)"
  by (auto simp: log_view_def log_state0_def)

lemma log_view_copy: "m = n \<Longrightarrow> n = 0 \<longrightarrow> c = -1 \<Longrightarrow> log_copy (log_view n m c) = c"
  by (auto simp: log_view_def log_state0_def)

text \<open>Writing the next record at its address, and publishing the index, keep the shape.\<close>

lemma ring_stateD:
  assumes "ring_state C m" "1 \<le> k" "k \<le> m" "m < k + 8192"
  shows "valid_log_page (C (ring_at k))" "get_le (C (ring_at k)) 8 8 = (of_nat k :: u64)"
  using assms unfolding ring_state_def by blast+

lemma ring_state_blank: "ring_state C m \<Longrightarrow> m < k \<Longrightarrow> k \<le> 8192 \<Longrightarrow> blank (C (ring_at k))"
  unfolding ring_state_def by blast

lemma ring_state_write:
  assumes "ring_state C m" "valid_log_page p" "get_le p 8 8 = (of_nat (m + 1) :: u64)"
  shows "ring_state (C(ring_at (m + 1) := p)) (m + 1)"
  unfolding ring_state_def
proof (intro conjI allI impI)
  fix k assume k: "1 \<le> k \<and> k \<le> m + 1 \<and> m + 1 < k + 8192"
  have "valid_log_page ((C(ring_at (m + 1) := p)) (ring_at k)) \<and>
    get_le ((C(ring_at (m + 1) := p)) (ring_at k)) 8 8 = (of_nat k :: u64)"
  proof (cases "k = m + 1")
    case True
    then show ?thesis using assms by (simp only: fun_upd_same)
  next
    case False
    then have "k \<le> m" "m < k + 8192" "ring_at k \<noteq> ring_at (m + 1)"
      using k ring_at_inj [of k "m + 1"] by auto
    with k ring_stateD [OF assms(1), of k] show ?thesis by simp
  qed
  then show "valid_log_page ((C(ring_at (m + 1) := p)) (ring_at k))"
    "get_le ((C(ring_at (m + 1) := p)) (ring_at k)) 8 8 = (of_nat k :: u64)" by blast+
next
  fix k assume k: "m + 1 < k \<and> k \<le> 8192"
  then have "ring_at k \<noteq> ring_at (m + 1)" using ring_at_inj [of "m + 1" k] by auto
  with k ring_state_blank [OF assms(1), of k] show "blank ((C(ring_at (m + 1) := p)) (ring_at k))"
    by simp
qed

lemma ring_state_index: "i = 16 \<or> i = 17 \<Longrightarrow> ring_state (C(i := p)) m = ring_state C m"
proof -
  assume i: "i = 16 \<or> i = 17"
  have "ring_at k \<noteq> i" for k using i ring_at_bounds(1) [of k] by auto
  then show ?thesis by (simp add: ring_state_def)
qed

lemma index_state_write:
  assumes "index_state C n c" "i = (if c = 0 then 1 else 0)"
  shows "index_state (C(16 + i := index_page (of_nat (n + 1)))) (n + 1) (int i)"
  using assms by (auto simp: index_state_def split: if_splits)

lemma index_state_ring: "64 \<le> i \<Longrightarrow> index_state (C(i := p)) n c = index_state C n c"
  by (auto simp: index_state_def)

lemma log_indices_newer:
  assumes "valid_index p" "get_le p 8 8 = (a :: u64)" "valid_index q" "get_le q 8 8 = (b :: u64)"
    "a \<noteq> 0" "b \<noteq> 0" "b < a" "a - b = 1"
  shows "log_indices p q = Inr (log_state0\<lparr>log_copy := 0, log_latest := a, log_oldest := log_oldest_of a\<rparr>)"
    and "log_indices q p = Inr (log_state0\<lparr>log_copy := 1, log_latest := a, log_oldest := log_oldest_of a\<rparr>)"
  using assms by (auto simp: log_indices_def Let_def)

lemma log_indices_single:
  assumes "valid_index p" "get_le p 8 8 = (a :: u64)" "a \<noteq> 0" "blank q" "\<not> valid_index q"
  shows "log_indices p q = Inr (log_state0\<lparr>log_copy := 0, log_latest := a, log_oldest := log_oldest_of a\<rparr>)"
    and "log_indices q p = Inr (log_state0\<lparr>log_copy := 1, log_latest := a, log_oldest := log_oldest_of a\<rparr>)"
  using assms by (auto simp: log_indices_def Let_def word_gt_0)

lemma log_indices_view:
  assumes "index_state C n c" "n < 2 ^ 64" "\<forall>i. length (C i) = 2048"
  shows "log_indices (C 16) (C 17) = Inr (log_view n n c)"
proof (cases "n = 0")
  case True
  with assms have "blank (C 16)" "blank (C 17)" by (auto simp: index_state_def)
  with assms(3) True show ?thesis
    by (simp add: log_indices_def blank_not_index log_view_def)
next
  case False
  have nz: "(of_nat n :: u64) \<noteq> 0" using False assms(2) by (simp add: of_nat_zero)
  note new = index_page_spec [OF nz]
  have prev: "(of_nat (n - 1) :: u64) \<noteq> 0" "(of_nat (n - 1) :: u64) < of_nat n"
    "(of_nat (n - 1) :: u64) = of_nat n - 1" if "1 < n"
    using that assms(2) of_nat_zero [of "n - 1"] of_nat_less [of "n - 1" n] by (auto simp: of_nat_diff)
  have idx: "C (16 + nat c) = index_page (of_nat n)" "c = 0 \<or> c = 1"
    using False assms(1) by (auto simp: index_state_def)
  consider "blank (C (17 - nat c))" | "1 < n" "C (17 - nat c) = index_page (of_nat (n - 1))"
    using False assms(1) by (auto simp: index_state_def)
  then show ?thesis
  proof cases
    case 1
    with blank_not_index assms(3) have inv: "\<not> valid_index (C (17 - nat c))" by blast
    from idx(2) show ?thesis
    proof
      assume "c = 0"
      with idx(1) False log_indices_single(1) [OF new nz 1 inv] show ?thesis
        by (simp add: log_view_def log_state0_def)
    next
      assume "c = 1"
      with idx(1) False log_indices_single(2) [OF new nz 1 inv] show ?thesis
        by (simp add: log_view_def log_state0_def)
    qed
  next
    case 2
    note old = index_page_spec [OF prev(1) [OF 2(1)]]
    have lt: "(of_nat (n - 1) :: u64) < of_nat n" and one: "(of_nat n :: u64) - of_nat (n - 1) = 1"
      using prev [OF 2(1)] by simp_all
    from idx(2) show ?thesis
    proof
      assume "c = 0"
      with 2 idx(1) False log_indices_newer(1) [OF new old nz prev(1) [OF 2(1)] lt one]
      show ?thesis by (simp add: log_view_def log_state0_def)
    next
      assume "c = 1"
      with 2 idx(1) False log_indices_newer(2) [OF new old nz prev(1) [OF 2(1)] lt one]
      show ?thesis by (simp add: log_view_def log_state0_def)
    qed
  qed
qed

lemma log_tail_view:
  assumes "ring_state C m" "m = n \<or> m = n + 1" "0 < n" "n < 2 ^ 64"
  shows "log_tail (log_view n n c) (C (log_address (of_nat n)))"
  using ring_stateD [OF assms(1), of n] assms by (auto simp: log_tail_def log_view_latest address_of_nat)

lemma log_spare_old:
  "\<lbrakk>\<not> blank p; valid_log_header p; get_le p 8 8 = f; log_address f = log_address (log_latest st + 1);
    f \<noteq> log_latest st + 1; log_latest st \<noteq> 0; f < log_oldest st\<rbrakk> \<Longrightarrow> log_spare st p = Inr st"
  by (simp add: log_spare_def Let_def)

lemma log_spare_view:
  assumes "ring_state C m" "m = n \<or> m = n + 1" "n + 1 < 2 ^ 64" "n = 0 \<longrightarrow> c = -1"
    "\<forall>i. length (C i) = 2048"
  shows "log_spare (log_view n n c) (C (log_address (of_nat n + 1))) = Inr (log_view n m c)"
proof -
  let ?p = "C (ring_at (n + 1))"
  have nx: "(of_nat n + 1 :: u64) = of_nat (n + 1)" by simp
  have a: "log_address (of_nat n + 1) = ring_at (n + 1)"
    using address_of_nat [of "n + 1"] assms(3) by (simp add: nx)
  consider "m = n + 1" | "m = n" "n < 8192" | "m = n" "8192 \<le> n" using assms(2) by linarith
  then show ?thesis
  proof cases
    case 1
    then have v: "valid_log_page ?p" "get_le ?p 8 8 = (of_nat (n + 1) :: u64)"
      using ring_stateD [OF assms(1), of "n + 1"] by simp_all
    then have "valid_log_header ?p" by (simp add: valid_log_page_def)
    moreover from this have "\<not> blank ?p" using blank_not_header assms(5) by blast
    ultimately show ?thesis
      using 1 v assms(4) unfolding a
      by (cases "n = 0") (simp_all add: log_spare_def log_view_def log_state0_def Let_def add.commute)
  next
    case 2
    then have "blank ?p" using ring_state_blank [OF assms(1), of "n + 1"] by simp
    with 2 show ?thesis by (simp add: log_spare_def a)
  next
    case 3
    let ?k = "n + 1 - 8192"
    have r: "ring_at ?k = ring_at (n + 1)" using 3 ring_at_period [of "n + 1"] by simp
    have v: "valid_log_page ?p" "get_le ?p 8 8 = (of_nat ?k :: u64)"
      using ring_stateD [OF assms(1), of ?k] 3 unfolding r by simp_all
    then have "valid_log_header ?p" by (simp add: valid_log_page_def)
    moreover from this have "\<not> blank ?p" using blank_not_header assms(5) by blast
    moreover have "log_address (of_nat ?k) = ring_at (n + 1)"
      using address_of_nat [of ?k] assms(3) 3 r by simp
    moreover have "(of_nat ?k :: u64) \<noteq> of_nat (n + 1)"
      using of_nat_eq [of ?k "n + 1"] assms(3) 3 by auto
    moreover have "log_oldest (log_view n n c) = of_nat (n - 8190)"
      using 3 assms(3) oldest_of_nat [of n] by (simp add: log_view_def)
    moreover have "(of_nat ?k :: u64) < of_nat (n - 8190)"
      using of_nat_less [of ?k "n - 8190"] assms(3) 3 by simp
    moreover have "(of_nat n :: u64) \<noteq> 0" using of_nat_zero [of n] assms(3) 3 by simp
    ultimately have "log_spare (log_view n n c) ?p = Inr (log_view n n c)"
      using v(2) by (intro log_spare_old [of _ "of_nat ?k"]) (simp_all only: log_view_latest a [unfolded nx] nx not_False_eq_True)
    with 3(1) a show ?thesis by (simp only:)
  qed
qed

section \<open>Operations on the pages\<close>

lemma log_invD:
  assumes "log_inv C n m c"
  shows "formatted C" "m = n \<or> m = n + 1" "m < 2 ^ 64" "n < 2 ^ 64" "index_state C n c" "ring_state C m"
    "\<forall>i. length (C i) = 2048" "n = 0 \<longrightarrow> c = -1"
  using assms by (auto simp: log_inv_def index_state_def)

lemma minus_one_of_nat: "n < 2 ^ 64 \<Longrightarrow> ((of_nat n :: u64) = -1) = (n = 2 ^ 64 - 1)"
proof -
  assume n: "n < 2 ^ 64"
  have "(-1 :: u64) = of_nat (2 ^ 64 - 1)" by simp
  with of_nat_eq [OF n, of "2 ^ 64 - 1"] show ?thesis by (simp only:) simp
qed

context page_device
begin

lemma log_load_spec:
  assumes inv: "log_inv (contents s) n m c" and run: "log_load io s = ((code, out), s')"
  shows "contents s' = contents s \<and> (code = LC_Io \<and> out = None \<or>
    code = (if m = 0 then LC_Empty else LC_Ok) \<and> out = Some (log_view n m c))"
proof -
  let ?C = "contents s"
  note D = log_invD [OF inv]
  have idx: "log_indices (?C 16) (?C 17) = Inr (log_view n n c)"
    using log_indices_view D by blast
  have fm: "valid_marker (?C 0) \<or> valid_marker (?C 1)" using D(1) by (simp add: formatted_def)
  have sane: "valid_index (?C 16) \<or> blank (?C 16) \<or>
      get_le (?C 16) 0 4 = (0x31494c4d :: u64) \<and> get_le (?C 16) 4 2 = (1 :: u64)"
    using idx by (auto simp: log_indices_def Let_def split: if_splits)
  have tail: "n \<noteq> 0 \<Longrightarrow> log_tail (log_view n n c) (?C (log_address (of_nat n)))"
    using log_tail_view [OF D(6,2)] D(4) by blast
  have fin: "log_finish (log_view n m c) = (if m = 0 then LC_Empty else LC_Ok, Some (log_view n m c))"
    using of_nat_zero [OF D(3)] by (simp add: log_finish_def log_view_latest)
  have spare: "contents t' = contents t \<and> (code = LC_Io \<and> out = None \<or>
      (code, out) = log_finish (log_view n m c))"
    if "log_load_spare io (log_view n n c) t = ((code, out), t')" "contents t = ?C" for t t'
  proof (cases "n = 2 ^ 64 - 1")
    case True
    then have "m = n" using D(2,3) by auto
    with that True minus_one_of_nat [OF D(4)] show ?thesis
      by (simp add: log_load_spare_def log_view_latest)
  next
    case False
    then have "(of_nat n :: u64) \<noteq> -1" "n + 1 < 2 ^ 64" using minus_one_of_nat [OF D(4)] D(4) by auto
    moreover from this(2) have "log_spare (log_view n n c) (?C (log_address (of_nat n + 1))) =
        Inr (log_view n m c)"
      using log_spare_view D by blast
    ultimately show ?thesis
      using that by (auto simp: log_load_spare_def log_view_latest dest!: dev_dest
          split: prod.splits option.splits)
  qed
  have tl: "contents t' = contents t \<and> (code = LC_Io \<and> out = None \<or>
      (code, out) = log_finish (log_view n m c))"
    if "log_load_tail io (log_view n n c) t = ((code, out), t')" "contents t = ?C" for t t'
  proof (cases "n = 0")
    case True
    with that spare [of t t'] show ?thesis
      by (simp add: log_load_tail_def log_view_latest)
  next
    case False
    with that tail spare show ?thesis
      using of_nat_zero [OF D(4)]
      by (auto simp: log_load_tail_def log_view_latest dest!: dev_dest
          split: prod.splits option.splits if_splits)
  qed
  show ?thesis
  proof -
    obtain q0 s1 where r0: "io_read io 0 s = (q0, s1)" by fastforce
    obtain q1 s2 where r1: "io_read io 1 s1 = (q1, s2)" by fastforce
    obtain j0 s3 where i0: "io_read io 16 s2 = (j0, s3)" by fastforce
    obtain j1 s4 where i1: "io_read io 17 s3 = (j1, s4)" by fastforce
    have C: "contents s1 = ?C" "contents s2 = ?C" "contents s3 = ?C" "contents s4 = ?C"
      using read_frame [OF r0] read_frame [OF r1] read_frame [OF i0] read_frame [OF i1] by simp_all
    have q: "q0 = None \<or> q0 = Some (?C 0)"
      using r0 by (cases q0) (auto dest: readD)
    have q': "q1 = None \<or> q1 = Some (?C 1)"
      using r1 C by (cases q1) (auto dest: readD)
    have j: "j0 = None \<or> j0 = Some (?C 16)"
      using i0 C by (cases j0) (auto dest: readD)
    have j': "j1 = None \<or> j1 = Some (?C 17)"
      using i1 C by (cases j1) (auto dest: readD)
    have ne: "\<not> (\<not> valid_index (?C 16) \<and> \<not> blank (?C 16) \<and>
        (get_le (?C 16) 0 4 \<noteq> (0x31494c4d :: u64) \<or> get_le (?C 16) 4 2 \<noteq> (1 :: u64)))"
      "\<not> (\<not> valid_marker (?C 0) \<and> \<not> valid_marker (?C 1))"
      using sane fm by blast+
    note defs = log_load_def r0 r1 r1 [unfolded One_nat_def] i0 i1 index_base_def ne ne [unfolded One_nat_def] idx
    show ?thesis
    proof (cases "q0 = None \<or> q1 = None \<or> j0 = None \<or> j1 = None")
      case True
      then consider "q0 = None" | "q0 = Some (?C 0)" "q1 = None"
        | "q0 = Some (?C 0)" "q1 = Some (?C 1)" "j0 = None"
        | "q0 = Some (?C 0)" "q1 = Some (?C 1)" "j0 = Some (?C 16)" "j1 = None"
        using q q' j j' by blast
      then have "fst (log_load io s) = (LC_Io, None) \<and> snd (log_load io s) \<in> {s1, s2, s3, s4}"
        by cases (use sane in \<open>simp_all add: defs\<close>)
      with run C show ?thesis by auto
    next
      case False
      with q q' j j' have "q0 = Some (?C 0)" "q1 = Some (?C 1)" "j0 = Some (?C 16)" "j1 = Some (?C 17)"
        by blast+
      then have "log_load io s = log_load_tail io (log_view n n c) s4"
        using sane by (auto simp: defs)
      with run tl [of s4 s'] C fin show ?thesis by simp
    qed
  qed
qed

end

text \<open>
  Where an append may end: only index pages and the spare page changed, the shape kept, and
  either no record was added or exactly the finalised input under the next number; an answer
  \<open>Ok\<close> means written and indexed.
\<close>

definition append_outcome ::
  "(nat \<Rightarrow> page) \<Rightarrow> page \<Rightarrow> nat \<Rightarrow> bool \<Rightarrow> (nat \<Rightarrow> page) \<Rightarrow> nat \<Rightarrow> nat \<Rightarrow> int \<Rightarrow> bool" where
  "append_outcome C input m success D n' m' c' \<longleftrightarrow>
     log_inv D n' m' c' \<and> (\<forall>i. i \<noteq> 16 \<and> i \<noteq> 17 \<and> i \<noteq> ring_at (m + 1) \<longrightarrow> D i = C i) \<and>
     (m' = m \<and> \<not> success \<and> D (ring_at (m + 1)) = C (ring_at (m + 1)) \<or>
      m' = m + 1 \<and> log_finalize input (of_nat (m + 1)) = Some (D (ring_at (m + 1)))) \<and>
     (success \<longrightarrow> n' = m + 1)"

lemma formatted_keep: "2 \<le> i \<Longrightarrow> formatted (C(i := p)) = formatted C"
  by (simp add: formatted_def)

lemma log_inv_publish:
  assumes "log_inv C n m c" "m = n + 1" "i = (if c = 0 then 1 else 0)"
  shows "log_inv (C(16 + i := index_page (of_nat m))) m m (int i)"
proof -
  note D = log_invD [OF assms(1)]
  have "ring_state (C(16 + i := index_page (of_nat m))) m"
    using D(6) ring_state_index [of "16 + i" C] assms(3) by simp
  moreover have "index_state (C(16 + i := index_page (of_nat m))) m (int i)"
    using index_state_write [OF D(5) assms(3)] assms(2) by simp
  ultimately show ?thesis
    using D(1,3,7) by (simp add: log_inv_def formatted_keep)
qed

lemma log_inv_write:
  assumes "log_inv C n n c" "n + 1 < 2 ^ 64" "log_finalize input (of_nat (n + 1)) = Some p" "length input = 2048"
  shows "log_inv (C(ring_at (n + 1) := p)) n (n + 1) c"
proof -
  note D = log_invD [OF assms(1)]
  note F = log_finalize_spec [OF assms(3,4)]
  show ?thesis
    using D ring_state_write [OF D(6) F(2,3)] F(1) ring_at_bounds(1) [of "n + 1"] assms(2)
      index_state_ring [of "ring_at (n + 1)" C p n c]
    by (simp add: log_inv_def formatted_keep)
qed

context page_device
begin

lemma log_publish_spec:
  assumes run: "log_publish io st q s = ((code, st'), s')" and i: "i = (if log_copy st = 0 then 1 else 0)"
  shows "code = LC_Ok \<and> contents s' = (contents s)(16 + i := index_page q) \<and>
      st' = st\<lparr>log_latest := q, log_oldest := log_oldest_of q, log_copy := int i\<rparr> \<or>
    code \<noteq> LC_Ok \<and> st' = st \<and>
      (contents s' = contents s \<or> contents s' = (contents s)(16 + i := index_page q))"
proof -
  obtain b s1 where w: "io_write io (16 + i) (index_page q) s = (b, s1)" by fastforce
  have "(b \<longrightarrow> contents s1 = (contents s)(16 + i := index_page q)) \<and>
      (contents s1 = contents s \<or> contents s1 = (contents s)(16 + i := index_page q))"
    using w write_page [of "index_page q"] write_torn [of "index_page q"] by (cases b) auto
  moreover obtain d s2 where sy: "io_sync io s1 = (d, s2)" by fastforce
  moreover obtain r s3 where rd: "io_read io (16 + i) s2 = (r, s3)" by fastforce
  moreover have "contents s2 = contents s1" "contents s3 = contents s1"
    using sync_frame [OF sy] read_frame [OF rd] by simp_all
  moreover have "log_publish io st q s =
      (if \<not> b then ((LC_Io, st), s1) else if \<not> d then ((LC_Io, st), s2)
       else case r of None \<Rightarrow> ((LC_Io, st), s3)
         | Some x \<Rightarrow> if index_page q \<noteq> x then ((LC_Verify, st), s3)
             else ((LC_Ok, st\<lparr>log_latest := q, log_oldest := log_oldest_of q, log_copy := int i\<rparr>), s3))"
    by (simp add: log_publish_def index_base_def Let_def i [symmetric] w sy rd)
  ultimately show ?thesis
    using run by (cases b; cases d; cases r) (auto split: if_splits)
qed

lemma log_view_publish:
  "(log_view n n c)\<lparr>log_latest := of_nat (n + 1), log_oldest := log_oldest_of (of_nat (n + 1)),
     log_copy := k\<rparr> = log_view (n + 1) (n + 1) k"
  by (simp add: log_view_def log_state0_def)

lemma log_append_page_spec:
  assumes inv: "log_inv (contents s) n n c" and room: "n + 1 < 2 ^ 64" and len: "length input = 2048"
    and run: "log_append_page io input (log_view n n c) s = ((code, st'), s')"
  shows "\<exists>n' m' c'. append_outcome (contents s) input n (code = LC_Ok) (contents s') n' m' c' \<and>
    (code = LC_Ok \<longrightarrow> st' = log_view n' m' c')"
proof -
  let ?C = "contents s"
  define q where "q = (of_nat (n + 1) :: u64)"
  define i where "i = (if c = 0 then 1 else 0 :: nat)"
  note D = log_invD [OF inv]
  have nx: "log_latest (log_view n n c) + 1 = q" by (simp add: log_view_latest q_def)
  have a: "log_address q = ring_at (n + 1)" using address_of_nat [of "n + 1"] room by (simp add: q_def)
  have same: "append_outcome ?C input n False ?C n n c"
    using inv by (simp add: append_outcome_def)
  have cp: "log_copy (log_view n n c) = c"
    using D(8) by (auto simp: log_view_def log_state0_def)
  note defs = log_append_page_def Let_def nx a
  show ?thesis
  proof (cases "log_finalize input q")
    case None
    with run same show ?thesis by (auto simp: defs)
  next
    case (Some p)
    let ?D = "?C(ring_at (n + 1) := p)"
    have lp: "length p = 2048" using log_finalize_spec(1) [OF Some len] .
    have invD: "log_inv ?D n (n + 1) c" using log_inv_write [OF inv room] Some len by (simp add: q_def)
    have outD: "append_outcome ?C input n False ?D n (n + 1) c"
      using invD Some by (simp add: append_outcome_def q_def)
    let ?E = "?D(16 + i := index_page q)"
    have invE: "log_inv ?E (n + 1) (n + 1) (int i)"
      using log_inv_publish [OF invD refl i_def] by (simp add: q_def)
    have outE: "append_outcome ?C input n b ?E (n + 1) (n + 1) (int i)" for b
      using invE Some ring_at_bounds(1) [of "n + 1"] by (auto simp: append_outcome_def q_def i_def)
    obtain p0 s1 where rd: "io_read io (ring_at (n + 1)) s = (p0, s1)" by fastforce
    obtain b s2 where w: "io_write io (ring_at (n + 1)) p s1 = (b, s2)" by fastforce
    obtain d s3 where sy: "io_sync io s2 = (d, s3)" by fastforce
    obtain p1 s4 where rv: "io_read io (ring_at (n + 1)) s3 = (p1, s4)" by fastforce
    obtain code' st'' s5 where pb: "log_publish io (log_view n n c) q s4 = ((code', st''), s5)"
      by (metis surj_pair)
    have C1: "contents s1 = ?C" by (rule read_frame [OF rd])
    have C2: "contents s2 = ?C \<or> contents s2 = ?D" "b \<Longrightarrow> contents s2 = ?D"
      using w C1 lp write_page [of p] write_torn [of p] by (cases b; fastforce)+
    have C4: "contents s3 = contents s2" "contents s4 = contents s2"
      using sync_frame [OF sy] read_frame [OF rv] by simp_all
    note P = log_publish_spec [OF pb, unfolded cp, OF i_def]
    note R = run [unfolded defs Some option.case rd prod.case]
    show ?thesis
    proof (cases "p0 \<noteq> None \<and> log_expendable (log_view n n c) (the p0) \<and> b \<and> d \<and> p1 = Some p")
      case True
      then have "code = code'" "st' = st''" "s' = s5"
        using R w sy rv pb by (auto split: option.splits)
      with P True C2 C4 outD outE log_view_publish [where n = n and k = "int i"] show ?thesis
        unfolding q_def [symmetric] by (fastforce simp: q_def)
    next
      case False
      then have "code \<noteq> LC_Ok \<and> contents s' \<in> {?C, ?D}"
        using R w sy rv C1 C2 C4
        by (auto split: option.splits bool.splits if_splits)
      with same outD show ?thesis by fastforce
    qed
  qed
qed

lemma log_append_spec:
  assumes inv: "log_inv (contents s) n m c" and room: "m + 1 < 2 ^ 64" and len: "length input = 2048"
    and run: "log_append io input (log_view n m c) s = ((code, st'), s')"
  shows "\<exists>n' m' c'. append_outcome (contents s) input m (code = LC_Ok) (contents s') n' m' c' \<and>
    (code = LC_Ok \<longrightarrow> st' = log_view n' m' c')"
proof -
  note D = log_invD [OF inv]
  have nl: "log_latest (log_view n m c) \<noteq> -1"
    using minus_one_of_nat [OF D(3)] room by (simp add: log_view_latest)
  show ?thesis
  proof (cases "m = n")
    case True
    with run nl D(2) have "log_append_page io input (log_view n n c) s = ((code, st'), s')"
      by (simp add: log_append_def log_view_adopted)
    with log_append_page_spec inv room len True show ?thesis by blast
  next
    case False
    then have m: "m = n + 1" using D(2) by blast
    define i where "i = (if c = 0 then 1 else 0 :: nat)"
    have cp: "log_copy (log_view n m c) = c" using m by (simp add: log_view_def)
    obtain code1 st1 s1 where pb: "log_publish io (log_view n m c) (of_nat m) s = ((code1, st1), s1)"
      by (metis surj_pair)
    note P = log_publish_spec [OF pb, unfolded cp, OF i_def]
    let ?D = "(contents s)(16 + i := index_page (of_nat m))"
    have invD: "log_inv ?D m m (int i)" using log_inv_publish [OF inv m i_def] .
    have nd: "16 + i \<noteq> ring_at (m + 1)" "16 + i = 16 \<or> 16 + i = 17"
      using ring_at_bounds(1) [of "m + 1"] by (auto simp: i_def)
    have outD: "append_outcome (contents s) input m False ?D m m (int i)"
      using invD nd by (auto simp: append_outcome_def)
    have same: "append_outcome (contents s) input m False (contents s) n m c"
      using inv by (simp add: append_outcome_def)
    have app: "log_append io input (log_view n m c) s =
        (if code1 \<noteq> LC_Ok then ((code1, st1), s1)
         else log_append_page io input (st1\<lparr>log_adopted := False\<rparr>) s1)"
      using nl m D(2) pb by (simp add: log_append_def log_view_adopted log_view_latest)
    show ?thesis
    proof (cases "code1 = LC_Ok")
      case False
      with run app have "code = code1" "s' = s1" by auto
      with P False same outD show ?thesis by fastforce
    next
      case True
      then have C1: "contents s1 = ?D" and "st1\<lparr>log_adopted := False\<rparr> = log_view m m (int i)"
        using P m by (auto simp: log_view_def)
      with run app True have "log_append_page io input (log_view m m (int i)) s1 = ((code, st'), s')"
        by simp
      from log_append_page_spec [OF _ room len this] invD C1 obtain n' m' c' where
        out: "append_outcome ?D input m (code = LC_Ok) (contents s') n' m' c'"
        "code = LC_Ok \<longrightarrow> st' = log_view n' m' c'" by auto
      then have "append_outcome (contents s) input m (code = LC_Ok) (contents s') n' m' c'"
        using nd by (auto simp: append_outcome_def)
      with out(2) show ?thesis by blast
    qed
  qed
qed

lemma log_read_spec:
  assumes "log_inv (contents s) n m c" "log_read io (of_nat k) s = ((code, out), s')"
    "1 \<le> k" "k \<le> m" "m < k + 8192"
  shows "contents s' = contents s \<and>
    (code = LC_Io \<and> out = None \<or> code = LC_Ok \<and> out = Some (contents s (ring_at k)))"
proof -
  note D = log_invD [OF assms(1)]
  have k: "log_address (of_nat k) = ring_at k" "(of_nat k :: u64) \<noteq> 0"
    using assms(3,4) D(3) address_of_nat [of k] of_nat_zero [of k] by auto
  with ring_stateD [OF D(6) assms(3,4,5)] assms(2) show ?thesis
    by (auto simp: log_read_def dest!: dev_dest split: prod.splits option.splits if_splits)
qed

end

section \<open>The properties\<close>

definition fresh_log :: "nat \<Rightarrow> page" where
  "fresh_log = (\<lambda>n. if n < 2 then nand_marker else replicate 2048 255)"

lemma fresh_log_view: "ram_view fresh_log = fresh_log"
  by (auto simp: fun_eq_iff fresh_log_def ram_view_def)

lemma fresh_log_inv: "log_inv (ram_view fresh_log) 0 0 (-1)"
proof -
  have b: "blank (fresh_log i)" if "2 \<le> i" for i
    using that by (simp add: fresh_log_def blank_def list_all_iff)
  have "blank (fresh_log (ring_at k))" for k
    using b ring_at_bounds(1) [of k] by simp
  moreover have "formatted fresh_log"
    by (simp add: formatted_def fresh_log_def valid_marker_page)
  moreover have "length (fresh_log i) = 2048" for i
    by (simp add: fresh_log_def)
  ultimately show ?thesis
    unfolding fresh_log_view using b by (simp add: log_inv_def index_state_def ring_state_def)
qed

definition sample_page :: page where
  "sample_page = (replicate 2048 0)[20 := 1]"

lemma sample_finalize: "log_finalize sample_page 1 \<noteq> None"
proof -
  have "get_le sample_page 20 2 = (1 :: u64)" by (simp add: sample_page_def numeral_eq_Suc)
  then show ?thesis by (simp add: log_finalize_def Let_def)
qed

lemma length_sample [simp]: "length sample_page = 2048"
  by (simp add: sample_page_def)

text \<open>One record written and not yet indexed: the state that the next load adopts.\<close>

definition one_record :: "nat \<Rightarrow> page" where
  "one_record = fresh_log(64 := the (log_finalize sample_page 1))"

lemma one_record_view: "ram_view one_record = one_record"
  and one_record_inv: "log_inv (ram_view one_record) 0 1 (-1)"
proof -
  obtain p where p: "log_finalize sample_page 1 = Some p" using sample_finalize by blast
  have "length p = 2048" using log_finalize_spec(1) [OF p] by simp
  then show v: "ram_view one_record = one_record"
    by (auto simp: fun_eq_iff one_record_def fresh_log_def p ram_view_def)
  have "log_inv (fresh_log(ring_at (0 + 1) := p)) 0 (0 + 1) (-1)"
    using log_inv_write [of fresh_log 0 "-1" sample_page p] fresh_log_inv p by (simp add: fresh_log_view)
  then show "log_inv (ram_view one_record) 0 1 (-1)"
    unfolding v by (simp add: one_record_def p ring_at_def)
qed



text \<open>C8: A load of the journal after any history recovers exactly the written records: unless the
  device fails it returns the latest written number (adopting a record whose index write was
  lost), and each of the last 8191 records reads back with its own page.\<close>

theorem log_recovery:
  assumes "page_device io contents" "log_inv (contents s) n m c" "log_load io s = ((code, out), s1)"
    "log_read io (of_nat k) s1 = ((code2, out2), s2)" "1 \<le> k" "k \<le> m" "m < k + 8191"
  shows "contents s2 = contents s \<and>
    (code = LC_Io \<or> code = LC_Ok \<and> out = Some (log_view n m c) \<and>
       log_oldest_of (of_nat m) \<le> of_nat k) \<and>
    (code2 = LC_Io \<or> code2 = LC_Ok \<and> out2 = Some (contents s (ring_at k)))"
proof -
  note L = page_device.log_load_spec [OF assms(1,2,3)]
  then have "log_inv (contents s1) n m c" using assms(2) by simp
  from page_device.log_read_spec [OF assms(1) this assms(4)] assms(5-7)
  have R: "contents s2 = contents s1 \<and> (code2 = LC_Io \<or> code2 = LC_Ok \<and> out2 = Some (contents s1 (ring_at k)))"
    by auto
  have "m < 2 ^ 64" using assms(2) by (rule log_invD)
  moreover define o' where "o' = (if 8191 < m then m - 8190 else 1)"
  ultimately have "log_oldest_of (of_nat m) = (of_nat o' :: u64)" "o' \<le> k" "k < 2 ^ 64" "o' < 2 ^ 64"
    using assms(5-7) oldest_of_nat [of m] by auto
  then have "log_oldest_of (of_nat m) \<le> (of_nat k :: u64)"
    using of_nat_less [of k o'] by (simp add: not_less [symmetric])
  with L R assms(5,6) show ?thesis by auto
qed

theorem log_recovery_witness:
  "\<exists>code out s1 code2 out2 s2. log_load ram_io one_record = ((code, out), s1) \<and>
     log_read ram_io (of_nat 1) s1 = ((code2, out2), s2) \<and>
     (code = LC_Io \<or> code = LC_Ok \<and> log_oldest_of (of_nat 1) \<le> (of_nat 1 :: u64)) \<and>
     (code2 = LC_Io \<or> code2 = LC_Ok \<and> out2 = Some (one_record 64))"
proof -
  obtain code out s1 where ld: "log_load ram_io one_record = ((code, out), s1)" by (metis surj_pair)
  obtain code2 out2 s2 where rd: "log_read ram_io (of_nat 1) s1 = ((code2, out2), s2)" by (metis surj_pair)
  have "ram_view one_record (ring_at 1) = one_record 64"
    by (simp add: one_record_view) (simp add: ring_at_def)
  with log_recovery [OF ram.page_device_axioms one_record_inv ld rd] ld rd show ?thesis
    by auto
qed

end
