(* ===== verification/Nand_Adapter.thy ===== *)
theory Nand_Adapter
  imports Cold_Store Nand_Log_Safety
begin

text \<open>
  The glue between the stores and the flash driver in \<open>main/hal/mosaico/mosaico_nand_store.cpp\<close>:
  the \<open>IO\<close> wrapper that remembers the last error, the whitelist adapter \<open>ColdIO\<close> of the recovery
  records, the error translation, and the boot-time DMA reservation
  (\<open>mosaico_nand_dma_reserve_model.h\<close>). The driver (\<open>spi_nand_flash\<close>) is third-party: the record
  \<open>flash_driver\<close> holds its three page operations, the locale \<open>nand_driver\<close> their contract.
\<close>

section \<open>The driver and its wrapper\<close>

type_synonym esp_err = int

definition ESP_OK :: esp_err where "ESP_OK = 0"
definition ESP_FAIL :: esp_err where "ESP_FAIL = -1"
definition ESP_ERR_INVALID_ARG :: esp_err where "ESP_ERR_INVALID_ARG = 0x102"
definition ESP_ERR_INVALID_STATE :: esp_err where "ESP_ERR_INVALID_STATE = 0x103"
definition ESP_ERR_NOT_FOUND :: esp_err where "ESP_ERR_NOT_FOUND = 0x105"
definition ESP_ERR_INVALID_CRC :: esp_err where "ESP_ERR_INVALID_CRC = 0x109"

lemmas esp_codes = ESP_OK_def ESP_FAIL_def ESP_ERR_INVALID_ARG_def ESP_ERR_INVALID_STATE_def
  ESP_ERR_NOT_FOUND_def ESP_ERR_INVALID_CRC_def

record 's flash_driver =
  drv_read :: "nat \<Rightarrow> 's \<Rightarrow> (esp_err \<times> page) \<times> 's"
  drv_write :: "nat \<Rightarrow> page \<Rightarrow> 's \<Rightarrow> esp_err \<times> 's"
  drv_sync :: "'s \<Rightarrow> esp_err \<times> 's"

text \<open>\<open>struct IO\<close>: the state is the device with \<open>lastError\<close>.\<close>

definition flash_io :: "'s flash_driver \<Rightarrow> ('s \<times> esp_err) page_io" where
  "flash_io drv = \<lparr>
     io_read = (\<lambda>n (s, _). case drv_read drv n s of ((e, p), s1) \<Rightarrow>
       (if e = ESP_OK then Some p else None, (s1, e))),
     io_write = (\<lambda>n p (s, _). case drv_write drv n p s of (e, s1) \<Rightarrow> (e = ESP_OK, (s1, e))),
     io_sync = (\<lambda>(s, _). case drv_sync drv s of (e, s1) \<Rightarrow> (e = ESP_OK, (s1, e)))\<rparr>"

datatype cold_area = Journal | Proof | Other_Area

definition cold_page_base :: "cold_area \<Rightarrow> nat option" where
  "cold_page_base area = (case area of Journal \<Rightarrow> Some 8 | Proof \<Rightarrow> Some 12 | Other_Area \<Rightarrow> None)"

text \<open>\<open>struct ColdIO\<close>: pages 8 and 9 of the store are the selected pair, pages 0 and 1 are
  readable, everything else is denied with an invalid-argument error.\<close>

definition cold_io :: "('s \<times> esp_err) page_io \<Rightarrow> nat \<Rightarrow> ('s \<times> esp_err) page_io" where
  "cold_io io base = \<lparr>
     io_read = (\<lambda>n st.
       if n < 2 then io_read io n st
       else if n \<ge> 8 \<and> n < 10 then io_read io (base + n - 8) st
       else (None, (fst st, ESP_ERR_INVALID_ARG))),
     io_write = (\<lambda>n p st.
       if n \<ge> 8 \<and> n < 10 then io_write io (base + n - 8) p st
       else (False, (fst st, ESP_ERR_INVALID_ARG))),
     io_sync = io_sync io\<rparr>"

definition same_cold_record :: "cold_record \<Rightarrow> cold_record \<Rightarrow> bool" where
  "same_cold_record a b \<longleftrightarrow> cold_sequence a = cold_sequence b \<and> cold_phase a = cold_phase b \<and>
     cold_nonce a = cold_nonce b \<and> cold_binding a = cold_binding b \<and> cold_size a = cold_size b \<and>
     cold_payload a = cold_payload b"

definition record_error :: "nand_code \<Rightarrow> esp_err \<Rightarrow> esp_err" where
  "record_error code io_error =
     (case code of
        NC_Ok \<Rightarrow> ESP_OK
      | NC_NotFormatted \<Rightarrow> ESP_ERR_NOT_FOUND
      | NC_Empty \<Rightarrow> ESP_ERR_NOT_FOUND
      | NC_Io \<Rightarrow> if io_error = ESP_OK then ESP_FAIL else io_error
      | NC_GenerationExhausted \<Rightarrow> ESP_ERR_INVALID_STATE
      | _ \<Rightarrow> ESP_ERR_INVALID_CRC)"

text \<open>\<open>checkCold\<close> and \<open>checkLog\<close> of the transaction.\<close>

definition cold_error :: "cold_code \<Rightarrow> esp_err \<Rightarrow> esp_err" where
  "cold_error code io_error =
     (case code of
        CC_Ready \<Rightarrow> ESP_OK
      | CC_Empty \<Rightarrow> ESP_OK
      | CC_NotFormatted \<Rightarrow> ESP_ERR_NOT_FOUND
      | CC_Io \<Rightarrow> if io_error = ESP_OK then ESP_FAIL else io_error
      | CC_Rejected \<Rightarrow> ESP_ERR_INVALID_STATE
      | _ \<Rightarrow> ESP_ERR_INVALID_CRC)"

definition log_error :: "log_code \<Rightarrow> esp_err \<Rightarrow> esp_err" where
  "log_error code io_error =
     (case code of
        LC_Ok \<Rightarrow> ESP_OK
      | LC_Empty \<Rightarrow> ESP_OK
      | LC_NotFormatted \<Rightarrow> ESP_ERR_NOT_FOUND
      | LC_Io \<Rightarrow> if io_error = ESP_OK then ESP_FAIL else io_error
      | LC_Overflow \<Rightarrow> ESP_ERR_INVALID_STATE
      | _ \<Rightarrow> ESP_ERR_INVALID_CRC)"

lemma record_error_ok: "record_error c e = ESP_OK \<longleftrightarrow> c = NC_Ok"
  by (cases c) (auto simp: record_error_def esp_codes)

lemma cold_error_ok: "cold_error c e = ESP_OK \<longleftrightarrow> c = CC_Ready \<or> c = CC_Empty"
  by (cases c) (auto simp: cold_error_def esp_codes)

lemma log_error_ok: "log_error c e = ESP_OK \<longleftrightarrow> c = LC_Ok \<or> c = LC_Empty"
  by (cases c) (auto simp: log_error_def esp_codes)

lemma same_cold_record_eq: "same_cold_record a b \<longleftrightarrow> a = b"
  by (cases a; cases b) (auto simp: same_cold_record_def)

section \<open>The contracts\<close>

locale nand_driver =
  fixes drv :: "'s flash_driver"
    and pages :: "'s \<Rightarrow> nat \<Rightarrow> page"
  assumes drv_read_page: "drv_read drv n s = ((ESP_OK, p), s') \<Longrightarrow> p = pages s n"
    and drv_read_frame: "drv_read drv n s = (r, s') \<Longrightarrow> pages s' = pages s"
    and drv_write_page: "length p = page_size \<Longrightarrow> drv_write drv n p s = (ESP_OK, s') \<Longrightarrow>
      pages s' = (pages s)(n := p)"
    and drv_write_torn: "length p = page_size \<Longrightarrow> drv_write drv n p s = (e, s') \<Longrightarrow> e \<noteq> ESP_OK \<Longrightarrow>
      pages s' = pages s \<or> pages s' = (pages s)(n := p)"
    and drv_sync_frame: "drv_sync drv s = (e, s') \<Longrightarrow> pages s' = pages s"
    and drv_page_length: "length (pages s n) = page_size"

text \<open>The wrapped driver is a page device for the payload store and the journal.\<close>

sublocale nand_driver \<subseteq> hot: page_device "flash_io drv" "\<lambda>st. pages (fst st)"
proof unfold_locales
  fix n p s s' q b
  show "io_read (flash_io drv) n s = (Some p, s') \<Longrightarrow> p = pages (fst s) n"
    by (auto simp: flash_io_def split: prod.splits if_splits dest: drv_read_page)
  show "io_read (flash_io drv) n s = (q, s') \<Longrightarrow> pages (fst s') = pages (fst s)"
    by (auto simp: flash_io_def split: prod.splits dest: drv_read_frame)
  show "length p = page_size \<Longrightarrow> io_write (flash_io drv) n p s = (True, s') \<Longrightarrow>
      pages (fst s') = (pages (fst s))(n := p)"
    by (auto simp: flash_io_def split: prod.splits dest: drv_write_page [unfolded size_simps])
  show "length p = page_size \<Longrightarrow> io_write (flash_io drv) n p s = (False, s') \<Longrightarrow>
      pages (fst s') = pages (fst s) \<or> pages (fst s') = (pages (fst s))(n := p)"
    by (auto simp: flash_io_def split: prod.splits dest: drv_write_torn [unfolded size_simps])
  show "io_sync (flash_io drv) s = (b, s') \<Longrightarrow> pages (fst s') = pages (fst s)"
    by (auto simp: flash_io_def split: prod.splits dest: drv_sync_frame)
  show "length (pages (fst s) n) = page_size"
    by (rule drv_page_length)
qed

text \<open>What the recovery store sees of the map through the whitelist.\<close>

definition cold_window :: "(nat \<Rightarrow> page) \<Rightarrow> nat \<Rightarrow> nat \<Rightarrow> page" where
  "cold_window C base n =
     (if n < 2 then C n else if n \<ge> 8 \<and> n < 10 then C (base + n - 8) else zero_page)"

locale nand_record_pair = nand_driver drv pages
  for drv :: "'s flash_driver" and pages :: "'s \<Rightarrow> nat \<Rightarrow> page" +
  fixes area :: cold_area and base :: nat
  assumes base_area: "cold_page_base area = Some base"
begin

lemma base_ge: "8 \<le> base"
  using base_area by (auto simp: cold_page_base_def split: cold_area.splits)

lemma window_write:
  "n \<ge> 8 \<Longrightarrow> n < 10 \<Longrightarrow> cold_window (C(base + n - 8 := p)) base = (cold_window C base)(n := p)"
  using base_ge by (auto simp: cold_window_def fun_eq_iff)

end

sublocale nand_record_pair \<subseteq> cold: page_device "cold_io (flash_io drv) base"
  "\<lambda>st. cold_window (pages (fst st)) base"
proof unfold_locales
  fix n p s s' q b
  show "io_read (cold_io (flash_io drv) base) n s = (Some p, s') \<Longrightarrow> p = cold_window (pages (fst s)) base n"
    by (auto simp: cold_io_def cold_window_def split: if_splits dest: hot.read_page)
  show "io_read (cold_io (flash_io drv) base) n s = (q, s') \<Longrightarrow>
      cold_window (pages (fst s')) base = cold_window (pages (fst s)) base"
    by (auto simp: cold_io_def split: if_splits dest!: hot.read_frame)
  show "length p = page_size \<Longrightarrow> io_write (cold_io (flash_io drv) base) n p s = (True, s') \<Longrightarrow>
      cold_window (pages (fst s')) base = (cold_window (pages (fst s)) base)(n := p)"
    by (auto simp: cold_io_def split: if_splits dest!: hot.write_page [unfolded size_simps] intro!: window_write)
  show "length p = page_size \<Longrightarrow> io_write (cold_io (flash_io drv) base) n p s = (False, s') \<Longrightarrow>
      cold_window (pages (fst s')) base = cold_window (pages (fst s)) base \<or>
      cold_window (pages (fst s')) base = (cold_window (pages (fst s)) base)(n := p)"
    using hot.write_torn [of p "base + n - 8" s s'] window_write [of n "pages (fst s)" p]
    by (auto simp: cold_io_def split: if_splits)
  show "io_sync (cold_io (flash_io drv) base) s = (b, s') \<Longrightarrow>
      cold_window (pages (fst s')) base = cold_window (pages (fst s)) base"
    by (auto simp: cold_io_def dest!: hot.sync_frame)
  show "length (cold_window (pages (fst s)) base n) = page_size"
    using drv_page_length by (simp add: cold_window_def)
qed

section \<open>A driver on plain memory\<close>

definition ram_driver :: "(nat \<Rightarrow> page) flash_driver" where
  "ram_driver = \<lparr>drv_read = (\<lambda>n m. ((ESP_OK, ram_view m n), m)), drv_write = (\<lambda>n p m. (ESP_OK, m(n := p))),
     drv_sync = (\<lambda>m. (ESP_OK, m))\<rparr>"

interpretation ram_map: nand_driver ram_driver ram_view
  by unfold_locales (auto simp: ram_driver_def ram_view_def esp_codes)

interpretation journal: nand_record_pair ram_driver ram_view Journal 8
  by unfold_locales (simp add: cold_page_base_def)

interpretation proof_pair: nand_record_pair ram_driver ram_view Proof 12
  by unfold_locales (simp add: cold_page_base_def)

section \<open>Isolation of the recovery pair\<close>

text \<open>Any quantity that the operations of a device never change is kept by the recovery store.\<close>

definition keeps :: "'s page_io \<Rightarrow> ('s \<Rightarrow> 'v) \<Rightarrow> bool" where
  "keeps io K \<longleftrightarrow> (\<forall>n p s. K (snd (io_read io n s)) = K s \<and>
     (length p = 2048 \<longrightarrow> K (snd (io_write io n p s)) = K s) \<and> K (snd (io_sync io s)) = K s)"

lemma keepsD:
  assumes "keeps io K"
  shows "io_read io n s = (q, s') \<Longrightarrow> K s' = K s"
    "io_write io n p s = (b, s') \<Longrightarrow> length p = 2048 \<Longrightarrow> K s' = K s"
    "io_sync io s = (b, s') \<Longrightarrow> K s' = K s"
  using assms by (metis keeps_def snd_conv)+

lemma cold_load_keeps:
  assumes "keeps io K" "cold_load io pol s = (r, s')"
  shows "K s' = K s"
  using assms(2)
  by (auto simp: cold_load_def split: prod.splits option.splits if_splits dest!: keepsD(1) [OF assms(1)])

lemma cold_save_keeps:
  assumes "keeps io K" "cold_save io pol r admitted aliased s = (c, s')"
  shows "K s' = K s"
proof -
  note len = length_cold_encode
  show ?thesis
    using assms(2)
    by (auto simp: cold_save_def split: prod.splits option.splits if_splits sum.splits bool.splits
        dest!: keepsD(1,3) [OF assms(1)] cold_load_keeps [OF assms(1)]
        dest: keepsD(2) [OF assms(1) _ len])
qed

context nand_record_pair
begin

lemma outside_kept:
  assumes "n \<noteq> base" "n \<noteq> base + 1"
  shows "keeps (cold_io (flash_io drv) base) (\<lambda>st. pages (fst st) n)"
proof -
  have w: "pages (fst (snd (io_write (flash_io drv) (base + k - 8) p st))) n = pages (fst st) n"
    if "length p = 2048" "8 \<le> k" "k < 10" for k p st
  proof -
    obtain b st' where "io_write (flash_io drv) (base + k - 8) p st = (b, st')"
      by (rule prod.exhaust)
    moreover have "base + k - 8 \<noteq> n" using assms that by auto
    ultimately show ?thesis
      using that hot.write_page [of p _ st st'] hot.write_torn [of p _ st st']
      by (cases b) fastforce+
  qed
  have r: "pages (fst (snd (io_read (flash_io drv) k st))) = pages (fst st)" for k st
    by (metis hot.read_frame prod.collapse)
  have y: "pages (fst (snd (io_sync (flash_io drv) st))) = pages (fst st)" for st
    by (metis hot.sync_frame prod.collapse)
  show ?thesis
    using w r y by (simp add: keeps_def cold_io_def)
qed

lemma cold_save_isolated:
  assumes "cold_save (cold_io (flash_io drv) base) pol r admitted aliased st = (c, st')"
    "n \<noteq> base" "n \<noteq> base + 1"
  shows "pages (fst st') n = pages (fst st) n"
  using cold_save_keeps [OF outside_kept [OF assms(2,3)] assms(1)] .

end

text \<open>The recovery store cannot touch anything but its own pair: through the whitelist adapter
  of either area, a save with any outcome leaves every other page of the map as it was, so the
  stored payload record and the journal are exactly the same afterwards.\<close>

theorem cold_area_isolated:
  assumes "nand_driver drv pages" "cold_page_base area = Some base"
    "cold_save (cold_io (flash_io drv) base) pol r admitted aliased (s, e) = (code, (s', e'))"
  shows "(\<forall>n. n \<noteq> base \<and> n \<noteq> base + 1 \<longrightarrow> pages s' n = pages s n) \<and>
    stored (pages s') = stored (pages s) \<and> nand_inv (pages s') = nand_inv (pages s) \<and>
    (\<forall>k m c. log_inv (pages s) k m c \<longrightarrow> log_inv (pages s') k m c)"
proof -
  have loc: "nand_record_pair drv pages area base"
    using assms(1,2) by (simp add: nand_record_pair_def nand_record_pair_axioms_def)
  have same: "pages s' n = pages s n" if "n \<noteq> base" "n \<noteq> base + 1" for n
    using nand_record_pair.cold_save_isolated [OF loc assms(3) that] by simp
  have b: "base = 8 \<or> base = 12" using assms(2) by (auto simp: cold_page_base_def split: cold_area.splits)
  have low: "pages s' n = pages s n" if "n < 8 \<or> 16 \<le> n" for n using same that b by auto
  have slot: "slot_state (pages s') k = slot_state (pages s) k" "commit_of (pages s') k = commit_of (pages s) k"
    if "k < 2" for k
    using that low by (auto simp: slot_state_def commit_of_def payload_ok_def slot_payload_def slot_base_def
        less_2_cases_iff)
  then have st: "stored (pages s') = stored (pages s)" by (simp add: stored_def)
  have fm: "formatted (pages s') = formatted (pages s)" using low by (simp add: formatted_def)
  have inv: "nand_inv (pages s') = nand_inv (pages s)"
    using st fm slot stored_slot [of "pages s"] by (auto simp: nand_inv_def split: option.splits)
  have "ring_state (pages s') m = ring_state (pages s) m" for m
    using low ring_at_bounds(1) by (simp add: ring_state_def order_trans [of 16 64])
  moreover have "index_state (pages s') k c = index_state (pages s) k c" for k c
    using low by (auto simp: index_state_def)
  moreover have "length (pages s' i) = 2048" for i
    using nand_driver.drv_page_length [OF assms(1)] by simp
  ultimately show ?thesis
    using same st inv fm by (simp add: log_inv_def)
qed

theorem cold_area_isolated_witness:
  "\<exists>code s' e'. cold_save (cold_io (flash_io ram_driver) 12) any_policy cold_sample True False
      (cold_blank_map, 0) = (code, (s', e')) \<and> ram_view s' 8 = ram_view cold_blank_map 8"
proof -
  obtain code s' e' where run: "cold_save (cold_io (flash_io ram_driver) 12) any_policy cold_sample True False
      (cold_blank_map, 0) = (code, (s', e'))" by (metis surj_pair)
  have "cold_page_base Proof = Some 12" by (simp add: cold_page_base_def)
  from cold_area_isolated [OF ram_map.nand_driver_axioms this run] run show ?thesis by auto
qed

end
