(* ===== verification/Nand_Guarantees.thy ===== *)
theory Nand_Guarantees
  imports Nand_Store_Safety
begin

text \<open>
  The promises of the payload store as top-level theorems, over any page device that satisfies
  the laws of \<open>page_device\<close>, each with an instance on the plain page memory \<open>ram_io\<close>.
\<close>

section \<open>Sequences of saves\<close>

text \<open>The caller saves one payload after the other; each call may fail at any operation.\<close>

primrec save_many :: "'s page_io \<Rightarrow> bytes list \<Rightarrow> 's \<Rightarrow> nand_result list \<times> 's" where
  "save_many io [] s = ([], s)"
| "save_many io (p # ps) s =
     (case nand_save io p s of (r, s1) \<Rightarrow>
        (case save_many io ps s1 of (rs, s2) \<Rightarrow> (r # rs, s2)))"

definition record_of :: "(nat \<Rightarrow> page) \<Rightarrow> bytes option" where
  "record_of C = map_option (snd \<circ> snd) (stored C)"

text \<open>
  The record that a load may show after the answers \<open>oks\<close>: the payload of some attempt (or the
  initial record) such that no later attempt was answered with \<open>Ok\<close>.
\<close>

fun possible_record :: "bytes option \<Rightarrow> bool list \<Rightarrow> bytes list \<Rightarrow> bytes option \<Rightarrow> bool" where
  "possible_record old [] [] new = (new = old)"
| "possible_record old (ok # oks) (p # ps) new =
     (possible_record (Some p) oks ps new \<or> (\<not> ok \<and> possible_record old oks ps new))"
| "possible_record old _ _ new = False"

context page_device
begin

lemma save_many_spec:
  assumes "save_many io ps s = (rs, s')" "nand_inv (contents s)" "\<forall>p \<in> set ps. length p = payload_size"
  shows "nand_inv (contents s') \<and>
    possible_record (record_of (contents s)) (map (\<lambda>r. res_code r = NC_Ok) rs) ps (record_of (contents s'))"
  using assms
proof (induction ps arbitrary: s rs s')
  case Nil
  then show ?case by simp
next
  case (Cons p ps)
  obtain r s1 where sv: "nand_save io p s = (r, s1)" by fastforce
  obtain rs1 s2 where rest: "save_many io ps s1 = (rs1, s2)" by fastforce
  have out: "save_outcome (contents s) p (res_code r = NC_Ok) (contents s1)"
    using save_spec [OF sv] Cons.prems by auto
  with Cons.IH [OF rest] Cons.prems
  have "nand_inv (contents s2) \<and> possible_record (record_of (contents s1))
      (map (\<lambda>r. res_code r = NC_Ok) rs1) ps (record_of (contents s2))"
    by (auto simp: save_outcome_def)
  with out sv rest Cons.prems show ?case
    by (auto simp: save_outcome_def record_of_def)
qed

lemma format_spec:
  assumes "write_format_markers io s = (r, s')"
  shows "\<forall>n \<ge> 2. contents s' n = contents s n"
    and "res_code r = NC_Ok \<longleftrightarrow> res_copies r = 2"
    and "res_code r = NC_Ok \<Longrightarrow> contents s' 0 = nand_marker \<and> contents s' 1 = nand_marker"
proof -
  obtain b0 s1 where w0: "io_write io 0 nand_marker s = (b0, s1)" by fastforce
  obtain b1 s2 where w1: "io_write io 1 nand_marker s1 = (b1, s2)" by fastforce
  have C: "\<forall>n \<ge> 2. contents s1 n = contents s n" "\<forall>n \<ge> 2. contents s2 n = contents s1 n"
    using write_page [of nand_marker 0] write_torn [of nand_marker 0] w0
      write_page [of nand_marker 1] write_torn [of nand_marker 1] w1
    by (cases b0; cases b1; fastforce)+
  note defs = write_format_markers_def w0 w1 w1 [unfolded One_nat_def] Let_def nand_result0_def
  show "\<forall>n \<ge> 2. contents s' n = contents s n"
    using assms C by (auto simp: defs dest!: dev_dest split: bool.splits prod.splits option.splits if_splits)
  show "res_code r = NC_Ok \<longleftrightarrow> res_copies r = 2"
    using assms by (auto simp: defs split: bool.splits prod.splits option.splits if_splits)
  show "res_code r = NC_Ok \<Longrightarrow> contents s' 0 = nand_marker \<and> contents s' 1 = nand_marker"
    using assms by (auto simp: defs dest!: dev_dest split: bool.splits prod.splits option.splits if_splits)
qed

end

section \<open>The chip after an erase and a format\<close>

definition erased_chip :: "nat \<Rightarrow> page" where
  "erased_chip = (\<lambda>n. replicate 2048 255)"

definition fresh_chip :: "nat \<Rightarrow> page" where
  "fresh_chip = (\<lambda>n. if n < 2 then nand_marker else replicate 2048 255)"

lemma get_le_replicate: "i + 4 \<le> 2048 \<Longrightarrow> get_le (replicate 2048 (255 :: u8)) i 4 = (0xffffffff :: u64)"
  by (simp add: get_le_4)

lemma parse_commit_blank: "\<not> slot_valid (parse_commit (replicate 2048 255) k)"
  by (simp add: parse_commit_def get_le_replicate no_slot_def)

lemma empty_format_ready:
  assumes "valid_marker (C 0) \<or> valid_marker (C 1)" "\<forall>k < 2. C (slot_base k + 2) = replicate 2048 255"
  shows "save_ready C" "stored C = None" "next_slot C = 0" "next_generation C = 1"
proof -
  have c: "\<not> slot_valid (commit_of C 0)" "\<not> slot_valid (commit_of C 1)"
    using assms(2) by (simp_all add: commit_of_def parse_commit_blank)
  then show "stored C = None" by (simp add: stored_def slot_state_invalid)
  moreover have "\<not> slot_bad C 0" "\<not> slot_bad C 1"
    using c assms(2) by (simp_all add: slot_bad_def blank_def list_all_iff)
  ultimately show "save_ready C" "next_slot C = 0" "next_generation C = 1"
    using assms c by (auto simp: save_ready_def nand_inv_def formatted_def next_generation_def
        next_slot_def)
qed

lemma ram_view_full: "length (m n) = 2048 \<Longrightarrow> ram_view m n = m n"
  by (simp add: ram_view_def)

lemma fresh_chip_view: "ram_view fresh_chip = fresh_chip"
  by (auto simp: fun_eq_iff fresh_chip_def ram_view_full)

lemma fresh_chip_ready: "save_ready (ram_view fresh_chip)" "stored (ram_view fresh_chip) = None"
  "next_slot (ram_view fresh_chip) = 0" "next_generation (ram_view fresh_chip) = 1"
  unfolding fresh_chip_view
  by (rule empty_format_ready; simp add: fresh_chip_def slot_base_def valid_marker_page)+

lemma fresh_chip_inv: "nand_inv (ram_view fresh_chip)"
  using fresh_chip_ready(1) by (simp add: save_ready_def)

lemma load_reliable:
  "reliable io \<Longrightarrow> nand_load io s = ((r, out), s') \<Longrightarrow> res_code r \<noteq> NC_Io"
  by (auto simp: nand_load_def Let_def reliableD read_payload_reliable dest: scan_reliable
      split: prod.splits option.splits if_splits)

section \<open>The properties\<close>

text \<open>C2: A save is atomic: whatever read, write or sync fails or is torn on the way, the store
  afterwards holds the previous record or exactly the complete new one under the next generation
  in the other slot; it holds the new one whenever the answer is \<open>Ok\<close>, and the store invariant is
  kept, so the next save is atomic too.\<close>

theorem nand_save_atomic:
  assumes "page_device io contents" "nand_inv (contents s)" "length input = payload_size"
    "nand_save io input s = (r, s')"
  shows "nand_inv (contents s') \<and>
    (stored (contents s') = stored (contents s) \<and> res_code r \<noteq> NC_Ok \<or>
     stored (contents s') = Some (next_slot (contents s), next_generation (contents s), input))"
  using page_device.save_spec [OF assms(1,4,2,3)] by (auto simp: save_outcome_def)

theorem nand_save_atomic_witness:
  "\<exists>r s'. nand_save ram_io (replicate payload_size 7) fresh_chip = (r, s') \<and>
     nand_inv (ram_view s') \<and>
     (stored (ram_view s') = None \<and> res_code r \<noteq> NC_Ok \<or>
      stored (ram_view s') = Some (0, 1, replicate payload_size 7))"
proof -
  obtain r s' where run: "nand_save ram_io (replicate payload_size 7) fresh_chip = (r, s')"
    by fastforce
  from nand_save_atomic [OF ram.page_device_axioms fresh_chip_inv length_replicate run] run
  show ?thesis by (auto simp: fresh_chip_ready)
qed

text \<open>C3: On a device without faults a save succeeds: from any store with room in the generation
  counter and no damaged slot on an empty store, the answer is \<open>Ok\<close> with the next slot and
  generation, and a load that follows is answered with \<open>Ok\<close> and returns the saved payload.\<close>

theorem nand_save_then_load:
  assumes "page_device io contents" "reliable io" "save_ready (contents s)"
    "length input = payload_size" "nand_save io input s = (r, s1)" "nand_load io s1 = ((r2, out), s2)"
  shows "res_code r = NC_Ok \<and> res_generation r = next_generation (contents s) \<and>
    res_slot r = int (next_slot (contents s)) \<and>
    res_code r2 = NC_Ok \<and> res_generation r2 = next_generation (contents s) \<and> out = Some input"
proof -
  note dev = assms(1)
  have inv: "nand_inv (contents s)" using assms(3) by (simp add: save_ready_def)
  note sv = page_device.save_reliable [OF dev assms(2,5,3,4)]
  from page_device.save_spec [OF dev assms(5) inv assms(4)] sv
  have st: "nand_inv (contents s1)"
    "stored (contents s1) = Some (next_slot (contents s), next_generation (contents s), input)"
    by (auto simp: save_outcome_def)
  moreover have "res_code r2 \<noteq> NC_Io"
    using load_reliable [OF assms(2,6)] by simp
  ultimately show ?thesis
    using page_device.load_spec(2) [OF dev assms(6)] sv by (simp add: nand_inv_def)
qed

theorem nand_save_then_load_witness:
  "\<exists>r s1 r2 s2. nand_save ram_io (replicate payload_size 7) fresh_chip = (r, s1) \<and>
     nand_load ram_io s1 = ((r2, Some (replicate payload_size 7)), s2) \<and> res_generation r = 1"
proof -
  obtain r s1 where run: "nand_save ram_io (replicate payload_size 7) fresh_chip = (r, s1)"
    by fastforce
  obtain r2 out s2 where ld: "nand_load ram_io s1 = ((r2, out), s2)" by (metis surj_pair)
  from nand_save_then_load [OF ram.page_device_axioms ram_reliable fresh_chip_ready(1)
      length_replicate run ld] run ld
  show ?thesis by (auto simp: fresh_chip_ready)
qed

text \<open>C7: Over any sequence of saves, each of which may fail anywhere, the record in the store is
  always the initial one or the payload of one of the attempts, complete, and no attempt after it
  was answered with \<open>Ok\<close>: an acknowledged save is never lost to a later failed one.\<close>

theorem nand_history:
  assumes "page_device io contents" "save_many io ps s = (rs, s')" "nand_inv (contents s)"
    "\<forall>p \<in> set ps. length p = payload_size"
  shows "possible_record (record_of (contents s)) (map (\<lambda>r. res_code r = NC_Ok) rs) ps
    (record_of (contents s'))"
  using page_device.save_many_spec [OF assms] by blast

theorem nand_history_witness:
  "\<exists>rs s'. save_many ram_io [replicate payload_size 7, replicate payload_size 8] fresh_chip = (rs, s') \<and>
     possible_record None (map (\<lambda>r. res_code r = NC_Ok) rs)
       [replicate payload_size 7, replicate payload_size 8] (record_of (ram_view s'))"
proof -
  obtain rs s' where run:
    "save_many ram_io [replicate payload_size 7, replicate payload_size 8] fresh_chip = (rs, s')"
    by fastforce
  from nand_history [where contents = ram_view, OF ram.page_device_axioms run] fresh_chip_inv run
  show ?thesis by (auto simp: record_of_def fresh_chip_ready)
qed

text \<open>A load never changes the pages. Unless the device fails, on a formatted store it
  returns exactly the stored record: \<open>Ok\<close> with its generation and payload, or an answer other than
  \<open>Ok\<close> and no payload when there is none.\<close>

theorem nand_load_refines:
  assumes "page_device io contents" "nand_load io s = ((r, out), s')"
  shows "contents s' = contents s \<and>
    (res_code r \<noteq> NC_Io \<and> formatted (contents s) \<longrightarrow>
      (case stored (contents s) of
         Some (k, g, p) \<Rightarrow> res_code r = NC_Ok \<and> res_generation r = g \<and> out = Some p
       | None \<Rightarrow> res_code r \<noteq> NC_Ok \<and> out = None))"
  using page_device.load_spec [OF assms] by blast

theorem nand_load_refines_witness:
  "\<exists>r s'. nand_load ram_io fresh_chip = ((r, None), s') \<and> res_code r \<noteq> NC_Ok"
proof -
  obtain r out s' where ld: "nand_load ram_io fresh_chip = ((r, out), s')" by (metis surj_pair)
  from nand_load_refines [OF ram.page_device_axioms ld] load_reliable [OF ram_reliable ld]
    fresh_chip_inv ld
  show ?thesis by (auto simp: fresh_chip_ready nand_inv_def)
qed

text \<open>Writing the format markers touches nothing but pages 0 and 1 and is answered with \<open>Ok\<close>
  exactly when both copies were read back; on erased commit pages the store is then formatted,
  empty and ready for the first save.\<close>

theorem nand_format:
  assumes "page_device io contents" "write_format_markers io s = (r, s')"
    "\<forall>k < 2. contents s (slot_base k + 2) = replicate 2048 255"
  shows "(\<forall>n \<ge> 2. contents s' n = contents s n) \<and> (res_code r = NC_Ok \<longleftrightarrow> res_copies r = 2) \<and>
    (res_code r = NC_Ok \<longrightarrow> save_ready (contents s') \<and> stored (contents s') = None)"
proof -
  note fs = page_device.format_spec [OF assms(1,2)]
  have "\<forall>k < 2. contents s' (slot_base k + 2) = replicate 2048 255"
    using fs(1) assms(3) by simp
  with fs empty_format_ready [of "contents s'"] valid_marker_page show ?thesis by metis
qed

theorem nand_format_witness:
  "\<exists>r s'. write_format_markers ram_io erased_chip = (r, s') \<and> save_ready (ram_view s') \<and>
     stored (ram_view s') = None"
proof -
  have v: "ram_view erased_chip = erased_chip"
    by (auto simp: fun_eq_iff erased_chip_def ram_view_full)
  obtain r s' where run: "write_format_markers ram_io erased_chip = (r, s')" by fastforce
  then have "res_code r = NC_Ok"
    by (auto simp: write_format_markers_def ram_io_def nand_result0_def ram_view_def)
  with nand_format [OF ram.page_device_axioms run] run v show ?thesis
    by (auto simp: erased_chip_def)
qed

end
