(* ===== verification/Nand_Transaction.thy ===== *)
theory Nand_Transaction
  imports Nand_Adapter Nand_Guarantees
begin

text \<open>
  One transaction of \<open>main/hal/mosaico/mosaico_nand_store.cpp\<close>: the admission checks, the bring-up of
  the SPI bus, the pins and the flash driver, the operation on the page map with the close and
  reopen that follows every write, and the cleanup that runs on every path. The calls of the SDK
  and of the flash driver are the fields of \<open>nand_env\<close>, a parameter. A phase returns whether the
  transaction goes on; \<open>return finish()\<close> is a phase that returns \<open>False\<close>.
\<close>

section \<open>State\<close>

definition ESP_ERR_NOT_SUPPORTED :: esp_err where "ESP_ERR_NOT_SUPPORTED = 0x106"
definition ESP_ERR_NO_MEM :: esp_err where "ESP_ERR_NO_MEM = 0x101"

record 's nand_env =
  env_flash :: "'s flash_driver"
  env_bus_init :: "'s \<Rightarrow> esp_err \<times> 's"
  env_bus_free :: "'s \<Rightarrow> esp_err \<times> 's"
  env_get_sleep :: "nat \<Rightarrow> 's \<Rightarrow> (esp_err \<times> bool) \<times> 's"
  env_sleep_dis :: "nat \<Rightarrow> 's \<Rightarrow> esp_err \<times> 's"
  env_sleep_en :: "nat \<Rightarrow> 's \<Rightarrow> esp_err \<times> 's"
  env_set_high :: "nat \<Rightarrow> 's \<Rightarrow> esp_err \<times> 's"
  env_config_pin :: "nat \<Rightarrow> 's \<Rightarrow> esp_err \<times> 's"
  env_reset_pin :: "nat \<Rightarrow> 's \<Rightarrow> esp_err \<times> 's"
  env_add_device :: "'s \<Rightarrow> esp_err \<times> 's"
  env_remove_device :: "'s \<Rightarrow> esp_err \<times> 's"
  env_transmit :: "u8 \<Rightarrow> u8 \<Rightarrow> 's \<Rightarrow> (esp_err \<times> u8 \<times> u8) \<times> 's"
  env_init :: "'s \<Rightarrow> esp_err \<times> 's"
  env_deinit :: "'s \<Rightarrow> esp_err \<times> 's"
  env_page_size :: "'s \<Rightarrow> (esp_err \<times> u32) \<times> 's"
  env_blocks :: "'s \<Rightarrow> (esp_err \<times> u32) \<times> 's"
  env_page_count :: "'s \<Rightarrow> (esp_err \<times> u32) \<times> 's"
  env_erase :: "'s \<Rightarrow> esp_err \<times> 's"

datatype tx_stage = TX_Admission | TX_Allocation | TX_Bus | TX_Pins | TX_Device | TX_Identity | TX_Init
  | TX_Geometry | TX_Erase | TX_Record | TX_Reopen | TX_Complete

record tx_result =
  tx_error :: esp_err
  tx_cleanup :: esp_err
  tx_at :: tx_stage
  tx_record :: nand_result
  tx_pages :: u32
  tx_formatted :: bool
  tx_log :: log_code
  tx_cold :: cold_code

definition tx_result0 :: tx_result where
  "tx_result0 = \<lparr>tx_error = ESP_OK, tx_cleanup = ESP_OK, tx_at = TX_Admission, tx_record = nand_result0,
     tx_pages = 0, tx_formatted = False, tx_log = LC_Empty, tx_cold = CC_Empty\<rparr>"

datatype tx_op = Op_Load | Op_Save bytes | Op_Format | Op_LogLoad | Op_LogAppend page | Op_LogRead u64
  | Op_ColdLoad cold_area "cold_policy option" | Op_ColdSave cold_area "cold_policy option" "cold_record option"

text \<open>
  The local variables: the handles (\<open>device\<close>, \<open>nand\<close>, \<open>busOwned\<close>), the pin masks, the workspaces.
\<close>

record 's tx =
  t_res :: tx_result
  t_dev :: 's
  t_last :: esp_err
  t_device :: bool
  t_nand :: bool
  t_bus :: bool
  t_touched :: u32
  t_sleep_before :: u32
  t_sleep_changed :: u32
  t_snapshot :: bytes
  t_log_page :: page
  t_log_state :: log_state
  t_expected :: "cold_record option"
  t_publish :: bool

type_synonym 's phase = "'s tx \<Rightarrow> bool \<times> 's tx"

definition tx_start :: "tx_op \<Rightarrow> 's \<Rightarrow> 's tx" where
  "tx_start op s = \<lparr>t_res = tx_result0\<lparr>tx_at := TX_Allocation\<rparr>, t_dev = s, t_last = ESP_OK, t_device = False,
     t_nand = False, t_bus = False, t_touched = 0, t_sleep_before = 0, t_sleep_changed = 0,
     t_snapshot = (case op of Op_Save p \<Rightarrow> p | _ \<Rightarrow> replicate payload_size 0),
     t_log_page = (case op of Op_LogAppend p \<Rightarrow> p | _ \<Rightarrow> replicate page_size 0), t_log_state = log_state0,
     t_expected = (case op of Op_ColdSave _ _ r \<Rightarrow> r | _ \<Rightarrow> None), t_publish = False\<rparr>"

abbreviation on_res :: "(tx_result \<Rightarrow> tx_result) \<Rightarrow> 's tx \<Rightarrow> 's tx" where
  "on_res f t \<equiv> t\<lparr>t_res := f (t_res t)\<rparr>"

definition tx_then :: "'s phase \<Rightarrow> 's phase \<Rightarrow> 's phase" where
  "tx_then p q t = (case p t of (go, t1) \<Rightarrow> if go then q t1 else (False, t1))"

definition tx_step :: "('s tx \<Rightarrow> 's tx) \<Rightarrow> 's phase" where
  "tx_step f t = (True, f t)"

definition tx_enter :: "tx_stage \<Rightarrow> 's phase" where
  "tx_enter st = tx_step (on_res (\<lambda>r. r\<lparr>tx_at := st\<rparr>))"

definition tx_stop :: "esp_err \<Rightarrow> 's phase" where
  "tx_stop e t = (False, on_res (\<lambda>r. r\<lparr>tx_error := e\<rparr>) t)"

definition tx_guard :: "('s tx \<Rightarrow> bool) \<Rightarrow> esp_err \<Rightarrow> 's phase" where
  "tx_guard b e t = (if b t then (True, t) else tx_stop e t)"

text \<open>\<open>result.error=f(); if(result.error!=ESP_OK)return finish();\<close>\<close>

definition tx_call :: "('s \<Rightarrow> esp_err \<times> 's) \<Rightarrow> 's phase" where
  "tx_call f t = (case f (t_dev t) of (e, s) \<Rightarrow> (e = ESP_OK, on_res (\<lambda>r. r\<lparr>tx_error := e\<rparr>) (t\<lparr>t_dev := s\<rparr>)))"

text \<open>A call that also delivers a value.\<close>

definition tx_get :: "('s \<Rightarrow> (esp_err \<times> 'v) \<times> 's) \<Rightarrow> ('v \<Rightarrow> 's tx \<Rightarrow> 's tx) \<Rightarrow> 's phase" where
  "tx_get f k t = (case f (t_dev t) of ((e, v), s) \<Rightarrow>
     (let t1 = on_res (\<lambda>r. r\<lparr>tx_error := e\<rparr>) (t\<lparr>t_dev := s\<rparr>) in
      if e = ESP_OK then (True, k v t1) else (False, t1)))"

text \<open>The operations of the stores run on the device with \<open>lastError\<close>.\<close>

definition tx_page :: "('s \<times> esp_err \<Rightarrow> 'r \<times> 's \<times> esp_err) \<Rightarrow> 's tx \<Rightarrow> 'r \<times> 's tx" where
  "tx_page f t = (case f (t_dev t, t_last t) of (r, (s, e)) \<Rightarrow> (r, t\<lparr>t_dev := s, t_last := e\<rparr>))"

fun tx_all :: "('a \<Rightarrow> 's phase) \<Rightarrow> 'a list \<Rightarrow> 's phase" where
  "tx_all p [] = tx_step (\<lambda>t. t)"
| "tx_all p (x # xs) = tx_then (p x) (tx_all p xs)"

section \<open>Bring-up\<close>

definition pin_bit :: "nat \<Rightarrow> u32" where
  "pin_bit pin = push_bit pin 1"

definition tx_touch :: "nat \<Rightarrow> 's phase" where
  "tx_touch pin = tx_step (\<lambda>t. t\<lparr>t_touched := t_touched t OR pin_bit pin\<rparr>)"

definition release_control :: "'s nand_env \<Rightarrow> nat \<Rightarrow> 's phase" where
  "release_control env pin = tx_then (tx_call (env_set_high env pin))
     (tx_then (tx_call (env_config_pin env pin)) (tx_call (env_set_high env pin)))"

text \<open>\<open>identity\<close>: the chip id twice, then the configuration and the status register.\<close>

definition flash_identity :: "'s nand_env \<Rightarrow> 's \<Rightarrow> esp_err \<times> 's" where
  "flash_identity env s =
     (case env_transmit env 0x9f 0 s of ((e0, i0, i1), s) \<Rightarrow> if e0 \<noteq> ESP_OK then (e0, s) else
     (case env_transmit env 0x9f 0 s of ((e1, a0, a1), s) \<Rightarrow> if e1 \<noteq> ESP_OK then (e1, s) else
     (case env_transmit env 0x0f 0xb0 s of ((e2, config, _), s) \<Rightarrow> if e2 \<noteq> ESP_OK then (e2, s) else
     (case env_transmit env 0x0f 0xc0 s of ((e3, status, _), s) \<Rightarrow> if e3 \<noteq> ESP_OK then (e3, s) else
       (if i0 \<noteq> 0xc8 \<or> i1 \<noteq> 0x91 \<or> i0 \<noteq> a0 \<or> i1 \<noteq> a1 then ESP_ERR_NOT_SUPPORTED
        else if config AND 0x10 = 0 \<or> config AND 0x66 \<noteq> 0 then ESP_ERR_NOT_SUPPORTED
        else if status AND 1 \<noteq> 0 then ESP_ERR_INVALID_STATE else ESP_OK, s)))))"

definition nand_pins :: "nat list" where
  "nand_pins = [20, 21, 22, 23, 24, 25]"

definition tx_bus :: "'s nand_env \<Rightarrow> 's phase" where
  "tx_bus env = tx_then (tx_enter TX_Bus) (tx_then (tx_call (env_bus_init env))
     (tx_step (\<lambda>t. t\<lparr>t_bus := True, t_touched := pin_bit 20 OR pin_bit 21 OR pin_bit 22\<rparr>)))"

definition tx_read_sleep :: "'s nand_env \<Rightarrow> nat \<Rightarrow> 's phase" where
  "tx_read_sleep env pin = tx_get (env_get_sleep env pin) (\<lambda>slp t.
     if slp then t\<lparr>t_sleep_before := t_sleep_before t OR pin_bit pin\<rparr> else t)"

definition tx_disable_sleep :: "'s nand_env \<Rightarrow> nat \<Rightarrow> 's phase" where
  "tx_disable_sleep env pin =
     tx_then (tx_step (\<lambda>t. t\<lparr>t_sleep_changed := t_sleep_changed t OR pin_bit pin\<rparr>))
     (tx_then (tx_call (env_sleep_dis env pin))
     (\<lambda>t. case env_get_sleep env pin (t_dev t) of ((e, slp), s) \<Rightarrow>
        (let t1 = on_res (\<lambda>r. r\<lparr>tx_error := e\<rparr>) (t\<lparr>t_dev := s\<rparr>) in
         if e \<noteq> ESP_OK then (False, t1) else if slp then tx_stop ESP_ERR_INVALID_STATE t1 else (True, t1))))"

definition tx_pins :: "'s nand_env \<Rightarrow> 's phase" where
  "tx_pins env = tx_then (tx_enter TX_Pins) (tx_then (tx_all (tx_read_sleep env) nand_pins)
     (tx_then (tx_all (tx_disable_sleep env) nand_pins)
     (tx_then (tx_touch 24) (tx_then (release_control env 24)
     (tx_then (tx_touch 25) (release_control env 25))))))"

definition tx_open :: "'s nand_env \<Rightarrow> 's phase" where
  "tx_open env = tx_then (tx_call (env_init env)) (tx_step (\<lambda>t. t\<lparr>t_nand := True\<rparr>))"

definition tx_device :: "'s nand_env \<Rightarrow> 's phase" where
  "tx_device env = tx_then (tx_enter TX_Device) (tx_then (tx_touch 23)
     (tx_then (tx_call (env_add_device env)) (tx_then (tx_step (\<lambda>t. t\<lparr>t_device := True\<rparr>))
     (tx_then (tx_enter TX_Identity) (tx_then (tx_call (flash_identity env))
     (tx_then (tx_enter TX_Init) (tx_open env)))))))"

definition tx_geometry :: "'s nand_env \<Rightarrow> 's phase" where
  "tx_geometry env = tx_then (tx_enter TX_Geometry)
     (\<lambda>t. case env_page_size env (t_dev t) of ((e1, psz), s1) \<Rightarrow>
        if e1 \<noteq> ESP_OK then tx_stop e1 (t\<lparr>t_dev := s1\<rparr>)
        else (case env_blocks env s1 of ((e2, blocks), s2) \<Rightarrow>
        if e2 \<noteq> ESP_OK then tx_stop e2 (t\<lparr>t_dev := s2\<rparr>)
        else (case env_page_count env s2 of ((e3, pages), s3) \<Rightarrow>
        (let t1 = on_res (\<lambda>r. r\<lparr>tx_error := e3, tx_pages := pages\<rparr>) (t\<lparr>t_dev := s3\<rparr>) in
         if e3 \<noteq> ESP_OK then (False, t1)
         else if psz \<noteq> 2048 \<or> blocks \<noteq> 1024 \<or> pages < 8 then tx_stop ESP_ERR_NOT_SUPPORTED t1
         else (True, t1\<lparr>t_last := ESP_OK\<rparr>)))))"

text \<open>Close and open again: \<open>quarantine\<close> says whether a failed close counts as a cleanup error.\<close>

definition tx_close :: "'s nand_env \<Rightarrow> bool \<Rightarrow> 's phase" where
  "tx_close env quarantine t =
     (case env_deinit env (t_dev t) of (e, s) \<Rightarrow>
        (let t1 = on_res (\<lambda>r. r\<lparr>tx_error := e\<rparr>) (t\<lparr>t_dev := s, t_nand := False\<rparr>) in
         if e = ESP_OK then (True, t1)
         else (False, if quarantine then on_res (\<lambda>r. r\<lparr>tx_cleanup := e\<rparr>) t1 else t1)))"

definition tx_reopen :: "'s nand_env \<Rightarrow> bool \<Rightarrow> 's phase" where
  "tx_reopen env quarantine = tx_then (tx_enter TX_Reopen) (tx_then (tx_close env quarantine) (tx_open env))"


section \<open>The operations\<close>

text \<open>Digests of pages that must survive: read them all before, read and compare after.\<close>

fun tx_digests :: "'s page_io \<Rightarrow> nat list \<Rightarrow> 's \<Rightarrow> u32 list option \<times> 's" where
  "tx_digests io [] s = (Some [], s)"
| "tx_digests io (n # ns) s =
     (case io_read io n s of
        (None, s1) \<Rightarrow> (None, s1)
      | (Some p, s1) \<Rightarrow>
          (case tx_digests io ns s1 of
             (None, s2) \<Rightarrow> (None, s2)
           | (Some ds, s2) \<Rightarrow> (Some (crc32 p # ds), s2)))"

text \<open>\<open>Some True\<close> when all digests agree, \<open>Some False\<close> at the first that differs.\<close>

fun tx_compare :: "'s page_io \<Rightarrow> (nat \<times> u32) list \<Rightarrow> 's \<Rightarrow> bool option \<times> 's" where
  "tx_compare io [] s = (Some True, s)"
| "tx_compare io ((n, d) # ns) s =
     (case io_read io n s of
        (None, s1) \<Rightarrow> (None, s1)
      | (Some p, s1) \<Rightarrow> if d \<noteq> crc32 p then (Some False, s1) else tx_compare io ns s1)"

definition tx_io_error :: "'s phase" where
  "tx_io_error t = tx_stop (t_last t) t"

definition tx_check_cold :: "cold_code \<Rightarrow> 's phase" where
  "tx_check_cold code t =
     (let e = cold_error code (t_last t) in
      (e = ESP_OK, on_res (\<lambda>r. r\<lparr>tx_cold := code, tx_error := e\<rparr>) t))"

definition tx_check_log :: "log_code \<Rightarrow> 's phase" where
  "tx_check_log code t =
     (let e = log_error code (t_last t) in
      (e = ESP_OK, on_res (\<lambda>r. r\<lparr>tx_log := code, tx_error := e\<rparr>) t))"

definition tx_cold_verify :: "'s phase" where
  "tx_cold_verify t = tx_stop ESP_ERR_INVALID_CRC (on_res (\<lambda>r. r\<lparr>tx_cold := CC_Verify\<rparr>) t)"

definition cold_protected :: "nat \<Rightarrow> nat list" where
  "cold_protected base = filter (\<lambda>i. i < base \<or> i \<ge> base + 2) [0..<18]"

text \<open>After the reopen: the record is loaded again and compared, then the digests.\<close>

definition tx_cold_reload :: "'s nand_env \<Rightarrow> nat \<Rightarrow> cold_policy \<Rightarrow> cold_record \<Rightarrow> u32 list \<Rightarrow> 's phase" where
  "tx_cold_reload env base pol r ds t =
     (case tx_page (cold_load (cold_io (flash_io (env_flash env)) base) pol) t of
        ((lc, loaded), t1) \<Rightarrow> tx_then (tx_check_cold lc)
        (\<lambda>t2. case loaded of
           None \<Rightarrow> tx_cold_verify t2
         | Some (k, found) \<Rightarrow>
             if lc \<noteq> CC_Ready \<or> \<not> same_cold_record r found then tx_cold_verify t2
             else (case tx_page (tx_compare (flash_io (env_flash env)) (zip (cold_protected base) ds)) t2 of
               (None, t3) \<Rightarrow> tx_io_error t3
             | (Some same, t3) \<Rightarrow> if same then (True, t3) else tx_cold_verify t3)) t1)"

definition tx_cold_save :: "'s nand_env \<Rightarrow> nat \<Rightarrow> cold_policy \<Rightarrow> cold_record \<Rightarrow> 's phase" where
  "tx_cold_save env base pol r =
     tx_then (tx_guard (\<lambda>t. \<not> tx_pages (t_res t) < 18) ESP_ERR_NOT_SUPPORTED)
     (\<lambda>t. case tx_page (tx_digests (flash_io (env_flash env)) (cold_protected base)) t of
        (None, t1) \<Rightarrow> tx_io_error t1
      | (Some ds, t1) \<Rightarrow>
     (case tx_page (cold_save (cold_io (flash_io (env_flash env)) base) pol r True False) t1 of (code, t2) \<Rightarrow>
        tx_then (tx_check_cold code) (tx_then (tx_reopen env True) (tx_cold_reload env base pol r ds)) t2))"

definition tx_cold_load :: "'s nand_env \<Rightarrow> nat \<Rightarrow> cold_policy \<Rightarrow> 's phase" where
  "tx_cold_load env base pol t =
     (case tx_page (cold_load (cold_io (flash_io (env_flash env)) base) pol) t of
        ((code, loaded), t1) \<Rightarrow> tx_then (tx_check_cold code)
          (tx_step (\<lambda>t2. if code = CC_Ready
             then t2\<lparr>t_expected := map_option snd loaded, t_publish := True\<rparr> else t2)) t1)"

definition tx_finished :: "'s phase" where
  "tx_finished = tx_step (on_res (\<lambda>r. r\<lparr>tx_formatted := True, tx_at := TX_Complete\<rparr>))"

definition tx_cold_body :: "'s nand_env \<Rightarrow> nat \<Rightarrow> 's phase \<Rightarrow> 's phase" where
  "tx_cold_body env base p =
     tx_then (tx_guard (\<lambda>t. \<not> unat (tx_pages (t_res t)) < base + 2) ESP_ERR_NOT_SUPPORTED)
     (tx_then (tx_enter TX_Record) (tx_then p tx_finished))"

definition tx_log_verify :: "'s nand_env \<Rightarrow> u32 list \<Rightarrow> 's phase" where
  "tx_log_verify env ds t0 =
     (let expected = t_log_state t0 in
      tx_then (tx_reopen env False)
      (\<lambda>t. case tx_page (log_load (flash_io (env_flash env))) t of
         ((lc, out), t1) \<Rightarrow>
           (let found = (case out of None \<Rightarrow> t_log_state t1 | Some st \<Rightarrow> st) in
            tx_then (tx_check_log lc)
            (tx_then (tx_guard (\<lambda>_. log_latest expected = log_latest found \<and>
                        log_oldest expected = log_oldest found) ESP_ERR_INVALID_CRC)
            (\<lambda>t2. case tx_page (log_read (flash_io (env_flash env)) (log_latest expected))
                     (t2\<lparr>t_log_state := found\<lparr>log_adopted := log_adopted expected\<rparr>\<rparr>) of
               ((rc, page), t3) \<Rightarrow> tx_then (tx_check_log rc)
                 (tx_then (tx_guard (\<lambda>t. page = Some (t_log_page t)) ESP_ERR_INVALID_CRC)
                 (\<lambda>t4. case tx_page (tx_compare (flash_io (env_flash env)) (zip [0..<8] ds)) t4 of
                    (None, t5) \<Rightarrow> tx_io_error t5
                  | (Some same, t5) \<Rightarrow>
                      if same then (True, t5) else tx_stop ESP_ERR_INVALID_CRC t5)) t3)) t1)) t0)"

definition tx_log_op :: "'s nand_env \<Rightarrow> tx_op \<Rightarrow> 's phase" where
  "tx_log_op env op t =
     (case op of
        Op_LogAppend _ \<Rightarrow>
          (case tx_page (log_append (flash_io (env_flash env)) (t_log_page t) (t_log_state t)) t of
             ((c, st), t1) \<Rightarrow> tx_check_log c
               (t1\<lparr>t_log_state := st,
                  t_log_page := (if log_latest (t_log_state t) = -1 then t_log_page t
                    else case log_finalize (t_log_page t) (log_latest (t_log_state t) + 1) of
                      Some p \<Rightarrow> p | None \<Rightarrow> t_log_page t)\<rparr>))
      | Op_LogRead seq \<Rightarrow>
          if seq = 0 \<or> seq < log_oldest (t_log_state t) \<or> seq > log_latest (t_log_state t)
          then tx_stop ESP_ERR_NOT_FOUND t
          else (case tx_page (log_read (flash_io (env_flash env)) seq) t of
             ((c, page), t1) \<Rightarrow> tx_check_log c
               (case page of None \<Rightarrow> t1 | Some p \<Rightarrow> t1\<lparr>t_log_page := p\<rparr>))
      | _ \<Rightarrow> (True, t))"

definition tx_journal :: "'s nand_env \<Rightarrow> tx_op \<Rightarrow> 's phase" where
  "tx_journal env op =
     tx_then (tx_guard (\<lambda>t. \<not> tx_pages (t_res t) < 8256) ESP_ERR_NOT_SUPPORTED)
     (tx_then (tx_enter TX_Record)
     (\<lambda>t. case tx_page (tx_digests (flash_io (env_flash env)) [0..<8]) t of
        (None, t1) \<Rightarrow> tx_io_error t1
      | (Some ds, t1) \<Rightarrow>
     (case tx_page (log_load (flash_io (env_flash env))) t1 of
        ((lc, out), t2) \<Rightarrow> tx_then (tx_check_log lc)
        (tx_then (tx_step (\<lambda>t. (on_res (\<lambda>r. r\<lparr>tx_formatted := True\<rparr>) t)
                   \<lparr>t_log_state := (case out of None \<Rightarrow> t_log_state t | Some st \<Rightarrow> st)\<rparr>))
        (tx_then (tx_log_op env op)
        (tx_then (case op of Op_LogAppend _ \<Rightarrow> tx_log_verify env ds | _ \<Rightarrow> tx_step (\<lambda>t. t))
        (tx_enter TX_Complete)))) t2)))"

text \<open>The trace payload: the operation, the translation of its code, and the check after a reopen.\<close>

definition tx_run_record :: "'s nand_env \<Rightarrow> tx_op \<Rightarrow> 's phase" where
  "tx_run_record env op =
     tx_then
       (\<lambda>t. case op of
          Op_Format \<Rightarrow> tx_then (tx_enter TX_Erase) (tx_then (tx_call (env_erase env)) (\<lambda>t.
            case tx_page (write_format_markers (flash_io (env_flash env)))
                   (on_res (\<lambda>r. r\<lparr>tx_at := TX_Record\<rparr>) t) of
              (rec, t1) \<Rightarrow> (True, on_res (\<lambda>r. r\<lparr>tx_record := rec\<rparr>) t1))) t
        | Op_Save input \<Rightarrow>
            (case tx_page (nand_save (flash_io (env_flash env)) (t_snapshot t))
                   (on_res (\<lambda>r. r\<lparr>tx_at := TX_Record\<rparr>) t) of
              (rec, t1) \<Rightarrow> (True, on_res (\<lambda>r. r\<lparr>tx_record := rec\<rparr>) t1))
        | _ \<Rightarrow>
            (case tx_page (nand_load (flash_io (env_flash env))) (on_res (\<lambda>r. r\<lparr>tx_at := TX_Record\<rparr>) t) of
              ((rec, out), t1) \<Rightarrow> (True, (on_res (\<lambda>r. r\<lparr>tx_record := rec\<rparr>) t1)
                \<lparr>t_snapshot := (case out of None \<Rightarrow> t_snapshot t1 | Some p \<Rightarrow> p)\<rparr>)))
     (\<lambda>t. let e = record_error (res_code (tx_record (t_res t))) (t_last t) in
        (e = ESP_OK, on_res (\<lambda>r. r\<lparr>tx_formatted := res_copies (tx_record r) > 0, tx_error := e\<rparr>) t))"

definition tx_confirm :: "'s nand_env \<Rightarrow> tx_op \<Rightarrow> 's phase" where
  "tx_confirm env op t =
     (case op of
        Op_Format \<Rightarrow>
          (case tx_page (nand_scan (flash_io (env_flash env))) t of (rec, t1) \<Rightarrow>
             (let t2 = on_res (\<lambda>r. r\<lparr>tx_record := rec\<rparr>) t1 in
              if res_code rec \<noteq> NC_Empty \<or> res_copies rec \<noteq> 2
              then tx_stop (if res_code rec = NC_Io then t_last t2 else ESP_ERR_INVALID_CRC) t2
              else (True, t2)))
      | _ \<Rightarrow>
          (let expected = res_generation (tx_record (t_res t)) in
           case tx_page (nand_load (flash_io (env_flash env))) t of ((rec, out), t1) \<Rightarrow>
             (let e = record_error (res_code rec) (t_last t1);
                  t2 = on_res (\<lambda>r. r\<lparr>tx_record := rec, tx_error := e\<rparr>) t1 in
              if e \<noteq> ESP_OK then (False, t2)
              else if res_generation rec \<noteq> expected \<or> out \<noteq> Some (t_snapshot t2)
              then tx_stop ESP_ERR_INVALID_CRC t2 else (True, t2))))"

definition tx_trace :: "'s nand_env \<Rightarrow> tx_op \<Rightarrow> 's phase" where
  "tx_trace env op = tx_then (tx_run_record env op)
     (tx_then (if op = Op_Load then tx_step (\<lambda>t. t)
               else tx_then (tx_reopen env False) (tx_then (tx_confirm env op)
                 (tx_step (on_res (\<lambda>r. r\<lparr>tx_formatted := True\<rparr>)))))
     (tx_enter TX_Complete))"

definition tx_body :: "'s nand_env \<Rightarrow> tx_op \<Rightarrow> 's phase" where
  "tx_body env op =
     (case op of
        Op_ColdLoad area (Some pol) \<Rightarrow>
          (case cold_page_base area of Some base \<Rightarrow> tx_cold_body env base (tx_cold_load env base pol)
           | None \<Rightarrow> tx_stop ESP_ERR_INVALID_ARG)
      | Op_ColdSave area (Some pol) (Some r) \<Rightarrow>
          (case cold_page_base area of Some base \<Rightarrow> tx_cold_body env base (tx_cold_save env base pol r)
           | None \<Rightarrow> tx_stop ESP_ERR_INVALID_ARG)
      | Op_ColdLoad _ None \<Rightarrow> tx_stop ESP_ERR_INVALID_ARG
      | Op_ColdSave _ _ _ \<Rightarrow> tx_stop ESP_ERR_INVALID_ARG
      | Op_LogLoad \<Rightarrow> tx_journal env op
      | Op_LogAppend _ \<Rightarrow> tx_journal env op
      | Op_LogRead _ \<Rightarrow> tx_journal env op
      | _ \<Rightarrow> tx_trace env op)"

section \<open>Cleanup and admission\<close>

text \<open>\<open>keep\<close>: the first cleanup error is the one reported.\<close>

definition tx_keep :: "esp_err \<Rightarrow> 's tx \<Rightarrow> 's tx" where
  "tx_keep e t = (if tx_cleanup (t_res t) = ESP_OK \<and> e \<noteq> ESP_OK then on_res (\<lambda>r. r\<lparr>tx_cleanup := e\<rparr>) t else t)"

definition tx_keep_call :: "('s \<Rightarrow> esp_err \<times> 's) \<Rightarrow> 's tx \<Rightarrow> esp_err \<times> 's tx" where
  "tx_keep_call f t = (case f (t_dev t) of (e, s) \<Rightarrow> (e, tx_keep e (t\<lparr>t_dev := s\<rparr>)))"

definition tx_reset_pin :: "'s nand_env \<Rightarrow> 's tx \<Rightarrow> nat \<Rightarrow> 's tx" where
  "tx_reset_pin env t pin =
     (if t_touched t AND pin_bit pin \<noteq> 0 then snd (tx_keep_call (env_reset_pin env pin) t) else t)"

definition tx_restore_sleep :: "'s nand_env \<Rightarrow> 's tx \<Rightarrow> nat \<Rightarrow> 's tx" where
  "tx_restore_sleep env t pin =
     (if t_sleep_changed t AND pin_bit pin \<noteq> 0
      then
        let selected = (t_sleep_before t AND pin_bit pin \<noteq> 0);
            t1 = snd (tx_keep_call (if selected then env_sleep_en env pin else env_sleep_dis env pin) t) in
        (case env_get_sleep env pin (t_dev t1) of ((e, slp), s) \<Rightarrow>
           (let t2 = tx_keep e (t1\<lparr>t_dev := s\<rparr>) in
            if e = ESP_OK \<and> slp \<noteq> selected then tx_keep ESP_ERR_INVALID_STATE t2 else t2))
      else t)"

definition tx_cleanup_run :: "'s nand_env \<Rightarrow> 's tx \<Rightarrow> 's tx" where
  "tx_cleanup_run env t0 =
     (let t1 = (if t_nand t0 then (snd (tx_keep_call (env_deinit env) t0))\<lparr>t_nand := False\<rparr> else t0);
          t2 = (if t_device t1 \<and> tx_cleanup (t_res t1) = ESP_OK
                then snd (tx_keep_call (env_remove_device env) t1) else t1) in
      if t_bus t2 \<and> tx_cleanup (t_res t2) = ESP_OK
      then
        (case tx_keep_call (env_bus_free env) t2 of (e, t3) \<Rightarrow>
           if e = ESP_OK
           then foldl (tx_restore_sleep env) (foldl (tx_reset_pin env) t3 nand_pins) nand_pins
           else t3)
      else t2)"

record tx_output =
  out_payload :: "bytes option"
  out_log_page :: "page option"
  out_log_state :: "log_state option"
  out_cold :: "cold_record option"

definition no_output :: tx_output where
  "no_output = \<lparr>out_payload = None, out_log_page = None, out_log_state = None, out_cold = None\<rparr>"

text \<open>Which outputs the public wrappers of the operation pass.\<close>

definition tx_outputs :: "tx_op \<Rightarrow> 's tx \<Rightarrow> tx_output" where
  "tx_outputs op t =
     (case op of
        Op_Load \<Rightarrow> no_output\<lparr>out_payload := Some (t_snapshot t)\<rparr>
      | Op_LogLoad \<Rightarrow> no_output\<lparr>out_log_state := Some (t_log_state t)\<rparr>
      | Op_LogAppend _ \<Rightarrow> no_output\<lparr>out_log_page := Some (t_log_page t), out_log_state := Some (t_log_state t)\<rparr>
      | Op_LogRead _ \<Rightarrow> no_output\<lparr>out_log_page := Some (t_log_page t)\<rparr>
      | Op_ColdLoad _ _ \<Rightarrow> if t_publish t then no_output\<lparr>out_cold := t_expected t\<rparr> else no_output
      | _ \<Rightarrow> no_output)"

text \<open>\<open>finish\<close>: the cleanup, the quarantine flag, and the outputs.\<close>

definition tx_finish :: "'s nand_env \<Rightarrow> tx_op \<Rightarrow> 's tx \<Rightarrow> (tx_result \<times> tx_output \<times> bool) \<times> 's" where
  "tx_finish env op t =
     (let t1 = tx_cleanup_run env t; r = t_res t1 in
      ((r, if tx_error r = ESP_OK \<and> tx_cleanup r = ESP_OK then tx_outputs op t1 else no_output,
        tx_cleanup r \<noteq> ESP_OK), t_dev t1))"

text \<open>The conditions of the moment: lease, driver version, lock, DMA reservation, memory.\<close>

record tx_gates =
  gate_authorized :: bool
  gate_lease :: bool
  gate_version :: u32
  gate_lock :: bool
  gate_dma :: bool
  gate_memory :: bool

definition tx_refuse :: "esp_err \<Rightarrow> tx_stage \<Rightarrow> cold_code \<Rightarrow> tx_result" where
  "tx_refuse e st c = tx_result0\<lparr>tx_error := e, tx_at := st, tx_cold := c\<rparr>"

definition tx_arguments_ok :: "tx_op \<Rightarrow> bool" where
  "tx_arguments_ok op =
     (case op of
        Op_ColdLoad area pol \<Rightarrow> cold_page_base area \<noteq> None \<and> pol \<noteq> None
      | Op_ColdSave area pol r \<Rightarrow> cold_page_base area \<noteq> None \<and> pol \<noteq> None \<and> r \<noteq> None
      | _ \<Rightarrow> True)"

text \<open>
  \<open>transaction\<close>: the result, the outputs, the new value of \<open>cleanupFailed\<close>, and the device.
\<close>

definition nand_transaction ::
  "'s nand_env \<Rightarrow> tx_gates \<Rightarrow> tx_op \<Rightarrow> bool \<Rightarrow> 's \<Rightarrow> (tx_result \<times> tx_output \<times> bool) \<times> 's" where
  "nand_transaction env g op cleanup_failed s =
     (let refuse = (\<lambda>e st c. ((tx_refuse e st c, no_output, cleanup_failed), s)) in
      if \<not> tx_arguments_ok op then refuse ESP_ERR_INVALID_ARG TX_Admission CC_Rejected
      else if \<not> gate_authorized g then refuse ESP_ERR_INVALID_STATE TX_Admission CC_Empty
      else if \<not> gate_lease g then refuse ESP_ERR_INVALID_STATE TX_Admission CC_Empty
      else if gate_version g \<noteq> 0x01040104 then refuse ESP_ERR_NOT_SUPPORTED TX_Admission CC_Empty
      else if \<not> gate_lock g \<or> cleanup_failed then refuse ESP_ERR_INVALID_STATE TX_Admission CC_Empty
      else if \<not> gate_dma g then refuse ESP_ERR_NO_MEM TX_Allocation CC_Empty
      else if \<not> gate_memory g then refuse ESP_ERR_NO_MEM TX_Allocation CC_Empty
      else
        (case tx_then (tx_bus env) (tx_then (tx_pins env) (tx_then (tx_device env)
           (tx_then (tx_geometry env) (tx_body env op)))) (tx_start op s) of
           (_, t) \<Rightarrow> tx_finish env op t))"

end
