(* ===== verification/Nand_Transaction_Safety.thy ===== *)
theory Nand_Transaction_Safety
  imports Nand_Transaction
begin

text \<open>
  What a transaction guarantees: the frame of every phase, the durability of a payload save and of a
  recovery record, and the quarantine after a failed cleanup. The locale \<open>nand_session\<close> states the
  contract of the SDK calls: besides the page operations, none of them changes a logical page.
\<close>

section \<open>Frames\<close>

definition quiet :: "('s \<Rightarrow> 'v) \<Rightarrow> ('s \<Rightarrow> 'r \<times> 's) \<Rightarrow> bool" where
  "quiet pages f \<longleftrightarrow> (\<forall>s. pages (snd (f s)) = pages s)"

lemma quietD: "quiet pages f \<Longrightarrow> f s = (r, s') \<Longrightarrow> pages s' = pages s"
  by (metis quiet_def snd_conv)

text \<open>A phase that stops has set an error.\<close>

definition honest :: "'s phase \<Rightarrow> bool" where
  "honest p \<longleftrightarrow> (\<forall>t t'. p t = (False, t') \<longrightarrow> tx_error (t_res t') \<noteq> ESP_OK)"

text \<open>A phase that keeps the pages and the operands.\<close>

definition tx_view :: "('s \<Rightarrow> 'v) \<Rightarrow> 's tx \<Rightarrow> 'v \<times> bytes \<times> cold_record option" where
  "tx_view pages t = (pages (t_dev t), t_snapshot t, t_expected t)"

definition still :: "('s \<Rightarrow> 'v) \<Rightarrow> 's phase \<Rightarrow> bool" where
  "still pages p \<longleftrightarrow> (\<forall>t. tx_view pages (snd (p t)) = tx_view pages t)"

named_theorems phase_intros \<open>frame and error rules of the phases\<close>

lemma honest_then [phase_intros]: "honest p \<Longrightarrow> honest q \<Longrightarrow> honest (tx_then p q)"
  by (auto simp: honest_def tx_then_def split: prod.splits if_splits)

lemma honest_basic [phase_intros]:
  "honest (tx_step f)" "honest (tx_enter st)" "honest (tx_call g)" "honest (tx_get h k)"
  "e \<noteq> ESP_OK \<Longrightarrow> honest (tx_stop e)" "e \<noteq> ESP_OK \<Longrightarrow> honest (tx_guard b e)"
  by (auto simp: honest_def tx_step_def tx_enter_def tx_call_def tx_get_def tx_stop_def tx_guard_def Let_def
      split: prod.splits if_splits)

lemma honest_all [phase_intros]: "(\<And>x. honest (p x)) \<Longrightarrow> honest (tx_all p xs)"
  by (induction xs) (simp_all add: honest_basic honest_then)

lemma still_then [phase_intros]: "still pages p \<Longrightarrow> still pages q \<Longrightarrow> still pages (tx_then p q)"
  by (auto simp: still_def tx_then_def split: prod.splits if_splits) (metis snd_conv)+

lemma still_basic [phase_intros]:
  "(\<And>t. tx_view pages (f t) = tx_view pages t) \<Longrightarrow> still pages (tx_step f)" "still pages (tx_enter st)"
  "quiet pages g \<Longrightarrow> still pages (tx_call g)"
  "still pages (tx_stop e)" "still pages (tx_guard b e)"
  by (auto simp: still_def tx_step_def tx_enter_def tx_call_def tx_stop_def tx_guard_def tx_view_def
      split: prod.splits dest: quietD)

lemma still_get [phase_intros]:
  "quiet pages h \<Longrightarrow> (\<And>v t. tx_view pages (k v t) = tx_view pages t) \<Longrightarrow> still pages (tx_get h k)"
  by (auto simp: still_def tx_get_def Let_def tx_view_def split: prod.splits if_splits dest: quietD)

lemma still_all [phase_intros]: "(\<And>x. still pages (p x)) \<Longrightarrow> still pages (tx_all p xs)"
  by (induction xs) (simp_all add: still_basic still_then)

lemma stillD: "still pages p \<Longrightarrow> p t = (go, t') \<Longrightarrow> tx_view pages t' = tx_view pages t"
  by (metis still_def snd_conv)

lemma honestD: "honest p \<Longrightarrow> p t = (go, t') \<Longrightarrow> tx_error (t_res t') = ESP_OK \<Longrightarrow> go"
  by (metis honest_def)

lemma tx_thenE:
  assumes "tx_then p q t = (go, t')"
  obtains t1 where "p t = (False, t1)" "\<not> go" "t' = t1" | t1 where "p t = (True, t1)" "q t1 = (go, t')"
  using assms by (cases "p t") (auto simp: tx_then_def split: if_splits)

lemmas esp_all_codes = esp_codes ESP_ERR_NOT_SUPPORTED_def ESP_ERR_NO_MEM_def

section \<open>The bring-up\<close>

locale nand_session = nand_driver "env_flash env" pages
  for env :: "'s nand_env" and pages :: "'s \<Rightarrow> nat \<Rightarrow> page" +
  assumes bus_quiet: "quiet pages (env_bus_init env)" "quiet pages (env_bus_free env)"
    and pin_quiet: "quiet pages (env_get_sleep env pin)" "quiet pages (env_sleep_dis env pin)"
      "quiet pages (env_sleep_en env pin)" "quiet pages (env_set_high env pin)"
      "quiet pages (env_config_pin env pin)" "quiet pages (env_reset_pin env pin)"
    and device_quiet: "quiet pages (env_add_device env)" "quiet pages (env_remove_device env)"
      "quiet pages (env_transmit env a b)"
    and flash_quiet: "quiet pages (env_init env)" "quiet pages (env_deinit env)"
      "quiet pages (env_page_size env)" "quiet pages (env_blocks env)" "quiet pages (env_page_count env)"
begin

lemmas env_quiet = bus_quiet pin_quiet device_quiet flash_quiet

lemma identity_quiet: "quiet pages (flash_identity env)"
  unfolding quiet_def
proof
  fix s
  obtain e0 i0 i1 s0 where t0: "env_transmit env 0x9f 0 s = ((e0, i0, i1), s0)" by (metis surj_pair)
  obtain e1 a0 a1 s1 where t1: "env_transmit env 0x9f 0 s0 = ((e1, a0, a1), s1)" by (metis surj_pair)
  obtain e2 c0 c1 s2 where t2: "env_transmit env 0x0f 0xb0 s1 = ((e2, c0, c1), s2)" by (metis surj_pair)
  obtain e3 d0 d1 s3 where t3: "env_transmit env 0x0f 0xc0 s2 = ((e3, d0, d1), s3)" by (metis surj_pair)
  note Q = quietD [OF device_quiet(3)]
  show "pages (snd (flash_identity env s)) = pages s"
    using Q [OF t0] Q [OF t1] Q [OF t2] Q [OF t3] by (simp add: flash_identity_def t0 t1 t2 t3)
qed

lemma still_disable: "still pages (tx_disable_sleep env pin)"
proof -
  have "still pages (\<lambda>t. case env_get_sleep env pin (t_dev t) of ((e, slp), s) \<Rightarrow>
        (let t1 = on_res (\<lambda>r. r\<lparr>tx_error := e\<rparr>) (t\<lparr>t_dev := s\<rparr>) in
         if e \<noteq> ESP_OK then (False, t1) else if slp then tx_stop ESP_ERR_INVALID_STATE t1 else (True, t1)))"
    by (auto simp: still_def tx_stop_def tx_view_def Let_def split: prod.splits
        dest: quietD [OF pin_quiet(1)])
  then show ?thesis
    unfolding tx_disable_sleep_def
    by (intro still_then still_basic env_quiet) (simp_all add: tx_view_def)
qed


lemma still_bus: "still pages (tx_bus env)"
  unfolding tx_bus_def by (intro phase_intros env_quiet) (simp_all add: tx_view_def)

lemma still_pins: "still pages (tx_pins env)"
  unfolding tx_pins_def tx_read_sleep_def tx_touch_def release_control_def
  by (intro phase_intros env_quiet still_disable) (simp_all add: tx_view_def)

lemma still_open: "still pages (tx_open env)"
  unfolding tx_open_def by (intro phase_intros env_quiet) (simp_all add: tx_view_def)

lemma still_device: "still pages (tx_device env)"
  unfolding tx_device_def tx_touch_def
  by (intro phase_intros env_quiet identity_quiet still_open) (simp_all add: tx_view_def)

lemma still_geometry: "still pages (tx_geometry env)"
  unfolding tx_geometry_def
  by (intro still_then still_basic)
    (auto simp: still_def tx_stop_def tx_view_def Let_def split: prod.splits
      dest!: quietD [OF flash_quiet(3)] quietD [OF flash_quiet(4)] quietD [OF flash_quiet(5)])

lemma still_close: "still pages (tx_close env b)"
  by (auto simp: still_def tx_close_def tx_view_def Let_def split: prod.splits
      dest: quietD [OF flash_quiet(2)])

lemma still_reopen: "still pages (tx_reopen env b)"
  unfolding tx_reopen_def by (intro phase_intros still_close still_open)

end

lemma honest_bring_up [phase_intros]:
  "honest (tx_bus env)" "honest (tx_pins env)" "honest (tx_device env)" "honest (tx_geometry env)"
  "honest (tx_reopen env b)"
proof -
  have r: "honest (release_control env pin)" for pin
    unfolding release_control_def by (intro phase_intros)
  have d: "honest (tx_disable_sleep env pin)" for pin
  proof -
    have "honest (\<lambda>t. case env_get_sleep env pin (t_dev t) of ((e, slp), s) \<Rightarrow>
        (let t1 = on_res (\<lambda>r. r\<lparr>tx_error := e\<rparr>) (t\<lparr>t_dev := s\<rparr>) in
         if e \<noteq> ESP_OK then (False, t1) else if slp then tx_stop ESP_ERR_INVALID_STATE t1 else (True, t1)))"
      by (auto simp: honest_def tx_stop_def Let_def esp_all_codes split: prod.splits if_splits)
    then show ?thesis unfolding tx_disable_sleep_def by (intro honest_then honest_basic)
  qed
  show "honest (tx_bus env)" unfolding tx_bus_def by (intro phase_intros)
  show "honest (tx_pins env)" unfolding tx_pins_def tx_read_sleep_def tx_touch_def by (intro phase_intros r d)
  have o: "honest (tx_open env)" unfolding tx_open_def by (intro phase_intros)
  show "honest (tx_device env)" unfolding tx_device_def tx_touch_def by (intro phase_intros o)
  show "honest (tx_geometry env)"
    unfolding tx_geometry_def
    by (intro honest_then honest_basic)
      (auto simp: honest_def tx_stop_def Let_def esp_all_codes split: prod.splits if_splits)
  have "honest (tx_close env b)" by (auto simp: honest_def tx_close_def Let_def split: prod.splits if_splits)
  then show "honest (tx_reopen env b)" unfolding tx_reopen_def by (intro phase_intros o)
qed

section \<open>The cleanup\<close>

text \<open>The cleanup changes neither a page, nor an operand, nor the error of the operation.\<close>

definition calm :: "('s \<Rightarrow> 'v) \<Rightarrow> 's tx \<Rightarrow> 's tx \<Rightarrow> bool" where
  "calm pages t t' \<longleftrightarrow> tx_view pages t' = tx_view pages t \<and> tx_error (t_res t') = tx_error (t_res t)"

lemma calm_refl [simp]: "calm pages t t"
  by (simp add: calm_def)

lemma calm_trans: "calm pages t t1 \<Longrightarrow> calm pages t1 t2 \<Longrightarrow> calm pages t t2"
  by (simp add: calm_def)

lemma calm_fold: "(\<And>t x. calm pages t (f t x)) \<Longrightarrow> calm pages t (foldl f t xs)"
  by (induction xs arbitrary: t) (auto intro: calm_trans)

lemma calm_keep: "calm pages t (tx_keep e t)"
  by (simp add: calm_def tx_keep_def tx_view_def)

lemma calm_keep_call: "quiet pages f \<Longrightarrow> calm pages t (snd (tx_keep_call f t))"
  by (auto simp: tx_keep_call_def calm_def tx_keep_def tx_view_def split: prod.splits dest: quietD)

context nand_session
begin

lemma calm_reset: "calm pages t (tx_reset_pin env t pin)"
  by (simp add: tx_reset_pin_def calm_keep_call pin_quiet)

lemma calm_restore: "calm pages t (tx_restore_sleep env t pin)"
proof (cases "t_sleep_changed t AND pin_bit pin = 0")
  case True
  then show ?thesis by (simp add: tx_restore_sleep_def)
next
  case False
  define sel where "sel = (t_sleep_before t AND pin_bit pin \<noteq> 0)"
  define t1 where "t1 = snd (tx_keep_call (if sel then env_sleep_en env pin else env_sleep_dis env pin) t)"
  have c1: "calm pages t t1" unfolding t1_def by (rule calm_keep_call) (simp add: pin_quiet)
  obtain e slp s where g: "env_get_sleep env pin (t_dev t1) = ((e, slp), s)" by (metis surj_pair)
  have "calm pages t1 (t1\<lparr>t_dev := s\<rparr>)"
    using quietD [OF pin_quiet(1) g] by (simp add: calm_def tx_view_def)
  then have "calm pages t (tx_keep e' (tx_keep e'' (t1\<lparr>t_dev := s\<rparr>)))"
    "calm pages t (tx_keep e'' (t1\<lparr>t_dev := s\<rparr>))" for e' e''
    using c1 calm_keep calm_trans by metis+
  with False g show ?thesis
    unfolding tx_restore_sleep_def Let_def sel_def [symmetric] t1_def [symmetric] by simp
qed

lemma calm_cleanup: "calm pages t (tx_cleanup_run env t)"
proof -
  define t1 where "t1 = (if t_nand t then (snd (tx_keep_call (env_deinit env) t))\<lparr>t_nand := False\<rparr> else t)"
  define t2 where "t2 = (if t_device t1 \<and> tx_cleanup (t_res t1) = ESP_OK
                then snd (tx_keep_call (env_remove_device env) t1) else t1)"
  have c1: "calm pages t t1"
    using calm_keep_call [OF flash_quiet(2), of t] by (simp add: t1_def calm_def tx_view_def)
  have c2: "calm pages t1 t2"
    using calm_keep_call [OF device_quiet(2), of t1] by (simp add: t2_def)
  obtain e t3 where f: "tx_keep_call (env_bus_free env) t2 = (e, t3)" by fastforce
  have c3: "calm pages t2 t3" using calm_keep_call [OF bus_quiet(2), of t2] f by simp
  have c4: "calm pages t3 (foldl (tx_restore_sleep env) (foldl (tx_reset_pin env) t3 nand_pins) nand_pins)"
    by (rule calm_trans [OF calm_fold calm_fold]) (rule calm_reset calm_restore)+
  have "tx_cleanup_run env t =
      (if t_bus t2 \<and> tx_cleanup (t_res t2) = ESP_OK
       then if e = ESP_OK then foldl (tx_restore_sleep env) (foldl (tx_reset_pin env) t3 nand_pins) nand_pins
         else t3 else t2)"
    by (simp add: tx_cleanup_run_def Let_def t1_def [symmetric] t2_def [symmetric] f)
  with c1 c2 c3 c4 show ?thesis by (metis calm_trans)
qed

section \<open>The frame of a transaction\<close>

text \<open>
  An admitted transaction: the bring-up reaches the operation with the pages as they were, or stops
  with an error; the cleanup changes no page.
\<close>

lemma transaction_cases:
  assumes "nand_transaction env g op cf s = ((r, out, cf'), s')"
  shows "(pages s' = pages s \<and> tx_error r \<noteq> ESP_OK) \<or>
    (\<exists>t go t1. tx_body env op t = (go, t1) \<and> tx_view pages t = tx_view pages (tx_start op s) \<and>
       pages s' = pages (t_dev t1) \<and> tx_error r = tx_error (t_res t1))"
proof (cases "nand_transaction env g op cf s = (case tx_then (tx_bus env) (tx_then (tx_pins env)
    (tx_then (tx_device env) (tx_then (tx_geometry env) (tx_body env op)))) (tx_start op s) of
           (_, t) \<Rightarrow> tx_finish env op t)")
  case False
  then have "s' = s" "tx_error r \<noteq> ESP_OK"
    using assms by (auto simp: nand_transaction_def Let_def tx_refuse_def esp_all_codes split: if_splits)
  then show ?thesis by simp
next
  case True
  let ?pre = "tx_then (tx_bus env) (tx_then (tx_pins env) (tx_then (tx_device env) (tx_geometry env)))"
  obtain go t1 where run: "tx_then (tx_bus env) (tx_then (tx_pins env)
    (tx_then (tx_device env) (tx_then (tx_geometry env) (tx_body env op)))) (tx_start op s) = (go, t1)"
    by fastforce
  have split: "tx_then ?pre (tx_body env op) (tx_start op s) = (go, t1)"
    using run by (auto simp: tx_then_def split: prod.splits if_splits)
  have fin: "pages s' = pages (t_dev t1)" "tx_error r = tx_error (t_res t1)"
    using True assms run calm_cleanup [of t1]
    by (auto simp: tx_finish_def Let_def calm_def tx_view_def split: if_splits)
  have pre: "still pages ?pre" "honest ?pre"
    by (intro still_then still_bus still_pins still_device still_geometry) (intro phase_intros)
  from split show ?thesis
  proof (cases rule: tx_thenE)
    case (1 t)
    have "tx_view pages t = tx_view pages (tx_start op s)" by (rule stillD [OF pre(1) 1(1)])
    then show ?thesis
      using 1 fin honestD [OF pre(2) 1(1)] by (auto simp: tx_view_def tx_start_def)
  next
    case (2 t)
    have "tx_view pages t = tx_view pages (tx_start op s)" by (rule stillD [OF pre(1) 2(1)])
    with 2 fin show ?thesis by blast
  qed
qed

end

section \<open>Saving the payload\<close>

lemma tx_page_frame:
  assumes "tx_page f t = (r, t')"
  obtains s' e where "f (t_dev t, t_last t) = (r, (s', e))" "t' = t\<lparr>t_dev := s', t_last := e\<rparr>"
  using assms by (auto simp: tx_page_def split: prod.splits)

context nand_session
begin

lemma save_run:
  assumes "tx_run_record env (Op_Save input) t = (go, t')" "nand_inv (pages (t_dev t))"
    "length (t_snapshot t) = payload_size"
  shows "save_outcome (pages (t_dev t)) (t_snapshot t) go (pages (t_dev t')) \<and>
    t_snapshot t' = t_snapshot t \<and> (go \<longleftrightarrow> tx_error (t_res t') = ESP_OK)"
proof -
  obtain res s1 e1 where sv: "nand_save (flash_io (env_flash env)) (t_snapshot t) (t_dev t, t_last t) = (res, (s1, e1))"
    by (metis surj_pair)
  have out: "save_outcome (pages (t_dev t)) (t_snapshot t) (res_code res = NC_Ok) (pages s1)"
    using hot.save_spec [OF sv] assms(2,3) by simp
  have "go \<longleftrightarrow> record_error (res_code res) e1 = ESP_OK" "t_dev t' = s1" "t_snapshot t' = t_snapshot t"
    "tx_error (t_res t') = record_error (res_code res) e1"
    using assms(1) by (auto simp: tx_run_record_def tx_then_def tx_page_def sv Let_def)
  with out show ?thesis by (simp add: record_error_ok)
qed

lemma still_confirm: "still pages (tx_confirm env (Op_Save input))"
  by (auto simp: still_def tx_confirm_def tx_page_def tx_stop_def tx_view_def Let_def split: prod.splits
      dest!: hot.load_spec(1))

lemma honest_confirm: "honest (tx_confirm env (Op_Save input))"
  by (auto simp: honest_def tx_confirm_def tx_page_def tx_stop_def Let_def esp_codes split: prod.splits if_splits)

lemma save_transaction:
  assumes "nand_transaction env g (Op_Save input) cf s = ((r, out, cf'), s')" "nand_inv (pages s)"
    "length input = payload_size"
  shows "save_outcome (pages s) input (tx_error r = ESP_OK) (pages s') \<or>
    save_outcome (pages s) input True (pages s') \<and> tx_error r \<noteq> ESP_OK"
  using transaction_cases [OF assms(1)]
proof (elim disjE exE conjE)
  assume "pages s' = pages s" "tx_error r \<noteq> ESP_OK"
  then show ?thesis using assms(2) by (simp add: save_outcome_def)
next
  fix t go t1
  assume b: "tx_body env (Op_Save input) t = (go, t1)" and v: "tx_view pages t = tx_view pages (tx_start (Op_Save input) s)"
    and e: "pages s' = pages (t_dev t1)" "tx_error r = tx_error (t_res t1)"
  have t: "pages (t_dev t) = pages s" "t_snapshot t = input"
    using v by (simp_all add: tx_view_def tx_start_def)
  define rest where "rest = tx_then (tx_then (tx_reopen env False) (tx_then (tx_confirm env (Op_Save input))
                 (tx_step (on_res (\<lambda>r. r\<lparr>tx_formatted := True\<rparr>))))) (tx_enter TX_Complete)"
  have quiet_rest: "still pages rest" "honest rest"
    unfolding rest_def by (intro phase_intros still_reopen still_confirm honest_confirm; simp add: tx_view_def)+
  have "tx_then (tx_run_record env (Op_Save input)) rest t = (go, t1)"
    using b by (simp add: tx_body_def tx_trace_def rest_def)
  then show ?thesis
  proof (cases rule: tx_thenE)
    case (1 t2)
    from save_run [OF 1(1)] t assms(2,3) 1 e show ?thesis by auto
  next
    case (2 t2)
    from save_run [OF 2(1)] t assms(2,3)
    have o: "save_outcome (pages s) input True (pages (t_dev t2))" by simp
    have p: "pages (t_dev t1) = pages (t_dev t2)"
      using stillD [OF quiet_rest(1) 2(2)] by (simp add: tx_view_def)
    with o e show ?thesis by (cases "tx_error r = ESP_OK") simp_all
  qed
qed

end

text \<open>C1: A payload save through the whole transaction, with a driver and SDK calls that may fail at
  any point: the stored record is the old one or the complete new one, the store invariant holds
  afterwards, and a transaction that reports no error has stored the new payload.\<close>

theorem save_transaction_durable:
  assumes "nand_session env pages" "nand_inv (pages s)" "length input = payload_size"
    "nand_transaction env g (Op_Save input) cf s = ((r, out, cf'), s')"
  shows "nand_inv (pages s') \<and>
    (stored (pages s') = stored (pages s) \<and> tx_error r \<noteq> ESP_OK \<or>
     stored (pages s') = Some (next_slot (pages s), next_generation (pages s), input))"
  using nand_session.save_transaction [OF assms(1,4,2,3)] by (auto simp: save_outcome_def)

section \<open>A session on plain memory\<close>

definition ram_env :: "(nat \<Rightarrow> page) nand_env" where
  "ram_env = \<lparr>env_flash = ram_driver, env_bus_init = (\<lambda>s. (ESP_OK, s)), env_bus_free = (\<lambda>s. (ESP_OK, s)),
     env_get_sleep = (\<lambda>_ s. ((ESP_OK, False), s)), env_sleep_dis = (\<lambda>_ s. (ESP_OK, s)),
     env_sleep_en = (\<lambda>_ s. (ESP_OK, s)), env_set_high = (\<lambda>_ s. (ESP_OK, s)),
     env_config_pin = (\<lambda>_ s. (ESP_OK, s)), env_reset_pin = (\<lambda>_ s. (ESP_OK, s)),
     env_add_device = (\<lambda>s. (ESP_OK, s)), env_remove_device = (\<lambda>s. (ESP_OK, s)),
     env_transmit = (\<lambda>c a s. ((ESP_OK, if c = 0x9f then 0xc8 else if a = 0xb0 then 0x10 else 0, 0x91), s)),
     env_init = (\<lambda>s. (ESP_OK, s)), env_deinit = (\<lambda>s. (ESP_OK, s)),
     env_page_size = (\<lambda>s. ((ESP_OK, 2048), s)), env_blocks = (\<lambda>s. ((ESP_OK, 1024), s)),
     env_page_count = (\<lambda>s. ((ESP_OK, 60000), s)), env_erase = (\<lambda>_. (ESP_OK, \<lambda>_. replicate 2048 255))\<rparr>"

interpretation ram_session: nand_session ram_env ram_view
proof -
  have "nand_driver (env_flash ram_env) ram_view"
    using ram_map.nand_driver_axioms by (simp add: ram_env_def)
  then show "nand_session ram_env ram_view"
    by (simp add: nand_session_def nand_session_axioms_def quiet_def ram_env_def)
qed

definition open_gates :: tx_gates where
  "open_gates = \<lparr>gate_authorized = True, gate_lease = True, gate_version = 0x01040104, gate_lock = True,
     gate_dma = True, gate_memory = True\<rparr>"

lemma save_transaction_durable_witness:
  "\<exists>r out cf' s'. nand_transaction ram_env open_gates (Op_Save (replicate payload_size 7)) False fresh_chip =
     ((r, out, cf'), s') \<and> nand_inv (ram_view s')"
proof -
  obtain r out cf' s' where run: "nand_transaction ram_env open_gates (Op_Save (replicate payload_size 7)) False
      fresh_chip = ((r, out, cf'), s')" by (metis surj_pair)
  have l: "length (replicate payload_size (7 :: u8)) = payload_size" by simp
  from save_transaction_durable [OF ram_session.nand_session_axioms fresh_chip_inv l run] run
  show ?thesis by blast
qed

section \<open>Saving a recovery record\<close>

definition outside_pair :: "nat \<Rightarrow> (nat \<Rightarrow> page) \<Rightarrow> nat \<Rightarrow> page" where
  "outside_pair base C n = (if n = base \<or> n = base + 1 then zero_page else C n)"

lemma outside_pair_eq: "outside_pair base C = outside_pair base D \<longleftrightarrow> (\<forall>n. n \<noteq> base \<and> n \<noteq> base + 1 \<longrightarrow> C n = D n)"
  by (auto simp: outside_pair_def fun_eq_iff split: if_splits)

lemma still_outside: "still pages p \<Longrightarrow> still (\<lambda>s. outside_pair base (pages s)) p"
  by (simp add: still_def tx_view_def)

text \<open>Phases that run on the page operations.\<close>

lemma tx_page_pages:
  "tx_page f t = (x, t') \<Longrightarrow> (\<And>st x st'. f st = (x, st') \<Longrightarrow> K (fst st') = K (fst st)) \<Longrightarrow>
    K (t_dev t') = K (t_dev t)"
  by (fastforce simp: tx_page_def split: prod.splits)

text \<open>A failed page read has set \<open>lastError\<close>.\<close>

lemma flash_read_error: "io_read (flash_io drv) n st = (None, (s', e)) \<Longrightarrow> e \<noteq> ESP_OK"
  by (auto simp: flash_io_def split: prod.splits if_splits)

lemma digests_error: "tx_digests (flash_io drv) ns st = (None, st') \<Longrightarrow> snd st' \<noteq> ESP_OK"
  by (induction ns arbitrary: st st') (auto split: prod.splits option.splits dest: flash_read_error)

lemma compare_error: "tx_compare (flash_io drv) nds st = (None, st') \<Longrightarrow> snd st' \<noteq> ESP_OK"
proof (induction nds arbitrary: st)
  case Nil
  then show ?case by simp
next
  case (Cons nd nds)
  obtain x s1 e1 where r: "io_read (flash_io drv) (fst nd) st = (x, (s1, e1))" by (metis surj_pair)
  show ?case
  proof (cases x)
    case None
    with r have "e1 \<noteq> ESP_OK" by (auto simp: flash_io_def split: prod.splits if_splits)
    with Cons.prems r None show ?thesis by (cases nd) auto
  next
    case (Some p)
    with Cons.prems r Cons.IH [of "(s1, e1)"] show ?thesis by (cases nd) (simp split: if_splits)
  qed
qed

lemma tx_page_error:
  "tx_page f t = (None, t') \<Longrightarrow> (\<And>st st'. f st = (None, st') \<Longrightarrow> snd st' \<noteq> ESP_OK) \<Longrightarrow> t_last t' \<noteq> ESP_OK"
  by (fastforce simp: tx_page_def split: prod.splits)

context nand_session
begin

lemma digests_quiet: "tx_digests (flash_io (env_flash env)) ns st = (x, st') \<Longrightarrow> pages (fst st') = pages (fst st)"
proof (induction ns arbitrary: st x st')
  case Nil
  then show ?case by simp
next
  case (Cons n ns)
  then show ?case by (auto split: prod.splits option.splits dest!: hot.read_frame) 
qed

lemma compare_quiet: "tx_compare (flash_io (env_flash env)) nds st = (x, st') \<Longrightarrow> pages (fst st') = pages (fst st)"
proof (induction nds arbitrary: st)
  case Nil
  then show ?case by simp
next
  case (Cons nd nds)
  then show ?case
    by (cases nd) (auto split: prod.splits option.splits if_splits dest!: hot.read_frame)
qed

end

locale cold_session = nand_session env pages
  for env :: "'s nand_env" and pages :: "'s \<Rightarrow> nat \<Rightarrow> page" +
  fixes area :: cold_area and base :: nat
  assumes area_base: "cold_page_base area = Some base"

sublocale cold_session \<subseteq> nand_record_pair "env_flash env" pages area base
  by unfold_locales (rule area_base)

context cold_session
begin

lemma cold_load_quiet:
  assumes "cold_load (cold_io (flash_io (env_flash env)) base) pol st = (x, st')"
  shows "pages (fst st') = pages (fst st)"
proof
  fix n
  have w: "cold_window (pages (fst st')) base = cold_window (pages (fst st)) base"
    using cold.cold_load_spec [OF assms] by simp
  show "pages (fst st') n = pages (fst st) n"
  proof (cases "n = base \<or> n = base + 1")
    case True
    then show ?thesis using fun_cong [OF w, of 8] fun_cong [OF w, of 9] by (auto simp: cold_window_def)
  next
    case False
    then show ?thesis using cold_load_keeps [OF outside_kept assms] by simp
  qed
qed

lemma honest_check_cold: "honest (tx_check_cold c)"
  by (auto simp: honest_def tx_check_cold_def Let_def)

lemma still_check_cold: "still K (tx_check_cold c)" "still K tx_cold_verify" "still K tx_io_error"
  by (simp_all add: still_def tx_check_cold_def tx_cold_verify_def tx_io_error_def tx_stop_def tx_view_def Let_def)

lemma cold_reload_run:
  assumes run: "tx_cold_reload env base pol r ds t = (go, t')"
  shows "pages (t_dev t') = pages (t_dev t) \<and> (go \<or> tx_error (t_res t') \<noteq> ESP_OK) \<and>
    (go \<longrightarrow> (\<exists>k. cold_view pol (cold_window (pages (t_dev t)) base) = (CC_Ready, Some (k, r))))"
proof -
  obtain lc loaded t4 where ld: "tx_page (cold_load (cold_io (flash_io (env_flash env)) base) pol) t =
      ((lc, loaded), t4)" by (metis surj_pair)
  have p4: "pages (t_dev t4) = pages (t_dev t)"
    by (rule tx_page_pages [OF ld]) (rule cold_load_quiet)
  have v: "lc \<noteq> CC_Io \<Longrightarrow> cold_view pol (cold_window (pages (t_dev t)) base) = (lc, loaded)"
    using ld cold.cold_load_spec by (fastforce simp: tx_page_def split: prod.splits)
  have cmp: "pages (t_dev t6) = pages (t_dev t5) \<and> (x = None \<longrightarrow> t_last t6 \<noteq> ESP_OK)"
    if "tx_page (tx_compare (flash_io (env_flash env)) nds) t5 = (x, t6)" for nds t5 x t6
  proof
    show "pages (t_dev t6) = pages (t_dev t5)" by (rule tx_page_pages [OF that]) (rule compare_quiet)
    show "x = None \<longrightarrow> t_last t6 \<noteq> ESP_OK"
    proof
      assume "x = None"
      with that have "tx_page (tx_compare (flash_io (env_flash env)) nds) t5 = (None, t6)" by simp
      then show "t_last t6 \<noteq> ESP_OK" by (rule tx_page_error) (rule compare_error)
    qed
  qed
  show ?thesis
    using run p4 v
    by (auto simp: tx_cold_reload_def ld tx_then_def tx_check_cold_def tx_cold_verify_def tx_io_error_def tx_stop_def
        Let_def same_cold_record_eq esp_codes split: prod.splits option.splits if_splits dest!: cmp)
qed

lemma cold_save_outside:
  assumes "tx_page (cold_save (cold_io (flash_io (env_flash env)) base) pol r True False) t = (c, t')"
  shows "outside_pair base (pages (t_dev t')) = outside_pair base (pages (t_dev t))"
  using assms cold_save_isolated
  by (fastforce simp: tx_page_def outside_pair_eq split: prod.splits)

lemma cold_save_run:
  assumes "tx_cold_save env base pol r t = (go, t')"
  shows "outside_pair base (pages (t_dev t')) = outside_pair base (pages (t_dev t)) \<and>
    (go \<or> tx_error (t_res t') \<noteq> ESP_OK) \<and>
    (go \<longrightarrow> (\<exists>k. cold_view pol (cold_window (pages (t_dev t')) base) = (CC_Ready, Some (k, r))))"
proof (cases "tx_pages (t_res t) < 18")
  case True
  with assms show ?thesis by (auto simp: tx_cold_save_def tx_then_def tx_guard_def tx_stop_def esp_all_codes)
next
  case False
  obtain ds t1 where dg: "tx_page (tx_digests (flash_io (env_flash env)) (cold_protected base)) t = (ds, t1)"
    by fastforce
  have p1: "pages (t_dev t1) = pages (t_dev t)"
    by (rule tx_page_pages [OF dg]) (rule digests_quiet)
  show ?thesis
  proof (cases ds)
    case None
    with dg have "tx_page (tx_digests (flash_io (env_flash env)) (cold_protected base)) t = (None, t1)" by simp
    then have "t_last t1 \<noteq> ESP_OK" by (rule tx_page_error) (rule digests_error)
    with None assms False p1 dg show ?thesis by (auto simp: tx_cold_save_def tx_then_def tx_guard_def tx_io_error_def tx_stop_def)
  next
    case (Some d)
    obtain code t2 where sv: "tx_page (cold_save (cold_io (flash_io (env_flash env)) base) pol r True False) t1 =
        (code, t2)" by fastforce
    note p2 = cold_save_outside [OF sv]
    have "tx_then (tx_check_cold code) (tx_then (tx_reopen env True) (tx_cold_reload env base pol r d)) t2 = (go, t')"
      using assms False dg Some sv by (simp add: tx_cold_save_def tx_then_def [of "tx_guard _ _"] tx_guard_def)
    then show ?thesis
    proof (cases rule: tx_thenE)
      case (1 t3)
      with stillD [OF still_check_cold(1) 1(1), of pages] honestD [OF honest_check_cold 1(1)] p1 p2
      show ?thesis by (auto simp: tx_view_def)
    next
      case (2 t3)
      have p3: "pages (t_dev t3) = pages (t_dev t2)"
        using stillD [OF still_check_cold(1) 2(1), of pages] by (simp add: tx_view_def)
      from 2(2) show ?thesis
      proof (cases rule: tx_thenE)
        case (1 t4)
        have "honest (tx_reopen env True)" by (intro phase_intros)
        with stillD [OF still_reopen 1(1)] 1 p1 p2 p3 show ?thesis
          by (auto simp: tx_view_def dest: honestD)
      next
        case (2 t4)
        with stillD [OF still_reopen 2(1)] p1 p2 p3 cold_reload_run [OF 2(2)] show ?thesis
          by (auto simp: tx_view_def)
      qed
    qed
  qed
qed

lemma cold_transaction:
  assumes "nand_transaction env g (Op_ColdSave area (Some pol) (Some r0)) cf s = ((r, out, cf'), s')"
  shows "outside_pair base (pages s') = outside_pair base (pages s) \<and>
    (tx_error r = ESP_OK \<longrightarrow>
      (\<exists>k. cold_view pol (cold_window (pages s') base) = (CC_Ready, Some (k, r0))))"
  using transaction_cases [OF assms]
proof (elim disjE exE conjE)
  assume "pages s' = pages s" "tx_error r \<noteq> ESP_OK"
  then show ?thesis by simp
next
  fix t go t1
  assume b: "tx_body env (Op_ColdSave area (Some pol) (Some r0)) t = (go, t1)"
    and v: "tx_view pages t = tx_view pages (tx_start (Op_ColdSave area (Some pol) (Some r0)) s)"
    and e: "pages s' = pages (t_dev t1)" "tx_error r = tx_error (t_res t1)"
  have t: "pages (t_dev t) = pages s" using v by (simp add: tx_view_def tx_start_def)
  define pre where "pre = tx_then (tx_guard (\<lambda>t :: 's tx. \<not> unat (tx_pages (t_res t)) < base + 2) ESP_ERR_NOT_SUPPORTED)
    (tx_enter TX_Record)"
  have pre: "still pages pre" "honest pre" "still pages (tx_finished :: 's phase)" "honest (tx_finished :: 's phase)"
    unfolding pre_def tx_finished_def by (intro phase_intros; simp add: tx_view_def esp_all_codes)+
  have "tx_then pre (tx_then (tx_cold_save env base pol r0) tx_finished) t = (go, t1)"
    using b area_base by (auto simp: tx_body_def tx_cold_body_def pre_def tx_then_def split: prod.splits if_splits)
  then show ?thesis
  proof (cases rule: tx_thenE)
    case (1 t2)
    with stillD [OF pre(1) 1(1)] honestD [OF pre(2) 1(1)] e t show ?thesis by (auto simp: tx_view_def)
  next
    case (2 t2)
    have p2: "pages (t_dev t2) = pages s" using stillD [OF pre(1) 2(1)] t by (simp add: tx_view_def)
    from 2(2) show ?thesis
    proof (cases rule: tx_thenE)
      case (1 t3)
      with cold_save_run [OF 1(1)] p2 e show ?thesis by auto
    next
      case (2 t3)
      with cold_save_run [OF 2(1)] stillD [OF pre(3) 2(2)] p2 e show ?thesis by (auto simp: tx_view_def)
    qed
  qed
qed

end

interpretation ram_journal: cold_session ram_env ram_view Journal 8
  by unfold_locales (simp add: cold_page_base_def)

interpretation ram_proof: cold_session ram_env ram_view Proof 12
  by unfold_locales (simp add: cold_page_base_def)

text \<open>C14: A recovery record saved through the whole transaction: every page outside the pair of the
  chosen area is as before, whatever fails, and when no error is reported a fresh load of the area
  selects exactly the record that was saved.\<close>

theorem cold_transaction_durable:
  assumes "nand_session env pages" "cold_page_base area = Some base"
    "nand_transaction env g (Op_ColdSave area (Some pol) (Some rec)) cf s = ((r, out, cf'), s')"
  shows "(\<forall>n. n \<noteq> base \<and> n \<noteq> base + 1 \<longrightarrow> pages s' n = pages s n) \<and>
    (tx_error r = ESP_OK \<longrightarrow>
      (\<exists>k. cold_view pol (cold_window (pages s') base) = (CC_Ready, Some (k, rec))))"
proof -
  have "cold_session env pages area base"
    using assms(1,2) by (simp add: cold_session_def cold_session_axioms_def)
  from cold_session.cold_transaction [OF this assms(3)] show ?thesis by (simp add: outside_pair_eq)
qed

lemma cold_transaction_durable_witness:
  "\<exists>r out cf' s'. nand_transaction ram_env open_gates (Op_ColdSave Proof (Some any_policy) (Some cold_sample)) False
     cold_blank_map = ((r, out, cf'), s') \<and> ram_view s' 0 = ram_view cold_blank_map 0"
proof -
  obtain r out cf' s' where run: "nand_transaction ram_env open_gates
      (Op_ColdSave Proof (Some any_policy) (Some cold_sample)) False cold_blank_map = ((r, out, cf'), s')"
    by (metis surj_pair)
  have "cold_page_base Proof = Some 12" by (simp add: cold_page_base_def)
  from cold_transaction_durable [OF ram_session.nand_session_axioms this run] run show ?thesis by auto
qed

section \<open>Quarantine\<close>

text \<open>C15: Outputs are published only by a transaction without any error; a failed cleanup is
  remembered, and from then on every transaction is refused without touching the device.\<close>

theorem transaction_quarantine:
  "case nand_transaction env g op cf s of ((r, out, cf'), s') \<Rightarrow>
     (out = no_output \<or> tx_error r = ESP_OK \<and> tx_cleanup r = ESP_OK \<and> \<not> cf') \<and>
     (tx_cleanup r = ESP_OK \<or> cf') \<and>
     (\<not> cf \<or> cf' \<and> s' = s \<and> out = no_output \<and> tx_error r \<noteq> ESP_OK)"
  by (auto simp: nand_transaction_def tx_finish_def Let_def tx_refuse_def tx_result0_def esp_all_codes
      split: prod.splits)

lemma transaction_quarantine_witness:
  "case nand_transaction ram_env open_gates Op_Load True fresh_chip of ((r, out, cf'), s') \<Rightarrow>
     cf' \<and> s' = fresh_chip \<and> out = no_output \<and> tx_error r \<noteq> ESP_OK"
  using transaction_quarantine [where env = ram_env and g = open_gates and op = Op_Load and cf = True and s = fresh_chip] by (auto split: prod.splits)

end
