(* ===== verification/Trace_Backend.thy ===== *)
theory Trace_Backend
  imports Trace_Codec Nand_Transaction_Safety
begin

text \<open>
  The NAND side of the trace store (\<open>main/host/gauge_trace_nand_backend.cpp\<close>): the persistent policy
  that says which medium holds the trace, the admission checks, loading and saving through the
  flash transactions, and the one-time migration from NVS by the worker task. The answers of NVS,
  of the OTA service and of the gauge are inputs; a write to NVS may or may not reach the flash,
  whatever it answers.
\<close>

section \<open>State and inputs\<close>

definition ESP_ERR_NVS_NOT_FOUND :: esp_err where "ESP_ERR_NVS_NOT_FOUND = 0x1102"

text \<open>The fields of \<open>Hal::BatteryTelemetry\<close> that the trace uses.\<close>

record telemetry =
  tm_valid :: bool
  tm_capacity_valid :: bool
  tm_nominal :: bool
  tm_soc :: u8
  tm_mv :: u16
  tm_current :: u16
  tm_average :: u16
  tm_remaining :: u16
  tm_full :: u16
  tm_design :: u16
  tm_operation :: u16
  tm_battery :: u16
  tm_health :: u16
  tm_cycles :: u16
  tm_temperature :: u16
  tm_temperature_valid :: bool
  tm_raw :: u16
  tm_raw_valid :: bool
  tm_unit_factor :: int
  tm_unit_verified :: bool

datatype policy = P_Unknown | P_Nvs | P_Pending | P_Nand | P_Fault
datatype bk_phase = B_Idle | B_Admission | B_Queued | B_Pending | B_Format | B_Migrate | B_Activate | B_Ready | B_Failed

record backend =
  bk_policy :: policy
  bk_phase :: bk_phase
  bk_working :: bool
  bk_format_attempted :: bool
  bk_retry :: bool
  bk_nvs_error :: esp_err
  bk_nvs_stage :: nat
  bk_nand_error :: esp_err
  bk_cleanup_error :: esp_err
  bk_nand_stage :: tx_stage
  bk_record_code :: nand_code
  bk_record_stage :: nand_stage
  bk_completed :: u32
  bk_total :: u32
  bk_generation :: u64

definition backend0 :: backend where
  "backend0 = \<lparr>bk_policy = P_Unknown, bk_phase = B_Idle, bk_working = False, bk_format_attempted = False,
     bk_retry = False, bk_nvs_error = ESP_OK, bk_nvs_stage = 0, bk_nand_error = ESP_OK,
     bk_cleanup_error = ESP_OK, bk_nand_stage = TX_Admission, bk_record_code = NC_Ok,
     bk_record_stage = NS_Marker, bk_completed = 0, bk_total = 0, bk_generation = 0\<rparr>"

text \<open>What survives a restart, and the cleanup fence of the transactions, which does not.\<close>

record 's medium =
  md_key :: "u8 option"
  md_dev :: 's
  md_fence :: bool

record nvs_answers =
  na_open :: esp_err
  na_get :: esp_err
  na_open_w :: esp_err
  na_set :: "esp_err \<times> bool"
  na_commit :: "esp_err \<times> bool"
  na_reopen :: esp_err
  na_reget :: esp_err

record admission_facts =
  af_ota_busy :: bool
  af_health_pending :: bool
  af_running_valid :: bool
  af_locked :: bool
  af_power_phase :: nat
  af_wifi :: bool
  af_advertising :: bool
  af_connected :: bool
  af_telemetry :: telemetry
  af_ota_busy_after :: bool
  af_health_after :: bool

section \<open>The policy key\<close>

definition nvs_get_u8 :: "esp_err \<Rightarrow> u8 option \<Rightarrow> esp_err \<times> u8" where
  "nvs_get_u8 answer key =
     (if answer \<noteq> ESP_OK then (answer, 0)
      else case key of None \<Rightarrow> (ESP_ERR_NVS_NOT_FOUND, 0) | Some v \<Rightarrow> (ESP_OK, v))"

definition read_policy :: "nvs_answers \<Rightarrow> u8 option \<Rightarrow> backend \<Rightarrow> bool \<times> backend" where
  "read_policy n key b =
     (if bk_policy b \<noteq> P_Unknown then (bk_policy b = P_Nvs \<or> bk_policy b = P_Nand, b)
      else
        (let b = b\<lparr>bk_nvs_stage := (if na_open n = ESP_OK then 2 else 1)\<rparr>;
             (err, v) = (if na_open n = ESP_OK then nvs_get_u8 (na_get n) key else (na_open n, 0)) in
         if err = ESP_ERR_NVS_NOT_FOUND then (True, b\<lparr>bk_policy := P_Nvs\<rparr>)
         else
           (let b = b\<lparr>bk_nvs_error := err\<rparr> in
            if err \<noteq> ESP_OK then (False, b\<lparr>bk_policy := P_Fault, bk_phase := B_Failed\<rparr>)
            else if v = 1 then (False, b\<lparr>bk_policy := P_Pending, bk_phase := B_Failed\<rparr>)
            else if v = 2 then (True, b\<lparr>bk_policy := P_Nand\<rparr>)
            else (False, b\<lparr>bk_nvs_error := ESP_ERR_INVALID_STATE, bk_policy := P_Fault, bk_phase := B_Failed\<rparr>))))"

text \<open>A write call: its answer, and whether the value has reached the flash.\<close>

definition nvs_put :: "esp_err \<times> bool \<Rightarrow> u8 \<Rightarrow> u8 option \<Rightarrow> u8 option" where
  "nvs_put w v key = (if snd w then Some v else key)"

definition write_policy :: "nvs_answers \<Rightarrow> u8 \<Rightarrow> u8 option \<Rightarrow> backend \<Rightarrow> bool \<times> u8 option \<times> backend" where
  "write_policy n v key b =
     (let (err, stage, key) =
            (if na_open_w n \<noteq> ESP_OK then (na_open_w n, 3, key)
             else let key = nvs_put (na_set n) v key in
               if fst (na_set n) \<noteq> ESP_OK then (fst (na_set n), 4, key)
               else (fst (na_commit n), 5, nvs_put (na_commit n) v key));
          (err, stage) =
            (if err \<noteq> ESP_OK then (err, stage)
             else if na_reopen n \<noteq> ESP_OK then (na_reopen n, 6)
             else case nvs_get_u8 (na_reget n) key of (e, actual) \<Rightarrow>
               (if e = ESP_OK \<and> actual \<noteq> v then ESP_ERR_INVALID_STATE else e, 7 :: nat));
          b = b\<lparr>bk_nvs_stage := stage, bk_nvs_error := err\<rparr>
      in if err \<noteq> ESP_OK then (False, key, b\<lparr>bk_policy := P_Fault\<rparr>)
         else (True, key, b\<lparr>bk_policy := (if v = 1 then P_Pending else P_Nand)\<rparr>))"

section \<open>Admission\<close>

definition bk_admission :: "bool \<Rightarrow> admission_facts \<Rightarrow> bool" where
  "bk_admission format a =
     (let t = af_telemetry a; still = \<not> af_ota_busy_after a \<and> \<not> af_health_after a in
      if af_ota_busy a \<or> af_health_pending a then False
      else if \<not> af_running_valid a then False
      else if \<not> format
      then tm_valid t \<and> tm_mv t \<ge> 3300 \<and> tm_temperature_valid t \<and> tm_temperature t \<ge> 2832 \<and> tm_temperature t \<le> 3182 \<and> still
      else if \<not> af_locked a \<or> af_power_phase a \<noteq> 2 \<or> af_wifi a \<or> af_advertising a \<or> af_connected a then False
      else tm_valid t \<and> tm_capacity_valid t \<and> tm_temperature_valid t \<and> tm_nominal t \<and> tm_mv t \<ge> 3900 \<and>
        tm_temperature t \<ge> 2832 \<and> tm_temperature t \<le> 3182 \<and> tm_design t = 65 \<and> tm_full t = 65 \<and>
        tm_operation t AND 0x0401 = 0 \<and> tm_operation t AND 0x20 \<noteq> 0 \<and> drop_bit 1 (tm_operation t) AND 3 = 3 \<and> still)"

definition retain_result :: "tx_result \<Rightarrow> backend \<Rightarrow> bool \<times> backend" where
  "retain_result r b =
     (tx_error r = ESP_OK \<and> tx_cleanup r = ESP_OK,
      b\<lparr>bk_nand_error := tx_error r, bk_cleanup_error := tx_cleanup r, bk_nand_stage := tx_at r,
        bk_record_code := res_code (tx_record r), bk_record_stage := res_stage (tx_record r),
        bk_generation := res_generation (tx_record r)\<rparr>)"

definition bk_crc_valid :: "bytes \<Rightarrow> bool" where
  "bk_crc_valid b \<longleftrightarrow> get_le b 3104 4 = crc32 (take 3104 b)"

definition bk_progress :: "u32 \<times> u32 \<Rightarrow> backend \<Rightarrow> backend" where
  "bk_progress p b = b\<lparr>bk_completed := fst p, bk_total := snd p\<rparr>"

section \<open>Loading and saving\<close>

text \<open>The conditions of one call: the lock, NVS, admission, memory, and the gates of the transaction.\<close>

record call_facts =
  cf_lock :: bool
  cf_nvs :: nvs_answers
  cf_admission :: admission_facts
  cf_memory :: bool
  cf_gates :: tx_gates

definition bk_transaction :: "'s nand_env \<Rightarrow> tx_gates \<Rightarrow> tx_op \<Rightarrow> 's medium \<Rightarrow> tx_result \<times> tx_output \<times> 's medium" where
  "bk_transaction env g op w =
     (case nand_transaction env g op (md_fence w) (md_dev w) of ((r, out, fence), s) \<Rightarrow>
        (r, out, w\<lparr>md_dev := s, md_fence := fence\<rparr>))"

definition clean_refusal :: "tx_result \<Rightarrow> bool" where
  "clean_refusal r \<longleftrightarrow> tx_cleanup r = ESP_OK \<and>
     (((tx_at r = TX_Allocation \<or> tx_at r = TX_Init) \<and> tx_error r = ESP_ERR_NO_MEM) \<or>
      (tx_at r = TX_Bus \<and> (tx_error r = ESP_ERR_INVALID_STATE \<or> tx_error r = ESP_ERR_NO_MEM)))"

text \<open>The canonical blob when the call returned true, and \<open>selected\<close>.\<close>

definition bk_load :: "'s nand_env \<Rightarrow> call_facts \<Rightarrow> backend \<Rightarrow> 's medium \<Rightarrow> bytes option \<times> bool \<times> backend \<times> 's medium" where
  "bk_load env c b w =
     (let b = b\<lparr>bk_retry := False\<rparr> in
      if \<not> cf_lock c \<or> bk_working b then (None, True, b\<lparr>bk_retry := True\<rparr>, w)
      else
        (case read_policy (cf_nvs c) (md_key w) b of (known, b) \<Rightarrow>
           if \<not> known then (None, True, b, w)
           else if bk_policy b = P_Nvs then (None, False, b, w)
           else if bk_policy b \<noteq> P_Nand then (None, True, b, w)
           else if \<not> bk_admission False (cf_admission c) then (None, True, b\<lparr>bk_retry := True\<rparr>, w)
           else if \<not> cf_memory c then (None, True, b\<lparr>bk_nand_error := ESP_ERR_NO_MEM, bk_retry := True\<rparr>, w)
           else
             (case bk_transaction env (cf_gates c) Op_Load w of (r, out, w) \<Rightarrow>
                (let (kept, b) = retain_result r b;
                     scratch = (case out_payload out of Some p \<Rightarrow> p | None \<Rightarrow> replicate 3108 0);
                     ok = kept \<and> bk_crc_valid scratch;
                     b = (if clean_refusal r then b\<lparr>bk_retry := True\<rparr> else b) in
                 if ok then (Some scratch, True, b, w)
                 else (None, True, (if bk_nand_error b = ESP_OK then b\<lparr>bk_nand_error := ESP_ERR_INVALID_CRC\<rparr> else b), w)))))"

definition bk_save :: "'s nand_env \<Rightarrow> call_facts \<Rightarrow> bytes \<Rightarrow> backend \<Rightarrow> 's medium \<Rightarrow> bool \<times> bool \<times> backend \<times> 's medium" where
  "bk_save env c canonical b w =
     (let b = b\<lparr>bk_retry := False\<rparr> in
      if \<not> cf_lock c \<or> bk_working b then (False, True, b\<lparr>bk_retry := True\<rparr>, w)
      else
        (case read_policy (cf_nvs c) (md_key w) b of (known, b) \<Rightarrow>
           if \<not> known then (False, True, b, w)
           else if bk_policy b = P_Nvs then (False, False, b, w)
           else if bk_policy b \<noteq> P_Nand \<or> \<not> bk_crc_valid canonical then (False, True, b, w)
           else if \<not> bk_admission False (cf_admission c) then (False, True, b\<lparr>bk_retry := True\<rparr>, w)
           else
             (case bk_transaction env (cf_gates c) (Op_Save canonical) w of (r, _, w) \<Rightarrow>
                (case retain_result r b of (ok, b) \<Rightarrow> (ok, True, b, w)))))"

section \<open>The migration\<close>

definition begin_format :: "call_facts \<Rightarrow> bool \<Rightarrow> bytes \<Rightarrow> backend \<Rightarrow> 's medium \<Rightarrow> bool \<times> backend" where
  "begin_format c task snapshot b w =
     (if \<not> cf_lock c \<or> bk_working b \<or> bk_format_attempted b then (False, b)
      else case read_policy (cf_nvs c) (md_key w) b of (known, b) \<Rightarrow>
        if \<not> known \<or> bk_policy b \<noteq> P_Nvs then (False, b)
        else if \<not> bk_crc_valid snapshot \<or> get_le snapshot 8 2 = (0 :: u16) \<or> get_le snapshot 8 2 > (64 :: u16) \<or>
                snapshot ! 10 \<noteq> 0 \<or> \<not> bk_admission True (cf_admission c) then (False, b)
        else let b = b\<lparr>bk_format_attempted := True, bk_phase := B_Admission\<rparr> in
          if \<not> cf_memory c then (False, b\<lparr>bk_nand_error := ESP_ERR_NO_MEM, bk_phase := B_Failed\<rparr>)
          else if \<not> task then (False, b\<lparr>bk_working := False, bk_phase := B_Failed, bk_nand_error := ESP_ERR_NO_MEM\<rparr>)
          else (True, b\<lparr>bk_working := True, bk_phase := B_Queued\<rparr>))"

text \<open>
  The worker, one step per guarded call; between two steps the power may fail. \<open>W_End\<close> is the
  common exit with \<open>ok\<close>.
\<close>

datatype worker_pc = W_Admit | W_Pending | W_Format | W_Migrate | W_Activate | W_End bool | W_Gone

record worker_input =
  wi_nvs :: nvs_answers
  wi_admission :: admission_facts
  wi_gates :: tx_gates
  wi_progress :: "(u32 \<times> u32) list"

definition worker_step ::
  "'s nand_env \<Rightarrow> bytes \<Rightarrow> worker_pc \<times> backend \<times> 's medium \<Rightarrow> worker_input \<Rightarrow> worker_pc \<times> backend \<times> 's medium" where
  "worker_step env snapshot cfg i =
     (case cfg of (pc, b, w) \<Rightarrow>
       (case pc of
          W_Admit \<Rightarrow>
            (let b = b\<lparr>bk_phase := B_Admission\<rparr> in
             if bk_admission True (wi_admission i) \<and> bk_policy b = P_Nvs
             then (W_Pending, b\<lparr>bk_phase := B_Pending\<rparr>, w) else (W_End False, b, w))
        | W_Pending \<Rightarrow>
            (case write_policy (wi_nvs i) 1 (md_key w) b of (ok, key, b) \<Rightarrow>
               if ok then (W_Format, b\<lparr>bk_phase := B_Format\<rparr>, w\<lparr>md_key := key\<rparr>)
               else (W_End False, b, w\<lparr>md_key := key\<rparr>))
        | W_Format \<Rightarrow>
            (case bk_transaction env (wi_gates i) Op_Format w of (r, _, w) \<Rightarrow>
               (case retain_result r (fold bk_progress (wi_progress i) b) of (ok, b) \<Rightarrow>
                  if ok then (W_Migrate, b\<lparr>bk_phase := B_Migrate\<rparr>, w) else (W_End False, b, w)))
        | W_Migrate \<Rightarrow>
            if \<not> bk_admission False (wi_admission i) then (W_End False, b, w)
            else
              (case bk_transaction env (wi_gates i) (Op_Save snapshot) w of (r, _, w) \<Rightarrow>
                 (case retain_result r b of (ok, b) \<Rightarrow>
                    if ok then (W_Activate, b\<lparr>bk_phase := B_Activate\<rparr>, w) else (W_End False, b, w)))
        | W_Activate \<Rightarrow>
            (case write_policy (wi_nvs i) 2 (md_key w) b of (ok, key, b) \<Rightarrow> (W_End ok, b, w\<lparr>md_key := key\<rparr>))
        | W_End ok \<Rightarrow>
            (let b = (if \<not> ok
                      then (let b = (if bk_nand_error b = ESP_OK then b\<lparr>bk_nand_error := ESP_ERR_INVALID_STATE\<rparr> else b)
                            in b\<lparr>bk_phase := B_Failed\<rparr>)
                      else b\<lparr>bk_phase := B_Ready\<rparr>)
             in (W_Gone, b\<lparr>bk_working := False\<rparr>, w))
        | W_Gone \<Rightarrow> (W_Gone, b, w)))"

definition worker_run ::
  "'s nand_env \<Rightarrow> bytes \<Rightarrow> backend \<Rightarrow> 's medium \<Rightarrow> worker_input list \<Rightarrow> worker_pc \<times> backend \<times> 's medium" where
  "worker_run env snapshot b w is = foldl (worker_step env snapshot) (W_Admit, b, w) is"

text \<open>A restart: everything in RAM is fresh.\<close>

definition bk_restart :: "'s medium \<Rightarrow> backend \<times> 's medium" where
  "bk_restart w = (backend0, w\<lparr>md_fence := False\<rparr>)"

section \<open>What a clean transaction has established\<close>

context page_device
begin

lemma load_ok_formatted:
  assumes "nand_load io s = ((r, out), s')" "res_code r = NC_Ok"
  shows "formatted (contents s)"
proof -
  obtain r1 s1 where sc: "nand_scan io s = (r1, s1)" by fastforce
  have "res_code r1 = NC_Ok"
    using assms sc by (auto simp: nand_load_def Let_def split: if_splits)
  with scan_spec(3) [OF sc] show ?thesis by simp
qed

lemma load_ok_stored:
  assumes "nand_load io s = ((r, out), s')" "res_code r = NC_Ok"
  shows "\<exists>k g p. stored (contents s) = Some (k, g, p) \<and> out = Some p"
  using load_spec(2) [OF assms(1)] load_ok_formatted [OF assms] assms(2)
  by (auto split: option.splits)

end

definition holds :: "(nat \<Rightarrow> page) \<Rightarrow> bytes \<Rightarrow> bool" where
  "holds C p \<longleftrightarrow> formatted C \<and> (\<exists>k g. stored C = Some (k, g, p))"

context nand_session
begin

lemma confirm_holds:
  assumes "tx_confirm env (Op_Save input) t = (True, t')"
  shows "holds (pages (t_dev t)) (t_snapshot t)"
proof -
  obtain rec out s1 e1 where ld: "nand_load (flash_io (env_flash env)) (t_dev t, t_last t) = ((rec, out), (s1, e1))"
    by (metis surj_pair)
  have "record_error (res_code rec) e1 = ESP_OK" "out = Some (t_snapshot t)"
    using assms by (auto simp: tx_confirm_def tx_page_def ld Let_def tx_stop_def split: if_splits)
  then show ?thesis
    using hot.load_ok_stored [OF ld] hot.load_ok_formatted [OF ld] by (auto simp: holds_def record_error_ok)
qed

lemma save_verified:
  assumes "nand_transaction env g (Op_Save input) cf s = ((r, out, cf'), s')" "tx_error r = ESP_OK"
  shows "holds (pages s') input"
  using transaction_cases [OF assms(1)]
proof (elim disjE exE conjE)
  assume "pages s' = pages s" "tx_error r \<noteq> ESP_OK"
  with assms(2) show ?thesis by simp
next
  fix t go t1
  assume b: "tx_body env (Op_Save input) t = (go, t1)" and v: "tx_view pages t = tx_view pages (tx_start (Op_Save input) s)"
    and e: "pages s' = pages (t_dev t1)" "tx_error r = tx_error (t_res t1)"
  have t: "t_snapshot t = input" using v by (simp add: tx_view_def tx_start_def)
  define mark :: "'s phase" where "mark = tx_step (on_res (\<lambda>r. r\<lparr>tx_formatted := True\<rparr>))"
  have run: "tx_then (tx_run_record env (Op_Save input)) (tx_then (tx_then (tx_reopen env False)
     (tx_then (tx_confirm env (Op_Save input)) mark)) (tx_enter TX_Complete)) t = (go, t1)"
    using b by (simp add: tx_body_def tx_trace_def mark_def)
  have hb: "honest (tx_then (tx_then (tx_reopen env False) (tx_then (tx_confirm env (Op_Save input)) mark)) (tx_enter TX_Complete))"
    unfolding mark_def by (intro phase_intros honest_confirm)
  show ?thesis
  proof (rule tx_thenE [OF run])
    fix t2
    assume a: "tx_run_record env (Op_Save input) t = (False, t2)" "t1 = t2"
    have "tx_error (t_res t2) \<noteq> ESP_OK"
      using a(1) by (auto simp: tx_run_record_def tx_then_def tx_page_def Let_def split: prod.splits)
    with a e assms(2) show ?thesis by simp
  next
    fix t2
    assume a: "tx_run_record env (Op_Save input) t = (True, t2)"
      and rest: "tx_then (tx_then (tx_reopen env False) (tx_then (tx_confirm env (Op_Save input)) mark)) (tx_enter TX_Complete) t2 = (go, t1)"
    have s2: "t_snapshot t2 = input"
      using a t by (auto simp: tx_run_record_def tx_then_def tx_page_def Let_def split: prod.splits)
    have go: "go" using honestD [OF hb rest] e assms(2) by simp
    obtain t3 t4 where ph: "tx_reopen env False t2 = (True, t3)" "tx_confirm env (Op_Save input) t3 = (True, t4)"
      "t1 = snd (tx_enter TX_Complete (snd (mark t4)))"
      using rest go by (auto simp: tx_then_def mark_def tx_step_def tx_enter_def split: prod.splits if_splits)
    have "tx_view pages t3 = tx_view pages t2" by (rule stillD [OF still_reopen ph(1)])
    then have "t_snapshot t3 = input" using s2 by (simp add: tx_view_def)
    moreover have "tx_view pages t4 = tx_view pages t3" by (rule stillD [OF still_confirm ph(2)])
    moreover have "t_dev t1 = t_dev t4" using ph(3) by (simp add: tx_enter_def mark_def tx_step_def)
    ultimately show ?thesis using confirm_holds [OF ph(2)] e by (simp add: tx_view_def)
  qed
qed

lemma load_verified:
  assumes "nand_transaction env g Op_Load cf s = ((r, out, cf'), s')" "tx_error r = ESP_OK" "tx_cleanup r = ESP_OK"
    "stored (pages s) = Some (k, gen, p)"
  shows "out_payload out = Some p \<and> pages s' = pages s"
proof -
  let ?pre = "tx_then (tx_bus env) (tx_then (tx_pins env) (tx_then (tx_device env) (tx_geometry env)))"
  obtain go t1 where run: "tx_then (tx_bus env) (tx_then (tx_pins env)
    (tx_then (tx_device env) (tx_then (tx_geometry env) (tx_body env Op_Load)))) (tx_start Op_Load s) = (go, t1)"
    by fastforce
  have split: "tx_then ?pre (tx_body env Op_Load) (tx_start Op_Load s) = (go, t1)"
    using run by (auto simp: tx_then_def split: prod.splits if_splits)
  have fin: "pages s' = pages (t_dev t1)" "tx_error (t_res t1) = ESP_OK" "out = tx_outputs Op_Load (tx_cleanup_run env t1)"
    "t_snapshot (tx_cleanup_run env t1) = t_snapshot t1"
    using assms(1-3) run calm_cleanup [of t1]
    by (auto simp: nand_transaction_def tx_finish_def Let_def calm_def tx_view_def tx_refuse_def esp_all_codes split: if_splits)
  have pre: "still pages ?pre" "honest ?pre"
    by (intro still_then still_bus still_pins still_device still_geometry) (intro phase_intros)
  show ?thesis
  proof (rule tx_thenE [OF split])
    fix t
    assume "?pre (tx_start Op_Load s) = (False, t)" "t1 = t"
    then show ?thesis using honestD [OF pre(2)] fin(2) by blast
  next
    fix t
    assume a: "?pre (tx_start Op_Load s) = (True, t)" and b: "tx_body env Op_Load t = (go, t1)"
    have v: "pages (t_dev t) = pages s" using stillD [OF pre(1) a] by (simp add: tx_view_def tx_start_def)
    let ?t = "on_res (\<lambda>r. r\<lparr>tx_at := TX_Record\<rparr>) t"
    obtain rec o1 s1 e1 where ld: "nand_load (flash_io (env_flash env)) (t_dev t, t_last t) = ((rec, o1), (s1, e1))"
      by (metis surj_pair)
    have "record_error (res_code rec) e1 = ESP_OK" and t1: "t_dev t1 = s1"
      "t_snapshot t1 = (case o1 of None \<Rightarrow> t_snapshot t | Some p \<Rightarrow> p)"
      using b fin(2) by (auto simp: tx_body_def tx_trace_def tx_run_record_def tx_then_def tx_page_def ld Let_def
          tx_step_def tx_enter_def split: if_splits option.splits)
    then have "res_code rec = NC_Ok" by (simp add: record_error_ok)
    from hot.load_ok_stored [OF ld this] v assms(4) have "o1 = Some p" by simp
    moreover have "pages s1 = pages s" using hot.load_spec(1) [OF ld] v by simp
    ultimately show ?thesis using fin t1 by (simp add: tx_outputs_def no_output_def)
  qed
qed

end

section \<open>The migration is crash-safe\<close>

lemma write_policy_key:
  assumes "write_policy n v key b = (ok, key', b')"
  shows "key' = key \<or> key' = Some v" "ok \<Longrightarrow> key' = Some v" "bk_working b' = bk_working b"
  using assms by (auto simp: write_policy_def Let_def nvs_put_def nvs_get_u8_def esp_all_codes ESP_ERR_NVS_NOT_FOUND_def
      split: if_splits option.splits)

definition migration_inv :: "('s \<Rightarrow> nat \<Rightarrow> page) \<Rightarrow> bytes \<Rightarrow> worker_pc \<times> backend \<times> 's medium \<Rightarrow> bool" where
  "migration_inv pages snapshot cfg \<longleftrightarrow>
     (case cfg of (pc, b, w) \<Rightarrow>
       (case pc of
          W_Admit \<Rightarrow> md_key w = None
        | W_Pending \<Rightarrow> md_key w = None
        | W_Format \<Rightarrow> md_key w = Some 1
        | W_Migrate \<Rightarrow> md_key w = Some 1
        | W_Activate \<Rightarrow> md_key w = Some 1 \<and> holds (pages (md_dev w)) snapshot
        | _ \<Rightarrow> md_key w = None \<or> md_key w = Some 1 \<or> md_key w = Some 2 \<and> holds (pages (md_dev w)) snapshot))"

lemma bk_transaction_key:
  "bk_transaction env g op w = (r, out, w') \<Longrightarrow> md_key w' = md_key w"
  by (auto simp: bk_transaction_def split: prod.splits)

lemma bk_transaction_dev:
  "bk_transaction env g op w = (r, out, w') \<Longrightarrow>
    nand_transaction env g op (md_fence w) (md_dev w) = ((r, out, md_fence w'), md_dev w')"
  by (auto simp: bk_transaction_def split: prod.splits)

lemma migration_step:
  assumes "nand_session env pages" "migration_inv pages snapshot cfg"
  shows "migration_inv pages snapshot (worker_step env snapshot cfg i)"
proof -
  obtain pc b w where cfg: "cfg = (pc, b, w)" by (metis surj_pair)
  show ?thesis
  proof (cases pc)
    case W_Pending
    then show ?thesis using assms(2) cfg write_policy_key [of "wi_nvs i" 1 "md_key w" b]
      by (auto simp: worker_step_def migration_inv_def split: prod.splits)
  next
    case W_Activate
    then show ?thesis using assms(2) cfg write_policy_key [of "wi_nvs i" 2 "md_key w" b]
      by (auto simp: worker_step_def migration_inv_def split: prod.splits)
  next
    case W_Format
    then show ?thesis using assms(2) cfg bk_transaction_key [of env "wi_gates i" Op_Format w]
      by (auto simp: worker_step_def migration_inv_def split: prod.splits)
  next
    case W_Migrate
    obtain r out w' where t: "bk_transaction env (wi_gates i) (Op_Save snapshot) w = (r, out, w')" by (metis surj_pair)
    have "tx_error r = ESP_OK \<Longrightarrow> holds (pages (md_dev w')) snapshot"
      by (rule nand_session.save_verified [OF assms(1) bk_transaction_dev [OF t]])
    then show ?thesis using assms(2) W_Migrate cfg bk_transaction_key [OF t]
      by (auto simp: worker_step_def migration_inv_def retain_result_def t)
  qed (use assms(2) cfg in \<open>auto simp: worker_step_def migration_inv_def Let_def\<close>)
qed

lemma migration_run:
  assumes "nand_session env pages" "md_key w = None"
  shows "migration_inv pages snapshot (worker_run env snapshot b w is)"
proof -
  have "migration_inv pages snapshot cfg \<Longrightarrow> migration_inv pages snapshot (foldl (worker_step env snapshot) cfg is)" for cfg
    by (induction "is" arbitrary: cfg) (simp_all add: migration_step [OF assms(1)])
  then show ?thesis using assms(2) by (simp add: worker_run_def migration_inv_def)
qed

text \<open>NVS answers NOT_FOUND only for a key that is not there.\<close>

definition nvs_honest :: "nvs_answers \<Rightarrow> u8 option \<Rightarrow> bool" where
  "nvs_honest n key \<longleftrightarrow>
     (key = None \<or> (na_open n \<noteq> ESP_ERR_NVS_NOT_FOUND \<and> na_get n \<noteq> ESP_ERR_NVS_NOT_FOUND))"

lemma read_policy_fresh:
  assumes "read_policy n key backend0 = (ok, b)" "nvs_honest n key"
  shows "ok \<and> bk_policy b = P_Nvs \<Longrightarrow> key = None" "ok \<and> bk_policy b = P_Nand \<Longrightarrow> key = Some 2"
    "ok \<Longrightarrow> bk_policy b = P_Nvs \<or> bk_policy b = P_Nand"
  using assms by (auto simp: read_policy_def backend0_def Let_def nvs_get_u8_def nvs_honest_def
      split: if_splits option.splits)

lemma load_after_restart:
  assumes session: "nand_session env pages" and honest: "nvs_honest (cf_nvs c) (md_key w)"
    and inv: "md_key w = None \<or> md_key w = Some 1 \<or> md_key w = Some 2 \<and> holds (pages (md_dev w)) snapshot"
    and load: "bk_load env c backend0 w = (got, selected, b', w')"
  shows "(selected \<or> md_key w = None) \<and> (got = None \<or> got = Some snapshot \<and> md_key w = Some 2)"
proof -
  let ?b = "backend0\<lparr>bk_retry := False\<rparr>"
  have b0: "?b = backend0" by (simp add: backend0_def)
  obtain ok b where rp: "read_policy (cf_nvs c) (md_key w) backend0 = (ok, b)" by fastforce
  note R = read_policy_fresh [OF rp honest]
  obtain r out w1 where t: "bk_transaction env (cf_gates c) Op_Load w = (r, out, w1)" by (metis surj_pair)
  have out: "out_payload out = Some snapshot" if key: "md_key w = Some 2" and ok: "tx_error r = ESP_OK" "tx_cleanup r = ESP_OK"
  proof -
    obtain k g where "stored (pages (md_dev w)) = Some (k, g, snapshot)"
      using inv key by (auto simp: holds_def)
    from nand_session.load_verified [OF session bk_transaction_dev [OF t] ok this] show ?thesis by simp
  qed
  have w0: "\<not> bk_working backend0" by (simp add: backend0_def)
  show ?thesis
  proof (cases "\<not> cf_lock c \<or> \<not> ok \<or> bk_policy b = P_Nvs \<or> \<not> bk_admission False (cf_admission c) \<or> \<not> cf_memory c")
    case True
    then show ?thesis using load R rp w0
      by (auto simp: bk_load_def b0 Let_def split: if_splits prod.splits)
  next
    case False
    then have nand: "bk_policy b = P_Nand" "md_key w = Some 2" using R by auto
    then show ?thesis using load False rp w0 t out
      by (auto simp: bk_load_def b0 Let_def retain_result_def split: if_splits prod.splits option.splits)
  qed
qed

text \<open>C13: The migration of the trace to the flash is crash-safe. Whatever the flash, NVS and the
  gauge answer and wherever the worker is cut off, after a restart NVS is used only when the policy
  was never marked, and what the flash side hands out is exactly the snapshot that was migrated.\<close>

theorem trace_migration_crash_safe:
  assumes "nand_session env pages" "md_key w = None"
    "worker_run env snapshot b w is = (pc, b1, w1)" "nvs_honest (cf_nvs c) (md_key w1)"
    "bk_load env c (fst (bk_restart w1)) (snd (bk_restart w1)) = (got, selected, b2, w2)"
  shows "(selected \<or> md_key w1 = None) \<and> (got = None \<or> got = Some snapshot \<and> md_key w1 = Some 2)"
proof -
  have "migration_inv pages snapshot (pc, b1, w1)"
    using migration_run [OF assms(1,2), of snapshot b "is"] assms(3) by simp
  then have "md_key w1 = None \<or> md_key w1 = Some 1 \<or> md_key w1 = Some 2 \<and> holds (pages (md_dev w1)) snapshot"
    by (auto simp: migration_inv_def split: worker_pc.splits)
  with load_after_restart [OF assms(1) _ _ assms(5) [unfolded bk_restart_def fst_conv snd_conv]] assms(4)
  show ?thesis by simp
qed

definition nvs_fine :: nvs_answers where
  "nvs_fine = \<lparr>na_open = ESP_OK, na_get = ESP_OK, na_open_w = ESP_OK, na_set = (ESP_OK, True),
     na_commit = (ESP_OK, True), na_reopen = ESP_OK, na_reget = ESP_OK\<rparr>"

definition gauge_fine :: telemetry where
  "gauge_fine = \<lparr>tm_valid = True, tm_capacity_valid = True, tm_nominal = True, tm_soc = 90, tm_mv = 4000,
     tm_current = 0, tm_average = 0, tm_remaining = 60, tm_full = 65, tm_design = 65, tm_operation = 0x26,
     tm_battery = 0, tm_health = 100, tm_cycles = 3, tm_temperature = 2982, tm_temperature_valid = True,
     tm_raw = 0, tm_raw_valid = False, tm_unit_factor = 1, tm_unit_verified = True\<rparr>"

definition facts_fine :: admission_facts where
  "facts_fine = \<lparr>af_ota_busy = False, af_health_pending = False, af_running_valid = True, af_locked = True,
     af_power_phase = 2, af_wifi = False, af_advertising = False, af_connected = False,
     af_telemetry = gauge_fine, af_ota_busy_after = False, af_health_after = False\<rparr>"

lemma facts_fine_admitted: "bk_admission f facts_fine"
  by (simp add: bk_admission_def facts_fine_def gauge_fine_def Let_def)

text \<open>Power is lost right after the policy was marked: nothing is handed out, NVS is not used.\<close>

lemma trace_migration_crash_safe_witness:
  "\<exists>b1 w1 got b2 w2. worker_run ram_env (replicate 3108 7) (backend0\<lparr>bk_policy := P_Nvs\<rparr>)
      \<lparr>md_key = None, md_dev = fresh_chip, md_fence = False\<rparr>
      (replicate 2 \<lparr>wi_nvs = nvs_fine, wi_admission = facts_fine, wi_gates = open_gates, wi_progress = []\<rparr>) =
        (W_Format, b1, w1) \<and> md_key w1 = Some 1 \<and>
     bk_load ram_env \<lparr>cf_lock = True, cf_nvs = nvs_fine, cf_admission = facts_fine, cf_memory = True, cf_gates = open_gates\<rparr>
       (fst (bk_restart w1)) (snd (bk_restart w1)) = (None, True, b2, w2)"
proof -
  let ?c = "\<lparr>cf_lock = True, cf_nvs = nvs_fine, cf_admission = facts_fine, cf_memory = True, cf_gates = open_gates\<rparr>"
  let ?w = "\<lparr>md_key = None, md_dev = fresh_chip, md_fence = False\<rparr>"
  let ?is = "replicate 2 \<lparr>wi_nvs = nvs_fine, wi_admission = facts_fine, wi_gates = open_gates, wi_progress = []\<rparr>"
  have two: "replicate 2 x = [x, x]" for x :: worker_input by (simp add: numeral_2_eq_2)
  obtain b1 w1 where run: "worker_run ram_env (replicate 3108 7) (backend0\<lparr>bk_policy := P_Nvs\<rparr>) ?w ?is = (W_Format, b1, w1)"
    and key: "md_key w1 = Some 1"
    unfolding worker_run_def two
    by (simp add: worker_step_def write_policy_def nvs_fine_def nvs_put_def nvs_get_u8_def facts_fine_admitted
        backend0_def Let_def esp_all_codes)
  obtain got selected b2 w2 where ld: "bk_load ram_env ?c (fst (bk_restart w1)) (snd (bk_restart w1)) = (got, selected, b2, w2)"
    by (metis surj_pair)
  have honest: "nvs_honest (cf_nvs ?c) (md_key w1)"
    by (simp add: nvs_honest_def nvs_fine_def esp_all_codes ESP_ERR_NVS_NOT_FOUND_def)
  from trace_migration_crash_safe [OF ram_session.nand_session_axioms _ run honest ld] key
  have "selected" "got = None" by simp_all
  then have "bk_load ram_env ?c (fst (bk_restart w1)) (snd (bk_restart w1)) = (None, True, b2, w2)" using ld by simp
  with run key show ?thesis by (intro exI conjI)
qed

end
