(* ===== verification/Trace_Service.thy ===== *)
theory Trace_Service
  imports Trace_Backend
begin

text \<open>
  The trace task (\<open>main/host/gauge_discharge_trace.cpp\<close>, built with \<open>MOSAICO_NAND_STORE\<close>): restoring
  the trace at boot from the flash or from NVS, saving it with a read-back, the operator's requests
  and the periodic service call. The locks, the clocks, the OTA gate, the memory and the answers of
  NVS and of the gauge are inputs of each call.
\<close>

section \<open>State\<close>

definition ESP_ERR_NVS_INVALID_LENGTH :: esp_err where "ESP_ERR_NVS_INVALID_LENGTH = 0x110c"

datatype command = C_None | C_Arm | C_Stop | C_Clear | C_Checkpoint | C_Resume

datatype failure_stage = F_None | F_ReadOpen | F_Load | F_WriteOpen | F_Set | F_Commit | F_Reopen | F_Read
  | F_Length | F_Crc | F_Compare

record service =
  sv_allocated :: bool
  sv_model :: trace
  sv_packed :: packed
  sv_verify :: packed
  sv_alloc_error :: bool
  sv_alloc_attempted :: bool
  sv_last_alloc :: u64
  sv_ready :: bool
  sv_corrupt :: bool
  sv_storage_error :: bool
  sv_nvs_error :: esp_err
  sv_stage :: failure_stage
  sv_encoded :: nat
  sv_pending :: command
  sv_last_write :: u64
  sv_next_load :: u64
  sv_write_attempted :: bool
  sv_backend :: backend

definition packed0 :: packed where
  "packed0 = \<lparr>pk_bytes = replicate 3108 0, pk_size = 0\<rparr>"

definition service0 :: service where
  "service0 = \<lparr>sv_allocated = False, sv_model = trace0, sv_packed = packed0, sv_verify = packed0,
     sv_alloc_error = False, sv_alloc_attempted = False, sv_last_alloc = 0, sv_ready = False,
     sv_corrupt = False, sv_storage_error = False, sv_nvs_error = ESP_OK, sv_stage = F_None,
     sv_encoded = 0, sv_pending = C_None, sv_last_write = 0, sv_next_load = 0,
     sv_write_attempted = False, sv_backend = backend0\<rparr>"

text \<open>The NVS record of the trace beside the medium of the flash side.\<close>

record 's flash_world =
  fw_medium :: "'s medium"
  fw_trace :: "bytes option"

record trace_nvs =
  tn_open :: esp_err
  tn_length :: esp_err
  tn_get :: esp_err
  tn_open_w :: esp_err
  tn_set :: "esp_err \<times> bool"
  tn_commit :: "esp_err \<times> bool"
  tn_reopen :: esp_err
  tn_reget :: esp_err

definition sv_failure :: "esp_err \<Rightarrow> failure_stage \<Rightarrow> service \<Rightarrow> service" where
  "sv_failure e st s = s\<lparr>sv_nvs_error := e, sv_stage := st\<rparr>"

section \<open>Memory\<close>

definition ensure_storage :: "u64 \<Rightarrow> bool \<Rightarrow> service \<Rightarrow> bool \<times> service" where
  "ensure_storage now memory s =
     (if sv_allocated s then (True, s)
      else if sv_alloc_attempted s \<and> now - sv_last_alloc s < 60000 then (False, s)
      else
        (let s = s\<lparr>sv_alloc_attempted := True, sv_last_alloc := now\<rparr> in
         if \<not> memory then (False, s\<lparr>sv_alloc_error := True, sv_storage_error := True\<rparr>)
         else (True, s\<lparr>sv_allocated := True, sv_alloc_error := False, sv_storage_error := False\<rparr>)))"

section \<open>Restoring\<close>

text \<open>\<open>nvs_get_blob\<close> into the buffer of a \<open>Packed\<close>: the bytes behind the record stay.\<close>

definition nvs_get_blob :: "esp_err \<Rightarrow> bytes option \<Rightarrow> packed \<Rightarrow> esp_err \<times> packed" where
  "nvs_get_blob answer key p =
     (if answer \<noteq> ESP_OK then (answer, p)
      else case key of
        None \<Rightarrow> (ESP_ERR_NVS_NOT_FOUND, p)
      | Some f \<Rightarrow> if length f > 3108 then (ESP_ERR_NVS_INVALID_LENGTH, p)
          else (ESP_OK, \<lparr>pk_bytes = f @ drop (length f) (pk_bytes p), pk_size = length f\<rparr>))"

definition nvs_read_trace :: "trace_nvs \<Rightarrow> bytes option \<Rightarrow> packed \<Rightarrow> esp_err \<times> failure_stage \<times> packed" where
  "nvs_read_trace n key p =
     (if tn_open n \<noteq> ESP_OK then (tn_open n, F_ReadOpen, p)
      else if tn_length n \<noteq> ESP_OK then (tn_length n, F_Load, p)
      else case key of
        None \<Rightarrow> (ESP_ERR_NVS_NOT_FOUND, F_Load, p)
      | Some f \<Rightarrow>
          if length f < 16 \<or> length f > 3108 then (ESP_FAIL, F_Length, p)
          else (case nvs_get_blob (tn_get n) key p of (e, p) \<Rightarrow> (e, F_Load, p)))"

definition load_stage :: "unpack_error \<Rightarrow> failure_stage" where
  "load_stage e = (if e = LengthError then F_Length else if e = CrcError then F_Crc else F_Load)"

definition load_nvs :: "trace_nvs \<Rightarrow> bytes option \<Rightarrow> service \<Rightarrow> service" where
  "load_nvs n key s =
     (case nvs_read_trace n key (sv_packed s) of (err, stage, p) \<Rightarrow>
       (let s = s\<lparr>sv_packed := p\<rparr>;
            s = (if err = ESP_OK
                 then
                   (let s = s\<lparr>sv_encoded := pk_size p\<rparr> in
                    case trace_unpack p of
                      Inl e \<Rightarrow> sv_failure ESP_FAIL (load_stage e) (s\<lparr>sv_corrupt := True\<rparr>)
                    | Inr blob \<Rightarrow>
                        (case trace_decode blob of
                           None \<Rightarrow> sv_failure ESP_FAIL F_Load (s\<lparr>sv_corrupt := True\<rparr>)
                         | Some m \<Rightarrow> s\<lparr>sv_model := m\<rparr>))
                 else if err \<noteq> ESP_ERR_NVS_NOT_FOUND
                 then sv_failure err stage (s\<lparr>sv_corrupt := True, sv_storage_error := True\<rparr>)
                 else s);
            m = sv_model s;
            s = (if \<not> sv_corrupt s \<and> tr_boot m \<noteq> - 1 then s\<lparr>sv_model := m\<lparr>tr_boot := tr_boot m + 1\<rparr>\<rparr>
                 else if tr_boot m = - 1 then s\<lparr>sv_corrupt := True\<rparr> else s)
        in s\<lparr>sv_ready := True\<rparr>))"

definition trace_load :: "'s nand_env \<Rightarrow> call_facts \<Rightarrow> trace_nvs \<Rightarrow> service \<Rightarrow> 's flash_world \<Rightarrow> service \<times> 's flash_world" where
  "trace_load env c n s w =
     (case bk_load env c (sv_backend s) (fw_medium w) of (got, selected, b, md) \<Rightarrow>
       (let s = s\<lparr>sv_backend := b\<rparr>; w = w\<lparr>fw_medium := md\<rparr> in
        if selected
        then
          (if got = None \<and> bk_retry b then (s, w)
           else
             (let s = (case got of
                         None \<Rightarrow> s\<lparr>sv_corrupt := True, sv_storage_error := True\<rparr>
                       | Some blob \<Rightarrow>
                           (case trace_decode blob of
                              None \<Rightarrow> s\<lparr>sv_corrupt := True, sv_storage_error := True\<rparr>
                            | Some m \<Rightarrow>
                                if tr_boot m = - 1 then s\<lparr>sv_model := m, sv_corrupt := True\<rparr>
                                else s\<lparr>sv_model := m\<lparr>tr_boot := tr_boot m + 1\<rparr>\<rparr>))
              in (s\<lparr>sv_ready := True\<rparr>, w)))
        else (load_nvs n (fw_trace w) s, w)))"

section \<open>Saving\<close>

definition nvs_put_blob :: "esp_err \<times> bool \<Rightarrow> packed \<Rightarrow> bytes option \<Rightarrow> bytes option" where
  "nvs_put_blob a p key = (if snd a then Some (take (pk_size p) (pk_bytes p)) else key)"

definition save_stage :: "unpack_error \<Rightarrow> failure_stage" where
  "save_stage e = (if e = LengthError then F_Length else if e = CrcError then F_Crc else F_Compare)"

text \<open>Set, commit, and the read-back that is compared with the blob.\<close>

definition nvs_write_trace ::
  "trace_nvs \<Rightarrow> bytes \<Rightarrow> packed \<Rightarrow> packed \<Rightarrow> bytes option \<Rightarrow> esp_err \<times> failure_stage \<times> packed \<times> bytes option" where
  "nvs_write_trace n blob p q key =
     (let key = nvs_put_blob (tn_set n) p key in
      if fst (tn_set n) \<noteq> ESP_OK then (fst (tn_set n), F_Set, q, key)
      else let key = nvs_put_blob (tn_commit n) p key in
      if fst (tn_commit n) \<noteq> ESP_OK then (fst (tn_commit n), F_Commit, q, key)
      else if tn_reopen n \<noteq> ESP_OK then (tn_reopen n, F_Reopen, q, key)
      else case nvs_get_blob (tn_reget n) key q of (e, q) \<Rightarrow>
        if e \<noteq> ESP_OK then (e, F_Read, q, key)
        else case trace_unpack q of
          Inl e \<Rightarrow> (ESP_FAIL, save_stage e, q, key)
        | Inr v \<Rightarrow> if \<not> verified_readback blob v 3108 then (ESP_FAIL, F_Compare, q, key)
            else (ESP_OK, F_Read, q, key))"

record save_facts =
  sf_ota :: bool
  sf_call :: call_facts
  sf_nvs :: trace_nvs
  sf_ota_again :: bool

definition trace_save :: "'s nand_env \<Rightarrow> save_facts \<Rightarrow> trace \<Rightarrow> service \<Rightarrow> 's flash_world \<Rightarrow> bool \<times> service \<times> 's flash_world" where
  "trace_save env f m s w =
     (if sf_ota f then (False, s, w)
      else
        (let blob = trace_encode m; n = sf_nvs f in
         case bk_save env (sf_call f) blob (sv_backend s) (fw_medium w) of (saved, selected, b, md) \<Rightarrow>
           (let s = s\<lparr>sv_backend := b\<rparr>; w = w\<lparr>fw_medium := md\<rparr> in
            if selected then (saved, s\<lparr>sv_storage_error := \<not> saved\<rparr>, w)
            else if tn_open_w n \<noteq> ESP_OK
            then (False, (sv_failure (tn_open_w n) F_WriteOpen s)\<lparr>sv_storage_error := True\<rparr>, w)
            else
              (let p = trace_pack blob (sv_packed s); s = s\<lparr>sv_packed := p, sv_encoded := pk_size p\<rparr> in
               if sf_ota_again f then (False, s, w)
               else
                 (case nvs_write_trace n blob p (sv_verify s) (fw_trace w) of (err, stage, q, key) \<Rightarrow>
                    (let s = s\<lparr>sv_verify := q\<rparr>; s = (if err \<noteq> ESP_OK then sv_failure err stage s else s) in
                     (err = ESP_OK, s\<lparr>sv_storage_error := (err \<noteq> ESP_OK)\<rparr>, w\<lparr>fw_trace := key\<rparr>)))))))"

section \<open>Requests and the service call\<close>

definition trace_request :: "bool \<Rightarrow> command \<Rightarrow> service \<Rightarrow> bool \<times> service" where
  "trace_request lock c s =
     (let m = sv_model s in
      if \<not> lock \<or> \<not> sv_ready s \<or> sv_pending s \<noteq> C_None then (False, s)
      else if bk_working (sv_backend s) then (False, s)
      else if c = C_Arm \<and> (sv_corrupt s \<or> tr_count m \<noteq> 0 \<or> tr_armed m) then (False, s)
      else if c = C_Stop \<and> \<not> tr_armed m then (False, s)
      else if c = C_Resume \<and> (sv_corrupt s \<or> tr_armed m \<or> tr_count m = 0 \<or> tr_finalized m) then (False, s)
      else if c = C_Checkpoint \<and> (sv_corrupt s \<or> tr_armed m \<or> tr_count m = 0) then (False, s)
      else (True, s\<lparr>sv_pending := c\<rparr>))"

definition convert_flags :: "telemetry \<Rightarrow> bool \<Rightarrow> u16" where
  "convert_flags t clock =
     (if tm_valid t then 1 else 0) OR (if tm_capacity_valid t then 2 else 0) OR
     (if tm_temperature_valid t then 4 else 0) OR (if clock then 8 else 0) OR
     (if tm_nominal t then 16 else 0) OR (if tm_raw_valid t then 32 else 0)"

definition trace_convert :: "telemetry \<Rightarrow> bool \<times> u64 \<Rightarrow> u64 \<Rightarrow> trace_sample" where
  "trace_convert t clock now =
     \<lparr>sm_boot = 0, sm_time = now, sm_epoch = (if fst clock then snd clock else 0),
      sm_flags = convert_flags t (fst clock), sm_soc = ucast (tm_soc t), sm_mv = tm_mv t,
      sm_current = tm_current t, sm_average = tm_average t, sm_remaining = tm_remaining t,
      sm_full = tm_full t, sm_design = tm_design t, sm_operation = tm_operation t,
      sm_battery = tm_battery t, sm_health = tm_health t, sm_cycles = tm_cycles t,
      sm_temperature = tm_temperature t, sm_raw = tm_raw t\<rparr>"

record service_input =
  si_lock :: bool
  si_ota :: bool
  si_now :: u64
  si_memory :: bool
  si_load :: call_facts
  si_nvs :: trace_nvs
  si_sample :: "telemetry option"
  si_trial :: bool
  si_clock :: "bool \<times> u64"
  si_ota_after :: bool
  si_save :: save_facts

definition apply_command :: "command \<Rightarrow> trace \<Rightarrow> trace" where
  "apply_command c m =
     (let next = (if c = C_Arm \<or> c = C_Resume then m\<lparr>tr_armed := True\<rparr> else m);
          next = (if c = C_Stop then next\<lparr>tr_armed := False\<rparr> else next)
      in if c = C_Clear then trace0\<lparr>tr_boot := tr_boot m\<rparr> else next)"

text \<open>The part after admission: the sample is recorded, then a command or a checkpoint is written.\<close>

definition service_record ::
  "'s nand_env \<Rightarrow> service_input \<Rightarrow> telemetry \<Rightarrow> bool \<Rightarrow> service \<Rightarrow> 's flash_world \<Rightarrow> service \<times> 's flash_world" where
  "service_record env i t can_attempt s w =
     (let now = si_now i; x = trace_convert t (si_clock i) now; commanded = sv_pending s \<noteq> C_None;
          s = (if trace_due now (sv_model s) \<and> \<not> sv_corrupt s then s\<lparr>sv_model := trace_append x (sv_model s)\<rparr> else s);
          m = sv_model s in
      if \<not> trace_writable x \<or> si_ota_after i then (s, w)
      else if commanded \<and> can_attempt
      then
        (let next = apply_command (sv_pending s) m; s = s\<lparr>sv_last_write := now, sv_write_attempted := True\<rparr> in
         case trace_save env (si_save i) next s w of (ok, s, w) \<Rightarrow>
           ((if ok then s\<lparr>sv_model := next\<lparr>tr_dirty := False\<rparr>, sv_pending := C_None, sv_corrupt := False\<rparr> else s), w))
      else if (checkpoint_due now m \<or> (tr_finalized m \<and> tr_dirty m)) \<and> can_attempt
      then
        (let m = trace_attempted now m;
             s = s\<lparr>sv_last_write := now, sv_write_attempted := True, sv_model := m\<rparr> in
         case trace_save env (si_save i) m s w of (ok, s, w) \<Rightarrow>
           ((if ok then s\<lparr>sv_model := m\<lparr>tr_dirty := False\<rparr>\<rparr> else s), w))
      else (s, w))"

definition service_sample ::
  "'s nand_env \<Rightarrow> service_input \<Rightarrow> service \<Rightarrow> 's flash_world \<Rightarrow> service \<times> 's flash_world" where
  "service_sample env i s w =
     (let now = si_now i; m = sv_model s; commanded = sv_pending s \<noteq> C_None;
          can_attempt = (\<not> sv_write_attempted s \<or> now - sv_last_write s \<ge> 60000) in
      if sv_corrupt s \<and> \<not> commanded then (s, w)
      else if \<not> trace_due now m \<and> \<not> ((commanded \<or> (tr_finalized m \<and> tr_dirty m)) \<and> can_attempt) then (s, w)
      else case si_sample i of
        None \<Rightarrow> (s, w)
      | Some t \<Rightarrow>
          if si_trial i then (s, w)
          else if tm_unit_verified t \<and> tm_unit_factor t \<noteq> 1 then (s, w)
          else service_record env i t can_attempt s w)"

definition trace_service :: "'s nand_env \<Rightarrow> service_input \<Rightarrow> service \<Rightarrow> 's flash_world \<Rightarrow> service \<times> 's flash_world" where
  "trace_service env i s w =
     (if bk_working (sv_backend s) then (s, w)
      else if \<not> si_lock i \<or> si_ota i then (s, w)
      else case ensure_storage (si_now i) (si_memory i) s of (ok, s) \<Rightarrow>
        if \<not> ok then (s, w)
        else if sv_ready s then service_sample env i s w
        else if si_now i < sv_next_load s then (s, w)
        else case trace_load env (si_load i) (si_nvs i) s w of (s, w) \<Rightarrow>
          if \<not> sv_ready s then (s\<lparr>sv_next_load := si_now i + 60000\<rparr>, w)
          else service_sample env i s w)"

text \<open>\<open>nandFormatConfirm\<close>: the migration starts only from a stopped trace with rows.\<close>

definition nand_format_confirm :: "bool \<Rightarrow> bool \<Rightarrow> call_facts \<Rightarrow> bool \<Rightarrow> service \<Rightarrow> 's flash_world \<Rightarrow> bool \<times> service" where
  "nand_format_confirm lock ota c task s w =
     (let m = sv_model s in
      if \<not> lock \<or> \<not> sv_allocated s \<or> \<not> sv_ready s \<or> sv_corrupt s \<or> sv_pending s \<noteq> C_None \<or> tr_armed m \<or>
         tr_count m = 0 \<or> ota then (False, s)
      else case begin_format c task (trace_encode m) (sv_backend s) (fw_medium w) of (ok, b) \<Rightarrow>
        (ok, s\<lparr>sv_backend := b\<rparr>))"

end
