(* ===== verification/Trace_Service_Safety.thy ===== *)
theory Trace_Service_Safety
  imports Trace_Service
begin

text \<open>
  What the trace task guarantees while the trace lives in NVS: over any history of service calls,
  requests and restarts, with any failing or half-done write, the record in NVS is one the task can
  read back, and a save it acknowledged is what the next boot restores.
\<close>

section \<open>A frame is its first bytes\<close>

lemma unpack_loop_cong:
  "(\<And>i. input \<le> i \<Longrightarrow> i < n \<Longrightarrow> b ! i = b' ! i) \<Longrightarrow> unpack_loop b n input acc = unpack_loop b' n input acc"
proof (induction b n input acc rule: unpack_loop.induct)
  case (1 b n input acc)
  show ?case
  proof (cases "input < n")
    case False
    then show ?thesis by (simp add: unpack_loop.simps)
  next
    case True
    define token where "token = b ! input"
    define run where "run = unat (token AND 127) + 1"
    have tok: "b' ! input = token" using "1.prems" [of input] True by (simp add: token_def)
    have z: "unpack_loop b n (input + 1) (acc @ replicate run 0) = unpack_loop b' n (input + 1) (acc @ replicate run 0)"
      if "\<not> run > 3108 - length acc" "token AND 128 \<noteq> 0"
      by (rule "1.IH"(1) [OF True token_def refl run_def that]) (use "1.prems" in simp)
    have gb: "get_bytes b (input + 1) run = get_bytes b' (input + 1) run" if "\<not> run > n - (input + 1)"
      by (rule nth_equalityI) (use that "1.prems" in simp_all)
    have l: "unpack_loop b n (input + 1 + run) (acc @ get_bytes b (input + 1) run) =
        unpack_loop b' n (input + 1 + run) (acc @ get_bytes b (input + 1) run)"
      if "\<not> run > 3108 - length acc" "\<not> token AND 128 \<noteq> 0" "\<not> run > n - (input + 1)"
        "\<not> 0 \<in> set (get_bytes b (input + 1) run)"
      by (rule "1.IH"(2) [OF True token_def refl run_def that]) (use "1.prems" in simp)
    show ?thesis
      unfolding unpack_loop.simps [of b n input] unpack_loop.simps [of b' n input] Let_def tok token_def [symmetric]
      using z l gb True unfolding run_def by auto
  qed
qed

lemma unpack_prefix:
  assumes "take n b = take n b'" "length b = 3108" "length b' = 3108"
  shows "trace_unpack \<lparr>pk_bytes = b, pk_size = n\<rparr> = trace_unpack \<lparr>pk_bytes = b', pk_size = n\<rparr>"
proof (cases "16 \<le> n \<and> n < 3108")
  case True
  have nth: "b ! i = b' ! i" if "i < n" for i
    using assms(1) that by (metis nth_take)
  have g: "get_le b p k = (get_le b' p k :: u32)" "get_le b p k = (get_le b' p k :: u16)" if "p + k \<le> 16" for p k
    by (rule get_le_cong, use nth that True in simp)+
  have f: "get_le b 0 4 = (get_le b' 0 4 :: u32)" "get_le b 12 4 = (get_le b' 12 4 :: u32)"
    "get_le b 10 2 = (get_le b' 10 2 :: u16)" "get_le b 6 2 = (get_le b' 6 2 :: u16)" "get_le b 8 2 = (get_le b' 8 2 :: u16)"
    "b ! 4 = b' ! 4" "b ! 5 = b' ! 5"
    using True by (simp_all add: g nth)
  have u: "unpack_loop b n 16 [] = unpack_loop b' n 16 []" by (rule unpack_loop_cong) (simp add: nth)
  have c: "frame_crc \<lparr>pk_bytes = b, pk_size = n\<rparr> = frame_crc \<lparr>pk_bytes = b', pk_size = n\<rparr>"
    by (rule frame_crc_cong) (simp add: nth)
  have ne: "(n = 3108) = False" using True by simp
  show ?thesis by (simp only: trace_unpack_def Let_def packed.select_convs f u c ne if_False)
next
  case False
  show ?thesis
  proof (cases "n = 3108")
    case True
    with assms have "b = b'" by simp
    then show ?thesis by simp
  next
    case ne: False
    with False have "n > 3108 \<or> n < 16" by linarith
    then show ?thesis unfolding trace_unpack_def Let_def packed.select_convs by (simp only: if_True)
  qed
qed

lemma length_undo [simp]: "length (undo_delta count b) = length b"
  by (simp add: undo_delta_def length_fold_update)

lemma unpack_length:
  "trace_unpack p = Inr v \<Longrightarrow> length (pk_bytes p) = 3108 \<Longrightarrow> length v = 3108"
  by (auto simp: trace_unpack_def Let_def split: if_splits sum.splits)

section \<open>The record in NVS\<close>

definition as_packed :: "bytes \<Rightarrow> bytes \<Rightarrow> packed" where
  "as_packed f rest = \<lparr>pk_bytes = f @ drop (length f) rest, pk_size = length f\<rparr>"

definition nvs_decoded :: "bytes option \<Rightarrow> trace option" where
  "nvs_decoded key =
     (case key of None \<Rightarrow> None
      | Some f \<Rightarrow>
          if length f < 16 \<or> length f > 3108 then None
          else case trace_unpack (as_packed f (replicate 3108 0)) of Inl _ \<Rightarrow> None | Inr b \<Rightarrow> trace_decode b)"

lemma as_packed_unpack:
  assumes "length f \<le> 3108" "length rest = 3108"
  shows "trace_unpack (as_packed f rest) = trace_unpack (as_packed f (replicate 3108 0))"
  unfolding as_packed_def by (rule unpack_prefix) (use assms in simp_all)

lemma trace_stored_boot [simp]: "tr_boot (trace_stored m) = tr_boot m"
  by (simp add: trace_stored_def)

text \<open>A trace that the task may hold: storable, and finalized only with rows.\<close>

definition trace_sound :: "trace \<Rightarrow> bool" where
  "trace_sound m \<longleftrightarrow> trace_storable m \<and> (tr_finalized m \<longrightarrow> tr_count m \<noteq> 0)"

lemma trace_sound_stored: "trace_sound m \<Longrightarrow> trace_sound (trace_stored m)"
  by (simp add: trace_sound_def trace_stored_storable) (simp add: trace_stored_def)

definition key_sound :: "nat \<Rightarrow> bytes option \<Rightarrow> bool" where
  "key_sound k key \<longleftrightarrow> (case key of None \<Rightarrow> True | Some f \<Rightarrow>
     16 \<le> length f \<and> length f \<le> 3108 \<and>
     (\<exists>m. trace_sound m \<and> unat (tr_boot m) \<le> k \<and> nvs_decoded key = Some m))"

lemma pack_key:
  assumes "trace_sound m" "length (pk_bytes q) = 3108" "unat (tr_boot m) \<le> k"
  defines "p \<equiv> trace_pack (trace_encode m) q"
  shows "nvs_decoded (Some (take (pk_size p) (pk_bytes p))) = Some (trace_stored m)"
    "key_sound k (Some (take (pk_size p) (pk_bytes p)))" "length (pk_bytes p) = 3108"
proof -
  have st: "trace_storable m" "tr_count m \<le> 64" using assms(1) by (auto simp: trace_sound_def trace_storable_def trace_wf_def)
  note P = unpack_pack [OF canonical_encode [OF st(2)] assms(2), folded p_def]
  let ?f = "take (pk_size p) (pk_bytes p)"
  show lp: "length (pk_bytes p) = 3108" using P by simp
  have lf: "length ?f = pk_size p" using P by simp
  have "trace_unpack (as_packed ?f (pk_bytes p)) = Inr (trace_encode m)"
    using P lf by (cases p) (simp add: as_packed_def)
  then have "trace_unpack (as_packed ?f (replicate 3108 0)) = Inr (trace_encode m)"
    using as_packed_unpack [of ?f "pk_bytes p"] P by simp
  then show d: "nvs_decoded (Some ?f) = Some (trace_stored m)"
    using P lf decode_encode [OF st(1)] by (simp add: nvs_decoded_def)
  show "key_sound k (Some ?f)"
    using P lf d trace_sound_stored [OF assms(1)] assms(3) by (simp add: key_sound_def)
qed

text \<open>Reading the record back into a buffer.\<close>

lemma get_blob_cases:
  assumes "nvs_get_blob a key q = (e, q')" "length (pk_bytes q) = 3108"
  shows "length (pk_bytes q') = 3108" "e = ESP_OK \<Longrightarrow> \<exists>f. key = Some f \<and> length f \<le> 3108 \<and> q' = as_packed f (pk_bytes q)"
  using assms by (auto simp: nvs_get_blob_def as_packed_def esp_all_codes ESP_ERR_NVS_NOT_FOUND_def
      ESP_ERR_NVS_INVALID_LENGTH_def split: if_splits option.splits)

lemma verified_eq:
  assumes "verified_readback blob v 3108" "length blob = 3108" "length v = 3108"
  shows "v = blob"
  by (rule nth_equalityI) (use assms in \<open>simp_all add: verified_readback_def list_all_iff\<close>)

lemma write_trace_key:
  assumes m: "trace_sound m" "unat (tr_boot m) \<le> k" and k: "key_sound k key" and q: "length (pk_bytes q0) = 3108" "length (pk_bytes q) = 3108"
    and w: "nvs_write_trace n (trace_encode m) (trace_pack (trace_encode m) q0) q key = (e, st, q', key')"
  shows "key_sound k key'" "length (pk_bytes q') = 3108" "e = ESP_OK \<Longrightarrow> nvs_decoded key' = Some (trace_stored m)"
proof -
  let ?p = "trace_pack (trace_encode m) q0"
  let ?k1 = "nvs_put_blob (tn_set n) ?p key"
  let ?k2 = "nvs_put_blob (tn_commit n) ?p ?k1"
  note P = pack_key [OF m(1) q(1) m(2)]
  have ks: "key_sound k ?k1" "key_sound k ?k2" using k P(2) by (simp_all add: nvs_put_blob_def)
  obtain e1 q1 where g: "nvs_get_blob (tn_reget n) ?k2 q = (e1, q1)" by fastforce
  note G = get_blob_cases [OF g q(2)]
  show "key_sound k key'" "length (pk_bytes q') = 3108"
    using w ks G(1) q g by (auto simp: nvs_write_trace_def Let_def split: if_splits sum.splits)
  assume "e = ESP_OK"
  with w g obtain v where v: "e1 = ESP_OK" "trace_unpack q1 = Inr v" "verified_readback (trace_encode m) v 3108" "key' = ?k2"
    by (auto simp: nvs_write_trace_def Let_def esp_all_codes split: if_splits sum.splits)
  then obtain f where f: "?k2 = Some f" "length f \<le> 3108" "q1 = as_packed f (pk_bytes q)" using G(2) by blast
  have "v = trace_encode m"
    by (rule verified_eq [OF v(3)]) (use unpack_length [OF v(2) G(1)] in simp_all)
  moreover have "16 \<le> length f" using ks(2) f(1) by (simp add: key_sound_def)
  ultimately show "nvs_decoded key' = Some (trace_stored m)"
    using v f as_packed_unpack [OF f(2) q(2)] decode_encode m by (simp add: nvs_decoded_def trace_sound_def)
qed

section \<open>The invariant of the task\<close>

text \<open>
  The trace is in NVS: the policy key of the flash side is absent. The clock of a boot is the last
  time the task has seen; \<open>k\<close> bounds the boot numbers used so far.
\<close>

definition rows_past :: "u64 \<Rightarrow> trace \<Rightarrow> bool" where
  "rows_past clock m \<longleftrightarrow> (\<forall>q \<in> set (trace_items m). sm_boot q = tr_boot m \<longrightarrow> sm_time q \<le> clock)"

definition pending_ok :: "service \<Rightarrow> bool" where
  "pending_ok s \<longleftrightarrow>
     (let m = sv_model s; c = sv_pending s in
      (sv_corrupt s \<longrightarrow> \<not> tr_armed m \<and> (c \<noteq> C_Stop \<and> c \<noteq> C_Arm \<and> c \<noteq> C_Resume \<and> c \<noteq> C_Checkpoint)) \<and>
      (c = C_Arm \<longrightarrow> tr_count m = 0 \<and> \<not> tr_armed m) \<and>
      (c = C_Resume \<longrightarrow> \<not> tr_armed m \<and> \<not> tr_finalized m))"

definition service_inv :: "nat \<Rightarrow> u64 \<Rightarrow> service \<times> 's flash_world \<Rightarrow> bool" where
  "service_inv k clock cfg \<longleftrightarrow>
     (case cfg of (s, w) \<Rightarrow> 2 \<le> k \<and> k < 4294967295 \<and> unat (tr_boot (sv_model s)) \<le> k \<and>
        trace_sound (sv_model s) \<and> (sv_corrupt s \<or> rows_past clock (sv_model s)) \<and> pending_ok s \<and>
        length (pk_bytes (sv_packed s)) = 3108 \<and> length (pk_bytes (sv_verify s)) = 3108 \<and>
        (\<not> sv_ready s \<longrightarrow> sv_pending s = C_None \<and> \<not> sv_corrupt s \<and> sv_model s = trace0) \<and>
        md_key (fw_medium w) = None \<and> bk_policy (sv_backend s) \<noteq> P_Nand \<and>
        key_sound (if sv_ready s then k else k - 1) (fw_trace w))"

lemma trace0_sound: "b \<noteq> 0 \<Longrightarrow> trace_sound (trace0\<lparr>tr_boot := b\<rparr>) \<and> rows_past clock (trace0\<lparr>tr_boot := b\<rparr>)"
  by (simp add: trace_sound_def trace_storable_def trace_wf_def trace0_def trace_items_def rows_past_def)

text \<open>With no policy key the flash side never holds the trace.\<close>

lemma read_policy_absent:
  "read_policy n None b = (ok, b') \<Longrightarrow> bk_policy b \<noteq> P_Nand \<Longrightarrow> bk_policy b' \<noteq> P_Nand"
  by (auto simp: read_policy_def nvs_get_u8_def Let_def esp_all_codes ESP_ERR_NVS_NOT_FOUND_def split: if_splits prod.splits)

lemma load_absent:
  assumes "bk_load env c b w = (got, selected, b', w')" "md_key w = None" "bk_policy b \<noteq> P_Nand"
  shows "got = None" "w' = w" "bk_policy b' \<noteq> P_Nand"
proof -
  obtain ok b1 where r: "read_policy (cf_nvs c) None (b\<lparr>bk_retry := False\<rparr>) = (ok, b1)" by fastforce
  from read_policy_absent [OF r] assms(3) have "bk_policy b1 \<noteq> P_Nand" by simp
  with assms r show "got = None" "w' = w" "bk_policy b' \<noteq> P_Nand"
    by (auto simp: bk_load_def Let_def split: if_splits)
qed

lemma save_absent:
  assumes "bk_save env c p b w = (saved, selected, b', w')" "md_key w = None" "bk_policy b \<noteq> P_Nand"
  shows "\<not> saved" "w' = w" "bk_policy b' \<noteq> P_Nand"
proof -
  obtain ok b1 where r: "read_policy (cf_nvs c) None (b\<lparr>bk_retry := False\<rparr>) = (ok, b1)" by fastforce
  from read_policy_absent [OF r] assms(3) have "bk_policy b1 \<noteq> P_Nand" by simp
  with assms r show "\<not> saved" "w' = w" "bk_policy b' \<noteq> P_Nand"
    by (auto simp: bk_save_def Let_def split: if_splits)
qed

lemma trace_save_spec:
  assumes m: "trace_sound m" "unat (tr_boot m) \<le> k" and rd: "sv_ready s" and i: "service_inv k clock (s, w)"
    and run: "trace_save env f m s w = (ok, s', w')"
  shows "md_key (fw_medium w') = None" "key_sound k (fw_trace w')" "bk_policy (sv_backend s') \<noteq> P_Nand"
    "length (pk_bytes (sv_packed s')) = 3108" "length (pk_bytes (sv_verify s')) = 3108"
    "sv_model s' = sv_model s" "sv_corrupt s' = sv_corrupt s" "sv_pending s' = sv_pending s" "sv_ready s' = sv_ready s"
    "ok \<Longrightarrow> nvs_decoded (fw_trace w') = Some (trace_stored m)"
proof -
  obtain saved selected b md where b: "bk_save env (sf_call f) (trace_encode m) (sv_backend s) (fw_medium w) = (saved, selected, b, md)"
    by (metis surj_pair)
  have I: "md_key (fw_medium w) = None" "bk_policy (sv_backend s) \<noteq> P_Nand" "key_sound k (fw_trace w)"
    "length (pk_bytes (sv_packed s)) = 3108" "length (pk_bytes (sv_verify s)) = 3108"
    using i rd by (simp_all add: service_inv_def)
  note B = save_absent [OF b I(1,2)]
  obtain err stage q key where n: "nvs_write_trace (sf_nvs f) (trace_encode m)
      (trace_pack (trace_encode m) (sv_packed s)) (sv_verify s) (fw_trace w) = (err, stage, q, key)"
    by (metis surj_pair)
  note N = write_trace_key [OF m I(3,4,5) n] and P = pack_key(3) [OF m(1) I(4) m(2)]
  have *: "(ok, s', w') = trace_save env f m s w" using run by simp
  show "md_key (fw_medium w') = None" "key_sound k (fw_trace w')" "bk_policy (sv_backend s') \<noteq> P_Nand"
    "length (pk_bytes (sv_packed s')) = 3108" "length (pk_bytes (sv_verify s')) = 3108"
    "sv_model s' = sv_model s" "sv_corrupt s' = sv_corrupt s" "sv_pending s' = sv_pending s" "sv_ready s' = sv_ready s"
    "ok \<Longrightarrow> nvs_decoded (fw_trace w') = Some (trace_stored m)"
    using * I B N P by (auto simp: trace_save_def b n Let_def sv_failure_def split: if_splits)
qed

lemma u32_less_succ: "x \<noteq> - 1 \<Longrightarrow> x < x + (1 :: u32)"
proof -
  assume "x \<noteq> - 1"
  then have "x < - 1" by (simp add: word_order.not_eq_extremum)
  then have "unat x < unat (- 1 :: u32)" by (simp add: word_less_nat_alt)
  then have "unat x + unat (1 :: u32) < 2 ^ 32" by (simp add: unsigned_minus_1_eq_mask mask_eq_exp_minus_1)
  then show ?thesis by (simp add: word_less_nat_alt unat_plus_small)
qed

lemma boot_bump:
  assumes m: "trace_sound m" and b: "tr_boot m \<noteq> - 1"
  shows "trace_sound (m\<lparr>tr_boot := tr_boot m + 1\<rparr>) \<and> rows_past clock (m\<lparr>tr_boot := tr_boot m + 1\<rparr>) \<and>
    unat (tr_boot m + 1) = unat (tr_boot m) + 1"
proof -
  have up: "tr_boot m < tr_boot m + 1" using b by (rule u32_less_succ)
  then have nz: "tr_boot m + 1 \<noteq> 0" by auto
  then have su: "unat (tr_boot m + 1) = unat (tr_boot m) + 1"
    using unatSuc [of "tr_boot m"] by (simp add: add.commute)
  have it: "trace_items (m\<lparr>tr_boot := tr_boot m + 1\<rparr>) = trace_items m"
    by (simp add: trace_items_def trace_at_def cong: map_cong)
  have old: "sm_boot q < tr_boot m + 1" if "q \<in> set (trace_items m)" for q
  proof -
    have "sm_boot q \<le> tr_boot m" using m that by (auto simp: trace_sound_def trace_storable_def)
    with up show ?thesis by simp
  qed
  then have "\<forall>q \<in> set (trace_items m). sm_boot q \<le> tr_boot m + 1 \<and> sm_boot q \<noteq> tr_boot m + 1"
    by (metis less_imp_le less_irrefl)
  with m it nz su show ?thesis
    by (auto simp: trace_sound_def trace_storable_def rows_past_def trace_wf_def)
qed

lemma boot_small: "unat (tr_boot m) < 4294967295 \<Longrightarrow> tr_boot m \<noteq> - 1"
  by (auto simp: unsigned_minus_1_eq_mask mask_eq_exp_minus_1)

lemma load_nvs_spec:
  assumes k: "key_sound (k - 1) key" "2 \<le> k" "k < 4294967295"
    and s: "sv_model s = trace0" "\<not> sv_corrupt s" "length (pk_bytes (sv_packed s)) = 3108" "sv_pending s = C_None"
  shows "trace_sound (sv_model (load_nvs n key s)) \<and> sv_pending (load_nvs n key s) = C_None \<and>
    (sv_corrupt (load_nvs n key s) \<and> sv_model (load_nvs n key s) = trace0 \<or>
      rows_past clock (sv_model (load_nvs n key s)) \<and> \<not> sv_corrupt (load_nvs n key s)) \<and>
    unat (tr_boot (sv_model (load_nvs n key s))) \<le> k \<and>
    length (pk_bytes (sv_packed (load_nvs n key s))) = 3108 \<and> sv_ready (load_nvs n key s) \<and>
    sv_verify (load_nvs n key s) = sv_verify s \<and> sv_backend (load_nvs n key s) = sv_backend s"
proof -
  obtain err stage p where r: "nvs_read_trace n key (sv_packed s) = (err, stage, p)" by (metis surj_pair)
  have p: "length (pk_bytes p) = 3108"
    using r s(3) get_blob_cases(1) [OF _ s(3)] by (auto simp: nvs_read_trace_def split: if_splits option.splits prod.splits)
  have z: "trace_sound trace0" "tr_boot trace0 \<noteq> - 1" "tr_boot trace0 = 1"
    using trace0_sound [of 1] by (simp_all add: trace0_def)
  show ?thesis
  proof (cases "err = ESP_OK")
    case False
    then show ?thesis using s p z k boot_bump [OF z(1,2)]
      by (auto simp: load_nvs_def r Let_def sv_failure_def)
  next
    case True
    with r obtain f where f: "key = Some f" "length f \<le> 3108" "p = as_packed f (pk_bytes (sv_packed s))"
      using get_blob_cases(2) [OF _ s(3)]
      by (auto simp: nvs_read_trace_def esp_all_codes ESP_ERR_NVS_NOT_FOUND_def split: if_splits option.splits prod.splits)
    then obtain m where m: "trace_sound m" "nvs_decoded key = Some m" "unat (tr_boot m) \<le> k - 1"
      using k(1) by (auto simp: key_sound_def)
    then obtain b where b: "trace_unpack p = Inr b" "trace_decode b = Some m"
      using f as_packed_unpack [OF f(2) s(3)] by (auto simp: nvs_decoded_def split: if_splits sum.splits)
    have nb: "tr_boot m \<noteq> - 1" by (rule boot_small) (use m k in simp)
    show ?thesis using s p m b k nb \<open>err = ESP_OK\<close> boot_bump [OF m(1) nb] by (simp add: load_nvs_def r Let_def)
  qed
qed

lemma convert_canonical: "row_canonical (trace_convert t clock now)"
proof -
  have "convert_flags t c AND NOT 63 = 0" for c
    by (cases "tm_valid t"; cases "tm_capacity_valid t"; cases "tm_temperature_valid t"; cases c; cases "tm_nominal t";
        cases "tm_raw_valid t") (simp_all add: convert_flags_def)
  then show ?thesis by (simp add: row_canonical_def trace_convert_def)
qed

lemma append_count: "trace_wf m \<Longrightarrow> tr_count (trace_append s m) \<noteq> 0"
  using push_items [of m "s\<lparr>sm_boot := tr_boot m\<rparr>"] length_trace_items [of "trace_append s m"]
  by (auto simp: append_frame)

lemma append_sound:
  assumes m: "trace_sound m" "rows_past clock m" and late: "clock \<le> now"
  shows "trace_sound (trace_append (trace_convert t c now) m)" "rows_past now (trace_append (trace_convert t c now) m)"
proof -
  let ?x = "trace_convert t c now"
  have st: "trace_storable m" "trace_wf m" using m(1) by (simp_all add: trace_sound_def trace_storable_def)
  have tm: "sm_time ?x = now" by (simp add: trace_convert_def)
  have old: "sm_time q \<le> sm_time ?x" if "q \<in> set (trace_items m)" "sm_boot q = tr_boot m" for q
    using m(2) that late tm by (auto simp: rows_past_def intro: order_trans)
  note A = append_storable [OF st(1) convert_canonical old]
  show "trace_sound (trace_append ?x m)" using A(1) append_count [OF st(2)] by (simp add: trace_sound_def)
  show "rows_past now (trace_append ?x m)"
    unfolding rows_past_def using A(2) old tm by (auto simp del: convert_canonical) fastforce+
qed

lemma append_unarmed:
  "\<not> tr_armed m \<Longrightarrow> \<not> trace_due now m"
  by (simp add: trace_due_def)

lemma dirty_sound [simp]:
  "trace_sound (m\<lparr>tr_dirty := d\<rparr>) = trace_sound m" "rows_past clock (m\<lparr>tr_dirty := d\<rparr>) = rows_past clock m"
  "trace_sound (trace_attempted now m) = trace_sound m" "rows_past clock (trace_attempted now m) = rows_past clock m"
  by (simp_all add: trace_sound_def trace_storable_def rows_past_def trace_wf_def trace_items_def trace_at_def
      trace_attempted_def cong: map_cong)

lemma command_sound:
  assumes "trace_sound m" "sv_corrupt s \<or> rows_past clock m" "pending_ok s" "sv_model s = m" "sv_pending s \<noteq> C_None"
  shows "trace_sound (apply_command (sv_pending s) m)" "rows_past clock (apply_command (sv_pending s) m)"
proof -
  have nz: "tr_boot m \<noteq> 0" using assms(1) by (simp add: trace_sound_def trace_storable_def)
  have armed: "trace_sound (m\<lparr>tr_armed := a\<rparr>) \<and> rows_past clock (m\<lparr>tr_armed := a\<rparr>)"
    if "rows_past clock m" "a \<longrightarrow> \<not> tr_finalized m" for a
    using assms(1) that
    by (auto simp: trace_sound_def trace_storable_def rows_past_def trace_wf_def trace_items_def trace_at_def cong: map_cong)
  have fin: "\<not> tr_finalized m" if "tr_count m = 0" using assms(1) that by (auto simp: trace_sound_def)
  show "trace_sound (apply_command (sv_pending s) m)" "rows_past clock (apply_command (sv_pending s) m)"
    using assms armed [of True] armed [of False] fin trace0_sound [OF nz, of clock]
    by (cases "sv_pending s"; auto simp: apply_command_def pending_ok_def Let_def)+
qed

lemma boot_frames [simp]:
  "tr_boot (apply_command c m) = tr_boot m" "tr_boot (trace_attempted now m) = tr_boot m"
  by (simp_all add: apply_command_def trace_attempted_def Let_def)

lemma rows_past_mono: "rows_past clock m \<Longrightarrow> clock \<le> now \<Longrightarrow> rows_past now m"
  by (auto simp: rows_past_def intro: order_trans)

lemma service_inv_mono: "service_inv k clock cfg \<Longrightarrow> clock \<le> now \<Longrightarrow> service_inv k now cfg"
  by (auto simp: service_inv_def intro: rows_past_mono split: prod.splits)

text \<open>Saving a sound trace and then, if it succeeded, adopting it.\<close>

lemma save_keeps_inv:
  assumes i: "service_inv k clock (s, w)" and r: "sv_ready s" and m: "trace_sound m" "rows_past clock m" "unat (tr_boot m) \<le> k"
    and run: "trace_save env f m s w = (ok, s', w')"
    and alt: "(p = sv_pending s \<and> c = sv_corrupt s \<and> pending_ok (s\<lparr>sv_model := m\<rparr>)) \<or> (p = C_None \<and> \<not> c)"
  shows "service_inv k clock (s', w')"
    "ok \<Longrightarrow> service_inv k clock (s'\<lparr>sv_model := m\<lparr>tr_dirty := False\<rparr>, sv_pending := p, sv_corrupt := c\<rparr>, w')"
proof -
  note S = trace_save_spec [OF m(1,3) r i run]
  show "service_inv k clock (s', w')"
    using i S r by (simp add: service_inv_def pending_ok_def)
  show "service_inv k clock (s'\<lparr>sv_model := m\<lparr>tr_dirty := False\<rparr>, sv_pending := p, sv_corrupt := c\<rparr>, w')" if ok
    using alt
  proof (elim disjE conjE)
    assume "p = sv_pending s" "c = sv_corrupt s" "pending_ok (s\<lparr>sv_model := m\<rparr>)"
    then show ?thesis using i S r m by (simp add: service_inv_def pending_ok_def Let_def)
  next
    assume "p = C_None" "\<not> c"
    then show ?thesis using i S r m by (simp add: service_inv_def pending_ok_def Let_def)
  qed
qed

lemma service_record_inv:
  assumes i: "service_inv k clock (s, w)" and r: "sv_ready s" and late: "clock \<le> si_now x"
    and cp: "sv_corrupt s \<Longrightarrow> sv_pending s \<noteq> C_None"
  shows "service_inv k (si_now x) (service_record env x t can s w)"
proof -
  let ?now = "si_now x"
  let ?a = "trace_convert t (si_clock x) ?now"
  define s1 where "s1 = (if trace_due ?now (sv_model s) \<and> \<not> sv_corrupt s
     then s\<lparr>sv_model := trace_append ?a (sv_model s)\<rparr> else s)"
  have I: "trace_sound (sv_model s)" "sv_corrupt s \<or> rows_past clock (sv_model s)" "pending_ok s"
    using i by (simp_all add: service_inv_def)
  have i1: "service_inv k ?now (s1, w)"
  proof (cases "trace_due ?now (sv_model s) \<and> \<not> sv_corrupt s")
    case False
    then have "s1 = s" by (auto simp: s1_def)
    then show ?thesis using service_inv_mono [OF i late] by simp
  next
    case True
    have "pending_ok (s\<lparr>sv_model := trace_append ?a (sv_model s)\<rparr>)"
      using I(3) True append_unarmed by (auto simp: pending_ok_def Let_def)
    then show ?thesis using i True r append_sound [OF I(1) _ late] I(2) by (simp add: service_inv_def s1_def)
  qed
  have fr: "sv_ready s1" "sv_pending s1 = sv_pending s" "sv_corrupt s1 = sv_corrupt s" using r by (simp_all add: s1_def)
  have I1: "trace_sound (sv_model s1)" "sv_corrupt s1 \<or> rows_past ?now (sv_model s1)" "pending_ok s1"
    using i1 by (simp_all add: service_inv_def)
  let ?s2 = "s1\<lparr>sv_last_write := ?now, sv_write_attempted := True\<rparr>"
  have i2: "service_inv k ?now (?s2, w)" using i1 by (simp add: service_inv_def pending_ok_def)
  have cmd: "service_inv k ?now (case trace_save env (si_save x) (apply_command (sv_pending s1) (sv_model s1)) ?s2 w of
      (ok, s, w) \<Rightarrow> ((if ok then s\<lparr>sv_model := (apply_command (sv_pending s1) (sv_model s1))\<lparr>tr_dirty := False\<rparr>,
         sv_pending := C_None, sv_corrupt := False\<rparr> else s), w))"
    if p: "sv_pending s \<noteq> C_None"
  proof -
    obtain ok s3 w3 where run: "trace_save env (si_save x) (apply_command (sv_pending s1) (sv_model s1)) ?s2 w = (ok, s3, w3)"
      by (metis surj_pair)
    have "sv_pending s1 \<noteq> C_None" using p fr by simp
    note C = command_sound [OF I1(1,2,3) refl this]
    have "unat (tr_boot (apply_command (sv_pending s1) (sv_model s1))) \<le> k" using i1 by (simp add: service_inv_def)
    from save_keeps_inv [OF i2 _ C this run, where c = False and p = C_None] fr p run show ?thesis by simp
  qed
  let ?m = "trace_attempted ?now (sv_model s1)"
  have check: "service_inv k ?now (case trace_save env (si_save x) ?m (?s2\<lparr>sv_model := ?m\<rparr>) w of
      (ok, s, w) \<Rightarrow> ((if ok then s\<lparr>sv_model := ?m\<lparr>tr_dirty := False\<rparr>\<rparr> else s), w))"
    if nc: "\<not> sv_corrupt s"
  proof -
    obtain ok s3 w3 where run: "trace_save env (si_save x) ?m (?s2\<lparr>sv_model := ?m\<rparr>) w = (ok, s3, w3)"
      by (metis surj_pair)
    have i3: "service_inv k ?now (?s2\<lparr>sv_model := ?m\<rparr>, w)"
      using i2 fr by (simp add: service_inv_def pending_ok_def Let_def) (simp add: trace_attempted_def)
    have m: "trace_sound ?m" "rows_past ?now ?m" "unat (tr_boot ?m) \<le> k"
      using I1 i1 fr nc by (simp_all add: service_inv_def)
    note K = save_keeps_inv [OF i3 _ m run, where c = "sv_corrupt s" and p = "sv_pending s"]
    have eq: "s3\<lparr>sv_model := ?m\<lparr>tr_dirty := False\<rparr>\<rparr> =
        s3\<lparr>sv_model := ?m\<lparr>tr_dirty := False\<rparr>, sv_pending := sv_pending s, sv_corrupt := sv_corrupt s\<rparr>"
      using trace_save_spec(7,8) [OF m(1,3) _ i3 run] fr by simp
    have "pending_ok (?s2\<lparr>sv_model := ?m\<rparr>)" using i3 by (simp add: service_inv_def)
    then show ?thesis using K fr run eq by simp
  qed
  show ?thesis
    unfolding service_record_def Let_def s1_def [symmetric]
    using i1 cmd check fr cp by (cases "sv_corrupt s") simp_all
qed

lemma service_sample_inv:
  assumes i: "service_inv k clock (s, w)" and r: "sv_ready s" and late: "clock \<le> si_now x"
  shows "service_inv k (si_now x) (service_sample env x s w)"
  using service_inv_mono [OF i late] service_record_inv [OF i r late]
  by (auto simp: service_sample_def Let_def split: option.splits)

lemma quiet_fields [simp]:
  "service_inv k clock (s\<lparr>sv_next_load := u\<rparr>, w) = service_inv k clock (s, w)"
  "service_inv k clock (s\<lparr>sv_alloc_attempted := f\<rparr>, w) = service_inv k clock (s, w)"
  "service_inv k clock (s\<lparr>sv_last_alloc := u\<rparr>, w) = service_inv k clock (s, w)"
  "service_inv k clock (s\<lparr>sv_alloc_error := f\<rparr>, w) = service_inv k clock (s, w)"
  "service_inv k clock (s\<lparr>sv_storage_error := f\<rparr>, w) = service_inv k clock (s, w)"
  "service_inv k clock (s\<lparr>sv_allocated := f\<rparr>, w) = service_inv k clock (s, w)"
  by (simp_all add: service_inv_def pending_ok_def)

lemma ensure_storage_frame:
  assumes "ensure_storage now mem s = (ok, s')"
  shows "service_inv k clock (s', w) = service_inv k clock (s, w)" "sv_ready s' = sv_ready s"
    "sv_model s' = sv_model s" "sv_next_load s' = sv_next_load s"
  using assms unfolding ensure_storage_def Let_def by (auto split: if_splits)

lemma trace_load_inv:
  assumes i: "service_inv k clock (s, w)" and r: "\<not> sv_ready s" and run: "trace_load env c n s w = (s', w')"
  shows "service_inv k 0 (s', w')"
proof -
  obtain got selected b md where b: "bk_load env c (sv_backend s) (fw_medium w) = (got, selected, b, md)"
    by (metis surj_pair)
  have I: "md_key (fw_medium w) = None" "bk_policy (sv_backend s) \<noteq> P_Nand" "key_sound (k - 1) (fw_trace w)"
    "length (pk_bytes (sv_packed s)) = 3108" "length (pk_bytes (sv_verify s)) = 3108" "sv_pending s = C_None"
    "\<not> sv_corrupt s" "sv_model s = trace0" "2 \<le> k" "k < 4294967295" using i r by (simp_all add: service_inv_def)
  note B = load_absent [OF b I(1,2)]
  have z: "trace_sound trace0" "rows_past 0 trace0" "\<not> tr_armed trace0" "tr_boot trace0 = 1"
    using trace0_sound [of 1] by (simp_all add: trace0_def)
  define l where "l = load_nvs n (fw_trace w) (s\<lparr>sv_backend := b\<rparr>)"
  have L: "trace_sound (sv_model l) \<and> sv_pending l = C_None \<and>
    (sv_corrupt l \<and> sv_model l = trace0 \<or> rows_past 0 (sv_model l) \<and> \<not> sv_corrupt l) \<and>
    unat (tr_boot (sv_model l)) \<le> k \<and> length (pk_bytes (sv_packed l)) = 3108 \<and> sv_ready l \<and>
    sv_verify l = sv_verify s \<and> sv_backend l = b"
    using load_nvs_spec [OF I(3) I(9,10), of "s\<lparr>sv_backend := b\<rparr>" n 0] I by (simp add: l_def)
  have up: "key_sound k key" if "key_sound (k - 1) key" for key
    using that by (auto simp: key_sound_def split: option.splits)
  show ?thesis
  proof (cases selected)
    case True
    then show ?thesis using run b B I z up [OF I(3)]
      by (auto simp: trace_load_def Let_def service_inv_def pending_ok_def split: if_splits)
  next
    case False
    then have "s' = l" "w' = w" using run b B(2) by (auto simp: trace_load_def Let_def l_def)
    with L B I z up [OF I(3)] show ?thesis by (auto simp: service_inv_def pending_ok_def Let_def)
  qed
qed

lemma trace_service_inv:
  assumes i: "service_inv k clock (s, w)" and late: "clock \<le> si_now x"
  shows "service_inv k (si_now x) (trace_service env x s w)"
proof -
  have i': "service_inv k (si_now x) (s, w)" by (rule service_inv_mono [OF i late])
  obtain ok s1 where e: "ensure_storage (si_now x) (si_memory x) s = (ok, s1)" by fastforce
  note E = ensure_storage_frame [OF e]
  obtain s2 w2 where l: "trace_load env (si_load x) (si_nvs x) s1 w = (s2, w2)" by fastforce
  have i1: "service_inv k clock (s1, w)" "service_inv k (si_now x) (s1, w)" using i i' E(1) by blast+
  show ?thesis
  proof (cases "bk_working (sv_backend s) \<or> \<not> si_lock x \<or> si_ota x \<or> \<not> ok \<or> \<not> sv_ready s1 \<and> si_now x < sv_next_load s1")
    case True
    then have "trace_service env x s w = (s, w) \<or> trace_service env x s w = (s1, w)"
      by (auto simp: trace_service_def e)
    with i' i1 show ?thesis by auto
  next
    case go: False
    show ?thesis
    proof (cases "sv_ready s1")
      case True
      then have "trace_service env x s w = service_sample env x s1 w" using go by (simp add: trace_service_def e)
      with service_sample_inv [OF i1(1) True late] show ?thesis by simp
    next
      case False
      have ld: "service_inv k 0 (s2, w2)" by (rule trace_load_inv [OF i1(1) False l])
      have run: "trace_service env x s w =
          (if \<not> sv_ready s2 then (s2\<lparr>sv_next_load := si_now x + 60000\<rparr>, w2) else service_sample env x s2 w2)"
        using go False by (simp add: trace_service_def e l)
      show ?thesis
      proof (cases "sv_ready s2")
        case True
        then show ?thesis using run service_sample_inv [OF ld True, of x env] by simp
      next
        case False
        have "service_inv k (si_now x) (s2, w2)" by (rule service_inv_mono [OF ld]) simp
        then show ?thesis using run False by simp
      qed
    qed
  qed
qed

lemma trace_request_inv:
  assumes i: "service_inv k clock (s, w)" and run: "trace_request lock c s = (ok, s')"
  shows "service_inv k clock (s', w)"
proof (cases "s' = s")
  case True
  with i show ?thesis by simp
next
  case False
  then have s': "s' = s\<lparr>sv_pending := c\<rparr>" "sv_ready s" "sv_pending s = C_None"
    and ok: "c = C_Arm \<Longrightarrow> \<not> sv_corrupt s \<and> tr_count (sv_model s) = 0 \<and> \<not> tr_armed (sv_model s)"
      "c = C_Stop \<Longrightarrow> tr_armed (sv_model s)"
      "c = C_Resume \<Longrightarrow> \<not> sv_corrupt s \<and> \<not> tr_armed (sv_model s) \<and> \<not> tr_finalized (sv_model s)"
      "c = C_Checkpoint \<Longrightarrow> \<not> sv_corrupt s"
    using run unfolding trace_request_def Let_def by (auto split: if_splits)
  have "pending_ok s" using i by (simp add: service_inv_def)
  then have "pending_ok (s\<lparr>sv_pending := c\<rparr>)"
    using ok by (auto simp: pending_ok_def Let_def)
  with i s' show ?thesis by (simp add: service_inv_def)
qed

section \<open>Histories\<close>

text \<open>
  A restart forgets everything but NVS and the flash. A service call whose clock is behind the last
  one of its boot does not happen: the system timer of a boot never runs backwards.
\<close>

datatype trace_event = Ev_Service service_input | Ev_Request bool command | Ev_Restart

definition trace_world_step ::
  "'s nand_env \<Rightarrow> u64 \<times> service \<times> 's flash_world \<Rightarrow> trace_event \<Rightarrow> u64 \<times> service \<times> 's flash_world" where
  "trace_world_step env cfg e =
     (case cfg of (clock, s, w) \<Rightarrow>
       (case e of
          Ev_Service i \<Rightarrow> if si_now i < clock then cfg else (si_now i, trace_service env i s w)
        | Ev_Request lock c \<Rightarrow> (clock, snd (trace_request lock c s), w)
        | Ev_Restart \<Rightarrow> (0, service0, w\<lparr>fw_medium := snd (bk_restart (fw_medium w))\<rparr>)))"

definition factory :: "'s \<Rightarrow> 's flash_world" where
  "factory dev = \<lparr>fw_medium = \<lparr>md_key = None, md_dev = dev, md_fence = False\<rparr>, fw_trace = None\<rparr>"

definition trace_world :: "'s nand_env \<Rightarrow> 's \<Rightarrow> trace_event list \<Rightarrow> u64 \<times> service \<times> 's flash_world" where
  "trace_world env dev es = foldl (trace_world_step env) (0, service0, factory dev) es"

lemma service0_inv:
  assumes "2 \<le> k" "k < 4294967295" "md_key (fw_medium w) = None" "key_sound (k - 1) (fw_trace w)"
  shows "service_inv k clock (service0, w)"
proof -
  have "trace_sound trace0" "rows_past clock trace0" "tr_boot trace0 = 1"
    using trace0_sound [of 1 clock] by (simp_all add: trace0_def)
  then show ?thesis using assms
    by (simp add: service_inv_def service0_def pending_ok_def packed0_def backend0_def)
qed

lemma trace_world_inv:
  "length es + 2 < 4294967295 \<Longrightarrow> service_inv (length es + 2) (fst (trace_world env dev es)) (snd (trace_world env dev es))"
proof (induction es rule: rev_induct)
  case Nil
  show ?case by (simp add: trace_world_def service0_inv factory_def key_sound_def)
next
  case (snoc e es)
  obtain clock s w where c: "trace_world env dev es = (clock, s, w)" by (metis surj_pair)
  let ?k = "length es + 2"
  have i: "service_inv ?k clock (s, w)" using snoc c by simp
  have ks: "key_sound ?k (fw_trace w)" "md_key (fw_medium w) = None"
    using i by (auto simp: service_inv_def key_sound_def split: option.splits if_splits)
  have up: "service_inv (Suc ?k) clock' (s', w')" if "service_inv ?k clock' (s', w')" for clock' s' w'
    using that snoc.prems by (auto simp: service_inv_def key_sound_def split: option.splits if_splits)
  have n: "trace_world env dev (es @ [e]) = trace_world_step env (clock, s, w) e"
    by (simp add: trace_world_def c [unfolded trace_world_def])
  show ?case
  proof (cases e)
    case (Ev_Service x)
    show ?thesis
    proof (cases "si_now x < clock")
      case True
      then show ?thesis using n Ev_Service up [OF i] by (simp add: trace_world_step_def)
    next
      case False
      have "service_inv ?k (si_now x) (trace_service env x s w)" by (rule trace_service_inv [OF i]) (use False in simp)
      then show ?thesis using n Ev_Service up False
        by (cases "trace_service env x s w") (simp add: trace_world_step_def)
    qed
  next
    case (Ev_Request lock cmd)
    obtain ok s' where r: "trace_request lock cmd s = (ok, s')" by fastforce
    then show ?thesis using n Ev_Request up [OF trace_request_inv [OF i r]] by (simp add: trace_world_step_def)
  next
    case Ev_Restart
    have "service_inv (Suc ?k) 0 (service0, w\<lparr>fw_medium := snd (bk_restart (fw_medium w))\<rparr>)"
      by (rule service0_inv) (use ks snoc.prems in \<open>simp_all add: bk_restart_def\<close>)
    then show ?thesis using n Ev_Restart by (simp add: trace_world_step_def)
  qed
qed

text \<open>C11: Over any history of service calls, requests and restarts of a new device, whatever NVS
  answers and however its writes end, the trace in memory is one its decoder accepts, and the record
  in NVS is absent or one that the next boot reads back.\<close>

theorem trace_history_readable:
  assumes "length es + 2 < 4294967295" "trace_world env dev es = (clock, s, w)"
  shows "trace_decode (trace_encode (sv_model s)) = Some (trace_stored (sv_model s)) \<and>
    (fw_trace w = None \<or> (\<exists>m. nvs_decoded (fw_trace w) = Some m \<and> trace_storable m))"
proof -
  from trace_world_inv [OF assms(1), of env dev] assms(2)
  have "trace_sound (sv_model s)" "\<exists>k. key_sound k (fw_trace w)" by (auto simp: service_inv_def)
  then show ?thesis
    by (cases "fw_trace w") (auto simp: key_sound_def trace_sound_def decode_encode)
qed

definition quiet_load :: "service_input" where
  "quiet_load = \<lparr>si_lock = True, si_ota = False, si_now = 5000, si_memory = True,
     si_load = \<lparr>cf_lock = True, cf_nvs = nvs_fine, cf_admission = facts_fine, cf_memory = True, cf_gates = open_gates\<rparr>,
     si_nvs = \<lparr>tn_open = ESP_OK, tn_length = ESP_OK, tn_get = ESP_OK, tn_open_w = ESP_OK, tn_set = (ESP_OK, True),
       tn_commit = (ESP_OK, True), tn_reopen = ESP_OK, tn_reget = ESP_OK\<rparr>,
     si_sample = None, si_trial = False, si_clock = (False, 0), si_ota_after = False,
     si_save = \<lparr>sf_ota = False,
       sf_call = \<lparr>cf_lock = True, cf_nvs = nvs_fine, cf_admission = facts_fine, cf_memory = True, cf_gates = open_gates\<rparr>,
       sf_nvs = \<lparr>tn_open = ESP_OK, tn_length = ESP_OK, tn_get = ESP_OK, tn_open_w = ESP_OK, tn_set = (ESP_OK, True),
         tn_commit = (ESP_OK, True), tn_reopen = ESP_OK, tn_reget = ESP_OK\<rparr>, sf_ota_again = False\<rparr>\<rparr>"

lemma trace_history_readable_witness:
  "\<exists>clock s w. trace_world ram_env fresh_chip
      [Ev_Service quiet_load, Ev_Request True C_Arm, Ev_Service (quiet_load\<lparr>si_sample := Some gauge_fine, si_now := 66000\<rparr>)] =
      (clock, s, w) \<and>
    trace_decode (trace_encode (sv_model s)) = Some (trace_stored (sv_model s))"
proof -
  let ?es = "[Ev_Service quiet_load, Ev_Request True C_Arm, Ev_Service (quiet_load\<lparr>si_sample := Some gauge_fine, si_now := 66000\<rparr>)]"
  obtain clock s w where r: "trace_world ram_env fresh_chip ?es = (clock, s, w)" by (metis surj_pair)
  from trace_history_readable [OF _ r] have "trace_decode (trace_encode (sv_model s)) = Some (trace_stored (sv_model s))"
    by simp
  with r show ?thesis by blast
qed

text \<open>C12: A save of the trace that was acknowledged, after any history, is what the next boot
  restores when NVS can be read: the same rows in the same order and the same flags, in a session of
  its own.\<close>

theorem trace_save_durable:
  assumes "length es + 2 < 4294967295" "trace_world env dev es = (clock, s, w)" "sv_ready s"
    "trace_save env f (sv_model s) s w = (True, s', w')"
    "tn_open n = ESP_OK" "tn_length n = ESP_OK" "tn_get n = ESP_OK"
  shows "(case load_nvs n (fw_trace w') service0 of r \<Rightarrow>
    sv_ready r \<and> \<not> sv_corrupt r \<and> trace_items (sv_model r) = map row_norm (trace_items (sv_model s)) \<and>
    tr_armed (sv_model r) = tr_armed (sv_model s) \<and> tr_finalized (sv_model r) = tr_finalized (sv_model s) \<and>
    tr_boot (sv_model r) = tr_boot (sv_model s) + 1)"
proof -
  let ?m = "sv_model s"
  have i: "service_inv (length es + 2) clock (s, w)" using trace_world_inv [OF assms(1), of env dev] assms(2) by simp
  then have m: "trace_sound ?m" "unat (tr_boot ?m) \<le> length es + 2" by (simp_all add: service_inv_def)
  note S = trace_save_spec [OF m assms(3) i assms(4)]
  have d: "nvs_decoded (fw_trace w') = Some (trace_stored ?m)" by (rule S(10)) simp
  then obtain fr b where f: "fw_trace w' = Some fr" "16 \<le> length fr" "length fr \<le> 3108"
    "trace_unpack (as_packed fr (replicate 3108 0)) = Inr b" "trace_decode b = Some (trace_stored ?m)"
    by (auto simp: nvs_decoded_def split: option.splits if_splits sum.splits)
  have p: "nvs_read_trace n (fw_trace w') (sv_packed service0) = (ESP_OK, F_Load, as_packed fr (replicate 3108 0))"
    using f assms(5-7) by (simp add: nvs_read_trace_def nvs_get_blob_def service0_def packed0_def as_packed_def)
  have nb: "tr_boot (trace_stored ?m) \<noteq> - 1" by (rule boot_small) (use m assms(1) in simp)
  have "load_nvs n (fw_trace w') service0 = service0\<lparr>sv_packed := as_packed fr (replicate 3108 0),
      sv_encoded := length fr, sv_model := (trace_stored ?m)\<lparr>tr_boot := tr_boot ?m + 1\<rparr>, sv_ready := True\<rparr>"
  proof -
    have c: "\<not> sv_corrupt service0" by (simp add: service0_def)
    have sz: "pk_size (as_packed fr rest) = length fr" for rest by (simp add: as_packed_def)
    show ?thesis using f(4,5) nb c by (simp add: load_nvs_def p Let_def sz)
  qed
  moreover have "trace_items ((trace_stored ?m)\<lparr>tr_boot := v\<rparr>) = map row_norm (trace_items ?m)" for v
    using m(1) trace_stored_items [of ?m]
    by (simp add: trace_sound_def trace_storable_def trace_items_def trace_at_def cong: map_cong)
  ultimately show ?thesis by (simp add: service0_def) (simp add: trace_stored_def)
qed

lemma write_trace_succeeds:
  assumes m: "trace_sound m" and q: "length (pk_bytes q0) = 3108" "length (pk_bytes q) = 3108"
    and n: "tn_set n = (ESP_OK, True)" "fst (tn_commit n) = ESP_OK" "tn_reopen n = ESP_OK" "tn_reget n = ESP_OK"
  shows "fst (nvs_write_trace n (trace_encode m) (trace_pack (trace_encode m) q0) q key) = ESP_OK"
proof -
  have c: "tr_count m \<le> 64" using m by (auto simp: trace_sound_def trace_storable_def trace_wf_def)
  let ?p = "trace_pack (trace_encode m) q0"
  let ?f = "take (pk_size ?p) (pk_bytes ?p)"
  note P = unpack_pack [OF canonical_encode [OF c] q(1)]
  have k: "nvs_put_blob (tn_commit n) ?p (nvs_put_blob (tn_set n) ?p key) = Some ?f"
    by (simp add: nvs_put_blob_def n)
  have l: "length ?f = pk_size ?p" "length ?f \<le> 3108" using P by simp_all
  have "trace_unpack (as_packed ?f (pk_bytes q)) = trace_unpack (as_packed ?f (pk_bytes ?p))"
    using as_packed_unpack [OF l(2) q(2)] as_packed_unpack [OF l(2), of "pk_bytes ?p"] P by simp
  also have "as_packed ?f (pk_bytes ?p) = ?p" using l(1) by (cases ?p) (simp add: as_packed_def)
  finally have u: "trace_unpack (as_packed ?f (pk_bytes q)) = Inr (trace_encode m)" using P by simp
  have g: "nvs_get_blob (tn_reget n) (Some ?f) q = (ESP_OK, as_packed ?f (pk_bytes q))"
    using l by (simp add: nvs_get_blob_def n as_packed_def)
  have "verified_readback (trace_encode m) (trace_encode m) 3108"
    using canonical_encode [OF c] by (simp add: verified_readback_def canonical_blob_def list_all_iff)
  then show ?thesis by (simp add: nvs_write_trace_def Let_def k [unfolded n] g [unfolded n] u n)
qed

lemma first_load:
  "\<exists>s. trace_world ram_env fresh_chip [Ev_Service quiet_load] = (5000, s, factory fresh_chip) \<and> sv_ready s \<and>
     bk_policy (sv_backend s) = P_Nvs \<and> \<not> bk_working (sv_backend s)"
proof -
  let ?s = "service0\<lparr>sv_alloc_attempted := True, sv_last_alloc := 5000, sv_allocated := True, sv_alloc_error := False,
    sv_storage_error := False\<rparr>"
  have e: "ensure_storage 5000 True service0 = (True, ?s)"
    by (simp add: ensure_storage_def Let_def) (simp add: service0_def)
  let ?b = "backend0\<lparr>bk_nvs_stage := 2, bk_policy := P_Nvs\<rparr>"
  have b: "bk_load ram_env (si_load quiet_load) backend0 (fw_medium (factory fresh_chip)) = (None, False, ?b, fw_medium (factory fresh_chip))"
    by (simp add: bk_load_def quiet_load_def factory_def read_policy_def nvs_fine_def nvs_get_u8_def backend0_def Let_def
        esp_all_codes ESP_ERR_NVS_NOT_FOUND_def)
  have n: "load_nvs (si_nvs quiet_load) None (?s\<lparr>sv_backend := ?b\<rparr>) =
      ?s\<lparr>sv_backend := ?b, sv_model := trace0\<lparr>tr_boot := 2\<rparr>, sv_ready := True\<rparr>"
    by (simp add: load_nvs_def nvs_read_trace_def quiet_load_def Let_def service0_def esp_all_codes ESP_ERR_NVS_NOT_FOUND_def)
      (simp add: trace0_def)
  let ?r = "?s\<lparr>sv_backend := ?b, sv_model := trace0\<lparr>tr_boot := 2\<rparr>, sv_ready := True\<rparr>"
  have l: "trace_load ram_env (si_load quiet_load) (si_nvs quiet_load) ?s (factory fresh_chip) = (?r, factory fresh_chip)"
    using b n by (simp add: trace_load_def Let_def service0_def factory_def)
  have sm: "service_sample ram_env quiet_load ?r (factory fresh_chip) = (?r, factory fresh_chip)"
    by (simp add: service_sample_def Let_def service0_def trace_due_def trace0_def)
  have f: "si_now quiet_load = 5000" "si_memory quiet_load" "si_lock quiet_load" "\<not> si_ota quiet_load"
    by (simp_all add: quiet_load_def)
  have "trace_service ram_env quiet_load service0 (factory fresh_chip) = (?r, factory fresh_chip)"
  proof -
    have z: "\<not> bk_working (sv_backend service0)" "\<not> sv_ready service0" "sv_next_load service0 = 0"
      by (simp_all add: service0_def backend0_def)
    have y: "\<not> sv_ready ?s" "sv_next_load ?s = 0" "sv_ready ?r" using z by simp_all
    show ?thesis unfolding trace_service_def f e by (simp only: z y f l sm e prod.case if_False if_True not_False_eq_True simp_thms) simp
  qed
  moreover have "bk_policy (sv_backend ?r) = P_Nvs" "\<not> bk_working (sv_backend ?r)" "sv_ready ?r" by (simp_all add: backend0_def)
  ultimately show ?thesis using f(1) by (simp add: trace_world_def trace_world_step_def)
qed

lemma trace_save_durable_witness:
  "\<exists>s s' w'. trace_world ram_env fresh_chip [Ev_Service quiet_load] = (5000, s, factory fresh_chip) \<and>
     trace_save ram_env (si_save quiet_load) (sv_model s) s (factory fresh_chip) = (True, s', w') \<and>
     sv_ready (load_nvs (si_nvs quiet_load) (fw_trace w') service0)"
proof -
  obtain s where r: "trace_world ram_env fresh_chip [Ev_Service quiet_load] = (5000, s, factory fresh_chip)" "sv_ready s"
    "bk_policy (sv_backend s) = P_Nvs" "\<not> bk_working (sv_backend s)" using first_load by blast
  have i: "service_inv 3 5000 (s, factory fresh_chip)"
    using trace_world_inv [of "[Ev_Service quiet_load]" ram_env fresh_chip] r(1) by (simp add: numeral_3_eq_3)
  have m: "trace_sound (sv_model s)" "length (pk_bytes (sv_packed s)) = 3108" "length (pk_bytes (sv_verify s)) = 3108"
    using i by (simp_all add: service_inv_def)
  let ?n = "sf_nvs (si_save quiet_load)"
  obtain e st q key where w: "nvs_write_trace ?n (trace_encode (sv_model s))
      (trace_pack (trace_encode (sv_model s)) (sv_packed s)) (sv_verify s) None = (e, st, q, key)"
    by (metis surj_pair)
  have n: "tn_set ?n = (ESP_OK, True)" "fst (tn_commit ?n) = ESP_OK" "tn_reopen ?n = ESP_OK" "tn_reget ?n = ESP_OK"
    "tn_open_w ?n = ESP_OK" "\<not> sf_ota (si_save quiet_load)" "\<not> sf_ota_again (si_save quiet_load)"
    by (simp_all add: quiet_load_def)
  have e: "e = ESP_OK" using write_trace_succeeds [OF m n(1-4), of None] w by simp
  have "bk_save ram_env (sf_call (si_save quiet_load)) blob (sv_backend s) md = (False, False, (sv_backend s)\<lparr>bk_retry := False\<rparr>, md)" for blob md
    using r(3,4) by (simp add: bk_save_def quiet_load_def read_policy_def Let_def)
  then have "\<exists>s' w'. trace_save ram_env (si_save quiet_load) (sv_model s) s (factory fresh_chip) = (True, s', w')"
    using w e n by (simp add: trace_save_def Let_def factory_def)
  then obtain s' w' where sv: "trace_save ram_env (si_save quiet_load) (sv_model s) s (factory fresh_chip) = (True, s', w')"
    by blast
  from trace_save_durable [OF _ r(1,2) sv, of "si_nvs quiet_load"]
  have "sv_ready (load_nvs (si_nvs quiet_load) (fw_trace w') service0)" by (simp add: quiet_load_def)
  with r(1) sv show ?thesis by blast
qed

end
