(* ===== verification/Dma_Reserve.thy ===== *)
theory Dma_Reserve
  imports Prelude_Words
begin

text \<open>
  The boot-time DMA buffer that the flash driver borrows
  (\<open>main/hal/mosaico/mosaico_nand_dma_reserve_model.h\<close>). The allocator is a parameter: what
  \<open>allocate\<close> returned and what \<open>valid\<close> answered are arguments of the calls. An address is a
  \<open>nat\<close>, a null pointer \<open>None\<close>.
\<close>

datatype dma_error = DE_Unprepared | DE_None | DE_Allocation | DE_Memory | DE_Request | DE_Busy | DE_Ownership

definition error_name :: "dma_error \<Rightarrow> string" where
  "error_name e =
     (if e = DE_None then ''ready'' else if e = DE_Allocation then ''allocation''
      else if e = DE_Memory then ''memory'' else if e = DE_Request then ''request''
      else if e = DE_Busy then ''busy'' else if e = DE_Ownership then ''ownership'' else ''unprepared'')"

record dma =
  dma_attempted :: bool
  dma_ready :: bool
  dma_leased :: bool
  dma_faulted :: bool
  dma_last :: dma_error
  dma_buffer :: "nat option"

definition dma0 :: dma where
  "dma0 = \<lparr>dma_attempted = False, dma_ready = False, dma_leased = False, dma_faulted = False,
     dma_last = DE_Unprepared, dma_buffer = None\<rparr>"

definition dma_is_ready :: "dma \<Rightarrow> bool" where
  "dma_is_ready d \<longleftrightarrow> dma_ready d \<and> \<not> dma_faulted d"

definition valid_request :: "u32 \<Rightarrow> u32 \<Rightarrow> bool" where
  "valid_request nbytes alignment \<longleftrightarrow> nbytes \<noteq> 0 \<and> nbytes \<le> 2112 \<and> alignment \<noteq> 0 \<and> alignment \<le> 64 \<and>
     alignment AND (alignment - 1) = 0"

definition dma_fault :: "dma_error \<Rightarrow> dma \<Rightarrow> dma" where
  "dma_fault e d = d\<lparr>dma_faulted := True, dma_last := e\<rparr>"

definition dma_prepare :: "nat option \<Rightarrow> bool \<Rightarrow> dma \<Rightarrow> bool \<times> dma" where
  "dma_prepare fresh valid d =
     (if dma_attempted d then (dma_is_ready d, d)
      else
        (let d1 = d\<lparr>dma_attempted := True\<rparr> in
         if dma_faulted d1 then (False, d1)
         else if fresh = None then (False, dma_fault DE_Allocation d1)
         else if \<not> valid then (False, dma_fault DE_Memory d1)
         else (True, d1\<lparr>dma_buffer := fresh, dma_last := DE_None, dma_ready := True\<rparr>)))"

definition dma_acquire :: "u32 \<Rightarrow> u32 \<Rightarrow> bool \<Rightarrow> dma \<Rightarrow> nat option \<times> dma" where
  "dma_acquire nbytes alignment valid d =
     (if \<not> dma_is_ready d then (None, d)
      else if \<not> valid_request nbytes alignment then (None, d\<lparr>dma_last := DE_Request\<rparr>)
      else if dma_leased d then (None, d\<lparr>dma_last := DE_Busy\<rparr>)
      else
        (let d1 = d\<lparr>dma_leased := True\<rparr> in
         if dma_faulted d1 \<or> \<not> valid then (None, dma_fault DE_Memory d1)
         else (dma_buffer d1, d1\<lparr>dma_last := DE_None\<rparr>)))"

definition dma_release :: "nat option \<Rightarrow> dma \<Rightarrow> bool \<times> dma" where
  "dma_release pointer d =
     (if pointer = None then (True, d)
      else if \<not> dma_ready d \<or> pointer \<noteq> dma_buffer d then (False, dma_fault DE_Ownership d)
      else if \<not> dma_leased d then (False, dma_fault DE_Ownership d)
      else (True, d\<lparr>dma_leased := False\<rparr>))"

text \<open>Calls in any order, and what the outside sees of them.\<close>

datatype dma_call = Prepare "nat option" bool | Acquire u32 u32 bool | Release "nat option"

datatype dma_seen = Lent nat | Returned

definition dma_step :: "dma \<Rightarrow> dma_call \<Rightarrow> dma_seen list \<times> dma" where
  "dma_step d c =
     (case c of
        Prepare fresh valid \<Rightarrow> ([], snd (dma_prepare fresh valid d))
      | Acquire n a valid \<Rightarrow>
          (case dma_acquire n a valid d of
             (None, d1) \<Rightarrow> ([], d1) | (Some p, d1) \<Rightarrow> ([Lent p], d1))
      | Release p \<Rightarrow>
          (case dma_release p d of (ok, d1) \<Rightarrow> (if ok \<and> p \<noteq> None then [Returned] else [], d1)))"

fun dma_run :: "dma \<Rightarrow> dma_call list \<Rightarrow> dma_seen list \<times> dma" where
  "dma_run d [] = ([], d)"
| "dma_run d (c # cs) =
     (case dma_step d c of (seen, d1) \<Rightarrow> (case dma_run d1 cs of (rest, d2) \<Rightarrow> (seen @ rest, d2)))"

lemma valid_alignments:
  "valid_request n a \<Longrightarrow> a \<in> {1, 2, 4, 8, 16, 32, 64}"
proof -
  assume v: "valid_request n a"
  then have "unat a \<le> 64" by (simp add: valid_request_def word_le_nat_alt)
  moreover have "\<forall>k \<le> (64 :: nat). k \<noteq> 0 \<longrightarrow> (of_nat k :: u32) AND (of_nat k - 1) = 0 \<longrightarrow>
      k \<in> {1, 2, 4, 8, 16, 32, 64}" by code_simp
  moreover have "a = of_nat (unat a)" "unat a \<noteq> 0" using v by (auto simp: valid_request_def unat_eq_0)
  ultimately have "unat a \<in> {1, 2, 4, 8, 16, 32, 64}" using v by (metis valid_request_def)
  with \<open>a = of_nat (unat a)\<close> obtain k where "a = of_nat k" "k \<in> {1, 2, 4, 8, 16, 32, 64 :: nat}" by blast
  then show ?thesis by auto
qed

definition dma_inv :: "dma \<Rightarrow> bool" where
  "dma_inv d \<longleftrightarrow> (dma_ready d \<longrightarrow> dma_attempted d \<and> dma_buffer d \<noteq> None) \<and> (dma_leased d \<longrightarrow> dma_ready d)"

text \<open>Once published the buffer stays; once faulted the reservation stays faulted.\<close>

definition dma_later :: "dma \<Rightarrow> dma \<Rightarrow> bool" where
  "dma_later d d1 \<longleftrightarrow> (dma_ready d \<longrightarrow> dma_ready d1 \<and> dma_buffer d1 = dma_buffer d) \<and>
     (dma_faulted d \<longrightarrow> dma_faulted d1)"

lemmas dma_defs = dma_step_def dma_prepare_def dma_acquire_def dma_release_def dma_fault_def dma_is_ready_def

lemma dma_step_inv:
  assumes "dma_inv d" "dma_step d c = (seen, d1)"
  shows "dma_inv d1" "dma_later d d1"
  using assms by (auto simp: dma_defs dma_inv_def dma_later_def Let_def split: dma_call.splits if_splits option.splits prod.splits)

text \<open>\<open>lease_ok h ts\<close>: starting with the buffer lent or not, no lending while it is lent.\<close>

fun lease_ok :: "bool \<Rightarrow> dma_seen list \<Rightarrow> bool" where
  "lease_ok h [] = True"
| "lease_ok h (Lent p # ts) = (\<not> h \<and> lease_ok True ts)"
| "lease_ok h (Returned # ts) = lease_ok False ts"

lemma lease_ok_mono: "lease_ok h ts \<Longrightarrow> lease_ok False ts"
  by (cases ts; cases "hd ts") auto

lemma dma_step_seen:
  assumes "dma_inv d" "dma_step d c = (seen, d1)"
  shows "(seen = [] \<and> (dma_leased d \<longrightarrow> dma_leased d1 \<or> \<not> dma_leased d)) \<or>
    (\<exists>p. seen = [Lent p] \<and> \<not> dma_leased d \<and> dma_leased d1 \<and> \<not> dma_faulted d \<and> dma_ready d1 \<and> dma_buffer d1 = Some p) \<or>
    (seen = [Returned] \<and> \<not> dma_leased d1)"
  using assms by (auto simp: dma_defs dma_inv_def Let_def split: dma_call.splits if_splits option.splits prod.splits)

lemma dma_run_spec:
  "dma_inv d \<Longrightarrow> dma_run d cs = (ts, d') \<Longrightarrow>
    dma_inv d' \<and> dma_later d d' \<and> lease_ok (dma_leased d) ts \<and>
    (\<forall>p. Lent p \<in> set ts \<longrightarrow> dma_buffer d' = Some p \<and> \<not> dma_faulted d)"
proof (induction cs arbitrary: d ts d')
  case Nil
  then show ?case by (auto simp: dma_later_def)
next
  case (Cons c cs)
  obtain seen d1 where st: "dma_step d c = (seen, d1)" by fastforce
  obtain rest d2 where r: "dma_run d1 cs = (rest, d2)" by fastforce
  note I = dma_step_inv [OF Cons.prems(1) st]
  from Cons.IH [OF I(1) r] have H: "dma_inv d2" "dma_later d1 d2" "lease_ok (dma_leased d1) rest"
    "\<And>p. Lent p \<in> set rest \<Longrightarrow> dma_buffer d2 = Some p \<and> \<not> dma_faulted d1" by auto
  have e: "ts = seen @ rest" "d' = d2" using Cons.prems(2) st r by simp_all
  have l: "dma_later d d2" using I(2) H(2) by (auto simp: dma_later_def)
  from dma_step_seen [OF Cons.prems(1) st] show ?case
  proof (elim disjE exE conjE)
    assume s: "seen = []" "dma_leased d \<longrightarrow> dma_leased d1 \<or> \<not> dma_leased d"
    have "lease_ok (dma_leased d) rest"
      using H(3) s(2) lease_ok_mono by (cases "dma_leased d") auto
    with s(1) e H I(2) l show ?thesis by (auto simp: dma_later_def)
  next
    fix p
    assume s: "seen = [Lent p]" "\<not> dma_leased d" "dma_leased d1" "\<not> dma_faulted d" "dma_ready d1"
      "dma_buffer d1 = Some p"
    with e H I(2) l show ?thesis by (auto simp: dma_later_def)
  next
    assume s: "seen = [Returned]" "\<not> dma_leased d1"
    with e H I(2) l show ?thesis by (auto simp: dma_later_def)
  qed
qed

interpretation dma: event_machine "\<lambda>d c. snd (dma_step d c)" dma0 dma_inv
proof
  show "dma_inv dma0" by (simp add: dma_inv_def dma0_def)
  show "dma_inv d \<Longrightarrow> dma_inv (snd (dma_step d c))" for d c
    using dma_step_inv(1) by (metis prod.collapse)
qed

text \<open>C16: The DMA buffer has one owner at a time: over any sequence of prepare, acquire and release
  calls, valid or not, with an allocator that answers as it likes, the buffer is never lent twice
  without a return in between, every loan is of the one address published at boot, and nothing is
  lent once the reservation has faulted.\<close>

theorem dma_exclusive:
  "case dma_run dma0 cs of (ts, d) \<Rightarrow>
     lease_ok False ts \<and> list_all (\<lambda>t. t = Returned \<or> Some t = map_option Lent (dma_buffer d)) ts \<and>
     (case dma_run d es of (us, d') \<Rightarrow> dma_faulted d \<longrightarrow> list_all (\<lambda>t. t = Returned) us \<and> dma_faulted d')"
proof -
  obtain ts d where r: "dma_run dma0 cs = (ts, d)" by fastforce
  obtain us d' where q: "dma_run d es = (us, d')" by fastforce
  have "dma_inv dma0" "\<not> dma_leased dma0" by (simp_all add: dma_inv_def dma0_def)
  note R = dma_run_spec [OF this(1) r]
  have "list_all (\<lambda>t. t = Returned \<or> Some t = map_option Lent (dma_buffer d)) ts"
    unfolding list_all_iff
  proof
    fix t
    assume "t \<in> set ts"
    with R show "t = Returned \<or> Some t = map_option Lent (dma_buffer d)" by (cases t) auto
  qed
  moreover have "list_all (\<lambda>t. t = Returned) us \<and> dma_faulted d'" if "dma_faulted d"
    unfolding list_all_iff
  proof
    have Q: "dma_later d d'" "\<And>p. Lent p \<notin> set us" using dma_run_spec [OF conjunct1 [OF R] q] that by auto
    show "\<forall>t \<in> set us. t = Returned"
    proof
      fix t
      assume "t \<in> set us"
      with Q(2) show "t = Returned" by (cases t) auto
    qed
    show "dma_faulted d'" using Q(1) that by (simp add: dma_later_def)
  qed
  ultimately show ?thesis using r q R \<open>\<not> dma_leased dma0\<close> by simp
qed

lemma dma_exclusive_witness:
  "case dma_run dma0 [Prepare (Some 64) True, Acquire 2048 64 True, Acquire 16 4 True, Release (Some 64)] of
     (ts, d) \<Rightarrow> lease_ok False ts \<and> ts = [Lent 64, Returned] \<and> dma_last d = DE_Busy"
proof -
  have run: "dma_run dma0 [Prepare (Some 64) True, Acquire 2048 64 True, Acquire 16 4 True, Release (Some 64)] =
      ([Lent 64, Returned], \<lparr>dma_attempted = True, dma_ready = True, dma_leased = False, dma_faulted = False,
         dma_last = DE_Busy, dma_buffer = Some 64\<rparr>)" by code_simp
  show ?thesis
    using dma_exclusive [of "[Prepare (Some 64) True, Acquire 2048 64 True, Acquire 16 4 True, Release (Some 64)]" "[]"]
    by (simp add: run del: dma_run.simps)
qed

end
