(* ===== verification/Prelude_Chunks.thy ===== *)
theory Prelude_Chunks
  imports Prelude_Bytes
begin

text \<open>
  Two byte arrays that agree on a range: how equal fields give equal images, for the proofs that a
  decoder accepts one image per value.
\<close>

definition agree :: "bytes \<Rightarrow> bytes \<Rightarrow> nat \<Rightarrow> nat \<Rightarrow> bool" where
  "agree p q a b \<longleftrightarrow> (\<forall>i. a \<le> i \<and> i < b \<longrightarrow> p ! i = q ! i)"

lemma agree_join [trans]: "agree p q a b \<Longrightarrow> agree p q b c \<Longrightarrow> agree p q a c"
  by (auto simp: agree_def) (meson not_le_imp_less)

lemma agree_le:
  assumes "get_le p a n = (get_le q a n :: 'a::len word)" "8 * n \<le> LENGTH('a)" "b = a + n"
  shows "agree p q a b"
  unfolding agree_def
proof (intro allI impI)
  fix i assume "a \<le> i \<and> i < b"
  then have "i - a < n" "a + (i - a) = i" using assms(3) by arith+
  then show "p ! i = q ! i" using get_le_eqD[OF assms(1,2), of "i - a"] by simp
qed

lemma agree_bytes:
  assumes "get_bytes p a n = get_bytes q a n" "b = a + n"
  shows "agree p q a b"
  unfolding agree_def
proof (intro allI impI)
  fix i assume "a \<le> i \<and> i < b"
  then have "i - a < n" "a + (i - a) = i" using assms(2) by arith+
  then show "p ! i = q ! i" using nth_get_bytes[of "i - a" n p a] nth_get_bytes[of "i - a" n q a] assms(1) by simp
qed

lemma agree_nth: "p ! a = q ! a \<Longrightarrow> b = Suc a \<Longrightarrow> agree p q a b"
  by (auto simp: agree_def less_Suc_eq_le dest: antisym)

lemma agree_zeros: "zeros p a b \<Longrightarrow> zeros q a b \<Longrightarrow> agree p q a b"
  by (simp add: agree_def zeros_iff)

lemma agree_all: "agree p q 0 n \<Longrightarrow> length p = n \<Longrightarrow> length q = n \<Longrightarrow> p = q"
  by (rule nth_equalityI) (simp_all add: agree_def)

lemma agree_get_bytes: "agree p q a b \<Longrightarrow> a \<le> c \<Longrightarrow> c + n \<le> b \<Longrightarrow> get_bytes p c n = get_bytes q c n"
  by (rule nth_equalityI) (simp_all add: agree_def)

end
