(* ===== verification/Cold_Trial.thy ===== *)
theory Cold_Trial
  imports Cold_Store Prelude_Words
begin

text \<open>
  The one-shot calibration trial of the gauge (\<open>main/hal/mosaico/mosaico_gauge_cold_trial_model.h\<close>): the
  journal record with its shape and transition rules, and the planners that decide what a startup,
  a capture or a restore may do next. Nonces and digests are byte lists; the digest algorithm and
  the physical readings are inputs of the planners.
\<close>

section \<open>Constants\<close>

definition source_crc :: u32 where "source_crc = 0x70a767be"
definition target_crc :: u32 where "target_crc = 0x91336fc0"
definition armed_limit :: u64 where "armed_limit = 720000"
definition handoff_grace :: u64 where "handoff_grace = 30000"
definition max_capture :: u32 where "max_capture = 60000"
definition resumed_startup_limit :: u64 where "resumed_startup_limit = 120000"
definition armed_restore_trigger :: u64 where "armed_restore_trigger = 600000"
definition resumed_capture_limit :: u64 where "resumed_capture_limit = 60000"

lemmas trial_limits = armed_limit_def handoff_grace_def max_capture_def resumed_startup_limit_def
  armed_restore_trigger_def resumed_capture_limit_def

section \<open>The journal record\<close>

datatype trial_phase = T_Armed | T_HandedOff | T_CaptureClaimed | T_Captured | T_CaptureFailed | T_Restoring
  | T_Restored | T_BlockedUnknown

definition phase_code :: "trial_phase \<Rightarrow> u8" where
  "phase_code p =
     (case p of T_Armed \<Rightarrow> 1 | T_HandedOff \<Rightarrow> 2 | T_CaptureClaimed \<Rightarrow> 3 | T_Captured \<Rightarrow> 4 | T_CaptureFailed \<Rightarrow> 5
      | T_Restoring \<Rightarrow> 6 | T_Restored \<Rightarrow> 7 | T_BlockedUnknown \<Rightarrow> 8)"

datatype recovery_binding = RB_SlotHashes | RB_ContractDigest
datatype capture_result = CR_None | CR_Success | CR_KnownTimeout | CR_KnownOverflow | CR_KnownReadFailure
  | CR_Interrupted | CR_RejectedStartup | CR_StartupWindowExpired
datatype startup_kind = SK_Unknown | SK_PowerOn | SK_Software | SK_Watchdog | SK_Brownout
datatype gauge_image = IM_Unknown | IM_Source131 | IM_TargetC131 | IM_Owned3Mixed | IM_Unexpected
datatype trial_load = LD_Missing | LD_Present | LD_Corrupt | LD_IoUnknown
datatype trial_commit = CM_ExactDurable | CM_NotWritten | CM_UnknownOrTorn

record identity =
  id_device :: u16
  id_firmware :: u16
  id_build :: u8

record boot_token =
  bt_nonce :: bytes
  bt_verified :: bool

definition no_boot :: boot_token where
  "no_boot = \<lparr>bt_nonce = replicate 16 0, bt_verified = False\<rparr>"

record trial_binding =
  bi_mac :: bytes
  bi_identity :: identity
  bi_source :: u32
  bi_target :: u32
  bi_generation :: u32
  bi_epoch :: u64
  bi_nonce :: bytes
  bi_recovery :: recovery_binding
  bi_slot0 :: bytes
  bi_slot1 :: bytes
  bi_contract :: bytes
  bi_receipt :: bytes
  bi_budget :: u32

record trial_record =
  tl_schema :: u16
  tl_binding :: trial_binding
  tl_sequence :: u32
  tl_phase :: trial_phase
  tl_armed_boot :: boot_token
  tl_claimed_boot :: boot_token
  tl_armed_ms :: u64
  tl_handoff_ms :: u64
  tl_claim_ms :: u64
  tl_capture :: capture_result
  tl_evidence :: bytes

record trial_safety =
  sf_identity :: bool
  sf_gct_binding :: bool
  sf_security_known :: bool
  sf_operation_safe :: bool
  sf_durable_source :: bool
  sf_reviewed :: bool
  sf_two_slots :: bool
  sf_sealed :: bool
  sf_cfg0 :: bool
  sf_cal0 :: bool
  sf_mv :: u16
  sf_temperature :: u16
  sf_target_standard :: bool
  sf_fresh131 :: bool
  sf_calibration :: bool
  sf_image :: gauge_image
  sf_pending :: bool
  sf_full_access :: bool
  sf_level :: u8
  sf_deadline_bound :: bool
  sf_started :: u64
  sf_source_after_armed :: u32
  sf_target_receipt :: bool
  sf_no_writer :: bool
  sf_receipt_generation :: u32
  sf_receipt_epoch :: u64
  sf_receipt_started :: u64
  sf_receipt_observed :: u64

record trial_context =
  cx_expected :: trial_binding
  cx_boot :: boot_token
  cx_now :: u64
  cx_safety :: trial_safety
  cx_kind :: startup_kind
  cx_durable :: bool
  cx_fresh_nonce :: bool
  cx_legacy :: bool

record trial_session =
  se_apply :: bool
  se_claim :: bool
  se_finished :: bool
  se_inspection :: bool
  se_restore :: bool
  se_blocked :: bool

definition session0 :: trial_session where
  "session0 = \<lparr>se_apply = False, se_claim = False, se_finished = False, se_inspection = False,
     se_restore = False, se_blocked = False\<rparr>"

record trial_proof =
  pr_result :: trial_commit
  pr_identical :: bool
  pr_source_durable :: bool
  pr_sequence :: u32
  pr_phase :: trial_phase
  pr_nonce :: bytes

datatype trial_action = A_Reject | A_Blocked | A_NoTrial | A_Persist trial_record | A_KeepArmed | A_AwaitPowerOff
  | A_Apply | A_Capture | A_FailureEvidence | A_RestoreRequired | A_Inspect | A_RestoreOriginal | A_Complete

datatype trial_error = TE_None | TE_Shape | TE_Binding | TE_Boot | TE_Nonce | TE_Phase | TE_Sequence | TE_Durability
  | TE_Unknown | TE_Legacy | TE_Safety | TE_Evidence | TE_Expired | TE_Replay

text \<open>\<open>Decision\<close>: \<open>hasNext\<close> and \<open>next\<close> are the argument of \<open>A_Persist\<close>.\<close>

type_synonym decision = "trial_action \<times> trial_error"

section \<open>Shape\<close>

definition identity_ok :: "identity \<Rightarrow> bool" where
  "identity_ok a \<longleftrightarrow> id_device a = 0x0220 \<and> id_firmware a = 0x0003 \<and> id_build a = 4"

definition same_identity :: "identity \<Rightarrow> identity \<Rightarrow> bool" where
  "same_identity a b \<longleftrightarrow> id_device a = id_device b \<and> id_firmware a = id_firmware b \<and> id_build a = id_build b"

definition same_boot :: "boot_token \<Rightarrow> boot_token \<Rightarrow> bool" where
  "same_boot a b \<longleftrightarrow> bt_verified a \<and> bt_verified b \<and> nonzero (bt_nonce a) \<and> bt_nonce a = bt_nonce b"

definition valid_boot :: "boot_token \<Rightarrow> bool" where
  "valid_boot b \<longleftrightarrow> bt_verified b \<and> nonzero (bt_nonce b)"

definition empty_boot :: "boot_token \<Rightarrow> bool" where
  "empty_boot b \<longleftrightarrow> \<not> bt_verified b \<and> \<not> nonzero (bt_nonce b)"

definition same_trial_binding :: "trial_binding \<Rightarrow> trial_binding \<Rightarrow> bool" where
  "same_trial_binding a b \<longleftrightarrow> bi_mac a = bi_mac b \<and> same_identity (bi_identity a) (bi_identity b) \<and>
     bi_source a = bi_source b \<and> bi_target a = bi_target b \<and> bi_generation a = bi_generation b \<and>
     bi_epoch a = bi_epoch b \<and> bi_nonce a = bi_nonce b \<and> bi_recovery a = bi_recovery b \<and>
     bi_slot0 a = bi_slot0 b \<and> bi_slot1 a = bi_slot1 b \<and> bi_contract a = bi_contract b \<and>
     bi_receipt a = bi_receipt b \<and> bi_budget a = bi_budget b"

definition valid_binding :: "trial_binding \<Rightarrow> bool" where
  "valid_binding b \<longleftrightarrow>
     (if \<not> nonzero (bi_mac b) \<or> bi_mac b ! 0 AND 1 \<noteq> 0 \<or> \<not> identity_ok (bi_identity b) \<or>
         bi_source b \<noteq> source_crc \<or> bi_target b \<noteq> target_crc \<or>
         bi_generation b = 0 \<or> bi_generation b > - 1 - 4 \<or> bi_epoch b = 0 \<or> bi_epoch b > - 1 - 4 \<or>
         \<not> nonzero (bi_nonce b) \<or> \<not> nonzero (bi_receipt b) \<or> bi_budget b = 0 \<or> bi_budget b > max_capture
      then False
      else if bi_recovery b = RB_SlotHashes
      then nonzero (bi_slot0 b) \<and> nonzero (bi_slot1 b) \<and> bi_slot0 b \<noteq> bi_slot1 b \<and> \<not> nonzero (bi_contract b)
      else bi_recovery b = RB_ContractDigest \<and> nonzero (bi_contract b) \<and>
        \<not> nonzero (bi_slot0 b) \<and> \<not> nonzero (bi_slot1 b))"

definition known_failure :: "capture_result \<Rightarrow> bool" where
  "known_failure r \<longleftrightarrow> r = CR_KnownTimeout \<or> r = CR_KnownOverflow \<or> r = CR_KnownReadFailure \<or>
     r = CR_Interrupted \<or> r = CR_RejectedStartup \<or> r = CR_StartupWindowExpired"

definition unclaimed_failure :: "capture_result \<Rightarrow> bool" where
  "unclaimed_failure r \<longleftrightarrow> r = CR_RejectedStartup \<or> r = CR_StartupWindowExpired"

definition terminal_phase :: "trial_phase \<Rightarrow> bool" where
  "terminal_phase p \<longleftrightarrow> p = T_Restored \<or> p = T_BlockedUnknown"

definition reachable_sequence :: "trial_record \<Rightarrow> bool \<Rightarrow> bool" where
  "reachable_sequence r claimed \<longleftrightarrow>
     (let handed = tl_handoff_ms r \<ge> tl_armed_ms r \<and> tl_handoff_ms r - tl_armed_ms r < armed_restore_trigger;
          s = tl_sequence r in
      case tl_phase r of
        T_Armed \<Rightarrow> s = 1
      | T_HandedOff \<Rightarrow> s = 2
      | T_CaptureClaimed \<Rightarrow> s = 3
      | T_Captured \<Rightarrow> s = 4
      | T_CaptureFailed \<Rightarrow> s = (if unclaimed_failure (tl_capture r) then 3 else 4)
      | T_BlockedUnknown \<Rightarrow>
          if tl_capture r = CR_None
          then (if claimed then s = 4
                else (s = 2 \<and> tl_handoff_ms r = 0) \<or> s = 3 \<or> (s = 4 \<and> handed))
          else if unclaimed_failure (tl_capture r) then s = 4 \<or> s = 5 else s = 5 \<or> s = 6
      | _ \<Rightarrow>
          (let extra = (if tl_phase r = T_Restored then 1 else 0) in
           if tl_capture r = CR_None
           then (s = 2 + extra \<and> tl_handoff_ms r = 0) \<or> (s = 3 + extra \<and> handed)
           else s = (if unclaimed_failure (tl_capture r) then 4 else 5) + extra))"

definition trial_shape :: "trial_record \<Rightarrow> bool" where
  "trial_shape r \<longleftrightarrow>
     (let ev = nonzero (tl_evidence r); cap = tl_capture r;
          claimed = valid_boot (tl_claimed_boot r) \<and> \<not> same_boot (tl_armed_boot r) (tl_claimed_boot r);
          late = tl_handoff_ms r < tl_armed_ms r \<or> tl_handoff_ms r - tl_armed_ms r \<ge> armed_restore_trigger in
      if tl_schema r \<noteq> 1 \<or> tl_sequence r = 0 \<or> \<not> valid_binding (tl_binding r) \<or> \<not> valid_boot (tl_armed_boot r) \<or>
         phase_code (tl_phase r) < 1 \<or> phase_code (tl_phase r) > 8 \<or>
         \<not> (cap = CR_None \<or> cap = CR_Success \<or> known_failure cap) then False
      else if (cap = CR_None \<and> ev) \<or> (cap \<noteq> CR_None \<and> \<not> ev) then False
      else if \<not> claimed \<and> \<not> empty_boot (tl_claimed_boot r) then False
      else if tl_handoff_ms r \<noteq> 0 \<and> late then False
      else if \<not> claimed \<and> tl_claim_ms r \<noteq> 0 then False
      else if claimed \<and> tl_claim_ms r \<ge> resumed_capture_limit then False
      else if (tl_phase r = T_HandedOff \<or> claimed \<or> unclaimed_failure cap) \<and> late then False
      else if \<not> reachable_sequence r claimed then False
      else case tl_phase r of
        T_Armed \<Rightarrow> empty_boot (tl_claimed_boot r) \<and> tl_claim_ms r = 0 \<and> cap = CR_None \<and> \<not> ev \<and> tl_handoff_ms r = 0
      | T_HandedOff \<Rightarrow> empty_boot (tl_claimed_boot r) \<and> tl_claim_ms r = 0 \<and> cap = CR_None \<and> \<not> ev
      | T_CaptureClaimed \<Rightarrow> claimed \<and> cap = CR_None \<and> \<not> ev
      | T_Captured \<Rightarrow> claimed \<and> cap = CR_Success \<and> ev
      | T_CaptureFailed \<Rightarrow> known_failure cap \<and> ev \<and> (if unclaimed_failure cap then \<not> claimed else claimed)
      | T_BlockedUnknown \<Rightarrow> cap = CR_None \<or> (if unclaimed_failure cap then \<not> claimed else claimed)
      | _ \<Rightarrow> (cap = CR_None \<and> \<not> ev \<and> \<not> claimed) \<or>
          ((cap = CR_Success \<or> known_failure cap) \<and> ev \<and> (if unclaimed_failure cap then \<not> claimed else claimed)))"

definition trial_initial :: "trial_record \<Rightarrow> bool" where
  "trial_initial r \<longleftrightarrow> trial_shape r \<and> tl_sequence r = 1 \<and> tl_phase r = T_Armed"

definition same_record :: "trial_record \<Rightarrow> trial_record \<Rightarrow> bool" where
  "same_record a b \<longleftrightarrow> tl_schema a = tl_schema b \<and> same_trial_binding (tl_binding a) (tl_binding b) \<and>
     tl_sequence a = tl_sequence b \<and> tl_phase a = tl_phase b \<and>
     bt_nonce (tl_armed_boot a) = bt_nonce (tl_armed_boot b) \<and> bt_verified (tl_armed_boot a) = bt_verified (tl_armed_boot b) \<and>
     bt_nonce (tl_claimed_boot a) = bt_nonce (tl_claimed_boot b) \<and>
     bt_verified (tl_claimed_boot a) = bt_verified (tl_claimed_boot b) \<and>
     tl_armed_ms a = tl_armed_ms b \<and> tl_handoff_ms a = tl_handoff_ms b \<and> tl_claim_ms a = tl_claim_ms b \<and>
     tl_capture a = tl_capture b \<and> tl_evidence a = tl_evidence b"

section \<open>Transitions\<close>

text \<open>The pairs of phases of the journal chain.\<close>

definition phase_step :: "trial_phase \<Rightarrow> trial_phase \<Rightarrow> bool" where
  "phase_step a b \<longleftrightarrow>
     (a = T_Armed \<and> (b = T_HandedOff \<or> b = T_Restoring)) \<or>
     (a = T_HandedOff \<and> (b = T_CaptureClaimed \<or> b = T_Restoring \<or> b = T_CaptureFailed)) \<or>
     (a = T_CaptureClaimed \<and> (b = T_Captured \<or> b = T_CaptureFailed)) \<or>
     ((a = T_Captured \<or> a = T_CaptureFailed) \<and> b = T_Restoring) \<or>
     (a = T_Restoring \<and> b = T_Restored)"

definition trial_transition :: "trial_record \<Rightarrow> trial_record \<Rightarrow> bool" where
  "trial_transition a b \<longleftrightarrow>
     (let pa = tl_phase a; pb = tl_phase b;
          creates_claim = pa = T_HandedOff \<and> pb = T_CaptureClaimed;
          same_claim = bt_nonce (tl_claimed_boot a) = bt_nonce (tl_claimed_boot b) \<and>
            bt_verified (tl_claimed_boot a) = bt_verified (tl_claimed_boot b) \<and> tl_claim_ms a = tl_claim_ms b;
          adds_evidence = (pa = T_CaptureClaimed \<and> (pb = T_Captured \<or> pb = T_CaptureFailed)) \<or>
            (pa = T_HandedOff \<and> pb = T_CaptureFailed \<and> unclaimed_failure (tl_capture b));
          same_evidence = tl_capture a = tl_capture b \<and> tl_evidence a = tl_evidence b in
      if \<not> trial_shape a \<or> \<not> trial_shape b \<or> terminal_phase pa \<or>
         \<not> same_trial_binding (tl_binding a) (tl_binding b) \<or> tl_sequence a = - 1 \<or> tl_sequence b \<noteq> tl_sequence a + 1 \<or>
         \<not> same_boot (tl_armed_boot a) (tl_armed_boot b) \<or> tl_armed_ms a \<noteq> tl_armed_ms b then False
      else if \<not> (pa = T_Armed \<and> pb = T_HandedOff) \<and> tl_handoff_ms b \<noteq> tl_handoff_ms a then False
      else if \<not> creates_claim \<and> \<not> same_claim then False
      else if \<not> adds_evidence \<and> \<not> same_evidence then False
      else if valid_boot (tl_claimed_boot a) \<and>
         (\<not> same_boot (tl_claimed_boot a) (tl_claimed_boot b) \<or> tl_claim_ms b \<noteq> tl_claim_ms a) then False
      else if nonzero (tl_evidence a) \<and> \<not> same_evidence then False
      else if pb = T_BlockedUnknown then tl_handoff_ms a = tl_handoff_ms b \<and> same_claim \<and> same_evidence
      else phase_step pa pb)"

end
