(* ===== verification/Cold_Planner.thy ===== *)
theory Cold_Planner
  imports Cold_Trial
begin

text \<open>
  The planners of the one-shot gauge trial (\<open>main/hal/mosaico/mosaico_gauge_cold_trial_model.h\<close>): what a
  startup, a capture or a restore may do next, from the journal record, the context of the call and
  the authorizations the session has already released. A planner that changes the session returns
  it beside its decision.
\<close>

section \<open>Guards\<close>

definition checked :: "trial_record \<Rightarrow> trial_context \<Rightarrow> trial_error" where
  "checked r c =
     (if cx_legacy c then TE_Legacy
      else if \<not> trial_shape r then TE_Shape
      else if \<not> same_trial_binding (tl_binding r) (cx_expected c) then TE_Binding
      else if \<not> valid_boot (cx_boot c) then TE_Boot
      else if \<not> cx_durable c then TE_Durability
      else TE_None)"

definition safe :: "trial_context \<Rightarrow> bool \<Rightarrow> bool \<Rightarrow> bool" where
  "safe c full131 require_closed \<longleftrightarrow>
     (let s = cx_safety c in
      sf_identity s \<and> sf_gct_binding s \<and> sf_durable_source s \<and> sf_reviewed s \<and> sf_two_slots s \<and>
      sf_security_known s \<and> sf_operation_safe s \<and> (\<not> require_closed \<or> sf_sealed s) \<and> sf_cfg0 s \<and> sf_cal0 s \<and>
      sf_mv s \<ge> 3500 \<and> sf_mv s \<le> 4350 \<and> sf_temperature s \<ge> 2832 \<and> sf_temperature s \<le> 3131 \<and>
      (\<not> full131 \<or> (sf_fresh131 s \<and> sf_calibration s \<and>
         (sf_image s = IM_Source131 \<or> sf_image s = IM_TargetC131 \<or> sf_image s = IM_Owned3Mixed))))"

definition operation_window :: "trial_record \<Rightarrow> trial_context \<Rightarrow> bool" where
  "operation_window r c \<longleftrightarrow>
     (if same_boot (tl_armed_boot r) (cx_boot c)
      then cx_now c \<ge> tl_armed_ms r \<and> cx_now c - tl_armed_ms r < armed_limit
      else cx_now c < resumed_startup_limit)"

definition forward_access :: "trial_context \<Rightarrow> bool" where
  "forward_access c \<longleftrightarrow>
     (let s = cx_safety c in
      if sf_image s \<noteq> IM_Source131 \<or> sf_mv s < 4000 then False
      else if sf_sealed s
      then \<not> sf_pending s \<and> \<not> sf_deadline_bound s \<and> \<not> sf_full_access s \<and>
        (sf_level s = 0 \<or> sf_level s = 3) \<and> safe c True True
      else sf_pending s \<and> sf_full_access s \<and> sf_level s = 1 \<and> sf_deadline_bound s \<and>
        sf_started s \<le> cx_now c \<and> cx_now c - sf_started s < armed_restore_trigger \<and> safe c True False)"

section \<open>Arming and handing off\<close>

definition blocked_by :: "trial_error \<Rightarrow> decision" where
  "blocked_by e = (A_Blocked, e)"

definition persist :: "trial_record \<Rightarrow> decision" where
  "persist r = (A_Persist r, TE_None)"

text \<open>The last line of every planner: the record is written only when it is a legal transition.\<close>

definition persist_step :: "trial_record \<Rightarrow> trial_record \<Rightarrow> trial_error \<Rightarrow> decision" where
  "persist_step r r' e = (if trial_transition r r' then persist r' else blocked_by e)"

definition arm :: "trial_load \<Rightarrow> trial_binding \<Rightarrow> trial_context \<Rightarrow> decision" where
  "arm loaded b c =
     (if loaded \<noteq> LD_Missing \<or> \<not> cx_fresh_nonce c \<or> cx_legacy c \<or> \<not> valid_binding b \<or>
         \<not> same_trial_binding b (cx_expected c) \<or> \<not> valid_boot (cx_boot c) \<or> \<not> forward_access c
      then blocked_by TE_Nonce
      else persist \<lparr>tl_schema = 1, tl_binding = b, tl_sequence = 1, tl_phase = T_Armed, tl_armed_boot = cx_boot c,
             tl_claimed_boot = no_boot,
             tl_armed_ms = (if sf_sealed (cx_safety c) then cx_now c else sf_started (cx_safety c)),
             tl_handoff_ms = 0, tl_claim_ms = 0, tl_capture = CR_None, tl_evidence = replicate 32 0\<rparr>)"

definition handoff_receipt :: "trial_record \<Rightarrow> trial_context \<Rightarrow> bool" where
  "handoff_receipt r c \<longleftrightarrow>
     (let s = cx_safety c; b = tl_binding r in
      tl_phase r = T_Armed \<and> same_boot (tl_armed_boot r) (cx_boot c) \<and> sf_target_receipt s \<and> sf_no_writer s \<and>
      bi_generation b \<le> - 1 - 2 \<and> bi_epoch b \<le> - 1 - 2 \<and>
      sf_receipt_generation s = bi_generation b + 2 \<and> sf_receipt_epoch s = bi_epoch b + 2 \<and>
      sf_receipt_started s = tl_armed_ms r \<and> sf_receipt_observed s \<ge> tl_armed_ms r \<and>
      sf_receipt_observed s \<le> cx_now c \<and> cx_now c - sf_receipt_observed s \<le> 60000 \<and>
      sf_level s = 3 \<and> sf_sealed s \<and> sf_target_standard s \<and> sf_calibration s \<and>
      (sf_image s = IM_Unknown \<or> sf_image s = IM_TargetC131))"

definition handoff :: "trial_record \<Rightarrow> trial_context \<Rightarrow> decision" where
  "handoff r c =
     (let e = checked r c; s = cx_safety c in
      if e \<noteq> TE_None then blocked_by e
      else if tl_phase r \<noteq> T_Armed \<or> \<not> same_boot (tl_armed_boot r) (cx_boot c) \<or> cx_now c < tl_armed_ms r \<or>
         cx_now c - tl_armed_ms r \<ge> armed_restore_trigger \<or> \<not> safe c False True \<or> sf_mv s < 4000 \<or>
         \<not> sf_target_standard s \<or>
         \<not> ((sf_fresh131 s \<and> sf_calibration s \<and> sf_image s = IM_TargetC131) \<or> handoff_receipt r c)
      then (A_Reject, TE_Phase)
      else persist_step r (r\<lparr>tl_sequence := tl_sequence r + 1, tl_phase := T_HandedOff,
             tl_handoff_ms := cx_now c\<rparr>) TE_Sequence)"

section \<open>Startup\<close>

definition startup :: "trial_load \<Rightarrow> trial_record \<Rightarrow> trial_context \<Rightarrow> decision" where
  "startup loaded r c =
     (if cx_legacy c then blocked_by TE_Legacy
      else if loaded = LD_Missing then (A_NoTrial, TE_None)
      else if loaded \<noteq> LD_Present then blocked_by TE_Unknown
      else
     (let e = checked r c; here = same_boot (tl_armed_boot r) (cx_boot c) in
      if e \<noteq> TE_None then blocked_by e
      else case tl_phase r of
        T_BlockedUnknown \<Rightarrow> blocked_by TE_Unknown
      | T_Restored \<Rightarrow> (A_Complete, TE_None)
      | T_Armed \<Rightarrow>
          if here \<and> cx_now c < tl_armed_ms r then blocked_by TE_Boot
          else if here \<and> cx_now c \<ge> tl_armed_ms r \<and> cx_now c - tl_armed_ms r < armed_restore_trigger
          then (A_KeepArmed, TE_None)
          else (A_RestoreRequired, TE_None)
      | T_HandedOff \<Rightarrow>
          if here
          then
            if cx_now c < tl_armed_ms r \<or> cx_now c < tl_handoff_ms r then blocked_by TE_Boot
            else if cx_now c \<ge> tl_armed_ms r \<and> cx_now c \<ge> tl_handoff_ms r \<and>
               cx_now c - tl_armed_ms r < armed_restore_trigger \<and> cx_now c - tl_handoff_ms r < handoff_grace
            then (A_AwaitPowerOff, TE_None)
            else (A_RestoreRequired, TE_None)
          else if cx_kind c \<noteq> SK_PowerOn then (A_FailureEvidence, TE_Boot)
          else if \<not> operation_window r c \<or> cx_now c \<ge> resumed_capture_limit then (A_FailureEvidence, TE_Expired)
          else persist_step r (r\<lparr>tl_sequence := tl_sequence r + 1, tl_phase := T_CaptureClaimed,
                 tl_claimed_boot := cx_boot c, tl_claim_ms := cx_now c\<rparr>) TE_Sequence
      | T_CaptureClaimed \<Rightarrow> (A_FailureEvidence, TE_Evidence)
      | _ \<Rightarrow> (A_RestoreRequired, TE_None)))"

section \<open>After a write\<close>

definition stop :: "trial_session \<Rightarrow> trial_error \<Rightarrow> decision \<times> trial_session" where
  "stop s e = (blocked_by e, s\<lparr>se_blocked := True\<rparr>)"

definition proven :: "trial_record \<Rightarrow> trial_record \<Rightarrow> trial_proof \<Rightarrow> trial_context \<Rightarrow> bool \<Rightarrow> bool" where
  "proven before r p c first \<longleftrightarrow>
     (if first then trial_initial r else trial_transition before r) \<and> pr_result p = CM_ExactDurable \<and>
     pr_identical p \<and> pr_source_durable p \<and> pr_sequence p = tl_sequence r \<and> pr_phase p = tl_phase r \<and>
     pr_nonce p = bi_nonce (tl_binding r) \<and> checked r c = TE_None"

definition after_persist ::
  "trial_record \<Rightarrow> trial_record \<Rightarrow> trial_proof \<Rightarrow> trial_context \<Rightarrow> bool \<Rightarrow> trial_session \<Rightarrow>
   decision \<times> trial_session" where
  "after_persist before r p c first s =
     (if se_blocked s then (blocked_by TE_Unknown, s)
      else if \<not> proven before r p c first then stop s TE_Durability
      else case tl_phase r of
        T_Armed \<Rightarrow>
          if \<not> same_boot (tl_armed_boot r) (cx_boot c) \<or> \<not> forward_access c \<or>
             (\<not> sf_sealed (cx_safety c) \<and> tl_armed_ms r > sf_started (cx_safety c))
          then stop s TE_Safety
          else (startup LD_Present r c, s)
      | T_HandedOff \<Rightarrow> (startup LD_Present r c, s)
      | T_CaptureClaimed \<Rightarrow>
          if se_claim s \<or> \<not> same_boot (tl_claimed_boot r) (cx_boot c) \<or> cx_kind c \<noteq> SK_PowerOn \<or>
             \<not> safe c False True \<or> \<not> operation_window r c \<or> cx_now c < tl_claim_ms r \<or>
             cx_now c - tl_claim_ms r \<ge> ucast (bi_budget (tl_binding r)) \<or> cx_now c \<ge> resumed_capture_limit
          then stop s TE_Replay
          else ((A_Capture, TE_None), s\<lparr>se_claim := True\<rparr>)
      | T_Restored \<Rightarrow>
          if \<not> safe c True True \<or> sf_image (cx_safety c) \<noteq> IM_Source131 \<or> \<not> operation_window r c
          then stop s TE_Safety
          else ((A_Complete, TE_None), s)
      | T_BlockedUnknown \<Rightarrow> stop s TE_None
      | _ \<Rightarrow> ((A_RestoreRequired, TE_None), s))"

definition authorize_apply :: "trial_record \<Rightarrow> trial_context \<Rightarrow> trial_session \<Rightarrow> decision \<times> trial_session" where
  "authorize_apply r c s =
     (let e = checked r c in
      if e \<noteq> TE_None \<or> se_blocked s then (blocked_by e, s)
      else if tl_phase r \<noteq> T_Armed \<or> \<not> same_boot (tl_armed_boot r) (cx_boot c) \<or> \<not> forward_access c \<or>
         sf_source_after_armed (cx_safety c) \<noteq> tl_sequence r \<or>
         (\<not> sf_sealed (cx_safety c) \<and> tl_armed_ms r > sf_started (cx_safety c)) \<or>
         cx_now c < tl_armed_ms r \<or> cx_now c - tl_armed_ms r \<ge> armed_restore_trigger \<or> se_apply s
      then stop s TE_Safety
      else ((A_Apply, TE_None), s\<lparr>se_apply := True\<rparr>))"

section \<open>Capturing\<close>

text \<open>The three clocks of a capture: its budget, the operation window and the startup limit.\<close>

definition capture_over :: "trial_record \<Rightarrow> trial_context \<Rightarrow> bool" where
  "capture_over r c \<longleftrightarrow> cx_now c - tl_claim_ms r \<ge> ucast (bi_budget (tl_binding r)) \<or>
     \<not> operation_window r c \<or> cx_now c \<ge> resumed_capture_limit"

definition capture_poll :: "trial_record \<Rightarrow> trial_context \<Rightarrow> trial_session \<Rightarrow> decision" where
  "capture_poll r c s =
     (let e = checked r c in
      if e \<noteq> TE_None \<or> se_blocked s then blocked_by e
      else if tl_phase r \<noteq> T_CaptureClaimed \<or> \<not> se_claim s \<or> se_finished s \<or>
         \<not> same_boot (tl_claimed_boot r) (cx_boot c)
      then blocked_by TE_Phase
      else if cx_now c < tl_claim_ms r then blocked_by TE_Boot
      else (if capture_over r c then A_FailureEvidence else A_Capture, TE_None))"

definition capture_evidence ::
  "trial_record \<Rightarrow> trial_context \<Rightarrow> capture_result \<Rightarrow> bytes \<Rightarrow> trial_session \<Rightarrow> decision \<times> trial_session" where
  "capture_evidence r c cap digest s =
     (let e = checked r c in
      if e \<noteq> TE_None \<or> se_blocked s then (blocked_by e, s)
      else if tl_phase r \<noteq> T_CaptureClaimed \<or> \<not> same_boot (tl_claimed_boot r) (cx_boot c) \<or> \<not> se_claim s \<or>
         se_finished s \<or> \<not> nonzero digest \<or> \<not> (cap = CR_Success \<or> known_failure cap)
      then (blocked_by TE_Evidence, s)
      else if cap = CR_Success \<and> (cx_now c < tl_claim_ms r \<or> capture_over r c) then ((A_Reject, TE_Expired), s)
      else if cap = CR_Success \<and> (\<not> safe c False True \<or> \<not> sf_target_standard (cx_safety c)) then stop s TE_Safety
      else (persist_step r (r\<lparr>tl_sequence := tl_sequence r + 1,
              tl_phase := if cap = CR_Success then T_Captured else T_CaptureFailed,
              tl_capture := cap, tl_evidence := digest\<rparr>) TE_Sequence,
            s\<lparr>se_finished := True\<rparr>))"

definition interrupted_evidence :: "trial_record \<Rightarrow> trial_context \<Rightarrow> bytes \<Rightarrow> decision" where
  "interrupted_evidence r c digest =
     (let e = checked r c in
      if e \<noteq> TE_None then blocked_by e
      else if tl_phase r \<noteq> T_CaptureClaimed \<or> \<not> nonzero digest then (A_Reject, TE_Phase)
      else persist_step r (r\<lparr>tl_sequence := tl_sequence r + 1, tl_phase := T_CaptureFailed,
             tl_capture := CR_Interrupted, tl_evidence := digest\<rparr>) TE_Sequence)"

definition rejected_startup_evidence :: "trial_record \<Rightarrow> trial_context \<Rightarrow> bytes \<Rightarrow> decision" where
  "rejected_startup_evidence r c digest =
     (let e = checked r c in
      if e \<noteq> TE_None then blocked_by e
      else if tl_phase r \<noteq> T_HandedOff \<or> same_boot (tl_armed_boot r) (cx_boot c) \<or>
         (cx_kind c = SK_PowerOn \<and> cx_now c < resumed_capture_limit) \<or> \<not> nonzero digest
      then (A_Reject, TE_Boot)
      else persist_step r (r\<lparr>tl_sequence := tl_sequence r + 1, tl_phase := T_CaptureFailed,
             tl_capture := if cx_kind c = SK_PowerOn then CR_StartupWindowExpired else CR_RejectedStartup,
             tl_evidence := digest\<rparr>) TE_Sequence)"

section \<open>Restoring\<close>

definition restore_intent :: "trial_record \<Rightarrow> trial_context \<Rightarrow> decision" where
  "restore_intent r c =
     (let e = checked r c in
      if e \<noteq> TE_None then blocked_by e
      else if \<not> safe c False True \<or> \<not> operation_window r c then blocked_by TE_Safety
      else if tl_phase r = T_CaptureClaimed then (A_FailureEvidence, TE_Evidence)
      else if tl_phase r = T_HandedOff \<and> \<not> same_boot (tl_armed_boot r) (cx_boot c) then (A_FailureEvidence, TE_Evidence)
      else if tl_phase r = T_Restoring then (A_RestoreRequired, TE_None)
      else persist_step r (r\<lparr>tl_sequence := tl_sequence r + 1, tl_phase := T_Restoring\<rparr>) TE_Phase)"

definition authorize_inspection :: "trial_record \<Rightarrow> trial_context \<Rightarrow> trial_session \<Rightarrow> decision \<times> trial_session" where
  "authorize_inspection r c s =
     (let e = checked r c in
      if e \<noteq> TE_None \<or> se_blocked s then (blocked_by e, s)
      else if tl_phase r \<noteq> T_Restoring \<or> \<not> safe c False True \<or> \<not> operation_window r c \<or> se_inspection s
      then stop s TE_Safety
      else ((A_Inspect, TE_None), s\<lparr>se_inspection := True\<rparr>))"

definition authorize_restore :: "trial_record \<Rightarrow> trial_context \<Rightarrow> trial_session \<Rightarrow> decision \<times> trial_session" where
  "authorize_restore r c s =
     (let e = checked r c in
      if e \<noteq> TE_None \<or> se_blocked s then (blocked_by e, s)
      else if tl_phase r \<noteq> T_Restoring \<or> \<not> se_inspection s \<or> \<not> safe c True False \<or> \<not> operation_window r c \<or>
         se_restore s
      then stop s TE_Safety
      else ((A_RestoreOriginal, TE_None), s\<lparr>se_restore := True\<rparr>))"

definition restored :: "trial_record \<Rightarrow> trial_context \<Rightarrow> decision" where
  "restored r c =
     (let e = checked r c in
      if e \<noteq> TE_None then blocked_by e
      else if tl_phase r \<noteq> T_Restoring \<or> \<not> safe c True True \<or> \<not> operation_window r c \<or>
         sf_image (cx_safety c) \<noteq> IM_Source131
      then blocked_by TE_Safety
      else persist_step r (r\<lparr>tl_sequence := tl_sequence r + 1, tl_phase := T_Restored\<rparr>) TE_Sequence)"

definition unknown_outcome :: "trial_session \<Rightarrow> decision \<times> trial_session" where
  "unknown_outcome s = stop s TE_Unknown"

end
