(* ===== verification/Cold_Abort.thy ===== *)
theory Cold_Abort
  imports Cold_Planner
begin

text \<open>
  The abort of an interrupted forward operation of the gauge trial
  (\<open>main/hal/mosaico/mosaico_gauge_cold_abort_model.h\<close>): a restore without new keys, only for the owner
  of the current operation.
\<close>

datatype parent_phase = PP_Unknown | PP_Pending | PP_Restoring

record abort_witness =
  aw_owner :: bool
  aw_forward :: bool
  aw_acks_known :: bool
  aw_no_writer :: bool
  aw_parent :: parent_phase
  aw_generation :: u32
  aw_epoch :: u64
  aw_started :: u64

definition owned :: "trial_record \<Rightarrow> trial_context \<Rightarrow> trial_session \<Rightarrow> abort_witness \<Rightarrow> bool \<Rightarrow> bool" where
  "owned r c s w restoring \<longleftrightarrow>
     (let f = cx_safety c; b = tl_binding r; increment = (if restoring then 2 else 1 :: u32) in
      checked r c = TE_None \<and> \<not> se_blocked s \<and> se_apply s \<and>
      aw_owner w \<and> aw_forward w \<and> aw_acks_known w \<and> aw_no_writer w \<and>
      aw_parent w = (if restoring then PP_Restoring else PP_Pending) \<and>
      bi_generation b \<le> - 1 - increment \<and> bi_epoch b \<le> - 1 - ucast increment \<and>
      aw_generation w = bi_generation b + increment \<and> aw_epoch w = bi_epoch b + ucast increment \<and>
      same_boot (tl_armed_boot r) (cx_boot c) \<and> aw_started w = tl_armed_ms r \<and>
      cx_now c \<ge> tl_armed_ms r \<and> cx_now c - tl_armed_ms r < armed_limit \<and>
      tl_phase r = (if restoring then T_Restoring else T_Armed) \<and> tl_sequence r = (if restoring then 2 else 1) \<and>
      tl_handoff_ms r = 0 \<and> empty_boot (tl_claimed_boot r) \<and> tl_claim_ms r = 0 \<and>
      tl_capture r = CR_None \<and> \<not> nonzero (tl_evidence r) \<and>
      sf_identity f \<and> sf_gct_binding f \<and> sf_durable_source f \<and> sf_reviewed f \<and> sf_two_slots f \<and>
      sf_security_known f \<and> sf_level f = 1 \<and> \<not> sf_sealed f \<and> sf_cal0 f \<and> sf_mv f \<ge> 3500 \<and> sf_mv f \<le> 4350 \<and>
      sf_temperature f \<ge> 2832 \<and> sf_temperature f \<le> 3131)"

definition abort_intent :: "trial_record \<Rightarrow> trial_context \<Rightarrow> trial_session \<Rightarrow> abort_witness \<Rightarrow> decision" where
  "abort_intent r c s w =
     (if \<not> owned r c s w False \<or> se_inspection s \<or> se_restore s then blocked_by TE_Safety
      else persist_step r (r\<lparr>tl_sequence := tl_sequence r + 1, tl_phase := T_Restoring\<rparr>) TE_Sequence)"

definition abort_inspect ::
  "trial_record \<Rightarrow> trial_context \<Rightarrow> abort_witness \<Rightarrow> trial_session \<Rightarrow> decision \<times> trial_session" where
  "abort_inspect r c w s =
     (if \<not> owned r c s w True \<or> se_inspection s \<or> se_restore s then (blocked_by TE_Safety, s)
      else ((A_Inspect, TE_None), s\<lparr>se_inspection := True\<rparr>))"

definition abort_restore ::
  "trial_record \<Rightarrow> trial_context \<Rightarrow> abort_witness \<Rightarrow> trial_session \<Rightarrow> decision \<times> trial_session" where
  "abort_restore r c w s =
     (let f = cx_safety c in
      if \<not> owned r c s w True \<or> \<not> se_inspection s \<or> se_restore s \<or> \<not> sf_fresh131 f \<or> \<not> sf_calibration f \<or>
         \<not> (sf_image f = IM_Source131 \<or> sf_image f = IM_TargetC131 \<or> sf_image f = IM_Owned3Mixed)
      then (blocked_by TE_Safety, s)
      else ((A_RestoreOriginal, TE_None), s\<lparr>se_restore := True\<rparr>))"

end
