(* ===== verification/Cold_Trial_Safety.thy ===== *)
theory Cold_Trial_Safety
  imports Cold_Abort
begin

text \<open>
  What the one-shot gauge trial promises: a journal of legal transitions is short and never takes a
  claim or a piece of evidence back, every planner writes only legal transitions, and a session
  releases each physical action once.
\<close>

section \<open>Facts of shapes and transitions\<close>

lemma guard_iff: "(if c then False else d) \<longleftrightarrow> \<not> c \<and> d"
  by simp

lemmas transition_unfold = trial_transition_def Let_def guard_iff de_Morgan_disj not_not

lemma transition_shapes:
  assumes "trial_transition a b"
  shows "trial_shape a" "trial_shape b" "\<not> terminal_phase (tl_phase a)"
    "same_trial_binding (tl_binding a) (tl_binding b)" "tl_sequence a \<noteq> - 1"
    "tl_sequence b = tl_sequence a + 1" "same_boot (tl_armed_boot a) (tl_armed_boot b)"
    "tl_armed_ms b = tl_armed_ms a"
  using assms unfolding transition_unfold by (elim conjE, simp only:)+

lemma transition_claim:
  assumes "trial_transition a b" "valid_boot (tl_claimed_boot a)"
  shows "same_boot (tl_claimed_boot a) (tl_claimed_boot b)" "tl_claim_ms b = tl_claim_ms a"
  using assms unfolding transition_unfold de_Morgan_conj by (elim conjE, blast)+

lemma transition_evidence:
  assumes "trial_transition a b" "nonzero (tl_evidence a)"
  shows "tl_evidence b = tl_evidence a" "tl_capture b = tl_capture a"
  using assms unfolding transition_unfold de_Morgan_conj by (elim conjE, metis)+

lemma transition_phase:
  assumes "trial_transition a b"
  shows "tl_phase b = T_BlockedUnknown \<or> phase_step (tl_phase a) (tl_phase b)"
  using assms unfolding transition_unfold by (elim conjE) metis

lemmas shape_unfold = trial_shape_def Let_def guard_iff de_Morgan_disj not_not

lemma shape_basic:
  assumes "trial_shape r"
  shows "tl_schema r = 1" "tl_sequence r \<noteq> 0" "valid_binding (tl_binding r)"
  using assms unfolding shape_unfold by (elim conjE, simp only:)+

lemma shape_reachable: "trial_shape r \<Longrightarrow> \<exists>claimed. reachable_sequence r claimed"
  unfolding shape_unfold by (elim conjE) (rule exI, assumption)

lemma reachable_le6: "reachable_sequence r claimed \<Longrightarrow> tl_sequence r \<le> 6"
  unfolding reachable_sequence_def Let_def
  by (cases "tl_phase r") (simp_all split: if_splits, (elim disjE conjE, simp_all)+)

lemma shape_le6: "trial_shape r \<Longrightarrow> unat (tl_sequence r) \<le> 6"
proof -
  assume "trial_shape r"
  then have "tl_sequence r \<le> 6" using shape_reachable reachable_le6 by blast
  then show ?thesis by (simp add: word_le_nat_alt)
qed

lemma shape_capture_evidence: "trial_shape r \<Longrightarrow> tl_capture r \<noteq> CR_None \<longleftrightarrow> nonzero (tl_evidence r)"
  unfolding shape_unfold de_Morgan_conj by (elim conjE) blast

lemma transition_unat:
  assumes "trial_transition a b"
  shows "unat (tl_sequence b) = Suc (unat (tl_sequence a))"
proof -
  have "tl_sequence a + 1 \<noteq> 0" using transition_shapes(5)[OF assms] by (simp add: add_eq_0_iff2)
  then show ?thesis using transition_shapes(6)[OF assms] unatSuc[of "tl_sequence a"]
    by (simp add: add.commute)
qed

lemma shape_claimed:
  "trial_shape r \<Longrightarrow> (valid_boot (tl_claimed_boot r) \<and> \<not> same_boot (tl_armed_boot r) (tl_claimed_boot r)) \<or>
     empty_boot (tl_claimed_boot r)"
  unfolding shape_unfold de_Morgan_conj by (elim conjE) assumption

lemma shape_restoring:
  assumes "trial_shape r" "tl_phase r = T_Restoring"
  shows "nonzero (tl_evidence r) \<or> \<not> (valid_boot (tl_claimed_boot r) \<and> \<not> same_boot (tl_armed_boot r) (tl_claimed_boot r))"
  using assms(1) unfolding shape_unfold assms(2) trial_phase.case by blast

lemma shape_restoring_evidence:
  assumes "trial_shape r" "tl_phase r = T_Restoring" "valid_boot (tl_claimed_boot r)"
  shows "nonzero (tl_evidence r)"
  using shape_claimed[OF assms(1)] shape_restoring[OF assms(1,2)] assms(3)
  by (auto simp: valid_boot_def empty_boot_def)

section \<open>Journals\<close>

text \<open>The records one trial may leave behind, oldest first.\<close>

definition trial_journal :: "trial_record list \<Rightarrow> bool" where
  "trial_journal rs \<longleftrightarrow> (rs = [] \<or> trial_initial (hd rs)) \<and> successively trial_transition rs"

lemma journal_nil [simp]: "trial_journal []"
  by (simp add: trial_journal_def)

lemma journal_snoc:
  "trial_journal (rs @ [r]) \<longleftrightarrow>
     trial_journal rs \<and> (if rs = [] then trial_initial r else trial_transition (last rs) r)"
  by (auto simp: trial_journal_def successively_append_iff)

lemma journal_sequence: "trial_journal rs \<Longrightarrow> i < length rs \<Longrightarrow> unat (tl_sequence (rs ! i)) = Suc i"
proof (induction rs arbitrary: i rule: rev_induct)
  case Nil
  then show ?case by simp
next
  case (snoc r rs)
  show ?case
  proof (cases "i < length rs")
    case True
    then show ?thesis using snoc by (simp add: nth_append journal_snoc)
  next
    case False
    then have i: "i = length rs" using snoc.prems by simp
    show ?thesis
    proof (cases "rs = []")
      case True
      then show ?thesis using snoc.prems i journal_snoc[of "[]" r] by (simp add: trial_initial_def)
    next
      case False
      then have "unat (tl_sequence (last rs)) = length rs"
        using snoc by (simp add: journal_snoc last_conv_nth)
      then show ?thesis using snoc.prems i False transition_unat[of "last rs" r] by (simp add: journal_snoc)
    qed
  qed
qed

lemma journal_shape: "trial_journal rs \<Longrightarrow> r \<in> set rs \<Longrightarrow> trial_shape r"
  by (induction rs rule: rev_induct)
    (auto simp: journal_snoc trial_initial_def dest: transition_shapes split: if_splits)

lemma journal_nth_step:
  "trial_journal rs \<Longrightarrow> Suc i < length rs \<Longrightarrow> trial_transition (rs ! i) (rs ! Suc i)"
  by (simp add: trial_journal_def successively_conv_nth)

lemma journal_length: "trial_journal rs \<Longrightarrow> length rs \<le> 6"
proof (cases rs rule: rev_cases)
  case (snoc xs r)
  assume j: "trial_journal rs"
  then have "unat (tl_sequence r) = length rs" using snoc journal_sequence[of rs "length xs"] by simp
  moreover have "unat (tl_sequence r) \<le> 6" using j snoc by (intro shape_le6 journal_shape[of rs]) simp_all
  ultimately show ?thesis by simp
qed simp

text \<open>A fact that every transition keeps holds from one record on.\<close>

lemma journal_keeps:
  assumes j: "trial_journal rs" and step: "\<And>a b. trial_transition a b \<Longrightarrow> P a \<Longrightarrow> P b"
  shows "i \<le> k \<Longrightarrow> k < length rs \<Longrightarrow> P (rs ! i) \<Longrightarrow> P (rs ! k)"
proof (induction k rule: dec_induct)
  case (step n)
  then show ?case using assms(2)[of "rs ! n" "rs ! Suc n"] journal_nth_step[OF j] by simp
qed

section \<open>The planners write legal transitions\<close>

lemma persist_step_legal: "persist_step r r' e = (A_Persist q, e') \<Longrightarrow> trial_transition r q"
  by (simp add: persist_step_def persist_def blocked_by_def split: if_splits)

lemma not_persist [simp]: "blocked_by e \<noteq> (A_Persist q, e')" "fst (stop s e) \<noteq> (A_Persist q, e')"
  by (simp_all add: blocked_by_def stop_def)

lemma armed_shape:
  assumes "valid_binding b" "valid_boot boot"
  shows "trial_initial \<lparr>tl_schema = 1, tl_binding = b, tl_sequence = 1, tl_phase = T_Armed, tl_armed_boot = boot,
     tl_claimed_boot = no_boot, tl_armed_ms = t, tl_handoff_ms = 0, tl_claim_ms = 0, tl_capture = CR_None,
     tl_evidence = replicate 32 0\<rparr>"
proof -
  have "empty_boot no_boot" "\<not> valid_boot no_boot" "\<not> nonzero (replicate 32 0)"
    by (simp_all add: empty_boot_def valid_boot_def no_boot_def nonzero_def list_ex_iff)
  then show ?thesis using assms
    by (simp add: trial_initial_def trial_shape_def reachable_sequence_def phase_code_def known_failure_def
        unclaimed_failure_def Let_def)
qed

lemma arm_initial: "arm loaded b c = (A_Persist r, e) \<Longrightarrow> trial_initial r"
  using armed_shape[of b "cx_boot c"] by (auto simp: arm_def persist_def split: if_split_asm)

lemma handoff_legal: "handoff r c = (A_Persist q, e) \<Longrightarrow> trial_transition r q"
  by (auto simp: handoff_def Let_def dest: persist_step_legal split: if_splits)

lemma startup_legal: "startup l r c = (A_Persist q, e) \<Longrightarrow> trial_transition r q"
  by (auto simp: startup_def Let_def dest: persist_step_legal split: if_splits trial_phase.splits)

lemma capture_evidence_legal: "fst (capture_evidence r c cap d s) = (A_Persist q, e) \<Longrightarrow> trial_transition r q"
  by (auto simp: capture_evidence_def Let_def dest: persist_step_legal split: if_splits)

lemma interrupted_legal: "interrupted_evidence r c d = (A_Persist q, e) \<Longrightarrow> trial_transition r q"
  by (auto simp: interrupted_evidence_def Let_def dest: persist_step_legal split: if_splits)

lemma rejected_legal: "rejected_startup_evidence r c d = (A_Persist q, e) \<Longrightarrow> trial_transition r q"
  by (auto simp: rejected_startup_evidence_def Let_def dest: persist_step_legal split: if_splits)

lemma restore_intent_legal: "restore_intent r c = (A_Persist q, e) \<Longrightarrow> trial_transition r q"
  by (auto simp: restore_intent_def Let_def dest: persist_step_legal split: if_splits)

lemma restored_legal: "restored r c = (A_Persist q, e) \<Longrightarrow> trial_transition r q"
  by (auto simp: restored_def Let_def dest: persist_step_legal split: if_splits)

lemma after_persist_legal: "fst (after_persist b r p c f s) = (A_Persist q, e) \<Longrightarrow> trial_transition r q"
  by (auto simp: after_persist_def dest: startup_legal split: if_splits trial_phase.splits)

lemma abort_intent_legal: "abort_intent r c s w = (A_Persist q, e) \<Longrightarrow> trial_transition r q"
  by (auto simp: abort_intent_def dest: persist_step_legal split: if_splits)

lemma session_calls_no_record:
  "fst (authorize_apply r c s) \<noteq> (A_Persist q, e)" "capture_poll r c s \<noteq> (A_Persist q, e)"
  "fst (authorize_inspection r c s) \<noteq> (A_Persist q, e)" "fst (authorize_restore r c s) \<noteq> (A_Persist q, e)"
  "fst (unknown_outcome s) \<noteq> (A_Persist q, e)" "fst (abort_inspect r c w s) \<noteq> (A_Persist q, e)"
  "fst (abort_restore r c w s) \<noteq> (A_Persist q, e)"
  by (auto simp: authorize_apply_def capture_poll_def authorize_inspection_def authorize_restore_def
      unknown_outcome_def abort_inspect_def abort_restore_def Let_def)

lemmas planner_legal = handoff_legal startup_legal capture_evidence_legal interrupted_legal rejected_legal
  restore_intent_legal restored_legal after_persist_legal abort_intent_legal

section \<open>Histories of calls\<close>

text \<open>
  One trial as the caller drives it: calls of the planners on the newest durable record, writes of
  a planned record that succeed or not, and reboots, which forget the session. The log holds the
  actions decided since the last reboot.
\<close>

record trial_world =
  tw_journal :: "trial_record list"
  tw_session :: trial_session
  tw_log :: "trial_action list"

definition world0 :: trial_world where
  "world0 = \<lparr>tw_journal = [], tw_session = session0, tw_log = []\<rparr>"

datatype trial_call =
    TC_Arm trial_binding trial_context
  | TC_Handoff trial_context
  | TC_Startup trial_context
  | TC_Persisted trial_proof trial_context
  | TC_Apply trial_context
  | TC_Poll trial_context
  | TC_Capture trial_context capture_result bytes
  | TC_Interrupted trial_context bytes
  | TC_RejectedStartup trial_context bytes
  | TC_Intent trial_context
  | TC_Inspect trial_context
  | TC_Restore trial_context
  | TC_Restored trial_context
  | TC_AbortIntent trial_context abort_witness
  | TC_AbortInspect trial_context abort_witness
  | TC_AbortRestore trial_context abort_witness
  | TC_Unknown
  | TC_Reboot

definition trial_decide :: "trial_call \<Rightarrow> trial_record list \<Rightarrow> trial_session \<Rightarrow> decision \<times> trial_session" where
  "trial_decide call rs s =
     (let r = last rs in
      case call of
        TC_Arm b c \<Rightarrow> (arm (if rs = [] then LD_Missing else LD_Present) b c, s)
      | TC_Handoff c \<Rightarrow> (handoff r c, s)
      | TC_Startup c \<Rightarrow> (startup (if rs = [] then LD_Missing else LD_Present) r c, s)
      | TC_Persisted p c \<Rightarrow> after_persist (last (butlast rs)) r p c (length rs = 1) s
      | TC_Apply c \<Rightarrow> authorize_apply r c s
      | TC_Poll c \<Rightarrow> (capture_poll r c s, s)
      | TC_Capture c cap d \<Rightarrow> capture_evidence r c cap d s
      | TC_Interrupted c d \<Rightarrow> (interrupted_evidence r c d, s)
      | TC_RejectedStartup c d \<Rightarrow> (rejected_startup_evidence r c d, s)
      | TC_Intent c \<Rightarrow> (restore_intent r c, s)
      | TC_Inspect c \<Rightarrow> authorize_inspection r c s
      | TC_Restore c \<Rightarrow> authorize_restore r c s
      | TC_Restored c \<Rightarrow> (restored r c, s)
      | TC_AbortIntent c w \<Rightarrow> (abort_intent r c s w, s)
      | TC_AbortInspect c w \<Rightarrow> abort_inspect r c w s
      | TC_AbortRestore c w \<Rightarrow> abort_restore r c w s
      | TC_Unknown \<Rightarrow> unknown_outcome s
      | TC_Reboot \<Rightarrow> ((A_NoTrial, TE_None), session0))"

definition needs_record :: "trial_call \<Rightarrow> bool" where
  "needs_record call \<longleftrightarrow> (case call of TC_Arm _ _ \<Rightarrow> False | TC_Startup _ \<Rightarrow> False | TC_Unknown \<Rightarrow> False
     | TC_Reboot \<Rightarrow> False | _ \<Rightarrow> True)"

definition trial_event :: "trial_world \<Rightarrow> trial_call \<times> bool \<Rightarrow> trial_world" where
  "trial_event w ev =
     (case ev of (call, written) \<Rightarrow>
        if tw_journal w = [] \<and> needs_record call then w
        else case trial_decide call (tw_journal w) (tw_session w) of ((a, e), s) \<Rightarrow>
          \<lparr>tw_journal = (case a of A_Persist r \<Rightarrow> if written then tw_journal w @ [r] else tw_journal w
                                | _ \<Rightarrow> tw_journal w),
           tw_session = s,
           tw_log = (if call = TC_Reboot then [] else tw_log w @ [a])\<rparr>)"

definition trial_history :: "(trial_call \<times> bool) list \<Rightarrow> trial_world" where
  "trial_history es = foldl trial_event world0 es"

subsection \<open>The journal\<close>

lemma decide_legal:
  assumes "fst (trial_decide call rs s) = (A_Persist q, e)"
  shows "if rs = [] then needs_record call \<or> trial_initial q else trial_transition (last rs) q"
proof (cases call)
  case (TC_Arm b c)
  then have "arm (if rs = [] then LD_Missing else LD_Present) b c = (A_Persist q, e)"
    using assms by (simp add: trial_decide_def)
  moreover have "arm LD_Present b c \<noteq> (A_Persist q, e)" by (simp add: arm_def)
  ultimately show ?thesis by (auto intro: arm_initial split: if_splits)
next
  case (TC_Startup c)
  moreover have "startup LD_Missing r c \<noteq> (A_Persist q, e)" for r by (simp add: startup_def)
  ultimately show ?thesis using assms
    by (auto simp: trial_decide_def intro: startup_legal split: if_splits)
qed (use assms in \<open>auto simp: trial_decide_def Let_def needs_record_def session_calls_no_record dest: planner_legal
      split: if_splits\<close>)

lemma event_journal: "trial_journal (tw_journal w) \<Longrightarrow> trial_journal (tw_journal (trial_event w ev))"
proof -
  assume j: "trial_journal (tw_journal w)"
  obtain call written where ev: "ev = (call, written)" by (cases ev)
  obtain a e s where d: "trial_decide call (tw_journal w) (tw_session w) = ((a, e), s)"
    by (metis surj_pair)
  show ?thesis
  proof (cases "tw_journal w = [] \<and> needs_record call")
    case True
    then show ?thesis using j ev by (simp add: trial_event_def)
  next
    case False
    show ?thesis
    proof (cases "\<exists>r. a = A_Persist r")
      case True
      then obtain r where "a = A_Persist r" by blast
      then show ?thesis
        using j ev d False decide_legal[of call "tw_journal w" "tw_session w" r e]
        by (auto simp: trial_event_def journal_snoc split: if_splits)
    qed (use j ev d False in \<open>auto simp: trial_event_def split: trial_action.splits\<close>)
  qed
qed

interpretation trial_journals: event_machine trial_event world0 "\<lambda>w. trial_journal (tw_journal w)"
  by unfold_locales (simp add: world0_def, rule event_journal)

lemma journal_sequences:
  "trial_journal rs \<Longrightarrow> map (\<lambda>r. unat (tl_sequence r)) rs = map Suc [0..<length rs]"
  by (rule nth_equalityI) (simp_all add: journal_sequence)

text \<open>C21: Over any sequence of planner calls, successful and failed writes and reboots, the journal of a gauge
  trial starts with an armed record, grows by legal transitions only and never holds more than six records, the
  i-th of them with sequence number i: the protocol ends, and a claim (the third record) is made at most once.\<close>

theorem trial_history_bounded:
  "trial_journal (tw_journal (trial_history es)) \<and> length (tw_journal (trial_history es)) \<le> 6 \<and>
   map (\<lambda>r. unat (tl_sequence r)) (tw_journal (trial_history es)) = map Suc [0..<length (tw_journal (trial_history es))]"
proof -
  have j: "trial_journal (tw_journal (trial_history es))"
    unfolding trial_history_def by (rule trial_journals.inv_reachable)
  then show ?thesis using journal_length[OF j] journal_sequences[OF j] by blast
qed

text \<open>What a record keeps of an earlier one.\<close>

definition keeps_evidence :: "trial_record \<Rightarrow> trial_record \<Rightarrow> bool" where
  "keeps_evidence a b \<longleftrightarrow> (nonzero (tl_evidence a) \<longrightarrow> tl_evidence b = tl_evidence a \<and> tl_capture b = tl_capture a) \<and>
     (valid_boot (tl_claimed_boot a) \<longrightarrow>
        same_boot (tl_claimed_boot a) (tl_claimed_boot b) \<and> tl_claim_ms b = tl_claim_ms a)"

lemma same_boot_trans: "same_boot a b \<Longrightarrow> same_boot b c \<Longrightarrow> same_boot a c"
  by (metis same_boot_def)

lemma same_boot_valid: "same_boot a b \<Longrightarrow> valid_boot b"
  by (auto simp: same_boot_def valid_boot_def)

lemma keeps_evidence_step: "keeps_evidence a b \<Longrightarrow> trial_transition b c \<Longrightarrow> keeps_evidence a c"
proof -
  assume k: "keeps_evidence a b" and t: "trial_transition b c"
  have "tl_evidence c = tl_evidence a \<and> tl_capture c = tl_capture a" if "nonzero (tl_evidence a)"
    using k transition_evidence[OF t] that by (simp add: keeps_evidence_def)
  moreover have "same_boot (tl_claimed_boot a) (tl_claimed_boot c) \<and> tl_claim_ms c = tl_claim_ms a"
    if "valid_boot (tl_claimed_boot a)"
  proof -
    have b: "same_boot (tl_claimed_boot a) (tl_claimed_boot b)" "tl_claim_ms b = tl_claim_ms a"
      using k that by (simp_all add: keeps_evidence_def)
    then show ?thesis
      using transition_claim[OF t same_boot_valid[OF b(1)]] same_boot_trans[OF b(1)] by simp
  qed
  ultimately show ?thesis by (simp add: keeps_evidence_def)
qed

lemma keeps_evidence_refl: "keeps_evidence a a"
  by (simp add: keeps_evidence_def same_boot_def valid_boot_def)

text \<open>Evidence and claims are final: whatever calls, failed writes and reboots happen, once a record of the
  journal holds capture evidence every later one holds the same evidence and result, and once a boot has claimed
  the capture every later record names that boot and that time.\<close>

theorem trial_evidence_final: "sorted_wrt keeps_evidence (tw_journal (trial_history es))"
proof -
  have j: "trial_journal (tw_journal (trial_history es))"
    unfolding trial_history_def by (rule trial_journals.inv_reachable)
  show ?thesis unfolding sorted_wrt_iff_nth_less
    using journal_keeps[OF j, of "keeps_evidence _"] keeps_evidence_step keeps_evidence_refl less_imp_le by blast
qed

subsection \<open>What a session releases\<close>

text \<open>The actions that need a release of the session.\<close>

definition quiet :: "trial_action \<Rightarrow> bool" where
  "quiet a \<longleftrightarrow> a \<noteq> A_Apply \<and> a \<noteq> A_Inspect \<and> a \<noteq> A_RestoreOriginal"

lemma quiet_simps [simp]:
  "quiet A_Reject" "quiet A_Blocked" "quiet A_NoTrial" "quiet (A_Persist r)" "quiet A_KeepArmed"
  "quiet A_AwaitPowerOff" "quiet A_Capture" "quiet A_FailureEvidence" "quiet A_RestoreRequired" "quiet A_Complete"
  "quiet (fst (blocked_by e))" "quiet (fst (persist r))" "quiet (fst (persist_step r r' e))"
  by (simp_all add: quiet_def blocked_by_def persist_def persist_step_def)

lemma quiet_planners:
  "quiet (fst (arm l b c))" "quiet (fst (handoff r c))" "quiet (fst (startup l r c))" "quiet (fst (capture_poll r c s))"
  "quiet (fst (interrupted_evidence r c d))" "quiet (fst (rejected_startup_evidence r c d))"
  "quiet (fst (restore_intent r c))" "quiet (fst (restored r c))" "quiet (fst (abort_intent r c s w))"
  by (simp_all add: arm_def handoff_def startup_def capture_poll_def interrupted_evidence_def Let_def
      rejected_startup_evidence_def restore_intent_def restored_def abort_intent_def split: trial_phase.split)

text \<open>How one planner call changes the three release flags.\<close>

definition releases :: "trial_session \<Rightarrow> trial_action \<Rightarrow> trial_session \<Rightarrow> bool" where
  "releases s a s' \<longleftrightarrow>
     (quiet a \<and> se_apply s' = se_apply s \<and> se_inspection s' = se_inspection s \<and> se_restore s' = se_restore s) \<or>
     (a = A_Apply \<and> \<not> se_apply s \<and> s' = s\<lparr>se_apply := True\<rparr>) \<or>
     (a = A_Inspect \<and> \<not> se_inspection s \<and> s' = s\<lparr>se_inspection := True\<rparr>) \<or>
     (a = A_RestoreOriginal \<and> se_inspection s \<and> \<not> se_restore s \<and> s' = s\<lparr>se_restore := True\<rparr>)"

lemma releases_quiet: "quiet a \<Longrightarrow> releases s a s"
  by (simp add: releases_def)

lemma releases_flags:
  "quiet a \<Longrightarrow> releases s a (s\<lparr>se_claim := True\<rparr>)" "quiet a \<Longrightarrow> releases s a (s\<lparr>se_finished := True\<rparr>)"
  by (simp_all add: releases_def)

lemma releases_stop: "releases s (fst (fst (stop s e))) (snd (stop s e))"
  by (simp add: releases_def stop_def)

lemma releases_after_persist: "releases s (fst (fst (after_persist b r p c f s))) (snd (after_persist b r p c f s))"
  by (simp add: after_persist_def releases_stop releases_quiet releases_flags quiet_planners split: trial_phase.split)

lemma releases_capture: "releases s (fst (fst (capture_evidence r c cap d s))) (snd (capture_evidence r c cap d s))"
  by (simp add: capture_evidence_def releases_stop releases_quiet releases_flags Let_def)

lemma releases_apply: "releases s (fst (fst (authorize_apply r c s))) (snd (authorize_apply r c s))"
  by (simp add: authorize_apply_def releases_stop releases_quiet Let_def, simp add: releases_def)

lemma releases_inspection: "releases s (fst (fst (authorize_inspection r c s))) (snd (authorize_inspection r c s))"
  by (simp add: authorize_inspection_def releases_stop releases_quiet Let_def, simp add: releases_def)

lemma releases_restore: "releases s (fst (fst (authorize_restore r c s))) (snd (authorize_restore r c s))"
  by (simp add: authorize_restore_def releases_stop releases_quiet Let_def, simp add: releases_def)

lemma releases_abort:
  "releases s (fst (fst (abort_inspect r c w s))) (snd (abort_inspect r c w s))"
  "releases s (fst (fst (abort_restore r c w s))) (snd (abort_restore r c w s))"
  by (simp_all add: abort_inspect_def abort_restore_def releases_quiet Let_def) (simp_all add: releases_def)

lemma decide_releases:
  "call \<noteq> TC_Reboot \<Longrightarrow> releases s (fst (fst (trial_decide call rs s))) (snd (trial_decide call rs s))"
  by (cases call) (simp_all add: trial_decide_def Let_def releases_after_persist releases_capture releases_apply
      releases_inspection releases_restore releases_abort releases_quiet quiet_planners unknown_outcome_def releases_stop)

text \<open>A restoring record in which a claimed capture has its evidence.\<close>

definition evidence_settled :: "trial_record \<Rightarrow> bool" where
  "evidence_settled r \<longleftrightarrow> tl_phase r = T_Restoring \<and> (valid_boot (tl_claimed_boot r) \<longrightarrow> nonzero (tl_evidence r))"

text \<open>The invariant of a session: how often each action is in the log, and what stands behind it.\<close>

definition release_inv :: "trial_world \<Rightarrow> bool" where
  "release_inv w \<longleftrightarrow> trial_journal (tw_journal w) \<and>
     (let s = tw_session w; l = tw_log w in
      count_list l A_Apply = (if se_apply s then 1 else 0) \<and>
      count_list l A_Inspect = (if se_inspection s then 1 else 0) \<and>
      count_list l A_RestoreOriginal = (if se_restore s then 1 else 0) \<and>
      (se_restore s \<longrightarrow> se_inspection s \<and> list_ex evidence_settled (tw_journal w)))"

lemma checked_shape: "checked r c = TE_None \<Longrightarrow> trial_shape r"
  by (simp add: checked_def split: if_splits)

lemma restore_needs_evidence:
  assumes "fst (fst (trial_decide call rs s)) = A_RestoreOriginal"
  shows "evidence_settled (last rs)"
proof -
  have "(\<exists>c. call = TC_Restore c) \<or> (\<exists>c w. call = TC_AbortRestore c w)"
  proof (rule ccontr)
    assume n: "\<not> ((\<exists>c. call = TC_Restore c) \<or> (\<exists>c w. call = TC_AbortRestore c w))"
    have "fst (fst (stop s' e)) \<noteq> A_RestoreOriginal" "fst (blocked_by e) \<noteq> A_RestoreOriginal"
      "fst (persist_step r r' e) \<noteq> A_RestoreOriginal" "quiet a \<Longrightarrow> a \<noteq> A_RestoreOriginal" for s' e a r r'
      by (auto simp: stop_def blocked_by_def quiet_def persist_step_def persist_def)
    with n assms quiet_planners show False
      by (cases call) (auto simp: trial_decide_def Let_def authorize_apply_def authorize_inspection_def abort_inspect_def
          unknown_outcome_def capture_evidence_def after_persist_def split: trial_phase.splits if_splits)
  qed
  then have "\<exists>c. checked (last rs) c = TE_None \<and> tl_phase (last rs) = T_Restoring"
  proof
    assume "\<exists>c. call = TC_Restore c"
    then obtain c where c: "call = TC_Restore c" by blast
    have "checked (last rs) c = TE_None" "tl_phase (last rs) = T_Restoring"
      using assms c
      by (auto simp: trial_decide_def Let_def authorize_restore_def stop_def blocked_by_def split: if_splits)
    then show ?thesis by blast
  next
    assume "\<exists>c w. call = TC_AbortRestore c w"
    then obtain c w where c: "call = TC_AbortRestore c w" by blast
    then have "owned (last rs) c s w True"
      using assms by (auto simp: trial_decide_def Let_def abort_restore_def blocked_by_def split: if_splits)
    then show ?thesis unfolding owned_def Let_def if_True by blast
  qed
  then show ?thesis using shape_restoring_evidence checked_shape unfolding evidence_settled_def by blast
qed

lemma count_list_snoc: "count_list (xs @ [x]) y = count_list xs y + (if x = y then 1 else 0)"
  by (induction xs) auto

lemma event_cases:
  assumes "\<not> (tw_journal w = [] \<and> needs_record call)" "trial_decide call (tw_journal w) (tw_session w) = ((a, e), s)"
  shows "tw_session (trial_event w (call, b)) = s"
    "tw_log (trial_event w (call, b)) = (if call = TC_Reboot then [] else tw_log w @ [a])"
    "set (tw_journal w) \<subseteq> set (tw_journal (trial_event w (call, b)))"
  using assms by (auto simp: trial_event_def split: trial_action.split)

lemma release_inv_event: "release_inv w \<Longrightarrow> release_inv (trial_event w ev)"
proof -
  assume inv: "release_inv w"
  obtain call b where ev: "ev = (call, b)" by (cases ev)
  obtain a e s where d: "trial_decide call (tw_journal w) (tw_session w) = ((a, e), s)"
    by (metis surj_pair)
  have j: "trial_journal (tw_journal (trial_event w ev))"
    using inv event_journal by (simp add: release_inv_def)
  show ?thesis
  proof (cases "tw_journal w = [] \<and> needs_record call")
    case True
    then show ?thesis using inv ev by (simp add: trial_event_def)
  next
    case False
    note w' = event_cases[OF False d, of b]
    show ?thesis
    proof (cases "call = TC_Reboot")
      case True
      then have "s = session0" using d by (simp add: trial_decide_def)
      then show ?thesis using j w' ev True by (simp add: release_inv_def session0_def Let_def)
    next
      case False
      have r: "releases (tw_session w) a s" using decide_releases[OF False, of "tw_session w" "tw_journal w"] d by simp
      have ne: "tw_journal w \<noteq> []" if "a = A_RestoreOriginal"
        using that d \<open>\<not> (tw_journal w = [] \<and> needs_record call)\<close> quiet_planners
        by (cases call) (auto simp: trial_decide_def needs_record_def Let_def quiet_def unknown_outcome_def
            stop_def blocked_by_def dest: arg_cong[where f=fst])
      have l: "tw_log (trial_event w ev) = tw_log w @ [a]" "tw_session (trial_event w ev) = s"
        using w' ev False by simp_all
      have old: "evidence_settled x \<Longrightarrow> x \<in> set (tw_journal w) \<Longrightarrow> list_ex evidence_settled (tw_journal (trial_event w ev))"
        for x using w'(3) ev by (auto simp: list_ex_iff)
      have kept: "list_ex evidence_settled (tw_journal w) \<Longrightarrow> list_ex evidence_settled (tw_journal (trial_event w ev))"
        using old by (auto simp: list_ex_iff)
      have new: "list_ex evidence_settled (tw_journal (trial_event w ev))" if "a = A_RestoreOriginal"
        using restore_needs_evidence[of call "tw_journal w" "tw_session w"] d that old[of "last (tw_journal w)"] ne
        by simp
      show ?thesis using inv j r l kept new
        unfolding release_inv_def Let_def releases_def quiet_def
        by (elim disjE conjE) (auto simp: count_list_snoc)
    qed
  qed
qed

interpretation trial_releases: event_machine trial_event world0 release_inv
  by unfold_locales (simp add: release_inv_def world0_def session0_def, rule release_inv_event)

text \<open>C22: Between two reboots a gauge trial releases each physical action at most once, whatever the order of the
  calls: the new parameters are applied at most once, the gauge is opened for inspection at most once, and the
  original parameters are restored at most once, only after an inspection and only when the journal holds a
  restoring record in which a claimed capture has its evidence.\<close>

theorem trial_releases_once:
  "(let w = trial_history es; n = count_list (tw_log w) in
    n A_Apply \<le> 1 \<and> n A_Inspect \<le> 1 \<and> n A_RestoreOriginal \<le> n A_Inspect \<and>
    (n A_RestoreOriginal = 0 \<or> list_ex evidence_settled (tw_journal w)))"
proof -
  have inv: "release_inv (trial_history es)"
    unfolding trial_history_def by (rule trial_releases.inv_reachable)
  show ?thesis using inv unfolding release_inv_def Let_def by (auto split: if_splits)
qed

subsection \<open>A whole trial\<close>

definition sample_binding :: trial_binding where
  "sample_binding = \<lparr>bi_mac = [0x7a, 1, 2, 3, 4, 5], bi_identity = \<lparr>id_device = 0x0220, id_firmware = 3, id_build = 4\<rparr>,
     bi_source = source_crc, bi_target = target_crc, bi_generation = 7, bi_epoch = 9, bi_nonce = replicate 16 1,
     bi_recovery = RB_ContractDigest, bi_slot0 = replicate 32 0, bi_slot1 = replicate 32 0,
     bi_contract = replicate 32 5, bi_receipt = replicate 32 6, bi_budget = 60000\<rparr>"

definition sample_safety :: trial_safety where
  "sample_safety = \<lparr>sf_identity = True, sf_gct_binding = True, sf_security_known = True, sf_operation_safe = True,
     sf_durable_source = True, sf_reviewed = True, sf_two_slots = True, sf_sealed = True, sf_cfg0 = True, sf_cal0 = True,
     sf_mv = 4100, sf_temperature = 2980, sf_target_standard = True, sf_fresh131 = True, sf_calibration = True,
     sf_image = IM_Source131, sf_pending = False, sf_full_access = False, sf_level = 3, sf_deadline_bound = False,
     sf_started = 0, sf_source_after_armed = 1, sf_target_receipt = False, sf_no_writer = False,
     sf_receipt_generation = 0, sf_receipt_epoch = 0, sf_receipt_started = 0, sf_receipt_observed = 0\<rparr>"

definition sample_context :: "u8 \<Rightarrow> u64 \<Rightarrow> gauge_image \<Rightarrow> trial_context" where
  "sample_context boot now img =
     \<lparr>cx_expected = sample_binding, cx_boot = \<lparr>bt_nonce = replicate 16 boot, bt_verified = True\<rparr>, cx_now = now,
      cx_safety = sample_safety\<lparr>sf_image := img\<rparr>, cx_kind = SK_PowerOn, cx_durable = True, cx_fresh_nonce = True,
      cx_legacy = False\<rparr>"

definition sample_proof :: "u32 \<Rightarrow> trial_phase \<Rightarrow> trial_proof" where
  "sample_proof n p = \<lparr>pr_result = CM_ExactDurable, pr_identical = True, pr_source_durable = True, pr_sequence = n,
     pr_phase = p, pr_nonce = replicate 16 1\<rparr>"

definition sample_trial :: "(trial_call \<times> bool) list" where
  "sample_trial =
     [(TC_Arm sample_binding (sample_context 1 1000 IM_Source131), False),
      (TC_Arm sample_binding (sample_context 1 2000 IM_Source131), True),
      (TC_Persisted (sample_proof 1 T_Armed) (sample_context 1 2100 IM_Source131), True),
      (TC_Apply (sample_context 1 2200 IM_Source131), True), (TC_Apply (sample_context 1 2300 IM_Source131), True),
      (TC_Reboot, True), (TC_Startup (sample_context 1 2400 IM_TargetC131), True),
      (TC_Handoff (sample_context 1 3000 IM_TargetC131), True), (TC_Reboot, True),
      (TC_Startup (sample_context 2 500 IM_TargetC131), True),
      (TC_Persisted (sample_proof 3 T_CaptureClaimed) (sample_context 2 600 IM_TargetC131), True),
      (TC_Capture (sample_context 2 700 IM_TargetC131) CR_Success (replicate 32 9), True),
      (TC_Intent (sample_context 2 800 IM_TargetC131), True),
      (TC_Inspect (sample_context 2 900 IM_TargetC131), True), (TC_Restore (sample_context 2 950 IM_TargetC131), True),
      (TC_Restored (sample_context 2 990 IM_Source131), True), (TC_Intent (sample_context 2 995 IM_Source131), True)]"

lemma sample_trial_runs:
  "map tl_phase (tw_journal (trial_history sample_trial)) =
     [T_Armed, T_HandedOff, T_CaptureClaimed, T_Captured, T_Restoring, T_Restored]"
  by code_simp

end
