(* ===== verification/Cold_Capsule.thy ===== *)
theory Cold_Capsule
  imports Prelude_Chunks Cold_Trial_Safety
begin

text \<open>
  The metadata capsule of the gauge trial (\<open>main/hal/mosaico/mosaico_gauge_cold_capsule.h\<close>): the
  canonical bytes of a binding, the 288-byte image of a trial record inside a record of the
  two-page store, and the storage policy built on it. An enum byte outside the enum decodes to
  no value; the code keeps it until the shape check refuses the record.
\<close>

section \<open>Bindings\<close>

definition recovery_code :: "recovery_binding \<Rightarrow> u8" where
  "recovery_code x = (case x of RB_SlotHashes \<Rightarrow> 1 | RB_ContractDigest \<Rightarrow> 2)"

definition recovery_of :: "u8 \<Rightarrow> recovery_binding option" where
  "recovery_of b = (if b = 1 then Some RB_SlotHashes else if b = 2 then Some RB_ContractDigest else None)"

definition write_binding :: "bytes \<Rightarrow> nat \<Rightarrow> trial_binding \<Rightarrow> bytes" where
  "write_binding w p b =
     (let i = bi_identity b;
          w = put_le (put_le (put_bytes w p (bi_mac b)) (p + 6) (id_device i) 2) (p + 8) (id_firmware i) 2;
          w = w[p + 10 := id_build i, p + 11 := recovery_code (bi_recovery b)];
          w = put_le (put_le (put_le w (p + 12) (bi_source b) 4) (p + 16) (bi_target b) 4) (p + 20) (bi_generation b) 4;
          w = put_bytes (put_le w (p + 24) (bi_epoch b) 8) (p + 32) (bi_nonce b);
          w = put_bytes (put_bytes (put_bytes w (p + 48) (bi_slot0 b)) (p + 80) (bi_slot1 b)) (p + 112) (bi_contract b)
      in put_le (put_bytes w (p + 144) (bi_receipt b)) (p + 176) (bi_budget b) 4)"

definition read_binding :: "bytes \<Rightarrow> nat \<Rightarrow> trial_binding option" where
  "read_binding w p =
     (case recovery_of (w ! (p + 11)) of
        None \<Rightarrow> None
      | Some x \<Rightarrow> Some \<lparr>bi_mac = get_bytes w p 6,
          bi_identity = \<lparr>id_device = get_le w (p + 6) 2, id_firmware = get_le w (p + 8) 2, id_build = w ! (p + 10)\<rparr>,
          bi_source = get_le w (p + 12) 4, bi_target = get_le w (p + 16) 4, bi_generation = get_le w (p + 20) 4,
          bi_epoch = get_le w (p + 24) 8, bi_nonce = get_bytes w (p + 32) 16, bi_recovery = x,
          bi_slot0 = get_bytes w (p + 48) 32, bi_slot1 = get_bytes w (p + 80) 32,
          bi_contract = get_bytes w (p + 112) 32, bi_receipt = get_bytes w (p + 144) 32,
          bi_budget = get_le w (p + 176) 4\<rparr>)"

definition encode_binding :: "trial_binding \<Rightarrow> bytes option" where
  "encode_binding b =
     (if \<not> valid_binding b then None
      else Some (write_binding (put_le (put_le (put_le (replicate 188 0) 0 (0x31424347 :: u32) 4) 4 (1 :: u32) 2)
             6 (188 :: u32) 2) 8 b))"

definition binding_arrays :: "trial_binding \<Rightarrow> bool" where
  "binding_arrays b \<longleftrightarrow> length (bi_mac b) = 6 \<and> length (bi_nonce b) = 16 \<and> length (bi_slot0 b) = 32 \<and>
     length (bi_slot1 b) = 32 \<and> length (bi_contract b) = 32 \<and> length (bi_receipt b) = 32"

lemma recovery_of_code [simp]: "recovery_of (recovery_code x) = Some x"
  by (cases x) (simp_all add: recovery_of_def recovery_code_def)

lemma recovery_of_eq: "recovery_of b = Some x \<longleftrightarrow> b = recovery_code x"
  by (cases x) (auto simp: recovery_of_def recovery_code_def split: if_splits)

lemma length_write_binding [simp]: "length (write_binding w p b) = length w"
  by (simp add: write_binding_def Let_def)

lemma write_binding_nth:
  "binding_arrays b \<Longrightarrow> i < p \<or> p + 180 \<le> i \<Longrightarrow> write_binding w p b ! i = w ! i"
  unfolding write_binding_def Let_def binding_arrays_def
  by (elim disjE) (simp_all add: nth_put_le_other nth_put_bytes_other)

lemma write_binding_other:
  assumes "binding_arrays b" "q + n \<le> p \<or> p + 180 \<le> q"
  shows "get_le (write_binding w p b) q n = get_le w q n"
    "get_bytes (write_binding w p b) q n = get_bytes w q n"
  using assms by (auto intro!: get_le_cong nth_equalityI simp: write_binding_nth)

lemma read_write_binding:
  assumes "binding_arrays b" "p + 180 \<le> length w"
  shows "read_binding (write_binding w p b) p = Some b"
  using assms
  by (simp add: read_binding_def write_binding_def binding_arrays_def codec_simps Let_def nth_put_bytes_other
      nth_put_le_other del: get_le.simps)

lemma read_binding_agree:
  assumes "read_binding v p = Some b" "read_binding w p = Some b"
  shows "agree v w p (p + 180)"
proof -
  have r: "v ! (p + 11) = recovery_code (bi_recovery b)" "w ! (p + 11) = recovery_code (bi_recovery b)"
    using assms by (auto simp: read_binding_def recovery_of_eq simp del: get_le.simps split: option.splits)
  have b: "b = \<lparr>bi_mac = get_bytes x p 6,
      bi_identity = \<lparr>id_device = get_le x (p + 6) 2, id_firmware = get_le x (p + 8) 2, id_build = x ! (p + 10)\<rparr>,
      bi_source = get_le x (p + 12) 4, bi_target = get_le x (p + 16) 4, bi_generation = get_le x (p + 20) 4,
      bi_epoch = get_le x (p + 24) 8, bi_nonce = get_bytes x (p + 32) 16, bi_recovery = bi_recovery b,
      bi_slot0 = get_bytes x (p + 48) 32, bi_slot1 = get_bytes x (p + 80) 32,
      bi_contract = get_bytes x (p + 112) 32, bi_receipt = get_bytes x (p + 144) 32,
      bi_budget = get_le x (p + 176) 4\<rparr>" if "read_binding x p = Some b" for x
    using that unfolding read_binding_def by (auto simp del: get_le.simps split: option.splits)
  note e = trans[OF b[OF assms(1), symmetric] b[OF assms(2)], simplified trial_binding.ext_inject identity.ext_inject]
  have "agree v w p (p + 6)" by (rule agree_bytes) (use e in blast, simp)
  also have "agree v w (p + 6) (p + 8)" by (rule agree_le[where ?'a = 16]) (use e in blast, simp_all)
  also have "agree v w (p + 8) (p + 10)" by (rule agree_le[where ?'a = 16]) (use e in blast, simp_all)
  also have "agree v w (p + 10) (p + 11)" by (rule agree_nth) (use e in blast, simp)
  also have "agree v w (p + 11) (p + 12)" by (rule agree_nth) (use r in simp_all)
  also have "agree v w (p + 12) (p + 16)" by (rule agree_le[where ?'a = 32]) (use e in blast, simp_all)
  also have "agree v w (p + 16) (p + 20)" by (rule agree_le[where ?'a = 32]) (use e in blast, simp_all)
  also have "agree v w (p + 20) (p + 24)" by (rule agree_le[where ?'a = 32]) (use e in blast, simp_all)
  also have "agree v w (p + 24) (p + 32)" by (rule agree_le[where ?'a = 64]) (use e in blast, simp_all)
  also have "agree v w (p + 32) (p + 48)" by (rule agree_bytes) (use e in blast, simp)
  also have "agree v w (p + 48) (p + 80)" by (rule agree_bytes) (use e in blast, simp)
  also have "agree v w (p + 80) (p + 112)" by (rule agree_bytes) (use e in blast, simp)
  also have "agree v w (p + 112) (p + 144)" by (rule agree_bytes) (use e in blast, simp)
  also have "agree v w (p + 144) (p + 176)" by (rule agree_bytes) (use e in blast, simp)
  also have "agree v w (p + 176) (p + 180)" by (rule agree_le[where ?'a = 32]) (use e in blast, simp_all)
  finally show ?thesis .
qed

text \<open>The hashed bytes of a binding determine every field of it.\<close>

lemma encode_binding_inj:
  assumes "encode_binding a = Some w" "encode_binding b = Some w" "binding_arrays a" "binding_arrays b"
  shows "a = b"
proof -
  have r: "read_binding w 8 = Some x" if "encode_binding x = Some w" "binding_arrays x" for x
    using that read_write_binding[of x 8] by (auto simp: encode_binding_def split: if_splits)
  show ?thesis using r[OF assms(1,3)] r[OF assms(2,4)] by simp
qed

section \<open>Records\<close>

definition capture_code :: "capture_result \<Rightarrow> u8" where
  "capture_code c = (case c of CR_None \<Rightarrow> 0 | CR_Success \<Rightarrow> 1 | CR_KnownTimeout \<Rightarrow> 2 | CR_KnownOverflow \<Rightarrow> 3
     | CR_KnownReadFailure \<Rightarrow> 4 | CR_Interrupted \<Rightarrow> 5 | CR_RejectedStartup \<Rightarrow> 6 | CR_StartupWindowExpired \<Rightarrow> 7)"

definition capture_of :: "u8 \<Rightarrow> capture_result option" where
  "capture_of b = List.find (\<lambda>c. capture_code c = b) [CR_None, CR_Success, CR_KnownTimeout, CR_KnownOverflow,
     CR_KnownReadFailure, CR_Interrupted, CR_RejectedStartup, CR_StartupWindowExpired]"

definition phase_of :: "u8 \<Rightarrow> trial_phase option" where
  "phase_of b = List.find (\<lambda>p. phase_code p = b) [T_Armed, T_HandedOff, T_CaptureClaimed, T_Captured, T_CaptureFailed,
     T_Restoring, T_Restored, T_BlockedUnknown]"

definition canonical :: "trial_record \<Rightarrow> bool" where
  "canonical r \<longleftrightarrow>
     (if tl_capture r \<noteq> CR_None \<and> tl_capture r \<noteq> CR_Success \<and> \<not> known_failure (tl_capture r) then False
      else if \<not> trial_shape r then False
      else (tl_capture r = CR_None) = (\<not> nonzero (tl_evidence r)))"

definition bool_byte :: "bool \<Rightarrow> u8" where
  "bool_byte v = (if v then 1 else 0)"

lemma bool_byte [simp]: "(bool_byte v = 0) = (\<not> v)" "\<not> 1 < bool_byte v"
  by (simp_all add: bool_byte_def)

lemma bool_byte_eq:
  assumes "\<not> 1 < (x :: u8)"
  shows "x = bool_byte (x \<noteq> 0)"
proof -
  have "unat x = 0 \<or> unat x = 1" using assms by (auto simp: word_less_nat_alt)
  then have "x = 0 \<or> x = 1" by (simp add: word_unat_eq_iff)
  then show ?thesis by (auto simp: bool_byte_def)
qed

definition capsule_image :: "trial_record \<Rightarrow> bytes" where
  "capsule_image r =
     (let p = put_le (put_le (put_le (replicate 1536 0) 0 (0x314d4347 :: u32) 4) 4 (1 :: u32) 2) 6 (288 :: u32) 2;
          p = (put_le p 8 (tl_schema r) 2)[10 := phase_code (tl_phase r), 11 := capture_code (tl_capture r)];
          p = write_binding (put_le p 12 (tl_sequence r) 4) 16 (tl_binding r);
          p = (put_bytes p 196 (bt_nonce (tl_armed_boot r)))[212 := bool_byte (bt_verified (tl_armed_boot r))];
          p = (put_bytes p 213 (bt_nonce (tl_claimed_boot r)))[229 := bool_byte (bt_verified (tl_claimed_boot r))];
          p = put_le (put_le (put_le p 232 (tl_armed_ms r) 8) 240 (tl_handoff_ms r) 8) 248 (tl_claim_ms r) 8
      in put_bytes p 256 (tl_evidence r))"

definition capsule_record :: "trial_record \<Rightarrow> bytes \<Rightarrow> cold_record" where
  "capsule_record r digest =
     \<lparr>cold_sequence = ucast (tl_sequence r), cold_phase = phase_code (tl_phase r), cold_nonce = bi_nonce (tl_binding r),
      cold_binding = digest, cold_size = 288, cold_payload = capsule_image r\<rparr>"

definition capsule_encode :: "trial_record \<Rightarrow> trial_binding \<Rightarrow> bytes \<Rightarrow> cold_record option" where
  "capsule_encode r expected digest =
     (if \<not> canonical r \<or> \<not> valid_binding expected \<or> \<not> same_trial_binding (tl_binding r) expected \<or> \<not> nonzero digest
      then None
      else if cold_shape (capsule_record r digest) then Some (capsule_record r digest) else None)"

definition capsule_read :: "bytes \<Rightarrow> trial_record option" where
  "capsule_read p =
     (case (phase_of (p ! 10), capture_of (p ! 11), read_binding p 16) of
        (Some ph, Some cap, Some b) \<Rightarrow> Some \<lparr>tl_schema = get_le p 8 2, tl_binding = b, tl_sequence = get_le p 12 4,
          tl_phase = ph, tl_armed_boot = \<lparr>bt_nonce = get_bytes p 196 16, bt_verified = p ! 212 \<noteq> 0\<rparr>,
          tl_claimed_boot = \<lparr>bt_nonce = get_bytes p 213 16, bt_verified = p ! 229 \<noteq> 0\<rparr>,
          tl_armed_ms = get_le p 232 8, tl_handoff_ms = get_le p 240 8, tl_claim_ms = get_le p 248 8,
          tl_capture = cap, tl_evidence = get_bytes p 256 32\<rparr>
      | _ \<Rightarrow> None)"

definition capsule_decode :: "cold_record \<Rightarrow> trial_binding \<Rightarrow> bytes \<Rightarrow> trial_record option" where
  "capsule_decode x expected digest =
     (let p = cold_payload x in
      if \<not> cold_shape x \<or> cold_size x \<noteq> 288 \<or> \<not> valid_binding expected \<or> \<not> nonzero digest \<or> cold_binding x \<noteq> digest
      then None
      else if get_le p 0 4 \<noteq> (0x314d4347 :: u32) \<or> get_le p 4 2 \<noteq> (1 :: u32) \<or> get_le p 6 2 \<noteq> (288 :: u32) \<or>
        p ! 212 > 1 \<or> p ! 229 > 1 \<or> p ! 230 \<noteq> 0 \<or> p ! 231 \<noteq> 0
      then None
      else case capsule_read p of
        None \<Rightarrow> None
      | Some r \<Rightarrow>
          if cold_sequence x \<noteq> ucast (tl_sequence r) \<or> cold_phase x \<noteq> phase_code (tl_phase r) \<or>
             cold_nonce x \<noteq> bi_nonce (tl_binding r) \<or> \<not> same_trial_binding (tl_binding r) expected \<or> \<not> canonical r
          then None else Some r)"

definition capsule_policy :: "trial_binding \<Rightarrow> bytes \<Rightarrow> cold_policy" where
  "capsule_policy expected digest =
     \<lparr>pol_valid = (\<lambda>r. case capsule_decode r expected digest of None \<Rightarrow> False | Some _ \<Rightarrow> True),
      pol_initial = (\<lambda>r. case capsule_decode r expected digest of None \<Rightarrow> False | Some t \<Rightarrow> trial_initial t),
      pol_transition = (\<lambda>a b. case (capsule_decode a expected digest, capsule_decode b expected digest) of
          (Some x, Some y) \<Rightarrow> trial_transition x y | _ \<Rightarrow> False)\<rparr>"

section \<open>One image per record\<close>

definition trial_arrays :: "trial_record \<Rightarrow> bool" where
  "trial_arrays r \<longleftrightarrow> binding_arrays (tl_binding r) \<and> length (bt_nonce (tl_armed_boot r)) = 16 \<and>
     length (bt_nonce (tl_claimed_boot r)) = 16 \<and> length (tl_evidence r) = 32"

lemma phase_of_code [simp]: "phase_of (phase_code p) = Some p"
  by (cases p) (simp_all add: phase_of_def phase_code_def)

lemma phase_of_eq: "phase_of b = Some p \<Longrightarrow> b = phase_code p"
  by (auto simp: phase_of_def split: if_splits)

lemma capture_of_code [simp]: "capture_of (capture_code c) = Some c"
  by (cases c) (simp_all add: capture_of_def capture_code_def)

lemma capture_of_eq: "capture_of b = Some c \<Longrightarrow> b = capture_code c"
  by (auto simp: capture_of_def split: if_splits)

lemma length_capsule_image [simp]: "length (capsule_image r) = 1536"
  by (simp add: capsule_image_def Let_def)

text \<open>The image up to the binding, and the binding inside it.\<close>

definition capsule_head :: "trial_record \<Rightarrow> bytes" where
  "capsule_head r = put_le ((put_le (put_le (put_le (put_le (replicate 1536 0) 0 (0x314d4347 :: u32) 4) 4 (1 :: u32) 2)
     6 (288 :: u32) 2) 8 (tl_schema r) 2)[10 := phase_code (tl_phase r), 11 := capture_code (tl_capture r)])
     12 (tl_sequence r) 4"

lemma capsule_image_split:
  "capsule_image r =
     put_bytes (put_le (put_le (put_le
       ((put_bytes ((put_bytes (write_binding (capsule_head r) 16 (tl_binding r)) 196 (bt_nonce (tl_armed_boot r)))
          [212 := bool_byte (bt_verified (tl_armed_boot r))]) 213 (bt_nonce (tl_claimed_boot r)))
          [229 := bool_byte (bt_verified (tl_claimed_boot r))])
       232 (tl_armed_ms r) 8) 240 (tl_handoff_ms r) 8) 248 (tl_claim_ms r) 8) 256 (tl_evidence r)"
  by (simp add: capsule_image_def capsule_head_def Let_def)

lemma length_capsule_head [simp]: "length (capsule_head r) = 1536"
  by (simp add: capsule_head_def)

lemma capsule_head_fields:
  "get_le (capsule_head r) 0 4 = (0x314d4347 :: u32)" "get_le (capsule_head r) 4 2 = (1 :: u32)"
  "get_le (capsule_head r) 6 2 = (288 :: u32)" "get_le (capsule_head r) 8 2 = tl_schema r"
  "capsule_head r ! 10 = phase_code (tl_phase r)" "capsule_head r ! 11 = capture_code (tl_capture r)"
  "get_le (capsule_head r) 12 4 = tl_sequence r"
  "16 \<le> i \<Longrightarrow> i < 1536 \<Longrightarrow> capsule_head r ! i = 0"
  by (simp_all add: capsule_head_def codec_simps del: get_le.simps)

lemma capsule_image_front:
  "i < 196 \<Longrightarrow> capsule_image r ! i = write_binding (capsule_head r) 16 (tl_binding r) ! i"
  by (simp add: capsule_image_split nth_put_bytes_other nth_put_le_other)

lemma agree_fields:
  assumes "agree v w a b" "a \<le> q" "q + n \<le> b"
  shows "(get_le v q n :: 'a::len word) = get_le w q n" "get_bytes v q n = get_bytes w q n"
  using assms by (auto simp: agree_def intro!: get_le_cong nth_equalityI)

lemma read_binding_cong:
  assumes "agree v w p (p + 180)"
  shows "read_binding v p = read_binding w p"
proof -
  have "v ! (p + 10) = w ! (p + 10)" "v ! (p + 11) = w ! (p + 11)" using assms by (simp_all add: agree_def)
  then show ?thesis unfolding read_binding_def
    by (cases "recovery_of (w ! (p + 11))") (simp_all add: agree_fields[OF assms] del: get_le.simps)
qed

lemma capsule_read_image:
  assumes "trial_arrays r"
  shows "capsule_read (capsule_image r) = Some r"
proof -
  have b: "binding_arrays (tl_binding r)" using assms by (simp add: trial_arrays_def)
  have "read_binding (capsule_image r) 16 = read_binding (write_binding (capsule_head r) 16 (tl_binding r)) 16"
    by (rule read_binding_cong) (simp add: agree_def capsule_image_front)
  then have "read_binding (capsule_image r) 16 = Some (tl_binding r)" using read_write_binding[OF b, of 16 "capsule_head r"] by simp
  then show ?thesis using assms b
    by (simp add: capsule_read_def capsule_image_split trial_arrays_def codec_simps write_binding_other
        write_binding_nth capsule_head_fields nth_put_bytes_other nth_put_le_other del: get_le.simps)
qed

lemma capsule_image_fields:
  assumes "trial_arrays r"
  shows "get_le (capsule_image r) 0 4 = (0x314d4347 :: u32)" "get_le (capsule_image r) 4 2 = (1 :: u32)"
    "get_le (capsule_image r) 6 2 = (288 :: u32)" "capsule_image r ! 212 = bool_byte (bt_verified (tl_armed_boot r))"
    "capsule_image r ! 229 = bool_byte (bt_verified (tl_claimed_boot r))" "capsule_image r ! 230 = 0"
    "capsule_image r ! 231 = 0" "zeros (capsule_image r) 288 1536"
  using assms
  by (simp_all add: capsule_image_split trial_arrays_def codec_simps write_binding_other write_binding_nth zeros_iff
      capsule_head_fields nth_put_bytes_other nth_put_le_other del: get_le.simps)

lemma capsule_decode_encode:
  assumes "trial_arrays r" "capsule_encode r expected digest = Some x"
  shows "capsule_decode x expected digest = Some r"
proof -
  have x: "x = capsule_record r digest" "cold_shape x" "canonical r" "valid_binding expected"
    "same_trial_binding (tl_binding r) expected" "nonzero digest"
    using assms(2) by (auto simp: capsule_encode_def split: if_splits)
  then show ?thesis
    using capsule_image_fields[OF assms(1)] capsule_read_image[OF assms(1)]
    by (simp add: capsule_decode_def capsule_record_def del: get_le.simps)
qed

lemma capsule_read_fields:
  assumes "capsule_read p = Some r"
  shows "p ! 10 = phase_code (tl_phase r)" "p ! 11 = capture_code (tl_capture r)"
    "read_binding p 16 = Some (tl_binding r)" "get_le p 8 2 = tl_schema r" "get_le p 12 4 = tl_sequence r"
    "get_bytes p 196 16 = bt_nonce (tl_armed_boot r)" "p ! 212 \<noteq> 0 \<longleftrightarrow> bt_verified (tl_armed_boot r)"
    "get_bytes p 213 16 = bt_nonce (tl_claimed_boot r)" "p ! 229 \<noteq> 0 \<longleftrightarrow> bt_verified (tl_claimed_boot r)"
    "get_le p 232 8 = tl_armed_ms r" "get_le p 240 8 = tl_handoff_ms r" "get_le p 248 8 = tl_claim_ms r"
    "get_bytes p 256 32 = tl_evidence r"
  using assms unfolding capsule_read_def
  by (auto dest: phase_of_eq capture_of_eq simp del: get_le.simps split: option.splits)

lemma guard_Some: "(if c then None else x) = Some y \<longleftrightarrow> \<not> c \<and> x = Some y"
  by simp

lemma capsule_decode_fields:
  assumes "capsule_decode x expected digest = Some r"
  shows "cold_shape x" "cold_size x = 288" "valid_binding expected" "nonzero digest" "cold_binding x = digest"
    "get_le (cold_payload x) 0 4 = (0x314d4347 :: u32)" "get_le (cold_payload x) 4 2 = (1 :: u32)"
    "get_le (cold_payload x) 6 2 = (288 :: u32)"
    "cold_payload x ! 212 = bool_byte (bt_verified (tl_armed_boot r))"
    "cold_payload x ! 229 = bool_byte (bt_verified (tl_claimed_boot r))"
    "cold_payload x ! 230 = 0" "cold_payload x ! 231 = 0" "capsule_read (cold_payload x) = Some r"
    "cold_sequence x = ucast (tl_sequence r)" "cold_phase x = phase_code (tl_phase r)"
    "cold_nonce x = bi_nonce (tl_binding r)" "same_trial_binding (tl_binding r) expected" "canonical r"
proof -
  obtain t where t: "capsule_read (cold_payload x) = Some t"
    using assms unfolding capsule_decode_def Let_def guard_Some by (cases "capsule_read (cold_payload x)") simp_all
  note d = assms[unfolded capsule_decode_def Let_def guard_Some de_Morgan_disj not_not t option.case]
  have tr: "t = r" using d by (elim conjE) (simp only: option.inject)
  note d = d[unfolded tr]
  show "cold_shape x" "cold_size x = 288" "valid_binding expected" "nonzero digest" "cold_binding x = digest"
    "get_le (cold_payload x) 0 4 = (0x314d4347 :: u32)" "get_le (cold_payload x) 4 2 = (1 :: u32)"
    "get_le (cold_payload x) 6 2 = (288 :: u32)" "cold_payload x ! 230 = 0" "cold_payload x ! 231 = 0"
    "cold_sequence x = ucast (tl_sequence r)"
    "cold_phase x = phase_code (tl_phase r)" "cold_nonce x = bi_nonce (tl_binding r)"
    "same_trial_binding (tl_binding r) expected" "canonical r"
    using d by - (elim conjE, assumption)+
  show c: "capsule_read (cold_payload x) = Some r" using t tr by simp
  have b: "\<not> 1 < cold_payload x ! 212" "\<not> 1 < cold_payload x ! 229"
    using d by - (elim conjE, assumption)+
  show "cold_payload x ! 212 = bool_byte (bt_verified (tl_armed_boot r))"
    using bool_byte_eq[OF b(1)] unfolding capsule_read_fields(7)[OF c] .
  show "cold_payload x ! 229 = bool_byte (bt_verified (tl_claimed_boot r))"
    using bool_byte_eq[OF b(2)] unfolding capsule_read_fields(9)[OF c] .
qed

lemma capsule_decode_inj:
  assumes x: "capsule_decode x expected digest = Some r" "cold_arrays x"
    and y: "capsule_decode y expected digest = Some r" "cold_arrays y"
  shows "x = y"
proof (rule cold_record.equality)
  let ?p = "cold_payload x" and ?q = "cold_payload y"
  note f = capsule_decode_fields[OF x(1)] and g = capsule_decode_fields[OF y(1)]
  note u = capsule_read_fields[OF f(13)] and v = capsule_read_fields[OF g(13)]
  have "agree ?p ?q 0 4" by (rule agree_le[where ?'a = 32]) (simp_all add: f g del: get_le.simps)
  also have "agree ?p ?q 4 6" by (rule agree_le[where ?'a = 32]) (simp_all add: f g del: get_le.simps)
  also have "agree ?p ?q 6 8" by (rule agree_le[where ?'a = 32]) (simp_all add: f g del: get_le.simps)
  also have "agree ?p ?q 8 10" by (rule agree_le[where ?'a = 16]) (simp_all add: u v del: get_le.simps)
  also have "agree ?p ?q 10 11" by (rule agree_nth) (simp_all add: u v)
  also have "agree ?p ?q 11 12" by (rule agree_nth) (simp_all add: u v)
  also have "agree ?p ?q 12 16" by (rule agree_le[where ?'a = 32]) (simp_all add: u v del: get_le.simps)
  also have "agree ?p ?q 16 196" using read_binding_agree[OF u(3) v(3)] by simp
  also have "agree ?p ?q 196 212" by (rule agree_bytes) (simp_all add: u v)
  also have "agree ?p ?q 212 213" by (rule agree_nth) (simp_all add: f g)
  also have "agree ?p ?q 213 229" by (rule agree_bytes) (simp_all add: u v)
  also have "agree ?p ?q 229 230" by (rule agree_nth) (simp_all add: f g)
  also have "agree ?p ?q 230 231" by (rule agree_nth) (simp_all add: f g)
  also have "agree ?p ?q 231 232" by (rule agree_nth) (simp_all add: f g)
  also have "agree ?p ?q 232 240" by (rule agree_le[where ?'a = 64]) (simp_all add: u v del: get_le.simps)
  also have "agree ?p ?q 240 248" by (rule agree_le[where ?'a = 64]) (simp_all add: u v del: get_le.simps)
  also have "agree ?p ?q 248 256" by (rule agree_le[where ?'a = 64]) (simp_all add: u v del: get_le.simps)
  also have "agree ?p ?q 256 288" by (rule agree_bytes) (simp_all add: u v)
  also have "agree ?p ?q 288 1536" using f(1,2) g(1,2) by (intro agree_zeros) (simp_all add: cold_shape_def)
  finally show "?p = ?q" using x(2) y(2) by (intro agree_all) (simp_all add: cold_arrays_def)
qed (use capsule_decode_fields[OF x(1)] capsule_decode_fields[OF y(1)] in simp_all)

lemma capsule_read_arrays: "capsule_read p = Some r \<Longrightarrow> trial_arrays r"
  by (auto simp: capsule_read_def read_binding_def trial_arrays_def binding_arrays_def simp del: get_le.simps
      split: option.splits)

lemma ucast_u32_zero: "(ucast (s :: u32) :: u64) = 0 \<longleftrightarrow> s = 0"
proof
  assume z: "(ucast s :: u64) = 0"
  have "s = ucast (ucast s :: u64)" by (simp add: ucast_ucast_up)
  then show "s = 0" using z by simp
qed simp

lemma capsule_record_shape:
  assumes "canonical r" "nonzero digest" "trial_arrays r"
  shows "cold_shape (capsule_record r digest)"
proof -
  have "trial_shape r" using assms(1) by (simp add: canonical_def split: if_splits)
  then have "tl_sequence r \<noteq> 0" "valid_binding (tl_binding r)" by (rule shape_basic)+
  moreover have "phase_code (tl_phase r) \<noteq> 0" by (cases "tl_phase r") (simp_all add: phase_code_def)
  moreover from calculation(2) have "nonzero (bi_nonce (tl_binding r))" by (simp add: valid_binding_def split: if_splits)
  ultimately show ?thesis using assms(2) capsule_image_fields(8)[OF assms(3)]
    by (simp add: cold_shape_def capsule_record_def ucast_u32_zero)
qed

text \<open>C23: The metadata codec is canonical: a record of the two-page store is accepted as a trial record exactly when
  it is the encoding of that trial record for the same expected binding and digest. So what was encoded is read
  back field by field, and no reserved byte, unknown enum value, foreign binding or spare payload is accepted.\<close>

theorem capsule_canonical:
  "(cold_arrays x \<and> capsule_decode x expected digest = Some r) =
   (trial_arrays r \<and> length digest = 32 \<and> capsule_encode r expected digest = Some x)"
proof
  assume x: "cold_arrays x \<and> capsule_decode x expected digest = Some r"
  note f = capsule_decode_fields[OF conjunct2[OF x]]
  have r: "trial_arrays r" by (rule capsule_read_arrays[OF f(13)])
  have digest: "length digest = 32" using x f(5) by (auto simp: cold_arrays_def)
  have e: "capsule_encode r expected digest = Some (capsule_record r digest)"
    using capsule_record_shape[OF f(18,4) r] f by (simp add: capsule_encode_def del: get_le.simps)
  have a: "cold_arrays (capsule_record r digest)"
    using r digest by (simp add: cold_arrays_def capsule_record_def trial_arrays_def binding_arrays_def)
  show "trial_arrays r \<and> length digest = 32 \<and> capsule_encode r expected digest = Some x"
    using capsule_decode_inj[OF conjunct2[OF x] conjunct1[OF x] capsule_decode_encode[OF r e] a] r digest e by simp
next
  assume x: "trial_arrays r \<and> length digest = 32 \<and> capsule_encode r expected digest = Some x"
  then have "x = capsule_record r digest" by (auto simp: capsule_encode_def split: if_splits)
  then have "cold_arrays x"
    using x by (simp add: cold_arrays_def capsule_record_def trial_arrays_def binding_arrays_def)
  then show "cold_arrays x \<and> capsule_decode x expected digest = Some r"
    using capsule_decode_encode x by blast
qed

end
