(* ===== verification/Gauge_Reads.thy ===== *)
theory Gauge_Reads
  imports Crc_Seal Prelude_Words
begin

unbundle bit_operations_syntax

text \<open>
  The read-only diagnostics of the BQ27220 gauge (\<open>main/hal/mosaico/mosaico_gauge_engine_model.h\<close>,
  \<open>mosaico_gauge_status_model.h\<close>, \<open>mosaico_gauge_unit_tag.h\<close>). The bus is a template argument of the
  code and a parameter here: a transport of exact-length writes and reads and a delay.
\<close>

section \<open>The bus\<close>

record 's gauge_bus =
  gb_transmit :: "bytes \<Rightarrow> 's \<Rightarrow> bool \<times> 's"
  gb_read :: "u8 \<Rightarrow> nat \<Rightarrow> 's \<Rightarrow> bytes option \<times> 's"
  gb_delay :: "nat \<Rightarrow> 's \<Rightarrow> 's"

section \<open>Snapshots\<close>

record unit_tag =
  ut_factor :: int
  ut_epoch :: u64
  ut_generation :: u64
  ut_verified :: bool
  ut_phase :: u8

record engine_snapshot =
  es_sampled :: u64
  es_mask :: u16
  es_echo73 :: u16
  es_echo76 :: u16
  es_echo02 :: u16
  es_phase :: u8
  es_outcome :: u8
  es_cedv :: bytes
  es_smooth :: bytes
  es_identity :: bytes
  es_units :: unit_tag

record status_snapshot =
  ss_sampled :: u64
  ss_mask :: u32
  ss_soc :: u16
  ss_remaining :: u16
  ss_full :: u16
  ss_design :: u16
  ss_mv :: u16
  ss_current :: int
  ss_average :: int
  ss_coulomb :: u16
  ss_cycles :: u16
  ss_operation :: u16
  ss_battery :: u16
  ss_gauging :: u16
  ss_echo :: u16
  ss_phase :: u8
  ss_outcome :: u8
  ss_mode :: u8
  ss_reserved :: u8
  ss_units :: unit_tag

section \<open>The engine blocks\<close>

definition startup_deferred :: "bool \<Rightarrow> u64 \<Rightarrow> bool" where
  "startup_deferred enabled uptime \<longleftrightarrow> enabled \<and> uptime < 300000"

definition le_word :: "bytes \<Rightarrow> nat \<Rightarrow> u16" where
  "le_word p o' = ucast (p ! o') OR push_bit 8 (ucast (p ! (o' + 1)))"

definition be_word :: "bytes \<Rightarrow> nat \<Rightarrow> u16" where
  "be_word p o' = push_bit 8 (ucast (p ! o')) OR ucast (p ! (o' + 1))"

text \<open>
  \<open>detail::block\<close>: one MAC read. It returns the answer, the bytes, the echo and the flags; bytes of a
  failed read are discarded.
\<close>

definition mac_block ::
  "'s gauge_bus \<Rightarrow> u8 \<Rightarrow> nat \<Rightarrow> u16 \<Rightarrow> u16 \<Rightarrow> u16 \<Rightarrow> u16 \<Rightarrow> 's \<Rightarrow> (bool \<times> bytes \<times> u16 \<times> u16) \<times> 's" where
  "mac_block bus sel n tx echoed dat flags s =
     (case gb_transmit bus [0, sel, 0] s of
        (False, s1) \<Rightarrow> ((False, replicate n 0, 0, flags), s1)
      | (True, s1) \<Rightarrow>
     (case gb_read bus 0x3e 2 (gb_delay bus 20 s1) of (e, s2) \<Rightarrow>
     (case gb_read bus 0x40 n s2 of (d, s3) \<Rightarrow>
        let echo = (case e of None \<Rightarrow> 0 | Some b \<Rightarrow> le_word b 0);
            out = (case d of None \<Rightarrow> replicate n 0 | Some b \<Rightarrow> b);
            flags' = (flags OR tx) OR (case e of None \<Rightarrow> 0 | Some _ \<Rightarrow> echoed) OR
              (case d of None \<Rightarrow> 0 | Some _ \<Rightarrow> dat) in
        ((flags' AND (tx OR echoed OR dat) = tx OR echoed OR dat \<and> echo = ucast sel, out, echo, flags'), s3))))"

definition definition_match :: "bytes \<Rightarrow> bool" where
  "definition_match p \<longleftrightarrow> be_word p 0 = 0x0220 \<and> be_word p 2 = 3 \<and> be_word p 4 = 4"

definition engine_read :: "'s gauge_bus \<Rightarrow> engine_snapshot \<Rightarrow> 's \<Rightarrow> (bool \<times> engine_snapshot) \<times> 's" where
  "engine_read bus r s =
     (case mac_block bus 2 11 1024 2048 4096 0 s of ((ok1, identity, echo02, m1), s1) \<Rightarrow>
        let m1 = (if ok1 then m1 OR 4 else m1);
            m1 = (if m1 AND 4 \<noteq> 0 \<and> definition_match identity then m1 OR 8 else m1) in
     (case mac_block bus 0x73 23 16 32 64 m1 s1 of ((ok2, cedv, echo73, m2), s2) \<Rightarrow>
        let m2 = (if ok2 then m2 OR 1 else m2) in
     (case mac_block bus 0x76 17 128 256 512 m2 s2 of ((ok3, smooth, echo76, m3), s3) \<Rightarrow>
        let m3 = (if ok3 then m3 OR 2 else m3) in
        ((m3 AND 11 = 11,
          r\<lparr>es_mask := m3, es_identity := identity, es_echo02 := echo02, es_cedv := cedv, es_echo73 := echo73,
            es_smooth := smooth, es_echo76 := echo76\<rparr>), s3))))"

section \<open>The gauging status\<close>

datatype gauge_mode = GM_Unknown | GM_Charging | GM_Relax | GM_Discharge

definition decode_mode :: "u16 \<Rightarrow> u16 \<Rightarrow> gauge_mode" where
  "decode_mode gauging battery =
     (let mac_dsg = gauging AND 0x0040 \<noteq> 0; batt_dsg = battery AND 0x0001 \<noteq> 0 in
      if mac_dsg then if batt_dsg then GM_Discharge else GM_Relax
      else if batt_dsg then GM_Unknown else GM_Charging)"

definition mode_name :: "gauge_mode \<Rightarrow> string" where
  "mode_name m = (if m = GM_Charging then ''charging'' else if m = GM_Relax then ''relax''
     else if m = GM_Discharge then ''discharge'' else ''unknown'')"

text \<open>\<open>decodeResponse\<close>: the answer and the value; a null pointer is \<open>None\<close>.\<close>

definition decode_response :: "bytes option \<Rightarrow> bool \<times> u16" where
  "decode_response p =
     (case p of None \<Rightarrow> (False, 0)
      | Some b \<Rightarrow> if length b \<noteq> 4 \<or> b ! 0 \<noteq> 0x56 \<or> b ! 1 \<noteq> 0 then (False, 0) else (True, le_word b 2))"

definition read_gauging_status :: "'s gauge_bus \<Rightarrow> 's \<Rightarrow> (bool \<times> u16 \<times> u16 \<times> u32) \<times> 's" where
  "read_gauging_status bus s =
     (case gb_transmit bus [0, 0x56, 0] s of
        (False, s1) \<Rightarrow> ((False, 0, 0, 0), s1)
      | (True, s1) \<Rightarrow>
     (case gb_read bus 0x3e 2 (gb_delay bus 20 s1) of (e, s2) \<Rightarrow>
     (case gb_read bus 0x40 2 s2 of (d, s3) \<Rightarrow>
        let echo = (case e of None \<Rightarrow> 0 | Some b \<Rightarrow> le_word b 0);
            val = (case d of None \<Rightarrow> 0 | Some b \<Rightarrow> le_word b 0);
            flags = 0x10000 OR (case e of None \<Rightarrow> 0 | Some _ \<Rightarrow> 0x20000) OR
              (case d of None \<Rightarrow> 0 | Some _ \<Rightarrow> 0x40000) in
        ((flags = 0x70000 \<and> echo = 0x0056, val, echo, flags), s3))))"

section \<open>What the reads promise\<close>

text \<open>A bus that also remembers every packet it was given.\<close>

definition logged :: "'s gauge_bus \<Rightarrow> ('s \<times> bytes list) gauge_bus" where
  "logged bus = \<lparr>gb_transmit = (\<lambda>p (s, l). case gb_transmit bus p s of (ok, s') \<Rightarrow> (ok, s', l @ [p])),
     gb_read = (\<lambda>r n (s, l). case gb_read bus r n s of (d, s') \<Rightarrow> (d, s', l)),
     gb_delay = (\<lambda>n (s, l). (gb_delay bus n s, l))\<rparr>"

lemma mac_block_logged:
  "snd (snd (mac_block (logged bus) sel n tx echoed dat flags (s, l))) = l @ [[0, sel, 0]]"
  by (simp add: mac_block_def logged_def Let_def split: prod.split bool.split)

lemma mac_block_packet:
  "mac_block (logged bus) sel n tx echoed dat flags (s, l) = (result, s', l') \<Longrightarrow> l' = l @ [[0, sel, 0]]"
  using mac_block_logged by (metis snd_conv)

text \<open>The diagnostics are read-only: whatever the gauge answers, reading the engine sends exactly the three
  selector packets for identity, CEDV and smoothing, and reading the status sends exactly its own, so no key, no
  write and no data-memory access can leave through them.\<close>

theorem gauge_reads_only:
  "snd (snd (engine_read (logged bus) r (s, []))) = [[0, 2, 0], [0, 0x73, 0], [0, 0x76, 0]] \<and>
   snd (snd (read_gauging_status (logged bus) (s, []))) = [[0, 0x56, 0]]"
proof
  obtain ok1 d1 e1 f1 s1 l1 where 1: "mac_block (logged bus) 2 11 1024 2048 4096 0 (s, []) = ((ok1, d1, e1, f1), s1, l1)"
    by (metis surj_pair)
  define m1 where "m1 = (let m = (if ok1 then f1 OR 4 else f1) in if m AND 4 \<noteq> 0 \<and> definition_match d1 then m OR 8 else m)"
  obtain ok2 d2 e2 f2 s2 l2 where 2: "mac_block (logged bus) 0x73 23 16 32 64 m1 (s1, l1) = ((ok2, d2, e2, f2), s2, l2)"
    by (metis surj_pair)
  obtain ok3 d3 e3 f3 s3 l3 where 3: "mac_block (logged bus) 0x76 17 128 256 512 (if ok2 then f2 OR 1 else f2) (s2, l2) = ((ok3, d3, e3, f3), s3, l3)"
    by (metis surj_pair)
  have l: "l1 = [[0, 2, 0]]" "l2 = l1 @ [[0, 0x73, 0]]" "l3 = l2 @ [[0, 0x76, 0]]"
    using mac_block_packet[OF 1] mac_block_packet[OF 2] mac_block_packet[OF 3] by simp_all
  show "snd (snd (engine_read (logged bus) r (s, []))) = [[0, 2, 0], [0, 0x73, 0], [0, 0x76, 0]]"
    using 2 3 by (simp add: engine_read_def 1 m1_def Let_def l)
  show "snd (snd (read_gauging_status (logged bus) (s, []))) = [[0, 0x56, 0]]"
    by (simp add: read_gauging_status_def logged_def Let_def split: prod.split bool.split)
qed

end
