(* ===== verification/Cold_Evidence.thy ===== *)
theory Cold_Evidence
  imports Gauge_Reads Cold_Store
begin

text \<open>
  The raw evidence frames of the gauge trial (\<open>main/hal/mosaico/mosaico_gauge_cold_evidence_model.h\<close>): a
  256-byte sealed wire image of one status and one engine snapshot. A signed 16-bit reading is an
  \<open>int\<close> in range.
\<close>

section \<open>Frames\<close>

datatype evidence_kind = EK_Initial | EK_Final | EK_Failure

definition kind_code :: "evidence_kind \<Rightarrow> u8" where
  "kind_code k = (case k of EK_Initial \<Rightarrow> 1 | EK_Final \<Rightarrow> 2 | EK_Failure \<Rightarrow> 3)"

text \<open>\<open>Kind(byte)\<close>; the values outside the enum are refused by \<open>shape\<close>.\<close>

definition kind_of :: "u8 \<Rightarrow> evidence_kind option" where
  "kind_of b = (if b = 1 then Some EK_Initial else if b = 2 then Some EK_Final else if b = 3 then Some EK_Failure else None)"

record evidence_frame =
  ef_kind :: evidence_kind
  ef_nonce :: bytes
  ef_reset :: u32
  ef_error :: u32
  ef_standard :: status_snapshot
  ef_engine :: engine_snapshot

definition unit_shape :: "unit_tag \<Rightarrow> bool" where
  "unit_shape t \<longleftrightarrow> ut_factor t = 0 \<and> \<not> ut_verified t \<and> ut_phase t \<le> 4"

definition frame_shape :: "evidence_frame \<Rightarrow> bool" where
  "frame_shape f \<longleftrightarrow> nonzero (ef_nonce f) \<and> kind_code (ef_kind f) \<ge> 1 \<and> kind_code (ef_kind f) \<le> 3 \<and>
     ss_phase (ef_standard f) \<le> 4 \<and> ss_mode (ef_standard f) \<le> 3 \<and> ss_reserved (ef_standard f) = 0 \<and>
     es_phase (ef_engine f) \<le> 4 \<and> unit_shape (ss_units (ef_standard f)) \<and> unit_shape (es_units (ef_engine f))"

text \<open>The array lengths and the range of \<open>int16_t\<close> of the struct.\<close>

definition int16 :: "int \<Rightarrow> bool" where
  "int16 v \<longleftrightarrow> - 32768 \<le> v \<and> v \<le> 32767"

definition frame_arrays :: "evidence_frame \<Rightarrow> bool" where
  "frame_arrays f \<longleftrightarrow> length (ef_nonce f) = 16 \<and> length (es_cedv (ef_engine f)) = 23 \<and>
     length (es_smooth (ef_engine f)) = 17 \<and> length (es_identity (ef_engine f)) = 11 \<and>
     int16 (ss_current (ef_standard f)) \<and> int16 (ss_average (ef_standard f))"

section \<open>The codec\<close>

definition put_tag :: "bytes \<Rightarrow> nat \<Rightarrow> unit_tag \<Rightarrow> bytes" where
  "put_tag w p t = (put_le (put_le w p (ut_epoch t) 8) (p + 8) (ut_generation t) 8)[p + 16 := ut_phase t]"

definition get_tag :: "bytes \<Rightarrow> nat \<Rightarrow> unit_tag" where
  "get_tag w p = \<lparr>ut_factor = 0, ut_epoch = get_le w p 8, ut_generation = get_le w (p + 8) 8, ut_verified = False,
     ut_phase = w ! (p + 16)\<rparr>"

definition signed_word :: "u16 \<Rightarrow> int" where
  "signed_word v = (if v \<ge> 0x8000 then uint v - 65536 else uint v)"

fun put_words :: "bytes \<Rightarrow> nat \<Rightarrow> u16 list \<Rightarrow> bytes" where
  "put_words w p [] = w"
| "put_words w p (v # vs) = put_words (put_le w p v 2) (p + 2) vs"

definition status_words :: "status_snapshot \<Rightarrow> u16 list" where
  "status_words s = [ss_soc s, ss_remaining s, ss_full s, ss_design s, ss_mv s, word_of_int (ss_current s),
     word_of_int (ss_average s), ss_coulomb s, ss_cycles s, ss_operation s, ss_battery s, ss_gauging s, ss_echo s]"

text \<open>The image before it is sealed.\<close>

definition ev_image :: "evidence_frame \<Rightarrow> bytes" where
  "ev_image f = (let s = ef_standard f; e = ef_engine f;
            w = put_le (put_le (put_le (replicate 256 0) 0 (0x31454347 :: u32) 4) 4 (1 :: u32) 2) 6 (256 :: u32) 2;
            w = (put_le w 8 (ef_reset f) 4)[12 := kind_code (ef_kind f)];
            w = put_bytes w 16 (ef_nonce f);
            w = put_le (put_le w 32 (ss_sampled s) 8) 40 (ss_mask s) 4;
            w = put_words w 44 (status_words s);
            w = put_tag (w[70 := ss_phase s, 71 := ss_outcome s, 72 := ss_mode s]) 74 (ss_units s);
            w = put_le (put_le w 96 (es_sampled e) 8) 104 (es_mask e) 2;
            w = put_le (put_le (put_le w 106 (es_echo73 e) 2) 108 (es_echo76 e) 2) 110 (es_echo02 e) 2;
            w = w[112 := es_phase e, 113 := es_outcome e];
            w = put_bytes (put_bytes (put_bytes w 114 (es_cedv e)) 137 (es_smooth e)) 154 (es_identity e)
          in put_le (put_tag w 168 (es_units e)) 188 (ef_error f) 4)"

definition ev_encode :: "evidence_frame \<Rightarrow> bytes option" where
  "ev_encode f = (if \<not> frame_shape f then None else Some (seal (ev_image f) 252))"

definition ev_read :: "bytes \<Rightarrow> evidence_kind \<Rightarrow> evidence_frame" where
  "ev_read w k =
     \<lparr>ef_kind = k, ef_nonce = get_bytes w 16 16, ef_reset = get_le w 8 4, ef_error = get_le w 188 4,
      ef_standard =
        \<lparr>ss_sampled = get_le w 32 8, ss_mask = get_le w 40 4, ss_soc = get_le w 44 2, ss_remaining = get_le w 46 2,
         ss_full = get_le w 48 2, ss_design = get_le w 50 2, ss_mv = get_le w 52 2,
         ss_current = signed_word (get_le w 54 2), ss_average = signed_word (get_le w 56 2),
         ss_coulomb = get_le w 58 2, ss_cycles = get_le w 60 2, ss_operation = get_le w 62 2,
         ss_battery = get_le w 64 2, ss_gauging = get_le w 66 2, ss_echo = get_le w 68 2,
         ss_phase = w ! 70, ss_outcome = w ! 71, ss_mode = w ! 72, ss_reserved = 0, ss_units = get_tag w 74\<rparr>,
      ef_engine =
        \<lparr>es_sampled = get_le w 96 8, es_mask = get_le w 104 2, es_echo73 = get_le w 106 2, es_echo76 = get_le w 108 2,
         es_echo02 = get_le w 110 2, es_phase = w ! 112, es_outcome = w ! 113, es_cedv = get_bytes w 114 23,
         es_smooth = get_bytes w 137 17, es_identity = get_bytes w 154 11, es_units = get_tag w 168\<rparr>\<rparr>"

definition ev_decode :: "bytes \<Rightarrow> evidence_frame option" where
  "ev_decode w =
     (if get_le w 0 4 \<noteq> (0x31454347 :: u32) \<or> get_le w 4 2 \<noteq> (1 :: u32) \<or> get_le w 6 2 \<noteq> (256 :: u32) \<or>
         \<not> sealed w 252
      then None
      else case kind_of (w ! 12) of
        None \<Rightarrow> None
      | Some k \<Rightarrow> if ev_encode (ev_read w k) = Some w then Some (ev_read w k) else None)"

section \<open>Round trip\<close>

lemma signed_word_range: "int16 (signed_word v)"
proof -
  have "0 \<le> uint v" "uint v < 65536" using uint_lt2p[of v] by simp_all
  moreover from this have "- 32768 \<le> uint v" by linarith
  ultimately show ?thesis unfolding int16_def signed_word_def word_le_def by (cases "32768 \<le> uint v") simp_all
qed

lemma signed_word_inverse: "int16 v \<Longrightarrow> signed_word (word_of_int v) = v"
proof -
  assume v: "int16 v"
  have "uint (word_of_int v :: u16) = v mod 65536" by (simp add: uint_word_of_int)
  moreover have "v mod 65536 = (if v < 0 then v + 65536 else v)"
  proof (cases "v < 0")
    case True
    have "v mod 65536 = (v + 65536) mod 65536" by simp
    also have "\<dots> = v + 65536" using v True by (intro mod_pos_pos_trivial) (simp_all add: int16_def)
    finally show ?thesis using True by simp
  next
    case False
    then show ?thesis using v by (simp add: int16_def mod_pos_pos_trivial)
  qed
  ultimately show ?thesis using v by (auto simp: signed_word_def int16_def word_le_def)
qed

lemma kind_of_code [simp]: "kind_of (kind_code k) = Some k"
  by (cases k) (simp_all add: kind_of_def kind_code_def)

lemma kind_of_eq: "kind_of b = Some k \<longleftrightarrow> b = kind_code k"
  by (cases k) (auto simp: kind_of_def kind_code_def split: if_splits)

lemma length_put_words [simp]: "length (put_words w p vs) = length w"
  by (induction w p vs rule: put_words.induct) simp_all

lemma length_put_tag [simp]: "length (put_tag w p t) = length w"
  by (simp add: put_tag_def)

lemma nth_put_words_other [codec_simps]: "i < p \<or> p + 2 * length vs \<le> i \<Longrightarrow> put_words w p vs ! i = w ! i"
  by (induction w p vs rule: put_words.induct) (auto simp: nth_put_le_other)

lemma get_le_put_words_other [codec_simps]:
  "p + n \<le> q \<or> q + 2 * length vs \<le> p \<Longrightarrow> get_le (put_words w q vs) p n = get_le w p n"
  by (rule get_le_cong) (auto simp: codec_simps)

lemma get_bytes_put_words_other [codec_simps]:
  "p + n \<le> q \<or> q + 2 * length vs \<le> p \<Longrightarrow> get_bytes (put_words w q vs) p n = get_bytes w p n"
  by (rule nth_equalityI) (auto simp: codec_simps)

lemma get_le_put_words [codec_simps]:
  "i < length vs \<Longrightarrow> p + 2 * length vs \<le> length w \<Longrightarrow> get_le (put_words w p vs) (p + 2 * i) 2 = (vs ! i :: u16)"
proof (induction w p vs arbitrary: i rule: put_words.induct)
  case (2 w p v vs)
  show ?case
  proof (cases i)
    case 0
    then show ?thesis using 2 by (simp add: codec_simps del: get_le.simps)
  next
    case (Suc k)
    then show ?thesis using 2(1)[of k] 2(2,3) by (simp add: add.assoc del: get_le.simps)
  qed
qed simp

lemma put_tag_other [codec_simps]:
  "i < p \<or> p + 17 \<le> i \<Longrightarrow> put_tag w p t ! i = w ! i"
  "p + n \<le> q \<or> q + 17 \<le> p \<Longrightarrow> get_le (put_tag w q t) p n = get_le w p n"
  "p + n \<le> q \<or> q + 17 \<le> p \<Longrightarrow> get_bytes (put_tag w q t) p n = get_bytes w p n"
  by (auto simp: put_tag_def codec_simps nth_list_update)

lemma get_put_tag [codec_simps]:
  "p + 17 \<le> length w \<Longrightarrow> unit_shape t \<Longrightarrow> get_tag (put_tag w p t) p = t"
  by (simp add: get_tag_def put_tag_def unit_shape_def codec_simps)

lemma get_tag_other [codec_simps]:
  "p + 17 \<le> q \<or> q + k \<le> p \<Longrightarrow> get_tag (put_le w q v k) p = get_tag w p"
  "p + 17 \<le> q \<or> q + length bs \<le> p \<Longrightarrow> get_tag (put_bytes w q bs) p = get_tag w p"
  "i < p \<or> p + 17 \<le> i \<Longrightarrow> get_tag (w[i := x]) p = get_tag w p"
  "p + 17 \<le> n \<Longrightarrow> get_tag (seal w n) p = get_tag w p"
  "p + 17 \<le> q \<or> q + 17 \<le> p \<Longrightarrow> get_tag (put_tag w q t) p = get_tag w p"
  by (auto simp: get_tag_def codec_simps)

lemma get_status_words:
  assumes "length w = 256"
  shows "get_le (put_words w 44 (status_words s)) 44 2 = ss_soc s"
    "get_le (put_words w 44 (status_words s)) 46 2 = ss_remaining s"
    "get_le (put_words w 44 (status_words s)) 48 2 = ss_full s"
    "get_le (put_words w 44 (status_words s)) 50 2 = ss_design s"
    "get_le (put_words w 44 (status_words s)) 52 2 = ss_mv s"
    "get_le (put_words w 44 (status_words s)) 54 2 = (word_of_int (ss_current s) :: u16)"
    "get_le (put_words w 44 (status_words s)) 56 2 = (word_of_int (ss_average s) :: u16)"
    "get_le (put_words w 44 (status_words s)) 58 2 = ss_coulomb s"
    "get_le (put_words w 44 (status_words s)) 60 2 = ss_cycles s"
    "get_le (put_words w 44 (status_words s)) 62 2 = ss_operation s"
    "get_le (put_words w 44 (status_words s)) 64 2 = ss_battery s"
    "get_le (put_words w 44 (status_words s)) 66 2 = ss_gauging s"
    "get_le (put_words w 44 (status_words s)) 68 2 = ss_echo s"
  using assms get_le_put_words[of 0 "status_words s" 44 w] get_le_put_words[of 1 "status_words s" 44 w]
    get_le_put_words[of 2 "status_words s" 44 w] get_le_put_words[of 3 "status_words s" 44 w]
    get_le_put_words[of 4 "status_words s" 44 w] get_le_put_words[of 5 "status_words s" 44 w]
    get_le_put_words[of 6 "status_words s" 44 w] get_le_put_words[of 7 "status_words s" 44 w]
    get_le_put_words[of 8 "status_words s" 44 w] get_le_put_words[of 9 "status_words s" 44 w]
    get_le_put_words[of 10 "status_words s" 44 w] get_le_put_words[of 11 "status_words s" 44 w]
    get_le_put_words[of 12 "status_words s" 44 w]
  by (simp_all add: status_words_def del: get_le.simps put_words.simps)

lemma length_status_words [simp]: "length (status_words s) = 13"
  by (simp add: status_words_def)

lemma length_ev_image [simp]: "length (ev_image f) = 256"
  by (simp add: ev_image_def Let_def)

lemma ev_image_header:
  assumes "frame_arrays f"
  shows "get_le (ev_image f) 0 4 = (0x31454347 :: u32)" "get_le (ev_image f) 4 2 = (1 :: u32)"
    "get_le (ev_image f) 6 2 = (256 :: u32)" "ev_image f ! 12 = kind_code (ef_kind f)"
    "get_bytes (ev_image f) 16 16 = ef_nonce f" "get_le (ev_image f) 8 4 = ef_reset f"
    "get_le (ev_image f) 188 4 = ef_error f"
  using assms
  by (simp_all add: ev_image_def frame_arrays_def codec_simps Let_def del: get_le.simps)

lemma ev_image_standard:
  assumes "frame_arrays f" "frame_shape f"
  shows "ef_standard (ev_read (ev_image f) k) = ef_standard f"
  using assms
  by (simp add: ev_read_def ev_image_def frame_arrays_def frame_shape_def codec_simps get_status_words Let_def
      signed_word_inverse del: get_le.simps)

lemma ev_image_engine:
  assumes "frame_arrays f" "frame_shape f"
  shows "ef_engine (ev_read (ev_image f) k) = ef_engine f"
  using assms
  by (simp add: ev_read_def ev_image_def frame_arrays_def frame_shape_def codec_simps Let_def del: get_le.simps)

lemma ev_read_seal:
  assumes "length w = 256"
  shows "ef_standard (ev_read (seal w 252) k) = ef_standard (ev_read w k)"
    "ef_engine (ev_read (seal w 252) k) = ef_engine (ev_read w k)"
  using assms by (simp_all add: ev_read_def codec_simps)

lemma ev_read_arrays: "frame_arrays (ev_read w k)"
  by (simp add: frame_arrays_def ev_read_def signed_word_range)

lemma ev_read_encode:
  assumes "frame_arrays f" "frame_shape f"
  shows "ev_read (seal (ev_image f) 252) (ef_kind f) = f"
proof (rule evidence_frame.equality)
  show "ef_standard (ev_read (seal (ev_image f) 252) (ef_kind f)) = ef_standard f"
    "ef_engine (ev_read (seal (ev_image f) 252) (ef_kind f)) = ef_engine f"
    using ev_read_seal[OF length_ev_image] ev_image_standard[OF assms] ev_image_engine[OF assms] by simp_all
qed (use ev_image_header[OF assms(1)] in \<open>simp_all add: ev_read_def codec_simps\<close>)

lemma ev_decode_sealed: "ev_decode w = Some f \<Longrightarrow> sealed w 252"
  by (simp add: ev_decode_def split: if_splits)

interpretation evidence_blob: sealed_blob 252 ev_decode
  by unfold_locales (rule ev_decode_sealed)

lemma ev_decode_encode: "frame_arrays f \<Longrightarrow> ev_encode f = Some w \<Longrightarrow> ev_decode w = Some f"
proof -
  assume a: "frame_arrays f" and e: "ev_encode f = Some w"
  then have s: "frame_shape f" and w: "w = seal (ev_image f) 252" by (simp_all add: ev_encode_def split: if_splits)
  have "sealed w 252" unfolding w by (rule sealed_seal) simp
  moreover have "w ! 12 = kind_code (ef_kind f)" unfolding w using ev_image_header[OF a] by (simp add: codec_simps)
  ultimately show ?thesis
    using e ev_image_header[OF a] ev_read_encode[OF a s] unfolding w
    by (simp add: ev_decode_def codec_simps del: get_le.simps)
qed

lemma ev_decode_sound: "ev_decode w = Some f \<Longrightarrow> frame_arrays f \<and> ev_encode f = Some w"
  by (auto simp: ev_decode_def ev_read_arrays split: if_splits option.splits)

text \<open>The evidence codec is canonical: a 256-byte image is accepted exactly when it is the encoding of the frame
  it yields: no two images carry the same evidence, no reserved byte or default is silently
  accepted, and every reading, complete or not, comes back unchanged.\<close>

theorem evidence_canonical:
  "(ev_decode w = Some f) = (frame_arrays f \<and> ev_encode f = Some w)"
  using ev_decode_encode ev_decode_sound by blast

lemma evidence_corrupt: "ev_encode f = Some w \<Longrightarrow> frame_arrays f \<Longrightarrow> i < 256 \<Longrightarrow> x \<noteq> w ! i \<Longrightarrow> ev_decode (w[i := x]) = None"
  using evidence_blob.corrupt_rejected[of w f i x] ev_decode_encode[of f w]
  by (auto simp: ev_encode_def split: if_splits)

end
