(* ===== verification/Wifi_Credentials.thy ===== *)
theory Wifi_Credentials
  imports Crc_Seal
begin

text \<open>
  Wi-Fi credentials (\<open>main/host/mosaico_wifi_settings_model.h\<close>): the validation of a network name
  (strict UTF-8 without controls) and a password, and the 108-byte blob they are stored in. A
  C string is a list of bytes that is read as if it ended in NUL bytes.
\<close>

section \<open>Strings\<close>

definition c_at :: "bytes \<Rightarrow> nat \<Rightarrow> u8" where
  "c_at s i = (if i < length s then s ! i else 0)"

definition c_str :: "bytes \<Rightarrow> bytes" where
  "c_str s = takeWhile (\<lambda>b. b \<noteq> 0) s"

text \<open>\<open>boundedLength\<close>: the loop stops at the first NUL or one past the maximum; a null pointer
  counts as too long.\<close>

definition bounded_length :: "bytes option \<Rightarrow> nat \<Rightarrow> nat" where
  "bounded_length s maximum = (case s of None \<Rightarrow> maximum + 1 | Some s \<Rightarrow> min (length (c_str s)) (maximum + 1))"

text \<open>\<open>count\<close>, \<open>cp\<close> and \<open>minimum\<close> of a lead byte of the UTF-8 loop.\<close>

definition utf8_lead :: "u8 \<Rightarrow> (nat \<times> u32 \<times> u32) option" where
  "utf8_lead c =
     (if c \<ge> 0xc2 \<and> c \<le> 0xdf then Some (1, ucast (c AND 31), 0x80)
      else if c \<ge> 0xe0 \<and> c \<le> 0xef then Some (2, ucast (c AND 15), 0x800)
      else if c \<ge> 0xf0 \<and> c \<le> 0xf4 then Some (3, ucast (c AND 7), 0x10000)
      else None)"

text \<open>\<open>while(count--)\<close>: the continuation bytes.\<close>

fun utf8_cont :: "nat \<Rightarrow> u32 \<Rightarrow> bytes \<Rightarrow> (u32 \<times> bytes) option" where
  "utf8_cont 0 cp bs = Some (cp, bs)"
| "utf8_cont (Suc k) cp [] = None"
| "utf8_cont (Suc k) cp (d # bs) =
     (if d AND 0xc0 \<noteq> 0x80 then None
      else utf8_cont k (push_bit 6 cp OR ucast (d AND 63)) bs)"

definition utf8_reject :: "u32 \<Rightarrow> u32 \<Rightarrow> bool" where
  "utf8_reject cp minimum \<longleftrightarrow> cp < minimum \<or> cp > 0x10ffff \<or> (cp \<ge> 0xd800 \<and> cp \<le> 0xdfff) \<or>
     (cp \<ge> 0x80 \<and> cp \<le> 0x9f)"

lemma utf8_cont_length: "utf8_cont k cp bs = Some (cp', bs') \<Longrightarrow> length bs = length bs' + k"
  by (induction k cp bs rule: utf8_cont.induct) (auto split: if_splits)

text \<open>The loop over the name: each turn consumes a whole character.\<close>

function utf8_scan :: "bytes \<Rightarrow> bool" where
  "utf8_scan [] = True"
| "utf8_scan (c # rest) =
     (if c < 0x20 \<or> c = 0x7f then False
      else if c < 0x80 then utf8_scan rest
      else case utf8_lead c of
        None \<Rightarrow> False
      | Some (count, cp, minimum) \<Rightarrow>
          if count > length rest then False
          else case utf8_cont count cp rest of
            None \<Rightarrow> False
          | Some (cp', rest') \<Rightarrow> \<not> utf8_reject cp' minimum \<and> utf8_scan rest')"
  by pat_completeness auto
termination
  by (relation "measure length") (auto dest: utf8_cont_length)

definition hex_digit :: "u8 \<Rightarrow> bool" where
  "hex_digit c \<longleftrightarrow> (c \<ge> 48 \<and> c \<le> 57) \<or> (c \<ge> 97 \<and> c \<le> 102) \<or> (c \<ge> 65 \<and> c \<le> 70)"

definition valid_credentials :: "bytes option \<Rightarrow> bytes option \<Rightarrow> bool" where
  "valid_credentials ssid password =
     (let n = bounded_length ssid 32; p = bounded_length password 64 in
      if n = 0 \<or> n > 32 \<or> p > 64 \<or> (p \<noteq> 0 \<and> p < 8) then False
      else
        utf8_scan (take n (the ssid)) \<and>
        list_all (\<lambda>c. \<not> (c < 0x20 \<or> c > 0x7e) \<and> (p = 64 \<longrightarrow> hex_digit c)) (take p (the password)))"

section \<open>The stored blob\<close>

definition wifi_encode :: "bytes \<Rightarrow> bytes \<Rightarrow> bytes" where
  "wifi_encode ssid password = seal
     (put_bytes (put_bytes ((replicate 108 0)[0 := 87, 1 := 73, 2 := 70, 3 := 1])
        4 (take 32 (c_str ssid))) 37 (take 64 (c_str password)))
     104"

definition wifi_valid_blob :: "bytes \<Rightarrow> bool" where
  "wifi_valid_blob b \<longleftrightarrow>
     b ! 0 = 87 \<and> b ! 1 = 73 \<and> b ! 2 = 70 \<and> b ! 3 = 1 \<and> b ! 36 = 0 \<and> b ! 101 = 0 \<and> b ! 102 = 0 \<and>
     b ! 103 = 0 \<and> sealed b 104 \<and>
     valid_credentials (Some (get_bytes b 4 33)) (Some (get_bytes b 37 65))"

definition wifi_decode :: "bytes \<Rightarrow> (bytes \<times> bytes) option" where
  "wifi_decode b =
     (if \<not> wifi_valid_blob b then None
      else
        let s = get_bytes b 4 33; p = get_bytes b 37 65 in
        if valid_credentials (Some s) (Some p) then Some (s, p) else None)"

section \<open>What the name check accepts\<close>

text \<open>UTF-8 as the standard defines it, and the characters allowed in a name.\<close>

definition utf8_encode :: "nat \<Rightarrow> bytes" where
  "utf8_encode cp =
     (if cp < 0x80 then [of_nat cp]
      else if cp < 0x800 then [of_nat (0xc0 + cp div 64), of_nat (0x80 + cp mod 64)]
      else if cp < 0x10000
      then [of_nat (0xe0 + cp div 4096), of_nat (0x80 + cp div 64 mod 64), of_nat (0x80 + cp mod 64)]
      else [of_nat (0xf0 + cp div 262144), of_nat (0x80 + cp div 4096 mod 64),
            of_nat (0x80 + cp div 64 mod 64), of_nat (0x80 + cp mod 64)])"

definition name_char :: "nat \<Rightarrow> bool" where
  "name_char cp \<longleftrightarrow> cp \<le> 0x10ffff \<and> \<not> (0xd800 \<le> cp \<and> cp \<le> 0xdfff) \<and> 0x20 \<le> cp \<and>
     \<not> (0x7f \<le> cp \<and> cp \<le> 0x9f)"

lemma unat_u8_lt: "unat (c :: u8) < 256"
  using unsigned_less [of c] by simp

lemma unat_of_nat_u8: "k < 256 \<Longrightarrow> unat (of_nat k :: u8) = k"
  by (simp add: unat_of_nat)

lemma and_low_bits:
  "unat ((c :: u8) AND 31) = unat c mod 32" "unat (c AND 15) = unat c mod 16"
  "unat (c AND 7) = unat c mod 8" "unat (c AND 63) = unat c mod 64"
  using take_bit_eq_mask [of 5 "unat c"] take_bit_eq_mask [of 4 "unat c"] take_bit_eq_mask [of 3 "unat c"]
    take_bit_eq_mask [of 6 "unat c"]
  by (simp_all add: unsigned_and_eq take_bit_eq_mod mask_eq_exp_minus_1)

lemma cont_byte_table:
  "list_all (\<lambda>k. ((of_nat k :: u8) AND 0xc0 = 0x80) = (128 \<le> k \<and> k < 192)) [0..<256]"
  by code_simp

lemma cont_byte: "(d :: u8) AND 0xc0 = 0x80 \<longleftrightarrow> 128 \<le> unat d \<and> unat d < 192"
proof -
  have "((of_nat k :: u8) AND 0xc0 = 0x80) = (128 \<le> k \<and> k < 192)" if "k < 256" for k
    using cont_byte_table that by (auto simp: list_all_iff)
  from this [of "unat d"] unat_u8_lt [of d] show ?thesis by simp
qed

lemma unat_ucast_8_32: "unat (ucast (c :: u8) :: u32) = unat c"
  by transfer simp

text \<open>\<open>cp=(cp<<6)|(d&63)\<close>\<close>

lemma shift_in:
  assumes "unat (cp :: u32) < 2 ^ 26"
  shows "unat (push_bit 6 cp OR ucast ((d :: u8) AND 63)) = unat cp * 64 + unat d mod 64"
proof -
  have d: "d AND 63 = take_bit 6 d" by (simp add: take_bit_eq_mask mask_eq_exp_minus_1)
  have "push_bit 6 cp OR ucast (d AND 63) = push_bit 6 cp + ucast (d AND 63)"
    unfolding d
    by (rule disjunctive_add [symmetric]) (auto simp: bit_push_bit_iff bit_take_bit_iff bit_unsigned_iff)
  moreover have "unat (push_bit 6 cp) = unat cp * 64"
    using assms by (simp add: push_bit_eq_mult unat_word_ariths)
  ultimately show ?thesis
    using assms by (simp add: unat_word_ariths unat_ucast_8_32 and_low_bits)
qed

definition cont :: "u8 \<Rightarrow> bool" where
  "cont d \<longleftrightarrow> 128 \<le> unat d \<and> unat d < 192"

lemma utf8_cont_step:
  assumes "unat cp < 2 ^ 26"
  shows "utf8_cont (Suc k) cp bs = Some r \<longleftrightarrow>
    (\<exists>d bs'. bs = d # bs' \<and> cont d \<and> utf8_cont k (of_nat (unat cp * 64 + unat d mod 64)) bs' = Some r)"
proof -
  have "push_bit 6 cp OR ucast (d AND 63) = of_nat (unat cp * 64 + unat d mod 64)" for d :: u8
    by (metis shift_in [OF assms] of_nat_unat ucast_id)
  then show ?thesis by (cases bs) (auto simp: cont_byte cont_def)
qed

lemma unat_of_nat_u32: "k < 2 ^ 32 \<Longrightarrow> unat (of_nat k :: u32) = k"
  by (simp add: unat_of_nat)

lemma cont_value:
  assumes "unat cp < 2 ^ 14"
  shows "utf8_cont 1 cp bs = Some (v, r) \<longleftrightarrow>
      (\<exists>d. bs = d # r \<and> cont d \<and> v = of_nat (unat cp * 64 + unat d mod 64))"
    "utf8_cont 2 cp bs = Some (v, r) \<longleftrightarrow>
      (\<exists>d e. bs = d # e # r \<and> cont d \<and> cont e \<and>
         v = of_nat ((unat cp * 64 + unat d mod 64) * 64 + unat e mod 64))"
    "utf8_cont 3 cp bs = Some (v, r) \<longleftrightarrow>
      (\<exists>d e f. bs = d # e # f # r \<and> cont d \<and> cont e \<and> cont f \<and>
         v = of_nat (((unat cp * 64 + unat d mod 64) * 64 + unat e mod 64) * 64 + unat f mod 64))"
proof -
  have b: "unat cp * 64 + unat d mod 64 < 2 ^ 20" "(unat cp * 64 + unat d mod 64) * 64 + unat e mod 64 < 2 ^ 26"
    for d e :: u8
    using assms mod_less_divisor [of 64 "unat d"] mod_less_divisor [of 64 "unat e"] by simp_all
  have one: "utf8_cont (Suc 0) x bs = Some (v, r) \<longleftrightarrow>
      (\<exists>d. bs = d # r \<and> cont d \<and> v = of_nat (unat x * 64 + unat d mod 64))" if "unat x < 2 ^ 26" for x bs
    using utf8_cont_step [OF that, of 0 bs "(v, r)"] by auto
  have two: "utf8_cont (Suc (Suc 0)) x bs = Some (v, r) \<longleftrightarrow>
      (\<exists>d e. bs = d # e # r \<and> cont d \<and> cont e \<and>
         v = of_nat ((unat x * 64 + unat d mod 64) * 64 + unat e mod 64))" if x: "unat x < 2 ^ 20" for x bs
  proof -
    have y: "unat x * 64 + unat d mod 64 < 2 ^ 26" for d :: u8
      using x mod_less_divisor [of 64 "unat d"] by simp
    have "unat (of_nat (unat x * 64 + unat d mod 64) :: u32) = unat x * 64 + unat d mod 64" for d :: u8
      using y [of d] by (intro unat_of_nat_u32) simp
    then show ?thesis
      using x utf8_cont_step [of x "Suc 0" bs "(v, r)"] one y by fastforce
  qed
  show "utf8_cont 1 cp bs = Some (v, r) \<longleftrightarrow>
      (\<exists>d. bs = d # r \<and> cont d \<and> v = of_nat (unat cp * 64 + unat d mod 64))"
    using one [of cp bs] assms by simp
  show "utf8_cont 2 cp bs = Some (v, r) \<longleftrightarrow>
      (\<exists>d e. bs = d # e # r \<and> cont d \<and> cont e \<and>
         v = of_nat ((unat cp * 64 + unat d mod 64) * 64 + unat e mod 64))"
    using two [of cp bs, folded numeral_2_eq_2] assms by simp
  have u: "unat (of_nat (unat cp * 64 + unat d mod 64) :: u32) = unat cp * 64 + unat d mod 64" for d :: u8
    using b(1) [of d] by (intro unat_of_nat_u32) simp
  have "utf8_cont (Suc (Suc (Suc 0))) cp bs = Some (v, r) \<longleftrightarrow>
      (\<exists>d bs'. bs = d # bs' \<and> cont d \<and>
        utf8_cont (Suc (Suc 0)) (of_nat (unat cp * 64 + unat d mod 64)) bs' = Some (v, r))"
    using assms by (intro utf8_cont_step) simp
  also have "\<dots> \<longleftrightarrow> (\<exists>d e f. bs = d # e # f # r \<and> cont d \<and> cont e \<and> cont f \<and>
         v = of_nat (((unat cp * 64 + unat d mod 64) * 64 + unat e mod 64) * 64 + unat f mod 64))"
    using two u b(1) by fastforce
  finally show "utf8_cont 3 cp bs = Some (v, r) \<longleftrightarrow>
      (\<exists>d e f. bs = d # e # f # r \<and> cont d \<and> cont e \<and> cont f \<and>
         v = of_nat (((unat cp * 64 + unat d mod 64) * 64 + unat e mod 64) * 64 + unat f mod 64))"
    by (simp add: numeral_3_eq_3)
qed

lemma leadD:
  assumes "utf8_lead c = Some (k, cp, m)"
  shows "k = 1 \<and> 0xc2 \<le> unat c \<and> unat c \<le> 0xdf \<and> unat cp = unat c - 0xc0 \<and> m = 0x80 \<or>
    k = 2 \<and> 0xe0 \<le> unat c \<and> unat c \<le> 0xef \<and> unat cp = unat c - 0xe0 \<and> m = 0x800 \<or>
    k = 3 \<and> 0xf0 \<le> unat c \<and> unat c \<le> 0xf4 \<and> unat cp = unat c - 0xf0 \<and> m = 0x10000"
proof -
  have "0xc0 \<le> n \<Longrightarrow> n \<le> 0xdf \<Longrightarrow> n mod 32 = n - 0xc0" for n :: nat
    using mod_less [of "n - 192" 32] by (simp add: le_mod_geq mod_if)
  moreover have "0xe0 \<le> n \<Longrightarrow> n \<le> 0xef \<Longrightarrow> n mod 16 = n - 0xe0" for n :: nat
    by (simp add: mod_if)
  moreover have "0xf0 \<le> n \<Longrightarrow> n \<le> 0xf4 \<Longrightarrow> n mod 8 = n - 0xf0" for n :: nat
    by (simp add: mod_if)
  ultimately show ?thesis
    using assms
    by (auto simp: utf8_lead_def word_le_nat_alt unat_ucast_8_32 and_low_bits split: if_splits)
qed

text \<open>One turn of the loop, forwards: a character that passes is a whole encoded character.\<close>

lemma u8_eq_of_nat: "unat (c :: u8) = n \<Longrightarrow> of_nat n = c"
  by auto

lemma contD: "cont d \<Longrightarrow> of_nat (128 + unat d mod 64) = d"
  by (rule u8_eq_of_nat) (auto simp: cont_def mod_if)

lemma digit: "x < (64 :: nat) \<Longrightarrow> n = y * 64 + x \<Longrightarrow> n div 64 = y \<and> n mod 64 = x"
  by simp

lemma digits_bound:
  "a \<le> 15 \<Longrightarrow> x < (64 :: nat) \<Longrightarrow> y < 64 \<Longrightarrow> (a * 64 + x) * 64 + y < 65536"
  "a \<le> 4 \<Longrightarrow> x < (64 :: nat) \<Longrightarrow> y < 64 \<Longrightarrow> z < 64 \<Longrightarrow> ((a * 64 + x) * 64 + y) * 64 + z < 2097152"
  by simp_all

lemma two_bytes:
  assumes "0xc2 \<le> unat c" "unat c \<le> 0xdf" "cont d" "n = (unat c - 0xc0) * 64 + unat d mod 64"
  shows "utf8_encode n = [c, d]" "n < 0x800" "0x80 \<le> n"
proof -
  have m: "unat d mod 64 < 64" by simp
  then have q: "n div 64 = unat c - 0xc0" "n mod 64 = unat d mod 64"
    using assms(4) by simp_all
  show r: "n < 0x800" "0x80 \<le> n" using assms m by linarith+
  with q contD [OF assms(3)] u8_eq_of_nat [of c "0xc0 + (unat c - 0xc0)"] assms(1) show "utf8_encode n = [c, d]"
    by (simp add: utf8_encode_def del: of_nat_add)
qed

lemma three_bytes:
  assumes "0xe0 \<le> unat c" "unat c \<le> 0xef" "cont d" "cont e"
    "n = ((unat c - 0xe0) * 64 + unat d mod 64) * 64 + unat e mod 64" "0x800 \<le> n"
  shows "utf8_encode n = [c, d, e]" "n < 0x10000"
proof -
  have m: "unat d mod 64 < 64" "unat e mod 64 < 64" by simp_all
  then have q: "n div 64 = (unat c - 0xe0) * 64 + unat d mod 64" "n mod 64 = unat e mod 64"
    using digit [OF m(2) assms(5)] by blast+
  then have q2: "n div 4096 = unat c - 0xe0" "n div 64 mod 64 = unat d mod 64"
    using digit [OF m(1) q(1)] div_mult2_eq [of n 64 64] by simp_all
  show r: "n < 0x10000" using digits_bound(1) [of "unat c - 0xe0", OF _ m] assms(2,5) by simp
  with q q2 contD [OF assms(3)] contD [OF assms(4)] u8_eq_of_nat [of c "0xe0 + (unat c - 0xe0)"] assms(1,6)
  show "utf8_encode n = [c, d, e]"
    by (simp add: utf8_encode_def del: of_nat_add)
qed

lemma four_bytes:
  assumes "0xf0 \<le> unat c" "unat c \<le> 0xf4" "cont d" "cont e" "cont f"
    "n = (((unat c - 0xf0) * 64 + unat d mod 64) * 64 + unat e mod 64) * 64 + unat f mod 64" "0x10000 \<le> n"
  shows "utf8_encode n = [c, d, e, f]"
proof -
  have m: "unat d mod 64 < 64" "unat e mod 64 < 64" "unat f mod 64 < 64" by simp_all
  then have q: "n div 64 = ((unat c - 0xf0) * 64 + unat d mod 64) * 64 + unat e mod 64"
    "n mod 64 = unat f mod 64"
    using digit [OF m(3) assms(6)] by blast+
  then have q2: "n div 4096 = (unat c - 0xf0) * 64 + unat d mod 64" "n div 64 mod 64 = unat e mod 64"
    using digit [OF m(2) q(1)] div_mult2_eq [of n 64 64] by simp_all
  then have q3: "n div 262144 = unat c - 0xf0" "n div 4096 mod 64 = unat d mod 64"
    using digit [OF m(1) q2(1)] div_mult2_eq [of n 4096 64] by simp_all
  with q q2 contD [OF assms(3)] contD [OF assms(4)] contD [OF assms(5)]
    u8_eq_of_nat [of c "0xf0 + (unat c - 0xf0)"] assms(1,7)
  show ?thesis by (simp add: utf8_encode_def del: of_nat_add)
qed

lemma scan_split:
  assumes "utf8_scan (c # rest)"
  shows "\<exists>n r. name_char n \<and> c # rest = utf8_encode n @ r \<and> utf8_scan r"
proof (cases "c < 0x80")
  case True
  moreover from assms True have "utf8_scan rest" "\<not> c < 0x20" "c \<noteq> 0x7f"
    by (auto split: if_splits)
  moreover from this(3) have "unat c \<noteq> 127" using u8_eq_of_nat [of c 127] by auto
  ultimately have "name_char (unat c)" "utf8_scan rest" "utf8_encode (unat c) = [c]"
    by (auto simp: name_char_def utf8_encode_def word_less_nat_alt)
  then show ?thesis by force
next
  case False
  with assms obtain k cp m v r where
    ld: "utf8_lead c = Some (k, cp, m)" and ct: "utf8_cont k cp rest = Some (v, r)" and
    ok: "\<not> utf8_reject v m" "utf8_scan r"
    by (auto split: if_splits option.splits)
  have cp: "unat cp < 2 ^ 14" using leadD [OF ld] by auto
  note C = cont_value [OF cp]
  have rj: "name_char n \<and> unat m \<le> n" if "v = of_nat n" "n < 2 ^ 21" "0x80 \<le> n" for n
  proof -
    have "unat v = n" using that unat_of_nat_u32 [of n] by simp
    with ok(1) that(3) show ?thesis
      by (auto simp: utf8_reject_def name_char_def word_less_nat_alt word_le_nat_alt)
  qed
  from leadD [OF ld] show ?thesis
  proof (elim disjE conjE)
    assume k: "k = 1" and c: "0xc2 \<le> unat c" "unat c \<le> 0xdf" "unat cp = unat c - 0xc0"
    then obtain d where d: "rest = d # r" "cont d" "v = of_nat ((unat c - 0xc0) * 64 + unat d mod 64)"
      using ct C(1) by auto
    note T = two_bytes [OF c(1,2) d(2) refl]
    from rj [OF d(3)] T d(1) ok(2) show ?thesis by force
  next
    assume k: "k = 2" and c: "0xe0 \<le> unat c" "unat c \<le> 0xef" "unat cp = unat c - 0xe0" and m: "m = 0x800"
    then obtain d e where d: "rest = d # e # r" "cont d" "cont e"
      "v = of_nat (((unat c - 0xe0) * 64 + unat d mod 64) * 64 + unat e mod 64)"
      using ct C(2) by auto
    let ?n = "((unat c - 0xe0) * 64 + unat d mod 64) * 64 + unat e mod 64"
    have b: "?n < 2 ^ 21"
      using digits_bound(1) [of "unat c - 0xe0" "unat d mod 64" "unat e mod 64"] c(2) by simp
    have "unat v = ?n" using d(4) b unat_of_nat_u32 [of ?n] by simp
    with ok(1) m have "0x800 \<le> ?n" by (simp add: utf8_reject_def word_less_nat_alt not_less)
    with three_bytes [OF c(1,2) d(2,3) refl] rj [OF d(4) b] d(1) ok(2) show ?thesis by force
  next
    assume k: "k = 3" and c: "0xf0 \<le> unat c" "unat c \<le> 0xf4" "unat cp = unat c - 0xf0" and m: "m = 0x10000"
    then obtain d e f where d: "rest = d # e # f # r" "cont d" "cont e" "cont f"
      "v = of_nat ((((unat c - 0xf0) * 64 + unat d mod 64) * 64 + unat e mod 64) * 64 + unat f mod 64)"
      using ct C(3) by auto
    let ?n = "(((unat c - 0xf0) * 64 + unat d mod 64) * 64 + unat e mod 64) * 64 + unat f mod 64"
    have b: "?n < 2 ^ 21"
      using digits_bound(2) [of "unat c - 0xf0" "unat d mod 64" "unat e mod 64" "unat f mod 64"] c(2)
      by simp
    have "unat v = ?n" using d(5) b unat_of_nat_u32 [of ?n] by simp
    with ok(1) m have "0x10000 \<le> ?n" by (simp add: utf8_reject_def word_less_nat_alt not_less)
    with four_bytes [OF c(1,2) d(2,3,4) refl] rj [OF d(5) b] d(1) ok(2) show ?thesis by force
  qed
qed

text \<open>And backwards: every encoded character of the allowed set passes.\<close>

lemma lead_exists:
  "0xc2 \<le> unat c \<Longrightarrow> unat c \<le> 0xdf \<Longrightarrow> \<exists>cp. utf8_lead c = Some (1, cp, 0x80)"
  "0xe0 \<le> unat c \<Longrightarrow> unat c \<le> 0xef \<Longrightarrow> \<exists>cp. utf8_lead c = Some (2, cp, 0x800)"
  "0xf0 \<le> unat c \<Longrightarrow> unat c \<le> 0xf4 \<Longrightarrow> \<exists>cp. utf8_lead c = Some (3, cp, 0x10000)"
  by (auto simp: utf8_lead_def word_le_nat_alt)

lemma not_rejected:
  assumes "name_char n" "0x80 \<le> n" "unat m \<le> n"
  shows "\<not> utf8_reject (of_nat n) m"
proof -
  have "unat (of_nat n :: u32) = n" using assms(1) unat_of_nat_u32 [of n] by (simp add: name_char_def)
  with assms show ?thesis
    by (auto simp: utf8_reject_def name_char_def word_less_nat_alt word_le_nat_alt)
qed

lemma scan_step:
  assumes "0x80 \<le> unat c" "utf8_lead c = Some (k, cp, m)" "utf8_cont k cp rest = Some (v, r)"
    "\<not> utf8_reject v m"
  shows "utf8_scan (c # rest) = utf8_scan r"
proof -
  have "\<not> c < 0x20" "c \<noteq> 0x7f" "\<not> c < 0x80" using assms(1) by (auto simp: word_less_nat_alt)
  with assms utf8_cont_length [OF assms(3)] show ?thesis by simp
qed

lemma cont_of_nat: "x < 64 \<Longrightarrow> cont (of_nat (0x80 + x)) \<and> unat (of_nat (0x80 + x) :: u8) mod 64 = x"
  using unat_of_nat_u8 [of "0x80 + x"] by (auto simp: cont_def mod_if)

lemma scan_encode:
  assumes "name_char n"
  shows "utf8_scan (utf8_encode n @ r) = utf8_scan r"
proof -
  have n: "n \<le> 0x10ffff" using assms by (simp add: name_char_def)
  consider "n < 0x80" | "0x80 \<le> n" "n < 0x800" | "0x800 \<le> n" "n < 0x10000" | "0x10000 \<le> n"
    by linarith
  then show ?thesis
  proof cases
    case 1
    then have u: "unat (of_nat n :: u8) = n" by (intro unat_of_nat_u8) simp
    have "\<not> (of_nat n :: u8) < 0x20" "(of_nat n :: u8) \<noteq> 0x7f" "(of_nat n :: u8) < 0x80"
      using assms 1 u by (auto simp: name_char_def word_less_nat_alt)
    with 1 show ?thesis by (simp add: utf8_encode_def)
  next
    case 2
    define c d where "c = (of_nat (0xc0 + n div 64) :: u8)" and "d = (of_nat (0x80 + n mod 64) :: u8)"
    have c: "unat c = 0xc0 + n div 64" using 2 unat_of_nat_u8 [of "0xc0 + n div 64"] by (simp add: c_def)
    have d: "cont d" "unat d mod 64 = n mod 64" using cont_of_nat [of "n mod 64"] by (simp_all add: d_def)
    obtain cp where ld: "utf8_lead c = Some (1, cp, 0x80)"
      using lead_exists(1) [of c] c 2 div_le_mono [of 128 n 64] div_le_mono [of n 2047 64] by auto
    have cp: "unat cp = n div 64" using leadD [OF ld] c by auto
    have v: "unat cp * 64 + unat d mod 64 = n" using cp d(2) by simp
    have "unat cp < 2 ^ 14" using cp 2 by simp
    from cont_value(1) [OF this, of "d # r" "of_nat n" r]
    have "utf8_cont 1 cp (d # r) = Some (of_nat n, r)"
      using d(1) v by metis
    from scan_step [OF _ ld this] not_rejected [OF assms 2(1)] c 2 have "utf8_scan (c # d # r) = utf8_scan r"
      by simp
    with 2 show ?thesis by (simp add: utf8_encode_def c_def d_def del: of_nat_add)
  next
    case 3
    define c d e where "c = (of_nat (0xe0 + n div 4096) :: u8)"
      and "d = (of_nat (0x80 + n div 64 mod 64) :: u8)" and "e = (of_nat (0x80 + n mod 64) :: u8)"
    have c: "unat c = 0xe0 + n div 4096" using 3 unat_of_nat_u8 [of "0xe0 + n div 4096"] by (simp add: c_def)
    have d: "cont d" "unat d mod 64 = n div 64 mod 64" "cont e" "unat e mod 64 = n mod 64"
      using cont_of_nat [of "n div 64 mod 64"] cont_of_nat [of "n mod 64"] by (simp_all add: d_def e_def)
    obtain cp where ld: "utf8_lead c = Some (2, cp, 0x800)"
      using lead_exists(2) [of c] c 3 div_le_mono [of n 65535 4096] by auto
    have cp: "unat cp = n div 4096" using leadD [OF ld] c by auto
    have "n div 4096 = n div 64 div 64" using div_mult2_eq [of n 64 64] by simp
    then have v: "(unat cp * 64 + unat d mod 64) * 64 + unat e mod 64 = n"
      by (simp only: cp d div_mult_mod_eq)
    have "unat cp < 2 ^ 14" using cp 3 by simp
    from cont_value(2) [OF this, of "d # e # r" "of_nat n" r]
    have "utf8_cont 2 cp (d # e # r) = Some (of_nat n, r)"
      using d(1,3) v by metis
    from scan_step [OF _ ld this] not_rejected [OF assms] c 3 have "utf8_scan (c # d # e # r) = utf8_scan r"
      by simp
    with 3 show ?thesis by (simp add: utf8_encode_def c_def d_def e_def del: of_nat_add)
  next
    case 4
    define c d e f where "c = (of_nat (0xf0 + n div 262144) :: u8)"
      and "d = (of_nat (0x80 + n div 4096 mod 64) :: u8)" and "e = (of_nat (0x80 + n div 64 mod 64) :: u8)"
      and "f = (of_nat (0x80 + n mod 64) :: u8)"
    have c: "unat c = 0xf0 + n div 262144"
      using n unat_of_nat_u8 [of "0xf0 + n div 262144"] by (simp add: c_def)
    have d: "cont d" "unat d mod 64 = n div 4096 mod 64" "cont e" "unat e mod 64 = n div 64 mod 64"
      "cont f" "unat f mod 64 = n mod 64"
      using cont_of_nat [of "n div 4096 mod 64"] cont_of_nat [of "n div 64 mod 64"] cont_of_nat [of "n mod 64"]
      by (simp_all add: d_def e_def f_def)
    have lead: "unat c \<le> 0xf4" using c n div_le_mono [of n 1114111 262144] by simp
    then obtain cp where ld: "utf8_lead c = Some (3, cp, 0x10000)"
      using lead_exists(3) [of c] c by auto
    have cp: "unat cp = n div 262144" using leadD [OF ld] c by auto
    have q: "n div 262144 = n div 4096 div 64" "n div 4096 = n div 64 div 64"
      using div_mult2_eq [of n 64 64] div_mult2_eq [of n 4096 64] by simp_all
    have v: "((unat cp * 64 + unat d mod 64) * 64 + unat e mod 64) * 64 + unat f mod 64 = n"
      using q by (simp only: cp d div_mult_mod_eq)
    have "unat cp < 2 ^ 14" using cp lead c by simp
    from cont_value(3) [OF this, of "d # e # f # r" "of_nat n" r]
    have "utf8_cont 3 cp (d # e # f # r) = Some (of_nat n, r)"
      using d(1,3,5) v by metis
    from scan_step [OF _ ld this] not_rejected [OF assms] c 4
    have "utf8_scan (c # d # e # f # r) = utf8_scan r"
      by simp
    with 4 show ?thesis by (simp add: utf8_encode_def c_def d_def e_def f_def del: of_nat_add)
  qed
qed

lemma encode_nonempty: "utf8_encode n \<noteq> []"
  by (simp add: utf8_encode_def)

lemma utf8_scan_iff: "utf8_scan bs \<longleftrightarrow> (\<exists>ns. bs = concat (map utf8_encode ns) \<and> list_all name_char ns)"
proof
  show "utf8_scan bs \<Longrightarrow> \<exists>ns. bs = concat (map utf8_encode ns) \<and> list_all name_char ns"
  proof (induction "length bs" arbitrary: bs rule: less_induct)
    case less
    show ?case
    proof (cases bs)
      case Nil
      then show ?thesis by (intro exI [of _ "[]"]) simp
    next
      case (Cons c rest)
      then obtain n r where n: "name_char n" "bs = utf8_encode n @ r" "utf8_scan r"
        using scan_split [of c rest] less.prems by auto
      then have "length r < length bs" using encode_nonempty [of n] by simp
      with less.hyps n(3) obtain ns where "r = concat (map utf8_encode ns)" "list_all name_char ns" by blast
      with n show ?thesis by (intro exI [of _ "n # ns"]) simp
    qed
  qed
next
  assume "\<exists>ns. bs = concat (map utf8_encode ns) \<and> list_all name_char ns"
  then obtain ns where "bs = concat (map utf8_encode ns)" "list_all name_char ns" by blast
  then show "utf8_scan bs"
    by (induction ns arbitrary: bs) (simp_all add: scan_encode del: utf8_scan.simps(2))
qed

section \<open>The blob round trip\<close>

definition pad :: "nat \<Rightarrow> bytes \<Rightarrow> bytes" where
  "pad n s = c_str s @ replicate (n - length (c_str s)) 0"

lemma c_str_nonzero: "b \<in> set (c_str s) \<Longrightarrow> b \<noteq> 0"
  by (auto simp: c_str_def dest: set_takeWhileD)

lemma c_str_append_zero: "(\<forall>b \<in> set xs. b \<noteq> 0) \<Longrightarrow> c_str (xs @ replicate k 0) = xs"
  by (induction xs) (auto simp: c_str_def takeWhile_eq_Nil_iff hd_replicate)

lemma c_str_pad [simp]: "c_str (pad n s) = c_str s"
  using c_str_append_zero [of "c_str s"] c_str_nonzero by (auto simp: pad_def)

lemma length_pad: "length (c_str s) \<le> n \<Longrightarrow> length (pad n s) = n"
  by (simp add: pad_def)

lemma take_c_str: "n \<le> length (c_str s) \<Longrightarrow> take n s = take n (c_str s)"
proof -
  assume "n \<le> length (c_str s)"
  moreover have "s = c_str s @ dropWhile (\<lambda>b. b \<noteq> 0) s" by (simp add: c_str_def)
  ultimately show ?thesis by (metis diff_is_0_eq append_Nil2 take_0 take_append)
qed

lemma valid_credentials_content:
  "valid_credentials (Some s) (Some p) \<longleftrightarrow>
     (let n = length (c_str s); k = length (c_str p) in
      0 < n \<and> n \<le> 32 \<and> k \<le> 64 \<and> (k = 0 \<or> 8 \<le> k) \<and> utf8_scan (c_str s) \<and>
      list_all (\<lambda>c. \<not> (c < 0x20 \<or> c > 0x7e) \<and> (k = 64 \<longrightarrow> hex_digit c)) (c_str p))"
proof -
  have "n \<le> length (c_str s) \<Longrightarrow> take n s = take n (c_str s)" for n s by (rule take_c_str)
  then show ?thesis
    by (auto simp: valid_credentials_def bounded_length_def Let_def min_def)
qed

lemma valid_credentials_pad: "valid_credentials (Some (pad n s)) (Some (pad k p)) = valid_credentials (Some s) (Some p)"
  by (simp add: valid_credentials_content)

text \<open>The content of a decoded blob: two arrays, each a string and its NUL padding.\<close>

definition wifi_arrays :: "bytes \<times> bytes \<Rightarrow> bool" where
  "wifi_arrays m \<longleftrightarrow> (case m of (s, p) \<Rightarrow> s = pad 33 s \<and> p = pad 65 p \<and> length s = 33 \<and> length p = 65 \<and>
     valid_credentials (Some s) (Some p))"

lemma wifi_decode_encode:
  assumes "valid_credentials (Some s) (Some p)"
  shows "wifi_decode (wifi_encode s p) = Some (pad 33 s, pad 65 p)"
proof -
  have n: "length (c_str s) \<le> 32" "length (c_str p) \<le> 64"
    using assms by (simp_all add: valid_credentials_content Let_def)
  let ?q = "put_bytes (put_bytes ((replicate 108 (0 :: u8))[0 := 87, 1 := 73, 2 := 70, 3 := 1])
        4 (c_str s)) 37 (c_str p)"
  have e: "wifi_encode s p = seal ?q 104" using n by (simp add: wifi_encode_def)
  have g: "get_bytes (seal ?q 104) 4 33 = pad 33 s" "get_bytes (seal ?q 104) 37 65 = pad 65 p"
    using n by (auto intro!: nth_equalityI simp: codec_simps length_pad)
      (auto simp: pad_def nth_append nth_put_bytes nth_list_update)
  have "wifi_valid_blob (seal ?q 104)"
    unfolding wifi_valid_blob_def g valid_credentials_pad
    using assms n by (simp add: nth_seal nth_put_bytes nth_list_update sealed_seal)
  then show ?thesis
    unfolding e wifi_decode_def Let_def g valid_credentials_pad using assms by simp
qed

interpretation wifi_codec: sealed_codec 104 wifi_decode "\<lambda>(s, p). wifi_encode s p" wifi_arrays
proof
  show "wifi_decode b = Some m \<Longrightarrow> sealed b 104" for b m
    by (auto simp: wifi_decode_def wifi_valid_blob_def split: if_splits)
  show "length ((\<lambda>(s, p). wifi_encode s p) m) = 104 + 4" for m
    by (simp add: wifi_encode_def split: prod.split)
  show "wifi_arrays m \<Longrightarrow> wifi_decode ((\<lambda>(s, p). wifi_encode s p) m) = Some m" for m
    using wifi_decode_encode by (auto simp: wifi_arrays_def split: prod.splits)
qed

section \<open>The properties\<close>

text \<open>C19: The credential check accepts exactly the names that are UTF-8 encodings of at most 32
  bytes of characters outside the controls, the surrogates and above U+10FFFF, with passwords
  that are empty, 8 to 63 printable characters or 64 hexadecimal digits.\<close>

theorem valid_credentials_utf8:
  "valid_credentials (Some s) (Some p) \<longleftrightarrow>
     (\<exists>ns. c_str s = concat (map utf8_encode ns) \<and> list_all name_char ns) \<and>
     c_str s \<noteq> [] \<and> length (c_str s) \<le> 32 \<and>
     (c_str p = [] \<or> 8 \<le> length (c_str p) \<and> length (c_str p) \<le> 64) \<and>
     list_all (\<lambda>c. 0x20 \<le> c \<and> c \<le> 0x7e \<and> (length (c_str p) = 64 \<longrightarrow> hex_digit c)) (c_str p)"
  by (auto simp: valid_credentials_content Let_def utf8_scan_iff not_less list_all_iff)

lemma valid_credentials_utf8_witness:
  "valid_credentials (Some [0x63, 0xC3, 0xA9, 0]) (Some [0])"
proof -
  have e: "concat (map utf8_encode [0x63, 0xE9]) = [0x63, 0xC3, 0xA9]" "list_all name_char [0x63, 0xE9]"
    by (simp_all add: utf8_encode_def name_char_def)
  have c: "c_str [0x63, 0xC3, 0xA9, 0] = [0x63, 0xC3, 0xA9]" "c_str [0] = []"
    by (simp_all add: c_str_def)
  have "\<exists>ns. c_str [0x63, 0xC3, 0xA9, 0] = concat (map utf8_encode ns) \<and> list_all name_char ns"
    using e c(1) by metis
  then show ?thesis unfolding valid_credentials_utf8 by (simp add: c)
qed

text \<open>Stored credentials round-trip: a valid name and password are read back as the same
  strings, and a stored blob with any single byte changed is refused.\<close>

theorem wifi_blob_roundtrip:
  assumes "valid_credentials (Some s) (Some p)"
  shows "wifi_decode (wifi_encode s p) = Some (pad 33 s, pad 65 p) \<and>
    c_str (pad 33 s) = c_str s \<and> c_str (pad 65 p) = c_str p \<and>
    (\<forall>i < 108. \<forall>x. x \<noteq> wifi_encode s p ! i \<longrightarrow> wifi_decode ((wifi_encode s p)[i := x]) = None)"
proof -
  have "length (wifi_encode s p) = 108" by (simp add: wifi_encode_def)
  with wifi_decode_encode [OF assms] show ?thesis
    using wifi_codec.corrupt_rejected [of "wifi_encode s p"] by simp
qed

theorem wifi_blob_roundtrip_witness:
  "wifi_decode (wifi_encode [0xc3, 0xa4, 65] [49, 50, 51, 52, 53, 54, 55, 56]) =
     Some (pad 33 [0xc3, 0xa4, 65], pad 65 [49, 50, 51, 52, 53, 54, 55, 56])"
proof -
  have "valid_credentials (Some [0xc3, 0xa4, 65]) (Some [49, 50, 51, 52, 53, 54, 55, 56])"
    by code_simp
  from wifi_blob_roundtrip [OF this] show ?thesis by blast
qed

end
