(* ===== verification/Wifi_Profiles.thy ===== *)
theory Wifi_Profiles
  imports Wifi_Credentials
begin

text \<open>
  The remembered Wi-Fi networks (\<open>main/host/mosaico_wifi_profiles_model.h\<close>): at most six profiles
  in a fixed array, their 600-byte blob, and the ranking of the visible ones. The small counters
  \<open>count\<close> and \<open>lastSuccess\<close> (\<open>uint8_t\<close>, 255 for none) are natural numbers: they stay below 256.
\<close>

section \<open>The table\<close>

record profile =
  prof_ssid :: bytes
  prof_password :: bytes

record prof_table =
  prof_entries :: "profile list"
  prof_count :: nat
  prof_last :: nat

definition empty_profile :: profile where
  "empty_profile = \<lparr>prof_ssid = replicate 33 0, prof_password = replicate 65 0\<rparr>"

definition empty_table :: prof_table where
  "empty_table = \<lparr>prof_entries = replicate 6 empty_profile, prof_count = 0, prof_last = 255\<rparr>"

text \<open>\<open>while(j<33 && a[j]==s[j]) { if(!s[j]) return i; ++j; }\<close>\<close>

fun name_match :: "nat \<Rightarrow> bytes \<Rightarrow> bytes \<Rightarrow> bool" where
  "name_match 0 a s = False"
| "name_match (Suc n) a s =
     (if c_at a 0 \<noteq> c_at s 0 then False
      else if c_at s 0 = 0 then True
      else name_match n (tl a) (tl s))"

definition prof_find :: "prof_table \<Rightarrow> bytes \<Rightarrow> nat option" where
  "prof_find m s = find (\<lambda>i. name_match 33 (prof_ssid (prof_entries m ! i)) s) [0..<prof_count m]"

definition store_name :: "bytes \<Rightarrow> bytes \<Rightarrow> bytes" where
  "store_name old s = put_bytes old 0 (take 33 (c_str s @ [0]))"

definition store_password :: "bytes \<Rightarrow> bytes" where
  "store_password p = put_bytes (replicate 65 0) 0 (take 64 (c_str p))"

definition prof_upsert :: "prof_table \<Rightarrow> bytes \<Rightarrow> bytes \<Rightarrow> bool \<times> prof_table" where
  "prof_upsert m s p =
     (if \<not> valid_credentials (Some s) (Some p) then (False, m)
      else
        let known = prof_find m s in
        if known = None \<and> prof_count m = 6 then (False, m)
        else
          let i = (case known of Some i \<Rightarrow> i | None \<Rightarrow> prof_count m);
              e = prof_entries m ! i;
              e' = e\<lparr>prof_ssid := store_name (prof_ssid e) s\<rparr>;
              e'' = (if c_at p 0 \<noteq> 0 \<or> c_at (prof_password e) 0 = 0
                     then e'\<lparr>prof_password := store_password p\<rparr> else e')
          in (True, m\<lparr>prof_entries := (prof_entries m)[i := e''],
                      prof_count := (if known = None then prof_count m + 1 else prof_count m)\<rparr>))"

definition prof_forget :: "prof_table \<Rightarrow> bytes \<Rightarrow> bool \<times> prof_table" where
  "prof_forget m s =
     (case prof_find m s of
        None \<Rightarrow> (False, m)
      | Some i \<Rightarrow>
          if prof_count m \<le> 1 then (False, m)
          else
            let n = prof_count m; es = prof_entries m in
            (True, \<lparr>prof_entries = take i es @ take (n - 1 - i) (drop (i + 1) es) @ [empty_profile] @ drop n es,
                    prof_count = n - 1,
                    prof_last = (if prof_last m = i then 255
                       else if prof_last m \<noteq> 255 \<and> prof_last m > i then prof_last m - 1
                       else prof_last m)\<rparr>))"

section \<open>The blob\<close>

fun put_profiles :: "bytes \<Rightarrow> nat \<Rightarrow> profile list \<Rightarrow> bytes" where
  "put_profiles b k [] = b"
| "put_profiles b k (e # es) =
     put_profiles (put_bytes (put_bytes b (8 + k * 98) (prof_ssid e)) (41 + k * 98) (prof_password e))
       (k + 1) es"

definition prof_encode :: "prof_table \<Rightarrow> bytes" where
  "prof_encode m = seal
     (put_profiles
       ((replicate 600 0)[0 := 87, 1 := 80, 2 := 70, 3 := 1, 4 := of_nat (prof_count m), 5 := of_nat (prof_last m)])
       0 (take (prof_count m) (prof_entries m)))
     596"

definition profile_at :: "bytes \<Rightarrow> nat \<Rightarrow> profile" where
  "profile_at b i = \<lparr>prof_ssid = get_bytes b (8 + i * 98) 33, prof_password = get_bytes b (41 + i * 98) 65\<rparr>"

text \<open>One turn of the decoding loop, with the check against the entries decoded before.\<close>

definition prof_slot_ok :: "bytes \<Rightarrow> nat \<Rightarrow> nat \<Rightarrow> bool" where
  "prof_slot_ok b n i \<longleftrightarrow>
     (if i \<ge> n then zeros b (8 + i * 98) (8 + i * 98 + 98)
      else b ! (40 + i * 98) = 0 \<and> b ! (105 + i * 98) = 0 \<and>
        valid_credentials (Some (prof_ssid (profile_at b i))) (Some (prof_password (profile_at b i))) \<and>
        list_all (\<lambda>j. \<not> name_match 33 (prof_ssid (profile_at b j)) (prof_ssid (profile_at b i))) [0..<i])"

definition prof_decode :: "bytes \<Rightarrow> prof_table option" where
  "prof_decode b =
     (if b ! 0 \<noteq> 87 \<or> b ! 1 \<noteq> 80 \<or> b ! 2 \<noteq> 70 \<or> b ! 3 \<noteq> 1 \<or> b ! 4 = 0 \<or> b ! 4 > 6 \<or> b ! 6 \<noteq> 0 \<or>
         b ! 7 \<noteq> 0 \<or> \<not> sealed b 596 \<or> (b ! 5 \<noteq> 255 \<and> b ! 5 \<ge> b ! 4)
      then None
      else
        let n = unat (b ! 4) in
        if list_all (prof_slot_ok b n) [0..<6]
        then Some \<lparr>prof_entries = map (\<lambda>i. if i < n then profile_at b i else empty_profile) [0..<6],
                   prof_count = n, prof_last = unat (b ! 5)\<rparr>
        else None)"

section \<open>The ranking of visible networks\<close>

record visible_ap =
  ap_ssid :: bytes
  ap_rssi :: int

text \<open>The strongest usable signal of profile \<open>i\<close>; -128 means not seen.\<close>

definition best_signal :: "prof_table \<Rightarrow> visible_ap list \<Rightarrow> nat \<Rightarrow> int" where
  "best_signal m aps i =
     foldl (\<lambda>best a.
         if valid_credentials (Some (ap_ssid a)) (Some []) \<and> prof_find m (ap_ssid a) = Some i \<and> ap_rssi a > best
         then ap_rssi a else best)
       (-128) aps"

text \<open>
  The insertion loop walks from the end of the ranking towards the front; \<open>rank_insert\<close> works on
  the reversed list.
\<close>

definition moves_before :: "nat \<Rightarrow> nat \<times> int \<Rightarrow> nat \<times> int \<Rightarrow> bool" where
  "moves_before l x y \<longleftrightarrow> (fst x = l \<and> fst y \<noteq> l) \<or> (fst y \<noteq> l \<and> snd x > snd y)"

fun rank_insert :: "nat \<Rightarrow> nat \<times> int \<Rightarrow> (nat \<times> int) list \<Rightarrow> (nat \<times> int) list" where
  "rank_insert l x [] = [x]"
| "rank_insert l x (y # ys) =
     (if moves_before l x y then y # rank_insert l x ys else x # y # ys)"

definition rank_list :: "prof_table \<Rightarrow> visible_ap list \<Rightarrow> (nat \<times> int) list" where
  "rank_list m aps =
     rev (foldl (\<lambda>r i. let best = best_signal m aps i in
            if best = -128 then r else rank_insert (prof_last m) (i, best) r)
          [] [0..<prof_count m])"

definition prof_rank :: "prof_table \<Rightarrow> visible_ap list \<Rightarrow> nat list" where
  "prof_rank m aps = map fst (rank_list m aps)"

section \<open>Names\<close>

lemma c_str_Nil [simp]: "c_str [] = []"
  by (simp add: c_str_def)

lemma c_str_Cons: "c_str (x # xs) = (if x = 0 then [] else x # c_str xs)"
  by (simp add: c_str_def)

lemma name_match_iff:
  "length (c_str a) < n \<Longrightarrow> name_match n a s \<longleftrightarrow> c_str a = c_str s"
proof (induction n arbitrary: a s)
  case 0
  then show ?case by simp
next
  case (Suc n)
  then show ?case
    by (cases a; cases s) (auto simp: c_at_def c_str_Cons split: if_splits)
qed

text \<open>The invariant of the table and the map it stands for.\<close>

definition prof_ok :: "profile \<Rightarrow> bool" where
  "prof_ok e \<longleftrightarrow> length (prof_ssid e) = 33 \<and> length (prof_password e) = 65 \<and> prof_ssid e ! 32 = 0 \<and>
     prof_password e ! 64 = 0 \<and> valid_credentials (Some (prof_ssid e)) (Some (prof_password e))"

definition prof_name :: "profile \<Rightarrow> bytes" where
  "prof_name e = c_str (prof_ssid e)"

definition prof_active :: "prof_table \<Rightarrow> profile list" where
  "prof_active m = take (prof_count m) (prof_entries m)"

definition prof_inv :: "prof_table \<Rightarrow> bool" where
  "prof_inv m \<longleftrightarrow> length (prof_entries m) = 6 \<and> prof_count m \<le> 6 \<and>
     (\<forall>e \<in> set (prof_active m). prof_ok e) \<and> distinct (map prof_name (prof_active m)) \<and>
     drop (prof_count m) (prof_entries m) = replicate (6 - prof_count m) empty_profile \<and>
     (prof_last m = 255 \<or> prof_last m < prof_count m)"

definition prof_map :: "prof_table \<Rightarrow> bytes \<Rightarrow> bytes option" where
  "prof_map m = map_of (map (\<lambda>e. (prof_name e, c_str (prof_password e))) (prof_active m))"

lemma prof_ok_name: "prof_ok e \<Longrightarrow> length (c_str (prof_ssid e)) < 33"
  by (simp add: prof_ok_def valid_credentials_content Let_def)

lemma prof_find_spec:
  assumes "prof_inv m"
  shows "prof_find m s = None \<longleftrightarrow> c_str s \<notin> prof_name ` set (prof_active m)"
    and "prof_find m s = Some i \<longleftrightarrow> i < prof_count m \<and> prof_name (prof_entries m ! i) = c_str s"
proof -
  let ?n = "prof_count m"
  have len: "?n \<le> length (prof_entries m)" using assms by (simp add: prof_inv_def)
  have mt: "name_match 33 (prof_ssid (prof_entries m ! j)) s \<longleftrightarrow> prof_name (prof_entries m ! j) = c_str s"
    if "j < ?n" for j
  proof -
    have "prof_entries m ! j \<in> set (prof_active m)"
      using that len by (auto simp: prof_active_def in_set_conv_nth)
    then have "prof_ok (prof_entries m ! j)" using assms by (simp add: prof_inv_def)
    from name_match_iff [OF prof_ok_name [OF this]] show ?thesis by (simp add: prof_name_def)
  qed
  show "prof_find m s = None \<longleftrightarrow> c_str s \<notin> prof_name ` set (prof_active m)"
  proof -
    have "prof_find m s = None \<longleftrightarrow> (\<forall>j < ?n. prof_name (prof_entries m ! j) \<noteq> c_str s)"
      by (auto simp: prof_find_def find_None_iff mt)
    also have "\<dots> \<longleftrightarrow> c_str s \<notin> prof_name ` set (prof_active m)"
      unfolding prof_active_def nth_image [OF len, symmetric] atLeast0LessThan lessThan_def
      by (blast intro: sym)
    finally show ?thesis .
  qed
  have uniq: "j = k" if "j < ?n" "k < ?n" "prof_name (prof_entries m ! j) = prof_name (prof_entries m ! k)" for j k
    using that assms len
    by (auto simp: prof_inv_def prof_active_def distinct_conv_nth)
  have "prof_find m s = Some i \<longleftrightarrow> i < ?n \<and> prof_name (prof_entries m ! i) = c_str s \<and>
      (\<forall>j < i. prof_name (prof_entries m ! j) \<noteq> c_str s)"
    by (auto simp: prof_find_def find_Some_iff mt)
  moreover have "prof_name (prof_entries m ! j) \<noteq> c_str s"
    if "j < i" "i < ?n" "prof_name (prof_entries m ! i) = c_str s" for j
    using uniq [of j i] that by auto
  ultimately show "prof_find m s = Some i \<longleftrightarrow> i < ?n \<and> prof_name (prof_entries m ! i) = c_str s"
    by blast
qed

section \<open>Insert, forget, look up\<close>

lemma c_str_store_name:
  assumes "length old = 33" "length (c_str s) \<le> 32"
  shows "c_str (store_name old s) = c_str s" "length (store_name old s) = 33"
    "old ! 32 = 0 \<Longrightarrow> store_name old s ! 32 = 0"
proof -
  let ?k = "length (c_str s)"
  have t: "take 33 (c_str s @ [0]) = c_str s @ [0]" using assms by simp
  show "length (store_name old s) = 33" using assms by (simp add: store_name_def)
  have "store_name old s = c_str s @ 0 # drop (?k + 1) old"
    using assms by (intro nth_equalityI)
      (auto simp: store_name_def t nth_put_bytes nth_append nth_Cons' less_Suc_eq)
  moreover have "c_str (xs @ 0 # ys) = xs" if "\<forall>b \<in> set xs. b \<noteq> 0" for xs ys :: bytes
    using that by (induction xs) (simp_all add: c_str_def)
  ultimately show "c_str (store_name old s) = c_str s" using c_str_nonzero by simp
  show "old ! 32 = 0 \<Longrightarrow> store_name old s ! 32 = 0"
    using assms by (auto simp: store_name_def t nth_put_bytes nth_append)
qed

lemma c_str_store_password:
  assumes "length (c_str p) \<le> 64"
  shows "c_str (store_password p) = c_str p" "length (store_password p) = 65" "store_password p ! 64 = 0"
proof -
  show "length (store_password p) = 65" by (simp add: store_password_def)
  have "store_password p = c_str p @ replicate (65 - length (c_str p)) 0"
    using assms by (intro nth_equalityI) (auto simp: store_password_def nth_put_bytes nth_append)
  then show "c_str (store_password p) = c_str p"
    using c_str_append_zero [of "c_str p"] c_str_nonzero by auto
  show "store_password p ! 64 = 0" using assms by (simp add: store_password_def nth_put_bytes)
qed

lemma c_at_0: "c_at p 0 = 0 \<longleftrightarrow> c_str p = []"
  by (cases p) (auto simp: c_at_def c_str_Cons)

lemma prof_active_nth: "prof_inv m \<Longrightarrow> i < prof_count m \<Longrightarrow> prof_active m ! i = prof_entries m ! i \<and> i < length (prof_active m)"
  by (simp add: prof_inv_def prof_active_def)

lemma prof_active_length: "prof_inv m \<Longrightarrow> length (prof_active m) = prof_count m"
  by (simp add: prof_inv_def prof_active_def)

text \<open>The entry that an accepted insert leaves behind.\<close>

lemma upsert_entry_ok:
  assumes "valid_credentials (Some s) (Some p)" "prof_ok e \<and> prof_name e = c_str s \<or> e = empty_profile"
    "e' = e\<lparr>prof_ssid := store_name (prof_ssid e) s\<rparr>"
    "e'' = (if c_at p 0 \<noteq> 0 \<or> c_at (prof_password e) 0 = 0 then e'\<lparr>prof_password := store_password p\<rparr> else e')"
  shows "prof_ok e''" "prof_name e'' = c_str s"
    "c_str (prof_password e'') = (if c_str p = [] then c_str (prof_password e) else c_str p)"
proof -
  have v: "length (c_str s) \<le> 32" "length (c_str p) \<le> 64"
    using assms(1) by (simp_all add: valid_credentials_content Let_def)
  have l: "length (prof_ssid e) = 33" "prof_ssid e ! 32 = 0" "length (prof_password e) = 65"
    "prof_password e ! 64 = 0"
    using assms(2) by (auto simp: prof_ok_def empty_profile_def)
  note N = c_str_store_name [OF l(1) v(1)] and P = c_str_store_password [OF v(2)]
  show "prof_name e'' = c_str s" using N by (simp add: prof_name_def assms(3,4))
  show pw: "c_str (prof_password e'') = (if c_str p = [] then c_str (prof_password e) else c_str p)"
    using P by (auto simp: assms(3,4) c_at_0)
  have "valid_credentials (Some s) (Some (prof_password e))" if "c_str (prof_password e) \<noteq> []"
    using that assms(2) c_str_append_zero [of "[]" 65]
    by (auto simp: prof_ok_def prof_name_def valid_credentials_content empty_profile_def)
  then show "prof_ok e''"
    using N P l assms(1) by (auto simp: prof_ok_def assms(3,4) c_at_0 valid_credentials_content)
qed

lemma map_of_update:
  "distinct (map fst xs) \<Longrightarrow> i < length xs \<Longrightarrow> fst (xs ! i) = k \<Longrightarrow>
    map_of (xs[i := (k, v)]) = (map_of xs)(k \<mapsto> v)"
proof (induction xs arbitrary: i)
  case Nil
  then show ?case by simp
next
  case (Cons x xs)
  show ?case
  proof (cases i)
    case 0
    with Cons.prems show ?thesis by (cases x) auto
  next
    case (Suc j)
    with Cons.prems have "k \<in> fst ` set xs" by auto
    with Cons.prems(1) have "fst x \<noteq> k" by (metis distinct.simps(2) list.simps(9) list.set_map)
    with Suc Cons show ?thesis by (cases x) (auto simp: fun_upd_twist)
  qed
qed

lemma map_of_snoc: "k \<notin> fst ` set xs \<Longrightarrow> map_of (xs @ [(k, v)]) = (map_of xs)(k \<mapsto> v)"
proof -
  assume "k \<notin> fst ` set xs"
  then have "map_of xs k = None" by (simp add: map_of_eq_None_iff)
  then show ?thesis by (auto simp: fun_eq_iff map_add_def split: option.split)
qed

abbreviation prof_pair :: "profile \<Rightarrow> bytes \<times> bytes" where
  "prof_pair e \<equiv> (prof_name e, c_str (prof_password e))"

lemma prof_map_lookup:
  assumes "prof_inv m" "i < prof_count m"
  shows "prof_map m (prof_name (prof_entries m ! i)) = Some (c_str (prof_password (prof_entries m ! i)))"
proof -
  have a: "prof_active m ! i = prof_entries m ! i" "i < length (prof_active m)"
    using prof_active_nth [OF assms] by auto
  then have "prof_entries m ! i \<in> set (prof_active m)" using nth_mem [OF a(2)] by simp
  then have "prof_pair (prof_entries m ! i) \<in> set (map prof_pair (prof_active m))" by simp
  moreover have "distinct (map fst (map prof_pair (prof_active m)))"
    using assms(1) by (simp add: prof_inv_def o_def)
  ultimately show ?thesis by (simp add: prof_map_def)
qed

lemma prof_map_dom: "dom (prof_map m) = prof_name ` set (prof_active m)"
  by (simp add: prof_map_def dom_map_of_conv_image_fst image_image)

text \<open>The insert on the abstract map.\<close>

definition map_upsert :: "(bytes \<Rightarrow> bytes option) \<Rightarrow> bytes \<Rightarrow> bytes \<Rightarrow> bytes \<Rightarrow> bytes option" where
  "map_upsert f s p = f(s \<mapsto> (if p = [] then (case f s of Some q \<Rightarrow> q | None \<Rightarrow> []) else p))"

lemma upsert_spec:
  assumes inv: "prof_inv m" and run: "prof_upsert m s p = (ok, m')"
  shows "ok \<longleftrightarrow> valid_credentials (Some s) (Some p) \<and> (c_str s \<in> dom (prof_map m) \<or> prof_count m < 6)"
    "\<not> ok \<Longrightarrow> m' = m"
    "ok \<Longrightarrow> prof_inv m' \<and> prof_map m' = map_upsert (prof_map m) (c_str s) (c_str p)"
proof -
  note F = prof_find_spec [OF inv, of s]
  have six: "prof_count m \<le> 6" using inv by (simp add: prof_inv_def)
  show okd: "ok \<longleftrightarrow> valid_credentials (Some s) (Some p) \<and> (c_str s \<in> dom (prof_map m) \<or> prof_count m < 6)"
    using run F(1) six by (auto simp: prof_upsert_def Let_def prof_map_dom split: if_splits)
  show "\<not> ok \<Longrightarrow> m' = m"
    using run by (auto simp: prof_upsert_def Let_def split: if_splits)
  assume ok: ok
  with okd have v: "valid_credentials (Some s) (Some p)" by blast
  define i where "i = (case prof_find m s of Some i \<Rightarrow> i | None \<Rightarrow> prof_count m)"
  define e where "e = prof_entries m ! i"
  define e' where "e' = e\<lparr>prof_ssid := store_name (prof_ssid e) s\<rparr>"
  define e2 where "e2 = (if c_at p 0 \<noteq> 0 \<or> c_at (prof_password e) 0 = 0
      then e'\<lparr>prof_password := store_password p\<rparr> else e')"
  have m': "m' = m\<lparr>prof_entries := (prof_entries m)[i := e2],
      prof_count := (if prof_find m s = None then prof_count m + 1 else prof_count m)\<rparr>"
    using run ok by (auto simp: prof_upsert_def Let_def i_def e_def e'_def e2_def split: if_splits)
  have dist: "distinct (map fst (map prof_pair (prof_active m)))"
    using inv by (simp add: prof_inv_def o_def)
  show "prof_inv m' \<and> prof_map m' = map_upsert (prof_map m) (c_str s) (c_str p)"
  proof (cases "prof_find m s")
    case (Some k)
    then have ik: "i = k" by (simp add: i_def)
    from iffD1 [OF F(2) Some] ik have k: "i = k" "k < prof_count m" "prof_name e = c_str s"
      by (simp_all add: e_def)
    have act: "prof_active m' = (prof_active m)[k := e2]"
      using Some k by (simp add: m' prof_active_def take_update_swap)
    have ek: "prof_active m ! k = e" "k < length (prof_active m)"
      using prof_active_nth [OF inv k(2)] k(1) by (simp_all add: e_def)
    then have "prof_ok e" using inv by (auto simp: prof_inv_def)
    with upsert_entry_ok [OF v _ e'_def e2_def] k(3)
    have E: "prof_ok e2" "prof_name e2 = c_str s"
      "c_str (prof_password e2) = (if c_str p = [] then c_str (prof_password e) else c_str p)" by auto
    have "map prof_name (prof_active m') = map prof_name (prof_active m)"
    proof -
      have "map prof_name (prof_active m') = (map prof_name (prof_active m))[k := map prof_name (prof_active m) ! k]"
        using E(2) k(3) ek by (simp add: act map_update)
      then show ?thesis by (simp only: list_update_id)
    qed
    moreover have "\<forall>x \<in> set (prof_active m'). prof_ok x"
      using inv E(1) by (auto simp: act prof_inv_def dest!: set_update_subset_insert [THEN subsetD])
    ultimately have I: "prof_inv m'"
      using inv Some k by (simp add: prof_inv_def m')
    have "prof_map m' = map_of ((map prof_pair (prof_active m))[k := (c_str s, c_str (prof_password e2))])"
      by (simp add: prof_map_def act map_update E(2))
    also have "\<dots> = (prof_map m)(c_str s \<mapsto> c_str (prof_password e2))"
      unfolding prof_map_def
      by (rule map_of_update [OF dist]) (use ek k(3) in simp_all)
    finally show ?thesis
      using I E(3) prof_map_lookup [OF inv k(2)] k by (simp add: map_upsert_def e_def)
  next
    case None
    then have k: "i = prof_count m" "c_str s \<notin> prof_name ` set (prof_active m)" using F(1) by (auto simp: i_def)
    have lt: "prof_count m < 6" using okd ok k(2) by (simp add: prof_map_dom)
    have len: "length (prof_entries m) = 6" using inv by (simp add: prof_inv_def)
    have rest: "drop (prof_count m) (prof_entries m) = replicate (6 - prof_count m) empty_profile"
      using inv by (simp add: prof_inv_def)
    then have emp: "e = empty_profile"
      using lt len k(1) unfolding e_def by (metis hd_drop_conv_nth hd_replicate zero_less_diff not_gr_zero)
    with upsert_entry_ok [OF v _ e'_def e2_def]
    have E: "prof_ok e2" "prof_name e2 = c_str s"
      "c_str (prof_password e2) = (if c_str p = [] then c_str (prof_password e) else c_str p)" by auto
    have e0: "c_str (prof_password e) = []"
      using c_str_append_zero [of "[]" 65] by (simp add: emp empty_profile_def)
    have act: "prof_active m' = prof_active m @ [e2]"
      using None k lt len by (simp add: m' prof_active_def take_Suc_conv_app_nth)
    have "drop (prof_count m + 1) ((prof_entries m)[prof_count m := e2]) = replicate (6 - (prof_count m + 1)) empty_profile"
      using rest lt len by (metis drop_drop drop_replicate drop_update_cancel diff_diff_left add.commute less_add_one)
    then have I: "prof_inv m'"
      using inv E(1,2) k act lt len
      by (auto simp: prof_inv_def m' None prof_active_def)
    have "prof_map m' = (prof_map m)(c_str s \<mapsto> c_str (prof_password e2))"
      unfolding prof_map_def act map_append list.map E(2)
      by (rule map_of_snoc) (use k(2) in \<open>simp add: image_image\<close>)
    moreover have "prof_map m (c_str s) = None" using k(2) by (metis domIff prof_map_dom)
    ultimately show ?thesis using I E(3) e0 by (simp add: map_upsert_def)
  qed
qed

lemma map_of_remove:
  assumes "distinct (map fst xs)" "i < length xs"
  shows "map_of (take i xs @ drop (Suc i) xs) = (map_of xs)(fst (xs ! i) := None)"
  using assms
proof (induction xs arbitrary: i)
  case Nil
  then show ?case by simp
next
  case (Cons x xs)
  show ?case
  proof (cases i)
    case 0
    with Cons.prems(1) have "fst x \<notin> dom (map_of xs)" by (simp add: dom_map_of_conv_image_fst)
    with 0 show ?thesis by (cases x) (auto simp: fun_eq_iff domIff)
  next
    case (Suc j)
    with Cons.prems have "fst (xs ! j) \<noteq> fst x" by (metis distinct.simps(2) length_Cons length_map list.simps(9) not_less_eq nth_map nth_mem)
    with Suc Cons show ?thesis by (cases x) (auto simp: fun_upd_twist)
  qed
qed

lemma forget_spec:
  assumes inv: "prof_inv m" and run: "prof_forget m s = (ok, m')"
  shows "ok \<longleftrightarrow> c_str s \<in> dom (prof_map m) \<and> 1 < prof_count m"
    "\<not> ok \<Longrightarrow> m' = m"
    "ok \<Longrightarrow> prof_inv m' \<and> prof_count m' = prof_count m - 1 \<and> prof_map m' = (prof_map m)(c_str s := None)"
proof -
  note F = prof_find_spec [OF inv, of s]
  show okd: "ok \<longleftrightarrow> c_str s \<in> dom (prof_map m) \<and> 1 < prof_count m"
    using run F(1) by (auto simp: prof_forget_def Let_def prof_map_dom split: if_splits option.splits)
  show "\<not> ok \<Longrightarrow> m' = m"
    using run by (auto simp: prof_forget_def Let_def split: if_splits option.splits)
  assume ok: ok
  then obtain i where fi: "prof_find m s = Some i" using run by (auto simp: prof_forget_def split: option.splits)
  let ?n = "prof_count m" let ?es = "prof_entries m" let ?as = "prof_active m"
  from iffD1 [OF F(2) fi] have i: "i < ?n" "prof_name (?es ! i) = c_str s" by simp_all
  have n: "1 < ?n" "?n \<le> 6" "length ?es = 6" using ok okd inv by (simp_all add: prof_inv_def)
  have m': "prof_entries m' = take i ?es @ take (?n - 1 - i) (drop (i + 1) ?es) @ [empty_profile] @ drop ?n ?es"
    "prof_count m' = ?n - 1"
    "prof_last m' = (if prof_last m = i then 255
       else if prof_last m \<noteq> 255 \<and> prof_last m > i then prof_last m - 1 else prof_last m)"
    using run ok fi n(1) by (auto simp: prof_forget_def Let_def split: if_splits)
  have act: "prof_active m' = take i ?as @ drop (Suc i) ?as"
  proof -
    have "?n - 1 \<le> i \<Longrightarrow> i = ?n - 1" using i(1) by simp
    then show ?thesis using i(1) n by (auto simp: prof_active_def m' drop_take min_def)
  qed
  have la: "length ?as = ?n" by (rule prof_active_length [OF inv])
  have "?n - 1 < 6" using n by simp
  have "drop (?n - 1) (prof_entries m') = empty_profile # drop ?n ?es"
    using i(1) n by (simp add: m')
  also have "\<dots> = replicate (6 - (?n - 1)) empty_profile"
    using inv n by (simp add: prof_inv_def Suc_diff_le replicate_Suc [symmetric] del: replicate_Suc)
  finally have rest: "drop (?n - 1) (prof_entries m') = replicate (6 - (?n - 1)) empty_profile" .
  have "set (prof_active m') \<subseteq> set ?as"
    unfolding act by (auto dest: in_set_takeD in_set_dropD)
  moreover have "distinct (map prof_name (prof_active m'))"
  proof -
    have "distinct (map prof_name (take i ?as @ ?as ! i # drop (Suc i) ?as))"
      using inv i(1) la by (simp add: prof_inv_def id_take_nth_drop [symmetric])
    then show ?thesis unfolding act by auto
  qed
  moreover have "prof_last m' = 255 \<or> prof_last m' < prof_count m'"
    using inv i(1) n by (auto simp: m' prof_inv_def)
  moreover have "length (prof_entries m') = 6"
    using i(1) n by (simp add: m'(1) min_def) linarith
  ultimately have I: "prof_inv m'"
    using inv rest n(1,2) by (auto simp: prof_inv_def m'(2))
  have "prof_active m ! i = ?es ! i" using i(1) by (simp add: prof_active_def)
  moreover have "distinct (map fst (map prof_pair ?as))" using inv by (simp add: prof_inv_def o_def)
  ultimately have "prof_map m' = (prof_map m)(c_str s := None)"
    using map_of_remove [of "map prof_pair ?as" i] i la
    by (simp add: prof_map_def act take_map drop_map)
  with I show "prof_inv m' \<and> prof_count m' = ?n - 1 \<and> prof_map m' = (prof_map m)(c_str s := None)"
    by (simp add: m'(2))
qed

text \<open>Any sequence of inserts and removals.\<close>

datatype prof_op = Upsert bytes bytes | Forget bytes

definition prof_step :: "prof_table \<Rightarrow> prof_op \<Rightarrow> prof_table" where
  "prof_step m e = (case e of Upsert s p \<Rightarrow> snd (prof_upsert m s p) | Forget s \<Rightarrow> snd (prof_forget m s))"

lemma prof_step_inv: "prof_inv m \<Longrightarrow> prof_inv (prof_step m e)"
  using upsert_spec forget_spec
  by (cases e; metis (no_types, lifting) prof_op.simps(5,6) prof_step_def prod.collapse)

lemma empty_table_inv: "prof_inv empty_table"
  by (simp add: prof_inv_def empty_table_def prof_active_def)

interpretation profiles: event_machine prof_step empty_table prof_inv
  by unfold_locales (simp_all add: empty_table_inv prof_step_inv)

section \<open>The blob\<close>

lemma length_put_profiles [simp]: "length (put_profiles b k es) = length b"
  by (induction b k es rule: put_profiles.induct) simp_all

lemma put_profiles_below: "i < 8 + k * 98 \<Longrightarrow> put_profiles b k es ! i = b ! i"
  by (induction b k es rule: put_profiles.induct) (simp_all add: nth_put_bytes)

lemma put_profiles_above:
  assumes "8 + (k + length es) * 98 \<le> i" "\<forall>e \<in> set es. length (prof_ssid e) = 33 \<and> length (prof_password e) = 65"
  shows "put_profiles b k es ! i = b ! i"
  using assms by (induction b k es rule: put_profiles.induct) (simp_all add: nth_put_bytes algebra_simps)

lemma profile_at_cong:
  "(\<And>j. 8 + i * 98 \<le> j \<Longrightarrow> j < 106 + i * 98 \<Longrightarrow> b ! j = b' ! j) \<Longrightarrow> profile_at b i = profile_at b' i"
  by (auto simp: profile_at_def intro!: nth_equalityI)

lemma put_profiles_at:
  assumes "\<forall>e \<in> set es. length (prof_ssid e) = 33 \<and> length (prof_password e) = 65"
    "8 + (k + length es) * 98 \<le> length b" "i < length es"
  shows "profile_at (put_profiles b k es) (k + i) = es ! i"
  using assms
proof (induction b k es arbitrary: i rule: put_profiles.induct)
  case (1 b k)
  then show ?case by simp
next
  case (2 b k e es)
  let ?b = "put_bytes (put_bytes b (8 + k * 98) (prof_ssid e)) (41 + k * 98) (prof_password e)"
  show ?case
  proof (cases i)
    case 0
    have "profile_at (put_profiles ?b (k + 1) es) k = profile_at ?b k"
      by (rule profile_at_cong) (simp add: put_profiles_below)
    also have "\<dots> = e"
      using 2(2,3) by (cases e) (simp add: profile_at_def get_bytes_put_bytes get_bytes_put_bytes_other)
    finally show ?thesis using 0 by simp
  next
    case (Suc j)
    with 2(1) [of j] 2(2-4) show ?thesis by (simp add: algebra_simps)
  qed
qed

lemma prof_decode_encode:
  assumes inv: "prof_inv m" and some: "0 < prof_count m"
  shows "prof_decode (prof_encode m) = Some m"
proof -
  let ?n = "prof_count m" let ?es = "prof_entries m" let ?as = "prof_active m"
  let ?h = "(replicate 600 (0 :: u8))[0 := 87, 1 := 80, 2 := 70, 3 := 1, 4 := of_nat ?n, 5 := of_nat (prof_last m)]"
  define b where "b = put_profiles ?h 0 ?as"
  have enc: "prof_encode m = seal b 596" by (simp add: prof_encode_def b_def prof_active_def)
  have lb: "length b = 600" by (simp add: b_def)
  have n: "?n \<le> 6" "length ?as = ?n" "length ?es = 6"
    using inv prof_active_length [OF inv] by (simp_all add: prof_inv_def)
  have ok: "\<forall>e \<in> set ?as. prof_ok e" using inv by (simp add: prof_inv_def)
  then have len: "\<forall>e \<in> set ?as. length (prof_ssid e) = 33 \<and> length (prof_password e) = 65"
    by (simp add: prof_ok_def)
  have at: "profile_at (seal b 596) i = ?es ! i \<and> prof_ok (?es ! i)" if "i < ?n" for i
  proof -
    have "profile_at (seal b 596) i = profile_at b i"
      using that n by (intro profile_at_cong nth_seal) simp
    moreover have "profile_at b i = ?as ! i"
      using put_profiles_at [OF len, of 0 ?h i] that n by (simp add: b_def)
    moreover have "?as ! i = ?es ! i" using that by (simp add: prof_active_def)
    moreover have "?as ! i \<in> set ?as" using that n by simp
    ultimately show ?thesis using ok by simp
  qed
  have hd: "seal b 596 ! i = ?h ! i" if "i < 8" for i
    using that by (simp add: nth_seal b_def put_profiles_below)
  have lst: "prof_last m = 255 \<or> prof_last m < ?n" using inv by (simp add: prof_inv_def)
  have u: "unat (of_nat ?n :: u8) = ?n" "unat (of_nat (prof_last m) :: u8) = prof_last m"
    using n lst by (auto simp: unat_of_nat)
  have z: "seal b 596 ! j = 0" if "8 + ?n * 98 \<le> j" "j < 596" for j
  proof -
    have "b ! j = ?h ! j"
      unfolding b_def by (rule put_profiles_above) (use that n len in simp_all)
    then show ?thesis using that by (simp add: nth_seal nth_list_update)
  qed
  have uniq: "\<not> name_match 33 (prof_ssid (?es ! j)) (prof_ssid (?es ! i))" if "j < i" "i < ?n" for i j
  proof -
    have "prof_name (?as ! j) \<noteq> prof_name (?as ! i)"
      using that n inv by (simp add: prof_inv_def distinct_conv_nth)
    then have "prof_name (?es ! j) \<noteq> prof_name (?es ! i)" using that by (simp add: prof_active_def)
    moreover have "prof_ok (?es ! j)" using at [of j] that by simp
    ultimately show ?thesis using name_match_iff [OF prof_ok_name] by (simp add: prof_name_def)
  qed
  have slot: "prof_slot_ok (seal b 596) ?n i" if "i < 6" for i
  proof (cases "i < ?n")
    case True
    have "seal b 596 ! (40 + i * 98) = prof_ssid (profile_at (seal b 596) i) ! 32"
      "seal b 596 ! (105 + i * 98) = prof_password (profile_at (seal b 596) i) ! 64"
      by (simp_all add: profile_at_def)
    then show ?thesis
      using True at [OF True] at uniq [of _ i]
      by (auto simp: prof_slot_ok_def prof_ok_def list_all_iff)
  next
    case False
    then show ?thesis using z that by (auto simp: prof_slot_ok_def zeros_iff)
  qed
  have ent: "map (\<lambda>i. if i < ?n then profile_at (seal b 596) i else empty_profile) [0..<6] = ?es"
  proof (rule nth_equalityI)
    fix i assume "i < length (map (\<lambda>i. if i < ?n then profile_at (seal b 596) i else empty_profile) [0..<6])"
    then have i6: "i < 6" by simp
    have "?es ! i = empty_profile" if "\<not> i < ?n"
    proof -
      have "drop ?n ?es ! (i - ?n) = replicate (6 - ?n) empty_profile ! (i - ?n)"
        using inv by (simp add: prof_inv_def)
      then show ?thesis using that i6 n by simp
    qed
    then show "map (\<lambda>i. if i < ?n then profile_at (seal b 596) i else empty_profile) [0..<6] ! i = ?es ! i"
      using i6 at [of i] by simp
  qed (simp add: n)
  have h: "seal b 596 ! 0 = 87" "seal b 596 ! 1 = 80" "seal b 596 ! 2 = 70" "seal b 596 ! 3 = 1"
    "seal b 596 ! 4 = of_nat ?n" "seal b 596 ! 5 = of_nat (prof_last m)" "seal b 596 ! 6 = 0" "seal b 596 ! 7 = 0"
    by (simp_all add: hd)
  have c: "(of_nat ?n :: u8) \<noteq> 0" "\<not> (of_nat ?n :: u8) > 6"
    "\<not> ((of_nat (prof_last m) :: u8) \<noteq> 255 \<and> (of_nat (prof_last m) :: u8) \<ge> of_nat ?n)"
    using u n some lst by (auto simp: word_less_nat_alt word_le_nat_alt unat_eq_0 [symmetric])
  have sl: "sealed (seal b 596) 596" using lb by (simp add: sealed_seal)
  have "list_all (prof_slot_ok (seal b 596) ?n) [0..<6]" using slot by (simp add: list_all_iff)
  then show ?thesis
    unfolding enc prof_decode_def h u(1) u(2) Let_def ent using c sl by simp
qed

section \<open>The ranking\<close>

definition rank_before :: "nat \<Rightarrow> nat \<times> int \<Rightarrow> nat \<times> int \<Rightarrow> bool" where
  "rank_before l a b \<longleftrightarrow> fst a = l \<or> (fst b \<noteq> l \<and> snd b \<le> snd a)"

lemma set_rank_insert [simp]: "set (rank_insert l x ys) = insert x (set ys)"
  by (induction ys) auto

lemma rank_insert_sorted:
  "sorted_wrt (\<lambda>a b. rank_before l b a) ys \<Longrightarrow> sorted_wrt (\<lambda>a b. rank_before l b a) (rank_insert l x ys)"
  by (induction ys) (auto simp: rank_before_def moves_before_def)

lemma rank_insert_distinct:
  "distinct (map fst ys) \<Longrightarrow> fst x \<notin> fst ` set ys \<Longrightarrow> distinct (map fst (rank_insert l x ys))"
  by (induction ys) auto

lemma rank_fold:
  "let r = foldl (\<lambda>r i. let best = f i in if best = -128 then r else rank_insert l (i, best) r) [] [0..<n] in
    sorted_wrt (\<lambda>a b. rank_before l b a) r \<and> distinct (map fst r) \<and>
    set r = {(i, f i) | i. i < n \<and> f i \<noteq> -128}"
proof (induction n)
  case 0
  then show ?case by simp
next
  case (Suc n)
  have "{(i, f i) | i. i < Suc n \<and> f i \<noteq> -128} =
      (if f n = -128 then {} else {(n, f n)}) \<union> {(i, f i) | i. i < n \<and> f i \<noteq> -128}"
    by (auto simp: less_Suc_eq)
  moreover have "n \<notin> fst ` {(i, f i) | i. i < n \<and> f i \<noteq> -128}" by auto
  ultimately show ?case
    using Suc.IH by (simp add: Let_def rank_insert_sorted rank_insert_distinct)
qed

section \<open>The properties\<close>

text \<open>The profile table is a map from names to passwords: an insert succeeds exactly for valid
  credentials of a known name or while a slot is free, and then updates only that name (an empty
  password keeps the stored one); a refused insert changes nothing; the invariant is kept.\<close>

theorem prof_upsert_refines:
  assumes "prof_inv m" "prof_upsert m s p = (ok, m')"
  shows "prof_inv m' \<and>
    (ok \<longleftrightarrow> valid_credentials (Some s) (Some p) \<and> (c_str s \<in> dom (prof_map m) \<or> prof_count m < 6)) \<and>
    prof_map m' = (if ok then map_upsert (prof_map m) (c_str s) (c_str p) else prof_map m)"
  using upsert_spec [OF assms] assms(1) by (cases ok) simp_all

theorem prof_upsert_refines_witness:
  "\<exists>m'. prof_upsert empty_table [65, 66] [] = (True, m') \<and> prof_map m' [65, 66] = Some []"
proof -
  obtain ok m' where run: "prof_upsert empty_table [65, 66] [] = (ok, m')" by fastforce
  have v: "valid_credentials (Some [65, 66]) (Some [])" by code_simp
  have "prof_count empty_table < 6" by (simp add: empty_table_def)
  moreover have "c_str [65, 66] = [65, 66]" by code_simp
  ultimately show ?thesis
    using prof_upsert_refines [OF empty_table_inv run] v run
    by (auto simp: map_upsert_def prof_map_def empty_table_def prof_active_def)
qed

text \<open>Forgetting a network removes exactly that name, succeeds exactly for a known name that is
  not the only one, and keeps the invariant, so \<open>lastSuccess\<close> still names a live profile.\<close>

theorem prof_forget_refines:
  assumes "prof_inv m" "prof_forget m s = (ok, m')"
  shows "prof_inv m' \<and> (ok \<longleftrightarrow> c_str s \<in> dom (prof_map m) \<and> 1 < prof_count m) \<and>
    prof_map m' = (if ok then (prof_map m)(c_str s := None) else prof_map m)"
  using forget_spec [OF assms] assms(1) by (cases ok) simp_all

theorem prof_forget_refines_witness: "prof_forget empty_table [65] = (False, empty_table)"
proof -
  obtain ok m' where run: "prof_forget empty_table [65] = (ok, m')" by fastforce
  have "\<not> ok" using prof_forget_refines [OF empty_table_inv run] by (simp add: empty_table_def)
  with forget_spec(2) [OF empty_table_inv run] run show ?thesis by simp
qed

text \<open>A table reached by any sequence of inserts and removals that has a profile is restored
  exactly from its blob.\<close>

theorem prof_blob_roundtrip:
  assumes "m = foldl prof_step empty_table ops" "0 < prof_count m"
  shows "prof_decode (prof_encode m) = Some m"
  using prof_decode_encode profiles.inv_reachable [of ops] assms by simp

theorem prof_blob_roundtrip_witness:
  "\<exists>m. prof_decode (prof_encode m) = Some m \<and> prof_count m = 1"
proof -
  let ?m = "foldl prof_step empty_table [Upsert [65, 66] []]"
  have "valid_credentials (Some [65, 66]) (Some [])" by code_simp
  then have "prof_count ?m = 1"
    by (simp add: prof_step_def prof_upsert_def prof_find_def empty_table_def Let_def)
  with prof_blob_roundtrip [OF refl, of "[Upsert [65, 66] []]"] show ?thesis by auto
qed

text \<open>The candidates for a connection are exactly the profiles that some access point makes
  visible, each once, the last successful one first and the others by falling signal.\<close>

theorem prof_rank_sorted:
  "sorted_wrt (rank_before (prof_last m)) (rank_list m aps) \<and> distinct (prof_rank m aps) \<and>
   set (rank_list m aps) = {(i, best_signal m aps i) | i. i < prof_count m \<and> best_signal m aps i \<noteq> -128}"
  using rank_fold [of "best_signal m aps" "prof_last m" "prof_count m"]
  by (simp add: rank_list_def prof_rank_def Let_def sorted_wrt_rev rev_map [symmetric])

end
