(* ===== verification/Display_Settings.thy ===== *)
theory Display_Settings
  imports Crc_Seal
begin

text \<open>
  The display settings (\<open>main/host/mosaico_display_settings_model.h\<close>): the configuration with its
  admissible values, the 24-byte blob, the revision-acknowledged persistence and the temporary
  overlay with a lease. The second half models how \<open>mosaico_display_settings.cpp\<close> drives the
  model: callers and the writer task interleave, and a flash write is in flight in between.
\<close>

section \<open>Configuration\<close>

record disp_config =
  charge_timeout :: u32
  battery_timeout :: u32
  charge_brightness :: u8
  battery_brightness :: u8
  lock_brightness :: u8
  burn_in :: bool
  lock_wifi_minutes :: u8
  lock_ble_minutes :: u8
  smart_keepalive :: bool

definition disp_default :: disp_config where
  "disp_default = \<lparr>charge_timeout = 60, battery_timeout = 60, charge_brightness = 80,
     battery_brightness = 80, lock_brightness = 8, burn_in = True, lock_wifi_minutes = 5,
     lock_ble_minutes = 1, smart_keepalive = True\<rparr>"

definition valid_lock_minutes :: "u32 \<Rightarrow> bool" where
  "valid_lock_minutes m \<longleftrightarrow> m = 1 \<or> m = 2 \<or> m = 5 \<or> m = 10 \<or> m = 15 \<or> m = 30 \<or> m = 60"

definition lock_interval_ms :: "u32 \<Rightarrow> u8 \<Rightarrow> u32" where
  "lock_interval_ms m fallback = (if valid_lock_minutes m then m else ucast fallback) * 60000"

definition sanitize :: "disp_config \<Rightarrow> disp_config" where
  "sanitize c0 =
     (let c = (if \<not> valid_lock_minutes (ucast (lock_wifi_minutes c0)) then c0\<lparr>lock_wifi_minutes := 5\<rparr> else c0);
          c = (if \<not> valid_lock_minutes (ucast (lock_ble_minutes c)) then c\<lparr>lock_ble_minutes := 1\<rparr> else c);
          t = charge_timeout c;
          c = (if t \<noteq> 0 \<and> t \<noteq> 15 \<and> t \<noteq> 30 \<and> t \<noteq> 60 \<and> t \<noteq> 120 \<and> t \<noteq> 300 \<and> t \<noteq> 600
               then c\<lparr>charge_timeout := 60\<rparr> else c);
          b = battery_timeout c;
          c = (if b \<noteq> 15 \<and> b \<noteq> 30 \<and> b \<noteq> 45 \<and> b \<noteq> 60 then c\<lparr>battery_timeout := 60\<rparr> else c);
          c = c\<lparr>charge_brightness := (if charge_brightness c < 10 then 10
                 else if charge_brightness c > 100 then 100 else charge_brightness c)\<rparr>;
          c = c\<lparr>battery_brightness := (if battery_brightness c < 10 then 10
                 else if battery_brightness c > 100 then 100 else battery_brightness c)\<rparr>
      in c\<lparr>lock_brightness := (if lock_brightness c > 100 then 100 else lock_brightness c)\<rparr>)"

text \<open>\<open>while(*a && *a==*b) { ++a; ++b; } return *a==*b;\<close>\<close>

fun str_eq :: "string \<Rightarrow> string \<Rightarrow> bool" where
  "str_eq [] b = (b = [])"
| "str_eq (x # a) [] = False"
| "str_eq (x # a) (y # b) = (x = y \<and> str_eq a b)"

lemma str_eq_iff [simp]: "str_eq a b \<longleftrightarrow> a = b"
  by (induction a b rule: str_eq.induct) auto

definition field_equals :: "string option \<Rightarrow> string option \<Rightarrow> bool" where
  "field_equals a b = (case (a, b) of (Some x, Some y) \<Rightarrow> str_eq x y | _ \<Rightarrow> False)"

definition disp_patch :: "disp_config \<Rightarrow> string option \<Rightarrow> int \<Rightarrow> disp_config option" where
  "disp_patch c field v =
     (let next =
        (if field = None \<or> v < 0 \<or> v > 600 then None
         else if field_equals field (Some ''charge_timeout'') then Some (c\<lparr>charge_timeout := of_int v\<rparr>)
         else if field_equals field (Some ''battery_timeout'') then Some (c\<lparr>battery_timeout := of_int v\<rparr>)
         else if field_equals field (Some ''charge_brightness'')
         then (if v > 100 then None else Some (c\<lparr>charge_brightness := of_int v\<rparr>))
         else if field_equals field (Some ''battery_brightness'')
         then (if v > 100 then None else Some (c\<lparr>battery_brightness := of_int v\<rparr>))
         else if field_equals field (Some ''lock_brightness'')
         then (if v > 100 then None else Some (c\<lparr>lock_brightness := of_int v\<rparr>))
         else if field_equals field (Some ''smart_keepalive'')
         then (if v > 1 then None else Some (c\<lparr>smart_keepalive := (v \<noteq> 0)\<rparr>))
         else if field_equals field (Some ''burn_in'')
         then (if v > 1 then None else Some (c\<lparr>burn_in := (v \<noteq> 0)\<rparr>))
         else if field_equals field (Some ''lock_wifi_minutes'')
         then (if v > 60 then None else Some (c\<lparr>lock_wifi_minutes := of_int v\<rparr>))
         else if field_equals field (Some ''lock_ble_minutes'')
         then (if v > 60 then None else Some (c\<lparr>lock_ble_minutes := of_int v\<rparr>))
         else None)
      in case next of None \<Rightarrow> None | Some n \<Rightarrow> if sanitize n = n then Some n else None)"

section \<open>The blob\<close>

definition flag_byte :: "bool \<Rightarrow> u8" where
  "flag_byte b = (if b then 1 else 0)"

definition disp_encode :: "disp_config \<Rightarrow> bytes" where
  "disp_encode c = seal
     (put_le (put_le
       ((put_le (replicate 24 0) 0 (0x4453504d :: u32) 4)
         [4 := 3, 5 := flag_byte (burn_in c), 6 := charge_brightness c, 7 := battery_brightness c,
          8 := lock_brightness c, 9 := lock_wifi_minutes c, 10 := lock_ble_minutes c,
          11 := flag_byte (smart_keepalive c)])
       12 (charge_timeout c) 4) 16 (battery_timeout c) 4)
     20"

definition disp_decode :: "bytes \<Rightarrow> disp_config option" where
  "disp_decode b =
     (if get_le b 0 4 \<noteq> (0x4453504d :: u32) \<or> (b ! 4 \<noteq> 1 \<and> b ! 4 \<noteq> 2 \<and> b ! 4 \<noteq> 3) \<or> b ! 5 > 1 \<or>
         (b ! 4 = 1 \<and> (b ! 9 \<noteq> 0 \<or> b ! 10 \<noteq> 0)) \<or> (if b ! 4 < 3 then b ! 11 \<noteq> 0 else b ! 11 > 1) \<or>
         \<not> sealed b 20
      then None
      else
        let c = disp_default\<lparr>charge_timeout := get_le b 12 4, battery_timeout := get_le b 16 4,
              charge_brightness := b ! 6, battery_brightness := b ! 7, lock_brightness := b ! 8,
              burn_in := (b ! 5 \<noteq> 0)\<rparr>;
            c = (if b ! 4 \<ge> 2 then c\<lparr>lock_wifi_minutes := b ! 9, lock_ble_minutes := b ! 10\<rparr> else c);
            c = (if b ! 4 = 3 then c\<lparr>smart_keepalive := (b ! 11 \<noteq> 0)\<rparr> else c)
        in if sanitize c = c then Some c else None)"

section \<open>The model\<close>

text \<open>The part of \<open>Snapshot\<close> that the model keeps; the remaining fields are computed by \<open>snapshot\<close>.\<close>

record disp_model =
  dm_config :: disp_config
  dm_revision :: u32
  dm_saved_revision :: u32
  dm_pending :: bool
  dm_error :: int
  dm_overlay :: disp_config
  dm_lease_until :: int
  dm_runtime_revision :: u32
  dm_requested_at :: int
  dm_attempted_revision :: u32

definition disp_model0 :: disp_model where
  "disp_model0 = \<lparr>dm_config = disp_default, dm_revision = 1, dm_saved_revision = 0, dm_pending = False,
     dm_error = 0, dm_overlay = disp_default, dm_lease_until = 0, dm_runtime_revision = 1,
     dm_requested_at = 0, dm_attempted_revision = 0\<rparr>"

record disp_snapshot =
  sn_config :: disp_config
  sn_effective :: disp_config
  sn_temporary :: bool
  sn_runtime_revision :: u32
  sn_remaining_lease :: u32
  sn_revision :: u32
  sn_saved_revision :: u32
  sn_pending :: bool
  sn_error :: int

definition reboot_save_ready :: "disp_snapshot \<Rightarrow> bool" where
  "reboot_save_ready s \<longleftrightarrow> \<not> sn_pending s \<and> sn_error s = 0 \<and>
     (sn_saved_revision s = sn_revision s \<or> (sn_revision s = 1 \<and> sn_saved_revision s = 0))"

definition disp_effective :: "disp_model \<Rightarrow> disp_config" where
  "disp_effective m = (if dm_lease_until m \<noteq> 0 then dm_overlay m else dm_config m)"

definition disp_restore :: "disp_model \<Rightarrow> bool \<times> disp_model" where
  "disp_restore m =
     (if dm_lease_until m = 0 then (False, m)
      else (True, m\<lparr>dm_lease_until := 0, dm_runtime_revision := dm_runtime_revision m + 1\<rparr>))"

definition disp_expire :: "int \<Rightarrow> bool \<Rightarrow> disp_model \<Rightarrow> bool \<times> disp_model" where
  "disp_expire now unsafe m =
     (if dm_lease_until m \<noteq> 0 \<and> (unsafe \<or> now \<ge> dm_lease_until m) then disp_restore m else (False, m))"

definition disp_take_snapshot :: "int \<Rightarrow> disp_model \<Rightarrow> disp_snapshot" where
  "disp_take_snapshot now m =
     \<lparr>sn_config = dm_config m, sn_effective = disp_effective m, sn_temporary = (dm_lease_until m \<noteq> 0),
      sn_runtime_revision = dm_runtime_revision m,
      sn_remaining_lease = (if dm_lease_until m \<noteq> 0 \<and> now < dm_lease_until m
        then of_int ((dm_lease_until m - now + 999999) div 1000000) else 0),
      sn_revision = dm_revision m, sn_saved_revision = dm_saved_revision m, sn_pending = dm_pending m,
      sn_error = dm_error m\<rparr>"

definition disp_set_temporary ::
  "string option \<Rightarrow> int \<Rightarrow> u32 \<Rightarrow> int \<Rightarrow> disp_model \<Rightarrow> bool \<times> disp_model" where
  "disp_set_temporary field v seconds now m =
     (if seconds < 30 \<or> seconds > 600 then (False, m)
      else
        let base = (if dm_lease_until m \<noteq> 0 \<and> now < dm_lease_until m then dm_overlay m else dm_config m) in
        (case disp_patch base field v of
           None \<Rightarrow> (False, m)
         | Some next \<Rightarrow>
             let m1 = snd (disp_expire now False m) in
             (True, m1\<lparr>dm_overlay := next, dm_lease_until := now + uint seconds * 1000000,
                       dm_runtime_revision := dm_runtime_revision m1 + 1\<rparr>)))"

definition disp_request :: "disp_config \<Rightarrow> int \<Rightarrow> disp_model \<Rightarrow> disp_model" where
  "disp_request c now m =
     (let m1 = snd (disp_restore m); c1 = sanitize c in
      if c1 = dm_config m1 \<and> dm_error m1 = 0 then m1
      else m1\<lparr>dm_config := c1, dm_runtime_revision := dm_runtime_revision m1 + 1,
              dm_revision := dm_revision m1 + 1, dm_pending := True, dm_error := 0,
              dm_requested_at := now\<rparr>)"

definition disp_request_field :: "string option \<Rightarrow> int \<Rightarrow> int \<Rightarrow> disp_model \<Rightarrow> bool \<times> disp_model" where
  "disp_request_field field v now m =
     (case disp_patch (dm_config m) field v of
        None \<Rightarrow> (False, m)
      | Some next \<Rightarrow> (True, disp_request next now m))"

definition disp_save_temporary :: "bool \<Rightarrow> int \<Rightarrow> disp_model \<Rightarrow> bool \<times> disp_model" where
  "disp_save_temporary confirmed now m =
     (if \<not> confirmed then (False, m)
      else let m1 = snd (disp_expire now False m) in (True, disp_request (disp_effective m1) now m1))"

definition disp_due :: "int \<Rightarrow> disp_model \<Rightarrow> bool" where
  "disp_due now m \<longleftrightarrow> dm_pending m \<and> dm_attempted_revision m \<noteq> dm_revision m \<and>
     now - dm_requested_at m \<ge> 1000000"

definition disp_completed :: "u32 \<Rightarrow> int \<Rightarrow> disp_model \<Rightarrow> disp_model" where
  "disp_completed revision error m =
     (let m1 = (if error = 0 then m\<lparr>dm_saved_revision := revision\<rparr> else m) in
      if revision = dm_revision m1 then m1\<lparr>dm_pending := False, dm_error := error\<rparr> else m1)"

section \<open>Configuration facts\<close>

text \<open>The admissible configurations, written out: the values that the settings screen may offer.\<close>

definition sane :: "disp_config \<Rightarrow> bool" where
  "sane c \<longleftrightarrow> charge_timeout c \<in> {0, 15, 30, 60, 120, 300, 600} \<and> battery_timeout c \<in> {15, 30, 45, 60} \<and>
     10 \<le> uint (charge_brightness c) \<and> uint (charge_brightness c) \<le> 100 \<and>
     10 \<le> uint (battery_brightness c) \<and> uint (battery_brightness c) \<le> 100 \<and> uint (lock_brightness c) \<le> 100 \<and>
     lock_wifi_minutes c \<in> {1, 2, 5, 10, 15, 30, 60} \<and> lock_ble_minutes c \<in> {1, 2, 5, 10, 15, 30, 60}"

lemma sanitize_fields:
  "charge_timeout (sanitize c) = (let t = charge_timeout c in
     if t = 0 \<or> t = 15 \<or> t = 30 \<or> t = 60 \<or> t = 120 \<or> t = 300 \<or> t = 600 then t else 60)"
  "battery_timeout (sanitize c) = (let t = battery_timeout c in
     if t = 15 \<or> t = 30 \<or> t = 45 \<or> t = 60 then t else 60)"
  "charge_brightness (sanitize c) = (let x = charge_brightness c in if x < 10 then 10 else if x > 100 then 100 else x)"
  "battery_brightness (sanitize c) = (let x = battery_brightness c in if x < 10 then 10 else if x > 100 then 100 else x)"
  "lock_brightness (sanitize c) = (let x = lock_brightness c in if x > 100 then 100 else x)"
  "burn_in (sanitize c) = burn_in c"
  "lock_wifi_minutes (sanitize c) =
     (if valid_lock_minutes (ucast (lock_wifi_minutes c)) then lock_wifi_minutes c else 5)"
  "lock_ble_minutes (sanitize c) =
     (if valid_lock_minutes (ucast (lock_ble_minutes c)) then lock_ble_minutes c else 1)"
  "smart_keepalive (sanitize c) = smart_keepalive c"
  by (simp_all add: sanitize_def Let_def)

lemma clamp_id:
  "((if x < 10 then 10 else if x > 100 then 100 else x) = x) \<longleftrightarrow> 10 \<le> x \<and> x \<le> (100 :: u8)"
  "((if x > 100 then 100 else x) = x) \<longleftrightarrow> x \<le> (100 :: u8)"
  by (auto simp: not_less)

lemma lock_minutes_iff: "valid_lock_minutes (ucast m) \<longleftrightarrow> m \<in> {1, 2, 5, 10, 15, 30, 60}" for m :: u8
proof -
  have "(ucast m :: u32) = ucast n \<longleftrightarrow> m = n" for n :: u8 by (rule ucast_u8_inj)
  from this[of 1] this[of 2] this[of 5] this[of 10] this[of 15] this[of 30] this[of 60]
  show ?thesis by (simp add: valid_lock_minutes_def)
qed

lemma sane_iff:
  "sane c \<longleftrightarrow> charge_timeout c \<in> {0, 15, 30, 60, 120, 300, 600} \<and> battery_timeout c \<in> {15, 30, 45, 60} \<and>
     10 \<le> charge_brightness c \<and> charge_brightness c \<le> 100 \<and> 10 \<le> battery_brightness c \<and>
     battery_brightness c \<le> 100 \<and> lock_brightness c \<le> 100 \<and>
     valid_lock_minutes (ucast (lock_wifi_minutes c)) \<and> valid_lock_minutes (ucast (lock_ble_minutes c))"
  by (simp add: sane_def lock_minutes_iff word_le_def)

text \<open>The admissible configurations are exactly those that \<open>sanitize\<close> leaves alone.\<close>

lemma sanitize_fixed: "sanitize c = c \<longleftrightarrow> sane c"
proof -
  have v: "valid_lock_minutes (ucast (5 :: u8))" "valid_lock_minutes (ucast (1 :: u8))"
    by (simp_all add: valid_lock_minutes_def)
  have "sanitize c = c \<longleftrightarrow> charge_timeout (sanitize c) = charge_timeout c \<and> battery_timeout (sanitize c) = battery_timeout c \<and>
      charge_brightness (sanitize c) = charge_brightness c \<and> battery_brightness (sanitize c) = battery_brightness c \<and>
      lock_brightness (sanitize c) = lock_brightness c \<and> lock_wifi_minutes (sanitize c) = lock_wifi_minutes c \<and>
      lock_ble_minutes (sanitize c) = lock_ble_minutes c"
    using disp_config.equality [of "sanitize c" c] sanitize_fields(6,9) by auto
  moreover have "charge_timeout (sanitize c) = charge_timeout c \<longleftrightarrow> charge_timeout c \<in> {0, 15, 30, 60, 120, 300, 600}"
    "battery_timeout (sanitize c) = battery_timeout c \<longleftrightarrow> battery_timeout c \<in> {15, 30, 45, 60}"
    unfolding sanitize_fields Let_def by auto
  moreover have "charge_brightness (sanitize c) = charge_brightness c \<longleftrightarrow>
      10 \<le> charge_brightness c \<and> charge_brightness c \<le> 100"
    "battery_brightness (sanitize c) = battery_brightness c \<longleftrightarrow>
      10 \<le> battery_brightness c \<and> battery_brightness c \<le> 100"
    "lock_brightness (sanitize c) = lock_brightness c \<longleftrightarrow> lock_brightness c \<le> 100"
    unfolding sanitize_fields Let_def by (simp_all only: clamp_id)
  moreover have "lock_wifi_minutes (sanitize c) = lock_wifi_minutes c \<longleftrightarrow> valid_lock_minutes (ucast (lock_wifi_minutes c))"
    "lock_ble_minutes (sanitize c) = lock_ble_minutes c \<longleftrightarrow> valid_lock_minutes (ucast (lock_ble_minutes c))"
    unfolding sanitize_fields using v by (metis (full_types))+
  ultimately show ?thesis unfolding sane_iff by blast
qed

lemma sane_sanitize: "sane (sanitize c)"
proof -
  have v: "valid_lock_minutes (ucast (5 :: u8))" "valid_lock_minutes (ucast (1 :: u8))"
    by (simp_all add: valid_lock_minutes_def)
  then show ?thesis by (auto simp: sane_iff sanitize_fields Let_def not_less)
qed

lemma sane_default: "sane disp_default"
  by (simp add: sane_iff disp_default_def valid_lock_minutes_def)

lemma patch_sane: "disp_patch c f v = Some n \<Longrightarrow> sane n"
  by (auto simp: disp_patch_def Let_def simp flip: sanitize_fixed split: option.splits if_splits)

section \<open>The blob round trip\<close>

lemma disp_decode_encode:
  assumes "sane c"
  shows "disp_decode (disp_encode c) = Some c"
proof -
  have f: "flag_byte x = 0 \<longleftrightarrow> \<not> x" "flag_byte x \<le> 1" for x by (simp_all add: flag_byte_def)
  let ?q = "put_le (put_le
       ((put_le (replicate 24 0) 0 (0x4453504d :: u32) 4)
         [4 := 3, 5 := flag_byte (burn_in c), 6 := charge_brightness c, 7 := battery_brightness c,
          8 := lock_brightness c, 9 := lock_wifi_minutes c, 10 := lock_ble_minutes c,
          11 := flag_byte (smart_keepalive c)])
       12 (charge_timeout c) 4) 16 (battery_timeout c) 4"
  have e: "disp_encode c = seal ?q 20" by (simp add: disp_encode_def)
  have b: "seal ?q 20 ! 4 = 3" "seal ?q 20 ! 5 = flag_byte (burn_in c)" "seal ?q 20 ! 6 = charge_brightness c"
    "seal ?q 20 ! 7 = battery_brightness c" "seal ?q 20 ! 8 = lock_brightness c"
    "seal ?q 20 ! 9 = lock_wifi_minutes c" "seal ?q 20 ! 10 = lock_ble_minutes c"
    "seal ?q 20 ! 11 = flag_byte (smart_keepalive c)"
    by (simp_all add: nth_seal nth_put_le)
  have g: "get_le (seal ?q 20) 0 4 = (0x4453504d :: u32)" "get_le (seal ?q 20) 12 4 = charge_timeout c"
    "get_le (seal ?q 20) 16 4 = battery_timeout c"
    by (simp_all add: codec_simps)
  have s: "sealed (seal ?q 20) 20" by (simp add: sealed_seal)
  have eta: "disp_default\<lparr>charge_timeout := charge_timeout c, battery_timeout := battery_timeout c,
      charge_brightness := charge_brightness c, battery_brightness := battery_brightness c,
      lock_brightness := lock_brightness c, burn_in := burn_in c, lock_wifi_minutes := lock_wifi_minutes c,
      lock_ble_minutes := lock_ble_minutes c, smart_keepalive := smart_keepalive c\<rparr> = c"
    by (cases c) (simp add: disp_default_def)
  have "sanitize c = c" using assms by (simp add: sanitize_fixed)
  then show ?thesis
    unfolding e disp_decode_def b g Let_def using s f by (simp add: not_less eta)
qed

interpretation disp_codec: sealed_codec 20 disp_decode disp_encode sane
proof
  show "disp_decode b = Some m \<Longrightarrow> sealed b 20" for b m
    by (auto simp: disp_decode_def split: if_splits)
  show "length (disp_encode m) = 20 + 4" for m by (simp add: disp_encode_def)
  show "sane m \<Longrightarrow> disp_decode (disp_encode m) = Some m" for m by (rule disp_decode_encode)
qed

lemma decode_sane: "disp_decode b = Some c \<Longrightarrow> sane c"
  by (auto simp: disp_decode_def Let_def simp flip: sanitize_fixed split: if_splits)

section \<open>The writer and its callers\<close>

text \<open>
  \<open>mosaico_display_settings.cpp\<close>: the public calls, each under the mutex (a call that does not get
  the mutex changes nothing), and the writer task, which copies the due configuration, releases
  the mutex, writes the blob and reports the result. \<open>dw_flight\<close> is the write in progress,
  \<open>dw_flash\<close> the blob in flash, \<open>dw_edits\<close> counts the accepted changes. \<open>unsafe\<close> is
  \<open>MosaicoOta::busy() || MosaicoOta::healthPending()\<close>.
\<close>

record disp_world =
  dw_model :: disp_model
  dw_flight :: "(u32 \<times> disp_config) option"
  dw_flash :: "bytes option"
  dw_edits :: nat

datatype disp_event =
  DE_Snapshot int bool
| DE_Request disp_config int
| DE_RequestField "string option" int int
| DE_SetTemporary "string option" int u32 int bool
| DE_Restore
| DE_SaveTemporary bool int bool
| DE_WriterBegin int bool
| DE_WriterEnd int bool

text \<open>\<open>init\<close>: the brightness of the hardware seeds the defaults, a readable blob replaces them; a
  missing blob is no error.\<close>

definition ESP_NVS_NOT_FOUND :: int where "ESP_NVS_NOT_FOUND = 0x1102"

definition disp_init :: "int \<Rightarrow> int \<Rightarrow> bytes option \<Rightarrow> disp_model" where
  "disp_init brightness error blob =
     (let c0 = (if 10 \<le> brightness \<and> brightness \<le> 100
                then disp_default\<lparr>charge_brightness := of_int brightness, battery_brightness := of_int brightness\<rparr>
                else disp_default);
          m = disp_model0\<lparr>dm_config := c0\<rparr>;
          decoded = (if error = 0 then (case blob of None \<Rightarrow> None | Some b \<Rightarrow>
             if length b \<noteq> 24 then None else disp_decode b) else None);
          err = (if error = 0 \<and> decoded = None then 0x102 else error) in
      case decoded of
        Some c \<Rightarrow> m\<lparr>dm_config := c, dm_saved_revision := dm_revision m, dm_error := 0\<rparr>
      | None \<Rightarrow> m\<lparr>dm_error := (if err = ESP_NVS_NOT_FOUND then 0 else err)\<rparr>)"

definition disp_public :: "disp_event \<Rightarrow> disp_model \<Rightarrow> disp_model" where
  "disp_public e m =
     (case e of
        DE_Snapshot now unsafe \<Rightarrow> snd (disp_expire now unsafe m)
      | DE_Request c now \<Rightarrow> disp_request c now m
      | DE_RequestField f v now \<Rightarrow> snd (disp_request_field f v now m)
      | DE_SetTemporary f v seconds now unsafe \<Rightarrow>
          (let m1 = snd (disp_expire now unsafe m) in
           if unsafe then m1 else snd (disp_set_temporary f v seconds now m1))
      | DE_Restore \<Rightarrow> snd (disp_restore m)
      | DE_SaveTemporary confirmed now unsafe \<Rightarrow>
          (if \<not> confirmed then m
           else let m1 = snd (disp_expire now unsafe m) in
             if unsafe then m1 else snd (disp_save_temporary True now m1))
      | _ \<Rightarrow> m)"

text \<open>
  One event. The writer starts only when no write is in flight (\<open>writerMutex\<close>) and the gates are
  open; at the end, with error 0 the blob is in flash, otherwise it may or may not be.
\<close>

definition disp_world_step :: "disp_world \<Rightarrow> disp_event \<Rightarrow> disp_world" where
  "disp_world_step w e =
     (case e of
        DE_WriterBegin now allowed \<Rightarrow>
          (let m = snd (disp_expire now False (dw_model w)) in
           if dw_flight w = None \<and> allowed \<and> disp_due now m
           then w\<lparr>dw_model := m\<lparr>dm_attempted_revision := dm_revision m\<rparr>,
                  dw_flight := Some (dm_revision m, dm_config m)\<rparr>
           else w\<lparr>dw_model := m\<rparr>)
      | DE_WriterEnd error written \<Rightarrow>
          (case dw_flight w of
             None \<Rightarrow> w
           | Some (revision, c) \<Rightarrow>
               w\<lparr>dw_model := disp_completed revision error (dw_model w), dw_flight := None,
                 dw_flash := (if error = 0 \<or> written then Some (disp_encode c) else dw_flash w)\<rparr>)
      | _ \<Rightarrow>
          (let m = disp_public e (dw_model w) in
           w\<lparr>dw_model := m,
             dw_edits := dw_edits w + (if dm_revision m \<noteq> dm_revision (dw_model w) then 1 else 0)\<rparr>))"

definition disp_world0 :: "disp_model \<Rightarrow> bytes option \<Rightarrow> disp_world" where
  "disp_world0 m flash = \<lparr>dw_model = m, dw_flight = None, dw_flash = flash, dw_edits = 0\<rparr>"

section \<open>The invariant of the world\<close>

definition disp_wf :: "disp_model \<Rightarrow> bool" where
  "disp_wf m \<longleftrightarrow> sane (dm_config m) \<and> (dm_lease_until m \<noteq> 0 \<longrightarrow> sane (dm_overlay m))"

lemma wf_effective: "disp_wf m \<Longrightarrow> sane (disp_effective m)"
  by (simp add: disp_wf_def disp_effective_def)

lemma restore_simps [simp]:
  "dm_config (snd (disp_restore m)) = dm_config m" "dm_revision (snd (disp_restore m)) = dm_revision m"
  "dm_pending (snd (disp_restore m)) = dm_pending m" "dm_error (snd (disp_restore m)) = dm_error m"
  "dm_lease_until (snd (disp_restore m)) = 0"
  by (simp_all add: disp_restore_def)

lemma expire_simps [simp]:
  "dm_config (snd (disp_expire now u m)) = dm_config m" "dm_revision (snd (disp_expire now u m)) = dm_revision m"
  "dm_pending (snd (disp_expire now u m)) = dm_pending m" "dm_error (snd (disp_expire now u m)) = dm_error m"
  "dm_overlay (snd (disp_expire now u m)) = dm_overlay m"
  "dm_lease_until (snd (disp_expire now u m)) = 0 \<or> dm_lease_until (snd (disp_expire now u m)) = dm_lease_until m"
  by (auto simp: disp_expire_def disp_restore_def)

lemma expire_wf: "disp_wf m \<Longrightarrow> disp_wf (snd (disp_expire now u m))"
  by (auto simp: disp_wf_def disp_expire_def disp_restore_def)

text \<open>A change of the persistent configuration: either nothing, or a new revision that is pending.\<close>

definition edit_step :: "disp_model \<Rightarrow> disp_model \<Rightarrow> bool" where
  "edit_step m n \<longleftrightarrow>
     (dm_revision n = dm_revision m \<and> dm_config n = dm_config m \<and> dm_pending n = dm_pending m \<and>
      dm_error n = dm_error m) \<or>
     (dm_revision n = dm_revision m + 1 \<and> dm_pending n)"

lemma edit_stepE [elim]:
  assumes "edit_step m n"
  obtains "dm_revision n = dm_revision m" "dm_config n = dm_config m" "dm_pending n = dm_pending m"
      "dm_error n = dm_error m"
    | "dm_revision n = dm_revision m + 1" "dm_pending n"
  using assms by (auto simp: edit_step_def)

lemma request_edit: "edit_step m (disp_request c now m)"
  by (simp add: edit_step_def disp_request_def Let_def)

lemma request_wf: "disp_wf m \<Longrightarrow> disp_wf (disp_request c now m)"
  by (simp add: disp_wf_def disp_request_def Let_def sane_sanitize)

lemma set_temporary_edit: "edit_step m (snd (disp_set_temporary f v s now m))"
  by (simp add: edit_step_def disp_set_temporary_def Let_def split: option.split)

lemma set_temporary_wf: "disp_wf m \<Longrightarrow> disp_wf (snd (disp_set_temporary f v s now m))"
  by (auto simp: disp_wf_def disp_set_temporary_def Let_def patch_sane split: option.split)

lemma expire_edit: "edit_step m (snd (disp_expire now u m))"
  by (simp add: edit_step_def)

lemma edit_trans1: "edit_step (snd (disp_expire now u m)) n \<Longrightarrow> edit_step m n"
  by (simp add: edit_step_def)

lemma edit_refl: "edit_step m m"
  by (simp add: edit_step_def)

lemma public_edit: "edit_step m (disp_public e m)"
proof (cases e)
  case (DE_SetTemporary f v seconds now unsafe)
  then show ?thesis
    using edit_trans1 [OF set_temporary_edit] by (simp add: disp_public_def Let_def expire_edit)
next
  case (DE_SaveTemporary confirmed now unsafe)
  then show ?thesis
    using edit_trans1 [OF edit_trans1 [OF request_edit]]
    by (simp add: disp_public_def Let_def expire_edit edit_refl disp_save_temporary_def)
qed (simp_all add: disp_public_def expire_edit request_edit edit_refl disp_request_field_def
    edit_step_def [of m "snd (disp_restore m)"] split: option.split)

lemma public_wf: "disp_wf m \<Longrightarrow> disp_wf (disp_public e m)"
  by (cases e) (simp_all add: disp_public_def expire_wf request_wf Let_def disp_request_field_def
      disp_save_temporary_def set_temporary_wf disp_wf_def [of "snd (disp_restore m)"]
      disp_wf_def [of m] split: option.split)

definition disp_bound :: nat where "disp_bound = 2 ^ 32 - 1"

definition flight_ok :: "disp_world \<Rightarrow> bool" where
  "flight_ok w \<longleftrightarrow> (\<forall>r c. dw_flight w = Some (r, c) \<longrightarrow> dm_pending (dw_model w) \<and> sane c \<and>
     (\<exists>j \<le> dw_edits w. r = of_nat (1 + j) \<and> (j = dw_edits w \<longrightarrow> c = dm_config (dw_model w))))"

definition synced :: "disp_config \<Rightarrow> disp_world \<Rightarrow> bool" where
  "synced c0 w \<longleftrightarrow> (\<not> dm_pending (dw_model w) \<and> dm_error (dw_model w) = 0 \<longrightarrow>
     dw_flash w = Some (disp_encode (dm_config (dw_model w))) \<or>
     dw_edits w = 0 \<and> dm_config (dw_model w) = c0)"

definition world_inv :: "disp_config \<Rightarrow> disp_world \<Rightarrow> bool" where
  "world_inv c0 w \<longleftrightarrow> disp_wf (dw_model w) \<and> dm_revision (dw_model w) = of_nat (1 + dw_edits w) \<and>
     (dw_edits w < disp_bound \<longrightarrow> flight_ok w \<and> synced c0 w)"

lemma rev_inj: "i \<le> k \<Longrightarrow> k < disp_bound \<Longrightarrow> (of_nat (1 + i) :: u32) = of_nat (1 + k) \<Longrightarrow> i = k"
proof -
  assume "i \<le> k" "k < disp_bound" "(of_nat (1 + i) :: u32) = of_nat (1 + k)"
  moreover have "unat (of_nat (1 + i) :: u32) = 1 + i" "unat (of_nat (1 + k) :: u32) = 1 + k"
    using \<open>i \<le> k\<close> \<open>k < disp_bound\<close> by (simp_all only: unat_of_nat disp_bound_def) simp_all
  ultimately show ?thesis by simp
qed

lemma world_step_public:
  assumes inv: "world_inv c0 w" and ed: "edit_step (dw_model w) n" and wf: "disp_wf n"
    and w': "w' = w\<lparr>dw_model := n, dw_edits := dw_edits w + (if dm_revision n \<noteq> dm_revision (dw_model w) then 1 else 0)\<rparr>"
  shows "world_inv c0 w'"
  using ed
proof (cases rule: edit_stepE)
  case 1
  with inv wf show ?thesis by (auto simp: world_inv_def w' flight_ok_def synced_def)
next
  case 2
  then have e: "dw_edits w' = dw_edits w + 1" by (simp add: w')
  have "flight_ok w'" if F: "flight_ok w"
    unfolding flight_ok_def
  proof (intro allI impI)
    fix r c assume "dw_flight w' = Some (r, c)"
    with F obtain j where "sane c" "j \<le> dw_edits w" "r = of_nat (1 + j)"
      by (auto simp: flight_ok_def w')
    then have "j \<le> dw_edits w' \<and> r = of_nat (1 + j) \<and> (j = dw_edits w' \<longrightarrow> c = dm_config (dw_model w'))"
      using e by simp
    with \<open>sane c\<close> 2 show "dm_pending (dw_model w') \<and> sane c \<and>
        (\<exists>j \<le> dw_edits w'. r = of_nat (1 + j) \<and> (j = dw_edits w' \<longrightarrow> c = dm_config (dw_model w')))"
      by (auto simp: w')
  qed
  moreover have "synced c0 w'" using 2 by (simp add: synced_def w')
  ultimately show ?thesis using inv wf 2 e by (simp add: world_inv_def w')
qed

lemma world_step_inv:
  assumes "world_inv c0 w"
  shows "world_inv c0 (disp_world_step w e)"
proof -
  have pub: "world_inv c0 (let m = disp_public e (dw_model w) in
      w\<lparr>dw_model := m, dw_edits := dw_edits w + (if dm_revision m \<noteq> dm_revision (dw_model w) then 1 else 0)\<rparr>)"
    using world_step_public [OF assms public_edit public_wf refl] assms
    by (simp add: Let_def world_inv_def)
  show ?thesis
  proof (cases e)
    case (DE_WriterBegin now allowed)
    let ?m = "snd (disp_expire now False (dw_model w))"
    have I: "world_inv c0 (w\<lparr>dw_model := ?m\<rparr>)"
      using assms expire_wf by (auto simp: world_inv_def flight_ok_def synced_def)
    show ?thesis
    proof (cases "dw_flight w = None \<and> allowed \<and> disp_due now ?m")
      case True
      then have "world_inv c0 (w\<lparr>dw_model := ?m\<lparr>dm_attempted_revision := dm_revision ?m\<rparr>,
          dw_flight := Some (dm_revision ?m, dm_config ?m)\<rparr>)"
        using I by (auto simp: world_inv_def flight_ok_def synced_def disp_wf_def disp_due_def)
      with True DE_WriterBegin show ?thesis by (simp add: disp_world_step_def Let_def)
    next
      case False
      with I DE_WriterBegin show ?thesis by (auto simp: disp_world_step_def Let_def)
    qed
  next
    case (DE_WriterEnd error written)
    show ?thesis
    proof (cases "dw_flight w")
      case None
      with assms DE_WriterEnd show ?thesis by (simp add: disp_world_step_def)
    next
      case (Some rc)
      obtain r c where rc: "rc = (r, c)" by (cases rc)
      have "flight_ok (disp_world_step w e) \<and> synced c0 (disp_world_step w e)" if b: "dw_edits w < disp_bound"
      proof -
        obtain j where j: "dm_pending (dw_model w)" "j \<le> dw_edits w" "r = of_nat (1 + j)"
          "j = dw_edits w \<longrightarrow> c = dm_config (dw_model w)"
          using assms b Some rc by (auto simp: world_inv_def flight_ok_def)
        have "r = dm_revision (dw_model w) \<Longrightarrow> c = dm_config (dw_model w)"
          using rev_inj [OF j(2) b] j(3,4) assms by (simp add: world_inv_def)
        with DE_WriterEnd Some rc j show ?thesis
          by (auto simp: disp_world_step_def flight_ok_def synced_def disp_completed_def Let_def)
      qed
      moreover have "disp_wf (dw_model (disp_world_step w e))"
        "dm_revision (dw_model (disp_world_step w e)) = dm_revision (dw_model w)"
        "dw_edits (disp_world_step w e) = dw_edits w"
        using assms DE_WriterEnd Some rc
        by (auto simp: disp_world_step_def world_inv_def disp_completed_def disp_wf_def Let_def)
      ultimately show ?thesis using assms by (simp add: world_inv_def)
    qed
  qed (use pub in \<open>simp_all add: disp_world_step_def\<close>)
qed

lemma brightness_byte: "10 \<le> i \<Longrightarrow> i \<le> 100 \<Longrightarrow> 10 \<le> (of_int i :: u8) \<and> (of_int i :: u8) \<le> 100"
  by (simp add: word_le_nat_alt unat_eq_nat_uint uint_word_of_int_eq take_bit_int_eq_self
      le_nat_iff nat_le_iff)

lemma init_inv: "world_inv (dm_config (disp_init br err blob)) (disp_world0 (disp_init br err blob) flash)"
proof -
  have "sane (dm_config (disp_init br err blob))"
    using sane_default brightness_byte [of br] decode_sane
    by (auto simp: disp_init_def Let_def sane_iff disp_model0_def split: option.splits)
  then show ?thesis
    by (auto simp: world_inv_def disp_world0_def flight_ok_def synced_def disp_wf_def disp_init_def
        disp_model0_def Let_def split: option.splits)
qed

interpretation disp: event_machine disp_world_step "disp_world0 (disp_init br err blob) flash"
  "world_inv (dm_config (disp_init br err blob))" for br err blob flash
  by unfold_locales (simp_all add: init_inv world_step_inv)

lemma edits_bound: "dw_edits (foldl disp_world_step w es) \<le> dw_edits w + length es"
proof (induction es arbitrary: w)
  case Nil
  then show ?case by simp
next
  case (Cons e es)
  have "dw_edits (disp_world_step w e) \<le> dw_edits w + 1"
    by (cases e) (auto simp: disp_world_step_def Let_def split: option.split)
  with Cons [of "disp_world_step w e"] show ?case by simp
qed

section \<open>The properties\<close>

text \<open>C6: A reboot that waits for \<open>rebootSaveReady\<close> loses no setting: after any interleaving of
  calls, lease expiries and flash writes that succeed, fail or finish late (fewer than 2^32 - 1
  events, so that the revision counter does not wrap), a snapshot that is ready means that the
  flash holds a blob that decodes to the current configuration, or that nothing has been changed
  since the start.\<close>

theorem display_reboot_safe:
  assumes "w = foldl disp_world_step (disp_world0 (disp_init br err blob) flash) es"
    "length es < disp_bound" "reboot_save_ready (disp_take_snapshot now (dw_model w))"
  shows "(\<exists>b. dw_flash w = Some b \<and> disp_decode b = Some (dm_config (dw_model w))) \<or>
    (dw_edits w = 0 \<and> dm_config (dw_model w) = dm_config (disp_init br err blob))"
proof -
  have I: "world_inv (dm_config (disp_init br err blob)) w"
    unfolding assms(1) by (rule disp.inv_reachable)
  have "dw_edits w < disp_bound"
    using edits_bound [of "disp_world0 (disp_init br err blob) flash" es] assms(1,2)
    by (simp add: disp_world0_def)
  with I have "synced (dm_config (disp_init br err blob)) w" "disp_wf (dw_model w)"
    by (auto simp: world_inv_def)
  with assms(3) show ?thesis
    by (auto simp: synced_def reboot_save_ready_def disp_take_snapshot_def disp_wf_def disp_decode_encode)
qed

theorem display_reboot_safe_witness:
  "reboot_save_ready (disp_take_snapshot 9000000 (dw_model (foldl disp_world_step
      (disp_world0 (disp_init 0 ESP_NVS_NOT_FOUND None) None)
      [DE_RequestField (Some ''lock_brightness'') 7 1000000, DE_WriterBegin 5000000 True, DE_WriterEnd 0 True])))
   \<and> (\<exists>b. disp_decode b = Some (disp_default\<lparr>lock_brightness := 7\<rparr>))"
proof -
  let ?es = "[DE_RequestField (Some ''lock_brightness'') 7 1000000, DE_WriterBegin 5000000 True, DE_WriterEnd 0 True]"
  let ?w = "foldl disp_world_step (disp_world0 (disp_init 0 ESP_NVS_NOT_FOUND None) None) ?es"
  have s: "sanitize (disp_default\<lparr>lock_brightness := 7\<rparr>) = disp_default\<lparr>lock_brightness := 7\<rparr>" by code_simp
  have p: "disp_patch disp_default (Some ''lock_brightness'') 7 = Some (disp_default\<lparr>lock_brightness := 7\<rparr>)"
    by code_simp
  have ne: "disp_default\<lparr>lock_brightness := 7\<rparr> \<noteq> disp_default" by (simp add: disp_default_def)
  have w: "dm_config (dw_model ?w) = disp_default\<lparr>lock_brightness := 7\<rparr>" "dw_edits ?w = 1"
    "reboot_save_ready (disp_take_snapshot 9000000 (dw_model ?w))"
    using ne by (simp_all add: disp_world_step_def disp_world0_def disp_init_def disp_public_def ESP_NVS_NOT_FOUND_def
        disp_request_field_def disp_model0_def p disp_request_def s disp_restore_def Let_def disp_expire_def
        disp_due_def disp_completed_def reboot_save_ready_def disp_take_snapshot_def)
  have "length ?es < disp_bound" by (simp add: disp_bound_def)
  from display_reboot_safe [OF refl this w(3)] w show ?thesis by auto
qed

text \<open>C20: The admissible values are those that the code accepts: a timeout on mains of 0, 15, 30, 60, 120, 300 or 600
  seconds, on battery of 15, 30, 45 or 60 seconds, brightness between 10 and 100, on the lock screen at most 100, and lock
  intervals of 1, 2, 5, 10, 15, 30 or 60 minutes; \<open>sanitize\<close> leaves exactly these configurations unchanged and always
  answers one of them. The effective configuration, persistent or temporary, is one of them after any sequence of calls,
  whatever the flash held at boot.\<close>

theorem display_effective_sane:
  "(sanitize c = c \<longleftrightarrow> sane c) \<and> sane (sanitize c) \<and>
   sane (disp_effective (dw_model (foldl disp_world_step (disp_world0 (disp_init br err blob) flash) es)))"
  using disp.inv_reachable [of br err blob flash es] by (simp add: world_inv_def wf_effective sanitize_fixed sane_sanitize)

text \<open>A temporary setting never touches the persistent configuration: a refused call changes
  nothing at all, an accepted one shows the patched value until its lease of 30 to 600 seconds ends,
  and the first expiry check after that (or an unsafe runtime) shows the old configuration again.\<close>

theorem display_lease:
  assumes "disp_set_temporary f v seconds now m = (ok, m')" "0 \<le> now" "dm_lease_until m \<ge> 0"
  shows "(\<not> ok \<longrightarrow> m' = m) \<and>
    (ok \<longrightarrow> dm_config m' = dm_config m \<and> dm_pending m' = dm_pending m \<and> dm_revision m' = dm_revision m \<and>
       disp_patch (if dm_lease_until m \<noteq> 0 \<and> now < dm_lease_until m then dm_overlay m else dm_config m) f v =
         Some (disp_effective m') \<and>
       now + 30000000 \<le> dm_lease_until m' \<and> dm_lease_until m' \<le> now + 600000000 \<and>
       (\<forall>t u. t < dm_lease_until m' \<and> \<not> u \<longrightarrow> disp_expire t u m' = (False, m')) \<and>
       (\<forall>t u. t \<ge> dm_lease_until m' \<or> u \<longrightarrow> disp_effective (snd (disp_expire t u m')) = dm_config m))"
proof (cases ok)
  case False
  with assms(1) show ?thesis
    by (auto simp: disp_set_temporary_def Let_def split: if_splits option.splits)
next
  case True
  let ?m1 = "snd (disp_expire now False m)"
  from True assms(1) obtain n where s: "\<not> seconds < 30" "\<not> seconds > 600" and
    n: "disp_patch (if dm_lease_until m \<noteq> 0 \<and> now < dm_lease_until m then dm_overlay m else dm_config m) f v = Some n" and
    m': "m' = ?m1\<lparr>dm_overlay := n, dm_lease_until := now + uint seconds * 1000000,
        dm_runtime_revision := dm_runtime_revision ?m1 + 1\<rparr>"
    by (auto simp: disp_set_temporary_def Let_def split: if_splits option.splits)
  from s have u: "30 \<le> uint seconds" "uint seconds \<le> 600" by (auto simp: word_less_def)
  then have l: "dm_lease_until m' \<noteq> 0" "dm_lease_until m' = now + uint seconds * 1000000"
    using assms(2) by (auto simp: m')
  have e: "disp_effective m' = n" "dm_config m' = dm_config m" "dm_pending m' = dm_pending m"
    "dm_revision m' = dm_revision m"
    using l(1) by (simp_all add: disp_effective_def m')
  have x: "disp_effective (snd (disp_expire t u m')) = dm_config m" if "t \<ge> dm_lease_until m' \<or> u" for t u
    using that l(1) e(2) by (auto simp: disp_expire_def disp_restore_def disp_effective_def)
  have y: "disp_expire t u m' = (False, m')" if "t < dm_lease_until m'" "\<not> u" for t u
    using that by (simp add: disp_expire_def)
  show ?thesis using True n e x y u l(2) by auto
qed

theorem display_lease_witness:
  "\<exists>m'. disp_set_temporary (Some ''lock_brightness'') 50 60 5 disp_model0 = (True, m') \<and>
     lock_brightness (disp_effective m') = 50 \<and>
     disp_effective (snd (disp_expire 60000005 False m')) = disp_default"
proof -
  have p: "disp_patch disp_default (Some ''lock_brightness'') 50 = Some (disp_default\<lparr>lock_brightness := 50\<rparr>)"
    by code_simp
  obtain ok m' where run: "disp_set_temporary (Some ''lock_brightness'') 50 60 5 disp_model0 = (ok, m')"
    by fastforce
  then have ok: ok and le: "dm_lease_until m' = 60000005"
    by (auto simp: disp_set_temporary_def disp_model0_def p Let_def disp_expire_def)
  have z: "dm_lease_until disp_model0 = 0" "dm_config disp_model0 = disp_default" by (simp_all add: disp_model0_def)
  note L = display_lease [OF run]
  have "disp_effective m' = disp_default\<lparr>lock_brightness := 50\<rparr>"
    using L ok z p by simp
  moreover have "disp_effective (snd (disp_expire 60000005 False m')) = disp_default"
    using L ok z le by simp
  ultimately show ?thesis using run ok by simp
qed

text \<open>The settings blob round-trips for every admissible configuration, only admissible
  configurations are ever decoded, and a blob with any single byte changed is refused.\<close>

theorem display_blob_roundtrip:
  "(sane c \<longrightarrow> disp_decode (disp_encode c) = Some c \<and>
      (\<forall>i < 24. \<forall>x. x \<noteq> disp_encode c ! i \<longrightarrow> disp_decode ((disp_encode c)[i := x]) = None)) \<and>
   (disp_decode b = Some d \<longrightarrow> sane d)"
  using disp_codec.dec_enc [of c] disp_codec.enc_corrupt_rejected [of c] decode_sane by simp

theorem display_blob_roundtrip_witness:
  "disp_decode (disp_encode disp_default) = Some disp_default"
  using display_blob_roundtrip [of disp_default] sane_default by blast

end
