(* ===== verification/System_Log.thy ===== *)
theory System_Log
  imports Bounded_Fifo Crc_Seal "HOL-Library.Sublist"
begin

text \<open>
  The system log (\<open>main/host/mosaico_system_log_model.h\<close>): the 64-byte record codec, the bounded
  queue in front of the journal, the two boot captures with their independent acknowledgements,
  and the pure gates. The callbacks that emit a record are parameters of the captures.
\<close>

section \<open>Records\<close>

record log_record =
  rec_type :: u16
  rec_flags :: u16
  rec_monotonic :: u64
  rec_epoch :: u64
  rec_args :: "u32 list"

definition record_default :: log_record where
  "record_default = \<lparr>rec_type = 1, rec_flags = 0, rec_monotonic = 0, rec_epoch = 0,
     rec_args = replicate 11 0\<rparr>"

text \<open>The loop \<open>put(b,20+i*4,r.args[i],4)\<close>.\<close>

fun put_args :: "bytes \<Rightarrow> nat \<Rightarrow> u32 list \<Rightarrow> bytes" where
  "put_args b i [] = b"
| "put_args b i (a # as) = put_args (put_le b (20 + i * 4) a 4) (i + 1) as"

definition log_encode :: "log_record \<Rightarrow> bytes" where
  "log_encode r =
     put_args (put_le (put_le (put_le (put_le (replicate 64 0) 0 (rec_type r) 2) 2 (rec_flags r) 2)
       4 (rec_monotonic r) 8) 12 (rec_epoch r) 8) 0 (rec_args r)"

definition log_decode :: "bytes \<Rightarrow> log_record" where
  "log_decode b = \<lparr>rec_type = get_le b 0 2, rec_flags = get_le b 2 2, rec_monotonic = get_le b 4 8,
     rec_epoch = get_le b 12 8, rec_args = map (\<lambda>i. get_le b (20 + i * 4) 4) [0..<11]\<rparr>"

section \<open>The queue\<close>

record log_queue =
  q_data :: "bytes list"
  q_head :: nat
  q_count :: nat
  q_dropped :: u32

definition log_queue0 :: log_queue where
  "log_queue0 = \<lparr>q_data = replicate 128 (replicate 64 0), q_head = 0, q_count = 0, q_dropped = 0\<rparr>"

definition q_push :: "log_record \<Rightarrow> log_queue \<Rightarrow> bool \<times> log_queue" where
  "q_push r q =
     (if q_count q = 128 then (False, q\<lparr>q_dropped := q_dropped q + 1\<rparr>)
      else (True, q\<lparr>q_data := (q_data q)[(q_head q + q_count q) mod 128 := log_encode r],
                    q_count := q_count q + 1\<rparr>))"

definition q_push_group :: "log_record list \<Rightarrow> nat \<Rightarrow> log_queue \<Rightarrow> bool \<times> log_queue" where
  "q_push_group records n q =
     (if n = 0 \<or> n > length records \<or> q_count q > 128 \<or> n > 128 - q_count q then (False, q)
      else (True, foldl (\<lambda>q r. snd (q_push r q)) q (take n records)))"

text \<open>\<open>copy\<close>: the bytes of the first \<open>n\<close> records, in order.\<close>

definition q_copy :: "nat \<Rightarrow> log_queue \<Rightarrow> bytes list" where
  "q_copy maximum q =
     (let n = (if q_count q < maximum then q_count q else maximum) in
      map (\<lambda>i. q_data q ! ((q_head q + i) mod 128)) [0..<n])"

definition q_consume :: "nat \<Rightarrow> log_queue \<Rightarrow> bool \<times> log_queue" where
  "q_consume n q =
     (if n > q_count q then (False, q)
      else (True, q\<lparr>q_head := (q_head q + n) mod 128, q_count := q_count q - n\<rparr>))"

definition q_items :: "log_queue \<Rightarrow> bytes list" where
  "q_items q = map (\<lambda>i. q_data q ! ((q_head q + i) mod 128)) [0..<q_count q]"

definition q_wf :: "log_queue \<Rightarrow> bool" where
  "q_wf q \<longleftrightarrow> length (q_data q) = 128 \<and> q_head q < 128 \<and> q_count q \<le> 128"

section \<open>The captures\<close>

text \<open>\<open>BootCapture\<close>: the two gauge snapshots of the boot and its outcome, each emitted once.\<close>

record gauge_snap =
  gs_sampled :: u64
  gs_phase :: u8
  gs_outcome :: u8

record boot_capture =
  bc_before_ack :: gauge_snap
  bc_after_ack :: gauge_snap
  bc_before_sent :: bool
  bc_after_sent :: bool
  bc_outcome_sent :: bool
  bc_complete :: bool

definition boot_capture0 :: boot_capture where
  "boot_capture0 = \<lparr>bc_before_ack = \<lparr>gs_sampled = 0, gs_phase = 0, gs_outcome = 0\<rparr>,
     bc_after_ack = \<lparr>gs_sampled = 0, gs_phase = 0, gs_outcome = 0\<rparr>, bc_before_sent = False,
     bc_after_sent = False, bc_outcome_sent = False, bc_complete = False\<rparr>"

definition same_key :: "gauge_snap \<Rightarrow> gauge_snap \<Rightarrow> bool" where
  "same_key a b \<longleftrightarrow> gs_sampled a = gs_sampled b \<and> gs_phase a = gs_phase b \<and> gs_outcome a = gs_outcome b"

text \<open>
  \<open>emit_gauge\<close> and \<open>emit_outcome\<close> answer whether the record was accepted and thread the state of
  whatever they emit to.
\<close>

definition boot_update ::
  "(gauge_snap \<Rightarrow> 'q \<Rightarrow> bool \<times> 'q) \<Rightarrow> (u8 \<Rightarrow> bool \<Rightarrow> 'q \<Rightarrow> bool \<times> 'q) \<Rightarrow>
   gauge_snap \<Rightarrow> gauge_snap \<Rightarrow> bool \<Rightarrow> boot_capture \<times> 'q \<Rightarrow> bool \<times> boot_capture \<times> 'q" where
  "boot_update emit_gauge emit_outcome before after attempted st =
     (case st of (c, q) \<Rightarrow>
        if bc_complete c then (True, c, q)
        else if gs_phase before \<noteq> 1 \<or> gs_phase after \<noteq> 2 \<or> gs_outcome after = 0 then (False, c, q)
        else
          (case (if \<not> bc_before_sent c \<or> \<not> same_key (bc_before_ack c) before
                 then (case emit_gauge before q of (ok, q) \<Rightarrow>
                         (ok, if ok then c\<lparr>bc_before_ack := before, bc_before_sent := True\<rparr> else c, q))
                 else (True, c, q)) of
             (False, c, q) \<Rightarrow> (False, c, q)
           | (True, c, q) \<Rightarrow>
          (case (if \<not> bc_after_sent c \<or> \<not> same_key (bc_after_ack c) after
                 then (case emit_gauge after q of (ok, q) \<Rightarrow>
                         (ok, if ok then c\<lparr>bc_after_ack := after, bc_after_sent := True,
                                          bc_outcome_sent := False\<rparr> else c, q))
                 else (True, c, q)) of
             (False, c, q) \<Rightarrow> (False, c, q)
           | (True, c, q) \<Rightarrow>
          (case (if \<not> bc_outcome_sent c
                 then (case emit_outcome (gs_outcome after) attempted q of (ok, q) \<Rightarrow>
                         (ok, if ok then c\<lparr>bc_outcome_sent := True\<rparr> else c, q))
                 else (True, c, q)) of
             (False, c, q) \<Rightarrow> (False, c, q)
           | (True, c, q) \<Rightarrow> (True, c\<lparr>bc_complete := True\<rparr>, q)))))"

text \<open>\<open>PostExitCapture\<close>: two optional samples, published with the terminal outcome.\<close>

record exit_capture =
  ec_standard_sent :: bool
  ec_engine_sent :: bool
  ec_complete :: bool

definition exit_capture0 :: exit_capture where
  "exit_capture0 = \<lparr>ec_standard_sent = False, ec_engine_sent = False, ec_complete = False\<rparr>"

definition exit_update ::
  "(gauge_snap \<Rightarrow> 'q \<Rightarrow> bool \<times> 'q) \<Rightarrow> (gauge_snap \<Rightarrow> 'q \<Rightarrow> bool \<times> 'q) \<Rightarrow>
   gauge_snap \<Rightarrow> gauge_snap \<Rightarrow> u8 \<Rightarrow> exit_capture \<times> 'q \<Rightarrow> bool \<times> exit_capture \<times> 'q" where
  "exit_update emit_standard emit_engine standard engine terminal st =
     (case st of (c, q) \<Rightarrow>
        if ec_complete c then (True, c, q)
        else if terminal = 0 then (False, c, q)
        else if gs_phase standard \<noteq> 4 \<or> gs_phase engine \<noteq> 4 then (True, c\<lparr>ec_complete := True\<rparr>, q)
        else
          (case (if \<not> ec_standard_sent c
                 then (case emit_standard (standard\<lparr>gs_outcome := terminal\<rparr>) q of (ok, q) \<Rightarrow>
                         (ok, if ok then c\<lparr>ec_standard_sent := True\<rparr> else c, q))
                 else (True, c, q)) of
             (False, c, q) \<Rightarrow> (False, c, q)
           | (True, c, q) \<Rightarrow>
          (case (if \<not> ec_engine_sent c
                 then (case emit_engine (engine\<lparr>gs_outcome := terminal\<rparr>) q of (ok, q) \<Rightarrow>
                         (ok, if ok then c\<lparr>ec_engine_sent := True\<rparr> else c, q))
                 else (True, c, q)) of
             (False, c, q) \<Rightarrow> (False, c, q)
           | (True, c, q) \<Rightarrow> (True, c\<lparr>ec_complete := True\<rparr>, q))))"

section \<open>Pure gates\<close>

definition static_format_address :: "u32 \<Rightarrow> u32 \<Rightarrow> u32 \<Rightarrow> bool" where
  "static_format_address p begin_at end_at \<longleftrightarrow> begin_at < end_at \<and> p \<ge> begin_at \<and> p < end_at"

text \<open>\<open>size_t\<close> is 32 bits wide on the target.\<close>

definition startup_budget :: "u32 \<Rightarrow> u32 \<Rightarrow> u32 \<Rightarrow> u32" where
  "startup_budget free rtc_stack nand_dma =
     (let rtc = (if rtc_stack > 8192 then 8192 else rtc_stack);
          nand = (if nand_dma > 2112 then 2112 else nand_dma);
          add = rtc + nand
      in if free > -1 - add then -1 else free + add)"

text \<open>\<open>hash\<close>: FNV-1a over at most 512 characters.\<close>

definition fnv_hash :: "bytes option \<Rightarrow> u32" where
  "fnv_hash s =
     (case s of None \<Rightarrow> 2166136261
      | Some s \<Rightarrow> foldl (\<lambda>h b. (h XOR ucast b) * 16777619) 2166136261
          (take 512 (takeWhile (\<lambda>b. b \<noteq> 0) s)))"

definition power_gate :: "bool \<Rightarrow> bool \<Rightarrow> bool \<Rightarrow> bool \<Rightarrow> bool \<Rightarrow> u16 \<Rightarrow> u16 \<Rightarrow> bool" where
  "power_gate ota_idle image_valid policy2 telemetry temperature mv deci_k \<longleftrightarrow>
     ota_idle \<and> image_valid \<and> policy2 \<and> telemetry \<and> temperature \<and> mv \<ge> 3300 \<and> deci_k \<ge> 2832 \<and>
     deci_k \<le> 3181"

definition chunk_bounds :: "u16 \<Rightarrow> nat \<Rightarrow> bool" where
  "chunk_bounds index capacity \<longleftrightarrow> index < 16 \<and> capacity \<ge> 128"

section \<open>The record codec\<close>

lemma length_put_args [simp]: "length (put_args b i as) = length b"
  by (induction b i as rule: put_args.induct) simp_all

lemma get_le_put_args_below:
  "p + n \<le> 20 + i * 4 \<Longrightarrow> get_le (put_args b i as) p n = get_le b p n"
  by (induction b i as rule: put_args.induct) (simp_all add: get_le_put_other)

lemma get_le_put_args:
  "20 + (i + length as) * 4 \<le> length b \<Longrightarrow> k < length as \<Longrightarrow>
    get_le (put_args b i as) (20 + (i + k) * 4) 4 = (as ! k :: u32)"
proof (induction b i as arbitrary: k rule: put_args.induct)
  case (1 b i)
  then show ?case by simp
next
  case (2 b i a as)
  show ?case
  proof (cases k)
    case 0
    with 2(2) show ?thesis by (simp add: get_le_put_args_below codec_simps)
  next
    case (Suc j)
    with 2(1) [of j] 2(2,3) show ?thesis by simp
  qed
qed

lemma log_decode_encode: "length (rec_args r) = 11 \<Longrightarrow> log_decode (log_encode r) = r"
proof -
  assume a: "length (rec_args r) = 11"
  have "map (\<lambda>i. get_le (log_encode r) (20 + i * 4) 4) [0..<11] = rec_args r"
    using a get_le_put_args [of 0 "rec_args r"] by (intro nth_equalityI) (simp_all add: log_encode_def)
  then show ?thesis
    by (cases r) (simp add: log_decode_def log_encode_def get_le_put_args_below codec_simps)
qed

section \<open>The queue refines a bounded first-in first-out list\<close>

lemma q_slot_other:
  "q_wf q \<Longrightarrow> q_count q < 128 \<Longrightarrow> i < q_count q \<Longrightarrow> (q_head q + i) mod 128 \<noteq> (q_head q + q_count q) mod 128"
  using ring_slot_inj [of i 128 "q_count q" "q_head q"] by auto

lemma q_push_items:
  assumes "q_wf q" "q_push r q = (ok, q')"
  shows "q_wf q'" "ok \<longleftrightarrow> length (q_items q) < 128"
    "q_items q' = (if ok then q_items q @ [log_encode r] else q_items q)"
proof -
  show "q_wf q'" using assms by (auto simp: q_push_def q_wf_def split: if_splits)
  show okd: "ok \<longleftrightarrow> length (q_items q) < 128"
    using assms by (auto simp: q_push_def q_wf_def q_items_def split: if_splits)
  show "q_items q' = (if ok then q_items q @ [log_encode r] else q_items q)"
    using assms q_slot_other [OF assms(1), THEN not_sym]
    by (auto simp: q_push_def q_items_def q_wf_def nth_list_update split: if_splits)
qed

lemma q_consume_items:
  assumes "q_wf q" "q_consume n q = (ok, q')"
  shows "q_wf q'" "ok \<longleftrightarrow> n \<le> length (q_items q)"
    "q_items q' = (if ok then drop n (q_items q) else q_items q)"
proof -
  show "q_wf q'" using assms by (auto simp: q_consume_def q_wf_def split: if_splits)
  show "ok \<longleftrightarrow> n \<le> length (q_items q)"
    using assms by (auto simp: q_consume_def q_items_def split: if_splits)
  show "q_items q' = (if ok then drop n (q_items q) else q_items q)"
    using assms by (auto simp: q_consume_def q_items_def intro!: nth_equalityI split: if_splits)
      (simp_all add: mod_add_left_eq add.assoc)
qed

interpretation log_fifo: bounded_fifo q_wf q_items 128 "\<lambda>_. log_encode" q_push q_consume
proof
  show "q_wf s \<Longrightarrow> length (q_items s) \<le> 128" for s by (simp add: q_wf_def q_items_def)
  show "q_wf s \<Longrightarrow> q_consume 1 s = (ok, s') \<Longrightarrow> ok \<longleftrightarrow> q_items s \<noteq> []" for s ok s'
    using q_consume_items(2) [of s 1 ok s'] by (cases "q_items s") simp_all
qed (rule q_push_items q_consume_items; assumption)+

interpretation log_exact: exact_fifo q_wf q_items 128 log_encode q_push q_consume
  by unfold_locales (rule q_consume_items(2))

lemma log_queue0_wf: "q_wf log_queue0" "q_items log_queue0 = []"
  by (simp_all add: q_wf_def log_queue0_def q_items_def)

lemma q_push_fold:
  "q_wf q \<Longrightarrow> length (q_items q) + length rs \<le> 128 \<Longrightarrow>
    q_wf (foldl (\<lambda>q r. snd (q_push r q)) q rs) \<and>
    q_items (foldl (\<lambda>q r. snd (q_push r q)) q rs) = q_items q @ map log_encode rs"
proof (induction rs arbitrary: q)
  case Nil
  then show ?case by simp
next
  case (Cons r rs)
  obtain ok q' where p: "q_push r q = (ok, q')" by fastforce
  note P = q_push_items [OF Cons.prems(1) p]
  have ok using P(2) Cons.prems(2) by simp
  with Cons.IH [OF P(1)] P(3) Cons.prems(2) p show ?case by simp
qed

lemma q_push_group_spec:
  assumes "q_wf q" "q_push_group rs n q = (ok, q')"
  shows "q_wf q'" "ok \<longleftrightarrow> 0 < n \<and> n \<le> length rs \<and> length (q_items q) + n \<le> 128"
    "q_items q' = (if ok then q_items q @ map log_encode (take n rs) else q_items q)"
proof -
  have c: "length (q_items q) = q_count q" "q_count q \<le> 128"
    using assms(1) by (simp_all add: q_items_def q_wf_def)
  show okd: "ok \<longleftrightarrow> 0 < n \<and> n \<le> length rs \<and> length (q_items q) + n \<le> 128"
    using assms(2) c by (auto simp: q_push_group_def split: if_splits)
  show "q_wf q'" "q_items q' = (if ok then q_items q @ map log_encode (take n rs) else q_items q)"
    using assms(2) okd q_push_fold [OF assms(1), of "take n rs"] assms(1)
    by (auto simp: q_push_group_def split: if_splits)
qed


section \<open>Properties of the queue and the boot capture\<close>

text \<open>The records that a sequence of operations tries to push.\<close>

fun pushed :: "'a fifo_op list \<Rightarrow> 'a list" where
  "pushed [] = []"
| "pushed (Push x # es) = x # pushed es"
| "pushed (Take n # es) = pushed es"

lemma q_run_accepted:
  "q_wf q \<Longrightarrow> fifo_run q_push q_consume q_items (\<lambda>_. log_encode) es q = (acc, out, q') \<Longrightarrow>
    (\<exists>rs. subseq rs (pushed es) \<and> acc = map log_encode rs) \<and>
    q_dropped q' + of_nat (length acc) = q_dropped q + of_nat (length (pushed es))"
proof (induction es arbitrary: q acc out q')
  case Nil
  then show ?case by simp
next
  case (Cons e es)
  show ?case
  proof (cases e)
    case (Push r)
    obtain ok q1 where p: "q_push r q = (ok, q1)" by fastforce
    obtain acc1 out1 q2 where
      r: "fifo_run q_push q_consume q_items (\<lambda>_. log_encode) es q1 = (acc1, out1, q2)" by (metis surj_pair)
    from Cons.prems(2) Push p r have e: "acc = (if ok then [log_encode r] else []) @ acc1" "q' = q2"
      by (auto split: if_splits)
    have d: "q_dropped q1 = (if ok then q_dropped q else q_dropped q + 1)"
      using p by (auto simp: q_push_def split: if_splits)
    from Cons.IH [OF q_push_items(1) [OF Cons.prems(1) p] r] obtain rs
      where rs: "subseq rs (pushed es)" "acc1 = map log_encode rs"
        "q_dropped q2 + of_nat (length acc1) = q_dropped q1 + of_nat (length (pushed es))" by blast
    show ?thesis
    proof (cases ok)
      case True
      with rs e d Push show ?thesis
        by (auto intro!: exI [of _ "r # rs"] simp: algebra_simps)
    next
      case False
      with rs e d Push show ?thesis
        by (auto intro!: exI [of _ rs] simp: algebra_simps)
    qed
  next
    case (Take n)
    obtain ok q1 where t: "q_consume n q = (ok, q1)" by fastforce
    obtain acc1 out1 q2 where
      r: "fifo_run q_push q_consume q_items (\<lambda>_. log_encode) es q1 = (acc1, out1, q2)" by (metis surj_pair)
    have "q_dropped q1 = q_dropped q" using t by (auto simp: q_consume_def split: if_splits)
    with Cons.IH [OF q_consume_items(1) [OF Cons.prems(1) t] r] Cons.prems(2) Take t r
    show ?thesis by (auto split: if_splits)
  qed
qed

lemma bounded_run_history:
  "bounded_run n es l = (a, p, l') \<Longrightarrow> l @ a = p @ l' \<and> set a \<subseteq> set (pushed es)"
proof (induction n es l arbitrary: a p l' rule: bounded_run.induct)
  case (3 cap n es l)
  then show ?case by (auto split: if_splits prod.splits) (metis append.assoc append_take_drop_id)
qed (auto split: if_splits prod.splits)

lemma decode_records:
  "(\<forall>r \<in> set rs. length (rec_args r) = 11) \<Longrightarrow> map log_decode (map log_encode rs) = rs"
  by (induction rs) (simp_all add: log_decode_encode)

text \<open>C9: The queue of the system log is a first-in first-out queue of exactly 128 places: whatever is pushed and
  acknowledged, in any order, the records accepted, the records removed and the records still queued, each decoded again,
  are those of the list of at most 128 records to which a push is added exactly when there is room, and of which as many
  are removed as asked for when there are as many. So a push is refused exactly when 128 records are queued, nothing
  accepted is lost, reordered or duplicated, and the drop counter, modulo \<open>2^32\<close>, counts the refused records.\<close>

theorem system_log_delivery:
  assumes "\<forall>r \<in> set (pushed es). length (rec_args r) = 11"
    and "fifo_run q_push q_consume q_items (\<lambda>_. log_encode) es log_queue0 = (acc, out, q)"
  shows "bounded_run 128 es [] = (map log_decode acc, map log_decode out, map log_decode (q_items q)) \<and>
    subseq (map log_decode acc) (pushed es) \<and> acc = out @ q_items q \<and>
    (\<forall>r. fst (q_push r q) \<longleftrightarrow> length (q_items q) < 128) \<and> length (q_items q) \<le> 128 \<and>
    q_dropped q = of_nat (length (pushed es) - length acc)"
proof -
  have h: "acc = out @ q_items q" "length (q_items q) \<le> 128" "q_wf q"
    using log_fifo.history [OF log_queue0_wf(1) assms(2)] log_queue0_wf(2) by simp_all
  from q_run_accepted [OF log_queue0_wf(1) assms(2)] obtain rs
    where rs: "subseq rs (pushed es)" "acc = map log_encode rs"
      "q_dropped q + of_nat (length acc) = of_nat (length (pushed es))"
    by (auto simp: log_queue0_def)
  have "set rs \<subseteq> set (pushed es)" using rs(1) by (auto dest: list_emb_set)
  with assms(1) have args: "\<forall>r \<in> set rs. length (rec_args r) = 11" by blast
  have dec: "map log_decode acc = rs" unfolding rs(2) by (rule decode_records [OF args])
  from log_exact.refines [OF log_queue0_wf(1) _ assms(2), of "[]"] log_queue0_wf(2) obtain a p l
    where b: "bounded_run 128 es [] = (a, p, l)" "acc = map log_encode a" "out = map log_encode p" "q_items q = map log_encode l"
    by auto
  have apl: "a = p @ l" "\<forall>r \<in> set a. length (rec_args r) = 11"
    using bounded_run_history [OF b(1)] assms(1) by auto
  then have "map log_decode acc = a" "map log_decode out = p" "map log_decode (q_items q) = l"
    unfolding b(2-4) by (auto intro!: decode_records simp del: map_map)
  moreover have "length acc \<le> length (pushed es)" using rs(1,2) by (simp add: list_emb_length)
  with rs(3) have "q_dropped q = of_nat (length (pushed es) - length acc)"
    by (metis add_diff_cancel_right' of_nat_diff)
  moreover have "fst (q_push r q) \<longleftrightarrow> length (q_items q) < 128" for r
    using log_fifo.push_ok [OF h(3), of r "fst (q_push r q)" "snd (q_push r q)"] by simp
  ultimately show ?thesis using h(1,2) rs(1) b(1) dec by simp
qed

text \<open>129 records are pushed and two removed: the last one is refused, and 126 stay.\<close>

lemma system_log_delivery_witness:
  "\<exists>acc out q. fifo_run q_push q_consume q_items (\<lambda>_. log_encode) (replicate 129 (Push record_default) @ [Take 2]) log_queue0 =
     (acc, out, q) \<and> length acc = 128 \<and> map log_decode out = [record_default, record_default] \<and> length (q_items q) = 126 \<and>
     q_dropped q = 1"
proof -
  let ?es = "replicate 129 (Push record_default) @ [Take 2]"
  obtain acc out q where r: "fifo_run q_push q_consume q_items (\<lambda>_. log_encode) ?es log_queue0 = (acc, out, q)" by (metis surj_pair)
  have p: "pushed ?es = replicate 129 record_default" by code_simp
  have b: "bounded_run 128 ?es [] = (replicate 128 record_default, replicate 2 record_default, replicate 126 record_default)"
    by code_simp
  have "\<forall>r \<in> set (pushed ?es). length (rec_args r) = 11" unfolding p by (simp add: record_default_def)
  note t = system_log_delivery [OF this r, unfolded b p]
  have l: "length (map log_decode acc) = 128" "map log_decode out = replicate 2 record_default"
    "length (map log_decode (q_items q)) = 126"
    using t by (metis Pair_inject length_replicate)+
  then have "length acc = 128" "length (q_items q) = 126" by simp_all
  then show ?thesis using r t l(2) by (intro exI [of _ acc] exI [of _ out] exI [of _ q]) (simp add: numeral_2_eq_2)
qed

text \<open>
  The boot evidence against the real queue: rounds of one \<open>update\<close> followed by the removal of
  some records. \<open>g\<close> and \<open>o\<close> build the record of a snapshot and of the outcome.
\<close>

fun boot_run ::
  "(gauge_snap \<Rightarrow> log_record) \<Rightarrow> (u8 \<Rightarrow> bool \<Rightarrow> log_record) \<Rightarrow> gauge_snap \<Rightarrow> gauge_snap \<Rightarrow> bool \<Rightarrow>
   nat list \<Rightarrow> boot_capture \<times> log_queue \<Rightarrow> bytes list \<times> boot_capture \<times> log_queue" where
  "boot_run g oc before after at [] (c, q) = ([], c, q)"
| "boot_run g oc before after at (k # ks) (c, q) =
     (case boot_update (\<lambda>s. q_push (g s)) (\<lambda>x y. q_push (oc x y)) before after at (c, q) of (_, c1, q1) \<Rightarrow>
       (case q_consume k q1 of (ok, q2) \<Rightarrow>
         (case boot_run g oc before after at ks (c1, q2) of (out, c3, q3) \<Rightarrow>
           ((if ok then take k (q_items q1) else []) @ out, c3, q3))))"

text \<open>How much of the evidence a capture has delivered.\<close>

definition boot_sent :: "gauge_snap \<Rightarrow> gauge_snap \<Rightarrow> boot_capture \<Rightarrow> nat \<Rightarrow> bool" where
  "boot_sent before after c m \<longleftrightarrow>
     (m = 0 \<and> \<not> bc_before_sent c \<and> \<not> bc_after_sent c \<and> \<not> bc_outcome_sent c \<and> \<not> bc_complete c) \<or>
     (m = 1 \<and> bc_before_sent c \<and> bc_before_ack c = before \<and> \<not> bc_after_sent c \<and> \<not> bc_outcome_sent c \<and>
       \<not> bc_complete c) \<or>
     (m = 2 \<and> bc_before_sent c \<and> bc_before_ack c = before \<and> bc_after_sent c \<and> bc_after_ack c = after \<and>
       \<not> bc_outcome_sent c \<and> \<not> bc_complete c) \<or>
     (m = 3 \<and> bc_complete c)"

lemma same_key_refl [simp]: "same_key s s" by (simp add: same_key_def)

lemma q_push_cases:
  assumes "q_wf q"
  obtains q' where "q_push r q = (length (q_items q) < 128, q')" "q_wf q'"
    "q_items q' = q_items q @ (if length (q_items q) < 128 then [log_encode r] else [])"
proof -
  obtain ok q' where p: "q_push r q = (ok, q')" by fastforce
  show thesis using q_push_items [OF assms p] p by (intro that [of q']) auto
qed

text \<open>The three stages of an update, each starting from the evidence the earlier ones delivered.\<close>

definition boot_stage3 :: "(u8 \<Rightarrow> bool \<Rightarrow> log_record) \<Rightarrow> gauge_snap \<Rightarrow> bool \<Rightarrow> boot_capture \<times> log_queue \<Rightarrow>
    bool \<times> boot_capture \<times> log_queue" where
  "boot_stage3 oc after at st = (case st of (c, q) \<Rightarrow>
     (case q_push (oc (gs_outcome after) at) q of
        (False, q) \<Rightarrow> (False, c, q)
      | (True, q) \<Rightarrow> (True, c\<lparr>bc_outcome_sent := True, bc_complete := True\<rparr>, q)))"

lemma boot_stage3_spec:
  assumes "q_wf q" "boot_sent before after c 2" "boot_stage3 oc after at (c, q) = (ok, c', q')"
  shows "q_wf q' \<and> boot_sent before after c' (if ok then 3 else 2) \<and> (ok \<longleftrightarrow> length (q_items q) < 128) \<and>
    q_items q' = q_items q @ (if ok then [log_encode (oc (gs_outcome after) at)] else [])"
  by (rule q_push_cases [OF assms(1), of "oc (gs_outcome after) at"])
    (use assms(2,3) in \<open>auto simp: boot_stage3_def boot_sent_def split: bool.splits\<close>)

definition boot_stage2 :: "(gauge_snap \<Rightarrow> log_record) \<Rightarrow> (u8 \<Rightarrow> bool \<Rightarrow> log_record) \<Rightarrow> gauge_snap \<Rightarrow> bool \<Rightarrow>
    boot_capture \<times> log_queue \<Rightarrow> bool \<times> boot_capture \<times> log_queue" where
  "boot_stage2 g oc after at st = (case st of (c, q) \<Rightarrow>
     (case q_push (g after) q of
        (False, q) \<Rightarrow> (False, c, q)
      | (True, q) \<Rightarrow> boot_stage3 oc after at
          (c\<lparr>bc_after_ack := after, bc_after_sent := True, bc_outcome_sent := False\<rparr>, q)))"

lemma boot_stage2_spec:
  assumes "q_wf q" "boot_sent before after c 1" "boot_stage2 g oc after at (c, q) = (ok, c', q')"
  shows "\<exists>m. q_wf q' \<and> boot_sent before after c' m \<and> 1 \<le> m \<and> m \<le> 3 \<and> (ok \<longleftrightarrow> m = 3) \<and>
    (ok \<longleftrightarrow> length (q_items q) + 1 < 128) \<and>
    q_items q' = q_items q @ take (m - 1) [log_encode (g after), log_encode (oc (gs_outcome after) at)]"
proof (rule q_push_cases [OF assms(1), of "g after"])
  fix q1
  assume p: "q_push (g after) q = (length (q_items q) < 128, q1)" "q_wf q1"
    "q_items q1 = q_items q @ (if length (q_items q) < 128 then [log_encode (g after)] else [])"
  show ?thesis
  proof (cases "length (q_items q) < 128")
    case False
    with assms(1,2,3) p show ?thesis by (intro exI [of _ 1]) (auto simp: boot_stage2_def)
  next
    case True
    let ?c = "c\<lparr>bc_after_ack := after, bc_after_sent := True, bc_outcome_sent := False\<rparr>"
    have r: "boot_stage3 oc after at (?c, q1) = (ok, c', q')" using assms(3) p True by (simp add: boot_stage2_def)
    have "boot_sent before after ?c 2" using assms(2) by (auto simp: boot_sent_def)
    from boot_stage3_spec [OF p(2) this r] p(3) True show ?thesis
      by (intro exI [of _ "if ok then 3 else 2"]) auto
  qed
qed

lemma boot_update_0:
  assumes "gs_phase before = 1" "gs_phase after = 2" "gs_outcome after \<noteq> 0" "boot_sent before after c 0"
  shows "boot_update (\<lambda>s. q_push (g s)) (\<lambda>x y. q_push (oc x y)) before after at (c, q) =
     (case q_push (g before) q of
        (False, q) \<Rightarrow> (False, c, q)
      | (True, q) \<Rightarrow> boot_stage2 g oc after at (c\<lparr>bc_before_ack := before, bc_before_sent := True\<rparr>, q))"
  using assms by (auto simp: boot_update_def boot_stage2_def boot_stage3_def boot_sent_def
      split: prod.splits bool.splits)

lemma boot_update_1:
  assumes "gs_phase before = 1" "gs_phase after = 2" "gs_outcome after \<noteq> 0" "boot_sent before after c 1"
  shows "boot_update (\<lambda>s. q_push (g s)) (\<lambda>x y. q_push (oc x y)) before after at (c, q) =
     boot_stage2 g oc after at (c, q)"
  using assms by (auto simp: boot_update_def boot_stage2_def boot_stage3_def boot_sent_def
      split: prod.splits bool.splits)

lemma boot_update_2:
  assumes "gs_phase before = 1" "gs_phase after = 2" "gs_outcome after \<noteq> 0" "boot_sent before after c 2"
  shows "boot_update (\<lambda>s. q_push (g s)) (\<lambda>x y. q_push (oc x y)) before after at (c, q) =
     boot_stage3 oc after at (c, q)"
  using assms by (auto simp: boot_update_def boot_stage3_def boot_sent_def split: prod.splits bool.splits)

lemma boot_update_3:
  "boot_sent before after c 3 \<Longrightarrow> boot_update eg eo before after at (c, q) = (True, c, q)"
  by (auto simp: boot_update_def boot_sent_def)

text \<open>The evidence in order.\<close>

definition boot_evidence where
  "boot_evidence g oc before after at = map log_encode [g before, g after, oc (gs_outcome after) at]"

lemma boot_update_step:
  assumes ph: "gs_phase before = 1" "gs_phase after = 2" "gs_outcome after \<noteq> 0"
    and wf: "q_wf q" and m: "boot_sent before after c m"
    and u: "boot_update (\<lambda>s. q_push (g s)) (\<lambda>x y. q_push (oc x y)) before after at (c, q) = (ok, c', q')"
  shows "\<exists>m'. q_wf q' \<and> m \<le> m' \<and> m' \<le> 3 \<and> boot_sent before after c' m' \<and> (ok \<longleftrightarrow> m' = 3) \<and>
    q_items q' = q_items q @ drop m (take m' (boot_evidence g oc before after at))"
proof -
  consider "m = 0" | "m = 1" | "m = 2" | "m = 3" using m by (auto simp: boot_sent_def)
  then show ?thesis
  proof cases
    case 1
    show ?thesis
    proof (rule q_push_cases [OF wf, of "g before"])
      fix q1
      assume p: "q_push (g before) q = (length (q_items q) < 128, q1)" "q_wf q1"
        "q_items q1 = q_items q @ (if length (q_items q) < 128 then [log_encode (g before)] else [])"
      let ?c = "c\<lparr>bc_before_ack := before, bc_before_sent := True\<rparr>"
      show ?thesis
      proof (cases "length (q_items q) < 128")
        case False
        with 1 m u p boot_update_0 [OF ph m [unfolded 1]] show ?thesis by (intro exI [of _ 0]) auto
      next
        case True
        have r: "boot_stage2 g oc after at (?c, q1) = (ok, c', q')"
          using u p True boot_update_0 [OF ph m [unfolded 1]] by simp
        have "boot_sent before after ?c 1" using m 1 by (auto simp: boot_sent_def)
        from boot_stage2_spec [OF p(2) this r] obtain k where k: "q_wf q'" "boot_sent before after c' k"
          "1 \<le> k" "k \<le> 3" "ok \<longleftrightarrow> k = 3"
          "q_items q' = q_items q1 @ take (k - 1) [log_encode (g after), log_encode (oc (gs_outcome after) at)]"
          by blast
        have "take k (boot_evidence g oc before after at) = log_encode (g before) #
            take (k - 1) [log_encode (g after), log_encode (oc (gs_outcome after) at)]"
          using k(3) by (cases k) (simp_all add: boot_evidence_def)
        with 1 k p(3) True show ?thesis by (intro exI [of _ k]) simp
      qed
    qed
  next
    case 2
    from u boot_update_1 [OF ph m [unfolded 2]]
    have r: "boot_stage2 g oc after at (c, q) = (ok, c', q')" by simp
    from boot_stage2_spec [OF wf m [unfolded 2] r] obtain k where k: "q_wf q'" "boot_sent before after c' k"
      "1 \<le> k" "k \<le> 3" "ok \<longleftrightarrow> k = 3"
      "q_items q' = q_items q @ take (k - 1) [log_encode (g after), log_encode (oc (gs_outcome after) at)]"
      by blast
    have "drop 1 (take k (boot_evidence g oc before after at)) =
        take (k - 1) [log_encode (g after), log_encode (oc (gs_outcome after) at)]"
      using k(3) by (cases k) (simp_all add: boot_evidence_def)
    with 2 k show ?thesis by (intro exI [of _ k]) simp
  next
    case 3
    from u boot_update_2 [OF ph m [unfolded 3]]
    have r: "boot_stage3 oc after at (c, q) = (ok, c', q')" by simp
    have "drop 2 (take (if ok then 3 else 2) (boot_evidence g oc before after at)) =
        (if ok then [log_encode (oc (gs_outcome after) at)] else [])"
      by (simp add: boot_evidence_def)
    with boot_stage3_spec [OF wf m [unfolded 3] r] 3 show ?thesis
      by (intro exI [of _ "if ok then 3 else 2"]) auto
  next
    case 4
    have "ok" "c' = c" "q' = q"
      using u [unfolded boot_update_3 [OF m [unfolded 4]]] by simp_all
    with 4 wf m show ?thesis by (intro exI [of _ 3]) auto
  qed
qed

lemma drop_take_split:
  assumes "m \<le> k" "k \<le> n"
  shows "drop m (take n xs) = drop m (take k xs) @ drop k (take n xs)"
proof -
  have "take n xs = take k xs @ drop k (take n xs)"
    using append_take_drop_id [of k "take n xs"] assms(2) by (simp add: min_def)
  then have "drop m (take n xs) = drop m (take k xs) @ drop (m - length (take k xs)) (drop k (take n xs))"
    by (metis drop_append)
  with assms(1) show ?thesis by (cases "k \<le> length xs") simp_all
qed

lemma boot_run_prefix:
  assumes ph: "gs_phase before = 1" "gs_phase after = 2" "gs_outcome after \<noteq> 0"
  shows "q_wf q \<Longrightarrow> boot_sent before after c m \<Longrightarrow> m \<le> 3 \<Longrightarrow>
    boot_run g oc before after at ks (c, q) = (out, c', q') \<Longrightarrow>
    \<exists>m'. m \<le> m' \<and> m' \<le> 3 \<and> boot_sent before after c' m' \<and>
      out @ q_items q' = q_items q @ drop m (take m' (boot_evidence g oc before after at))"
proof (induction ks arbitrary: c q m out)
  case Nil
  then show ?case by (intro exI [of _ m]) simp
next
  case (Cons k ks)
  obtain ok1 c1 q1 where u: "boot_update (\<lambda>s. q_push (g s)) (\<lambda>x y. q_push (oc x y)) before after at (c, q) =
    (ok1, c1, q1)" by (metis surj_pair)
  obtain ok2 q2 where t: "q_consume k q1 = (ok2, q2)" by fastforce
  obtain out1 c3 q3 where r: "boot_run g oc before after at ks (c1, q2) = (out1, c3, q3)" by (metis surj_pair)
  from boot_update_step [OF ph Cons.prems(1,2) u] obtain m1 where m1: "q_wf q1" "m \<le> m1" "m1 \<le> 3"
    "boot_sent before after c1 m1" "q_items q1 = q_items q @ drop m (take m1 (boot_evidence g oc before after at))" by blast
  note T = q_consume_items [OF m1(1) t]
  from Cons.prems(4) u t r have e: "out = (if ok2 then take k (q_items q1) else []) @ out1"
    "c' = c3" "q' = q3" by (auto split: if_splits)
  from Cons.IH [OF T(1) m1(4) m1(3)] r e obtain m2 where m2: "m1 \<le> m2" "m2 \<le> 3" "boot_sent before after c' m2"
    "out1 @ q_items q' = q_items q2 @ drop m1 (take m2 (boot_evidence g oc before after at))" by blast
  have "drop m (take m2 (boot_evidence g oc before after at)) = drop m (take m1 (boot_evidence g oc before after at)) @ drop m1 (take m2 (boot_evidence g oc before after at))"
    using m1(2) m2(1) by (rule drop_take_split)
  moreover have "out @ q_items q' = q_items q1 @ drop m1 (take m2 (boot_evidence g oc before after at))"
  proof -
    have "(if ok2 then take k (q_items q1) else []) @ q_items q2 = q_items q1" using T(3) by simp
    with e(1) m2(4) show ?thesis by (metis append.assoc)
  qed
  ultimately have "out @ q_items q' = q_items q @ drop m (take m2 (boot_evidence g oc before after at))"
    using m1(5) by simp
  with m1(2) m2 show ?case by (intro exI [of _ m2]) simp
qed

text \<open>The boot evidence reaches the log exactly once and in order, however often the update is
  retried against a full queue and however the writer drains it: what left the queue followed by
  what is still queued is what was there before, followed by the first \<open>m\<close> of the three evidence
  records, and the capture calls itself complete exactly when all three were accepted.\<close>

theorem boot_capture_once:
  assumes "gs_phase before = 1" "gs_phase after = 2" "gs_outcome after \<noteq> 0" "q_wf q"
    "boot_run g oc before after at ks (boot_capture0, q) = (out, c, q')"
  shows "\<exists>m \<le> 3. out @ q_items q' = q_items q @ take m (boot_evidence g oc before after at) \<and>
    (bc_complete c \<longleftrightarrow> m = 3)"
proof -
  have "boot_sent before after boot_capture0 0" by (simp add: boot_sent_def boot_capture0_def)
  from boot_run_prefix [OF assms(1-4) this _ assms(5)] obtain m where m: "m \<le> 3" "boot_sent before after c m"
    "out @ q_items q' = q_items q @ take m (boot_evidence g oc before after at)" by auto
  have "bc_complete c \<longleftrightarrow> m = 3" using m(2) by (auto simp: boot_sent_def)
  with m show ?thesis by blast
qed

lemma boot_capture_once_witness:
  "\<exists>out c q'. boot_run (\<lambda>s. record_default\<lparr>rec_flags := ucast (gs_phase s)\<rparr>) (\<lambda>x y. record_default)
     \<lparr>gs_sampled = 5, gs_phase = 1, gs_outcome = 0\<rparr> \<lparr>gs_sampled = 9, gs_phase = 2, gs_outcome = 1\<rparr> True
     [0, 1, 1] (boot_capture0, log_queue0) = (out, c, q') \<and> length (out @ q_items q') \<le> 3"
proof -
  let ?g = "\<lambda>s. record_default\<lparr>rec_flags := ucast (gs_phase s)\<rparr>" and ?o = "\<lambda>(x :: u8) (y :: bool). record_default"
  let ?b = "\<lparr>gs_sampled = 5, gs_phase = 1, gs_outcome = 0\<rparr>" and ?a = "\<lparr>gs_sampled = 9, gs_phase = 2, gs_outcome = 1\<rparr>"
  obtain out c q' where r: "boot_run ?g ?o ?b ?a True [0, 1, 1] (boot_capture0, log_queue0) = (out, c, q')"
    by (metis surj_pair)
  have "gs_phase ?b = 1" "gs_phase ?a = 2" "gs_outcome ?a \<noteq> 0" by simp_all
  from boot_capture_once [OF this log_queue0_wf(1) r] log_queue0_wf(2)
  have "length (out @ q_items q') \<le> 3" by (auto simp del: length_append)
  with r show ?thesis by blast
qed

end
