(* ===== verification/Twt_Trial.thy ===== *)
theory Twt_Trial
  imports Bounded_Fifo Prelude_Words
begin

text \<open>
  The target-wake-time trial of the Wi-Fi link (\<open>main/host/mosaico_twt_model.h\<close>): the request
  encoding, the state machine of one leased trial, and the ring of cycle reports. Times are the
  microseconds since boot (\<open>int64_t\<close>, never near overflow), read here as \<open>int\<close>.
\<close>

section \<open>Modes, stages and the request word\<close>

datatype twt_mode = TM_Off | TM_Baseline | TM_On
datatype twt_profile = TP_Default | TP_AnnouncedTrigger | TP_WideServiceWindow
datatype twt_stage = TS_Off | TS_Armed | TS_Negotiating | TS_Active | TS_Baseline | TS_Failed
datatype twt_stop = Stop_None | Stop_Explicit | Stop_Expired | Stop_Unsupported | Stop_Rejected
  | Stop_Timeout | Stop_Lost | Stop_Ota | Stop_Awake | Stop_Driver | Stop_Invalid

definition valid_lease :: "u32 \<Rightarrow> bool" where
  "valid_lease seconds \<longleftrightarrow> seconds = 600 \<or> seconds = 1800"

fun mode_code :: "twt_mode \<Rightarrow> int" where
  "mode_code TM_Off = 0" | "mode_code TM_Baseline = 1" | "mode_code TM_On = 2"

definition encode_request :: "twt_mode \<Rightarrow> u32 \<Rightarrow> twt_profile \<Rightarrow> int" where
  "encode_request mode seconds profile =
     (if mode = TM_Off then 0
      else if \<not> valid_lease seconds \<or> (mode = TM_Baseline \<and> profile \<noteq> TP_Default) then -1
      else mode_code mode OR (if seconds = 1800 then 4 else 0) OR
        (case profile of TP_AnnouncedTrigger \<Rightarrow> 8 | TP_WideServiceWindow \<Rightarrow> 16 | TP_Default \<Rightarrow> 0))"

section \<open>The trial\<close>

record twt_result =
  tr_id :: u16
  tr_mantissa :: u16
  tr_flow :: u8
  tr_exponent :: u8
  tr_duration :: u8
  tr_unit :: u8
  tr_reason :: u8
  tr_trigger :: u8
  tr_flow_type :: u8
  tr_status :: int
  tr_target_wake :: u64

definition twt_result0 :: twt_result where
  "twt_result0 = \<lparr>tr_id = 0, tr_mantissa = 0, tr_flow = 0, tr_exponent = 0, tr_duration = 0, tr_unit = 0,
     tr_reason = 0, tr_trigger = 0, tr_flow_type = 0, tr_status = 0, tr_target_wake = 0\<rparr>"

record sta_disconnect =
  sd_reason :: u16
  sd_owner :: u16
  sd_event :: int
  sd_valid :: bool

record twt_snapshot =
  ts_requested :: twt_mode
  ts_profile :: twt_profile
  ts_stage :: twt_stage
  ts_stop :: twt_stop
  ts_last_failure :: twt_stop
  ts_id :: u16
  ts_lease :: u32
  ts_expiry :: int
  ts_bootstrap :: int
  ts_setup :: int
  ts_cleanup_deadline :: int
  ts_cleanup_stage :: u8
  ts_flags :: "bool list"
  ts_errors :: "int list"
  ts_actual :: twt_result
  ts_disconnect :: sta_disconnect
  ts_interval :: u64
  ts_duration :: u64
  ts_fetch :: u64
  ts_fetch_attempts :: u32
  ts_fetch_ok :: u32
  ts_losses :: u32
  ts_late :: u32

text \<open>
  \<open>ts_flags\<close> are \<open>apAx, associated, controlReady, cleanupPending, cleanupFailed\<close> and
  \<open>ts_errors\<close> are \<open>phy, error, restoreError, teardownError\<close>, which the trial only resets.
\<close>

definition twt_snapshot0 :: twt_snapshot where
  "twt_snapshot0 = \<lparr>ts_requested = TM_Off, ts_profile = TP_Default, ts_stage = TS_Off, ts_stop = Stop_None,
     ts_last_failure = Stop_None, ts_id = 0, ts_lease = 600, ts_expiry = 0, ts_bootstrap = 0, ts_setup = 0,
     ts_cleanup_deadline = 0, ts_cleanup_stage = 0, ts_flags = [False, False, False, False, False],
     ts_errors = [-1, 0, 0, 0], ts_actual = twt_result0,
     ts_disconnect = \<lparr>sd_reason = 0, sd_owner = 0, sd_event = 0, sd_valid = False\<rparr>,
     ts_interval = 0, ts_duration = 0, ts_fetch = 0, ts_fetch_attempts = 0, ts_fetch_ok = 0,
     ts_losses = 0, ts_late = 0\<rparr>"

record twt_model =
  tw_state :: twt_snapshot
  tw_next :: u16

definition twt_model0 :: twt_model where
  "twt_model0 = \<lparr>tw_state = twt_snapshot0, tw_next = 0\<rparr>"

abbreviation on_state :: "(twt_snapshot \<Rightarrow> twt_snapshot) \<Rightarrow> twt_model \<Rightarrow> twt_model" where
  "on_state f m \<equiv> m\<lparr>tw_state := f (tw_state m)\<rparr>"

definition twt_live :: "twt_model \<Rightarrow> bool" where
  "twt_live m \<longleftrightarrow> ts_stage (tw_state m) = TS_Armed \<or> ts_stage (tw_state m) = TS_Negotiating \<or>
     ts_stage (tw_state m) = TS_Active \<or> ts_stage (tw_state m) = TS_Baseline"

definition twt_end :: "twt_stop \<Rightarrow> twt_model \<Rightarrow> twt_model" where
  "twt_end why m =
     (let stage = (if why = Stop_Explicit \<or> why = Stop_Expired \<or> why = Stop_Ota \<or> why = Stop_Awake
                   then TS_Off else TS_Failed) in
      on_state (\<lambda>s. s\<lparr>ts_profile := TP_Default, ts_stop := why, ts_stage := stage,
          ts_last_failure := (if stage = TS_Failed then why else ts_last_failure s),
          ts_expiry := 0, ts_bootstrap := 0, ts_setup := 0\<rparr>) m)"

definition twt_start :: "twt_mode \<Rightarrow> int \<Rightarrow> u32 \<Rightarrow> twt_profile \<Rightarrow> twt_model \<Rightarrow> bool \<times> twt_model" where
  "twt_start mode now lease profile m =
     (if mode = TM_Off then (True, twt_end Stop_Explicit (on_state (\<lambda>s. s\<lparr>ts_requested := TM_Off\<rparr>) m))
      else if encode_request mode lease profile < 0 \<or> tw_next m = 32767 then (False, m)
      else (True, \<lparr>tw_state = twt_snapshot0\<lparr>ts_disconnect := ts_disconnect (tw_state m),
              ts_profile := (if mode = TM_On then profile else TP_Default), ts_requested := mode,
              ts_id := tw_next m + 1, ts_lease := lease, ts_stage := TS_Armed,
              ts_expiry := now + uint lease * 1000000, ts_bootstrap := now + 60 * 1000000\<rparr>,
            tw_next = tw_next m + 1\<rparr>))"

definition record_disconnect :: "u16 \<Rightarrow> int \<Rightarrow> bool \<Rightarrow> twt_model \<Rightarrow> twt_model" where
  "record_disconnect reason event valid m =
     on_state (\<lambda>s. s\<lparr>ts_disconnect := \<lparr>sd_reason = reason, sd_owner = ts_id s, sd_event = event,
                                      sd_valid = valid\<rparr>\<rparr>) m"

definition twt_check :: "int \<Rightarrow> bool \<Rightarrow> bool \<Rightarrow> twt_model \<Rightarrow> bool \<times> twt_model" where
  "twt_check now ota locked m =
     (if \<not> twt_live m then (False, m)
      else
        (let s = tw_state m;
             m' = (if ota then twt_end Stop_Ota m
                   else if now \<ge> ts_expiry s then twt_end Stop_Expired m
                   else if \<not> locked then twt_end Stop_Awake m
                   else if ts_stage s = TS_Armed \<and> now \<ge> ts_bootstrap s then twt_end Stop_Timeout m
                   else if ts_stage s = TS_Negotiating \<and> now \<ge> ts_setup s then twt_end Stop_Timeout m
                   else m)
         in (twt_live m', m')))"

definition bootstrap_ready :: "int \<Rightarrow> twt_model \<Rightarrow> bool \<times> twt_model" where
  "bootstrap_ready now m =
     (if ts_stage (tw_state m) \<noteq> TS_Armed then (False, m)
      else
        (case twt_check now False True m of
           (False, m) \<Rightarrow> (False, m)
         | (True, m) \<Rightarrow>
             (True, on_state (\<lambda>s. let stage = (if ts_requested s = TM_Baseline then TS_Baseline
                                               else TS_Negotiating) in
                s\<lparr>ts_bootstrap := 0, ts_stage := stage,
                  ts_setup := (if stage = TS_Negotiating then now + 10 * 1000000 else 0)\<rparr>) m)))"

definition twt_accept :: "twt_result \<Rightarrow> twt_model \<Rightarrow> bool \<times> twt_model" where
  "twt_accept r m =
     (if ts_stage (tw_state m) \<noteq> TS_Negotiating \<or> tr_id r \<noteq> ts_id (tw_state m)
      then (False, on_state (\<lambda>s. s\<lparr>ts_late := ts_late s + 1\<rparr>) m)
      else
        (let interval = (if tr_exponent r \<le> 31
                         then push_bit (unat (tr_exponent r)) (ucast (tr_mantissa r)) else 0 :: u64);
             duration = (ucast (tr_duration r) :: u64) * (if tr_unit r \<noteq> 0 then 1024 else 256);
             m1 = on_state (\<lambda>s. s\<lparr>ts_actual := r, ts_interval := interval, ts_duration := duration\<rparr>) m
         in if tr_status r \<noteq> 1 then (False, twt_end Stop_Rejected m1)
            else if tr_mantissa r = 0 \<or> tr_duration r = 0 \<or> tr_exponent r > 31 \<or> tr_flow r > 7 \<or>
                    tr_unit r > 1 \<or> interval > 2000000 \<or> duration \<ge> interval
                 then (False, twt_end Stop_Invalid m1)
            else (True, on_state (\<lambda>s. s\<lparr>ts_stage := TS_Active, ts_setup := 0\<rparr>) m1)))"

section \<open>Any sequence of calls\<close>

datatype twt_event =
    TE_Start twt_mode int u32 twt_profile
  | TE_Disconnect u16 int bool
  | TE_Check int bool bool
  | TE_Ready int
  | TE_Accept twt_result
  | TE_End twt_stop

fun twt_step :: "twt_model \<Rightarrow> twt_event \<Rightarrow> twt_model" where
  "twt_step m (TE_Start mode now lease p) = snd (twt_start mode now lease p m)"
| "twt_step m (TE_Disconnect r e v) = record_disconnect r e v m"
| "twt_step m (TE_Check now ota locked) = snd (twt_check now ota locked m)"
| "twt_step m (TE_Ready now) = snd (bootstrap_ready now m)"
| "twt_step m (TE_Accept r) = snd (twt_accept r m)"
| "twt_step m (TE_End why) = twt_end why m"

text \<open>What an accepted agreement looks like.\<close>

definition sound_agreement :: "twt_snapshot \<Rightarrow> bool" where
  "sound_agreement s \<longleftrightarrow>
     (let r = ts_actual s in
      tr_status r = 1 \<and> tr_id r = ts_id s \<and> tr_mantissa r \<noteq> 0 \<and> tr_exponent r \<le> 31 \<and> tr_flow r \<le> 7 \<and>
      tr_unit r \<le> 1 \<and>
      unat (ts_interval s) = unat (tr_mantissa r) * 2 ^ unat (tr_exponent r) \<and>
      unat (ts_duration s) = unat (tr_duration r) * (if tr_unit r = 0 then 256 else 1024) \<and>
      0 < ts_duration s \<and> ts_duration s < ts_interval s \<and> ts_interval s \<le> 2000000)"

definition trial_over :: "twt_snapshot \<Rightarrow> bool" where
  "trial_over s \<longleftrightarrow> ts_profile s = TP_Default \<and> ts_expiry s = 0 \<and> ts_bootstrap s = 0 \<and> ts_setup s = 0"

definition trial_runs :: "u16 \<Rightarrow> twt_snapshot \<Rightarrow> bool" where
  "trial_runs n s \<longleftrightarrow> ts_id s = n \<and> 0 < n \<and> valid_lease (ts_lease s) \<and>
     (ts_profile s \<noteq> TP_Default \<longrightarrow> ts_requested s = TM_On)"

fun stage_inv :: "twt_stage \<Rightarrow> u16 \<Rightarrow> twt_snapshot \<Rightarrow> bool" where
  "stage_inv TS_Off n s = trial_over s"
| "stage_inv TS_Failed n s = trial_over s"
| "stage_inv TS_Armed n s = (trial_runs n s \<and> ts_requested s \<noteq> TM_Off)"
| "stage_inv TS_Negotiating n s = (trial_runs n s \<and> ts_requested s = TM_On)"
| "stage_inv TS_Active n s = (trial_runs n s \<and> ts_requested s = TM_On \<and> sound_agreement s)"
| "stage_inv TS_Baseline n s = (trial_runs n s \<and> ts_requested s = TM_Baseline)"

definition twt_inv :: "twt_model \<Rightarrow> bool" where
  "twt_inv m \<longleftrightarrow> tw_next m \<le> 32767 \<and> ts_id (tw_state m) \<le> tw_next m \<and>
     stage_inv (ts_stage (tw_state m)) (tw_next m) (tw_state m)"

lemma inv_twt_start0: "twt_inv twt_model0"
  by (simp add: twt_inv_def twt_model0_def twt_snapshot0_def trial_over_def)

lemma twt_end_fields [simp]:
  "tw_next (twt_end why m) = tw_next m" "ts_id (tw_state (twt_end why m)) = ts_id (tw_state m)"
  "trial_over (tw_state (twt_end why m))"
  "ts_stage (tw_state (twt_end why m)) \<in> {TS_Off, TS_Failed}"
  by (simp_all add: twt_end_def Let_def trial_over_def)

lemma inv_twt_end: "tw_next m \<le> 32767 \<Longrightarrow> ts_id (tw_state m) \<le> tw_next m \<Longrightarrow> twt_inv (twt_end why m)"
  using twt_end_fields(4) [of why m] by (auto simp: twt_inv_def)

lemma inv_bounds: "twt_inv m \<Longrightarrow> tw_next m \<le> 32767" "twt_inv m \<Longrightarrow> ts_id (tw_state m) \<le> tw_next m"
  by (simp_all add: twt_inv_def)

lemma end_not_live [simp]: "\<not> twt_live (twt_end why m)"
  using twt_end_fields(4) [of why m] by (auto simp: twt_live_def)

lemma inv_twt_disconnect: "twt_inv m \<Longrightarrow> twt_inv (record_disconnect r e v m)"
  by (cases "ts_stage (tw_state m)")
    (auto simp: twt_inv_def record_disconnect_def sound_agreement_def trial_runs_def trial_over_def Let_def)

lemma encode_request_valid:
  "mode \<noteq> TM_Off \<Longrightarrow> \<not> encode_request mode lease profile < 0 \<Longrightarrow>
    valid_lease lease \<and> (mode = TM_Baseline \<longrightarrow> profile = TP_Default)"
  by (auto simp: encode_request_def split: if_splits)

lemma next_id: "(n :: u16) \<le> 32767 \<Longrightarrow> n \<noteq> 32767 \<Longrightarrow> n + 1 \<le> 32767 \<and> 0 < n + 1 \<and> n < n + 1"
proof -
  assume "n \<le> 32767" "n \<noteq> 32767"
  then have "n < 32767" by simp
  then have "unat n < 32767" by (simp add: word_less_nat_alt)
  then have "unat (n + 1) = unat n + 1" by (simp add: unat_word_ariths)
  with \<open>unat n < 32767\<close> show ?thesis by (simp add: word_less_nat_alt word_le_nat_alt)
qed

lemma inv_twt_start:
  assumes i: "twt_inv m"
  shows "twt_inv (snd (twt_start mode now lease p m))"
proof (cases "mode = TM_Off \<or> encode_request mode lease p < 0 \<or> tw_next m = 32767")
  case True
  with i show ?thesis by (auto simp: twt_start_def dest: inv_bounds intro!: inv_twt_end)
next
  case False
  with encode_request_valid [of mode lease p] next_id [OF inv_bounds(1) [OF i]]
  show ?thesis by (cases mode) (simp_all add: twt_start_def twt_inv_def trial_runs_def)
qed

lemma inv_twt_check: "twt_inv m \<Longrightarrow> twt_inv (snd (twt_check now ota locked m))"
  by (simp add: twt_check_def Let_def inv_twt_end inv_bounds)

lemma twt_check_cases:
  assumes "twt_check now ota locked m = (ok, m')"
  shows "(ok \<longrightarrow> m' = m \<and> twt_live m \<and> \<not> ota \<and> locked \<and> now < ts_expiry (tw_state m) \<and>
            (ts_stage (tw_state m) = TS_Armed \<longrightarrow> now < ts_bootstrap (tw_state m)) \<and>
            (ts_stage (tw_state m) = TS_Negotiating \<longrightarrow> now < ts_setup (tw_state m))) \<and>
    (\<not> ok \<longrightarrow> \<not> twt_live m')"
  using assms by (auto simp: twt_check_def Let_def split: if_splits)

lemma inv_bootstrap:
  assumes i: "twt_inv m"
  shows "twt_inv (snd (bootstrap_ready now m))"
proof (cases "ts_stage (tw_state m) = TS_Armed")
  case False
  with i show ?thesis by (simp add: bootstrap_ready_def)
next
  case True
  obtain ok m1 where c: "twt_check now False True m = (ok, m1)" by fastforce
  have i1: "twt_inv m1" using inv_twt_check [OF i, of now False True] c by simp
  show ?thesis
  proof (cases ok)
    case False
    with True c i1 show ?thesis by (simp add: bootstrap_ready_def)
  next
    case ok: True
    with twt_check_cases [OF c] have "m1 = m" by simp
    with True ok c i show ?thesis
      by (cases "ts_requested (tw_state m)")
        (auto simp: bootstrap_ready_def twt_inv_def trial_runs_def Let_def)
  qed
qed

lemma shifted_mantissa:
  assumes "(e :: u8) \<le> 31"
  shows "unat (push_bit (unat e) (ucast (x :: u16)) :: u64) = unat x * 2 ^ unat e"
proof (rule unat_eqI)
  have e: "unat e \<le> 31" using assms by (simp add: word_le_nat_alt)
  have "unat x < 2 ^ 16" using unsigned_less [of x] by simp
  then have "unat x * 2 ^ unat e < 2 ^ 16 * 2 ^ 31"
    by (intro mult_less_le_imp_less power_increasing) (use e in simp_all)
  then show "unat x * 2 ^ unat e < 2 ^ LENGTH(64)" by simp
qed (simp add: push_bit_eq_mult)

lemma scaled_duration:
  "unat ((ucast (x :: u8) :: u64) * (if c then 1024 else 256)) = unat x * (if c then 1024 else 256)"
proof (rule unat_eqI)
  have "unat x < 256" using unsigned_less [of x] by simp
  then show "unat x * (if c then 1024 else 256) < 2 ^ LENGTH(64)" by simp
qed simp

lemma inv_accept:
  assumes i: "twt_inv m"
  shows "twt_inv (snd (twt_accept r m))"
proof (cases "ts_stage (tw_state m) \<noteq> TS_Negotiating \<or> tr_id r \<noteq> ts_id (tw_state m)")
  case True
  with i show ?thesis
    by (cases "ts_stage (tw_state m)")
      (auto simp: twt_accept_def twt_inv_def trial_runs_def trial_over_def sound_agreement_def Let_def)
next
  case False
  note nb = inv_bounds [OF i]
  have run: "trial_runs (tw_next m) (tw_state m)" "ts_requested (tw_state m) = TM_On"
    using i False by (auto simp: twt_inv_def)
  have zero: "x = 0 \<longleftrightarrow> unat x = 0" for x :: u8 by (simp add: unat_eq_0)
  have unit: "unat ((ucast (tr_duration r) :: u64) * (if tr_unit r \<noteq> 0 then 1024 else 256)) =
      unat (tr_duration r) * (if tr_unit r = 0 then 256 else 1024)"
    using scaled_duration [of "tr_duration r" "tr_unit r \<noteq> 0"] by auto
  have pos: "tr_duration r \<noteq> 0 \<Longrightarrow>
      0 < (ucast (tr_duration r) :: u64) * (if tr_unit r \<noteq> 0 then 1024 else 256)"
    using unit zero [of "tr_duration r"] by (simp only: word_less_nat_alt) simp
  show ?thesis
    using False run nb unit pos shifted_mantissa [of "tr_exponent r" "tr_mantissa r"]
    by (simp add: twt_accept_def Let_def inv_twt_end)
      (auto simp: twt_inv_def trial_runs_def sound_agreement_def Let_def not_less)
qed

interpretation twt: event_machine twt_step twt_model0 twt_inv
proof
  show "twt_inv twt_model0" by (rule inv_twt_start0)
  show "twt_inv m \<Longrightarrow> twt_inv (twt_step m e)" for m e
    by (cases e) (simp_all add: inv_twt_start inv_twt_disconnect inv_twt_check inv_bootstrap inv_accept
        inv_twt_end inv_bounds)
qed

text \<open>Between two starts a trial keeps its identity, its expiry and its lease.\<close>

lemma on_live_end: "twt_live (twt_end why m) \<longleftrightarrow> False" by simp

lemma twt_step_keeps:
  assumes "\<not> (\<exists>mode now lease p. e = TE_Start mode now lease p)" "twt_live (twt_step m e)"
  shows "twt_live m \<and> ts_id (tw_state (twt_step m e)) = ts_id (tw_state m) \<and>
    ts_expiry (tw_state (twt_step m e)) = ts_expiry (tw_state m) \<and>
    ts_lease (tw_state (twt_step m e)) = ts_lease (tw_state m)"
proof (cases e)
  case (TE_Check now ota locked)
  with assms show ?thesis
    by (cases "twt_check now ota locked m") (use twt_check_cases [of now ota locked m] in force)
next
  case (TE_End why)
  with assms(2) show ?thesis by simp
next
  case (TE_Ready now)
  show ?thesis
  proof (cases "ts_stage (tw_state m) = TS_Armed")
    case False
    with TE_Ready assms show ?thesis by (simp add: bootstrap_ready_def)
  next
    case True
    obtain ok m1 where c: "twt_check now False True m = (ok, m1)" by fastforce
    from twt_check_cases [OF c] TE_Ready True c assms(2) show ?thesis
      by (cases ok) (auto simp: bootstrap_ready_def twt_live_def Let_def split: if_splits)
  qed
next
  case (TE_Accept r)
  show ?thesis
  proof (cases "ts_stage (tw_state m) \<noteq> TS_Negotiating \<or> tr_id r \<noteq> ts_id (tw_state m)")
    case True
    with TE_Accept assms show ?thesis by (simp add: twt_accept_def twt_live_def)
  next
    case False
    with TE_Accept assms show ?thesis
      by (simp add: twt_accept_def Let_def split: if_splits) (simp_all add: twt_live_def)
  qed
qed (use assms in \<open>auto simp: record_disconnect_def twt_live_def\<close>)

lemma twt_run_keeps:
  "\<forall>e \<in> set es. \<not> (\<exists>mode now lease p. e = TE_Start mode now lease p) \<Longrightarrow>
    twt_live (foldl twt_step m es) \<Longrightarrow>
    twt_live m \<and> ts_id (tw_state (foldl twt_step m es)) = ts_id (tw_state m) \<and>
    ts_expiry (tw_state (foldl twt_step m es)) = ts_expiry (tw_state m) \<and>
    ts_lease (tw_state (foldl twt_step m es)) = ts_lease (tw_state m)"
proof (induction es arbitrary: m)
  case Nil
  then show ?case by simp
next
  case (Cons e es)
  from Cons.IH [of "twt_step m e"] Cons.prems
  have I: "twt_live (twt_step m e)" "ts_id (tw_state (foldl twt_step m (e # es))) = ts_id (tw_state (twt_step m e))"
    "ts_expiry (tw_state (foldl twt_step m (e # es))) = ts_expiry (tw_state (twt_step m e))"
    "ts_lease (tw_state (foldl twt_step m (e # es))) = ts_lease (tw_state (twt_step m e))" by simp_all
  with twt_step_keeps [of e m] Cons.prems(1) show ?case by simp
qed

text \<open>C10: A target-wake-time trial is leased: after an accepted start and any calls other than
  another start, a trial that still runs has the fresh identity it was given, the expiry fixed at its
  start and one of the two leases; if it is active, the access point agreed to positive parameters
  with a wake duration below the interval and an interval of at most two seconds; and every check at
  or after the expiry ends it.\<close>

theorem twt_trial_leased:
  assumes "m = foldl twt_step twt_model0 es" "twt_start mode now lease p m = (True, m0)" "mode \<noteq> TM_Off"
    "\<forall>e \<in> set fs. \<not> (\<exists>mode now lease p. e = TE_Start mode now lease p)"
    "m1 = foldl twt_step m0 fs" "twt_live m1"
  shows "ts_id (tw_state m1) = tw_next m + 1 \<and> ts_expiry (tw_state m1) = now + uint lease * 1000000 \<and>
    valid_lease lease \<and> (ts_stage (tw_state m1) = TS_Active \<longrightarrow> sound_agreement (tw_state m1)) \<and>
    (\<forall>t ota locked. t \<ge> now + uint lease * 1000000 \<longrightarrow> \<not> twt_live (snd (twt_check t ota locked m1)))"
proof -
  have m0: "m0 = snd (twt_start mode now lease p m)" using assms(2) by simp
  have "m1 = foldl twt_step twt_model0 (es @ [TE_Start mode now lease p] @ fs)"
    using assms(1,5) m0 by simp
  then have I: "twt_inv m1" by (simp only: twt.inv_reachable)
  note K = twt_run_keeps [OF assms(4), of m0, folded assms(5), OF assms(6)]
  have S: "ts_id (tw_state m0) = tw_next m + 1" "ts_expiry (tw_state m0) = now + uint lease * 1000000"
      "valid_lease lease"
    using assms(2,3) encode_request_valid [of mode lease p] by (auto simp: twt_start_def split: if_splits)
  have "ts_stage (tw_state m1) = TS_Active \<longrightarrow> sound_agreement (tw_state m1)"
    using I by (auto simp: twt_inv_def)
  with K S show ?thesis by (auto simp: twt_check_def Let_def)
qed

definition sample_result :: twt_result where
  "sample_result = twt_result0\<lparr>tr_id := 1, tr_mantissa := 1000, tr_exponent := 10, tr_duration := 100,
     tr_status := 1\<rparr>"

lemma twt_trial_leased_witness:
  "twt_live (foldl twt_step (snd (twt_start TM_On 0 600 TP_Default twt_model0)) [TE_Ready 5, TE_Accept sample_result])
   \<and> \<not> twt_live (snd (twt_check 600000000 False True
        (foldl twt_step (snd (twt_start TM_On 0 600 TP_Default twt_model0)) [TE_Ready 5, TE_Accept sample_result])))"
proof -
  let ?m1 = "foldl twt_step (snd (twt_start TM_On 0 600 TP_Default twt_model0)) [TE_Ready 5, TE_Accept sample_result]"
  have s: "twt_start TM_On 0 600 TP_Default twt_model0 =
      (True, snd (twt_start TM_On 0 600 TP_Default twt_model0))" by code_simp
  have l: "twt_live ?m1" by code_simp
  show ?thesis
    using l twt_trial_leased [OF _ s, of "[]" "[TE_Ready 5, TE_Accept sample_result]" ?m1] by simp
qed

section \<open>The ring of cycle reports\<close>

datatype cycle_phase = CP_Start | CP_Fetch | CP_End
datatype cycle_reason = CR_None | CR_Success | CR_Deadline | CR_Awake | CR_RetryBudget | CR_NoCandidate | CR_Cancel

record cycle =
  cy_phase :: cycle_phase
  cy_reason :: cycle_reason
  cy_device :: int
  cy_trial :: u16
  cy_seq :: u32
  cy_dropped :: u32
  cy_associated :: bool
  cy_fetch :: u8

definition cycle0 :: cycle where
  "cycle0 = \<lparr>cy_phase = CP_Start, cy_reason = CR_None, cy_device = 0, cy_trial = 0, cy_seq = 0,
     cy_dropped = 0, cy_associated = False, cy_fetch = 0\<rparr>"

record cycle_ring =
  cr_entries :: "cycle list"
  cr_read :: nat
  cr_write :: nat
  cr_dropped :: u32

definition cycle_ring0 :: cycle_ring where
  "cycle_ring0 = \<lparr>cr_entries = replicate 32 cycle0, cr_read = 0, cr_write = 0, cr_dropped = 0\<rparr>"

definition ring_push :: "cycle \<Rightarrow> cycle_ring \<Rightarrow> cycle_ring" where
  "ring_push value r =
     (let next = (cr_write r + 1) mod 32 in
      if next = cr_read r then r\<lparr>cr_dropped := cr_dropped r + 1\<rparr>
      else r\<lparr>cr_entries := (cr_entries r)[cr_write r := value\<lparr>cy_dropped := cr_dropped r\<rparr>], cr_write := next\<rparr>)"

definition ring_pop :: "cycle_ring \<Rightarrow> cycle option \<times> cycle_ring" where
  "ring_pop r =
     (if cr_read r = cr_write r then (None, r)
      else (Some (cr_entries r ! cr_read r), r\<lparr>cr_read := (cr_read r + 1) mod 32\<rparr>))"

definition ring_wf :: "cycle_ring \<Rightarrow> bool" where
  "ring_wf r \<longleftrightarrow> length (cr_entries r) = 32 \<and> cr_read r < 32 \<and> cr_write r < 32"

definition ring_count :: "cycle_ring \<Rightarrow> nat" where
  "ring_count r = (cr_write r + 32 - cr_read r) mod 32"

definition ring_items :: "cycle_ring \<Rightarrow> cycle list" where
  "ring_items r = map (\<lambda>i. cr_entries r ! ((cr_read r + i) mod 32)) [0..<ring_count r]"

text \<open>The interface view: a push that reports whether it was kept, and the removal of the front.\<close>

definition ring_offer :: "cycle \<Rightarrow> cycle_ring \<Rightarrow> bool \<times> cycle_ring" where
  "ring_offer c r = ((cr_write r + 1) mod 32 \<noteq> cr_read r, ring_push c r)"

definition ring_take :: "nat \<Rightarrow> cycle_ring \<Rightarrow> bool \<times> cycle_ring" where
  "ring_take n r = (if n = 1 then (case ring_pop r of (c, r') \<Rightarrow> (c \<noteq> None, r')) else (False, r))"

lemma mod32: "x < 64 \<Longrightarrow> x mod 32 = (if x < 32 then x else x - (32 :: nat))"
  by (simp add: mod_if)

lemma ring_dist:
  "a < 32 \<Longrightarrow> b < 32 \<Longrightarrow> (b + 32 - a) mod 32 = (if a \<le> b then b - a else b + 32 - (a :: nat))"
  by (simp add: mod32)

lemma ring_full: "ring_wf r \<Longrightarrow> (cr_write r + 1) mod 32 = cr_read r \<longleftrightarrow> ring_count r = 31"
  unfolding ring_wf_def ring_count_def by (cases "cr_write r = 31") (auto simp: ring_dist mod32)

lemma ring_write_pos: "ring_wf r \<Longrightarrow> (cr_read r + ring_count r) mod 32 = cr_write r"
  unfolding ring_wf_def ring_count_def by (simp add: ring_dist)

lemma ring_count_push:
  "ring_wf r \<Longrightarrow> (cr_write r + 1) mod 32 \<noteq> cr_read r \<Longrightarrow>
    ((cr_write r + 1) mod 32 + 32 - cr_read r) mod 32 = ring_count r + 1"
  unfolding ring_wf_def ring_count_def by (cases "cr_write r = 31") (auto simp: ring_dist mod32)

lemma ring_count_pop:
  "ring_wf r \<Longrightarrow> cr_read r \<noteq> cr_write r \<Longrightarrow>
    (cr_write r + 32 - (cr_read r + 1) mod 32) mod 32 = ring_count r - 1 \<and> 0 < ring_count r"
  unfolding ring_wf_def ring_count_def by (cases "cr_read r = 31") (auto simp: ring_dist mod32)

lemma ring_count_less: "ring_count r < 32"
  by (simp add: ring_count_def)

lemma ring_offer_items:
  assumes "ring_wf r" "ring_offer c r = (ok, r')"
  shows "ring_wf r'" "ok \<longleftrightarrow> length (ring_items r) < 31"
    "ring_items r' = (if ok then ring_items r @ [c\<lparr>cy_dropped := cr_dropped r\<rparr>] else ring_items r)"
proof -
  show "ring_wf r'" using assms by (auto simp: ring_offer_def ring_push_def ring_wf_def Let_def)
  show "ok \<longleftrightarrow> length (ring_items r) < 31"
    using assms ring_full [OF assms(1)] ring_count_less [of r]
    by (auto simp: ring_offer_def ring_items_def)
  show "ring_items r' = (if ok then ring_items r @ [c\<lparr>cy_dropped := cr_dropped r\<rparr>] else ring_items r)"
  proof (cases ok)
    case False
    with assms(2) show ?thesis
      by (auto simp: ring_offer_def ring_push_def ring_items_def ring_count_def Let_def)
  next
    case True
    with assms(2) have r': "r' = r\<lparr>cr_entries := (cr_entries r)[cr_write r := c\<lparr>cy_dropped := cr_dropped r\<rparr>],
        cr_write := (cr_write r + 1) mod 32\<rparr>" and ne: "(cr_write r + 1) mod 32 \<noteq> cr_read r"
      by (auto simp: ring_offer_def ring_push_def Let_def)
    have n: "ring_count r' = ring_count r + 1"
      using ring_count_push [OF assms(1) ne] by (simp add: r' ring_count_def)
    have other: "(cr_read r + i) mod 32 \<noteq> cr_write r" if "i < ring_count r" for i
      using ring_slot_inj [of i 32 "ring_count r" "cr_read r"] ring_write_pos [OF assms(1)] that
        ring_count_less [of r] by auto
    have "cr_entries r' ! ((cr_read r + i) mod 32) = cr_entries r ! ((cr_read r + i) mod 32)"
      if "i < ring_count r" for i using other [OF that] by (simp add: r')
    moreover have "cr_entries r' ! ((cr_read r + ring_count r) mod 32) = c\<lparr>cy_dropped := cr_dropped r\<rparr>"
      using assms(1) by (simp add: r' ring_write_pos [OF assms(1)]) (simp add: ring_wf_def)
    ultimately have "ring_items r' = ring_items r @ [c\<lparr>cy_dropped := cr_dropped r\<rparr>]"
      unfolding ring_items_def n using r' by simp
    with True show ?thesis by simp
  qed
qed

lemma ring_take_items:
  assumes "ring_wf r" "ring_take n r = (ok, r')"
  shows "ring_wf r'" "n = 1 \<Longrightarrow> ok \<longleftrightarrow> ring_items r \<noteq> []"
    "ring_items r' = (if ok then drop n (ring_items r) else ring_items r)"
proof -
  show "ring_wf r'"
    using assms by (auto simp: ring_take_def ring_pop_def ring_wf_def split: if_splits)
  show "n = 1 \<Longrightarrow> ok \<longleftrightarrow> ring_items r \<noteq> []"
    using assms ring_count_pop [OF assms(1)]
    by (auto simp: ring_take_def ring_pop_def ring_items_def ring_count_def split: if_splits)
  show "ring_items r' = (if ok then drop n (ring_items r) else ring_items r)"
  proof (cases ok)
    case False
    with assms(2) show ?thesis by (auto simp: ring_take_def ring_pop_def split: if_splits)
  next
    case True
    with assms(2) have n: "n = 1" and r': "r' = r\<lparr>cr_read := (cr_read r + 1) mod 32\<rparr>"
      and ne: "cr_read r \<noteq> cr_write r"
      by (auto simp: ring_take_def ring_pop_def split: if_splits)
    have c: "ring_count r' = ring_count r - 1"
      using ring_count_pop [OF assms(1) ne] by (simp add: r' ring_count_def)
    show ?thesis
      using True n by (intro nth_equalityI)
        (simp_all add: ring_items_def c, simp add: r' mod_add_left_eq add.assoc)
  qed
qed

interpretation cycles: bounded_fifo ring_wf ring_items 31 "\<lambda>r c. c\<lparr>cy_dropped := cr_dropped r\<rparr>" ring_offer ring_take
proof
  show "ring_wf s \<Longrightarrow> length (ring_items s) \<le> 31" for s
    using ring_count_less [of s] by (simp add: ring_items_def)
qed (rule ring_offer_items ring_take_items; (assumption | simp))+

text \<open>The ring of cycle reports is first in, first out with 31 places: over any sequence of pushes
  and pops, what was popped followed by what is still there is what was kept, and each kept report
  carries the number of reports dropped before it.\<close>

theorem cycle_ring_fifo:
  "case fifo_run ring_offer ring_take ring_items (\<lambda>r c. c\<lparr>cy_dropped := cr_dropped r\<rparr>) es cycle_ring0 of
     (acc, out, r) \<Rightarrow> acc = out @ ring_items r \<and> length (ring_items r) \<le> 31"
proof -
  have "ring_wf cycle_ring0" "ring_items cycle_ring0 = []"
    by (simp_all add: ring_wf_def cycle_ring0_def ring_items_def ring_count_def)
  then show ?thesis using cycles.history [of cycle_ring0 es] by (auto split: prod.splits)
qed

end
