(* ===== verification/Cold_Envelope.thy ===== *)
theory Cold_Envelope
  imports Cold_Capsule Cold_Evidence
begin

text \<open>
  The envelope of the gauge trial (\<open>main/hal/mosaico/mosaico_gauge_cold_envelope.h\<close>): one record of the
  two-page store that carries the metadata capsule and up to two raw evidence frames, and the
  storage policy the runtime uses. The SHA-256 adapter is a template argument of the code and the
  parameter \<open>hash\<close> here. The scratch records of a workspace are local values; \<open>refused\<close> says that
  its latch is taken or that an argument aliases them.
\<close>

section \<open>Decoded records\<close>

record envelope =
  en_metadata :: trial_record
  en_frames :: "bytes list"
  en_count :: nat
  en_hash :: bytes

definition zero_frames :: "bytes list" where
  "zero_frames = [replicate 256 0, replicate 256 0]"

definition same_nonce :: "evidence_frame \<Rightarrow> boot_token \<Rightarrow> bool" where
  "same_nonce f t \<longleftrightarrow> bt_verified t \<and> ef_nonce f = bt_nonce t"

definition complete_read :: "evidence_frame \<Rightarrow> bool" where
  "complete_read f \<longleftrightarrow>
     (let e = ef_engine f in
      ss_mask (ef_standard f) AND 0xfff = 0xfff \<and> es_mask e = 0x1fff \<and> es_echo73 e = 0x73 \<and> es_echo76 e = 0x76 \<and>
      es_echo02 e = 2 \<and> definition_match (es_identity e))"

definition sample_end :: "trial_record \<Rightarrow> u64" where
  "sample_end r =
     (let budget_end = tl_claim_ms r + ucast (bi_budget (tl_binding r)) in
      (if budget_end < resumed_capture_limit then budget_end else resumed_capture_limit) * 1000)"

definition success_frames :: "trial_record \<Rightarrow> evidence_frame \<Rightarrow> evidence_frame \<Rightarrow> bool" where
  "success_frames r a b \<longleftrightarrow>
     (let s0 = ss_sampled (ef_standard a); e0 = es_sampled (ef_engine a);
          s1 = ss_sampled (ef_standard b); e1 = es_sampled (ef_engine b);
          limit = sample_end r; claim = tl_claim_ms r * 1000 in
      s0 < limit \<and> e0 < limit \<and> s1 < limit \<and> e1 < limit \<and> s1 \<ge> claim \<and> e1 \<ge> claim \<and>
      s0 \<le> s1 \<and> s0 \<le> e1 \<and> e0 \<le> s1 \<and> e0 \<le> e1)"

definition frame_rules :: "envelope \<Rightarrow> bool" where
  "frame_rules d \<longleftrightarrow>
     (let r = en_metadata d; n = en_count d; cap = tl_capture r in
      if n = 0 then cap = CR_None \<and> \<not> nonzero (en_hash d)
      else if n > 2 \<or> \<not> nonzero (en_hash d) then False
      else case (ev_decode (en_frames d ! 0), ev_decode (en_frames d ! (n - 1))) of
        (Some a, Some b) \<Rightarrow>
          if cap = CR_None
          then (tl_phase r = T_CaptureClaimed \<or> tl_phase r = T_BlockedUnknown) \<and> n = 1 \<and>
            ef_kind a = EK_Initial \<and> same_nonce a (tl_claimed_boot r)
          else if tl_evidence r \<noteq> en_hash d then False
          else if cap = CR_Success
          then
            (if n \<noteq> 2 \<or> ef_kind a \<noteq> EK_Initial \<or> ef_kind b \<noteq> EK_Final \<or> \<not> same_nonce a (tl_claimed_boot r) \<or>
                \<not> same_nonce b (tl_claimed_boot r) \<or> \<not> complete_read a \<or> \<not> complete_read b
             then False
             else success_frames r a b)
          else if \<not> known_failure cap \<or> ef_kind b \<noteq> EK_Failure then False
          else if n = 2 \<and> (ef_kind a \<noteq> EK_Initial \<or> \<not> same_nonce a (tl_claimed_boot r)) then False
          else if cap = CR_Interrupted then ef_nonce b \<noteq> bt_nonce (tl_armed_boot r)
          else if cap = CR_RejectedStartup \<or> cap = CR_StartupWindowExpired
          then n = 1 \<and> ef_nonce b \<noteq> bt_nonce (tl_armed_boot r)
          else same_nonce b (tl_claimed_boot r)
      | _ \<Rightarrow> False)"

section \<open>The codec\<close>

type_synonym hasher = "bytes \<Rightarrow> bytes option"

definition raw_digest :: "hasher \<Rightarrow> bytes \<Rightarrow> nat \<Rightarrow> bytes option" where
  "raw_digest hash payload n =
     (if n > 2 then None else if n = 0 then Some (replicate 32 0) else hash (get_bytes payload 336 (n * 256)))"

definition envelope_image :: "bytes \<Rightarrow> bytes list \<Rightarrow> nat \<Rightarrow> bytes" where
  "envelope_image inner frames n =
     (let p = put_le (put_le (put_le (replicate 1536 0) 0 (0x31454342 :: u32) 4) 4 (1 :: u32) 2) 6 (48 :: u32) 2;
          p = (put_le (put_le p 8 (288 :: u32) 2) 10 (256 :: u32) 2)[12 := of_nat n];
          p = put_bytes p 48 (take 288 inner)
      in put_bytes p 336 (concat (take n frames)))"

definition encode_into ::
  "hasher \<Rightarrow> trial_record \<Rightarrow> bytes list \<Rightarrow> nat \<Rightarrow> trial_binding \<Rightarrow> bytes \<Rightarrow> cold_record option" where
  "encode_into hash r frames n expected digest =
     (if n > 2 then None
      else case capsule_encode r expected digest of
        None \<Rightarrow> None
      | Some inner \<Rightarrow>
          let p = envelope_image (cold_payload inner) frames n in
          (case raw_digest hash p n of
             None \<Rightarrow> None
           | Some h \<Rightarrow>
               let staged = inner\<lparr>cold_size := of_nat (336 + n * 256), cold_payload := put_bytes p 16 h\<rparr>;
                   d = \<lparr>en_metadata = r, en_frames = frames, en_count = n, en_hash = h\<rparr> in
               if cold_shape staged \<and> frame_rules d then Some staged else None))"

definition inner_record :: "cold_record \<Rightarrow> cold_record" where
  "inner_record x = x\<lparr>cold_size := 288, cold_payload := put_bytes (replicate 1536 0) 0 (get_bytes (cold_payload x) 48 288)\<rparr>"

definition read_frames :: "bytes \<Rightarrow> nat \<Rightarrow> bytes list" where
  "read_frames p n = map (\<lambda>i. if i < n then get_bytes p (336 + i * 256) 256 else replicate 256 0) [0..<2]"

definition decode_into :: "hasher \<Rightarrow> cold_record \<Rightarrow> trial_binding \<Rightarrow> bytes \<Rightarrow> envelope option" where
  "decode_into hash x expected digest =
     (let p = cold_payload x; n = unat (p ! 12) in
      if \<not> cold_shape x \<or> unat (cold_size x) < 336 then None
      else if get_le p 0 4 \<noteq> (0x31454342 :: u32) \<or> get_le p 4 2 \<noteq> (1 :: u32) \<or> get_le p 6 2 \<noteq> (48 :: u32) \<or>
         get_le p 8 2 \<noteq> (288 :: u32) \<or> get_le p 10 2 \<noteq> (256 :: u32) \<or> n > 2 \<or> p ! 13 \<noteq> 0 \<or> p ! 14 \<noteq> 0 \<or>
         p ! 15 \<noteq> 0 \<or> unat (cold_size x) \<noteq> 336 + n * 256
      then None
      else case capsule_decode (inner_record x) expected digest of
        None \<Rightarrow> None
      | Some r \<Rightarrow>
          let d = \<lparr>en_metadata = r, en_frames = read_frames p n, en_count = n, en_hash = get_bytes p 16 32\<rparr> in
          if raw_digest hash p n \<noteq> Some (en_hash d) \<or> \<not> frame_rules d then None else Some d)"

definition envelope_encode ::
  "bool \<Rightarrow> hasher \<Rightarrow> trial_record \<Rightarrow> bytes list \<Rightarrow> nat \<Rightarrow> trial_binding \<Rightarrow> bytes \<Rightarrow> cold_record option" where
  "envelope_encode refused hash r frames n expected digest =
     (if refused then None else encode_into hash r frames n expected digest)"

definition envelope_decode :: "bool \<Rightarrow> hasher \<Rightarrow> cold_record \<Rightarrow> trial_binding \<Rightarrow> bytes \<Rightarrow> envelope option" where
  "envelope_decode refused hash x expected digest = (if refused then None else decode_into hash x expected digest)"

section \<open>The policy\<close>

definition transition_decoded :: "envelope \<Rightarrow> envelope \<Rightarrow> bool" where
  "transition_decoded a b \<longleftrightarrow>
     (let x = en_metadata a; y = en_metadata b in
      if \<not> trial_transition x y \<or> en_count b < en_count a then False
      else if list_ex (\<lambda>i. en_frames a ! i \<noteq> en_frames b ! i) [0..<en_count a] then False
      else if en_count b = en_count a then True
      else (tl_phase x = T_HandedOff \<and> tl_phase y = T_CaptureClaimed) \<or>
        (tl_capture x = CR_None \<and> tl_capture y \<noteq> CR_None \<and>
         (tl_phase y = T_Captured \<or> tl_phase y = T_CaptureFailed)))"

definition envelope_policy :: "hasher \<Rightarrow> trial_binding \<Rightarrow> bytes \<Rightarrow> cold_policy" where
  "envelope_policy hash expected digest =
     \<lparr>pol_valid = (\<lambda>x. case decode_into hash x expected digest of None \<Rightarrow> False | Some _ \<Rightarrow> True),
      pol_initial = (\<lambda>x. case decode_into hash x expected digest of None \<Rightarrow> False
         | Some d \<Rightarrow> trial_initial (en_metadata d) \<and> en_count d = 0),
      pol_transition = (\<lambda>a b. case (decode_into hash a expected digest, decode_into hash b expected digest) of
          (Some x, Some y) \<Rightarrow> transition_decoded x y | _ \<Rightarrow> False)\<rparr>"

section \<open>Round trip\<close>

lemma nth_read_frames: "i < n \<Longrightarrow> n \<le> 2 \<Longrightarrow> read_frames p n ! i = get_bytes p (336 + i * 256) 256"
  by (simp add: read_frames_def del: upt.simps)

lemma capsule_encode_record: "capsule_encode r expected digest = Some x \<Longrightarrow> x = capsule_record r digest \<and> cold_shape x"
  by (auto simp: capsule_encode_def split: if_splits)

lemma length_envelope_image [simp]: "length (envelope_image inner frames n) = 1536"
  by (simp add: envelope_image_def Let_def)

lemma concat_frames:
  "n \<le> length frames \<Longrightarrow> list_all (\<lambda>f. length f = 256) frames \<Longrightarrow> length (concat (take n frames)) = n * 256"
  by (induction frames arbitrary: n) (auto simp: take_Cons' )

lemma nth_concat_frames:
  "list_all (\<lambda>f. length f = 256) frames \<Longrightarrow> i < n \<Longrightarrow> n \<le> length frames \<Longrightarrow> j < 256 \<Longrightarrow>
     concat (take n frames) ! (i * 256 + j) = frames ! i ! j"
proof (induction frames arbitrary: n i)
  case (Cons f fs)
  then obtain m where "n = Suc m" by (cases n) auto
  with Cons show ?case by (cases i) (simp_all add: nth_append)
qed simp

lemma envelope_image_fields:
  assumes "length frames = 2" "list_all (\<lambda>f. length f = 256) frames" "n \<le> 2" "length inner = 1536" "length h = 32"
  defines "p \<equiv> put_bytes (envelope_image inner frames n) 16 h"
  shows "get_le p 0 4 = (0x31454342 :: u32)" "get_le p 4 2 = (1 :: u32)" "get_le p 6 2 = (48 :: u32)"
    "get_le p 8 2 = (288 :: u32)" "get_le p 10 2 = (256 :: u32)" "p ! 12 = of_nat n" "p ! 13 = 0" "p ! 14 = 0" "p ! 15 = 0"
    "get_bytes p 16 32 = h" "get_bytes p 48 288 = take 288 inner"
    "get_bytes p 336 (n * 256) = concat (take n frames)"
    "get_bytes p 336 (n * 256) = get_bytes (envelope_image inner frames n) 336 (n * 256)"
    "zeros p (336 + n * 256) 1536"
proof -
  note c = concat_frames[of n frames] 
  have l: "length (concat (take n frames)) = n * 256" "n * 256 \<le> 512" using assms c by simp_all
  then show "get_le p 0 4 = (0x31454342 :: u32)" "get_le p 4 2 = (1 :: u32)" "get_le p 6 2 = (48 :: u32)"
    "get_le p 8 2 = (288 :: u32)" "get_le p 10 2 = (256 :: u32)" "p ! 12 = of_nat n" "p ! 13 = 0" "p ! 14 = 0" "p ! 15 = 0"
    "get_bytes p 16 32 = h" "get_bytes p 48 288 = take 288 inner"
    "get_bytes p 336 (n * 256) = concat (take n frames)"
    "get_bytes p 336 (n * 256) = get_bytes (envelope_image inner frames n) 336 (n * 256)"
    using assms
    by (simp_all add: p_def envelope_image_def Let_def codec_simps nth_put_bytes_other nth_put_le_other
        del: get_le.simps)
  show "zeros p (336 + n * 256) 1536" using assms l
    by (auto simp: zeros_iff p_def envelope_image_def Let_def nth_put_bytes_other nth_put_le_other)
qed

lemma frame_rules_cong:
  assumes "\<forall>i < n. fs ! i = gs ! i"
  shows "frame_rules \<lparr>en_metadata = r, en_frames = fs, en_count = n, en_hash = h\<rparr> =
     frame_rules \<lparr>en_metadata = r, en_frames = gs, en_count = n, en_hash = h\<rparr>"
proof (cases n)
  case 0
  then show ?thesis by (simp add: frame_rules_def)
next
  case (Suc m)
  then have "fs ! 0 = gs ! 0" "fs ! (n - 1) = gs ! (n - 1)" using assms by simp_all
  then show ?thesis unfolding frame_rules_def Let_def envelope.select_convs by (simp only:)
qed

lemma decode_encode_into:
  assumes "trial_arrays r" "length frames = 2" "list_all (\<lambda>f. length f = 256) frames"
    and hash: "\<And>b h. hash b = Some h \<Longrightarrow> length h = 32"
    and enc: "encode_into hash r frames n expected digest = Some x"
  shows "\<exists>h. decode_into hash x expected digest =
      Some \<lparr>en_metadata = r, en_frames = take n frames @ drop n zero_frames, en_count = n, en_hash = h\<rparr>"
proof -
  from enc obtain inner h where n: "n \<le> 2" and inner: "capsule_encode r expected digest = Some inner"
    and h: "raw_digest hash (envelope_image (cold_payload inner) frames n) n = Some h"
    and x: "x = inner\<lparr>cold_size := of_nat (336 + n * 256), cold_payload := put_bytes (envelope_image (cold_payload inner) frames n) 16 h\<rparr>"
    and shape: "cold_shape x"
    and rules: "frame_rules \<lparr>en_metadata = r, en_frames = frames, en_count = n, en_hash = h\<rparr>"
    unfolding encode_into_def Let_def by (auto split: if_splits option.splits)
  have inner': "inner = capsule_record r digest" using capsule_encode_record[OF inner] by simp
  have lh: "length h = 32" using h hash by (auto simp: raw_digest_def split: if_splits)
  have li: "length (cold_payload inner) = 1536" by (simp add: inner' capsule_record_def)
  note f = envelope_image_fields[OF assms(2,3) n li lh]
  have un: "unat (of_nat n :: u8) = n" using n by (simp add: unat_of_nat)
  have us: "unat (of_nat (336 + n * 256) :: u16) = 336 + n * 256" using n by (intro unat_eqI[OF refl]) simp
  have "put_bytes (replicate 1536 0) 0 (take 288 (cold_payload inner)) = cold_payload inner"
  proof (rule nth_equalityI)
    fix i assume "i < length (put_bytes (replicate 1536 0) 0 (take 288 (cold_payload inner)))"
    then show "put_bytes (replicate 1536 0) 0 (take 288 (cold_payload inner)) ! i = cold_payload inner ! i"
      using capsule_image_fields(8)[OF assms(1)]
      by (cases "i < 288") (simp_all add: nth_put_bytes inner' capsule_record_def zeros_iff)
  qed (simp add: li)
  moreover have px: "cold_payload x = put_bytes (envelope_image (cold_payload inner) frames n) 16 h" by (simp add: x)
  ultimately have "put_bytes (replicate 1536 0) 0 (get_bytes (cold_payload x) 48 288) = cold_payload inner"
    unfolding px f(11) by simp
  then have "inner_record x = x\<lparr>cold_size := 288, cold_payload := cold_payload inner\<rparr>" by (simp add: inner_record_def)
  also have "\<dots> = inner" by (simp add: x inner' capsule_record_def)
  finally have "inner_record x = inner" .
  moreover have "capsule_decode inner expected digest = Some r" by (rule capsule_decode_encode[OF assms(1) inner])
  moreover have "raw_digest hash (cold_payload x) n = Some h" using h f(13) by (simp add: raw_digest_def x split: if_splits)
  moreover have fr: "read_frames (cold_payload x) n = take n frames @ drop n zero_frames"
  proof (rule nth_equalityI)
    show "length (read_frames (cold_payload x) n) = length (take n frames @ drop n zero_frames)"
      using assms(2) n by (simp add: read_frames_def zero_frames_def)
    fix i assume "i < length (read_frames (cold_payload x) n)"
    then have i: "i < 2" by (simp add: read_frames_def)
    show "read_frames (cold_payload x) n ! i = (take n frames @ drop n zero_frames) ! i"
    proof (cases "i < n")
      case True
      have "get_bytes (cold_payload x) (336 + i * 256) 256 = frames ! i"
      proof (rule nth_equalityI)
        show "length (get_bytes (cold_payload x) (336 + i * 256) 256) = length (frames ! i)"
          using assms(2,3) i by (simp add: list_all_length)
        fix j assume "j < length (get_bytes (cold_payload x) (336 + i * 256) 256)"
        then have j: "j < 256" by simp
        have "i * 256 + j < n * 256" using True j by linarith
        then have "get_bytes (cold_payload x) 336 (n * 256) ! (i * 256 + j) = cold_payload x ! (336 + (i * 256 + j))"
          by simp
        then show "get_bytes (cold_payload x) (336 + i * 256) 256 ! j = frames ! i ! j"
          using f(12) nth_concat_frames[OF assms(3) True _ j] assms(2) n j by (simp add: x add.assoc)
      qed
      then show ?thesis using True i assms(2) by (simp add: nth_read_frames n nth_append)
    next
      case False
      then show ?thesis using i n assms(2)
        by (auto simp: read_frames_def zero_frames_def nth_append less_2_cases_iff numeral_2_eq_2 less_Suc_eq)
    qed
  qed
  moreover have "frame_rules \<lparr>en_metadata = r, en_frames = take n frames @ drop n zero_frames, en_count = n, en_hash = h\<rparr>"
    using rules frame_rules_cong[of n "take n frames @ drop n zero_frames" frames] assms(2) n by (simp add: nth_append)
  moreover have "cold_payload x = put_bytes (envelope_image (cold_payload inner) frames n) 16 h"
    "cold_size x = of_nat (336 + n * 256)" by (simp_all add: x)
  ultimately have "decode_into hash x expected digest =
      Some \<lparr>en_metadata = r, en_frames = take n frames @ drop n zero_frames, en_count = n, en_hash = h\<rparr>"
    using shape f un us n by (simp add: decode_into_def Let_def del: get_le.simps)
  then show ?thesis by blast
qed

section \<open>What an accepted record carries\<close>

lemma decode_into_facts:
  assumes "decode_into hash x expected digest = Some d"
  shows "frame_rules d" "capsule_decode (inner_record x) expected digest = Some (en_metadata d)"
    "raw_digest hash (cold_payload x) (en_count d) = Some (en_hash d)"
    "en_frames d = read_frames (cold_payload x) (en_count d)" "en_count d \<le> 2"
proof -
  obtain r where r: "capsule_decode (inner_record x) expected digest = Some r"
    using assms unfolding decode_into_def Let_def guard_Some
    by (cases "capsule_decode (inner_record x) expected digest") simp_all
  note d = assms[unfolded decode_into_def Let_def guard_Some de_Morgan_disj not_not r option.case option.inject]
  then have e: "d = \<lparr>en_metadata = r, en_frames = read_frames (cold_payload x) (unat (cold_payload x ! 12)),
      en_count = unat (cold_payload x ! 12), en_hash = get_bytes (cold_payload x) 16 32\<rparr>"
    by (elim conjE) simp
  have n: "en_count d = unat (cold_payload x ! 12)" by (subst e) simp
  have h: "en_hash d = get_bytes (cold_payload x) 16 32" by (subst e) simp
  note d = d[folded e, folded n]
  show "frame_rules d" using d by (elim conjE)
  show "capsule_decode (inner_record x) expected digest = Some (en_metadata d)" unfolding r by (subst e) simp
  show "raw_digest hash (cold_payload x) (en_count d) = Some (en_hash d)" using d by (elim conjE) (simp only:)
  show "en_frames d = read_frames (cold_payload x) (en_count d)" unfolding n by (subst e) simp
  show "en_count d \<le> 2" using d by (elim conjE) (simp only: not_less)
qed

lemma two_frames: "get_bytes p 336 512 = get_bytes p 336 256 @ get_bytes p 592 256"
  by (rule nth_equalityI) (simp_all add: nth_append)

text \<open>The two frames of an accepted successful capture.\<close>

lemma frame_rules_success:
  assumes "frame_rules d" "tl_capture (en_metadata d) = CR_Success"
  shows "en_count d = 2 \<and> tl_evidence (en_metadata d) = en_hash d \<and>
    (\<exists>a b. ev_decode (en_frames d ! 0) = Some a \<and> ev_decode (en_frames d ! 1) = Some b \<and>
       same_nonce a (tl_claimed_boot (en_metadata d)) \<and> same_nonce b (tl_claimed_boot (en_metadata d)) \<and>
       complete_read a \<and> complete_read b \<and> success_frames (en_metadata d) a b)"
proof -
  note f = assms(1)[unfolded frame_rules_def Let_def assms(2) guard_iff de_Morgan_disj not_not]
  have n: "en_count d \<noteq> 0"
  proof
    assume z: "en_count d = 0"
    show False using f unfolding z by simp
  qed
  note f = f[unfolded if_not_P[OF n]]
  obtain a b where ab: "ev_decode (en_frames d ! 0) = Some a" "ev_decode (en_frames d ! (en_count d - 1)) = Some b"
    using f by (cases "ev_decode (en_frames d ! 0)"; cases "ev_decode (en_frames d ! (en_count d - 1))") simp_all
  note f = f[unfolded ab prod.case option.case guard_iff de_Morgan_disj not_not]
  have two: "en_count d = 2" using f by simp
  show ?thesis using f ab unfolding two by simp
qed

lemma sample_end_bound: "unat (sample_end r) \<le> 60000000"
proof -
  let ?m = "if tl_claim_ms r + ucast (bi_budget (tl_binding r)) < resumed_capture_limit
     then tl_claim_ms r + ucast (bi_budget (tl_binding r)) else resumed_capture_limit"
  have "?m \<le> 60000" by (simp add: resumed_capture_limit_def order_less_imp_le)
  then have m: "unat ?m \<le> 60000" by (simp add: word_le_nat_alt)
  have "unat (?m * 1000) = unat ?m * 1000" using m by (subst unat_mult_small) simp_all
  then show ?thesis using m unfolding sample_end_def Let_def by simp
qed

text \<open>The four sample times of two frames, in microseconds since boot.\<close>

definition sample_times :: "evidence_frame \<Rightarrow> nat list" where
  "sample_times f = [unat (ss_sampled (ef_standard f)), unat (es_sampled (ef_engine f))]"

lemma success_times:
  assumes "success_frames r a b"
  shows "list_all (\<lambda>t. t < 60000000) (sample_times a @ sample_times b)"
    "Max (set (sample_times a)) \<le> Min (set (sample_times b))"
  using assms sample_end_bound[of r]
  by (auto simp: success_frames_def sample_times_def Let_def word_le_nat_alt word_less_nat_alt)

text \<open>C25: A record that the store accepts as a successful capture carries its proof: two decodable frames with every
  register read, both taken in the boot that claimed the capture, the first wholly before the second, all samples
  within the first 60 seconds of that boot (in microseconds, without wrap-around), and their raw bytes hash to the
  evidence digest of the trial record.\<close>

theorem success_carries_evidence:
  assumes "decode_into hash x expected digest = Some d" "tl_capture (en_metadata d) = CR_Success"
  shows "hash (get_bytes (cold_payload x) 336 512) = Some (tl_evidence (en_metadata d)) \<and>
    (\<exists>a b. map ev_decode (en_frames d) = [Some a, Some b] \<and> complete_read a \<and> complete_read b \<and>
       same_nonce a (tl_claimed_boot (en_metadata d)) \<and> same_nonce b (tl_claimed_boot (en_metadata d)) \<and>
       list_all (\<lambda>t. t < 60000000) (sample_times a @ sample_times b) \<and>
       Max (set (sample_times a)) \<le> Min (set (sample_times b)))"
proof -
  note f = decode_into_facts[OF assms(1)]
  obtain a b where ab: "en_count d = 2" "tl_evidence (en_metadata d) = en_hash d"
    "ev_decode (en_frames d ! 0) = Some a" "ev_decode (en_frames d ! 1) = Some b"
    "same_nonce a (tl_claimed_boot (en_metadata d))" "same_nonce b (tl_claimed_boot (en_metadata d))"
    "complete_read a" "complete_read b" "success_frames (en_metadata d) a b"
    using frame_rules_success[OF f(1) assms(2)] by blast
  have "en_frames d = [en_frames d ! 0, en_frames d ! 1]"
    unfolding f(4) ab(1) by (simp add: read_frames_def upt_rec)
  then have "map ev_decode (en_frames d) = [Some a, Some b]" using ab(3,4) by (metis list.simps(8,9))
  moreover have "hash (get_bytes (cold_payload x) 336 512) = Some (tl_evidence (en_metadata d))"
    using f(3) unfolding ab(1,2) by (simp add: raw_digest_def)
  ultimately show ?thesis using ab(5-8) success_times[OF ab(9)] by (intro conjI exI[of _ a] exI[of _ b])
qed

section \<open>A stored trial moves by legal transitions\<close>

lemma transition_decoded_facts:
  assumes "transition_decoded a b"
  shows "trial_transition (en_metadata a) (en_metadata b)" "en_count a \<le> en_count b"
    "i < en_count a \<Longrightarrow> en_frames b ! i = en_frames a ! i"
  using assms by (auto simp: transition_decoded_def Let_def list_ex_iff split: if_splits)

text \<open>C24: The whole stack, from the flash pages to the trial: when the store holds an accepted trial record, a save
  under the envelope policy, however it fails, either leaves the pages as they were and does not answer \<open>Ready\<close>, or
  leaves the new record selected; then its metadata follows the old metadata by one legal transition of the trial,
  and every raw evidence frame of the old record is still there.\<close>

theorem stored_trial_advances:
  assumes "page_device io contents" "cold_arrays x"
    "cold_view (envelope_policy hash expected digest) (contents s) = (CC_Ready, Some (k, old))"
    "cold_save io (envelope_policy hash expected digest) x admitted aliased s = (code, s')"
  shows "(contents s' = contents s \<and> code \<noteq> CC_Ready) \<or>
    (\<exists>t a b. cold_view (envelope_policy hash expected digest) (contents s') = (CC_Ready, Some (t, x)) \<and>
      decode_into hash old expected digest = Some a \<and> decode_into hash x expected digest = Some b \<and>
      trial_transition (en_metadata a) (en_metadata b) \<and>
      take (en_count a) (en_frames b) = take (en_count a) (en_frames a))"
proof -
  let ?pol = "envelope_policy hash expected digest"
  consider "contents s' = contents s" "code \<noteq> CC_Ready"
    | t p where "cold_admit ?pol x CC_Ready (Some (k, old)) = Inr t" "cold_encode x = Some p" "pol_valid ?pol x"
      "contents s' = (contents s)(8 + t := p)"
    using page_device.cold_save_spec[OF assms(1,4,2)] assms(3) by auto
  then show ?thesis
  proof cases
    case 2
    have v: "cold_view ?pol (contents s') = (CC_Ready, Some (t, x))"
      unfolding 2(4) by (rule cold_write_selects[OF assms(3) 2(1) assms(2) 2(2,3)])
    have "pol_transition ?pol old x" using 2(1) by (simp add: cold_admit_def split: if_splits)
    then obtain a b where ab: "decode_into hash old expected digest = Some a"
      "decode_into hash x expected digest = Some b" "transition_decoded a b"
      by (auto simp: envelope_policy_def split: option.splits)
    have "length (en_frames a) = 2" "length (en_frames b) = 2"
      using decode_into_facts(4)[OF ab(1)] decode_into_facts(4)[OF ab(2)] by (simp_all add: read_frames_def)
    then have "take (en_count a) (en_frames b) = take (en_count a) (en_frames a)"
      using transition_decoded_facts(3)[OF ab(3)] by (subst list_eq_iff_nth_eq) simp
    with ab v transition_decoded_facts(1)[OF ab(3)] show ?thesis by blast
  qed simp
qed

section \<open>A stored trial\<close>

lemma encode_into_exists:
  assumes "canonical r" "trial_arrays r" "valid_binding expected" "same_trial_binding (tl_binding r) expected"
    "nonzero digest" "length digest = 32" "n \<le> 2" "length frames = 2" "list_all (\<lambda>f. length f = 256) frames"
    "length h = 32" "frame_rules \<lparr>en_metadata = r, en_frames = frames, en_count = n, en_hash = h\<rparr>"
    "raw_digest hash (envelope_image (capsule_image r) frames n) n = Some h"
  shows "\<exists>x. encode_into hash r frames n expected digest = Some x \<and> cold_arrays x"
proof -
  have s: "cold_shape (capsule_record r digest)" by (rule capsule_record_shape[OF assms(1,5,2)])
  have e: "capsule_encode r expected digest = Some (capsule_record r digest)"
    using assms s by (simp add: capsule_encode_def)
  have us: "unat (of_nat (336 + n * 256) :: u16) = 336 + n * 256" using assms(7) by (intro unat_eqI[OF refl]) simp
  have z: "zeros (put_bytes (envelope_image (capsule_image r) frames n) 16 h) (336 + n * 256) 1536"
    by (rule envelope_image_fields(14)[OF assms(8,9,7) length_capsule_image assms(10)])
  have "cold_arrays ((capsule_record r digest)\<lparr>cold_size := of_nat (336 + n * 256),
      cold_payload := put_bytes (envelope_image (capsule_image r) frames n) 16 h\<rparr>)"
    using assms(2,6) by (simp add: cold_arrays_def capsule_record_def trial_arrays_def binding_arrays_def)
  moreover have "cold_shape ((capsule_record r digest)\<lparr>cold_size := of_nat (336 + n * 256),
      cold_payload := put_bytes (envelope_image (capsule_image r) frames n) 16 h\<rparr>)"
    using s us z assms(7) by (simp add: cold_shape_def capsule_record_def)
  ultimately show ?thesis
    using assms(7,11,12) by (auto simp: encode_into_def Let_def e capsule_record_def)
qed

definition sample_armed :: trial_record where
  "sample_armed = \<lparr>tl_schema = 1, tl_binding = sample_binding, tl_sequence = 1, tl_phase = T_Armed,
     tl_armed_boot = \<lparr>bt_nonce = replicate 16 1, bt_verified = True\<rparr>, tl_claimed_boot = no_boot, tl_armed_ms = 2000,
     tl_handoff_ms = 0, tl_claim_ms = 0, tl_capture = CR_None, tl_evidence = replicate 32 0\<rparr>"

definition sample_handed :: trial_record where
  "sample_handed = sample_armed\<lparr>tl_sequence := 2, tl_phase := T_HandedOff, tl_handoff_ms := 3000\<rparr>"

definition sample_captured :: trial_record where
  "sample_captured = sample_handed\<lparr>tl_sequence := 4, tl_phase := T_Captured,
     tl_claimed_boot := \<lparr>bt_nonce = replicate 16 2, bt_verified = True\<rparr>, tl_claim_ms := 500, tl_capture := CR_Success,
     tl_evidence := replicate 32 9\<rparr>"

lemma sample_records:
  "canonical sample_armed" "canonical sample_handed" "canonical sample_captured"
  "trial_initial sample_armed" "trial_transition sample_armed sample_handed"
  by code_simp+

lemma sample_record_arrays: "trial_arrays sample_armed" "trial_arrays sample_handed" "trial_arrays sample_captured"
  by code_simp+

definition sample_digest :: bytes where "sample_digest = replicate 32 4"

lemma sample_digest: "nonzero sample_digest" "length sample_digest = 32" "valid_binding sample_binding"
  "same_trial_binding sample_binding sample_binding"
  by code_simp+

definition sample_hash :: hasher where "sample_hash b = Some (replicate 32 9)"

definition sample_tag :: unit_tag where
  "sample_tag = \<lparr>ut_factor = 0, ut_epoch = 0, ut_generation = 0, ut_verified = False, ut_phase = 0\<rparr>"

definition sample_frame :: "evidence_kind \<Rightarrow> u64 \<Rightarrow> evidence_frame" where
  "sample_frame k t = \<lparr>ef_kind = k, ef_nonce = replicate 16 2, ef_reset = 1, ef_error = 0,
     ef_standard = \<lparr>ss_sampled = t, ss_mask = 0xfff, ss_soc = 80, ss_remaining = 100, ss_full = 131, ss_design = 131,
       ss_mv = 4000, ss_current = -20, ss_average = -21, ss_coulomb = 5, ss_cycles = 1, ss_operation = 0, ss_battery = 0,
       ss_gauging = 0, ss_echo = 0, ss_phase = 1, ss_outcome = 0, ss_mode = 3, ss_reserved = 0, ss_units = sample_tag\<rparr>,
     ef_engine = \<lparr>es_sampled = t, es_mask = 0x1fff, es_echo73 = 0x73, es_echo76 = 0x76, es_echo02 = 2, es_phase = 1,
       es_outcome = 0, es_cedv = replicate 23 7, es_smooth = replicate 17 7,
       es_identity = [2, 0x20, 0, 3, 0, 4, 0, 0, 0, 0, 0], es_units = sample_tag\<rparr>\<rparr>"

definition sample_wire :: "evidence_kind \<Rightarrow> u64 \<Rightarrow> bytes" where
  "sample_wire k t = seal (ev_image (sample_frame k t)) 252"

lemma sample_frame_ok: "frame_shape (sample_frame k t)" "frame_arrays (sample_frame k t)"
  by (simp_all add: frame_shape_def frame_arrays_def sample_frame_def unit_shape_def sample_tag_def int16_def kind_code_def
      nonzero_def list_ex_iff split: evidence_kind.split)

lemma sample_wire_decodes: "ev_decode (sample_wire k t) = Some (sample_frame k t)"
  using sample_frame_ok by (intro ev_decode_encode) (simp_all add: ev_encode_def sample_wire_def)

lemma sample_wire_length: "length (sample_wire k t) = 256"
  by (simp add: sample_wire_def)

lemma sample_frame_rules:
  "frame_rules \<lparr>en_metadata = sample_captured, en_frames = [sample_wire EK_Initial 400000, sample_wire EK_Final 600000],
     en_count = 2, en_hash = replicate 32 9\<rparr>"
proof -
  have c: "same_nonce (sample_frame EK_Initial 400000) (tl_claimed_boot sample_captured)"
    "same_nonce (sample_frame EK_Final 600000) (tl_claimed_boot sample_captured)"
    "complete_read (sample_frame EK_Initial 400000)" "complete_read (sample_frame EK_Final 600000)"
    "success_frames sample_captured (sample_frame EK_Initial 400000) (sample_frame EK_Final 600000)"
    "ef_kind (sample_frame EK_Initial 400000) = EK_Initial" "ef_kind (sample_frame EK_Final 600000) = EK_Final"
    "nonzero (replicate 32 9)" "tl_evidence sample_captured = replicate 32 9" "tl_capture sample_captured = CR_Success"
    by code_simp+
  show ?thesis unfolding frame_rules_def Let_def envelope.select_convs by (simp add: sample_wire_decodes c)
qed

theorem success_carries_evidence_witness:
  "\<exists>x d a. decode_into sample_hash x sample_binding sample_digest = Some d \<and>
     tl_capture (en_metadata d) = CR_Success \<and>
     sample_hash (get_bytes (cold_payload x) 336 512) = Some (tl_evidence (en_metadata d)) \<and>
     ev_decode (en_frames d ! 0) = Some a \<and> complete_read a"
proof -
  let ?w = "[sample_wire EK_Initial 400000, sample_wire EK_Final 600000]"
  have b: "tl_binding sample_captured = sample_binding" by (simp add: sample_captured_def sample_handed_def sample_armed_def)
  obtain x where x: "encode_into sample_hash sample_captured ?w 2 sample_binding sample_digest = Some x"
    using encode_into_exists[OF sample_records(3) sample_record_arrays(3) sample_digest(3) _ sample_digest(1,2), of 2 ?w
        "replicate 32 9" sample_hash] sample_frame_rules sample_digest(4)
    by (auto simp: b sample_wire_length raw_digest_def sample_hash_def)
  obtain d where d: "decode_into sample_hash x sample_binding sample_digest = Some d" "en_metadata d = sample_captured"
    using decode_encode_into[OF sample_record_arrays(3) _ _ _ x] by (auto simp: sample_wire_length sample_hash_def)
  have "tl_capture (en_metadata d) = CR_Success" by (simp add: d(2) sample_captured_def)
  from success_carries_evidence[OF d(1) this] d(1) this show ?thesis by (metis nth_Cons_0 nth_map length_map length_Cons zero_less_Suc)
qed

lemma empty_envelope:
  assumes "trial_arrays r" "canonical r" "tl_binding r = sample_binding" "tl_capture r = CR_None"
  shows "\<exists>x d. encode_into sample_hash r zero_frames 0 sample_binding sample_digest = Some x \<and> cold_arrays x \<and>
    decode_into sample_hash x sample_binding sample_digest = Some d \<and> en_metadata d = r \<and> en_count d = 0"
proof -
  have z: "length zero_frames = 2" "list_all (\<lambda>f. length f = 256) zero_frames" by (simp_all add: zero_frames_def)
  have "\<not> nonzero (replicate 32 0)" by (simp add: nonzero_def list_ex_iff)
  then have f: "frame_rules \<lparr>en_metadata = r, en_frames = zero_frames, en_count = 0, en_hash = replicate 32 0\<rparr>"
    using assms(4) by (simp add: frame_rules_def)
  obtain x where x: "encode_into sample_hash r zero_frames 0 sample_binding sample_digest = Some x" "cold_arrays x"
    using encode_into_exists[OF assms(2,1) sample_digest(3) _ sample_digest(1,2) _ z _ f, of sample_hash] sample_digest(4) assms(3)
    by (auto simp: raw_digest_def)
  then show ?thesis using decode_encode_into[OF assms(1) z _ x(1)] by (auto simp: sample_hash_def)
qed

lemma blank_store_view: "cold_view pol cold_blank_map = (CC_Empty, None)"
proof -
  have "blank (replicate 2048 255)" by (simp add: blank_def list_all_iff)
  then show ?thesis
    by (simp add: cold_view_def cold_marker_stop_def cold_slot_def cold_choose_def cold_blank_map_def valid_marker_page)
qed

lemma ram_view_cold: "cold_encode x = Some p \<Longrightarrow> ram_view (cold_blank_map(8 := p)) = cold_blank_map(8 := p)"
  using length_cold_encode[of x p] by (auto simp: fun_eq_iff cold_blank_map_def ram_view_def)

text \<open>An armed trial is on the flash and its handoff is written.\<close>

theorem stored_trial_advances_witness:
  "\<exists>C old x code s'. cold_view (envelope_policy sample_hash sample_binding sample_digest) (ram_view C) =
       (CC_Ready, Some (0, old)) \<and>
     cold_save ram_io (envelope_policy sample_hash sample_binding sample_digest) x True False C = (code, s') \<and>
     (ram_view s' = ram_view C \<and> code \<noteq> CC_Ready \<or>
      (\<exists>t. cold_view (envelope_policy sample_hash sample_binding sample_digest) (ram_view s') = (CC_Ready, Some (t, x))))"
proof -
  let ?pol = "envelope_policy sample_hash sample_binding sample_digest"
  have b: "tl_binding sample_armed = sample_binding" "tl_capture sample_armed = CR_None"
    "tl_binding sample_handed = sample_binding" "tl_capture sample_handed = CR_None"
    by (simp_all add: sample_handed_def sample_armed_def)
  obtain old d where old: "encode_into sample_hash sample_armed zero_frames 0 sample_binding sample_digest = Some old"
    "cold_arrays old" "decode_into sample_hash old sample_binding sample_digest = Some d" "en_metadata d = sample_armed"
    "en_count d = 0"
    using empty_envelope[OF sample_record_arrays(1) sample_records(1) b(1,2)] by blast
  obtain x e where x: "cold_arrays x" "decode_into sample_hash x sample_binding sample_digest = Some e"
    "en_metadata e = sample_handed" "en_count e = 0"
    using empty_envelope[OF sample_record_arrays(2) sample_records(2) b(3,4)] by blast
  have seq: "cold_sequence old = 1" "cold_shape old"
    using old(1) by (auto simp: encode_into_def Let_def capsule_encode_def capsule_record_def sample_armed_def
        split: if_splits option.splits)
  then obtain p where p: "cold_encode old = Some p" by (simp add: cold_encode_def Let_def)
  have init: "pol_initial ?pol old" "pol_valid ?pol old"
    using old sample_records(4) by (simp_all add: envelope_policy_def)
  have "cold_admit ?pol old CC_Empty None = Inr 0" using seq init by (simp add: cold_admit_def)
  from cold_write_selects(1)[OF blank_store_view this old(2) p init(2)]
  have view: "cold_view ?pol (ram_view (cold_blank_map(8 := p))) = (CC_Ready, Some (0, old))"
    by (simp add: ram_view_cold[OF p])
  obtain code s' where run: "cold_save ram_io ?pol x True False (cold_blank_map(8 := p)) = (code, s')"
    by fastforce
  from stored_trial_advances[OF ram.page_device_axioms x(1) view run] view run show ?thesis by blast
qed

end
