(* ===== verification/Cold_Proof.thy ===== *)
theory Cold_Proof
  imports Cold_Capsule
begin

text \<open>
  The proof payload of the gauge trial (\<open>main/hal/mosaico/mosaico_gauge_cold_proof_model.h\<close>): the layout that
  carries a binding, the raw pair document and a signature, and the inputs of the hashes. The hashing, the
  signature check and the flash checks are the trusted wrapper's and not part of the header. A \<open>Bytes\<close> view is a
  byte list, or \<open>None\<close> for a null pointer; \<open>aliased\<close> says that an input overlaps the output buffer.
\<close>

section \<open>Bounded reads\<close>

definition contract_sha :: bytes where
  "contract_sha = [0xec,0x39,0xcc,0x75,0xa1,0x80,0x30,0x90,0x47,0x71,0xa3,0xf4,0xfd,0xc4,0x6c,0x50,
     0xa9,0x56,0x4e,0x92,0x6f,0x45,0x0c,0xdb,0xc6,0x67,0x11,0x59,0x25,0xdc,0x0b,0xa2]"

definition checked_get :: "bytes option \<Rightarrow> nat \<Rightarrow> nat \<Rightarrow> u64 option" where
  "checked_get b p n =
     (case b of None \<Rightarrow> None
      | Some xs \<Rightarrow> if n < 1 \<or> n > 8 \<or> p > length xs \<or> n > length xs - p then None else Some (get_le xs p n))"

definition production_binding :: "trial_binding \<Rightarrow> bool" where
  "production_binding b \<longleftrightarrow> bi_recovery b = RB_SlotHashes \<and> bi_source b = source_crc \<and> bi_target b = target_crc \<and>
     valid_binding b"

definition binding_hash_input :: "trial_binding \<Rightarrow> bytes option" where
  "binding_hash_input b = (if production_binding b then encode_binding b else None)"

definition pair_shape :: "bytes option \<Rightarrow> bool" where
  "pair_shape p = (case p of None \<Rightarrow> False
     | Some xs \<Rightarrow> length xs \<noteq> 0 \<and> length xs \<le> 1050 \<and> list_all (\<lambda>v. v \<noteq> 0) xs)"

section \<open>The shape of a signature\<close>

text \<open>One turn of the loop of \<open>derShape\<close>: the position behind the integer at \<open>p\<close>.\<close>

definition der_step :: "bytes \<Rightarrow> nat \<Rightarrow> nat option" where
  "der_step s p =
     (if p + 2 > length s \<or> s ! p \<noteq> 2 then None
      else
        let n = unat (s ! (p + 1)); q = p + 2 in
        if n = 0 \<or> n > 33 \<or> n > length s - q \<or> s ! q AND 0x80 \<noteq> 0 \<or>
           (n > 1 \<and> s ! q = 0 \<and> s ! (q + 1) AND 0x80 = 0)
        then None
        else if \<not> list_ex (\<lambda>i. s ! (q + i) \<noteq> 0) [0..<n] then None
        else Some (q + n))"

definition der_shape :: "bytes option \<Rightarrow> bool" where
  "der_shape sig =
     (case sig of None \<Rightarrow> False
      | Some s \<Rightarrow>
          if length s < 8 \<or> length s > 72 \<or> s ! 0 \<noteq> 0x30 \<or> unat (s ! 1) \<noteq> length s - 2 then False
          else case der_step s 2 of
            None \<Rightarrow> False
          | Some p \<Rightarrow> (case der_step s p of None \<Rightarrow> False | Some q \<Rightarrow> q = length s))"

section \<open>The payload\<close>

datatype proof_error = PE_None | PE_Bounds | PE_Header | PE_Reserved | PE_Binding | PE_Pair | PE_Der | PE_Alias

record proof_view =
  pv_total :: nat
  pv_pair_offset :: nat
  pv_signature_offset :: nat
  pv_binding :: bytes
  pv_nonce :: bytes
  pv_pair :: bytes
  pv_signature :: bytes

definition proof_decode :: "bytes \<Rightarrow> nat \<Rightarrow> trial_binding \<Rightarrow> proof_error + proof_view" where
  "proof_decode p used expected =
     (if used > length p \<or> used > 1536 \<or> used < 56 + 188 + 1 + 8 then Inl PE_Bounds
      else if get_le p 0 4 \<noteq> (0x31504347 :: u64) \<or> get_le p 4 2 \<noteq> (1 :: u64) \<or> get_le p 6 2 \<noteq> (56 :: u64) \<or>
         get_le p 8 2 \<noteq> (of_nat used :: u64) \<or> get_le p 10 2 \<noteq> (188 :: u64)
      then Inl PE_Header
      else if get_bytes p 16 32 \<noteq> contract_sha then Inl PE_Header
      else if list_ex (\<lambda>v. v \<noteq> 0) (get_bytes p 48 8) then Inl PE_Reserved
      else
        let n = unat (get_le p 12 2 :: u64); m = unat (get_le p 14 2 :: u64) in
        if n = 0 \<or> n > 1050 \<or> m < 8 \<or> m > 72 \<or> used \<noteq> 56 + 188 + n + m then Inl PE_Bounds
        else case binding_hash_input expected of
          None \<Rightarrow> Inl PE_Binding
        | Some wire \<Rightarrow>
            if get_bytes p 56 188 \<noteq> wire then Inl PE_Binding
            else
              let pair = get_bytes p 244 n; sig = get_bytes p (244 + n) m in
              if \<not> pair_shape (Some pair) then Inl PE_Pair
              else if \<not> der_shape (Some sig) then Inl PE_Der
              else Inr \<lparr>pv_total = used, pv_pair_offset = 244, pv_signature_offset = 244 + n,
                     pv_binding = get_bytes p 56 188, pv_nonce = get_bytes p 96 16, pv_pair = pair, pv_signature = sig\<rparr>)"

definition proof_image :: "nat \<Rightarrow> bytes \<Rightarrow> bytes \<Rightarrow> bytes \<Rightarrow> bytes" where
  "proof_image capacity wire pair sig =
     (let p = put_le (put_le (put_le (replicate capacity 0) 0 (0x31504347 :: u64) 4) 4 (1 :: u64) 2) 6 (56 :: u64) 2;
          p = put_le (put_le p 8 (of_nat (244 + length pair + length sig) :: u64) 2) 10 (188 :: u64) 2;
          p = put_le (put_le p 12 (of_nat (length pair) :: u64) 2) 14 (of_nat (length sig) :: u64) 2;
          p = put_bytes (put_bytes p 16 contract_sha) 56 wire
      in put_bytes (put_bytes p 244 pair) (244 + length pair) sig)"

text \<open>The output buffer has \<open>capacity\<close> bytes; the answer is the image and \<open>used\<close>.\<close>

definition proof_encode ::
  "nat \<Rightarrow> bool \<Rightarrow> trial_binding \<Rightarrow> bytes option \<Rightarrow> bytes option \<Rightarrow> proof_error + (bytes \<times> nat)" where
  "proof_encode capacity aliased b pair sig =
     (if \<not> pair_shape pair then Inl PE_Pair
      else if \<not> der_shape sig then Inl PE_Der
      else
        let total = 244 + length (the pair) + length (the sig) in
        if total > capacity \<or> total > 1536 then Inl PE_Bounds
        else case binding_hash_input b of
          None \<Rightarrow> Inl PE_Binding
        | Some wire \<Rightarrow>
            if aliased then Inl PE_Alias
            else Inr (proof_image capacity wire (the pair) (the sig), total))"

section \<open>Hash inputs\<close>

definition session_domain :: bytes where
  "session_domain = map (\<lambda>c. of_char c) ''MOSAICO-GAUGE-COLD-CAP-v1'' @ [10]"

definition source_domain :: bytes where
  "source_domain = map (\<lambda>c. of_char c) ''MOSAICO-GAUGE-COLD-SOURCE-v1'' @ [10]"

definition session_message :: "bytes \<Rightarrow> bytes \<Rightarrow> bytes option" where
  "session_message binding_sha pair_sha =
     (if \<not> nonzero binding_sha \<or> \<not> nonzero pair_sha then None
      else Some (session_domain @ contract_sha @ binding_sha @ pair_sha))"

definition source_receipt_input :: "trial_binding \<Rightarrow> bytes \<Rightarrow> bytes option" where
  "source_receipt_input b raw222 =
     (if \<not> production_binding b then None
      else
        let z = replicate 245 0;
            i = bi_identity b;
            p = put_bytes z 0 (bi_mac b);
            p = (put_le (put_le p 6 (id_device i) 2) 8 (id_firmware i) 2)[10 := id_build i];
            p = put_le (put_le p 11 (bi_generation b) 4) 15 (bi_epoch b) 8
        in Some (source_domain @ put_bytes p 23 raw222))"

section \<open>Round trip\<close>

lemma length_contract_sha [simp]: "length contract_sha = 32"
  by (simp add: contract_sha_def)

lemma encode_binding_length: "encode_binding b = Some w \<Longrightarrow> length w = 188"
  by (auto simp: encode_binding_def split: if_splits)

lemma length_proof_image [simp]: "length (proof_image c w p s) = c"
  by (simp add: proof_image_def Let_def)

lemma proof_image_fields:
  assumes "length wire = 188" "244 + length pair + length sig \<le> c" "c \<le> 1536"
  defines "p \<equiv> proof_image c wire pair sig"
  shows "get_le p 0 4 = (0x31504347 :: u64)" "get_le p 4 2 = (1 :: u64)" "get_le p 6 2 = (56 :: u64)"
    "get_le p 8 2 = (of_nat (244 + length pair + length sig) :: u64)" "get_le p 10 2 = (188 :: u64)"
    "get_le p 12 2 = (of_nat (length pair) :: u64)" "get_le p 14 2 = (of_nat (length sig) :: u64)"
    "get_bytes p 16 32 = contract_sha" "get_bytes p 56 188 = wire" "get_bytes p 244 (length pair) = pair"
    "get_bytes p (244 + length pair) (length sig) = sig" "get_bytes p 48 8 = replicate 8 0"
proof -
  have t: "take_bit 16 (of_nat k :: u64) = of_nat k" if "k \<le> 1536" for k
    using that by (simp add: word_unat_eq_iff unsigned_take_bit_eq unat_of_nat take_bit_nat_eq_self)
  show "get_le p 0 4 = (0x31504347 :: u64)" "get_le p 4 2 = (1 :: u64)" "get_le p 6 2 = (56 :: u64)"
    "get_le p 10 2 = (188 :: u64)" "get_bytes p 16 32 = contract_sha" "get_bytes p 56 188 = wire"
    "get_bytes p 244 (length pair) = pair" "get_bytes p (244 + length pair) (length sig) = sig"
    using assms by (simp_all add: p_def proof_image_def Let_def codec_simps del: get_le.simps)
  show "get_le p 8 2 = (of_nat (244 + length pair + length sig) :: u64)"
    "get_le p 12 2 = (of_nat (length pair) :: u64)" "get_le p 14 2 = (of_nat (length sig) :: u64)"
    using assms t[of "244 + length pair + length sig"] t[of "length pair"] t[of "length sig"]
    by (simp_all add: p_def proof_image_def Let_def codec_simps del: get_le.simps of_nat_add of_nat_numeral)
  show "get_bytes p 48 8 = replicate 8 0"
    using assms by (intro nth_equalityI) (simp_all add: p_def proof_image_def Let_def nth_put_bytes_other nth_put_le_other)
qed

text \<open>What the encoder accepts, the decoder returns: the pair document, the signature and the trial nonce come back
  from the buffer exactly, with the offsets the view reports, for every buffer of at least the used size.\<close>

theorem proof_roundtrip:
  assumes "proof_encode capacity aliased b (Some pair) (Some sig) = Inr (out, used)" "capacity \<le> 1536" "binding_arrays b"
  shows "proof_decode out used b =
    Inr \<lparr>pv_total = used, pv_pair_offset = 244, pv_signature_offset = 244 + length pair,
      pv_binding = get_bytes out 56 188, pv_nonce = bi_nonce b, pv_pair = pair, pv_signature = sig\<rparr>"
proof -
  obtain wire where w: "binding_hash_input b = Some wire" "pair_shape (Some pair)" "der_shape (Some sig)"
    "244 + length pair + length sig \<le> capacity" "out = proof_image capacity wire pair sig"
    "used = 244 + length pair + length sig"
    using assms(1) by (auto simp: proof_encode_def Let_def split: if_splits option.splits)
  have e: "encode_binding b = Some wire" using w(1) by (simp add: binding_hash_input_def split: if_splits)
  have lw: "length wire = 188" using encode_binding_length[OF e] .
  note f = proof_image_fields[OF lw w(4) assms(2), folded w(5)]
  have lp: "length pair \<noteq> 0" "length pair \<le> 1050" using w(2) by (simp_all add: pair_shape_def)
  have ls: "8 \<le> length sig" "length sig \<le> 72" using w(3) by (auto simp: der_shape_def split: if_splits)
  have "read_binding wire 8 = Some b"
    using e read_write_binding[OF assms(3), of 8] by (auto simp: encode_binding_def split: if_splits)
  then have "get_bytes wire 40 16 = bi_nonce b"
    by (auto simp: read_binding_def simp del: get_le.simps split: option.splits)
  moreover have "get_bytes out 96 16 = get_bytes (get_bytes out 56 188) 40 16"
    by (rule nth_equalityI) simp_all
  ultimately have nonce: "get_bytes out 96 16 = bi_nonce b" using f(9) by simp
  have u: "unat (of_nat k :: u64) = k" if "k \<le> 1536" for k using that by (intro unat_eqI[OF refl]) simp
  have lo: "length out = capacity" "1 \<le> length pair" "\<not> list_ex (\<lambda>v. v \<noteq> 0) (replicate 8 (0 :: u8))"
    using w(5) lp(1) by (auto simp: list_ex_iff Suc_le_eq)
  show ?thesis using f lp ls w(1,2,3,4) assms(2) nonce lo u[of "length pair"] u[of "length sig"]
    by (simp add: proof_decode_def w(6) Let_def w(5)[symmetric] del: get_le.simps of_nat_add)
qed

definition slot_binding :: trial_binding where
  "slot_binding = sample_binding\<lparr>bi_recovery := RB_SlotHashes, bi_slot0 := replicate 32 1, bi_slot1 := replicate 32 2,
     bi_contract := replicate 32 0\<rparr>"

definition sample_signature :: bytes where
  "sample_signature = [0x30, 6, 2, 1, 1, 2, 1, 1]"

theorem proof_roundtrip_witness:
  "\<exists>out used. proof_encode 1536 False slot_binding (Some [7, 8]) (Some sample_signature) = Inr (out, used) \<and>
     (case proof_decode out used slot_binding of Inl _ \<Rightarrow> False
      | Inr v \<Rightarrow> pv_pair v = [7, 8] \<and> pv_signature v = sample_signature \<and> pv_nonce v = replicate 16 1)"
proof -
  have s: "pair_shape (Some [7, 8])" "der_shape (Some sample_signature)" "production_binding slot_binding"
    "valid_binding slot_binding" "binding_arrays slot_binding" "bi_nonce slot_binding = replicate 16 1"
    by code_simp+
  have "length sample_signature = 8" by (simp add: sample_signature_def)
  then obtain out used where e: "proof_encode 1536 False slot_binding (Some [7, 8]) (Some sample_signature) = Inr (out, used)"
    using s by (auto simp: proof_encode_def binding_hash_input_def encode_binding_def Let_def)
  show ?thesis using e proof_roundtrip[OF e _ s(5)] s(6) by simp
qed

section \<open>The signature check against its specification\<close>

text \<open>A positive integer in the minimal encoding of DER, of at most 33 bytes, and a sequence of two of them.\<close>

definition der_integer :: "bytes \<Rightarrow> bool" where
  "der_integer v \<longleftrightarrow> v \<noteq> [] \<and> length v \<le> 33 \<and> hd v AND 0x80 = 0 \<and> nonzero v \<and>
     (length v > 1 \<and> hd v = 0 \<longrightarrow> v ! 1 AND 0x80 \<noteq> 0)"

lemma get_bytes_slice: "p + n \<le> length s \<Longrightarrow> get_bytes s p n = take n (drop p s)"
  by (rule nth_equalityI) simp_all

lemma der_step_slice:
  "der_step s p = Some q \<longleftrightarrow>
     (let n = unat (s ! (p + 1)); v = take n (drop (p + 2) s) in
      p + 2 + n \<le> length s \<and> s ! p = 2 \<and> der_integer v \<and> q = p + 2 + n)"
proof (cases "p + 2 + unat (s ! (p + 1)) \<le> length s")
  case True
  let ?n = "unat (s ! (p + 1))"
  have v: "take ?n (drop (p + 2) s) = get_bytes s (p + 2) ?n" using True by (simp add: get_bytes_slice)
  show ?thesis
  proof (cases "?n = 0")
    case True
    then show ?thesis by (simp add: der_step_def der_integer_def Let_def)
  next
    case n: False
    have h: "hd (get_bytes s (p + 2) ?n) = s ! (p + 2)" using n by (simp add: hd_conv_nth get_bytes_def)
    have one: "?n > 1 \<Longrightarrow> get_bytes s (p + 2) ?n ! 1 = s ! (p + 2 + 1)" by simp
    have nz: "nonzero (get_bytes s (p + 2) ?n) = list_ex (\<lambda>i. s ! (p + 2 + i) \<noteq> 0) [0..<?n]"
      by (simp add: nonzero_def get_bytes_def list_ex_iff)
    have ne: "get_bytes s (p + 2) ?n \<noteq> []" using n by (metis length_get_bytes list.size(3))
    show ?thesis unfolding v der_integer_def Let_def h nz der_step_def using True n one ne
      by (cases "1 < ?n") auto
  qed
qed (auto simp: der_step_def Let_def)

lemma der_step_spec:
  "der_step s p = Some q \<longleftrightarrow>
     (\<exists>v rest. drop p s = [2, of_nat (length v)] @ v @ rest \<and> der_integer v \<and> q = p + 2 + length v)"
proof
  assume d: "der_step s p = Some q"
  let ?n = "unat (s ! (p + 1))"
  have f: "p + 2 + ?n \<le> length s" "s ! p = 2" "der_integer (take ?n (drop (p + 2) s))" "q = p + 2 + ?n"
    using d unfolding der_step_slice Let_def by simp_all
  have "drop p s = s ! p # s ! (p + 1) # drop (p + 2) s"
    using f(1) by (simp add: Cons_nth_drop_Suc)
  moreover have "drop (p + 2) s = take ?n (drop (p + 2) s) @ drop ?n (drop (p + 2) s)"
    by (rule append_take_drop_id[symmetric])
  moreover have "length (take ?n (drop (p + 2) s)) = ?n" using f(1) by simp
  moreover have "of_nat ?n = s ! (p + 1)" by simp
  ultimately have "drop p s = [2, of_nat (length (take ?n (drop (p + 2) s)))] @ take ?n (drop (p + 2) s) @ drop ?n (drop (p + 2) s)"
    using f(2) by (metis append_Cons append_Nil)
  then show "\<exists>v rest. drop p s = [2, of_nat (length v)] @ v @ rest \<and> der_integer v \<and> q = p + 2 + length v"
    using f by (metis \<open>length (take ?n (drop (p + 2) s)) = ?n\<close>)
next
  assume "\<exists>v rest. drop p s = [2, of_nat (length v)] @ v @ rest \<and> der_integer v \<and> q = p + 2 + length v"
  then obtain v rest where d: "drop p s = 2 # of_nat (length v) # v @ rest" "der_integer v" "q = p + 2 + length v" by auto
  have len: "length s = p + (2 + length v + length rest)" using arg_cong[OF d(1), of length] by simp
  have "s ! p = 2" "s ! (p + 1) = of_nat (length v)" "drop (p + 2) s = v @ rest"
    using arg_cong[OF d(1), of "\<lambda>x. x ! 0"] arg_cong[OF d(1), of "\<lambda>x. x ! 1"] arg_cong[OF d(1), of "drop 2"] len
    by (simp_all add: add.commute)
  moreover have "unat (of_nat (length v) :: u8) = length v"
    using d(2) by (intro unat_eqI[OF refl]) (simp add: der_integer_def)
  ultimately show "der_step s p = Some q" using d len unfolding der_step_slice Let_def by simp
qed

text \<open>C26: The signature check accepts exactly the byte strings of 8 to 72 bytes that are a DER sequence of two positive,
  minimally encoded integers of at most 33 bytes with nothing behind them.\<close>

theorem der_shape_spec:
  "der_shape (Some s) =
     (\<exists>r t. s = [0x30, of_nat (length s - 2), 2, of_nat (length r)] @ r @ [2, of_nat (length t)] @ t \<and>
        der_integer r \<and> der_integer t \<and> 8 \<le> length s \<and> length s \<le> 72)"
proof
  assume "der_shape (Some s)"
  then obtain p where l: "8 \<le> length s" "length s \<le> 72" "s ! 0 = 0x30" "unat (s ! 1) = length s - 2"
    and p: "der_step s 2 = Some p" "der_step s p = Some (length s)"
    by (auto simp: der_shape_def split: if_splits option.splits)
  obtain r x where r: "drop 2 s = [2, of_nat (length r)] @ r @ x" "der_integer r" "p = 2 + 2 + length r"
    using p(1) unfolding der_step_spec by blast
  obtain t y where t: "drop p s = [2, of_nat (length t)] @ t @ y" "der_integer t" "length s = p + 2 + length t"
    using p(2) unfolding der_step_spec by blast
  have "length (drop p s) = 2 + length t" using t(3) by simp
  then have y: "y = []" using arg_cong[OF t(1), of length] by simp
  have "drop p s = drop (2 + length r) (drop 2 s)"
    unfolding r(3) drop_drop by (rule arg_cong [where f = "\<lambda>n. drop n s"]) simp
  then have x: "x = [2, of_nat (length t)] @ t" using r(1) t(1) y by simp
  have "s = s ! 0 # s ! 1 # drop 2 s"
    using l(1) by (cases s; cases "tl s") (simp_all add: numeral_2_eq_2)
  moreover have "s ! 1 = of_nat (length s - 2)" using l(4) by (metis of_nat_unat ucast_id)
  ultimately have "s = [0x30, of_nat (length s - 2), 2, of_nat (length r)] @ r @ [2, of_nat (length t)] @ t"
    using l(3) r(1) x by simp
  then show "\<exists>r t. s = [0x30, of_nat (length s - 2), 2, of_nat (length r)] @ r @ [2, of_nat (length t)] @ t \<and>
        der_integer r \<and> der_integer t \<and> 8 \<le> length s \<and> length s \<le> 72"
    using r(2) t(2) l(1,2) by blast
next
  assume "\<exists>r t. s = [0x30, of_nat (length s - 2), 2, of_nat (length r)] @ r @ [2, of_nat (length t)] @ t \<and>
        der_integer r \<and> der_integer t \<and> 8 \<le> length s \<and> length s \<le> 72"
  then obtain r t where s: "s = [0x30, of_nat (length s - 2), 2, of_nat (length r)] @ r @ [2, of_nat (length t)] @ t"
    and i: "der_integer r" "der_integer t" and l: "8 \<le> length s" "length s \<le> 72" by blast
  have len: "length s = 6 + length r + length t" using arg_cong[OF s, of length] by simp
  have "drop 2 s = [2, of_nat (length r)] @ r @ ([2, of_nat (length t)] @ t)" by (subst s) simp
  then have 1: "der_step s 2 = Some (2 + 2 + length r)" unfolding der_step_spec using i(1) by blast
  define a where "a = [0x30, of_nat (length s - 2), 2, of_nat (length r)] @ r"
  have sa: "s = a @ [2, of_nat (length t)] @ t" using s by (simp add: a_def)
  have la: "length a = 4 + length r" by (simp add: a_def)
  have "drop (2 + 2 + length r) s = [2, of_nat (length t)] @ t @ []" by (subst sa) (simp add: la)
  then have 2: "der_step s (2 + 2 + length r) = Some (2 + 2 + length r + 2 + length t)"
    unfolding der_step_spec using i(2) by blast
  have "unat (of_nat (length s - 2) :: u8) = length s - 2" using l by (intro unat_eqI[OF refl]) simp
  moreover have "s ! 0 = 0x30" "s ! 1 = of_nat (length s - 2)" by (subst s, simp)+
  ultimately show "der_shape (Some s)" using 1 2 l len by (simp add: der_shape_def)
qed

end
