(* ===== verification/Gauge_Nominal.thy ===== *)
theory Gauge_Nominal
  imports Crc_Seal Prelude_Words
begin

unbundle bit_operations_syntax

text \<open>
  The nominal-capacity safety model of the gauge (\<open>main/hal/mosaico/mosaico_gauge_model.h\<close>): the three journals
  with their byte layout and CRC, the admission policies, the authenticated MAC responses and the self-test that
  the firmware runs before it trusts them. A journal is sealed over the bytes of its struct; the layout is the
  little-endian one that the code fixes with its offset assertions. A signed 16-bit reading is an \<open>int\<close>.
\<close>

section \<open>Constants and enums\<close>

definition device_type :: u16 where "device_type = 0x0220"
definition nominal_mah :: u16 where "nominal_mah = 65"
definition factory_mah :: u16 where "factory_mah = 3000"
definition max_reasonable_fcc :: u16 where "max_reasonable_fcc = 78"
definition field_initial_fcc :: u16 where "field_initial_fcc = 0x929D"
definition field_design :: u16 where "field_design = 0x929F"

lemmas gauge_constants = device_type_def nominal_mah_def factory_mah_def max_reasonable_fcc_def
  field_initial_fcc_def field_design_def

text \<open>The states of the three journals are bytes: a stored journal may hold any.\<close>

definition st_pending :: u8 where "st_pending = 1"
definition st_committed :: u8 where "st_committed = 2"
definition st_rollback_failed :: u8 where "st_rollback_failed = 5"
definition st_exit_failed :: u8 where "st_exit_failed = 6"
definition st_verified_sealed :: u8 where "st_verified_sealed = 7"
definition as_pending :: u8 where "as_pending = 1"
definition as_restored :: u8 where "as_restored = 3"
definition as_failed :: u8 where "as_failed = 4"
definition rs_pending :: u8 where "rs_pending = 1"
definition rs_completed :: u8 where "rs_completed = 3"

lemmas gauge_states = st_pending_def st_committed_def st_rollback_failed_def st_exit_failed_def
  st_verified_sealed_def as_pending_def as_restored_def as_failed_def rs_pending_def rs_completed_def

section \<open>The journals\<close>

record gauge_journal =
  gj_magic :: u32
  gj_version :: u16
  gj_device :: u16
  gj_unit :: u8
  gj_state :: u8
  gj_changed :: u8
  gj_action :: u8
  gj_mac :: bytes
  gj_original_design :: u16
  gj_original_fcc :: u16
  gj_target_design :: u16
  gj_target_fcc :: u16
  gj_operation :: u16
  gj_last_design :: u16
  gj_last_fcc :: u16
  gj_crc :: u32

record access_journal =
  aj_magic :: u32
  aj_version :: u16
  aj_device :: u16
  aj_unit :: u8
  aj_state :: u8
  aj_prior :: u8
  aj_last :: u8
  aj_unseal_attempted :: u8
  aj_unseal_verified :: u8
  aj_full_attempted :: u8
  aj_full_verified :: u8
  aj_mac :: bytes
  aj_base_design :: u16
  aj_base_fcc :: u16
  aj_operation :: u16
  aj_crc :: u32

record reload_journal =
  rj_magic :: u32
  rj_version :: u16
  rj_device :: u16
  rj_unit :: u8
  rj_state :: u8
  rj_reserved :: u16
  rj_mac :: bytes
  rj_target_design :: u16
  rj_target_fcc :: u16
  rj_reserved2 :: u16
  rj_crc :: u32

definition journal_bytes :: "gauge_journal \<Rightarrow> bytes" where
  "journal_bytes j =
     (let b = put_le (put_le (put_le (replicate 32 0) 0 (gj_magic j) 4) 4 (gj_version j) 2) 6 (gj_device j) 2;
          b = put_bytes (b[8 := gj_unit j, 9 := gj_state j, 10 := gj_changed j, 11 := gj_action j]) 12 (gj_mac j);
          b = put_le (put_le (put_le b 18 (gj_original_design j) 2) 20 (gj_original_fcc j) 2) 22 (gj_target_design j) 2
      in put_le (put_le (put_le (put_le b 24 (gj_target_fcc j) 2) 26 (gj_operation j) 2) 28 (gj_last_design j) 2)
           30 (gj_last_fcc j) 2)"

definition access_bytes :: "access_journal \<Rightarrow> bytes" where
  "access_bytes j =
     (let b = put_le (put_le (put_le (replicate 28 0) 0 (aj_magic j) 4) 4 (aj_version j) 2) 6 (aj_device j) 2;
          b = b[8 := aj_unit j, 9 := aj_state j, 10 := aj_prior j, 11 := aj_last j, 12 := aj_unseal_attempted j,
                13 := aj_unseal_verified j, 14 := aj_full_attempted j, 15 := aj_full_verified j]
      in put_le (put_le (put_le (put_bytes b 16 (aj_mac j)) 22 (aj_base_design j) 2) 24 (aj_base_fcc j) 2)
           26 (aj_operation j) 2)"

definition reload_bytes :: "reload_journal \<Rightarrow> bytes" where
  "reload_bytes j =
     (let b = put_le (put_le (put_le (replicate 24 0) 0 (rj_magic j) 4) 4 (rj_version j) 2) 6 (rj_device j) 2;
          b = put_bytes (put_le (b[8 := rj_unit j, 9 := rj_state j]) 10 (rj_reserved j) 2) 12 (rj_mac j)
      in put_le (put_le (put_le b 18 (rj_target_design j) 2) 20 (rj_target_fcc j) 2) 22 (rj_reserved2 j) 2)"

definition seal_journal :: "gauge_journal \<Rightarrow> gauge_journal" where
  "seal_journal j = j\<lparr>gj_crc := crc32 (journal_bytes j)\<rparr>"

definition seal_access :: "access_journal \<Rightarrow> access_journal" where
  "seal_access j = j\<lparr>aj_crc := crc32 (access_bytes j)\<rparr>"

definition seal_reload :: "reload_journal \<Rightarrow> reload_journal" where
  "seal_reload j = j\<lparr>rj_crc := crc32 (reload_bytes j)\<rparr>"

section \<open>Admission policies\<close>

definition sec_bits :: "u16 \<Rightarrow> u16" where
  "sec_bits op = drop_bit 1 op AND 3"

definition reasonable_fcc :: "u16 \<Rightarrow> bool" where
  "reasonable_fcc v \<longleftrightarrow> v > 0 \<and> v \<le> max_reasonable_fcc"

definition config_exit_accepted :: "u16 \<Rightarrow> bool" where
  "config_exit_accepted op \<longleftrightarrow> (sec_bits op = 1 \<or> sec_bits op = 3) \<and> op AND 0x0401 = 0 \<and> op AND 0x0020 \<noteq> 0"

definition capacity_policy :: "u16 \<Rightarrow> u16 \<Rightarrow> bool" where
  "capacity_policy design fcc \<longleftrightarrow> (design = nominal_mah \<or> design = factory_mah) \<and>
     (reasonable_fcc fcc \<or> (design = factory_mah \<and> fcc = factory_mah))"

definition quiet_full :: "u16 \<Rightarrow> u16 \<Rightarrow> u16 \<Rightarrow> u16 \<Rightarrow> int \<Rightarrow> int \<Rightarrow> bool" where
  "quiet_full op soc mv temperature current average \<longleftrightarrow>
     sec_bits op = 1 \<and> op AND 0x0401 = 0 \<and> op AND 0x0020 \<noteq> 0 \<and>
     soc \<ge> 95 \<and> soc \<le> 100 \<and> mv \<ge> 4050 \<and> mv \<le> 4350 \<and> temperature \<ge> 2832 \<and> temperature \<le> 3181 \<and>
     current \<ge> -3 \<and> current \<le> 3 \<and> average \<ge> -3 \<and> average \<le> 3"

definition quiet_access :: "u16 \<Rightarrow> u16 \<Rightarrow> u16 \<Rightarrow> u16 \<Rightarrow> int \<Rightarrow> int \<Rightarrow> bool" where
  "quiet_access op soc mv temperature current average \<longleftrightarrow>
     sec_bits op \<ge> 1 \<and> sec_bits op \<le> 3 \<and>
     quiet_full ((op AND NOT 0x0006) OR 0x0002) soc mv temperature current average"

definition boot_reload_physical :: "u16 \<Rightarrow> u16 \<Rightarrow> u16 \<Rightarrow> int \<Rightarrow> int \<Rightarrow> bool" where
  "boot_reload_physical op mv temperature current average \<longleftrightarrow>
     sec_bits op \<ge> 1 \<and> sec_bits op \<le> 3 \<and> op AND 0x0401 = 0 \<and> op AND 0x0020 \<noteq> 0 \<and>
     mv \<ge> 3500 \<and> mv \<le> 4350 \<and> temperature \<ge> 2832 \<and> temperature \<le> 3181 \<and>
     current \<ge> -130 \<and> current \<le> 130 \<and> average \<ge> -130 \<and> average \<le> 130"

definition quiet_full_restore :: "u16 \<Rightarrow> u16 \<Rightarrow> u16 \<Rightarrow> u16 \<Rightarrow> int \<Rightarrow> int \<Rightarrow> bool \<Rightarrow> bool" where
  "quiet_full_restore op soc mv temperature current average owned_journal \<longleftrightarrow>
     (if op AND 0x0400 \<noteq> 0 \<and> \<not> owned_journal then False
      else quiet_full (op AND NOT 0x0400) soc mv temperature current average)"

section \<open>Valid journals\<close>

definition valid_access_journal :: "access_journal \<Rightarrow> bytes \<Rightarrow> bool" where
  "valid_access_journal j mac \<longleftrightarrow>
     aj_magic j = 0x47414331 \<and> aj_version j = 1 \<and> aj_device j = device_type \<and> aj_unit j = 1 \<and>
     aj_state j \<ge> as_pending \<and> aj_state j \<le> as_failed \<and> aj_prior j \<ge> 1 \<and> aj_prior j \<le> 3 \<and> aj_last j \<le> 3 \<and>
     aj_unseal_attempted j \<le> 1 \<and> aj_unseal_verified j \<le> aj_unseal_attempted j \<and> aj_full_attempted j \<le> 1 \<and>
     aj_full_verified j \<le> aj_full_attempted j \<and> (aj_full_verified j = 0 \<or> aj_unseal_verified j \<noteq> 0) \<and> aj_mac j = mac \<and>
     (aj_base_design j = nominal_mah \<or> aj_base_design j = factory_mah) \<and>
     (reasonable_fcc (aj_base_fcc j) \<or> aj_base_fcc j = factory_mah) \<and>
     sec_bits (aj_operation j) = ucast (aj_prior j) \<and> aj_operation j AND 0x0401 = 0 \<and> aj_crc j = crc32 (access_bytes j)"

definition failed_default_attempt :: "access_journal \<Rightarrow> bool" where
  "failed_default_attempt j \<longleftrightarrow> (aj_unseal_attempted j \<noteq> 0 \<and> aj_unseal_verified j = 0) \<or>
     (aj_full_attempted j \<noteq> 0 \<and> aj_full_verified j = 0)"

definition valid_reload_journal :: "reload_journal \<Rightarrow> bytes \<Rightarrow> bool" where
  "valid_reload_journal j mac \<longleftrightarrow>
     rj_magic j = 0x47423635 \<and> rj_version j = 1 \<and> rj_device j = device_type \<and> rj_unit j = 1 \<and>
     rj_state j \<ge> rs_pending \<and> rj_state j \<le> rs_completed \<and> rj_reserved j = 0 \<and> rj_reserved2 j = 0 \<and>
     rj_target_design j = nominal_mah \<and> rj_target_fcc j = nominal_mah \<and> rj_mac j = mac \<and>
     rj_crc j = crc32 (reload_bytes j)"

definition boot_history_eligible :: "gauge_journal \<Rightarrow> access_journal \<Rightarrow> bool" where
  "boot_history_eligible n a \<longleftrightarrow>
     gj_action n = 1 \<and> gj_state n = st_verified_sealed \<and> gj_target_design n = nominal_mah \<and>
     gj_target_fcc n = nominal_mah \<and> gj_last_design n = gj_target_design n \<and> gj_last_fcc n = gj_target_fcc n \<and>
     aj_state a = as_restored \<and> aj_prior a = 3 \<and> aj_last a = 3 \<and> aj_unseal_verified a \<noteq> 0 \<and>
     aj_full_verified a \<noteq> 0 \<and> \<not> failed_default_attempt a"

definition keep_learned_nominal :: "u16 \<Rightarrow> u16 \<Rightarrow> bool" where
  "keep_learned_nominal design fcc \<longleftrightarrow> design = nominal_mah \<and> reasonable_fcc fcc"

definition boot_factory_pair_eligible :: "gauge_journal \<Rightarrow> u16 \<Rightarrow> u16 \<Rightarrow> bool" where
  "boot_factory_pair_eligible n design fcc \<longleftrightarrow> design = factory_mah \<and> fcc = factory_mah \<and>
     gj_original_design n = factory_mah \<and> gj_original_fcc n = factory_mah \<and> gj_changed n = 1"

definition boot_factory_security_eligible :: "gauge_journal \<Rightarrow> access_journal \<Rightarrow> u16 \<Rightarrow> u16 \<Rightarrow> u16 \<Rightarrow> bool" where
  "boot_factory_security_eligible n a design fcc op \<longleftrightarrow>
     boot_history_eligible n a \<and> boot_factory_pair_eligible n design fcc \<and>
     (sec_bits op = 2 \<or> sec_bits op = 3) \<and> op AND 0x0401 = 0 \<and> op AND 0x0020 \<noteq> 0"

definition recovery_state :: "u8 \<Rightarrow> bool" where
  "recovery_state s \<longleftrightarrow> s = st_pending \<or> s = st_exit_failed \<or> s = st_rollback_failed"

definition valid_journal :: "gauge_journal \<Rightarrow> bytes \<Rightarrow> bool" where
  "valid_journal j mac \<longleftrightarrow>
     gj_magic j = 0x47433635 \<and> gj_version j = 1 \<and> gj_device j = device_type \<and> gj_unit j = 1 \<and>
     gj_state j \<ge> st_pending \<and> gj_state j \<le> st_verified_sealed \<and> (gj_action j = 1 \<or> gj_action j = 2) \<and>
     gj_changed j \<le> 1 \<and> gj_mac j = mac \<and> gj_target_design j = nominal_mah \<and>
     capacity_policy (gj_original_design j) (gj_original_fcc j) \<and>
     (if gj_changed j \<noteq> 0
      then gj_original_design j = factory_mah \<and> gj_original_fcc j = factory_mah \<and> gj_target_fcc j = nominal_mah
      else gj_target_fcc j = gj_original_fcc j) \<and>
     sec_bits (gj_operation j) = 1 \<and> gj_operation j AND 0x0401 = 0 \<and> gj_crc j = crc32 (journal_bytes j)"

definition allowed_value :: "gauge_journal \<Rightarrow> u16 \<Rightarrow> u16 \<Rightarrow> bool" where
  "allowed_value j field v \<longleftrightarrow>
     (if field = field_design then v = nominal_mah \<or> v = gj_original_design j
      else if field = field_initial_fcc \<and> gj_changed j \<noteq> 0 then v = gj_target_fcc j \<or> v = gj_original_fcc j
      else False)"

definition restore_pair_allowed :: "gauge_journal \<Rightarrow> u16 \<Rightarrow> u16 \<Rightarrow> bool" where
  "restore_pair_allowed j design fcc \<longleftrightarrow>
     (design = gj_original_design j \<or> design = gj_target_design j) \<and>
     (if gj_changed j \<noteq> 0 then fcc = gj_original_fcc j \<or> fcc = gj_target_fcc j else reasonable_fcc fcc)"

section \<open>Authenticated responses\<close>

definition mac_checksum :: "bytes \<Rightarrow> nat \<Rightarrow> u8" where
  "mac_checksum b n = 255 - foldl (+) 0 (take n b)"

definition authenticated_mac :: "bytes \<Rightarrow> u16 \<Rightarrow> bool \<Rightarrow> bool" where
  "authenticated_mac block sel dm \<longleftrightarrow>
     (let n = unat (block ! 35) in
      n \<ge> 6 \<and> n \<le> 36 \<and> (\<not> dm \<or> n = 36) \<and> block ! 0 = ucast sel \<and> block ! 1 = ucast (drop_bit 8 sel) \<and>
      mac_checksum block (n - 2) = block ! 34)"

text \<open>\<open>authenticateDmResponse\<close>: the answer and the block it leaves.\<close>

definition authenticate_dm :: "bytes \<Rightarrow> u16 \<Rightarrow> bool \<times> bytes" where
  "authenticate_dm block requested =
     (let b = (if block ! 0 = 0xff \<and> block ! 1 = 0xff
               then block[0 := ucast requested, 1 := ucast (drop_bit 8 requested)] else block) in
      (authenticated_mac b requested True, b))"

section \<open>The self-test\<close>

text \<open>\<open>selftest\<close>, one definition per stage; every stage must hold for the next to run.\<close>

definition selftest_policies :: bool where
  "selftest_policies \<longleftrightarrow>
     \<not> (crc32 [49, 50, 51, 52, 53, 54, 55, 56, 57] \<noteq> 0xCBF43926 \<or> \<not> config_exit_accepted 0xA6 \<or>
        \<not> config_exit_accepted 0xA2 \<or> config_exit_accepted 0x4A6 \<or> config_exit_accepted 0xA7 \<or>
        config_exit_accepted 0x86 \<or> config_exit_accepted 0xA4 \<or> \<not> quiet_full 0x22 95 4050 2832 (-3) 3 \<or>
        quiet_full 0x26 99 4200 3000 0 0 \<or> quiet_full 0x422 99 4200 3000 0 0 \<or> quiet_full 0x22 94 4200 3000 0 0 \<or>
        quiet_full 0x22 99 4200 3182 0 0 \<or> quiet_full 0x22 99 4200 3000 4 0 \<or>
        \<not> quiet_full_restore 0x422 99 4200 3000 0 0 True \<or> quiet_full_restore 0x422 99 4200 3000 0 0 False \<or>
        quiet_full_restore 0x426 99 4200 3000 0 0 True \<or> quiet_full_restore 0x423 99 4200 3000 0 0 True \<or>
        \<not> quiet_access 0xA6 100 4205 3000 0 0 \<or> quiet_access 0xA0 100 4205 3000 0 0 \<or>
        quiet_access 0x4A6 100 4205 3000 0 0 \<or> quiet_access 0xA7 100 4205 3000 0 0 \<or> \<not> capacity_policy 3000 3000 \<or>
        \<not> capacity_policy 3000 78 \<or> capacity_policy 65 3000 \<or> capacity_policy 130 130)"

definition test_mac :: bytes where "test_mac = [1, 2, 3, 4, 5, 6]"

definition test_journal :: gauge_journal where
  "test_journal = \<lparr>gj_magic = 0x47433635, gj_version = 1, gj_device = device_type, gj_unit = 1, gj_state = st_pending,
     gj_changed = 1, gj_action = 1, gj_mac = replicate 6 0, gj_original_design = factory_mah,
     gj_original_fcc = factory_mah, gj_target_design = nominal_mah, gj_target_fcc = nominal_mah, gj_operation = 0x22,
     gj_last_design = 0, gj_last_fcc = 0, gj_crc = 0\<rparr>"

definition test_access :: access_journal where
  "test_access = \<lparr>aj_magic = 0x47414331, aj_version = 1, aj_device = device_type, aj_unit = 1, aj_state = as_pending,
     aj_prior = 3, aj_last = 0, aj_unseal_attempted = 0, aj_unseal_verified = 0, aj_full_attempted = 0,
     aj_full_verified = 0, aj_mac = test_mac, aj_base_design = factory_mah, aj_base_fcc = factory_mah,
     aj_operation = 0xA6, aj_crc = 0\<rparr>"

text \<open>The access journal of the stage, and whether the stage passes.\<close>

definition selftest_access :: "bool \<times> access_journal" where
  "selftest_access =
     (let a = seal_access test_access;
          ok1 = valid_access_journal a test_mac \<and> \<not> failed_default_attempt a;
          a = seal_access (a\<lparr>aj_unseal_attempted := 1\<rparr>);
          ok2 = valid_access_journal a test_mac \<and> failed_default_attempt a;
          a = seal_access (a\<lparr>aj_unseal_verified := 1, aj_full_attempted := 1\<rparr>);
          ok3 = failed_default_attempt a;
          a = seal_access (a\<lparr>aj_full_verified := 1\<rparr>);
          ok4 = valid_access_journal a test_mac \<and> \<not> failed_default_attempt a;
          a = a\<lparr>aj_prior := aj_prior a XOR 1\<rparr>;
          ok5 = (\<not> valid_access_journal a test_mac);
          a = seal_access (a\<lparr>aj_prior := 3, aj_last := 3, aj_state := as_restored\<rparr>) in
      (ok1 \<and> ok2 \<and> ok3 \<and> ok4 \<and> ok5, a))"

definition selftest_boot :: "access_journal \<Rightarrow> bool" where
  "selftest_boot a \<longleftrightarrow>
     (let n = test_journal\<lparr>gj_state := st_verified_sealed, gj_last_design := nominal_mah, gj_last_fcc := nominal_mah\<rparr>;
          ok1 = boot_history_eligible n a \<and> keep_learned_nominal 65 62 \<and> \<not> keep_learned_nominal 65 3000 \<and>
            boot_factory_pair_eligible n 3000 3000 \<and> \<not> boot_factory_pair_eligible n 65 3000;
          ok2 = boot_factory_security_eligible n a 3000 3000 0x00a4 \<and>
            boot_factory_security_eligible n a 3000 3000 0x00a6 \<and>
            \<not> boot_factory_security_eligible n a 3000 3000 0x04a4 \<and>
            \<not> boot_factory_security_eligible n a 3000 3000 0x00a5 \<and>
            \<not> boot_factory_security_eligible n a 3000 3000 0x0084 \<and>
            \<not> boot_factory_security_eligible n a 65 62 0x00a4;
          n = n\<lparr>gj_state := st_exit_failed\<rparr>;
          ok3 = (\<not> boot_history_eligible n a);
          n = n\<lparr>gj_state := st_verified_sealed, gj_last_design := factory_mah, gj_last_fcc := factory_mah\<rparr> in
      ok1 \<and> ok2 \<and> ok3 \<and> \<not> boot_history_eligible n a)"

definition selftest_reload :: bool where
  "selftest_reload \<longleftrightarrow>
     \<not> (\<not> boot_reload_physical 0x00b6 4122 2982 67 67 \<or> \<not> boot_reload_physical 0x0022 3500 2832 (-130) 130 \<or>
        boot_reload_physical 0x00b6 3499 2982 0 0 \<or> boot_reload_physical 0x00b6 4351 2982 0 0 \<or>
        boot_reload_physical 0x00b6 4122 2831 0 0 \<or> boot_reload_physical 0x00b6 4122 3182 0 0 \<or>
        boot_reload_physical 0x00b6 4122 2982 131 0 \<or> boot_reload_physical 0x00b6 4122 2982 0 (-131) \<or>
        boot_reload_physical 0x04b6 4122 2982 0 0 \<or> boot_reload_physical 0x00b7 4122 2982 0 0 \<or>
        boot_reload_physical 0x00b0 4122 2982 0 0 \<or> quiet_access 0x00b6 100 4122 2982 67 67) \<and>
     (let r = seal_reload \<lparr>rj_magic = 0x47423635, rj_version = 1, rj_device = device_type, rj_unit = 1,
            rj_state = rs_pending, rj_reserved = 0, rj_mac = test_mac, rj_target_design = 65, rj_target_fcc = 65,
            rj_reserved2 = 0, rj_crc = 0\<rparr> in
      valid_reload_journal r test_mac \<and> \<not> valid_reload_journal (r\<lparr>rj_state := rj_state r XOR 1\<rparr>) test_mac)"

definition selftest_journal :: bool where
  "selftest_journal \<longleftrightarrow>
     (let j = seal_journal (test_journal\<lparr>gj_mac := test_mac\<rparr>) in
      \<not> (\<not> valid_journal j test_mac \<or> \<not> restore_pair_allowed j 65 3000 \<or> \<not> restore_pair_allowed j 3000 65 \<or>
         restore_pair_allowed j 130 65 \<or> \<not> recovery_state st_exit_failed \<or> recovery_state st_committed \<or>
         \<not> allowed_value j field_design 65 \<or> \<not> allowed_value j field_initial_fcc 3000 \<or>
         allowed_value j field_design 130 \<or> allowed_value j 0x9184 65) \<and>
      \<not> valid_journal (j\<lparr>gj_original_fcc := gj_original_fcc j XOR 1\<rparr>) test_mac)"

definition selftest_mac :: bool where
  "selftest_mac \<longleftrightarrow>
     (let b = (replicate 36 0)[0 := 0x9f, 1 := 0x92, 2 := 0, 3 := 65, 35 := 36];
          b = b[34 := mac_checksum b 34];
          ok1 = authenticated_mac b 0x929F True \<and> \<not> authenticated_mac b 0x929D True;
          r = authenticate_dm (b[0 := 0xff, 1 := 0xff]) 0x929F;
          ok2 = fst r;
          r = authenticate_dm ((snd r)[0 := 0, 1 := 0]) 0x929F;
          ok3 = (\<not> fst r);
          b = (snd r)[0 := 0x9f, 1 := 0x92] in
      ok1 \<and> ok2 \<and> ok3 \<and> \<not> fst (authenticate_dm (b[2 := b ! 2 XOR 1]) 0x929F))"

definition gauge_selftest :: bool where
  "gauge_selftest \<longleftrightarrow>
     (if \<not> selftest_policies then False
      else case selftest_access of (ok, a) \<Rightarrow>
        if \<not> ok then False
        else selftest_boot a \<and> selftest_reload \<and> selftest_journal \<and> selftest_mac)"

lemma crc_frame [simp]:
  "journal_bytes (j\<lparr>gj_crc := c\<rparr>) = journal_bytes j" "access_bytes (a\<lparr>aj_crc := c\<rparr>) = access_bytes a"
  "reload_bytes (r\<lparr>rj_crc := c\<rparr>) = reload_bytes r"
  by (simp_all add: journal_bytes_def access_bytes_def reload_bytes_def)

lemma crc_check: "crc32 [49, 50, 51, 52, 53, 54, 55, 56, 57] = 0xCBF43926"
  by code_simp

lemmas policy_defs = config_exit_accepted_def quiet_full_def quiet_full_restore_def quiet_access_def
  boot_reload_physical_def capacity_policy_def reasonable_fcc_def sec_bits_def gauge_constants

lemma stage_policies: "selftest_policies"
  unfolding selftest_policies_def crc_check by (simp add: policy_defs)

text \<open>The bytes under the seal do not depend on the stored CRC.\<close>

lemma seal_frame:
  "NO_MATCH (0 :: u32) c \<Longrightarrow>
   access_bytes \<lparr>aj_magic = m, aj_version = v, aj_device = d, aj_unit = u, aj_state = s, aj_prior = p, aj_last = l,
     aj_unseal_attempted = ua, aj_unseal_verified = uv, aj_full_attempted = fa, aj_full_verified = fv, aj_mac = mac,
     aj_base_design = bd, aj_base_fcc = bf, aj_operation = oo, aj_crc = c\<rparr> =
   access_bytes \<lparr>aj_magic = m, aj_version = v, aj_device = d, aj_unit = u, aj_state = s, aj_prior = p, aj_last = l,
     aj_unseal_attempted = ua, aj_unseal_verified = uv, aj_full_attempted = fa, aj_full_verified = fv, aj_mac = mac,
     aj_base_design = bd, aj_base_fcc = bf, aj_operation = oo, aj_crc = 0\<rparr>"
  "NO_MATCH (0 :: u32) c \<Longrightarrow>
   reload_bytes \<lparr>rj_magic = m, rj_version = v, rj_device = d, rj_unit = u, rj_state = s, rj_reserved = r, rj_mac = mac,
     rj_target_design = td, rj_target_fcc = tf, rj_reserved2 = r2, rj_crc = c\<rparr> =
   reload_bytes \<lparr>rj_magic = m, rj_version = v, rj_device = d, rj_unit = u, rj_state = s, rj_reserved = r, rj_mac = mac,
     rj_target_design = td, rj_target_fcc = tf, rj_reserved2 = r2, rj_crc = 0\<rparr>"
  "NO_MATCH (0 :: u32) c \<Longrightarrow>
   journal_bytes \<lparr>gj_magic = m, gj_version = v, gj_device = d, gj_unit = u, gj_state = s, gj_changed = ch, gj_action = ac,
     gj_mac = mac, gj_original_design = od, gj_original_fcc = of', gj_target_design = td, gj_target_fcc = tf,
     gj_operation = oo, gj_last_design = ld, gj_last_fcc = lf, gj_crc = c\<rparr> =
   journal_bytes \<lparr>gj_magic = m, gj_version = v, gj_device = d, gj_unit = u, gj_state = s, gj_changed = ch, gj_action = ac,
     gj_mac = mac, gj_original_design = od, gj_original_fcc = of', gj_target_design = td, gj_target_fcc = tf,
     gj_operation = oo, gj_last_design = ld, gj_last_fcc = lf, gj_crc = 0\<rparr>"
  by (simp_all add: access_bytes_def reload_bytes_def journal_bytes_def)

lemmas journal_defs = valid_access_journal_def valid_reload_journal_def valid_journal_def failed_default_attempt_def
  gauge_states policy_defs

definition sealed_access :: access_journal where
  "sealed_access = seal_access (test_access\<lparr>aj_unseal_attempted := 1,
    aj_unseal_verified := 1, aj_full_attempted := 1, aj_full_verified := 1, aj_last := 3, aj_state := as_restored\<rparr>)"

lemma stage_access: "selftest_access = (True, sealed_access)"
  by (simp add: selftest_access_def Let_def sealed_access_def seal_access_def test_access_def journal_defs seal_frame)

lemma stage_boot: "selftest_boot sealed_access"
  by (simp add: selftest_boot_def Let_def boot_history_eligible_def boot_factory_pair_eligible_def sealed_access_def
      boot_factory_security_eligible_def keep_learned_nominal_def test_journal_def test_access_def seal_access_def
      journal_defs)

lemma stage_reload: "selftest_reload"
  by (simp add: selftest_reload_def Let_def seal_reload_def journal_defs seal_frame)

lemma stage_journal: "selftest_journal"
  by (simp add: selftest_journal_def Let_def seal_journal_def test_journal_def journal_defs restore_pair_allowed_def
      recovery_state_def allowed_value_def seal_frame)

lemma test_block: "(replicate 36 (0 :: u8))[0 := 0x9f, 1 := 0x92, 2 := 0, 3 := 65, 35 := 36] =
  [0x9f, 0x92, 0, 65, 0, 0, 0, 0, 0, 0, 0, 0, 0, 0, 0, 0, 0, 0, 0, 0, 0, 0, 0, 0, 0, 0, 0, 0, 0, 0, 0, 0, 0, 0, 0, 36]"
  by (simp add: numeral_eq_Suc)

lemma stage_mac: "selftest_mac"
  unfolding selftest_mac_def Let_def test_block
  by (simp add: authenticate_dm_def authenticated_mac_def mac_checksum_def Let_def)

text \<open>The self-test of the gauge policies, on whose answer the firmware makes every gauge transaction depend, passes:
  each of its checks of a policy, a sealed journal and a response holds for the modelled code.\<close>

theorem gauge_selftest_passes: "gauge_selftest"
  unfolding gauge_selftest_def
  by (simp add: stage_policies stage_access stage_boot stage_reload stage_journal stage_mac)

section \<open>What the journals and the gates guarantee\<close>

lemma length_sealed_bytes [simp]:
  "length (journal_bytes j) = 32" "length (access_bytes a) = 28" "length (reload_bytes r) = 24"
  by (simp_all add: journal_bytes_def access_bytes_def reload_bytes_def Let_def)

text \<open>A journal with one damaged byte is never used: when a stored journal is valid and another one differs from
  it in a single byte under the seal and has the same CRC, the other one is invalid, for any board address.\<close>

theorem journal_tamper_rejected:
  assumes "valid_journal j mac" "gj_crc k = gj_crc j" "i < 32" "x \<noteq> journal_bytes j ! i"
    "journal_bytes k = (journal_bytes j)[i := x]"
  shows "\<not> valid_journal k mac'"
  using assms crc32_update[of i "journal_bytes j" x] by (simp add: valid_journal_def)

lemma access_tamper_rejected:
  assumes "valid_access_journal j mac" "aj_crc k = aj_crc j" "i < 28" "x \<noteq> access_bytes j ! i"
    "access_bytes k = (access_bytes j)[i := x]"
  shows "\<not> valid_access_journal k mac'"
  using assms crc32_update[of i "access_bytes j" x] by (simp add: valid_access_journal_def)

lemma reload_tamper_rejected:
  assumes "valid_reload_journal j mac" "rj_crc k = rj_crc j" "i < 24" "x \<noteq> reload_bytes j ! i"
    "reload_bytes k = (reload_bytes j)[i := x]"
  shows "\<not> valid_reload_journal k mac'"
  using assms crc32_update[of i "reload_bytes j" x] by (simp add: valid_reload_journal_def)

text \<open>Updates at other places commute with the stores.\<close>

lemma put_le_update: "i < p \<or> p + n \<le> i \<Longrightarrow> put_le (b[i := x]) p v n = (put_le b p v n)[i := x]"
  by (induction n) (auto simp: list_update_swap)

lemma put_bytes_update: "i < p \<or> p + length ys \<le> i \<Longrightarrow> put_bytes (b[i := x]) p ys = (put_bytes b p ys)[i := x]"
  by (induction b p ys rule: put_bytes.induct) (auto simp: list_update_swap)

definition sealed_test_journal :: gauge_journal where
  "sealed_test_journal = seal_journal (test_journal\<lparr>gj_mac := test_mac\<rparr>)"

lemma sealed_test_journal_valid: "valid_journal sealed_test_journal test_mac"
  by (simp add: sealed_test_journal_def seal_journal_def test_journal_def journal_defs seal_frame)

theorem journal_tamper_rejected_witness:
  "\<not> valid_journal (sealed_test_journal\<lparr>gj_unit := 2\<rparr>) test_mac"
proof (rule journal_tamper_rejected[OF sealed_test_journal_valid])
  have u: "journal_bytes (k\<lparr>gj_unit := 2\<rparr>) = (journal_bytes k)[8 := 2]" if "length (gj_mac k) = 6" for k :: gauge_journal
  proof -
    have swap: "b[8 := 2, 9 := s, 10 := c, 11 := a] = (b[8 := w, 9 := s, 10 := c, 11 := a])[8 := 2]"
      if "length b = 32" for b :: bytes and s c a w
      using that
      by (intro nth_equalityI) (auto simp: nth_list_update)
    show ?thesis
      using that by (simp add: journal_bytes_def Let_def put_le_update put_bytes_update swap [where w = "gj_unit k"])
  qed
  show "gj_crc (sealed_test_journal\<lparr>gj_unit := 2\<rparr>) = gj_crc sealed_test_journal" "(8 :: nat) < 32" by simp_all
  show "journal_bytes (sealed_test_journal\<lparr>gj_unit := 2\<rparr>) = (journal_bytes sealed_test_journal)[8 := 2]"
    by (rule u) (simp add: sealed_test_journal_def seal_journal_def test_mac_def)
  show "2 \<noteq> journal_bytes sealed_test_journal ! 8"
    by (simp add: sealed_test_journal_def seal_journal_def test_journal_def journal_bytes_def Let_def
        nth_put_le_other nth_put_bytes_other)
qed

text \<open>The data-memory values that the repair may ever write are two: under a valid journal the only values allowed
  for any field are the nominal 65 mAh and the factory 3000 mAh; and when both fields were changed, exactly the four
  mixtures of old and new values that an interruption can leave are accepted for a restore.\<close>

theorem gauge_writes_closed:
  assumes "valid_journal j mac"
  shows "(allowed_value j field v \<longrightarrow> v \<in> {65, 3000}) \<and>
    (gj_changed j \<noteq> 0 \<longrightarrow> restore_pair_allowed j design fcc = (design \<in> {65, 3000} \<and> fcc \<in> {65, 3000}))"
  using assms unfolding valid_journal_def allowed_value_def restore_pair_allowed_def capacity_policy_def gauge_constants
  by (auto split: if_splits)

theorem gauge_writes_closed_witness:
  "allowed_value sealed_test_journal field_design 65 \<and> restore_pair_allowed sealed_test_journal 65 3000 \<and>
   \<not> restore_pair_allowed sealed_test_journal 130 65 \<and> \<not> allowed_value sealed_test_journal field_design 130"
  using gauge_writes_closed[OF sealed_test_journal_valid, of field_design 130 65 3000]
    gauge_writes_closed[OF sealed_test_journal_valid, of field_design 130 130 65]
  by (simp add: sealed_test_journal_def seal_journal_def test_journal_def allowed_value_def gauge_constants)

lemma open_bits:
  "((op AND NOT 0x0006) OR 0x0002) AND 0x0401 = op AND (0x0401 :: u16)"
  "((op AND NOT 0x0006) OR 0x0002) AND 0x0020 = op AND (0x0020 :: u16)"
  by (simp_all add: bit.conj_disj_distrib2 and.assoc)

lemma sec_bits_alt: "sec_bits op = drop_bit 1 (op AND 6)"
  by (simp add: sec_bits_def drop_bit_and)

lemma sec_open: "sec_bits ((op AND NOT 0x0006) OR 0x0002) = 1"
  by (simp add: sec_bits_alt bit.conj_disj_distrib2 and.assoc)

text \<open>The three admission gates are nested: whatever the operation word and the readings, a gauge that is quiet
  enough for a full transaction may be opened, and one that may be opened may reload its profile at boot; none of
  them admits a gauge in configuration update or calibration.\<close>

theorem gauge_gates_nested:
  "(quiet_full op soc mv temperature current average \<longrightarrow> quiet_access op soc mv temperature current average) \<and>
   (quiet_access op soc mv temperature current average \<longrightarrow> boot_reload_physical op mv temperature current average) \<and>
   (boot_reload_physical op mv temperature current average \<longrightarrow> op AND 0x0401 = 0)"
  unfolding quiet_full_def quiet_access_def boot_reload_physical_def open_bits sec_open
  using order_trans [of 3500 4050 mv] by auto

section \<open>What a response authenticates\<close>

lemma foldl_sum: "foldl (+) a xs = a + sum_list (xs :: bytes)"
  by (induction xs arbitrary: a) (simp_all add: add.assoc)

lemma sum_update: "i < length xs \<Longrightarrow> sum_list (xs[i := x]) = sum_list xs - xs ! i + (x :: u8)"
  by (induction xs arbitrary: i) (auto split: nat.split)

lemma checksum_update:
  assumes "i < n" "n \<le> length b" "x \<noteq> b ! i"
  shows "mac_checksum (b[i := x]) n \<noteq> mac_checksum b n"
proof -
  have "sum_list (take n (b[i := x])) = sum_list (take n b) - b ! i + x"
    using sum_update [of i "take n b" x] assms by (simp add: take_update_swap)
  then show ?thesis using assms(3) by (simp add: mac_checksum_def foldl_sum)
qed

text \<open>A response with one damaged byte is never accepted: changing any single byte of an authenticated response in
  front of its checksum (the selector included) makes it fail the check, for every selector and every mode.\<close>

theorem mac_tamper_rejected:
  assumes "authenticated_mac block sel dm" "length block = 36" "i < unat (block ! 35) - 2" "x \<noteq> block ! i"
  shows "\<not> authenticated_mac (block[i := x]) sel' dm'"
proof -
  have n: "unat (block ! 35) \<le> 36" using assms(1) by (simp add: authenticated_mac_def Let_def)
  then have "block[i := x] ! 34 = block ! 34" "block[i := x] ! 35 = block ! 35" using assms(3) by simp_all
  moreover have "mac_checksum (block[i := x]) (unat (block ! 35) - 2) \<noteq> mac_checksum block (unat (block ! 35) - 2)"
    using assms n by (intro checksum_update) simp_all
  ultimately show ?thesis using assms(1) by (simp add: authenticated_mac_def Let_def)
qed

definition test_response :: bytes where
  "test_response = [0x9f, 0x92, 0, 65, 0, 0, 0, 0, 0, 0, 0, 0, 0, 0, 0, 0, 0, 0, 0, 0, 0, 0, 0, 0, 0, 0, 0, 0, 0, 0, 0, 0, 0,
     0, 141, 36]"

theorem mac_tamper_rejected_witness:
  "authenticated_mac test_response 0x929F True \<and> \<not> authenticated_mac (test_response[3 := 64]) 0x929F True"
proof -
  have a: "authenticated_mac test_response 0x929F True"
    by (simp add: authenticated_mac_def mac_checksum_def test_response_def Let_def)
  have "\<not> authenticated_mac (test_response[3 := 64]) 0x929F True"
    by (rule mac_tamper_rejected [OF a]) (simp_all add: test_response_def)
  with a show ?thesis by blast
qed

end
