(* ===== verification/Gauge_Fields.thy ===== *)
theory Gauge_Fields
  imports Gauge_Reads
begin

unbundle bit_operations_syntax

text \<open>
  The three closed tables of gauge registers that may be read, and the read models over them:
  \<open>main/hal/mosaico/mosaico_threshold_audit_model.h\<close> (59 thresholds),
  \<open>mosaico_gauge_calibration_read_model.h\<close> (7 calibration values) and
  \<open>mosaico_gauge_public_extra_read_model.h\<close> (65 further public values). Each value is read twice and kept only
  when both readings agree. The authenticated reader is a template argument of the code and a parameter here: it
  answers a selector with the 36 bytes of a response, or refuses.
\<close>

section \<open>Reading a table\<close>

type_synonym 's mac_reader = "u16 \<Rightarrow> 's \<Rightarrow> bytes option \<times> 's"

text \<open>\<open>read(selector, a) && read(selector, b)\<close>: the second call is made only when the first succeeds.\<close>

definition read_twice :: "'s mac_reader \<Rightarrow> u16 \<Rightarrow> 's \<Rightarrow> (bytes \<times> bytes) option \<times> 's" where
  "read_twice rd sel s =
     (case rd sel s of
        (None, s1) \<Rightarrow> (None, s1)
      | (Some a, s1) \<Rightarrow> (case rd sel s1 of (None, s2) \<Rightarrow> (None, s2) | (Some b, s2) \<Rightarrow> (Some (a, b), s2)))"

text \<open>The loop over the fields: \<open>turn\<close> is the body behind the two reads, and stops the loop with \<open>False\<close>.\<close>

fun field_loop ::
  "'s mac_reader \<Rightarrow> ('f \<Rightarrow> u16) \<Rightarrow> (nat \<Rightarrow> 'f \<Rightarrow> (bytes \<times> bytes) option \<Rightarrow> 'v \<Rightarrow> bool \<times> 'v) \<Rightarrow>
   'f list \<Rightarrow> nat \<Rightarrow> 'v \<Rightarrow> 's \<Rightarrow> (bool \<times> 'v) \<times> 's" where
  "field_loop rd sel turn [] i v s = ((True, v), s)"
| "field_loop rd sel turn (f # fs) i v s =
     (case read_twice rd (sel f) s of (r, s1) \<Rightarrow>
      case turn i f r v of
        (False, v1) \<Rightarrow> ((False, v1), s1)
      | (True, v1) \<Rightarrow> field_loop rd sel turn fs (i + 1) v1 s1)"

section \<open>The threshold audit\<close>

datatype audit_type = A_U1 | A_H1 | A_I2 | A_U2 | A_H2

definition audit_fields :: "(u16 \<times> audit_type \<times> string) list" where
  "audit_fields =
    [
     (0x929f, A_I2, ''dc_i2''), (0x929d, A_I2, ''fcc_i2''), (0x929b, A_H2, ''cfg_h2''), (0x929a, A_U1, ''bid_u1''),
     (0x9228, A_I2, ''dsg_i2''), (0x922a, A_I2, ''chg_i2''), (0x922c, A_I2, ''quit_i2''),
     (0x9217, A_I2, ''sleep_i2''), (0x91fd, A_I2, ''cv_i2''), (0x91fb, A_I2, ''ci_i2''), (0x9201, A_I2, ''ti_i2''),
     (0x92a5, A_I2, ''tv_i2''), (0x9240, A_I2, ''sysv_i2''), (0x9242, A_U1, ''syst_u1''),
     (0x9243, A_I2, ''sysclr_i2''), (0x92b4, A_I2, ''edv0_i2''), (0x92b7, A_I2, ''edv1_i2''),
     (0x92ba, A_I2, ''edv2_i2''), (0x9251, A_U2, ''low_u2''), (0x926b, A_I2, ''near_i2''),
     (0x926d, A_I2, ''reserve_i2''), (0x927f, A_H2, ''fa_h2''), (0x9281, A_H1, ''fb_h1''), (0x922e, A_U2, ''dr_u2''),
     (0x9230, A_U1, ''cr_u1''), (0x9231, A_U1, ''qr_u1''), (0x92a7, A_U2, ''emf_u2''), (0x92a9, A_U2, ''c0_u2''),
     (0x92ab, A_U2, ''r0_u2''), (0x92ad, A_U2, ''t0_u2''), (0x92af, A_U2, ''r1_u2''), (0x92b1, A_U1, ''tc_u1''),
     (0x92b2, A_U1, ''c1_u1''), (0x92b3, A_U1, ''age_u1''), (0x92bd, A_I2, ''dod0_i2''),
     (0x92bf, A_I2, ''dod10_i2''), (0x92c1, A_I2, ''dod20_i2''), (0x92c3, A_I2, ''dod30_i2''),
     (0x92c5, A_I2, ''dod40_i2''), (0x92c7, A_I2, ''dod50_i2''), (0x92c9, A_I2, ''dod60_i2''),
     (0x92cb, A_I2, ''dod70_i2''), (0x92cd, A_I2, ''dod80_i2''), (0x92cf, A_I2, ''dod90_i2''),
     (0x92d1, A_I2, ''dod100_i2''), (0x9271, A_H1, ''smcfg_h1''), (0x9272, A_I2, ''smstart_i2''),
     (0x9274, A_I2, ''smdelta_i2''), (0x926f, A_U1, ''ceff_u1''), (0x9270, A_U1, ''deff_u1''),
     (0x9268, A_U1, ''self_u1''), (0x9269, A_I2, ''eload_i2''), (0x92a3, A_I2, ''designv_i2''),
     (0x92b6, A_U1, ''edv0hold_u1''), (0x92b9, A_U1, ''edv1hold_u1''), (0x92bc, A_U1, ''edv2hold_u1''),
     (0x9276, A_I2, ''smmax_i2''), (0x927b, A_U1, ''eocsm_u1''), (0x927c, A_U1, ''eocsmt_u1'')]"

definition audit_allowed :: "u16 \<Rightarrow> bool" where
  "audit_allowed s = list_ex (\<lambda>f. fst f = s) audit_fields"

definition audit_decoded :: "audit_type \<Rightarrow> u16 \<Rightarrow> int" where
  "audit_decoded t raw =
     (if t = A_U1 \<or> t = A_H1 then uint (drop_bit 8 raw) else if t = A_I2 then sint raw else uint raw)"

record audit_values =
  av_raw :: "u16 list"
  av_readable :: u8
  av_anchors :: bool

definition audit_values0 :: audit_values where
  "audit_values0 = \<lparr>av_raw = replicate 59 0, av_readable = 0, av_anchors = False\<rparr>"

definition audit_turn ::
  "u16 \<Rightarrow> nat \<Rightarrow> u16 \<times> audit_type \<times> string \<Rightarrow> (bytes \<times> bytes) option \<Rightarrow> audit_values \<Rightarrow> bool \<times> audit_values" where
  "audit_turn config i f r v =
     (case r of None \<Rightarrow> (False, v)
      | Some (a, b) \<Rightarrow>
          let first = be_word a 2; second = be_word b 2; t = fst (snd f) in
          if audit_decoded t first \<noteq> audit_decoded t second then (False, v)
          else
            let v = v\<lparr>av_raw := (av_raw v)[i := second], av_readable := av_readable v + 1\<rparr> in
            if i = 2 then
              let ok = av_raw v ! 0 = 65 \<and> av_raw v ! 1 = 65 \<and> av_raw v ! 2 = config \<and> config \<le> 0x1fff
              in (ok, v\<lparr>av_anchors := ok\<rparr>)
            else (True, v))"

definition audit_read :: "'s mac_reader \<Rightarrow> u16 \<Rightarrow> 's \<Rightarrow> (bool \<times> audit_values) \<times> 's" where
  "audit_read rd config s = field_loop rd fst (audit_turn config) audit_fields 0 audit_values0 s"

definition audit_crc :: "audit_values \<Rightarrow> u32" where
  "audit_crc v = crc32 (concat (map (\<lambda>i. [ucast (drop_bit 8 (av_raw v ! i)), ucast (av_raw v ! i)]) [0..<59]))"

section \<open>The calibration values\<close>

datatype cal_type = C_I2 | C_F4 | C_I1 | C_U1

definition cal_fields :: "(u16 \<times> string \<times> cal_type \<times> nat) list" where
  "cal_fields =
    [
     (0x9180, ''CCOffset'', C_I2, 2), (0x9184, ''CCGain'', C_F4, 4), (0x9188, ''CCDelta'', C_F4, 4),
     (0x91b4, ''BoardOffset'', C_I1, 1), (0x91dd, ''Filter'', C_U1, 1), (0x91de, ''Deadband'', C_U1, 1),
     (0x91df, ''CCDeadband'', C_U1, 1)]"

definition cal_allowed :: "u16 \<Rightarrow> bool" where
  "cal_allowed s = list_ex (\<lambda>f. fst f = s) cal_fields"

definition cal_width :: "u16 \<times> string \<times> cal_type \<times> nat \<Rightarrow> nat" where
  "cal_width f = snd (snd (snd f))"

record cal_values =
  cv_raw :: "bytes list"
  cv_readable :: u8

definition cal_values0 :: cal_values where
  "cal_values0 = \<lparr>cv_raw = replicate 7 [0, 0, 0, 0], cv_readable = 0\<rparr>"

definition cal_raw_word :: "cal_values \<Rightarrow> nat \<Rightarrow> u32" where
  "cal_raw_word v i =
     (if i < 7 then foldl (\<lambda>w j. push_bit 8 w OR ucast (cv_raw v ! i ! j)) 0 [0..<cal_width (cal_fields ! i)] else 0)"

definition cal_decoded :: "cal_values \<Rightarrow> nat \<Rightarrow> int" where
  "cal_decoded v i =
     (let w = cal_raw_word v i in
      if i \<ge> 7 \<or> fst (snd (snd (cal_fields ! i))) = C_F4 then 0
      else if fst (snd (snd (cal_fields ! i))) = C_I2
      then if w AND 0x8000 \<noteq> 0 then uint w - 65536 else uint w
      else if fst (snd (snd (cal_fields ! i))) = C_I1
      then if w AND 0x80 \<noteq> 0 then uint w - 256 else uint w
      else uint w)"

definition cal_turn ::
  "nat \<Rightarrow> u16 \<times> string \<times> cal_type \<times> nat \<Rightarrow> (bytes \<times> bytes) option \<Rightarrow> cal_values \<Rightarrow> bool \<times> cal_values" where
  "cal_turn i f r v =
     (case r of None \<Rightarrow> (False, v)
      | Some (a, b) \<Rightarrow>
          if list_ex (\<lambda>j. a ! (2 + j) \<noteq> b ! (2 + j)) [0..<cal_width f] then (False, v)
          else (True, v\<lparr>cv_raw := (cv_raw v)[i := put_bytes (cv_raw v ! i) 0 (get_bytes a 2 (cal_width f))]\<rparr>))"

definition cal_read :: "'s mac_reader \<Rightarrow> 's \<Rightarrow> (bool \<times> cal_values) \<times> 's" where
  "cal_read rd s =
     (case field_loop rd fst cal_turn cal_fields 0 cal_values0 s of
        ((False, v), s1) \<Rightarrow> ((False, cal_values0), s1)
      | ((True, v), s1) \<Rightarrow> ((True, v\<lparr>cv_readable := 7\<rparr>), s1))"

definition cal_publish :: "bool \<Rightarrow> cal_values \<Rightarrow> cal_values" where
  "cal_publish success fresh = (if success \<and> cv_readable fresh = 7 then fresh else cal_values0)"

section \<open>The further public values\<close>

datatype extra_type = X_I1 | X_I2 | X_U1 | X_U2 | X_H1 | X_H2

definition extra_fields :: "(u16 \<times> extra_type \<times> nat) list" where
  "extra_fields =
    [
     (0x9182, X_I2, 2), (0x91b5, X_I1, 1), (0x91b6, X_I1, 1), (0x91b7, X_I1, 1), (0x91b8, X_I2, 2),
     (0x91ba, X_I2, 2), (0x91bc, X_I2, 2), (0x91be, X_I2, 2), (0x91c0, X_I2, 2), (0x91c2, X_I2, 2),
     (0x91c4, X_I2, 2), (0x91c6, X_I2, 2), (0x91c8, X_I2, 2), (0x91ca, X_I2, 2), (0x91cc, X_I2, 2),
     (0x91ce, X_I2, 2), (0x91d0, X_I2, 2), (0x91d2, X_I2, 2), (0x91d4, X_I2, 2), (0x91d6, X_I2, 2),
     (0x91d8, X_I2, 2), (0x91da, X_U1, 1), (0x91db, X_I2, 2), (0x91f5, X_I2, 2), (0x91f7, X_I2, 2),
     (0x91f9, X_I2, 2), (0x9206, X_H2, 2), (0x9208, X_H2, 2), (0x920b, X_U1, 1), (0x920c, X_U1, 1),
     (0x920d, X_H1, 1), (0x920e, X_I2, 2), (0x9210, X_I2, 2), (0x9212, X_U2, 2), (0x9219, X_U1, 1),
     (0x921a, X_I2, 2), (0x921c, X_I2, 2), (0x921e, X_U1, 1), (0x921f, X_U1, 1), (0x9232, X_I2, 2),
     (0x9234, X_U1, 1), (0x9235, X_I2, 2), (0x9237, X_I2, 2), (0x9239, X_U1, 1), (0x923a, X_I2, 2),
     (0x923c, X_I1, 1), (0x925b, X_U1, 1), (0x9264, X_I2, 2), (0x927d, X_U1, 1), (0x9282, X_I2, 2),
     (0x9284, X_I2, 2), (0x9286, X_U1, 1), (0x9287, X_U1, 1), (0x9288, X_I2, 2), (0x928a, X_I2, 2),
     (0x928c, X_U1, 1), (0x928d, X_U1, 1), (0x928e, X_I2, 2), (0x9290, X_I2, 2), (0x9292, X_U1, 1),
     (0x9293, X_U1, 1), (0x9294, X_I2, 2), (0x9296, X_I2, 2), (0x9298, X_U1, 1), (0x9299, X_U1, 1)]"

definition extra_allowed :: "u16 \<Rightarrow> bool" where
  "extra_allowed s = list_ex (\<lambda>f. fst f = s) extra_fields"

definition extra_type_name :: "extra_type \<Rightarrow> string" where
  "extra_type_name t = (if t = X_I1 then ''I1'' else if t = X_I2 then ''I2'' else if t = X_U1 then ''U1''
     else if t = X_U2 then ''U2'' else if t = X_H1 then ''H1'' else ''H2'')"

datatype extra_error = XE_NotAttempted | XE_None | XE_Transport | XE_Torn

definition extra_error_name :: "extra_error \<Rightarrow> string" where
  "extra_error_name e = (if e = XE_None then ''none'' else if e = XE_Transport then ''transport_auth''
     else if e = XE_Torn then ''torn'' else ''not_attempted'')"

record extra_values =
  xv_raw :: "u16 list"
  xv_readable :: u8
  xv_complete :: bool
  xv_error :: extra_error

definition extra_values0 :: extra_values where
  "extra_values0 = \<lparr>xv_raw = replicate 65 0, xv_readable = 0, xv_complete = False, xv_error = XE_NotAttempted\<rparr>"

definition extra_turn ::
  "nat \<Rightarrow> u16 \<times> extra_type \<times> nat \<Rightarrow> (bytes \<times> bytes) option \<Rightarrow> extra_values \<Rightarrow> bool \<times> extra_values" where
  "extra_turn i f r v =
     (let width = snd (snd f);
          e = (case r of None \<Rightarrow> XE_Transport
               | Some (a, b) \<Rightarrow> if list_ex (\<lambda>j. a ! (2 + j) \<noteq> b ! (2 + j)) [0..<width] then XE_Torn else XE_None) in
      if e \<noteq> XE_None then (False, extra_values0\<lparr>xv_readable := of_nat i, xv_error := e\<rparr>)
      else
        let a = fst (the r);
            raw = (if width = 2 then push_bit 8 (ucast (a ! 2)) OR ucast (a ! 3) else ucast (a ! 2)) in
        (True, v\<lparr>xv_raw := (xv_raw v)[i := raw], xv_readable := of_nat (i + 1)\<rparr>))"

definition extra_read :: "'s mac_reader \<Rightarrow> 's \<Rightarrow> (bool \<times> extra_values) \<times> 's" where
  "extra_read rd s =
     (case field_loop rd fst extra_turn extra_fields 0 extra_values0 s of
        ((False, v), s1) \<Rightarrow> ((False, v), s1)
      | ((True, v), s1) \<Rightarrow> ((True, v\<lparr>xv_complete := True, xv_error := XE_None\<rparr>), s1))"

definition extra_publish :: "bool \<Rightarrow> bool \<Rightarrow> extra_values \<Rightarrow> extra_values" where
  "extra_publish success closed fresh = (if success \<and> closed then fresh else extra_values0)"

section \<open>What the readers send and keep\<close>

text \<open>A reader that also records every call with its answer.\<close>

definition logged_reader :: "'s mac_reader \<Rightarrow> ('s \<times> (u16 \<times> bytes option) list) mac_reader" where
  "logged_reader rd sel x = (case rd sel (fst x) of (r, s') \<Rightarrow> (r, (s', snd x @ [(sel, r)])))"

definition twice :: "('f \<Rightarrow> u16) \<Rightarrow> 'f \<Rightarrow> bytes \<times> bytes \<Rightarrow> (u16 \<times> bytes option) list" where
  "twice sel f p = [(sel f, Some (fst p)), (sel f, Some (snd p))]"

text \<open>The turns of a loop over given pairs of answers.\<close>

fun turns :: "(nat \<Rightarrow> 'f \<Rightarrow> (bytes \<times> bytes) option \<Rightarrow> 'v \<Rightarrow> bool \<times> 'v) \<Rightarrow> nat \<Rightarrow> 'f list \<Rightarrow> (bytes \<times> bytes) list \<Rightarrow>
    'v \<Rightarrow> 'v option" where
  "turns turn i [] [] v = Some v"
| "turns turn i (f # fs) (p # ps) v = (case turn i f (Some p) v of (True, v1) \<Rightarrow> turns turn (Suc i) fs ps v1 | _ \<Rightarrow> None)"
| "turns turn i _ _ v = None"

lemma turns_length: "turns turn i fs ps v = Some v' \<Longrightarrow> length ps = length fs"
  by (induction turn i fs ps v rule: turns.induct) (auto split: prod.splits bool.splits)

lemma read_twice_logged:
  "read_twice (logged_reader rd) sel (s, l) = (r, (s', l')) \<Longrightarrow>
     (case r of Some p \<Rightarrow> l' = l @ [(sel, Some (fst p)), (sel, Some (snd p))]
      | None \<Rightarrow> map fst l' = map fst l @ [sel] \<or> map fst l' = map fst l @ [sel, sel])"
  by (auto simp: read_twice_def logged_reader_def split: prod.splits option.splits)

lemma field_loop_log:
  assumes "\<And>i f v. \<not> fst (turn i f None v)"
    and "field_loop (logged_reader rd) sel turn fs i v (s, l) = ((True, v'), (s', l'))"
  shows "\<exists>ps. turns turn i fs ps v = Some v' \<and> l' = l @ concat (map2 (twice sel) fs ps)"
  using assms(2)
proof (induction fs arbitrary: i v s l)
  case Nil
  then show ?case by (intro exI[of _ "[]"]) simp
next
  case (Cons f fs)
  obtain r s1 l1 where r: "read_twice (logged_reader rd) (sel f) (s, l) = (r, (s1, l1))" by (metis prod.exhaust)
  obtain ok v1 where t: "turn i f r v = (ok, v1)" by fastforce
  have ok: "ok" using Cons.prems r t by (cases ok) simp_all
  then obtain p where p: "r = Some p" using t assms(1)[of i f v] by (cases r) auto
  obtain ps where "turns turn (Suc i) fs ps v1 = Some v'" "l' = l1 @ concat (map2 (twice sel) fs ps)"
    using Cons.IH[of "i + 1" v1 s1 l1] Cons.prems r t ok by auto
  then show ?case using read_twice_logged[OF r] p t ok by (intro exI[of _ "p # ps"]) (simp add: twice_def)
qed

text \<open>Whatever the reader answers, the calls made are a prefix of the table, each selector twice.\<close>

definition pairs :: "('f \<Rightarrow> u16) \<Rightarrow> 'f list \<Rightarrow> u16 list" where
  "pairs sel fs = concat (map (\<lambda>f. [sel f, sel f]) fs)"

lemma pairs_simps [simp]: "pairs sel [] = []" "pairs sel (f # fs) = sel f # sel f # pairs sel fs"
  by (simp_all add: pairs_def)

lemma field_loop_prefix:
  assumes "\<And>i f v. \<not> fst (turn i f None v)"
  shows "\<exists>n. map fst (snd (snd (field_loop (logged_reader rd) sel turn fs i v (s, l)))) = map fst l @ take n (pairs sel fs)"
proof (induction fs arbitrary: i v s l)
  case (Cons f fs)
  obtain r s1 l1 where r: "read_twice (logged_reader rd) (sel f) (s, l) = (r, (s1, l1))" by (metis prod.exhaust)
  obtain ok v1 where t: "turn i f r v = (ok, v1)" by fastforce
  note l1 = read_twice_logged[OF r]
  show ?case
  proof (cases ok)
    case False
    have "map fst l1 = map fst l @ take 1 (pairs sel (f # fs)) \<or> map fst l1 = map fst l @ take 2 (pairs sel (f # fs))"
      using l1 by (auto split: option.splits)
    then obtain n where "map fst l1 = map fst l @ take n (pairs sel (f # fs))" by blast
    then show ?thesis using r t False by auto
  next
    case True
    then have "map fst l1 = map fst l @ [sel f, sel f]"
      using l1 t assms[of i f v] by (cases r) auto
    moreover obtain n where
      "map fst (snd (snd (field_loop (logged_reader rd) sel turn fs (i + 1) v1 (s1, l1)))) = map fst l1 @ take n (pairs sel fs)"
      using Cons.IH by blast
    ultimately show ?thesis using r t True by (intro exI[of _ "Suc (Suc n)"]) simp
  qed
qed simp

lemma turn_none:
  "\<not> fst (audit_turn config i f None v)" "\<not> fst (cal_turn i g None w)" "\<not> fst (extra_turn i h None x)"
  by (simp_all add: audit_turn_def cal_turn_def extra_turn_def)

lemma cal_read_state: "snd (cal_read rd s) = snd (field_loop rd fst cal_turn cal_fields 0 cal_values0 s)"
  by (auto simp: cal_read_def split: prod.splits bool.splits)

lemma extra_read_state: "snd (extra_read rd s) = snd (field_loop rd fst extra_turn extra_fields 0 extra_values0 s)"
  by (auto simp: extra_read_def split: prod.splits bool.splits)

text \<open>The three readers ask for nothing outside their tables: whatever the reader answers, the selectors sent are a
  prefix of the table in order, each one twice, so no address outside the three closed lists is ever read.\<close>

theorem field_reads_closed:
  "\<exists>k m n. map fst (snd (snd (audit_read (logged_reader rd) config (s, [])))) = take k (pairs fst audit_fields) \<and>
     map fst (snd (snd (cal_read (logged_reader rd) (s, [])))) = take m (pairs fst cal_fields) \<and>
     map fst (snd (snd (extra_read (logged_reader rd) (s, [])))) = take n (pairs fst extra_fields)"
  unfolding audit_read_def cal_read_state extra_read_state
  using field_loop_prefix[where turn = "audit_turn config", OF turn_none(1)]
    field_loop_prefix[where turn = cal_turn, OF turn_none(2)]
    field_loop_prefix[where turn = extra_turn, OF turn_none(3)]
  by (metis append_Nil list.simps(8))

section \<open>Only confirmed values\<close>

lemma audit_fields_length [simp]: "length audit_fields = 59"
  by (simp add: audit_fields_def)

lemma audit_turn_Some:
  "audit_turn config i f (Some p) v = (True, v1) \<Longrightarrow>
     audit_decoded (fst (snd f)) (be_word (fst p) 2) = audit_decoded (fst (snd f)) (be_word (snd p) 2) \<and>
     av_raw v1 = (av_raw v)[i := be_word (snd p) 2] \<and> av_readable v1 = av_readable v + 1 \<and>
     (i = 2 \<longrightarrow> av_raw v1 ! 0 = 65 \<and> av_raw v1 ! 1 = 65 \<and> av_raw v1 ! 2 = config \<and> av_anchors v1) \<and>
     (i \<noteq> 2 \<longrightarrow> av_anchors v1 = av_anchors v)"
  by (auto simp: audit_turn_def Let_def split: prod.splits if_splits)

lemma write_turn:
  "i < length xs \<Longrightarrow> take (Suc i) (xs[i := w]) @ ys @ drop (Suc i + n) (xs[i := w]) = take i xs @ (w # ys) @ drop (Suc i + n) xs"
  by (simp add: take_Suc_conv_app_nth)

definition audit_outcome ::
  "u16 \<Rightarrow> nat \<Rightarrow> (u16 \<times> audit_type \<times> string) list \<Rightarrow> (bytes \<times> bytes) list \<Rightarrow> audit_values \<Rightarrow> audit_values \<Rightarrow> bool" where
  "audit_outcome config i fs ps v v' \<longleftrightarrow>
     list_all2 (\<lambda>f p. audit_decoded (fst (snd f)) (be_word (fst p) 2) = audit_decoded (fst (snd f)) (be_word (snd p) 2)) fs ps \<and>
     av_raw v' = take i (av_raw v) @ map (\<lambda>p. be_word (snd p) 2) ps @ drop (i + length fs) (av_raw v) \<and>
     av_readable v' = av_readable v + of_nat (length fs) \<and>
     (2 < i \<longrightarrow> av_anchors v' = av_anchors v) \<and>
     (i \<le> 2 \<and> 2 < i + length fs \<longrightarrow>
        av_raw v' ! 0 = 65 \<and> av_raw v' ! 1 = 65 \<and> av_raw v' ! 2 = config \<and> av_anchors v')"

lemma audit_outcome_step:
  assumes t: "audit_turn config i f (Some p) v = (True, v1)" and ih: "audit_outcome config (Suc i) fs ps v1 v'"
    and len: "i < length (av_raw v)"
  shows "audit_outcome config i (f # fs) (p # ps) v v'"
proof -
  note a = audit_turn_Some[OF t] and h = ih[unfolded audit_outcome_def]
  have raw: "av_raw v' = take (Suc i) (av_raw v1) @ map (\<lambda>p. be_word (snd p) 2) ps @ drop (Suc i + length fs) (av_raw v1)"
    using h by blast
  have l1: "length (av_raw v1) = length (av_raw v)" using a by simp
  have v1: "av_raw v1 = (av_raw v)[i := be_word (snd p) 2]" using a by blast
  have "av_raw v' = take i (av_raw v) @ (be_word (snd p) 2 # map (\<lambda>p. be_word (snd p) 2) ps) @
      drop (Suc i + length fs) (av_raw v)"
    using write_turn[OF len] unfolding raw v1 by metis
  moreover have "av_raw v' ! k = av_raw v1 ! k" if "k \<le> i" for k
    unfolding raw using that l1 len by (simp add: nth_append)
  moreover have "av_anchors v' = av_anchors v1" if "2 \<le> i" using h that by simp
  moreover have "Suc i \<le> 2 \<and> 2 < Suc i + length fs \<longrightarrow>
      av_raw v' ! 0 = 65 \<and> av_raw v' ! 1 = 65 \<and> av_raw v' ! 2 = config \<and> av_anchors v'" using h by blast
  then have "av_raw v' ! 0 = 65 \<and> av_raw v' ! 1 = 65 \<and> av_raw v' ! 2 = config \<and> av_anchors v'"
    if "i < 2" "2 < Suc i + length fs" using that by (simp only: Suc_le_eq)
  ultimately have tail: "i \<le> 2 \<and> 2 < Suc i + length fs \<longrightarrow>
      av_raw v' ! 0 = 65 \<and> av_raw v' ! 1 = 65 \<and> av_raw v' ! 2 = config \<and> av_anchors v'"
    "2 < i \<longrightarrow> av_anchors v' = av_anchors v"
    "av_raw v' = take i (av_raw v) @ map (\<lambda>p. be_word (snd p) 2) (p # ps) @ drop (Suc i + length fs) (av_raw v)"
    using a by (cases "i = 2"; force)+
  have e: "i + length (f # fs) = Suc i + length fs" by simp
  show ?thesis unfolding audit_outcome_def e using tail a h by (intro conjI) simp_all
qed

lemma audit_turns:
  "turns (audit_turn config) i fs ps v = Some v' \<Longrightarrow> i + length fs \<le> length (av_raw v) \<Longrightarrow>
     audit_outcome config i fs ps v v'"
proof (induction "audit_turn config" i fs ps v rule: turns.induct)
  case (2 i f fs p ps v)
  then obtain v1 where t: "audit_turn config i f (Some p) v = (True, v1)"
    "turns (audit_turn config) (Suc i) fs ps v1 = Some v'"
    by (auto split: prod.splits bool.splits)
  have "audit_outcome config (Suc i) fs ps v1 v'"
    using 2(1)[OF t(1)[symmetric] _ t(2)] 2(3) audit_turn_Some[OF t(1)] by simp
  then show ?case using audit_outcome_step[OF t(1)] 2(3) by simp
qed (auto simp: audit_outcome_def)

text \<open>The threshold audit publishes only confirmed values: when it succeeds, each of the 59 registers of its table was
  asked for exactly twice in a row, in order; the two readings decode to the same value and the second one is the value
  kept; and the design capacity, the full-charge capacity and the configuration word are the expected ones.\<close>

theorem audit_read_confirmed:
  assumes "audit_read (logged_reader rd) config (s, []) = ((True, v), (s', log))"
  shows "\<exists>ps. log = concat (map2 (twice fst) audit_fields ps) \<and> av_raw v = map (\<lambda>p. be_word (snd p) 2) ps \<and>
    length ps = 59 \<and> av_readable v = 59 \<and> av_anchors v \<and> take 3 (av_raw v) = [65, 65, config] \<and>
    list_all2 (\<lambda>f p. audit_decoded (fst (snd f)) (be_word (fst p) 2) = audit_decoded (fst (snd f)) (be_word (snd p) 2))
      audit_fields ps"
proof -
  obtain ps where ps: "turns (audit_turn config) 0 audit_fields ps audit_values0 = Some v"
    "log = concat (map2 (twice fst) audit_fields ps)"
    using field_loop_log[OF turn_none(1) assms[unfolded audit_read_def]] by auto
  have o': "audit_outcome config 0 audit_fields ps audit_values0 v"
    by (rule audit_turns[OF ps(1)]) (simp add: audit_values0_def)
  have "length ps = 59" using turns_length[OF ps(1)] by simp
  moreover have "av_raw v = map (\<lambda>p. be_word (snd p) 2) ps"
    using o' by (simp add: audit_outcome_def audit_values0_def)
  moreover from calculation have "take 3 (av_raw v) = [av_raw v ! 0, av_raw v ! 1, av_raw v ! 2]"
    by (intro nth_equalityI) (auto simp: less_Suc_eq numeral_3_eq_3 numeral_2_eq_2)
  ultimately show ?thesis using ps(2) o' by (auto simp: audit_outcome_def audit_values0_def)
qed

lemma read_twice_stable:
  assumes "\<And>sel s. fst (rd sel s) = Some (mem sel)"
  shows "\<exists>s1. read_twice rd sel s = (Some (mem sel, mem sel), s1)"
proof -
  have "rd sel s = (Some (mem sel), snd (rd sel s))" for s by (metis assms prod.collapse)
  then show ?thesis unfolding read_twice_def by (metis (no_types, lifting) case_prod_conv option.simps(5))
qed

lemma field_loop_Cons_stable:
  assumes "\<And>sel s. fst (rd sel s) = Some (mem sel)"
    and "turn j f (Some (mem (sel f), mem (sel f))) v = (True, v1)"
  shows "\<exists>s1. field_loop rd sel turn (f # fs) j v s = field_loop rd sel turn fs (Suc j) v1 s1"
  using read_twice_stable[of rd mem "sel f" s] assms by (force split: prod.splits)

lemma field_loop_stable:
  assumes "\<And>sel s. fst (rd sel s) = Some (mem sel)"
    and "\<And>k f v. j \<le> k \<Longrightarrow> fst (turn k f (Some (mem (sel f), mem (sel f))) v)"
  shows "fst (fst (field_loop rd sel turn fs j v s))"
  using assms(2)
proof (induction fs arbitrary: j v s)
  case (Cons f fs)
  obtain v1 where t: "turn j f (Some (mem (sel f), mem (sel f))) v = (True, v1)"
    using Cons.prems[of j f v] by (metis order_refl prod.collapse)
  obtain s1 where "field_loop rd sel turn (f # fs) j v s = field_loop rd sel turn fs (Suc j) v1 s1"
    using field_loop_Cons_stable[of rd mem turn j f sel v v1 fs s] assms(1) t by blast
  then show ?case using Cons by simp
qed simp

text \<open>A device whose registers do not move, with the expected anchors, is always read.\<close>

lemma audit_read_stable:
  assumes "\<And>sel s. fst (rd sel s) = Some (mem sel)" "be_word (mem 0x929f) 2 = 65" "be_word (mem 0x929d) 2 = 65"
    "be_word (mem 0x929b) 2 \<le> 0x1fff"
  shows "fst (fst (audit_read rd (be_word (mem 0x929b) 2) s))"
proof -
  let ?t = "audit_turn (be_word (mem 0x929b) 2)"
  let ?v1 = "audit_values0\<lparr>av_raw := (av_raw audit_values0)[0 := 65], av_readable := 1\<rparr>"
  let ?v2 = "?v1\<lparr>av_raw := (av_raw ?v1)[1 := 65], av_readable := 2\<rparr>"
  obtain f0 f1 f2 rest where f: "audit_fields = f0 # f1 # f2 # rest" "fst f0 = 0x929f" "fst f1 = 0x929d" "fst f2 = 0x929b"
    by (simp add: audit_fields_def)
  have step: "\<exists>s1. field_loop rd fst ?t (g # fs) j v s = field_loop rd fst ?t fs (Suc j) v1 s1"
    if "?t j g (Some (mem (fst g), mem (fst g))) v = (True, v1)" for g fs j v v1 s
    using field_loop_Cons_stable[of rd mem ?t j g fst v v1 fs s] assms(1) that by blast
  have t: "?t 0 f0 (Some (mem (fst f0), mem (fst f0))) audit_values0 = (True, ?v1)"
    "?t (Suc 0) f1 (Some (mem (fst f1), mem (fst f1))) ?v1 = (True, ?v2)"
    using assms(2,3) f(2,3) by (simp_all add: audit_turn_def audit_values0_def)
  obtain v3 where t3: "?t (Suc (Suc 0)) f2 (Some (mem (fst f2), mem (fst f2))) ?v2 = (True, v3)"
    using assms(2-4) f(2-4) by (simp add: audit_turn_def audit_values0_def Let_def nth_list_update)
  have rest: "fst (fst (field_loop rd fst ?t rest (Suc (Suc (Suc 0))) v s))" for v s
    by (rule field_loop_stable[of rd mem, OF assms(1)]) (simp add: audit_turn_def Let_def)
  obtain s1 where s1: "field_loop rd fst ?t (f0 # f1 # f2 # rest) 0 audit_values0 s =
      field_loop rd fst ?t (f1 # f2 # rest) (Suc 0) ?v1 s1" using step[OF t(1)] by blast
  obtain s2 where s2: "field_loop rd fst ?t (f1 # f2 # rest) (Suc 0) ?v1 s1 =
      field_loop rd fst ?t (f2 # rest) (Suc (Suc 0)) ?v2 s2" using step[OF t(2)] by blast
  obtain s3 where s3: "field_loop rd fst ?t (f2 # rest) (Suc (Suc 0)) ?v2 s2 =
      field_loop rd fst ?t rest (Suc (Suc (Suc 0))) v3 s3" using step[OF t3] by blast
  show ?thesis unfolding audit_read_def f(1) s1 s2 s3 by (rule rest)
qed

text \<open>A reader that answers 65 for the two capacities and zeros otherwise.\<close>

definition constant_answer :: "u16 \<Rightarrow> bytes" where
  "constant_answer sel = [0, 0, 0, if sel = 0x929f \<or> sel = 0x929d then 65 else 0] @ replicate 32 0"

lemma constant_read:
  "fst (fst (audit_read (logged_reader (\<lambda>sel s. (Some (constant_answer sel), s))) 0 ((), [])))"
proof -
  have w: "be_word (constant_answer 0x929f) 2 = 65" "be_word (constant_answer 0x929d) 2 = 65"
    "be_word (constant_answer 0x929b) 2 = 0"
    by (simp_all add: constant_answer_def be_word_def)
  have "fst (logged_reader (\<lambda>sel s. (Some (constant_answer sel), s)) sel x) = Some (constant_answer sel)" for sel x
    by (simp add: logged_reader_def)
  from audit_read_stable[of _ constant_answer, OF this w(1,2)] show ?thesis unfolding w(3) by simp
qed

theorem audit_read_confirmed_witness:
  "\<exists>v s' log. audit_read (logged_reader (\<lambda>sel s. (Some (constant_answer sel), s))) 0 ((), []) = ((True, v), (s', log)) \<and>
     av_readable v = 59 \<and> take 3 (av_raw v) = [65, 65, 0]"
proof -
  obtain ok v s' log where "audit_read (logged_reader (\<lambda>sel s. (Some (constant_answer sel), s))) 0 ((), []) = ((ok, v), (s', log))"
    by (metis prod.exhaust)
  moreover from this have ok using constant_read by simp
  ultimately have r: "audit_read (logged_reader (\<lambda>sel s. (Some (constant_answer sel), s))) 0 ((), []) = ((True, v), (s', log))"
    by simp
  then show ?thesis using audit_read_confirmed[OF r] by (intro exI[of _ v] exI[of _ s'] exI[of _ log]) auto
qed

end
