(* ===== verification/Gauge_Recovery.thy ===== *)
theory Gauge_Recovery
  imports Gauge_Fields "HOL-Library.Multiset"
begin

unbundle bit_operations_syntax

text \<open>
  The offline planner of a recovery of the gauge (\<open>main/hal/mosaico/mosaico_gauge_recovery_model.h\<close>): the layout of
  the 131 public fields, built by sorting the three tables; the snapshot of original and target bytes with its
  validation; the classification of an observed image; and the plans for startup, apply, restore and their
  completion. The attestations are inputs of the code and stay inputs here. The last part puts the plans around a
  device whose writes can stop after any field.
\<close>

section \<open>The layout\<close>

record layout_field =
  lf_address :: u16
  lf_width :: nat

definition unsorted_layout :: "layout_field list" where
  "unsorted_layout =
     map (\<lambda>f. \<lparr>lf_address = fst f, lf_width = if fst (snd f) = A_U1 \<or> fst (snd f) = A_H1 then 1 else 2\<rparr>) audit_fields @
     map (\<lambda>f. \<lparr>lf_address = fst f, lf_width = cal_width f\<rparr>) cal_fields @
     map (\<lambda>f. \<lparr>lf_address = fst f, lf_width = snd (snd f)\<rparr>) extra_fields"

text \<open>The insertion sort: the inner loop moves larger elements up, then stores the element.\<close>

fun shift_up :: "layout_field list \<Rightarrow> layout_field \<Rightarrow> nat \<Rightarrow> layout_field list" where
  "shift_up out f 0 = out[0 := f]"
| "shift_up out f (Suc j) =
     (if lf_address (out ! j) > lf_address f then shift_up (out[Suc j := out ! j]) f j else out[Suc j := f])"

definition sort_layout :: "layout_field list \<Rightarrow> layout_field list" where
  "sort_layout out = foldl (\<lambda>out i. shift_up out (out ! i) i) out [1..<length out]"

definition public_layout :: "layout_field list" where
  "public_layout = sort_layout unsorted_layout"

definition valid_canonical_layout :: bool where
  "valid_canonical_layout \<longleftrightarrow>
     (if length audit_fields + length cal_fields + length extra_fields \<noteq> 131 then False
      else \<not> list_ex (\<lambda>i. lf_address (public_layout ! i) = 0 \<or> lf_width (public_layout ! i) \<notin> {1, 2, 4} \<or>
          (i \<noteq> 0 \<and> lf_address (public_layout ! (i - 1)) \<ge> lf_address (public_layout ! i))) [0..<131])"

section \<open>The snapshot\<close>

datatype layout_id = LI_Unknown | LI_Public131V1

text \<open>A stored phase may be a byte that is no enumerator; \<open>RP_Other\<close> stands for those.\<close>

datatype rec_phase = RP_Original | RP_Pending | RP_Applied | RP_Restoring | RP_Other u8

record rec_identity =
  ri_device :: u16
  ri_firmware :: u16
  ri_build :: u8

record rec_field =
  rf_address :: u16
  rf_width :: nat
  rf_original :: bytes
  rf_target :: bytes

record rec_snapshot =
  rs_identity :: rec_identity
  rs_binding :: bytes
  rs_layout :: layout_id
  rs_generation :: u32
  rs_scale :: u8
  rs_epoch :: u64
  rs_phase :: rec_phase
  rs_count :: nat
  rs_fields :: "rec_field list"

record rec_observation =
  ro_count :: nat
  ro_raw :: "bytes list"
  ro_authenticated :: bool
  ro_sealed :: bool
  ro_cfg0 :: bool

record rec_context =
  rc_identity :: rec_identity
  rc_binding :: bytes
  rc_layout :: layout_id
  rc_source_crc :: bool
  rc_reviewed_target :: bool

record durable_proof =
  dp_original :: bool
  dp_original_readback :: bool
  dp_pending :: bool
  dp_pending_readback :: bool
  dp_journal_crc :: bool
  dp_generation :: u32
  dp_epoch :: u64

datatype rec_image = RI_Invalid | RI_Original | RI_Target | RI_Mixed | RI_Unexpected
datatype rec_action = RA_FailClosed | RA_OriginalNoWrite | RA_RestoreRequired | RA_WriteReviewedTarget
  | RA_RestoreOriginal | RA_MarkApplied | RA_MarkOriginal
datatype rec_error = RE_None | RE_Identity | RE_Binding | RE_Layout | RE_Shape | RE_Attestation | RE_Unexpected
  | RE_Phase | RE_Epoch | RE_Durability | RE_NotOriginal | RE_NotTarget | RE_NotSealed

record rec_decision =
  rd_action :: rec_action
  rd_error :: rec_error
  rd_phase :: rec_phase
  rd_epoch :: u64
  rd_publish :: bool
  rd_authorized :: bool

definition rec_decision0 :: rec_decision where
  "rec_decision0 = \<lparr>rd_action = RA_FailClosed, rd_error = RE_None, rd_phase = RP_Original, rd_epoch = 0,
     rd_publish = False, rd_authorized = False\<rparr>"

definition known_identity :: "rec_identity \<Rightarrow> bool" where
  "known_identity i \<longleftrightarrow> ri_device i = 0x0220 \<and> ri_firmware i = 3 \<and> ri_build i = 4"

definition rec_same_identity :: "rec_identity \<Rightarrow> rec_identity \<Rightarrow> bool" where
  "rec_same_identity a b \<longleftrightarrow> ri_device a = ri_device b \<and> ri_firmware a = ri_firmware b \<and> ri_build a = ri_build b"

definition rec_nonzero :: "bytes \<Rightarrow> bool" where
  "rec_nonzero b = list_ex (\<lambda>x. x \<noteq> 0) b"

definition rec_same_binding :: "bytes \<Rightarrow> bytes \<Rightarrow> bool" where
  "rec_same_binding a b \<longleftrightarrow> \<not> list_ex (\<lambda>i. a ! i \<noteq> b ! i) [0..<32]"

definition valid_phase :: "rec_phase \<Rightarrow> bool" where
  "valid_phase p \<longleftrightarrow> p = RP_Original \<or> p = RP_Pending \<or> p = RP_Applied \<or> p = RP_Restoring"

definition on_layout :: "rec_snapshot \<Rightarrow> nat \<Rightarrow> bool" where
  "on_layout s i \<longleftrightarrow> rf_address (rs_fields s ! i) = lf_address (public_layout ! i) \<and>
     rf_width (rs_fields s ! i) = lf_width (public_layout ! i)"

definition rec_validate :: "rec_snapshot \<Rightarrow> rec_context \<Rightarrow> rec_error" where
  "rec_validate s c =
     (if \<not> known_identity (rs_identity s) \<or> \<not> known_identity (rc_identity c) \<or>
         \<not> rec_same_identity (rs_identity s) (rc_identity c) then RE_Identity
      else if \<not> rec_nonzero (rs_binding s) \<or> \<not> rec_nonzero (rc_binding c) \<or>
         \<not> rec_same_binding (rs_binding s) (rc_binding c) then RE_Binding
      else if rs_layout s \<noteq> LI_Public131V1 \<or> rc_layout c \<noteq> rs_layout s then RE_Layout
      else if rs_generation s = 0 \<or> rs_count s \<noteq> 131 \<or> \<not> valid_phase (rs_phase s) \<or>
         (rs_scale s \<noteq> 1 \<and> rs_scale s \<noteq> 2 \<and> rs_scale s \<noteq> 4) then RE_Shape
      else if list_ex (\<lambda>i. \<not> on_layout s i \<or>
          list_ex (\<lambda>j. rf_original (rs_fields s ! i) ! j \<noteq> 0 \<or> rf_target (rs_fields s ! i) ! j \<noteq> 0)
            [rf_width (rs_fields s ! i)..<4]) [0..<131] then RE_Shape
      else if \<not> rc_source_crc c \<or> \<not> rc_reviewed_target c then RE_Attestation
      else RE_None)"

text \<open>The observed bytes of a field against its original and its target bytes.\<close>

definition holds_original :: "rec_snapshot \<Rightarrow> bytes list \<Rightarrow> nat \<Rightarrow> bool" where
  "holds_original s raw i \<longleftrightarrow>
     list_all (\<lambda>j. raw ! i ! j = rf_original (rs_fields s ! i) ! j) [0..<rf_width (rs_fields s ! i)]"

definition holds_target :: "rec_snapshot \<Rightarrow> bytes list \<Rightarrow> nat \<Rightarrow> bool" where
  "holds_target s raw i \<longleftrightarrow>
     list_all (\<lambda>j. raw ! i ! j = rf_target (rs_fields s ! i) ! j) [0..<rf_width (rs_fields s ! i)]"

fun classify_loop :: "rec_snapshot \<Rightarrow> bytes list \<Rightarrow> nat list \<Rightarrow> bool \<Rightarrow> bool \<Rightarrow> rec_image" where
  "classify_loop s raw [] original target = (if original then RI_Original else if target then RI_Target else RI_Mixed)"
| "classify_loop s raw (i # is) original target =
     (if \<not> on_layout s i then RI_Invalid
      else
        let a = holds_original s raw i; b = holds_target s raw i in
        if \<not> a \<and> \<not> b then RI_Unexpected
        else classify_loop s raw is (original \<and> a) (target \<and> b))"

definition rec_classify :: "rec_snapshot \<Rightarrow> rec_observation \<Rightarrow> rec_image" where
  "rec_classify s ob =
     (if rs_count s \<noteq> 131 \<or> ro_count ob \<noteq> 131 then RI_Invalid
      else classify_loop s (ro_raw ob) [0..<131] True True)"

definition matches_target :: "rec_snapshot \<Rightarrow> rec_observation \<Rightarrow> bool" where
  "matches_target s ob \<longleftrightarrow>
     (if rs_count s \<noteq> 131 \<or> ro_count ob \<noteq> 131 then False
      else \<not> list_ex (\<lambda>i. \<not> on_layout s i \<or> \<not> holds_target s (ro_raw ob) i) [0..<131])"

section \<open>The plans\<close>

definition rec_reject :: "rec_error \<Rightarrow> rec_decision" where
  "rec_reject e = rec_decision0\<lparr>rd_error := e\<rparr>"

definition rec_plan :: "rec_action \<Rightarrow> rec_phase \<Rightarrow> u64 \<Rightarrow> rec_decision" where
  "rec_plan a p e = rec_decision0\<lparr>rd_action := a, rd_phase := p, rd_epoch := e\<rparr>"

definition checked_image :: "rec_snapshot \<Rightarrow> rec_context \<Rightarrow> rec_observation \<Rightarrow> rec_error" where
  "checked_image s c ob =
     (let valid = rec_validate s c in
      if valid \<noteq> RE_None then valid
      else if \<not> ro_authenticated ob then RE_Attestation
      else let img = rec_classify s ob in
        if img = RI_Invalid then RE_Shape else if img = RI_Unexpected then RE_Unexpected else RE_None)"

definition advancing :: "u64 \<Rightarrow> u64 \<Rightarrow> bool" where
  "advancing before after \<longleftrightarrow> before \<noteq> 0xffffffffffffffff \<and> after > before"

definition durable :: "rec_snapshot \<Rightarrow> durable_proof \<Rightarrow> u64 \<Rightarrow> bool" where
  "durable s p next_epoch \<longleftrightarrow>
     dp_original p \<and> dp_original_readback p \<and> dp_pending p \<and> dp_pending_readback p \<and> dp_journal_crc p \<and>
     dp_generation p = rs_generation s \<and> dp_epoch p = next_epoch"

definition rec_startup :: "rec_snapshot \<Rightarrow> rec_context \<Rightarrow> rec_observation \<Rightarrow> rec_decision" where
  "rec_startup s c ob =
     (let e = checked_image s c ob in
      if e \<noteq> RE_None then rec_reject e
      else if rs_phase s \<noteq> RP_Original \<or> rec_classify s ob \<noteq> RI_Original
      then rec_plan RA_RestoreRequired RP_Restoring (rs_epoch s)
      else if \<not> ro_sealed ob \<or> \<not> ro_cfg0 ob then rec_reject RE_NotSealed
      else (rec_plan RA_OriginalNoWrite RP_Original (rs_epoch s))\<lparr>rd_publish := True\<rparr>)"

definition rec_apply ::
  "rec_snapshot \<Rightarrow> rec_context \<Rightarrow> rec_observation \<Rightarrow> durable_proof \<Rightarrow> u64 \<Rightarrow> rec_decision" where
  "rec_apply s c ob p next_epoch =
     (let e = checked_image s c ob in
      if e \<noteq> RE_None then rec_reject e
      else if rs_phase s \<noteq> RP_Original then rec_reject RE_Phase
      else if rec_classify s ob \<noteq> RI_Original then rec_plan RA_RestoreRequired RP_Restoring (rs_epoch s)
      else if \<not> ro_sealed ob \<or> \<not> ro_cfg0 ob then rec_reject RE_NotSealed
      else if \<not> advancing (rs_epoch s) next_epoch then rec_reject RE_Epoch
      else if \<not> durable s p next_epoch then rec_reject RE_Durability
      else rec_plan RA_WriteReviewedTarget RP_Pending next_epoch)"

definition rec_restore ::
  "rec_snapshot \<Rightarrow> rec_context \<Rightarrow> rec_observation \<Rightarrow> durable_proof \<Rightarrow> u64 \<Rightarrow> rec_decision" where
  "rec_restore s c ob p next_epoch =
     (let e = checked_image s c ob in
      if e \<noteq> RE_None then rec_reject e
      else if \<not> advancing (rs_epoch s) next_epoch then rec_reject RE_Epoch
      else if \<not> durable s p next_epoch then rec_reject RE_Durability
      else rec_plan RA_RestoreOriginal RP_Restoring next_epoch)"

definition rec_finish_restore ::
  "rec_snapshot \<Rightarrow> rec_context \<Rightarrow> rec_observation \<Rightarrow> durable_proof \<Rightarrow> u64 \<Rightarrow> rec_decision" where
  "rec_finish_restore s c ob p next_epoch =
     (let e = checked_image s c ob in
      if e \<noteq> RE_None then rec_reject e
      else if rs_phase s \<noteq> RP_Restoring then rec_reject RE_Phase
      else if rec_classify s ob \<noteq> RI_Original then rec_reject RE_NotOriginal
      else if \<not> ro_sealed ob \<or> \<not> ro_cfg0 ob then rec_reject RE_NotSealed
      else if \<not> advancing (rs_epoch s) next_epoch then rec_reject RE_Epoch
      else if \<not> durable s p next_epoch then rec_reject RE_Durability
      else rec_plan RA_MarkOriginal RP_Original next_epoch)"

definition rec_finish_apply ::
  "rec_snapshot \<Rightarrow> rec_context \<Rightarrow> rec_observation \<Rightarrow> durable_proof \<Rightarrow> u64 \<Rightarrow> rec_decision" where
  "rec_finish_apply s c ob p next_epoch =
     (let e = checked_image s c ob in
      if e \<noteq> RE_None then rec_reject e
      else if rs_phase s \<noteq> RP_Pending then rec_reject RE_Phase
      else if rec_classify s ob = RI_Mixed then rec_plan RA_RestoreRequired RP_Restoring (rs_epoch s)
      else if \<not> matches_target s ob then rec_reject RE_NotTarget
      else if \<not> ro_sealed ob \<or> \<not> ro_cfg0 ob then rec_reject RE_NotSealed
      else if \<not> advancing (rs_epoch s) next_epoch then rec_reject RE_Epoch
      else if \<not> durable s p next_epoch then rec_reject RE_Durability
      else rec_plan RA_MarkApplied RP_Applied next_epoch)"

section \<open>The layout is sorted, complete and without duplicates\<close>

lemma length_shift_up [simp]: "length (shift_up out f j) = length out"
  by (induction out f j rule: shift_up.induct) simp_all

lemma shift_up_append:
  "shift_up (xs @ x # zs) f (length xs) =
     rev (dropWhile (\<lambda>y. lf_address y > lf_address f) (rev xs)) @ f #
     rev (takeWhile (\<lambda>y. lf_address y > lf_address f) (rev xs)) @ zs"
proof (induction xs arbitrary: x zs rule: rev_induct)
  case (snoc y xs)
  then show ?case by (simp add: nth_append list_update_append)
qed simp

lemma sorted_insert_end:
  assumes "sorted_wrt (\<lambda>x y. lf_address x \<le> lf_address y) xs"
  shows "sorted_wrt (\<lambda>x y. lf_address x \<le> lf_address y)
    (rev (dropWhile (\<lambda>y. lf_address y > lf_address f) (rev xs)) @ f #
     rev (takeWhile (\<lambda>y. lf_address y > lf_address f) (rev xs)))"
  using assms
proof (induction xs rule: rev_induct)
  case (snoc y xs)
  show ?case
  proof (cases "lf_address y > lf_address f")
    case True
    then have "sorted_wrt (\<lambda>x y. lf_address x \<le> lf_address y)
      ((rev (dropWhile (\<lambda>y. lf_address y > lf_address f) (rev xs)) @ f #
        rev (takeWhile (\<lambda>y. lf_address y > lf_address f) (rev xs))) @ [y])"
      using snoc unfolding sorted_wrt_append[of _ _ "[y]"]
      by (auto simp: sorted_wrt_append dest: set_takeWhileD set_dropWhileD)
    then show ?thesis using True by simp
  next
    case False
    then show ?thesis using snoc.prems by (fastforce simp: sorted_wrt_append)
  qed
qed simp

lemma sort_layout_prefix:
  assumes "1 \<le> k" "k \<le> length xs"
  shows "\<exists>ys. foldl (\<lambda>out i. shift_up out (out ! i) i) xs [1..<k] = ys @ drop k xs \<and>
    sorted_wrt (\<lambda>x y. lf_address x \<le> lf_address y) ys \<and> mset ys = mset (take k xs)"
  using assms
proof (induction k rule: dec_induct)
  case base
  then show ?case by (intro exI[of _ "take 1 xs"]) (cases xs; simp)
next
  case (step k)
  then obtain ys where ys: "foldl (\<lambda>out i. shift_up out (out ! i) i) xs [1..<k] = ys @ drop k xs"
    "sorted_wrt (\<lambda>x y. lf_address x \<le> lf_address y) ys" "mset ys = mset (take k xs)" by auto
  have len: "length ys = k" using arg_cong[OF ys(3), of size] step.prems by simp
  let ?g = "\<lambda>y. lf_address y > lf_address (xs ! k)"
  let ?zs = "rev (dropWhile ?g (rev ys)) @ xs ! k # rev (takeWhile ?g (rev ys))"
  have d: "drop k xs = xs ! k # drop (Suc k) xs" using step.prems by (simp add: Cons_nth_drop_Suc)
  have "foldl (\<lambda>out i. shift_up out (out ! i) i) xs [1..<Suc k] =
      shift_up (ys @ xs ! k # drop (Suc k) xs) (xs ! k) k"
    using step.hyps(1) ys(1) len unfolding d by (simp add: nth_append)
  then have "foldl (\<lambda>out i. shift_up out (out ! i) i) xs [1..<Suc k] = ?zs @ drop (Suc k) xs"
    using shift_up_append[of ys "xs ! k" "drop (Suc k) xs" "xs ! k"] len by simp
  moreover have "mset ?zs = mset (take (Suc k) xs)"
  proof -
    have "mset (rev (dropWhile ?g (rev ys))) + mset (rev (takeWhile ?g (rev ys))) = mset ys"
      by (metis mset_append mset_rev takeWhile_dropWhile_id union_commute)
    then show ?thesis using ys(3) step.prems by (simp add: take_Suc_conv_app_nth)
  qed
  ultimately show ?case using sorted_insert_end[OF ys(2), of "xs ! k"] by blast
qed

lemma sort_layout_spec:
  "sorted_wrt (\<lambda>x y. lf_address x \<le> lf_address y) (sort_layout xs) \<and> mset (sort_layout xs) = mset xs"
proof (cases xs)
  case (Cons x ys)
  then show ?thesis using sort_layout_prefix[of "length xs" xs] by (auto simp: sort_layout_def)
qed (simp add: sort_layout_def)

lemma unsorted_addresses:
  "map lf_address unsorted_layout = map fst audit_fields @ map fst cal_fields @ map fst extra_fields"
  by (simp add: unsorted_layout_def)

lemma unsorted_distinct: "distinct (map lf_address unsorted_layout)"
proof -
  have "distinct (map unat (map fst audit_fields @ map fst cal_fields @ map fst extra_fields))"
    by (simp add: audit_fields_def cal_fields_def extra_fields_def)
  then show ?thesis unfolding unsorted_addresses by (simp only: distinct_map)
qed

lemma unsorted_fields: "list_all (\<lambda>f. lf_address f \<noteq> 0 \<and> lf_width f \<in> {1, 2, 4}) unsorted_layout"
  by (simp add: unsorted_layout_def audit_fields_def cal_fields_def extra_fields_def cal_width_def)

lemma table_sizes: "length cal_fields = 7" "length extra_fields = 65" "length unsorted_layout = 131"
  by (simp_all add: unsorted_layout_def cal_fields_def extra_fields_def)

lemma public_layout_facts:
  "mset public_layout = mset unsorted_layout" "sorted_wrt (<) (map lf_address public_layout)"
  "length public_layout = 131" "list_all (\<lambda>f. lf_address f \<noteq> 0 \<and> lf_width f \<in> {1, 2, 4}) public_layout"
proof -
  have m: "mset public_layout = mset unsorted_layout"
    and s: "sorted_wrt (\<lambda>x y. lf_address x \<le> lf_address y) public_layout"
    using sort_layout_spec[of unsorted_layout] by (simp_all add: public_layout_def)
  have len: "length public_layout = 131" using mset_eq_length[OF m] table_sizes by simp
  have "mset (map lf_address public_layout) = mset (map lf_address unsorted_layout)" using m by simp
  then have d: "distinct (map lf_address public_layout)" using unsorted_distinct mset_eq_imp_distinct_iff by blast
  have "sorted (map lf_address public_layout)" unfolding sorted_wrt_map by (rule s)
  with d have strict: "sorted_wrt (<) (map lf_address public_layout)" unfolding strict_sorted_iff by blast
  have "list_all (\<lambda>f. lf_address f \<noteq> 0 \<and> lf_width f \<in> {1, 2, 4}) public_layout"
    using unsorted_fields mset_eq_setD[OF m] by (simp only: list.pred_set)
  then show "mset public_layout = mset unsorted_layout" "sorted_wrt (<) (map lf_address public_layout)"
    "length public_layout = 131" "list_all (\<lambda>f. lf_address f \<noteq> 0 \<and> lf_width f \<in> {1, 2, 4}) public_layout"
    using m strict len by blast+
qed

text \<open>The layout computed from the three tables is the sorted, duplicate-free list of exactly their registers: the
  in-place sort keeps every field with its width, and the compile-time check of the code succeeds.\<close>

theorem public_layout_canonical:
  "mset public_layout = mset unsorted_layout \<and> sorted_wrt (<) (map lf_address public_layout) \<and>
   length public_layout = 131 \<and> valid_canonical_layout"
proof -
  note f = public_layout_facts table_sizes
  have ok: "lf_address (public_layout ! i) \<noteq> 0 \<and> lf_width (public_layout ! i) \<in> {1, 2, 4}" if "i < 131" for i
    using that f(3,4) by (simp add: list_all_length)
  have "i = 0 \<or> lf_address (public_layout ! (i - 1)) < lf_address (public_layout ! i)" if "i < 131" for i
    using f(2,3) that by (cases "i = 0") (simp_all add: sorted_wrt_iff_nth_less)
  then have "valid_canonical_layout"
    unfolding valid_canonical_layout_def using ok f(5,6) by (auto simp: list_ex_iff not_le)
  then show ?thesis using f(1-3) by blast
qed

section \<open>What an image is\<close>

text \<open>Under a validated snapshot only the bytes decide.\<close>

lemma validate_layout:
  assumes "rec_validate s c = RE_None"
  shows "rs_count s = 131" "valid_phase (rs_phase s)" "\<And>i. i < 131 \<Longrightarrow> on_layout s i"
  using assms by (auto simp: rec_validate_def list_ex_iff split: if_splits)

lemma classify_loop_spec:
  assumes "list_all (on_layout s) is"
  shows "classify_loop s raw is a b =
    (if list_ex (\<lambda>i. \<not> holds_original s raw i \<and> \<not> holds_target s raw i) is then RI_Unexpected
     else if a \<and> list_all (holds_original s raw) is then RI_Original
     else if b \<and> list_all (holds_target s raw) is then RI_Target else RI_Mixed)"
  using assms
  by (induction "is" arbitrary: a b) (auto simp: Let_def)

definition is_original :: "rec_snapshot \<Rightarrow> bytes list \<Rightarrow> bool" where
  "is_original s raw = list_all (holds_original s raw) [0..<131]"

definition is_mixture :: "rec_snapshot \<Rightarrow> bytes list \<Rightarrow> bool" where
  "is_mixture s raw = list_all (\<lambda>i. holds_original s raw i \<or> holds_target s raw i) [0..<131]"

lemma classify_valid:
  assumes "rec_validate s c = RE_None" "ro_count ob = 131"
  shows "rec_classify s ob =
    (if \<not> is_mixture s (ro_raw ob) then RI_Unexpected
     else if is_original s (ro_raw ob) then RI_Original
     else if list_all (holds_target s (ro_raw ob)) [0..<131] then RI_Target else RI_Mixed)"
proof -
  have l: "list_all (on_layout s) [0..<131]" using validate_layout(3)[OF assms(1)] by (simp add: list_all_iff)
  show ?thesis
    using classify_loop_spec[OF l, of "ro_raw ob" True True] validate_layout(1)[OF assms(1)] assms(2)
    by (auto simp: rec_classify_def is_mixture_def is_original_def list_ex_iff list_all_iff)
qed

lemma original_mixture: "is_original s raw \<Longrightarrow> is_mixture s raw"
  by (simp add: is_original_def is_mixture_def list_all_iff)

lemma checked_image_iff:
  assumes "rec_validate s c = RE_None" "ro_count ob = 131"
  shows "checked_image s c ob = RE_None \<longleftrightarrow> ro_authenticated ob \<and> is_mixture s (ro_raw ob)"
  using classify_valid[OF assms] assms(1) by (auto simp: checked_image_def Let_def split: if_splits)

section \<open>The planner around a device\<close>

text \<open>
  The source plans and never writes: what a caller must do with a plan is said in its comments, on \<open>DurableProof\<close> and on the
  completions. This section is that caller, the environment of the planner: 131 fields and the stored snapshot. A call
  stores the new phase and epoch first, as the durable proof attests, and then writes the fields of the plan; \<open>written\<close>
  says which of them were written when the power failed. A call that is not planned changes nothing.
\<close>

record rec_world =
  rw_snap :: rec_snapshot
  rw_raw :: "bytes list"

datatype rec_call = RV_Apply | RV_Restore | RV_FinishRestore | RV_FinishApply

record rec_event =
  rv_call :: rec_call
  rv_proof :: durable_proof
  rv_epoch :: u64
  rv_written :: "nat \<Rightarrow> bool"
  rv_authenticated :: bool
  rv_sealed :: bool
  rv_cfg0 :: bool

definition observe :: "rec_event \<Rightarrow> rec_world \<Rightarrow> rec_observation" where
  "observe e w = \<lparr>ro_count = 131, ro_raw = rw_raw w, ro_authenticated = rv_authenticated e,
     ro_sealed = rv_sealed e, ro_cfg0 = rv_cfg0 e\<rparr>"

definition rec_decide :: "rec_context \<Rightarrow> rec_world \<Rightarrow> rec_event \<Rightarrow> rec_decision" where
  "rec_decide c w e =
     (let plan = (case rv_call e of RV_Apply \<Rightarrow> rec_apply | RV_Restore \<Rightarrow> rec_restore
        | RV_FinishRestore \<Rightarrow> rec_finish_restore | RV_FinishApply \<Rightarrow> rec_finish_apply) in
      plan (rw_snap w) c (observe e w) (rv_proof e) (rv_epoch e))"

definition write_fields :: "(rec_field \<Rightarrow> bytes) \<Rightarrow> (nat \<Rightarrow> bool) \<Rightarrow> rec_snapshot \<Rightarrow> bytes list \<Rightarrow> bytes list" where
  "write_fields part written s raw =
     map (\<lambda>i. if written i
        then map (\<lambda>j. if j < rf_width (rs_fields s ! i) then part (rs_fields s ! i) ! j else raw ! i ! j) [0..<4]
        else raw ! i) [0..<131]"

definition rec_world_step :: "rec_context \<Rightarrow> rec_world \<Rightarrow> rec_event \<Rightarrow> rec_world" where
  "rec_world_step c w e =
     (let d = rec_decide c w e; s = rw_snap w; s' = s\<lparr>rs_phase := rd_phase d, rs_epoch := rd_epoch d\<rparr> in
      case rd_action d of
        RA_WriteReviewedTarget \<Rightarrow> \<lparr>rw_snap = s', rw_raw = write_fields rf_target (rv_written e) s (rw_raw w)\<rparr>
      | RA_RestoreOriginal \<Rightarrow> \<lparr>rw_snap = s', rw_raw = write_fields rf_original (rv_written e) s (rw_raw w)\<rparr>
      | RA_MarkApplied \<Rightarrow> \<lparr>rw_snap = s', rw_raw = rw_raw w\<rparr>
      | RA_MarkOriginal \<Rightarrow> \<lparr>rw_snap = s', rw_raw = rw_raw w\<rparr>
      | _ \<Rightarrow> w)"

lemma field_width: "on_layout s i \<Longrightarrow> i < 131 \<Longrightarrow> rf_width (rs_fields s ! i) \<in> {1, 2, 4}"
  using public_layout_facts(3,4) by (auto simp: on_layout_def list_all_length)

lemma holds_update [simp]:
  "holds_original (s\<lparr>rs_phase := p, rs_epoch := e\<rparr>) = holds_original s"
  "holds_target (s\<lparr>rs_phase := p, rs_epoch := e\<rparr>) = holds_target s"
  "is_original (s\<lparr>rs_phase := p, rs_epoch := e\<rparr>) = is_original s"
  "is_mixture (s\<lparr>rs_phase := p, rs_epoch := e\<rparr>) = is_mixture s"
proof -
  show "holds_original (s\<lparr>rs_phase := p, rs_epoch := e\<rparr>) = holds_original s"
    "holds_target (s\<lparr>rs_phase := p, rs_epoch := e\<rparr>) = holds_target s"
    by (simp_all add: fun_eq_iff holds_original_def holds_target_def)
  then show "is_original (s\<lparr>rs_phase := p, rs_epoch := e\<rparr>) = is_original s"
    "is_mixture (s\<lparr>rs_phase := p, rs_epoch := e\<rparr>) = is_mixture s"
    by (auto simp: fun_eq_iff is_original_def is_mixture_def list_all_iff)
qed

lemma validate_update:
  "rec_validate s c = RE_None \<Longrightarrow> valid_phase p \<Longrightarrow> rec_validate (s\<lparr>rs_phase := p, rs_epoch := e\<rparr>) c = RE_None"
  by (simp add: rec_validate_def on_layout_def split: if_splits)

lemma write_fields_holds:
  assumes "i < 131" "rf_width (rs_fields s ! i) \<le> 4"
  shows "holds_target s (write_fields part written s raw) i =
      (if written i then list_all (\<lambda>j. part (rs_fields s ! i) ! j = rf_target (rs_fields s ! i) ! j) [0..<rf_width (rs_fields s ! i)]
       else holds_target s raw i)"
    and "holds_original s (write_fields part written s raw) i =
      (if written i then list_all (\<lambda>j. part (rs_fields s ! i) ! j = rf_original (rs_fields s ! i) ! j) [0..<rf_width (rs_fields s ! i)]
       else holds_original s raw i)"
  using assms by (auto simp: holds_target_def holds_original_def write_fields_def list_all_iff)

lemma write_keeps_mixture:
  assumes "\<And>i. i < 131 \<Longrightarrow> on_layout s i" "is_mixture s raw"
  shows "is_mixture s (write_fields rf_target written s raw)" "is_mixture s (write_fields rf_original written s raw)"
proof -
  have w: "rf_width (rs_fields s ! i) \<le> 4" if "i < 131" for i using field_width[OF assms(1)[OF that] that] by auto
  show "is_mixture s (write_fields rf_target written s raw)" "is_mixture s (write_fields rf_original written s raw)"
    using assms(2) w by (auto simp: is_mixture_def list_all_iff write_fields_holds)
qed

lemma write_all_original:
  assumes "\<And>i. i < 131 \<Longrightarrow> on_layout s i"
  shows "is_original s (write_fields rf_original (\<lambda>_. True) s raw)"
proof -
  have w: "rf_width (rs_fields s ! i) \<le> 4" if "i < 131" for i using field_width[OF assms[OF that] that] by auto
  then show ?thesis by (auto simp: is_original_def list_all_iff write_fields_holds)
qed

text \<open>Each plan either leaves the device alone or is the one plan of its call, under its guards.\<close>

definition idle_action :: "rec_action \<Rightarrow> bool" where
  "idle_action a \<longleftrightarrow> a = RA_FailClosed \<or> a = RA_RestoreRequired \<or> a = RA_OriginalNoWrite"

lemma idle_action_simps [simp]:
  "idle_action RA_FailClosed" "idle_action RA_RestoreRequired" "idle_action RA_OriginalNoWrite" "\<not> idle_action RA_WriteReviewedTarget"
  "\<not> idle_action RA_RestoreOriginal" "\<not> idle_action RA_MarkApplied" "\<not> idle_action RA_MarkOriginal"
  by (simp_all add: idle_action_def)

lemma plan_simps [simp]:
  "rd_action (rec_reject x) = RA_FailClosed" "rd_action (rec_plan a p e) = a" "rd_phase (rec_plan a p e) = p"
  "rd_epoch (rec_plan a p e) = e" "\<not> rd_publish (rec_reject x)" "\<not> rd_publish (rec_plan a p e)"
  "\<not> rd_authorized (rec_reject x)" "\<not> rd_authorized (rec_plan a p e)"
  by (simp_all add: rec_reject_def rec_plan_def rec_decision0_def)

definition usable :: "rec_snapshot \<Rightarrow> rec_context \<Rightarrow> rec_observation \<Rightarrow> durable_proof \<Rightarrow> u64 \<Rightarrow> bool" where
  "usable s c ob p e \<longleftrightarrow> checked_image s c ob = RE_None \<and> advancing (rs_epoch s) e \<and> durable s p e"

lemma apply_plan:
  "idle_action (rd_action (rec_apply s c ob p e)) \<or>
   (rec_apply s c ob p e = rec_plan RA_WriteReviewedTarget RP_Pending e \<and> usable s c ob p e \<and> rs_phase s = RP_Original \<and>
    rec_classify s ob = RI_Original)"
  by (simp add: rec_apply_def usable_def Let_def)

lemma restore_plan:
  "idle_action (rd_action (rec_restore s c ob p e)) \<or>
   (rec_restore s c ob p e = rec_plan RA_RestoreOriginal RP_Restoring e \<and> usable s c ob p e)"
  by (simp add: rec_restore_def usable_def Let_def)

lemma finish_restore_plan:
  "idle_action (rd_action (rec_finish_restore s c ob p e)) \<or>
   (rec_finish_restore s c ob p e = rec_plan RA_MarkOriginal RP_Original e \<and> usable s c ob p e \<and>
    rs_phase s = RP_Restoring \<and> rec_classify s ob = RI_Original)"
  by (simp add: rec_finish_restore_def usable_def Let_def)

lemma finish_apply_plan:
  "idle_action (rd_action (rec_finish_apply s c ob p e)) \<or>
   (rec_finish_apply s c ob p e = rec_plan RA_MarkApplied RP_Applied e \<and> usable s c ob p e \<and>
    rs_phase s = RP_Pending \<and> matches_target s ob)"
  by (simp add: rec_finish_apply_def usable_def Let_def)

text \<open>What a planned call does: the five ways a step can go.\<close>

lemma step_cases:
  fixes c :: rec_context and w :: rec_world and e :: rec_event
  defines "s \<equiv> rw_snap w" and "w' \<equiv> rec_world_step c w e"
  assumes "rec_validate s c = RE_None"
  obtains "w' = w"
  | "rs_phase s = RP_Original" "advancing (rs_epoch s) (rv_epoch e)"
      "rw_snap w' = s\<lparr>rs_phase := RP_Pending, rs_epoch := rv_epoch e\<rparr>"
      "rw_raw w' = write_fields rf_target (rv_written e) s (rw_raw w)"
  | "advancing (rs_epoch s) (rv_epoch e)" "rw_snap w' = s\<lparr>rs_phase := RP_Restoring, rs_epoch := rv_epoch e\<rparr>"
      "rw_raw w' = write_fields rf_original (rv_written e) s (rw_raw w)"
  | "rs_phase s = RP_Restoring" "is_original s (rw_raw w)" "advancing (rs_epoch s) (rv_epoch e)"
      "rw_snap w' = s\<lparr>rs_phase := RP_Original, rs_epoch := rv_epoch e\<rparr>" "rw_raw w' = rw_raw w"
  | "rs_phase s = RP_Pending" "advancing (rs_epoch s) (rv_epoch e)"
      "rw_snap w' = s\<lparr>rs_phase := RP_Applied, rs_epoch := rv_epoch e\<rparr>" "rw_raw w' = rw_raw w"
proof -
  have cl: "rec_classify s (observe e w) = RI_Original \<Longrightarrow> is_original s (rw_raw w)"
    using classify_valid[OF assms(3), of "observe e w"] by (auto simp: observe_def split: if_splits)
  let ?ob = "observe e w" and ?p = "rv_proof e" and ?e = "rv_epoch e"
  have pass: "w' = w" if "idle_action (rd_action (rec_decide c w e))"
    using that by (auto simp: assms(2) rec_world_step_def idle_action_def Let_def)
  show thesis
  proof (cases "idle_action (rd_action (rec_decide c w e))")
    case True
    then show thesis by (intro that(1) pass)
  next
    case False
    show thesis
    proof (cases "rv_call e")
    case RV_Apply
    then have d: "rec_decide c w e = rec_apply s c ?ob ?p ?e" by (simp add: rec_decide_def assms(1))
    then have h: "rec_apply s c ?ob ?p ?e = rec_plan RA_WriteReviewedTarget RP_Pending ?e" "advancing (rs_epoch s) ?e"
      "rs_phase s = RP_Original"
      using apply_plan[of s c ?ob ?p ?e] False by (simp_all add: usable_def)
    have "w' = \<lparr>rw_snap = s\<lparr>rs_phase := RP_Pending, rs_epoch := ?e\<rparr>, rw_raw = write_fields rf_target (rv_written e) s (rw_raw w)\<rparr>"
      unfolding assms(2) rec_world_step_def Let_def d h(1) by (simp add: assms(1))
    then show thesis using h cl by (intro that(2)) simp_all
  next
    case RV_Restore
    then have d: "rec_decide c w e = rec_restore s c ?ob ?p ?e" by (simp add: rec_decide_def assms(1))
    then have h: "rec_restore s c ?ob ?p ?e = rec_plan RA_RestoreOriginal RP_Restoring ?e" "advancing (rs_epoch s) ?e"
      using restore_plan[of s c ?ob ?p ?e] False by (simp_all add: usable_def)
    have "w' = \<lparr>rw_snap = s\<lparr>rs_phase := RP_Restoring, rs_epoch := ?e\<rparr>, rw_raw = write_fields rf_original (rv_written e) s (rw_raw w)\<rparr>"
      unfolding assms(2) rec_world_step_def Let_def d h(1) by (simp add: assms(1))
    then show thesis using h cl by (intro that(3)) simp_all
  next
    case RV_FinishRestore
    then have d: "rec_decide c w e = rec_finish_restore s c ?ob ?p ?e" by (simp add: rec_decide_def assms(1))
    then have h: "rec_finish_restore s c ?ob ?p ?e = rec_plan RA_MarkOriginal RP_Original ?e" "advancing (rs_epoch s) ?e"
      "rs_phase s = RP_Restoring" "rec_classify s ?ob = RI_Original"
      using finish_restore_plan[of s c ?ob ?p ?e] False by (simp_all add: usable_def)
    have "w' = \<lparr>rw_snap = s\<lparr>rs_phase := RP_Original, rs_epoch := ?e\<rparr>, rw_raw = rw_raw w\<rparr>"
      unfolding assms(2) rec_world_step_def Let_def d h(1) by (simp add: assms(1))
    then show thesis using h cl by (intro that(4)) simp_all
  next
    case RV_FinishApply
    then have d: "rec_decide c w e = rec_finish_apply s c ?ob ?p ?e" by (simp add: rec_decide_def assms(1))
    then have h: "rec_finish_apply s c ?ob ?p ?e = rec_plan RA_MarkApplied RP_Applied ?e" "advancing (rs_epoch s) ?e"
      "rs_phase s = RP_Pending"
      using finish_apply_plan[of s c ?ob ?p ?e] False by (simp_all add: usable_def)
    have "w' = \<lparr>rw_snap = s\<lparr>rs_phase := RP_Applied, rs_epoch := ?e\<rparr>, rw_raw = rw_raw w\<rparr>"
      unfolding assms(2) rec_world_step_def Let_def d h(1) by (simp add: assms(1))
    then show thesis using h cl by (intro that(5)) simp_all
    qed
  qed
qed

definition rec_inv :: "rec_context \<Rightarrow> rec_world \<Rightarrow> bool" where
  "rec_inv c w \<longleftrightarrow> rec_validate (rw_snap w) c = RE_None \<and> is_mixture (rw_snap w) (rw_raw w) \<and>
     (rs_phase (rw_snap w) = RP_Original \<longrightarrow> is_original (rw_snap w) (rw_raw w))"

lemma phase_select [simp]: "rs_phase (s\<lparr>rs_phase := p, rs_epoch := e\<rparr>) = p"
  by simp

lemma rec_inv_step:
  assumes "rec_inv c w"
  shows "rec_inv c (rec_world_step c w e)"
proof -
  have v: "rec_validate (rw_snap w) c = RE_None" and m: "is_mixture (rw_snap w) (rw_raw w)"
    using assms by (simp_all add: rec_inv_def)
  note lay = validate_layout(3)[OF v]
  have vp: "valid_phase RP_Pending" "valid_phase RP_Restoring" "valid_phase RP_Original" "valid_phase RP_Applied"
    by (simp_all add: valid_phase_def)
  note upd = validate_update[OF v vp(1)] validate_update[OF v vp(2)] validate_update[OF v vp(3)] validate_update[OF v vp(4)]
  show ?thesis
  proof (rule step_cases[OF v, of e])
    assume "rec_world_step c w e = w"
    then show ?thesis using assms by simp
  qed (simp_all add: rec_inv_def upd m write_keeps_mixture[OF lay m])
qed

definition world_at :: "rec_snapshot \<Rightarrow> bytes list \<Rightarrow> rec_world" where
  "world_at s raw = \<lparr>rw_snap = s, rw_raw = raw\<rparr>"

lemma rec_epoch_step:
  assumes "rec_inv c w"
  shows "rec_world_step c w e = w \<or> rs_epoch (rw_snap w) < rs_epoch (rw_snap (rec_world_step c w e))"
proof -
  have v: "rec_validate (rw_snap w) c = RE_None" using assms by (simp add: rec_inv_def)
  show ?thesis by (rule step_cases[OF v, of e]) (auto simp: advancing_def)
qed

text \<open>The plans keep the invariant and never take an epoch back.\<close>

interpretation recovery: monotone_machine "rec_world_step c" w "\<lambda>v. \<not> rec_inv c w \<or> rec_inv c v"
  "\<lambda>v. if rec_inv c w then unat (rs_epoch (rw_snap v)) else 0" for c w
proof
  show "\<not> rec_inv c w \<or> rec_inv c w" by simp
  show "\<not> rec_inv c w \<or> rec_inv c (rec_world_step c s e)" if "\<not> rec_inv c w \<or> rec_inv c s" for s e
    using that rec_inv_step by blast
  show "(if rec_inv c w then unat (rs_epoch (rw_snap s)) else 0)
      \<le> (if rec_inv c w then unat (rs_epoch (rw_snap (rec_world_step c s e))) else 0)"
    if "\<not> rec_inv c w \<or> rec_inv c s" for s e
    using that rec_epoch_step[of c s e] by (auto simp: word_less_nat_alt)
qed

lemma recovery_epochs:
  "rec_inv c w \<Longrightarrow> rs_epoch (rw_snap (foldl (rec_world_step c) w es)) \<le> rs_epoch (rw_snap (foldl (rec_world_step c) w (es @ fs)))"
  using recovery.level_prefix[of c w es fs] by (simp add: word_le_nat_alt)

lemma rec_inv_start: "rec_validate s c = RE_None \<Longrightarrow> is_original s raw \<Longrightarrow> rec_inv c (world_at s raw)"
  by (simp add: rec_inv_def world_at_def original_mixture)

lemma rec_inv_run:
  "rec_validate s c = RE_None \<Longrightarrow> is_original s raw \<Longrightarrow> rec_inv c (foldl (rec_world_step c) (world_at s raw) es)"
  using recovery.inv_reachable[of c "world_at s raw" es] rec_inv_start by blast

lemma observe_simps [simp]:
  "ro_count (observe e w) = 131" "ro_raw (observe e w) = rw_raw w" "ro_authenticated (observe e w) = rv_authenticated e"
  "ro_sealed (observe e w) = rv_sealed e" "ro_cfg0 (observe e w) = rv_cfg0 e"
  by (simp_all add: observe_def)

lemma startup_decision:
  assumes "rec_inv c w"
  shows "rd_action (rec_startup (rw_snap w) c (observe e w)) =
      (if \<not> rv_authenticated e then RA_FailClosed
       else if rs_phase (rw_snap w) \<noteq> RP_Original then RA_RestoreRequired
       else if rv_sealed e \<and> rv_cfg0 e then RA_OriginalNoWrite else RA_FailClosed)"
    and "rd_publish (rec_startup (rw_snap w) c (observe e w)) \<Longrightarrow> rs_phase (rw_snap w) = RP_Original"
proof -
  have v: "rec_validate (rw_snap w) c = RE_None" and m: "is_mixture (rw_snap w) (rw_raw w)"
    and o': "rs_phase (rw_snap w) = RP_Original \<Longrightarrow> is_original (rw_snap w) (rw_raw w)"
    using assms by (simp_all add: rec_inv_def)
  have cl: "rs_phase (rw_snap w) = RP_Original \<Longrightarrow> rec_classify (rw_snap w) (observe e w) = RI_Original"
    using classify_valid[OF v, of "observe e w"] m o' by simp
  have ch: "checked_image (rw_snap w) c (observe e w) = RE_None \<longleftrightarrow> rv_authenticated e"
    using checked_image_iff[OF v, of "observe e w"] m by simp
  show "rd_action (rec_startup (rw_snap w) c (observe e w)) =
      (if \<not> rv_authenticated e then RA_FailClosed
       else if rs_phase (rw_snap w) \<noteq> RP_Original then RA_RestoreRequired
       else if rv_sealed e \<and> rv_cfg0 e then RA_OriginalNoWrite else RA_FailClosed)"
    using ch cl by (simp add: rec_startup_def Let_def)
  show "rd_publish (rec_startup (rw_snap w) c (observe e w)) \<Longrightarrow> rs_phase (rw_snap w) = RP_Original"
    by (simp add: rec_startup_def Let_def split: if_splits)
qed

section \<open>Exactly when each plan is granted\<close>

text \<open>What the planner demands, said without its loops. A snapshot of the known device, bound to the device of the
  context, on the public layout, with every byte beyond the width of a field zero, and both attestations.\<close>

definition well_formed :: "rec_snapshot \<Rightarrow> rec_context \<Rightarrow> bool" where
  "well_formed s c \<longleftrightarrow>
     (\<forall>d \<in> {rs_identity s, rc_identity c}. ri_device d = 0x0220 \<and> ri_firmware d = 3 \<and> ri_build d = 4) \<and>
     (\<forall>b \<in> {rs_binding s, rc_binding c}. \<exists>x \<in> set b. x \<noteq> 0) \<and> (\<forall>i<32. rs_binding s ! i = rc_binding c ! i) \<and>
     rs_layout s = LI_Public131V1 \<and> rc_layout c = LI_Public131V1 \<and> rs_generation s \<noteq> 0 \<and> rs_count s = 131 \<and>
     rs_phase s \<in> {RP_Original, RP_Pending, RP_Applied, RP_Restoring} \<and> rs_scale s \<in> {1, 2, 4} \<and>
     (\<forall>i<131. let f = rs_fields s ! i in
        \<lparr>lf_address = rf_address f, lf_width = rf_width f\<rparr> = public_layout ! i \<and>
        (\<forall>j. rf_width f \<le> j \<and> j < 4 \<longrightarrow> rf_original f ! j = 0 \<and> rf_target f ! j = 0)) \<and>
     rc_source_crc c \<and> rc_reviewed_target c"

text \<open>The bytes read for a field are those of the given part of it.\<close>

definition reads :: "(rec_field \<Rightarrow> bytes) \<Rightarrow> rec_snapshot \<Rightarrow> rec_observation \<Rightarrow> nat \<Rightarrow> bool" where
  "reads part s ob i \<longleftrightarrow> (\<forall>j < rf_width (rs_fields s ! i). ro_raw ob ! i ! j = part (rs_fields s ! i) ! j)"

definition admissible :: "rec_snapshot \<Rightarrow> rec_context \<Rightarrow> rec_observation \<Rightarrow> bool" where
  "admissible s c ob \<longleftrightarrow> well_formed s c \<and> ro_authenticated ob \<and> ro_count ob = 131 \<and>
     (\<forall>i<131. reads rf_original s ob i \<or> reads rf_target s ob i)"

text \<open>Both records stored, both read back identical, the journal checked, all for this generation and the next epoch.\<close>

definition attested :: "rec_snapshot \<Rightarrow> durable_proof \<Rightarrow> u64 \<Rightarrow> bool" where
  "attested s p e \<longleftrightarrow> dp_original p \<and> dp_original_readback p \<and> dp_pending p \<and> dp_pending_readback p \<and> dp_journal_crc p \<and>
     dp_generation p = rs_generation s \<and> dp_epoch p = e \<and> rs_epoch s < e"

definition granted :: "rec_decision \<Rightarrow> rec_action \<Rightarrow> rec_phase \<Rightarrow> u64 \<Rightarrow> bool" where
  "granted d a ph e \<longleftrightarrow> rd_action d = a \<and> rd_phase d = ph \<and> rd_epoch d = e \<and> rd_error d = RE_None"

lemma well_formed_iff: "rec_validate s c = RE_None \<longleftrightarrow> well_formed s c"
proof
  assume "rec_validate s c = RE_None"
  then show "well_formed s c"
    by (auto simp: rec_validate_def well_formed_def known_identity_def rec_nonzero_def rec_same_binding_def valid_phase_def
        on_layout_def list_ex_iff Let_def split: if_splits)
next
  assume w: "well_formed s c"
  have "\<not> list_ex (\<lambda>i. \<not> on_layout s i \<or>
      list_ex (\<lambda>j. rf_original (rs_fields s ! i) ! j \<noteq> 0 \<or> rf_target (rs_fields s ! i) ! j \<noteq> 0)
        [rf_width (rs_fields s ! i)..<4]) [0..<131]"
  proof -
    have "on_layout s i" if "i < 131" for i
      using w that unfolding well_formed_def on_layout_def Let_def by (metis layout_field.select_convs)
    then show ?thesis using w by (auto simp: list_ex_iff well_formed_def Let_def)
  qed
  then show "rec_validate s c = RE_None" using w
    by (auto simp: rec_validate_def well_formed_def known_identity_def rec_same_identity_def rec_nonzero_def
        rec_same_binding_def valid_phase_def list_ex_iff)
qed

lemma reads_holds: "holds_original s (ro_raw ob) i = reads rf_original s ob i" "holds_target s (ro_raw ob) i = reads rf_target s ob i"
  by (auto simp: holds_original_def holds_target_def reads_def list_all_iff)

lemma attested_iff: "advancing (rs_epoch s) e \<and> durable s p e \<longleftrightarrow> attested s p e"
proof -
  have "(- 1 :: u64) = 0xffffffffffffffff" by simp
  then have "\<not> 0xffffffffffffffff < e" using word_order.extremum[of e] by (simp only: not_less)
  then show ?thesis by (auto simp: advancing_def durable_def attested_def)
qed

lemma admissible_iff: "checked_image s c ob = RE_None \<longleftrightarrow> admissible s c ob"
proof (cases "rec_validate s c = RE_None")
  case True
  show ?thesis
  proof (cases "ro_count ob = 131")
    case c: True
    show ?thesis using checked_image_iff[OF True c] True c
      by (auto simp: admissible_def well_formed_iff is_mixture_def list_all_iff reads_holds)
  next
    case False
    then show ?thesis by (auto simp: checked_image_def Let_def rec_classify_def admissible_def True)
  qed
qed (auto simp: checked_image_def Let_def admissible_def well_formed_iff)

lemma admissible_image:
  assumes "admissible s c ob"
  shows "rec_classify s ob = RI_Original \<longleftrightarrow> (\<forall>i<131. reads rf_original s ob i)"
    "matches_target s ob \<longleftrightarrow> (\<forall>i<131. reads rf_target s ob i)"
    "rec_classify s ob = RI_Mixed \<longleftrightarrow> \<not> (\<forall>i<131. reads rf_original s ob i) \<and> \<not> (\<forall>i<131. reads rf_target s ob i)"
proof -
  have v: "rec_validate s c = RE_None" and n: "ro_count ob = 131" and m: "is_mixture s (ro_raw ob)"
    using assms by (auto simp: admissible_def well_formed_iff is_mixture_def list_all_iff reads_holds)
  show "rec_classify s ob = RI_Original \<longleftrightarrow> (\<forall>i<131. reads rf_original s ob i)"
    "rec_classify s ob = RI_Mixed \<longleftrightarrow> \<not> (\<forall>i<131. reads rf_original s ob i) \<and> \<not> (\<forall>i<131. reads rf_target s ob i)"
    using classify_valid[OF v n] m by (auto simp: is_original_def list_all_iff reads_holds)
  show "matches_target s ob \<longleftrightarrow> (\<forall>i<131. reads rf_target s ob i)"
    using validate_layout[OF v] n by (auto simp: matches_target_def list_ex_iff reads_holds)
qed

lemma granted_simps [simp]:
  "granted (rec_reject x) a ph e \<longleftrightarrow> a = RA_FailClosed \<and> ph = RP_Original \<and> e = 0 \<and> x = RE_None"
  "granted (rec_plan b q f) a ph e \<longleftrightarrow> a = b \<and> ph = q \<and> e = f"
  "granted (d\<lparr>rd_publish := y\<rparr>) a ph e \<longleftrightarrow> granted d a ph e" "rd_error (rec_reject x) = x"
  by (auto simp: granted_def rec_reject_def rec_plan_def rec_decision0_def)

text \<open>C28: Every plan of the recovery is granted exactly under its conditions, for all snapshots, contexts, reads and proofs.
  With an admissible reading (a valid snapshot, authenticated, every field at its original or its target bytes): the boot
  inspection answers normal operation, and publishes telemetry, only in phase Original, with every field at its original
  bytes, sealed and out of configuration mode, and asks for a restore in any other phase or image; the target is written
  only from there with a complete durability proof for the next epoch; a restore needs only that proof; its end, phase
  Restoring and every field original, the end of an apply, phase Pending and every field at its target, each sealed, out of
  configuration mode and proved. A mixed image leads to a restore. Each grant names the phase and the epoch to store, every
  other answer fails closed, and no plan authorizes parameter writes.\<close>

theorem recovery_plans_exact:
  fixes s :: rec_snapshot and c :: rec_context and ob :: rec_observation and p :: durable_proof and e :: u64
  defines "ok \<equiv> admissible s c ob" and "quiet \<equiv> ro_sealed ob \<and> ro_cfg0 ob" and "proved \<equiv> attested s p e"
    and "original \<equiv> \<forall>i<131. reads rf_original s ob i" and "target \<equiv> \<forall>i<131. reads rf_target s ob i"
  shows "(granted (rec_startup s c ob) RA_OriginalNoWrite RP_Original (rs_epoch s) \<longleftrightarrow>
      ok \<and> rs_phase s = RP_Original \<and> original \<and> quiet) \<and>
    (granted (rec_startup s c ob) RA_RestoreRequired RP_Restoring (rs_epoch s) \<longleftrightarrow> ok \<and> \<not> (rs_phase s = RP_Original \<and> original)) \<and>
    (rd_publish (rec_startup s c ob) \<longleftrightarrow> ok \<and> rs_phase s = RP_Original \<and> original \<and> quiet) \<and>
    (granted (rec_apply s c ob p e) RA_WriteReviewedTarget RP_Pending e \<longleftrightarrow>
      ok \<and> rs_phase s = RP_Original \<and> original \<and> quiet \<and> proved) \<and>
    (granted (rec_apply s c ob p e) RA_RestoreRequired RP_Restoring (rs_epoch s) \<longleftrightarrow> ok \<and> rs_phase s = RP_Original \<and> \<not> original) \<and>
    (granted (rec_restore s c ob p e) RA_RestoreOriginal RP_Restoring e \<longleftrightarrow> ok \<and> proved) \<and>
    (granted (rec_finish_restore s c ob p e) RA_MarkOriginal RP_Original e \<longleftrightarrow>
      ok \<and> rs_phase s = RP_Restoring \<and> original \<and> quiet \<and> proved) \<and>
    (granted (rec_finish_apply s c ob p e) RA_MarkApplied RP_Applied e \<longleftrightarrow>
      ok \<and> rs_phase s = RP_Pending \<and> target \<and> quiet \<and> proved) \<and>
    (granted (rec_finish_apply s c ob p e) RA_RestoreRequired RP_Restoring (rs_epoch s) \<longleftrightarrow>
      ok \<and> rs_phase s = RP_Pending \<and> \<not> original \<and> \<not> target) \<and>
    list_all (\<lambda>(d, rs). (rd_action d = RA_FailClosed \<and> rd_error d \<noteq> RE_None \<or> (\<exists>(a, ph, n) \<in> set rs. granted d a ph n)) \<and>
        \<not> rd_authorized d)
      [(rec_startup s c ob, [(RA_OriginalNoWrite, RP_Original, rs_epoch s), (RA_RestoreRequired, RP_Restoring, rs_epoch s)]),
       (rec_apply s c ob p e, [(RA_WriteReviewedTarget, RP_Pending, e), (RA_RestoreRequired, RP_Restoring, rs_epoch s)]),
       (rec_restore s c ob p e, [(RA_RestoreOriginal, RP_Restoring, e)]),
       (rec_finish_restore s c ob p e, [(RA_MarkOriginal, RP_Original, e)]),
       (rec_finish_apply s c ob p e, [(RA_MarkApplied, RP_Applied, e), (RA_RestoreRequired, RP_Restoring, rs_epoch s)])] \<and>
    list_all (\<lambda>d. \<not> rd_publish d)
      [rec_apply s c ob p e, rec_restore s c ob p e, rec_finish_restore s c ob p e, rec_finish_apply s c ob p e]"
proof (cases ok)
  case False
  then have "checked_image s c ob \<noteq> RE_None" by (simp add: ok_def admissible_iff)
  then show ?thesis using False
    by (simp add: rec_startup_def rec_apply_def rec_restore_def rec_finish_restore_def rec_finish_apply_def Let_def)
next
  case True
  then have a: "admissible s c ob" and k: "checked_image s c ob = RE_None" by (simp_all add: ok_def admissible_iff)
  note img = admissible_image[OF a, folded original_def target_def]
  have pr: "proved \<longleftrightarrow> advancing (rs_epoch s) e \<and> durable s p e" by (simp add: proved_def attested_iff)
  show ?thesis
    unfolding quiet_def pr list.pred_inject prod.case
    by (intro conjI)
      (simp_all add: rec_startup_def rec_apply_def rec_restore_def rec_finish_restore_def rec_finish_apply_def k img True, blast+)
qed

text \<open>A call with sound attestations, on an authenticated and quiet gauge.\<close>

definition sound_event :: "rec_call \<Rightarrow> rec_snapshot \<Rightarrow> u64 \<Rightarrow> rec_event" where
  "sound_event call s e =
     \<lparr>rv_call = call,
      rv_proof = \<lparr>dp_original = True, dp_original_readback = True, dp_pending = True, dp_pending_readback = True,
        dp_journal_crc = True, dp_generation = rs_generation s, dp_epoch = e\<rparr>,
      rv_epoch = e, rv_written = (\<lambda>_. True), rv_authenticated = True, rv_sealed = True, rv_cfg0 = True\<rparr>"

lemma sound_event_simps [simp]:
  "rv_call (sound_event call s e) = call" "rv_epoch (sound_event call s e) = e"
  "rv_written (sound_event call s e) = (\<lambda>_. True)" "rv_authenticated (sound_event call s e)"
  "rv_sealed (sound_event call s e)" "rv_cfg0 (sound_event call s e)"
  "durable s (rv_proof (sound_event call s e)) e"
  by (simp_all add: sound_event_def durable_def)

lemma sound_restore:
  assumes "rec_inv c w" "advancing (rs_epoch (rw_snap w)) e"
  shows "rec_world_step c w (sound_event RV_Restore (rw_snap w) e) =
    \<lparr>rw_snap = (rw_snap w)\<lparr>rs_phase := RP_Restoring, rs_epoch := e\<rparr>,
     rw_raw = write_fields rf_original (\<lambda>_. True) (rw_snap w) (rw_raw w)\<rparr>"
proof -
  have "checked_image (rw_snap w) c (observe (sound_event RV_Restore (rw_snap w) e) w) = RE_None"
    using assms(1) checked_image_iff[of "rw_snap w" c] by (simp add: rec_inv_def)
  then have "rec_decide c w (sound_event RV_Restore (rw_snap w) e) = rec_plan RA_RestoreOriginal RP_Restoring e"
    using assms(2) by (simp add: rec_decide_def rec_restore_def)
  then show ?thesis by (simp add: rec_world_step_def Let_def)
qed

lemma sound_finish:
  assumes "rec_inv c w" "advancing (rs_epoch (rw_snap w)) e" "rs_phase (rw_snap w) = RP_Restoring"
    "is_original (rw_snap w) (rw_raw w)"
  shows "rec_world_step c w (sound_event RV_FinishRestore (rw_snap w) e) =
    \<lparr>rw_snap = (rw_snap w)\<lparr>rs_phase := RP_Original, rs_epoch := e\<rparr>, rw_raw = rw_raw w\<rparr>"
proof -
  let ?ob = "observe (sound_event RV_FinishRestore (rw_snap w) e) w"
  have v: "rec_validate (rw_snap w) c = RE_None" using assms(1) by (simp add: rec_inv_def)
  have "checked_image (rw_snap w) c ?ob = RE_None"
    using assms(1) checked_image_iff[OF v] by (simp add: rec_inv_def)
  moreover have "rec_classify (rw_snap w) ?ob = RI_Original"
    using classify_valid[OF v, of ?ob] assms(4) original_mixture by simp
  ultimately have "rec_decide c w (sound_event RV_FinishRestore (rw_snap w) e) = rec_plan RA_MarkOriginal RP_Original e"
    using assms(2,3) by (simp add: rec_decide_def rec_finish_restore_def)
  then show ?thesis by (simp add: rec_world_step_def Let_def)
qed

text \<open>C29: The way back is always open: after any sequence of calls and interruptions, as long as two epochs are left, a
  restore followed by its completion brings the device and the stored phase back to the original, and the next boot
  inspection then answers normal operation.\<close>

theorem recovery_always_possible:
  assumes "rec_validate s c = RE_None" "is_original s raw" "w = foldl (rec_world_step c) (world_at s raw) es"
    "rs_epoch (rw_snap w) < 0xfffffffffffffffe"
  shows "\<exists>restore finish. rv_call restore = RV_Restore \<and> rv_call finish = RV_FinishRestore \<and>
    (let v = foldl (rec_world_step c) w [restore, finish] in
     rs_phase (rw_snap v) = RP_Original \<and> is_original (rw_snap v) (rw_raw v) \<and>
     rd_action (rec_startup (rw_snap v) c (observe finish v)) = RA_OriginalNoWrite)"
proof -
  let ?e = "rs_epoch (rw_snap w)"
  let ?r = "sound_event RV_Restore (rw_snap w) (?e + 1)"
  let ?u = "rec_world_step c w ?r"
  let ?f = "sound_event RV_FinishRestore (rw_snap ?u) (?e + 2)"
  have i: "rec_inv c w" using rec_inv_run[OF assms(1,2)] assms(3) by blast
  then have v: "rec_validate (rw_snap w) c = RE_None" by (simp add: rec_inv_def)
  note lay = validate_layout(3)[OF v]
  have u: "unat (?e + 1) = unat ?e + 1" "unat (?e + 2) = unat ?e + 2"
    using assms(4) by (simp_all add: word_nat_simps)
  have adv: "advancing ?e (?e + 1)" "advancing (?e + 1) (?e + 2)"
    using assms(4) u by (auto simp: advancing_def word_less_nat_alt word_unat_eq_iff)
  note step1 = sound_restore[OF i adv(1)]
  have iu: "rec_inv c ?u" by (rule rec_inv_step[OF i])
  have "advancing (rs_epoch (rw_snap ?u)) (?e + 2)" "rs_phase (rw_snap ?u) = RP_Restoring"
    "is_original (rw_snap ?u) (rw_raw ?u)"
    unfolding step1 using adv(2) write_all_original[OF lay] by simp_all
  note step2 = sound_finish[OF iu this]
  have iv: "rec_inv c (rec_world_step c ?u ?f)" by (rule rec_inv_step[OF iu])
  have ph: "rs_phase (rw_snap (rec_world_step c ?u ?f)) = RP_Original" unfolding step2 by simp
  have "is_original (rw_snap (rec_world_step c ?u ?f)) (rw_raw (rec_world_step c ?u ?f))"
    using iv ph by (simp add: rec_inv_def)
  moreover have "rd_action (rec_startup (rw_snap (rec_world_step c ?u ?f)) c (observe ?f (rec_world_step c ?u ?f))) = RA_OriginalNoWrite"
    using startup_decision(1)[OF iv, of ?f] ph by simp
  ultimately show ?thesis using ph by (intro exI[of _ ?r] exI[of _ ?f]) (simp add: Let_def)
qed

section \<open>A snapshot\<close>

definition sample_snapshot :: rec_snapshot where
  "sample_snapshot =
     \<lparr>rs_identity = \<lparr>ri_device = 0x0220, ri_firmware = 3, ri_build = 4\<rparr>, rs_binding = replicate 32 1,
      rs_layout = LI_Public131V1, rs_generation = 1, rs_scale = 1, rs_epoch = 0, rs_phase = RP_Original, rs_count = 131,
      rs_fields = map (\<lambda>f. \<lparr>rf_address = lf_address f, rf_width = lf_width f, rf_original = [0, 0, 0, 0],
        rf_target = [1, 0, 0, 0]\<rparr>) public_layout\<rparr>"

definition sample_context :: rec_context where
  "sample_context =
     \<lparr>rc_identity = \<lparr>ri_device = 0x0220, ri_firmware = 3, ri_build = 4\<rparr>, rc_binding = replicate 32 1,
      rc_layout = LI_Public131V1, rc_source_crc = True, rc_reviewed_target = True\<rparr>"

definition sample_device :: "bytes list" where "sample_device = replicate 131 [0, 0, 0, 0]"

lemma sample_field:
  "i < 131 \<Longrightarrow> rs_fields sample_snapshot ! i =
     \<lparr>rf_address = lf_address (public_layout ! i), rf_width = lf_width (public_layout ! i), rf_original = [0, 0, 0, 0],
      rf_target = [1, 0, 0, 0]\<rparr>"
  using public_layout_facts(3) by (simp add: sample_snapshot_def)

lemma sample_width: "i < 131 \<Longrightarrow> lf_width (public_layout ! i) \<in> {1, 2, 4}"
  using public_layout_facts(3,4) by (auto simp: list_all_length)

lemma zero_tail: "1 \<le> w \<Longrightarrow> w \<le> j \<Longrightarrow> j < 4 \<Longrightarrow> [1, 0, 0, 0] ! j = (0 :: u8) \<and> [0, 0, 0, 0] ! j = (0 :: u8)"
  by (cases j) (auto simp: less_Suc_eq numeral_eq_Suc)

lemma sample_valid: "rec_validate sample_snapshot sample_context = RE_None"
proof -
  have "rf_original (rs_fields sample_snapshot ! i) ! j = 0 \<and> rf_target (rs_fields sample_snapshot ! i) ! j = 0"
    if "i < 131" "rf_width (rs_fields sample_snapshot ! i) \<le> j" "j < 4" for i j
    using zero_tail[of "lf_width (public_layout ! i)" j] sample_width[OF that(1)] that(2,3)
    unfolding sample_field[OF that(1)] by auto
  moreover have "on_layout sample_snapshot i" if "i < 131" for i
    by (simp add: on_layout_def sample_field[OF that])
  ultimately have bad: "\<not> list_ex (\<lambda>i. \<not> on_layout sample_snapshot i \<or>
      list_ex (\<lambda>j. rf_original (rs_fields sample_snapshot ! i) ! j \<noteq> 0 \<or> rf_target (rs_fields sample_snapshot ! i) ! j \<noteq> 0)
        [rf_width (rs_fields sample_snapshot ! i)..<4]) [0..<131]"
    by (simp only: list_ex_iff set_upt) (auto simp only: atLeastLessThan_iff)
  have "known_identity (rs_identity sample_snapshot)" "known_identity (rc_identity sample_context)"
    "rec_same_identity (rs_identity sample_snapshot) (rc_identity sample_context)"
    "rec_nonzero (rs_binding sample_snapshot)" "rec_nonzero (rc_binding sample_context)"
    "rec_same_binding (rs_binding sample_snapshot) (rc_binding sample_context)"
    "rs_layout sample_snapshot = LI_Public131V1" "rc_layout sample_context = LI_Public131V1"
    "rs_generation sample_snapshot = 1" "rs_count sample_snapshot = 131" "valid_phase (rs_phase sample_snapshot)"
    "rs_scale sample_snapshot = 1" "rc_source_crc sample_context" "rc_reviewed_target sample_context"
    by (simp_all add: sample_snapshot_def sample_context_def known_identity_def rec_same_identity_def rec_nonzero_def
        rec_same_binding_def valid_phase_def list_ex_iff)
  then show ?thesis using bad by (simp add: rec_validate_def)
qed

lemma sample_original: "is_original sample_snapshot sample_device"
proof -
  have "sample_device ! i = [0, 0, 0, 0]" if "i < 131" for i using that by (simp add: sample_device_def)
  then show ?thesis by (simp add: is_original_def holds_original_def list_all_iff sample_field)
qed

lemma sample_epoch: "rs_epoch sample_snapshot = 0" by (simp add: sample_snapshot_def)

definition sample_apply :: rec_event where
  "sample_apply = sound_event RV_Apply sample_snapshot 1"

lemma sample_apply_phase:
  "rs_phase (rw_snap (rec_world_step sample_context (world_at sample_snapshot sample_device) sample_apply)) = RP_Pending"
  "rs_epoch (rw_snap (rec_world_step sample_context (world_at sample_snapshot sample_device) sample_apply)) = 1"
proof -
  let ?w = "world_at sample_snapshot sample_device"
  have sel: "rw_snap ?w = sample_snapshot" "rw_raw ?w = sample_device" by (simp_all add: world_at_def)
  let ?ob = "observe sample_apply ?w"
  have "rec_classify sample_snapshot ?ob = RI_Original"
    using classify_valid[OF sample_valid, of ?ob] sample_original original_mixture by (simp add: sel)
  moreover have "checked_image sample_snapshot sample_context ?ob = RE_None"
    using checked_image_iff[OF sample_valid, of ?ob] sample_original original_mixture by (simp add: sel sample_apply_def)
  moreover have "rs_phase sample_snapshot = RP_Original" by (simp add: sample_snapshot_def)
  moreover have "advancing 0 1" by (simp add: advancing_def)
  ultimately have "rec_decide sample_context ?w sample_apply = rec_plan RA_WriteReviewedTarget RP_Pending 1"
    unfolding rec_decide_def rec_apply_def sel by (simp add: sample_apply_def sample_epoch Let_def)
  then show "rs_phase (rw_snap (rec_world_step sample_context ?w sample_apply)) = RP_Pending"
    "rs_epoch (rw_snap (rec_world_step sample_context ?w sample_apply)) = 1"
    by (simp_all add: rec_world_step_def Let_def)
qed

text \<open>A device at its original image: the write is granted with a complete proof, and not when one record was not read back.\<close>

theorem recovery_plans_exact_witness:
  "let ob = observe sample_apply (world_at sample_snapshot sample_device); p = rv_proof sample_apply in
   granted (rec_apply sample_snapshot sample_context ob p 1) RA_WriteReviewedTarget RP_Pending 1 \<and>
   \<not> granted (rec_apply sample_snapshot sample_context ob (p\<lparr>dp_pending_readback := False\<rparr>) 1) RA_WriteReviewedTarget RP_Pending 1 \<and>
   granted (rec_restore sample_snapshot sample_context ob p 1) RA_RestoreOriginal RP_Restoring 1 \<and>
   granted (rec_startup sample_snapshot sample_context ob) RA_OriginalNoWrite RP_Original 0 \<and>
   \<not> granted (rec_finish_apply sample_snapshot sample_context ob p 1) RA_MarkApplied RP_Applied 1"
proof -
  define ob where "ob = observe sample_apply (world_at sample_snapshot sample_device)"
  define p where "p = rv_proof sample_apply"
  have raw: "ro_raw ob = sample_device" by (simp add: ob_def world_at_def)
  have o: "\<forall>i<131. reads rf_original sample_snapshot ob i"
    using sample_original reads_holds(1)[of sample_snapshot ob] by (auto simp: is_original_def list_all_iff raw)
  have ok: "admissible sample_snapshot sample_context ob"
    using sample_valid o by (simp add: admissible_def well_formed_iff ob_def) (simp add: sample_apply_def)
  have q: "ro_sealed ob \<and> ro_cfg0 ob" by (simp add: ob_def sample_apply_def)
  have p: "attested sample_snapshot p 1" "\<not> attested sample_snapshot (p\<lparr>dp_pending_readback := False\<rparr>) 1"
    by (simp_all add: attested_def p_def sample_apply_def sound_event_def sample_epoch)
  have ph: "rs_phase sample_snapshot = RP_Original" by (simp add: sample_snapshot_def)
  note x = recovery_plans_exact[of sample_snapshot sample_context ob]
  have "granted (rec_apply sample_snapshot sample_context ob p 1) RA_WriteReviewedTarget RP_Pending 1"
    "granted (rec_restore sample_snapshot sample_context ob p 1) RA_RestoreOriginal RP_Restoring 1"
    "granted (rec_startup sample_snapshot sample_context ob) RA_OriginalNoWrite RP_Original 0"
    "\<not> granted (rec_finish_apply sample_snapshot sample_context ob p 1) RA_MarkApplied RP_Applied 1"
    using x[of p 1] o ok q p(1) ph sample_epoch by simp_all
  moreover have "\<not> granted (rec_apply sample_snapshot sample_context ob (p\<lparr>dp_pending_readback := False\<rparr>) 1) RA_WriteReviewedTarget RP_Pending 1"
    using x[of "p\<lparr>dp_pending_readback := False\<rparr>" 1] p(2) by blast
  ultimately show ?thesis by (simp add: Let_def ob_def p_def)
qed

theorem recovery_always_possible_witness:
  "let w = foldl (rec_world_step sample_context) (world_at sample_snapshot sample_device) [sample_apply] in
   rs_phase (rw_snap w) = RP_Pending \<and>
   (\<exists>restore finish. rs_phase (rw_snap (foldl (rec_world_step sample_context) w [restore, finish])) = RP_Original)"
proof -
  let ?w = "foldl (rec_world_step sample_context) (world_at sample_snapshot sample_device) [sample_apply]"
  have "rs_epoch (rw_snap ?w) < 0xfffffffffffffffe" using sample_apply_phase(2) by simp
  from recovery_always_possible[OF sample_valid sample_original refl this] sample_apply_phase(1)
  show ?thesis by (auto simp: Let_def)
qed

end
