(* ===== verification/Gauge_Audit.thy ===== *)
theory Gauge_Audit
  imports Gauge_Fields
begin

unbundle bit_operations_syntax

text \<open>
  The journal and the coordinator of the threshold audit
  (\<open>main/hal/mosaico/mosaico_threshold_audit_model.h\<close>, from \<open>State\<close> on): the one attempt per boot that opens the
  gauge, reads the thresholds and closes it again, with an intent written before each access. The backend is a
  template argument of the code and a parameter here; its calls are recorded by a wrapper, so that the order of
  journal writes and accesses can be stated for any backend.
\<close>

section \<open>The journal\<close>

text \<open>The state of a stored journal is a byte; \<open>shape\<close> checks it.\<close>

definition aud_pending :: u8 where "aud_pending = 1"
definition aud_completed :: u8 where "aud_completed = 2"
definition aud_failed :: u8 where "aud_failed = 3"

lemmas aud_states = aud_pending_def aud_completed_def aud_failed_def

definition unseal_intent :: u16 where "unseal_intent = 1"
definition full_intent :: u16 where "full_intent = 2"
definition seal_intent :: u16 where "seal_intent = 4"
definition unseal_verified :: u16 where "unseal_verified = 8"
definition full_verified :: u16 where "full_verified = 16"
definition read_verified :: u16 where "read_verified = 32"
definition close_verified :: u16 where "close_verified = 64"

lemmas audit_flags = unseal_intent_def full_intent_def seal_intent_def unseal_verified_def full_verified_def
  read_verified_def close_verified_def

datatype audit_load = AL_Absent | AL_Present | AL_Invalid

record audit_journal =
  adj_schema :: u8
  adj_state :: u8
  adj_flags :: u16
  adj_generation :: u32
  adj_mac :: bytes
  adj_count :: u8
  adj_crc :: u32

definition audit_journal0 :: audit_journal where
  "audit_journal0 = \<lparr>adj_schema = 2, adj_state = aud_pending, adj_flags = 0, adj_generation = 0,
     adj_mac = replicate 6 0, adj_count = 0, adj_crc = 0\<rparr>"

definition journal_field_count :: "audit_journal \<Rightarrow> nat" where
  "journal_field_count j = (if adj_schema j = 1 then 26 else 59)"

definition audit_shape :: "audit_journal \<Rightarrow> bool" where
  "audit_shape j \<longleftrightarrow>
     (adj_schema j = 1 \<or> adj_schema j = 2) \<and> adj_state j \<ge> 1 \<and> adj_state j \<le> 3 \<and> adj_flags j AND NOT 127 = 0 \<and>
     adj_generation j \<noteq> 0 \<and> unat (adj_count j) \<le> journal_field_count j \<and>
     (adj_state j \<noteq> aud_completed \<or> (adj_flags j = 127 \<and> unat (adj_count j) = journal_field_count j))"

definition audit_image :: "audit_journal \<Rightarrow> bytes" where
  "audit_image j =
     (let r = (replicate 48 0)[0 := 0x54, 1 := 0x48, 2 := 0x41, 3 := 0x31, 4 := adj_schema j, 5 := adj_state j];
          r = put_bytes (put_le (put_le r 6 (adj_flags j) 2) 8 (adj_generation j) 4) 12 (adj_mac j);
          r = r[18 := 0x20, 19 := 2, 20 := 1, 21 := adj_count j]
      in seal (put_le r 24 (adj_crc j) 4) 44)"

definition audit_encode :: "audit_journal \<Rightarrow> bytes option" where
  "audit_encode j = (if \<not> audit_shape j then None else Some (audit_image j))"

definition audit_decode :: "bytes \<Rightarrow> bytes \<Rightarrow> audit_journal option" where
  "audit_decode r mac =
     (if r ! 0 \<noteq> 0x54 \<or> r ! 1 \<noteq> 0x48 \<or> r ! 2 \<noteq> 0x41 \<or> r ! 3 \<noteq> 0x31 \<or> (r ! 4 \<noteq> 1 \<and> r ! 4 \<noteq> 2) \<or> r ! 18 \<noteq> 0x20 \<or>
         r ! 19 \<noteq> 2 \<or> r ! 20 \<noteq> 1 \<or> r ! 22 \<noteq> 0 \<or> r ! 23 \<noteq> 0 \<or> \<not> sealed r 44 then None
      else if \<not> zeros r 28 44 then None
      else if list_ex (\<lambda>i. mac ! i \<noteq> r ! (12 + i)) [0..<6] then None
      else
        let v = \<lparr>adj_schema = r ! 4, adj_state = r ! 5, adj_flags = get_le r 6 2, adj_generation = get_le r 8 4,
          adj_mac = get_bytes r 12 6, adj_count = r ! 21, adj_crc = get_le r 24 4\<rparr> in
        if \<not> audit_shape v then None else Some v)"

definition record_equal :: "bytes \<Rightarrow> bytes \<Rightarrow> bool" where
  "record_equal a b \<longleftrightarrow> \<not> list_ex (\<lambda>i. a ! i \<noteq> b ! i) [0..<48]"

lemma audit_decode_image:
  assumes "audit_shape j" "length (adj_mac j) = 6"
  shows "audit_decode (audit_image j) (adj_mac j) = Some j"
proof -
  let ?r0 = "(replicate 48 0)[0 := 0x54, 1 := 0x48, 2 := 0x41, 3 := 0x31, 4 := adj_schema j, 5 := adj_state j]"
  let ?r1 = "put_bytes (put_le (put_le ?r0 6 (adj_flags j) 2) 8 (adj_generation j) 4) 12 (adj_mac j)"
  let ?r2 = "?r1[18 := 0x20, 19 := 2, 20 := 1, 21 := adj_count j]"
  let ?r = "seal (put_le ?r2 24 (adj_crc j) 4) 44"
  have e: "audit_image j = ?r" by (simp add: audit_image_def)
  have g: "get_le ?r 6 2 = adj_flags j" "get_le ?r 8 4 = adj_generation j" "get_le ?r 24 4 = adj_crc j"
    "get_bytes ?r 12 6 = adj_mac j"
    using assms(2) by (simp_all add: codec_simps del: get_le.simps)
  have b: "?r ! 0 = 0x54" "?r ! 1 = 0x48" "?r ! 2 = 0x41" "?r ! 3 = 0x31" "?r ! 4 = adj_schema j" "?r ! 5 = adj_state j"
    "?r ! 18 = 0x20" "?r ! 19 = 2" "?r ! 20 = 1" "?r ! 21 = adj_count j" "?r ! 22 = 0" "?r ! 23 = 0"
    using assms(2) by (simp_all add: nth_seal nth_put_le_other nth_put_bytes_other)
  have "zeros ?r 28 44"
    using assms(2) by (auto simp: zeros_iff nth_seal nth_put_le_other nth_put_bytes_other)
  moreover have "\<not> list_ex (\<lambda>i. adj_mac j ! i \<noteq> ?r ! (12 + i)) [0..<6]"
    by (subst list_ex_iff) (metis (no_types, lifting) g(4) nth_get_bytes atLeastLessThan_iff set_upt)
  moreover have "sealed ?r 44" by (simp add: sealed_seal)
  moreover have eta: "\<lparr>adj_schema = adj_schema j, adj_state = adj_state j, adj_flags = adj_flags j,
      adj_generation = adj_generation j, adj_mac = adj_mac j, adj_count = adj_count j, adj_crc = adj_crc j\<rparr> = j"
    by (cases j) simp
  moreover have "adj_schema j = 1 \<or> adj_schema j = 2" using assms(1) by (simp add: audit_shape_def)
  ultimately show ?thesis using assms(1) unfolding e audit_decode_def b g Let_def eta by simp
qed

interpretation audit_codec: sealed_codec 44 "\<lambda>r. audit_decode r mac" audit_image
  "\<lambda>j. audit_shape j \<and> adj_mac j = mac \<and> length mac = 6" for mac
proof
  show "audit_decode b mac = Some m \<Longrightarrow> sealed b 44" for b m
    by (auto simp: audit_decode_def split: if_splits)
  show "length (audit_image m) = 44 + 4" for m by (simp add: audit_image_def Let_def)
  show "audit_shape m \<and> adj_mac m = mac \<and> length mac = 6 \<Longrightarrow> audit_decode (audit_image m) mac = Some m" for m
    using audit_decode_image[of m] by auto
qed

section \<open>The coordinator\<close>

record 's audit_backend =
  ab_load :: "'s \<Rightarrow> (audit_load \<times> audit_journal) \<times> 's"
  ab_was_attempted :: "'s \<Rightarrow> bool \<times> 's"
  ab_preflight :: "'s \<Rightarrow> (bool \<times> bytes) \<times> 's"
  ab_claim :: "'s \<Rightarrow> bool \<times> 's"
  ab_save :: "audit_journal \<Rightarrow> 's \<Rightarrow> bool \<times> 's"
  ab_unseal :: "'s \<Rightarrow> bool \<times> 's"
  ab_full :: "'s \<Rightarrow> bool \<times> 's"
  ab_read :: "'s \<Rightarrow> bool \<times> 's"
  ab_crc :: "'s \<Rightarrow> u32 \<times> 's"
  ab_close :: "'s \<Rightarrow> bool \<times> 's"

record audit_result =
  ar_success :: bool
  ar_attempted :: bool
  ar_readable :: bool
  ar_closed :: bool
  ar_journal :: audit_journal

definition audit_result0 :: audit_result where
  "audit_result0 = \<lparr>ar_success = False, ar_attempted = False, ar_readable = False, ar_closed = False,
     ar_journal = audit_journal0\<rparr>"

text \<open>\<open>j.flags |= flags; ok = save() && access()\<close>, skipped when \<open>ok\<close> is false already.\<close>

definition audit_access ::
  "'s audit_backend \<Rightarrow> ('s \<Rightarrow> bool \<times> 's) \<Rightarrow> u16 \<Rightarrow> bool \<times> audit_journal \<times> 's \<Rightarrow> bool \<times> audit_journal \<times> 's" where
  "audit_access b access flags x =
     (case x of (ok, j, s) \<Rightarrow>
        if \<not> ok then (False, j, s)
        else
          let j = j\<lparr>adj_flags := adj_flags j OR flags\<rparr> in
          (case ab_save b j s of
             (False, s) \<Rightarrow> (False, j, s)
           | (True, s) \<Rightarrow> (case access s of (ok, s) \<Rightarrow> (ok, j, s))))"

text \<open>From the mandatory cleanup on.\<close>

definition audit_cleanup :: "'s audit_backend \<Rightarrow> audit_result \<Rightarrow> bool \<Rightarrow> audit_journal \<Rightarrow> 's \<Rightarrow> audit_result \<times> 's" where
  "audit_cleanup b r ok j s =
     (let j = j\<lparr>adj_flags := adj_flags j OR seal_intent\<rparr> in
      case ab_save b j s of (closing, s) \<Rightarrow>
      case ab_close b s of (closed, s) \<Rightarrow>
      let j = (if closed then j\<lparr>adj_flags := adj_flags j OR close_verified\<rparr> else j);
          j = j\<lparr>adj_state := if ok \<and> closing \<and> closed then aud_completed else aud_failed\<rparr> in
      case ab_save b j s of (recorded, s) \<Rightarrow>
      (r\<lparr>ar_closed := closed, ar_success := adj_state j = aud_completed \<and> recorded, ar_journal := j\<rparr>, s))"

definition audit_attempt :: "'s audit_backend \<Rightarrow> audit_result \<Rightarrow> audit_journal \<Rightarrow> 's \<Rightarrow> audit_result \<times> 's" where
  "audit_attempt b r j s =
     (case ab_save b j s of
        (False, s) \<Rightarrow> (r\<lparr>ar_journal := j\<rparr>, s)
      | (True, s) \<Rightarrow>
          (case ab_unseal b s of (ok, s) \<Rightarrow>
           case audit_access b (ab_full b) (unseal_verified OR full_intent) (ok, j, s) of (ok, j, s) \<Rightarrow>
           case audit_access b (ab_read b) full_verified (ok, j, s) of (ok, j, s) \<Rightarrow>
           if ok then
             (case ab_crc b s of (crc, s) \<Rightarrow>
                audit_cleanup b (r\<lparr>ar_readable := True\<rparr>) ok
                  (j\<lparr>adj_flags := adj_flags j OR read_verified, adj_count := 59, adj_crc := crc\<rparr>) s)
           else audit_cleanup b r ok j s))"

definition audit_run :: "'s audit_backend \<Rightarrow> 's \<Rightarrow> audit_result \<times> 's" where
  "audit_run b s =
     (case ab_load b s of ((loaded, old), s) \<Rightarrow>
      case ab_was_attempted b s of (attempted, s) \<Rightarrow>
      if attempted \<or> loaded = AL_Invalid \<or> (loaded = AL_Present \<and> adj_state old \<noteq> aud_completed) \<or>
         (loaded = AL_Present \<and> adj_generation old = 0xffffffff) then (audit_result0, s)
      else
        (case ab_preflight b s of
           ((False, mac), s) \<Rightarrow> (audit_result0, s)
         | ((True, mac), s) \<Rightarrow>
             (case ab_claim b s of
                (False, s) \<Rightarrow> (audit_result0, s)
              | (True, s) \<Rightarrow>
                  audit_attempt b (audit_result0\<lparr>ar_attempted := True\<rparr>)
                    (audit_journal0\<lparr>adj_mac := mac,
                       adj_generation := if loaded = AL_Present then adj_generation old + 1 else 1,
                       adj_flags := unseal_intent\<rparr>) s)))"

section \<open>The order of journal writes and accesses\<close>

datatype audit_event = AE_Claim bool | AE_Save audit_journal bool | AE_Unseal bool | AE_Full bool | AE_Read bool | AE_Close bool

fun event_ok :: "audit_event \<Rightarrow> bool" where
  "event_ok (AE_Claim ok) = ok"
| "event_ok (AE_Save j ok) = ok"
| "event_ok (AE_Unseal ok) = ok"
| "event_ok (AE_Full ok) = ok"
| "event_ok (AE_Read ok) = ok"
| "event_ok (AE_Close ok) = ok"

definition is_close :: "audit_event \<Rightarrow> bool" where "is_close e = (case e of AE_Close _ \<Rightarrow> True | _ \<Rightarrow> False)"
definition is_unseal :: "audit_event \<Rightarrow> bool" where "is_unseal e = (case e of AE_Unseal _ \<Rightarrow> True | _ \<Rightarrow> False)"

lemma event_kinds [simp]:
  "is_close (AE_Close c)" "\<not> is_close (AE_Claim c)" "\<not> is_close (AE_Save j c)" "\<not> is_close (AE_Unseal c)"
  "\<not> is_close (AE_Full c)" "\<not> is_close (AE_Read c)"
  "is_unseal (AE_Unseal c)" "\<not> is_unseal (AE_Claim c)" "\<not> is_unseal (AE_Save j c)" "\<not> is_unseal (AE_Close c)"
  "\<not> is_unseal (AE_Full c)" "\<not> is_unseal (AE_Read c)"
  by (simp_all add: is_close_def is_unseal_def)

text \<open>The event before an access: a successful journal write that announces it (for the close, an attempted one).\<close>

definition announced :: "u16 \<Rightarrow> audit_event \<Rightarrow> bool" where
  "announced flag e = (case e of AE_Save j ok \<Rightarrow> ok \<and> adj_flags j AND flag = flag | _ \<Rightarrow> False)"

definition follows :: "audit_event \<Rightarrow> audit_event \<Rightarrow> bool" where
  "follows e x = (case x of
      AE_Unseal _ \<Rightarrow> announced unseal_intent e
    | AE_Full _ \<Rightarrow> announced full_intent e
    | AE_Read _ \<Rightarrow> announced full_verified e
    | AE_Close _ \<Rightarrow> (case e of AE_Save j _ \<Rightarrow> adj_flags j AND seal_intent = seal_intent | _ \<Rightarrow> False)
    | _ \<Rightarrow> True)"

definition note_event :: "(bool \<Rightarrow> audit_event) \<Rightarrow> ('s \<Rightarrow> bool \<times> 's) \<Rightarrow> 's \<times> audit_event list \<Rightarrow> bool \<times> 's \<times> audit_event list" where
  "note_event ev f x = (case f (fst x) of (ok, s) \<Rightarrow> (ok, s, snd x @ [ev ok]))"

definition silent :: "('s \<Rightarrow> 'a \<times> 's) \<Rightarrow> 's \<times> audit_event list \<Rightarrow> 'a \<times> 's \<times> audit_event list" where
  "silent f x = (case f (fst x) of (a, s) \<Rightarrow> (a, s, snd x))"

definition recorded :: "'s audit_backend \<Rightarrow> ('s \<times> audit_event list) audit_backend" where
  "recorded b =
     \<lparr>ab_load = silent (ab_load b), ab_was_attempted = silent (ab_was_attempted b),
      ab_preflight = silent (ab_preflight b), ab_claim = note_event AE_Claim (ab_claim b),
      ab_save = (\<lambda>j. note_event (AE_Save j) (ab_save b j)), ab_unseal = note_event AE_Unseal (ab_unseal b),
      ab_full = note_event AE_Full (ab_full b), ab_read = note_event AE_Read (ab_read b),
      ab_crc = silent (ab_crc b), ab_close = note_event AE_Close (ab_close b)\<rparr>"

lemma note_event_log: "note_event ev f (s, l) = (ok, s', l') \<Longrightarrow> l' = l @ [ev ok]"
  by (auto simp: note_event_def split: prod.splits)

lemma silent_log: "silent f (s, l) = (a, s', l') \<Longrightarrow> l' = l"
  by (auto simp: silent_def split: prod.splits)

lemma cleanup_log:
  assumes "audit_cleanup (recorded b) r ok j (s, l) = (r', s', l')"
  shows "\<exists>closing rec.
    l' = l @ [AE_Save (j\<lparr>adj_flags := adj_flags j OR seal_intent\<rparr>) closing, AE_Close (ar_closed r'), AE_Save (ar_journal r') rec] \<and>
    ar_success r' = (ok \<and> closing \<and> ar_closed r' \<and> rec) \<and>
    adj_state (ar_journal r') = (if ok \<and> closing \<and> ar_closed r' then aud_completed else aud_failed) \<and>
    (ar_closed r' \<longrightarrow> ar_journal r' = j\<lparr>adj_flags := (adj_flags j OR seal_intent) OR close_verified,
       adj_state := adj_state (ar_journal r')\<rparr>)"
proof -
  let ?k = "j\<lparr>adj_flags := adj_flags j OR seal_intent\<rparr>"
  obtain closing s1 l1 where 1: "note_event (AE_Save ?k) (ab_save b ?k) (s, l) = (closing, s1, l1)" by (metis prod.exhaust)
  obtain closed s2 l2 where 2: "note_event AE_Close (ab_close b) (s1, l1) = (closed, s2, l2)" by (metis prod.exhaust)
  define m where "m = (if closed then ?k\<lparr>adj_flags := adj_flags ?k OR close_verified\<rparr> else ?k)
      \<lparr>adj_state := if ok \<and> closing \<and> closed then aud_completed else aud_failed\<rparr>"
  obtain rec s3 l3 where 3: "note_event (AE_Save m) (ab_save b m) (s2, l2) = (rec, s3, l3)" by (metis prod.exhaust)
  have "r' = r\<lparr>ar_closed := closed, ar_success := adj_state m = aud_completed \<and> rec, ar_journal := m\<rparr>" "l' = l3"
    using assms 1 2 3 by (simp_all add: audit_cleanup_def recorded_def Let_def m_def)
  then show ?thesis using note_event_log[OF 1] note_event_log[OF 2] note_event_log[OF 3]
    by - (rule exI[of _ closing], rule exI[of _ rec], auto simp: m_def aud_states)
qed

lemma access_log:
  assumes "audit_access (recorded b) (note_event ev f) flags (ok, j, s, l) = (ok', j', s', l')"
  shows "if ok then j' = j\<lparr>adj_flags := adj_flags j OR flags\<rparr> \<and>
      (l' = l @ [AE_Save j' False] \<and> \<not> ok' \<or> l' = l @ [AE_Save j' True, ev ok'])
    else \<not> ok' \<and> j' = j \<and> l' = l"
  using assms
  by (auto simp: audit_access_def recorded_def Let_def split: prod.splits bool.splits if_splits dest!: note_event_log)

text \<open>The two accesses behind the unseal.\<close>

lemma accesses_log:
  assumes 3: "audit_access (recorded b) (note_event AE_Full f) (unseal_verified OR full_intent) (u, j, s2, l2) = (ok3, j3, s3, l3)"
    and 4: "audit_access (recorded b) (note_event AE_Read g) full_verified (ok3, j3, s3, l3) = (ok4, j4, s4, l4)"
    and j: "adj_flags j = unseal_intent"
  shows "\<exists>mid. l4 = l2 @ mid \<and> successively follows (AE_Unseal u # mid) \<and> \<not> list_ex is_close mid \<and>
    ok4 = (u \<and> list_all event_ok mid \<and> length mid = 4) \<and> (ok4 \<longrightarrow> j4 = j\<lparr>adj_flags := 27\<rparr>)"
proof (cases u)
  case False
  then show ?thesis using access_log[OF 3] access_log[OF 4] by simp
next
  case u: True
  have f3: "adj_flags j3 = 11" "j3 = j\<lparr>adj_flags := 11\<rparr>" using access_log[OF 3] u j by (simp_all add: audit_flags)
  note fol = follows_def announced_def audit_flags
  show ?thesis
  proof (cases ok3)
    case False
    then consider "l3 = l2 @ [AE_Save j3 False]" | "l3 = l2 @ [AE_Save j3 True, AE_Full False]"
      using access_log[OF 3] u by auto
    then show ?thesis
      using access_log[OF 4] False f3(1) by cases (simp_all add: fol)
  next
    case True
    then have l3: "l3 = l2 @ [AE_Save j3 True, AE_Full True]" using access_log[OF 3] u by auto
    have f4: "j4 = j\<lparr>adj_flags := 27\<rparr>" "adj_flags j4 = 27" using access_log[OF 4] True f3 by (simp_all add: audit_flags)
    consider "l4 = l3 @ [AE_Save j4 False]" "\<not> ok4" | "l4 = l3 @ [AE_Save j4 True, AE_Read ok4]"
      using access_log[OF 4] True by auto
    then show ?thesis using l3 f3(1) f4 u by cases (simp_all add: fol)
  qed
qed

text \<open>The whole attempt, event by event.\<close>

lemma attempt_log:
  assumes "audit_attempt (recorded b) r j (s, l) = (r', s', l')"
    and j: "adj_flags j = unseal_intent" "adj_schema j = 2" "adj_generation j \<noteq> 0" "adj_count j = 0"
    and r: "\<not> ar_success r" "\<not> ar_closed r"
  shows "(l' = l @ [AE_Save j False] \<and> \<not> ar_success r' \<and> \<not> ar_closed r') \<or>
    (\<exists>u mid k1 c1 rec. l' = l @ [AE_Save j True, AE_Unseal u] @ mid @ [AE_Save k1 c1, AE_Close (ar_closed r'), AE_Save (ar_journal r') rec] \<and>
      successively follows ([AE_Save j True, AE_Unseal u] @ mid @ [AE_Save k1 c1, AE_Close (ar_closed r'), AE_Save (ar_journal r') rec]) \<and>
      \<not> list_ex is_close mid \<and>
      ar_success r' = (u \<and> list_all event_ok mid \<and> length mid = 4 \<and> c1 \<and> ar_closed r' \<and> rec) \<and>
      (ar_success r' \<longrightarrow> audit_shape (ar_journal r')))"
proof -
  obtain sv s1 l1 where 1: "note_event (AE_Save j) (ab_save b j) (s, l) = (sv, s1, l1)" by (metis prod.exhaust)
  show ?thesis
  proof (cases sv)
    case False
    have "r' = r\<lparr>ar_journal := j\<rparr>" "l' = l1" using assms(1) 1 False by (simp_all add: audit_attempt_def recorded_def)
    then show ?thesis using note_event_log[OF 1] r False by simp
  next
    case True
    obtain u s2 l2 where 2: "note_event AE_Unseal (ab_unseal b) (s1, l1) = (u, s2, l2)" by (metis prod.exhaust)
    obtain ok3 j3 s3 l3 where 3: "audit_access (recorded b) (note_event AE_Full (ab_full b)) (unseal_verified OR full_intent)
        (u, j, s2, l2) = (ok3, j3, s3, l3)" by (metis prod.exhaust)
    obtain ok4 j4 s4 l4 where 4: "audit_access (recorded b) (note_event AE_Read (ab_read b)) full_verified
        (ok3, j3, s3, l3) = (ok4, j4, s4, l4)" by (metis prod.exhaust)
    obtain crc s5 where 5: "silent (ab_crc b) (s4, l4) = (crc, s5, l4)" by (metis prod.exhaust silent_log)
    let ?j5 = "if ok4 then j4\<lparr>adj_flags := adj_flags j4 OR read_verified, adj_count := 59, adj_crc := crc\<rparr> else j4"
    let ?r5 = "if ok4 then r\<lparr>ar_readable := True\<rparr> else r"
    obtain s6 where c: "audit_cleanup (recorded b) ?r5 ok4 ?j5 (s6, l4) = (r', s', l')"
      using assms(1) 1 2 3 4 5 True by (cases ok4) (auto simp: audit_attempt_def recorded_def)
    note log = note_event_log[OF 1] note_event_log[OF 2] access_log[OF 3] access_log[OF 4] cleanup_log[OF c]
    obtain mid where mid: "l4 = l2 @ mid" "successively follows (AE_Unseal u # mid)" "\<not> list_ex is_close mid"
      "ok4 = (u \<and> list_all event_ok mid \<and> length mid = 4)" "ok4 \<Longrightarrow> j4 = j\<lparr>adj_flags := 27\<rparr>"
      using accesses_log[OF 3 4 j(1)] by blast
    obtain closing rec where c': "l' = l4 @ [AE_Save (?j5\<lparr>adj_flags := adj_flags ?j5 OR seal_intent\<rparr>) closing,
        AE_Close (ar_closed r'), AE_Save (ar_journal r') rec]"
      "ar_success r' = (ok4 \<and> closing \<and> ar_closed r' \<and> rec)"
      "adj_state (ar_journal r') = (if ok4 \<and> closing \<and> ar_closed r' then aud_completed else aud_failed)"
      "ar_closed r' \<longrightarrow> ar_journal r' = ?j5\<lparr>adj_flags := (adj_flags ?j5 OR seal_intent) OR close_verified,
        adj_state := adj_state (ar_journal r')\<rparr>"
      using cleanup_log[OF c] by (elim exE conjE)
    let ?k = "?j5\<lparr>adj_flags := adj_flags ?j5 OR seal_intent\<rparr>"
    let ?tail = "[AE_Save ?k closing, AE_Close (ar_closed r'), AE_Save (ar_journal r') rec]"
    have l': "l' = l @ [AE_Save j True, AE_Unseal u] @ mid @ ?tail"
      using c'(1) mid(1) note_event_log[OF 1] note_event_log[OF 2] True by simp
    have tail: "successively follows ?tail"
      by (simp add: follows_def seal_intent_def word_ao_absorbs)
    have "follows (last (AE_Unseal u # mid)) (hd ?tail)" by (simp add: follows_def)
    then have "successively follows ((AE_Unseal u # mid) @ ?tail)"
      unfolding successively_append_iff using mid(2) tail by blast
    moreover have "follows (AE_Save j True) (AE_Unseal u)" using j(1) by (simp add: follows_def announced_def unseal_intent_def)
    ultimately have succ: "successively follows ([AE_Save j True, AE_Unseal u] @ mid @ ?tail)" by simp
    have shape: "audit_shape (ar_journal r')" if "ar_success r'"
    proof -
      have "ar_journal r' = j\<lparr>adj_flags := 127, adj_count := 59, adj_crc := crc, adj_state := aud_completed\<rparr>"
        using that c'(2-4) mid(5) by (auto simp: audit_flags)
      then show ?thesis using j by (simp add: audit_shape_def journal_field_count_def aud_states)
    qed
    have success: "ar_success r' = (u \<and> list_all event_ok mid \<and> length mid = 4 \<and> closing \<and> ar_closed r' \<and> rec)"
      using mid(4) c'(2) by blast
    show ?thesis
      by (rule disjI2, rule exI[of _ u], rule exI[of _ mid], rule exI[of _ ?k], rule exI[of _ closing], rule exI[of _ rec])
        (intro conjI l' succ mid(3) success impI shape; assumption)
  qed
qed

lemma audit_run_cases:
  assumes "audit_run (recorded b) (s, []) = (r, (s', log))"
  shows "r = audit_result0 \<and> (log = [] \<or> log = [AE_Claim False]) \<or>
    (\<exists>j s4. audit_attempt (recorded b) (audit_result0\<lparr>ar_attempted := True\<rparr>) j (s4, [AE_Claim True]) = (r, s', log) \<and>
       adj_flags j = unseal_intent \<and> adj_schema j = 2 \<and> adj_generation j \<noteq> 0 \<and> adj_count j = 0)"
proof -
  obtain loaded old s1 where 1: "silent (ab_load b) (s, []) = ((loaded, old), s1, [])"
    by (metis prod.exhaust silent_log)
  obtain att s2 where 2: "silent (ab_was_attempted b) (s1, []) = (att, s2, [])" by (metis prod.exhaust silent_log)
  obtain pre mac s3 where 3: "silent (ab_preflight b) (s2, []) = ((pre, mac), s3, [])" by (metis prod.exhaust silent_log)
  obtain cl s4 l4 where 4: "note_event AE_Claim (ab_claim b) (s3, []) = (cl, s4, l4)" by (metis prod.exhaust)
  let ?refuse = "att \<or> loaded = AL_Invalid \<or> (loaded = AL_Present \<and> adj_state old \<noteq> aud_completed) \<or>
         (loaded = AL_Present \<and> adj_generation old = 0xffffffff)"
  let ?j = "audit_journal0\<lparr>adj_mac := mac, adj_generation := if loaded = AL_Present then adj_generation old + 1 else 1,
      adj_flags := unseal_intent\<rparr>"
  have run: "(r, (s', log)) = (if ?refuse then (audit_result0, s2, []) else if \<not> pre then (audit_result0, s3, [])
      else if \<not> cl then (audit_result0, s4, l4)
      else audit_attempt (recorded b) (audit_result0\<lparr>ar_attempted := True\<rparr>) ?j (s4, l4))"
    using assms[symmetric] 1 2 3 4 by (cases pre; cases cl) (simp_all add: audit_run_def recorded_def)
  have l4: "l4 = [AE_Claim cl]" using note_event_log[OF 4] by simp
  show ?thesis
  proof (cases "?refuse \<or> \<not> pre \<or> \<not> cl")
    case True
    then have "r = audit_result0 \<and> (log = [] \<or> log = [AE_Claim False])" using run l4 by (auto split: if_splits)
    then show ?thesis by blast
  next
    case False
    then have att: "audit_attempt (recorded b) (audit_result0\<lparr>ar_attempted := True\<rparr>) ?j (s4, [AE_Claim True]) = (r, s', log)"
      using run l4 by auto
    have "adj_generation old + 1 \<noteq> 0" if "adj_generation old \<noteq> 0xffffffff"
    proof
      assume "adj_generation old + 1 = 0"
      then have "adj_generation old = - 1" by (simp add: eq_neg_iff_add_eq_0)
      then show False using that by simp
    qed
    then have gen: "adj_generation ?j \<noteq> 0" using False by auto
    have j: "adj_flags ?j = unseal_intent" "adj_schema ?j = 2" "adj_count ?j = 0" by (simp_all add: audit_journal0_def)
    show ?thesis using att gen j by blast
  qed
qed

text \<open>The audit attempt, for any backend. Recording the claim, the journal writes and the accesses: every access to
  the gauge comes directly after a successful journal write that announces it; the gauge is closed exactly when an unseal
  was attempted, whatever failed, once, directly after a journal write with the seal intent and directly before the final
  one, and the final journal and the answer of the close are what the result reports; and the audit succeeds exactly when
  all ten events of the complete run happened and succeeded, with a journal that can be stored.\<close>

theorem audit_run_closes:
  assumes "audit_run (recorded b) (s, []) = (r, (s', log))"
  shows "successively follows (AE_Claim False # log) \<and>
    list_ex is_unseal log = (\<exists>front k c rec. log = front @ [AE_Save k c, AE_Close (ar_closed r), AE_Save (ar_journal r) rec] \<and>
      \<not> list_ex is_close front) \<and>
    ar_success r = (list_all event_ok log \<and> length log = 10) \<and>
    (ar_success r \<longrightarrow> audit_shape (ar_journal r))"
proof -
  have res0: "\<not> ar_success audit_result0" "\<not> ar_closed audit_result0" by (simp_all add: audit_result0_def)
  then have res1: "\<not> ar_success (audit_result0\<lparr>ar_attempted := True\<rparr>)" "\<not> ar_closed (audit_result0\<lparr>ar_attempted := True\<rparr>)"
    by simp_all
  from audit_run_cases[OF assms] show ?thesis
  proof (elim disjE exE conjE)
    assume "r = audit_result0" "log = []"
    then show ?thesis using res0 by (simp add: follows_def)
  next
    assume "r = audit_result0" "log = [AE_Claim False]"
    then show ?thesis using res0 by (auto simp: follows_def)
  next
    fix j s4
    assume att: "audit_attempt (recorded b) (audit_result0\<lparr>ar_attempted := True\<rparr>) j (s4, [AE_Claim True]) = (r, s', log)"
      "adj_flags j = unseal_intent" "adj_schema j = 2" "adj_generation j \<noteq> 0" "adj_count j = 0"
    from attempt_log[OF att res1] consider
      (fail) "log = [AE_Claim True, AE_Save j False]" "\<not> ar_success r" "\<not> ar_closed r"
      | (full) u mid k1 c1 rec where
        "log = [AE_Claim True] @ [AE_Save j True, AE_Unseal u] @ mid @ [AE_Save k1 c1, AE_Close (ar_closed r), AE_Save (ar_journal r) rec]"
        "successively follows ([AE_Save j True, AE_Unseal u] @ mid @ [AE_Save k1 c1, AE_Close (ar_closed r), AE_Save (ar_journal r) rec])"
        "\<not> list_ex is_close mid"
        "ar_success r = (u \<and> list_all event_ok mid \<and> length mid = 4 \<and> c1 \<and> ar_closed r \<and> rec)"
        "ar_success r \<longrightarrow> audit_shape (ar_journal r)"
      by (elim disjE exE conjE) simp_all
    then show ?thesis
    proof cases
      case fail
      then show ?thesis by (auto simp: follows_def Cons_eq_append_conv)
    next
      case full
      let ?front = "[AE_Claim True, AE_Save j True, AE_Unseal u] @ mid"
      have "log = ?front @ [AE_Save k1 c1, AE_Close (ar_closed r), AE_Save (ar_journal r) rec]" using full(1) by simp
      moreover have "\<not> list_ex is_close ?front" using full(3) by simp
      moreover have "list_ex is_unseal log" using full(1) by simp
      moreover have "successively follows (AE_Claim False # log)" unfolding full(1) using full(2) by (simp add: follows_def)
      moreover have "ar_success r = (list_all event_ok log \<and> length log = 10)" unfolding full(4) using full(1) by auto
      ultimately show ?thesis using full(5) by blast
    qed
  qed
qed

text \<open>A backend that answers yes to everything, and one that cannot record the close intent.\<close>

definition willing_backend :: "unit audit_backend" where
  "willing_backend = \<lparr>ab_load = Pair (AL_Absent, audit_journal0), ab_was_attempted = Pair False,
     ab_preflight = Pair (True, [1, 2, 3, 4, 5, 6]), ab_claim = Pair True, ab_save = (\<lambda>_. Pair True), ab_unseal = Pair True,
     ab_full = Pair True, ab_read = Pair True, ab_crc = Pair 7, ab_close = Pair True\<rparr>"

lemma willing_run: "ar_success (fst (audit_run (recorded willing_backend) ((), [])))"
  by code_simp

theorem audit_run_closes_witness:
  "\<exists>r log. audit_run (recorded willing_backend) ((), []) = (r, ((), log)) \<and> length log = 10 \<and>
     list_all event_ok log \<and> audit_shape (ar_journal r)"
proof -
  obtain r u log where r: "audit_run (recorded willing_backend) ((), []) = (r, (u, log))" by (metis prod.exhaust)
  then have "ar_success r" using willing_run by simp
  then show ?thesis using audit_run_closes[OF r] r
    by - (rule exI[of _ r], rule exI[of _ log], simp)
qed

end
