(* ===== verification/Fcc_Limit.thy ===== *)
theory Fcc_Limit
  imports Gauge_Audit
begin

unbundle bit_operations_syntax

text \<open>
  The coordinator that sets the limit bit of the gauge configuration and the nominal capacities
  (\<open>main/hal/mosaico/mosaico_fcc_limit_repair_model.h\<close>). The backend is a template argument of the code and a
  parameter here. The coordinator journals an intent before each command, never repeats a key pair, rolls back to the
  journalled values inside the configuration mode it opened, and closes the access exactly once.
\<close>

section \<open>Data\<close>

datatype fcc_mode = FM_Runtime | FM_ColdFactory
datatype fcc_load = FL_Absent | FL_Present | FL_Invalid
datatype fcc_result = FR_Rejected | FR_Failed | FR_Verified
datatype fcc_state = FS_Pending | FS_Failed | FS_Verified

definition limit_bit :: u16 where "limit_bit = 0x0100"

definition fi_unseal :: u16 where "fi_unseal = 1"
definition fi_full :: u16 where "fi_full = 2"
definition fi_enter :: u16 where "fi_enter = 4"
definition fi_config :: u16 where "fi_config = 8"
definition fi_fcc :: u16 where "fi_fcc = 16"
definition fi_restore_config :: u16 where "fi_restore_config = 32"
definition fi_restore_fcc :: u16 where "fi_restore_fcc = 64"
definition fi_exit :: u16 where "fi_exit = 128"
definition fi_seal :: u16 where "fi_seal = 256"
definition fi_target_verified :: u16 where "fi_target_verified = 512"
definition fi_dc :: u16 where "fi_dc = 1024"
definition fi_restore_dc :: u16 where "fi_restore_dc = 2048"

lemmas fcc_intents = fi_unseal_def fi_full_def fi_enter_def fi_config_def fi_fcc_def fi_restore_config_def
  fi_restore_fcc_def fi_exit_def fi_seal_def fi_target_verified_def fi_dc_def fi_restore_dc_def

record fcc_identity =
  fid_mac :: bytes
  fid_device :: u16
  fid_nominal_proof :: bool
  fid_access_proof :: bool
  fid_cold_profile :: bool
  fid_cold_config :: u16

record fcc_quiet =
  fq_operation :: u16
  fq_soc :: u16
  fq_mv :: u16
  fq_dc :: u16
  fq_fcc :: u16
  fq_temperature :: int
  fq_current :: int
  fq_average :: int

record fcc_security =
  fsec_sec :: u8
  fsec_cfg :: bool
  fsec_cal :: bool
  fsec_initialized :: bool

record fcc_dm =
  dm_config :: u16
  dm_dc :: u16
  dm_fcc :: u16

definition same_dm :: "fcc_dm \<Rightarrow> fcc_dm \<Rightarrow> bool" where
  "same_dm a b \<longleftrightarrow> dm_config a = dm_config b \<and> dm_dc a = dm_dc b \<and> dm_fcc a = dm_fcc b"

record fcc_journal =
  fj_schema :: u16
  fj_state :: fcc_state
  fj_mac :: bytes
  fj_intents :: u16
  fj_backup :: bool
  fj_full_verified :: bool
  fj_before :: fcc_dm
  fj_target :: fcc_dm

definition zero_dm :: fcc_dm where "zero_dm = \<lparr>dm_config = 0, dm_dc = 0, dm_fcc = 0\<rparr>"

definition fcc_journal0 :: fcc_journal where
  "fcc_journal0 = \<lparr>fj_schema = 1, fj_state = FS_Pending, fj_mac = replicate 6 0, fj_intents = 0, fj_backup = False,
     fj_full_verified = False, fj_before = zero_dm, fj_target = zero_dm\<rparr>"

definition fcc_quiet_ok :: "fcc_quiet \<Rightarrow> bool" where
  "fcc_quiet_ok q \<longleftrightarrow>
     fq_soc q \<ge> 1 \<and> fq_soc q \<le> 100 \<and> fq_mv q \<ge> 4150 \<and> fq_mv q \<le> 4350 \<and>
     fq_temperature q \<ge> 2832 \<and> fq_temperature q \<le> 3181 \<and> fq_current q \<ge> -3 \<and> fq_current q \<le> 3 \<and>
     fq_average q \<ge> -3 \<and> fq_average q \<le> 3 \<and> fq_operation q AND 0x0401 = 0 \<and> fq_operation q AND 0x0020 \<noteq> 0 \<and>
     fq_dc q = 65 \<and> fq_fcc q = 100"

definition cold_quiet :: "fcc_quiet \<Rightarrow> bool" where
  "cold_quiet q \<longleftrightarrow>
     fq_mv q \<ge> 3500 \<and> fq_mv q \<le> 4350 \<and> fq_temperature q \<ge> 2832 \<and> fq_temperature q \<le> 3181 \<and>
     fq_current q \<ge> -130 \<and> fq_current q \<le> 130 \<and> fq_average q \<ge> -130 \<and> fq_average q \<le> 130 \<and>
     fq_operation q AND 0x0401 = 0 \<and> fq_operation q AND 0x0020 \<noteq> 0 \<and> fq_dc q = 3000 \<and> fq_fcc q = 3000"

definition normal_security :: "fcc_security \<Rightarrow> bool" where
  "normal_security s \<longleftrightarrow> fsec_initialized s \<and> \<not> fsec_cal s \<and> \<not> fsec_cfg s"

definition operation_sec :: "fcc_quiet \<Rightarrow> u16" where
  "operation_sec q = drop_bit 1 (fq_operation q) AND 3"

section \<open>The qualification of a quiet gauge\<close>

text \<open>Times are microseconds since boot, negative only when the clock failed.\<close>

record qualification =
  qq_started :: bool
  qq_failed :: bool
  qq_first :: int
  qq_last :: int

definition qualification0 :: qualification where
  "qualification0 = \<lparr>qq_started = False, qq_failed = False, qq_first = 0, qq_last = 0\<rparr>"

definition qual_sample :: "qualification \<Rightarrow> fcc_quiet \<Rightarrow> fcc_security \<Rightarrow> int \<Rightarrow> bool \<times> qualification" where
  "qual_sample w q s now =
     (if qq_failed w then (False, w)
      else if now < 0 \<or> \<not> fcc_quiet_ok q \<or> operation_sec q \<noteq> 3 \<or> fsec_sec s \<noteq> 3 \<or> \<not> normal_security s \<or>
         (qq_started w \<and> (now < qq_last w \<or> now - qq_last w > 2500000))
      then (False, w\<lparr>qq_failed := True\<rparr>)
      else
        let w = (if \<not> qq_started w then w\<lparr>qq_first := now, qq_started := True\<rparr> else w) in
        (True, w\<lparr>qq_last := now\<rparr>))"

definition qual_ready :: "qualification \<Rightarrow> int \<Rightarrow> bool" where
  "qual_ready w now \<longleftrightarrow>
     qq_started w \<and> \<not> qq_failed w \<and> now \<ge> qq_last w \<and> now - qq_last w \<le> 2500000 \<and> now - qq_first w \<ge> 120000000"

section \<open>The coordinator\<close>

record 's fcc_backend =
  fb_load :: "string \<Rightarrow> 's \<Rightarrow> (fcc_load \<times> fcc_journal) \<times> 's"
  fb_identity :: "'s \<Rightarrow> fcc_identity option \<times> 's"
  fb_quiet :: "'s \<Rightarrow> fcc_quiet option \<times> 's"
  fb_security :: "'s \<Rightarrow> fcc_security option \<times> 's"
  fb_qualify :: "'s \<Rightarrow> bool \<times> 's"
  fb_save :: "string \<Rightarrow> fcc_journal \<Rightarrow> 's \<Rightarrow> bool \<times> 's"
  fb_dm :: "'s \<Rightarrow> fcc_dm option \<times> 's"
  fb_unseal :: "'s \<Rightarrow> bool \<times> 's"
  fb_full :: "'s \<Rightarrow> bool \<times> 's"
  fb_enter :: "'s \<Rightarrow> bool \<times> 's"
  fb_wait :: "'s \<Rightarrow> bool \<times> 's"
  fb_config :: "u16 \<Rightarrow> 's \<Rightarrow> bool \<times> 's"
  fb_dc :: "u16 \<Rightarrow> 's \<Rightarrow> bool \<times> 's"
  fb_fcc :: "u16 \<Rightarrow> 's \<Rightarrow> bool \<times> 's"
  fb_verify :: "fcc_dm \<Rightarrow> bool \<Rightarrow> 's \<Rightarrow> bool \<times> 's"
  fb_exit :: "'s \<Rightarrow> bool \<times> 's"
  fb_reseal :: "'s \<Rightarrow> bool \<times> 's"

text \<open>The members of the coordinator and the environment behind the backend.\<close>

record 's fcc =
  fc_journal :: fcc_journal
  fc_accessed :: bool
  fc_exited :: bool
  fc_env :: 's

text \<open>A backend call, and \<open>&&\<close> over a sequence of calls.\<close>

definition fcc_call :: "('s \<Rightarrow> 'a \<times> 's) \<Rightarrow> 's fcc \<Rightarrow> 'a \<times> 's fcc" where
  "fcc_call f x = (case f (fc_env x) of (a, s) \<Rightarrow> (a, x\<lparr>fc_env := s\<rparr>))"

fun all_of :: "('s fcc \<Rightarrow> bool \<times> 's fcc) list \<Rightarrow> 's fcc \<Rightarrow> bool \<times> 's fcc" where
  "all_of [] x = (True, x)"
| "all_of (f # fs) x = (case f x of (False, x) \<Rightarrow> (False, x) | (True, x) \<Rightarrow> all_of fs x)"

definition fcc_key :: "fcc_mode \<Rightarrow> string" where
  "fcc_key m = (if m = FM_Runtime then ''fcc_fix_v1'' else ''fcc_boot_v1'')"

definition quiet_gate :: "fcc_mode \<Rightarrow> fcc_quiet \<Rightarrow> bool" where
  "quiet_gate m q = (if m = FM_Runtime then fcc_quiet_ok q else cold_quiet q)"

definition known_dm :: "fcc_journal \<Rightarrow> fcc_dm \<Rightarrow> bool" where
  "known_dm j v \<longleftrightarrow>
     (dm_config v = dm_config (fj_before j) \<or> dm_config v = dm_config (fj_target j)) \<and>
     (dm_dc v = dm_dc (fj_before j) \<or> dm_dc v = dm_dc (fj_target j)) \<and>
     (dm_fcc v = dm_fcc (fj_before j) \<or> dm_fcc v = dm_fcc (fj_target j))"

definition fcc_save :: "'s fcc_backend \<Rightarrow> fcc_mode \<Rightarrow> 's fcc \<Rightarrow> bool \<times> 's fcc" where
  "fcc_save b m x = fcc_call (fb_save b (fcc_key m) (fc_journal x)) x"

definition fcc_intent :: "'s fcc_backend \<Rightarrow> fcc_mode \<Rightarrow> u16 \<Rightarrow> 's fcc \<Rightarrow> bool \<times> 's fcc" where
  "fcc_intent b m flag x =
     (if fj_intents (fc_journal x) AND flag \<noteq> 0 then (False, x)
      else fcc_save b m (x\<lparr>fc_journal := (fc_journal x)\<lparr>fj_intents := fj_intents (fc_journal x) OR flag\<rparr>\<rparr>))"

text \<open>\<open>observe(s) && s.sec == sec && ...\<close>.\<close>

definition fcc_observe :: "'s fcc_backend \<Rightarrow> (fcc_security \<Rightarrow> bool) \<Rightarrow> 's fcc \<Rightarrow> bool \<times> 's fcc" where
  "fcc_observe b P x = (case fcc_call (fb_security b) x of (None, x) \<Rightarrow> (False, x) | (Some s, x) \<Rightarrow> (P s, x))"

definition full_cfg :: "'s fcc_backend \<Rightarrow> 's fcc \<Rightarrow> bool \<times> 's fcc" where
  "full_cfg b = fcc_observe b (\<lambda>s. fsec_sec s = 1 \<and> fsec_cfg s \<and> \<not> fsec_cal s \<and> fsec_initialized s)"

definition fcc_check_quiet :: "'s fcc_backend \<Rightarrow> fcc_mode \<Rightarrow> (fcc_quiet \<Rightarrow> bool) \<Rightarrow> 's fcc \<Rightarrow> bool \<times> 's fcc" where
  "fcc_check_quiet b m P x =
     (case fcc_call (fb_quiet b) x of (None, x) \<Rightarrow> (False, x) | (Some q, x) \<Rightarrow> (quiet_gate m q \<and> P q, x))"

text \<open>\<open>b.dmSnapshot(now) && known(now)\<close>.\<close>

definition fcc_known :: "'s fcc_backend \<Rightarrow> 's fcc \<Rightarrow> fcc_dm option \<times> 's fcc" where
  "fcc_known b x =
     (case fcc_call (fb_dm b) x of (None, x) \<Rightarrow> (None, x)
      | (Some v, x) \<Rightarrow> (if known_dm (fc_journal x) v then Some v else None, x))"

text \<open>The three parts of \<open>rollback\<close>; each returns early or goes on to the next.\<close>

definition rollback_fcc :: "'s fcc_backend \<Rightarrow> fcc_mode \<Rightarrow> 's fcc \<Rightarrow> 's fcc" where
  "rollback_fcc b m x =
     (case full_cfg b x of (False, x) \<Rightarrow> x
      | (True, x) \<Rightarrow>
     (case fcc_known b x of (None, x) \<Rightarrow> x
      | (Some now, x) \<Rightarrow>
        let before = fj_before (fc_journal x) in
        if dm_config now \<noteq> dm_config before \<or> dm_dc now \<noteq> dm_dc before then x
        else if dm_fcc now \<noteq> dm_fcc before
        then snd (all_of [fcc_intent b m fi_restore_fcc, full_cfg b, fcc_call (fb_fcc b (dm_fcc before))] x)
        else x))"

definition rollback_dc :: "'s fcc_backend \<Rightarrow> fcc_mode \<Rightarrow> 's fcc \<Rightarrow> 's fcc" where
  "rollback_dc b m x =
     (case full_cfg b x of (False, x) \<Rightarrow> x
      | (True, x) \<Rightarrow>
     (case fcc_known b x of (None, x) \<Rightarrow> x
      | (Some now, x) \<Rightarrow>
        let before = fj_before (fc_journal x) in
        if dm_config now \<noteq> dm_config before then x
        else if dm_dc now \<noteq> dm_dc before then
          (if m \<noteq> FM_ColdFactory then x
           else (case all_of [fcc_intent b m fi_restore_dc, full_cfg b, fcc_call (fb_dc b (dm_dc before))] x of
              (False, x) \<Rightarrow> x | (True, x) \<Rightarrow> rollback_fcc b m x))
        else rollback_fcc b m x))"

definition rollback :: "'s fcc_backend \<Rightarrow> fcc_mode \<Rightarrow> 's fcc \<Rightarrow> 's fcc" where
  "rollback b m x =
     (if \<not> fj_backup (fc_journal x) then x
      else
     (case full_cfg b x of (False, x) \<Rightarrow> x
      | (True, x) \<Rightarrow>
     (case fcc_known b x of (None, x) \<Rightarrow> x
      | (Some now, x) \<Rightarrow>
        let before = fj_before (fc_journal x) in
        if dm_config now \<noteq> dm_config before then
          (case all_of [fcc_intent b m fi_restore_config, full_cfg b, fcc_call (fb_config b (dm_config before))] x of
             (False, x) \<Rightarrow> x | (True, x) \<Rightarrow> rollback_dc b m x)
        else rollback_dc b m x)))"

definition fcc_cleanup :: "'s fcc_backend \<Rightarrow> fcc_mode \<Rightarrow> 's fcc \<Rightarrow> bool \<times> 's fcc" where
  "fcc_cleanup b m x =
     (if \<not> fc_accessed x then (False, x)
      else
        case (if \<not> fc_exited x then
            (case fcc_intent b m fi_exit (x\<lparr>fc_exited := True\<rparr>) of (ok1, x) \<Rightarrow>
             case fcc_call (fb_exit b) x of (ok2, x) \<Rightarrow> (ok1 \<and> ok2, x))
          else (True, x)) of (ok, x) \<Rightarrow>
        case fcc_intent b m fi_seal x of (ok3, x) \<Rightarrow>
        case fcc_call (fb_reseal b) x of (ok4, x) \<Rightarrow>
        case fcc_observe b (\<lambda>s. fsec_sec s = 3 \<and> normal_security s) x of (ok5, x) \<Rightarrow>
        (ok5 \<and> ok \<and> ok3 \<and> ok4, x))"

definition fcc_fail :: "'s fcc_backend \<Rightarrow> fcc_mode \<Rightarrow> 's fcc \<Rightarrow> fcc_result \<times> 's fcc" where
  "fcc_fail b m x =
     (let x = (if fc_accessed x then snd (fcc_cleanup b m (rollback b m x)) else x);
          x = x\<lparr>fc_journal := (fc_journal x)\<lparr>fj_state := FS_Failed\<rparr>\<rparr> in
      (FR_Failed, snd (fcc_save b m x)))"

text \<open>The admission of the run, up to the first intent: the identity it returns is the admitted one.\<close>

definition fcc_admit :: "'s fcc_backend \<Rightarrow> fcc_mode \<Rightarrow> 's fcc \<Rightarrow> fcc_identity option \<times> 's fcc" where
  "fcc_admit b m x =
     (case fcc_call (fb_load b (fcc_key m)) x of ((loaded, old), x) \<Rightarrow>
      if loaded \<noteq> FL_Absent \<and> \<not> (m = FM_ColdFactory \<and> loaded = FL_Present \<and> fj_state old = FS_Verified) then (None, x)
      else
     (case fcc_call (fb_identity b) x of
        (None, x) \<Rightarrow> (None, x)
      | (Some i, x) \<Rightarrow>
        if (m = FM_ColdFactory \<and> \<not> fid_cold_profile i) \<or> fid_device i \<noteq> 0x0220 \<or> \<not> fid_nominal_proof i \<or>
           \<not> fid_access_proof i then (None, x)
        else
     (case all_of [fcc_check_quiet b m (\<lambda>q. operation_sec q = 3),
          fcc_observe b (\<lambda>s. fsec_sec s = 3 \<and> normal_security s)] x of
        (False, x) \<Rightarrow> (None, x)
      | (True, x) \<Rightarrow>
        if m = FM_Runtime
        then (case fcc_call (fb_qualify b) x of (ok, x) \<Rightarrow> (if ok then Some i else None, x))
        else (Some i, x))))"

text \<open>The two snapshots before the change.\<close>

definition dm_admissible :: "fcc_mode \<Rightarrow> fcc_identity \<Rightarrow> fcc_dm \<Rightarrow> fcc_dm \<Rightarrow> bool" where
  "dm_admissible m i first second \<longleftrightarrow>
     \<not> (\<not> same_dm first second \<or> dm_config first > 0x1fff \<or>
        (if m = FM_Runtime then dm_dc first \<noteq> 65 \<or> (dm_fcc first \<noteq> 65 \<and> dm_fcc first \<noteq> 100)
         else dm_dc first \<noteq> 3000 \<or> dm_fcc first \<noteq> 3000 \<or> dm_config first \<noteq> fid_cold_config i AND NOT limit_bit) \<or>
        dm_config first AND limit_bit \<noteq> 0)"

definition fcc_snapshots :: "'s fcc_backend \<Rightarrow> fcc_mode \<Rightarrow> fcc_identity \<Rightarrow> 's fcc \<Rightarrow> fcc_dm option \<times> 's fcc" where
  "fcc_snapshots b m i x =
     (case fcc_call (fb_dm b) x of
        (None, x) \<Rightarrow> (None, x)
      | (Some first, x) \<Rightarrow>
     (case fcc_call (fb_dm b) x of
        (None, x) \<Rightarrow> (None, x)
      | (Some second, x) \<Rightarrow> (if dm_admissible m i first second then Some first else None, x)))"

text \<open>The change itself, from the first intent in configuration mode to the verified target.\<close>

definition fcc_change :: "'s fcc_backend \<Rightarrow> fcc_mode \<Rightarrow> fcc_dm \<Rightarrow> 's fcc \<Rightarrow> bool \<times> 's fcc" where
  "fcc_change b m first x =
     all_of
       ([fcc_intent b m fi_enter, fcc_call (fb_enter b), fcc_call (fb_wait b), full_cfg b,
         fcc_intent b m fi_config, full_cfg b, fcc_call (fb_config b (dm_config (fj_target (fc_journal x))))] @
        (if m = FM_ColdFactory then [fcc_intent b m fi_dc, full_cfg b, fcc_call (fb_dc b 65)] else []) @
        (if dm_fcc first \<noteq> 65 then [fcc_intent b m fi_fcc, full_cfg b, fcc_call (fb_fcc b 65)] else []) @
        [fcc_call (fb_verify b (fj_target (fc_journal x)) False), fcc_intent b m fi_target_verified]) x"

definition fcc_finish :: "'s fcc_backend \<Rightarrow> fcc_mode \<Rightarrow> 's fcc \<Rightarrow> fcc_result \<times> 's fcc" where
  "fcc_finish b m x =
     (case fcc_cleanup b m x of (closed, x) \<Rightarrow>
      case (if closed then fcc_call (fb_verify b (fj_target (fc_journal x)) True) x else (False, x)) of (verified, x) \<Rightarrow>
      case fcc_save b m (x\<lparr>fc_journal := (fc_journal x)\<lparr>fj_state := if verified then FS_Verified else FS_Failed\<rparr>\<rparr>) of
        (committed, x) \<Rightarrow> (if verified \<and> committed then FR_Verified else FR_Failed, x))"

definition fcc_access :: "'s fcc_backend \<Rightarrow> fcc_mode \<Rightarrow> 's fcc \<Rightarrow> bool \<times> 's fcc" where
  "fcc_access b m =
     all_of
       [fcc_call (fb_unseal b), fcc_observe b (\<lambda>s. fsec_sec s = 2 \<and> normal_security s),
        fcc_check_quiet b m (\<lambda>_. True), fcc_intent b m fi_full,
        fcc_call (fb_full b), fcc_observe b (\<lambda>s. fsec_sec s = 1 \<and> normal_security s)]"

definition fcc_run :: "'s fcc_backend \<Rightarrow> fcc_mode \<Rightarrow> 's \<Rightarrow> fcc_result \<times> 's fcc" where
  "fcc_run b m s =
     (case fcc_admit b m \<lparr>fc_journal = fcc_journal0, fc_accessed = False, fc_exited = False, fc_env = s\<rparr> of
        (None, x) \<Rightarrow> (FR_Rejected, x)
      | (Some i, x) \<Rightarrow>
     (case fcc_intent b m fi_unseal (x\<lparr>fc_journal := (fc_journal x)\<lparr>fj_mac := fid_mac i\<rparr>\<rparr>) of
        (False, x) \<Rightarrow> (FR_Failed, x)
      | (True, x) \<Rightarrow>
     (case fcc_access b m (x\<lparr>fc_accessed := True\<rparr>) of
        (False, x) \<Rightarrow> fcc_fail b m x
      | (True, x) \<Rightarrow>
     (case fcc_snapshots b m i (x\<lparr>fc_journal := (fc_journal x)\<lparr>fj_full_verified := True\<rparr>\<rparr>) of
        (None, x) \<Rightarrow> fcc_fail b m x
      | (Some first, x) \<Rightarrow>
     (case fcc_change b m first
          (x\<lparr>fc_journal := (fc_journal x)
             \<lparr>fj_before := first,
              fj_target := \<lparr>dm_config = dm_config first OR limit_bit, dm_dc = 65, dm_fcc = 65\<rparr>, fj_backup := True\<rparr>\<rparr>) of
        (False, x) \<Rightarrow> fcc_fail b m x
      | (True, x) \<Rightarrow> fcc_finish b m x)))))"

end
