(* ===== verification/Fcc_Limit_Safety.thy ===== *)
theory Fcc_Limit_Safety
  imports Fcc_Limit
begin

unbundle bit_operations_syntax

text \<open>
  What the coordinator of the limit repair does to the gauge, for any backend: the order of journal writes and
  commands, which commands are sent and how often, which values are written, and that the access is always closed.
\<close>

section \<open>Recorded commands\<close>

datatype fcc_event = FE_Save fcc_journal bool | FE_Unseal bool | FE_Full bool | FE_Enter bool
  | FE_Config u16 bool | FE_Dc u16 bool | FE_Fcc u16 bool | FE_Exit bool | FE_Reseal bool

fun fcc_event_ok :: "fcc_event \<Rightarrow> bool" where
  "fcc_event_ok (FE_Save j ok) = ok"
| "fcc_event_ok (FE_Unseal ok) = ok"
| "fcc_event_ok (FE_Full ok) = ok"
| "fcc_event_ok (FE_Enter ok) = ok"
| "fcc_event_ok (FE_Config v ok) = ok"
| "fcc_event_ok (FE_Dc v ok) = ok"
| "fcc_event_ok (FE_Fcc v ok) = ok"
| "fcc_event_ok (FE_Exit ok) = ok"
| "fcc_event_ok (FE_Reseal ok) = ok"

definition tell :: "(bool \<Rightarrow> fcc_event) \<Rightarrow> ('s \<Rightarrow> bool \<times> 's) \<Rightarrow> 's \<times> fcc_event list \<Rightarrow> bool \<times> 's \<times> fcc_event list" where
  "tell ev f x = (case f (fst x) of (ok, s) \<Rightarrow> (ok, s, snd x @ [ev ok]))"

definition hush :: "('s \<Rightarrow> 'a \<times> 's) \<Rightarrow> 's \<times> fcc_event list \<Rightarrow> 'a \<times> 's \<times> fcc_event list" where
  "hush f x = (case f (fst x) of (a, s) \<Rightarrow> (a, s, snd x))"

definition recorded_fcc :: "'s fcc_backend \<Rightarrow> ('s \<times> fcc_event list) fcc_backend" where
  "recorded_fcc b =
     \<lparr>fb_load = (\<lambda>k. hush (fb_load b k)), fb_identity = hush (fb_identity b), fb_quiet = hush (fb_quiet b),
      fb_security = hush (fb_security b), fb_qualify = hush (fb_qualify b),
      fb_save = (\<lambda>k j. tell (FE_Save j) (fb_save b k j)), fb_dm = hush (fb_dm b),
      fb_unseal = tell FE_Unseal (fb_unseal b), fb_full = tell FE_Full (fb_full b),
      fb_enter = tell FE_Enter (fb_enter b), fb_wait = hush (fb_wait b),
      fb_config = (\<lambda>v. tell (FE_Config v) (fb_config b v)), fb_dc = (\<lambda>v. tell (FE_Dc v) (fb_dc b v)),
      fb_fcc = (\<lambda>v. tell (FE_Fcc v) (fb_fcc b v)), fb_verify = (\<lambda>d f. hush (fb_verify b d f)),
      fb_exit = tell FE_Exit (fb_exit b), fb_reseal = tell FE_Reseal (fb_reseal b)\<rparr>"

definition fcc_log :: "('s \<times> fcc_event list) fcc \<Rightarrow> fcc_event list" where
  "fcc_log x = snd (fc_env x)"

text \<open>The commands that open and close the access, in the order they were sent.\<close>

datatype fcc_command = Key_Unseal | Key_Full | Cmd_Exit | Cmd_Seal

definition command_of :: "fcc_event \<Rightarrow> fcc_command list" where
  "command_of e = (case e of FE_Unseal _ \<Rightarrow> [Key_Unseal] | FE_Full _ \<Rightarrow> [Key_Full] | FE_Exit _ \<Rightarrow> [Cmd_Exit]
     | FE_Reseal _ \<Rightarrow> [Cmd_Seal] | _ \<Rightarrow> [])"

definition commands :: "fcc_event list \<Rightarrow> fcc_command list" where
  "commands l = concat (map command_of l)"

text \<open>The event directly before a command is the journal write that announces it.\<close>

definition intent_saved :: "u16 \<Rightarrow> (fcc_journal \<Rightarrow> bool) \<Rightarrow> bool \<Rightarrow> fcc_event \<Rightarrow> bool" where
  "intent_saved flag P must e = (case e of FE_Save j ok \<Rightarrow> (\<not> must \<or> ok) \<and> fj_intents j AND flag = flag \<and> P j | _ \<Rightarrow> False)"

definition fcc_follows :: "fcc_event \<Rightarrow> fcc_event \<Rightarrow> bool" where
  "fcc_follows e x = (case x of
      FE_Save _ _ \<Rightarrow> True
    | FE_Unseal _ \<Rightarrow> intent_saved fi_unseal (\<lambda>_. True) True e
    | FE_Full _ \<Rightarrow> intent_saved fi_full (\<lambda>_. True) True e
    | FE_Enter _ \<Rightarrow> intent_saved fi_enter fj_backup True e
    | FE_Config v _ \<Rightarrow> intent_saved fi_config (\<lambda>j. v = dm_config (fj_target j)) True e \<or>
        intent_saved fi_restore_config (\<lambda>j. v = dm_config (fj_before j)) True e
    | FE_Dc v _ \<Rightarrow> intent_saved fi_dc (\<lambda>j. v = dm_dc (fj_target j)) True e \<or>
        intent_saved fi_restore_dc (\<lambda>j. v = dm_dc (fj_before j)) True e
    | FE_Fcc v _ \<Rightarrow> intent_saved fi_fcc (\<lambda>j. v = dm_fcc (fj_target j)) True e \<or>
        intent_saved fi_restore_fcc (\<lambda>j. v = dm_fcc (fj_before j)) True e
    | FE_Exit _ \<Rightarrow> intent_saved fi_exit (\<lambda>_. True) False e
    | FE_Reseal _ \<Rightarrow> intent_saved fi_seal (\<lambda>_. True) False e)"

section \<open>Steps that neither open nor close\<close>

text \<open>
  \<open>calm ok x y\<close>: from \<open>x\<close> to \<open>y\<close> only journal writes and announced writes in the log, no key and no closing command, all of them
  successful when the step succeeded; the members of the coordinator as before, up to the intents.
\<close>

definition calm :: "bool \<Rightarrow> ('s \<times> fcc_event list) fcc \<Rightarrow> ('s \<times> fcc_event list) fcc \<Rightarrow> bool" where
  "calm ok x y \<longleftrightarrow>
     (\<exists>l. fcc_log y = fcc_log x @ l \<and> (\<forall>e. successively fcc_follows (e # l)) \<and> commands l = [] \<and> (ok \<longrightarrow> list_all fcc_event_ok l)) \<and>
     fc_accessed y = fc_accessed x \<and> fc_exited y = fc_exited x \<and>
     (\<exists>n. fc_journal y = (fc_journal x)\<lparr>fj_intents := n\<rparr>) \<and>
     (fj_intents (fc_journal x) AND 384 = 0 \<longrightarrow> fj_intents (fc_journal y) AND 384 = 0)"

lemma successively_join:
  assumes "\<forall>e. successively P (e # l)" "\<forall>e. successively P (e # k)"
  shows "successively P (e # l @ k)"
proof -
  have "successively P ((e # l) @ k)"
    unfolding successively_append_iff
  proof (intro conjI)
    show "successively P (e # l)" using assms(1) by blast
    show "successively P k" using assms(2) by (cases k) auto
    show "e # l = [] \<or> k = [] \<or> P (last (e # l)) (hd k)" using assms(2) by (cases k) auto
  qed
  then show ?thesis by simp
qed

lemma fcc_calm_refl [simp]: "calm ok x x"
  unfolding calm_def by (intro conjI exI[of _ "[]"] exI[of _ "fj_intents (fc_journal x)"]) (simp_all add: commands_def)

lemma fcc_calm_trans:
  assumes "calm True x y" "calm ok y z"
  shows "calm ok x z"
proof -
  obtain l k where l: "fcc_log y = fcc_log x @ l" "\<forall>e. successively fcc_follows (e # l)" "commands l = []" "list_all fcc_event_ok l"
    and k: "fcc_log z = fcc_log y @ k" "\<forall>e. successively fcc_follows (e # k)" "commands k = []" "ok \<longrightarrow> list_all fcc_event_ok k"
    using assms unfolding calm_def by blast
  have "\<forall>e. successively fcc_follows (e # l @ k)" using successively_join[OF l(2) k(2)] by blast
  moreover obtain n m where "fc_journal y = (fc_journal x)\<lparr>fj_intents := n\<rparr>" "fc_journal z = (fc_journal y)\<lparr>fj_intents := m\<rparr>"
    using assms unfolding calm_def by blast
  then have "\<exists>n. fc_journal z = (fc_journal x)\<lparr>fj_intents := n\<rparr>" by (intro exI[of _ m]) simp
  ultimately show ?thesis
    unfolding calm_def using assms l k
    by (intro conjI exI[of _ "l @ k"]) (auto simp: calm_def commands_def)
qed

section \<open>The steps\<close>

lemma tell_log: "tell ev f (s, l) = (ok, s', l') \<Longrightarrow> l' = l @ [ev ok]"
  by (auto simp: tell_def split: prod.splits)

lemma hush_log: "hush f (s, l) = (a, s', l') \<Longrightarrow> l' = l"
  by (auto simp: hush_def split: prod.splits)

lemma call_tell:
  assumes "fcc_call (tell ev f) x = (ok, y)"
  shows "fcc_log y = fcc_log x @ [ev ok]" "fc_journal y = fc_journal x" "fc_accessed y = fc_accessed x"
    "fc_exited y = fc_exited x"
  using assms by (auto simp: fcc_call_def tell_def fcc_log_def split: prod.splits)

lemma call_hush:
  assumes "fcc_call (hush f) x = (a, y)"
  shows "calm ok x y" "fc_journal y = fc_journal x" "fcc_log y = fcc_log x"
proof -
  show "fc_journal y = fc_journal x" "fcc_log y = fcc_log x"
    using assms by (auto simp: fcc_call_def hush_def fcc_log_def split: prod.splits)
  moreover have "fc_accessed y = fc_accessed x" "fc_exited y = fc_exited x"
    using assms by (auto simp: fcc_call_def hush_def split: prod.splits)
  ultimately show "calm ok x y"
    unfolding calm_def by (intro conjI exI[of _ "[]"] exI[of _ "fj_intents (fc_journal x)"]) (simp_all add: commands_def)
qed

lemma recorded_simps [simp]:
  "fb_load (recorded_fcc b) k = hush (fb_load b k)" "fb_identity (recorded_fcc b) = hush (fb_identity b)"
  "fb_quiet (recorded_fcc b) = hush (fb_quiet b)" "fb_security (recorded_fcc b) = hush (fb_security b)"
  "fb_qualify (recorded_fcc b) = hush (fb_qualify b)" "fb_save (recorded_fcc b) k j = tell (FE_Save j) (fb_save b k j)"
  "fb_dm (recorded_fcc b) = hush (fb_dm b)" "fb_unseal (recorded_fcc b) = tell FE_Unseal (fb_unseal b)"
  "fb_full (recorded_fcc b) = tell FE_Full (fb_full b)" "fb_enter (recorded_fcc b) = tell FE_Enter (fb_enter b)"
  "fb_wait (recorded_fcc b) = hush (fb_wait b)" "fb_config (recorded_fcc b) v = tell (FE_Config v) (fb_config b v)"
  "fb_dc (recorded_fcc b) v = tell (FE_Dc v) (fb_dc b v)" "fb_fcc (recorded_fcc b) v = tell (FE_Fcc v) (fb_fcc b v)"
  "fb_verify (recorded_fcc b) d f = hush (fb_verify b d f)" "fb_exit (recorded_fcc b) = tell FE_Exit (fb_exit b)"
  "fb_reseal (recorded_fcc b) = tell FE_Reseal (fb_reseal b)"
  by (simp_all add: recorded_fcc_def)

lemma observe_calm:
  assumes "fcc_observe (recorded_fcc b) P x = (a, y)"
  shows "calm ok x y" "fc_journal y = fc_journal x" "fcc_log y = fcc_log x"
proof -
  obtain r z where c: "fcc_call (hush (fb_security b)) x = (r, z)" by (metis prod.exhaust)
  then have "y = z" using assms by (cases r) (simp_all add: fcc_observe_def)
  then show "calm ok x y" "fc_journal y = fc_journal x" "fcc_log y = fcc_log x" using call_hush[OF c] by simp_all
qed

lemma check_quiet_calm:
  assumes "fcc_check_quiet (recorded_fcc b) m P x = (a, y)"
  shows "calm ok x y"
proof -
  obtain r z where c: "fcc_call (hush (fb_quiet b)) x = (r, z)" by (metis prod.exhaust)
  then have "y = z" using assms by (cases r) (simp_all add: fcc_check_quiet_def)
  then show ?thesis using call_hush[OF c] by simp
qed

lemma known_calm:
  assumes "fcc_known (recorded_fcc b) x = (a, y)"
  shows "calm ok x y" "fc_journal y = fc_journal x"
proof -
  obtain r z where c: "fcc_call (hush (fb_dm b)) x = (r, z)" by (metis prod.exhaust)
  then have "y = z" using assms by (cases r) (simp_all add: fcc_known_def)
  then show "calm ok x y" "fc_journal y = fc_journal x" using call_hush[OF c] by simp_all
qed

text \<open>An intent: refused without an event when the flag is set already, else one journal write with the flag.\<close>

lemma intent_log:
  assumes "fcc_intent (recorded_fcc b) m flag x = (ok, y)"
  shows "if fj_intents (fc_journal x) AND flag \<noteq> 0 then \<not> ok \<and> y = x
    else fc_journal y = (fc_journal x)\<lparr>fj_intents := fj_intents (fc_journal x) OR flag\<rparr> \<and>
      fcc_log y = fcc_log x @ [FE_Save (fc_journal y) ok] \<and> fc_accessed y = fc_accessed x \<and> fc_exited y = fc_exited x"
proof (cases "fj_intents (fc_journal x) AND flag \<noteq> 0")
  case True
  then show ?thesis using assms by (simp add: fcc_intent_def)
next
  case False
  let ?x = "x\<lparr>fc_journal := (fc_journal x)\<lparr>fj_intents := fj_intents (fc_journal x) OR flag\<rparr>\<rparr>"
  have c: "fcc_call (tell (FE_Save (fc_journal ?x)) (fb_save b (fcc_key m) (fc_journal ?x))) ?x = (ok, y)"
    using assms False by (simp add: fcc_intent_def fcc_save_def)
  have "fcc_log ?x = fcc_log x" by (simp add: fcc_log_def)
  then show ?thesis using call_tell[OF c] False by simp
qed

lemma intent_calm:
  assumes "fcc_intent (recorded_fcc b) m flag x = (ok, y)" "flag AND 384 = 0"
  shows "calm ok x y"
proof (cases "fj_intents (fc_journal x) AND flag \<noteq> 0")
  case False
  then have y: "fc_journal y = (fc_journal x)\<lparr>fj_intents := fj_intents (fc_journal x) OR flag\<rparr>"
    "fcc_log y = fcc_log x @ [FE_Save (fc_journal y) ok]" "fc_accessed y = fc_accessed x" "fc_exited y = fc_exited x"
    using intent_log[OF assms(1)] by simp_all
  then have "fj_intents (fc_journal x) AND 384 = 0 \<longrightarrow> fj_intents (fc_journal y) AND 384 = 0"
    using assms(2) by (simp add: bit.conj_disj_distrib2)
  then show ?thesis unfolding calm_def using y
    by (intro conjI exI[of _ "[FE_Save (fc_journal y) ok]"] exI[of _ "fj_intents (fc_journal x) OR flag"])
      (simp_all add: commands_def command_of_def fcc_follows_def)
qed (use intent_log[OF assms(1)] in simp)

text \<open>An intent, the check of the configuration mode, and the write it announces.\<close>

lemma write_calm:
  assumes "all_of [fcc_intent (recorded_fcc b) m flag, full_cfg (recorded_fcc b), fcc_call (tell ev f)] x = (ok, y)"
    and flag: "flag AND 384 = 0"
    and ev: "\<And>j v. command_of (ev v) = [] \<and> fcc_event_ok (ev v) = v"
      "\<And>n v. n AND flag = flag \<Longrightarrow> fcc_follows (FE_Save ((fc_journal x)\<lparr>fj_intents := n\<rparr>) True) (ev v)"
  shows "calm ok x y"
proof -
  obtain ok1 x1 where 1: "fcc_intent (recorded_fcc b) m flag x = (ok1, x1)" by (metis prod.exhaust)
  show ?thesis
  proof (cases ok1)
    case False
    then show ?thesis using assms(1) 1 intent_calm[OF 1 flag] by simp
  next
    case True
    have c1: "calm True x x1" using intent_calm[OF 1 flag] True by simp
    obtain ok2 x2 where 2: "full_cfg (recorded_fcc b) x1 = (ok2, x2)" by (metis prod.exhaust)
    have c2: "calm ok x1 x2" for ok using observe_calm(1)[OF 2[unfolded full_cfg_def]] .
    show ?thesis
    proof (cases ok2)
      case False
      then show ?thesis using assms(1) 1 2 True fcc_calm_trans[OF c1 c2] by simp
    next
      case ok2: True
      obtain z where 3: "fcc_call (tell ev f) x2 = (ok, z)" "y = z"
        using assms(1) 1 2 True ok2 by (auto split: prod.splits bool.splits)
      have i: "fc_journal x1 = (fc_journal x)\<lparr>fj_intents := fj_intents (fc_journal x) OR flag\<rparr>"
        "fcc_log x1 = fcc_log x @ [FE_Save (fc_journal x1) True]" "fc_accessed x1 = fc_accessed x" "fc_exited x1 = fc_exited x"
        using intent_log[OF 1] True by (auto split: if_splits)
      note c = call_tell[OF 3(1)] observe_calm(2,3)[OF 2[unfolded full_cfg_def]]
      have "fcc_follows (FE_Save (fc_journal x1) True) (ev ok)"
        unfolding i(1) by (rule ev(2)) (simp add: word_ao_absorbs)
      then have "successively fcc_follows (e # [FE_Save (fc_journal x1) True, ev ok])" for e
        by (simp add: fcc_follows_def[of e])
      then show ?thesis
        unfolding calm_def using i c 3 c2[of True] ev(1) flag
        by (intro conjI exI[of _ "[FE_Save (fc_journal x1) True, ev ok]"] exI[of _ "fj_intents (fc_journal x) OR flag"])
          (simp_all add: commands_def command_of_def calm_def bit.conj_disj_distrib2)
    qed
  qed
qed

text \<open>Sequences of calm steps.\<close>

lemma all_of_append:
  "all_of (fs @ gs) x = (case all_of fs x of (False, y) \<Rightarrow> (False, y) | (True, y) \<Rightarrow> all_of gs y)"
  by (induction fs arbitrary: x) (auto split: prod.splits bool.splits)

lemma all_of_step: "all_of (fs @ gs) x = (ok, y) \<Longrightarrow> all_of fs x = (True, z) \<Longrightarrow> all_of gs z = (ok, y)"
  by (simp add: all_of_append)

lemma all_of_stop: "all_of (fs @ gs) x = (ok, y) \<Longrightarrow> all_of fs x = (False, z) \<Longrightarrow> \<not> ok \<and> y = z"
  by (simp add: all_of_append)

lemma all_of_single: "all_of [f] x = f x"
  by (auto split: prod.splits bool.splits)

definition calm_steps :: "(('s \<times> fcc_event list) fcc \<Rightarrow> bool \<times> ('s \<times> fcc_event list) fcc) list \<Rightarrow> ('s \<times> fcc_event list) fcc \<Rightarrow> bool" where
  "calm_steps fs x \<longleftrightarrow> (\<forall>ok y. all_of fs x = (ok, y) \<longrightarrow> calm ok x y)"

lemma calm_append:
  assumes "calm_steps fs x" "\<And>y. calm True x y \<Longrightarrow> calm_steps gs y"
  shows "calm_steps (fs @ gs) x"
  unfolding calm_steps_def
proof (intro allI impI)
  fix ok z
  assume a: "all_of (fs @ gs) x = (ok, z)"
  obtain ok1 y where y: "all_of fs x = (ok1, y)" by (metis prod.exhaust)
  then have c: "calm ok1 x y" using assms(1) by (simp add: calm_steps_def)
  show "calm ok x z"
  proof (cases ok1)
    case True
    then have "calm True x y" "all_of gs y = (ok, z)" using a y c by (simp_all add: all_of_append)
    then show ?thesis using assms(2) fcc_calm_trans unfolding calm_steps_def by blast
  qed (use a y c in \<open>simp add: all_of_append\<close>)
qed

lemma calm_then:
  assumes "calm True w x" "calm_steps fs x" "\<And>y. calm True w y \<Longrightarrow> calm_steps gs y"
  shows "calm_steps (fs @ gs) x"
  using assms fcc_calm_trans by (intro calm_append) blast+

lemma calm_if: "calm_steps fs x \<Longrightarrow> calm_steps (if P then fs else []) x"
  by (simp add: calm_steps_def)

lemma calm_single: "(\<And>ok y. f x = (ok, y) \<Longrightarrow> calm ok x y) \<Longrightarrow> calm_steps [f] x"
  by (simp add: calm_steps_def all_of_single del: all_of.simps)

lemma calm_fields:
  assumes "calm ok x y"
  shows "fj_before (fc_journal y) = fj_before (fc_journal x)" "fj_target (fc_journal y) = fj_target (fc_journal x)"
    "fj_backup (fc_journal y) = fj_backup (fc_journal x)"
proof -
  obtain n where "fc_journal y = (fc_journal x)\<lparr>fj_intents := n\<rparr>" using assms unfolding calm_def by blast
  then show "fj_before (fc_journal y) = fj_before (fc_journal x)" "fj_target (fc_journal y) = fj_target (fc_journal x)"
    "fj_backup (fc_journal y) = fj_backup (fc_journal x)" by simp_all
qed

text \<open>The writes of the change and of the rollback.\<close>

lemma saved_follows [simp]:
  "fcc_follows (FE_Save j True) (FE_Config v ok) \<longleftrightarrow>
     fj_intents j AND fi_config = fi_config \<and> v = dm_config (fj_target j) \<or>
     fj_intents j AND fi_restore_config = fi_restore_config \<and> v = dm_config (fj_before j)"
  "fcc_follows (FE_Save j True) (FE_Dc v ok) \<longleftrightarrow>
     fj_intents j AND fi_dc = fi_dc \<and> v = dm_dc (fj_target j) \<or>
     fj_intents j AND fi_restore_dc = fi_restore_dc \<and> v = dm_dc (fj_before j)"
  "fcc_follows (FE_Save j True) (FE_Fcc v ok) \<longleftrightarrow>
     fj_intents j AND fi_fcc = fi_fcc \<and> v = dm_fcc (fj_target j) \<or>
     fj_intents j AND fi_restore_fcc = fi_restore_fcc \<and> v = dm_fcc (fj_before j)"
  "fcc_follows (FE_Save j True) (FE_Enter ok) \<longleftrightarrow> fj_intents j AND fi_enter = fi_enter \<and> fj_backup j"
  "fcc_follows (FE_Save j True) (FE_Full ok) \<longleftrightarrow> fj_intents j AND fi_full = fi_full"
  "fcc_follows (FE_Save j True) (FE_Unseal ok) \<longleftrightarrow> fj_intents j AND fi_unseal = fi_unseal"
  "fcc_follows e (FE_Save j c)"
  by (simp_all add: fcc_follows_def intent_saved_def)

lemma small_flags:
  "fi_enter AND 384 = 0" "fi_config AND 384 = 0" "fi_fcc AND 384 = 0" "fi_restore_config AND 384 = 0"
  "fi_restore_fcc AND 384 = 0" "fi_dc AND 384 = 0" "fi_restore_dc AND 384 = 0" "fi_target_verified AND 384 = 0"
  "fi_full AND 384 = 0" "fi_unseal AND 384 = 0"
  by (simp_all add: fcc_intents)

lemma calm_writes:
  shows "all_of [fcc_intent (recorded_fcc b) m fi_config, full_cfg (recorded_fcc b),
      fcc_call (fb_config (recorded_fcc b) (dm_config (fj_target (fc_journal x))))] x = (ok, y) \<Longrightarrow> calm ok x y"
    and "all_of [fcc_intent (recorded_fcc b) m fi_dc, full_cfg (recorded_fcc b),
      fcc_call (fb_dc (recorded_fcc b) (dm_dc (fj_target (fc_journal x))))] x = (ok, y) \<Longrightarrow> calm ok x y"
    and "all_of [fcc_intent (recorded_fcc b) m fi_fcc, full_cfg (recorded_fcc b),
      fcc_call (fb_fcc (recorded_fcc b) (dm_fcc (fj_target (fc_journal x))))] x = (ok, y) \<Longrightarrow> calm ok x y"
    and "all_of [fcc_intent (recorded_fcc b) m fi_restore_config, full_cfg (recorded_fcc b),
      fcc_call (fb_config (recorded_fcc b) (dm_config (fj_before (fc_journal x))))] x = (ok, y) \<Longrightarrow> calm ok x y"
    and "all_of [fcc_intent (recorded_fcc b) m fi_restore_dc, full_cfg (recorded_fcc b),
      fcc_call (fb_dc (recorded_fcc b) (dm_dc (fj_before (fc_journal x))))] x = (ok, y) \<Longrightarrow> calm ok x y"
    and "all_of [fcc_intent (recorded_fcc b) m fi_restore_fcc, full_cfg (recorded_fcc b),
      fcc_call (fb_fcc (recorded_fcc b) (dm_fcc (fj_before (fc_journal x))))] x = (ok, y) \<Longrightarrow> calm ok x y"
  unfolding recorded_simps
  by (erule write_calm; simp add: small_flags command_of_def del: recorded_simps)+

text \<open>The rollback is calm.\<close>

lemma full_cfg_calm: "full_cfg (recorded_fcc b) x = (a, y) \<Longrightarrow> calm ok x y \<and> fc_journal y = fc_journal x"
  using observe_calm(1,2)[of b _ x a y] unfolding full_cfg_def by blast

lemma rollback_fcc_calm: "calm False x (rollback_fcc (recorded_fcc b) m x)"
proof -
  obtain c x1 where 1: "full_cfg (recorded_fcc b) x = (c, x1)" by (metis prod.exhaust)
  obtain k x2 where 2: "fcc_known (recorded_fcc b) x1 = (k, x2)" by (metis prod.exhaust)
  have c1: "calm ok x x1" for ok using full_cfg_calm[OF 1] by blast
  have c2: "calm ok x x2" for ok using fcc_calm_trans[OF c1 known_calm(1)[OF 2]] .
  obtain ok y where 3: "all_of [fcc_intent (recorded_fcc b) m fi_restore_fcc, full_cfg (recorded_fcc b),
      fcc_call (fb_fcc (recorded_fcc b) (dm_fcc (fj_before (fc_journal x2))))] x2 = (ok, y)" by (metis prod.exhaust)
  have "calm False x2 y" using calm_writes(6)[OF 3] unfolding calm_def by blast
  then have c3: "calm False x y" using fcc_calm_trans[OF c2] by blast
  show ?thesis
    by (cases c; cases k) (simp_all add: rollback_fcc_def 1 2 3 Let_def c1 c2 c3 del: all_of.simps recorded_simps)
qed

lemma rollback_dc_calm: "calm False x (rollback_dc (recorded_fcc b) m x)"
proof -
  obtain c x1 where 1: "full_cfg (recorded_fcc b) x = (c, x1)" by (metis prod.exhaust)
  obtain k x2 where 2: "fcc_known (recorded_fcc b) x1 = (k, x2)" by (metis prod.exhaust)
  have c1: "calm ok x x1" for ok using full_cfg_calm[OF 1] by blast
  have c2: "calm ok x x2" for ok using fcc_calm_trans[OF c1 known_calm(1)[OF 2]] .
  obtain ok y where 3: "all_of [fcc_intent (recorded_fcc b) m fi_restore_dc, full_cfg (recorded_fcc b),
      fcc_call (fb_dc (recorded_fcc b) (dm_dc (fj_before (fc_journal x2))))] x2 = (ok, y)" by (metis prod.exhaust)
  have w: "calm ok x y" using fcc_calm_trans[OF c2 calm_writes(5)[OF 3]] .
  then have c3: "calm False x y" unfolding calm_def by blast
  have c4: "calm False x (rollback_fcc (recorded_fcc b) m y)" if ok
    using fcc_calm_trans[OF _ rollback_fcc_calm] w that by simp
  have c5: "calm False x (rollback_fcc (recorded_fcc b) m x2)" using fcc_calm_trans[OF c2 rollback_fcc_calm] .
  show ?thesis
    using c4 c5 3 by (cases m; cases c; cases k; cases ok)
      (simp_all add: rollback_dc_def 1 2 Let_def c1 c2 c3 del: all_of.simps recorded_simps)
qed

lemma rollback_calm: "calm False x (rollback (recorded_fcc b) m x)"
proof -
  obtain c x1 where 1: "full_cfg (recorded_fcc b) x = (c, x1)" by (metis prod.exhaust)
  obtain k x2 where 2: "fcc_known (recorded_fcc b) x1 = (k, x2)" by (metis prod.exhaust)
  have c1: "calm ok x x1" for ok using full_cfg_calm[OF 1] by blast
  have c2: "calm ok x x2" for ok using fcc_calm_trans[OF c1 known_calm(1)[OF 2]] .
  obtain ok y where 3: "all_of [fcc_intent (recorded_fcc b) m fi_restore_config, full_cfg (recorded_fcc b),
      fcc_call (fb_config (recorded_fcc b) (dm_config (fj_before (fc_journal x2))))] x2 = (ok, y)" by (metis prod.exhaust)
  have w: "calm ok x y" using fcc_calm_trans[OF c2 calm_writes(4)[OF 3]] .
  then have c3: "calm False x y" unfolding calm_def by blast
  have c4: "calm False x (rollback_dc (recorded_fcc b) m y)" if ok
    using fcc_calm_trans[OF _ rollback_dc_calm] w that by simp
  have c5: "calm False x (rollback_dc (recorded_fcc b) m x2)" using fcc_calm_trans[OF c2 rollback_dc_calm] .
  show ?thesis
    using c4 by (cases c; cases k; cases ok)
      (simp_all add: rollback_def 1 2 3 Let_def c1 c2 c3 c5 del: all_of.simps recorded_simps)
qed

text \<open>The change is calm, and in it every write is the target of the journal.\<close>

lemma enter_calm:
  assumes "all_of [fcc_intent (recorded_fcc b) m fi_enter, fcc_call (fb_enter (recorded_fcc b))] x = (ok, y)"
    "fj_backup (fc_journal x)"
  shows "calm ok x y"
proof -
  obtain ok1 x1 where 1: "fcc_intent (recorded_fcc b) m fi_enter x = (ok1, x1)" by (metis prod.exhaust)
  have c1: "calm ok1 x x1" using intent_calm[OF 1] small_flags by blast
  show ?thesis
  proof (cases ok1)
    case True
    then have 2: "fcc_call (tell FE_Enter (fb_enter b)) x1 = (ok, y)"
      using assms(1) 1 by (auto split: prod.splits bool.splits)
    have i: "fc_journal x1 = (fc_journal x)\<lparr>fj_intents := fj_intents (fc_journal x) OR fi_enter\<rparr>"
      "fcc_log x1 = fcc_log x @ [FE_Save (fc_journal x1) True]" "fc_accessed x1 = fc_accessed x" "fc_exited x1 = fc_exited x"
      using intent_log[OF 1] True by (auto split: if_splits)
    note c = call_tell[OF 2]
    show ?thesis
      unfolding calm_def using i c c1 assms(2)
      by (intro conjI exI[of _ "[FE_Save (fc_journal x1) True, FE_Enter ok]"] exI[of _ "fj_intents (fc_journal x) OR fi_enter"])
        (simp_all add: commands_def command_of_def calm_def word_ao_absorbs)
  qed (use assms(1) 1 c1 in simp)
qed

lemma hush_calm: "calm_steps [fcc_call (hush f)] x"
  by (rule calm_single) (rule call_hush)

lemma change_calm:
  assumes "fcc_change (recorded_fcc b) m first x = (ok, y)" "fj_backup (fc_journal x)"
    "dm_dc (fj_target (fc_journal x)) = 65" "dm_fcc (fj_target (fc_journal x)) = 65"
  shows "calm ok x y"
proof -
  let ?b = "recorded_fcc b" and ?t = "fj_target (fc_journal x)"
  let ?enter = "[fcc_intent ?b m fi_enter, fcc_call (fb_enter ?b)]"
  let ?config = "[fcc_intent ?b m fi_config, full_cfg ?b, fcc_call (fb_config ?b (dm_config ?t))]"
  let ?dc = "if m = FM_ColdFactory then [fcc_intent ?b m fi_dc, full_cfg ?b, fcc_call (fb_dc ?b 65)] else []"
  let ?fcc = "if dm_fcc first \<noteq> 65 then [fcc_intent ?b m fi_fcc, full_cfg ?b, fcc_call (fb_fcc ?b 65)] else []"
  have target: "fj_target (fc_journal z) = ?t" if "calm True x z" for z using calm_fields(2)[OF that] .
  have config: "calm_steps ?config z" if "calm True x z" for z
    using calm_writes(1)[of b m z] target[OF that] by (simp add: calm_steps_def del: all_of.simps recorded_simps)
  have dc: "calm_steps ?dc z" if "calm True x z" for z
    using calm_writes(2)[of b m z] target[OF that] assms(3)
    by (intro calm_if) (simp add: calm_steps_def del: all_of.simps recorded_simps)
  have fcc: "calm_steps ?fcc z" if "calm True x z" for z
    using calm_writes(3)[of b m z] target[OF that] assms(4)
    by (intro calm_if) (simp add: calm_steps_def del: all_of.simps recorded_simps)
  have cfg: "calm_steps [full_cfg ?b] z" for z by (rule calm_single) (use full_cfg_calm in blast)
  have wait: "calm_steps [fcc_call (fb_wait ?b)] z" for z unfolding recorded_simps by (rule hush_calm)
  have verify: "calm_steps [fcc_call (fb_verify ?b ?t False)] z" for z unfolding recorded_simps by (rule hush_calm)
  have intent: "calm_steps [fcc_intent ?b m fi_target_verified] z" for z
    by (rule calm_single) (use intent_calm small_flags in blast)
  have enter: "calm_steps ?enter x" using enter_calm[OF _ assms(2)] unfolding calm_steps_def by blast
  have "calm_steps (?enter @ [fcc_call (fb_wait ?b)] @ [full_cfg ?b] @ ?config @ ?dc @ ?fcc @
      [fcc_call (fb_verify ?b ?t False)] @ [fcc_intent ?b m fi_target_verified]) x"
    by (rule calm_then[of x], simp, rule enter, (rule calm_then[of x], assumption, rule wait cfg config dc fcc verify, assumption?)+, rule intent)
  then show ?thesis using assms(1) unfolding fcc_change_def calm_steps_def by (simp del: all_of.simps recorded_simps)
qed

section \<open>Opening and closing\<close>

text \<open>The same as \<open>calm\<close>, with the keys and closing commands \<open>K\<close> in the log.\<close>

definition moved :: "fcc_command list \<Rightarrow> bool \<Rightarrow> ('s \<times> fcc_event list) fcc \<Rightarrow> ('s \<times> fcc_event list) fcc \<Rightarrow> bool" where
  "moved K ok x y \<longleftrightarrow>
     (\<exists>l. fcc_log y = fcc_log x @ l \<and> (\<forall>e. successively fcc_follows (e # l)) \<and> commands l = K \<and> (ok \<longrightarrow> list_all fcc_event_ok l)) \<and>
     fc_accessed y = fc_accessed x \<and> fc_exited y = fc_exited x \<and>
     (\<exists>n. fc_journal y = (fc_journal x)\<lparr>fj_intents := n\<rparr>) \<and>
     (fj_intents (fc_journal x) AND 384 = 0 \<longrightarrow> fj_intents (fc_journal y) AND 384 = 0)"

lemma calm_moved: "calm ok x y = moved [] ok x y"
  by (simp add: calm_def moved_def)

lemma moved_refl: "moved [] ok x x"
  by (simp flip: calm_moved)

lemma full_moved:
  assumes "all_of [fcc_intent (recorded_fcc b) m fi_full, fcc_call (fb_full (recorded_fcc b))] x = (ok, y)"
  shows "\<exists>K\<in>{[], [Key_Full]}. moved K ok x y \<and> (ok \<longrightarrow> K = [Key_Full])"
proof -
  obtain ok1 x1 where 1: "fcc_intent (recorded_fcc b) m fi_full x = (ok1, x1)" by (metis prod.exhaust)
  have c1: "calm ok1 x x1" using intent_calm[OF 1] small_flags by blast
  show ?thesis
  proof (cases ok1)
    case True
    then have 2: "fcc_call (tell FE_Full (fb_full b)) x1 = (ok, y)"
      using assms(1) 1 by (auto split: prod.splits bool.splits)
    have i: "fc_journal x1 = (fc_journal x)\<lparr>fj_intents := fj_intents (fc_journal x) OR fi_full\<rparr>"
      "fcc_log x1 = fcc_log x @ [FE_Save (fc_journal x1) True]" "fc_accessed x1 = fc_accessed x" "fc_exited x1 = fc_exited x"
      using intent_log[OF 1] True by (auto split: if_splits)
    note c = call_tell[OF 2]
    have "moved [Key_Full] ok x y"
      unfolding moved_def using i c c1
      by (intro conjI exI[of _ "[FE_Save (fc_journal x1) True, FE_Full ok]"] exI[of _ "fj_intents (fc_journal x) OR fi_full"])
        (simp_all add: commands_def command_of_def calm_def word_ao_absorbs)
    then show ?thesis by blast
  qed (use assms(1) 1 c1 in \<open>simp add: calm_moved\<close>)
qed

lemma moved_calm:
  assumes "calm True x y" "moved K ok y z"
  shows "moved K ok x z"
proof -
  obtain l k where l: "fcc_log y = fcc_log x @ l" "\<forall>e. successively fcc_follows (e # l)" "commands l = []" "list_all fcc_event_ok l"
    and k: "fcc_log z = fcc_log y @ k" "\<forall>e. successively fcc_follows (e # k)" "commands k = K" "ok \<longrightarrow> list_all fcc_event_ok k"
    using assms unfolding calm_def moved_def by blast
  have "\<forall>e. successively fcc_follows (e # l @ k)" using successively_join[OF l(2) k(2)] by blast
  moreover obtain n m where "fc_journal y = (fc_journal x)\<lparr>fj_intents := n\<rparr>" "fc_journal z = (fc_journal y)\<lparr>fj_intents := m\<rparr>"
    using assms unfolding calm_def moved_def by blast
  then have "\<exists>n. fc_journal z = (fc_journal x)\<lparr>fj_intents := n\<rparr>" by (intro exI[of _ m]) simp
  ultimately show ?thesis
    unfolding moved_def using assms l k
    by (intro conjI exI[of _ "l @ k"]) (auto simp: calm_def moved_def commands_def)
qed

lemma calm_after_moved:
  assumes "moved K True x y" "calm ok y z"
  shows "moved K ok x z"
proof -
  obtain l k where l: "fcc_log y = fcc_log x @ l" "\<forall>e. successively fcc_follows (e # l)" "commands l = K" "list_all fcc_event_ok l"
    and k: "fcc_log z = fcc_log y @ k" "\<forall>e. successively fcc_follows (e # k)" "commands k = []" "ok \<longrightarrow> list_all fcc_event_ok k"
    using assms unfolding calm_def moved_def by blast
  have "\<forall>e. successively fcc_follows (e # l @ k)" using successively_join[OF l(2) k(2)] by blast
  moreover obtain n m where "fc_journal y = (fc_journal x)\<lparr>fj_intents := n\<rparr>" "fc_journal z = (fc_journal y)\<lparr>fj_intents := m\<rparr>"
    using assms unfolding calm_def moved_def by blast
  then have "\<exists>n. fc_journal z = (fc_journal x)\<lparr>fj_intents := n\<rparr>" by (intro exI[of _ m]) simp
  ultimately show ?thesis
    unfolding moved_def using assms l k
    by (intro conjI exI[of _ "l @ k"]) (auto simp: calm_def moved_def commands_def)
qed

text \<open>The access: the first event is the unseal pair, the rest is as above.\<close>

lemma fcc_access_log:
  assumes "fcc_access (recorded_fcc b) m x = (ok, y)"
  shows "\<exists>u x1 K. fcc_log x1 = fcc_log x @ [FE_Unseal u] \<and> fc_journal x1 = fc_journal x \<and> fc_accessed x1 = fc_accessed x \<and>
    fc_exited x1 = fc_exited x \<and> K \<in> {[], [Key_Full]} \<and> moved K ok x1 y \<and> (ok \<longrightarrow> u \<and> K = [Key_Full])"
proof -
  let ?b = "recorded_fcc b"
  obtain u x1 where 1: "fcc_call (tell FE_Unseal (fb_unseal b)) x = (u, x1)" by (rule prod.exhaust)
  note c = call_tell[OF 1]
  let ?rest = "[fcc_observe ?b (\<lambda>s. fsec_sec s = 2 \<and> normal_security s), fcc_check_quiet ?b m (\<lambda>_. True)]"
  let ?full = "[fcc_intent ?b m fi_full, fcc_call (fb_full ?b)]"
  let ?last = "[fcc_observe ?b (\<lambda>s. fsec_sec s = 1 \<and> normal_security s)]"
  have rest: "calm_steps ?rest z" for z
  proof -
    have "calm_steps [fcc_observe ?b (\<lambda>s. fsec_sec s = 2 \<and> normal_security s)] z"
      "\<And>y. calm_steps [fcc_check_quiet ?b m (\<lambda>_. True)] y"
      by (rule calm_single, use observe_calm(1) check_quiet_calm in blast)+
    then show ?thesis using calm_append[of "[fcc_observe ?b (\<lambda>s. fsec_sec s = 2 \<and> normal_security s)]"] by fastforce
  qed
  show ?thesis
  proof (cases u)
    case False
    then have "ok = False" "y = x1" using assms 1 by (simp_all add: fcc_access_def)
    then show ?thesis using c moved_refl by blast
  next
    case True
    have "all_of ([fcc_call (fb_unseal ?b)] @ ?rest @ ?full @ ?last) x = (ok, y)"
      using assms unfolding fcc_access_def append_Cons append_Nil .
    moreover have "all_of [fcc_call (fb_unseal ?b)] x = (True, x1)" using 1 True by (simp add: all_of_single del: all_of.simps)
    ultimately have run: "all_of (?rest @ ?full @ ?last) x1 = (ok, y)" by (rule all_of_step)
    obtain ok2 x2 where 2: "all_of ?rest x1 = (ok2, x2)" by (rule prod.exhaust)
    have c2: "calm ok2 x1 x2" using rest[of x1] 2 unfolding calm_steps_def by blast
    show ?thesis
    proof (cases ok2)
      case False
      then have "all_of ?rest x1 = (False, x2)" using 2 by (simp only:)
      from all_of_stop[OF run this] have "\<not> ok" "y = x2" by blast+
      then show ?thesis using c c2 False by (intro exI[of _ u] exI[of _ x1] exI[of _ "[]"]) (simp add: calm_moved)
    next
      case ok2: True
      have "all_of ?rest x1 = (True, x2)" using 2 ok2 by (simp only:)
      note run2 = all_of_step[OF run this]
      obtain ok3 x3 where 3: "all_of ?full x2 = (ok3, x3)" by (rule prod.exhaust)
      obtain K where K: "K \<in> {[], [Key_Full]}" "moved K ok3 x2 x3" "ok3 \<longrightarrow> K = [Key_Full]" using full_moved[OF 3] by blast
      have "calm True x1 x2" using c2 ok2 by simp
      note m3 = moved_calm[OF this K(2)]
      show ?thesis
      proof (cases ok3)
        case False
        then have "all_of ?full x2 = (False, x3)" using 3 by (simp only:)
        from all_of_stop[OF run2 this] have "\<not> ok" "y = x3" by blast+
        then show ?thesis using c m3 K(1) False by (intro exI[of _ u] exI[of _ x1] exI[of _ K]) simp
      next
        case True
        then have 4: "fcc_observe ?b (\<lambda>s. fsec_sec s = 1 \<and> normal_security s) x3 = (ok, y)"
        proof -
          have "all_of ?full x2 = (True, x3)" using 3 True by (simp only:)
          from all_of_step[OF run2 this] show ?thesis unfolding all_of_single .
        qed
        have "moved K True x1 x3" using m3 True by simp
        note calm_after_moved[OF this observe_calm(1)[OF 4], of ok]
        then show ?thesis using c K(1,3) True \<open>u\<close> by (intro exI[of _ u] exI[of _ x1] exI[of _ K]) simp
      qed
    qed
  qed
qed

text \<open>The cleanup sends the two closing commands, whatever is recorded.\<close>

lemma closing_bits:
  assumes "(n :: u16) AND 384 = 0"
  shows "n AND fi_exit = 0" "(n OR fi_exit) AND fi_seal = 0"
proof -
  have "n AND fi_exit = (n AND 384) AND fi_exit" "n AND fi_seal = (n AND 384) AND fi_seal"
    by (simp_all add: fcc_intents and.assoc)
  then show "n AND fi_exit = 0" "(n OR fi_exit) AND fi_seal = 0"
    using assms by (simp_all add: bit.conj_disj_distrib2) (simp add: fcc_intents)
qed

lemma fcc_cleanup_log:
  assumes "fcc_cleanup (recorded_fcc b) m x = (ok, y)" "fc_accessed x" "\<not> fc_exited x" "fj_intents (fc_journal x) AND 384 = 0"
  shows "\<exists>j1 c1 a j2 c2 z. fcc_log y = fcc_log x @ [FE_Save j1 c1, FE_Exit a, FE_Save j2 c2, FE_Reseal z] \<and>
    (\<forall>e. successively fcc_follows (e # [FE_Save j1 c1, FE_Exit a, FE_Save j2 c2, FE_Reseal z])) \<and>
    (ok \<longrightarrow> c1 \<and> a \<and> c2 \<and> z) \<and> (\<exists>n. fc_journal y = (fc_journal x)\<lparr>fj_intents := n\<rparr>)"
proof -
  let ?b = "recorded_fcc b"
  obtain c1 x1 where 1: "fcc_intent ?b m fi_exit (x\<lparr>fc_exited := True\<rparr>) = (c1, x1)" by (rule prod.exhaust)
  obtain a x2 where 2: "fcc_call (tell FE_Exit (fb_exit b)) x1 = (a, x2)" by (rule prod.exhaust)
  obtain c2 x3 where 3: "fcc_intent ?b m fi_seal x2 = (c2, x3)" by (rule prod.exhaust)
  obtain z x4 where 4: "fcc_call (tell FE_Reseal (fb_reseal b)) x3 = (z, x4)" by (rule prod.exhaust)
  obtain v x5 where 5: "fcc_observe ?b (\<lambda>s. fsec_sec s = 3 \<and> normal_security s) x4 = (v, x5)" by (rule prod.exhaust)
  have y: "y = x5" "ok = (v \<and> (c1 \<and> a) \<and> c2 \<and> z)"
    using assms(1-3) 1 2 3 4 5 by (simp_all add: fcc_cleanup_def)
  let ?j1 = "(fc_journal x)\<lparr>fj_intents := fj_intents (fc_journal x) OR fi_exit\<rparr>"
  let ?j2 = "?j1\<lparr>fj_intents := fj_intents ?j1 OR fi_seal\<rparr>"
  have i1: "fc_journal x1 = ?j1" "fcc_log x1 = fcc_log x @ [FE_Save ?j1 c1]"
    using intent_log[OF 1] closing_bits(1)[OF assms(4)] by (simp_all add: fcc_log_def)
  have i2: "fc_journal x2 = ?j1" "fcc_log x2 = fcc_log x @ [FE_Save ?j1 c1, FE_Exit a]" using call_tell[OF 2] i1 by simp_all
  have i3: "fc_journal x3 = ?j2" "fcc_log x3 = fcc_log x @ [FE_Save ?j1 c1, FE_Exit a, FE_Save ?j2 c2]"
    using intent_log[OF 3] closing_bits(2)[OF assms(4)] i2 by simp_all
  have i5: "fc_journal x5 = ?j2" "fcc_log x5 = fcc_log x @ [FE_Save ?j1 c1, FE_Exit a, FE_Save ?j2 c2, FE_Reseal z]"
    using call_tell[OF 4] observe_calm(2,3)[OF 5] i3 by simp_all
  have "successively fcc_follows (e # [FE_Save ?j1 c1, FE_Exit a, FE_Save ?j2 c2, FE_Reseal z])" for e
    by (simp add: fcc_follows_def[of _ "FE_Exit a"] fcc_follows_def[of _ "FE_Reseal z"] intent_saved_def word_ao_absorbs)
  then show ?thesis using i5 y by (intro exI conjI) auto
qed

section \<open>The whole run\<close>

text \<open>The end of every run that opened the access: cleanup and the final journal.\<close>

definition closed_by :: "fcc_event list \<Rightarrow> fcc_journal \<Rightarrow> fcc_event list \<Rightarrow> bool" where
  "closed_by front j l \<longleftrightarrow>
     (\<exists>j1 c1 a j2 c2 z c3. l = front @ [FE_Save j1 c1, FE_Exit a, FE_Save j2 c2, FE_Reseal z, FE_Save j c3])"

lemma commands_closed: "closed_by front j l \<Longrightarrow> commands l = commands front @ [Cmd_Exit, Cmd_Seal]"
  by (auto simp: closed_by_def commands_def command_of_def)

lemma save_log:
  assumes "fcc_save (recorded_fcc b) m x = (ok, y)"
  shows "fcc_log y = fcc_log x @ [FE_Save (fc_journal x) ok]" "fc_journal y = fc_journal x"
  using call_tell[of "FE_Save (fc_journal x)" "fb_save b (fcc_key m) (fc_journal x)" x ok y] assms by (simp_all add: fcc_save_def)

text \<open>A failing run: from any state behind the unseal, the rollback and the closing.\<close>

lemma fail_log:
  assumes "fcc_fail (recorded_fcc b) m x = (r, y)" "fc_accessed x" "\<not> fc_exited x" "fj_intents (fc_journal x) AND 384 = 0"
  shows "\<exists>l. r = FR_Failed \<and> closed_by (fcc_log x @ l) (fc_journal y) (fcc_log y) \<and> commands l = [] \<and>
    (\<exists>t. fcc_log y = fcc_log x @ t \<and> (\<forall>e. successively fcc_follows (e # t)))"
proof -
  let ?b = "recorded_fcc b" and ?x1 = "rollback (recorded_fcc b) m x"
  have c: "calm False x ?x1" by (rule rollback_calm)
  then obtain l where l: "fcc_log ?x1 = fcc_log x @ l" "\<forall>e. successively fcc_follows (e # l)" "commands l = []"
    unfolding calm_def by blast
  have m: "fc_accessed ?x1" "\<not> fc_exited ?x1" "fj_intents (fc_journal ?x1) AND 384 = 0"
    using c assms(2-4) unfolding calm_def by auto
  obtain ok x2 where 2: "fcc_cleanup ?b m ?x1 = (ok, x2)" by (rule prod.exhaust)
  from fcc_cleanup_log[OF 2 m] obtain j1 c1 a j2 c2 z where
    k: "fcc_log x2 = fcc_log ?x1 @ [FE_Save j1 c1, FE_Exit a, FE_Save j2 c2, FE_Reseal z]"
      "\<forall>e. successively fcc_follows (e # [FE_Save j1 c1, FE_Exit a, FE_Save j2 c2, FE_Reseal z])" by blast
  let ?x3 = "x2\<lparr>fc_journal := (fc_journal x2)\<lparr>fj_state := FS_Failed\<rparr>\<rparr>"
  obtain ok3 x3 where 3: "fcc_save ?b m ?x3 = (ok3, x3)" by (rule prod.exhaust)
  have y: "r = FR_Failed" "y = x3" using assms(1,2) 2 3 by (simp_all add: fcc_fail_def Let_def)
  have l3: "fcc_log ?x3 = fcc_log x2" by (simp add: fcc_log_def)
  have "\<forall>e. successively fcc_follows (e # l @ ([FE_Save j1 c1, FE_Exit a, FE_Save j2 c2, FE_Reseal z] @
      [FE_Save (fc_journal x3) ok3]))"
    using successively_join[OF l(2)] successively_join[OF k(2), of "[FE_Save (fc_journal x3) ok3]"] by simp
  then show ?thesis
    using y l k save_log[OF 3] l3
    by (intro exI[of _ l]) (auto simp: closed_by_def)
qed

lemma finish_log:
  assumes "fcc_finish (recorded_fcc b) m x = (r, y)" "fc_accessed x" "\<not> fc_exited x" "fj_intents (fc_journal x) AND 384 = 0"
  shows "closed_by (fcc_log x) (fc_journal y) (fcc_log y) \<and> r \<noteq> FR_Rejected \<and>
    (\<exists>t. fcc_log y = fcc_log x @ t \<and> (\<forall>e. successively fcc_follows (e # t)) \<and> (r = FR_Verified \<longrightarrow> list_all fcc_event_ok t)) \<and>
    (r = FR_Verified \<longrightarrow> fj_state (fc_journal y) = FS_Verified) \<and> fj_target (fc_journal y) = fj_target (fc_journal x) \<and>
    fj_before (fc_journal y) = fj_before (fc_journal x)"
proof -
  let ?b = "recorded_fcc b"
  obtain ok x2 where 2: "fcc_cleanup ?b m x = (ok, x2)" by (rule prod.exhaust)
  from fcc_cleanup_log[OF 2 assms(2-4)] obtain j1 c1 a j2 c2 z n where
    k: "fcc_log x2 = fcc_log x @ [FE_Save j1 c1, FE_Exit a, FE_Save j2 c2, FE_Reseal z]"
      "\<forall>e. successively fcc_follows (e # [FE_Save j1 c1, FE_Exit a, FE_Save j2 c2, FE_Reseal z])"
      "ok \<longrightarrow> c1 \<and> a \<and> c2 \<and> z" "fc_journal x2 = (fc_journal x)\<lparr>fj_intents := n\<rparr>" by blast
  obtain v x3 where 3: "fcc_call (hush (fb_verify b (fj_target (fc_journal x2)) True)) x2 = (v, x3)" by (rule prod.exhaust)
  define w where "w = (if ok then x3 else x2)"
  define v' where "v' \<longleftrightarrow> ok \<and> v"
  have w: "fcc_log w = fcc_log x2" "fc_journal w = fc_journal x2" using call_hush(2,3)[OF 3] by (simp_all add: w_def)
  let ?w = "w\<lparr>fc_journal := (fc_journal w)\<lparr>fj_state := if v' then FS_Verified else FS_Failed\<rparr>\<rparr>"
  obtain ok4 x4 where 4: "fcc_save ?b m ?w = (ok4, x4)" by (rule prod.exhaust)
  have y: "r = (if v' \<and> ok4 then FR_Verified else FR_Failed)" "y = x4"
    using assms(1) 2 3 4 by (cases ok; simp add: fcc_finish_def w_def v'_def)+
  have l4: "fcc_log ?w = fcc_log w" by (simp add: fcc_log_def)
  have "\<forall>e. successively fcc_follows (e # [FE_Save j1 c1, FE_Exit a, FE_Save j2 c2, FE_Reseal z] @ [FE_Save (fc_journal x4) ok4])"
    using successively_join[OF k(2), of "[FE_Save (fc_journal x4) ok4]"] by simp
  moreover have "fcc_log y = fcc_log x @ [FE_Save j1 c1, FE_Exit a, FE_Save j2 c2, FE_Reseal z] @ [FE_Save (fc_journal x4) ok4]"
    using y save_log[OF 4] l4 w k(1) by simp
  ultimately show ?thesis
    using y k(3,4) w save_log(2)[OF 4]
    by (auto simp: closed_by_def v'_def intro!: exI[of _ "[FE_Save j1 c1, FE_Exit a, FE_Save j2 c2, FE_Reseal z] @ [FE_Save (fc_journal x4) ok4]"])
qed

text \<open>The admission and the snapshots only read.\<close>

definition quietly :: "('s \<times> fcc_event list) fcc \<Rightarrow> ('s \<times> fcc_event list) fcc \<Rightarrow> bool" where
  "quietly x y \<longleftrightarrow> fcc_log y = fcc_log x \<and> fc_journal y = fc_journal x \<and> fc_accessed y = fc_accessed x \<and> fc_exited y = fc_exited x"

lemma quietly_refl [simp]: "quietly x x" and quietly_trans [trans]: "quietly x y \<Longrightarrow> quietly y z \<Longrightarrow> quietly x z"
  by (auto simp: quietly_def)

lemma call_quietly: "fcc_call (hush f) x = (a, y) \<Longrightarrow> quietly x y"
  using call_hush(1)[of f x a y True] call_hush(2,3)[of f x a y] unfolding quietly_def calm_def by blast

lemma observe_quietly: "fcc_observe (recorded_fcc b) P x = (a, y) \<Longrightarrow> quietly x y"
  using observe_calm(1)[of b P x a y True] observe_calm(2,3)[of b P x a y] unfolding quietly_def calm_def by blast

lemma check_quietly:
  assumes "fcc_check_quiet (recorded_fcc b) m P x = (a, y)"
  shows "quietly x y"
proof -
  obtain r z where c: "fcc_call (hush (fb_quiet b)) x = (r, z)" by (rule prod.exhaust)
  then have "y = z" using assms by (cases r) (simp_all add: fcc_check_quiet_def)
  then show ?thesis using call_quietly[OF c] by simp
qed

lemma snapshots_quietly:
  assumes "fcc_snapshots (recorded_fcc b) m i x = (a, y)"
  shows "quietly x y"
proof -
  obtain r1 x1 where 1: "fcc_call (hush (fb_dm b)) x = (r1, x1)" by (rule prod.exhaust)
  obtain r2 x2 where 2: "fcc_call (hush (fb_dm b)) x1 = (r2, x2)" by (rule prod.exhaust)
  have "y = x1 \<or> y = x2" using assms 1 2 by (cases r1; cases r2) (simp_all add: fcc_snapshots_def)
  then show ?thesis using call_quietly[OF 1] call_quietly[OF 2] quietly_trans by blast
qed

lemma admit_quietly:
  assumes "fcc_admit (recorded_fcc b) m x = (a, y)"
  shows "quietly x y"
proof -
  let ?b = "recorded_fcc b"
  obtain load old x1 where 1: "fcc_call (hush (fb_load b (fcc_key m))) x = ((load, old), x1)" by (metis prod.exhaust)
  obtain i x2 where 2: "fcc_call (hush (fb_identity b)) x1 = (i, x2)" by (rule prod.exhaust)
  obtain c3 x3 where 3: "fcc_check_quiet ?b m (\<lambda>q. operation_sec q = 3) x2 = (c3, x3)" by (rule prod.exhaust)
  obtain c4 x4 where 4: "fcc_observe ?b (\<lambda>s. fsec_sec s = 3 \<and> normal_security s) x3 = (c4, x4)" by (rule prod.exhaust)
  obtain c5 x5 where 5: "fcc_call (hush (fb_qualify b)) x4 = (c5, x5)" by (rule prod.exhaust)
  note q = call_quietly[OF 1] call_quietly[OF 2] check_quietly[OF 3] observe_quietly[OF 4] call_quietly[OF 5]
  have "quietly x x2" "quietly x x3" "quietly x x4" "quietly x x5" using q quietly_trans by blast+
  moreover have "y \<in> {x1, x2, x3, x4, x5}"
    using assms 1 2 3 4 5
    by (cases i; cases c3; cases c4) (auto simp: fcc_admit_def split: if_splits)
  ultimately show ?thesis using q(1) by auto
qed

lemma commands_append [simp]: "commands (k @ l) = commands k @ commands l"
  by (simp add: commands_def)

text \<open>A state of the run behind the unseal: \<open>K\<close> are the keys sent since.\<close>

definition opened :: "fcc_journal \<Rightarrow> fcc_command list \<Rightarrow> bool \<Rightarrow> ('s \<times> fcc_event list) fcc \<Rightarrow> bool" where
  "opened j K ok z \<longleftrightarrow>
     (\<exists>u l. fcc_log z = [FE_Save j True, FE_Unseal u] @ l \<and> (\<forall>e. successively fcc_follows (e # l)) \<and> commands l = K \<and>
        (ok \<longrightarrow> u \<and> list_all fcc_event_ok l)) \<and>
     fc_accessed z \<and> \<not> fc_exited z \<and> fj_intents (fc_journal z) AND 384 = 0"

lemma opened_calm:
  assumes "opened j K True y" "calm ok y z"
  shows "opened j K ok z"
proof -
  obtain u l where l: "fcc_log y = [FE_Save j True, FE_Unseal u] @ l" "\<forall>e. successively fcc_follows (e # l)" "commands l = K"
    "u" "list_all fcc_event_ok l"
    using assms(1) unfolding opened_def by blast
  obtain k where k: "fcc_log z = fcc_log y @ k" "\<forall>e. successively fcc_follows (e # k)" "commands k = []" "ok \<longrightarrow> list_all fcc_event_ok k"
    using assms(2) unfolding calm_def by blast
  have "\<forall>e. successively fcc_follows (e # l @ k)" using successively_join[OF l(2) k(2)] by blast
  then have "\<exists>u l. fcc_log z = [FE_Save j True, FE_Unseal u] @ l \<and> (\<forall>e. successively fcc_follows (e # l)) \<and> commands l = K \<and>
      (ok \<longrightarrow> u \<and> list_all fcc_event_ok l)"
    using l k by (intro exI[of _ u] exI[of _ "l @ k"]) simp
  moreover have "fc_accessed z \<and> \<not> fc_exited z \<and> fj_intents (fc_journal z) AND 384 = 0"
    using assms unfolding opened_def calm_def by metis
  ultimately show ?thesis unfolding opened_def by blast
qed

lemma opened_weaken: "opened j K ok z \<Longrightarrow> opened j K False z"
  unfolding opened_def by blast

lemma opened_quietly: "opened j K ok y \<Longrightarrow> quietly y z \<Longrightarrow> opened j K ok z"
  by (simp add: opened_def quietly_def)

lemma opened_journal:
  "opened j K ok y \<Longrightarrow> fj_intents j' = fj_intents (fc_journal y) \<Longrightarrow> opened j K ok (y\<lparr>fc_journal := j'\<rparr>)"
  by (simp add: opened_def fcc_log_def)

lemma opened_follows:
  assumes "fj_intents j AND fi_unseal = fi_unseal" "\<forall>e. successively fcc_follows (e # l)" "\<forall>e. successively fcc_follows (e # t)"
  shows "successively fcc_follows (e # [FE_Save j True, FE_Unseal u] @ l @ t)"
  using assms successively_join[OF assms(2,3)] by simp

definition safe_log :: "fcc_result \<Rightarrow> ('s \<times> fcc_event list) fcc \<Rightarrow> bool" where
  "safe_log r x \<longleftrightarrow>
     (\<forall>e. successively fcc_follows (e # fcc_log x)) \<and>
     commands (fcc_log x) \<in> {[], [Key_Unseal, Cmd_Exit, Cmd_Seal], [Key_Unseal, Key_Full, Cmd_Exit, Cmd_Seal]} \<and>
     (commands (fcc_log x) = [] \<or> (\<exists>front. closed_by front (fc_journal x) (fcc_log x))) \<and>
     (r = FR_Verified \<longrightarrow> list_all fcc_event_ok (fcc_log x) \<and> fj_state (fc_journal x) = FS_Verified \<and>
      fj_target (fc_journal x) = \<lparr>dm_config = dm_config (fj_before (fc_journal x)) OR limit_bit, dm_dc = 65, dm_fcc = 65\<rparr>)"

lemma opened_fail:
  assumes "opened j K ok z" "K \<in> {[], [Key_Full]}" "fj_intents j AND fi_unseal = fi_unseal"
    "fcc_fail (recorded_fcc b) m z = (r, x)"
  shows "safe_log r x"
proof -
  obtain u l where l: "fcc_log z = [FE_Save j True, FE_Unseal u] @ l" "\<forall>e. successively fcc_follows (e # l)" "commands l = K"
    and z: "fc_accessed z" "\<not> fc_exited z" "fj_intents (fc_journal z) AND 384 = 0"
    using assms(1) unfolding opened_def by blast
  obtain k t where k: "r = FR_Failed" "closed_by (fcc_log z @ k) (fc_journal x) (fcc_log x)" "commands k = []"
    "fcc_log x = fcc_log z @ t" "\<forall>e. successively fcc_follows (e # t)"
    using fail_log[OF assms(4) z] by blast
  have log: "fcc_log x = [FE_Save j True, FE_Unseal u] @ l @ t" using k(4) l(1) by simp
  have "commands (fcc_log x) = [Key_Unseal] @ K @ [Cmd_Exit, Cmd_Seal]"
    unfolding commands_closed[OF k(2)] using l(1,3) k(3) by (simp add: commands_def command_of_def)
  moreover have "successively fcc_follows (e # fcc_log x)" for e
    unfolding log by (rule opened_follows[OF assms(3) l(2) k(5)])
  ultimately show ?thesis unfolding safe_log_def using assms(2) k(1,2) by auto
qed

lemma opened_finish:
  assumes "opened j [Key_Full] True z" "fj_intents j AND fi_unseal = fi_unseal" "fcc_finish (recorded_fcc b) m z = (r, x)"
    "fj_target (fc_journal z) = \<lparr>dm_config = dm_config (fj_before (fc_journal z)) OR limit_bit, dm_dc = 65, dm_fcc = 65\<rparr>"
  shows "safe_log r x"
proof -
  obtain u l where l: "fcc_log z = [FE_Save j True, FE_Unseal u] @ l" "\<forall>e. successively fcc_follows (e # l)" "commands l = [Key_Full]"
      "u" "list_all fcc_event_ok l"
    and z: "fc_accessed z" "\<not> fc_exited z" "fj_intents (fc_journal z) AND 384 = 0"
    using assms(1) unfolding opened_def by blast
  obtain t where k: "closed_by (fcc_log z) (fc_journal x) (fcc_log x)"
    "fcc_log x = fcc_log z @ t" "\<forall>e. successively fcc_follows (e # t)" "r = FR_Verified \<longrightarrow> list_all fcc_event_ok t"
    "r = FR_Verified \<longrightarrow> fj_state (fc_journal x) = FS_Verified" "fj_target (fc_journal x) = fj_target (fc_journal z)"
    "fj_before (fc_journal x) = fj_before (fc_journal z)"
    using finish_log[OF assms(3) z] by blast
  have log: "fcc_log x = [FE_Save j True, FE_Unseal u] @ l @ t" using k(2) l(1) by simp
  have "commands (fcc_log x) = [Key_Unseal, Key_Full, Cmd_Exit, Cmd_Seal]"
    unfolding commands_closed[OF k(1)] using l(1,3) by (simp add: commands_def command_of_def)
  moreover have "successively fcc_follows (e # fcc_log x)" for e
    unfolding log by (rule opened_follows[OF assms(2) l(2) k(3)])
  moreover have "r = FR_Verified \<longrightarrow> list_all fcc_event_ok (fcc_log x)" unfolding log using l(4,5) k(4) by simp
  ultimately show ?thesis unfolding safe_log_def using k assms(4) by auto
qed

lemma access_opened:
  assumes "fcc_access (recorded_fcc b) m x = (ok, y)" and x: "fcc_log x = [FE_Save j True]" "fc_accessed x" "\<not> fc_exited x"
    "fj_intents (fc_journal x) = fi_unseal"
  shows "\<exists>K. K \<in> {[], [Key_Full]} \<and> opened j K ok y \<and> (ok \<longrightarrow> K = [Key_Full])"
proof -
  obtain u xu K where u: "fcc_log xu = fcc_log x @ [FE_Unseal u]" "fc_journal xu = fc_journal x"
    "fc_accessed xu = fc_accessed x" "fc_exited xu = fc_exited x" "K \<in> {[], [Key_Full]}" "moved K ok xu y"
    "ok \<longrightarrow> u \<and> K = [Key_Full]"
    using fcc_access_log[OF assms(1)] by blast
  obtain l where l: "fcc_log y = fcc_log xu @ l" "\<forall>e. successively fcc_follows (e # l)" "commands l = K"
    "ok \<longrightarrow> list_all fcc_event_ok l" using u(6) unfolding moved_def by blast
  have "fj_intents (fc_journal xu) AND 384 = 0" using u(2) x(4) small_flags by simp
  then have "fc_accessed y \<and> \<not> fc_exited y \<and> fj_intents (fc_journal y) AND 384 = 0"
    using u(3,4,6) x(2,3) unfolding moved_def by simp
  then have "opened j K ok y"
    unfolding opened_def using u(1,7) l x(1) by (intro conjI exI[of _ u] exI[of _ l]) simp_all
  then show ?thesis using u(5,7) by blast
qed

text \<open>The measured part of the run, once both keys are accepted.\<close>

lemma measured_safe:
  assumes o3: "opened j [Key_Full] True x3" and j: "fj_intents j AND fi_unseal = fi_unseal"
    and run: "(case fcc_snapshots (recorded_fcc b) m i x3 of
        (None, x) \<Rightarrow> fcc_fail (recorded_fcc b) m x
      | (Some first, x) \<Rightarrow>
     (case fcc_change (recorded_fcc b) m first
          (x\<lparr>fc_journal := (fc_journal x)
             \<lparr>fj_before := first,
              fj_target := \<lparr>dm_config = dm_config first OR limit_bit, dm_dc = 65, dm_fcc = 65\<rparr>, fj_backup := True\<rparr>\<rparr>) of
        (False, x) \<Rightarrow> fcc_fail (recorded_fcc b) m x
      | (True, x) \<Rightarrow> fcc_finish (recorded_fcc b) m x)) = (r, x)"
  shows "safe_log r x"
proof -
  let ?b = "recorded_fcc b"
  obtain f x4 where 4: "fcc_snapshots ?b m i x3 = (f, x4)" by (rule prod.exhaust)
  have o4: "opened j [Key_Full] True x4" by (rule opened_quietly[OF o3 snapshots_quietly[OF 4]])
  show ?thesis
  proof (cases f)
    case None
    then show ?thesis using opened_fail[OF opened_weaken[OF o4] _ j] run 4 by simp
  next
    case (Some first)
    let ?x4 = "x4\<lparr>fc_journal := (fc_journal x4)\<lparr>fj_before := first,
        fj_target := \<lparr>dm_config = dm_config first OR limit_bit, dm_dc = 65, dm_fcc = 65\<rparr>, fj_backup := True\<rparr>\<rparr>"
    obtain ok5 x5 where 5: "fcc_change ?b m first ?x4 = (ok5, x5)" by (rule prod.exhaust)
    have c5: "calm ok5 ?x4 x5" using change_calm[OF 5] by simp
    have o5: "opened j [Key_Full] ok5 x5" using opened_calm[OF opened_journal[OF o4] c5] by simp
    show ?thesis
    proof (cases ok5)
      case False
      then show ?thesis using opened_fail[OF o5 _ j] run 4 5 Some by simp
    next
      case True
      then have fin: "fcc_finish ?b m x5 = (r, x)" using run 4 5 Some by simp
      have "fj_target (fc_journal x5) = \<lparr>dm_config = dm_config (fj_before (fc_journal x5)) OR limit_bit, dm_dc = 65, dm_fcc = 65\<rparr>"
        using calm_fields(1,2)[OF c5] by simp
      moreover have "opened j [Key_Full] True x5" using o5 True by simp
      ultimately show ?thesis using opened_finish[OF _ j fin] by blast
    qed
  qed
qed

lemma run_safe_log:
  assumes "fcc_run (recorded_fcc b) m (s, []) = (r, x)"
  shows "safe_log r x"
proof -
  let ?b = "recorded_fcc b"
  let ?x0 = "\<lparr>fc_journal = fcc_journal0, fc_accessed = False, fc_exited = False, fc_env = (s, [])\<rparr>"
  obtain a x1 where 1: "fcc_admit ?b m ?x0 = (a, x1)" by (rule prod.exhaust)
  have q1: "fcc_log x1 = []" "fc_journal x1 = fcc_journal0" "\<not> fc_exited x1"
    using admit_quietly[OF 1] by (simp_all add: quietly_def fcc_log_def)
  show ?thesis
  proof (cases a)
    case None
    then show ?thesis using assms 1 q1 by (simp add: fcc_run_def commands_def safe_log_def)
  next
    case (Some i)
    let ?x1 = "x1\<lparr>fc_journal := (fc_journal x1)\<lparr>fj_mac := fid_mac i\<rparr>\<rparr>"
    obtain c x2 where 2: "fcc_intent ?b m fi_unseal ?x1 = (c, x2)" by (rule prod.exhaust)
    have x1: "fcc_log ?x1 = []" "fj_intents (fc_journal ?x1) = 0" "\<not> fc_exited ?x1" using q1 by (simp_all add: fcc_log_def fcc_journal0_def)
    have i2: "fj_intents (fc_journal x2) = fi_unseal" "fcc_log x2 = [FE_Save (fc_journal x2) c]" "\<not> fc_exited x2"
      using intent_log[OF 2] x1 by simp_all
    show ?thesis
    proof (cases c)
      case False
      then show ?thesis using assms 1 2 Some i2 by (simp add: fcc_run_def commands_def command_of_def safe_log_def)
    next
      case c: True
      let ?j = "fc_journal x2" and ?x2 = "x2\<lparr>fc_accessed := True\<rparr>"
      have j: "fj_intents ?j AND fi_unseal = fi_unseal" using i2(1) by simp
      obtain ok3 x3 where 3: "fcc_access ?b m ?x2 = (ok3, x3)" by (rule prod.exhaust)
      have "fcc_log ?x2 = [FE_Save ?j True]" using i2(2) c by (simp add: fcc_log_def)
      then obtain K where K: "K \<in> {[], [Key_Full]}" "opened ?j K ok3 x3" "ok3 \<longrightarrow> K = [Key_Full]"
        using access_opened[OF 3] i2(1,3) by auto
      show ?thesis
      proof (cases ok3)
        case False
        then show ?thesis using opened_fail[OF K(2,1) j] assms 1 2 3 c Some by (simp add: fcc_run_def)
      next
        case True
        let ?x3 = "x3\<lparr>fc_journal := (fc_journal x3)\<lparr>fj_full_verified := True\<rparr>\<rparr>"
        have "opened ?j [Key_Full] True ?x3" using opened_journal[OF K(2)] K(3) True by simp
        then show ?thesis using measured_safe[OF _ j] assms 1 2 3 c Some True by (simp add: fcc_run_def)
      qed
    qed
  qed
qed

text \<open>C27: Whatever the gauge and the storage answer, a run of the repair is safe. Every command follows directly a journal write
  that announces it, and the writes a successful one: a write of the configuration, the design or the full-charge capacity
  carries the target of that journal under its change intent or the backup under its restore intent, and the configuration
  mode is entered only with the backup stored. The keys and closing commands of the whole run are none, or unseal, exit and
  seal, or unseal, full access, exit and seal, each once and in this order; so the access, once opened, is always closed and
  no key is repeated, and a run that opened it ends with the closing and the final journal. A run is verified only when every
  one of its events succeeded, the journal says so, and its target has the limit bit and the nominal capacities.
\<close>

theorem fcc_run_safe:
  assumes "fcc_run (recorded_fcc b) m (s, []) = (r, x)"
  shows "successively fcc_follows (FE_Save fcc_journal0 False # fcc_log x) \<and>
    commands (fcc_log x) \<in> {[], [Key_Unseal, Cmd_Exit, Cmd_Seal], [Key_Unseal, Key_Full, Cmd_Exit, Cmd_Seal]} \<and>
    (commands (fcc_log x) = [] \<or> (\<exists>front. closed_by front (fc_journal x) (fcc_log x))) \<and>
    (r = FR_Verified \<longrightarrow> list_all fcc_event_ok (fcc_log x) \<and> fj_state (fc_journal x) = FS_Verified \<and>
      fj_target (fc_journal x) = \<lparr>dm_config = dm_config (fj_before (fc_journal x)) OR limit_bit, dm_dc = 65, dm_fcc = 65\<rparr>)"
  using run_safe_log[OF assms] unfolding safe_log_def by blast

text \<open>A gauge that follows the commands, at rest with the nominal design capacity and 100 mAh.\<close>

record sim_gauge =
  sg_sec :: u8
  sg_cfg :: bool
  sg_dm :: fcc_dm

definition sim_backend :: "sim_gauge fcc_backend" where
  "sim_backend =
     \<lparr>fb_load = (\<lambda>_. Pair (FL_Absent, fcc_journal0)),
      fb_identity = Pair (Some \<lparr>fid_mac = [1, 2, 3, 4, 5, 6], fid_device = 0x0220, fid_nominal_proof = True,
        fid_access_proof = True, fid_cold_profile = False, fid_cold_config = 0\<rparr>),
      fb_quiet = Pair (Some \<lparr>fq_operation = 0x0026, fq_soc = 100, fq_mv = 4200, fq_dc = 65, fq_fcc = 100,
        fq_temperature = 3000, fq_current = 0, fq_average = 0\<rparr>),
      fb_security = (\<lambda>g. (Some \<lparr>fsec_sec = sg_sec g, fsec_cfg = sg_cfg g, fsec_cal = False, fsec_initialized = True\<rparr>, g)),
      fb_qualify = Pair True, fb_save = (\<lambda>_ _. Pair True), fb_dm = (\<lambda>g. (Some (sg_dm g), g)),
      fb_unseal = (\<lambda>g. (True, g\<lparr>sg_sec := 2\<rparr>)), fb_full = (\<lambda>g. (True, g\<lparr>sg_sec := 1\<rparr>)),
      fb_enter = (\<lambda>g. (True, g\<lparr>sg_cfg := True\<rparr>)), fb_wait = Pair True,
      fb_config = (\<lambda>v g. (True, g\<lparr>sg_dm := (sg_dm g)\<lparr>dm_config := v\<rparr>\<rparr>)),
      fb_dc = (\<lambda>v g. (True, g\<lparr>sg_dm := (sg_dm g)\<lparr>dm_dc := v\<rparr>\<rparr>)),
      fb_fcc = (\<lambda>v g. (True, g\<lparr>sg_dm := (sg_dm g)\<lparr>dm_fcc := v\<rparr>\<rparr>)),
      fb_verify = (\<lambda>t _ g. (same_dm (sg_dm g) t, g)), fb_exit = (\<lambda>g. (True, g\<lparr>sg_cfg := False\<rparr>)),
      fb_reseal = (\<lambda>g. (True, g\<lparr>sg_sec := 3\<rparr>))\<rparr>"

definition sim_gauge0 :: sim_gauge where
  "sim_gauge0 = \<lparr>sg_sec = 3, sg_cfg = False, sg_dm = \<lparr>dm_config = 0x0012, dm_dc = 65, dm_fcc = 100\<rparr>\<rparr>"

lemma sim_run: "fst (fcc_run (recorded_fcc sim_backend) FM_Runtime (sim_gauge0, [])) = FR_Verified"
  by code_simp

theorem fcc_run_safe_witness:
  "\<exists>x. fcc_run (recorded_fcc sim_backend) FM_Runtime (sim_gauge0, []) = (FR_Verified, x) \<and>
     list_all fcc_event_ok (fcc_log x) \<and> dm_dc (fj_target (fc_journal x)) = 65"
proof -
  obtain r x where r: "fcc_run (recorded_fcc sim_backend) FM_Runtime (sim_gauge0, []) = (r, x)" by (rule prod.exhaust)
  then have "r = FR_Verified" using sim_run by simp
  then show ?thesis using fcc_run_safe[OF r] r by (intro exI[of _ x]) auto
qed

section \<open>The quiet window\<close>

type_synonym quiet_sample = "fcc_quiet \<times> fcc_security \<times> int"

definition sample_time :: "quiet_sample \<Rightarrow> int" where "sample_time x = snd (snd x)"

definition sample_good :: "quiet_sample \<Rightarrow> bool" where
  "sample_good x \<longleftrightarrow> 0 \<le> sample_time x \<and> fcc_quiet_ok (fst x) \<and> operation_sec (fst x) = 3 \<and>
     fsec_sec (fst (snd x)) = 3 \<and> normal_security (fst (snd x))"

definition sample_gap :: "int \<Rightarrow> int \<Rightarrow> bool" where
  "sample_gap a b \<longleftrightarrow> a \<le> b \<and> b - a \<le> 2500000"

definition qual_run :: "quiet_sample list \<Rightarrow> qualification" where
  "qual_run xs = foldl (\<lambda>w x. snd (qual_sample w (fst x) (fst (snd x)) (snd (snd x)))) qualification0 xs"

lemma qual_run_state:
  "qual_run xs =
     (let good = list_all sample_good xs \<and> successively (\<lambda>x y. sample_gap (sample_time x) (sample_time y)) xs in
      if xs = [] then qualification0
      else if good then \<lparr>qq_started = True, qq_failed = False, qq_first = sample_time (hd xs), qq_last = sample_time (last xs)\<rparr>
      else qual_run xs) \<and>
   (qq_failed (qual_run xs) \<longleftrightarrow> \<not> (list_all sample_good xs \<and> successively (\<lambda>x y. sample_gap (sample_time x) (sample_time y)) xs))"
proof (induction xs rule: rev_induct)
  case Nil
  then show ?case by (simp add: qual_run_def qualification0_def)
next
  case (snoc x xs)
  have step: "qual_run (xs @ [x]) = snd (qual_sample (qual_run xs) (fst x) (fst (snd x)) (snd (snd x)))"
    by (simp add: qual_run_def)
  show ?case
  proof (cases "xs = []")
    case True
    then show ?thesis unfolding step
      by (auto simp: qual_run_def qualification0_def qual_sample_def sample_good_def sample_time_def Let_def)
  next
    case ne: False
    show ?thesis
    proof (cases "qq_failed (qual_run xs)")
      case True
      then have "\<not> (list_all sample_good xs \<and> successively (\<lambda>x y. sample_gap (sample_time x) (sample_time y)) xs)"
        using snoc by blast
      then show ?thesis unfolding step using True ne by (auto simp: qual_sample_def successively_append_iff)
    next
      case False
      then have g: "list_all sample_good xs" "successively (\<lambda>x y. sample_gap (sample_time x) (sample_time y)) xs"
        using snoc by blast+
      then have "qual_run xs = \<lparr>qq_started = True, qq_failed = False, qq_first = sample_time (hd xs), qq_last = sample_time (last xs)\<rparr>"
        using snoc ne by (simp add: Let_def)
      then show ?thesis unfolding step using ne g
        by (auto simp: qual_sample_def successively_append_iff sample_good_def[of x] sample_gap_def sample_time_def Let_def)
    qed
  qed
qed

text \<open>The qualification of a quiet gauge is exact: it is ready at a time exactly when at least one sample was taken, every
  sample was quiet, sealed and normal, no two consecutive ones (nor the last one and now) are more than 2.5 seconds apart or
  out of order, and the first one is at least 120 seconds old. One bad sample spoils it for good.\<close>

theorem quiet_window_exact:
  "qual_ready (qual_run xs) now =
     (xs \<noteq> [] \<and> list_all sample_good xs \<and> successively (\<lambda>x y. sample_gap (sample_time x) (sample_time y)) xs \<and>
      sample_gap (sample_time (last xs)) now \<and> 120000000 \<le> now - sample_time (hd xs))"
proof (cases "xs = []")
  case True
  then show ?thesis by (simp add: qual_run_def qual_ready_def qualification0_def)
next
  case False
  then show ?thesis using qual_run_state[of xs]
    by (cases "qq_failed (qual_run xs)") (auto simp: qual_ready_def sample_gap_def Let_def)
qed

end
