(* ===== verification/Slot_Journal.thy ===== *)
theory Slot_Journal
  imports Trace_Backend
begin

text \<open>
  The two-slot journals that the gauge experiments keep in the key-value flash storage (NVS): a record is written to the
  slot that is not selected, and the pair is only accepted when the newer record follows the older one by a legal
  transition. The three journals of the firmware (\<open>mosaico_gauge_scale_journal\<close>, \<open>mosaico_gauge_contrast_journal\<close>,
  \<open>mosaico_factory_scale_journal\<close>) repeat the same code over different records; the record type, its codec and its
  transition relation are the parameters of the definitions here. The storage itself is third-party: its handle
  operations are the record \<open>nvs\<close>, their documented behaviour the locale \<open>nvs_blobs\<close>.
\<close>

lemma succ_not_zero: "(x :: u32) \<noteq> 0xffffffff \<Longrightarrow> x + 1 \<noteq> 0"
proof
  assume "x \<noteq> 0xffffffff" "x + 1 = 0"
  then have "x = - 1" by (simp add: eq_neg_iff_add_eq_0)
  with \<open>x \<noteq> 0xffffffff\<close> show False by simp
qed

lemma unat_succ: "(x :: u32) \<noteq> 0xffffffff \<Longrightarrow> unat (x + 1) = Suc (unat x)"
  using succ_not_zero[of x] unatSuc[of x] by (simp add: add.commute)

section \<open>The storage handle\<close>

record 's nvs =
  nv_open_ro :: "'s \<Rightarrow> esp_err \<times> 's"
  nv_open_rw :: "'s \<Rightarrow> esp_err \<times> 's"
  nv_size :: "nat \<Rightarrow> 's \<Rightarrow> (esp_err \<times> nat) \<times> 's"
  nv_get :: "nat \<Rightarrow> nat \<Rightarrow> 's \<Rightarrow> (esp_err \<times> nat \<times> bytes) \<times> 's"
  nv_set :: "nat \<Rightarrow> bytes \<Rightarrow> 's \<Rightarrow> esp_err \<times> 's"
  nv_commit :: "'s \<Rightarrow> esp_err \<times> 's"
  nv_stats :: "'s \<Rightarrow> (esp_err \<times> nat) \<times> 's"

text \<open>
  \<open>stored\<close> is the blob under each of the two keys. A size query and a read show the stored blob when they answer
  \<open>ESP_OK\<close>, and only a missing key is reported as not found; a write replaces one blob as a whole or leaves it, and
  replaces it when it answers \<open>ESP_OK\<close>; nothing else changes a blob.
\<close>

locale nvs_blobs =
  fixes n :: "'s nvs"
    and blob :: nat
    and stored :: "'s \<Rightarrow> nat \<Rightarrow> bytes option"
  assumes open_ro_frame: "nv_open_ro n s = (e, s') \<Longrightarrow> stored s' = stored s"
    and open_ro_missing: "nv_open_ro n s = (ESP_ERR_NVS_NOT_FOUND, s') \<Longrightarrow> stored s 0 = None \<and> stored s 1 = None"
    and open_rw_frame: "nv_open_rw n s = (e, s') \<Longrightarrow> stored s' = stored s"
    and size_frame: "nv_size n k s = (a, s') \<Longrightarrow> stored s' = stored s"
    and size_missing: "nv_size n k s = ((ESP_ERR_NVS_NOT_FOUND, m), s') \<Longrightarrow> stored s k = None"
    and get_frame: "nv_get n k c s = (g, s') \<Longrightarrow> stored s' = stored s"
    and get_blob: "nv_get n k c s = ((ESP_OK, m, b), s') \<Longrightarrow> stored s k = Some b \<and> length b = m"
    and set_ok: "nv_set n k b s = (ESP_OK, s') \<Longrightarrow> stored s' = (stored s)(k \<mapsto> b)"
    and set_failed: "nv_set n k b s = (e, s') \<Longrightarrow> stored s' = stored s \<or> stored s' = (stored s)(k \<mapsto> b)"
    and nvs_commit_frame: "nv_commit n s = (e, s') \<Longrightarrow> stored s' = stored s"
    and stats_frame: "nv_stats n s = (q, s') \<Longrightarrow> stored s' = stored s"

section \<open>Slots\<close>

text \<open>
  \<open>ReadResult\<close> with the blob that \<open>Present\<close> delivers, and \<open>struct Store\<close>. \<open>ss_room\<close> is the check that one of the
  journals makes before its first record: a status that refuses it, or none.
\<close>

datatype slot_read = SR_Missing | SR_Present bytes | SR_Error

datatype slot_status = SS_Missing | SS_Ready | SS_Corrupt | SS_IoError | SS_Ambiguous | SS_Rejected | SS_NoSpace
  | SS_WriteFailed | SS_CommitFailed | SS_ReadbackFailed

record 's slot_store =
  ss_read :: "nat \<Rightarrow> 's \<Rightarrow> slot_read \<times> 's"
  ss_write :: "nat \<Rightarrow> bytes \<Rightarrow> 's \<Rightarrow> bool \<times> 's"
  ss_commit :: "'s \<Rightarrow> bool \<times> 's"
  ss_room :: "'s \<Rightarrow> slot_status option \<times> 's"

definition read_slot :: "nat \<Rightarrow> 's nvs \<Rightarrow> nat \<Rightarrow> 's \<Rightarrow> slot_read \<times> 's" where
  "read_slot blob n slot s =
     (if slot > 1 then (SR_Error, s)
      else case nv_size n slot s of ((probe, len), s) \<Rightarrow>
        if probe = ESP_ERR_NVS_NOT_FOUND then (SR_Missing, s)
        else if probe \<noteq> ESP_OK \<or> len \<noteq> blob then (SR_Error, s)
        else case nv_get n slot blob s of ((e, len, b), s) \<Rightarrow>
          (if e = ESP_OK \<and> len = blob then SR_Present b else SR_Error, s))"

definition write_slot :: "'s nvs \<Rightarrow> nat \<Rightarrow> bytes \<Rightarrow> 's \<Rightarrow> bool \<times> 's" where
  "write_slot n slot b s =
     (if slot < 2 then case nv_set n slot b s of (e, s) \<Rightarrow> (e = ESP_OK, s) else (False, s))"

definition commit_slots :: "'s nvs \<Rightarrow> 's \<Rightarrow> bool \<times> 's" where
  "commit_slots n s = (case nv_commit n s of (e, s) \<Rightarrow> (e = ESP_OK, s))"

definition nvs_store :: "nat \<Rightarrow> 's nvs \<Rightarrow> 's slot_store" where
  "nvs_store blob n = \<lparr>ss_read = read_slot blob n, ss_write = write_slot n, ss_commit = commit_slots n,
     ss_room = Pair None\<rparr>"

text \<open>
  The contract of a store over blobs of one size, in the states in which its handle stands for the namespace: a load and
  a successful write stay in these states.
\<close>

locale blob_store =
  fixes st :: "'s slot_store"
    and blob :: nat
    and stored :: "'s \<Rightarrow> nat \<Rightarrow> bytes option"
    and live :: "'s \<Rightarrow> bool"
  assumes read_frame: "ss_read st k s = (r, s') \<Longrightarrow> stored s' = stored s \<and> (live s \<longrightarrow> live s')"
    and read_missing: "live s \<Longrightarrow> k < 2 \<Longrightarrow> ss_read st k s = (SR_Missing, s') \<Longrightarrow> stored s k = None"
    and read_present: "ss_read st k s = (SR_Present b, s') \<Longrightarrow> stored s k = Some b \<and> length b = blob"
    and write_ok: "live s \<Longrightarrow> ss_write st k b s = (True, s') \<Longrightarrow> stored s' = (stored s)(k \<mapsto> b)"
    and write_failed: "live s \<Longrightarrow> ss_write st k b s = (False, s') \<Longrightarrow> stored s' = stored s \<or> stored s' = (stored s)(k \<mapsto> b)"
    and commit_frame: "ss_commit st s = (c, s') \<Longrightarrow> stored s' = stored s"
    and room_frame: "ss_room st s = (g, s') \<Longrightarrow> stored s' = stored s \<and> (live s \<longrightarrow> live s')"
    and room_refuses: "ss_room st s = (Some e, s') \<Longrightarrow> e \<noteq> SS_Ready"

sublocale nvs_blobs \<subseteq> blob_store "nvs_store blob n" blob stored "\<lambda>_. True"
proof
  fix k s r s' assume r: "ss_read (nvs_store blob n) k s = (r, s')"
  show "stored s' = stored s \<and> (True \<longrightarrow> True)"
    using r size_frame[of k s] get_frame[of k blob]
    by (auto simp: nvs_store_def read_slot_def split: prod.splits if_splits)
next
  fix k s s' assume r: "k < 2" "ss_read (nvs_store blob n) k s = (SR_Missing, s')"
  then show "stored s k = None"
    using size_missing[of k s]
    by (auto simp: nvs_store_def read_slot_def split: prod.splits if_splits)
next
  fix k s b s' assume r: "ss_read (nvs_store blob n) k s = (SR_Present b, s')"
  then show "stored s k = Some b \<and> length b = blob"
    using size_frame[of k s] get_blob[of k blob]
    by (fastforce simp: nvs_store_def read_slot_def split: prod.splits if_splits)
next
  fix k b s s' assume "ss_write (nvs_store blob n) k b s = (True, s')"
  then show "stored s' = (stored s)(k \<mapsto> b)"
    using set_ok[of k b s] by (auto simp: nvs_store_def write_slot_def split: prod.splits if_splits)
next
  fix k b s s' assume "ss_write (nvs_store blob n) k b s = (False, s')"
  then show "stored s' = stored s \<or> stored s' = (stored s)(k \<mapsto> b)"
    using set_failed[of k b s] by (auto simp: nvs_store_def write_slot_def split: prod.splits if_splits)
next
  fix s c s' assume "ss_commit (nvs_store blob n) s = (c, s')"
  then show "stored s' = stored s"
    using nvs_commit_frame[of s] by (auto simp: nvs_store_def commit_slots_def split: prod.splits)
qed (simp_all add: nvs_store_def)

context nvs_blobs
begin

lemma nvs_store_laws: "blob_store (nvs_store blob n) blob stored (\<lambda>_. True)"
  by (rule blob_store_axioms)

end

section \<open>Journals\<close>

text \<open>What the three copies of the code differ in.\<close>

record 'r journal_rules =
  jr_size :: nat
  jr_encode :: "'r \<Rightarrow> bytes option"
  jr_decode :: "bytes \<Rightarrow> bytes \<Rightarrow> 'r option"
  jr_mac :: "'r \<Rightarrow> bytes"
  jr_generation :: "'r \<Rightarrow> u32"
  jr_original :: "'r \<Rightarrow> bool"
  jr_transition :: "'r \<Rightarrow> 'r \<Rightarrow> bool"

text \<open>\<open>Loaded\<close>: a record of the array counts only under its \<open>valid\<close> flag, so the two are one option.\<close>

record 'r slots_loaded =
  sl_status :: slot_status
  sl_record0 :: "'r option"
  sl_record1 :: "'r option"
  sl_selected :: "nat option"

definition slots_closed :: "slot_status \<Rightarrow> 'r slots_loaded" where
  "slots_closed st = \<lparr>sl_status = st, sl_record0 = None, sl_record1 = None, sl_selected = None\<rparr>"

definition loaded_record :: "'r slots_loaded \<Rightarrow> 'r option" where
  "loaded_record l = (case sl_selected l of None \<Rightarrow> None | Some i \<Rightarrow> if i = 0 then sl_record0 l else sl_record1 l)"

text \<open>One turn of the loop over the slots: whether the slot counts as present, as an error, and its record.\<close>

definition slot_record :: "'r journal_rules \<Rightarrow> bytes \<Rightarrow> slot_read \<Rightarrow> 'r option" where
  "slot_record J mac r = (case r of SR_Present b \<Rightarrow> jr_decode J b mac | _ \<Rightarrow> None)"

definition slot_corrupt :: "'r journal_rules \<Rightarrow> bytes \<Rightarrow> slot_read \<Rightarrow> bool" where
  "slot_corrupt J mac r = (case r of SR_Present b \<Rightarrow> jr_decode J b mac = None | _ \<Rightarrow> False)"

text \<open>The decision after the loop.\<close>

definition slots_decide :: "'r journal_rules \<Rightarrow> bytes \<Rightarrow> slot_read \<Rightarrow> slot_read \<Rightarrow> slot_status \<times> nat option" where
  "slots_decide J mac r0 r1 =
     (let io = r0 = SR_Error \<or> r1 = SR_Error;
          corrupt = slot_corrupt J mac r0 \<or> slot_corrupt J mac r1 in
      if io then (SS_IoError, None)
      else if corrupt then (SS_Corrupt, None)
      else case (slot_record J mac r0, slot_record J mac r1) of
        (None, None) \<Rightarrow> (SS_Missing, None)
      | (Some a, None) \<Rightarrow>
          if jr_generation J a \<noteq> 1 \<or> \<not> jr_original J a then (SS_Ambiguous, None) else (SS_Ready, Some 0)
      | (None, Some b) \<Rightarrow>
          if jr_generation J b \<noteq> 1 \<or> \<not> jr_original J b then (SS_Ambiguous, None) else (SS_Ready, Some 1)
      | (Some a, Some b) \<Rightarrow>
          if jr_generation J a = jr_generation J b then (SS_Ambiguous, None)
          else if jr_generation J a > jr_generation J b
          then if jr_transition J b a then (SS_Ready, Some 0) else (SS_Ambiguous, None)
          else if jr_transition J a b then (SS_Ready, Some 1) else (SS_Ambiguous, None))"

definition slots_load :: "'r journal_rules \<Rightarrow> 's slot_store \<Rightarrow> bytes \<Rightarrow> 's \<Rightarrow> 'r slots_loaded \<times> 's" where
  "slots_load J st mac s =
     (case ss_read st 0 s of (r0, s) \<Rightarrow>
      case ss_read st 1 s of (r1, s) \<Rightarrow>
      case slots_decide J mac r0 r1 of (code, sel) \<Rightarrow>
        (\<lparr>sl_status = code, sl_record0 = slot_record J mac r0, sl_record1 = slot_record J mac r1, sl_selected = sel\<rparr>, s))"

record write_admission =
  wa_transaction :: bool
  wa_ota_lease :: bool
  wa_stable_voltage :: bool

definition admitted :: "write_admission \<Rightarrow> bool" where
  "admitted a \<longleftrightarrow> wa_transaction a \<and> wa_ota_lease a \<and> wa_stable_voltage a"

text \<open>The slot a save may write, or the status that refuses it.\<close>

definition save_target :: "'r journal_rules \<Rightarrow> 'r slots_loaded \<Rightarrow> 'r \<Rightarrow> slot_status + nat" where
  "save_target J old r =
     (if sl_status old = SS_Missing then
        if jr_generation J r \<noteq> 1 \<or> \<not> jr_original J r then Inl SS_Rejected else Inr 0
      else if sl_status old = SS_Ready then
        case (loaded_record old, sl_selected old) of
          (Some a, Some i) \<Rightarrow> if jr_transition J a r then Inr (1 - i) else Inl SS_Rejected
        | _ \<Rightarrow> Inl SS_Rejected
      else Inl (sl_status old))"

text \<open>Write, commit, readback.\<close>

definition put_slot ::
  "'r journal_rules \<Rightarrow> 's slot_store \<Rightarrow> nat \<Rightarrow> 'r \<Rightarrow> bytes \<Rightarrow> 's \<Rightarrow> slot_status \<times> 's" where
  "put_slot J st slot r b s =
     (case ss_write st slot b s of (w, s) \<Rightarrow>
      if \<not> w then (SS_WriteFailed, s)
      else case ss_commit st s of (c, s) \<Rightarrow>
      if \<not> c then (SS_CommitFailed, s)
      else case ss_read st slot s of (got, s) \<Rightarrow>
        (if got \<noteq> SR_Present b \<or> jr_decode J b (jr_mac J r) = None then SS_ReadbackFailed else SS_Ready, s))"

text \<open>\<open>saveInto\<close>; \<open>aliased\<close> is whether the record lies in the loaded pair of the workspace.\<close>

definition slots_save ::
  "'r journal_rules \<Rightarrow> 's slot_store \<Rightarrow> 'r \<Rightarrow> bool \<Rightarrow> write_admission \<Rightarrow> 's \<Rightarrow> slot_status \<times> 's" where
  "slots_save J st r aliased a s =
     (if aliased \<or> \<not> admitted a then (SS_Rejected, s)
      else case jr_encode J r of
        None \<Rightarrow> (SS_Rejected, s)
      | Some b \<Rightarrow>
        (case slots_load J st (jr_mac J r) s of (old, s) \<Rightarrow>
           case save_target J old r of
             Inl e \<Rightarrow> (e, s)
           | Inr slot \<Rightarrow>
             (case if sl_status old = SS_Missing then ss_room st s else (None, s) of
                (Some e, s) \<Rightarrow> (e, s)
              | (None, s) \<Rightarrow> put_slot J st slot r b s)))"

section \<open>What the two slots hold\<close>

definition stored_read :: "nat \<Rightarrow> bytes option \<Rightarrow> slot_read" where
  "stored_read blob x =
     (case x of None \<Rightarrow> SR_Missing | Some b \<Rightarrow> if length b = blob then SR_Present b else SR_Error)"

definition stored_pair :: "'r journal_rules \<Rightarrow> bytes \<Rightarrow> (nat \<Rightarrow> bytes option) \<Rightarrow> 'r slots_loaded" where
  "stored_pair J mac f =
     (let r0 = stored_read (jr_size J) (f 0); r1 = stored_read (jr_size J) (f 1) in
      case slots_decide J mac r0 r1 of (code, sel) \<Rightarrow>
        \<lparr>sl_status = code, sl_record0 = slot_record J mac r0, sl_record1 = slot_record J mac r1, sl_selected = sel\<rparr>)"

text \<open>The abstract journal: nothing, a current record, or a state no save and no operation accepts.\<close>

datatype 'r journal_state = No_Record | Current 'r | Refused slot_status

definition journal_state :: "'r journal_rules \<Rightarrow> bytes \<Rightarrow> (nat \<Rightarrow> bytes option) \<Rightarrow> 'r journal_state" where
  "journal_state J mac f =
     (let l = stored_pair J mac f in
      if sl_status l = SS_Missing then No_Record
      else case (sl_status l, loaded_record l) of (SS_Ready, Some r) \<Rightarrow> Current r | _ \<Rightarrow> Refused (sl_status l))"

text \<open>The steps a journal may take.\<close>

definition journal_next :: "'r journal_rules \<Rightarrow> 'r journal_state \<Rightarrow> 'r \<Rightarrow> bool" where
  "journal_next J x r \<longleftrightarrow>
     (case x of No_Record \<Rightarrow> jr_generation J r = 1 \<and> jr_original J r | Current a \<Rightarrow> jr_transition J a r | Refused _ \<Rightarrow> False)"

text \<open>A record that has replaced the state before it.\<close>

definition saved_record :: "'r journal_rules \<Rightarrow> (nat \<Rightarrow> bytes option) \<Rightarrow> (nat \<Rightarrow> bytes option) \<Rightarrow> 'r \<Rightarrow> bool" where
  "saved_record J f g r \<longleftrightarrow>
     jr_encode J r \<noteq> None \<and> journal_next J (journal_state J (jr_mac J r) f) r \<and> journal_state J (jr_mac J r) g = Current r"

locale slot_journal = blob_store st "jr_size J" stored live
  for st :: "'s slot_store" and J :: "'r journal_rules" and stored :: "'s \<Rightarrow> nat \<Rightarrow> bytes option" and live :: "'s \<Rightarrow> bool" +
  fixes wf :: "'r \<Rightarrow> bool"
  assumes encode_size: "jr_encode J r = Some b \<Longrightarrow> length b = jr_size J"
    and encode_decode: "wf r \<Longrightarrow> jr_encode J r = Some b \<Longrightarrow> jr_decode J b (jr_mac J r) = Some r"
    and next_generation: "jr_transition J a r \<Longrightarrow> jr_generation J a < jr_generation J r"
begin

lemma load_exact:
  assumes "slots_load J st mac s = (l, s')" "live s"
  shows "live s' \<and> stored s' = stored s \<and> (sl_status l = SS_IoError \<or> l = stored_pair J mac (stored s))"
proof -
  obtain r0 s1 where 0: "ss_read st 0 s = (r0, s1)" by (rule prod.exhaust)
  obtain r1 s2 where 1: "ss_read st 1 s1 = (r1, s2)" by (rule prod.exhaust)
  have f: "stored s1 = stored s" "stored s2 = stored s" "live s1" "live s2"
    using read_frame[OF 0] read_frame[OF 1] assms(2) by simp_all
  have e0: "r0 = SR_Error \<or> r0 = stored_read (jr_size J) (stored s 0)"
    using 0 assms(2) read_missing[of s 0 s1] read_present[of 0 s] by (cases r0) (auto simp: stored_read_def)
  have e1: "r1 = SR_Error \<or> r1 = stored_read (jr_size J) (stored s 1)"
    using 1 f(1,3) read_missing[of s1 1 s2] read_present[of 1 s1] by (cases r1) (auto simp: stored_read_def)
  have l: "l = (case slots_decide J mac r0 r1 of (code, sel) \<Rightarrow>
      \<lparr>sl_status = code, sl_record0 = slot_record J mac r0, sl_record1 = slot_record J mac r1, sl_selected = sel\<rparr>)" "s' = s2"
    using assms 0 1 by (auto simp: slots_load_def split: prod.splits)
  show ?thesis
  proof (cases "r0 = SR_Error \<or> r1 = SR_Error")
    case True
    then show ?thesis using l f by (auto simp: slots_decide_def)
  next
    case False
    then show ?thesis using l f e0 e1 by (simp add: stored_pair_def Let_def)
  qed
qed

lemma put_slot_frame:
  assumes "put_slot J st slot r b s = (code, s')" "live s"
  shows "(stored s' = stored s \<and> code \<noteq> SS_Ready) \<or> stored s' = (stored s)(slot \<mapsto> b)"
proof -
  obtain w s1 where 1: "ss_write st slot b s = (w, s1)" by (rule prod.exhaust)
  show ?thesis
  proof (cases w)
    case False
    then show ?thesis using assms 1 write_failed[OF assms(2)] by (auto simp: put_slot_def)
  next
    case True
    obtain c s2 where 2: "ss_commit st s1 = (c, s2)" by (rule prod.exhaust)
    obtain got s3 where 3: "ss_read st slot s2 = (got, s3)" by (rule prod.exhaust)
    have "stored s2 = (stored s)(slot \<mapsto> b)" "stored s3 = stored s2"
      using 1 True write_ok[OF assms(2)] commit_frame[OF 2] read_frame[OF 3] by simp_all
    then show ?thesis using assms 1 2 3 True by (auto simp: put_slot_def split: if_splits)
  qed
qed

text \<open>A target accepted on a pair follows its state, and the pair with the target written is at the new record.\<close>

lemma target_next:
  assumes "save_target J (stored_pair J mac f) r = Inr slot"
  shows "journal_next J (journal_state J mac f) r"
  using assms
  by (auto simp: save_target_def journal_next_def journal_state_def Let_def split: if_splits option.splits slot_status.splits)

lemma target_slot: "save_target J (stored_pair J mac f) r = Inr slot \<Longrightarrow> slot < 2"
  by (auto simp: save_target_def split: if_splits option.splits)

lemma decide_ready:
  assumes "sl_status (stored_pair J mac f) = SS_Ready"
  obtains a i where "sl_selected (stored_pair J mac f) = Some i" "i < 2" "loaded_record (stored_pair J mac f) = Some a"
    "stored_read (jr_size J) (f i) \<noteq> SR_Error" "slot_record J mac (stored_read (jr_size J) (f i)) = Some a"
  using assms that
  by (fastforce simp: stored_pair_def slots_decide_def loaded_record_def Let_def split: if_splits option.splits prod.splits)

lemma target_written:
  assumes t: "save_target J (stored_pair J (jr_mac J r) f) r = Inr slot" and e: "jr_encode J r = Some b" "wf r"
  shows "journal_state J (jr_mac J r) (f(slot \<mapsto> b)) = Current r"
proof -
  let ?m = "jr_mac J r" and ?R = "\<lambda>x. stored_read (jr_size J) x"
  have new: "?R (Some b) = SR_Present b" "slot_record J ?m (SR_Present b) = Some r" "\<not> slot_corrupt J ?m (SR_Present b)"
    using encode_size[OF e(1)] encode_decode[OF e(2,1)] by (simp_all add: stored_read_def slot_record_def slot_corrupt_def)
  consider (empty) "sl_status (stored_pair J ?m f) = SS_Missing" "slot = 0" "jr_generation J r = 1" "jr_original J r"
    | (ready) a i where "sl_status (stored_pair J ?m f) = SS_Ready" "loaded_record (stored_pair J ?m f) = Some a"
      "sl_selected (stored_pair J ?m f) = Some i" "jr_transition J a r" "slot = 1 - i"
    using t by (auto simp: save_target_def split: if_splits option.splits)
  then show ?thesis
  proof cases
    case empty
    then have "?R (f 1) \<noteq> SR_Error" "slot_record J ?m (?R (f 1)) = None" "\<not> slot_corrupt J ?m (?R (f 1))"
      by (auto simp: stored_pair_def slots_decide_def Let_def split: if_splits option.splits prod.splits)
    then show ?thesis using empty new
      by (simp add: journal_state_def stored_pair_def slots_decide_def loaded_record_def Let_def)
  next
    case ready
    obtain c k where old: "sl_selected (stored_pair J ?m f) = Some k" "k < 2" "loaded_record (stored_pair J ?m f) = Some c"
      "?R (f k) \<noteq> SR_Error" "slot_record J ?m (?R (f k)) = Some c"
      using decide_ready[OF ready(1)] .
    then have k: "k = i" "c = a" "i = 0 \<or> i = 1" using ready by auto
    have nc: "\<not> slot_corrupt J ?m (?R (f i))" using old(5) k by (auto simp: slot_corrupt_def slot_record_def split: slot_read.splits)
    have g: "jr_generation J a < jr_generation J r" using next_generation[OF ready(4)] .
    then have ng: "jr_generation J a \<noteq> jr_generation J r" "\<not> jr_generation J r < jr_generation J a" by auto
    from k(3) show ?thesis
    proof
      assume "i = 0"
      then show ?thesis using ready(4,5) new old(4,5) k nc g ng
        by (simp add: journal_state_def stored_pair_def slots_decide_def loaded_record_def Let_def)
    next
      assume "i = 1"
      then show ?thesis using ready(4,5) new old(4,5) k nc g ng
        by (simp add: journal_state_def stored_pair_def slots_decide_def loaded_record_def Let_def)
    qed
  qed
qed

lemma target_other:
  assumes t: "save_target J (stored_pair J mac f) r = Inr slot"
  shows "sl_selected (stored_pair J mac f) \<noteq> Some slot"
proof
  assume s: "sl_selected (stored_pair J mac f) = Some slot"
  then have "sl_status (stored_pair J mac f) \<noteq> SS_Missing"
    by (auto simp: stored_pair_def slots_decide_def Let_def split: if_splits option.splits prod.splits)
  then show False using t s target_slot[OF t] by (auto simp: save_target_def split: if_splits option.splits) arith
qed

text \<open>
  A save leaves the blobs as they were, or writes the record into the slot that is not selected, where it follows the
  current record; the answer \<open>Ready\<close> implies the latter.
\<close>

lemma save_spec:
  assumes "slots_save J st r aliased a s = (code, s')" "wf r" "live s"
  shows "(stored s' = stored s \<and> code \<noteq> SS_Ready) \<or>
    (admitted a \<and> \<not> aliased \<and> journal_next J (journal_state J (jr_mac J r) (stored s)) r \<and>
     journal_state J (jr_mac J r) (stored s') = Current r \<and>
     (\<exists>slot b. jr_encode J r = Some b \<and> sl_selected (stored_pair J (jr_mac J r) (stored s)) \<noteq> Some slot \<and> slot < 2 \<and>
        stored s' = (stored s)(slot \<mapsto> b)))"
proof (cases "aliased \<or> \<not> admitted a \<or> jr_encode J r = None")
  case True
  then show ?thesis using assms by (auto simp: slots_save_def split: if_splits option.splits)
next
  case False
  then obtain b where b: "jr_encode J r = Some b" "\<not> aliased" "admitted a" by blast
  obtain l s1 where 1: "slots_load J st (jr_mac J r) s = (l, s1)" by (rule prod.exhaust)
  note L = load_exact[OF 1 assms(3)]
  show ?thesis
  proof (cases "save_target J l r")
    case (Inl e)
    moreover have "e \<noteq> SS_Ready" using Inl by (auto simp: save_target_def split: if_splits option.splits)
    ultimately show ?thesis using assms b 1 L by (simp add: slots_save_def)
  next
    case (Inr slot)
    obtain g s2 where 2: "(if sl_status l = SS_Missing then ss_room st s1 else (None, s1)) = (g, s2)" by (rule prod.exhaust)
    have f: "stored s2 = stored s" "live s2" "g = Some e \<Longrightarrow> e \<noteq> SS_Ready" for e
      using 2 L room_frame[of s1 g s2] room_refuses[of s1 e s2] by (auto split: if_splits)
    show ?thesis
    proof (cases g)
      case (Some e)
      then show ?thesis using assms b 1 2 f Inr by (simp add: slots_save_def)
    next
      case None
      then have p: "put_slot J st slot r b s2 = (code, s')" using assms b 1 2 Inr by (simp add: slots_save_def)
      have "sl_status l \<noteq> SS_IoError" using Inr by (auto simp: save_target_def)
      then have t: "save_target J (stored_pair J (jr_mac J r) (stored s)) r = Inr slot" using L Inr by simp
      have "sl_selected (stored_pair J (jr_mac J r) (stored s)) \<noteq> Some slot" using target_other[OF t] .
      then show ?thesis using put_slot_frame[OF p f(2)] f(1) target_next[OF t] target_written[OF t b(1) assms(2)] b target_slot[OF t]
        by auto
    qed
  qed
qed

lemma save_step:
  assumes "slots_save J st r aliased a s = (code, s')" "wf r" "live s"
  shows "journal_state J (jr_mac J r) (stored s') = journal_state J (jr_mac J r) (stored s) \<and> code \<noteq> SS_Ready \<or>
    saved_record J (stored s) (stored s') r"
  using save_spec[OF assms] by (auto simp: saved_record_def)

text \<open>A load that is not refused by the storage shows the abstract journal.\<close>

lemma load_state:
  assumes "slots_load J st mac s = (l, s')" "live s" "sl_status l \<noteq> SS_IoError"
  shows "journal_state J mac (stored s) =
    (if sl_status l = SS_Missing then No_Record
     else case (sl_status l, loaded_record l) of (SS_Ready, Some r) \<Rightarrow> Current r | _ \<Rightarrow> Refused (sl_status l))"
  using load_exact[OF assms(1,2)] assms(3) by (auto simp: journal_state_def Let_def)

end

section \<open>A storage with faults\<close>

text \<open>Two blobs and the outcomes of the coming writes: stored, refused, or stored with an error reported.\<close>

record ram_nvs =
  rn_blobs :: "nat \<Rightarrow> bytes option"
  rn_writes :: "nat list"

definition ram_set :: "nat \<Rightarrow> bytes \<Rightarrow> ram_nvs \<Rightarrow> esp_err \<times> ram_nvs" where
  "ram_set k b s =
     (case rn_writes s of
        [] \<Rightarrow> (ESP_OK, s\<lparr>rn_blobs := (rn_blobs s)(k \<mapsto> b)\<rparr>)
      | w # ws \<Rightarrow>
        if w = 0 then (ESP_OK, s\<lparr>rn_blobs := (rn_blobs s)(k \<mapsto> b), rn_writes := ws\<rparr>)
        else if w = 1 then (ESP_FAIL, s\<lparr>rn_writes := ws\<rparr>)
        else (ESP_FAIL, s\<lparr>rn_blobs := (rn_blobs s)(k \<mapsto> b), rn_writes := ws\<rparr>))"

definition ram_nvs_api :: "ram_nvs nvs" where
  "ram_nvs_api =
     \<lparr>nv_open_ro = (\<lambda>s. (if rn_blobs s 0 = None \<and> rn_blobs s 1 = None then ESP_ERR_NVS_NOT_FOUND else ESP_OK, s)),
      nv_open_rw = Pair ESP_OK,
      nv_size = (\<lambda>k s. (case rn_blobs s k of None \<Rightarrow> (ESP_ERR_NVS_NOT_FOUND, 0) | Some b \<Rightarrow> (ESP_OK, length b), s)),
      nv_get = (\<lambda>k c s. (case rn_blobs s k of None \<Rightarrow> (ESP_ERR_NVS_NOT_FOUND, 0, []) | Some b \<Rightarrow> (ESP_OK, length b, b), s)),
      nv_set = ram_set, nv_commit = Pair ESP_OK, nv_stats = Pair (ESP_OK, 100)\<rparr>"

interpretation ram_nvs: nvs_blobs ram_nvs_api blob rn_blobs for blob
  by unfold_locales
    (auto simp: ram_nvs_api_def ram_set_def ESP_ERR_NVS_NOT_FOUND_def esp_codes split: option.splits list.splits if_splits)

section \<open>Histories\<close>

text \<open>Any sequence of saves for one device, whatever the storage answers to each of them.\<close>

lemma journal_history:
  assumes step: "\<And>r al a s code s'. save r al a s = (code, s') \<Longrightarrow> ok r \<Longrightarrow>
      journal_state J (jr_mac J r) (blobs s') = journal_state J (jr_mac J r) (blobs s) \<or> saved_record J (blobs s) (blobs s') r"
    and first: "\<And>r. ok r \<Longrightarrow> jr_encode J r \<noteq> None \<Longrightarrow> jr_generation J r = 1 \<Longrightarrow> jr_original J r \<Longrightarrow> P r"
    and "next": "\<And>a r. P a \<Longrightarrow> ok r \<Longrightarrow> jr_transition J a r \<Longrightarrow> P r"
    and es: "\<forall>(r, al, a) \<in> set es. ok r \<and> jr_mac J r = mac"
    and start: "journal_state J mac (blobs s) = No_Record \<or> (\<exists>r. journal_state J mac (blobs s) = Current r \<and> P r)"
  defines "s' \<equiv> foldl (\<lambda>s (r, al, a). snd (save r al a s)) s es"
  shows "journal_state J mac (blobs s') = No_Record \<or> (\<exists>r. journal_state J mac (blobs s') = Current r \<and> P r)"
  unfolding s'_def using es start
proof (induction es arbitrary: s)
  case Nil
  then show ?case by simp
next
  case (Cons e es)
  obtain r al a where e: "e = (r, al, a)" by (cases e)
  obtain code s1 where 1: "save r al a s = (code, s1)" by (rule prod.exhaust)
  have r: "ok r" "jr_mac J r = mac" using Cons.prems(1) e by auto
  have "P r" if "saved_record J (blobs s) (blobs s1) r"
    using that first[OF r(1)] "next"[OF _ r(1)] Cons.prems(2) r(2) by (auto simp: saved_record_def journal_next_def)
  then have "journal_state J mac (blobs s1) = No_Record \<or> (\<exists>r. journal_state J mac (blobs s1) = Current r \<and> P r)"
    using step[OF 1 r(1)] Cons.prems(2) r(2) by (auto simp: saved_record_def)
  then show ?case using Cons.IH[of s1] Cons.prems(1) e 1 by simp
qed

end
