(* ===== verification/Scale_Journal.thy ===== *)
theory Scale_Journal
  imports Slot_Journal Gauge_Recovery
begin

text \<open>
  The recovery journal of the gauge rescaling (\<open>main/hal/mosaico/mosaico_gauge_scale_journal_model.h\<close> and
  \<open>mosaico_gauge_scale_journal.cpp\<close>): the record of the 131 original and target fields, its shape, its 512-byte codec,
  its transitions, and the two slots of the namespace it is stored in.
\<close>

section \<open>Records\<close>

record scale_record =
  sr_mac :: bytes
  sr_snapshot :: rec_snapshot

text \<open>The lengths of the arrays of the structs.\<close>

definition scale_arrays :: "scale_record \<Rightarrow> bool" where
  "scale_arrays r \<longleftrightarrow> length (sr_mac r) = 6 \<and> length (rs_binding (sr_snapshot r)) = 32 \<and>
     length (rs_fields (sr_snapshot r)) = 131 \<and>
     list_all (\<lambda>f. length (rf_original f) = 4 \<and> length (rf_target f) = 4) (rs_fields (sr_snapshot r))"

definition layout_fingerprint :: u32 where
  "layout_fingerprint = crc32 (concat (map (\<lambda>f. map (\<lambda>i. if i < 2 then ucast (drop_bit (8 * i) (lf_address f))
     else of_nat (lf_width f)) [0..<3]) public_layout))"

definition mac_binding :: "bytes \<Rightarrow> bytes" where
  "mac_binding mac = map (\<lambda>i. if i < 6 then mac ! i else 0) [0..<32]"

definition scale_context :: "scale_record \<Rightarrow> rec_context" where
  "scale_context r = \<lparr>rc_identity = rs_identity (sr_snapshot r), rc_binding = mac_binding (sr_mac r),
     rc_layout = LI_Public131V1, rc_source_crc = True, rc_reviewed_target = True\<rparr>"

definition scale_shape :: "scale_record \<Rightarrow> bool" where
  "scale_shape r \<longleftrightarrow> sr_mac r ! 0 AND 1 = 0 \<and> rec_validate (sr_snapshot r) (scale_context r) = RE_None"

definition image_digest :: "rec_snapshot \<Rightarrow> bool \<Rightarrow> u32" where
  "image_digest s target = crc32 (concat (map (\<lambda>f. map (\<lambda>j.
     if j < 2 then ucast (drop_bit (8 * j) (rf_address f))
     else if j = 2 then of_nat (rf_width f)
     else if target then rf_target f ! (j - 3) else rf_original f ! (j - 3)) [0..<7]) (rs_fields s)))"

section \<open>The codec\<close>

definition phase_byte :: "rec_phase \<Rightarrow> u8" where
  "phase_byte p = (case p of RP_Original \<Rightarrow> 0 | RP_Pending \<Rightarrow> 1 | RP_Applied \<Rightarrow> 2 | RP_Restoring \<Rightarrow> 3 | RP_Other b \<Rightarrow> b)"

definition byte_phase :: "u8 \<Rightarrow> rec_phase" where
  "byte_phase b = (if b = 0 then RP_Original else if b = 1 then RP_Pending else if b = 2 then RP_Applied
     else if b = 3 then RP_Restoring else RP_Other b)"

text \<open>The original bytes of a field, then its target bytes, at the running offset.\<close>

definition put_field :: "bytes \<times> nat \<Rightarrow> rec_field \<Rightarrow> bytes \<times> nat" where
  "put_field bn f = (case bn of (b, n) \<Rightarrow>
     (put_bytes (put_bytes b n (take (rf_width f) (rf_original f))) (n + rf_width f) (take (rf_width f) (rf_target f)),
      n + 2 * rf_width f))"

definition put_fields :: "bytes \<Rightarrow> nat \<Rightarrow> rec_field list \<Rightarrow> bytes" where
  "put_fields b n fs = fst (foldl put_field (b, n) fs)"

fun read_fields :: "bytes \<Rightarrow> nat \<Rightarrow> layout_field list \<Rightarrow> rec_field list" where
  "read_fields b n [] = []"
| "read_fields b n (l # ls) =
     \<lparr>rf_address = lf_address l, rf_width = lf_width l,
      rf_original = get_bytes b n (lf_width l) @ replicate (4 - lf_width l) 0,
      rf_target = get_bytes b (n + lf_width l) (lf_width l) @ replicate (4 - lf_width l) 0\<rparr> #
     read_fields b (n + 2 * lf_width l) ls"

definition layout_byte :: "layout_id \<Rightarrow> u8" where
  "layout_byte l = (case l of LI_Unknown \<Rightarrow> 0 | LI_Public131V1 \<Rightarrow> 1)"

definition scale_header :: "scale_record \<Rightarrow> bytes" where
  "scale_header r =
     (let s = sr_snapshot r;
          b = put_bytes (replicate 512 0) 0 [0x47, 0x53, 0x4a, 0x32];
          b = put_le (put_le b 4 (2 :: u64) 2) 6 (512 :: u64) 2;
          b = put_bytes b 8 (sr_mac r);
          b = put_le (put_le b 14 (ri_device (rs_identity s)) 2) 16 (ri_firmware (rs_identity s)) 2;
          b = b[18 := ri_build (rs_identity s), 19 := phase_byte (rs_phase s), 20 := rs_scale s];
          b = put_le b 22 (layout_byte (rs_layout s)) 2;
          b = put_le (put_le b 24 (rs_generation s) 4) 28 (rs_epoch s) 8;
          b = put_le b 36 (of_nat (rs_count s) :: u64) 2;
          b = put_le (put_le b 40 (image_digest s False) 4) 44 (image_digest s True) 4
      in put_le b 48 layout_fingerprint 4)"

definition scale_image :: "scale_record \<Rightarrow> bytes" where
  "scale_image r = seal (put_fields (scale_header r) 64 (rs_fields (sr_snapshot r))) 508"

definition scale_encode :: "scale_record \<Rightarrow> bytes option" where
  "scale_encode r = (if scale_shape r then Some (scale_image r) else None)"

definition scale_parsed :: "bytes \<Rightarrow> bytes \<Rightarrow> scale_record" where
  "scale_parsed b mac =
     \<lparr>sr_mac = mac,
      sr_snapshot =
        \<lparr>rs_identity = \<lparr>ri_device = get_le b 14 2, ri_firmware = get_le b 16 2, ri_build = b ! 18\<rparr>,
         rs_binding = mac_binding mac, rs_layout = LI_Public131V1, rs_generation = get_le b 24 4, rs_scale = b ! 20,
         rs_epoch = get_le b 28 8, rs_phase = byte_phase (b ! 19), rs_count = unat (get_le b 36 2 :: u64),
         rs_fields = read_fields b 64 public_layout\<rparr>\<rparr>"

definition scale_decode :: "bytes \<Rightarrow> bytes \<Rightarrow> scale_record option" where
  "scale_decode b mac =
     (if b ! 0 \<noteq> 0x47 \<or> b ! 1 \<noteq> 0x53 \<or> b ! 2 \<noteq> 0x4a \<or> b ! 3 \<noteq> 0x32 \<or>
         get_le b 4 2 \<noteq> (2 :: u64) \<or> get_le b 6 2 \<noteq> (512 :: u64) \<or> \<not> sealed b 508 then None
      else if list_ex (\<lambda>i. b ! (8 + i) \<noteq> mac ! i) [0..<6] then None
      else if b ! 21 \<noteq> 0 \<or> b ! 38 \<noteq> 0 \<or> b ! 39 \<noteq> 0 then None
      else if get_le b 48 4 \<noteq> layout_fingerprint then None
      else if \<not> zeros b 52 64 then None
      else if get_le b 22 2 \<noteq> (1 :: u64) then None
      else
        let r = scale_parsed b mac in
        if \<not> scale_shape r \<or> get_le b 40 4 \<noteq> image_digest (sr_snapshot r) False \<or>
           get_le b 44 4 \<noteq> image_digest (sr_snapshot r) True then None
        else Some r)"

section \<open>Transitions\<close>

definition same_recovery_image :: "scale_record \<Rightarrow> scale_record \<Rightarrow> bool" where
  "same_recovery_image a b \<longleftrightarrow>
     (if sr_mac a \<noteq> sr_mac b \<or> \<not> rec_same_identity (rs_identity (sr_snapshot a)) (rs_identity (sr_snapshot b)) \<or>
         rs_scale (sr_snapshot a) \<noteq> rs_scale (sr_snapshot b) then False
      else \<not> list_ex (\<lambda>i. let x = rs_fields (sr_snapshot a) ! i; y = rs_fields (sr_snapshot b) ! i in
        rf_address x \<noteq> rf_address y \<or> rf_width x \<noteq> rf_width y \<or>
        list_ex (\<lambda>j. rf_original x ! j \<noteq> rf_original y ! j \<or> rf_target x ! j \<noteq> rf_target y ! j) [0..<4]) [0..<131])"

definition phase_follows :: "rec_phase \<Rightarrow> rec_phase \<Rightarrow> bool" where
  "phase_follows x y \<longleftrightarrow>
     (x = RP_Original \<and> (y = RP_Pending \<or> y = RP_Restoring)) \<or>
     (x = RP_Pending \<and> (y = RP_Applied \<or> y = RP_Restoring)) \<or>
     (x = RP_Applied \<and> y = RP_Restoring) \<or>
     (x = RP_Restoring \<and> y = RP_Original)"

definition scale_transition :: "scale_record \<Rightarrow> scale_record \<Rightarrow> bool" where
  "scale_transition a b \<longleftrightarrow>
     (let x = sr_snapshot a; y = sr_snapshot b in
      if \<not> scale_shape a \<or> \<not> scale_shape b \<or> \<not> same_recovery_image a b \<or> rs_generation x = 0xffffffff \<or>
         rs_generation y \<noteq> rs_generation x + 1 \<or> \<not> advancing (rs_epoch x) (rs_epoch y) then False
      else phase_follows (rs_phase x) (rs_phase y))"

section \<open>The store\<close>

definition scale_rules :: "scale_record journal_rules" where
  "scale_rules = \<lparr>jr_size = 512, jr_encode = scale_encode, jr_decode = scale_decode, jr_mac = sr_mac,
     jr_generation = (\<lambda>r. rs_generation (sr_snapshot r)), jr_original = (\<lambda>r. rs_phase (sr_snapshot r) = RP_Original),
     jr_transition = scale_transition\<rparr>"

definition scale_load_nvs :: "'s nvs \<Rightarrow> bytes \<Rightarrow> 's \<Rightarrow> scale_record slots_loaded \<times> 's" where
  "scale_load_nvs n mac s =
     (case nv_open_ro n s of (e, s) \<Rightarrow>
        if e = ESP_ERR_NVS_NOT_FOUND then (slots_closed SS_Missing, s)
        else if e \<noteq> ESP_OK then (slots_closed SS_IoError, s)
        else slots_load scale_rules (nvs_store 512 n) mac s)"

definition scale_save_nvs :: "'s nvs \<Rightarrow> scale_record \<Rightarrow> bool \<Rightarrow> write_admission \<Rightarrow> 's \<Rightarrow> slot_status \<times> 's" where
  "scale_save_nvs n r aliased a s =
     (if \<not> admitted a \<or> \<not> scale_shape r then (SS_Rejected, s)
      else case nv_open_rw n s of (e, s) \<Rightarrow>
        if e \<noteq> ESP_OK then (SS_IoError, s)
        else slots_save scale_rules (nvs_store 512 n) r aliased a s)"

section \<open>The codec is exact\<close>

lemma length_put_fields [simp]: "length (put_fields b n fs) = length b"
  unfolding put_fields_def
  by (induction fs arbitrary: b n) (simp_all add: put_field_def)

lemma put_fields_Cons:
  "put_fields b n (f # fs) =
     put_fields (put_bytes (put_bytes b n (take (rf_width f) (rf_original f))) (n + rf_width f) (take (rf_width f) (rf_target f)))
       (n + 2 * rf_width f) fs"
  by (simp add: put_fields_def put_field_def)

lemma put_fields_below: "i < n \<Longrightarrow> put_fields b n fs ! i = b ! i"
proof (induction fs arbitrary: b n)
  case Nil
  then show ?case by (simp add: put_fields_def)
next
  case (Cons f fs)
  then show ?case by (simp add: put_fields_Cons nth_put_bytes)
qed

lemma get_le_put_fields [codec_simps]: "p + k \<le> n \<Longrightarrow> get_le (put_fields b n fs) p k = get_le b p k"
  by (rule get_le_cong) (simp add: put_fields_below)

text \<open>A field with four bytes on each side and zeros behind its width.\<close>

definition padded :: "rec_field \<Rightarrow> bool" where
  "padded f \<longleftrightarrow> rf_width f \<le> 4 \<and> length (rf_original f) = 4 \<and> length (rf_target f) = 4 \<and>
     (\<forall>j. rf_width f \<le> j \<and> j < 4 \<longrightarrow> rf_original f ! j = 0 \<and> rf_target f ! j = 0)"

lemma pad_take: "w \<le> 4 \<Longrightarrow> length xs = 4 \<Longrightarrow> \<forall>j. w \<le> j \<and> j < 4 \<longrightarrow> xs ! j = (0 :: u8) \<Longrightarrow> take w xs @ replicate (4 - w) 0 = xs"
  by (rule nth_equalityI) (auto simp: nth_append)

lemma read_fields_cong:
  "(\<And>i. n \<le> i \<Longrightarrow> i < n + 2 * sum_list (map lf_width ls) \<Longrightarrow> b ! i = b' ! i) \<Longrightarrow> read_fields b n ls = read_fields b' n ls"
proof (induction ls arbitrary: n)
  case (Cons l ls)
  have "get_bytes b p (lf_width l) = get_bytes b' p (lf_width l)" if "n \<le> p" "p \<le> n + lf_width l" for p
    by (rule nth_equalityI) (use that Cons.prems in auto)
  moreover have "read_fields b (n + 2 * lf_width l) ls = read_fields b' (n + 2 * lf_width l) ls"
    by (rule Cons.IH) (use Cons.prems in auto)
  ultimately show ?case by simp
qed simp

definition field_layout :: "rec_field \<Rightarrow> layout_field" where
  "field_layout f = \<lparr>lf_address = rf_address f, lf_width = rf_width f\<rparr>"

lemma read_put_fields:
  "list_all padded fs \<Longrightarrow> n + 2 * sum_list (map rf_width fs) \<le> length b \<Longrightarrow>
     read_fields (put_fields b n fs) n (map field_layout fs) = fs"
proof (induction fs arbitrary: b n)
  case (Cons f fs)
  let ?w = "rf_width f"
  let ?b = "put_bytes (put_bytes b n (take ?w (rf_original f))) (n + ?w) (take ?w (rf_target f))"
  have f: "?w \<le> 4" "length (rf_original f) = 4" "length (rf_target f) = 4"
    "take ?w (rf_original f) @ replicate (4 - ?w) 0 = rf_original f" "take ?w (rf_target f) @ replicate (4 - ?w) 0 = rf_target f"
    using Cons.prems(1) pad_take[of ?w "rf_original f"] pad_take[of ?w "rf_target f"] by (auto simp: padded_def)
  have low: "get_bytes (put_fields ?b (n + 2 * ?w) fs) p ?w = get_bytes ?b p ?w" if "p \<le> n + ?w" for p
    by (rule nth_equalityI) (use that in \<open>auto simp: put_fields_below\<close>)
  have "get_bytes ?b n ?w = take ?w (rf_original f)" "get_bytes ?b (n + ?w) ?w = take ?w (rf_target f)"
    using f(1-3) Cons.prems(2) by (auto simp: codec_simps)
  then show ?case using Cons low f(4,5) by (simp add: put_fields_Cons field_layout_def)
qed simp

lemma layout_width_sum: "sum_list (map lf_width public_layout) = 222"
proof -
  have "mset (map lf_width public_layout) = mset (map lf_width unsorted_layout)"
    using public_layout_facts(1) by simp
  then have "sum_list (map lf_width public_layout) = sum_list (map lf_width unsorted_layout)"
    by (metis sum_mset_sum_list)
  also have "\<dots> = 222" by code_simp
  finally show ?thesis .
qed

text \<open>What the shape says.\<close>

lemma scale_shapeD:
  assumes "scale_shape r" "scale_arrays r"
  shows "map field_layout (rs_fields (sr_snapshot r)) = public_layout" "list_all padded (rs_fields (sr_snapshot r))"
    "rs_binding (sr_snapshot r) = mac_binding (sr_mac r)" "rs_layout (sr_snapshot r) = LI_Public131V1"
    "rs_count (sr_snapshot r) = 131" "valid_phase (rs_phase (sr_snapshot r))" "rs_generation (sr_snapshot r) \<noteq> 0"
proof -
  let ?s = "sr_snapshot r"
  have v: "rec_validate ?s (scale_context r) = RE_None" using assms(1) by (simp add: scale_shape_def)
  have len: "length (rs_fields ?s) = 131" "length (rs_binding ?s) = 32" "length (mac_binding (sr_mac r)) = 32"
    using assms(2) by (simp_all add: scale_arrays_def mac_binding_def)
  have b: "rec_same_binding (rs_binding ?s) (mac_binding (sr_mac r))"
    and l: "rs_layout ?s = LI_Public131V1" and c: "rs_count ?s = 131" "valid_phase (rs_phase ?s)" "rs_generation ?s \<noteq> 0"
    and fs: "\<And>i. i < 131 \<Longrightarrow> on_layout ?s i \<and> (\<forall>j. rf_width (rs_fields ?s ! i) \<le> j \<and> j < 4 \<longrightarrow>
      rf_original (rs_fields ?s ! i) ! j = 0 \<and> rf_target (rs_fields ?s ! i) ! j = 0)"
    using v by (auto simp: rec_validate_def scale_context_def list_ex_iff split: if_splits)
  show "rs_layout ?s = LI_Public131V1" "rs_count ?s = 131" "valid_phase (rs_phase ?s)" "rs_generation ?s \<noteq> 0" by (fact l c)+
  show "rs_binding ?s = mac_binding (sr_mac r)"
    by (rule nth_equalityI) (use b len in \<open>auto simp: rec_same_binding_def list_ex_iff\<close>)
  show m: "map field_layout (rs_fields ?s) = public_layout"
    by (rule nth_equalityI) (use fs len public_layout_facts(3) in \<open>auto simp: field_layout_def on_layout_def\<close>)
  show "list_all padded (rs_fields ?s)"
    unfolding list_all_length
  proof (intro allI impI)
    fix i assume i: "i < length (rs_fields ?s)"
    then have "rf_width (rs_fields ?s ! i) \<le> 4"
      using fs[of i] len public_layout_facts(3,4) by (fastforce simp: on_layout_def list_all_length)
    then show "padded (rs_fields ?s ! i)"
      using fs[of i] i len assms(2) by (auto simp: padded_def scale_arrays_def list_all_length)
  qed
qed

lemma byte_phase_byte [simp]: "valid_phase p \<Longrightarrow> byte_phase (phase_byte p) = p"
  by (auto simp: valid_phase_def byte_phase_def phase_byte_def)

lemma length_scale_header [simp]: "length (scale_header r) = 512"
  by (simp add: scale_header_def Let_def)

lemma scale_header_marks:
  assumes "length (sr_mac r) = 6"
  shows "scale_header r ! 0 = 0x47" "scale_header r ! 1 = 0x53" "scale_header r ! 2 = 0x4a" "scale_header r ! 3 = 0x32"
    "scale_header r ! 18 = ri_build (rs_identity (sr_snapshot r))" "scale_header r ! 19 = phase_byte (rs_phase (sr_snapshot r))"
    "scale_header r ! 20 = rs_scale (sr_snapshot r)" "scale_header r ! 21 = 0" "scale_header r ! 38 = 0" "scale_header r ! 39 = 0"
    "i < 6 \<Longrightarrow> scale_header r ! (8 + i) = sr_mac r ! i" "zeros (scale_header r) 52 64"
  using assms by (simp_all add: scale_header_def Let_def nth_put_le nth_put_bytes nth_list_update zeros_iff)

lemma scale_header_numbers:
  assumes "length (sr_mac r) = 6"
  shows "get_le (scale_header r) 4 2 = (2 :: u64)" "get_le (scale_header r) 6 2 = (512 :: u64)"
    "get_le (scale_header r) 14 2 = ri_device (rs_identity (sr_snapshot r))"
    "get_le (scale_header r) 16 2 = ri_firmware (rs_identity (sr_snapshot r))"
    "get_le (scale_header r) 22 2 = (ucast (layout_byte (rs_layout (sr_snapshot r))) :: u64)"
    "get_le (scale_header r) 24 4 = rs_generation (sr_snapshot r)"
    "get_le (scale_header r) 28 8 = rs_epoch (sr_snapshot r)"
    "get_le (scale_header r) 36 2 = (take_bit 16 (of_nat (rs_count (sr_snapshot r))) :: u64)"
    "get_le (scale_header r) 40 4 = image_digest (sr_snapshot r) False"
    "get_le (scale_header r) 44 4 = image_digest (sr_snapshot r) True"
    "get_le (scale_header r) 48 4 = layout_fingerprint"
  using assms by (simp_all add: scale_header_def Let_def codec_simps)

lemma length_scale_image [simp]: "length (scale_image r) = 512"
  by (simp add: scale_image_def)

lemma get_le_scale_image: "p + k \<le> 64 \<Longrightarrow> get_le (scale_image r) p k = get_le (scale_header r) p k"
  by (simp add: scale_image_def codec_simps)

lemma nth_scale_image: "i < 64 \<Longrightarrow> scale_image r ! i = scale_header r ! i"
  by (simp add: scale_image_def codec_simps put_fields_below)

lemma scale_parsed_image:
  assumes "scale_shape r" "scale_arrays r"
  shows "scale_parsed (scale_image r) (sr_mac r) = r"
proof -
  note S = scale_shapeD[OF assms]
  have mac: "length (sr_mac r) = 6" using assms(2) by (simp add: scale_arrays_def)
  note H = scale_header_marks[OF mac] scale_header_numbers[OF mac]
  have widths: "sum_list (map rf_width (rs_fields (sr_snapshot r))) = 222"
    using layout_width_sum unfolding S(1)[symmetric] by (simp add: comp_def field_layout_def)
  have "read_fields (scale_image r) 64 public_layout =
      read_fields (put_fields (scale_header r) 64 (rs_fields (sr_snapshot r))) 64 public_layout"
    by (rule read_fields_cong) (simp add: layout_width_sum scale_image_def codec_simps)
  also have "\<dots> = rs_fields (sr_snapshot r)"
    unfolding S(1)[symmetric] by (rule read_put_fields) (use S(2) widths in simp_all)
  finally show ?thesis using S(3-6) H by (simp add: scale_parsed_def get_le_scale_image nth_scale_image)
qed

lemma scale_decode_image:
  assumes "scale_shape r" "scale_arrays r"
  shows "scale_decode (scale_image r) (sr_mac r) = Some r"
proof -
  have mac: "length (sr_mac r) = 6" using assms(2) by (simp add: scale_arrays_def)
  have s: "sealed (scale_image r) 508" by (simp add: scale_image_def sealed_seal)
  have z: "zeros (scale_image r) 52 64"
    using scale_header_marks(12)[OF mac] by (simp add: zeros_iff nth_scale_image)
  have m: "\<not> list_ex (\<lambda>i. scale_image r ! (8 + i) \<noteq> sr_mac r ! i) [0..<6]"
    using scale_header_marks(11)[OF mac] by (simp add: list_ex_iff nth_scale_image)
  have l: "get_le (scale_header r) 22 2 = (1 :: u64)"
    using scale_header_numbers(5)[OF mac] scale_shapeD(4)[OF assms] by (simp add: layout_byte_def)
  show ?thesis
    using scale_header_marks(1-4,8-10)[OF mac] scale_header_numbers(1,2,9-11)[OF mac] assms(1) s z m l
    by (simp add: scale_decode_def get_le_scale_image nth_scale_image scale_parsed_image[OF assms])
qed

lemma scale_decode_sealed: "scale_decode b mac = Some r \<Longrightarrow> sealed b 508"
  by (auto simp: scale_decode_def split: if_splits)

lemma scale_decode_shape: "scale_decode b mac = Some r \<Longrightarrow> scale_shape r \<and> sr_mac r = mac \<and> sr_mac r = mac"
  by (auto simp: scale_decode_def scale_parsed_def Let_def split: if_splits)

interpretation scale_codec: sealed_codec 508 "\<lambda>b. scale_decode b mac" scale_image
  "\<lambda>r. scale_shape r \<and> scale_arrays r \<and> sr_mac r = mac"
  by unfold_locales (auto intro: scale_decode_sealed scale_decode_image)

lemma scale_transition_next:
  "scale_transition a r \<Longrightarrow> unat (rs_generation (sr_snapshot r)) = Suc (unat (rs_generation (sr_snapshot a)))"
  by (auto simp: scale_transition_def Let_def unat_succ split: if_splits)

lemma scale_slots:
  assumes "nvs_blobs n blobs"
  shows "slot_journal (nvs_store 512 n) scale_rules blobs (\<lambda>_. True) scale_arrays"
proof (rule slot_journal.intro)
  show "blob_store (nvs_store 512 n) (jr_size scale_rules) blobs (\<lambda>_. True)"
    using nvs_blobs.nvs_store_laws[OF assms] by (simp add: scale_rules_def)
  show "slot_journal_axioms scale_rules scale_arrays"
  proof
    show "length b = jr_size scale_rules" if "jr_encode scale_rules r = Some b" for r b
      using that by (auto simp: scale_rules_def scale_encode_def split: if_splits)
    show "jr_decode scale_rules b (jr_mac scale_rules r) = Some r" if "scale_arrays r" "jr_encode scale_rules r = Some b" for r b
      using that scale_decode_image by (auto simp: scale_rules_def scale_encode_def split: if_splits)
    show "jr_generation scale_rules a < jr_generation scale_rules r" if "jr_transition scale_rules a r" for a r
      using that scale_transition_next[of a r] by (simp add: scale_rules_def word_less_nat_alt)
  qed
qed

interpretation scale_slots: slot_journal "nvs_store 512 ram_nvs_api" scale_rules rn_blobs "\<lambda>_. True" scale_arrays
  by (rule scale_slots[OF ram_nvs.nvs_blobs_axioms])

section \<open>The journal over its life\<close>

lemma scale_save_step:
  assumes "nvs_blobs n blobs" "scale_save_nvs n r aliased a s = (code, s')" "scale_arrays r"
  shows "journal_state scale_rules (sr_mac r) (blobs s') = journal_state scale_rules (sr_mac r) (blobs s) \<and> code \<noteq> SS_Ready \<or>
    saved_record scale_rules (blobs s) (blobs s') r"
proof (cases "\<not> admitted a \<or> \<not> scale_shape r")
  case True
  then show ?thesis using assms(2) by (auto simp: scale_save_nvs_def)
next
  case False
  obtain e s1 where 1: "nv_open_rw n s = (e, s1)" by (rule prod.exhaust)
  have f: "blobs s1 = blobs s" using nvs_blobs.open_rw_frame[OF assms(1) 1] .
  show ?thesis
  proof (cases "e = ESP_OK")
    case True
    then have "slots_save scale_rules (nvs_store 512 n) r aliased a s1 = (code, s')"
      using assms(2) 1 False by (simp add: scale_save_nvs_def)
    from slot_journal.save_step[OF scale_slots[OF assms(1)] this assms(3)] show ?thesis
      using f by (simp add: scale_rules_def)
  next
    case False
    then show ?thesis using assms(2) 1 f \<open>\<not> (\<not> admitted a \<or> \<not> scale_shape r)\<close> by (auto simp: scale_save_nvs_def)
  qed
qed

lemma same_image_fields:
  assumes "same_recovery_image a b" "scale_arrays a" "scale_arrays b"
  shows "sr_mac a = sr_mac b \<and> rs_fields (sr_snapshot a) = rs_fields (sr_snapshot b)"
proof
  show "sr_mac a = sr_mac b" using assms(1) by (simp add: same_recovery_image_def split: if_splits)
  show "rs_fields (sr_snapshot a) = rs_fields (sr_snapshot b)"
  proof (rule nth_equalityI)
    show "length (rs_fields (sr_snapshot a)) = length (rs_fields (sr_snapshot b))"
      using assms(2,3) by (simp add: scale_arrays_def)
    fix i assume "i < length (rs_fields (sr_snapshot a))"
    then have i: "i < 131" using assms(2) by (simp add: scale_arrays_def)
    let ?x = "rs_fields (sr_snapshot a) ! i" and ?y = "rs_fields (sr_snapshot b) ! i"
    have l: "length (rf_original ?x) = 4" "length (rf_target ?x) = 4" "length (rf_original ?y) = 4" "length (rf_target ?y) = 4"
      using assms(2,3) i by (simp_all add: scale_arrays_def list_all_length)
    have e: "rf_address ?x = rf_address ?y" "rf_width ?x = rf_width ?y"
      "\<forall>j<4. rf_original ?x ! j = rf_original ?y ! j \<and> rf_target ?x ! j = rf_target ?y ! j"
      using assms(1) i by (auto simp: same_recovery_image_def Let_def list_ex_iff split: if_splits)
    have "rf_original ?x = rf_original ?y" "rf_target ?x = rf_target ?y"
      by (rule nth_equalityI; use l e(3) in simp)+
    then show "?x = ?y" using e by simp
  qed
qed

text \<open>What a current record is after any number of saves.\<close>

definition scale_descends :: "scale_record \<Rightarrow> scale_record \<Rightarrow> nat \<Rightarrow> bool" where
  "scale_descends r0 r k \<longleftrightarrow>
     scale_shape r0 \<and> rs_generation (sr_snapshot r0) = 1 \<and> rs_phase (sr_snapshot r0) = RP_Original \<and>
     (scale_transition ^^ k) r0 r \<and> unat (rs_generation (sr_snapshot r)) = Suc k \<and>
     rs_fields (sr_snapshot r) = rs_fields (sr_snapshot r0)"

lemma scale_descends_next:
  assumes "scale_descends r0 a k" "scale_arrays a" "scale_arrays r" "scale_transition a r"
  shows "scale_descends r0 r (Suc k)"
proof -
  have "same_recovery_image a r" using assms(4) by (auto simp: scale_transition_def Let_def split: if_splits)
  then show ?thesis
    using assms scale_transition_next[OF assms(4)] same_image_fields[OF _ assms(2,3)]
    by (auto simp: scale_descends_def)
qed

lemma scale_history:
  assumes "nvs_blobs n blobs" "blobs s 0 = None" "blobs s 1 = None"
    and es: "\<forall>(r, al, a) \<in> set es. scale_arrays r \<and> sr_mac r = mac"
  defines "s' \<equiv> foldl (\<lambda>s (r, al, a). snd (scale_save_nvs n r al a s)) s es"
  shows "journal_state scale_rules mac (blobs s') = No_Record \<or>
    (\<exists>r. journal_state scale_rules mac (blobs s') = Current r \<and> scale_arrays r \<and> (\<exists>r0 k. scale_descends r0 r k))"
  unfolding s'_def
proof (rule journal_history[where ok = scale_arrays])
  show "journal_state scale_rules (jr_mac scale_rules r) (blobs s') = journal_state scale_rules (jr_mac scale_rules r) (blobs s) \<or>
      saved_record scale_rules (blobs s) (blobs s') r"
    if "scale_save_nvs n r al a s = (code, s')" "scale_arrays r" for r al a s code s'
    using scale_save_step[OF assms(1) that] by (auto simp: scale_rules_def)
  show "scale_arrays r \<and> (\<exists>r0 k. scale_descends r0 r k)"
    if "scale_arrays r" "jr_encode scale_rules r \<noteq> None" "jr_generation scale_rules r = 1" "jr_original scale_rules r" for r
  proof -
    have "scale_descends r r 0" using that by (simp add: scale_descends_def scale_rules_def scale_encode_def split: if_splits)
    then show ?thesis using that by blast
  qed
  show "scale_arrays r \<and> (\<exists>r0 k. scale_descends r0 r k)"
    if "scale_arrays a \<and> (\<exists>r0 k. scale_descends r0 a k)" "scale_arrays r" "jr_transition scale_rules a r" for a r
    using that scale_descends_next[of _ a _ r] by (auto simp: scale_rules_def)
  show "\<forall>(r, al, a)\<in>set es. scale_arrays r \<and> jr_mac scale_rules r = mac" using es by (simp add: scale_rules_def)
  show "journal_state scale_rules mac (blobs s) = No_Record \<or>
      (\<exists>r. journal_state scale_rules mac (blobs s) = Current r \<and> scale_arrays r \<and> (\<exists>r0 k. scale_descends r0 r k))"
    using assms(2,3) by (simp add: journal_state_def stored_pair_def stored_read_def slots_decide_def slot_corrupt_def slot_record_def)
qed

lemma empty_state: "f 0 = None \<Longrightarrow> f 1 = None \<Longrightarrow> journal_state J mac f = No_Record"
  by (simp add: journal_state_def stored_pair_def stored_read_def slots_decide_def slot_corrupt_def slot_record_def)

lemma scale_load_state:
  assumes "nvs_blobs n blobs" "scale_load_nvs n mac s = (l, t)" "sl_status l \<noteq> SS_IoError"
  shows "journal_state scale_rules mac (blobs s) =
    (if sl_status l = SS_Missing then No_Record
     else case (sl_status l, loaded_record l) of (SS_Ready, Some r) \<Rightarrow> Current r | _ \<Rightarrow> Refused (sl_status l))"
proof -
  obtain e s1 where 1: "nv_open_ro n s = (e, s1)" by (rule prod.exhaust)
  have f: "blobs s1 = blobs s" using nvs_blobs.open_ro_frame[OF assms(1) 1] .
  show ?thesis
  proof (cases "e = ESP_ERR_NVS_NOT_FOUND")
    case True
    then have "blobs s 0 = None" "blobs s 1 = None" using nvs_blobs.open_ro_missing[OF assms(1)] 1 by blast+
    then show ?thesis using assms(2) 1 True by (auto simp: scale_load_nvs_def empty_state slots_closed_def)
  next
    case False
    then have "slots_load scale_rules (nvs_store 512 n) mac s1 = (l, t)"
      using assms(2,3) 1 by (auto simp: scale_load_nvs_def slots_closed_def split: if_splits)
    from slot_journal.load_state[OF scale_slots[OF assms(1)] this _ assms(3)] show ?thesis using f by simp
  qed
qed

text \<open>C32: The recovery journal of the rescaling, for any storage that keeps the documented behaviour of NVS. Starting
  from an empty namespace, after any number of saves of one device, each of them possibly refused, interrupted, or stored
  although an error was reported, a load that the storage lets through never finds a corrupt or ambiguous pair: it finds no
  record, or it selects one that a chain of legal transitions links to an initial original record of generation one; the
  generation counts the transitions, and the original and target bytes of all 131 fields are still those of the initial
  record.\<close>

theorem scale_journal_history:
  assumes "nvs_blobs n blobs" "blobs s 0 = None" "blobs s 1 = None"
    "\<forall>(r, al, a) \<in> set es. scale_arrays r \<and> sr_mac r = mac"
    "scale_load_nvs n mac (foldl (\<lambda>s (r, al, a). snd (scale_save_nvs n r al a s)) s es) = (l, t)"
  shows "sl_status l \<in> {SS_Missing, SS_Ready, SS_IoError} \<and>
    (sl_status l = SS_Ready \<longrightarrow> (\<exists>r r0 k. loaded_record l = Some r \<and> scale_descends r0 r k))"
proof (cases "sl_status l = SS_IoError")
  case False
  note st = scale_load_state[OF assms(1,5) False] scale_history[OF assms(1-4)]
  show ?thesis
  proof (cases "sl_status l = SS_Ready")
    case True
    then show ?thesis using st by (cases "loaded_record l") auto
  next
    case r: False
    then have "journal_state scale_rules mac (blobs (foldl (\<lambda>s (r, al, a). snd (scale_save_nvs n r al a s)) s es)) =
        (if sl_status l = SS_Missing then No_Record else Refused (sl_status l))"
      using st(1) by (cases "sl_status l") simp_all
    then show ?thesis using st(2) r by (auto split: if_splits)
  qed
qed simp

definition sample_record :: scale_record where
  "sample_record = \<lparr>sr_mac = [2, 0, 0, 0, 0, 1], sr_snapshot = sample_snapshot\<lparr>rs_binding := mac_binding [2, 0, 0, 0, 0, 1]\<rparr>\<rparr>"

lemma validate_binding:
  assumes "rec_validate s c = RE_None" "rec_nonzero b"
  shows "rec_validate (s\<lparr>rs_binding := b\<rparr>) (c\<lparr>rc_binding := b\<rparr>) = RE_None"
  using assms by (simp add: rec_validate_def on_layout_def rec_same_binding_def list_ex_iff split: if_splits)

lemma sample_record_ok: "scale_shape sample_record" "scale_arrays sample_record"
proof -
  let ?b = "mac_binding [2, 0, 0, 0, 0, 1]"
  have "rec_nonzero ?b" by code_simp
  from validate_binding[OF sample_valid this]
  show "scale_shape sample_record"
    by (simp add: scale_shape_def scale_context_def sample_record_def sample_context_def sample_snapshot_def)
  show "scale_arrays sample_record"
    using public_layout_facts(3)
    by (simp add: scale_arrays_def sample_record_def sample_snapshot_def mac_binding_def list_all_length)
qed

definition sample_admission :: write_admission where
  "sample_admission = \<lparr>wa_transaction = True, wa_ota_lease = True, wa_stable_voltage = True\<rparr>"

lemma sample_saved:
  "scale_save_nvs ram_nvs_api sample_record False sample_admission \<lparr>rn_blobs = (\<lambda>_. None), rn_writes = []\<rparr> =
     (SS_Ready, \<lparr>rn_blobs = [0 \<mapsto> scale_image sample_record], rn_writes = []\<rparr>)"
  using sample_record_ok(1) scale_decode_image[OF sample_record_ok]
  by (simp add: scale_save_nvs_def sample_admission_def admitted_def ram_nvs_api_def slots_save_def scale_rules_def
      scale_encode_def slots_load_def nvs_store_def read_slot_def write_slot_def commit_slots_def ram_set_def slots_decide_def
      slot_record_def slot_corrupt_def save_target_def put_slot_def sample_record_def sample_snapshot_def
      ESP_ERR_NVS_NOT_FOUND_def esp_codes)

lemma sample_loaded:
  "\<exists>l. scale_load_nvs ram_nvs_api [2, 0, 0, 0, 0, 1] \<lparr>rn_blobs = [0 \<mapsto> scale_image sample_record], rn_writes = []\<rparr> =
     (l, \<lparr>rn_blobs = [0 \<mapsto> scale_image sample_record], rn_writes = []\<rparr>) \<and> sl_status l = SS_Ready \<and> loaded_record l = Some sample_record"
proof -
  have d: "scale_decode (scale_image sample_record) [2, 0, 0, 0, 0, 1] = Some sample_record"
    using scale_decode_image[OF sample_record_ok] by (simp add: sample_record_def)
  have g: "rs_generation (sr_snapshot sample_record) = 1" "rs_phase (sr_snapshot sample_record) = RP_Original"
    by (simp_all add: sample_record_def sample_snapshot_def)
  show ?thesis
    by (simp add: scale_load_nvs_def ram_nvs_api_def slots_load_def scale_rules_def nvs_store_def read_slot_def slots_decide_def
        slot_record_def slot_corrupt_def loaded_record_def ESP_ERR_NVS_NOT_FOUND_def esp_codes d g)
qed

theorem scale_journal_history_witness:
  "\<exists>l t r0 k. scale_load_nvs ram_nvs_api [2, 0, 0, 0, 0, 1]
      (snd (scale_save_nvs ram_nvs_api sample_record False sample_admission \<lparr>rn_blobs = (\<lambda>_. None), rn_writes = []\<rparr>)) = (l, t) \<and>
    loaded_record l = Some sample_record \<and> scale_descends r0 sample_record k"
proof -
  obtain l where l: "scale_load_nvs ram_nvs_api [2, 0, 0, 0, 0, 1] \<lparr>rn_blobs = [0 \<mapsto> scale_image sample_record], rn_writes = []\<rparr> =
     (l, \<lparr>rn_blobs = [0 \<mapsto> scale_image sample_record], rn_writes = []\<rparr>)" "sl_status l = SS_Ready" "loaded_record l = Some sample_record"
    using sample_loaded by blast
  have "\<exists>r r0 k. loaded_record l = Some r \<and> scale_descends r0 r k"
    using scale_journal_history[OF ram_nvs.nvs_blobs_axioms, of "\<lparr>rn_blobs = (\<lambda>_. None), rn_writes = []\<rparr>"
        "[(sample_record, False, sample_admission)]" "[2, 0, 0, 0, 0, 1]" l] l sample_record_ok(2) sample_saved
    by (simp add: sample_record_def)
  then show ?thesis using l sample_saved by auto
qed

end
