(* ===== verification/Contrast_Trial.thy ===== *)
theory Contrast_Trial
  imports Scale_Journal
begin

text \<open>
  The contrast experiment of the gauge (\<open>main/hal/mosaico/mosaico_gauge_contrast_model.h\<close>): one fixed source image of the
  131 public fields, two arms that differ in one word of their target, the classification of an observed image, the
  fields a trial may write, the transitions of the record, the lease, and the coordinators of apply and restore over a
  backend that is a parameter of the code.
\<close>

section \<open>Records\<close>

text \<open>A stored arm may be a byte that is no enumerator.\<close>

datatype contrast_arm = Arm_C | Arm_B | Arm_Other u8

record contrast_record =
  cn_mac :: bytes
  cn_identity :: rec_identity
  cn_generation :: u32
  cn_epoch :: u64
  cn_phase :: rec_phase
  cn_arm :: contrast_arm
  cn_source :: bytes

definition canonical_source_crc :: u32 where "canonical_source_crc = 0x70a767be"

definition source_fixture :: bytes where
  "source_fixture =
     [
      0xff, 0xf0, 0x0b, 0xd6, 0x7e, 0x73, 0xb6, 0x45, 0x93, 0x0a, 0xa5, 0x22, 0x00, 0x00, 0x00, 0x00, 0x00, 0x00, 0x00, 0x00,
      0xcb, 0xd4, 0x1a, 0x05, 0xd4, 0x86, 0x4a, 0xc6, 0xb4, 0xc2, 0x6e, 0x2b, 0x03, 0x7c, 0x01, 0x48, 0xfd, 0xa3, 0xf6, 0x75,
      0x12, 0x58, 0x2d, 0xb7, 0x1c, 0x98, 0x02, 0xd3, 0xff, 0xb9, 0x30, 0x01, 0x00, 0xef, 0x05, 0x11, 0x00, 0x00, 0x01, 0xc2,
      0x00, 0x32, 0x00, 0xc8, 0x10, 0x68, 0x00, 0x64, 0x04, 0x84, 0x18, 0x00, 0x01, 0x09, 0x00, 0x00, 0x96, 0x00, 0xaf, 0x02,
      0x20, 0x00, 0x0a, 0x05, 0x00, 0x32, 0x01, 0xc2, 0x14, 0x14, 0x00, 0x3c, 0x00, 0x4b, 0x00, 0x28, 0x00, 0x3c, 0x3c, 0x01,
      0x02, 0x26, 0x02, 0x01, 0xf4, 0x02, 0x58, 0x02, 0x02, 0x26, 0xf6, 0x0c, 0x4e, 0x02, 0x0c, 0xb2, 0x02, 0xbc, 0x77, 0x05,
      0xdc, 0x14, 0x00, 0x00, 0x00, 0xc8, 0x00, 0x00, 0x64, 0x64, 0x08, 0x0e, 0x74, 0x00, 0x64, 0x1f, 0x40, 0x02, 0x3c, 0x5a,
      0x0c, 0x8c, 0x8c, 0x0b, 0xb8, 0x0c, 0x1c, 0x00, 0x05, 0x10, 0x68, 0x10, 0x04, 0x64, 0x5f, 0x0c, 0x80, 0x0c, 0xe4, 0x06,
      0x08, 0x10, 0x68, 0x10, 0x04, 0x64, 0x5f, 0x00, 0x10, 0x2a, 0x0b, 0xb8, 0x0b, 0xb8, 0x0e, 0x74, 0x00, 0x64, 0x0e, 0x9f,
      0x00, 0x95, 0x03, 0x63, 0x0f, 0xbe, 0x01, 0x3c, 0x09, 0x00, 0x00, 0x0b, 0xd7, 0x01, 0x0d, 0x39, 0x01, 0x0d, 0xad, 0x01,
      0x10, 0x4d, 0x0f, 0xcb, 0x0f, 0x55, 0x0e, 0xed, 0x0e, 0x8d, 0x0e, 0x48, 0x0e, 0x23, 0x0d, 0xfe, 0x0d, 0xbb, 0x0d, 0x6f,
      0x0a, 0x99]"

definition raw_offset :: "nat \<Rightarrow> nat" where
  "raw_offset index = sum_list (map lf_width (take index public_layout))"

definition raw_digest_131 :: "bytes \<Rightarrow> u32" where
  "raw_digest_131 raw = crc32 (concat (map (\<lambda>i. map (\<lambda>j.
     if j < 2 then ucast (drop_bit (8 * j) (lf_address (public_layout ! i)))
     else if j = 2 then of_nat (lf_width (public_layout ! i))
     else if j - 3 < lf_width (public_layout ! i) then raw ! (raw_offset i + j - 3) else 0) [0..<7]) [0..<131]))"

definition owned_address :: "u16 \<Rightarrow> bool" where
  "owned_address a \<longleftrightarrow> a = 0x929b \<or> a = 0x929d \<or> a = 0x929f"

definition valid_arm :: "contrast_arm \<Rightarrow> bool" where
  "valid_arm a \<longleftrightarrow> a = Arm_C \<or> a = Arm_B"

definition contrast_shape :: "contrast_record \<Rightarrow> bool" where
  "contrast_shape r \<longleftrightarrow>
     list_ex (\<lambda>v. v \<noteq> 0) (cn_mac r) \<and> cn_mac r ! 0 AND 1 = 0 \<and> known_identity (cn_identity r) \<and>
     cn_generation r \<noteq> 0 \<and> cn_epoch r \<noteq> 0 \<and> valid_phase (cn_phase r) \<and> valid_arm (cn_arm r) \<and>
     cn_source r = source_fixture"

section \<open>Images\<close>

definition target_word :: "contrast_arm \<Rightarrow> u16 \<Rightarrow> u16" where
  "target_word arm a = (if a = 0x929b then if arm = Arm_C then 0x112a else 0x102a else 65)"

definition target_raw :: "contrast_record \<Rightarrow> bytes" where
  "target_raw r = foldl (\<lambda>out i.
     let a = lf_address (public_layout ! i) in
     if \<not> owned_address a then out
     else let v = target_word (cn_arm r) a; n = raw_offset i in
       out[n := ucast (drop_bit 8 v), n + 1 := ucast v]) (cn_source r) [0..<131]"

datatype contrast_image = CI_Invalid | CI_Original | CI_Target | CI_Mixed | CI_Unexpected

record contrast_observation =
  co_raw :: bytes
  co_authenticated :: bool
  co_sealed :: bool
  co_cfg0 :: bool

text \<open>Whether the observed bytes of a field are those of an image.\<close>

definition field_is :: "bytes \<Rightarrow> bytes \<Rightarrow> nat \<Rightarrow> bool" where
  "field_is img raw i \<longleftrightarrow>
     list_all (\<lambda>j. raw ! (raw_offset i + j) = img ! (raw_offset i + j)) [0..<lf_width (public_layout ! i)]"

fun contrast_loop :: "bytes \<Rightarrow> bytes \<Rightarrow> bytes \<Rightarrow> nat list \<Rightarrow> bool \<Rightarrow> bool \<Rightarrow> contrast_image" where
  "contrast_loop src tgt raw [] original applied =
     (if original then CI_Original else if applied then CI_Target else CI_Mixed)"
| "contrast_loop src tgt raw (i # is) original applied =
     (let a = field_is src raw i; b = field_is tgt raw i in
      if \<not> a \<and> \<not> b then CI_Unexpected else contrast_loop src tgt raw is (original \<and> a) (applied \<and> b))"

definition contrast_classify :: "contrast_record \<Rightarrow> contrast_observation \<Rightarrow> contrast_image" where
  "contrast_classify r ob =
     (if \<not> contrast_shape r \<or> \<not> co_authenticated ob then CI_Invalid
      else contrast_loop (cn_source r) (target_raw r) (co_raw ob) [0..<131] True True)"

definition writable :: "contrast_record \<Rightarrow> contrast_observation \<Rightarrow> u16 \<Rightarrow> bool \<Rightarrow> bool" where
  "writable r ob a restoring \<longleftrightarrow>
     (let image = contrast_classify r ob in
      owned_address a \<and> image \<noteq> CI_Invalid \<and> image \<noteq> CI_Unexpected \<and>
      (if restoring then cn_phase r \<noteq> RP_Original else cn_phase r = RP_Pending))"

section \<open>Transitions and the lease\<close>

definition contrast_transition :: "contrast_record \<Rightarrow> contrast_record \<Rightarrow> bool" where
  "contrast_transition a b \<longleftrightarrow>
     (if \<not> contrast_shape a \<or> \<not> contrast_shape b \<or> cn_mac a \<noteq> cn_mac b \<or>
         \<not> rec_same_identity (cn_identity a) (cn_identity b) \<or> cn_source a \<noteq> cn_source b \<or>
         cn_generation a = 0xffffffff \<or> cn_generation b \<noteq> cn_generation a + 1 \<or>
         cn_epoch a = 0xffffffffffffffff \<or> cn_epoch b \<noteq> cn_epoch a + 1 then False
      else if cn_phase a = RP_Original \<and> cn_phase b = RP_Original then True
      else if cn_arm a \<noteq> cn_arm b then False
      else (cn_phase a = RP_Original \<and> cn_phase b = RP_Pending) \<or>
        (cn_phase a = RP_Pending \<and> (cn_phase b = RP_Applied \<or> cn_phase b = RP_Restoring)) \<or>
        (cn_phase a = RP_Applied \<and> cn_phase b = RP_Restoring) \<or>
        (cn_phase a = RP_Restoring \<and> cn_phase b = RP_Original))"

record contrast_lease =
  le_started :: u64
  le_arm :: contrast_arm
  le_begun :: bool

definition contrast_lease0 :: contrast_lease where
  "contrast_lease0 = \<lparr>le_started = 0, le_arm = Arm_C, le_begun = False\<rparr>"

definition firmware_lease_ms :: u64 where "firmware_lease_ms = 720000"

definition begin_lease :: "contrast_lease \<Rightarrow> contrast_arm \<Rightarrow> u64 \<Rightarrow> bool \<times> contrast_lease" where
  "begin_lease l arm now =
     (if le_begun l \<or> \<not> valid_arm arm then (False, l)
      else (True, \<lparr>le_started = now, le_arm = arm, le_begun = True\<rparr>))"

definition lease_active :: "contrast_lease \<Rightarrow> contrast_arm \<Rightarrow> u64 \<Rightarrow> bool" where
  "lease_active l arm now \<longleftrightarrow>
     le_begun l \<and> le_arm l = arm \<and> now \<ge> le_started l \<and> now - le_started l < firmware_lease_ms"

definition restore_required :: "contrast_record \<Rightarrow> contrast_observation \<Rightarrow> bool" where
  "restore_required r ob \<longleftrightarrow>
     contrast_shape r \<and> (cn_phase r \<noteq> RP_Original \<or> contrast_classify r ob \<noteq> CI_Original)"

section \<open>The coordinators\<close>

text \<open>The operations of the backend that can fail; each takes whether the run restores.\<close>

datatype contrast_op = CO_Admit | CO_Intent | CO_Open | CO_Observe | CO_Enter | CO_Write | CO_Verify | CO_Exit | CO_Seal
  | CO_Final | CO_Complete

datatype contrast_result = CR_Blocked | CR_Applied | CR_Restored | CR_FailedClosed

record 's contrast_backend =
  cb_call :: "contrast_op \<Rightarrow> bool \<Rightarrow> 's \<Rightarrow> bool \<times> 's"
  cb_revoke :: "'s \<Rightarrow> 's"
  cb_protect :: "'s \<Rightarrow> 's"

text \<open>A chain of calls up to the first that fails.\<close>

fun contrast_calls :: "'s contrast_backend \<Rightarrow> bool \<Rightarrow> contrast_op list \<Rightarrow> 's \<Rightarrow> bool \<times> 's" where
  "contrast_calls b restoring [] s = (True, s)"
| "contrast_calls b restoring (op # ops) s =
     (case cb_call b op restoring s of (ok, s) \<Rightarrow>
        if ok then contrast_calls b restoring ops s else (False, s))"

definition contrast_work :: "contrast_op list" where
  "contrast_work = [CO_Open, CO_Observe, CO_Enter, CO_Write, CO_Verify, CO_Exit, CO_Seal, CO_Final, CO_Complete]"

definition contrast_restore :: "'s contrast_backend \<Rightarrow> 's \<Rightarrow> contrast_result \<times> 's" where
  "contrast_restore b s =
     (case contrast_calls b True [CO_Admit, CO_Intent] (cb_revoke b s) of
        (False, s) \<Rightarrow> (CR_FailedClosed, cb_protect b s)
      | (True, s) \<Rightarrow>
     (case contrast_calls b True contrast_work s of
        (False, s) \<Rightarrow> (CR_FailedClosed, cb_protect b s)
      | (True, s) \<Rightarrow> (CR_Restored, s)))"

definition contrast_apply :: "'s contrast_backend \<Rightarrow> 's \<Rightarrow> contrast_result \<times> 's" where
  "contrast_apply b s =
     (case contrast_calls b False [CO_Admit] s of
        (False, s) \<Rightarrow> (CR_Blocked, s)
      | (True, s) \<Rightarrow>
     (case contrast_calls b False [CO_Intent] (cb_revoke b s) of
        (False, s) \<Rightarrow> (CR_FailedClosed, s)
      | (True, s) \<Rightarrow>
     (case contrast_calls b False contrast_work s of
        (False, s) \<Rightarrow> contrast_restore b s
      | (True, s) \<Rightarrow> (CR_Applied, s))))"

section \<open>The log of a run\<close>

datatype contrast_event = CE_Call contrast_op bool bool | CE_Revoke | CE_Protect

definition recorded_contrast :: "'s contrast_backend \<Rightarrow> ('s \<times> contrast_event list) contrast_backend" where
  "recorded_contrast b =
     \<lparr>cb_call = (\<lambda>op m (s, l). case cb_call b op m s of (ok, s) \<Rightarrow> (ok, (s, l @ [CE_Call op m ok]))),
      cb_revoke = (\<lambda>(s, l). (cb_revoke b s, l @ [CE_Revoke])),
      cb_protect = (\<lambda>(s, l). (cb_protect b s, l @ [CE_Protect]))\<rparr>"

text \<open>The calls of a chain of which \<open>k\<close> succeed: all of them, or \<open>k\<close> and the one that fails.\<close>

definition calls_log :: "bool \<Rightarrow> contrast_op list \<Rightarrow> nat \<Rightarrow> contrast_event list" where
  "calls_log m ops k = map (\<lambda>op. CE_Call op m True) (take k ops) @
     (if k < length ops then [CE_Call (ops ! k) m False] else [])"

lemma contrast_calls_log:
  assumes "contrast_calls (recorded_contrast b) m ops (s, l) = (ok, (s', l'))"
  shows "\<exists>k \<le> length ops. ok = (k = length ops) \<and> l' = l @ calls_log m ops k"
  using assms
proof (induction ops arbitrary: s l)
  case Nil
  then show ?case by (simp add: calls_log_def)
next
  case (Cons op ops)
  obtain c s1 where 1: "cb_call b op m s = (c, s1)" by (rule prod.exhaust)
  show ?case
  proof (cases c)
    case False
    then show ?thesis using Cons.prems 1 by (intro exI[of _ 0]) (simp add: recorded_contrast_def calls_log_def)
  next
    case True
    then have "contrast_calls (recorded_contrast b) m ops (s1, l @ [CE_Call op m True]) = (ok, (s', l'))"
      using Cons.prems 1 by (simp add: recorded_contrast_def)
    from Cons.IH[OF this] obtain k where "k \<le> length ops" "ok = (k = length ops)"
      "l' = (l @ [CE_Call op m True]) @ calls_log m ops k" by blast
    then show ?thesis by (intro exI[of _ "Suc k"]) (simp add: calls_log_def)
  qed
qed

lemma revoke_log [simp]: "snd (cb_revoke (recorded_contrast b) sl) = snd sl @ [CE_Revoke]"
  "snd (cb_protect (recorded_contrast b) sl) = snd sl @ [CE_Protect]"
  by (simp_all add: recorded_contrast_def split_beta)

text \<open>What a restore leaves behind a log.\<close>

definition restore_log :: "contrast_result \<Rightarrow> contrast_event list \<Rightarrow> bool" where
  "restore_log r l \<longleftrightarrow>
     (r = CR_Restored \<and> l = CE_Revoke # map (\<lambda>op. CE_Call op True True) (CO_Admit # CO_Intent # contrast_work)) \<or>
     (r = CR_FailedClosed \<and> (\<exists>k < 11. l = CE_Revoke # calls_log True (CO_Admit # CO_Intent # contrast_work) k @ [CE_Protect]))"

lemma calls_log_append:
  "calls_log m (xs @ ys) (length xs + k) = map (\<lambda>op. CE_Call op m True) xs @ calls_log m ys k"
  by (simp add: calls_log_def nth_append)

lemma calls_log_prefix: "k < length xs \<Longrightarrow> calls_log m (xs @ ys) k = calls_log m xs k"
  by (simp add: calls_log_def nth_append)

lemma calls_log_full: "calls_log m xs (length xs) = map (\<lambda>op. CE_Call op m True) xs"
  by (simp add: calls_log_def)

lemma length_work: "length contrast_work = 9"
  by (simp add: contrast_work_def)

lemma contrast_restore_log:
  assumes "contrast_restore (recorded_contrast b) (s, l) = (r, (s', l'))"
  shows "\<exists>t. l' = l @ t \<and> restore_log r t"
proof -
  let ?b = "recorded_contrast b" and ?head = "[CO_Admit, CO_Intent]"
  obtain s0 where 0: "cb_revoke ?b (s, l) = (s0, l @ [CE_Revoke])" by (simp add: recorded_contrast_def)
  obtain c s1 l1 where 1: "contrast_calls ?b True ?head (s0, l @ [CE_Revoke]) = (c, s1, l1)" by (metis prod.exhaust)
  obtain j where j': "j \<le> length ?head" "c = (j = length ?head)" "l1 = (l @ [CE_Revoke]) @ calls_log True ?head j"
    using contrast_calls_log[OF 1] by blast
  then have j: "j \<le> 2" "c = (j = 2)" "l1 = l @ CE_Revoke # calls_log True ?head j" by (simp_all add: numeral_2_eq_2)
  obtain d s2 l2 where 2: "contrast_calls ?b True contrast_work (s1, l1) = (d, s2, l2)" by (metis prod.exhaust)
  obtain k where k: "k \<le> 9" "d = (k = 9)" "l2 = l1 @ calls_log True contrast_work k"
    using contrast_calls_log[OF 2] unfolding length_work by blast
  show ?thesis
  proof (cases c)
    case False
    obtain p where "cb_protect ?b (s1, l1) = (p, l1 @ [CE_Protect])" by (simp add: recorded_contrast_def)
    then have r: "r = CR_FailedClosed" "l' = l1 @ [CE_Protect]"
      using assms 0 1 False by (auto simp: contrast_restore_def simp del: contrast_calls.simps)
    have "j < length ?head" using j False by simp
    from calls_log_prefix[OF this, of True contrast_work]
    have "l' = l @ CE_Revoke # calls_log True (?head @ contrast_work) j @ [CE_Protect]" using r(2) j(3) by simp
    then show ?thesis using r(1) \<open>j < length ?head\<close> by (simp add: restore_log_def) (rule exI[of _ j], simp)
  next
    case True
    then have l1: "l1 = l @ CE_Revoke # map (\<lambda>op. CE_Call op True True) ?head" using j by (simp add: calls_log_def)
    show ?thesis
    proof (cases d)
      case True
      then show ?thesis using assms 0 1 2 \<open>c\<close> k l1
        by (auto simp: contrast_restore_def restore_log_def calls_log_def length_work simp del: contrast_calls.simps)
    next
      case False
      then have "k < 9" using k by simp
      obtain p where "cb_protect ?b (s2, l2) = (p, l2 @ [CE_Protect])" by (simp add: recorded_contrast_def)
      then have r: "r = CR_FailedClosed" "l' = l2 @ [CE_Protect]"
        using assms 0 1 2 False \<open>c\<close> by (auto simp: contrast_restore_def simp del: contrast_calls.simps)
      have "l' = l @ CE_Revoke # calls_log True (?head @ contrast_work) (length ?head + k) @ [CE_Protect]"
        using r(2) k(3) l1 unfolding calls_log_append by simp
      then show ?thesis using r(1) \<open>k < 9\<close> by (simp add: restore_log_def) (rule exI[of _ "Suc (Suc k)"], simp)
    qed
  qed
qed

text \<open>The contrast trial, for any backend. Its calls, in order, with their answers: a blocked trial did nothing but
  ask for admission; no gauge operation happens before the trust is revoked and the intent of the mode is durable; a trial
  is applied exactly when all eleven calls succeeded; once the gauge may have been touched and a call fails, a complete
  restore follows, itself behind a revocation, its own admission and its own intent; the result says restored exactly when
  every call of the restore succeeded, and otherwise the last thing done is to protect.\<close>

theorem contrast_trial_log:
  assumes "contrast_apply (recorded_contrast b) (s, []) = (r, (s', log))"
  shows "(r = CR_Blocked \<and> log = [CE_Call CO_Admit False False]) \<or>
    (r = CR_FailedClosed \<and> log = [CE_Call CO_Admit False True, CE_Revoke, CE_Call CO_Intent False False]) \<or>
    (r = CR_Applied \<and>
      log = CE_Call CO_Admit False True # CE_Revoke # map (\<lambda>op. CE_Call op False True) (CO_Intent # contrast_work)) \<or>
    (\<exists>k < 9. \<exists>t.
      log = [CE_Call CO_Admit False True, CE_Revoke, CE_Call CO_Intent False True] @ calls_log False contrast_work k @ t \<and>
      restore_log r t)"
proof -
  let ?b = "recorded_contrast b"
  obtain c1 s1 l1 where 1: "contrast_calls ?b False [CO_Admit] (s, []) = (c1, s1, l1)" by (metis prod.exhaust)
  have l1: "l1 = [CE_Call CO_Admit False c1]"
    using contrast_calls_log[OF 1] by (auto simp: calls_log_def le_Suc_eq)
  obtain s0 where 0: "cb_revoke ?b (s1, l1) = (s0, l1 @ [CE_Revoke])" by (simp add: recorded_contrast_def)
  obtain c2 s2 l2 where 2: "contrast_calls ?b False [CO_Intent] (s0, l1 @ [CE_Revoke]) = (c2, s2, l2)" by (metis prod.exhaust)
  have l2: "l2 = l1 @ [CE_Revoke, CE_Call CO_Intent False c2]"
    using contrast_calls_log[OF 2] by (auto simp: calls_log_def le_Suc_eq)
  obtain c3 s3 l3 where 3: "contrast_calls ?b False contrast_work (s2, l2) = (c3, s3, l3)" by (metis prod.exhaust)
  obtain k where k: "k \<le> 9" "c3 = (k = 9)" "l3 = l2 @ calls_log False contrast_work k"
    using contrast_calls_log[OF 3] unfolding length_work by blast
  consider "\<not> c1" | "c1" "\<not> c2" | "c1" "c2" "c3" | "c1" "c2" "\<not> c3" by blast
  then show ?thesis
  proof cases
    case 4
    then have "contrast_restore ?b (s3, l3) = (r, (s', log))" using assms 0 1 2 3 by (simp add: contrast_apply_def del: contrast_calls.simps)
    from contrast_restore_log[OF this] obtain t where t: "log = l3 @ t" "restore_log r t" by blast
    then show ?thesis using 4 k l1 l2 by (intro disjI2 exI[of _ k] exI[of _ t] conjI) simp_all
  qed (use assms 0 1 2 3 k l1 l2 in \<open>auto simp: contrast_apply_def calls_log_def length_work simp del: contrast_calls.simps\<close>)
qed

text \<open>A backend whose given call fails.\<close>

definition failing_contrast :: "contrast_op \<Rightarrow> unit contrast_backend" where
  "failing_contrast op = \<lparr>cb_call = (\<lambda>x m s. (x \<noteq> op \<or> m, s)), cb_revoke = id, cb_protect = id\<rparr>"

theorem contrast_trial_log_witness:
  "\<exists>log. contrast_apply (recorded_contrast (failing_contrast CO_Verify)) ((), []) = (CR_Restored, ((), log)) \<and>
     (\<exists>k < 9. \<exists>t. log = [CE_Call CO_Admit False True, CE_Revoke, CE_Call CO_Intent False True] @
        calls_log False contrast_work k @ t \<and> restore_log CR_Restored t)"
proof -
  obtain r u log where r: "contrast_apply (recorded_contrast (failing_contrast CO_Verify)) ((), []) = (r, (u, log))"
    by (metis prod.exhaust)
  moreover have "fst (contrast_apply (recorded_contrast (failing_contrast CO_Verify)) ((), [])) = CR_Restored" by code_simp
  ultimately have "r = CR_Restored" by simp
  then show ?thesis using contrast_trial_log[OF r] r by simp
qed

end
