(* ===== verification/Layout_Values.thy ===== *)
theory Layout_Values
  imports Gauge_Recovery
begin

text \<open>The layout of the 131 public fields as a table: what the compile-time sort of the source computes.\<close>

definition layout_table :: "(u16 \<times> nat) list" where
  "layout_table =
     [
      (0x9180, 2), (0x9182, 2), (0x9184, 4), (0x9188, 4), (0x91b4, 1), (0x91b5, 1), (0x91b6, 1), (0x91b7, 1), (0x91b8,
      2), (0x91ba, 2), (0x91bc, 2), (0x91be, 2), (0x91c0, 2), (0x91c2, 2), (0x91c4, 2), (0x91c6, 2), (0x91c8, 2),
      (0x91ca, 2), (0x91cc, 2), (0x91ce, 2), (0x91d0, 2), (0x91d2, 2), (0x91d4, 2), (0x91d6, 2), (0x91d8, 2), (0x91da,
      1), (0x91db, 2), (0x91dd, 1), (0x91de, 1), (0x91df, 1), (0x91f5, 2), (0x91f7, 2), (0x91f9, 2), (0x91fb, 2),
      (0x91fd, 2), (0x9201, 2), (0x9206, 2), (0x9208, 2), (0x920b, 1), (0x920c, 1), (0x920d, 1), (0x920e, 2), (0x9210,
      2), (0x9212, 2), (0x9217, 2), (0x9219, 1), (0x921a, 2), (0x921c, 2), (0x921e, 1), (0x921f, 1), (0x9228, 2),
      (0x922a, 2), (0x922c, 2), (0x922e, 2), (0x9230, 1), (0x9231, 1), (0x9232, 2), (0x9234, 1), (0x9235, 2), (0x9237,
      2), (0x9239, 1), (0x923a, 2), (0x923c, 1), (0x9240, 2), (0x9242, 1), (0x9243, 2), (0x9251, 2), (0x925b, 1),
      (0x9264, 2), (0x9268, 1), (0x9269, 2), (0x926b, 2), (0x926d, 2), (0x926f, 1), (0x9270, 1), (0x9271, 1), (0x9272,
      2), (0x9274, 2), (0x9276, 2), (0x927b, 1), (0x927c, 1), (0x927d, 1), (0x927f, 2), (0x9281, 1), (0x9282, 2),
      (0x9284, 2), (0x9286, 1), (0x9287, 1), (0x9288, 2), (0x928a, 2), (0x928c, 1), (0x928d, 1), (0x928e, 2), (0x9290,
      2), (0x9292, 1), (0x9293, 1), (0x9294, 2), (0x9296, 2), (0x9298, 1), (0x9299, 1), (0x929a, 1), (0x929b, 2),
      (0x929d, 2), (0x929f, 2), (0x92a3, 2), (0x92a5, 2), (0x92a7, 2), (0x92a9, 2), (0x92ab, 2), (0x92ad, 2), (0x92af,
      2), (0x92b1, 1), (0x92b2, 1), (0x92b3, 1), (0x92b4, 2), (0x92b6, 1), (0x92b7, 2), (0x92b9, 1), (0x92ba, 2),
      (0x92bc, 1), (0x92bd, 2), (0x92bf, 2), (0x92c1, 2), (0x92c3, 2), (0x92c5, 2), (0x92c7, 2), (0x92c9, 2), (0x92cb,
      2), (0x92cd, 2), (0x92cf, 2), (0x92d1, 2)
     ]"

definition layout_list :: "layout_field list" where
  "layout_list = map (\<lambda>(a, w). \<lparr>lf_address = a, lf_width = w\<rparr>) layout_table"

lemma length_layout_list: "length layout_list = 131"
  by (simp add: layout_list_def layout_table_def)

lemma layout_list_sorted: "sorted_wrt (<) (map lf_address layout_list)"
proof -
  have "successively (<) (map lf_address layout_list)"
    by (simp add: layout_list_def layout_table_def)
  then show ?thesis by (simp add: successively_conv_sorted_wrt transp_on_less)
qed

text \<open>Where each field of the three tables stands in the sorted layout.\<close>

definition layout_places :: "nat list" where
  "layout_places =
    [
     103, 102, 101, 100, 50, 51, 52, 44, 34, 33, 35, 105, 63, 64, 65, 114, 116, 118, 66, 71, 72, 82, 83, 53, 54, 55,
     106, 107, 108, 109, 110, 111, 112, 113, 120, 121, 122, 123, 124, 125, 126, 127, 128, 129, 130, 75, 76, 77, 73,
     74, 69, 70, 104, 115, 117, 119, 78, 79, 80, 0, 2, 3, 4, 27, 28, 29, 1, 5, 6, 7, 8, 9, 10, 11, 12, 13, 14, 15,
     16, 17, 18, 19, 20, 21, 22, 23, 24, 25, 26, 30, 31, 32, 36, 37, 38, 39, 40, 41, 42, 43, 45, 46, 47, 48, 49, 56,
     57, 58, 59, 60, 61, 62, 67, 68, 81, 84, 85, 86, 87, 88, 89, 90, 91, 92, 93, 94, 95, 96, 97, 98, 99
    ]"

lemma layout_list_mem: "set unsorted_layout \<subseteq> set layout_list"
proof -
  have u: "unsorted_layout = map (\<lambda>i. layout_list ! i) layout_places"
    by (simp add: layout_list_def layout_table_def layout_places_def unsorted_layout_def audit_fields_def cal_fields_def
        extra_fields_def cal_width_def)
  have "set unsorted_layout = (\<lambda>i. layout_list ! i) ` set layout_places" unfolding u by (rule list.set_map)
  moreover have "list_all (\<lambda>i. i < length layout_list) layout_places"
    by (simp add: length_layout_list layout_places_def)
  then have "(\<lambda>i. layout_list ! i) ` set layout_places \<subseteq> set layout_list"
    by (auto simp: list_all_iff intro: nth_mem)
  ultimately show ?thesis by simp
qed

text \<open>Two strictly sorted lists of the same length, one inside the other.\<close>

theorem public_layout_values: "public_layout = layout_list"
proof (rule map_sorted_distinct_set_unique)
  note s = layout_list_sorted public_layout_facts(2)
  then have d: "distinct (map lf_address layout_list)" "distinct (map lf_address public_layout)"
    "sorted (map lf_address layout_list)" "sorted (map lf_address public_layout)"
    by (simp_all only: strict_sorted_iff)
  then show "sorted (map lf_address public_layout)" "distinct (map lf_address public_layout)"
    "sorted (map lf_address layout_list)" "distinct (map lf_address layout_list)" by blast+
  have sub: "set public_layout \<subseteq> set layout_list"
    using mset_eq_setD[OF public_layout_facts(1)] layout_list_mem by simp
  have "card (set layout_list) = 131" "card (set public_layout) = 131"
    using d(1,2) public_layout_facts(3) length_layout_list distinct_card distinct_map by metis+
  then show eq: "set public_layout = set layout_list" using sub card_subset_eq[of "set layout_list"] by simp
  show "inj_on lf_address (set public_layout \<union> set layout_list)"
    using d(1) eq by (simp add: distinct_map)
qed

end
