(* ===== verification/Contrast_Images.thy ===== *)
theory Contrast_Images
  imports Contrast_Trial Layout_Values
begin

text \<open>
  The gate of the contrast experiment, said without its loops. The three owned fields are the words at the positions 168,
  170 and 172 of the packed image; everything else must be the reviewed source byte for byte, and each of the three words
  must be its source value or the target value of the record's own arm.
\<close>

section \<open>Offsets of the fields\<close>

lemma raw_offset_Suc: "i < 131 \<Longrightarrow> raw_offset (Suc i) = raw_offset i + lf_width (public_layout ! i)"
  using public_layout_facts(3) by (simp add: raw_offset_def take_Suc_conv_app_nth)

lemma raw_offset_mono: "i \<le> k \<Longrightarrow> k \<le> 131 \<Longrightarrow> raw_offset i \<le> raw_offset k"
proof (induction k)
  case (Suc k)
  show ?case
  proof (cases "i = Suc k")
    case False
    then have "raw_offset i \<le> raw_offset k" using Suc by simp
    then show ?thesis using raw_offset_Suc[of k] Suc.prems by simp
  qed simp
qed simp

lemma raw_offset_end: "i < k \<Longrightarrow> k < 131 \<Longrightarrow> raw_offset i + lf_width (public_layout ! i) \<le> raw_offset k"
  using raw_offset_mono[of "Suc i" k] raw_offset_Suc[of i] by simp

lemma raw_offset_bound: "i < 131 \<Longrightarrow> raw_offset i + lf_width (public_layout ! i) \<le> 222"
proof -
  assume "i < 131"
  moreover have "raw_offset 131 = 222" using layout_width_sum public_layout_facts(3) by (simp add: raw_offset_def)
  ultimately show ?thesis using raw_offset_mono[of "Suc i" 131] raw_offset_Suc[of i] by simp
qed

text \<open>The positions of a field.\<close>

definition in_field :: "nat \<Rightarrow> nat \<Rightarrow> bool" where
  "in_field i p \<longleftrightarrow> raw_offset i \<le> p \<and> p < raw_offset i + lf_width (public_layout ! i)"

lemma in_field_unique: "in_field i p \<Longrightarrow> in_field k p \<Longrightarrow> i < 131 \<Longrightarrow> k < 131 \<Longrightarrow> i = k"
  using raw_offset_end[of i k] raw_offset_end[of k i] by (cases i k rule: linorder_cases) (auto simp: in_field_def)

lemma field_is_iff: "field_is img raw i \<longleftrightarrow> (\<forall>p. in_field i p \<longrightarrow> raw ! p = img ! p)"
proof
  assume f: "field_is img raw i"
  then have w: "\<forall>j < lf_width (public_layout ! i). raw ! (raw_offset i + j) = img ! (raw_offset i + j)"
    by (simp add: field_is_def list_all_iff)
  show "\<forall>p. in_field i p \<longrightarrow> raw ! p = img ! p"
  proof (intro allI impI)
    fix p assume "in_field i p"
    then have "p - raw_offset i < lf_width (public_layout ! i)" "raw_offset i + (p - raw_offset i) = p" by (auto simp: in_field_def)
    then show "raw ! p = img ! p" using w by metis
  qed
qed (simp add: field_is_def in_field_def list_all_iff)

lemma owned_width: "i < 131 \<Longrightarrow> owned_address (lf_address (public_layout ! i)) \<Longrightarrow> lf_width (public_layout ! i) = 2"
proof -
  assume i: "i < 131" and o: "owned_address (lf_address (public_layout ! i))"
  have "\<forall>f \<in> set unsorted_layout. owned_address (lf_address f) \<longrightarrow> lf_width f = 2"
    unfolding list_all_iff[symmetric] by code_simp
  then have "\<forall>f \<in> set public_layout. owned_address (lf_address f) \<longrightarrow> lf_width f = 2"
    using mset_eq_setD[OF public_layout_facts(1)] by simp
  then show ?thesis using i o public_layout_facts(3) by simp
qed

text \<open>Every position of the packed image belongs to a field.\<close>

lemma in_field_below: "k \<le> 131 \<Longrightarrow> p < raw_offset k \<Longrightarrow> \<exists>i < k. in_field i p"
proof (induction k)
  case 0
  then show ?case by (simp add: raw_offset_def)
next
  case (Suc k)
  show ?case
  proof (cases "p < raw_offset k")
    case True
    then obtain i where "i < k" "in_field i p" using Suc by auto
    then show ?thesis by (intro exI[of _ i]) simp
  next
    case False
    then have "in_field k p" using Suc.prems raw_offset_Suc[of k] by (simp add: in_field_def)
    then show ?thesis by blast
  qed
qed

lemma raw_offset_all: "raw_offset 131 = 222"
  using layout_width_sum public_layout_facts(3) by (simp add: raw_offset_def)

lemma in_field_cover: "p < 222 \<Longrightarrow> \<exists>i < 131. in_field i p"
  using in_field_below[of 131 p] raw_offset_all by simp

lemma in_field_bound: "in_field i p \<Longrightarrow> i < 131 \<Longrightarrow> p < 222"
  using raw_offset_bound[of i] by (simp add: in_field_def)

text \<open>Where the owned fields are.\<close>

lemma owned_offsets: "raw_offset 101 = 168" "raw_offset 102 = 170" "raw_offset 103 = 172"
  by (simp_all add: raw_offset_def public_layout_values layout_list_def layout_table_def)

lemma owned_fields:
  "public_layout ! 101 = \<lparr>lf_address = 0x929b, lf_width = 2\<rparr>" "public_layout ! 102 = \<lparr>lf_address = 0x929d, lf_width = 2\<rparr>"
  "public_layout ! 103 = \<lparr>lf_address = 0x929f, lf_width = 2\<rparr>"
  by (simp_all add: public_layout_values layout_list_def layout_table_def)

lemma owned_index:
  assumes "i < 131"
  shows "owned_address (lf_address (public_layout ! i)) \<longleftrightarrow> i \<in> {101, 102, 103}"
proof -
  have d: "distinct (map lf_address public_layout)" using public_layout_facts(2) by (simp add: strict_sorted_iff)
  have inj: "i = k" if "k < 131" "lf_address (public_layout ! i) = lf_address (public_layout ! k)" for k
    using d assms that public_layout_facts(3) nth_eq_iff_index_eq[OF d, of i k] by simp
  show ?thesis using inj[of 101] inj[of 102] inj[of 103] owned_fields by (auto simp: owned_address_def)
qed

lemma in_owned: "in_field 101 p \<longleftrightarrow> p \<in> {168, 169}" "in_field 102 p \<longleftrightarrow> p \<in> {170, 171}" "in_field 103 p \<longleftrightarrow> p \<in> {172, 173}"
  by (auto simp: in_field_def owned_offsets owned_fields)

lemma owned_positions: "in_field 101 p \<or> in_field 102 p \<or> in_field 103 p \<longleftrightarrow> 168 \<le> p \<and> p < 174"
  unfolding in_field_def owned_offsets owned_fields layout_field.select_convs by linarith

lemma in_unowned:
  assumes "in_field i p" "i < 131"
  shows "i \<notin> {101, 102, 103} \<longleftrightarrow> \<not> (168 \<le> p \<and> p < 174)"
proof -
  have u: "in_field k p \<longleftrightarrow> i = k" if "k < 131" for k using in_field_unique[OF assms(1), of k] assms that by blast
  show ?thesis unfolding owned_positions[symmetric] by (simp add: u)
qed

section \<open>The target image\<close>

lemma target_raw_exact:
  "target_raw r = (cn_source r)[168 := ucast (drop_bit 8 (target_word (cn_arm r) 0x929b)), 169 := ucast (target_word (cn_arm r) 0x929b),
     170 := 0, 171 := 65, 172 := 0, 173 := 65]"
proof -
  define step where "step = (\<lambda>(out :: bytes) i. let a = lf_address (public_layout ! i) in
     if \<not> owned_address a then out
     else let v = target_word (cn_arm r) a; n = raw_offset i in out[n := ucast (drop_bit 8 v), n + 1 := ucast v])"
  have skip: "foldl step out is = out" if "\<forall>i \<in> set is. i < 131 \<and> i \<notin> {101, 102, 103}" for out "is"
    using that by (induction "is" arbitrary: out) (simp_all add: step_def owned_index Let_def)
  have u: "[0..<131] = [0..<101] @ [101, 102, 103] @ [104..<131]"
    using upt_add_eq_append[of 0 101 30] upt_add_eq_append[of 101 104 27] by (simp add: upt_rec[of 101] upt_rec[of 102] upt_rec[of 103])
  have "foldl step out [0..<101] = out" "foldl step out [104..<131] = out" for out by (rule skip, force)+
  then have "foldl step (cn_source r) [0..<131] = step (step (step (cn_source r) 101) 102) 103"
    unfolding u foldl_append by (simp only: foldl.simps)
  moreover have "step out 101 = out[168 := ucast (drop_bit 8 (target_word (cn_arm r) 0x929b)), 169 := ucast (target_word (cn_arm r) 0x929b)]"
    "step out 102 = out[170 := 0, 171 := 65]" "step out 103 = out[172 := 0, 173 := 65]" for out
    by (simp_all add: step_def owned_fields owned_offsets owned_address_def) (simp_all add: target_word_def)
  ultimately show ?thesis by (simp only: target_raw_def step_def[symmetric])
qed

lemma nth_target:
  "\<not> (168 \<le> p \<and> p < 174) \<Longrightarrow> target_raw r ! p = cn_source r ! p"
  by (auto simp: target_raw_exact nth_list_update)

section \<open>The words\<close>

definition raw_word :: "bytes \<Rightarrow> nat \<Rightarrow> u16" where
  "raw_word raw n = push_bit 8 (ucast (raw ! n)) OR ucast (raw ! (n + 1))"

lemma raw_word_eq: "raw_word raw n = v \<longleftrightarrow> raw ! n = ucast (drop_bit 8 v) \<and> raw ! (n + 1) = ucast v"
proof
  assume "raw_word raw n = v"
  then have v: "v = push_bit 8 (ucast (raw ! n)) OR ucast (raw ! (n + 1))" by (simp add: raw_word_def)
  have "bit (raw ! n) k = bit (ucast (drop_bit 8 v) :: u8) k \<and> bit (raw ! (n + 1)) k = bit (ucast v :: u8) k" if "k < 8" for k
    using that unfolding v by (auto simp: bit_simps dest: bit_imp_le_length)
  then show "raw ! n = ucast (drop_bit 8 v) \<and> raw ! (n + 1) = ucast v" by (auto intro!: bit_word_eqI)
next
  assume "raw ! n = ucast (drop_bit 8 v) \<and> raw ! (n + 1) = ucast v"
  then show "raw_word raw n = v"
    by (intro bit_word_eqI) (auto simp: raw_word_def bit_simps)
qed

section \<open>Classification\<close>

lemma contrast_loop_spec:
  "contrast_loop src tgt raw is a b =
    (if list_ex (\<lambda>i. \<not> field_is src raw i \<and> \<not> field_is tgt raw i) is then CI_Unexpected
     else if a \<and> list_all (field_is src raw) is then CI_Original
     else if b \<and> list_all (field_is tgt raw) is then CI_Target else CI_Mixed)"
  by (induction "is" arbitrary: a b) (auto simp: Let_def)

text \<open>The fields against an image that differs from the source in the owned words only.\<close>

lemma owned_field_is:
  "field_is img raw 101 \<longleftrightarrow> raw_word raw 168 = raw_word img 168" "field_is img raw 102 \<longleftrightarrow> raw_word raw 170 = raw_word img 170"
  "field_is img raw 103 \<longleftrightarrow> raw_word raw 172 = raw_word img 172"
proof -
  have w: "raw_word raw n = raw_word img n \<longleftrightarrow> raw ! n = img ! n \<and> raw ! (n + 1) = img ! (n + 1)" for n
  proof -
    have "img ! n = ucast (drop_bit 8 (raw_word img n))" "img ! (n + 1) = ucast (raw_word img n)"
      using raw_word_eq[of img n "raw_word img n"] by simp_all
    then show ?thesis using raw_word_eq[of raw n "raw_word img n"] by metis
  qed
  show "field_is img raw 101 \<longleftrightarrow> raw_word raw 168 = raw_word img 168" "field_is img raw 102 \<longleftrightarrow> raw_word raw 170 = raw_word img 170"
    "field_is img raw 103 \<longleftrightarrow> raw_word raw 172 = raw_word img 172"
    by (simp_all add: field_is_iff in_owned w all_conj_distrib)
qed

definition unowned_source :: "bytes \<Rightarrow> bool" where
  "unowned_source raw \<longleftrightarrow> (\<forall>p<222. \<not> (168 \<le> p \<and> p < 174) \<longrightarrow> raw ! p = source_fixture ! p)"

lemma unowned_source_fields:
  assumes "\<And>p. \<not> (168 \<le> p \<and> p < 174) \<Longrightarrow> img ! p = source_fixture ! p"
  shows "unowned_source raw \<longleftrightarrow> (\<forall>i<(131 :: nat). i \<notin> {101, 102, 103} \<longrightarrow> field_is img raw i)"
proof
  assume u: "unowned_source raw"
  show "\<forall>i<(131 :: nat). i \<notin> {101, 102, 103} \<longrightarrow> field_is img raw i"
  proof (intro allI impI)
    fix i :: nat assume i: "i < 131" "i \<notin> {101, 102, 103}"
    show "field_is img raw i" unfolding field_is_iff
      using in_unowned[OF _ i(1)] i(2) in_field_bound[OF _ i(1)] u assms by (auto simp: unowned_source_def)
  qed
next
  assume f: "\<forall>i<(131 :: nat). i \<notin> {101, 102, 103} \<longrightarrow> field_is img raw i"
  show "unowned_source raw" unfolding unowned_source_def
  proof (intro allI impI)
    fix p :: nat assume p: "p < 222" "\<not> (168 \<le> p \<and> p < 174)"
    obtain i where i: "i < 131" "in_field i p" using in_field_cover[OF p(1)] by blast
    then have "field_is img raw i" using f in_unowned[OF i(2,1)] p(2) by blast
    then show "raw ! p = source_fixture ! p" using i(2) assms[OF p(2)] by (simp add: field_is_iff)
  qed
qed

lemma fields_split: "(\<forall>i<131. P i) \<longleftrightarrow> (\<forall>i<131. i \<notin> {101, 102, 103} \<longrightarrow> P i) \<and> P 101 \<and> P 102 \<and> P (103 :: nat)"
proof -
  have "(101 :: nat) < 131" "(102 :: nat) < 131" "(103 :: nat) < 131" by simp_all
  then show ?thesis by blast
qed

definition arm_word :: "contrast_record \<Rightarrow> u16" where
  "arm_word r = (if cn_arm r = Arm_C then 0x112a else 0x102a)"

lemma image_words:
  "raw_word source_fixture 168 = 0x102a" "raw_word source_fixture 170 = 3000" "raw_word source_fixture 172 = 3000"
  "cn_source r = source_fixture \<Longrightarrow> raw_word (target_raw r) 168 = arm_word r"
  "cn_source r = source_fixture \<Longrightarrow> raw_word (target_raw r) 170 = 65"
  "cn_source r = source_fixture \<Longrightarrow> raw_word (target_raw r) 172 = 65"
  unfolding raw_word_eq by (simp_all add: source_fixture_def target_raw_exact target_word_def arm_word_def)

lemma contrast_gate:
  assumes "contrast_shape r" "co_authenticated ob"
  defines "w \<equiv> raw_word (co_raw ob)"
  shows "contrast_classify r ob =
    (if \<not> (unowned_source (co_raw ob) \<and> w 168 \<in> {0x102a, arm_word r} \<and> w 170 \<in> {3000, 65} \<and> w 172 \<in> {3000, 65}) then CI_Unexpected
     else if w 168 = 0x102a \<and> w 170 = 3000 \<and> w 172 = 3000 then CI_Original
     else if w 168 = arm_word r \<and> w 170 = 65 \<and> w 172 = 65 then CI_Target else CI_Mixed)"
proof -
  have src: "cn_source r = source_fixture" using assms(1) by (simp add: contrast_shape_def)
  let ?S = "field_is (cn_source r) (co_raw ob)" and ?T = "field_is (target_raw r) (co_raw ob)"
  have S: "?S 101 \<longleftrightarrow> w 168 = 0x102a" "?S 102 \<longleftrightarrow> w 170 = 3000" "?S 103 \<longleftrightarrow> w 172 = 3000"
    and T: "?T 101 \<longleftrightarrow> w 168 = arm_word r" "?T 102 \<longleftrightarrow> w 170 = 65" "?T 103 \<longleftrightarrow> w 172 = 65"
    using image_words by (simp_all add: owned_field_is src w_def)
  have U: "unowned_source (co_raw ob) \<longleftrightarrow> (\<forall>i<131. i \<notin> {101, 102, 103} \<longrightarrow> ?S i)"
    "unowned_source (co_raw ob) \<longleftrightarrow> (\<forall>i<131. i \<notin> {101, 102, 103} \<longrightarrow> ?T i)"
    using nth_target[of _ r] src by (intro unowned_source_fields; simp)+
  have E: "?S i = ?T i" if "i < 131" "i \<notin> {101, 102, 103}" for i
    using nth_target[of _ r] in_unowned[OF _ that(1)] that(2) unfolding field_is_iff by auto
  have "list_ex (\<lambda>i. \<not> ?S i \<and> \<not> ?T i) [0..<131] \<longleftrightarrow> \<not> (\<forall>i<131. ?S i \<or> ?T i)" by (auto simp: list_ex_iff)
  also have "(\<forall>i<131. ?S i \<or> ?T i) \<longleftrightarrow> (\<forall>i<131. i \<notin> {101, 102, 103} \<longrightarrow> ?S i) \<and> (?S 101 \<or> ?T 101) \<and> (?S 102 \<or> ?T 102) \<and> (?S 103 \<or> ?T 103)"
    unfolding fields_split[of "\<lambda>i. ?S i \<or> ?T i"] using E by blast
  finally have X: "list_ex (\<lambda>i. \<not> ?S i \<and> \<not> ?T i) [0..<131] \<longleftrightarrow>
    \<not> (unowned_source (co_raw ob) \<and> w 168 \<in> {0x102a, arm_word r} \<and> w 170 \<in> {3000, 65} \<and> w 172 \<in> {3000, 65})"
    unfolding U(1)[symmetric] S T by simp
  have A: "list_all ?S [0..<131] \<longleftrightarrow> unowned_source (co_raw ob) \<and> w 168 = 0x102a \<and> w 170 = 3000 \<and> w 172 = 3000"
    using fields_split[of ?S] unfolding U(1)[symmetric] S by (simp add: list_all_iff Ball_def)
  have B: "list_all ?T [0..<131] \<longleftrightarrow> unowned_source (co_raw ob) \<and> w 168 = arm_word r \<and> w 170 = 65 \<and> w 172 = 65"
    using fields_split[of ?T] unfolding U(2)[symmetric] T by (simp add: list_all_iff Ball_def)
  show ?thesis unfolding contrast_classify_def contrast_loop_spec X A B using assms(1,2) by auto
qed

text \<open>C33: The gate of the contrast experiment lets a write through exactly as its comments promise, for every record,
  observation and address. Without a well-shaped record and an authenticated reading the image is invalid. Otherwise it is
  expected only when every byte outside the three owned words is the reviewed source, the first owned word is 0x102a or the
  target of the record's own arm, and each of the other two is 3000 or 65: no byte mixing, no target of the other arm, no
  third value. It is then Original with all three at the source, Target with all three at the arm's target, and Mixed
  otherwise. A write is let through only for one of the three owned addresses, over an expected image, in phase Pending
  forward and in any phase but Original back; and a restore is required unless an authenticated original image meets phase
  Original.\<close>

theorem contrast_gate_exact:
  fixes r :: contrast_record and ob :: contrast_observation
  defines "w \<equiv> raw_word (co_raw ob)"
    and "arm \<equiv> (if cn_arm r = Arm_C then 0x112a else 0x102a)"
    and "source_outside \<equiv> \<forall>p<222. \<not> (168 \<le> p \<and> p < 174) \<longrightarrow> co_raw ob ! p = source_fixture ! p"
  defines "expected \<equiv> contrast_shape r \<and> co_authenticated ob \<and> source_outside \<and>
      w 168 \<in> {0x102a, arm} \<and> w 170 \<in> {3000, 65} \<and> w 172 \<in> {3000, 65}"
    and "original \<equiv> w 168 = 0x102a \<and> w 170 = 3000 \<and> w 172 = 3000"
  shows "contrast_classify r ob =
      (if \<not> contrast_shape r \<or> \<not> co_authenticated ob then CI_Invalid else if \<not> expected then CI_Unexpected
       else if original then CI_Original else if w 168 = arm \<and> w 170 = 65 \<and> w 172 = 65 then CI_Target else CI_Mixed) \<and>
    (writable r ob a restoring \<longleftrightarrow> a \<in> {0x929b, 0x929d, 0x929f} \<and> expected \<and>
      (if restoring then cn_phase r \<noteq> RP_Original else cn_phase r = RP_Pending)) \<and>
    (restore_required r ob \<longleftrightarrow> contrast_shape r \<and> \<not> (cn_phase r = RP_Original \<and> expected \<and> original))"
proof (cases "contrast_shape r \<and> co_authenticated ob")
  case True
  then have sh: "contrast_shape r" "co_authenticated ob" by simp_all
  have arm: "arm = arm_word r" by (simp add: arm_def arm_word_def)
  have ex: "expected = (unowned_source (co_raw ob) \<and> w 168 \<in> {0x102a, arm_word r} \<and> w 170 \<in> {3000, 65} \<and> w 172 \<in> {3000, 65})"
    by (simp only: expected_def source_outside_def unowned_source_def arm sh simp_thms)
  have k: "contrast_classify r ob = (if \<not> expected then CI_Unexpected
     else if original then CI_Original else if w 168 = arm \<and> w 170 = 65 \<and> w 172 = 65 then CI_Target else CI_Mixed)"
    unfolding ex original_def w_def arm by (rule contrast_gate[OF sh])
  show ?thesis unfolding writable_def restore_required_def k using True by (auto simp: owned_address_def Let_def)
next
  case False
  then have "contrast_classify r ob = CI_Invalid" "\<not> expected" by (auto simp: contrast_classify_def expected_def)
  then show ?thesis using False by (auto simp: writable_def restore_required_def)
qed

definition contrast_sample :: contrast_record where
  "contrast_sample = \<lparr>cn_mac = [2, 0, 0, 0, 0, 1], cn_identity = \<lparr>ri_device = 0x0220, ri_firmware = 3, ri_build = 4\<rparr>,
     cn_generation = 2, cn_epoch = 2, cn_phase = RP_Pending, cn_arm = Arm_C, cn_source = source_fixture\<rparr>"

lemma contrast_sample_shape: "contrast_shape contrast_sample"
  by (simp add: contrast_shape_def contrast_sample_def known_identity_def valid_phase_def valid_arm_def)

definition seen :: "bytes \<Rightarrow> contrast_observation" where
  "seen raw = \<lparr>co_raw = raw, co_authenticated = True, co_sealed = True, co_cfg0 = True\<rparr>"

text \<open>Arm C, interrupted after its first word: mixed and writable; with one byte of that word wrong: unexpected.\<close>

theorem contrast_gate_exact_witness:
  "contrast_classify contrast_sample (seen (source_fixture[168 := 0x11])) = CI_Mixed \<and>
   writable contrast_sample (seen (source_fixture[168 := 0x11])) 0x929d False \<and>
   contrast_classify contrast_sample (seen (source_fixture[169 := 0x2b])) = CI_Unexpected \<and>
   \<not> writable contrast_sample (seen (source_fixture[169 := 0x2b])) 0x929d True"
proof -
  have f: "cn_arm contrast_sample = Arm_C" "cn_phase contrast_sample = RP_Pending" by (simp_all add: contrast_sample_def)
  have o: "\<forall>p<222. \<not> (168 \<le> p \<and> p < 174) \<longrightarrow> source_fixture[168 := 0x11] ! p = source_fixture ! p" by (auto simp: nth_list_update)
  have w: "raw_word (source_fixture[168 := 0x11]) 168 = 0x112a" "raw_word (source_fixture[168 := 0x11]) 170 = 3000"
    "raw_word (source_fixture[168 := 0x11]) 172 = 3000" "raw_word (source_fixture[169 := 0x2b]) 168 = 0x102b"
    unfolding raw_word_eq by (simp_all add: source_fixture_def)
  show ?thesis
    using contrast_gate_exact[of contrast_sample "seen (source_fixture[168 := 0x11])" "0x929d" False]
      contrast_gate_exact[of contrast_sample "seen (source_fixture[169 := 0x2b])" "0x929d" True] contrast_sample_shape f o w
    by (simp add: seen_def)
qed

end
