(* ===== verification/Contrast_Journal.thy ===== *)
theory Contrast_Journal
  imports Contrast_Trial
begin

text \<open>
  The journal of the contrast experiment (\<open>main/hal/mosaico/mosaico_gauge_contrast_journal_model.h\<close> and
  \<open>mosaico_gauge_contrast_journal.cpp\<close>): its 320-byte codec, and its two slots behind a handle that is opened for
  reading, may find no namespace, and is reopened for writing only when a write has been admitted.
\<close>

section \<open>The codec\<close>

definition arm_byte :: "contrast_arm \<Rightarrow> u8" where
  "arm_byte a = (case a of Arm_C \<Rightarrow> 1 | Arm_B \<Rightarrow> 2 | Arm_Other b \<Rightarrow> b)"

definition byte_arm :: "u8 \<Rightarrow> contrast_arm" where
  "byte_arm b = (if b = 1 then Arm_C else if b = 2 then Arm_B else Arm_Other b)"

definition contrast_body :: "contrast_record \<Rightarrow> bytes" where
  "contrast_body r =
     (let b = put_bytes (replicate 320 0) 0 [0x47, 0x43, 0x54, 0x31];
          b = put_le (put_le b 4 (1 :: u64) 2) 6 (320 :: u64) 2;
          b = put_bytes b 8 (cn_mac r);
          b = put_le (put_le b 14 (ri_device (cn_identity r)) 2) 16 (ri_firmware (cn_identity r)) 2;
          b = b[18 := ri_build (cn_identity r), 19 := phase_byte (cn_phase r), 20 := arm_byte (cn_arm r), 21 := 1];
          b = put_le (put_le b 24 (cn_generation r) 4) 28 (cn_epoch r) 8;
          b = put_le (put_le b 36 (131 :: u64) 2) 38 (222 :: u64) 2;
          b = put_le (put_le b 40 canonical_source_crc 4) 44 layout_fingerprint 4
      in put_bytes b 64 (cn_source r))"

definition contrast_blob :: "contrast_record \<Rightarrow> bytes" where
  "contrast_blob r = seal (contrast_body r) 316"

definition contrast_encode :: "contrast_record \<Rightarrow> bytes option" where
  "contrast_encode r = (if contrast_shape r then Some (contrast_blob r) else None)"

definition contrast_parsed :: "bytes \<Rightarrow> bytes \<Rightarrow> contrast_record" where
  "contrast_parsed b mac =
     \<lparr>cn_mac = mac, cn_identity = \<lparr>ri_device = get_le b 14 2, ri_firmware = get_le b 16 2, ri_build = b ! 18\<rparr>,
      cn_generation = get_le b 24 4, cn_epoch = get_le b 28 8, cn_phase = byte_phase (b ! 19), cn_arm = byte_arm (b ! 20),
      cn_source = get_bytes b 64 222\<rparr>"

definition contrast_decode :: "bytes \<Rightarrow> bytes \<Rightarrow> contrast_record option" where
  "contrast_decode b mac =
     (if b ! 0 \<noteq> 0x47 \<or> b ! 1 \<noteq> 0x43 \<or> b ! 2 \<noteq> 0x54 \<or> b ! 3 \<noteq> 0x31 \<or>
         get_le b 4 2 \<noteq> (1 :: u64) \<or> get_le b 6 2 \<noteq> (320 :: u64) \<or> \<not> sealed b 316 then None
      else if list_ex (\<lambda>i. b ! (8 + i) \<noteq> mac ! i) [0..<6] then None
      else if b ! 21 \<noteq> 1 \<or> b ! 22 \<noteq> 0 \<or> b ! 23 \<noteq> 0 \<or> get_le b 36 2 \<noteq> (131 :: u64) \<or> get_le b 38 2 \<noteq> (222 :: u64) \<or>
         get_le b 40 4 \<noteq> canonical_source_crc \<or> get_le b 44 4 \<noteq> layout_fingerprint then None
      else if \<not> zeros b 48 64 then None
      else if \<not> zeros b 286 316 then None
      else if \<not> contrast_shape (contrast_parsed b mac) then None
      else Some (contrast_parsed b mac))"

lemma length_fixture: "length source_fixture = 222"
  by (simp add: source_fixture_def)

lemma length_contrast_body [simp]: "length (contrast_body r) = 320"
  by (simp add: contrast_body_def Let_def)

lemma length_contrast_blob [simp]: "length (contrast_blob r) = 320"
  by (simp add: contrast_blob_def)

lemma nth_contrast_blob: "i < 316 \<Longrightarrow> contrast_blob r ! i = contrast_body r ! i"
  by (simp add: contrast_blob_def codec_simps)

lemma get_le_contrast_blob: "p + k \<le> 316 \<Longrightarrow> get_le (contrast_blob r) p k = get_le (contrast_body r) p k"
  by (simp add: contrast_blob_def codec_simps)

lemma contrast_body_bytes:
  assumes "length (cn_mac r) = 6" "length (cn_source r) = 222"
  shows "contrast_body r ! 0 = 0x47" "contrast_body r ! 1 = 0x43" "contrast_body r ! 2 = 0x54" "contrast_body r ! 3 = 0x31"
    "i < 6 \<Longrightarrow> contrast_body r ! (8 + i) = cn_mac r ! i" "contrast_body r ! 18 = ri_build (cn_identity r)"
    "contrast_body r ! 19 = phase_byte (cn_phase r)" "contrast_body r ! 20 = arm_byte (cn_arm r)"
    "contrast_body r ! 21 = 1" "contrast_body r ! 22 = 0" "contrast_body r ! 23 = 0"
    "zeros (contrast_body r) 48 64" "zeros (contrast_body r) 286 316"
  using assms by (simp_all add: contrast_body_def Let_def nth_put_le nth_put_bytes nth_list_update zeros_iff)

lemma contrast_body_numbers:
  assumes "length (cn_mac r) = 6" "length (cn_source r) = 222"
  shows "get_le (contrast_body r) 4 2 = (1 :: u64)" "get_le (contrast_body r) 6 2 = (320 :: u64)"
    "get_le (contrast_body r) 14 2 = ri_device (cn_identity r)" "get_le (contrast_body r) 16 2 = ri_firmware (cn_identity r)"
    "get_le (contrast_body r) 24 4 = cn_generation r" "get_le (contrast_body r) 28 8 = cn_epoch r"
    "get_le (contrast_body r) 36 2 = (131 :: u64)" "get_le (contrast_body r) 38 2 = (222 :: u64)"
    "get_le (contrast_body r) 40 4 = canonical_source_crc" "get_le (contrast_body r) 44 4 = layout_fingerprint"
    "get_bytes (contrast_body r) 64 222 = cn_source r"
  using assms by (simp_all add: contrast_body_def Let_def codec_simps)

lemma byte_arm_byte [simp]: "valid_arm a \<Longrightarrow> byte_arm (arm_byte a) = a"
  by (auto simp: valid_arm_def byte_arm_def arm_byte_def)

lemma contrast_decode_blob:
  assumes "contrast_shape r" "length (cn_mac r) = 6"
  shows "contrast_decode (contrast_blob r) (cn_mac r) = Some r"
proof -
  have src: "length (cn_source r) = 222" using assms(1) length_fixture by (simp add: contrast_shape_def)
  note B = contrast_body_bytes[OF assms(2) src] and N = contrast_body_numbers[OF assms(2) src]
  have "get_bytes (contrast_blob r) 64 222 = cn_source r"
    using N(11) by (simp add: contrast_blob_def codec_simps)
  moreover have "valid_phase (cn_phase r)" "valid_arm (cn_arm r)" using assms(1) by (simp_all add: contrast_shape_def)
  ultimately have p: "contrast_parsed (contrast_blob r) (cn_mac r) = r"
    using B N by (simp add: contrast_parsed_def nth_contrast_blob get_le_contrast_blob)
  have z: "zeros (contrast_blob r) 48 64" "zeros (contrast_blob r) 286 316"
    using B(12,13) by (simp_all add: zeros_iff nth_contrast_blob)
  have m: "\<not> list_ex (\<lambda>i. contrast_blob r ! (8 + i) \<noteq> cn_mac r ! i) [0..<6]"
    using B(5) by (simp add: list_ex_iff nth_contrast_blob)
  have s: "sealed (contrast_blob r) 316" by (simp add: contrast_blob_def sealed_seal)
  show ?thesis
    using B(1-4,9-11) N(1,2,7-10) assms(1) z m s p
    by (simp add: contrast_decode_def nth_contrast_blob get_le_contrast_blob)
qed

lemma contrast_decode_sealed: "contrast_decode b mac = Some r \<Longrightarrow> sealed b 316"
  by (simp add: contrast_decode_def split: if_splits)

interpretation contrast_codec: sealed_codec 316 "\<lambda>b. contrast_decode b mac" contrast_blob
  "\<lambda>r. contrast_shape r \<and> length (cn_mac r) = 6 \<and> cn_mac r = mac"
  by unfold_locales (auto intro: contrast_decode_blob contrast_decode_sealed)

section \<open>The store\<close>

definition contrast_rules :: "contrast_record journal_rules" where
  "contrast_rules = \<lparr>jr_size = 320, jr_encode = contrast_encode, jr_decode = contrast_decode, jr_mac = cn_mac,
     jr_generation = cn_generation, jr_original = (\<lambda>r. cn_phase r = RP_Original), jr_transition = contrast_transition\<rparr>"

text \<open>\<open>Handle\<close>: whether a handle is held, and whether it is writable.\<close>

type_synonym 's slot_handle = "bool \<times> bool \<times> 's"

definition handle_read :: "'s nvs \<Rightarrow> nat \<Rightarrow> 's slot_handle \<Rightarrow> slot_read \<times> 's slot_handle" where
  "handle_read n slot = (\<lambda>(h, w, s).
     if slot > 1 then (SR_Error, h, w, s)
     else if \<not> h then (SR_Missing, h, w, s)
     else case read_slot 320 n slot s of (r, s) \<Rightarrow> (r, h, w, s))"

definition handle_write :: "'s nvs \<Rightarrow> nat \<Rightarrow> bytes \<Rightarrow> 's slot_handle \<Rightarrow> bool \<times> 's slot_handle" where
  "handle_write n slot b = (\<lambda>(h, w, s).
     if slot > 1 then (False, h, w, s)
     else if w then case nv_set n slot b s of (e, s) \<Rightarrow> (e = ESP_OK, h, w, s)
     else case nv_open_rw n s of (e, s) \<Rightarrow>
       if e \<noteq> ESP_OK then (False, False, False, s)
       else case nv_set n slot b s of (e, s) \<Rightarrow> (e = ESP_OK, True, True, s))"

definition handle_commit :: "'s nvs \<Rightarrow> 's slot_handle \<Rightarrow> bool \<times> 's slot_handle" where
  "handle_commit n = (\<lambda>(h, w, s). case nv_commit n s of (e, s) \<Rightarrow> (e = ESP_OK, h, w, s))"

text \<open>The capacity gate of the first record: three blobs of 13 entries, the namespace and 16 entries of headroom.\<close>

definition entries_per_blob :: nat where "entries_per_blob = (320 + 31) div 32 + 3"
definition initial_required_entries :: nat where "initial_required_entries = 3 * entries_per_blob + 1 + 16"

definition handle_room :: "'s nvs \<Rightarrow> 's slot_handle \<Rightarrow> slot_status option \<times> 's slot_handle" where
  "handle_room n = (\<lambda>(h, w, s).
     case nv_stats n s of ((e, free), s) \<Rightarrow>
       (if e \<noteq> ESP_OK then Some SS_IoError else if free < initial_required_entries then Some SS_NoSpace else None, h, w, s))"

definition handle_store :: "'s nvs \<Rightarrow> 's slot_handle slot_store" where
  "handle_store n = \<lparr>ss_read = handle_read n, ss_write = handle_write n, ss_commit = handle_commit n, ss_room = handle_room n\<rparr>"

definition contrast_load_nvs :: "'s nvs \<Rightarrow> bytes \<Rightarrow> 's \<Rightarrow> contrast_record slots_loaded \<times> 's" where
  "contrast_load_nvs n mac s =
     (case nv_open_ro n s of (e, s) \<Rightarrow>
        if e \<noteq> ESP_OK then (slots_closed (if e = ESP_ERR_NVS_NOT_FOUND then SS_Missing else SS_IoError), s)
        else case slots_load contrast_rules (handle_store n) mac (True, False, s) of (l, h, w, s) \<Rightarrow> (l, s))"

definition contrast_save_nvs :: "'s nvs \<Rightarrow> contrast_record \<Rightarrow> bool \<Rightarrow> write_admission \<Rightarrow> 's \<Rightarrow> slot_status \<times> 's" where
  "contrast_save_nvs n r aliased a s =
     (if aliased \<or> \<not> admitted a \<or> \<not> contrast_shape r then (SS_Rejected, s)
      else case nv_open_ro n s of (e, s) \<Rightarrow>
        if e \<noteq> ESP_OK \<and> e \<noteq> ESP_ERR_NVS_NOT_FOUND then (SS_IoError, s)
        else case slots_save contrast_rules (handle_store n) r aliased a (e = ESP_OK, False, s) of (code, h, w, s) \<Rightarrow> (code, s))"

section \<open>The handle keeps the contract of the store\<close>

definition handle_blobs :: "('s \<Rightarrow> nat \<Rightarrow> bytes option) \<Rightarrow> 's slot_handle \<Rightarrow> nat \<Rightarrow> bytes option" where
  "handle_blobs blobs = (\<lambda>(h, w, s). blobs s)"

text \<open>Without a handle there is no namespace, so nothing is stored.\<close>

definition handle_live :: "('s \<Rightarrow> nat \<Rightarrow> bytes option) \<Rightarrow> 's slot_handle \<Rightarrow> bool" where
  "handle_live blobs = (\<lambda>(h, w, s). h \<or> (blobs s 0 = None \<and> blobs s 1 = None))"

lemma handle_store_laws:
  assumes n: "nvs_blobs n blobs"
  shows "blob_store (handle_store n) 320 (handle_blobs blobs) (handle_live blobs)"
proof -
  note L = nvs_blobs.nvs_store_laws[OF n, where blob = 320]
  have rd: "blobs s' = blobs s" if "read_slot 320 n k s = (r, s')" for k s r s'
    using blob_store.read_frame[OF L] that by (simp add: nvs_store_def)
  have miss: "blobs s k = None" if "k < 2" "read_slot 320 n k s = (SR_Missing, s')" for k s s'
    using blob_store.read_missing[OF L] that by (simp add: nvs_store_def)
  have pres: "blobs s k = Some b \<and> length b = 320" if "read_slot 320 n k s = (SR_Present b, s')" for k s b s'
    using blob_store.read_present[OF L] that by (simp add: nvs_store_def)
  note frames = nvs_blobs.open_rw_frame[OF n] nvs_blobs.nvs_commit_frame[OF n] nvs_blobs.stats_frame[OF n]
  show ?thesis
  proof
    show "handle_blobs blobs t' = handle_blobs blobs t \<and> (handle_live blobs t \<longrightarrow> handle_live blobs t')"
      if "ss_read (handle_store n) k t = (r, t')" for k t r t'
      using that rd by (auto simp: handle_store_def handle_read_def handle_blobs_def handle_live_def split: prod.splits if_splits)
    show "handle_blobs blobs t k = None"
      if "handle_live blobs t" "k < 2" "ss_read (handle_store n) k t = (SR_Missing, t')" for t k t'
      using that miss by (auto simp: handle_store_def handle_read_def handle_blobs_def handle_live_def less_2_cases_iff
          split: prod.splits if_splits)
    show "handle_blobs blobs t k = Some b \<and> length b = 320"
      if "ss_read (handle_store n) k t = (SR_Present b, t')" for k t b t'
      using that pres by (auto simp: handle_store_def handle_read_def handle_blobs_def split: prod.splits if_splits)
    show "handle_blobs blobs t' = (handle_blobs blobs t)(k \<mapsto> b)"
      if "handle_live blobs t" "ss_write (handle_store n) k b t = (True, t')" for t k b t'
      using that nvs_blobs.set_ok[OF n] frames(1)
      by (fastforce simp: handle_store_def handle_write_def handle_blobs_def split: prod.splits if_splits)
    show "handle_blobs blobs t' = handle_blobs blobs t \<or> handle_blobs blobs t' = (handle_blobs blobs t)(k \<mapsto> b)"
      if "handle_live blobs t" "ss_write (handle_store n) k b t = (False, t')" for t k b t'
      using that nvs_blobs.set_failed[OF n] frames(1)
      by (fastforce simp: handle_store_def handle_write_def handle_blobs_def split: prod.splits if_splits)
    show "handle_blobs blobs t' = handle_blobs blobs t" if "ss_commit (handle_store n) t = (c, t')" for t c t'
      using that frames(2) by (auto simp: handle_store_def handle_commit_def handle_blobs_def split: prod.splits)
    show "handle_blobs blobs t' = handle_blobs blobs t \<and> (handle_live blobs t \<longrightarrow> handle_live blobs t')"
      if "ss_room (handle_store n) t = (g, t')" for t g t'
      using that frames(3)
      by (fastforce simp: handle_store_def handle_room_def handle_blobs_def handle_live_def split: prod.splits if_splits)
    show "e \<noteq> SS_Ready" if "ss_room (handle_store n) t = (Some e, t')" for t e t'
      using that by (auto simp: handle_store_def handle_room_def split: prod.splits if_splits)
  qed
qed

lemma contrast_transition_next: "contrast_transition a r \<Longrightarrow> unat (cn_generation r) = Suc (unat (cn_generation a))"
  by (auto simp: contrast_transition_def unat_succ split: if_splits)

definition contrast_arrays :: "contrast_record \<Rightarrow> bool" where
  "contrast_arrays r \<longleftrightarrow> length (cn_mac r) = 6"

lemma contrast_slots:
  assumes "nvs_blobs n blobs"
  shows "slot_journal (handle_store n) contrast_rules (handle_blobs blobs) (handle_live blobs) contrast_arrays"
proof (rule slot_journal.intro)
  show "blob_store (handle_store n) (jr_size contrast_rules) (handle_blobs blobs) (handle_live blobs)"
    using handle_store_laws[OF assms] by (simp add: contrast_rules_def)
  show "slot_journal_axioms contrast_rules contrast_arrays"
  proof
    show "length b = jr_size contrast_rules" if "jr_encode contrast_rules r = Some b" for r b
      using that by (auto simp: contrast_rules_def contrast_encode_def split: if_splits)
    show "jr_decode contrast_rules b (jr_mac contrast_rules r) = Some r"
      if "contrast_arrays r" "jr_encode contrast_rules r = Some b" for r b
      using that contrast_decode_blob by (auto simp: contrast_rules_def contrast_encode_def contrast_arrays_def split: if_splits)
    show "jr_generation contrast_rules a < jr_generation contrast_rules r" if "jr_transition contrast_rules a r" for a r
      using that contrast_transition_next[of a r] by (simp add: contrast_rules_def word_less_nat_alt)
  qed
qed

interpretation contrast_slots: slot_journal "handle_store ram_nvs_api" contrast_rules "handle_blobs rn_blobs"
  "handle_live rn_blobs" contrast_arrays
  by (rule contrast_slots[OF ram_nvs.nvs_blobs_axioms])

text \<open>A save of the contrast journal, for any storage that keeps the documented behaviour of NVS. It leaves both blobs
  as they were and does not answer ready, or, admitted and not aliased, it writes the record as a whole into the slot that
  is not selected, where the record legally follows the current one (or is the initial one of an empty journal), and the
  journal then stands at it; whether the handle could be opened, found no namespace, or had to be reopened for writing.\<close>

theorem contrast_save_atomic:
  assumes n: "nvs_blobs n blobs" and run: "contrast_save_nvs n r aliased a s = (code, s')" and r: "contrast_arrays r"
  shows "(blobs s' = blobs s \<and> code \<noteq> SS_Ready) \<or>
    (admitted a \<and> \<not> aliased \<and> journal_next contrast_rules (journal_state contrast_rules (cn_mac r) (blobs s)) r \<and>
     journal_state contrast_rules (cn_mac r) (blobs s') = Current r \<and>
     (\<exists>slot < 2. sl_selected (stored_pair contrast_rules (cn_mac r) (blobs s)) \<noteq> Some slot \<and>
        blobs s' = (blobs s)(slot \<mapsto> contrast_blob r)))"
proof (cases "aliased \<or> \<not> admitted a \<or> \<not> contrast_shape r")
  case True
  then show ?thesis using run by (auto simp: contrast_save_nvs_def)
next
  case ok: False
  obtain e s1 where 1: "nv_open_ro n s = (e, s1)" by (rule prod.exhaust)
  have f: "blobs s1 = blobs s" using nvs_blobs.open_ro_frame[OF n 1] .
  show ?thesis
  proof (cases "e \<noteq> ESP_OK \<and> e \<noteq> ESP_ERR_NVS_NOT_FOUND")
    case True
    then show ?thesis using run 1 f ok by (auto simp: contrast_save_nvs_def)
  next
    case False
    obtain c h w t where 2: "slots_save contrast_rules (handle_store n) r aliased a (e = ESP_OK, False, s1) = (c, h, w, t)"
      by (metis prod.exhaust)
    have "contrast_save_nvs n r aliased a s = (c, t)"
      unfolding contrast_save_nvs_def 1 prod.case 2 using ok False by auto
    then have out: "c = code" "t = s'" using run by simp_all
    have live: "handle_live blobs (e = ESP_OK, False, s1)"
      using False 1 f nvs_blobs.open_ro_missing[OF n, of s s1] by (auto simp: handle_live_def)
    have enc: "jr_encode contrast_rules r = Some b \<Longrightarrow> b = contrast_blob r" for b
      by (simp add: contrast_rules_def contrast_encode_def split: if_splits)
    have mac: "jr_mac contrast_rules r = cn_mac r" by (simp add: contrast_rules_def)
    from slot_journal.save_spec[OF contrast_slots[OF n] 2 r live] show ?thesis
      using f out enc by (auto simp: handle_blobs_def mac)
  qed
qed

definition contrast_first :: contrast_record where
  "contrast_first = \<lparr>cn_mac = [2, 0, 0, 0, 0, 1], cn_identity = \<lparr>ri_device = 0x0220, ri_firmware = 3, ri_build = 4\<rparr>,
     cn_generation = 1, cn_epoch = 1, cn_phase = RP_Original, cn_arm = Arm_C, cn_source = source_fixture\<rparr>"

lemma contrast_first_ok: "contrast_shape contrast_first" "length (cn_mac contrast_first) = 6"
  by (simp_all add: contrast_shape_def contrast_first_def known_identity_def valid_phase_def valid_arm_def)

lemma contrast_first_saved:
  "contrast_save_nvs ram_nvs_api contrast_first False sample_admission \<lparr>rn_blobs = (\<lambda>_. None), rn_writes = []\<rparr> =
     (SS_Ready, \<lparr>rn_blobs = [0 \<mapsto> contrast_blob contrast_first], rn_writes = []\<rparr>)"
  using contrast_first_ok(1) contrast_decode_blob[OF contrast_first_ok]
  by (simp add: contrast_save_nvs_def sample_admission_def admitted_def ram_nvs_api_def slots_save_def contrast_rules_def
      contrast_encode_def slots_load_def handle_store_def handle_read_def handle_write_def handle_commit_def handle_room_def
      read_slot_def ram_set_def slots_decide_def slot_record_def slot_corrupt_def save_target_def put_slot_def
      contrast_first_def initial_required_entries_def entries_per_blob_def ESP_ERR_NVS_NOT_FOUND_def esp_codes)

theorem contrast_save_atomic_witness:
  "journal_state contrast_rules [2, 0, 0, 0, 0, 1]
     (rn_blobs (snd (contrast_save_nvs ram_nvs_api contrast_first False sample_admission
       \<lparr>rn_blobs = (\<lambda>_. None), rn_writes = []\<rparr>))) = Current contrast_first"
proof -
  have "contrast_arrays contrast_first" "cn_mac contrast_first = [2, 0, 0, 0, 0, 1]"
    by (simp_all add: contrast_arrays_def contrast_first_def)
  then show ?thesis
    using contrast_save_atomic[OF ram_nvs.nvs_blobs_axioms contrast_first_saved] contrast_first_saved by simp
qed

text \<open>The first record needs the room of three blobs, the namespace and the headroom.\<close>

lemma initial_entries: "initial_required_entries = 56"
  by (simp add: initial_required_entries_def entries_per_blob_def)

end
