(* ===== verification/Factory_Scale.thy ===== *)
theory Factory_Scale
  imports Scale_Journal
begin

text \<open>
  The factory rescaling of the gauge: the closed profile of 17 changed fields and the plans restricted to it
  (\<open>main/hal/mosaico/mosaico_factory_scale_model.h\<close>), its journal, which translates its blobs to those of the rescaling
  journal and back (\<open>mosaico_factory_scale_journal_model.h\<close>), the two slots of that journal
  (\<open>mosaico_factory_scale_storage_model.h\<close>, \<open>mosaico_factory_scale_journal.cpp\<close>), and the accounting of storage entries
  (\<open>mosaico_factory_scale_nvs_budget_model.h\<close>).
\<close>

section \<open>The closed profile\<close>

definition factory_source_crc :: u32 where "factory_source_crc = 0x70a767be"
definition candidate_target_crc :: u32 where "candidate_target_crc = 0xb5b0f0d6"

text \<open>A stored profile may be a byte that is no enumerator.\<close>

datatype factory_profile = FP_Unknown | FP_Factory3000 | FP_Other u8

datatype factory_units = FU_Unknown | FU_Virtual_Two

record factory_envelope =
  fe_version :: u8
  fe_profile :: factory_profile
  fe_source_crc :: u32
  fe_target_crc :: u32
  fe_image_hashes :: bool
  fe_images_support :: bool

record factory_result =
  fx_decision :: rec_decision
  fx_units :: factory_units
  fx_calibrated :: bool
  fx_native_waiver :: bool
  fx_clear_failure :: bool

text \<open>Address, width, value before and after.\<close>

definition factory_changes :: "(u16 \<times> nat \<times> u32 \<times> u32) list" where
  "factory_changes =
     [(0x9184, 4, 0x7e73b645, 0x7f73b645), (0x9188, 4, 0x930aa522, 0x940aa522),
      (0x91de, 1, 5, 10), (0x91fb, 2, 200, 400), (0x9201, 2, 100, 200),
      (0x920e, 2, 150, 300), (0x9210, 2, 175, 350), (0x9217, 2, 10, 20),
      (0x9228, 2, 60, 120), (0x922a, 2, 75, 150), (0x922c, 2, 40, 80),
      (0x923c, 1, 0xf6, 0xec), (0x9264, 2, 1500, 3000), (0x926b, 2, 200, 400),
      (0x929d, 2, 3000, 130), (0x929f, 2, 3000, 130), (0x92ab, 2, 867, 434)]"

definition factory_raw :: "bytes \<Rightarrow> nat \<Rightarrow> u32" where
  "factory_raw bs width = foldl (\<lambda>v i. push_bit 8 v OR ucast (bs ! i)) 0 [0..<width]"

text \<open>The change of an address: the last one of the list that names it.\<close>

definition owned_change :: "u16 \<Rightarrow> (u16 \<times> nat \<times> u32 \<times> u32) option" where
  "owned_change a = foldl (\<lambda>o' c. if fst c = a then Some c else o') None factory_changes"

text \<open>The loop of \<open>closedImageTemplate\<close>: the counters after the given fields, or nothing at the first field that is
  refused.\<close>

fun template_loop :: "rec_snapshot \<Rightarrow> nat list \<Rightarrow> nat \<Rightarrow> bool \<Rightarrow> bool \<Rightarrow> (nat \<times> bool \<times> bool) option" where
  "template_loop s [] changed cfg offset = Some (changed, cfg, offset)"
| "template_loop s (i # is) changed cfg offset =
     (let f = rs_fields s ! i in
      if \<not> on_layout s i then None
      else if (case owned_change (rf_address f) of
          Some (a, width, before, after) \<Rightarrow>
            rf_width f \<noteq> width \<or> factory_raw (rf_original f) (rf_width f) \<noteq> before \<or>
            factory_raw (rf_target f) (rf_width f) \<noteq> after
        | None \<Rightarrow> list_ex (\<lambda>j. rf_original f ! j \<noteq> rf_target f ! j) [0..<4]) then None
      else if list_ex (\<lambda>j. rf_original f ! j \<noteq> 0 \<or> rf_target f ! j \<noteq> 0) [rf_width f..<4] then None
      else template_loop s is (if owned_change (rf_address f) = None then changed else changed + 1)
        (if rf_address f = 0x929b then factory_raw (rf_original f) (rf_width f) = 0x102a else cfg)
        (if rf_address f = 0x9180 then factory_raw (rf_original f) (rf_width f) = 0xfff0 else offset))"

definition closed_template :: "rec_snapshot \<Rightarrow> bool" where
  "closed_template s \<longleftrightarrow>
     (if rs_scale s \<noteq> 2 \<or> rs_count s \<noteq> 131 then False
      else case template_loop s [0..<131] 0 False False of
        None \<Rightarrow> False
      | Some (changed, cfg, offset) \<Rightarrow>
          changed = 17 \<and> cfg \<and> offset \<and> image_digest s False = factory_source_crc \<and>
          image_digest s True = candidate_target_crc)"

definition closed_profile :: "factory_envelope \<Rightarrow> rec_snapshot \<Rightarrow> bool" where
  "closed_profile e s \<longleftrightarrow>
     (if fe_version e \<noteq> 3 \<or> fe_profile e \<noteq> FP_Factory3000 \<or> \<not> fe_image_hashes e \<or> \<not> fe_images_support e \<or>
         fe_source_crc e \<noteq> factory_source_crc \<or> fe_target_crc e \<noteq> candidate_target_crc \<or> rs_scale s \<noteq> 2 \<or>
         rs_count s \<noteq> 131 then False
      else closed_template s)"

section \<open>The plans under the profile\<close>

definition factory_reject :: factory_result where
  "factory_reject = \<lparr>fx_decision = rec_decision0, fx_units = FU_Unknown, fx_calibrated = False, fx_native_waiver = False,
     fx_clear_failure = False\<rparr>"

definition factory_wrap :: "rec_decision \<Rightarrow> factory_result" where
  "factory_wrap d = \<lparr>fx_decision = d\<lparr>rd_publish := False, rd_authorized := False\<rparr>, fx_units = FU_Unknown,
     fx_calibrated = False, fx_native_waiver = False, fx_clear_failure = False\<rparr>"

definition factory_startup ::
  "factory_envelope \<Rightarrow> rec_snapshot \<Rightarrow> rec_context \<Rightarrow> rec_observation \<Rightarrow> factory_result" where
  "factory_startup e s c ob = (if closed_profile e s then factory_wrap (rec_startup s c ob) else factory_reject)"

definition factory_apply ::
  "factory_envelope \<Rightarrow> rec_snapshot \<Rightarrow> rec_context \<Rightarrow> rec_observation \<Rightarrow> durable_proof \<Rightarrow> u64 \<Rightarrow> factory_result" where
  "factory_apply e s c ob p next_epoch =
     (if closed_profile e s then factory_wrap (rec_apply s c ob p next_epoch) else factory_reject)"

definition factory_restore ::
  "factory_envelope \<Rightarrow> rec_snapshot \<Rightarrow> rec_context \<Rightarrow> rec_observation \<Rightarrow> durable_proof \<Rightarrow> u64 \<Rightarrow> factory_result" where
  "factory_restore e s c ob p next_epoch =
     (if closed_profile e s \<and> ro_sealed ob \<and> ro_cfg0 ob then factory_wrap (rec_restore s c ob p next_epoch)
      else factory_reject)"

definition factory_finish_restore ::
  "factory_envelope \<Rightarrow> rec_snapshot \<Rightarrow> rec_context \<Rightarrow> rec_observation \<Rightarrow> durable_proof \<Rightarrow> u64 \<Rightarrow> factory_result" where
  "factory_finish_restore e s c ob p next_epoch =
     (if closed_profile e s then factory_wrap (rec_finish_restore s c ob p next_epoch) else factory_reject)"

definition factory_finish_apply ::
  "factory_envelope \<Rightarrow> rec_snapshot \<Rightarrow> rec_context \<Rightarrow> rec_observation \<Rightarrow> durable_proof \<Rightarrow> u64 \<Rightarrow> factory_result" where
  "factory_finish_apply e s c ob p next_epoch =
     (if \<not> closed_profile e s then factory_reject
      else let r = factory_wrap (rec_finish_apply s c ob p next_epoch) in
        if rd_action (fx_decision r) = RA_MarkApplied then r\<lparr>fx_units := FU_Virtual_Two\<rparr> else r)"

section \<open>The codec\<close>

record factory_record =
  fr_profile :: factory_profile
  fr_mac :: bytes
  fr_snapshot :: rec_snapshot

definition as_scale :: "factory_record \<Rightarrow> scale_record" where
  "as_scale r = \<lparr>sr_mac = fr_mac r, sr_snapshot = fr_snapshot r\<rparr>"

definition profile_byte :: "factory_profile \<Rightarrow> u8" where
  "profile_byte p = (case p of FP_Unknown \<Rightarrow> 0 | FP_Factory3000 \<Rightarrow> 1 | FP_Other b \<Rightarrow> b)"

definition factory_shape :: "factory_record \<Rightarrow> bool" where
  "factory_shape r \<longleftrightarrow>
     (let s = fr_snapshot r in
      if fr_profile r \<noteq> FP_Factory3000 \<or> \<not> known_identity (rs_identity s) \<or> rs_generation s = 0 \<or> rs_epoch s = 0 \<or>
         \<not> valid_phase (rs_phase s) \<or> rs_layout s \<noteq> LI_Public131V1 \<or> fr_mac r ! 0 AND 1 \<noteq> 0 \<or>
         \<not> closed_template s then False
      else rec_nonzero (mac_binding (fr_mac r)) \<and> rec_same_binding (rs_binding s) (mac_binding (fr_mac r)))"

definition factory_patch :: "bytes \<Rightarrow> u8 \<Rightarrow> bytes" where
  "factory_patch b p = seal ((put_le (b[3 := 0x33]) 4 (3 :: u64) 2)[21 := p]) 508"

definition factory_unpatch :: "bytes \<Rightarrow> bytes" where
  "factory_unpatch b = seal ((put_le (b[3 := 0x32]) 4 (2 :: u64) 2)[21 := 0]) 508"

definition factory_encode :: "factory_record \<Rightarrow> bytes option" where
  "factory_encode r =
     (if \<not> factory_shape r then None
      else case scale_encode (as_scale r) of
        None \<Rightarrow> None
      | Some b \<Rightarrow> Some (factory_patch b (profile_byte (fr_profile r))))"

definition factory_decode :: "bytes \<Rightarrow> bytes \<Rightarrow> factory_record option" where
  "factory_decode b mac =
     (if b ! 0 \<noteq> 0x47 \<or> b ! 1 \<noteq> 0x53 \<or> b ! 2 \<noteq> 0x4a \<or> b ! 3 \<noteq> 0x33 \<or> get_le b 4 2 \<noteq> (3 :: u64) \<or>
         get_le b 6 2 \<noteq> (512 :: u64) \<or> b ! 21 \<noteq> 1 \<or> \<not> sealed b 508 then None
      else case scale_decode (factory_unpatch b) mac of
        None \<Rightarrow> None
      | Some t \<Rightarrow>
          let r = \<lparr>fr_profile = FP_Factory3000, fr_mac = sr_mac t, fr_snapshot = sr_snapshot t\<rparr> in
          if factory_shape r then Some r else None)"

section \<open>Transitions\<close>

definition factory_same_image :: "factory_record \<Rightarrow> factory_record \<Rightarrow> bool" where
  "factory_same_image a b \<longleftrightarrow>
     (let x = fr_snapshot a; y = fr_snapshot b in
      if fr_profile a \<noteq> fr_profile b \<or> fr_mac a \<noteq> fr_mac b \<or> \<not> rec_same_identity (rs_identity x) (rs_identity y) \<or>
         \<not> rec_same_binding (rs_binding x) (rs_binding y) \<or> rs_layout x \<noteq> rs_layout y \<or> rs_scale x \<noteq> rs_scale y \<or>
         rs_count x \<noteq> rs_count y then False
      else \<not> list_ex (\<lambda>i. let f = rs_fields x ! i; g = rs_fields y ! i in
        rf_address f \<noteq> rf_address g \<or> rf_width f \<noteq> rf_width g \<or>
        list_ex (\<lambda>j. rf_original f ! j \<noteq> rf_original g ! j \<or> rf_target f ! j \<noteq> rf_target g ! j) [0..<4]) [0..<131])"

definition factory_initial :: "factory_record \<Rightarrow> bool" where
  "factory_initial r \<longleftrightarrow> factory_shape r \<and> rs_generation (fr_snapshot r) = 1 \<and> rs_phase (fr_snapshot r) = RP_Original"

definition factory_transition :: "factory_record \<Rightarrow> factory_record \<Rightarrow> bool" where
  "factory_transition a b \<longleftrightarrow>
     (let x = fr_snapshot a; y = fr_snapshot b in
      if \<not> factory_shape a \<or> \<not> factory_shape b \<or> \<not> factory_same_image a b \<or> rs_generation x = 0xffffffff \<or>
         rs_generation y \<noteq> rs_generation x + 1 \<or> \<not> advancing (rs_epoch x) (rs_epoch y) then False
      else phase_follows (rs_phase x) (rs_phase y))"

datatype chain_status = CH_Missing_Fail_Closed | CH_Initial_Record | CH_Sequential | CH_Rejected

definition validate_chain :: "factory_record option \<Rightarrow> factory_record option \<Rightarrow> chain_status" where
  "validate_chain previous current =
     (case (previous, current) of
        (None, None) \<Rightarrow> CH_Missing_Fail_Closed
      | (None, Some c) \<Rightarrow> if factory_initial c then CH_Initial_Record else CH_Rejected
      | (Some p, None) \<Rightarrow> CH_Rejected
      | (Some p, Some c) \<Rightarrow> if factory_transition p c then CH_Sequential else CH_Rejected)"

section \<open>The store\<close>

definition factory_rules :: "factory_record journal_rules" where
  "factory_rules = \<lparr>jr_size = 512, jr_encode = factory_encode, jr_decode = factory_decode, jr_mac = fr_mac,
     jr_generation = (\<lambda>r. rs_generation (fr_snapshot r)), jr_original = (\<lambda>r. rs_phase (fr_snapshot r) = RP_Original),
     jr_transition = factory_transition\<rparr>"

text \<open>A failed save clears the selection; a successful one loads the two slots again. The records that a failed save
  leaves in the caller's workspace are not part of the result: without a selection none of them is the current one.\<close>

definition factory_save_into ::
  "'s slot_store \<Rightarrow> factory_record \<Rightarrow> bool \<Rightarrow> write_admission \<Rightarrow> 's \<Rightarrow> factory_record slots_loaded \<times> 's" where
  "factory_save_into st r aliased a s =
     (case slots_save factory_rules st r aliased a s of (code, s) \<Rightarrow>
        if code \<noteq> SS_Ready then (slots_closed code, s) else slots_load factory_rules st (fr_mac r) s)"

definition factory_load_nvs :: "'s nvs \<Rightarrow> bytes \<Rightarrow> 's \<Rightarrow> factory_record slots_loaded \<times> 's" where
  "factory_load_nvs n mac s =
     (case nv_open_ro n s of (e, s) \<Rightarrow>
        if e = ESP_ERR_NVS_NOT_FOUND then (slots_closed SS_Missing, s)
        else if e \<noteq> ESP_OK then (slots_closed SS_IoError, s)
        else slots_load factory_rules (nvs_store 512 n) mac s)"

definition nvs_required_entries :: nat where "nvs_required_entries = 74"

definition factory_save_nvs ::
  "'s nvs \<Rightarrow> factory_record \<Rightarrow> bool \<Rightarrow> write_admission \<Rightarrow> 's \<Rightarrow> factory_record slots_loaded \<times> 's" where
  "factory_save_nvs n r aliased a s =
     (if \<not> admitted a \<or> aliased \<or> \<not> factory_shape r then (slots_closed SS_Rejected, s)
      else case if factory_initial r
          then case nv_stats n s of ((e, free), s) \<Rightarrow>
            (if e \<noteq> ESP_OK then Some SS_IoError else if free < nvs_required_entries then Some SS_Rejected else None, s)
          else (None, s) of
        (Some e, s) \<Rightarrow> (slots_closed e, s)
      | (None, s) \<Rightarrow>
        (case nv_open_rw n s of (e, s) \<Rightarrow>
           if e \<noteq> ESP_OK then (slots_closed SS_IoError, s)
           else factory_save_into (nvs_store 512 n) r aliased a s))"

section \<open>Entry accounting\<close>

definition persisted_per_slot :: nat where "persisted_per_slot = 18"
definition persisted_credit_maximum :: nat where "persisted_credit_maximum = 2 * persisted_per_slot"

record factory_usage =
  fu_entries :: nat
  fu_exact_namespace :: bool
  fu_exact_keys :: bool
  fu_exact_lengths :: bool
  fu_stable_stats :: bool

record factory_budget =
  fb_base :: nat
  fb_reuse :: nat
  fb_required :: nat

definition slot_of :: "'r slots_loaded \<Rightarrow> nat \<Rightarrow> 'r option" where
  "slot_of l i = (if i = 0 then sl_record0 l else sl_record1 l)"

definition factory_pair :: "factory_record slots_loaded \<Rightarrow> bool" where
  "factory_pair l \<longleftrightarrow>
     (case (sl_selected l, sl_record0 l, sl_record1 l) of
        (Some i, Some a, Some b) \<Rightarrow>
          if sl_status l \<noteq> SS_Ready \<or> i > 1 then False
          else factory_shape a \<and> factory_shape b \<and>
            rs_phase (fr_snapshot (if i = 0 then a else b)) = RP_Original \<and> factory_same_image a b \<and>
            (if i = 0 then factory_transition b a else factory_transition a b)
      | _ \<Rightarrow> False)"

definition factory_credit :: "factory_record slots_loaded \<Rightarrow> factory_usage \<Rightarrow> bool \<Rightarrow> nat" where
  "factory_credit l u clean =
     (if clean \<and> factory_pair l \<and> fu_exact_namespace u \<and> fu_exact_keys u \<and> fu_exact_lengths u \<and> fu_stable_stats u \<and>
         fu_entries u \<ge> persisted_credit_maximum
      then if fu_entries u < persisted_credit_maximum then fu_entries u else persisted_credit_maximum
      else 0)"

definition factory_budget_of :: "nat \<Rightarrow> factory_record slots_loaded \<Rightarrow> factory_usage \<Rightarrow> bool \<Rightarrow> factory_budget" where
  "factory_budget_of base l u clean =
     (let reuse = factory_credit l u clean in
      \<lparr>fb_base = base, fb_reuse = reuse, fb_required = if base \<ge> reuse then base - reuse else base\<rparr>)"

text \<open>The proof of one apply invocation; \<open>pf_image\<close> is the record that the pointer of the code refers to.\<close>

record factory_proof =
  pf_image :: "factory_record option"
  pf_entries :: nat
  pf_epochs :: "u64 \<times> u64"
  pf_generations :: "u32 \<times> u32"
  pf_selected :: "nat option"
  pf_mac :: bytes
  pf_source_crc :: u32
  pf_target_crc :: u32

definition factory_proof0 :: factory_proof where
  "factory_proof0 = \<lparr>pf_image = None, pf_entries = 0, pf_epochs = (0, 0), pf_generations = (0, 0), pf_selected = None,
     pf_mac = replicate 6 0, pf_source_crc = 0, pf_target_crc = 0\<rparr>"

definition slot_epochs :: "factory_record slots_loaded \<Rightarrow> u64 \<times> u64" where
  "slot_epochs l = (rs_epoch (fr_snapshot (the (sl_record0 l))), rs_epoch (fr_snapshot (the (sl_record1 l))))"

definition slot_generations :: "factory_record slots_loaded \<Rightarrow> u32 \<times> u32" where
  "slot_generations l = (rs_generation (fr_snapshot (the (sl_record0 l))), rs_generation (fr_snapshot (the (sl_record1 l))))"

definition factory_prove :: "factory_record slots_loaded \<Rightarrow> factory_usage \<Rightarrow> factory_record \<Rightarrow> bool \<Rightarrow> factory_proof" where
  "factory_prove l u own clean =
     (if factory_credit l u clean = 0 then factory_proof0
      else case loaded_record l of
        None \<Rightarrow> factory_proof0
      | Some c \<Rightarrow>
        if \<not> factory_shape own \<or> rs_phase (fr_snapshot own) \<noteq> RP_Original \<or> \<not> factory_same_image own c \<or>
           rs_generation (fr_snapshot own) \<noteq> rs_generation (fr_snapshot c) \<or>
           rs_epoch (fr_snapshot own) \<noteq> rs_epoch (fr_snapshot c) then factory_proof0
        else \<lparr>pf_image = Some own, pf_entries = fu_entries u, pf_epochs = slot_epochs l, pf_generations = slot_generations l,
          pf_selected = sl_selected l, pf_mac = fr_mac own, pf_source_crc = image_digest (fr_snapshot own) False,
          pf_target_crc = image_digest (fr_snapshot own) True\<rparr>)"

definition identity_matches :: "factory_proof \<Rightarrow> factory_record slots_loaded \<Rightarrow> bool" where
  "identity_matches p l \<longleftrightarrow>
     (case (pf_image p, loaded_record l) of
        (Some own, Some c) \<Rightarrow>
          factory_pair l \<and> pf_selected p = sl_selected l \<and> factory_shape own \<and> pf_mac p = fr_mac own \<and> pf_mac p = fr_mac c \<and>
          pf_source_crc p = image_digest (fr_snapshot c) False \<and> pf_target_crc p = image_digest (fr_snapshot c) True \<and>
          rs_phase (fr_snapshot own) = RP_Original \<and>
          rs_generation (fr_snapshot own) = rs_generation (fr_snapshot c) \<and> rs_epoch (fr_snapshot own) = rs_epoch (fr_snapshot c) \<and>
          factory_same_image own c \<and> pf_epochs p = slot_epochs l \<and> pf_generations p = slot_generations l
      | _ \<Rightarrow> False)"

definition factory_matches :: "factory_proof \<Rightarrow> factory_record slots_loaded \<Rightarrow> factory_usage \<Rightarrow> bool \<Rightarrow> bool" where
  "factory_matches p l u clean \<longleftrightarrow> factory_credit l u clean \<noteq> 0 \<and> pf_entries p = fu_entries u \<and> identity_matches p l"

section \<open>The translation is exact\<close>

lemma seal_cong:
  assumes "take n b = take n b'" "length b = n + 4" "length b' = n + 4"
  shows "seal b n = seal b' n"
proof (rule nth_equalityI)
  show "length (seal b n) = length (seal b' n)" using assms by simp
  fix i assume "i < length (seal b n)"
  then have i: "i < n + 4" using assms by simp
  show "seal b n ! i = seal b' n ! i"
  proof (cases "i < n")
    case True
    then have "b ! i = b' ! i" using assms(1) by (metis nth_take)
    then show ?thesis using True by (simp add: nth_seal)
  next
    case False
    then show ?thesis using assms i by (simp add: seal_def nth_put_le)
  qed
qed

lemma scale_image_head: "length (sr_mac r) = 6 \<Longrightarrow> scale_image r ! 3 = 0x32 \<and> scale_image r ! 4 = 2 \<and> scale_image r ! 5 = 0 \<and> scale_image r ! 21 = 0"
  by (simp add: nth_scale_image scale_header_marks) (simp add: scale_header_def Let_def nth_put_le nth_put_bytes nth_list_update)

lemma length_factory_patch [simp]: "length (factory_patch b p) = length b"
  by (simp add: factory_patch_def)

lemma unpatch_patch:
  assumes "length (sr_mac r) = 6"
  shows "factory_unpatch (factory_patch (scale_image r) p) = scale_image r"
proof -
  note h = scale_image_head[OF assms]
  have "factory_unpatch (factory_patch (scale_image r) p) = seal (scale_image r) 508"
    unfolding factory_unpatch_def
  proof (rule seal_cong)
    show "take 508 ((put_le ((factory_patch (scale_image r) p)[3 := 0x32]) 4 (2 :: u64) 2)[21 := 0]) = take 508 (scale_image r)"
    proof (rule nth_equalityI)
      fix i assume "i < length (take 508 ((put_le ((factory_patch (scale_image r) p)[3 := 0x32]) 4 (2 :: u64) 2)[21 := 0]))"
      then have i: "i < 508" by simp
      consider "i = 3" | "i = 4" | "i = 5" | "i = 21" | "i \<noteq> 3" "i \<noteq> 21" "i < 4 \<or> 6 \<le> i" by linarith
      then show "take 508 ((put_le ((factory_patch (scale_image r) p)[3 := 0x32]) 4 (2 :: u64) 2)[21 := 0]) ! i = take 508 (scale_image r) ! i"
        by cases (use i h in \<open>auto simp: nth_put_le nth_list_update factory_patch_def nth_seal\<close>)
    qed simp
  qed simp_all
  also have "\<dots> = scale_image r"
    unfolding scale_image_def by (rule seal_cong) (simp_all add: take_seal)
  finally show ?thesis .
qed

definition factory_arrays :: "factory_record \<Rightarrow> bool" where
  "factory_arrays r \<longleftrightarrow> scale_arrays (as_scale r)"

lemma factory_decode_encode:
  assumes "factory_arrays r" "factory_encode r = Some b"
  shows "factory_decode b (fr_mac r) = Some r"
proof -
  have sh: "factory_shape r" "scale_encode (as_scale r) \<noteq> None"
    and b: "b = factory_patch (scale_image (as_scale r)) (profile_byte (fr_profile r))"
    using assms(2) by (auto simp: factory_encode_def scale_encode_def split: if_splits)
  have p: "fr_profile r = FP_Factory3000" using sh(1) by (simp add: factory_shape_def Let_def split: if_splits)
  have s: "scale_shape (as_scale r)" using sh(2) by (simp add: scale_encode_def split: if_splits)
  have arr: "scale_arrays (as_scale r)" "length (sr_mac (as_scale r)) = 6"
    using assms(1) by (simp_all add: factory_arrays_def scale_arrays_def)
  note M = scale_header_marks(1-3)[OF arr(2)] scale_header_numbers(2)[OF arr(2)]
  have bytes: "b ! 0 = 0x47" "b ! 1 = 0x53" "b ! 2 = 0x4a" "b ! 3 = 0x33" "get_le b 4 2 = (3 :: u64)" "get_le b 6 2 = (512 :: u64)"
    "b ! 21 = 1" "sealed b 508"
    using M unfolding b p
    by (simp_all add: factory_patch_def codec_simps nth_put_le nth_scale_image get_le_scale_image profile_byte_def sealed_seal)
  have "scale_decode (factory_unpatch b) (fr_mac r) = Some (as_scale r)"
    using scale_decode_image[OF s arr(1)] unfolding b unpatch_patch[OF arr(2)] by (simp add: as_scale_def)
  moreover have "\<lparr>fr_profile = FP_Factory3000, fr_mac = sr_mac (as_scale r), fr_snapshot = sr_snapshot (as_scale r)\<rparr> = r"
    using p by (simp add: as_scale_def)
  ultimately show ?thesis using bytes sh(1) by (simp add: factory_decode_def)
qed

lemma length_factory_encode: "factory_encode r = Some b \<Longrightarrow> length b = 512"
  by (auto simp: factory_encode_def scale_encode_def split: if_splits option.splits)

text \<open>Neither journal reads the blobs of the other.\<close>

theorem journals_separate: "scale_decode b mac = None \<or> factory_decode b mac' = None"
  by (simp add: scale_decode_def factory_decode_def)

section \<open>The store keeps its records\<close>

lemma factory_transition_next:
  "factory_transition a r \<Longrightarrow> unat (rs_generation (fr_snapshot r)) = Suc (unat (rs_generation (fr_snapshot a)))"
  by (auto simp: factory_transition_def Let_def unat_succ split: if_splits)

lemma factory_slots:
  assumes "nvs_blobs n blobs"
  shows "slot_journal (nvs_store 512 n) factory_rules blobs (\<lambda>_. True) factory_arrays"
proof (rule slot_journal.intro)
  show "blob_store (nvs_store 512 n) (jr_size factory_rules) blobs (\<lambda>_. True)"
    using nvs_blobs.nvs_store_laws[OF assms] by (simp add: factory_rules_def)
  show "slot_journal_axioms factory_rules factory_arrays"
  proof
    show "length b = jr_size factory_rules" if "jr_encode factory_rules r = Some b" for r b
      using that length_factory_encode by (simp add: factory_rules_def)
    show "jr_decode factory_rules b (jr_mac factory_rules r) = Some r"
      if "factory_arrays r" "jr_encode factory_rules r = Some b" for r b
      using that factory_decode_encode by (simp add: factory_rules_def)
    show "jr_generation factory_rules a < jr_generation factory_rules r" if "jr_transition factory_rules a r" for a r
      using that factory_transition_next[of a r] by (simp add: factory_rules_def word_less_nat_alt)
  qed
qed

interpretation factory_slots: slot_journal "nvs_store 512 ram_nvs_api" factory_rules rn_blobs "\<lambda>_. True" factory_arrays
  by (rule factory_slots[OF ram_nvs.nvs_blobs_axioms])

lemma factory_save_into_spec:
  assumes n: "nvs_blobs n blobs" and r: "factory_arrays r"
    and run: "factory_save_into (nvs_store 512 n) r aliased a s = (l, s')"
  shows "(blobs s' = blobs s \<and> sl_status l \<noteq> SS_Ready) \<or>
    (admitted a \<and> \<not> aliased \<and> saved_record factory_rules (blobs s) (blobs s') r \<and>
     (sl_status l = SS_Ready \<longrightarrow> loaded_record l = Some r))"
proof -
  obtain code s1 where 1: "slots_save factory_rules (nvs_store 512 n) r aliased a s = (code, s1)" by (rule prod.exhaust)
  note J = factory_slots[OF n]
  have mac: "jr_mac factory_rules r = fr_mac r" by (simp add: factory_rules_def)
  have saved: "(blobs s1 = blobs s \<and> code \<noteq> SS_Ready) \<or> (admitted a \<and> \<not> aliased \<and> saved_record factory_rules (blobs s) (blobs s1) r)"
    using slot_journal.save_spec[OF J 1 r TrueI] by (auto simp: saved_record_def)
  show ?thesis
  proof (cases "code = SS_Ready")
    case False
    then show ?thesis using run 1 saved by (auto simp: factory_save_into_def slots_closed_def)
  next
    case True
    then have load: "slots_load factory_rules (nvs_store 512 n) (fr_mac r) s1 = (l, s')"
      using run 1 by (simp add: factory_save_into_def)
    have f: "blobs s' = blobs s1" using slot_journal.load_exact[OF J load TrueI] by simp
    have cur: "journal_state factory_rules (fr_mac r) (blobs s1) = Current r"
      using saved True mac by (auto simp: saved_record_def)
    have "loaded_record l = Some r" if "sl_status l = SS_Ready"
      using slot_journal.load_state[OF J load TrueI] cur that by (auto split: option.splits)
    then show ?thesis using saved True f by auto
  qed
qed

text \<open>C34: A save of the factory journal, for any storage that keeps the documented behaviour of NVS. It leaves both blobs
  as they were and does not answer ready, or, admitted and not aliased, the record legally follows the current one and the
  journal stands at it, and then the loaded pair that the save returns, if ready, selects exactly this record. So ready
  always means that the record just saved is stored and selected.\<close>

theorem factory_save_reloads:
  assumes n: "nvs_blobs n blobs" and r: "factory_arrays r"
    and run: "factory_save_nvs n r aliased a s = (l, s')"
  shows "(blobs s' = blobs s \<and> sl_status l \<noteq> SS_Ready) \<or>
    (admitted a \<and> \<not> aliased \<and> journal_next factory_rules (journal_state factory_rules (fr_mac r) (blobs s)) r \<and>
     journal_state factory_rules (fr_mac r) (blobs s') = Current r \<and>
     (sl_status l = SS_Ready \<longrightarrow> loaded_record l = Some r))"
proof (cases "\<not> admitted a \<or> aliased \<or> \<not> factory_shape r")
  case True
  then show ?thesis using run by (auto simp: factory_save_nvs_def slots_closed_def)
next
  case ok: False
  define gate where "gate = (if factory_initial r
      then case nv_stats n s of ((e, free), s) \<Rightarrow>
        (if e \<noteq> ESP_OK then Some SS_IoError else if free < nvs_required_entries then Some SS_Rejected else None, s)
      else (None, s))"
  obtain g s1 where 1: "gate = (g, s1)" by (rule prod.exhaust)
  have f: "blobs s1 = blobs s" "g \<noteq> Some SS_Ready"
    using 1 nvs_blobs.stats_frame[OF n] by (auto simp: gate_def split: if_splits prod.splits)
  have run1: "(case g of Some e \<Rightarrow> (slots_closed e, s1)
      | None \<Rightarrow> (case nv_open_rw n s1 of (e, s) \<Rightarrow>
           if e \<noteq> ESP_OK then (slots_closed SS_IoError, s)
           else factory_save_into (nvs_store 512 n) r aliased a s)) = (l, s')"
    using run ok 1 unfolding factory_save_nvs_def gate_def by (cases g) auto
  show ?thesis
  proof (cases g)
    case (Some e)
    then show ?thesis using run1 f by (auto simp: slots_closed_def)
  next
    case None
    obtain e s2 where 2: "nv_open_rw n s1 = (e, s2)" by (rule prod.exhaust)
    have f2: "blobs s2 = blobs s1" using nvs_blobs.open_rw_frame[OF n 2] .
    show ?thesis
    proof (cases "e = ESP_OK")
      case False
      then show ?thesis using run1 None 2 f f2 by (auto simp: slots_closed_def)
    next
      case True
      then have "factory_save_into (nvs_store 512 n) r aliased a s2 = (l, s')" using run1 None 2 by simp
      from factory_save_into_spec[OF n r this] show ?thesis
        using f f2 by (auto simp: saved_record_def factory_rules_def)
    qed
  qed
qed

definition factory_sample :: factory_record where
  "factory_sample = \<lparr>fr_profile = FP_Unknown, fr_mac = [2, 0, 0, 0, 0, 1], fr_snapshot = sr_snapshot sample_record\<rparr>"

section \<open>Credit and proof\<close>

lemma factory_same_fields:
  assumes "factory_same_image a b" "factory_arrays a" "factory_arrays b"
  shows "fr_mac a = fr_mac b \<and> rs_fields (fr_snapshot a) = rs_fields (fr_snapshot b)"
proof -
  have "same_recovery_image (as_scale a) (as_scale b)"
    using assms(1) by (auto simp: factory_same_image_def same_recovery_image_def as_scale_def Let_def split: if_splits)
  from same_image_fields[OF this] show ?thesis using assms(2,3) by (simp add: factory_arrays_def as_scale_def)
qed

lemma credit_exact:
  "factory_credit l u clean = (if clean \<and> factory_pair l \<and> fu_exact_namespace u \<and> fu_exact_keys u \<and>
      fu_exact_lengths u \<and> fu_stable_stats u \<and> 36 \<le> fu_entries u then 36 else 0)"
  by (auto simp: factory_credit_def persisted_credit_maximum_def persisted_per_slot_def)

lemma prove_cases:
  assumes "pf_image (factory_prove l u own clean) \<noteq> None"
  obtains c where "loaded_record l = Some c" "factory_credit l u clean \<noteq> 0" "factory_shape own"
    "rs_phase (fr_snapshot own) = RP_Original" "factory_same_image own c"
    "rs_generation (fr_snapshot own) = rs_generation (fr_snapshot c)" "rs_epoch (fr_snapshot own) = rs_epoch (fr_snapshot c)"
    "factory_prove l u own clean = \<lparr>pf_image = Some own, pf_entries = fu_entries u, pf_epochs = slot_epochs l,
       pf_generations = slot_generations l, pf_selected = sl_selected l, pf_mac = fr_mac own,
       pf_source_crc = image_digest (fr_snapshot own) False, pf_target_crc = image_digest (fr_snapshot own) True\<rparr>"
  using assms that by (auto simp: factory_prove_def factory_proof0_def split: if_splits option.splits)

lemma prove_holds:
  assumes "pf_image (factory_prove l u own clean) \<noteq> None" "factory_arrays own" "\<forall>r. loaded_record l = Some r \<longrightarrow> factory_arrays r"
  shows "factory_matches (factory_prove l u own clean) l u clean"
proof -
  obtain c where c: "loaded_record l = Some c" "factory_credit l u clean \<noteq> 0" "factory_shape own"
    "rs_phase (fr_snapshot own) = RP_Original" "factory_same_image own c"
    "rs_generation (fr_snapshot own) = rs_generation (fr_snapshot c)" "rs_epoch (fr_snapshot own) = rs_epoch (fr_snapshot c)"
    "factory_prove l u own clean = \<lparr>pf_image = Some own, pf_entries = fu_entries u, pf_epochs = slot_epochs l,
       pf_generations = slot_generations l, pf_selected = sl_selected l, pf_mac = fr_mac own,
       pf_source_crc = image_digest (fr_snapshot own) False, pf_target_crc = image_digest (fr_snapshot own) True\<rparr>"
    using prove_cases[OF assms(1)] .
  have same: "fr_mac own = fr_mac c" "rs_fields (fr_snapshot own) = rs_fields (fr_snapshot c)"
    using factory_same_fields[OF c(5) assms(2)] assms(3) c(1) by simp_all
  have "factory_pair l" using c(2) by (simp add: credit_exact split: if_splits)
  moreover have "image_digest (fr_snapshot own) t = image_digest (fr_snapshot c) t" for t
    using same(2) by (simp add: image_digest_def)
  ultimately show ?thesis using c(2-7) same(1) unfolding factory_matches_def identity_matches_def c(1,8) by simp
qed

lemma matches_same:
  assumes "factory_matches (factory_prove l u own clean) l' u' clean'" "factory_arrays own"
    "\<forall>r. loaded_record l = Some r \<longrightarrow> factory_arrays r" "\<forall>r. loaded_record l' = Some r \<longrightarrow> factory_arrays r"
  shows "sl_selected l' = sl_selected l \<and> fu_entries u' = fu_entries u \<and>
    (\<exists>c c'. loaded_record l = Some c \<and> loaded_record l' = Some c' \<and> fr_mac c' = fr_mac c \<and>
       rs_fields (fr_snapshot c') = rs_fields (fr_snapshot c) \<and>
       rs_generation (fr_snapshot c') = rs_generation (fr_snapshot c) \<and> rs_epoch (fr_snapshot c') = rs_epoch (fr_snapshot c))"
proof -
  have i: "identity_matches (factory_prove l u own clean) l'" "pf_entries (factory_prove l u own clean) = fu_entries u'"
    using assms(1) by (simp_all add: factory_matches_def)
  then have "pf_image (factory_prove l u own clean) \<noteq> None" by (auto simp: identity_matches_def split: option.splits)
  then obtain c where c: "loaded_record l = Some c" "factory_same_image own c"
    "rs_generation (fr_snapshot own) = rs_generation (fr_snapshot c)" "rs_epoch (fr_snapshot own) = rs_epoch (fr_snapshot c)"
    and p: "factory_prove l u own clean = \<lparr>pf_image = Some own, pf_entries = fu_entries u, pf_epochs = slot_epochs l,
       pf_generations = slot_generations l, pf_selected = sl_selected l, pf_mac = fr_mac own,
       pf_source_crc = image_digest (fr_snapshot own) False, pf_target_crc = image_digest (fr_snapshot own) True\<rparr>"
    using prove_cases by metis
  obtain c' where c': "loaded_record l' = Some c'" "factory_same_image own c'"
    "rs_generation (fr_snapshot own) = rs_generation (fr_snapshot c')" "rs_epoch (fr_snapshot own) = rs_epoch (fr_snapshot c')"
    "sl_selected l' = sl_selected l"
    using i(1) unfolding p identity_matches_def by (auto split: option.splits)
  show ?thesis
    using factory_same_fields[OF c(2) assms(2)] factory_same_fields[OF c'(2) assms(2)] assms(3,4) c c' i(2) p by simp
qed

text \<open>The entry budget never credits more than the two stored blobs. The credit is nothing or exactly 36 entries, the
  latter only for a clean journal whose two records form a legal original pair and whose namespace was counted exactly; the
  required entries are the base minus the credit. A proof taken from a journal holds for this journal, and whenever it still
  holds later, the same slot is selected, with the same generation and epoch, the same fields, and the same entry count.\<close>

theorem factory_budget_exact:
  assumes "factory_arrays own" "\<forall>r. loaded_record l = Some r \<longrightarrow> factory_arrays r"
    "\<forall>r. loaded_record l' = Some r \<longrightarrow> factory_arrays r"
  shows "factory_credit l u clean = (if clean \<and> factory_pair l \<and> fu_exact_namespace u \<and> fu_exact_keys u \<and>
      fu_exact_lengths u \<and> fu_stable_stats u \<and> 36 \<le> fu_entries u then 36 else 0) \<and>
    (36 \<le> base \<longrightarrow> fb_required (factory_budget_of base l u clean) + factory_credit l u clean = base) \<and>
    (pf_image (factory_prove l u own clean) \<noteq> None \<longrightarrow> factory_matches (factory_prove l u own clean) l u clean) \<and>
    (factory_matches (factory_prove l u own clean) l' u' clean' \<longrightarrow>
      sl_selected l' = sl_selected l \<and> fu_entries u' = fu_entries u \<and>
      (\<exists>c c'. loaded_record l = Some c \<and> loaded_record l' = Some c' \<and> fr_mac c' = fr_mac c \<and>
         rs_fields (fr_snapshot c') = rs_fields (fr_snapshot c) \<and>
         rs_generation (fr_snapshot c') = rs_generation (fr_snapshot c) \<and> rs_epoch (fr_snapshot c') = rs_epoch (fr_snapshot c)))"
proof (intro conjI impI)
  show "factory_credit l u clean = (if clean \<and> factory_pair l \<and> fu_exact_namespace u \<and> fu_exact_keys u \<and>
      fu_exact_lengths u \<and> fu_stable_stats u \<and> 36 \<le> fu_entries u then 36 else 0)"
    by (rule credit_exact)
  show "fb_required (factory_budget_of base l u clean) + factory_credit l u clean = base" if "36 \<le> base"
    using that by (simp add: factory_budget_of_def Let_def credit_exact)
  show "factory_matches (factory_prove l u own clean) l u clean" if "pf_image (factory_prove l u own clean) \<noteq> None"
    using prove_holds[OF that assms(1,2)] .
qed (use matches_same[OF _ assms] in blast)+

theorem factory_budget_exact_witness:
  "factory_credit (slots_closed SS_Missing) \<lparr>fu_entries = 40, fu_exact_namespace = True, fu_exact_keys = True,
      fu_exact_lengths = True, fu_stable_stats = True\<rparr> True = 0 \<and>
   fb_required (factory_budget_of 74 (slots_closed SS_Missing) \<lparr>fu_entries = 40, fu_exact_namespace = True,
      fu_exact_keys = True, fu_exact_lengths = True, fu_stable_stats = True\<rparr> True) = 74"
proof -
  have "factory_arrays factory_sample"
    using sample_record_ok(2) by (simp add: factory_arrays_def as_scale_def factory_sample_def scale_arrays_def sample_record_def)
  moreover have "\<forall>r. loaded_record (slots_closed SS_Missing) = Some r \<longrightarrow> factory_arrays r"
    by (simp add: slots_closed_def loaded_record_def)
  ultimately have b: "factory_credit (slots_closed SS_Missing) u True = (if True \<and> factory_pair (slots_closed SS_Missing) \<and>
        fu_exact_namespace u \<and> fu_exact_keys u \<and> fu_exact_lengths u \<and> fu_stable_stats u \<and> 36 \<le> fu_entries u then 36 else 0) \<and>
      (36 \<le> (74 :: nat) \<longrightarrow> fb_required (factory_budget_of 74 (slots_closed SS_Missing) u True) +
         factory_credit (slots_closed SS_Missing) u True = 74)" for u
    using factory_budget_exact[of factory_sample "slots_closed SS_Missing" "slots_closed SS_Missing" u True 74] by blast
  have n: "\<not> factory_pair (slots_closed SS_Missing)" by (simp add: factory_pair_def slots_closed_def)
  have z: "factory_credit (slots_closed SS_Missing) u True = 0" for u using b[of u] n by simp
  have "fb_required (factory_budget_of 74 (slots_closed SS_Missing) u True) = 74" for u using b[of u] z[of u] by simp
  then show ?thesis using z by blast
qed

text \<open>The plans of the profile never publish telemetry or authorise a write, and name the virtual units only with the plan
  to mark a target as applied.\<close>

theorem factory_plans_closed:
  "let rs = [factory_startup e s c ob, factory_apply e s c ob p t, factory_restore e s c ob p t,
       factory_finish_restore e s c ob p t, factory_finish_apply e s c ob p t] in
   list_all (\<lambda>r. \<not> rd_publish (fx_decision r) \<and> \<not> rd_authorized (fx_decision r) \<and> \<not> fx_calibrated r \<and>
     \<not> fx_native_waiver r \<and> \<not> fx_clear_failure r \<and>
     (fx_units r = FU_Virtual_Two \<longrightarrow> rd_action (fx_decision r) = RA_MarkApplied) \<and>
     (\<not> closed_profile e s \<longrightarrow> r = factory_reject)) rs"
  by (simp add: factory_startup_def factory_apply_def factory_restore_def factory_finish_restore_def
      factory_finish_apply_def factory_wrap_def factory_reject_def rec_decision0_def Let_def)

end
