(* ===== verification/Crc_Fast.thy ===== *)
theory Crc_Fast
  imports Crc_Seal
begin

text \<open>
  The CRC of a concrete message, evaluated in the kernel: the register as the list of its 32 bits, lowest first. Rewriting
  constants \<open>True\<close> and \<open>False\<close> is fast enough for the images of the gauge, rewriting machine words is not.
\<close>

definition crc_poly_bits :: "bool list" where
  "crc_poly_bits = [False, False, False, False, False, True, False, False, True, True, False, False, False, False, False, True,
     False, False, False, True, True, True, False, True, True, False, True, True, False, True, True, True]"

fun xor_bits :: "bool list \<Rightarrow> bool list \<Rightarrow> bool list" where
  "xor_bits xs [] = xs"
| "xor_bits [] (y # ys) = y # ys"
| "xor_bits (True # xs) (y # ys) = (\<not> y) # xor_bits xs ys"
| "xor_bits (False # xs) (y # ys) = y # xor_bits xs ys"

fun step_bits :: "bool list \<Rightarrow> bool list" where
  "step_bits (False # bs) = bs @ [False]"
| "step_bits (True # bs) = xor_bits (bs @ [False]) crc_poly_bits"
| "step_bits [] = []"

definition byte_bits :: "bool list \<Rightarrow> bool list \<Rightarrow> bool list" where
  "byte_bits s b = step_bits (step_bits (step_bits (step_bits (step_bits (step_bits (step_bits (step_bits (xor_bits s b))))))))"

text \<open>The bits of a byte, without leading zeroes.\<close>

fun num_bits :: "num \<Rightarrow> bool list" where
  "num_bits num.One = [True]"
| "num_bits (num.Bit0 n) = False # num_bits n"
| "num_bits (num.Bit1 n) = True # num_bits n"

definition word_bits :: "bool list \<Rightarrow> 'a::len word" where
  "word_bits = horner_sum of_bool 2"

lemma word_bits_simps [simp]: "word_bits [] = 0" "word_bits (b # bs) = of_bool b + 2 * word_bits bs"
  by (simp_all add: word_bits_def)

lemma bit_word_bits: "bit (word_bits bs :: 'a::len word) n \<longleftrightarrow> n < LENGTH('a) \<and> n < length bs \<and> bs ! n"
  by (simp add: word_bits_def bit_horner_sum_bit_word_iff)

lemma word_bits_num: "word_bits (num_bits n) = (numeral n :: 'a::len word)"
proof (induction n)
  case (Bit0 n)
  then show ?case using numeral_Bit0[of n, where ?'a = "'a word"] by (simp only: num_bits.simps word_bits_simps mult_2) simp
next
  case (Bit1 n)
  then show ?case unfolding num_bits.simps word_bits_simps Bit1 mult_2 numeral_Bit1 of_bool_eq by (simp only: ac_simps)
qed simp

lemma length_xor_bits: "length ys \<le> length xs \<Longrightarrow> length (xor_bits xs ys) = length xs"
  by (induction xs ys rule: xor_bits.induct) simp_all

lemma nth_xor_bits: "length ys \<le> length xs \<Longrightarrow> n < length xs \<Longrightarrow>
  xor_bits xs ys ! n \<longleftrightarrow> (xs ! n \<noteq> (n < length ys \<and> ys ! n))"
proof (induction xs ys arbitrary: n rule: xor_bits.induct)
  case (3 xs y ys)
  then show ?case by (cases n) simp_all
next
  case (4 xs y ys)
  then show ?case by (cases n) simp_all
qed simp_all

lemma word_bits_xor:
  "length ys \<le> length xs \<Longrightarrow> length xs \<le> LENGTH('a) \<Longrightarrow>
    (word_bits (xor_bits xs ys) :: 'a::len word) = word_bits xs XOR word_bits ys"
  by (rule bit_word_eqI) (auto simp: bit_word_bits bit_xor_iff length_xor_bits nth_xor_bits)

lemma crc_poly_word: "word_bits crc_poly_bits = crc_poly"
  by (simp add: crc_poly_bits_def crc_poly_def)

lemma length_poly: "length crc_poly_bits = 32"
  by (simp add: crc_poly_bits_def)

lemma length_step_bits: "length s = 32 \<Longrightarrow> length (step_bits s) = 32"
  by (cases s rule: step_bits.cases) (simp_all add: length_xor_bits length_poly)

lemma crc_bit_bits: "length s = 32 \<Longrightarrow> crc_bit (word_bits s) = word_bits (step_bits s)"
proof -
  assume l: "length s = 32"
  then obtain b bs where s: "s = b # bs" "length bs = 31" by (cases s) auto
  have low: "word_bits s AND (1 :: u32) \<noteq> 0 \<longleftrightarrow> b" by (simp add: and_1_cases bit_word_bits s del: word_bits_simps)
  have "drop_bit 1 (word_bits s :: u32) = word_bits (bs @ [False])"
    by (rule bit_word_eqI) (auto simp: bit_drop_bit_eq bit_word_bits s nth_append simp del: word_bits_simps)
  then show ?thesis
    using s low by (cases b) (simp_all add: crc_bit_def word_bits_xor length_poly del: word_bits_simps flip: crc_poly_word)
qed

lemma crc_byte_bits:
  assumes "length s = 32" "length b \<le> 8"
  shows "crc_byte (word_bits s) (word_bits b) = word_bits (byte_bits s b)" "length (byte_bits s b) = 32"
proof -
  have u: "(ucast (word_bits b :: u8) :: u32) = word_bits b"
    using assms(2) by (intro bit_word_eqI) (auto simp: bit_ucast_byte bit_word_bits)
  have x: "word_bits s XOR word_bits b = (word_bits (xor_bits s b) :: u32)" "length (xor_bits s b) = 32"
    using assms by (simp_all add: word_bits_xor length_xor_bits)
  show "length (byte_bits s b) = 32" using x(2) by (simp add: byte_bits_def length_step_bits)
  show "crc_byte (word_bits s) (word_bits b) = word_bits (byte_bits s b)"
    using x by (simp add: crc_byte_def u byte_bits_def crc_bit_bits length_step_bits numeral_eq_Suc)
qed

text \<open>The run over a message, and the bits of a byte that is a numeral.\<close>

definition byte_of :: "u8 \<Rightarrow> bool list" where
  "byte_of x = map (bit x) [0..<8]"

fun run_bits :: "bool list \<Rightarrow> bool list list \<Rightarrow> bool list" where
  "run_bits s [] = s"
| "run_bits s (b # bs) = run_bits (byte_bits s b) bs"

lemma run_bits_append: "run_bits s (xs @ ys) = run_bits (run_bits s xs) ys"
  by (induction s xs rule: run_bits.induct) simp_all

lemma crc_run_bits:
  "length s = 32 \<Longrightarrow> \<forall>b \<in> set bs. length b \<le> 8 \<Longrightarrow> crc_run (word_bits s) (map word_bits bs) = word_bits (run_bits s bs)"
  by (induction s bs rule: run_bits.induct) (simp_all add: crc_run_def crc_byte_bits)

lemma crc32_bits:
  assumes "\<forall>b \<in> set bs. length b \<le> 8"
  shows "crc32 (map word_bits bs) = NOT (word_bits (run_bits (replicate 32 True) bs))"
proof -
  have "word_bits (replicate 32 True) = (0xffffffff :: u32)" by (simp add: numeral_eq_Suc)
  then show ?thesis using crc_run_bits[OF _ assms, of "replicate 32 True"] by (simp add: crc32_def)
qed

lemma length_byte_of [simp]: "length (byte_of x) = 8"
  by (simp add: byte_of_def)

lemma word_bits_byte_of [simp]: "word_bits (byte_of x) = x"
  by (rule bit_word_eqI) (simp add: bit_word_bits byte_of_def)

definition pad8 :: "bool list \<Rightarrow> bool list" where
  "pad8 bs = take 8 (bs @ replicate 8 False)"

lemma pad8_simps:
  "pad8 [a] = [a, False, False, False, False, False, False, False]" "pad8 [a, b] = [a, b, False, False, False, False, False, False]" "pad8 [a, b, c] = [a, b, c, False, False, False, False, False]"
  "pad8 [a, b, c, d] = [a, b, c, d, False, False, False, False]" "pad8 [a, b, c, d, e] = [a, b, c, d, e, False, False, False]" "pad8 [a, b, c, d, e, f] = [a, b, c, d, e, f, False, False]" "pad8 [a, b, c, d, e, f, g] = [a, b, c, d, e, f, g, False]" "pad8 [a, b, c, d, e, f, g, h] = [a, b, c, d, e, f, g, h]"
  "pad8 [a, b, c, d, e, f, g, h, i, j, k, l, m, n, r, q] = [a, b, c, d, e, f, g, h]"
  by (simp_all add: pad8_def numeral_eq_Suc)

lemma byte_of_num:
  "byte_of 0 = pad8 [False]" "byte_of 1 = pad8 [True]" "byte_of (numeral n) = pad8 (num_bits n)"
proof -
  show "byte_of 0 = pad8 [False]" "byte_of 1 = pad8 [True]"
    by (simp_all add: pad8_def byte_of_def upt_rec numeral_eq_Suc bit_1_iff)
  show "byte_of (numeral n) = pad8 (num_bits n)"
  proof (rule nth_equalityI)
    show "length (byte_of (numeral n)) = length (pad8 (num_bits n))" by (simp add: pad8_def)
    fix i assume "i < length (byte_of (numeral n))"
    then have i: "i < 8" by simp
    have "bit (numeral n :: u8) i \<longleftrightarrow> i < length (num_bits n) \<and> num_bits n ! i"
      unfolding word_bits_num[symmetric] using i by (simp add: bit_word_bits)
    then show "byte_of (numeral n) ! i = pad8 (num_bits n) ! i"
      using i by (auto simp: pad8_def byte_of_def nth_append)
  qed
qed

fun byte_run :: "bool list \<Rightarrow> bytes \<Rightarrow> bool list" where
  "byte_run s [] = s"
| "byte_run s (b # bs) = byte_run (byte_bits s (byte_of b)) bs"

lemma byte_run_bits: "byte_run s bs = run_bits s (map byte_of bs)"
  by (induction s bs rule: byte_run.induct) simp_all

lemma crc32_bytes: "crc32 bs = NOT (word_bits (byte_run (replicate 32 True) bs))"
proof -
  have "bs = map word_bits (map byte_of bs)" by (simp add: comp_def)
  then show ?thesis using crc32_bits[of "map byte_of bs"] by (auto simp: byte_run_bits)
qed

text \<open>The register before the first byte, and the rules that evaluate a run over literal bytes.\<close>

lemma all_ones: "replicate 32 True = [True, True, True, True, True, True, True, True, True, True, True, True, True, True, True, True, True, True, True, True, True, True, True, True, True, True, True, True, True, True, True, True]"
  by (simp add: numeral_eq_Suc)

lemma append_step: "[] @ ys = ys" "(x # xs) @ ys = x # (xs @ ys)"
  by simp_all

lemmas byte_run_eval = all_ones byte_run.simps byte_of_num num_bits.simps pad8_simps byte_bits_def step_bits.simps
  xor_bits.simps crc_poly_bits_def append_step not_True_eq_False not_False_eq_True

end
