(* ===== verification/Factory_Image.thy ===== *)
theory Factory_Image
  imports Factory_Scale Layout_Values Crc_Fast
begin

text \<open>
  The one image that the closed profile of the factory rescaling accepts: the original bytes of the 131 fields of the
  reviewed device and the 17 changed ones. Both digests are evaluated here, so that the theorems about the journal are
  applied to a record that is really stored.
\<close>

section \<open>The image\<close>

definition factory_rows :: "(u16 \<times> nat \<times> bytes) list" where
  "factory_rows =
     [
      (0x9180, 2, [0xff, 0xf0, 0, 0]), (0x9182, 2, [0xb, 0xd6, 0, 0]), (0x9184, 4, [0x7e, 0x73, 0xb6, 0x45]), (0x9188,
      4, [0x93, 0xa, 0xa5, 0x22]), (0x91b4, 1, [0, 0, 0, 0]), (0x91b5, 1, [0, 0, 0, 0]), (0x91b6, 1, [0, 0, 0, 0]),
      (0x91b7, 1, [0, 0, 0, 0]), (0x91b8, 2, [0, 0, 0, 0]), (0x91ba, 2, [0, 0, 0, 0]), (0x91bc, 2, [0xcb, 0xd4, 0, 0]),
      (0x91be, 2, [0x1a, 5, 0, 0]), (0x91c0, 2, [0xd4, 0x86, 0, 0]), (0x91c2, 2, [0x4a, 0xc6, 0, 0]), (0x91c4, 2, [0xb4,
      0xc2, 0, 0]), (0x91c6, 2, [0x6e, 0x2b, 0, 0]), (0x91c8, 2, [3, 0x7c, 0, 0]), (0x91ca, 2, [1, 0x48, 0, 0]),
      (0x91cc, 2, [0xfd, 0xa3, 0, 0]), (0x91ce, 2, [0xf6, 0x75, 0, 0]), (0x91d0, 2, [0x12, 0x58, 0, 0]), (0x91d2, 2,
      [0x2d, 0xb7, 0, 0]), (0x91d4, 2, [0x1c, 0x98, 0, 0]), (0x91d6, 2, [2, 0xd3, 0, 0]), (0x91d8, 2, [0xff, 0xb9, 0,
      0]), (0x91da, 1, [0x30, 0, 0, 0]), (0x91db, 2, [1, 0, 0, 0]), (0x91dd, 1, [0xef, 0, 0, 0]), (0x91de, 1, [5, 0, 0,
      0]), (0x91df, 1, [0x11, 0, 0, 0]), (0x91f5, 2, [0, 0, 0, 0]), (0x91f7, 2, [1, 0xc2, 0, 0]), (0x91f9, 2, [0, 0x32,
      0, 0]), (0x91fb, 2, [0, 0xc8, 0, 0]), (0x91fd, 2, [0x10, 0x68, 0, 0]), (0x9201, 2, [0, 0x64, 0, 0]), (0x9206, 2,
      [4, 0x84, 0, 0]), (0x9208, 2, [0x18, 0, 0, 0]), (0x920b, 1, [1, 0, 0, 0]), (0x920c, 1, [9, 0, 0, 0]), (0x920d, 1,
      [0, 0, 0, 0]), (0x920e, 2, [0, 0x96, 0, 0]), (0x9210, 2, [0, 0xaf, 0, 0]), (0x9212, 2, [2, 0x20, 0, 0]), (0x9217,
      2, [0, 0xa, 0, 0]), (0x9219, 1, [5, 0, 0, 0]), (0x921a, 2, [0, 0x32, 0, 0]), (0x921c, 2, [1, 0xc2, 0, 0]),
      (0x921e, 1, [0x14, 0, 0, 0]), (0x921f, 1, [0x14, 0, 0, 0]), (0x9228, 2, [0, 0x3c, 0, 0]), (0x922a, 2, [0, 0x4b, 0,
      0]), (0x922c, 2, [0, 0x28, 0, 0]), (0x922e, 2, [0, 0x3c, 0, 0]), (0x9230, 1, [0x3c, 0, 0, 0]), (0x9231, 1, [1, 0,
      0, 0]), (0x9232, 2, [2, 0x26, 0, 0]), (0x9234, 1, [2, 0, 0, 0]), (0x9235, 2, [1, 0xf4, 0, 0]), (0x9237, 2, [2,
      0x58, 0, 0]), (0x9239, 1, [2, 0, 0, 0]), (0x923a, 2, [2, 0x26, 0, 0]), (0x923c, 1, [0xf6, 0, 0, 0]), (0x9240, 2,
      [0xc, 0x4e, 0, 0]), (0x9242, 1, [2, 0, 0, 0]), (0x9243, 2, [0xc, 0xb2, 0, 0]), (0x9251, 2, [2, 0xbc, 0, 0]),
      (0x925b, 1, [0x77, 0, 0, 0]), (0x9264, 2, [5, 0xdc, 0, 0]), (0x9268, 1, [0x14, 0, 0, 0]), (0x9269, 2, [0, 0, 0,
      0]), (0x926b, 2, [0, 0xc8, 0, 0]), (0x926d, 2, [0, 0, 0, 0]), (0x926f, 1, [0x64, 0, 0, 0]), (0x9270, 1, [0x64, 0,
      0, 0]), (0x9271, 1, [8, 0, 0, 0]), (0x9272, 2, [0xe, 0x74, 0, 0]), (0x9274, 2, [0, 0x64, 0, 0]), (0x9276, 2,
      [0x1f, 0x40, 0, 0]), (0x927b, 1, [2, 0, 0, 0]), (0x927c, 1, [0x3c, 0, 0, 0]), (0x927d, 1, [0x5a, 0, 0, 0]),
      (0x927f, 2, [0xc, 0x8c, 0, 0]), (0x9281, 1, [0x8c, 0, 0, 0]), (0x9282, 2, [0xb, 0xb8, 0, 0]), (0x9284, 2, [0xc,
      0x1c, 0, 0]), (0x9286, 1, [0, 0, 0, 0]), (0x9287, 1, [5, 0, 0, 0]), (0x9288, 2, [0x10, 0x68, 0, 0]), (0x928a, 2,
      [0x10, 4, 0, 0]), (0x928c, 1, [0x64, 0, 0, 0]), (0x928d, 1, [0x5f, 0, 0, 0]), (0x928e, 2, [0xc, 0x80, 0, 0]),
      (0x9290, 2, [0xc, 0xe4, 0, 0]), (0x9292, 1, [6, 0, 0, 0]), (0x9293, 1, [8, 0, 0, 0]), (0x9294, 2, [0x10, 0x68, 0,
      0]), (0x9296, 2, [0x10, 4, 0, 0]), (0x9298, 1, [0x64, 0, 0, 0]), (0x9299, 1, [0x5f, 0, 0, 0]), (0x929a, 1, [0, 0,
      0, 0]), (0x929b, 2, [0x10, 0x2a, 0, 0]), (0x929d, 2, [0xb, 0xb8, 0, 0]), (0x929f, 2, [0xb, 0xb8, 0, 0]), (0x92a3,
      2, [0xe, 0x74, 0, 0]), (0x92a5, 2, [0, 0x64, 0, 0]), (0x92a7, 2, [0xe, 0x9f, 0, 0]), (0x92a9, 2, [0, 0x95, 0, 0]),
      (0x92ab, 2, [3, 0x63, 0, 0]), (0x92ad, 2, [0xf, 0xbe, 0, 0]), (0x92af, 2, [1, 0x3c, 0, 0]), (0x92b1, 1, [9, 0, 0,
      0]), (0x92b2, 1, [0, 0, 0, 0]), (0x92b3, 1, [0, 0, 0, 0]), (0x92b4, 2, [0xb, 0xd7, 0, 0]), (0x92b6, 1, [1, 0, 0,
      0]), (0x92b7, 2, [0xd, 0x39, 0, 0]), (0x92b9, 1, [1, 0, 0, 0]), (0x92ba, 2, [0xd, 0xad, 0, 0]), (0x92bc, 1, [1, 0,
      0, 0]), (0x92bd, 2, [0x10, 0x4d, 0, 0]), (0x92bf, 2, [0xf, 0xcb, 0, 0]), (0x92c1, 2, [0xf, 0x55, 0, 0]), (0x92c3,
      2, [0xe, 0xed, 0, 0]), (0x92c5, 2, [0xe, 0x8d, 0, 0]), (0x92c7, 2, [0xe, 0x48, 0, 0]), (0x92c9, 2, [0xe, 0x23, 0,
      0]), (0x92cb, 2, [0xd, 0xfe, 0, 0]), (0x92cd, 2, [0xd, 0xbb, 0, 0]), (0x92cf, 2, [0xd, 0x6f, 0, 0]), (0x92d1, 2,
      [0xa, 0x99, 0, 0])
     ]"

definition factory_targets :: "(u16 \<times> bytes) list" where
  "factory_targets =
     [
      (0x9184, [0x7f, 0x73, 0xb6, 0x45]), (0x9188, [0x94, 0xa, 0xa5, 0x22]), (0x91de, [0xa, 0, 0, 0]), (0x91fb, [1,
      0x90, 0, 0]), (0x9201, [0, 0xc8, 0, 0]), (0x920e, [1, 0x2c, 0, 0]), (0x9210, [1, 0x5e, 0, 0]), (0x9217, [0, 0x14,
      0, 0]), (0x9228, [0, 0x78, 0, 0]), (0x922a, [0, 0x96, 0, 0]), (0x922c, [0, 0x50, 0, 0]), (0x923c, [0xec, 0, 0,
      0]), (0x9264, [0xb, 0xb8, 0, 0]), (0x926b, [1, 0x90, 0, 0]), (0x929d, [0, 0x82, 0, 0]), (0x929f, [0, 0x82, 0, 0]),
      (0x92ab, [1, 0xb2, 0, 0])
     ]"

definition factory_field :: "u16 \<times> nat \<times> bytes \<Rightarrow> rec_field" where
  "factory_field r = (case r of (a, w, b) \<Rightarrow> \<lparr>rf_address = a, rf_width = w, rf_original = b,
     rf_target = (case map_of factory_targets a of Some t \<Rightarrow> t | None \<Rightarrow> b)\<rparr>)"

definition factory_fields :: "rec_field list" where
  "factory_fields = map factory_field factory_rows"

lemma length_factory_fields: "length factory_fields = 131"
  by (simp add: factory_fields_def factory_rows_def)

lemma factory_fields_layout: "map (\<lambda>f. \<lparr>lf_address = rf_address f, lf_width = rf_width f\<rparr>) factory_fields = public_layout"
proof -
  have "map (\<lambda>r. (fst r, fst (snd r))) factory_rows = layout_table"
    by (simp add: factory_rows_def layout_table_def)
  then have "layout_list = map (\<lambda>r. \<lparr>lf_address = fst r, lf_width = fst (snd r)\<rparr>) factory_rows"
    unfolding layout_list_def by (simp add: split_beta comp_def flip: \<open>map _ factory_rows = layout_table\<close>)
  then have "map (\<lambda>f. \<lparr>lf_address = rf_address f, lf_width = rf_width f\<rparr>) factory_fields = layout_list"
    by (simp add: factory_fields_def factory_field_def split_beta comp_def)
  then show ?thesis by (simp add: public_layout_values)
qed

section \<open>The digests\<close>

text \<open>The seven bytes of a field in the digest.\<close>

definition field_bytes :: "bool \<Rightarrow> rec_field \<Rightarrow> bytes" where
  "field_bytes target f = [ucast (rf_address f), ucast (drop_bit 8 (rf_address f)), of_nat (rf_width f)] @
     (if target then rf_target f else rf_original f)"

lemmas digest_eval = factory_fields_def factory_rows_def factory_field_def field_bytes_def factory_targets_def

lemma field_bytes_spec: "length (rf_original f) = 4 \<and> length (rf_target f) = 4 \<Longrightarrow>
  map (\<lambda>j. if j < 2 then ucast (drop_bit (8 * j) (rf_address f)) else if j = 2 then of_nat (rf_width f)
     else if target then rf_target f ! (j - 3) else rf_original f ! (j - 3)) [0..<7] = field_bytes target f"
  by (rule nth_equalityI) (auto simp: field_bytes_def nth_Cons' nth_append numeral_eq_Suc less_Suc_eq)

lemma factory_field_lengths: "\<forall>f \<in> set factory_fields. length (rf_original f) = 4 \<and> length (rf_target f) = 4"
  by (simp add: digest_eval)

lemma source_run: "NOT (word_bits (byte_run (replicate 32 True) (concat (map (field_bytes False) factory_fields)))) = factory_source_crc"
  apply (simp add: digest_eval del: byte_run.simps)
  apply (simp only: byte_run_eval)
  apply (simp add: factory_source_crc_def)
  done

lemma target_run: "NOT (word_bits (byte_run (replicate 32 True) (concat (map (field_bytes True) factory_fields)))) = candidate_target_crc"
  apply (simp add: digest_eval del: byte_run.simps)
  apply (simp only: byte_run_eval)
  apply (simp add: candidate_target_crc_def)
  done

section \<open>The record\<close>

definition factory_image :: factory_record where
  "factory_image = \<lparr>fr_profile = FP_Factory3000, fr_mac = [2, 0, 0, 0, 0, 1],
     fr_snapshot = \<lparr>rs_identity = \<lparr>ri_device = 0x0220, ri_firmware = 3, ri_build = 4\<rparr>, rs_binding = mac_binding [2, 0, 0, 0, 0, 1],
       rs_layout = LI_Public131V1, rs_generation = 1, rs_scale = 2, rs_epoch = 1, rs_phase = RP_Original, rs_count = 131,
       rs_fields = factory_fields\<rparr>\<rparr>"

lemma image_digests:
  "image_digest (fr_snapshot factory_image) False = factory_source_crc"
  "image_digest (fr_snapshot factory_image) True = candidate_target_crc"
proof -
  have "image_digest (fr_snapshot factory_image) t = crc32 (concat (map (field_bytes t) factory_fields))" for t
    unfolding image_digest_def factory_image_def factory_record.simps rec_snapshot.simps
    using factory_field_lengths by (simp add: field_bytes_spec cong: map_cong)
  then show "image_digest (fr_snapshot factory_image) False = factory_source_crc"
    "image_digest (fr_snapshot factory_image) True = candidate_target_crc"
    by (simp_all only: crc32_bytes source_run target_run)
qed

text \<open>The loop of the template as three questions about the list of fields.\<close>

definition field_ok :: "rec_field \<Rightarrow> bool" where
  "field_ok f \<longleftrightarrow> (case owned_change (rf_address f) of
       Some (a, width, before, after) \<Rightarrow> rf_width f = width \<and> factory_raw (rf_original f) (rf_width f) = before \<and>
         factory_raw (rf_target f) (rf_width f) = after
     | None \<Rightarrow> rf_original f = rf_target f) \<and>
     drop (rf_width f) (rf_original f) = replicate (4 - rf_width f) 0 \<and> drop (rf_width f) (rf_target f) = replicate (4 - rf_width f) 0"

definition marked :: "u16 \<Rightarrow> u32 \<Rightarrow> bool \<Rightarrow> rec_field \<Rightarrow> bool" where
  "marked a v b f = (if rf_address f = a then factory_raw (rf_original f) (rf_width f) = v else b)"

lemma drop_zero: "drop n xs = replicate (4 - n) 0 \<Longrightarrow> length xs = 4 \<Longrightarrow> n \<le> j \<Longrightarrow> j < 4 \<Longrightarrow> xs ! j = 0"
  using nth_drop[of n xs "j - n"] by simp

lemma field_ok_zero:
  "field_ok f \<Longrightarrow> length (rf_original f) = 4 \<Longrightarrow> length (rf_target f) = 4 \<Longrightarrow>
    \<not> list_ex (\<lambda>j. rf_original f ! j \<noteq> 0 \<or> rf_target f ! j \<noteq> 0) [rf_width f..<4]"
  using drop_zero[of "rf_width f"] by (auto simp: list_ex_iff field_ok_def)

lemma template_loop_fields:
  "\<forall>i \<in> set is. on_layout s i \<and> field_ok (rs_fields s ! i) \<and> length (rf_original (rs_fields s ! i)) = 4 \<and>
      length (rf_target (rs_fields s ! i)) = 4 \<Longrightarrow>
    template_loop s is changed cfg offset =
      Some (changed + sum_list (map (\<lambda>f. of_bool (owned_change (rf_address f) \<noteq> None)) (map (\<lambda>i. rs_fields s ! i) is)),
        foldl (marked 0x929b 0x102a) cfg (map (\<lambda>i. rs_fields s ! i) is), foldl (marked 0x9180 0xfff0) offset (map (\<lambda>i. rs_fields s ! i) is))"
proof (induction "is" arbitrary: changed cfg offset)
  case (Cons i "is")
  let ?f = "rs_fields s ! i"
  have f: "on_layout s i" "field_ok ?f" "length (rf_original ?f) = 4" "length (rf_target ?f) = 4" using Cons.prems by simp_all
  have z: "\<not> list_ex (\<lambda>j. rf_original ?f ! j \<noteq> 0 \<or> rf_target ?f ! j \<noteq> 0) [rf_width ?f..<4]"
    by (rule field_ok_zero[OF f(2-4)])
  have o: "\<not> (case owned_change (rf_address ?f) of
          Some (a, width, before, after) \<Rightarrow>
            rf_width ?f \<noteq> width \<or> factory_raw (rf_original ?f) (rf_width ?f) \<noteq> before \<or>
            factory_raw (rf_target ?f) (rf_width ?f) \<noteq> after
        | None \<Rightarrow> list_ex (\<lambda>j. rf_original ?f ! j \<noteq> rf_target ?f ! j) [0..<4])"
    using f(2) by (auto simp: field_ok_def list_ex_iff split: option.splits)
  show ?case using Cons.IH[of "if owned_change (rf_address ?f) = None then changed else changed + 1"] Cons.prems f(1) z o
    by (simp add: Let_def marked_def)
qed simp

lemma factory_raw_simps: "factory_raw [a, b, c, d] (Suc 0) = ucast a" "factory_raw [a, b, c, d] 2 = push_bit 8 (ucast a) OR ucast b"
  "factory_raw [a, b, c, d] 4 = push_bit 8 (push_bit 8 (push_bit 8 (ucast a) OR ucast b) OR ucast c) OR ucast d"
  by (simp_all add: factory_raw_def upt_rec)

lemma replicate_zero: "replicate 2 x = [x, x]" "replicate 3 x = [x, x, x]"
  by (simp_all add: numeral_eq_Suc)

lemmas field_eval = digest_eval owned_change_def factory_changes_def factory_raw_simps replicate_zero

lemma image_fields_ok: "list_all field_ok factory_fields"
  by (simp add: field_eval field_ok_def)

lemma image_fields_changed: "sum_list (map (\<lambda>f. of_bool (owned_change (rf_address f) \<noteq> None)) factory_fields) = (17 :: nat)"
  by (simp add: field_eval)

lemma image_fields_marked:
  "foldl (marked 0x929b 0x102a) False factory_fields" "foldl (marked 0x9180 0xfff0) False factory_fields"
  by (simp_all add: field_eval marked_def)

lemma image_fields: "map (\<lambda>i. rs_fields (fr_snapshot factory_image) ! i) [0..<131] = factory_fields"
  using map_nth[of factory_fields] length_factory_fields by (simp add: factory_image_def)

lemma image_field:
  assumes "i < 131"
  shows "on_layout (fr_snapshot factory_image) i" "field_ok (rs_fields (fr_snapshot factory_image) ! i)"
    "length (rf_original (rs_fields (fr_snapshot factory_image) ! i)) = 4" "length (rf_target (rs_fields (fr_snapshot factory_image) ! i)) = 4"
proof -
  have f: "rs_fields (fr_snapshot factory_image) = factory_fields" by (simp add: factory_image_def)
  have m: "factory_fields ! i \<in> set factory_fields" using assms length_factory_fields by simp
  have "public_layout ! i = \<lparr>lf_address = rf_address (factory_fields ! i), lf_width = rf_width (factory_fields ! i)\<rparr>"
    unfolding factory_fields_layout[symmetric] using assms length_factory_fields by simp
  then show "on_layout (fr_snapshot factory_image) i" unfolding on_layout_def f by simp
  show "field_ok (rs_fields (fr_snapshot factory_image) ! i)" unfolding f using image_fields_ok m unfolding list_all_iff by (rule bspec)
  show "length (rf_original (rs_fields (fr_snapshot factory_image) ! i)) = 4" "length (rf_target (rs_fields (fr_snapshot factory_image) ! i)) = 4"
    unfolding f using factory_field_lengths m by auto
qed

lemma image_template: "closed_template (fr_snapshot factory_image)"
proof -
  have "\<forall>i \<in> set [0..<131]. on_layout (fr_snapshot factory_image) i \<and> field_ok (rs_fields (fr_snapshot factory_image) ! i) \<and>
      length (rf_original (rs_fields (fr_snapshot factory_image) ! i)) = 4 \<and> length (rf_target (rs_fields (fr_snapshot factory_image) ! i)) = 4"
    using image_field by auto
  note t = template_loop_fields[OF this, of 0 False False, unfolded image_fields image_fields_changed]
  have "rs_scale (fr_snapshot factory_image) = 2" "rs_count (fr_snapshot factory_image) = 131" by (simp_all add: factory_image_def)
  then show ?thesis using t image_fields_marked image_digests by (simp add: closed_template_def)
qed

lemma image_shape: "factory_shape factory_image"
proof -
  have "rec_nonzero (mac_binding [2, 0, 0, 0, 0, 1])" by code_simp
  moreover have "rec_same_binding (mac_binding [2, 0, 0, 0, 0, 1]) (mac_binding [2, 0, 0, 0, 0, 1])"
    by (simp add: rec_same_binding_def list_ex_iff)
  moreover have "known_identity (rs_identity (fr_snapshot factory_image))" by (simp add: factory_image_def known_identity_def)
  ultimately show ?thesis using image_template
    by (simp add: factory_shape_def Let_def) (simp add: factory_image_def valid_phase_def)
qed

lemma image_arrays: "factory_arrays factory_image"
  using factory_field_lengths length_factory_fields
  by (simp add: factory_arrays_def scale_arrays_def as_scale_def factory_image_def mac_binding_def list_all_iff)

lemma image_scale: "scale_shape (as_scale factory_image)"
proof -
  let ?s = "fr_snapshot factory_image"
  have "\<not> list_ex (\<lambda>i. \<not> on_layout ?s i \<or>
      list_ex (\<lambda>j. rf_original (rs_fields ?s ! i) ! j \<noteq> 0 \<or> rf_target (rs_fields ?s ! i) ! j \<noteq> 0) [rf_width (rs_fields ?s ! i)..<4]) [0..<131]"
    using image_field field_ok_zero by (simp add: list_ex_iff)
  moreover have "rec_nonzero (mac_binding [2, 0, 0, 0, 0, 1])" by code_simp
  moreover have "rec_same_binding (mac_binding [2, 0, 0, 0, 0, 1]) (mac_binding [2, 0, 0, 0, 0, 1])"
    by (simp add: rec_same_binding_def list_ex_iff)
  moreover have "known_identity (rs_identity ?s)" by (simp add: factory_image_def known_identity_def)
  moreover have "rs_binding ?s = mac_binding [2, 0, 0, 0, 0, 1]" "fr_mac factory_image = [2, 0, 0, 0, 0, 1]"
    "rs_layout ?s = LI_Public131V1" "rs_generation ?s = 1" "rs_count ?s = 131" "rs_scale ?s = 2" "rs_phase ?s = RP_Original"
    by (simp_all add: factory_image_def)
  ultimately show ?thesis
    by (simp add: scale_shape_def rec_validate_def scale_context_def as_scale_def rec_same_identity_def valid_phase_def)
qed

text \<open>The bytes that the journal stores for it.\<close>

definition image_blob :: bytes where
  "image_blob = factory_patch (scale_image (as_scale factory_image)) 1"

lemma image_encoded: "factory_encode factory_image = Some image_blob"
  using image_shape image_scale
  by (simp add: factory_encode_def scale_encode_def image_blob_def) (simp add: factory_image_def profile_byte_def)

lemma image_saved:
  "\<exists>l. factory_save_nvs ram_nvs_api factory_image False sample_admission \<lparr>rn_blobs = (\<lambda>_. None), rn_writes = []\<rparr> =
      (l, \<lparr>rn_blobs = [0 \<mapsto> image_blob], rn_writes = []\<rparr>) \<and> sl_status l = SS_Ready \<and> loaded_record l = Some factory_image"
proof -
  have d: "factory_decode image_blob [2, 0, 0, 0, 0, 1] = Some factory_image" "length image_blob = 512"
    using factory_decode_encode[OF image_arrays image_encoded] length_factory_encode[OF image_encoded]
    by (simp_all add: factory_image_def)
  have f: "fr_mac factory_image = [2, 0, 0, 0, 0, 1]" "rs_generation (fr_snapshot factory_image) = 1"
    "rs_phase (fr_snapshot factory_image) = RP_Original"
    by (simp_all add: factory_image_def)
  show ?thesis
    by (simp add: factory_save_nvs_def factory_save_into_def factory_initial_def nvs_required_entries_def image_shape f d image_encoded
        sample_admission_def admitted_def ram_nvs_api_def slots_save_def factory_rules_def
        slots_load_def nvs_store_def read_slot_def write_slot_def commit_slots_def ram_set_def slots_decide_def
        slot_record_def slot_corrupt_def save_target_def put_slot_def loaded_record_def
        ESP_ERR_NVS_NOT_FOUND_def esp_codes)
qed

theorem factory_save_reloads_witness:
  "\<exists>l s'. factory_save_nvs ram_nvs_api factory_image False sample_admission \<lparr>rn_blobs = (\<lambda>_. None), rn_writes = []\<rparr> = (l, s') \<and>
     sl_status l = SS_Ready \<and> loaded_record l = Some factory_image \<and> rn_blobs s' = [0 \<mapsto> image_blob] \<and>
     journal_state factory_rules [2, 0, 0, 0, 0, 1] (rn_blobs s') = Current factory_image"
proof -
  obtain l where l: "factory_save_nvs ram_nvs_api factory_image False sample_admission \<lparr>rn_blobs = (\<lambda>_. None), rn_writes = []\<rparr> =
      (l, \<lparr>rn_blobs = [0 \<mapsto> image_blob], rn_writes = []\<rparr>)" "sl_status l = SS_Ready" "loaded_record l = Some factory_image"
    using image_saved by blast
  have "fr_mac factory_image = [2, 0, 0, 0, 0, 1]" by (simp add: factory_image_def)
  then show ?thesis using factory_save_reloads[OF ram_nvs.nvs_blobs_axioms image_arrays l(1)] l by auto
qed

end
