(* ===== verification/Touch_Sleep.thy ===== *)
theory Touch_Sleep
  imports Prelude_Bytes
begin

text \<open>
  The sleep trial of the touch controller: the phase machine (\<open>main/host/touch_sleep_model.h\<close>) and the task around it
  (\<open>main/host/touch_sleep.cpp\<close>). Times are the signed microseconds of the monotonic clock; the controller, the OTA state
  and the flags of the callers are inputs of each call.
\<close>

section \<open>The model\<close>

datatype touch_phase = TP_Off | TP_Probe | TP_Handshake1 | TP_Handshake2 | TP_Handshake_Echo | TP_Mode_Write | TP_Mode_Echo
  | TP_Settle | TP_Sleep_Write | TP_Sleep_Requested | TP_Verify_Release | TP_Complete | TP_Held_Closed | TP_Failed_Restored
  | TP_Reboot_Pending

record touch_admission =
  ta_reserved :: bool
  ta_in_flight :: u32

definition reserve_touch :: "bool \<Rightarrow> touch_admission \<Rightarrow> bool \<times> touch_admission" where
  "reserve_touch busy a =
     (if busy \<or> ta_reserved a \<or> ta_in_flight a \<noteq> 0 then (False, a) else (True, a\<lparr>ta_reserved := True\<rparr>))"

definition enter_ota :: "touch_admission \<Rightarrow> bool \<times> touch_admission" where
  "enter_ota a = (if ta_reserved a then (False, a) else (True, a\<lparr>ta_in_flight := ta_in_flight a + 1\<rparr>))"

definition leave_ota :: "touch_admission \<Rightarrow> touch_admission" where
  "leave_ota a = (if ta_in_flight a \<noteq> 0 then a\<lparr>ta_in_flight := ta_in_flight a - 1\<rparr> else a)"

definition release_touch :: "touch_admission \<Rightarrow> touch_admission" where
  "release_touch a = a\<lparr>ta_reserved := False\<rparr>"

record touch =
  tc_phase :: touch_phase
  tc_consumed :: bool
  tc_restoring :: bool
  tc_dirty :: bool
  tc_failed :: bool
  tc_release_proven :: bool
  tc_normal_verified :: bool
  tc_report_valid :: bool
  tc_revision :: u32
  tc_writes :: u32
  tc_reads :: u32
  tc_entries :: u32
  tc_restores :: u32
  tc_echo :: u8
  tc_failed_echo :: u8
  tc_error_phase :: touch_phase
  tc_restore_error_phase :: touch_phase
  tc_last_command :: u16
  tc_last_i2c :: int
  tc_error :: int
  tc_restore_error :: int
  tc_started :: int
  tc_sleep_request :: int
  tc_lease_until :: int
  tc_restore_started :: int
  tc_restored :: int
  tc_deadline :: int
  tc_restore_deadline :: int

definition touch0 :: touch where
  "touch0 = \<lparr>tc_phase = TP_Off, tc_consumed = False, tc_restoring = False, tc_dirty = False, tc_failed = False,
     tc_release_proven = False, tc_normal_verified = False, tc_report_valid = False, tc_revision = 0, tc_writes = 0,
     tc_reads = 0, tc_entries = 0, tc_restores = 0, tc_echo = 0, tc_failed_echo = 0, tc_error_phase = TP_Off,
     tc_restore_error_phase = TP_Off, tc_last_command = 0, tc_last_i2c = 0, tc_error = 0, tc_restore_error = 0,
     tc_started = 0, tc_sleep_request = 0, tc_lease_until = 0, tc_restore_started = 0, tc_restored = 0, tc_deadline = 0,
     tc_restore_deadline = 0\<rparr>"

definition touch_critical :: "touch \<Rightarrow> bool" where
  "touch_critical m \<longleftrightarrow>
     tc_phase m \<noteq> TP_Off \<and> tc_phase m \<noteq> TP_Complete \<and> tc_phase m \<noteq> TP_Held_Closed \<and> tc_phase m \<noteq> TP_Failed_Restored"

definition touch_transition :: "touch \<Rightarrow> bool" where
  "touch_transition m \<longleftrightarrow> touch_critical m \<and> tc_phase m \<noteq> TP_Sleep_Requested"

definition touch_request :: "int \<Rightarrow> touch \<Rightarrow> bool \<times> touch" where
  "touch_request now m =
     (if tc_consumed m \<or> touch_critical m then (False, m)
      else (True, m\<lparr>tc_consumed := True, tc_phase := TP_Probe, tc_started := now, tc_entries := tc_entries m + 1,
        tc_revision := tc_revision m + 1\<rparr>))"

definition touch_restore :: "int \<Rightarrow> touch \<Rightarrow> touch" where
  "touch_restore now m =
     (if \<not> touch_critical m \<or> tc_restoring m \<or> tc_phase m = TP_Reboot_Pending then m
      else if \<not> tc_dirty m then m\<lparr>tc_phase := TP_Complete, tc_revision := tc_revision m + 1\<rparr>
      else m\<lparr>tc_restoring := True, tc_restore_started := now, tc_restore_deadline := now + 5000000, tc_lease_until := 0,
        tc_restores := tc_restores m + 1, tc_phase := TP_Handshake1, tc_revision := tc_revision m + 1\<rparr>)"

definition touch_fail :: "int \<Rightarrow> int \<Rightarrow> touch \<Rightarrow> touch" where
  "touch_fail now rc m =
     (let m = m\<lparr>tc_failed := True\<rparr>;
          m = (if tc_error m = 0 then m\<lparr>tc_error := rc, tc_error_phase := tc_phase m, tc_failed_echo := tc_echo m\<rparr> else m) in
      if tc_restoring m then
        m\<lparr>tc_restore_error := rc, tc_restore_error_phase := tc_phase m, tc_phase := TP_Reboot_Pending,
          tc_deadline := now + 1000000, tc_revision := tc_revision m + 1\<rparr>
      else if tc_dirty m then touch_restore now m
      else m\<lparr>tc_phase := TP_Failed_Restored, tc_revision := tc_revision m + 1\<rparr>)"

text \<open>The check of the restore deadline that \<open>tick\<close> and \<open>complete\<close> share.\<close>

definition restore_late :: "int \<Rightarrow> touch \<Rightarrow> bool" where
  "restore_late now m \<longleftrightarrow>
     tc_restoring m \<and> touch_critical m \<and> tc_phase m \<noteq> TP_Reboot_Pending \<and> now \<ge> tc_restore_deadline m"

definition restore_expire :: "int \<Rightarrow> touch \<Rightarrow> touch" where
  "restore_expire now m =
     (if tc_phase m = TP_Verify_Release \<and> tc_normal_verified m \<and> tc_report_valid m
      then m\<lparr>tc_phase := TP_Held_Closed, tc_restored := now, tc_revision := tc_revision m + 1\<rparr>
      else touch_fail now (-3) m)"

definition touch_tick :: "int \<Rightarrow> bool \<Rightarrow> touch \<Rightarrow> touch" where
  "touch_tick now restore_needed m =
     (let m = (if restore_needed \<or> (tc_phase m = TP_Sleep_Requested \<and> now \<ge> tc_lease_until m) then touch_restore now m else m);
          m = (if restore_late now m then restore_expire now m else m) in
      if tc_phase m = TP_Settle \<and> now \<ge> tc_deadline m
      then m\<lparr>tc_phase := (if tc_restoring m then TP_Verify_Release else TP_Sleep_Write), tc_revision := tc_revision m + 1\<rparr>
      else m)"

definition write_command :: "touch \<Rightarrow> u16" where
  "write_command m =
     (if tc_phase m = TP_Handshake1 \<or> tc_phase m = TP_Handshake2 then 0xD11E
      else if tc_phase m = TP_Mode_Write then (if tc_restoring m then 0xD109 else 0xD101)
      else if tc_phase m = TP_Sleep_Write then 0xD105 else 0)"

definition before_write :: "touch \<Rightarrow> touch" where
  "before_write m = m\<lparr>tc_last_command := write_command m, tc_dirty := True, tc_writes := tc_writes m + 1\<rparr>"

definition touch_advance :: "touch_phase \<Rightarrow> touch \<Rightarrow> touch" where
  "touch_advance p m = m\<lparr>tc_phase := p, tc_revision := tc_revision m + 1\<rparr>"

definition touch_complete :: "int \<Rightarrow> int \<Rightarrow> u8 \<Rightarrow> bool \<Rightarrow> touch \<Rightarrow> touch" where
  "touch_complete now rc observed released m0 =
     (let m = m0\<lparr>tc_last_i2c := rc\<rparr> in
      if rc \<noteq> 0 then touch_fail now rc m
      else if restore_late now m then restore_expire now m
      else case tc_phase m of
        TP_Probe \<Rightarrow> touch_advance TP_Handshake1 m
      | TP_Handshake1 \<Rightarrow> touch_advance TP_Handshake2 m
      | TP_Handshake2 \<Rightarrow> touch_advance TP_Handshake_Echo m
      | TP_Handshake_Echo \<Rightarrow>
          let m = m\<lparr>tc_echo := observed\<rparr> in
          if tc_echo m \<noteq> 0x1E then touch_fail now (-2) m else touch_advance TP_Mode_Write m
      | TP_Mode_Write \<Rightarrow> touch_advance TP_Mode_Echo m
      | TP_Mode_Echo \<Rightarrow>
          let m = m\<lparr>tc_echo := observed\<rparr> in
          if tc_echo m \<noteq> (if tc_restoring m then 0x09 else 0x01) then touch_fail now (-2) m
          else touch_advance TP_Settle (m\<lparr>tc_normal_verified := tc_restoring m, tc_deadline := now + 10000\<rparr>)
      | TP_Sleep_Write \<Rightarrow>
          touch_advance TP_Sleep_Requested (m\<lparr>tc_sleep_request := now, tc_lease_until := now + 120000000\<rparr>)
      | TP_Verify_Release \<Rightarrow>
          let m = m\<lparr>tc_report_valid := True\<rparr> in
          if \<not> released then m
          else touch_advance (if tc_failed m then TP_Failed_Restored else TP_Complete)
            (m\<lparr>tc_release_proven := True, tc_restored := now\<rparr>)
      | _ \<Rightarrow> m)"

section \<open>The task\<close>

text \<open>The shared state, and the commands that were sent to the controller.\<close>

record touch_world =
  tw_model :: touch
  tw_admission :: touch_admission
  tw_reserved :: bool
  tw_need :: bool
  tw_commands :: "u16 list"
  tw_restarts :: nat

definition touch_world0 :: touch_world where
  "touch_world0 = \<lparr>tw_model = touch0, tw_admission = \<lparr>ta_reserved = False, ta_in_flight = 0\<rparr>, tw_reserved = False,
     tw_need = False, tw_commands = [], tw_restarts = 0\<rparr>"

text \<open>\<open>OtaAdmission\<close>: an update that finds the controller reserved asks for a restore instead.\<close>

definition ota_enter :: "touch_world \<Rightarrow> bool \<times> touch_world" where
  "ota_enter w =
     (case enter_ota (tw_admission w) of (ok, a) \<Rightarrow>
        if ok then (True, w\<lparr>tw_admission := a\<rparr>) else (False, w\<lparr>tw_need := True\<rparr>))"

definition ota_leave :: "bool \<Rightarrow> touch_world \<Rightarrow> touch_world" where
  "ota_leave allowed w = (if allowed then w\<lparr>tw_admission := leave_ota (tw_admission w)\<rparr> else w)"

text \<open>\<open>request120\<close>; \<open>clear\<close> is the conjunction of the refusals before the lock, \<open>busy\<close> the check under it.\<close>

definition request120 :: "bool \<Rightarrow> bool \<Rightarrow> int \<Rightarrow> touch_world \<Rightarrow> bool \<times> touch_world" where
  "request120 clear busy now w =
     (if \<not> clear then (False, w)
      else if tc_consumed (tw_model w) then (False, w)
      else case reserve_touch busy (tw_admission w) of (ok, a) \<Rightarrow>
        if \<not> ok then (False, w)
        else case touch_request now (tw_model w) of (ok, m) \<Rightarrow>
          if \<not> ok then (False, w\<lparr>tw_admission := release_touch a\<rparr>)
          else (True, w\<lparr>tw_model := m, tw_admission := a, tw_reserved := True, tw_need := False\<rparr>))"

definition touch_off :: "touch_world \<Rightarrow> touch_world" where
  "touch_off w = w\<lparr>tw_need := True\<rparr>"

definition wake_requested :: "touch_world \<Rightarrow> touch_world" where
  "wake_requested w = (if tw_reserved w then w\<lparr>tw_need := True\<rparr> else w)"

text \<open>
  What one service call meets: the time, the lock state and conflict of the view, whether an update is busy, and, if it
  acts on the controller, when the action ends, its error, the echo byte and whether the finger was seen released.
\<close>

record touch_input =
  ti_now :: int
  ti_locked :: bool
  ti_conflict :: bool
  ti_ota_idle :: bool
  ti_done :: int
  ti_rc :: int
  ti_echo :: u8
  ti_released :: bool

text \<open>What a service does after the tick of the model, and the whole call.\<close>

definition touch_serve :: "touch_input \<Rightarrow> touch_world \<Rightarrow> touch_world" where
  "touch_serve i w =
     (let m = tw_model w in
      if \<not> touch_critical m then
        (if tw_reserved w then w\<lparr>tw_reserved := False, tw_admission := release_touch (tw_admission w)\<rparr> else w)
      else if tc_phase m = TP_Sleep_Requested \<or> tc_phase m = TP_Settle then w
      else if tc_phase m = TP_Reboot_Pending then
        (if ti_now i \<ge> tc_deadline m \<and> ta_reserved (tw_admission w) \<and> ta_in_flight (tw_admission w) = 0 \<and> ti_ota_idle i
         then w\<lparr>tw_restarts := tw_restarts w + 1\<rparr> else w)
      else
        let command = write_command m;
            w = (if command \<noteq> 0 then w\<lparr>tw_model := before_write m, tw_commands := tw_commands w @ [command]\<rparr>
              else w\<lparr>tw_model := m\<lparr>tc_reads := tc_reads m + 1\<rparr>\<rparr>);
            echo = (if command = 0 \<and> (tc_phase m = TP_Handshake_Echo \<or> tc_phase m = TP_Mode_Echo) then ti_echo i else 0);
            released = (command = 0 \<and> tc_phase m = TP_Verify_Release \<and> ti_released i)
        in w\<lparr>tw_model := touch_complete (ti_done i) (ti_rc i) echo released (tw_model w)\<rparr>)"

definition touch_service :: "touch_input \<Rightarrow> touch_world \<Rightarrow> touch_world" where
  "touch_service i w = touch_serve i (w\<lparr>tw_need := False,
     tw_model := touch_tick (ti_now i) (tw_need w \<or> \<not> ti_locked i \<or> ti_conflict i) (tw_model w)\<rparr>)"

datatype touch_event = TE_Request bool bool int | TE_Off | TE_Wake | TE_Ota_Enter | TE_Ota_Leave bool | TE_Service touch_input

definition touch_step :: "touch_world \<Rightarrow> touch_event \<Rightarrow> touch_world" where
  "touch_step w e =
     (case e of
        TE_Request clear busy now \<Rightarrow> snd (request120 clear busy now w)
      | TE_Off \<Rightarrow> touch_off w
      | TE_Wake \<Rightarrow> wake_requested w
      | TE_Ota_Enter \<Rightarrow> snd (ota_enter w)
      | TE_Ota_Leave allowed \<Rightarrow> ota_leave allowed w
      | TE_Service i \<Rightarrow> touch_service i w)"

section \<open>The commands of a trial\<close>

definition entry_commands :: "u16 list" where "entry_commands = [0xD11E, 0xD11E, 0xD101, 0xD105]"
definition restore_commands :: "u16 list" where "restore_commands = [0xD11E, 0xD11E, 0xD109]"

text \<open>How many commands of its half a run has sent when it is in a phase, and when it has just acted in it.\<close>

definition sent_in :: "touch_phase \<Rightarrow> nat" where
  "sent_in p = (case p of TP_Handshake2 \<Rightarrow> 1 | TP_Handshake_Echo \<Rightarrow> 2 | TP_Mode_Write \<Rightarrow> 2 | TP_Mode_Echo \<Rightarrow> 3
     | TP_Settle \<Rightarrow> 3 | TP_Sleep_Write \<Rightarrow> 3 | TP_Verify_Release \<Rightarrow> 3 | TP_Sleep_Requested \<Rightarrow> 4 | _ \<Rightarrow> 0)"

definition sends_in :: "touch_phase \<Rightarrow> nat" where
  "sends_in p = (if p \<in> {TP_Handshake1, TP_Handshake2, TP_Mode_Write, TP_Sleep_Write} then 1 else 0)"

definition entry_phases :: "touch_phase set" where
  "entry_phases = {TP_Probe, TP_Handshake1, TP_Handshake2, TP_Handshake_Echo, TP_Mode_Write, TP_Mode_Echo, TP_Settle,
     TP_Sleep_Write, TP_Sleep_Requested}"

definition restore_phases :: "touch_phase set" where
  "restore_phases = {TP_Handshake1, TP_Handshake2, TP_Handshake_Echo, TP_Mode_Write, TP_Mode_Echo, TP_Settle, TP_Verify_Release}"

definition final_phases :: "touch_phase set" where
  "final_phases = {TP_Complete, TP_Held_Closed, TP_Failed_Restored}"

lemmas touch_sets = entry_phases_def restore_phases_def final_phases_def

text \<open>The first half, with \<open>extra\<close> commands beyond those of the phase.\<close>

definition entering :: "nat \<Rightarrow> touch \<Rightarrow> u16 list \<Rightarrow> bool" where
  "entering extra m L \<longleftrightarrow> \<not> tc_restoring m \<and> tc_restores m = 0 \<and> \<not> tc_normal_verified m \<and> tc_dirty m = (L \<noteq> []) \<and>
     tc_phase m \<in> entry_phases \<and> L = take (sent_in (tc_phase m) + extra) entry_commands"

definition restoring :: "nat \<Rightarrow> touch \<Rightarrow> u16 list \<Rightarrow> bool" where
  "restoring extra m L \<longleftrightarrow> tc_restoring m \<and> tc_restores m = 1 \<and> tc_dirty m \<and> tc_phase m \<in> restore_phases \<and>
     (tc_normal_verified m \<longrightarrow> sent_in (tc_phase m) = 3) \<and>
     (tc_phase m \<in> {TP_Settle, TP_Verify_Release} \<longrightarrow> tc_normal_verified m) \<and>
     (\<exists>k. 1 \<le> k \<and> k \<le> 4 \<and> L = take k entry_commands @ take (sent_in (tc_phase m) + extra) restore_commands)"

definition untouched :: "touch \<Rightarrow> u16 list \<Rightarrow> bool" where
  "untouched m L \<longleftrightarrow> \<not> tc_restoring m \<and> tc_restores m = 0 \<and> \<not> tc_dirty m \<and>
     \<not> tc_normal_verified m \<and> L = [] \<and> tc_phase m \<in> {TP_Off, TP_Complete, TP_Failed_Restored}"

definition restored :: "touch \<Rightarrow> u16 list \<Rightarrow> bool" where
  "restored m L \<longleftrightarrow> tc_restoring m \<and> tc_restores m = 1 \<and> tc_dirty m \<and> tc_normal_verified m \<and> tc_phase m \<in> final_phases \<and>
     (\<exists>k. 1 \<le> k \<and> k \<le> 4 \<and> L = take k entry_commands @ restore_commands)"

definition stuck :: "touch \<Rightarrow> u16 list \<Rightarrow> bool" where
  "stuck m L \<longleftrightarrow> tc_restoring m \<and> tc_restores m = 1 \<and> tc_dirty m \<and> tc_failed m \<and> tc_phase m = TP_Reboot_Pending \<and>
     (\<exists>k j. 1 \<le> k \<and> k \<le> 4 \<and> j \<le> 3 \<and> L = take k entry_commands @ take j restore_commands)"

definition trial_ok :: "touch \<Rightarrow> u16 list \<Rightarrow> bool" where
  "trial_ok m L \<longleftrightarrow> (untouched m L \<or> entering 0 m L \<or> restoring 0 m L \<or> restored m L \<or> stuck m L) \<and>
     tc_entries m = (if tc_phase m = TP_Off then 0 else 1) \<and> tc_consumed m = (tc_phase m \<noteq> TP_Off)"

lemmas trial_defs = untouched_def entering_def restoring_def restored_def stuck_def

text \<open>A failure or a restore request in the first half starts the restore, or ends an untouched trial.\<close>

lemma restore_entering:
  assumes "entering x m L" "sent_in (tc_phase m) + x \<le> 4"
  shows "untouched (touch_restore now m) L \<or> restoring 0 (touch_restore now m) L"
proof (cases "tc_dirty m")
  case False
  then show ?thesis using assms by (auto simp: touch_restore_def touch_critical_def trial_defs touch_sets)
next
  case True
  then have "1 \<le> sent_in (tc_phase m) + x" using assms(1) by (cases "sent_in (tc_phase m) + x") (auto simp: entering_def)
  then have "restoring 0 (touch_restore now m) L"
    using assms True by (auto simp: touch_restore_def touch_critical_def trial_defs touch_sets sent_in_def)
  then show ?thesis by blast
qed

lemma fail_entering:
  assumes "entering x m L" "sent_in (tc_phase m) + x \<le> 4"
  shows "untouched (touch_fail now rc m) L \<or> restoring 0 (touch_fail now rc m) L"
proof -
  define m' where "m' = (let m = m\<lparr>tc_failed := True\<rparr> in
    if tc_error m = 0 then m\<lparr>tc_error := rc, tc_error_phase := tc_phase m, tc_failed_echo := tc_echo m\<rparr> else m)"
  have e: "entering x m' L" "tc_phase m' = tc_phase m" "tc_dirty m' = tc_dirty m" "\<not> tc_restoring m'"
    using assms(1) by (simp_all add: m'_def entering_def Let_def)
  have f: "touch_fail now rc m = (if tc_dirty m' then touch_restore now m'
      else m'\<lparr>tc_phase := TP_Failed_Restored, tc_revision := tc_revision m' + 1\<rparr>)"
    using assms(1) by (simp add: touch_fail_def m'_def entering_def Let_def)
  show ?thesis
  proof (cases "tc_dirty m'")
    case True
    then show ?thesis using restore_entering[OF e(1)] assms(2) e(2) f by simp
  next
    case False
    then show ?thesis using e f by (auto simp: trial_defs)
  qed
qed

lemma fail_restoring:
  assumes "restoring x m L" "sent_in (tc_phase m) + x \<le> 3"
  shows "stuck (touch_fail now rc m) L"
  using assms by (auto simp: touch_fail_def trial_defs Let_def)

lemma expire_restoring:
  assumes "restoring x m L" "sent_in (tc_phase m) + x \<le> 3"
  shows "restored (restore_expire now m) L \<or> stuck (restore_expire now m) L"
proof (cases "tc_phase m = TP_Verify_Release \<and> tc_normal_verified m \<and> tc_report_valid m")
  case True
  then show ?thesis using assms by (auto simp: restore_expire_def trial_defs touch_sets sent_in_def restore_commands_def)
next
  case False
  then show ?thesis using fail_restoring[OF assms] by (auto simp: restore_expire_def)
qed

section \<open>Every call keeps the trial in order\<close>

lemma trial_frame [simp]:
  "tc_entries (touch_restore now m) = tc_entries m" "tc_consumed (touch_restore now m) = tc_consumed m"
  "tc_entries (touch_fail now rc m) = tc_entries m" "tc_consumed (touch_fail now rc m) = tc_consumed m"
  "tc_entries (restore_expire now m) = tc_entries m" "tc_consumed (restore_expire now m) = tc_consumed m"
  by (simp_all add: touch_restore_def touch_fail_def restore_expire_def Let_def)

lemma settle_step:
  fixes now :: int
  assumes "untouched m L \<or> entering 0 m L \<or> restoring 0 m L \<or> restored m L \<or> stuck m L"
  defines "m' \<equiv> (if tc_phase m = TP_Settle \<and> now \<ge> tc_deadline m
      then m\<lparr>tc_phase := (if tc_restoring m then TP_Verify_Release else TP_Sleep_Write), tc_revision := tc_revision m + 1\<rparr>
      else m)"
  shows "(untouched m' L \<or> entering 0 m' L \<or> restoring 0 m' L \<or> restored m' L \<or> stuck m' L) \<and>
    (tc_phase m' = TP_Off) = (tc_phase m = TP_Off) \<and> tc_entries m' = tc_entries m \<and> tc_consumed m' = tc_consumed m"
proof (cases "tc_phase m = TP_Settle \<and> now \<ge> tc_deadline m")
  case True
  then have "entering 0 m L \<or> restoring 0 m L" using assms(1) by (auto simp: trial_defs touch_sets)
  then show ?thesis using True unfolding m'_def by (auto simp: trial_defs touch_sets sent_in_def)
next
  case False
  then show ?thesis using assms by auto
qed

lemma trial_tick:
  assumes "trial_ok m L"
  shows "trial_ok (touch_tick now need m) L"
proof -
  let ?inv = "\<lambda>m. untouched m L \<or> entering 0 m L \<or> restoring 0 m L \<or> restored m L \<or> stuck m L"
  let ?frame = "\<lambda>m'. tc_entries m' = tc_entries m \<and> tc_consumed m' = tc_consumed m \<and> (tc_phase m' = TP_Off) = (tc_phase m = TP_Off)"
  define m1 where "m1 = (if need \<or> (tc_phase m = TP_Sleep_Requested \<and> now \<ge> tc_lease_until m) then touch_restore now m else m)"
  define m2 where "m2 = (if restore_late now m1 then restore_expire now m1 else m1)"
  have sent: "sent_in p \<le> 4" for p by (cases p) (simp_all add: sent_in_def)
  have sent3: "p \<in> restore_phases \<Longrightarrow> sent_in p \<le> 3" for p by (cases p) (simp_all add: sent_in_def restore_phases_def)
  have i: "?inv m" using assms by (simp add: trial_ok_def)
  have "?inv (touch_restore now m)"
  proof (cases "entering 0 m L")
    case True
    then show ?thesis using restore_entering[of 0 m L now] sent[of "tc_phase m"] by auto
  next
    case False
    then have "touch_restore now m = m" using i by (auto simp: touch_restore_def touch_critical_def trial_defs touch_sets)
    then show ?thesis using i by simp
  qed
  moreover have "(tc_phase (touch_restore now m) = TP_Off) = (tc_phase m = TP_Off)"
    by (simp add: touch_restore_def touch_critical_def)
  ultimately have 1: "?inv m1" "?frame m1" using i by (simp_all add: m1_def)
  have 2: "?inv m2" "?frame m2"
  proof -
    have "restoring 0 m1 L" if "restore_late now m1"
      using that 1(1) by (auto simp: restore_late_def touch_critical_def trial_defs touch_sets)
    then have "restored m2 L \<or> stuck m2 L" if "restore_late now m1"
      using that expire_restoring[of 0 m1 L now] sent3[of "tc_phase m1"] by (auto simp: m2_def restoring_def)
    then show "?inv m2" using 1(1) by (cases "restore_late now m1") (auto simp: m2_def)
    have "tc_phase m1 \<noteq> TP_Off" if "restore_late now m1" using that by (auto simp: restore_late_def touch_critical_def)
    moreover have "tc_phase m2 \<noteq> TP_Off" if "restore_late now m1"
      using that \<open>restore_late now m1 \<Longrightarrow> restored m2 L \<or> stuck m2 L\<close> by (auto simp: trial_defs touch_sets)
    ultimately show "?frame m2" using 1(2) by (cases "restore_late now m1") (auto simp: m2_def)
  qed
  have "touch_tick now need m = (if tc_phase m2 = TP_Settle \<and> now \<ge> tc_deadline m2
      then m2\<lparr>tc_phase := (if tc_restoring m2 then TP_Verify_Release else TP_Sleep_Write), tc_revision := tc_revision m2 + 1\<rparr>
      else m2)"
    by (simp add: touch_tick_def m1_def m2_def Let_def)
  then show ?thesis using settle_step[OF 2(1), of now] 2(2) assms by (simp add: trial_ok_def)
qed

lemma trial_reports [simp]:
  "entering x (m\<lparr>tc_last_i2c := rc\<rparr>) L = entering x m L" "restoring x (m\<lparr>tc_last_i2c := rc\<rparr>) L = restoring x m L"
  "entering x (m\<lparr>tc_echo := e\<rparr>) L = entering x m L" "restoring x (m\<lparr>tc_echo := e\<rparr>) L = restoring x m L"
  by (simp_all add: entering_def restoring_def)

lemma sent_bounds: "p \<in> entry_phases \<Longrightarrow> sent_in p + sends_in p \<le> 4" "p \<in> restore_phases \<Longrightarrow> sent_in p + sends_in p \<le> 3"
  by (cases p; simp add: sent_in_def sends_in_def touch_sets)+

lemma complete_success:
  assumes "\<not> restore_late now (m\<lparr>tc_last_i2c := 0\<rparr>)"
  defines "n \<equiv> m\<lparr>tc_last_i2c := 0\<rparr>"
  shows "tc_phase m = TP_Probe \<Longrightarrow> touch_complete now 0 obs rel m = touch_advance TP_Handshake1 n"
    "tc_phase m = TP_Handshake1 \<Longrightarrow> touch_complete now 0 obs rel m = touch_advance TP_Handshake2 n"
    "tc_phase m = TP_Handshake2 \<Longrightarrow> touch_complete now 0 obs rel m = touch_advance TP_Handshake_Echo n"
    "tc_phase m = TP_Handshake_Echo \<Longrightarrow> touch_complete now 0 obs rel m =
      (if obs \<noteq> 0x1E then touch_fail now (-2) (n\<lparr>tc_echo := obs\<rparr>) else touch_advance TP_Mode_Write (n\<lparr>tc_echo := obs\<rparr>))"
    "tc_phase m = TP_Mode_Write \<Longrightarrow> touch_complete now 0 obs rel m = touch_advance TP_Mode_Echo n"
    "tc_phase m = TP_Mode_Echo \<Longrightarrow> touch_complete now 0 obs rel m =
      (if obs \<noteq> (if tc_restoring m then 0x09 else 0x01) then touch_fail now (-2) (n\<lparr>tc_echo := obs\<rparr>)
       else touch_advance TP_Settle (n\<lparr>tc_echo := obs, tc_normal_verified := tc_restoring m, tc_deadline := now + 10000\<rparr>))"
    "tc_phase m = TP_Sleep_Write \<Longrightarrow> touch_complete now 0 obs rel m =
      touch_advance TP_Sleep_Requested (n\<lparr>tc_sleep_request := now, tc_lease_until := now + 120000000\<rparr>)"
    "tc_phase m = TP_Verify_Release \<Longrightarrow> touch_complete now 0 obs rel m =
      (if \<not> rel then n\<lparr>tc_report_valid := True\<rparr>
       else touch_advance (if tc_failed m then TP_Failed_Restored else TP_Complete)
         (n\<lparr>tc_report_valid := True, tc_release_proven := True, tc_restored := now\<rparr>))"
  using assms(1) unfolding n_def by (simp_all add: touch_complete_def Let_def)

text \<open>The steps inside each half.\<close>

lemma entering_advance:
  "entering x m L \<Longrightarrow> p \<in> entry_phases \<Longrightarrow> sent_in p = sent_in (tc_phase m) + x \<Longrightarrow> entering 0 (touch_advance p m) L"
  by (simp add: entering_def touch_advance_def)

lemma restoring_advance:
  "restoring x m L \<Longrightarrow> p \<in> restore_phases \<Longrightarrow> sent_in p = sent_in (tc_phase m) + x \<Longrightarrow>
     p \<in> {TP_Settle, TP_Verify_Release} \<longrightarrow> tc_normal_verified m \<Longrightarrow> tc_normal_verified m \<longrightarrow> sent_in p = 3 \<Longrightarrow>
     restoring 0 (touch_advance p m) L"
  by (simp add: restoring_def touch_advance_def)

lemma entering_fields [simp]:
  "entering x (m\<lparr>tc_sleep_request := a\<rparr>) L = entering x m L" "entering x (m\<lparr>tc_lease_until := a\<rparr>) L = entering x m L"
  "entering x (m\<lparr>tc_deadline := a\<rparr>) L = entering x m L"
  "\<not> tc_normal_verified m \<Longrightarrow> entering x (m\<lparr>tc_normal_verified := False\<rparr>) L = entering x m L"
  by (simp_all add: entering_def)

text \<open>The end of an action in the first half.\<close>

lemma complete_entering:
  assumes e: "entering (sends_in (tc_phase m)) m L" and p: "tc_phase m \<notin> {TP_Sleep_Requested, TP_Settle}"
  shows "untouched (touch_complete now rc obs rel m) L \<or> entering 0 (touch_complete now rc obs rel m) L \<or>
    restoring 0 (touch_complete now rc obs rel m) L"
proof -
  let ?m = "m\<lparr>tc_last_i2c := 0\<rparr>" and ?x = "sends_in (tc_phase m)"
  have b: "sent_in (tc_phase m) + ?x \<le> 4" using e sent_bounds(1) by (auto simp: entering_def)
  show ?thesis
  proof (cases "rc = 0")
    case False
    then have "touch_complete now rc obs rel m = touch_fail now rc (m\<lparr>tc_last_i2c := rc\<rparr>)" by (simp add: touch_complete_def)
    then show ?thesis using fail_entering[of ?x "m\<lparr>tc_last_i2c := rc\<rparr>" L now rc] e b by auto
  next
    case True
    have r: "\<not> tc_restoring m" "\<not> tc_normal_verified m" using e by (simp_all add: entering_def)
    then have late: "\<not> restore_late now ?m" by (simp add: restore_late_def)
    note S = complete_success[OF late]
    have bad: "untouched (touch_fail now c (?m\<lparr>tc_echo := obs\<rparr>)) L \<or> restoring 0 (touch_fail now c (?m\<lparr>tc_echo := obs\<rparr>)) L" for c
      using fail_entering[of ?x "?m\<lparr>tc_echo := obs\<rparr>" L now c] e b by simp
    have ok: "entering 0 (touch_advance q ?m) L" "entering 0 (touch_advance q (?m\<lparr>tc_echo := obs\<rparr>)) L"
      if "q \<in> entry_phases" "sent_in q = sent_in (tc_phase m) + ?x" for q
      using entering_advance[of ?x _ L q] e that by simp_all
    have "tc_phase m \<in> {TP_Probe, TP_Handshake1, TP_Handshake2, TP_Handshake_Echo, TP_Mode_Write, TP_Mode_Echo, TP_Sleep_Write}"
      using e p by (auto simp: entering_def entry_phases_def)
    then consider "tc_phase m \<in> {TP_Probe, TP_Handshake1, TP_Handshake2, TP_Mode_Write}" | "tc_phase m = TP_Handshake_Echo"
      | "tc_phase m = TP_Mode_Echo" | "tc_phase m = TP_Sleep_Write" by blast
    then show ?thesis
    proof cases
      case 1
      then show ?thesis using S(1-3,5) ok(1) True by (auto simp: sent_in_def sends_in_def entry_phases_def)
    next
      case 2
      then have "entering 0 (touch_advance TP_Mode_Write (?m\<lparr>tc_echo := obs\<rparr>)) L"
        by (intro ok(2)) (simp_all add: sent_in_def sends_in_def entry_phases_def)
      moreover have "touch_complete now 0 obs rel m = touch_fail now (-2) (?m\<lparr>tc_echo := obs\<rparr>) \<or>
          touch_complete now 0 obs rel m = touch_advance TP_Mode_Write (?m\<lparr>tc_echo := obs\<rparr>)"
        unfolding S(4)[OF 2] by (cases "obs \<noteq> 0x1E") (simp_all only: if_True if_False simp_thms)
      ultimately show ?thesis using bad[of "-2"] unfolding True by (elim disjE) simp_all
    next
      case 3
      have "entering 0 (touch_advance TP_Settle (?m\<lparr>tc_echo := obs, tc_normal_verified := False, tc_deadline := now + 10000\<rparr>)) L"
        by (rule entering_advance[where x = ?x]) (use e r 3 in \<open>simp_all add: sent_in_def sends_in_def entry_phases_def\<close>)
      moreover have "touch_complete now 0 obs rel m = touch_fail now (-2) (?m\<lparr>tc_echo := obs\<rparr>) \<or>
          touch_complete now 0 obs rel m =
            touch_advance TP_Settle (?m\<lparr>tc_echo := obs, tc_normal_verified := False, tc_deadline := now + 10000\<rparr>)"
        unfolding S(6)[OF 3] using r by (cases "obs \<noteq> 0x01") (simp_all only: if_True if_False simp_thms)
      ultimately show ?thesis using bad[of "-2"] unfolding True by (elim disjE) simp_all
    next
      case 4
      have "entering 0 (touch_advance TP_Sleep_Requested (?m\<lparr>tc_sleep_request := now, tc_lease_until := now + 120000000\<rparr>)) L"
        by (rule entering_advance[where x = ?x]) (use e 4 in \<open>simp_all add: sent_in_def sends_in_def entry_phases_def\<close>)
      then show ?thesis using S(7)[OF 4] True by simp
    qed
  qed
qed

text \<open>The end of an action in the second half.\<close>

lemma complete_restoring:
  assumes e: "restoring (sends_in (tc_phase m)) m L" and p: "tc_phase m \<noteq> TP_Settle"
  shows "restoring 0 (touch_complete now rc obs rel m) L \<or> restored (touch_complete now rc obs rel m) L \<or>
    stuck (touch_complete now rc obs rel m) L"
proof -
  let ?x = "sends_in (tc_phase m)"
  have b: "sent_in (tc_phase m) + ?x \<le> 3" using e sent_bounds(2) by (auto simp: restoring_def)
  show ?thesis
  proof (cases "rc = 0 \<and> \<not> restore_late now (m\<lparr>tc_last_i2c := rc\<rparr>)")
    case False
    then have "touch_complete now rc obs rel m =
        (if rc \<noteq> 0 then touch_fail now rc (m\<lparr>tc_last_i2c := rc\<rparr>) else restore_expire now (m\<lparr>tc_last_i2c := rc\<rparr>))"
      by (auto simp: touch_complete_def)
    then show ?thesis
      using fail_restoring[of ?x "m\<lparr>tc_last_i2c := rc\<rparr>" L now rc] expire_restoring[of ?x "m\<lparr>tc_last_i2c := rc\<rparr>" L now] e b by auto
  next
    case True
    let ?m = "m\<lparr>tc_last_i2c := 0\<rparr>"
    have rc: "rc = 0" and late: "\<not> restore_late now ?m" using True by auto
    note S = complete_success[OF late]
    have bad: "stuck (touch_fail now c (?m\<lparr>tc_echo := obs\<rparr>)) L" for c
      using fail_restoring[of ?x "?m\<lparr>tc_echo := obs\<rparr>" L now c] e b by simp
    have r: "tc_restoring m" using e by (simp add: restoring_def)
    have nv: "tc_phase m \<noteq> TP_Mode_Echo \<Longrightarrow> tc_phase m \<noteq> TP_Verify_Release \<Longrightarrow> \<not> tc_normal_verified m"
      using e p by (auto simp: restoring_def restore_phases_def sent_in_def)
    have "tc_phase m \<in> {TP_Handshake1, TP_Handshake2, TP_Handshake_Echo, TP_Mode_Write, TP_Mode_Echo, TP_Verify_Release}"
      using e p by (auto simp: restoring_def restore_phases_def)
    then consider "tc_phase m \<in> {TP_Handshake1, TP_Handshake2, TP_Mode_Write}" | "tc_phase m = TP_Handshake_Echo"
      | "tc_phase m = TP_Mode_Echo" | "tc_phase m = TP_Verify_Release" by blast
    then show ?thesis
    proof cases
      case 1
      have "restoring 0 (touch_advance q ?m) L"
        if "q \<in> restore_phases - {TP_Settle, TP_Verify_Release}" "sent_in q = sent_in (tc_phase m) + ?x" for q
        by (rule restoring_advance[where x = ?x]) (use e nv 1 that in auto)
      then show ?thesis using 1 S(2,3,5) rc by (auto simp: sent_in_def sends_in_def restore_phases_def)
    next
      case 2
      have "restoring 0 (touch_advance TP_Mode_Write (?m\<lparr>tc_echo := obs\<rparr>)) L"
        by (rule restoring_advance[where x = ?x]) (use e nv 2 in \<open>auto simp: sent_in_def sends_in_def restore_phases_def\<close>)
      moreover have "touch_complete now 0 obs rel m = touch_fail now (-2) (?m\<lparr>tc_echo := obs\<rparr>) \<or>
          touch_complete now 0 obs rel m = touch_advance TP_Mode_Write (?m\<lparr>tc_echo := obs\<rparr>)"
        unfolding S(4)[OF 2] by (cases "obs \<noteq> 0x1E") (simp_all only: if_True if_False simp_thms)
      ultimately show ?thesis using bad[of "-2"] unfolding rc by (elim disjE) simp_all
    next
      case 3
      have "restoring ?x (?m\<lparr>tc_echo := obs, tc_normal_verified := True, tc_deadline := now + 10000\<rparr>) L"
        using e 3 by (simp add: restoring_def sent_in_def)
      then have "restoring 0 (touch_advance TP_Settle (?m\<lparr>tc_echo := obs, tc_normal_verified := True, tc_deadline := now + 10000\<rparr>)) L"
        by (rule restoring_advance) (use 3 in \<open>simp_all add: sent_in_def sends_in_def restore_phases_def\<close>)
      moreover have "touch_complete now 0 obs rel m = touch_fail now (-2) (?m\<lparr>tc_echo := obs\<rparr>) \<or>
          touch_complete now 0 obs rel m =
            touch_advance TP_Settle (?m\<lparr>tc_echo := obs, tc_normal_verified := True, tc_deadline := now + 10000\<rparr>)"
        unfolding S(6)[OF 3] using r by (cases "obs \<noteq> 0x09") (simp_all only: if_True if_False simp_thms)
      ultimately show ?thesis using bad[of "-2"] unfolding rc by (elim disjE) simp_all
    next
      case 4
      have v: "take (sent_in TP_Verify_Release + 0) restore_commands = restore_commands"
        by (simp add: sent_in_def restore_commands_def)
      from 4 have x: "?x = 0" by (simp add: sends_in_def)
      have o: "tc_restores m = 1" "tc_dirty m" "tc_normal_verified m"
        "\<exists>k. 1 \<le> k \<and> k \<le> 4 \<and> L = take k entry_commands @ restore_commands"
        using e[unfolded restoring_def 4 x[unfolded 4] v] by blast+
      from x have "restoring 0 (?m\<lparr>tc_report_valid := True\<rparr>) L" using e by (simp add: restoring_def)
      moreover have "restored (touch_advance q (?m\<lparr>tc_report_valid := True, tc_release_proven := True, tc_restored := now\<rparr>)) L"
        if "q \<in> final_phases" for q
        using o r that by (simp add: restored_def touch_advance_def)
      ultimately show ?thesis using S(8)[OF 4] rc by (auto simp: final_phases_def)
    qed
  qed
qed

lemma complete_frame:
  "tc_entries (touch_complete now rc obs rel m) = tc_entries m \<and> tc_consumed (touch_complete now rc obs rel m) = tc_consumed m"
  by (simp add: touch_complete_def touch_advance_def Let_def split: touch_phase.split)

lemma fail_not_off: "tc_phase m \<noteq> TP_Off \<Longrightarrow> tc_phase (touch_fail now rc m) \<noteq> TP_Off"
  by (simp add: touch_fail_def touch_restore_def Let_def)

lemma complete_not_off:
  assumes "tc_phase m \<noteq> TP_Off"
  shows "tc_phase (touch_complete now rc obs rel m) \<noteq> TP_Off"
proof -
  have f: "tc_phase (touch_fail now c (m\<lparr>tc_last_i2c := r\<rparr>)) \<noteq> TP_Off"
    "tc_phase (touch_fail now c (m\<lparr>tc_last_i2c := r, tc_echo := obs\<rparr>)) \<noteq> TP_Off" for c r
    using assms fail_not_off by simp_all
  then have g: "tc_phase (restore_expire now (m\<lparr>tc_last_i2c := r\<rparr>)) \<noteq> TP_Off" for r by (simp add: restore_expire_def)
  show ?thesis
    using assms f g by (cases "tc_phase m") (simp_all add: touch_complete_def touch_advance_def Let_def)
qed

section \<open>The task keeps the trial in order\<close>

definition touch_inv :: "touch_world \<Rightarrow> bool" where
  "touch_inv w \<longleftrightarrow> trial_ok (tw_model w) (tw_commands w) \<and> tw_reserved w = ta_reserved (tw_admission w) \<and>
     (touch_critical (tw_model w) \<longrightarrow> tw_reserved w) \<and> (tw_reserved w \<longrightarrow> ta_in_flight (tw_admission w) = 0) \<and>
     (tw_restarts w > 0 \<longrightarrow> tc_phase (tw_model w) = TP_Reboot_Pending)"

lemma trial_off: "trial_ok m L \<Longrightarrow> tc_phase m = TP_Off \<Longrightarrow> L = [] \<and> untouched m L"
  by (auto simp: trial_ok_def trial_defs touch_sets)

lemma inv_request: "touch_inv w \<Longrightarrow> touch_inv (snd (request120 clear busy now w))"
proof (cases "clear \<and> \<not> tc_consumed (tw_model w) \<and> fst (reserve_touch busy (tw_admission w))")
  case False
  then show "touch_inv w \<Longrightarrow> ?thesis" by (auto simp: request120_def split: prod.splits)
next
  case True
  assume i: "touch_inv w"
  have a: "reserve_touch busy (tw_admission w) = (True, (tw_admission w)\<lparr>ta_reserved := True\<rparr>)"
    "ta_in_flight (tw_admission w) = 0" "\<not> ta_reserved (tw_admission w)"
    using True by (auto simp: reserve_touch_def split: if_splits)
  have off: "tc_phase (tw_model w) = TP_Off" "tw_commands w = []" "untouched (tw_model w) []" "tc_entries (tw_model w) = 0"
    using i True trial_off[of "tw_model w" "tw_commands w"] by (auto simp: touch_inv_def trial_ok_def)
  then have "tw_restarts w = 0" using i by (auto simp: touch_inv_def)
  then show ?thesis
    using True a off by (simp add: request120_def touch_request_def touch_critical_def touch_inv_def trial_ok_def entering_def
        untouched_def entry_phases_def sent_in_def)
qed

lemma sends_restoring:
  assumes r: "restoring 0 m L"
    and p: "tc_phase m \<in> {TP_Handshake1, TP_Handshake2, TP_Handshake_Echo, TP_Mode_Write, TP_Mode_Echo, TP_Verify_Release}"
  shows "if write_command m \<noteq> 0 then restoring (sends_in (tc_phase m)) (before_write m) (L @ [write_command m])
    else restoring (sends_in (tc_phase m)) (m\<lparr>tc_reads := c\<rparr>) L"
proof -
  have t: "tc_restoring m" using r by (simp add: restoring_def)
  have k: "take (sent_in (tc_phase m)) restore_commands @ (if write_command m \<noteq> 0 then [write_command m] else []) =
      take (sent_in (tc_phase m) + sends_in (tc_phase m)) restore_commands"
    using p t by (auto simp: write_command_def sent_in_def sends_in_def restore_commands_def)
  obtain j where j: "1 \<le> j" "j \<le> 4" "L = take j entry_commands @ take (sent_in (tc_phase m) + 0) restore_commands"
    using r unfolding restoring_def by blast
  have "\<exists>j. 1 \<le> j \<and> j \<le> 4 \<and> L @ (if write_command m \<noteq> 0 then [write_command m] else []) =
      take j entry_commands @ take (sent_in (tc_phase m) + sends_in (tc_phase m)) restore_commands"
    using j k by (intro exI[of _ j]) simp
  then show ?thesis using r by (cases "write_command m = 0") (simp_all add: restoring_def before_write_def)
qed

lemma inv_service_act:
  assumes t: "trial_ok m L" and c: "touch_critical m"
    and p: "tc_phase m \<notin> {TP_Sleep_Requested, TP_Settle, TP_Reboot_Pending}"
  defines "cmd \<equiv> write_command m"
  shows "trial_ok (touch_complete now rc obs rel (if cmd \<noteq> 0 then before_write m else m\<lparr>tc_reads := tc_reads m + 1\<rparr>))
    (if cmd \<noteq> 0 then L @ [cmd] else L)"
proof -
  let ?m = "if cmd \<noteq> 0 then before_write m else m\<lparr>tc_reads := tc_reads m + 1\<rparr>" and ?L = "if cmd \<noteq> 0 then L @ [cmd] else L"
  have ph: "tc_phase ?m = tc_phase m" and fr: "tc_entries ?m = tc_entries m" "tc_consumed ?m = tc_consumed m"
    by (simp_all add: before_write_def)
  have en: "tc_entries m = 1" "tc_consumed m" using t c by (auto simp: trial_ok_def touch_critical_def)
  have "\<not> untouched m L" "\<not> restored m L" "\<not> stuck m L"
    using c p by (auto simp: untouched_def restored_def stuck_def touch_critical_def final_phases_def)
  then consider "entering 0 m L" | "restoring 0 m L" using t unfolding trial_ok_def by blast
  then have "untouched (touch_complete now rc obs rel ?m) ?L \<or> entering 0 (touch_complete now rc obs rel ?m) ?L \<or>
      restoring 0 (touch_complete now rc obs rel ?m) ?L \<or> restored (touch_complete now rc obs rel ?m) ?L \<or>
      stuck (touch_complete now rc obs rel ?m) ?L"
  proof cases
    case 1
    then have "tc_phase m \<in> {TP_Probe, TP_Handshake1, TP_Handshake2, TP_Handshake_Echo, TP_Mode_Write, TP_Mode_Echo, TP_Sleep_Write}"
      using p by (auto simp: entering_def entry_phases_def)
    then have "entering (sends_in (tc_phase ?m)) ?m ?L"
      using 1 unfolding ph
      by (auto simp: entering_def cmd_def write_command_def before_write_def sent_in_def sends_in_def entry_commands_def entry_phases_def)
    from complete_entering[OF this] show ?thesis using p unfolding ph by blast
  next
    case 2
    then have "tc_phase m \<in> {TP_Handshake1, TP_Handshake2, TP_Handshake_Echo, TP_Mode_Write, TP_Mode_Echo, TP_Verify_Release}"
      using p by (auto simp: restoring_def restore_phases_def)
    then have "restoring (sends_in (tc_phase ?m)) ?m ?L"
      using sends_restoring[OF 2, of "tc_reads m + 1"] ph unfolding cmd_def
      by (cases "write_command m = 0") (simp_all add: cmd_def)
    from complete_restoring[OF this] show ?thesis using p unfolding ph by blast
  qed
  moreover have "tc_phase (touch_complete now rc obs rel ?m) \<noteq> TP_Off"
    using c ph by (intro complete_not_off) (simp add: touch_critical_def)
  ultimately show ?thesis using en fr by (simp add: trial_ok_def complete_frame)
qed

lemma tick_reboot: "tc_phase m = TP_Reboot_Pending \<Longrightarrow> touch_tick now need m = m"
  by (simp add: touch_tick_def touch_restore_def restore_late_def Let_def)

lemma tick_calm: "\<not> touch_critical m \<Longrightarrow> touch_tick now need m = m"
  by (auto simp: touch_tick_def touch_restore_def restore_late_def touch_critical_def Let_def)

lemma inv_tick: "touch_inv w \<Longrightarrow> touch_inv (w\<lparr>tw_need := False, tw_model := touch_tick now need (tw_model w)\<rparr>)"
  unfolding touch_inv_def using trial_tick[of "tw_model w" "tw_commands w"] tick_reboot[of "tw_model w" now need]
    tick_calm[of "tw_model w" now need] by (cases "touch_critical (tw_model w)") auto

lemma inv_serve:
  assumes i: "touch_inv w"
  shows "touch_inv (touch_serve i w)"
proof -
  let ?m = "tw_model w"
  have t: "trial_ok ?m (tw_commands w)" using i by (simp add: touch_inv_def)
  consider "\<not> touch_critical ?m" | "touch_critical ?m" "tc_phase ?m \<in> {TP_Sleep_Requested, TP_Settle, TP_Reboot_Pending}"
    | "touch_critical ?m" "tc_phase ?m \<notin> {TP_Sleep_Requested, TP_Settle, TP_Reboot_Pending}" by blast
  then show ?thesis
  proof cases
    case 1
    then show ?thesis using i by (auto simp: touch_serve_def touch_inv_def release_touch_def touch_critical_def Let_def)
  next
    case 2
    then show ?thesis using i by (auto simp: touch_serve_def touch_inv_def Let_def)
  next
    case 3
    define echo where "echo = (if write_command ?m = 0 \<and> (tc_phase ?m = TP_Handshake_Echo \<or> tc_phase ?m = TP_Mode_Echo)
      then ti_echo i else 0)"
    define rel where "rel = (write_command ?m = 0 \<and> tc_phase ?m = TP_Verify_Release \<and> ti_released i)"
    have "touch_serve i w = w\<lparr>
        tw_model := touch_complete (ti_done i) (ti_rc i) echo rel
          (if write_command ?m \<noteq> 0 then before_write ?m else ?m\<lparr>tc_reads := tc_reads ?m + 1\<rparr>),
        tw_commands := (if write_command ?m \<noteq> 0 then tw_commands w @ [write_command ?m] else tw_commands w)\<rparr>"
      using 3 by (simp add: touch_serve_def echo_def rel_def Let_def)
    then show ?thesis
      using inv_service_act[OF t 3(1,2)] i 3 by (auto simp: touch_inv_def)
  qed
qed

lemma inv_service: "touch_inv w \<Longrightarrow> touch_inv (touch_service i w)"
  unfolding touch_service_def by (intro inv_serve inv_tick)

lemma inv_others: "touch_inv w \<Longrightarrow> touch_inv (snd (ota_enter w)) \<and> touch_inv (ota_leave ok w) \<and>
    touch_inv (touch_off w) \<and> touch_inv (wake_requested w)"
  by (auto simp: touch_inv_def ota_enter_def ota_leave_def touch_off_def wake_requested_def enter_ota_def leave_ota_def)

lemma inv_touch_step: "touch_inv w \<Longrightarrow> touch_inv (touch_step w e)"
  using inv_request inv_service inv_others by (cases e) (simp_all add: touch_step_def)

lemma inv_touch_start: "touch_inv touch_world0"
  by (simp add: touch_inv_def touch_world0_def trial_ok_def untouched_def touch0_def touch_critical_def)

interpretation touch_sleep: event_machine touch_step touch_world0 touch_inv
  by unfold_locales (simp_all add: inv_touch_start inv_touch_step)

lemma inv_commands:
  assumes "touch_inv w"
  shows "\<exists>j k. tw_commands w = take j entry_commands @ take k restore_commands"
proof -
  consider "tw_commands w = []" | k where "tw_commands w = take k entry_commands"
    | j k where "tw_commands w = take j entry_commands @ take k restore_commands"
    | j where "tw_commands w = take j entry_commands @ restore_commands"
    using assms by (auto simp: touch_inv_def trial_ok_def trial_defs)
  then show ?thesis
  proof cases
    case 1
    then show ?thesis by (intro exI[of _ 0]) simp
  next
    case (2 k)
    then show ?thesis by (intro exI[of _ k] exI[of _ 0]) simp
  next
    case (3 j k)
    then show ?thesis by blast
  next
    case (4 j)
    then show ?thesis by (intro exI[of _ j] exI[of _ 3]) (simp add: restore_commands_def)
  qed
qed

lemma running_phases:
  "entering x m L \<Longrightarrow> touch_critical m" "restoring x m L \<Longrightarrow> touch_critical m" "stuck m L \<Longrightarrow> touch_critical m"
  unfolding entering_def restoring_def stuck_def touch_critical_def entry_phases_def restore_phases_def by force+

lemma inv_ended:
  assumes "touch_inv w" "\<not> touch_critical (tw_model w)" "tw_commands w \<noteq> []"
  shows "tc_normal_verified (tw_model w) \<and> (\<exists>j. tw_commands w = take j entry_commands @ restore_commands)"
proof -
  have "untouched (tw_model w) (tw_commands w) \<or> restored (tw_model w) (tw_commands w)"
    using assms(1,2) running_phases unfolding touch_inv_def trial_ok_def by blast
  then have "restored (tw_model w) (tw_commands w)" using assms(3) by (auto simp: untouched_def)
  then show ?thesis by (auto simp: restored_def)
qed

lemma inv_attempts: "touch_inv w \<Longrightarrow> tc_entries (tw_model w) \<le> 1 \<and> tc_restores (tw_model w) \<le> 1"
  by (auto simp: touch_inv_def trial_ok_def trial_defs)

text \<open>C30: Whatever the calls, the bus errors, the echoes and the times, the controller is sent a beginning of the entry
  sequence and then a beginning of the restore sequence, each at most once; a trial that ended after sending anything has
  sent the whole restore sequence and read back normal mode; while a trial runs no update is in flight, and only a trial
  whose restore failed restarts the device.
\<close>

theorem touch_sleep_safe:
  "let w = foldl touch_step touch_world0 es; m = tw_model w in
     (\<exists>j k. tw_commands w = take j entry_commands @ take k restore_commands) \<and>
     (\<not> touch_critical m \<and> tw_commands w \<noteq> [] \<longrightarrow>
        tc_normal_verified m \<and> (\<exists>j. tw_commands w = take j entry_commands @ restore_commands)) \<and>
     tc_entries m \<le> 1 \<and> tc_restores m \<le> 1 \<and>
     (touch_critical m \<longrightarrow> ta_reserved (tw_admission w) \<and> ta_in_flight (tw_admission w) = 0) \<and>
     (0 < tw_restarts w \<longrightarrow> tc_phase m = TP_Reboot_Pending)"
proof -
  have i: "touch_inv (foldl touch_step touch_world0 es)" by (rule touch_sleep.inv_reachable)
  then show ?thesis unfolding Let_def
    using inv_commands[OF i] inv_ended[OF i] inv_attempts[OF i] by (intro conjI) (auto simp: touch_inv_def)
qed

text \<open>A trial that is refused the mode echo and is restored.\<close>

definition touch_demo :: "touch_event list" where
  "touch_demo = (let s = \<lambda>t e. TE_Service \<lparr>ti_now = t, ti_locked = True, ti_conflict = False, ti_ota_idle = True, ti_done = t,
       ti_rc = 0, ti_echo = e, ti_released = True\<rparr> in
     [TE_Request True False 0, s 1 0, s 2 0, s 3 0, s 4 0x1E, s 5 0, s 6 0xFF, TE_Ota_Enter,
      s 7 0, s 8 0, s 9 0x1E, s 10 0, s 11 0x09, s 12 0, s 20000 0])"

lemma touch_sleep_safe_witness:
  "\<not> touch_critical (tw_model (foldl touch_step touch_world0 touch_demo)) \<and>
   tw_commands (foldl touch_step touch_world0 touch_demo) = [0xD11E, 0xD11E, 0xD101, 0xD11E, 0xD11E, 0xD109] \<and>
   tc_normal_verified (tw_model (foldl touch_step touch_world0 touch_demo))"
proof -
  have "\<not> touch_critical (tw_model (foldl touch_step touch_world0 touch_demo))" by code_simp
  moreover have "tw_commands (foldl touch_step touch_world0 touch_demo) = [0xD11E, 0xD11E, 0xD101, 0xD11E, 0xD11E, 0xD109]"
    by code_simp
  ultimately show ?thesis using touch_sleep_safe[of touch_demo] by (simp add: Let_def)
qed

section \<open>A restore ends\<close>

lemma fail_restore [simp]:
  "tc_restoring m \<Longrightarrow> tc_restoring (touch_fail now rc m) \<and> tc_restore_deadline (touch_fail now rc m) = tc_restore_deadline m \<and>
     tc_phase (touch_fail now rc m) = TP_Reboot_Pending"
  by (simp add: touch_fail_def Let_def)

lemma expire_restore:
  "tc_restoring m \<Longrightarrow> tc_restoring (restore_expire now m) \<and> tc_restore_deadline (restore_expire now m) = tc_restore_deadline m \<and>
     tc_phase (restore_expire now m) \<in> {TP_Held_Closed, TP_Reboot_Pending}"
  by (simp add: restore_expire_def)

lemma complete_restore:
  "tc_restoring m \<Longrightarrow> tc_restoring (touch_complete now rc obs rel m) \<and>
     tc_restore_deadline (touch_complete now rc obs rel m) = tc_restore_deadline m"
  by (cases "tc_phase m") (simp_all add: touch_complete_def touch_advance_def expire_restore Let_def)

lemma serve_restore:
  "tc_restoring (tw_model w) \<Longrightarrow> tc_restoring (tw_model (touch_serve i w)) \<and>
     tc_restore_deadline (tw_model (touch_serve i w)) = tc_restore_deadline (tw_model w)"
  by (simp add: touch_serve_def complete_restore before_write_def Let_def)

lemma serve_ended:
  "\<not> touch_critical (tw_model w) \<or> tc_phase (tw_model w) = TP_Reboot_Pending \<Longrightarrow> tw_model (touch_serve i w) = tw_model w"
  by (auto simp: touch_serve_def Let_def)

text \<open>A service that is asked to restore, or finds the lease over, either ends the trial or starts the restore, with five
  seconds to go.\<close>

definition restore_wanted :: "touch_input \<Rightarrow> touch_world \<Rightarrow> bool" where
  "restore_wanted i w \<longleftrightarrow> tw_need w \<or> \<not> ti_locked i \<or> ti_conflict i \<or>
     (tc_phase (tw_model w) = TP_Sleep_Requested \<and> ti_now i \<ge> tc_lease_until (tw_model w))"

lemma tick_starts_restore:
  assumes "touch_critical m" "\<not> tc_restoring m" "tc_phase m \<noteq> TP_Reboot_Pending"
    and "need \<or> (tc_phase m = TP_Sleep_Requested \<and> now \<ge> tc_lease_until m)"
  shows "\<not> touch_critical (touch_tick now need m) \<or>
    (tc_restoring (touch_tick now need m) \<and> tc_restore_deadline (touch_tick now need m) = now + 5000000)"
  using assms by (simp add: touch_tick_def touch_restore_def restore_late_def touch_critical_def Let_def)

lemma tick_ends_restore:
  assumes "tc_restoring m" "now \<ge> tc_restore_deadline m"
  shows "\<not> touch_critical (touch_tick now need m) \<or> tc_phase (touch_tick now need m) = TP_Reboot_Pending"
proof (cases "touch_critical m \<and> tc_phase m \<noteq> TP_Reboot_Pending")
  case True
  then have "touch_tick now need m = restore_expire now m"
    using assms expire_restore[OF assms(1), of now] by (auto simp: touch_tick_def touch_restore_def restore_late_def Let_def)
  then show ?thesis using expire_restore[OF assms(1), of now] by (auto simp: touch_critical_def)
next
  case False
  then show ?thesis using tick_calm tick_reboot by auto
qed

text \<open>A consumed trial that has ended, waits for the restart, or restores with a deadline that no later call moves.\<close>

definition touch_over :: "touch \<Rightarrow> bool" where
  "touch_over m \<longleftrightarrow> \<not> touch_critical m \<or> tc_phase m = TP_Reboot_Pending"

definition ends_by :: "int \<Rightarrow> touch \<Rightarrow> bool" where
  "ends_by d m \<longleftrightarrow> tc_consumed m \<and> (touch_over m \<or> (tc_restoring m \<and> tc_restore_deadline m = d))"

lemma restoring_tick:
  "tc_restoring m \<Longrightarrow> tc_restoring (touch_tick now need m) \<and> tc_restore_deadline (touch_tick now need m) = tc_restore_deadline m"
  by (simp add: touch_tick_def touch_restore_def expire_restore Let_def)

lemma tick_consumed [simp]: "tc_consumed (touch_tick now need m) = tc_consumed m"
  by (simp add: touch_tick_def Let_def)

lemma serve_consumed [simp]: "tc_consumed (tw_model (touch_serve i w)) = tc_consumed (tw_model w)"
  by (simp add: touch_serve_def complete_frame before_write_def Let_def)

lemma service_consumed [simp]: "tc_consumed (tw_model (touch_service i w)) = tc_consumed (tw_model w)"
  by (simp add: touch_service_def)

lemma service_over: "touch_over (tw_model w) \<Longrightarrow> tw_model (touch_service i w) = tw_model w"
  using tick_calm[of "tw_model w"] tick_reboot[of "tw_model w"] by (auto simp: touch_over_def touch_service_def serve_ended)

lemma ends_by_service: "ends_by d (tw_model w) \<Longrightarrow> ends_by d (tw_model (touch_service i w))"
  using service_over[of w i] restoring_tick[of "tw_model w"] serve_restore
  by (auto simp: ends_by_def touch_service_def)

lemma consumed_request: "tc_consumed (tw_model w) \<Longrightarrow> tw_model (snd (request120 clear busy now w)) = tw_model w"
  by (simp add: request120_def)

lemma others_model [simp]:
  "tw_model (touch_off w) = tw_model w" "tw_model (wake_requested w) = tw_model w" "tw_model (ota_leave ok w) = tw_model w"
  "tw_model (snd (ota_enter w)) = tw_model w"
  by (simp_all add: touch_off_def wake_requested_def ota_leave_def ota_enter_def split: prod.split)

lemma ends_by_step: "ends_by d (tw_model w) \<Longrightarrow> ends_by d (tw_model (touch_step w e))"
proof (cases e)
  case (TE_Request clear busy now)
  assume "ends_by d (tw_model w)"
  then show ?thesis using consumed_request[of w clear busy now] by (simp add: touch_step_def TE_Request ends_by_def)
qed (simp_all add: touch_step_def ends_by_service)

interpretation restore_deadline: event_machine touch_step w "\<lambda>v. ends_by d (tw_model w) \<longrightarrow> ends_by d (tw_model v)" for w d
  by unfold_locales (auto intro: ends_by_step)

lemma service_ends: "ends_by d (tw_model w) \<Longrightarrow> ti_now i \<ge> d \<Longrightarrow> touch_over (tw_model (touch_service i w))"
proof (cases "touch_over (tw_model w)")
  case True
  then show ?thesis by (simp add: service_over)
next
  case False
  assume e: "ends_by d (tw_model w)" "ti_now i \<ge> d"
  then have t: "touch_over (touch_tick (ti_now i) need (tw_model w))" for need
    using False tick_ends_restore[of "tw_model w" "ti_now i" need] by (simp add: ends_by_def touch_over_def)
  then show ?thesis unfolding touch_service_def by (subst serve_ended) (simp_all add: touch_over_def)
qed

lemma service_starts_restore:
  assumes "tc_consumed (tw_model w)" "\<not> tc_restoring (tw_model w)" "restore_wanted i w"
  shows "ends_by (ti_now i + 5000000) (tw_model (touch_service i w))"
proof (cases "touch_over (tw_model w)")
  case True
  then show ?thesis using assms(1) by (simp add: service_over ends_by_def)
next
  case False
  let ?m = "touch_tick (ti_now i) (tw_need w \<or> \<not> ti_locked i \<or> ti_conflict i) (tw_model w)"
  let ?w = "w\<lparr>tw_need := False, tw_model := ?m\<rparr>"
  have "\<not> touch_critical ?m \<or> (tc_restoring ?m \<and> tc_restore_deadline ?m = ti_now i + 5000000)"
    using False assms(2,3) by (intro tick_starts_restore) (auto simp: touch_over_def restore_wanted_def)
  then have "ends_by (ti_now i + 5000000) (tw_model (touch_serve i ?w))"
    using serve_ended[of ?w i] serve_restore[of ?w i] assms(1) by (auto simp: ends_by_def touch_over_def)
  then show ?thesis by (simp add: touch_service_def)
qed

lemma inv_consumed: "touch_inv w \<Longrightarrow> touch_critical (tw_model w) \<Longrightarrow> tc_consumed (tw_model w)"
  by (auto simp: touch_inv_def trial_ok_def touch_critical_def)

text \<open>C31: A restore ends within five seconds, whatever is called meanwhile. In any state that calls can reach, when a
  service finds a running trial that has to be restored (it is asked to, the lock is open, the view conflicts, or the lease
  is over), then after any further calls, services included, with any bus errors, echoes and durations, the first service
  that runs five seconds after this one or later finds the trial ended, or waiting for the restart that its failed restore
  authorises. The same holds of a restore that is already under way, with its own deadline: no later step extends it.
\<close>

theorem touch_restore_ends:
  assumes "w = foldl touch_step touch_world0 es" "touch_critical (tw_model w)"
  shows "(\<not> tc_restoring (tw_model w) \<and> restore_wanted i w \<and> ti_now j \<ge> ti_now i + 5000000 \<longrightarrow>
      touch_over (tw_model (touch_service j (foldl touch_step (touch_service i w) fs)))) \<and>
    (tc_restoring (tw_model w) \<and> ti_now j \<ge> tc_restore_deadline (tw_model w) \<longrightarrow>
      touch_over (tw_model (touch_service j (foldl touch_step w fs))))"
proof (intro conjI impI)
  have c: "tc_consumed (tw_model w)"
    using inv_consumed[of w] touch_sleep.inv_reachable[of es] assms by simp
  note run = restore_deadline.inv_reachable[rule_format]
  show "touch_over (tw_model (touch_service j (foldl touch_step (touch_service i w) fs)))"
    if "\<not> tc_restoring (tw_model w) \<and> restore_wanted i w \<and> ti_now j \<ge> ti_now i + 5000000"
    using service_ends[OF run[OF service_starts_restore[OF c]]] that by blast
  show "touch_over (tw_model (touch_service j (foldl touch_step w fs)))"
    if "tc_restoring (tw_model w) \<and> ti_now j \<ge> tc_restore_deadline (tw_model w)"
    using service_ends[OF run, of "tc_restore_deadline (tw_model w)"] that c by (simp add: ends_by_def)
qed

text \<open>A restore that gets as far as the mode command and is still over at the fifth second.\<close>

lemma touch_restore_ends_witness:
  "let s = \<lambda>t e. \<lparr>ti_now = t, ti_locked = True, ti_conflict = False, ti_ota_idle = True, ti_done = t, ti_rc = 0, ti_echo = e,
         ti_released = False\<rparr>;
       w = foldl touch_step touch_world0 (take 4 touch_demo);
       v = foldl touch_step (touch_service ((s 7 0)\<lparr>ti_locked := False\<rparr>) w)
             [TE_Service (s 4000000 0), TE_Service (s 4000001 0x1E), TE_Service (s 4999999 0)] in
   tc_phase (tw_model v) = TP_Mode_Echo \<and> touch_over (tw_model (touch_service (s 5000007 0) v))"
proof -
  define s where "s = (\<lambda>t e. \<lparr>ti_now = t, ti_locked = True, ti_conflict = False, ti_ota_idle = True, ti_done = t, ti_rc = 0,
    ti_echo = e, ti_released = False\<rparr>)"
  define w where "w = foldl touch_step touch_world0 (take 4 touch_demo)"
  define fs where "fs = [TE_Service (s 4000000 0), TE_Service (s 4000001 0x1E), TE_Service (s 4999999 0)]"
  have a: "touch_critical (tw_model w)" "\<not> tc_restoring (tw_model w)" unfolding w_def by code_simp+
  have "tc_phase (tw_model (foldl touch_step (touch_service ((s 7 0)\<lparr>ti_locked := False\<rparr>) w) fs)) = TP_Mode_Echo"
    unfolding s_def w_def fs_def by code_simp
  moreover have "restore_wanted ((s 7 0)\<lparr>ti_locked := False\<rparr>) w" "ti_now (s 5000007 0) \<ge> ti_now ((s 7 0)\<lparr>ti_locked := False\<rparr>) + 5000000"
    by (simp_all add: restore_wanted_def s_def)
  ultimately show ?thesis
    using touch_restore_ends[OF w_def a(1), of "(s 7 0)\<lparr>ti_locked := False\<rparr>" "s 5000007 0" fs] a(2)
    unfolding Let_def s_def[symmetric] w_def[symmetric] fs_def[symmetric] by simp
qed

end
