(* ===== verification/Ocv_Diagnostic.thy ===== *)
theory Ocv_Diagnostic
  imports Prelude_Words
begin

text \<open>
  The one-shot open-circuit-voltage command of the gauge (\<open>main/hal/mosaico/mosaico_ocv_diagnostic_model.h\<close>): the snapshot
  of ten registers, the qualification of a quiet window and the coordinator that sends the command once and watches for
  its completion. The backend is a template argument of the code and a record of functions here. The coordinator waits
  in two loops whose end depends on the clock of the backend, so they are partial functions: \<open>None\<close> is a run that does not
  return. The signed registers are integers, a sample that may be missing is an option. The backend of the firmware
  (\<open>GaugeOcvBackend\<close> in \<open>main/hal/mosaico/hal_mosaico.cpp\<close>) is modelled over an environment: the timer, the wait, the
  runtime gate and the wires of the gauge. The watchdog feeds and the locks are left out.
\<close>

section \<open>Samples\<close>

record ocv_sample =
  os_temp :: u16
  os_mv :: u16
  os_battery :: u16
  os_remaining :: u16
  os_fcc :: u16
  os_dc :: u16
  os_soc :: u16
  os_op :: u16
  os_current :: int
  os_average :: int

definition ocv_regs :: "u8 list" where
  "ocv_regs = [0x06, 0x08, 0x0A, 0x0C, 0x10, 0x12, 0x14, 0x2C, 0x3A, 0x3C]"

text \<open>Every register is read, also after one that failed.\<close>

fun read_regs :: "('s \<Rightarrow> u8 \<Rightarrow> (bool \<times> u16) \<times> 's) \<Rightarrow> u8 list \<Rightarrow> 's \<Rightarrow> (bool \<times> u16 list) \<times> 's" where
  "read_regs rd [] s = ((True, []), s)"
| "read_regs rd (r # rs) s =
     (case rd s r of ((ok, v), s) \<Rightarrow>
      case read_regs rd rs s of ((oks, vs), s) \<Rightarrow> ((ok \<and> oks, v # vs), s))"

definition ocv_snapshot :: "('s \<Rightarrow> u8 \<Rightarrow> (bool \<times> u16) \<times> 's) \<Rightarrow> 's \<Rightarrow> ocv_sample option \<times> 's" where
  "ocv_snapshot rd s =
     (case read_regs rd ocv_regs s of ((ok, v), s) \<Rightarrow>
        (if \<not> ok then None
         else Some \<lparr>os_temp = v ! 0, os_mv = v ! 1, os_battery = v ! 2, os_remaining = v ! 4, os_fcc = v ! 5, os_dc = v ! 9,
           os_soc = v ! 7, os_op = v ! 8, os_current = sint (v ! 3), os_average = sint (v ! 6)\<rparr>, s))"

definition ocv_eligible :: "ocv_sample \<Rightarrow> bool" where
  "ocv_eligible s \<longleftrightarrow>
     os_mv s \<ge> 4150 \<and> os_mv s \<le> 4350 \<and> os_temp s \<ge> 2832 \<and> os_temp s \<le> 3181 \<and>
     os_current s \<ge> -3 \<and> os_current s \<le> 3 \<and> os_average s \<ge> -3 \<and> os_average s \<le> 3 \<and> os_dc s = 65 \<and> os_fcc s = 65 \<and>
     os_soc s \<le> 100 \<and> os_remaining s \<le> os_fcc s \<and> drop_bit 1 (os_op s) AND 3 = 3 \<and>
     os_op s AND 0x0020 \<noteq> 0 \<and> os_op s AND 0x0401 = 0 \<and> os_battery s AND 0x0008 \<noteq> 0 \<and> os_battery s AND 0x2D02 = 0"

section \<open>The qualification\<close>

record ocv_window =
  ow_started :: bool
  ow_failed :: bool
  ow_first :: int
  ow_last :: int
  ow_min_mv :: u16
  ow_max_mv :: u16
  ow_min_temp :: u16
  ow_max_temp :: u16
  ow_min_current :: int
  ow_max_current :: int
  ow_min_average :: int
  ow_max_average :: int

definition ocv_window0 :: ocv_window where
  "ocv_window0 = \<lparr>ow_started = False, ow_failed = False, ow_first = 0, ow_last = 0, ow_min_mv = 0, ow_max_mv = 0,
     ow_min_temp = 0, ow_max_temp = 0, ow_min_current = 0, ow_max_current = 0, ow_min_average = 0, ow_max_average = 0\<rparr>"

definition window_widen :: "ocv_sample \<Rightarrow> int \<Rightarrow> ocv_window \<Rightarrow> ocv_window" where
  "window_widen s now q =
     (if \<not> ow_started q then
        q\<lparr>ow_started := True, ow_first := now, ow_min_mv := os_mv s, ow_max_mv := os_mv s, ow_min_temp := os_temp s,
          ow_max_temp := os_temp s, ow_min_current := os_current s, ow_max_current := os_current s,
          ow_min_average := os_average s, ow_max_average := os_average s\<rparr>
      else
        q\<lparr>ow_min_mv := (if os_mv s < ow_min_mv q then os_mv s else ow_min_mv q),
          ow_max_mv := (if os_mv s > ow_max_mv q then os_mv s else ow_max_mv q),
          ow_min_temp := (if os_temp s < ow_min_temp q then os_temp s else ow_min_temp q),
          ow_max_temp := (if os_temp s > ow_max_temp q then os_temp s else ow_max_temp q),
          ow_min_current := (if os_current s < ow_min_current q then os_current s else ow_min_current q),
          ow_max_current := (if os_current s > ow_max_current q then os_current s else ow_max_current q),
          ow_min_average := (if os_average s < ow_min_average q then os_average s else ow_min_average q),
          ow_max_average := (if os_average s > ow_max_average q then os_average s else ow_max_average q)\<rparr>)"

definition window_sample :: "ocv_sample \<Rightarrow> int \<Rightarrow> ocv_window \<Rightarrow> bool \<times> ocv_window" where
  "window_sample s now q =
     (if ow_failed q then (False, q)
      else if now < 0 \<or> \<not> ocv_eligible s \<or> (ow_started q \<and> (now < ow_last q \<or> now - ow_last q > 2500000))
      then (False, q\<lparr>ow_failed := True\<rparr>)
      else
        let q = (window_widen s now q)\<lparr>ow_last := now\<rparr> in
        if uint (ow_max_mv q) - uint (ow_min_mv q) > 10 \<or> uint (ow_max_temp q) - uint (ow_min_temp q) > 5 \<or>
           ow_max_current q - ow_min_current q > 2 \<or> ow_max_average q - ow_min_average q > 2
        then (False, q\<lparr>ow_failed := True\<rparr>) else (True, q))"

definition window_ready :: "int \<Rightarrow> ocv_window \<Rightarrow> bool" where
  "window_ready now q \<longleftrightarrow>
     ow_started q \<and> \<not> ow_failed q \<and> now \<ge> ow_last q \<and> now - ow_last q \<le> 2500000 \<and> now - ow_first q \<ge> 120000000"

section \<open>The coordinator\<close>

datatype ocv_send = OS_GuardRefused | OS_AckFailed | OS_Acked

datatype ocv_result = OR_Rejected | OR_AlreadyAttempted | OR_GuardRefused | OR_SentAckFailed | OR_SentUnconfirmed
  | OR_PostDisturbed | OR_Confirmed

record ocv_report =
  or_result :: ocv_result
  or_attempted :: bool
  or_sent :: bool
  or_ack :: bool
  or_edge :: bool
  or_conditions :: bool
  or_before :: "ocv_sample option"
  or_after :: "ocv_sample option"
  or_range :: ocv_window

definition ocv_report0 :: ocv_report where
  "ocv_report0 = \<lparr>or_result = OR_Rejected, or_attempted = False, or_sent = False, or_ack = False, or_edge = False,
     or_conditions = False, or_before = None, or_after = None, or_range = ocv_window0\<rparr>"

text \<open>\<open>sendOcv\<close> gets the window by reference: it may take a last sample into it, and reports that sample.\<close>

record 's ocv_backend =
  ob_attempted :: "'s \<Rightarrow> bool \<times> 's"
  ob_identity :: "'s \<Rightarrow> bool \<times> 's"
  ob_snapshot :: "'s \<Rightarrow> ocv_sample option \<times> 's"
  ob_now :: "'s \<Rightarrow> int \<times> 's"
  ob_wait :: "u32 \<Rightarrow> 's \<Rightarrow> 's"
  ob_latch :: "'s \<Rightarrow> bool \<times> 's"
  ob_send :: "ocv_window \<Rightarrow> 's \<Rightarrow> (ocv_send \<times> ocv_sample option \<times> ocv_window) \<times> 's"

definition ocv_finish :: "ocv_result \<Rightarrow> ocv_window \<Rightarrow> ocv_report \<Rightarrow> ocv_report" where
  "ocv_finish v q r = r\<lparr>or_result := v, or_range := q\<rparr>"

definition wait_ms :: "int \<Rightarrow> u32" where
  "wait_ms left = (if left > 1000000 then 1000 else word_of_int ((left + 999) div 1000))"

definition keep_before :: "ocv_sample option \<Rightarrow> ocv_report \<Rightarrow> ocv_report" where
  "keep_before x r = (if x = None then r else r\<lparr>or_before := x\<rparr>)"

text \<open>The loop before the command. The answer says whether it ended with a qualified window.\<close>

partial_function (option) qualify_loop ::
  "'s ocv_backend \<Rightarrow> ocv_window \<Rightarrow> ocv_report \<Rightarrow> 's \<Rightarrow> (bool \<times> ocv_window \<times> ocv_report \<times> 's) option" where
  "qualify_loop b q r s =
     (case ob_snapshot b s of (x, s) \<Rightarrow> case ob_now b s of (now, s) \<Rightarrow>
      case x of None \<Rightarrow> Some (False, q, r, s)
      | Some v \<Rightarrow>
        (case window_sample v now q of (ok, q) \<Rightarrow>
           if \<not> ok then Some (False, q, keep_before x r, s)
           else if window_ready now q then Some (True, q, keep_before x r, s)
           else qualify_loop b q (keep_before x r) (ob_wait b (wait_ms (120000000 - (now - ow_first q))) s)))"

text \<open>The loop after it: five more seconds under the same conditions, watching for a clear bit that gets set.\<close>

partial_function (option) watch_loop ::
  "'s ocv_backend \<Rightarrow> int \<Rightarrow> bool \<Rightarrow> ocv_window \<Rightarrow> ocv_report \<Rightarrow> 's \<Rightarrow> (bool \<times> ocv_window \<times> ocv_report \<times> 's) option" where
  "watch_loop b start clear q r s =
     (case ob_snapshot b s of (x, s) \<Rightarrow> case ob_now b s of (now, s) \<Rightarrow>
      case x of None \<Rightarrow> Some (False, q, r, s)
      | Some v \<Rightarrow>
        let complete = (os_battery v AND 0x4000 \<noteq> 0);
            r = r\<lparr>or_after := x, or_edge := (or_edge r \<or> (complete \<and> clear))\<rparr>;
            clear = (clear \<or> \<not> complete)
        in case window_sample v now q of (ok, q) \<Rightarrow>
           if \<not> ok then Some (False, q, r, s)
           else if now - start \<ge> 5000000 then Some (True, q, r, s)
           else watch_loop b start clear q r (ob_wait b (wait_ms (5000000 - (now - start))) s))"

text \<open>The run after the command, then the run as a whole.\<close>

definition ocv_watch :: "'s ocv_backend \<Rightarrow> ocv_window \<Rightarrow> ocv_report \<Rightarrow> 's \<Rightarrow> (ocv_report \<times> 's) option" where
  "ocv_watch b q r s =
     (case ob_now b s of (start, s) \<Rightarrow>
      case watch_loop b start False q r s of None \<Rightarrow> None
      | Some (ok, q, r, s) \<Rightarrow>
          if \<not> ok then Some (ocv_finish OR_PostDisturbed q r, s)
          else
            let r = r\<lparr>or_conditions := True\<rparr> in
            Some (ocv_finish (if \<not> or_ack r then OR_SentAckFailed
              else if or_edge r \<and> (case or_after r of Some a \<Rightarrow> os_battery a AND 0x0020 \<noteq> 0 | None \<Rightarrow> False) then OR_Confirmed
              else OR_SentUnconfirmed) q r, s))"

definition ocv_command :: "'s ocv_backend \<Rightarrow> ocv_window \<Rightarrow> ocv_report \<Rightarrow> 's \<Rightarrow> (ocv_report \<times> 's) option" where
  "ocv_command b q r s =
     (case ob_latch b s of (ok, s) \<Rightarrow>
        if \<not> ok then Some (ocv_finish OR_AlreadyAttempted q (r\<lparr>or_attempted := True\<rparr>), s)
        else case ob_send b q s of ((res, x, q), s) \<Rightarrow>
          let r = keep_before x (r\<lparr>or_attempted := True\<rparr>);
              r = r\<lparr>or_sent := (res \<noteq> OS_GuardRefused), or_ack := (res = OS_Acked)\<rparr> in
          if res = OS_GuardRefused then Some (ocv_finish OR_GuardRefused q r, s) else ocv_watch b q r s)"

text \<open>Identity and conditions are checked again right before the command.\<close>

definition ocv_recheck :: "'s ocv_backend \<Rightarrow> ocv_window \<Rightarrow> ocv_report \<Rightarrow> 's \<Rightarrow> (ocv_report \<times> 's) option" where
  "ocv_recheck b q r s =
     (case ob_identity b s of (ok, s) \<Rightarrow>
        if \<not> ok then Some (ocv_finish OR_Rejected q r, s)
        else case ob_snapshot b s of (x, s) \<Rightarrow> case ob_now b s of (checked, s) \<Rightarrow>
        case x of None \<Rightarrow> Some (ocv_finish OR_Rejected q r, s)
        | Some v \<Rightarrow>
          (case window_sample v checked q of (ok, q) \<Rightarrow>
             if \<not> ok \<or> \<not> window_ready checked q then Some (ocv_finish OR_Rejected q (keep_before x r), s)
             else ocv_command b q (keep_before x r) s))"

definition ocv_run :: "'s ocv_backend \<Rightarrow> 's \<Rightarrow> (ocv_report \<times> 's) option" where
  "ocv_run b s =
     (case ob_attempted b s of (tried, s) \<Rightarrow>
        if tried then Some (ocv_finish OR_AlreadyAttempted ocv_window0 (ocv_report0\<lparr>or_attempted := True\<rparr>), s)
        else case ob_identity b s of (ok, s) \<Rightarrow>
        if \<not> ok then Some (ocv_finish OR_Rejected ocv_window0 ocv_report0, s)
        else case qualify_loop b ocv_window0 ocv_report0 s of None \<Rightarrow> None
        | Some (ok, q, r, s) \<Rightarrow>
            if \<not> ok then Some (ocv_finish OR_Rejected q r, s) else ocv_recheck b q r s)"

section \<open>The backend of the firmware\<close>

text \<open>What the backend stands on; \<open>oe_select\<close> sends the identity selector, \<open>oe_transmit\<close> the packet of the command.\<close>

record 's ocv_env =
  oe_gauge :: "'s \<Rightarrow> bool"
  oe_gate :: "'s \<Rightarrow> bool \<times> 's"
  oe_select :: "'s \<Rightarrow> bool \<times> 's"
  oe_word :: "'s \<Rightarrow> u8 \<Rightarrow> (bool \<times> u16) \<times> 's"
  oe_timer :: "'s \<Rightarrow> int \<times> 's"
  oe_delay :: "u32 \<Rightarrow> 's \<Rightarrow> 's"
  oe_transmit :: "u8 list \<Rightarrow> 's \<Rightarrow> bool \<times> 's"

text \<open>The flag of the attempt is static and outlives the backend object of a run.\<close>

record 's ocv_hal =
  oh_world :: 's
  oh_attempted :: bool
  oh_seen :: bool
  oh_last :: int

definition on_world :: "('s \<Rightarrow> 'a \<times> 's) \<Rightarrow> 's ocv_hal \<Rightarrow> 'a \<times> 's ocv_hal" where
  "on_world f h = (case f (oh_world h) of (a, w) \<Rightarrow> (a, h\<lparr>oh_world := w\<rparr>))"

definition gauge_identity :: "'s ocv_env \<Rightarrow> 's \<Rightarrow> bool \<times> 's" where
  "gauge_identity e s =
     (case oe_select e s of (ok, s) \<Rightarrow>
        if \<not> ok then (False, s)
        else case oe_word e (oe_delay e 20 s) 0x40 of ((ok, v), s) \<Rightarrow>
          if \<not> ok \<or> v \<noteq> 0x0220 then (False, s)
          else case oe_word e s 0x40 of ((ok, v), s) \<Rightarrow> (ok \<and> v = 0x0220, s))"

definition hal_identity :: "'s ocv_env \<Rightarrow> 's \<Rightarrow> bool \<times> 's" where
  "hal_identity e s =
     (if \<not> oe_gauge e s then (False, s)
      else case oe_gate e s of (ok, s) \<Rightarrow>
        if \<not> ok then (False, s)
        else case gauge_identity e s of (ok, s) \<Rightarrow>
          if \<not> ok then (False, s) else oe_gate e s)"

definition hal_slot :: "'s ocv_env \<Rightarrow> 's ocv_hal \<Rightarrow> bool \<times> 's ocv_hal" where
  "hal_slot e h =
     (if \<not> oh_seen h then (True, h)
      else case on_world (oe_timer e) h of (now, h) \<Rightarrow>
        if now < oh_last h then (False, h)
        else
          let left = 1000000 - (now - oh_last h);
              h = (if left > 0 then h\<lparr>oh_world := oe_delay e (word_of_int ((left + 999) div 1000)) (oh_world h)\<rparr> else h)
          in case on_world (oe_timer e) h of (now, h) \<Rightarrow> (now \<ge> oh_last h + 1000000, h))"

definition hal_read :: "'s ocv_env \<Rightarrow> 's ocv_hal \<Rightarrow> ocv_sample option \<times> 's ocv_hal" where
  "hal_read e h =
     (case on_world (oe_timer e) h of (started, h) \<Rightarrow>
        if (oh_seen h \<and> started < oh_last h + 1000000) \<or> \<not> oe_gauge e (oh_world h) then (None, h)
        else case on_world (oe_gate e) h of (ok, h) \<Rightarrow>
        if \<not> ok then (None, h)
        else case on_world (ocv_snapshot (oe_word e)) h of (x, h) \<Rightarrow>
        case on_world (oe_timer e) h of (finished, h) \<Rightarrow>
          let h = h\<lparr>oh_seen := True, oh_last := finished\<rparr> in
          if x = None \<or> finished < started then (None, h)
          else case on_world (oe_gate e) h of (ok, h) \<Rightarrow> (if ok then x else None, h))"

definition hal_snapshot :: "'s ocv_env \<Rightarrow> 's ocv_hal \<Rightarrow> ocv_sample option \<times> 's ocv_hal" where
  "hal_snapshot e h = (case hal_slot e h of (ok, h) \<Rightarrow> if \<not> ok then (None, h) else hal_read e h)"

text \<open>The last check happens under the lock of the one command: a fresh sample into the window of the run.\<close>

definition hal_send :: "'s ocv_env \<Rightarrow> ocv_window \<Rightarrow> 's ocv_hal \<Rightarrow> (ocv_send \<times> ocv_sample option \<times> ocv_window) \<times> 's ocv_hal" where
  "hal_send e q h =
     (case hal_slot e h of (ok, h) \<Rightarrow>
        if \<not> ok then ((OS_GuardRefused, None, q), h)
        else case hal_read e h of (x, h) \<Rightarrow>
        case on_world (oe_timer e) h of (now, h) \<Rightarrow>
        case x of None \<Rightarrow> ((OS_GuardRefused, None, q), h)
        | Some v \<Rightarrow>
          (case window_sample v now q of (ok, q) \<Rightarrow>
             if \<not> ok \<or> \<not> window_ready now q then ((OS_GuardRefused, x, q), h)
             else case on_world (oe_gate e) h of (ok, h) \<Rightarrow>
               if \<not> ok then ((OS_GuardRefused, x, q), h)
               else case on_world (oe_transmit e [0x00, 0x0C, 0x00]) h of (ack, h) \<Rightarrow>
                 ((if ack then OS_Acked else OS_AckFailed, x, q), h)))"

definition hal_latch :: "'s ocv_hal \<Rightarrow> bool \<times> 's ocv_hal" where
  "hal_latch h = (if oh_attempted h then (False, h) else (True, h\<lparr>oh_attempted := True\<rparr>))"

definition hal_backend :: "'s ocv_env \<Rightarrow> 's ocv_hal ocv_backend" where
  "hal_backend e = \<lparr>ob_attempted = (\<lambda>h. (oh_attempted h, h)), ob_identity = on_world (hal_identity e),
     ob_snapshot = hal_snapshot e, ob_now = on_world (oe_timer e),
     ob_wait = (\<lambda>ms h. h\<lparr>oh_world := oe_delay e ms (oh_world h)\<rparr>), ob_latch = hal_latch, ob_send = hal_send e\<rparr>"

text \<open>The backend object of a new run.\<close>

definition hal_start :: "bool \<Rightarrow> 's \<Rightarrow> 's ocv_hal" where
  "hal_start attempted w = \<lparr>oh_world = w, oh_attempted = attempted, oh_seen = False, oh_last = 0\<rparr>"

section \<open>The log of a run\<close>

datatype ocv_event = OE_Attempted bool | OE_Identity bool | OE_Snapshot "ocv_sample option" | OE_Now int | OE_Wait u32
  | OE_Latch bool | OE_Send ocv_window ocv_send "ocv_sample option" ocv_window






definition sample_log :: "(ocv_sample \<times> int) list \<Rightarrow> ocv_event list" where
  "sample_log xs = concat (map (\<lambda>(v, t). [OE_Snapshot (Some v), OE_Now t]) xs)"

lemma sample_log_simps [simp]:
  "sample_log [] = []" "sample_log ((v, t) # xs) = OE_Snapshot (Some v) # OE_Now t # sample_log xs"
  "sample_log (xs @ ys) = sample_log xs @ sample_log ys"
  by (simp_all add: sample_log_def)

section \<open>The window is exact\<close>

definition window_run :: "(ocv_sample \<times> int) list \<Rightarrow> ocv_window" where
  "window_run xs = foldl (\<lambda>q (s, now). snd (window_sample s now q)) ocv_window0 xs"

definition spread :: "(ocv_sample \<Rightarrow> int) \<Rightarrow> int \<Rightarrow> (ocv_sample \<times> int) list \<Rightarrow> bool" where
  "spread f d xs \<longleftrightarrow> (\<forall>x \<in> set xs. \<forall>y \<in> set xs. f (fst x) - f (fst y) \<le> d)"

definition quiet_window :: "(ocv_sample \<times> int) list \<Rightarrow> bool" where
  "quiet_window xs \<longleftrightarrow>
     (\<forall>(s, t) \<in> set xs. ocv_eligible s \<and> 0 \<le> t) \<and>
     successively (\<lambda>(_, t) (_, t'). t \<le> t' \<and> t' - t \<le> 2500000) xs \<and>
     spread (\<lambda>s. uint (os_mv s)) 10 xs \<and> spread (\<lambda>s. uint (os_temp s)) 5 xs \<and>
     spread os_current 2 xs \<and> spread os_average 2 xs"

text \<open>The least and the greatest value of a list of samples.\<close>

definition least :: "(ocv_sample \<Rightarrow> int) \<Rightarrow> (ocv_sample \<times> int) list \<Rightarrow> int" where
  "least f xs = Min (f ` fst ` set xs)"
definition greatest :: "(ocv_sample \<Rightarrow> int) \<Rightarrow> (ocv_sample \<times> int) list \<Rightarrow> int" where
  "greatest f xs = Max (f ` fst ` set xs)"

lemma extremes_single [simp]: "least f [(s, t)] = f s" "greatest f [(s, t)] = f s"
  by (simp_all add: least_def greatest_def)

lemma extremes_snoc:
  assumes "xs \<noteq> []"
  shows "least f (xs @ [(s, t)]) = min (f s) (least f xs)" "greatest f (xs @ [(s, t)]) = max (f s) (greatest f xs)"
  using assms by (simp_all add: least_def greatest_def)

lemma spread_extremes:
  assumes "xs \<noteq> []"
  shows "spread f d xs \<longleftrightarrow> greatest f xs - least f xs \<le> d"
proof
  assume s: "spread f d xs"
  have "greatest f xs \<in> f ` fst ` set xs" "least f xs \<in> f ` fst ` set xs"
    unfolding greatest_def least_def using assms by (simp_all only: Max_in Min_in finite_imageI finite_set image_is_empty set_empty not_False_eq_True)
  then obtain x y where "x \<in> set xs" "y \<in> set xs" "greatest f xs = f (fst x)" "least f xs = f (fst y)"
    by (auto simp: image_iff)
  then show "greatest f xs - least f xs \<le> d" using s by (simp add: spread_def)
next
  assume d: "greatest f xs - least f xs \<le> d"
  have m: "f (fst x) \<le> greatest f xs" "least f xs \<le> f (fst x)" if "x \<in> set xs" for x
    using that by (simp_all add: greatest_def least_def)
  have "f (fst x) - f (fst y) \<le> d" if "x \<in> set xs" "y \<in> set xs" for x y
    using m(1)[OF that(1)] m(2)[OF that(2)] d by linarith
  then show "spread f d xs" by (simp add: spread_def)
qed

lemma spread_prefix: "spread f d (xs @ ys) \<Longrightarrow> spread f d xs"
  by (simp add: spread_def)

lemma quiet_window_prefix: "quiet_window (xs @ ys) \<Longrightarrow> quiet_window xs"
  by (auto simp: quiet_window_def successively_append_iff dest: spread_prefix)

text \<open>What the window knows of a quiet list of samples.\<close>

definition window_of :: "(ocv_sample \<times> int) list \<Rightarrow> ocv_window \<Rightarrow> bool" where
  "window_of xs q \<longleftrightarrow> ow_started q \<and> \<not> ow_failed q \<and> ow_first q = snd (hd xs) \<and> ow_last q = snd (last xs) \<and>
     uint (ow_min_mv q) = least (\<lambda>s. uint (os_mv s)) xs \<and> uint (ow_max_mv q) = greatest (\<lambda>s. uint (os_mv s)) xs \<and>
     uint (ow_min_temp q) = least (\<lambda>s. uint (os_temp s)) xs \<and> uint (ow_max_temp q) = greatest (\<lambda>s. uint (os_temp s)) xs \<and>
     ow_min_current q = least os_current xs \<and> ow_max_current q = greatest os_current xs \<and>
     ow_min_average q = least os_average xs \<and> ow_max_average q = greatest os_average xs"

lemma window_widen_of:
  assumes "if xs = [] then q = ocv_window0 else window_of xs q"
  shows "window_of (xs @ [(s, now)]) ((window_widen s now q)\<lparr>ow_last := now\<rparr>)"
proof (cases "xs = []")
  case True
  then show ?thesis using assms by (simp add: window_widen_def window_of_def ocv_window0_def)
next
  case False
  then have w: "window_of xs q" "hd (xs @ [(s, now)]) = hd xs" using assms by simp_all
  have u: "uint (if a < b then a else b) = min (uint a) (uint b)" "uint (if a > b then a else b) = max (uint a) (uint b)"
    for a b :: u16 by (auto simp: word_less_def min_def max_def)
  have i: "(if a < b then a else b) = min a b" "(if a > b then a else b) = max a b" for a b :: int by auto
  show ?thesis using w unfolding window_of_def
    by (simp add: window_widen_def extremes_snoc[OF False] u i)
qed

lemma window_run_state:
  "if \<not> quiet_window xs then ow_failed (window_run xs)
   else if xs = [] then window_run xs = ocv_window0 else window_of xs (window_run xs)"
proof (induction xs rule: rev_induct)
  case Nil
  then show ?case by (simp add: quiet_window_def spread_def window_run_def)
next
  case (snoc x xs)
  obtain s now where x: "x = (s, now)" by (rule prod.exhaust)
  let ?q = "window_run xs"
  have run: "window_run (xs @ [x]) = snd (window_sample s now ?q)" by (simp add: window_run_def x)
  show ?case
  proof (cases "quiet_window xs")
    case False
    then have "\<not> quiet_window (xs @ [x])" using quiet_window_prefix by blast
    then show ?thesis using snoc False run by (simp add: window_sample_def)
  next
    case True
    then have q: "if xs = [] then ?q = ocv_window0 else window_of xs ?q" using snoc by simp
    have st: "ow_started ?q = (xs \<noteq> [])" "\<not> ow_failed ?q" "xs \<noteq> [] \<longrightarrow> ow_last ?q = snd (last xs)"
      using q by (auto simp: window_of_def ocv_window0_def split: if_splits)
    let ?w = "(window_widen s now ?q)\<lparr>ow_last := now\<rparr>"
    have w: "window_of (xs @ [x]) ?w" using window_widen_of[OF q, of s now] by (simp add: x)
    have wide: "uint (ow_max_mv ?w) - uint (ow_min_mv ?w) > 10 \<or> uint (ow_max_temp ?w) - uint (ow_min_temp ?w) > 5 \<or>
        ow_max_current ?w - ow_min_current ?w > 2 \<or> ow_max_average ?w - ow_min_average ?w > 2 \<longleftrightarrow>
        \<not> (spread (\<lambda>s. uint (os_mv s)) 10 (xs @ [x]) \<and> spread (\<lambda>s. uint (os_temp s)) 5 (xs @ [x]) \<and>
           spread os_current 2 (xs @ [x]) \<and> spread os_average 2 (xs @ [x]))"
      using w unfolding spread_extremes[of "xs @ [x]", simplified] window_of_def by (auto simp del: ocv_window.simps)
    have gap: "now < 0 \<or> \<not> ocv_eligible s \<or> (ow_started ?q \<and> (now < ow_last ?q \<or> now - ow_last ?q > 2500000)) \<longleftrightarrow>
        \<not> ((\<forall>(s, t) \<in> set (xs @ [x]). ocv_eligible s \<and> 0 \<le> t) \<and>
           successively (\<lambda>(_, t) (_, t'). t \<le> t' \<and> t' - t \<le> 2500000) (xs @ [x]))"
      using True st by (auto simp: quiet_window_def x successively_append_iff split: prod.splits)
    show ?thesis
      unfolding run window_sample_def Let_def wide gap using st(2) w unfolding quiet_window_def
      by (simp del: split_paired_All)
  qed
qed

lemma window_ready_iff:
  "window_ready now (window_run xs) \<longleftrightarrow>
     xs \<noteq> [] \<and> quiet_window xs \<and> snd (last xs) \<le> now \<and> now - snd (last xs) \<le> 2500000 \<and> now - snd (hd xs) \<ge> 120000000"
  using window_run_state[of xs]
  by (cases "quiet_window xs"; cases "xs = []") (auto simp: window_ready_def window_of_def ocv_window0_def)

lemma window_sample_last: "window_sample v now q = (True, q') \<Longrightarrow> ow_last q' = now"
  by (auto simp: window_sample_def Let_def split: if_splits)

lemma window_widen_frame:
  "ow_started q \<or> ow_started (window_widen v now q)" "ow_failed (window_widen v now q) = ow_failed q"
  "ow_started q \<Longrightarrow> ow_started (window_widen v now q) \<and> ow_first (window_widen v now q) = ow_first q"
  by (simp_all add: window_widen_def)

lemma window_sample_started:
  "window_sample v now q = (True, q') \<Longrightarrow> ow_started q' \<and> \<not> ow_failed q' \<and> (ow_started q \<longrightarrow> ow_first q' = ow_first q)"
  using window_widen_frame[where q = q and v = v and now = now] by (auto simp: window_sample_def Let_def split: if_splits)

text \<open>C39: The window is ready exactly when it has samples, all of them eligible, with no gap above 2.5 seconds and no step
  back in time (also up to now), the first at least 120 seconds old, and no two of them further apart than 10 mV, half a
  kelvin or 2 mA.\<close>

theorem ocv_window_exact:
  "window_ready now (window_run xs) \<longleftrightarrow>
     xs \<noteq> [] \<and> quiet_window xs \<and> snd (last xs) \<le> now \<and> now - snd (last xs) \<le> 2500000 \<and> now - snd (hd xs) \<ge> 120000000"
  by (rule window_ready_iff)

section \<open>The command is sent once, after a quiet window\<close>

text \<open>The window after more samples.\<close>

definition window_from :: "ocv_window \<Rightarrow> (ocv_sample \<times> int) list \<Rightarrow> ocv_window" where
  "window_from q xs = foldl (\<lambda>q (s, now). snd (window_sample s now q)) q xs"

lemma window_from_simps [simp]:
  "window_from q [] = q" "window_from q ((s, t) # xs) = window_from (snd (window_sample s t q)) xs"
  "window_from (window_from q xs) ys = window_from q (xs @ ys)"
  by (simp_all add: window_from_def)























section \<open>The run returns\<close>

text \<open>What the loops need of the clock: it never goes back, it is what \<open>nowUs\<close> reads, and a wait takes at least its time.\<close>

locale ocv_clock =
  fixes b :: "'s ocv_backend" and clock :: "'s \<Rightarrow> int"
  assumes snapshot_clock: "ob_snapshot b s = (y, s') \<Longrightarrow> clock s \<le> clock s'"
    and now_clock: "ob_now b s = (t, s') \<Longrightarrow> t = clock s' \<and> clock s \<le> clock s'"
    and wait_clock: "clock s + 1000 * uint ms \<le> clock (ob_wait b ms s)"
begin

lemma wait_ms_pos: "0 < left \<Longrightarrow> 1 \<le> uint (wait_ms left)"
proof -
  assume l: "0 < left"
  show ?thesis
  proof (cases "left > 1000000")
    case False
    then have "1 \<le> (left + 999) div 1000" "(left + 999) div 1000 \<le> 1000" using l by linarith+
    then show ?thesis using False by (simp add: wait_ms_def uint_word_of_int)
  qed (simp add: wait_ms_def)
qed

lemma wait_advances: "0 < left \<Longrightarrow> clock s + 1000 \<le> clock (ob_wait b (wait_ms left) s)"
  using wait_clock[of s "wait_ms left"] wait_ms_pos[of left] by linarith

lemma qualify_returns: "ow_started q \<Longrightarrow> qualify_loop b q r s \<noteq> None"
proof (induction "nat (120000000 + ow_first q - clock s)" arbitrary: q r s rule: less_induct)
  case less
  obtain x s1 where 1: "ob_snapshot b s = (x, s1)" by (rule prod.exhaust)
  obtain now s2 where 2: "ob_now b s1 = (now, s2)" by (rule prod.exhaust)
  have t: "clock s \<le> now" "clock s2 = now" using snapshot_clock[OF 1] now_clock[OF 2] by simp_all
  show ?case
  proof (cases x)
    case None
    then show ?thesis by (subst qualify_loop.simps) (simp add: 1 2)
  next
    case (Some v)
    obtain ok q1 where w: "window_sample v now q = (ok, q1)" by (rule prod.exhaust)
    show ?thesis
    proof (cases "ok \<and> \<not> window_ready now q1")
      case False
      then show ?thesis by (subst qualify_loop.simps) (auto simp: 1 2 Some w)
    next
      case True
      note f = window_sample_started[of v now q q1] window_sample_last[of v now q q1]
      let ?s = "ob_wait b (wait_ms (120000000 - (now - ow_first q1))) s2"
      have l: "ow_started q1" "ow_first q1 = ow_first q" "0 < 120000000 - (now - ow_first q1)"
        using True f w less.prems by (auto simp: window_ready_def)
      then have "nat (120000000 + ow_first q1 - clock ?s) < nat (120000000 + ow_first q - clock s)"
        using wait_advances[OF l(3), of s2] t by linarith
      from less.hyps[OF this l(1)] show ?thesis using True by (subst qualify_loop.simps) (simp add: 1 2 Some w)
    qed
  qed
qed

lemma qualify_returns_always: "qualify_loop b q r s \<noteq> None"
proof -
  obtain x s1 where 1: "ob_snapshot b s = (x, s1)" by (rule prod.exhaust)
  obtain now s2 where 2: "ob_now b s1 = (now, s2)" by (rule prod.exhaust)
  show ?thesis
  proof (cases x)
    case None
    then show ?thesis by (subst qualify_loop.simps) (simp add: 1 2)
  next
    case (Some v)
    obtain ok q1 where w: "window_sample v now q = (ok, q1)" by (rule prod.exhaust)
    show ?thesis using window_sample_started[of v now q q1] qualify_returns[of q1]
      by (subst qualify_loop.simps) (cases ok; auto simp: 1 2 Some w)
  qed
qed

lemma watch_returns: "watch_loop b start clear q r s \<noteq> None"
proof (induction "nat (5000000 + start - clock s)" arbitrary: clear q r s rule: less_induct)
  case less
  obtain x s1 where 1: "ob_snapshot b s = (x, s1)" by (rule prod.exhaust)
  obtain now s2 where 2: "ob_now b s1 = (now, s2)" by (rule prod.exhaust)
  have t: "clock s \<le> now" "clock s2 = now" using snapshot_clock[OF 1] now_clock[OF 2] by simp_all
  show ?case
  proof (cases x)
    case None
    then show ?thesis by (subst watch_loop.simps) (simp add: 1 2)
  next
    case (Some v)
    obtain ok q1 where w: "window_sample v now q = (ok, q1)" by (rule prod.exhaust)
    show ?thesis
    proof (cases "ok \<and> 0 < 5000000 - (now - start)")
      case False
      then show ?thesis by (subst watch_loop.simps) (auto simp: 1 2 Some w Let_def)
    next
      case True
      let ?s = "ob_wait b (wait_ms (5000000 - (now - start))) s2"
      have "nat (5000000 + start - clock ?s) < nat (5000000 + start - clock s)"
        using wait_advances[of "5000000 - (now - start)" s2] t True by linarith
      from less.hyps[OF this] show ?thesis using True by (subst watch_loop.simps) (simp add: 1 2 Some w Let_def)
    qed
  qed
qed

lemma watch_done: "ocv_watch b q r s \<noteq> None"
proof -
  obtain t s1 where 1: "ob_now b s = (t, s1)" by (rule prod.exhaust)
  obtain ok q1 r1 s2 where w: "watch_loop b t False q r s1 = Some (ok, q1, r1, s2)"
    using watch_returns[of t False q r s1] by auto
  show ?thesis by (simp add: ocv_watch_def 1 w Let_def)
qed

lemma command_done: "ocv_command b q r s \<noteq> None"
proof -
  obtain ok s1 where 1: "ob_latch b s = (ok, s1)" by (rule prod.exhaust)
  obtain z s2 where 2: "ob_send b q s1 = (z, s2)" by (rule prod.exhaust)
  show ?thesis using watch_done by (cases z) (auto simp: ocv_command_def 1 2 Let_def)
qed

lemma recheck_done: "ocv_recheck b q r s \<noteq> None"
proof -
  obtain ok s1 where 1: "ob_identity b s = (ok, s1)" by (rule prod.exhaust)
  obtain x s2 where 2: "ob_snapshot b s1 = (x, s2)" by (rule prod.exhaust)
  obtain now s3 where 3: "ob_now b s2 = (now, s3)" by (rule prod.exhaust)
  show ?thesis using command_done
    by (cases x) (auto simp: ocv_recheck_def 1 2 3 split: prod.split)
qed

lemma run_returns: "ocv_run b s \<noteq> None"
proof -
  obtain tried s1 where 1: "ob_attempted b s = (tried, s1)" by (rule prod.exhaust)
  obtain ok s2 where 2: "ob_identity b s1 = (ok, s2)" by (rule prod.exhaust)
  obtain good q r s3 where 3: "qualify_loop b ocv_window0 ocv_report0 s2 = Some (good, q, r, s3)"
    using qualify_returns_always[of ocv_window0 ocv_report0 s2] by auto
  show ?thesis using recheck_done by (simp add: ocv_run_def 1 2 3)
qed

end

text \<open>The backend of the firmware has such a clock when its timer and its wait do, as \<open>gauge_delay_ms\<close> promises.\<close>

locale ocv_env_clock =
  fixes e :: "'s ocv_env" and clock :: "'s \<Rightarrow> int"
  assumes gate_clock: "oe_gate e s = (x, s') \<Longrightarrow> clock s \<le> clock s'"
    and word_clock: "oe_word e s reg = (y, s') \<Longrightarrow> clock s \<le> clock s'"
    and timer_clock: "oe_timer e s = (t, s') \<Longrightarrow> t = clock s' \<and> clock s \<le> clock s'"
    and delay_clock: "clock s + 1000 * uint ms \<le> clock (oe_delay e ms s)"
begin

lemma delay_later: "clock s \<le> clock (oe_delay e ms s)"
  using delay_clock[of s ms] uint_ge_0[of ms] by linarith

lemma regs_clock: "read_regs (oe_word e) rs s = (y, s') \<Longrightarrow> clock s \<le> clock s'"
  by (induction rs arbitrary: s y s') (fastforce dest: word_clock split: prod.splits)+

lemma world_clock:
  assumes "on_world f h = (x, h')" "\<And>s y s'. f s = (y, s') \<Longrightarrow> clock s \<le> clock s'"
  shows "clock (oh_world h) \<le> clock (oh_world h')"
  using assms by (auto simp: on_world_def split: prod.splits)

lemma gate_world: "on_world (oe_gate e) h = (x, h') \<Longrightarrow> clock (oh_world h) \<le> clock (oh_world h')"
  by (erule world_clock) (rule gate_clock)

lemma timer_world: "on_world (oe_timer e) h = (t, h') \<Longrightarrow> clock (oh_world h) \<le> clock (oh_world h')"
  by (erule world_clock) (drule timer_clock, simp)

lemma snapshot_world: "on_world (ocv_snapshot (oe_word e)) h = (x, h') \<Longrightarrow> clock (oh_world h) \<le> clock (oh_world h')"
  by (erule world_clock) (auto simp: ocv_snapshot_def dest: regs_clock split: prod.splits)

lemma slot_clock:
  assumes "hal_slot e h = (x, h')"
  shows "clock (oh_world h) \<le> clock (oh_world h')"
proof (cases "oh_seen h")
  case True
  obtain now h1 where 1: "on_world (oe_timer e) h = (now, h1)" by (rule prod.exhaust)
  define h2 where "h2 = (let left = 1000000 - (now - oh_last h1) in
    if left > 0 then h1\<lparr>oh_world := oe_delay e (word_of_int ((left + 999) div 1000)) (oh_world h1)\<rparr> else h1)"
  obtain t h3 where 3: "on_world (oe_timer e) h2 = (t, h3)" by (rule prod.exhaust)
  have m: "clock (oh_world h1) \<le> clock (oh_world h2)" using delay_later by (simp add: h2_def Let_def)
  have "h' = h1 \<or> h' = h3"
    using assms True 3 unfolding h2_def by (auto simp: hal_slot_def 1 Let_def split: prod.splits if_splits)
  then show ?thesis using timer_world[OF 1] m timer_world[OF 3] by auto
qed (use assms in \<open>simp add: hal_slot_def\<close>)

lemma read_clock:
  assumes "hal_read e h = (x, h')"
  shows "clock (oh_world h) \<le> clock (oh_world h')"
  using assms by (auto simp: hal_read_def Let_def dest!: gate_world timer_world snapshot_world split: prod.splits if_splits)

lemma hal_clock: "ocv_clock (hal_backend e) (\<lambda>h. clock (oh_world h))"
proof
  show "clock (oh_world s) \<le> clock (oh_world s')" if "ob_snapshot (hal_backend e) s = (y, s')" for s y s'
    using that by (auto simp: hal_backend_def hal_snapshot_def dest!: slot_clock read_clock split: prod.splits if_splits)
  show "t = clock (oh_world s') \<and> clock (oh_world s) \<le> clock (oh_world s')" if "ob_now (hal_backend e) s = (t, s')" for s t s'
    using that timer_clock[of "oh_world s"] by (auto simp: hal_backend_def on_world_def split: prod.splits)
  show "clock (oh_world s) + 1000 * uint ms \<le> clock (oh_world (ob_wait (hal_backend e) ms s))" for s ms
    using delay_clock by (simp add: hal_backend_def)
qed

end

text \<open>A gauge at rest, whose completion bit is set three seconds after the command. Its state is the clock and the time of
  the packet.\<close>

definition rest_env :: "(int \<times> int option) ocv_env" where
  "rest_env = \<lparr>oe_gauge = (\<lambda>s. True), oe_gate = (\<lambda>s. (True, s)), oe_select = (\<lambda>s. (True, s)),
     oe_word = (\<lambda>(t, a) reg. ((True,
        if reg = 0x40 then 0x0220 else if reg = 0x06 then 2980 else if reg = 0x08 then 4200
        else if reg = 0x0A then (case a of Some u \<Rightarrow> if t \<ge> u + 3000000 then 0x4028 else 0x0028 | None \<Rightarrow> 0x0028)
        else if reg = 0x0C then 0 else if reg = 0x10 then 60 else if reg = 0x12 then 65 else if reg = 0x14 then 1
        else if reg = 0x2C then 92 else if reg = 0x3A then 0x26 else 65), (t + 200, a))),
     oe_timer = (\<lambda>(t, a). (t, (t, a))), oe_delay = (\<lambda>ms (t, a). (t + 1000 * uint ms + 1400000, a)),
     oe_transmit = (\<lambda>p (t, a). (True, (t, Some t)))\<rparr>"

interpretation rest_env: ocv_env_clock rest_env fst
  by unfold_locales (auto simp: rest_env_def)

text \<open>C37: The two waiting loops end: on any backend whose clock does not go back, is what the coordinator reads and moves
  on by at least the time of a wait, every run returns a report.\<close>

theorem ocv_run_returns:
  assumes "ocv_clock b clock"
  shows "\<exists>r s'. ocv_run b s = Some (r, s')"
  using ocv_clock.run_returns[OF assms, of s] by auto

lemma ocv_run_returns_witness: "\<exists>r s'. ocv_run (hal_backend rest_env) (hal_start False (0, None)) = Some (r, s')"
  by (rule ocv_run_returns[OF rest_env.hal_clock])

declare qualify_loop.simps [code] watch_loop.simps [code]



end
