(* ===== verification/Fcc_Journal.thy ===== *)
theory Fcc_Journal
  imports Fcc_Limit_Safety Prelude_Chunks Gauge_Nominal
begin

unbundle bit_operations_syntax

text \<open>
  The stored form of the journal of the limit repair (\<open>main/hal/mosaico/mosaico_fcc_limit_journal_codec.h\<close>), that every journal
  the coordinator of \<open>Fcc_Limit\<close> asks to store has it, and the evidence of an interrupted native recovery that is made of
  such records (\<open>main/hal/mosaico/mosaico_native_recovery_model.h\<close>).
\<close>

section \<open>Shape and codec\<close>

definition state_byte :: "fcc_state \<Rightarrow> u8" where
  "state_byte s = (case s of FS_Pending \<Rightarrow> 1 | FS_Failed \<Rightarrow> 2 | FS_Verified \<Rightarrow> 3)"

definition byte_state :: "u8 \<Rightarrow> fcc_state option" where
  "byte_state b = (if b = 1 then Some FS_Pending else if b = 2 then Some FS_Failed else if b = 3 then Some FS_Verified else None)"

definition mode_byte :: "fcc_mode \<Rightarrow> u8" where
  "mode_byte m = (case m of FM_Runtime \<Rightarrow> 0 | FM_ColdFactory \<Rightarrow> 1)"

definition required_intents :: "fcc_mode \<Rightarrow> fcc_journal \<Rightarrow> u16" where
  "required_intents m j =
     fi_unseal OR fi_full OR fi_enter OR fi_config OR fi_target_verified OR fi_exit OR fi_seal OR
     (if dm_fcc (fj_before j) \<noteq> 65 then fi_fcc else 0) OR (if m = FM_ColdFactory then fi_dc else 0)"

definition fcc_shape :: "fcc_mode \<Rightarrow> fcc_journal \<Rightarrow> bool" where
  "fcc_shape m j \<longleftrightarrow>
     fj_schema j = 1 \<and> fj_intents j AND NOT (if m = FM_Runtime then 1023 else 4095) = 0 \<and>
     (fj_state j = FS_Verified \<longrightarrow>
        fj_backup j \<and> fj_full_verified j \<and> fj_intents j AND required_intents m j = required_intents m j \<and>
        fj_intents j AND (fi_restore_config OR fi_restore_fcc OR fi_restore_dc) = 0) \<and>
     (if \<not> fj_backup j then
        dm_config (fj_before j) = 0 \<and> dm_dc (fj_before j) = 0 \<and> dm_fcc (fj_before j) = 0 \<and>
        dm_config (fj_target j) = 0 \<and> dm_dc (fj_target j) = 0 \<and> dm_fcc (fj_target j) = 0
      else
        fj_full_verified j \<and> dm_config (fj_before j) \<le> 0x1fff \<and> dm_config (fj_before j) AND limit_bit = 0 \<and>
        (if m = FM_Runtime then dm_dc (fj_before j) = 65 \<and> (dm_fcc (fj_before j) = 65 \<or> dm_fcc (fj_before j) = 100)
         else dm_dc (fj_before j) = 3000 \<and> dm_fcc (fj_before j) = 3000) \<and>
        dm_config (fj_target j) = dm_config (fj_before j) OR limit_bit \<and> dm_dc (fj_target j) = 65 \<and> dm_fcc (fj_target j) = 65)"

definition access_flags :: "fcc_journal \<Rightarrow> u8" where
  "access_flags j = (if fj_backup j then 1 else 0) OR (if fj_full_verified j then 2 else 0)"

definition fcc_image :: "fcc_mode \<Rightarrow> fcc_journal \<Rightarrow> bytes" where
  "fcc_image m j =
     (let r = (replicate 48 0)[0 := 0x46, 1 := 0x43, 2 := 0x43, 3 := 0x31];
          r = put_le (put_le r 4 (fj_schema j) 2) 6 (0x0220 :: u16) 2;
          r = r[8 := 1, 11 := mode_byte m, 9 := state_byte (fj_state j), 10 := access_flags j];
          r = put_le (put_bytes r 12 (fj_mac j)) 18 (fj_intents j) 2;
          r = put_le (put_le (put_le r 20 (dm_config (fj_before j)) 2) 22 (dm_dc (fj_before j)) 2) 24 (dm_fcc (fj_before j)) 2;
          r = put_le (put_le (put_le r 26 (dm_config (fj_target j)) 2) 28 (dm_dc (fj_target j)) 2) 30 (dm_fcc (fj_target j)) 2
      in seal r 44)"

definition fcc_encode :: "fcc_mode \<Rightarrow> fcc_journal \<Rightarrow> bytes option" where
  "fcc_encode m j = (if \<not> fcc_shape m j then None else Some (fcc_image m j))"

definition fcc_parsed :: "bytes \<Rightarrow> fcc_state \<Rightarrow> fcc_journal" where
  "fcc_parsed r s = \<lparr>fj_schema = get_le r 4 2, fj_state = s, fj_mac = get_bytes r 12 6, fj_intents = get_le r 18 2,
     fj_backup = (r ! 10 AND 1 \<noteq> 0), fj_full_verified = (r ! 10 AND 2 \<noteq> 0),
     fj_before = \<lparr>dm_config = get_le r 20 2, dm_dc = get_le r 22 2, dm_fcc = get_le r 24 2\<rparr>,
     fj_target = \<lparr>dm_config = get_le r 26 2, dm_dc = get_le r 28 2, dm_fcc = get_le r 30 2\<rparr>\<rparr>"

definition fcc_decode :: "fcc_mode \<Rightarrow> bytes \<Rightarrow> bytes \<Rightarrow> fcc_journal option" where
  "fcc_decode m r mac =
     (if r ! 0 \<noteq> 0x46 \<or> r ! 1 \<noteq> 0x43 \<or> r ! 2 \<noteq> 0x43 \<or> r ! 3 \<noteq> 0x31 \<or> get_le r 4 2 \<noteq> (1 :: u16) \<or>
         get_le r 6 2 \<noteq> (0x0220 :: u16) \<or> r ! 8 \<noteq> 1 \<or> r ! 11 \<noteq> mode_byte m \<or> r ! 10 AND NOT 3 \<noteq> 0 then None
      else if \<not> zeros r 32 44 then None
      else if \<not> sealed r 44 then None
      else if list_ex (\<lambda>i. r ! (12 + i) \<noteq> mac ! i) [0..<6] then None
      else case byte_state (r ! 9) of None \<Rightarrow> None
      | Some s \<Rightarrow> if \<not> fcc_shape m (fcc_parsed r s) then None else Some (fcc_parsed r s))"

definition verified_permission :: "fcc_journal \<Rightarrow> bool" where
  "verified_permission j \<longleftrightarrow>
     (let required = fi_unseal OR fi_full OR fi_enter OR fi_config OR fi_target_verified OR fi_exit OR fi_seal OR
        (if dm_fcc (fj_before j) = 100 then fi_fcc else 0) in
      fcc_shape FM_Runtime j \<and> fj_state j = FS_Verified \<and> fj_backup j \<and> fj_full_verified j \<and>
      fj_intents j AND required = required \<and>
      fj_intents j AND (fi_restore_config OR fi_restore_fcc OR fi_dc OR fi_restore_dc) = 0)"

definition equal_record :: "bytes \<Rightarrow> bytes \<Rightarrow> bool" where
  "equal_record a b \<longleftrightarrow> \<not> list_ex (\<lambda>i. a ! i \<noteq> b ! i) [0..<48]"

section \<open>The codec is canonical\<close>

lemma byte_state_byte [simp]: "byte_state (state_byte s) = Some s"
  by (cases s) (simp_all add: byte_state_def state_byte_def)

lemma state_byte_of: "byte_state b = Some s \<Longrightarrow> state_byte s = b"
  by (auto simp: byte_state_def state_byte_def split: if_splits)

lemma access_flags_bits:
  "access_flags j AND NOT 3 = 0" "access_flags j AND 1 \<noteq> 0 \<longleftrightarrow> fj_backup j" "access_flags j AND 2 \<noteq> 0 \<longleftrightarrow> fj_full_verified j"
  by (simp_all add: access_flags_def)

lemma access_flags_of:
  assumes "(b :: u8) AND NOT 3 = 0"
  shows "(if b AND 1 \<noteq> 0 then 1 else 0) OR (if b AND 2 \<noteq> 0 then 2 else 0) = b"
proof -
  have "b = (b AND 3) OR (b AND NOT 3)" by (rule bit_word_eqI) (auto simp: bit_simps)
  then have "b AND 3 = b" using assms by simp
  then have "b \<le> 3" using word_and_le1[of b 3] by simp
  then have "b = 0 \<or> b = 1 \<or> b = 2 \<or> b = 3" by unat_arith
  then show ?thesis by auto
qed

lemma length_fcc_image [simp]: "length (fcc_image m j) = 48"
  by (simp add: fcc_image_def Let_def)

lemma fcc_image_fields:
  assumes "length (fj_mac j) = 6"
  shows "get_le (fcc_image m j) 4 2 = fj_schema j" "get_le (fcc_image m j) 6 2 = (0x0220 :: u16)"
    "get_bytes (fcc_image m j) 12 6 = fj_mac j" "get_le (fcc_image m j) 18 2 = fj_intents j"
    "get_le (fcc_image m j) 20 2 = dm_config (fj_before j)" "get_le (fcc_image m j) 22 2 = dm_dc (fj_before j)"
    "get_le (fcc_image m j) 24 2 = dm_fcc (fj_before j)" "get_le (fcc_image m j) 26 2 = dm_config (fj_target j)"
    "get_le (fcc_image m j) 28 2 = dm_dc (fj_target j)" "get_le (fcc_image m j) 30 2 = dm_fcc (fj_target j)"
  using assms unfolding fcc_image_def Let_def by (simp_all add: codec_simps del: get_le.simps)

lemma fcc_image_bytes:
  assumes "length (fj_mac j) = 6"
  shows "fcc_image m j ! 0 = 0x46" "fcc_image m j ! 1 = 0x43" "fcc_image m j ! 2 = 0x43" "fcc_image m j ! 3 = 0x31"
    "fcc_image m j ! 8 = 1" "fcc_image m j ! 9 = state_byte (fj_state j)" "fcc_image m j ! 10 = access_flags j"
    "fcc_image m j ! 11 = mode_byte m" "zeros (fcc_image m j) 32 44"
  using assms unfolding fcc_image_def Let_def
  by (auto simp: zeros_iff nth_seal nth_put_le_other nth_put_bytes_other)

lemma fcc_image_sealed: "sealed (fcc_image m j) 44"
  unfolding fcc_image_def Let_def by (rule sealed_seal) simp

lemma fcc_parsed_image:
  "length (fj_mac j) = 6 \<Longrightarrow> fcc_parsed (fcc_image m j) (fj_state j) = j"
  by (simp add: fcc_parsed_def fcc_image_fields fcc_image_bytes access_flags_bits)

lemma fcc_decode_image:
  assumes "fcc_shape m j" "length (fj_mac j) = 6"
  shows "fcc_decode m (fcc_image m j) (fj_mac j) = Some j"
proof -
  have "\<not> list_ex (\<lambda>i. fcc_image m j ! (12 + i) \<noteq> fj_mac j ! i) [0..<6]"
    using fcc_image_fields(3)[OF assms(2), of m] nth_get_bytes[of _ 6 "fcc_image m j" 12] by (auto simp: list_ex_iff)
  then show ?thesis
    using assms fcc_image_sealed fcc_parsed_image[OF assms(2), of m] fcc_image_bytes(9)[OF assms(2), of m]
      access_flags_bits(1)[of j, simplified]
    unfolding fcc_decode_def fcc_image_bytes(1-8)[OF assms(2)]
    by (simp add: fcc_image_fields[OF assms(2)] fcc_shape_def del: get_le.simps)
qed

interpretation fcc_codec: sealed_codec 44 "\<lambda>r. fcc_decode m r mac" "fcc_image m"
  "\<lambda>j. fcc_shape m j \<and> fj_mac j = mac \<and> length mac = 6" for m mac
proof
  show "fcc_decode m b mac = Some j \<Longrightarrow> sealed b 44" for b j
    by (auto simp: fcc_decode_def split: if_splits)
  show "length (fcc_image m j) = 44 + 4" for j by simp
  show "fcc_shape m j \<and> fj_mac j = mac \<and> length mac = 6 \<Longrightarrow> fcc_decode m (fcc_image m j) mac = Some j" for j
    using fcc_decode_image[of m j] by auto
qed

lemma fcc_decode_inverts:
  assumes d: "fcc_decode m r mac = Some j" and l: "length r = 48"
  shows "r = fcc_image m j"
proof -
  obtain s where s: "byte_state (r ! 9) = Some s" "j = fcc_parsed r s" "fcc_shape m j"
    using d by (auto simp: fcc_decode_def split: if_splits option.splits)
  have h: "r ! 0 = 0x46" "r ! 1 = 0x43" "r ! 2 = 0x43" "r ! 3 = 0x31" "get_le r 6 2 = (0x0220 :: u16)" "r ! 8 = 1"
    "r ! 11 = mode_byte m" "r ! 10 AND NOT 3 = 0" "zeros r 32 44" "sealed r 44"
    using d by (auto simp: fcc_decode_def split: if_splits simp del: get_le.simps)
  have mac: "length (fj_mac j) = 6" by (simp add: s fcc_parsed_def)
  note f = fcc_image_fields[OF mac, of m] and b = fcc_image_bytes[OF mac, of m]
  have p: "get_le r 4 2 = fj_schema j" "get_bytes r 12 6 = fj_mac j" "get_le r 18 2 = fj_intents j"
    "get_le r 20 2 = dm_config (fj_before j)" "get_le r 22 2 = dm_dc (fj_before j)" "get_le r 24 2 = dm_fcc (fj_before j)"
    "get_le r 26 2 = dm_config (fj_target j)" "get_le r 28 2 = dm_dc (fj_target j)" "get_le r 30 2 = dm_fcc (fj_target j)"
    "state_byte (fj_state j) = r ! 9" "access_flags j = r ! 10"
    using state_byte_of[OF s(1)] access_flags_of[OF h(8)] by (simp_all add: s fcc_parsed_def access_flags_def)
  let ?q = "fcc_image m j"
  have "agree r ?q 0 1" by (rule agree_nth) (simp_all add: h b)
  also have "agree r ?q 1 2" by (rule agree_nth) (simp_all add: h b del: One_nat_def)
  also have "agree r ?q 2 3" by (rule agree_nth) (simp_all add: h b)
  also have "agree r ?q 3 4" by (rule agree_nth) (simp_all add: h b)
  also have "agree r ?q 4 6" by (rule agree_le[where ?'a = 16]) (simp_all add: f p del: get_le.simps)
  also have "agree r ?q 6 8" by (rule agree_le[where ?'a = 16]) (simp_all add: f h del: get_le.simps)
  also have "agree r ?q 8 9" by (rule agree_nth) (simp_all add: h b)
  also have "agree r ?q 9 10" by (rule agree_nth) (simp_all add: p b)
  also have "agree r ?q 10 11" by (rule agree_nth) (simp_all add: p b)
  also have "agree r ?q 11 12" by (rule agree_nth) (simp_all add: h b)
  also have "agree r ?q 12 18" by (rule agree_bytes) (simp_all add: f p)
  also have "agree r ?q 18 20" by (rule agree_le[where ?'a = 16]) (simp_all add: f p del: get_le.simps)
  also have "agree r ?q 20 22" by (rule agree_le[where ?'a = 16]) (simp_all add: f p del: get_le.simps)
  also have "agree r ?q 22 24" by (rule agree_le[where ?'a = 16]) (simp_all add: f p del: get_le.simps)
  also have "agree r ?q 24 26" by (rule agree_le[where ?'a = 16]) (simp_all add: f p del: get_le.simps)
  also have "agree r ?q 26 28" by (rule agree_le[where ?'a = 16]) (simp_all add: f p del: get_le.simps)
  also have "agree r ?q 28 30" by (rule agree_le[where ?'a = 16]) (simp_all add: f p del: get_le.simps)
  also have "agree r ?q 30 32" by (rule agree_le[where ?'a = 16]) (simp_all add: f p del: get_le.simps)
  also have "agree r ?q 32 44" by (rule agree_zeros) (simp_all add: h b)
  finally have a: "agree r ?q 0 44" .
  have "take 44 r = take 44 ?q" using a l by (intro nth_equalityI) (auto simp: agree_def)
  then have "get_le r 44 4 = (get_le ?q 44 4 :: u32)"
    using h(10) fcc_image_sealed[of m j] by (simp add: sealed_def del: get_le.simps)
  then have "agree r ?q 44 48" by (rule agree_le) simp_all
  with a have "agree r ?q 0 48" by (rule agree_join)
  then show ?thesis using l by (simp add: agree_all)
qed

lemma fcc_decode_facts:
  assumes "fcc_decode m r mac = Some j" "length mac = 6"
  shows "fcc_shape m j" "fj_mac j = mac"
proof -
  show "fcc_shape m j" using assms(1) by (auto simp: fcc_decode_def split: if_splits option.splits)
  have "\<not> list_ex (\<lambda>i. r ! (12 + i) \<noteq> mac ! i) [0..<6]" "\<exists>s. j = fcc_parsed r s"
    using assms(1) by (auto simp: fcc_decode_def split: if_splits option.splits)
  then show "fj_mac j = mac"
    using assms(2) by (auto simp: fcc_parsed_def list_ex_iff intro: nth_equalityI)
qed

lemma fcc_decode_iff:
  assumes "length r = 48" "length mac = 6"
  shows "fcc_decode m r mac = Some j \<longleftrightarrow> fcc_shape m j \<and> fj_mac j = mac \<and> r = fcc_image m j"
proof
  assume d: "fcc_decode m r mac = Some j"
  show "fcc_shape m j \<and> fj_mac j = mac \<and> r = fcc_image m j"
    using fcc_decode_facts[OF d assms(2)] fcc_decode_inverts[OF d assms(1)] by blast
next
  assume a: "fcc_shape m j \<and> fj_mac j = mac \<and> r = fcc_image m j"
  then show "fcc_decode m r mac = Some j" using fcc_decode_image[of m j] assms(2) by simp
qed

text \<open>C38: The codec of the limit repair is canonical: in each mode, 48 bytes are accepted for a device exactly when they are
  the encoding of a journal of that device with the right shape, and it is this journal that is read. In particular no
  record of one mode is accepted in the other.\<close>

theorem fcc_journal_canonical:
  assumes "length r = 48" "length mac = 6"
  shows "fcc_decode m r mac = Some j \<longleftrightarrow> fj_mac j = mac \<and> fcc_encode m j = Some r"
  by (auto simp: fcc_decode_iff[OF assms] fcc_encode_def)

lemma fcc_journal_canonical_witness:
  "let j = fcc_journal0\<lparr>fj_mac := [0x24, 1, 2, 3, 4, 5], fj_intents := 3\<rparr>; r = fcc_image FM_ColdFactory j in
     fcc_decode FM_ColdFactory r [0x24, 1, 2, 3, 4, 5] = Some j"
  unfolding Let_def
  by (subst fcc_journal_canonical) (simp_all add: fcc_encode_def fcc_shape_def fcc_journal0_def zero_dm_def)

text \<open>The permission of the runtime mode is nothing more than a verified journal of the right shape.\<close>

lemma verified_permission_iff: "verified_permission j \<longleftrightarrow> fcc_shape FM_Runtime j \<and> fj_state j = FS_Verified"
proof
  assume a: "fcc_shape FM_Runtime j \<and> fj_state j = FS_Verified"
  then have m: "fj_intents j AND NOT 1023 = 0" by (simp add: fcc_shape_def)
  have "fj_intents j AND 3072 = 0"
  proof -
    have "fj_intents j AND 3072 = (fj_intents j AND NOT 1023) AND 3072" by (simp add: and.assoc)
    then show ?thesis using m by simp
  qed
  moreover have "fj_intents j AND (32 OR 64 OR 2048) = 0" using a by (simp add: fcc_shape_def fcc_intents)
  then have "fj_intents j AND 2144 = 0" by simp
  ultimately have "fj_intents j AND (3072 OR 2144) = 0" by (simp only: bit.conj_disj_distrib) simp
  then show "verified_permission j"
    using a by (cases "dm_fcc (fj_before j) = 65"; cases "dm_fcc (fj_before j) = 100")
      (simp_all add: verified_permission_def fcc_shape_def required_intents_def fcc_intents Let_def)
qed (simp add: verified_permission_def Let_def)

section \<open>Every journal the coordinator stores has the shape\<close>

definition fcc_saves :: "fcc_event list \<Rightarrow> fcc_journal set" where
  "fcc_saves l = {j. \<exists>ok. FE_Save j ok \<in> set l}"

lemma fcc_saves_append [simp]: "fcc_saves (l @ k) = fcc_saves l \<union> fcc_saves k"
  by (auto simp: fcc_saves_def)

lemma fcc_saves_event [simp]: "fcc_saves [FE_Save j ok] = {j}" "fcc_saves [] = {}"
  by (auto simp: fcc_saves_def)

text \<open>So far every stored journal has the shape, and so has the current one, which is not verified yet.\<close>

definition shaped :: "fcc_mode \<Rightarrow> ('s \<times> fcc_event list) fcc \<Rightarrow> bool" where
  "shaped m x \<longleftrightarrow> (\<forall>j \<in> fcc_saves (fcc_log x). fcc_shape m j) \<and> fcc_shape m (fc_journal x) \<and> fj_state (fc_journal x) \<noteq> FS_Verified"

definition keeps_shape :: "fcc_mode \<Rightarrow> (('s \<times> fcc_event list) fcc \<Rightarrow> 'a \<times> ('s \<times> fcc_event list) fcc) \<Rightarrow> bool" where
  "keeps_shape m f \<longleftrightarrow> (\<forall>x a y. shaped m x \<longrightarrow> f x = (a, y) \<longrightarrow> shaped m y)"

named_theorems keeps

lemma keeps_shapeD: "keeps_shape m f \<Longrightarrow> shaped m x \<Longrightarrow> f x = (a, y) \<Longrightarrow> shaped m y"
  unfolding keeps_shape_def by blast

lemma shaped_same: "shaped m x \<Longrightarrow> fc_journal y = fc_journal x \<Longrightarrow> fcc_saves (fcc_log y) = fcc_saves (fcc_log x) \<Longrightarrow> shaped m y"
  by (simp add: shaped_def)

lemma keeps_hush [keeps]: "keeps_shape m (fcc_call (hush f))"
  unfolding keeps_shape_def using call_hush(2,3) by (metis shaped_same)

lemma keeps_tell: "(\<And>ok. fcc_saves [ev ok] = {}) \<Longrightarrow> keeps_shape m (fcc_call (tell ev f))"
  unfolding keeps_shape_def using call_tell(1,2) by (metis shaped_same fcc_saves_append Un_empty_right)

lemma keeps_commands [keeps]:
  "keeps_shape m (fcc_call (tell FE_Unseal f))" "keeps_shape m (fcc_call (tell FE_Full f))" "keeps_shape m (fcc_call (tell FE_Enter f))"
  "keeps_shape m (fcc_call (tell (FE_Config v) f))" "keeps_shape m (fcc_call (tell (FE_Dc v) f))"
  "keeps_shape m (fcc_call (tell (FE_Fcc v) f))" "keeps_shape m (fcc_call (tell FE_Exit f))" "keeps_shape m (fcc_call (tell FE_Reseal f))"
  by (rule keeps_tell; simp add: fcc_saves_def)+

lemma keeps_observe [keeps]: "keeps_shape m (fcc_observe (recorded_fcc b) P)"
  unfolding keeps_shape_def using observe_calm(2,3) by (metis shaped_same)

lemma keeps_full_cfg [keeps]: "keeps_shape m (full_cfg (recorded_fcc b))"
  unfolding full_cfg_def by (rule keeps_observe)

lemma keeps_check_quiet [keeps]: "keeps_shape m (fcc_check_quiet (recorded_fcc b) m' P)"
  unfolding keeps_shape_def
proof (intro allI impI)
  fix x a y
  assume x: "shaped m x" "fcc_check_quiet (recorded_fcc b) m' P x = (a, y)"
  obtain r z where c: "fcc_call (hush (fb_quiet b)) x = (r, z)" by (rule prod.exhaust)
  then have "y = z" using x(2) by (cases r) (simp_all add: fcc_check_quiet_def)
  then show "shaped m y" using keeps_shapeD[OF keeps_hush x(1) c] by simp
qed

lemma keeps_known [keeps]: "keeps_shape m (fcc_known (recorded_fcc b))"
  unfolding keeps_shape_def
proof (intro allI impI)
  fix x a y
  assume x: "shaped m x" "fcc_known (recorded_fcc b) x = (a, y)"
  obtain r z where c: "fcc_call (hush (fb_dm b)) x = (r, z)" by (rule prod.exhaust)
  then have "y = z" using x(2) by (cases r) (simp_all add: fcc_known_def)
  then show "shaped m y" using keeps_shapeD[OF keeps_hush x(1) c] by simp
qed

lemma keeps_all_of [keeps]: "(\<And>f. f \<in> set fs \<Longrightarrow> keeps_shape m f) \<Longrightarrow> keeps_shape m (all_of fs)"
proof (induction fs)
  case (Cons f fs)
  then have k: "keeps_shape m f" "keeps_shape m (all_of fs)" by simp_all
  show ?case
    unfolding keeps_shape_def
  proof (intro allI impI)
    fix x a y
    assume x: "shaped m x" "all_of (f # fs) x = (a, y)"
    obtain ok z where f: "f x = (ok, z)" by (rule prod.exhaust)
    then show "shaped m y" using keeps_shapeD[OF k(1) x(1) f] keeps_shapeD[OF k(2), of z a y] x(2) by (cases ok) simp_all
  qed
qed (simp add: keeps_shape_def)

definition allowed_intent :: "fcc_mode \<Rightarrow> u16 \<Rightarrow> bool" where
  "allowed_intent m flag \<longleftrightarrow> flag AND NOT (if m = FM_Runtime then 1023 else 4095) = 0"

lemma shape_intents:
  assumes "fcc_shape m j" "fj_state j \<noteq> FS_Verified" "allowed_intent m flag"
  shows "fcc_shape m (j\<lparr>fj_intents := fj_intents j OR flag\<rparr>)"
  using assms by (simp add: fcc_shape_def allowed_intent_def bit.conj_disj_distrib2)

lemma keeps_intent [keeps]:
  assumes "allowed_intent m flag"
  shows "keeps_shape m (fcc_intent (recorded_fcc b) m flag)"
  unfolding keeps_shape_def
proof (intro allI impI)
  fix x a y
  assume "shaped m x" "fcc_intent (recorded_fcc b) m flag x = (a, y)"
  then show "shaped m y"
    using intent_log[of b m flag x a y] shape_intents[OF _ _ assms, of "fc_journal x"] by (auto simp: shaped_def split: if_splits)
qed

lemma allowed_intents [simp]:
  "allowed_intent m fi_unseal" "allowed_intent m fi_full" "allowed_intent m fi_enter" "allowed_intent m fi_config"
  "allowed_intent m fi_fcc" "allowed_intent m fi_restore_config" "allowed_intent m fi_restore_fcc" "allowed_intent m fi_exit"
  "allowed_intent m fi_seal" "allowed_intent m fi_target_verified" "allowed_intent FM_ColdFactory fi_dc"
  "allowed_intent FM_ColdFactory fi_restore_dc"
  by (simp_all add: allowed_intent_def fcc_intents)

lemma keeps_snd: "keeps_shape m f \<Longrightarrow> shaped m x \<Longrightarrow> shaped m (snd (f x))"
  by (cases "f x") (auto dest: keeps_shapeD)

text \<open>A step whose failure ends the function where it is, and one whose answer is used by the rest.\<close>

lemma shaped_step:
  assumes "keeps_shape m f" "shaped m x" "\<And>y. shaped m y \<Longrightarrow> shaped m (g y)"
  shows "shaped m (case f x of (False, y) \<Rightarrow> y | (True, y) \<Rightarrow> g y)"
proof -
  obtain ok y where f: "f x = (ok, y)" by (rule prod.exhaust)
  then show ?thesis using keeps_shapeD[OF assms(1,2) f] assms(3) by (cases ok) simp_all
qed

lemma shaped_if: "(P \<Longrightarrow> shaped m x) \<Longrightarrow> (\<not> P \<Longrightarrow> shaped m y) \<Longrightarrow> shaped m (if P then x else y)"
  by simp

lemma shaped_known:
  assumes "shaped m x" "\<And>v y. shaped m y \<Longrightarrow> shaped m (g v y)"
  shows "shaped m (case fcc_known (recorded_fcc b) x of (None, y) \<Rightarrow> y | (Some v, y) \<Rightarrow> g v y)"
proof -
  obtain r y where f: "fcc_known (recorded_fcc b) x = (r, y)" by (rule prod.exhaust)
  then show ?thesis using keeps_shapeD[OF keeps_known assms(1) f] assms(2) by (cases r) simp_all
qed

lemma keeps_write:
  assumes "allowed_intent m flag" "keeps_shape m w"
  shows "keeps_shape m (all_of [fcc_intent (recorded_fcc b) m flag, full_cfg (recorded_fcc b), w])"
  by (rule keeps_all_of) (use assms keeps_intent keeps_full_cfg in auto)

lemma shaped_rollback_fcc: "shaped m x \<Longrightarrow> shaped m (rollback_fcc (recorded_fcc b) m x)"
  unfolding rollback_fcc_def recorded_simps Let_def
  by (intro shaped_step shaped_known keeps_full_cfg) (simp_all add: keeps_snd keeps_write keeps_commands del: all_of.simps)

lemma shaped_rollback_dc: "shaped m x \<Longrightarrow> shaped m (rollback_dc (recorded_fcc b) m x)"
  unfolding rollback_dc_def recorded_simps Let_def
proof (intro shaped_step shaped_known keeps_full_cfg)
  fix v and y :: "('a \<times> fcc_event list) fcc"
  assume y: "shaped m y"
  have "shaped m (case all_of [fcc_intent (recorded_fcc b) m fi_restore_dc, full_cfg (recorded_fcc b),
      fcc_call (tell (FE_Dc d) (fb_dc b d))] y of (False, x) \<Rightarrow> x | (True, x) \<Rightarrow> rollback_fcc (recorded_fcc b) m x)"
    if "m = FM_ColdFactory" for d
    by (rule shaped_step) (use y that in \<open>auto intro: keeps_write keeps_commands shaped_rollback_fcc simp del: all_of.simps\<close>)
  then show "shaped m (if dm_config v \<noteq> dm_config (fj_before (fc_journal y)) then y
      else if dm_dc v \<noteq> dm_dc (fj_before (fc_journal y))
      then if m \<noteq> FM_ColdFactory then y
        else case all_of [fcc_intent (recorded_fcc b) m fi_restore_dc, full_cfg (recorded_fcc b),
            fcc_call (tell (FE_Dc (dm_dc (fj_before (fc_journal y)))) (fb_dc b (dm_dc (fj_before (fc_journal y)))))] y of
          (False, x) \<Rightarrow> x | (True, x) \<Rightarrow> rollback_fcc (recorded_fcc b) m x
      else rollback_fcc (recorded_fcc b) m y)"
    using y shaped_rollback_fcc[OF y, of b] by (cases m) (simp_all del: all_of.simps)
qed

lemma shaped_rollback: "shaped m x \<Longrightarrow> shaped m (rollback (recorded_fcc b) m x)"
proof -
  assume x: "shaped m x"
  have w: "shaped m y \<Longrightarrow> shaped m (case all_of [fcc_intent (recorded_fcc b) m fi_restore_config, full_cfg (recorded_fcc b),
      fcc_call (tell (FE_Config c) (fb_config b c))] y of (False, x) \<Rightarrow> x | (True, x) \<Rightarrow> rollback_dc (recorded_fcc b) m x)" for y c
    by (rule shaped_step) (auto intro: keeps_write keeps_commands shaped_rollback_dc simp del: all_of.simps)
  show ?thesis
  proof (cases "fj_backup (fc_journal x)")
    case True
    have "shaped m (case full_cfg (recorded_fcc b) x of (False, x) \<Rightarrow> x | (True, x) \<Rightarrow>
       (case fcc_known (recorded_fcc b) x of (None, x) \<Rightarrow> x
        | (Some now, x) \<Rightarrow>
          if dm_config now \<noteq> dm_config (fj_before (fc_journal x)) then
            (case all_of [fcc_intent (recorded_fcc b) m fi_restore_config, full_cfg (recorded_fcc b),
                fcc_call (tell (FE_Config (dm_config (fj_before (fc_journal x)))) (fb_config b (dm_config (fj_before (fc_journal x)))))] x of
               (False, x) \<Rightarrow> x | (True, x) \<Rightarrow> rollback_dc (recorded_fcc b) m x)
          else rollback_dc (recorded_fcc b) m x))"
      by (intro shaped_step[OF keeps_full_cfg x] shaped_known shaped_if) (assumption | (rule w shaped_rollback_dc, assumption))+
    with True show ?thesis unfolding rollback_def recorded_simps Let_def by simp
  qed (use x in \<open>simp add: rollback_def\<close>)
qed

lemma shaped_frame [simp]: "shaped m (x\<lparr>fc_exited := e\<rparr>) = shaped m x" "shaped m (x\<lparr>fc_accessed := e\<rparr>) = shaped m x"
  by (simp_all add: shaped_def fcc_log_def)

lemma keeps_cleanup: "keeps_shape m (fcc_cleanup (recorded_fcc b) m)"
  unfolding keeps_shape_def
proof (intro allI impI)
  fix x a y
  assume x: "shaped m x" "fcc_cleanup (recorded_fcc b) m x = (a, y)"
  show "shaped m y"
  proof (cases "fc_accessed x")
    case False
    then show ?thesis using x by (simp add: fcc_cleanup_def)
  next
    case True
    define first where "first = (if \<not> fc_exited x then
        (case fcc_intent (recorded_fcc b) m fi_exit (x\<lparr>fc_exited := True\<rparr>) of (ok1, x) \<Rightarrow>
         case fcc_call (fb_exit (recorded_fcc b)) x of (ok2, x) \<Rightarrow> (ok1 \<and> ok2, x)) else (True, x))"
    obtain ok x1 where 1: "first = (ok, x1)" by (rule prod.exhaust)
    obtain ok1 z where e: "fcc_intent (recorded_fcc b) m fi_exit (x\<lparr>fc_exited := True\<rparr>) = (ok1, z)" by (rule prod.exhaust)
    obtain ok2 z' where e': "fcc_call (tell FE_Exit (fb_exit b)) z = (ok2, z')" by (rule prod.exhaust)
    have s: "shaped m x1"
      using 1 x(1) keeps_shapeD[OF keeps_intent _ e] keeps_shapeD[OF keeps_commands(7) _ e'] by (auto simp: first_def e e' split: if_splits)
    obtain ok3 x2 where 2: "fcc_intent (recorded_fcc b) m fi_seal x1 = (ok3, x2)" by (rule prod.exhaust)
    obtain ok4 x3 where 3: "fcc_call (tell FE_Reseal (fb_reseal b)) x2 = (ok4, x3)" by (rule prod.exhaust)
    obtain ok5 x4 where 4: "fcc_observe (recorded_fcc b) (\<lambda>s. fsec_sec s = 3 \<and> normal_security s) x3 = (ok5, x4)"
      by (rule prod.exhaust)
    have "shaped m x4"
      using keeps_shapeD[OF keeps_observe keeps_shapeD[OF keeps_commands(8) keeps_shapeD[OF keeps_intent s 2] 3] 4] by simp
    then show ?thesis using x(2) True 2 3 4 1 by (simp add: fcc_cleanup_def first_def)
  qed
qed

lemma save_saves:
  "fcc_save (recorded_fcc b) m x = (ok, y) \<Longrightarrow> fcc_log y = fcc_log x @ [FE_Save (fc_journal x) ok] \<and> fc_journal y = fc_journal x"
  unfolding fcc_save_def recorded_simps using call_tell(1,2) by blast

lemma fail_saves:
  assumes "shaped m x" "fcc_fail (recorded_fcc b) m x = (r, y)"
  shows "\<forall>j \<in> fcc_saves (fcc_log y). fcc_shape m j"
proof -
  define z where "z = (if fc_accessed x then snd (fcc_cleanup (recorded_fcc b) m (rollback (recorded_fcc b) m x)) else x)"
  have z: "shaped m z" using assms(1) by (simp add: z_def keeps_snd keeps_cleanup shaped_rollback)
  obtain ok w where w: "fcc_save (recorded_fcc b) m (z\<lparr>fc_journal := (fc_journal z)\<lparr>fj_state := FS_Failed\<rparr>\<rparr>) = (ok, w)"
    by (rule prod.exhaust)
  have "y = w" using assms(2) w by (simp add: fcc_fail_def z_def[symmetric] Let_def)
  moreover have "fcc_shape m ((fc_journal z)\<lparr>fj_state := FS_Failed\<rparr>)" using z by (simp add: shaped_def fcc_shape_def)
  ultimately show ?thesis using save_saves[OF w] z by (auto simp: shaped_def fcc_log_def)
qed

section \<open>A verified run has every intent\<close>

text \<open>What a step that succeeds does to the journal: \<open>w\<close> are the intents it adds.\<close>

definition adds :: "(('s \<times> fcc_event list) fcc \<Rightarrow> bool \<times> ('s \<times> fcc_event list) fcc) \<Rightarrow> u16 \<Rightarrow> bool" where
  "adds f w \<longleftrightarrow> (\<forall>x y. f x = (True, y) \<longrightarrow>
     fc_journal y = (fc_journal x)\<lparr>fj_intents := fj_intents (fc_journal x) OR w\<rparr> \<and> fc_exited y = fc_exited x \<and>
     fc_accessed y = fc_accessed x)"

lemma addsD:
  "adds f w \<Longrightarrow> f x = (True, y) \<Longrightarrow>
     fc_journal y = (fc_journal x)\<lparr>fj_intents := fj_intents (fc_journal x) OR w\<rparr> \<and> fc_exited y = fc_exited x \<and>
     fc_accessed y = fc_accessed x"
  unfolding adds_def by blast

lemma hush_frame: "fcc_call (hush f) x = (a, y) \<Longrightarrow> fc_journal y = fc_journal x \<and> fc_exited y = fc_exited x \<and> fc_accessed y = fc_accessed x"
  using call_hush(1)[of f x a y True] call_hush(2)[of f x a y] by (simp add: calm_def)

lemma tell_frame: "fcc_call (tell ev f) x = (a, y) \<Longrightarrow> fc_journal y = fc_journal x \<and> fc_exited y = fc_exited x \<and> fc_accessed y = fc_accessed x"
  using call_tell(2-4)[of ev f x a y] by simp

lemma adds_calls:
  "adds (fcc_call (hush f)) 0" "adds (fcc_call (tell ev f)) 0" "adds (fcc_observe (recorded_fcc b) P) 0"
  "adds (full_cfg (recorded_fcc b)) 0"
proof -
  show "adds (fcc_call (hush f)) 0" unfolding adds_def by (auto dest!: hush_frame)
  show "adds (fcc_call (tell ev f)) 0" unfolding adds_def by (auto dest!: tell_frame)
  show o: "adds (fcc_observe (recorded_fcc b) P) 0" for P
    unfolding adds_def
  proof (intro allI impI)
    fix x y assume "fcc_observe (recorded_fcc b) P x = (True, y)"
    note c = observe_calm(1)[OF this, of True] observe_calm(2)[OF this]
    then show "fc_journal y = (fc_journal x)\<lparr>fj_intents := fj_intents (fc_journal x) OR 0\<rparr> \<and> fc_exited y = fc_exited x \<and>
        fc_accessed y = fc_accessed x" by (simp add: calm_def)
  qed
  show "adds (full_cfg (recorded_fcc b)) 0" unfolding full_cfg_def by (rule o)
qed

lemma adds_check_quiet: "adds (fcc_check_quiet (recorded_fcc b) m P) 0"
  unfolding adds_def
proof (intro allI impI)
  fix x y
  assume x: "fcc_check_quiet (recorded_fcc b) m P x = (True, y)"
  obtain r z where c: "fcc_call (hush (fb_quiet b)) x = (r, z)" by (rule prod.exhaust)
  then have "y = z" using x by (cases r) (simp_all add: fcc_check_quiet_def)
  then show "fc_journal y = (fc_journal x)\<lparr>fj_intents := fj_intents (fc_journal x) OR 0\<rparr> \<and> fc_exited y = fc_exited x \<and>
      fc_accessed y = fc_accessed x" using hush_frame[OF c] by simp
qed

lemma adds_intent: "adds (fcc_intent (recorded_fcc b) m flag) flag"
  unfolding adds_def by (auto dest!: intent_log split: if_splits)

lemma adds_nil: "adds (all_of []) 0"
  by (simp add: adds_def)

lemma adds_cons: "adds f v \<Longrightarrow> adds (all_of fs) w \<Longrightarrow> adds (all_of (f # fs)) (v OR w)"
  unfolding adds_def by (fastforce simp: or.assoc split: prod.splits bool.splits)

lemma adds_append: "adds (all_of fs) v \<Longrightarrow> adds (all_of gs) w \<Longrightarrow> adds (all_of (fs @ gs)) (v OR w)"
  unfolding adds_def all_of_append by (fastforce simp: or.assoc split: prod.splits bool.splits)

lemma adds_access: "adds (fcc_access (recorded_fcc b) m) fi_full"
proof -
  have "adds (fcc_access (recorded_fcc b) m) (0 OR (0 OR (0 OR (fi_full OR (0 OR (0 OR 0))))))"
    unfolding fcc_access_def recorded_simps by (intro adds_cons adds_nil adds_calls adds_check_quiet adds_intent)
  then show ?thesis by simp
qed

lemma adds_write: "adds (all_of [fcc_intent (recorded_fcc b) m flag, full_cfg (recorded_fcc b), fcc_call (tell ev f)]) flag"
proof -
  have "adds (all_of [fcc_intent (recorded_fcc b) m flag, full_cfg (recorded_fcc b), fcc_call (tell ev f)]) (flag OR (0 OR (0 OR 0)))"
    by (intro adds_cons adds_nil adds_calls adds_intent)
  then show ?thesis by simp
qed

lemma adds_if: "adds (all_of fs) w \<Longrightarrow> adds (all_of (if P then fs else [])) (if P then w else 0)"
  by (cases P) (simp_all only: if_True if_False adds_nil)

lemma adds_change:
  "adds (fcc_change (recorded_fcc b) m first)
     (fi_enter OR fi_config OR (if m = FM_ColdFactory then fi_dc else 0) OR (if dm_fcc first \<noteq> 65 then fi_fcc else 0) OR
      fi_target_verified)"
  unfolding adds_def
proof (intro allI impI)
  fix x y
  assume run: "fcc_change (recorded_fcc b) m first x = (True, y)"
  let ?w = "(fi_enter OR (0 OR (0 OR (0 OR (fi_config OR (0 OR (0 OR 0))))))) OR
     ((if m = FM_ColdFactory then fi_dc else 0) OR ((if dm_fcc first \<noteq> 65 then fi_fcc else 0) OR (0 OR (fi_target_verified OR 0))))"
  have "adds (\<lambda>z. all_of
       ([fcc_intent (recorded_fcc b) m fi_enter, fcc_call (tell FE_Enter (fb_enter b)), fcc_call (hush (fb_wait b)), full_cfg (recorded_fcc b),
         fcc_intent (recorded_fcc b) m fi_config, full_cfg (recorded_fcc b),
         fcc_call (tell (FE_Config (dm_config (fj_target (fc_journal x)))) (fb_config b (dm_config (fj_target (fc_journal x)))))] @
        (if m = FM_ColdFactory then [fcc_intent (recorded_fcc b) m fi_dc, full_cfg (recorded_fcc b), fcc_call (tell (FE_Dc 65) (fb_dc b 65))] else []) @
        (if dm_fcc first \<noteq> 65 then [fcc_intent (recorded_fcc b) m fi_fcc, full_cfg (recorded_fcc b), fcc_call (tell (FE_Fcc 65) (fb_fcc b 65))] else []) @
        [fcc_call (hush (fb_verify b (fj_target (fc_journal x)) False)), fcc_intent (recorded_fcc b) m fi_target_verified]) z) ?w"
    by (intro adds_append adds_if adds_write adds_cons adds_nil adds_calls adds_intent)
  from addsD[OF this run[unfolded fcc_change_def recorded_simps]]
  show "fc_journal y = (fc_journal x)\<lparr>fj_intents := fj_intents (fc_journal x) OR (fi_enter OR fi_config OR
      (if m = FM_ColdFactory then fi_dc else 0) OR (if dm_fcc first \<noteq> 65 then fi_fcc else 0) OR fi_target_verified)\<rparr> \<and>
      fc_exited y = fc_exited x \<and> fc_accessed y = fc_accessed x"
    by (simp add: or.assoc)
qed

text \<open>A cleanup that closes the gauge has both closing intents.\<close>

lemma cleanup_closed:
  assumes "fcc_cleanup (recorded_fcc b) m x = (True, y)" "fc_accessed x" "\<not> fc_exited x"
  shows "fc_journal y = (fc_journal x)\<lparr>fj_intents := fj_intents (fc_journal x) OR fi_exit OR fi_seal\<rparr>"
proof -
  obtain ok1 x1 where 1: "fcc_intent (recorded_fcc b) m fi_exit (x\<lparr>fc_exited := True\<rparr>) = (ok1, x1)" by (rule prod.exhaust)
  obtain ok2 x2 where 2: "fcc_call (tell FE_Exit (fb_exit b)) x1 = (ok2, x2)" by (rule prod.exhaust)
  obtain ok3 x3 where 3: "fcc_intent (recorded_fcc b) m fi_seal x2 = (ok3, x3)" by (rule prod.exhaust)
  obtain ok4 x4 where 4: "fcc_call (tell FE_Reseal (fb_reseal b)) x3 = (ok4, x4)" by (rule prod.exhaust)
  obtain ok5 x5 where 5: "fcc_observe (recorded_fcc b) (\<lambda>s. fsec_sec s = 3 \<and> normal_security s) x4 = (ok5, x5)"
    by (rule prod.exhaust)
  have ok: "ok1" "ok3" "y = x5" using assms 1 2 3 4 5 by (simp_all add: fcc_cleanup_def)
  have "fc_journal x1 = (fc_journal x)\<lparr>fj_intents := fj_intents (fc_journal x) OR fi_exit\<rparr>"
    using addsD[OF adds_intent, of b m fi_exit "x\<lparr>fc_exited := True\<rparr>" x1] 1 ok(1) by simp
  moreover have "fc_journal x2 = fc_journal x1" using tell_frame[OF 2] by simp
  moreover have "fc_journal x3 = (fc_journal x2)\<lparr>fj_intents := fj_intents (fc_journal x2) OR fi_seal\<rparr>"
    using addsD[OF adds_intent, of b m fi_seal x2 x3] 3 ok(2) by simp
  moreover have "fc_journal x5 = fc_journal x3" using tell_frame[OF 4] observe_calm(2)[OF 5] by simp
  ultimately show ?thesis using ok(3) by (simp add: or.assoc)
qed

text \<open>From a journal with exactly the intents of the change, \<open>finish\<close> stores a journal with the shape; a verified result is
  that of a stored verified journal.\<close>

lemma finish_saves:
  assumes x: "shaped m x" "fc_accessed x" "\<not> fc_exited x" "fj_backup (fc_journal x)"
    and i: "fj_intents (fc_journal x) = fi_unseal OR fi_full OR fi_enter OR fi_config OR
      (if m = FM_ColdFactory then fi_dc else 0) OR (if dm_fcc (fj_before (fc_journal x)) \<noteq> 65 then fi_fcc else 0) OR fi_target_verified"
    and run: "fcc_finish (recorded_fcc b) m x = (r, y)"
  shows "(\<forall>j \<in> fcc_saves (fcc_log y). fcc_shape m j) \<and>
    (r = FR_Verified \<longrightarrow> fcc_shape m (fc_journal y) \<and> fj_state (fc_journal y) = FS_Verified \<and>
       fj_backup (fc_journal y) \<and> (\<exists>l. fcc_log y = l @ [FE_Save (fc_journal y) True]))"
proof -
  obtain closed z where 1: "fcc_cleanup (recorded_fcc b) m x = (closed, z)" by (rule prod.exhaust)
  obtain verified w where 2: "(if closed then fcc_call (hush (fb_verify b (fj_target (fc_journal z)) True)) z else (False, z)) = (verified, w)"
    by (rule prod.exhaust)
  let ?s = "if verified then FS_Verified else FS_Failed"
  let ?w = "w\<lparr>fc_journal := (fc_journal w)\<lparr>fj_state := ?s\<rparr>\<rparr>"
  obtain committed v where 3: "fcc_save (recorded_fcc b) m ?w = (committed, v)" by (rule prod.exhaust)
  have z: "shaped m z" using keeps_shapeD[OF keeps_cleanup x(1) 1] .
  have w: "shaped m w" "fc_journal w = fc_journal z"
    using 2 z keeps_shapeD[OF keeps_hush z] call_hush(2) by (auto split: if_splits)
  have y: "y = v" "r = (if verified \<and> committed then FR_Verified else FR_Failed)"
    using run unfolding fcc_finish_def recorded_simps by (simp_all add: 1 2 3)
  have v: "fcc_log v = fcc_log w @ [FE_Save ((fc_journal w)\<lparr>fj_state := ?s\<rparr>) committed]"
    "fc_journal v = (fc_journal w)\<lparr>fj_state := ?s\<rparr>"
    using save_saves[OF 3] by (simp_all add: fcc_log_def)
  have good: "fcc_shape m ((fc_journal w)\<lparr>fj_state := ?s\<rparr>) \<and> (verified \<longrightarrow> fj_backup (fc_journal w))"
  proof (cases verified)
    case False
    then show ?thesis using w(1) by (simp add: shaped_def fcc_shape_def)
  next
    case True
    then have closed using 2 by (auto split: if_splits)
    then have "fc_journal w = (fc_journal x)\<lparr>fj_intents := fj_intents (fc_journal x) OR fi_exit OR fi_seal\<rparr>"
      using cleanup_closed[of b m x z] 1 x(2,3) w(2) by simp
    moreover have "fcc_shape m (fc_journal w)" using w(1) by (simp add: shaped_def)
    ultimately show ?thesis
      using True x(4) i unfolding fcc_shape_def required_intents_def
      by (cases m; cases "dm_fcc (fj_before (fc_journal x)) = 65") (simp_all add: fcc_intents)
  qed
  then show ?thesis using w(1) v y by (auto simp: shaped_def)
qed

lemma keeps_access: "keeps_shape m (fcc_access (recorded_fcc b) m)"
  unfolding fcc_access_def recorded_simps by (rule keeps_all_of) (auto intro: keeps)

lemma keeps_change: "keeps_shape m (fcc_change (recorded_fcc b) m first)"
  unfolding keeps_shape_def
proof (intro allI impI)
  fix x a y
  assume x: "shaped m x" "fcc_change (recorded_fcc b) m first x = (a, y)"
  have "keeps_shape m (all_of
       ([fcc_intent (recorded_fcc b) m fi_enter, fcc_call (tell FE_Enter (fb_enter b)), fcc_call (hush (fb_wait b)), full_cfg (recorded_fcc b),
         fcc_intent (recorded_fcc b) m fi_config, full_cfg (recorded_fcc b),
         fcc_call (tell (FE_Config (dm_config (fj_target (fc_journal x)))) (fb_config b (dm_config (fj_target (fc_journal x)))))] @
        (if m = FM_ColdFactory then [fcc_intent (recorded_fcc b) m fi_dc, full_cfg (recorded_fcc b), fcc_call (tell (FE_Dc 65) (fb_dc b 65))] else []) @
        (if dm_fcc first \<noteq> 65 then [fcc_intent (recorded_fcc b) m fi_fcc, full_cfg (recorded_fcc b), fcc_call (tell (FE_Fcc 65) (fb_fcc b 65))] else []) @
        [fcc_call (hush (fb_verify b (fj_target (fc_journal x)) False)), fcc_intent (recorded_fcc b) m fi_target_verified]))"
    by (rule keeps_all_of) (auto intro: keeps split: if_splits)
  from keeps_shapeD[OF this x(1) x(2)[unfolded fcc_change_def recorded_simps]] show "shaped m y" .
qed

lemma keeps_snapshots: "shaped m x \<Longrightarrow> fcc_snapshots (recorded_fcc b) m i x = (r, y) \<Longrightarrow>
    shaped m y \<and> fc_journal y = fc_journal x \<and> fc_exited y = fc_exited x \<and> fc_accessed y = fc_accessed x \<and>
    (\<forall>first. r = Some first \<longrightarrow> dm_admissible m i first first)"
proof -
  assume x: "shaped m x" and run: "fcc_snapshots (recorded_fcc b) m i x = (r, y)"
  obtain a x1 where 1: "fcc_call (hush (fb_dm b)) x = (a, x1)" by (rule prod.exhaust)
  obtain c x2 where 2: "fcc_call (hush (fb_dm b)) x1 = (c, x2)" by (rule prod.exhaust)
  note f = hush_frame[OF 1] hush_frame[OF 2] keeps_shapeD[OF keeps_hush x 1] keeps_shapeD[OF keeps_hush keeps_shapeD[OF keeps_hush x 1] 2]
  have s: "dm_admissible m i u v \<Longrightarrow> dm_admissible m i u u" for u v by (auto simp: dm_admissible_def same_dm_def)
  show ?thesis
    using run f s by (cases a; cases c) (auto simp: fcc_snapshots_def 1 2 split: if_splits)
qed

text \<open>The admission and the first intent.\<close>

lemma admit_frame:
  assumes "fcc_admit (recorded_fcc b) m x = (r, y)"
  shows "fcc_log y = fcc_log x \<and> fc_journal y = fc_journal x \<and> fc_exited y = fc_exited x"
  using admit_quietly[OF assms] by (simp add: quietly_def)

lemma run_saves:
  assumes "fcc_run (recorded_fcc b) m (s, []) = (r, x)"
  shows "(\<forall>j \<in> fcc_saves (fcc_log x). fcc_encode m j = Some (fcc_image m j)) \<and>
    (r = FR_Verified \<longrightarrow> fcc_shape m (fc_journal x) \<and> fj_state (fc_journal x) = FS_Verified \<and>
       (\<exists>l. fcc_log x = l @ [FE_Save (fc_journal x) True]))"
proof -
  let ?x0 = "\<lparr>fc_journal = fcc_journal0, fc_accessed = False, fc_exited = False, fc_env = (s, [])\<rparr>"
  have enc: "fcc_encode m j = Some (fcc_image m j) \<longleftrightarrow> fcc_shape m j" for j by (simp add: fcc_encode_def)
  have fail: ?thesis if "shaped m y" "fcc_fail (recorded_fcc b) m y = (r, x)" for y
    using fail_saves[OF that] that(2) unfolding enc by (simp add: fcc_fail_def Let_def)
  obtain i x1 where 1: "fcc_admit (recorded_fcc b) m ?x0 = (i, x1)" by (rule prod.exhaust)
  note f1 = admit_frame[OF 1]
  have l1: "fcc_log x1 = []" "fc_journal x1 = fcc_journal0" "\<not> fc_exited x1" using f1 by (simp_all add: fcc_log_def)
  show ?thesis
  proof (cases i)
    case None
    then show ?thesis using assms 1 l1 by (simp add: fcc_run_def)
  next
    case (Some i)
    let ?x1 = "x1\<lparr>fc_journal := (fc_journal x1)\<lparr>fj_mac := fid_mac i\<rparr>\<rparr>"
    have s1: "shaped m ?x1" using l1 by (simp add: shaped_def fcc_log_def fcc_shape_def fcc_journal0_def zero_dm_def)
    obtain ok2 x2 where 2: "fcc_intent (recorded_fcc b) m fi_unseal ?x1 = (ok2, x2)" by (rule prod.exhaust)
    have s2: "shaped m x2" using keeps_shapeD[OF keeps_intent s1 2] by simp
    show ?thesis
    proof (cases ok2)
      case False
      then show ?thesis using assms 1 Some 2 s2 unfolding enc by (simp add: fcc_run_def shaped_def)
    next
      case ok2: True
      obtain ok3 x3 where 3: "fcc_access (recorded_fcc b) m (x2\<lparr>fc_accessed := True\<rparr>) = (ok3, x3)" by (rule prod.exhaust)
      have s3: "shaped m x3" using keeps_shapeD[OF keeps_access _ 3] s2 by simp
      show ?thesis
      proof (cases ok3)
        case False
        then show ?thesis using assms 1 Some 2 ok2 3 fail[OF s3] by (simp add: fcc_run_def)
      next
        case ok3: True
        note a2 = addsD[OF adds_intent, of b m fi_unseal ?x1 x2] and a3 = addsD[OF adds_access, of b m "x2\<lparr>fc_accessed := True\<rparr>" x3]
        have j3: "fc_journal x3 = fcc_journal0\<lparr>fj_mac := fid_mac i, fj_intents := fi_unseal OR fi_full\<rparr>" "fc_accessed x3"
          "\<not> fc_exited x3"
          using a2 a3 2 3 ok2 ok3 l1 by (simp_all add: fcc_journal0_def)
        let ?x3 = "x3\<lparr>fc_journal := (fc_journal x3)\<lparr>fj_full_verified := True\<rparr>\<rparr>"
        have s3': "shaped m ?x3" using s3 j3 by (simp add: shaped_def fcc_log_def fcc_shape_def fcc_journal0_def)
        obtain d x4 where 4: "fcc_snapshots (recorded_fcc b) m i ?x3 = (d, x4)" by (rule prod.exhaust)
        note f4 = keeps_snapshots[OF s3' 4]
        show ?thesis
        proof (cases d)
          case None
          then show ?thesis using assms 1 Some 2 ok2 3 ok3 4 fail[of x4] f4 by (simp add: fcc_run_def)
        next
          case d: (Some first)
          let ?t = "\<lparr>dm_config = dm_config first OR limit_bit, dm_dc = 65, dm_fcc = 65\<rparr>"
          let ?x4 = "x4\<lparr>fc_journal := (fc_journal x4)\<lparr>fj_before := first, fj_target := ?t, fj_backup := True\<rparr>\<rparr>"
          have adm: "dm_admissible m i first first" using f4 d by simp
          have s4: "shaped m ?x4"
            using f4 j3 adm by (cases m) (auto simp: shaped_def fcc_log_def fcc_shape_def fcc_journal0_def dm_admissible_def)
          obtain ok5 x5 where 5: "fcc_change (recorded_fcc b) m first ?x4 = (ok5, x5)" by (rule prod.exhaust)
          have s5: "shaped m x5" by (rule keeps_shapeD[OF keeps_change s4 5])
          show ?thesis
          proof (cases ok5)
            case False
            then show ?thesis using assms 1 Some 2 ok2 3 ok3 4 d 5 fail[OF s5] by (simp add: fcc_run_def)
          next
            case ok5: True
            note a5 = addsD[OF adds_change, of b m first ?x4 x5]
            have "fcc_finish (recorded_fcc b) m x5 = (r, x)"
              using assms 1 Some 2 ok2 3 ok3 4 d 5 ok5 by (simp add: fcc_run_def)
            from finish_saves[OF s5 _ _ _ _ this] show ?thesis
              using a5 5 ok5 f4 j3 unfolding enc by (simp add: or.assoc)
          qed
        qed
      qed
    qed
  qed
qed

text \<open>C35: Every journal that the coordinator of the limit repair asks to store, in either mode, whatever the gauge and the
  storage answer, has the shape that the codec accepts, so no journal write is lost to an encoding that refuses it; and a
  run that returns verified has stored, as its last event, a verified journal with every intent the mode requires.\<close>

theorem fcc_saves_shaped:
  assumes "fcc_run (recorded_fcc b) m (s, []) = (r, x)"
  shows "(\<forall>j \<in> fcc_saves (fcc_log x). fcc_encode m j = Some (fcc_image m j)) \<and>
    (r = FR_Verified \<longrightarrow> fcc_shape m (fc_journal x) \<and> fj_state (fc_journal x) = FS_Verified \<and>
       (\<exists>l. fcc_log x = l @ [FE_Save (fc_journal x) True]))"
  by (rule run_saves[OF assms])

lemma fcc_saves_shaped_witness:
  "\<exists>x l. fcc_run (recorded_fcc sim_backend) FM_Runtime (sim_gauge0, []) = (FR_Verified, x) \<and>
     fcc_log x = l @ [FE_Save (fc_journal x) True] \<and> verified_permission (fc_journal x)"
proof -
  obtain r x where r: "fcc_run (recorded_fcc sim_backend) FM_Runtime (sim_gauge0, []) = (r, x)" by (rule prod.exhaust)
  then have "r = FR_Verified" using sim_run by simp
  then show ?thesis using fcc_saves_shaped[OF r] r by (auto simp: verified_permission_iff)
qed

section \<open>The evidence of a native recovery\<close>

record native_evidence =
  ne_reload :: bytes
  ne_cold :: bytes
  ne_runtime :: bytes

text \<open>The stored reload journal is a packed little-endian struct of 28 bytes.\<close>

definition reload_of :: "bytes \<Rightarrow> reload_journal" where
  "reload_of b = \<lparr>rj_magic = get_le b 0 4, rj_version = get_le b 4 2, rj_device = get_le b 6 2, rj_unit = b ! 8, rj_state = b ! 9,
     rj_reserved = get_le b 10 2, rj_mac = get_bytes b 12 6, rj_target_design = get_le b 18 2, rj_target_fcc = get_le b 20 2,
     rj_reserved2 = get_le b 22 2, rj_crc = get_le b 24 4\<rparr>"

definition reload_failed :: u8 where "reload_failed = 2"

definition native_valid :: "native_evidence \<Rightarrow> bytes \<Rightarrow> bool" where
  "native_valid e mac \<longleftrightarrow>
     valid_reload_journal (reload_of (ne_reload e)) mac \<and> fcc_decode FM_ColdFactory (ne_cold e) mac \<noteq> None \<and>
     fcc_decode FM_Runtime (ne_runtime e) mac \<noteq> None"

definition native_exact :: "native_evidence \<Rightarrow> bytes \<Rightarrow> bool" where
  "native_exact e mac \<longleftrightarrow>
     (if \<not> native_valid e mac then False
      else case (fcc_decode FM_ColdFactory (ne_cold e) mac, fcc_decode FM_Runtime (ne_runtime e) mac) of
        (Some c, Some v) \<Rightarrow>
          rj_state (reload_of (ne_reload e)) = reload_failed \<and> fj_state c = FS_Failed \<and> fj_state v = FS_Verified \<and>
          fj_intents c = 1951 \<and> fj_intents v = 927 \<and> fj_backup c \<and> fj_full_verified c \<and> fj_backup v \<and> fj_full_verified v \<and>
          same_dm (fj_before c) \<lparr>dm_config = 0x102a, dm_dc = 3000, dm_fcc = 3000\<rparr> \<and>
          same_dm (fj_before v) \<lparr>dm_config = 0x102a, dm_dc = 65, dm_fcc = 100\<rparr> \<and>
          same_dm (fj_target c) \<lparr>dm_config = 0x112a, dm_dc = 65, dm_fcc = 65\<rparr> \<and>
          same_dm (fj_target v) \<lparr>dm_config = 0x112a, dm_dc = 65, dm_fcc = 65\<rparr>
      | _ \<Rightarrow> False)"

text \<open>The digest runs over the three blocks in order, each behind its length.\<close>

definition native_block :: "u32 \<Rightarrow> bytes \<Rightarrow> bytes" where
  "native_block n b = put_le (replicate 4 0) 0 n 4 @ b"

definition native_digest :: "native_evidence \<Rightarrow> u32" where
  "native_digest e = crc32 (native_block 28 (ne_reload e) @ native_block 48 (ne_cold e) @ native_block 48 (ne_runtime e))"

record native_proof =
  np_ready :: bool
  np_original :: bool
  np_verified :: bool
  np_durable :: bool
  np_complete :: bool
  np_same_generation :: bool
  np_source_crc :: u32
  np_generation :: u32
  np_prepared :: int
  np_now :: int

definition native_fresh :: "native_proof \<Rightarrow> bool" where
  "native_fresh p \<longleftrightarrow>
     np_ready p \<and> np_original p \<and> np_verified p \<and> np_durable p \<and> np_complete p \<and> np_same_generation p \<and>
     np_source_crc p = 0x91336fc0 \<and> np_generation p \<noteq> 0 \<and> np_prepared p > 0 \<and> np_now p \<ge> np_prepared p \<and>
     np_now p - np_prepared p \<le> 120000000"

text \<open>The exact evidence determines its two journals, hence their bytes, up to the two flags that the shape fixes.\<close>

definition exact_cold :: "bytes \<Rightarrow> fcc_journal" where
  "exact_cold mac = \<lparr>fj_schema = 1, fj_state = FS_Failed, fj_mac = mac, fj_intents = 1951, fj_backup = True,
     fj_full_verified = True, fj_before = \<lparr>dm_config = 0x102a, dm_dc = 3000, dm_fcc = 3000\<rparr>,
     fj_target = \<lparr>dm_config = 0x112a, dm_dc = 65, dm_fcc = 65\<rparr>\<rparr>"

definition exact_runtime :: "bytes \<Rightarrow> fcc_journal" where
  "exact_runtime mac = \<lparr>fj_schema = 1, fj_state = FS_Verified, fj_mac = mac, fj_intents = 927, fj_backup = True,
     fj_full_verified = True, fj_before = \<lparr>dm_config = 0x102a, dm_dc = 65, dm_fcc = 100\<rparr>,
     fj_target = \<lparr>dm_config = 0x112a, dm_dc = 65, dm_fcc = 65\<rparr>\<rparr>"

lemma same_dm_iff: "same_dm a b \<longleftrightarrow> a = b"
  by (cases a; cases b) (auto simp: same_dm_def)

lemma journal_eqI:
  "fj_schema a = fj_schema b \<Longrightarrow> fj_state a = fj_state b \<Longrightarrow> fj_mac a = fj_mac b \<Longrightarrow> fj_intents a = fj_intents b \<Longrightarrow>
   fj_backup a = fj_backup b \<Longrightarrow> fj_full_verified a = fj_full_verified b \<Longrightarrow> fj_before a = fj_before b \<Longrightarrow>
   fj_target a = fj_target b \<Longrightarrow> (a :: fcc_journal) = b"
  by (cases a; cases b) simp

text \<open>The evidence that admits a native recovery is unique per device: its two repair records are the images of one
  failed cold journal and one verified runtime journal, of which the second grants the runtime permission and the first is
  what a cold run stores that wrote its whole change and failed its last check.\<close>

theorem native_exact_unique:
  assumes "length (ne_cold e) = 48" "length (ne_runtime e) = 48" "length mac = 6"
  shows "native_exact e mac \<longleftrightarrow>
    valid_reload_journal (reload_of (ne_reload e)) mac \<and> rj_state (reload_of (ne_reload e)) = reload_failed \<and>
    ne_cold e = fcc_image FM_ColdFactory (exact_cold mac) \<and> ne_runtime e = fcc_image FM_Runtime (exact_runtime mac)"
proof -
  have sc: "fcc_shape FM_ColdFactory (exact_cold mac)" and sr: "fcc_shape FM_Runtime (exact_runtime mac)"
    by (simp_all add: fcc_shape_def exact_cold_def exact_runtime_def required_intents_def fcc_intents limit_bit_def)
  have dc: "fcc_decode FM_ColdFactory (ne_cold e) mac = Some c \<longleftrightarrow> fcc_shape FM_ColdFactory c \<and> fj_mac c = mac \<and>
      ne_cold e = fcc_image FM_ColdFactory c" for c
    by (rule fcc_decode_iff) (simp_all add: assms)
  have dr: "fcc_decode FM_Runtime (ne_runtime e) mac = Some c \<longleftrightarrow> fcc_shape FM_Runtime c \<and> fj_mac c = mac \<and>
      ne_runtime e = fcc_image FM_Runtime c" for c
    by (rule fcc_decode_iff) (simp_all add: assms)
  show ?thesis
  proof
    assume x: "native_exact e mac"
    then obtain c v where cv: "fcc_decode FM_ColdFactory (ne_cold e) mac = Some c" "fcc_decode FM_Runtime (ne_runtime e) mac = Some v"
      by (auto simp: native_exact_def split: if_splits option.splits)
    have r: "valid_reload_journal (reload_of (ne_reload e)) mac" "rj_state (reload_of (ne_reload e)) = reload_failed"
      and f: "fj_state c = FS_Failed" "fj_intents c = 1951" "fj_backup c" "fj_full_verified c"
        "fj_before c = \<lparr>dm_config = 0x102a, dm_dc = 3000, dm_fcc = 3000\<rparr>" "fj_target c = \<lparr>dm_config = 0x112a, dm_dc = 65, dm_fcc = 65\<rparr>"
      and g: "fj_state v = FS_Verified" "fj_intents v = 927" "fj_backup v" "fj_full_verified v"
        "fj_before v = \<lparr>dm_config = 0x102a, dm_dc = 65, dm_fcc = 100\<rparr>" "fj_target v = \<lparr>dm_config = 0x112a, dm_dc = 65, dm_fcc = 65\<rparr>"
      using x by (simp_all add: native_exact_def native_valid_def cv same_dm_iff split: if_splits)
    have m: "fj_schema c = 1" "fj_mac c = mac" "fj_schema v = 1" "fj_mac v = mac"
      using cv dc[of c] dr[of v] by (simp_all add: fcc_shape_def)
    have "c = exact_cold mac" "v = exact_runtime mac"
      by (rule journal_eqI; simp add: exact_cold_def exact_runtime_def f g m)+
    then show "valid_reload_journal (reload_of (ne_reload e)) mac \<and> rj_state (reload_of (ne_reload e)) = reload_failed \<and>
        ne_cold e = fcc_image FM_ColdFactory (exact_cold mac) \<and> ne_runtime e = fcc_image FM_Runtime (exact_runtime mac)"
      using r cv dc[of c] dr[of v] by simp
  next
    assume x: "valid_reload_journal (reload_of (ne_reload e)) mac \<and> rj_state (reload_of (ne_reload e)) = reload_failed \<and>
        ne_cold e = fcc_image FM_ColdFactory (exact_cold mac) \<and> ne_runtime e = fcc_image FM_Runtime (exact_runtime mac)"
    then have "fcc_decode FM_ColdFactory (ne_cold e) mac = Some (exact_cold mac)"
      "fcc_decode FM_Runtime (ne_runtime e) mac = Some (exact_runtime mac)"
      using dc dr sc sr by (simp_all add: exact_cold_def exact_runtime_def)
    then show "native_exact e mac" using x
      by (simp add: native_exact_def native_valid_def same_dm_iff) (simp add: exact_cold_def exact_runtime_def)
  qed
qed

end
