(* ===== verification/Standby_Sleep.thy ===== *)
theory Standby_Sleep
  imports Prelude_Bytes
begin

text \<open>
  Light sleep while the device is locked: the admission model (\<open>main/host/standby_sleep_model.h\<close>) and the task around it
  (\<open>main/host/standby_sleep.cpp\<close>), which holds a power-management lock whenever sleep has to stay closed. What the
  platform answers during a call (times, the USB state, the result of a lock operation and of the one-time setup) is the
  input of the call. The sleep callbacks and the counters they keep are not modelled.
\<close>

section \<open>The model\<close>

datatype standby_mode = SM_Off | SM_Diagnostic | SM_Automatic

record standby_model =
  sm_lease :: int
  sm_awake :: int
  sm_supported :: bool
  sm_automatic :: bool
  sm_ota :: bool
  sm_view :: bool
  sm_display :: bool
  sm_fault :: bool
  sm_uart :: bool

definition sleep_requested :: "int \<Rightarrow> standby_model \<Rightarrow> bool" where
  "sleep_requested now m \<longleftrightarrow> sm_automatic m \<or> (sm_lease m \<noteq> 0 \<and> now < sm_lease m)"

definition sleep_mode :: "int \<Rightarrow> standby_model \<Rightarrow> standby_mode" where
  "sleep_mode now m =
     (if sm_automatic m then SM_Automatic else if sm_lease m \<noteq> 0 \<and> now < sm_lease m then SM_Diagnostic else SM_Off)"

definition sleep_request :: "u32 \<Rightarrow> int \<Rightarrow> standby_model \<Rightarrow> bool \<times> standby_model" where
  "sleep_request seconds now m =
     (if \<not> sm_supported m \<or> seconds < 30 \<or> seconds > 300 then (False, m)
      else (True, m\<lparr>sm_automatic := False, sm_lease := now + uint seconds * 1000000\<rparr>))"

definition sleep_automatic :: "bool \<Rightarrow> standby_model \<Rightarrow> bool \<times> standby_model" where
  "sleep_automatic confirmed m =
     (if \<not> sm_supported m \<or> \<not> confirmed then (False, m) else (True, m\<lparr>sm_lease := 0, sm_automatic := True\<rparr>))"

definition sleep_off :: "standby_model \<Rightarrow> standby_model" where
  "sleep_off m = m\<lparr>sm_lease := 0, sm_automatic := False\<rparr>"

definition sleep_pause :: "standby_model \<Rightarrow> standby_model" where
  "sleep_pause m = m\<lparr>sm_lease := 0, sm_display := False\<rparr>"

definition sleep_wake :: "int \<Rightarrow> standby_model \<Rightarrow> standby_model" where
  "sleep_wake now m = (if sleep_requested now m then m\<lparr>sm_awake := now + 500000\<rparr> else m)"

definition sleep_service :: "int \<Rightarrow> standby_model \<Rightarrow> standby_model" where
  "sleep_service now m =
     (if sm_lease m \<noteq> 0 \<and> (now \<ge> sm_lease m \<or> \<not> sm_view m \<or> \<not> sm_display m \<or> sm_fault m \<or> sm_ota m)
      then m\<lparr>sm_lease := 0\<rparr> else m)"

definition sleep_eligible :: "int \<Rightarrow> u32 \<Rightarrow> bool \<Rightarrow> bool \<Rightarrow> standby_model \<Rightarrow> bool" where
  "sleep_eligible now cpu locked wireless m \<longleftrightarrow>
     sm_supported m \<and> sleep_requested now m \<and> sm_view m \<and> locked \<and> sm_display m \<and> \<not> sm_fault m \<and> \<not> sm_ota m \<and>
     \<not> wireless \<and> cpu = 160"

definition uart_blocked :: "int \<Rightarrow> standby_model \<Rightarrow> bool" where
  "uart_blocked now m \<longleftrightarrow> sm_uart m \<or> now < sm_awake m"

definition standby_initial :: "bool \<Rightarrow> bool \<Rightarrow> standby_model" where
  "standby_initial supported automatic = \<lparr>sm_lease = 0, sm_awake = 0, sm_supported = supported,
     sm_automatic = (supported \<and> automatic), sm_ota = False, sm_view = False, sm_display = False, sm_fault = False,
     sm_uart = False\<rparr>"

section \<open>The task\<close>

record standby =
  sb_model :: standby_model
  sb_ready :: bool
  sb_initialized :: bool
  sb_setup :: bool
  sb_fatal :: bool
  sb_applied :: bool
  sb_wanted :: bool
  sb_ble :: bool
  sb_held :: bool
  sb_lock :: bool
  sb_error :: int

definition standby0 :: "bool \<Rightarrow> bool \<Rightarrow> standby" where
  "standby0 supported automatic = \<lparr>sb_model = standby_initial supported automatic, sb_ready = False, sb_initialized = False,
     sb_setup = False, sb_fatal = False, sb_applied = False, sb_wanted = False, sb_ble = False, sb_held = False,
     sb_lock = False, sb_error = 0\<rparr>"

text \<open>
  The platform during a call: the times of the first and of the last clock reading, whether USB allows sleep when the call
  itself asks and when \<open>refreshRecovery\<close> takes its own snapshot of the console at the end of the call, whether an update
  is busy or unconfirmed, whether the pins survive sleep, the result of acquiring or releasing the lock, of creating it, and
  of the rest of the setup.
\<close>

record standby_env =
  se_now :: int
  se_later :: int
  se_usb :: bool
  se_usb_refresh :: bool
  se_ota :: bool
  se_io :: bool
  se_lock_rc :: int
  se_create_rc :: int
  se_setup_rc :: int

definition lock_recovery :: "standby_env \<Rightarrow> bool \<Rightarrow> standby \<Rightarrow> standby" where
  "lock_recovery e need s =
     (if \<not> sb_lock s \<or> need = sb_held s then s
      else if se_lock_rc e \<noteq> 0
      then s\<lparr>sb_error := se_lock_rc e, sb_fatal := True, sb_model := sleep_pause (sb_model s), sb_wanted := False\<rparr>
      else s\<lparr>sb_held := need\<rparr>)"

definition recovery_needed :: "standby_env \<Rightarrow> int \<Rightarrow> standby \<Rightarrow> bool" where
  "recovery_needed e now s \<longleftrightarrow>
     (let requested = sleep_requested now (sb_model s) in
      (sb_applied s \<or> requested) \<and> (\<not> sb_wanted s \<or> \<not> se_usb_refresh e \<or> uart_blocked now (sb_model s) \<or> \<not> requested))"

definition refresh_recovery :: "standby_env \<Rightarrow> int \<Rightarrow> standby \<Rightarrow> standby" where
  "refresh_recovery e now s = lock_recovery e (recovery_needed e now s) s"

text \<open>\<open>initialize\<close>, in a build that supports light sleep; the lock exists once it was created.\<close>

definition standby_initialize :: "standby_env \<Rightarrow> standby \<Rightarrow> bool \<times> standby" where
  "standby_initialize e s =
     (if \<not> sm_supported (sb_model s) then (False, s\<lparr>sb_error := 0x106\<rparr>)
      else if sb_initialized s then (True, s)
      else if \<not> sb_ready s \<or> sb_setup s then (False, s)
      else
        let s = s\<lparr>sb_setup := True, sb_lock := (se_create_rc e = 0)\<rparr>;
            err = (if se_create_rc e = 0 then se_setup_rc e else se_create_rc e) in
        if err \<noteq> 0 then (False, s\<lparr>sb_error := err, sb_fatal := True\<rparr>)
        else (True, s\<lparr>sb_initialized := True\<rparr>))"

definition pulse_eligible :: "standby_env \<Rightarrow> standby \<Rightarrow> bool" where
  "pulse_eligible e s \<longleftrightarrow>
     sb_applied s \<and> sb_wanted s \<and> sb_ready s \<and> sm_view (sb_model s) \<and> sm_display (sb_model s) \<and> \<not> sm_fault (sb_model s) \<and>
     \<not> sm_ota (sb_model s) \<and> \<not> sb_ble s \<and> sleep_requested (se_now e) (sb_model s) \<and>
     \<not> uart_blocked (se_now e) (sb_model s) \<and> se_usb e \<and> \<not> se_ota e"

definition standby_monitoring :: "standby \<Rightarrow> bool" where
  "standby_monitoring s \<longleftrightarrow> sm_automatic (sb_model s) \<or> sm_lease (sb_model s) \<noteq> 0 \<or> sb_applied s"

definition uart_ready :: "standby_env \<Rightarrow> bool \<Rightarrow> standby \<Rightarrow> standby" where
  "uart_ready e v s =
     (let s = s\<lparr>sb_ready := v\<rparr> in
      if \<not> v then refresh_recovery e (se_now e) (s\<lparr>sb_model := sleep_pause (sb_model s), sb_wanted := False\<rparr>) else s)"

definition usb_activity :: "standby_env \<Rightarrow> standby \<Rightarrow> standby" where
  "usb_activity e s = refresh_recovery e (se_now e) (s\<lparr>sb_model := sleep_wake (se_now e) (sb_model s), sb_wanted := False\<rparr>)"

definition uart_wake :: "standby_env \<Rightarrow> standby \<Rightarrow> standby" where
  "uart_wake e s = refresh_recovery e (se_later e) (s\<lparr>sb_model := sleep_wake (se_now e) (sb_model s)\<rparr>)"

definition uart_traffic :: "standby_env \<Rightarrow> bool \<Rightarrow> bool \<Rightarrow> standby \<Rightarrow> standby" where
  "uart_traffic e pending activity s =
     (let m = (sb_model s)\<lparr>sm_uart := pending\<rparr> in
      refresh_recovery e (se_now e) (s\<lparr>sb_model := if activity then sleep_wake (se_now e) m else m\<rparr>))"

definition view_state :: "standby_env \<Rightarrow> bool \<Rightarrow> bool \<Rightarrow> bool \<Rightarrow> standby \<Rightarrow> standby" where
  "view_state e locked safe fault s =
     (let m = sleep_service (se_now e) ((sb_model s)\<lparr>sm_view := locked, sm_display := safe, sm_fault := fault\<rparr>);
          s = s\<lparr>sb_model := m\<rparr> in
      refresh_recovery e (se_later e) (if \<not> locked \<or> \<not> safe \<or> fault then s\<lparr>sb_wanted := False\<rparr> else s))"

definition standby_service :: "standby_env \<Rightarrow> bool \<Rightarrow> bool \<Rightarrow> standby \<Rightarrow> standby" where
  "standby_service e ota ble s =
     (let m = (sb_model s)\<lparr>sm_ota := (ota \<or> se_ota e)\<rparr>;
          m = sleep_service (se_now e) (if ble then sleep_pause m else m);
          s = s\<lparr>sb_ble := ble, sb_model := m\<rparr> in
      refresh_recovery e (se_now e)
        (if sm_ota m \<or> ble \<or> \<not> sleep_requested (se_now e) m then s\<lparr>sb_wanted := False\<rparr> else s))"

definition standby_request :: "standby_env \<Rightarrow> u32 \<Rightarrow> standby \<Rightarrow> bool \<times> standby" where
  "standby_request e seconds s =
     (let m = sb_model s in
      if \<not> se_io e \<or> seconds < 30 \<or> seconds > 300 \<or> \<not> sb_ready s \<or> \<not> sm_view m \<or> \<not> sm_display m \<or> sm_fault m \<or>
         sb_ble s \<or> sm_ota m \<or> se_ota e then (False, s)
      else if sb_fatal s then (False, s)
      else case standby_initialize e s of (ok, s) \<Rightarrow>
        if \<not> ok then (False, s)
        else case sleep_request seconds (se_now e) (sb_model s) of (ok, m) \<Rightarrow>
          if \<not> ok then (False, s)
          else (True, refresh_recovery e (se_later e) (s\<lparr>sb_model := m, sb_wanted := False\<rparr>)))"

definition standby_automatic :: "standby_env \<Rightarrow> bool \<Rightarrow> standby \<Rightarrow> bool \<times> standby" where
  "standby_automatic e confirmed s =
     (if \<not> se_io e \<or> \<not> confirmed \<or> \<not> sm_supported (sb_model s) \<or> \<not> sb_ready s \<or> sb_fatal s then (False, s)
      else (True, refresh_recovery e (se_now e)
        (s\<lparr>sb_model := snd (sleep_automatic True (sb_model s)), sb_wanted := False\<rparr>)))"

definition cancel_for_activity :: "standby_env \<Rightarrow> standby \<Rightarrow> standby" where
  "cancel_for_activity e s = refresh_recovery e (se_now e) (s\<lparr>sb_model := sleep_pause (sb_model s), sb_wanted := False\<rparr>)"

definition ota_activity :: "standby_env \<Rightarrow> standby \<Rightarrow> standby" where
  "ota_activity e s =
     refresh_recovery e (se_now e) (s\<lparr>sb_model := sleep_pause ((sb_model s)\<lparr>sm_ota := True\<rparr>), sb_wanted := False\<rparr>)"

definition standby_off :: "standby_env \<Rightarrow> standby \<Rightarrow> standby" where
  "standby_off e s = refresh_recovery e (se_now e) (s\<lparr>sb_model := sleep_off (sb_model s), sb_wanted := False\<rparr>)"

definition standby_allow :: "standby_env \<Rightarrow> u32 \<Rightarrow> bool \<Rightarrow> bool \<Rightarrow> standby \<Rightarrow> bool \<times> standby" where
  "standby_allow e cpu locked wifi s =
     (let now = se_now e;
          m = (if se_ota e then (sb_model s)\<lparr>sm_ota := True\<rparr> else sb_model s);
          m = sleep_service now (if \<not> se_io e \<or> wifi \<or> sb_ble s then sleep_pause m else m);
          s = s\<lparr>sb_model := m\<rparr>;
          safe = (se_usb e \<and> se_io e \<and> \<not> sb_fatal s \<and> sb_ready s \<and> sleep_eligible now cpu locked (wifi \<or> sb_ble s) m)
      in case (if safe \<and> \<not> sb_initialized s then standby_initialize e s else (True, s)) of (ok, s) \<Rightarrow>
        let s = refresh_recovery e now (s\<lparr>sb_wanted := (safe \<and> ok)\<rparr>) in (sb_wanted s, s))"

definition standby_configured :: "standby_env \<Rightarrow> bool \<Rightarrow> int \<Rightarrow> standby \<Rightarrow> standby" where
  "standby_configured e light err s =
     refresh_recovery e (se_now e)
       (if err \<noteq> 0 then s\<lparr>sb_error := err, sb_fatal := True, sb_model := sleep_pause (sb_model s), sb_wanted := False\<rparr>
        else s\<lparr>sb_applied := light\<rparr>)"

text \<open>\<open>snapshot\<close> also services the model; what it reports as eligible and active is the rest of the answer.\<close>

definition standby_snapshot :: "standby_env \<Rightarrow> standby \<Rightarrow> (bool \<times> standby_mode) \<times> standby" where
  "standby_snapshot e s =
     (let now = se_now e;
          m = sleep_service now (if se_ota e then (sb_model s)\<lparr>sm_ota := True\<rparr> else sb_model s);
          eligible = (sb_wanted s \<and> se_usb e \<and> sleep_requested now m \<and> sm_display m \<and> \<not> sm_ota m \<and> \<not> sm_fault m);
          active = (if sb_applied s \<and> eligible \<and> \<not> uart_blocked now m then sleep_mode now m else SM_Off)
      in ((eligible, active), refresh_recovery e now (s\<lparr>sb_model := m\<rparr>)))"

datatype standby_call = SC_Uart_Ready bool | SC_Usb | SC_Uart_Wake | SC_Uart_Traffic bool bool | SC_View bool bool bool
  | SC_Service bool bool | SC_Request u32 | SC_Automatic bool | SC_Cancel | SC_Ota | SC_Off | SC_Allow u32 bool bool
  | SC_Configured bool int | SC_Snapshot

definition standby_step :: "standby \<Rightarrow> standby_env \<times> standby_call \<Rightarrow> standby" where
  "standby_step s x =
     (case x of (e, c) \<Rightarrow>
      case c of
        SC_Uart_Ready v \<Rightarrow> uart_ready e v s
      | SC_Usb \<Rightarrow> usb_activity e s
      | SC_Uart_Wake \<Rightarrow> uart_wake e s
      | SC_Uart_Traffic p a \<Rightarrow> uart_traffic e p a s
      | SC_View l d f \<Rightarrow> view_state e l d f s
      | SC_Service ot bl \<Rightarrow> standby_service e ot bl s
      | SC_Request n \<Rightarrow> snd (standby_request e n s)
      | SC_Automatic ok \<Rightarrow> snd (standby_automatic e ok s)
      | SC_Cancel \<Rightarrow> cancel_for_activity e s
      | SC_Ota \<Rightarrow> ota_activity e s
      | SC_Off \<Rightarrow> standby_off e s
      | SC_Allow n l w \<Rightarrow> snd (standby_allow e n l w s)
      | SC_Configured l err \<Rightarrow> standby_configured e l err s
      | SC_Snapshot \<Rightarrow> snd (standby_snapshot e s))"

section \<open>Sleep is open only when it is wanted\<close>

text \<open>What an admission to sleep stands for, in every reachable state.\<close>

definition standby_inv :: "standby \<Rightarrow> bool" where
  "standby_inv s \<longleftrightarrow>
     (sb_wanted s \<longrightarrow> sb_initialized s \<and> sb_ready s \<and> \<not> sb_fatal s \<and> \<not> sb_ble s \<and> sm_view (sb_model s) \<and>
        sm_display (sb_model s) \<and> \<not> sm_fault (sb_model s)) \<and>
     (sb_initialized s \<longrightarrow> sb_lock s) \<and> (sb_lock s \<longrightarrow> sb_setup s)"

lemma sleep_frames [simp]:
  "sm_view (sleep_service now m) = sm_view m" "sm_display (sleep_service now m) = sm_display m"
  "sm_fault (sleep_service now m) = sm_fault m" "sm_ota (sleep_service now m) = sm_ota m"
  "sm_view (sleep_wake now m) = sm_view m" "sm_display (sleep_wake now m) = sm_display m" "sm_fault (sleep_wake now m) = sm_fault m"
  by (simp_all add: sleep_service_def sleep_wake_def)

lemma refresh_inv: "standby_inv s \<Longrightarrow> standby_inv (refresh_recovery e now s)"
  by (simp add: standby_inv_def refresh_recovery_def lock_recovery_def)

text \<open>A service may end a lease, a pause may hide the display: neither is an admission.\<close>

lemma standby_inv_closed:
  assumes "standby_inv s"
  shows "standby_inv (s\<lparr>sb_model := m, sb_wanted := False\<rparr>)"
  using assms by (simp add: standby_inv_def)

lemma standby_inv_model:
  assumes "standby_inv s" "sm_view m = sm_view (sb_model s)" "sm_display m = sm_display (sb_model s)" "sm_fault m = sm_fault (sb_model s)"
  shows "standby_inv (s\<lparr>sb_model := m\<rparr>)"
  using assms by (simp add: standby_inv_def)

lemma initialize_inv:
  assumes "standby_inv s" "\<not> sb_wanted s" "standby_initialize e s = (ok, s')"
  shows "standby_inv s'" "\<not> sb_wanted s'" "ok \<Longrightarrow> sb_initialized s'" "sb_model s' = sb_model s" "sb_ready s' = sb_ready s"
    "ok \<Longrightarrow> sb_fatal s' = sb_fatal s" "sb_ble s' = sb_ble s" "sb_applied s' = sb_applied s" "sb_held s' = sb_held s"
    "sb_fatal s \<Longrightarrow> sb_fatal s'"
  using assms by (auto simp: standby_initialize_def standby_inv_def Let_def split: if_splits)

text \<open>The gates of \<open>allow\<close>, and the state in which it decides.\<close>

definition allow_model :: "standby_env \<Rightarrow> bool \<Rightarrow> standby \<Rightarrow> standby_model" where
  "allow_model e wifi s =
     (let m = (if se_ota e then (sb_model s)\<lparr>sm_ota := True\<rparr> else sb_model s)
      in sleep_service (se_now e) (if \<not> se_io e \<or> wifi \<or> sb_ble s then sleep_pause m else m))"

definition allow_safe :: "standby_env \<Rightarrow> u32 \<Rightarrow> bool \<Rightarrow> bool \<Rightarrow> standby \<Rightarrow> bool" where
  "allow_safe e cpu locked wifi s \<longleftrightarrow>
     se_usb e \<and> se_io e \<and> \<not> sb_fatal s \<and> sb_ready s \<and>
     sleep_eligible (se_now e) cpu locked (wifi \<or> sb_ble s) (allow_model e wifi s)"

definition allow_start :: "standby_env \<Rightarrow> u32 \<Rightarrow> bool \<Rightarrow> bool \<Rightarrow> standby \<Rightarrow> bool \<times> standby" where
  "allow_start e cpu locked wifi s =
     (let s' = s\<lparr>sb_model := allow_model e wifi s\<rparr>
      in if allow_safe e cpu locked wifi s \<and> \<not> sb_initialized s then standby_initialize e s' else (True, s'))"

lemma allow_split:
  "standby_allow e cpu locked wifi s =
     (case allow_start e cpu locked wifi s of (ok, t) \<Rightarrow>
        let r = refresh_recovery e (se_now e) (t\<lparr>sb_wanted := (allow_safe e cpu locked wifi s \<and> ok)\<rparr>) in (sb_wanted r, r))"
  unfolding standby_allow_def allow_start_def allow_safe_def allow_model_def Let_def by (simp split: prod.split)

lemma allow_start_cases:
  assumes i: "standby_inv s" and t: "allow_start e cpu locked wifi s = (ok, t)" and safe: "allow_safe e cpu locked wifi s" "ok"
  shows "standby_inv (t\<lparr>sb_wanted := True\<rparr>)" "sb_model t = allow_model e wifi s"
proof -
  let ?s = "s\<lparr>sb_model := allow_model e wifi s\<rparr>"
  have g: "sb_ready s" "\<not> sb_fatal s" "\<not> sb_ble s" "sm_view (allow_model e wifi s)" "sm_display (allow_model e wifi s)"
    "\<not> sm_fault (allow_model e wifi s)"
    using safe(1) unfolding allow_safe_def sleep_eligible_def by blast+
  have "standby_inv (t\<lparr>sb_wanted := True\<rparr>) \<and> sb_model t = allow_model e wifi s"
  proof (cases "sb_initialized s")
    case True
    then show ?thesis using t i g by (auto simp: allow_start_def standby_inv_def)
  next
    case False
    then have si: "standby_inv ?s" "\<not> sb_wanted ?s" "standby_initialize e ?s = (ok, t)"
      using t i g safe(1) by (auto simp: allow_start_def standby_inv_def)
    note f = initialize_inv[OF si]
    have m: "sb_model t = allow_model e wifi s" using f(4) by simp
    show ?thesis using f(1,5,7) f(3)[OF safe(2)] f(6)[OF safe(2)] g m by (simp add: standby_inv_def)
  qed
  then show "standby_inv (t\<lparr>sb_wanted := True\<rparr>)" "sb_model t = allow_model e wifi s" by simp_all
qed

lemma allow_start_frame:
  assumes i: "standby_inv s" and t: "allow_start e cpu locked wifi s = (ok, t)"
  shows "standby_inv (t\<lparr>sb_wanted := False\<rparr>)"
  using i t by (auto simp: allow_start_def standby_inv_def standby_initialize_def Let_def split: if_splits)

lemma standby_inv_allow:
  assumes i: "standby_inv s"
  shows "standby_inv (snd (standby_allow e cpu locked wifi s))"
proof -
  obtain ok t where t: "allow_start e cpu locked wifi s = (ok, t)" by (rule prod.exhaust)
  show ?thesis
  proof (cases "allow_safe e cpu locked wifi s \<and> ok")
    case True
    then show ?thesis using allow_start_cases[OF i t] refresh_inv by (simp add: allow_split t Let_def)
  next
    case False
    then have "(allow_safe e cpu locked wifi s \<and> ok) = False" by simp
    then show ?thesis using refresh_inv[OF allow_start_frame[OF i t]]
      by (simp only: allow_split t Let_def prod.case snd_conv)
  qed
qed

lemma standby_inv_request:
  assumes i: "standby_inv s"
  shows "standby_inv (snd (standby_request e n s))"
proof (cases "snd (standby_request e n s) = s")
  case False
  obtain ok t where t: "standby_initialize e s = (ok, t)" by (rule prod.exhaust)
  have c: "standby_inv t" using i t by (auto simp: standby_initialize_def standby_inv_def Let_def split: if_splits)
  then show ?thesis
    using False i by (auto simp: standby_request_def t Let_def split: if_splits prod.splits intro!: refresh_inv standby_inv_closed)
qed (simp add: i)

lemma standby_inv_automatic: "standby_inv s \<Longrightarrow> standby_inv (snd (standby_automatic e ok s))"
  by (auto simp: standby_automatic_def intro: refresh_inv standby_inv_closed)

lemma standby_inv_view: "standby_inv s \<Longrightarrow> standby_inv (view_state e l d f s)"
  unfolding view_state_def Let_def by (rule refresh_inv) (simp add: standby_inv_def)

lemma standby_inv_service: "standby_inv s \<Longrightarrow> standby_inv (standby_service e ot bl s)"
  unfolding standby_service_def Let_def by (rule refresh_inv) (simp add: standby_inv_def sleep_pause_def)

lemma standby_inv_configured: "standby_inv s \<Longrightarrow> standby_inv (standby_configured e l err s)"
  unfolding standby_configured_def by (rule refresh_inv) (simp add: standby_inv_def)

lemma standby_inv_snapshot: "standby_inv s \<Longrightarrow> standby_inv (snd (standby_snapshot e s))"
  unfolding standby_snapshot_def Let_def snd_conv by (rule refresh_inv, rule standby_inv_model) simp_all

lemma standby_inv_ready: "standby_inv s \<Longrightarrow> standby_inv (uart_ready e v s)"
proof (cases v)
  case False
  then show "standby_inv s \<Longrightarrow> ?thesis"
    unfolding uart_ready_def Let_def by (simp del: split_paired_All) (rule refresh_inv, simp add: standby_inv_def)
qed (simp add: uart_ready_def standby_inv_def)

lemma standby_inv_traffic: "standby_inv s \<Longrightarrow> standby_inv (uart_traffic e p a s)"
  unfolding uart_traffic_def Let_def by (rule refresh_inv, rule standby_inv_model) simp_all

lemma standby_inv_wake: "standby_inv s \<Longrightarrow> standby_inv (uart_wake e s)"
  unfolding uart_wake_def by (rule refresh_inv, rule standby_inv_model) simp_all

lemmas standby_closing_defs = usb_activity_def cancel_for_activity_def ota_activity_def standby_off_def

lemma standby_step_inv: "standby_inv s \<Longrightarrow> standby_inv (standby_step s x)"
  by (auto simp: standby_step_def standby_closing_defs standby_inv_ready standby_inv_wake standby_inv_traffic standby_inv_view standby_inv_service standby_inv_request
      standby_inv_automatic standby_inv_allow standby_inv_configured standby_inv_snapshot intro: refresh_inv standby_inv_closed split: prod.split standby_call.split)

interpretation sleep_run: event_machine standby_step "standby0 supported automatic" standby_inv for supported automatic
  by unfold_locales (simp add: standby_inv_def standby0_def, rule standby_step_inv)

section \<open>Calls that close sleep\<close>

definition closing_call :: "standby_call \<Rightarrow> bool" where
  "closing_call c =
     (case c of SC_Usb \<Rightarrow> True | SC_Cancel \<Rightarrow> True | SC_Ota \<Rightarrow> True | SC_Off \<Rightarrow> True
      | SC_Uart_Ready v \<Rightarrow> \<not> v | SC_View l d f \<Rightarrow> \<not> l \<or> \<not> d \<or> f | SC_Service ot bl \<Rightarrow> ot \<or> bl | _ \<Rightarrow> False)"

definition sleep_closed :: "standby \<Rightarrow> bool" where
  "sleep_closed s \<longleftrightarrow> \<not> sb_wanted s \<and> (sb_applied s \<and> sb_lock s \<longrightarrow> sb_held s \<or> sb_fatal s)"

lemma refresh_closes: "\<not> sb_wanted s \<Longrightarrow> sleep_closed (refresh_recovery e now s)"
  by (auto simp: sleep_closed_def refresh_recovery_def lock_recovery_def recovery_needed_def Let_def)

lemma closing_step: "closing_call c \<Longrightarrow> sleep_closed (standby_step s (e, c))"
  by (cases c) (auto simp: closing_call_def standby_step_def standby_closing_defs uart_ready_def view_state_def
      standby_service_def Let_def intro!: refresh_closes)

text \<open>A failed lock or setup is final: sleep stays refused until the next boot.\<close>

lemma refresh_fatal: "sb_fatal s \<Longrightarrow> sb_fatal (refresh_recovery e now s)"
  by (simp add: refresh_recovery_def lock_recovery_def)

lemma allow_start_fatal: "allow_start e cpu locked wifi s = (ok, t) \<Longrightarrow> sb_fatal s \<Longrightarrow> sb_fatal t"
  by (auto simp: allow_start_def standby_initialize_def Let_def split: if_splits)

lemma allow_fatal: "sb_fatal s \<Longrightarrow> sb_fatal (snd (standby_allow e cpu locked wifi s))"
  by (cases "allow_start e cpu locked wifi s") (simp add: allow_split Let_def refresh_fatal allow_start_fatal)

lemma standby_step_fatal: "sb_fatal s \<Longrightarrow> sb_fatal (standby_step s x)"
  by (auto simp: standby_step_def standby_closing_defs uart_ready_def uart_wake_def uart_traffic_def view_state_def
      standby_service_def standby_request_def standby_automatic_def standby_configured_def standby_snapshot_def Let_def
      allow_fatal intro!: refresh_fatal split: prod.split standby_call.split)

lemma allow_granted:
  assumes i: "standby_inv s" and g: "standby_allow e cpu locked wifi s = (True, t)"
  shows "allow_safe e cpu locked wifi s" "standby_inv t" "sb_wanted t" "sb_model t = allow_model e wifi s"
    "sb_held t = (uart_blocked (se_now e) (sb_model t) \<or> \<not> se_usb_refresh e)"
proof -
  obtain ok r where r: "allow_start e cpu locked wifi s = (ok, r)" by (rule prod.exhaust)
  let ?w = "r\<lparr>sb_wanted := (allow_safe e cpu locked wifi s \<and> ok)\<rparr>"
  have t: "t = refresh_recovery e (se_now e) ?w" "sb_wanted t" using g by (auto simp: allow_split r Let_def)
  have w: "sb_wanted ?w" using t by (auto simp: refresh_recovery_def lock_recovery_def split: if_splits)
  then have safe: "allow_safe e cpu locked wifi s" and ok: ok by simp_all
  note f = allow_start_cases[OF i r safe ok]
  have req: "sleep_requested (se_now e) (allow_model e wifi s)" "se_usb e"
    using safe unfolding allow_safe_def sleep_eligible_def by blast+
  have lock: "sb_lock r" using f(1) by (simp add: standby_inv_def)
  show "allow_safe e cpu locked wifi s" by (rule safe)
  show "sb_wanted t" by (rule t(2))
  show "standby_inv t" using f(1) safe ok t(1) refresh_inv by simp
  show "sb_model t = allow_model e wifi s" "sb_held t = (uart_blocked (se_now e) (sb_model t) \<or> \<not> se_usb_refresh e)"
    using t f(2) safe ok req lock
    by (auto simp: refresh_recovery_def lock_recovery_def recovery_needed_def Let_def split: if_splits)
qed

lemma foldl_fatal: "sb_fatal s \<Longrightarrow> sb_fatal (foldl standby_step s xs)"
  by (induction xs arbitrary: s) (simp_all add: standby_step_fatal)

lemma fatal_refuses: "sb_fatal s \<Longrightarrow> \<not> fst (standby_allow e cpu locked wifi s)"
  by (cases "allow_start e cpu locked wifi s")
    (simp add: allow_split Let_def allow_safe_def refresh_recovery_def lock_recovery_def)

text \<open>The conditions under which the task grants light sleep, and the state it grants it in.\<close>

definition grant_state :: "standby_env \<Rightarrow> u32 \<Rightarrow> bool \<Rightarrow> bool \<Rightarrow> standby \<Rightarrow> bool" where
  "grant_state e cpu locked wifi t \<longleftrightarrow>
     locked \<and> \<not> wifi \<and> cpu = 160 \<and> se_usb e \<and> se_io e \<and> \<not> se_ota e \<and>
     sb_wanted t \<and> sb_initialized t \<and> sb_lock t \<and> sb_ready t \<and> \<not> sb_fatal t \<and> \<not> sb_ble t \<and>
     sm_view (sb_model t) \<and> sm_display (sb_model t) \<and> \<not> sm_fault (sb_model t) \<and> \<not> sm_ota (sb_model t) \<and>
     sleep_requested (se_now e) (sb_model t) \<and> sb_held t = (uart_blocked (se_now e) (sb_model t) \<or> \<not> se_usb_refresh e)"

lemma granted_state:
  assumes "standby_inv s" "standby_allow e cpu locked wifi s = (True, t)"
  shows "grant_state e cpu locked wifi t"
proof -
  note f = allow_granted[OF assms]
  have "sleep_eligible (se_now e) cpu locked (wifi \<or> sb_ble s) (sb_model t)" "se_usb e" "se_io e"
    using f(1,4) unfolding allow_safe_def by simp_all
  moreover have "\<not> se_ota e"
    using f(1) by (auto simp: allow_safe_def sleep_eligible_def allow_model_def Let_def sleep_pause_def)
  ultimately show ?thesis using f(2,3,5) by (simp add: grant_state_def sleep_eligible_def standby_inv_def)
qed

text \<open>C40: After any sequence of calls, whatever the platform answers: when \<open>allow\<close> grants light sleep the view is locked, the
  display, the pins, the USB port and the update gate are safe, the radio is off, the setup of the wake sources succeeded,
  and the recovery lock is held exactly when the serial port is busy or the second look at USB no longer allows sleep; every call that closes sleep takes the grant back
  and, where sleep was configured, holds the lock or records a fatal fault; and after a fatal fault no later call grants
  sleep again.
\<close>

theorem sleep_admission_safe:
  assumes s: "s = foldl standby_step (standby0 supported automatic) xs"
  shows "(standby_allow e cpu locked wifi s = (True, t) \<longrightarrow> grant_state e cpu locked wifi t) \<and>
    (closing_call c \<longrightarrow> sleep_closed (standby_step s (e, c))) \<and>
    (sb_fatal s \<longrightarrow> \<not> fst (standby_allow e cpu locked wifi (foldl standby_step s ys)))"
  using granted_state[of s] sleep_run.inv_reachable[of supported automatic xs]
  by (auto simp: s closing_step intro!: fatal_refuses foldl_fatal)

theorem sleep_admission_safe_witness:
  "let e = \<lparr>se_now = 9000000, se_later = 9000001, se_usb = True, se_usb_refresh = True, se_ota = False, se_io = True, se_lock_rc = 0,
             se_create_rc = 0, se_setup_rc = 0\<rparr>;
       s = foldl standby_step (standby0 True False)
             [(e, SC_Uart_Ready True), (e, SC_View True True False), (e, SC_Automatic True)];
       t = snd (standby_allow e 160 True False s)
   in fst (standby_allow e 160 True False s) \<and> grant_state e 160 True False t \<and> sleep_closed (standby_step s (e, SC_Ota))"
proof -
  define e where "e = \<lparr>se_now = 9000000, se_later = 9000001, se_usb = True, se_usb_refresh = True, se_ota = False, se_io = True, se_lock_rc = 0,
             se_create_rc = 0, se_setup_rc = 0\<rparr>"
  define s where "s = foldl standby_step (standby0 True False)
             [(e, SC_Uart_Ready True), (e, SC_View True True False), (e, SC_Automatic True)]"
  have f: "fst (standby_allow e 160 True False s)" unfolding s_def e_def by code_simp
  have r: "standby_allow e 160 True False s = (True, snd (standby_allow e 160 True False s))"
    using f by (cases "standby_allow e 160 True False s") simp
  show ?thesis
    using f sleep_admission_safe[OF s_def, of e 160 True False "snd (standby_allow e 160 True False s)" SC_Ota "[]"] r
    unfolding e_def[symmetric] Let_def s_def[symmetric] by (simp add: closing_call_def)
qed

end
