(* ===== verification/Spec2Isabelle.thy ===== *)
theory Spec2Isabelle
  imports Trace_Service_Safety Dma_Reserve Nand_Guarantees Nand_Log_Safety Nand_Adapter Cold_Capsule Cold_Evidence Wifi_Profiles
    Display_Settings System_Log Twt_Trial Cold_Envelope Cold_Proof Gauge_Nominal Gauge_Recovery Fcc_Limit_Safety Contrast_Images
    Contrast_Journal Factory_Image Touch_Sleep Ocv_Diagnostic Fcc_Journal Standby_Sleep
begin

text \<open>
  Verification library for the firmware of the Stopwatch-Micro device: an ESP32 board with a display, a touch controller, a
  BQ27220 fuel gauge, a SPI NAND flash beside the usual key-value storage (NVS), Wi-Fi and an over-the-air update. The
  library models the parts of the firmware that keep state across failures: what is written to the two storages, which
  commands reach the gauge and the touch controller, and which task may run beside which. Paths are relative to \<open>src/\<close>.

  \<^bold>\<open>How the program is built.\<close> The firmware keeps its decision logic in headers named \<open>*_model.h\<close>, which are pure C++ over a
  state struct, and surrounds each with a \<open>.cpp\<close> or \<open>.inc\<close> file that owns the mutexes, the RTOS task and the driver calls.
  The theories follow that split: one theory per model header, the glue around it in the same theory or a neighbour. A
  struct is a record with a short prefix of its fields, an enum a datatype in the order of the source, \<open>uintN_t\<close> the
  word type \<open>uN\<close> of \<open>Prelude_Bytes\<close>, an array a list of its fixed length. A function that changes a struct returns the
  changed record, and an out-parameter is an extra result. A template argument, a driver call or a callback is an
  argument of the model: a record of functions that answer with a result and a new environment, so that every failure,
  short write and reboot is some environment. What such an argument is relied on to do is the assumption of a locale,
  and every locale is interpreted on a concrete storage.

  \<^bold>\<open>Shared theories.\<close>
  \<^item> \<open>Prelude_Bytes\<close>, \<open>Prelude_Words\<close>, \<open>Prelude_Chunks\<close>: integers, little-endian fields, byte arrays, and the locales
    \<open>event_machine\<close> and \<open>monotone_machine\<close>, from which every invariant over a run of calls is obtained.
  \<^item> \<open>Crc_Seal\<close>: the CRC-32 of the sources, that it sees every change of one byte, and the locales \<open>sealed_blob\<close> and
    \<open>sealed_codec\<close> of the records sealed with it. \<open>Crc_Fast\<close>: the same CRC over lists of bits, to evaluate the digest of a
    concrete image.
  \<^item> \<open>Bounded_Fifo\<close>: the bounded queue; \<open>Slot_Journal\<close>: the two-slot journals kept in NVS.

  \<^bold>\<open>The flash.\<close> Its blocks hold a payload store, a log and two areas of recovery records, all below
  \<open>main/hal/mosaico/\<close>.
  \<^item> \<open>Nand_Store\<close>, \<open>Nand_Store_Safety\<close>, \<open>Nand_Guarantees\<close> (\<open>mosaico_nand_store_model.h\<close>): the payload store over the
    page device locale; \<open>stored\<close> reads the record off the pages, and a save refines the replacement of that record.
  \<^item> \<open>Nand_Log\<close>, \<open>Nand_Log_Safety\<close> (\<open>mosaico_nand_log_model.h\<close>): the journal of the system log, its ring of index pages and
    the adoption of a record whose index write was cut off.
  \<^item> \<open>Cold_Store\<close> (\<open>mosaico_gauge_cold_store_model.h\<close>): the pair of pages of one recovery record.
  \<^item> \<open>Dma_Reserve\<close> (\<open>mosaico_nand_dma_reserve_model.h\<close>): the buffer the driver borrows.
  \<^item> \<open>Nand_Adapter\<close>, \<open>Nand_Transaction\<close>, \<open>Nand_Transaction_Safety\<close> (\<open>mosaico_nand_store.cpp\<close>): the page whitelist, the
    error mapping, and one transaction from its admission to its cleanup. The stores of the items above are instances of
    the transaction's operations, so their durability theorems are lifted to it.

  \<^bold>\<open>The discharge trace\<close> (\<open>main/host/gauge_*\<close>). \<open>Gauge_Trace\<close> is the ring of observations, \<open>Trace_Blob\<close> and
  \<open>Trace_Codec\<close> its two stored forms, \<open>Trace_Backend\<close> the flash side with the migration worker, \<open>Trace_Service\<close> and
  \<open>Trace_Service_Safety\<close> the task, with every service call, request and restart as one event of a run.

  \<^bold>\<open>The fuel gauge\<close> (\<open>main/hal/mosaico/mosaico_gauge_*\<close> and neighbours).
  \<^item> \<open>Gauge_Reads\<close>, \<open>Gauge_Fields\<close>: the closed tables of registers, reads that two turns confirm.
  \<^item> \<open>Gauge_Audit\<close>, \<open>Fcc_Limit\<close>, \<open>Fcc_Limit_Safety\<close>: coordinators that announce each command in a journal before it is
    sent, and close the gauge on every path.
  \<^item> \<open>Fcc_Journal\<close>: the stored form of the repair journal, that every journal the coordinator saves has one, and the evidence
    that admits a native recovery; \<open>Ocv_Diagnostic\<close>: the command that is sent once, at the end of a quiet window, with its
    backend \<open>GaugeOcvBackend\<close> of \<open>hal_mosaico.cpp\<close> and the static latch that outlives its runs.
  \<^item> \<open>Gauge_Nominal\<close>: the journals of the nominal capacity and their admission rules.
  \<^item> \<open>Cold_Trial\<close>, \<open>Cold_Planner\<close>, \<open>Cold_Trial_Safety\<close>: the one-shot trial, its planners, and its session over boots;
    \<open>Cold_Evidence\<close>, \<open>Cold_Capsule\<close>, \<open>Cold_Envelope\<close>, \<open>Cold_Abort\<close>, \<open>Cold_Proof\<close>: its stored records and the requests
    that authorise it.
  \<^item> \<open>Gauge_Recovery\<close>: the layout of the 131 parameters, the plans between an original and a target image and the exact
    conditions of each. The source plans and never writes; the caller that its comments oblige to store before it writes is
    the step \<open>rec_world_step\<close> of the environment. \<open>Layout_Values\<close>: the layout as a table.
  \<^item> \<open>Scale_Journal\<close>, \<open>Contrast_Trial\<close>, \<open>Contrast_Images\<close>, \<open>Contrast_Journal\<close>, \<open>Factory_Scale\<close>: three uses of that layout,
    each with its journal as an instance of \<open>Slot_Journal\<close>. \<open>Contrast_Images\<close> gives the exact conditions of the gate of the
    contrast experiment; \<open>Factory_Image\<close> evaluates the two digests of the one image that the factory profile accepts, and
    stores it.

  \<^bold>\<open>The host side\<close> (\<open>main/host/\<close>). \<open>System_Log\<close> (queue, captures and crash evidence), \<open>Wifi_Credentials\<close> and
  \<open>Wifi_Profiles\<close>, \<open>Display_Settings\<close> (settings and the write behind them), \<open>Twt_Trial\<close> (target wake time and its cycle
  ring), \<open>Touch_Sleep\<close> (the sleep trial of the touch controller beside updates), \<open>Standby_Sleep\<close> (light sleep while locked).

  \<^bold>\<open>How the parts meet.\<close> The trace task and the recovery protocol reach the flash only through a transaction; the
  system log is written by the same transaction and filled by the queue of \<open>System_Log\<close>. The trial records of
  \<open>Cold_Trial\<close> are the payload of \<open>Cold_Capsule\<close>, sealed by \<open>Cold_Envelope\<close>, stored by \<open>Cold_Store\<close>, and
  \<open>stored_trial_advances\<close> composes the four. \<open>Factory_Scale\<close> translates its blobs to those of \<open>Scale_Journal\<close>.

  \<^bold>\<open>What the lemmas show.\<close> For a stored form: that decoding an encoding returns the value, that a changed byte is refused,
  and for the gauge records that nothing but an encoding is accepted. For a store: that a save, whatever call of the
  environment fails, leaves the old state or the new one, and that success means the new one. For a task or a protocol: an
  invariant of all runs, by \<open>event_machine\<close>, and what it implies about the commands sent. For a coordinator: that the log of
  its calls has the announced order and the gauge is closed at its end. Termination is by structure or by a measure of
  the loop, and no definition uses fuel. The two loops of \<open>Ocv_Diagnostic\<close> wait for a clock: they are partial functions,
  whose value \<open>None\<close> is a run that does not return, and \<open>ocv_run_returns\<close> shows that they return when the clock
  advances by what is waited for. The bounds of the loops (pages of an area, rows of a trace, 131 fields, retries)
  are those of the source.

  \<^bold>\<open>Not modelled.\<close> A mutex is the atomicity of the step that holds it, and the tasks meet only between steps. Memory
  ownership and aliasing appear only where a function refuses an alias. Names and status lines for the console are left
  out. Left out as a whole, because they are drivers, rendering or glue whose meaning lies in code outside the repository:
  the board support (\<open>main/hal/*.cpp\<close> and the rest of \<open>main/hal/mosaico/hal_mosaico.cpp\<close>), the views
  (\<open>main/apps/app_codex_micro/\<close>), Bluetooth (\<open>main/hal/ble/\<close>), the serial console (\<open>main/debug/\<close>), the network clients
  (\<open>network_quota.cpp\<close>, \<open>host_bridge.cpp\<close>, \<open>tailscale_transport.cpp\<close> and their neighbours), the update task and its
  patch decoder (\<open>main/ota/\<close>, \<open>components/esp_delta_ota/\<close>), the runtime files (\<open>*_runtime.inc\<close>, \<open>*_crypto.cpp\<close>) that
  bind the gauge protocols to RTOS locks and signatures, and the vendored gauge driver.
\<close>

end
